(* ===== verification/Prelude.thy ===== *)
theory Prelude
  imports Main "HOL-Library.AList" "HOL-Library.Word" "HOL-Library.Signed_Division"
begin

text \<open>
  What every component of the control plane shares: the error values of Go's
  \<^verbatim>\<open>error\<close> interface, results, the representation of Go maps as association
  lists with distinct keys, counting over a map, the wrap-around of \<^verbatim>\<open>int64\<close>
  arithmetic, and instants of \<^verbatim>\<open>time.Time\<close>. The two fact collections
  \<open>go_defs\<close> and \<open>go_inv\<close> gather definitions that proofs unfold and
  preservation facts that proofs chain.
\<close>

named_theorems go_defs "definitions of operations that component proofs unfold"
named_theorems go_inv "preservation of component invariants"

subsection \<open>Errors and results\<close>

text \<open>
  The sentinel errors of \<^verbatim>\<open>core/types.go\<close>, \<^verbatim>\<open>ErrContext\<close> for a cancelled or
  expired \<^verbatim>\<open>context.Context\<close>, and \<open>ErrOther\<close> for an error made by
  \<^verbatim>\<open>errors.New\<close> that no caller matches. \<^verbatim>\<open>fmt.Errorf("%w: ...")\<close> keeps the
  sentinel of the error it wraps, so an error is its sentinel and a message, and
  \<^verbatim>\<open>errors.Is\<close> is equality of the sentinel.
\<close>

datatype err_kind = ErrNotFound | ErrConflict | ErrUnauthorized | ErrForbidden | ErrInvalid
  | ErrCapacity | ErrPrecondition | ErrExternal | ErrOwnerActionNeeded
  | ErrContext | ErrLeaseHeld | ErrTerminalCapacity | ErrAccessRevoked | ErrReplay | ErrOther

datatype goerr = GoErr (err_is: err_kind) (err_msg: string)

type_synonym 'a result = "goerr + 'a"

abbreviation errorsNew :: "string \<Rightarrow> goerr" where
  "errorsNew m \<equiv> GoErr ErrOther m"

fun is_ok :: "'a result \<Rightarrow> bool" where
  "is_ok (Inr _) = True"
| "is_ok (Inl _) = False"

subsection \<open>Machine integers and time\<close>

text \<open>
  \<open>wrap64\<close> is the value an \<^verbatim>\<open>int64\<close> addition or subtraction stores: two's
  complement at 64 bits. Go's integer division truncates, which is \<open>sdiv\<close>.
\<close>

definition wrap64 :: "int \<Rightarrow> int" where
  "wrap64 x = (x + 2 ^ 63) mod 2 ^ 64 - 2 ^ 63"

definition in_int64 :: "int \<Rightarrow> bool" where
  "in_int64 x \<longleftrightarrow> - (2 ^ 63) \<le> x \<and> x < 2 ^ 63"

lemma wrap64_id [simp]: "in_int64 x \<Longrightarrow> wrap64 x = x"
  by (simp add: wrap64_def in_int64_def)

lemma wrap64_range: "in_int64 (wrap64 x)"
proof -
  have "0 \<le> (x + 2 ^ 63) mod 2 ^ 64" "(x + 2 ^ 63) mod 2 ^ 64 < (2 ^ 64 :: int)"
    by simp_all
  then show ?thesis by (simp add: wrap64_def in_int64_def)
qed

lemma sdiv_pos: "0 \<le> a \<Longrightarrow> 0 < b \<Longrightarrow> a sdiv b = a div (b::int)"
  by (cases "a = 0") (auto simp: signed_divide_int_def)

text \<open>
  An instant is the number of nanoseconds since Go's zero \<^verbatim>\<open>time.Time\<close>, so
  \<^verbatim>\<open>t.IsZero()\<close> is \<open>t = 0\<close>, \<^verbatim>\<open>Before\<close> is \<open><\<close>, \<^verbatim>\<open>Add\<close> is \<open>+\<close>
  and \<^verbatim>\<open>UTC\<close> is the identity. Durations are nanoseconds.
\<close>

type_synonym time = int

abbreviation second :: time where "second \<equiv> 1000000000"
abbreviation minute :: time where "minute \<equiv> 60 * second"
abbreviation hour :: time where "hour \<equiv> 60 * minute"

subsection \<open>Go maps\<close>

text \<open>
  A Go map is an association list with distinct keys. Reading is \<^const>\<open>map_of\<close>,
  assignment \<^const>\<open>AList.update\<close> and the built-in \<^verbatim>\<open>delete\<close> \<^const>\<open>AList.delete\<close>;
  a \<^verbatim>\<open>for range\<close> loop that deletes the entries it matches is \<^const>\<open>filter\<close>.
  No operation below depends on the order of the list, as Go's iteration order is
  unspecified.
\<close>

type_synonym ('k, 'v) gomap = "('k \<times> 'v) list"

definition map_wf :: "('k, 'v) gomap \<Rightarrow> bool" where
  "map_wf m \<longleftrightarrow> distinct (map fst m)"

definition count_where :: "('k \<Rightarrow> 'v \<Rightarrow> bool) \<Rightarrow> ('k, 'v) gomap \<Rightarrow> nat" where
  "count_where p m = length (filter (\<lambda>(k, v). p k v) m)"

text \<open>A read of a missing key of a \<^verbatim>\<open>map[k]int\<close> is the zero value.\<close>

definition get_count :: "('k, int) gomap \<Rightarrow> 'k \<Rightarrow> int" where
  "get_count m k = (case map_of m k of None \<Rightarrow> 0 | Some n \<Rightarrow> n)"

lemma map_wf_Nil [simp]: "map_wf []"
  by (simp add: map_wf_def)

lemma map_wf_update [simp, intro]: "map_wf m \<Longrightarrow> map_wf (AList.update k v m)"
  by (simp add: map_wf_def distinct_update)

lemma map_wf_delete [simp, intro]: "map_wf m \<Longrightarrow> map_wf (AList.delete k m)"
  by (simp add: map_wf_def distinct_delete)

lemma map_wf_filter [simp, intro]: "map_wf m \<Longrightarrow> map_wf (filter p m)"
  by (simp add: map_wf_def distinct_map_filter)

lemma map_of_update [simp]: "map_of (AList.update k v m) = (map_of m)(k \<mapsto> v)"
  by (simp add: update_conv')

lemma map_of_delete [simp]: "map_of (AList.delete k m) = (map_of m)(k := None)"
  by (simp add: delete_conv')

lemma map_of_filter_wf:
  "map_wf m \<Longrightarrow> map_of (filter (\<lambda>(k, v). p k v) m) k =
     (case map_of m k of None \<Rightarrow> None | Some v \<Rightarrow> if p k v then Some v else None)"
  by (induction m)
     (auto simp: map_wf_def split: option.splits dest: map_of_SomeD weak_map_of_SomeI, force+)

lemma map_wf_in_set: "map_wf m \<Longrightarrow> (k, v) \<in> set m \<longleftrightarrow> map_of m k = Some v"
  by (simp add: map_wf_def map_of_eq_Some_iff)

lemma count_where_Nil [simp]: "count_where p [] = 0"
  by (simp add: count_where_def)

lemma count_where_Cons [simp]:
  "count_where p ((k, v) # m) = (if p k v then 1 else 0) + count_where p m"
  by (simp add: count_where_def)

lemma count_where_update:
  assumes "map_wf m"
  shows "count_where p (AList.update k v m) =
    count_where p (AList.delete k m) + (if p k v then 1 else 0)"
  using assms
proof (induction m)
  case Nil
  then show ?case by simp
next
  case (Cons a m)
  obtain k' v' where a: "a = (k', v')" by force
  show ?case
  proof (cases "k' = k")
    case True
    with Cons.prems a have "k \<notin> fst ` set m" by (auto simp: map_wf_def)
    then have "AList.delete k m = m" by (simp add: delete_idem)
    with True a show ?thesis by simp
  next
    case False
    with Cons a show ?thesis by (simp add: map_wf_def)
  qed
qed

lemma count_where_delete:
  assumes "map_wf m"
  shows "count_where p (AList.delete k m) =
    count_where p m - (case map_of m k of Some v \<Rightarrow> if p k v then 1 else 0 | None \<Rightarrow> 0)"
  using assms
proof (induction m)
  case Nil
  then show ?case by simp
next
  case (Cons a m)
  obtain k' v' where a: "a = (k', v')" by force
  show ?case
  proof (cases "k' = k")
    case True
    with Cons.prems a have "k \<notin> fst ` set m" by (auto simp: map_wf_def)
    then have "AList.delete k m = m" by (simp add: delete_idem)
    with True a show ?thesis by simp
  next
    case False
    have hit: "0 < count_where p m" if "p k v" "map_of m k = Some v" for v
    proof -
      from that have "(k, v) \<in> set (filter (\<lambda>(k, v). p k v) m)"
        by (auto dest: map_of_SomeD)
      then show ?thesis unfolding count_where_def by (rule length_pos_if_in_set)
    qed
    from Cons.prems a have "map_wf m" by (simp add: map_wf_def)
    from Cons.IH [OF this] False a hit show ?thesis
      by (cases "map_of m k") (auto simp: Suc_diff_le Suc_leI)
  qed
qed

lemma count_where_mono: "(\<And>k v. p k v \<Longrightarrow> q k v) \<Longrightarrow> count_where p m \<le> count_where q m"
  by (induction m) (auto simp: le_SucI split: prod.splits)

lemma count_where_le_length: "count_where p m \<le> length m"
  by (simp add: count_where_def)

text \<open>At most \<open>n\<close> entries with the same \<open>f\<close>.\<close>

definition bounded :: "('k, 'v) gomap \<Rightarrow> ('v \<Rightarrow> 'x) \<Rightarrow> nat \<Rightarrow> bool" where
  "bounded m f n \<longleftrightarrow> (\<forall>x. count_where (\<lambda>_ v. f v = x) m \<le> n)"

lemma count_filter_le: "count_where p (filter P m) \<le> count_where p m"
  by (induction m) auto

lemma bounded_filter: "bounded m f n \<Longrightarrow> bounded (filter P m) f n"
  unfolding bounded_def using count_filter_le order.trans by blast

lemma count_delete_conv: "count_where p (AList.delete k m) = count_where (\<lambda>k' v. k' \<noteq> k \<and> p k' v) m"
  by (induction m) auto

lemma count_update_le:
  assumes "map_wf m"
  shows "count_where p (AList.update k v m) \<le> count_where p m + (if p k v then 1 else 0)"
proof -
  have "count_where p (AList.delete k m) \<le> count_where p m"
    unfolding AList.delete_eq by (rule count_filter_le)
  then show ?thesis using count_where_update [OF assms, of p k v] by simp
qed

lemma bounded_update:
  assumes "map_wf m" "bounded m f n" "count_where (\<lambda>_ u. f u = f v) m < n"
  shows "bounded (AList.update k v m) f n"
  unfolding bounded_def
proof
  fix x
  have "count_where (\<lambda>_ u. f u = x) (AList.update k v m) \<le> count_where (\<lambda>_ u. f u = x) m + (if f v = x then 1 else 0)"
    by (rule count_update_le [OF assms(1)])
  with assms(2,3) show "count_where (\<lambda>_ u. f u = x) (AList.update k v m) \<le> n"
    by (cases "f v = x") (auto simp: bounded_def intro: order.trans)
qed

lemma count_delete_Some:
  assumes "map_wf m" "map_of m k = Some v"
  shows "count_where p m = count_where p (AList.delete k m) + (if p k v then 1 else 0)"
proof -
  have "p k v \<Longrightarrow> 0 < count_where p m"
  proof -
    assume "p k v"
    with map_of_SomeD [OF assms(2)] have "(k, v) \<in> set (filter (\<lambda>(k, v). p k v) m)" by simp
    then show ?thesis unfolding count_where_def by (rule length_pos_if_in_set)
  qed
  with count_where_delete [OF assms(1), of p k] assms(2) show ?thesis by simp
qed

lemma delete_absent: "map_of m k = None \<Longrightarrow> AList.delete k m = m"
  by (simp add: map_of_eq_None_iff delete_idem)

lemma length_as_count: "length m = count_where (\<lambda>_ _. True) m"
  by (simp add: count_where_def)

lemma count_insert:
  "map_wf m \<Longrightarrow> map_of m k = None \<Longrightarrow>
     count_where p (AList.update k v m) = count_where p m + (if p k v then 1 else 0)"
  by (simp add: count_where_update delete_absent)

lemma length_delete_le_map: "length (AList.delete k m) \<le> length m"
  by (rule length_delete_le)

lemma get_count_update [simp]:
  "get_count (AList.update k n m) k' = (if k' = k then n else get_count m k')"
  by (simp add: get_count_def)

lemma get_count_delete [simp]:
  "get_count (AList.delete k m) k' = (if k' = k then 0 else get_count m k')"
  by (simp add: get_count_def)

lemma get_count_Nil [simp]: "get_count [] k = 0"
  by (simp add: get_count_def)

subsection \<open>Counter maps\<close>

definition count_dec :: "'k \<Rightarrow> ('k, int) gomap \<Rightarrow> ('k, int) gomap" where
  "count_dec k c = (if get_count c k \<le> 1 then AList.delete k c else AList.update k (get_count c k - 1) c)"

text \<open>Decrementing a counter deletes it at one. \<open>counters_hold c f\<close>: the map \<open>c\<close> holds the counts \<open>f\<close>, and no entry for a zero count.\<close>

definition counters_hold :: "('k, int) gomap \<Rightarrow> ('k \<Rightarrow> nat) \<Rightarrow> bool" where
  "counters_hold c f \<longleftrightarrow> map_wf c \<and> (\<forall>k. map_of c k = (if f k = 0 then None else Some (int (f k))))"

lemma counters_hold_get: "counters_hold c f \<Longrightarrow> get_count c k = int (f k)"
  by (simp add: counters_hold_def get_count_def)

lemma counters_hold_Nil: "(\<And>k. f k = 0) \<Longrightarrow> counters_hold [] f"
  by (simp add: counters_hold_def)

lemma counters_hold_inc:
  assumes "counters_hold c f" "\<And>x. g x = (if x = k then Suc (f k) else f x)"
  shows "counters_hold (AList.update k (get_count c k + 1) c) g"
  using assms counters_hold_get [OF assms(1), of k] by (auto simp: counters_hold_def)

lemma counters_hold_dec:
  assumes "counters_hold c f" "\<And>x. f x = (if x = k then Suc (g k) else g x)"
  shows "counters_hold (count_dec k c) g"
  using assms counters_hold_get [OF assms(1), of k] by (auto simp: counters_hold_def count_dec_def)

end
