(* ===== verification/Go_Text.thy ===== *)
theory Go_Text
  imports Prelude
begin

text \<open>
  The part of Go's \<^verbatim>\<open>strings\<close>, \<^verbatim>\<open>bytes\<close>, \<^verbatim>\<open>unicode/utf8\<close> and
  \<^verbatim>\<open>encoding/binary\<close> packages that the control plane uses. A Go string is a
  sequence of bytes, a HOL \<^typ>\<open>string\<close>; a \<^verbatim>\<open>[]byte\<close> on the wire is a list of
  8-bit words; a rune is a code point of type \<^typ>\<open>nat\<close>. UTF-8 decoding follows the
  accept ranges of \<^verbatim>\<open>utf8.DecodeRune\<close>: an invalid byte decodes to
  \<open>RuneError\<close> with width one.
\<close>

unbundle bit_operations_syntax

type_synonym byte = "8 word"
type_synonym bytes = "byte list"

definition byte_nat :: "char \<Rightarrow> nat" where
  "byte_nat c = of_char c"

definition bytes_of :: "string \<Rightarrow> bytes" where
  "bytes_of s = map of_char s"

definition string_of :: "bytes \<Rightarrow> string" where
  "string_of b = map (\<lambda>x. char_of (unat x)) b"

lemma unat_of_char [simp]: "unat (of_char c :: byte) = of_char c"
proof -
  have "unat (of_nat (of_char c) :: byte) = of_char c mod 256"
    by (simp add: unat_of_nat del: of_char_mod_256)
  then show ?thesis by (simp add: of_nat_of_char)
qed

lemma string_of_bytes_of [simp]: "string_of (bytes_of s) = s"
  by (induction s) (auto simp: string_of_def bytes_of_def)

subsection \<open>UTF-8\<close>

definition RuneError :: nat where "RuneError = 65533"

definition cont :: "nat \<Rightarrow> bool" where
  "cont b \<longleftrightarrow> 128 \<le> b \<and> b \<le> 191"

text \<open>The accepted range of the second byte after first byte \<open>b0\<close>.\<close>

definition second_ok :: "nat \<Rightarrow> nat \<Rightarrow> bool" where
  "second_ok b0 b1 \<longleftrightarrow>
     (if b0 = 224 then 160 \<le> b1 \<and> b1 \<le> 191
      else if b0 = 237 then 128 \<le> b1 \<and> b1 \<le> 159
      else if b0 = 240 then 144 \<le> b1 \<and> b1 \<le> 191
      else if b0 = 244 then 128 \<le> b1 \<and> b1 \<le> 143
      else cont b1)"

text \<open>
  \<open>decode_rune\<close> gives the rune at the head of a byte sequence, its width, and whether
  the encoding was valid.
\<close>

fun decode_rune :: "nat list \<Rightarrow> nat \<times> nat \<times> bool" where
  "decode_rune [] = (RuneError, 0, False)"
| "decode_rune (b0 # bs) =
    (if b0 < 128 then (b0, 1, True)
     else if 194 \<le> b0 \<and> b0 \<le> 223 then
       (case bs of b1 # _ \<Rightarrow>
          if second_ok b0 b1 then ((b0 - 192) * 64 + (b1 - 128), 2, True)
          else (RuneError, 1, False)
        | _ \<Rightarrow> (RuneError, 1, False))
     else if 224 \<le> b0 \<and> b0 \<le> 239 then
       (case bs of b1 # b2 # _ \<Rightarrow>
          if second_ok b0 b1 \<and> cont b2
          then ((b0 - 224) * 4096 + (b1 - 128) * 64 + (b2 - 128), 3, True)
          else (RuneError, 1, False)
        | _ \<Rightarrow> (RuneError, 1, False))
     else if 240 \<le> b0 \<and> b0 \<le> 244 then
       (case bs of b1 # b2 # b3 # _ \<Rightarrow>
          if second_ok b0 b1 \<and> cont b2 \<and> cont b3
          then ((b0 - 240) * 262144 + (b1 - 128) * 4096 + (b2 - 128) * 64 + (b3 - 128), 4, True)
          else (RuneError, 1, False)
        | _ \<Rightarrow> (RuneError, 1, False))
     else (RuneError, 1, False))"

lemma decode_rune_width:
  "bs \<noteq> [] \<Longrightarrow> 0 < fst (snd (decode_rune bs)) \<and> fst (snd (decode_rune bs)) \<le> length bs"
  by (cases bs) (auto split: list.splits)

text \<open>
  All runes of a byte sequence with their widths and validity, in order: what
  \<^verbatim>\<open>for _, r := range s\<close> visits.
\<close>

function runes :: "nat list \<Rightarrow> (nat \<times> nat \<times> bool) list" where
  "runes bs = (if bs = [] then [] else
     (let (r, w, ok) = decode_rune bs in (r, w, ok) # runes (drop w bs)))"
  by pat_completeness auto
termination
proof (relation "measure length", simp)
  fix bs :: "nat list" and x r y w ok
  assume "bs \<noteq> []" "x = decode_rune bs" "(r, y) = x" "(w, ok) = y"
  then show "(drop w bs, bs) \<in> measure length"
    using decode_rune_width [of bs] by (auto dest: sym)
qed

declare runes.simps [simp del]

lemma runes_Nil [simp]: "runes [] = []"
  by (simp add: runes.simps)

lemma runes_ascii [simp]: "b < 128 \<Longrightarrow> runes (b # bs) = (b, 1, True) # runes bs"
  by (simp add: runes.simps [of "b # bs"])

definition utf8_valid :: "nat list \<Rightarrow> bool" where
  "utf8_valid bs \<longleftrightarrow> list_all (\<lambda>(r, w, ok). ok) (runes bs)"

definition string_runes :: "string \<Rightarrow> nat list" where
  "string_runes s = map fst (runes (map byte_nat s))"

definition valid_string :: "string \<Rightarrow> bool" where
  "valid_string s \<longleftrightarrow> utf8_valid (map byte_nat s)"

text \<open>The encoding of a rune, for \<^verbatim>\<open>string([]rune)\<close>.\<close>

definition encode_rune :: "nat \<Rightarrow> nat list" where
  "encode_rune r =
     (if r < 128 then [r]
      else if r < 2048 then [192 + r div 64, 128 + r mod 64]
      else if r > 1114111 \<or> (55296 \<le> r \<and> r \<le> 57343) then [239, 191, 189]
      else if r < 65536 then [224 + r div 4096, 128 + r div 64 mod 64, 128 + r mod 64]
      else [240 + r div 262144, 128 + r div 4096 mod 64, 128 + r div 64 mod 64, 128 + r mod 64])"

subsection \<open>White space, case and searching\<close>

text \<open>\<^verbatim>\<open>unicode.IsSpace\<close>.\<close>

definition is_space :: "nat \<Rightarrow> bool" where
  "is_space r \<longleftrightarrow> r \<in> {9, 10, 11, 12, 13, 32, 133, 160, 5760, 8232, 8233, 8239, 8287, 12288}
     \<or> (8192 \<le> r \<and> r \<le> 8202)"

text \<open>
  \<^verbatim>\<open>strings.TrimSpace\<close>: the bytes left when white-space runes are dropped at both
  ends. The rune list carries each rune's width, so the result is a sub-list of the bytes.
\<close>

fun drop_runes :: "(nat \<times> nat \<times> bool) list \<Rightarrow> string \<Rightarrow> string" where
  "drop_runes [] s = s"
| "drop_runes ((r, w, ok) # rs) s = (if is_space r then drop_runes rs (drop w s) else s)"

definition trim_space :: "string \<Rightarrow> string" where
  "trim_space s =
     (let l = drop_runes (runes (map byte_nat s)) s;
          rs = runes (map byte_nat l);
          n = sum_list (map (\<lambda>(r, w, ok). w) (takeWhile (\<lambda>(r, w, ok). is_space r) (rev rs)))
      in take (length l - n) l)"

text \<open>
  \<^verbatim>\<open>strings.ToUpper\<close> and \<^verbatim>\<open>strings.ToLower\<close> on runes. Every use in the control plane
  compares the result with ASCII text, so only the runes whose image is ASCII are listed:
  the ASCII letters, U+0131 and U+017F (to \<open>I\<close> and \<open>S\<close>) for upper case, U+0130 and
  U+212A (to \<open>i\<close> and \<open>k\<close>) for lower case. The other runes have non-ASCII images and
  are left in place.
\<close>

definition upper_rune :: "nat \<Rightarrow> nat" where
  "upper_rune r = (if 97 \<le> r \<and> r \<le> 122 then r - 32
                   else if r = 305 then 73 else if r = 383 then 83 else r)"

definition lower_rune :: "nat \<Rightarrow> nat" where
  "lower_rune r = (if 65 \<le> r \<and> r \<le> 90 then r + 32
                   else if r = 304 then 105 else if r = 8490 then 107 else r)"

definition to_upper :: "string \<Rightarrow> nat list" where
  "to_upper s = map upper_rune (string_runes s)"

definition to_lower :: "string \<Rightarrow> nat list" where
  "to_lower s = map lower_rune (string_runes s)"

definition ascii :: "string \<Rightarrow> nat list" where
  "ascii s = map byte_nat s"

fun has_prefix :: "'a list \<Rightarrow> 'a list \<Rightarrow> bool" where
  "has_prefix s [] = True"
| "has_prefix [] (p # ps) = False"
| "has_prefix (x # s) (p # ps) = (x = p \<and> has_prefix s ps)"

lemma has_prefix_iff: "has_prefix s p \<longleftrightarrow> (\<exists>t. s = p @ t)"
  by (induction s p rule: has_prefix.induct) auto

text \<open>\<^verbatim>\<open>bytes.Index\<close>: the first position where the pattern occurs.\<close>

fun index_of :: "'a list \<Rightarrow> 'a list \<Rightarrow> nat option" where
  "index_of [] p = (if p = [] then Some 0 else None)"
| "index_of (x # s) p = (if has_prefix (x # s) p then Some 0 else map_option Suc (index_of s p))"

lemma index_of_Some:
  "index_of s p = Some i \<Longrightarrow> i + length p \<le> length s \<and> has_prefix (drop i s) p"
  by (induction s arbitrary: i)
     (auto simp: has_prefix_iff split: if_splits, metis le_add1 length_Cons length_append)

text \<open>\<^verbatim>\<open>strings.Split\<close> on a one-byte separator, and \<^verbatim>\<open>strings.Trim\<close> of one byte.\<close>

fun split_on :: "'a \<Rightarrow> 'a list \<Rightarrow> 'a list list" where
  "split_on c [] = [[]]"
| "split_on c (x # s) =
     (case split_on c s of
        w # ws \<Rightarrow> if x = c then [] # w # ws else (x # w) # ws
      | [] \<Rightarrow> [[x]])"

lemma split_on_free: "c \<notin> set s \<Longrightarrow> split_on c s = [s]"
  by (induction s) auto

lemma split_on_two: "c \<notin> set x \<Longrightarrow> c \<notin> set y \<Longrightarrow> split_on c (x @ c # y) = [x, y]"
  by (induction x) (auto simp: split_on_free)

lemma has_prefix_append [simp]: "has_prefix (p @ s) p"
  by (simp add: has_prefix_iff)

definition trim_char :: "'a \<Rightarrow> 'a list \<Rightarrow> 'a list" where
  "trim_char c s = rev (dropWhile ((=) c) (rev (dropWhile ((=) c) s)))"

text \<open>\<^verbatim>\<open>strconv.Itoa\<close> of a natural number.\<close>

function decimal :: "nat \<Rightarrow> string" where
  "decimal n = (if n < 10 then [char_of (48 + n)] else decimal (n div 10) @ [char_of (48 + n mod 10)])"
  by auto
termination by (relation "measure (\<lambda>n. n)") auto

declare decimal.simps [simp del]

subsection \<open>Big-endian integers\<close>

definition be16 :: "16 word \<Rightarrow> bytes" where
  "be16 v = [ucast (drop_bit 8 v), ucast v]"

definition be32 :: "32 word \<Rightarrow> bytes" where
  "be32 v = [ucast (drop_bit 24 v), ucast (drop_bit 16 v), ucast (drop_bit 8 v), ucast v]"

definition be64 :: "64 word \<Rightarrow> bytes" where
  "be64 v = [ucast (drop_bit 56 v), ucast (drop_bit 48 v), ucast (drop_bit 40 v),
     ucast (drop_bit 32 v), ucast (drop_bit 24 v), ucast (drop_bit 16 v),
     ucast (drop_bit 8 v), ucast v]"

definition be_acc :: "'a::len word \<Rightarrow> byte \<Rightarrow> 'a word" where
  "be_acc acc b = push_bit 8 acc OR ucast b"

definition from_be :: "bytes \<Rightarrow> 'a::len word" where
  "from_be bs = foldl be_acc 0 bs"

text \<open>One step of reading: the bytes above position \<open>k\<close> and the byte at \<open>k\<close>.\<close>

lemma be_glue:
  fixes v :: "'a::len word"
  shows "push_bit 8 (drop_bit (k + 8) v) OR ucast (ucast (drop_bit k v) :: byte) = drop_bit k v"
proof (rule bit_word_eqI)
  fix n
  assume "n < LENGTH('a)"
  then show "bit (push_bit 8 (drop_bit (k + 8) v) OR ucast (ucast (drop_bit k v) :: byte)) n
      = bit (drop_bit k v) n"
    by (cases "n < 8") (auto simp: bit_simps add.commute add.left_commute)
qed

lemma be_top:
  fixes v :: "'a::len word"
  assumes "LENGTH('a) = k + 8"
  shows "(ucast (ucast (drop_bit k v) :: byte) :: 'a word) = drop_bit k v"
  using assms by (intro bit_word_eqI) (auto simp: bit_simps dest: bit_imp_le_length)

lemma from_be_be16 [simp]: "from_be (be16 v) = v"
  unfolding from_be_def be16_def foldl.simps be_acc_def be_top [of 8 v, simplified] push_bit_of_0 or.left_neutral
  by (rule be_glue [of 0 v, simplified])

lemma from_be_be32 [simp]: "from_be (be32 v) = v"
  unfolding from_be_def be32_def foldl.simps be_acc_def push_bit_of_0 or.left_neutral
    be_top [of 24 v, simplified] be_glue [of 16 v, simplified] be_glue [of 8 v, simplified]
  by (rule be_glue [of 0 v, simplified])

lemma from_be_be64 [simp]: "from_be (be64 v) = v"
  unfolding from_be_def be64_def foldl.simps be_acc_def push_bit_of_0 or.left_neutral
    be_top [of 56 v, simplified] be_glue [of 48 v, simplified] be_glue [of 40 v, simplified]
    be_glue [of 32 v, simplified] be_glue [of 24 v, simplified] be_glue [of 16 v, simplified]
    be_glue [of 8 v, simplified]
  by (rule be_glue [of 0 v, simplified])

text \<open>Writing what was read gives the same bytes.\<close>

lemma be_low:
  fixes acc :: "'a::len word" and b :: byte
  assumes "8 \<le> LENGTH('a)"
  shows "ucast (be_acc acc b) = b"
  using assms by (intro bit_word_eqI) (auto simp: be_acc_def bit_simps)

lemma be_high:
  fixes acc :: "'a::len word" and b :: byte
  assumes "8 \<le> k" "k + 8 \<le> LENGTH('a)"
  shows "(ucast (drop_bit k (be_acc acc b)) :: byte) = ucast (drop_bit (k - 8) acc)"
proof (rule bit_word_eqI)
  fix n
  assume "n < LENGTH(8)"
  then have "n < 8" by simp
  with assms show "bit (ucast (drop_bit k (be_acc acc b)) :: byte) n
      = bit (ucast (drop_bit (k - 8) acc) :: byte) n"
    by (auto simp: be_acc_def bit_simps dest: bit_imp_le_length)
qed

lemma list_2: "length bs = 2 \<Longrightarrow> \<exists>a b. bs = [a, b]"
  by (auto simp: length_Suc_conv numeral_2_eq_2)

lemma list_4: "length bs = 4 \<Longrightarrow> \<exists>a b c d. bs = [a, b, c, d]"
  by (auto simp: length_Suc_conv eval_nat_numeral)

lemma list_8: "length bs = 8 \<Longrightarrow> \<exists>a b c d e f g h. bs = [a, b, c, d, e, f, g, h]"
  by (auto simp: length_Suc_conv eval_nat_numeral)

lemma be16_from_be: "length bs = 2 \<Longrightarrow> be16 (from_be bs) = bs"
  by (auto dest!: list_2 simp: be16_def from_be_def be_low be_high)

lemma be32_from_be: "length bs = 4 \<Longrightarrow> be32 (from_be bs) = bs"
  by (auto dest!: list_4 simp: be32_def from_be_def be_low be_high)

lemma be64_from_be: "length bs = 8 \<Longrightarrow> be64 (from_be bs) = bs"
  by (auto dest!: list_8 simp: be64_def from_be_def be_low be_high)

lemma length_be [simp]: "length (be16 a) = 2" "length (be32 b) = 4" "length (be64 c) = 8"
  by (simp_all add: be16_def be32_def be64_def)

end
