(* ===== verification/Core_Types.thy ===== *)
theory Core_Types
  imports Go_Text
begin

text \<open>
  Package \<^verbatim>\<open>core\<close> (\<^verbatim>\<open>core/types.go\<close>): the workspace life cycle and its transition
  table, safety modes and retention policies, quotas, repositories, workspaces, and the
  defaults and validation of a create request.
\<close>

subsection \<open>Workspace states\<close>

text \<open>
  The Go type is a string with named constants. Every state the control plane writes is
  one of the constants, so the model is the enumeration; \<^verbatim>\<open>Valid\<close>, membership in the
  table, holds of each of them.
\<close>

datatype workspace_state = WorkspaceQueued | WorkspaceProvisioning | WorkspaceAwaitingSetupApproval
  | WorkspaceReady | WorkspaceRunning | WorkspaceNeedsAttention | WorkspaceIdle
  | WorkspaceSuspending | WorkspaceSuspended | WorkspaceFailed | WorkspaceMaintenance
  | WorkspaceDeleting

fun workspaceTransitions :: "workspace_state \<Rightarrow> workspace_state list" where
  "workspaceTransitions WorkspaceQueued = [WorkspaceProvisioning, WorkspaceDeleting, WorkspaceFailed]"
| "workspaceTransitions WorkspaceProvisioning =
     [WorkspaceAwaitingSetupApproval, WorkspaceReady, WorkspaceFailed, WorkspaceDeleting]"
| "workspaceTransitions WorkspaceAwaitingSetupApproval =
     [WorkspaceProvisioning, WorkspaceFailed, WorkspaceDeleting]"
| "workspaceTransitions WorkspaceReady =
     [WorkspaceRunning, WorkspaceSuspending, WorkspaceDeleting, WorkspaceFailed, WorkspaceMaintenance]"
| "workspaceTransitions WorkspaceRunning =
     [WorkspaceNeedsAttention, WorkspaceIdle, WorkspaceSuspending, WorkspaceFailed, WorkspaceMaintenance]"
| "workspaceTransitions WorkspaceNeedsAttention =
     [WorkspaceRunning, WorkspaceSuspending, WorkspaceFailed, WorkspaceMaintenance]"
| "workspaceTransitions WorkspaceIdle =
     [WorkspaceRunning, WorkspaceSuspending, WorkspaceFailed, WorkspaceMaintenance]"
| "workspaceTransitions WorkspaceSuspending = [WorkspaceSuspended, WorkspaceFailed]"
| "workspaceTransitions WorkspaceSuspended =
     [WorkspaceProvisioning, WorkspaceDeleting, WorkspaceMaintenance]"
| "workspaceTransitions WorkspaceFailed = [WorkspaceProvisioning, WorkspaceDeleting]"
| "workspaceTransitions WorkspaceMaintenance =
     [WorkspaceProvisioning, WorkspaceSuspended, WorkspaceFailed]"
| "workspaceTransitions WorkspaceDeleting = []"

definition CanTransition :: "workspace_state \<Rightarrow> workspace_state \<Rightarrow> bool" where
  "CanTransition s to \<longleftrightarrow> s = to \<or> to \<in> set (workspaceTransitions s)"

fun CountsAsRunning :: "workspace_state \<Rightarrow> bool" where
  "CountsAsRunning WorkspaceProvisioning = True"
| "CountsAsRunning WorkspaceReady = True"
| "CountsAsRunning WorkspaceRunning = True"
| "CountsAsRunning WorkspaceNeedsAttention = True"
| "CountsAsRunning WorkspaceIdle = True"
| "CountsAsRunning WorkspaceSuspending = True"
| "CountsAsRunning WorkspaceMaintenance = True"
| "CountsAsRunning WorkspaceDeleting = True"
| "CountsAsRunning _ = False"

subsection \<open>Policies and quotas\<close>

text \<open>
  Safety mode and retention come from requests, so they stay the strings they are in Go:
  an unknown string reaches \<^verbatim>\<open>Valid\<close>.
\<close>

type_synonym safety_mode = string
type_synonym retention_policy = string

definition SafetySafe :: safety_mode where "SafetySafe = ''safe''"
definition SafetyBalanced :: safety_mode where "SafetyBalanced = ''balanced''"
definition SafetyFullAccess :: safety_mode where "SafetyFullAccess = ''full_access''"

definition SafetyMode_Valid :: "safety_mode \<Rightarrow> bool" where
  "SafetyMode_Valid m \<longleftrightarrow> m = SafetySafe \<or> m = SafetyBalanced \<or> m = SafetyFullAccess"

definition Retention7Days :: retention_policy where "Retention7Days = ''7_days''"
definition Retention30Days :: retention_policy where "Retention30Days = ''30_days''"
definition Retention90Days :: retention_policy where "Retention90Days = ''90_days''"
definition RetentionForever :: retention_policy where "RetentionForever = ''keep_forever''"

definition Retention_Valid :: "retention_policy \<Rightarrow> bool" where
  "Retention_Valid p \<longleftrightarrow> p = Retention7Days \<or> p = Retention30Days \<or> p = Retention90Days
     \<or> p = RetentionForever"

record quota =
  CPUMilli :: int
  MemoryMiB :: int
  DiskGiB :: int

definition zero_quota :: quota where
  "zero_quota = \<lparr>CPUMilli = 0, MemoryMiB = 0, DiskGiB = 0\<rparr>"

definition MinimumWorkspaceDiskGiB :: int where "MinimumWorkspaceDiskGiB = 8"
definition DefaultWorkspaceDiskGiB :: int where "DefaultWorkspaceDiskGiB = 12"
definition MaximumWorkspaceDiskGiB :: int where "MaximumWorkspaceDiskGiB = 16"

record repository =
  r_ID :: string
  r_InstallationID :: int
  r_FullName :: string
  r_DefaultBranch :: string
  r_Private :: bool
  r_Organization :: bool
  r_Permission :: string
  r_UpdatedAt :: time

definition Repository_Validate :: "repository \<Rightarrow> unit result" where
  "Repository_Validate r =
     (if r_ID r = '''' \<or> r_InstallationID r \<le> 0
         \<or> length (filter ((=) (CHR ''/'')) (r_FullName r)) \<noteq> 1 \<or> r_DefaultBranch r = ''''
      then Inl (GoErr ErrInvalid ''invalid repository identity'') else Inr ())"

subsection \<open>Workspaces\<close>

record workspace =
  ws_ID :: string
  ws_OwnerID :: string
  ws_Repository :: repository
  ws_Name :: string
  ws_Branch :: string
  ws_BaseBranch :: string
  ws_WorktreePath :: string
  ws_State :: workspace_state
  ws_SafetyMode :: safety_mode
  ws_Retention :: retention_policy
  ws_IdleTimeoutMinutes :: int
  ws_NestedContainers :: bool
  ws_SetupApproved :: bool
  ws_DevcontainerDir :: string
  ws_DevcontainerSupported :: bool
  ws_PrivateInputsPending :: bool
  ws_Dirty :: bool
  ws_Unpushed :: bool
  ws_Quota :: quota
  ws_RequestedDiskGiB :: int
  ws_ProviderResourceID :: string
  ws_FailureCode :: string
  ws_CreatedAt :: time
  ws_UpdatedAt :: time
  ws_LastActivityAt :: time
  ws_SuspendedAt :: "time option"
  ws_EnvironmentVariables :: "(string, string) gomap"
  ws_InitialPrompt :: string

definition MayAutoDelete :: "workspace \<Rightarrow> bool" where
  "MayAutoDelete w \<longleftrightarrow> \<not> ws_Dirty w \<and> \<not> ws_Unpushed w \<and> ws_Retention w \<noteq> RetentionForever"

record create_input =
  in_RepositoryID :: string
  in_Name :: string
  in_BaseBranch :: string
  in_InitialPrompt :: string
  in_SafetyMode :: safety_mode
  in_Retention :: retention_policy
  in_NestedContainers :: bool
  in_EnvironmentVariables :: "(string, string) gomap"
  in_RequestedDiskGiB :: int

definition ApplyDefaults :: "create_input \<Rightarrow> string \<Rightarrow> create_input" where
  "ApplyDefaults i defaultBranch =
     (let i1 = (if in_BaseBranch i = '''' then i\<lparr>in_BaseBranch := defaultBranch\<rparr> else i);
          i2 = (if in_SafetyMode i1 = '''' then i1\<lparr>in_SafetyMode := SafetyBalanced\<rparr> else i1);
          i3 = (if in_Retention i2 = '''' then i2\<lparr>in_Retention := Retention30Days\<rparr> else i2)
      in if in_RequestedDiskGiB i3 = 0
         then i3\<lparr>in_RequestedDiskGiB := DefaultWorkspaceDiskGiB\<rparr> else i3)"

definition name_start :: "char \<Rightarrow> bool" where
  "name_start c \<longleftrightarrow> (65 \<le> byte_nat c \<and> byte_nat c \<le> 90) \<or> (97 \<le> byte_nat c \<and> byte_nat c \<le> 122)
     \<or> c = CHR ''_''"

definition name_char :: "char \<Rightarrow> bool" where
  "name_char c \<longleftrightarrow> (65 \<le> byte_nat c \<and> byte_nat c \<le> 90) \<or> (97 \<le> byte_nat c \<and> byte_nat c \<le> 122)
     \<or> (48 \<le> byte_nat c \<and> byte_nat c \<le> 57) \<or> c = CHR ''_''"

fun validEnvironmentName :: "string \<Rightarrow> bool" where
  "validEnvironmentName [] = False"
| "validEnvironmentName (c # cs) =
     (length (c # cs) \<le> 128 \<and> name_start c \<and> list_all name_char cs)"

definition reservedEnvironmentName :: "string \<Rightarrow> bool" where
  "reservedEnvironmentName value =
     (let upper = to_upper value in
      if has_prefix upper (ascii ''LD_'') \<or> has_prefix upper (ascii ''DYLD_'')
         \<or> has_prefix upper (ascii ''GIT_CONFIG_'') \<or> has_prefix upper (ascii ''CODER_'')
         \<or> has_prefix upper (ascii ''CODEX_MOBILE_'') then True
      else upper \<in> set (map ascii [''PATH'', ''HOME'', ''SHELL'', ''USER'', ''LOGNAME'', ''PWD'',
        ''OLDPWD'', ''CODEX_HOME'', ''BASH_ENV'', ''ENV'', ''GIT_ASKPASS'', ''GIT_SSH'',
        ''SSH_AUTH_SOCK'']))"

definition env_entry_ok :: "string \<times> string \<Rightarrow> bool" where
  "env_entry_ok e = (case e of (name, value) \<Rightarrow>
     \<not> (\<not> validEnvironmentName name \<or> reservedEnvironmentName name \<or> length value > 8192
        \<or> CHR 0x00 \<in> set value))"

definition env_total :: "(string, string) gomap \<Rightarrow> nat" where
  "env_total env = sum_list (map (\<lambda>(name, value). length name + length value) env)"

definition CreateWorkspaceInput_Validate :: "create_input \<Rightarrow> unit result" where
  "CreateWorkspaceInput_Validate i =
     (if in_RepositoryID i = '''' \<or> trim_space (in_Name i) = '''' \<or> length (in_Name i) > 120
         \<or> in_BaseBranch i = ''''
      then Inl (GoErr ErrInvalid ''missing or invalid workspace identity'')
      else if \<not> SafetyMode_Valid (in_SafetyMode i) \<or> \<not> Retention_Valid (in_Retention i)
      then Inl (GoErr ErrInvalid ''invalid safety mode or retention'')
      else if length (in_InitialPrompt i) > 100000 \<or> \<not> valid_string (in_InitialPrompt i)
         \<or> CHR 0x00 \<in> set (in_InitialPrompt i)
      then Inl (GoErr ErrInvalid ''initial prompt exceeds 100,000 bytes'')
      else if in_RequestedDiskGiB i < MinimumWorkspaceDiskGiB
         \<or> in_RequestedDiskGiB i > MaximumWorkspaceDiskGiB
      then Inl (GoErr ErrInvalid ''requested disk must be between 8 and 16 GiB'')
      else if length (in_EnvironmentVariables i) > 100
      then Inl (GoErr ErrInvalid ''too many environment variables'')
      else if \<not> list_all env_entry_ok (in_EnvironmentVariables i)
      then Inl (GoErr ErrInvalid ''invalid or reserved environment variable'')
      else if env_total (in_EnvironmentVariables i) > 256 * 1024
      then Inl (GoErr ErrInvalid ''environment variables exceed aggregate limit'')
      else Inr ())"

subsection \<open>Properties of the transition table\<close>

lemma CanTransition_refl [simp]: "CanTransition s s"
  by (simp add: CanTransition_def)

lemma CanTransition_from_deleting [simp]: "CanTransition WorkspaceDeleting t \<longleftrightarrow> t = WorkspaceDeleting"
  by (auto simp: CanTransition_def)

lemma CanTransition_to_suspending:
  "CanTransition s WorkspaceSuspending \<longleftrightarrow>
     s \<in> {WorkspaceReady, WorkspaceRunning, WorkspaceNeedsAttention, WorkspaceIdle, WorkspaceSuspending}"
  by (cases s) (auto simp: CanTransition_def)

lemma CanTransition_to_suspended:
  "CanTransition s WorkspaceSuspended \<longleftrightarrow>
     s \<in> {WorkspaceSuspending, WorkspaceMaintenance, WorkspaceSuspended}"
  by (cases s) (auto simp: CanTransition_def)

text \<open>A step that enters the counted states from outside them leads to provisioning,
  deletion or maintenance.\<close>

lemma CanTransition_start:
  "CanTransition s t \<Longrightarrow> \<not> CountsAsRunning s \<Longrightarrow> CountsAsRunning t \<Longrightarrow>
     t = WorkspaceProvisioning \<or> t = WorkspaceDeleting \<or> t = WorkspaceMaintenance"
  by (cases s; cases t) (auto simp: CanTransition_def)

subsection \<open>Properties of create requests\<close>

lemma name_char_ascii: "name_char c \<Longrightarrow> byte_nat c < 128"
  by (auto simp: name_char_def byte_nat_def)

lemma name_start_char: "name_start c \<Longrightarrow> name_char c"
  by (auto simp: name_start_def name_char_def)

lemma validEnvironmentName_chars: "validEnvironmentName n \<Longrightarrow> list_all name_char n"
  by (cases n) (auto intro: name_start_char)

lemma runes_ascii_list:
  "list_all (\<lambda>b. b < 128) bs \<Longrightarrow> runes bs = map (\<lambda>b. (b, 1, True)) bs"
  by (induction bs) auto

lemma to_upper_name: "list_all name_char n \<Longrightarrow> to_upper n = map (upper_rune \<circ> byte_nat) n"
  by (simp add: to_upper_def string_runes_def runes_ascii_list list_all_length name_char_ascii)

text \<open>
  On valid names the reserved check is insensitive to case: it depends only on the
  upper-case image of the name.
\<close>

lemma reserved_case_insensitive:
  assumes "validEnvironmentName n" "validEnvironmentName m"
    and "map (upper_rune \<circ> byte_nat) n = map (upper_rune \<circ> byte_nat) m"
  shows "reservedEnvironmentName n = reservedEnvironmentName m"
  using assms by (simp add: reservedEnvironmentName_def to_upper_name validEnvironmentName_chars)

lemma ApplyDefaults_fields [simp]:
  "in_RepositoryID (ApplyDefaults i b) = in_RepositoryID i"
  "in_Name (ApplyDefaults i b) = in_Name i"
  "in_InitialPrompt (ApplyDefaults i b) = in_InitialPrompt i"
  "in_NestedContainers (ApplyDefaults i b) = in_NestedContainers i"
  "in_EnvironmentVariables (ApplyDefaults i b) = in_EnvironmentVariables i"
  "in_BaseBranch (ApplyDefaults i b) = (if in_BaseBranch i = [] then b else in_BaseBranch i)"
  "in_SafetyMode (ApplyDefaults i b) = (if in_SafetyMode i = [] then SafetyBalanced else in_SafetyMode i)"
  "in_Retention (ApplyDefaults i b) = (if in_Retention i = [] then Retention30Days else in_Retention i)"
  "in_RequestedDiskGiB (ApplyDefaults i b) =
     (if in_RequestedDiskGiB i = 0 then DefaultWorkspaceDiskGiB else in_RequestedDiskGiB i)"
  by (simp_all add: ApplyDefaults_def Let_def)

lemma ApplyDefaults_idem: "ApplyDefaults (ApplyDefaults i b) c = ApplyDefaults i b" if "b \<noteq> []"
  using that
  by (simp add: ApplyDefaults_def Let_def SafetyBalanced_def Retention30Days_def
      DefaultWorkspaceDiskGiB_def)

lemma Validate_ok_iff:
  "CreateWorkspaceInput_Validate i = Inr () \<longleftrightarrow>
     in_RepositoryID i \<noteq> [] \<and> trim_space (in_Name i) \<noteq> [] \<and> length (in_Name i) \<le> 120
     \<and> in_BaseBranch i \<noteq> [] \<and> SafetyMode_Valid (in_SafetyMode i) \<and> Retention_Valid (in_Retention i)
     \<and> length (in_InitialPrompt i) \<le> 100000 \<and> valid_string (in_InitialPrompt i)
     \<and> CHR 0x00 \<notin> set (in_InitialPrompt i)
     \<and> MinimumWorkspaceDiskGiB \<le> in_RequestedDiskGiB i
     \<and> in_RequestedDiskGiB i \<le> MaximumWorkspaceDiskGiB
     \<and> length (in_EnvironmentVariables i) \<le> 100
     \<and> list_all env_entry_ok (in_EnvironmentVariables i)
     \<and> env_total (in_EnvironmentVariables i) \<le> 256 * 1024"
  by (auto simp: CreateWorkspaceInput_Validate_def not_less)

lemma Validate_error_kind:
  "CreateWorkspaceInput_Validate i = Inl e \<Longrightarrow> err_is e = ErrInvalid"
  by (auto simp: CreateWorkspaceInput_Validate_def split: if_splits)

text \<open>A create request that passes \<^verbatim>\<open>Validate\<close> after \<^verbatim>\<open>ApplyDefaults\<close> asks for a disk
  between 8 and 16 GiB, has a known safety mode and retention, a prompt of at most 100,000
  bytes of valid UTF-8, and no environment variable whose name is reserved in any letter
  case, so a request can never set \<^verbatim>\<open>PATH\<close>, \<^verbatim>\<open>Ld_Preload\<close> and their like.\<close>

theorem validated_request_safe:
  assumes "CreateWorkspaceInput_Validate (ApplyDefaults i b) = Inr ()"
  shows "in_RequestedDiskGiB (ApplyDefaults i b) \<in> {8..16}
    \<and> SafetyMode_Valid (in_SafetyMode (ApplyDefaults i b))
    \<and> Retention_Valid (in_Retention (ApplyDefaults i b))
    \<and> length (in_InitialPrompt i) \<le> 100000 \<and> valid_string (in_InitialPrompt i)
    \<and> (\<forall>(n, v) \<in> set (in_EnvironmentVariables i).
         validEnvironmentName n \<and> length v \<le> 8192
         \<and> (\<forall>m. validEnvironmentName m
              \<and> map (upper_rune \<circ> byte_nat) m = map (upper_rune \<circ> byte_nat) n
              \<longrightarrow> \<not> reservedEnvironmentName m))"
proof -
  have entry: "env_entry_ok e" if "e \<in> set (in_EnvironmentVariables i)" for e
    using assms that unfolding Validate_ok_iff by (simp add: list_all_iff)
  have vars: "validEnvironmentName n \<and> length v \<le> 8192
         \<and> (\<forall>m. validEnvironmentName m
              \<and> map (upper_rune \<circ> byte_nat) m = map (upper_rune \<circ> byte_nat) n
              \<longrightarrow> \<not> reservedEnvironmentName m)"
    if "(n, v) \<in> set (in_EnvironmentVariables i)" for n v
    using entry [OF that] reserved_case_insensitive [of _ n] by (auto simp: env_entry_ok_def)
  show ?thesis
    using assms vars unfolding Validate_ok_iff
    by (auto simp: MinimumWorkspaceDiskGiB_def MaximumWorkspaceDiskGiB_def)
qed

definition example_request :: create_input where
  "example_request = \<lparr>in_RepositoryID = ''r1'', in_Name = ''fix'', in_BaseBranch = [],
     in_InitialPrompt = ''go'', in_SafetyMode = [], in_Retention = [], in_NestedContainers = False,
     in_EnvironmentVariables = [(''DEBUG'', ''1'')], in_RequestedDiskGiB = 0\<rparr>"

lemmas request_eval = Validate_ok_iff example_request_def SafetyMode_Valid_def SafetyBalanced_def
  Retention_Valid_def Retention30Days_def MinimumWorkspaceDiskGiB_def MaximumWorkspaceDiskGiB_def
  DefaultWorkspaceDiskGiB_def trim_space_def is_space_def byte_nat_def valid_string_def
  utf8_valid_def env_entry_ok_def env_total_def name_start_def name_char_def
  reservedEnvironmentName_def to_upper_def string_runes_def upper_rune_def ascii_def Let_def

lemma example_request_valid:
  "CreateWorkspaceInput_Validate (ApplyDefaults example_request ''main'') = Inr ()"
  by (simp add: request_eval)

theorem validated_request_safe_witness:
  "CreateWorkspaceInput_Validate (ApplyDefaults example_request ''main'') = Inr ()
    \<and> in_RequestedDiskGiB (ApplyDefaults example_request ''main'') \<in> {8..16}"
  using example_request_valid validated_request_safe [OF example_request_valid] by blast

end
