(* ===== verification/Admission.thy ===== *)
theory Admission
  imports Core_Types
begin

text \<open>
  Package \<^verbatim>\<open>admission\<close> (\<^verbatim>\<open>admission/controller.go\<close>): the capacity of a deployment
  profile, the equal share of the workspace pool, and the decision whether a workspace
  may start. Quotas are \<^verbatim>\<open>int64\<close>: sums and differences go through \<^const>\<open>wrap64\<close>,
  division truncates. \<^verbatim>\<open>Pressure\<close> is a \<^verbatim>\<open>float64\<close> that no decision reads; it is kept
  as the numerator and denominator of the quotient the code computes.
\<close>

record capacity =
  Total :: quota
  Reserve :: quota
  Minimum :: quota
  MaxRunning :: int
  DiskReserve :: int

record snapshot =
  Running :: int
  Queued :: int
  DiskFreeGiB :: int
  PendingDiskGiB :: int

record decision =
  Admitted :: bool
  Reason :: string
  QueuePosition :: int
  d_Quota :: quota
  Pressure :: "int \<times> int"

definition ReferenceCapacity :: capacity where
  "ReferenceCapacity = \<lparr>
     Total = \<lparr>CPUMilli = 8000, MemoryMiB = 24 * 1024, DiskGiB = 200\<rparr>,
     Reserve = \<lparr>CPUMilli = 2000, MemoryMiB = 6 * 1024, DiskGiB = 40\<rparr>,
     Minimum = \<lparr>CPUMilli = 500, MemoryMiB = 1536, DiskGiB = 8\<rparr>,
     MaxRunning = 10, DiskReserve = 40\<rparr>"

definition OwnerPCBetaCapacity :: capacity where
  "OwnerPCBetaCapacity = \<lparr>
     Total = \<lparr>CPUMilli = 4000, MemoryMiB = 5 * 1024, DiskGiB = 64\<rparr>,
     Reserve = \<lparr>CPUMilli = 2000, MemoryMiB = 3 * 1024, DiskGiB = 24\<rparr>,
     Minimum = \<lparr>CPUMilli = 2000, MemoryMiB = 2 * 1024, DiskGiB = 8\<rparr>,
     MaxRunning = 1, DiskReserve = 24\<rparr>"

definition CapacityForProfile :: "string \<Rightarrow> capacity result" where
  "CapacityForProfile profile =
     (if profile = ''development'' then Inr ReferenceCapacity
      else if profile = ''owner_pc_beta'' then Inr OwnerPCBetaCapacity
      else Inl (errorsNew ''deployment profile is not supported''))"

record controller =
  ctl_capacity :: capacity
  maintenanceDrain :: bool

definition positive :: "quota \<Rightarrow> bool" where
  "positive q \<longleftrightarrow> CPUMilli q > 0 \<and> MemoryMiB q > 0 \<and> DiskGiB q > 0"

definition negative :: "quota \<Rightarrow> bool" where
  "negative q \<longleftrightarrow> CPUMilli q < 0 \<or> MemoryMiB q < 0 \<or> DiskGiB q < 0"

definition notGreater :: "quota \<Rightarrow> quota \<Rightarrow> bool" where
  "notGreater a b \<longleftrightarrow> CPUMilli a \<le> CPUMilli b \<and> MemoryMiB a \<le> MemoryMiB b \<and> DiskGiB a \<le> DiskGiB b"

definition subtract :: "quota \<Rightarrow> quota \<Rightarrow> quota" where
  "subtract a b = \<lparr>CPUMilli = wrap64 (CPUMilli a - CPUMilli b),
     MemoryMiB = wrap64 (MemoryMiB a - MemoryMiB b), DiskGiB = wrap64 (DiskGiB a - DiskGiB b)\<rparr>"

definition below :: "quota \<Rightarrow> quota \<Rightarrow> bool" where
  "below a minimum \<longleftrightarrow> CPUMilli a < CPUMilli minimum \<or> MemoryMiB a < MemoryMiB minimum
     \<or> DiskGiB a < DiskGiB minimum"

definition pressure :: "int \<Rightarrow> int \<Rightarrow> int \<times> int" where
  "pressure running maximum = (running, maximum)"

definition new_controller :: "capacity \<Rightarrow> controller result" where
  "new_controller c =
     (if MaxRunning c < 1 \<or> MaxRunning c > 10
      then Inl (errorsNew ''max running must be between 1 and 10'')
      else if \<not> positive (Total c) \<or> \<not> positive (Minimum c) \<or> negative (Reserve c)
         \<or> \<not> notGreater (Reserve c) (Total c) \<or> DiskReserve c < DiskGiB (Reserve c)
         \<or> DiskReserve c > DiskGiB (Total c)
      then Inl (errorsNew ''capacity totals, minimums, and disk reserve are invalid'')
      else let pool = subtract (Total c) (Reserve c) in
        if CPUMilli pool < CPUMilli (Minimum c) \<or> MemoryMiB pool < MemoryMiB (Minimum c)
           \<or> DiskGiB pool < DiskGiB (Minimum c)
        then Inl (errorsNew ''control-plane reserve leaves less than one safe workspace'')
        else Inr \<lparr>ctl_capacity = c, maintenanceDrain = False\<rparr>)"

definition share :: "controller \<Rightarrow> int \<Rightarrow> quota" where
  "share c count =
     (let pool = subtract (Total (ctl_capacity c)) (Reserve (ctl_capacity c)) in
      \<lparr>CPUMilli = CPUMilli pool sdiv count, MemoryMiB = MemoryMiB pool sdiv count,
       DiskGiB = DiskGiB pool sdiv count\<rparr>)"

definition refuse :: "string \<Rightarrow> int \<Rightarrow> quota \<Rightarrow> int \<times> int \<Rightarrow> decision" where
  "refuse reason position q p =
     \<lparr>Admitted = False, Reason = reason, QueuePosition = position, d_Quota = q, Pressure = p\<rparr>"

definition PlanStart :: "controller \<Rightarrow> snapshot \<Rightarrow> decision" where
  "PlanStart c s =
     (if maintenanceDrain c
      then refuse ''server maintenance admission drain is active'' (wrap64 (Queued s + 1)) zero_quota (0, 1)
      else
      let count = wrap64 (Running s + 1) in
      if Running s < 0 \<or> Queued s < 0 \<or> DiskFreeGiB s < 0 \<or> PendingDiskGiB s < 0
      then refuse ''invalid capacity snapshot'' 0 zero_quota (0, 1)
      else if count > MaxRunning (ctl_capacity c)
      then refuse ''running workspace limit reached'' (wrap64 (Queued s + 1)) zero_quota (1, 1)
      else
      let q = share c count in
      if below q (Minimum (ctl_capacity c))
      then refuse ''equal share would fall below the minimum safe allocation''
             (wrap64 (Queued s + 1)) q (pressure count (MaxRunning (ctl_capacity c)))
      else
      let neededFree = wrap64 (wrap64 (DiskReserve (ctl_capacity c) + MaximumWorkspaceDiskGiB)
                         + PendingDiskGiB s) in
      if DiskFreeGiB s < neededFree
      then refuse ''disk reserve would be violated'' (wrap64 (Queued s + 1)) q
             (pressure count (MaxRunning (ctl_capacity c)))
      else \<lparr>Admitted = True, Reason = '''', QueuePosition = 0, d_Quota = q,
            Pressure = pressure count (MaxRunning (ctl_capacity c))\<rparr>)"

definition SetMaintenanceDrain :: "controller \<Rightarrow> bool \<Rightarrow> controller" where
  "SetMaintenanceDrain c enabled = c\<lparr>maintenanceDrain := enabled\<rparr>"

definition Shares :: "controller \<Rightarrow> int \<Rightarrow> quota list result" where
  "Shares c running =
     (if running < 0 \<or> running > MaxRunning (ctl_capacity c)
      then Inl (errorsNew ''running count outside policy'')
      else if running = 0 then Inr []
      else let q = share c running in
        if below q (Minimum (ctl_capacity c)) then Inl (GoErr ErrCapacity ''insufficient safe capacity'')
        else Inr (replicate (nat running) q))"

subsection \<open>Well-formed capacities\<close>

text \<open>What \<^verbatim>\<open>New\<close> checks, and that all fields fit their \<^verbatim>\<open>int64\<close>.\<close>

definition capacity_wf :: "capacity \<Rightarrow> bool" where
  "capacity_wf c \<longleftrightarrow> 1 \<le> MaxRunning c \<and> MaxRunning c \<le> 10
     \<and> positive (Total c) \<and> positive (Minimum c) \<and> \<not> negative (Reserve c)
     \<and> notGreater (Reserve c) (Total c) \<and> DiskGiB (Reserve c) \<le> DiskReserve c
     \<and> DiskReserve c \<le> DiskGiB (Total c)
     \<and> \<not> below (subtract (Total c) (Reserve c)) (Minimum c)
     \<and> in_int64 (CPUMilli (Total c)) \<and> in_int64 (MemoryMiB (Total c))
     \<and> in_int64 (DiskGiB (Total c) + MaximumWorkspaceDiskGiB)"

abbreviation pool :: "capacity \<Rightarrow> quota" where
  "pool c \<equiv> subtract (Total c) (Reserve c)"

text \<open>Componentwise: \<open>n\<close> workspaces of quota \<open>q\<close> fit in the quota \<open>p\<close>.\<close>

definition fits :: "int \<Rightarrow> quota \<Rightarrow> quota \<Rightarrow> bool" where
  "fits n q p \<longleftrightarrow> n * CPUMilli q \<le> CPUMilli p \<and> n * MemoryMiB q \<le> MemoryMiB p
     \<and> n * DiskGiB q \<le> DiskGiB p"

lemma new_controller_Inr:
  assumes "new_controller c = Inr ctl"
    and "in_int64 (CPUMilli (Total c))" "in_int64 (MemoryMiB (Total c))"
      "in_int64 (DiskGiB (Total c) + MaximumWorkspaceDiskGiB)"
  shows "capacity_wf c \<and> ctl = \<lparr>ctl_capacity = c, maintenanceDrain = False\<rparr>"
  using assms by (auto simp: new_controller_def capacity_wf_def below_def Let_def split: if_splits)

lemma subtract_wf:
  assumes "capacity_wf c"
  shows "CPUMilli (pool c) = CPUMilli (Total c) - CPUMilli (Reserve c)"
    and "MemoryMiB (pool c) = MemoryMiB (Total c) - MemoryMiB (Reserve c)"
    and "DiskGiB (pool c) = DiskGiB (Total c) - DiskGiB (Reserve c)"
  using assms
  by (auto simp: capacity_wf_def subtract_def negative_def notGreater_def positive_def in_int64_def
      MaximumWorkspaceDiskGiB_def intro!: wrap64_id)

lemma pool_nonneg:
  assumes "capacity_wf c"
  shows "0 \<le> CPUMilli (pool c)" "0 \<le> MemoryMiB (pool c)" "0 \<le> DiskGiB (pool c)"
  using assms by (simp_all add: subtract_wf, auto simp: capacity_wf_def notGreater_def)

lemma share_fits:
  assumes "capacity_wf (ctl_capacity c)" "0 < n"
  shows "fits n (share c n) (pool (ctl_capacity c))"
proof -
  have "n * (p div n) \<le> p" for p :: int
    using pos_mod_sign [OF assms(2), of p] mult_div_mod_eq [of n p] by linarith
  with pool_nonneg [OF assms(1)] assms(2) show ?thesis
    by (simp add: fits_def share_def Let_def sdiv_pos)
qed

lemma share_one_ok:
  assumes "capacity_wf (ctl_capacity c)"
  shows "\<not> below (share c 1) (Minimum (ctl_capacity c))"
  using assms pool_nonneg [OF assms]
  by (auto simp: capacity_wf_def share_def Let_def below_def sdiv_pos)

text \<open>The equal share shrinks as the number of workspaces grows.\<close>

lemma share_antimono:
  assumes "capacity_wf (ctl_capacity c)" "0 < m" "m \<le> n"
  shows "notGreater (share c n) (share c m)"
proof -
  have "p sdiv n \<le> p sdiv m" if "0 \<le> p" for p
    using that assms(2,3) by (simp add: sdiv_pos zdiv_mono2)
  then show ?thesis
    using pool_nonneg [OF assms(1)] by (simp add: notGreater_def share_def Let_def)
qed

subsection \<open>The admission decision\<close>

definition snapshot_ok :: "capacity \<Rightarrow> snapshot \<Rightarrow> bool" where
  "snapshot_ok c s \<longleftrightarrow> in_int64 (Running s + 1) \<and> in_int64 (Queued s + 1)
     \<and> in_int64 (DiskReserve c + MaximumWorkspaceDiskGiB + PendingDiskGiB s)"

lemma DiskReserve_int64: "capacity_wf c \<Longrightarrow> in_int64 (DiskReserve c + MaximumWorkspaceDiskGiB)"
  by (auto simp: capacity_wf_def in_int64_def negative_def MaximumWorkspaceDiskGiB_def)

lemma PlanStart_admitted_iff:
  assumes "capacity_wf (ctl_capacity c)" "snapshot_ok (ctl_capacity c) s"
  shows "Admitted (PlanStart c s) \<longleftrightarrow>
    \<not> maintenanceDrain c \<and> 0 \<le> Running s \<and> 0 \<le> Queued s \<and> 0 \<le> DiskFreeGiB s \<and> 0 \<le> PendingDiskGiB s
    \<and> Running s < MaxRunning (ctl_capacity c)
    \<and> \<not> below (share c (Running s + 1)) (Minimum (ctl_capacity c))
    \<and> DiskReserve (ctl_capacity c) + MaximumWorkspaceDiskGiB + PendingDiskGiB s \<le> DiskFreeGiB s"
  using assms DiskReserve_int64 [OF assms(1)]
  by (auto simp: PlanStart_def refuse_def snapshot_ok_def Let_def)

lemma PlanStart_admitted_quota:
  "Admitted (PlanStart c s) \<Longrightarrow> d_Quota (PlanStart c s) = share c (wrap64 (Running s + 1))"
  by (auto simp: PlanStart_def refuse_def Let_def split: if_splits)

lemma PlanStart_refused_queue:
  "\<not> Admitted (PlanStart c s) \<Longrightarrow> Reason (PlanStart c s) \<noteq> ''invalid capacity snapshot'' \<Longrightarrow>
     QueuePosition (PlanStart c s) = wrap64 (Queued s + 1) \<and> Reason (PlanStart c s) \<noteq> ''''"
  by (auto simp: PlanStart_def refuse_def Let_def split: if_splits)

text \<open>C37: when the controller admits a start, one more workspace stays within the running
  limit, every running workspace including the new one can get the granted quota out of the
  pool left beside the host reserve, the quota is at least the minimum, and the free disk
  covers the reserve, one maximal volume and everything pending.\<close>

theorem PlanStart_safe:
  assumes "capacity_wf (ctl_capacity c)" "snapshot_ok (ctl_capacity c) s"
    and "Admitted (PlanStart c s)"
  shows "Running s + 1 \<le> MaxRunning (ctl_capacity c)
    \<and> fits (Running s + 1) (d_Quota (PlanStart c s)) (pool (ctl_capacity c))
    \<and> \<not> below (d_Quota (PlanStart c s)) (Minimum (ctl_capacity c))
    \<and> DiskReserve (ctl_capacity c) + MaximumWorkspaceDiskGiB + PendingDiskGiB s \<le> DiskFreeGiB s
    \<and> \<not> maintenanceDrain c"
proof -
  note adm = PlanStart_admitted_iff [OF assms(1,2), THEN iffD1, OF assms(3)]
  have "d_Quota (PlanStart c s) = share c (Running s + 1)"
    using PlanStart_admitted_quota [OF assms(3)] assms(2) by (simp add: snapshot_ok_def)
  with adm share_fits [OF assms(1), of "Running s + 1"] show ?thesis by simp
qed

definition example_snapshot :: snapshot where
  "example_snapshot = \<lparr>Running = 2, Queued = 0, DiskFreeGiB = 100, PendingDiskGiB = 12\<rparr>"

definition reference_controller :: controller where
  "reference_controller = \<lparr>ctl_capacity = ReferenceCapacity, maintenanceDrain = False\<rparr>"

lemmas admission_eval = ReferenceCapacity_def OwnerPCBetaCapacity_def capacity_wf_def positive_def
  negative_def notGreater_def below_def subtract_def wrap64_def in_int64_def
  MaximumWorkspaceDiskGiB_def signed_divide_int_def share_def Let_def

lemma ReferenceCapacity_wf: "capacity_wf ReferenceCapacity"
  by (simp add: admission_eval)

lemma OwnerPCBetaCapacity_wf: "capacity_wf OwnerPCBetaCapacity"
  by (simp add: admission_eval)

theorem PlanStart_safe_witness:
  "Admitted (PlanStart reference_controller example_snapshot)
    \<and> fits 3 (d_Quota (PlanStart reference_controller example_snapshot)) (pool ReferenceCapacity)"
proof -
  have wf: "capacity_wf (ctl_capacity reference_controller)"
    by (simp add: reference_controller_def ReferenceCapacity_wf)
  have ok: "snapshot_ok (ctl_capacity reference_controller) example_snapshot"
    by (simp add: reference_controller_def example_snapshot_def snapshot_ok_def admission_eval)
  have adm: "Admitted (PlanStart reference_controller example_snapshot)"
    unfolding PlanStart_admitted_iff [OF wf ok]
    by (simp add: reference_controller_def example_snapshot_def admission_eval)
  from PlanStart_safe [OF wf ok adm] adm show ?thesis
    by (simp add: reference_controller_def example_snapshot_def)
qed

text \<open>\<^verbatim>\<open>Shares\<close> answers, for every running count the policy allows whose equal share
  is not below the minimum, with that many equal quotas that together fit in the pool; the
  other counts are errors, and the count zero gives no quota.\<close>

theorem Shares_fair:
  assumes "capacity_wf (ctl_capacity c)"
  shows "(case Shares c n of
      Inr qs \<Rightarrow> 0 \<le> n \<and> n \<le> MaxRunning (ctl_capacity c) \<and> length qs = nat n
        \<and> (\<forall>q \<in> set qs. q = share c n \<and> fits n q (pool (ctl_capacity c))
             \<and> \<not> below q (Minimum (ctl_capacity c)))
    | Inl e \<Rightarrow> n < 0 \<or> n > MaxRunning (ctl_capacity c)
        \<or> (err_is e = ErrCapacity \<and> 1 < n \<and> below (share c n) (Minimum (ctl_capacity c))))"
  using share_fits [OF assms] share_one_ok [OF assms]
  by (cases "n = 1") (auto simp: Shares_def Let_def)

theorem Shares_fair_witness:
  "Shares reference_controller 10 =
     Inr (replicate 10 \<lparr>CPUMilli = 600, MemoryMiB = 1843, DiskGiB = 16\<rparr>)
   \<and> fits 10 \<lparr>CPUMilli = 600, MemoryMiB = 1843, DiskGiB = 16\<rparr> (pool ReferenceCapacity)"
proof -
  have wf: "capacity_wf (ctl_capacity reference_controller)"
    by (simp add: reference_controller_def ReferenceCapacity_wf)
  have eq: "Shares reference_controller 10 =
      Inr (replicate 10 \<lparr>CPUMilli = 600, MemoryMiB = 1843, DiskGiB = 16\<rparr>)"
    by (simp add: Shares_def reference_controller_def admission_eval)
  from Shares_fair [OF wf, of 10] show ?thesis
    unfolding eq by (auto simp: reference_controller_def)
qed

text \<open>Both deployment profiles pass \<^verbatim>\<open>New\<close>; under the owner-PC profile a start is
  admitted only on an empty host with at least 40 GiB free and receives exactly 2 CPUs and
  2 GiB, as the comment in the source promises, and under the reference profile all ten
  workspaces can run at once.\<close>

theorem profiles_capacity:
  "new_controller ReferenceCapacity = Inr reference_controller
   \<and> new_controller OwnerPCBetaCapacity = Inr \<lparr>ctl_capacity = OwnerPCBetaCapacity, maintenanceDrain = False\<rparr>
   \<and> (\<forall>n \<in> {1..10}. is_ok (Shares reference_controller n))
   \<and> (\<forall>s. snapshot_ok OwnerPCBetaCapacity s \<and>
        Admitted (PlanStart \<lparr>ctl_capacity = OwnerPCBetaCapacity, maintenanceDrain = d\<rparr> s) \<longrightarrow>
        Running s = 0 \<and> 40 \<le> DiskFreeGiB s
        \<and> CPUMilli (d_Quota (PlanStart \<lparr>ctl_capacity = OwnerPCBetaCapacity, maintenanceDrain = d\<rparr> s)) = 2000
        \<and> MemoryMiB (d_Quota (PlanStart \<lparr>ctl_capacity = OwnerPCBetaCapacity, maintenanceDrain = d\<rparr> s)) = 2048)"
  (is "?A \<and> ?B \<and> ?D \<and> (\<forall>s. ?P s)")
proof (intro conjI)
  show ?A ?B
    by (simp_all add: new_controller_def reference_controller_def admission_eval)
  show "\<forall>s. ?P s"
  proof (intro allI impI, elim conjE)
    fix s
    let ?c = "\<lparr>ctl_capacity = OwnerPCBetaCapacity, maintenanceDrain = d\<rparr>"
    assume ok: "snapshot_ok OwnerPCBetaCapacity s" and adm: "Admitted (PlanStart ?c s)"
    have "Running s = 0 \<and> 40 \<le> DiskFreeGiB s"
      using PlanStart_admitted_iff [of ?c s] ok adm OwnerPCBetaCapacity_wf
      by (simp add: OwnerPCBetaCapacity_def MaximumWorkspaceDiskGiB_def)
    moreover from this PlanStart_admitted_quota [OF adm] have "d_Quota (PlanStart ?c s) = share ?c 1"
      by (simp add: in_int64_def)
    ultimately show "Running s = 0 \<and> 40 \<le> DiskFreeGiB s
        \<and> CPUMilli (d_Quota (PlanStart ?c s)) = 2000 \<and> MemoryMiB (d_Quota (PlanStart ?c s)) = 2048"
      by (simp add: admission_eval)
  qed
  have wf: "capacity_wf (ctl_capacity reference_controller)"
    by (simp add: reference_controller_def ReferenceCapacity_wf)
  show ?D
  proof
    fix n :: int
    assume n: "n \<in> {1..10}"
    have "notGreater (share reference_controller 10) (share reference_controller n)"
      using share_antimono [OF wf, of n 10] n by simp
    moreover have "\<not> below (share reference_controller 10) (Minimum ReferenceCapacity)"
      by (simp add: reference_controller_def admission_eval)
    ultimately have "\<not> below (share reference_controller n) (Minimum ReferenceCapacity)"
      by (auto simp: notGreater_def below_def)
    with n show "is_ok (Shares reference_controller n)"
      by (simp add: Shares_def Let_def reference_controller_def ReferenceCapacity_def)
  qed
qed

theorem profiles_capacity_witness:
  "Admitted (PlanStart \<lparr>ctl_capacity = OwnerPCBetaCapacity, maintenanceDrain = False\<rparr>
       \<lparr>Running = 0, Queued = 0, DiskFreeGiB = 45, PendingDiskGiB = 0\<rparr>)
   \<and> CPUMilli (d_Quota (PlanStart \<lparr>ctl_capacity = OwnerPCBetaCapacity, maintenanceDrain = False\<rparr>
       \<lparr>Running = 0, Queued = 0, DiskFreeGiB = 45, PendingDiskGiB = 0\<rparr>)) = 2000"
proof -
  let ?c = "\<lparr>ctl_capacity = OwnerPCBetaCapacity, maintenanceDrain = False\<rparr>"
  let ?s = "\<lparr>Running = 0, Queued = 0, DiskFreeGiB = 45, PendingDiskGiB = 0\<rparr>"
  have "snapshot_ok OwnerPCBetaCapacity ?s"
    by (simp add: snapshot_ok_def admission_eval)
  moreover have "Admitted (PlanStart ?c ?s)"
    by (simp add: PlanStart_def admission_eval)
  ultimately show ?thesis using profiles_capacity [of False] by blast
qed

end
