(* ===== verification/Terminal_Protocol.thy ===== *)
theory Terminal_Protocol
  imports Go_Text
begin

text \<open>
  \<^verbatim>\<open>terminal/protocol.go\<close>: the binary frames of the terminal WebSocket and the resize
  payload. Header fields keep their widths; a \<^verbatim>\<open>TabID\<close> is a \<^verbatim>\<open>[16]byte\<close>, a byte list
  of length 16.
\<close>

definition Version :: byte where "Version = 1"
definition HeaderSize :: nat where "HeaderSize = 36"
definition MaxPayload :: nat where "MaxPayload = 1048576"
definition FlagTakeLease :: "16 word" where "FlagTakeLease = 1"
definition FlagIdempotentInput :: "16 word" where "FlagIdempotentInput = 2"
definition FlagInputReceipt :: "16 word" where "FlagInputReceipt = 4"
definition FlagInputReceiptConfirmed :: "16 word" where "FlagInputReceiptConfirmed = 8"

type_synonym kind = byte

definition KindOutput :: kind where "KindOutput = 1"
definition KindInput :: kind where "KindInput = 2"
definition KindAck :: kind where "KindAck = 3"
definition KindResize :: kind where "KindResize = 4"
definition KindPing :: kind where "KindPing = 5"
definition KindPong :: kind where "KindPong = 6"
definition KindReplayGap :: kind where "KindReplayGap = 7"
definition KindLeaseRequest :: kind where "KindLeaseRequest = 8"
definition KindLeaseGranted :: kind where "KindLeaseGranted = 9"
definition KindLeaseDenied :: kind where "KindLeaseDenied = 10"
definition KindTabClosed :: kind where "KindTabClosed = 11"
definition KindAttention :: kind where "KindAttention = 12"

lemmas kind_defs = KindOutput_def KindInput_def KindAck_def KindResize_def KindPing_def KindPong_def
  KindReplayGap_def KindLeaseRequest_def KindLeaseGranted_def KindLeaseDenied_def KindTabClosed_def
  KindAttention_def

definition Kind_Valid :: "kind \<Rightarrow> bool" where
  "Kind_Valid k \<longleftrightarrow> k \<ge> KindOutput \<and> k \<le> KindAttention"

type_synonym tab_id = bytes

definition tab_IsZero :: "tab_id \<Rightarrow> bool" where
  "tab_IsZero t \<longleftrightarrow> t = replicate 16 0"

record frame =
  f_Kind :: kind
  f_Flags :: "16 word"
  f_Sequence :: "64 word"
  f_TabID :: tab_id
  f_Payload :: bytes

definition allowedFlags :: "kind \<Rightarrow> 16 word" where
  "allowedFlags k =
     (if k = KindLeaseRequest then FlagTakeLease
      else if k = KindInput then FlagIdempotentInput
      else if k = KindAck then FlagInputReceipt OR FlagInputReceiptConfirmed
      else 0)"

definition validateFlagsAndSequence :: "frame \<Rightarrow> unit result" where
  "validateFlagsAndSequence f =
     (if f_Flags f AND NOT (allowedFlags (f_Kind f)) \<noteq> 0
      then Inl (errorsNew ''unknown or invalid terminal flags'')
      else if f_Kind f = KindOutput then
        (if f_Sequence f = 0 then Inl (errorsNew ''output sequence must be non-zero'') else Inr ())
      else if f_Kind f = KindInput then
        (if f_Flags f AND FlagIdempotentInput \<noteq> 0 then
           (if f_Sequence f = 0 then Inl (errorsNew ''idempotent input sequence must be non-zero'')
            else Inr ())
         else if f_Sequence f \<noteq> 0
           then Inl (errorsNew ''unacknowledged input sequence must be zero'')
         else Inr ())
      else if f_Kind f = KindAck then
        (if f_Flags f \<noteq> 0 \<and> f_Flags f \<noteq> FlagInputReceipt \<and> f_Flags f \<noteq> FlagInputReceiptConfirmed
         then Inl (errorsNew ''acknowledgement flags cannot be combined'')
         else if f_Flags f \<noteq> 0 \<and> f_Sequence f = 0
         then Inl (errorsNew ''input receipt sequence must be non-zero'')
         else Inr ())
      else if f_Kind f \<in> {KindResize, KindLeaseRequest, KindLeaseGranted, KindLeaseDenied} then
        (if f_Sequence f \<noteq> 0 then Inl (errorsNew ''terminal control sequence must be zero'') else Inr ())
      else if f_Kind f = KindReplayGap then
        (if f_Sequence f = 0 then Inl (errorsNew ''replay gap sequence must be non-zero'') else Inr ())
      else Inr ())"

definition encode_frame :: "frame \<Rightarrow> bytes" where
  "encode_frame f = [67, 77, Version, f_Kind f] @ be16 (f_Flags f) @ be16 (of_nat HeaderSize)
     @ be64 (f_Sequence f) @ f_TabID f @ be32 (of_nat (length (f_Payload f))) @ f_Payload f"

definition MarshalBinary :: "frame \<Rightarrow> bytes result" where
  "MarshalBinary f =
     (if \<not> Kind_Valid (f_Kind f) then Inl (errorsNew ''invalid terminal frame kind'')
      else if length (f_Payload f) > MaxPayload
      then Inl (errorsNew ''terminal payload exceeds 1048576 bytes'')
      else if tab_IsZero (f_TabID f) \<and> f_Kind f \<noteq> KindPing \<and> f_Kind f \<noteq> KindPong
      then Inl (errorsNew ''tab ID is required'')
      else if f_Kind f = KindAck \<and> length (f_Payload f) \<noteq> 0
      then Inl (errorsNew ''ack payload must be empty'')
      else if f_Kind f = KindResize \<and> length (f_Payload f) \<noteq> 8
      then Inl (errorsNew ''resize payload must be 8 bytes'')
      else case validateFlagsAndSequence f of
        Inl e \<Rightarrow> Inl e
      | Inr _ \<Rightarrow> Inr (encode_frame f))"

text \<open>A slice expression \<^verbatim>\<open>data[i:j]\<close> within bounds.\<close>

definition slice :: "nat \<Rightarrow> nat \<Rightarrow> 'a list \<Rightarrow> 'a list" where
  "slice i j xs = take (j - i) (drop i xs)"

definition ParseFrame :: "bytes \<Rightarrow> frame result" where
  "ParseFrame data =
     (if length data < HeaderSize \<or> data ! 0 \<noteq> 67 \<or> data ! 1 \<noteq> 77
      then Inl (errorsNew ''invalid terminal frame header'')
      else if data ! 2 \<noteq> Version then Inl (errorsNew ''unsupported terminal protocol version'')
      else if (from_be (slice 6 8 data) :: 16 word) \<noteq> of_nat HeaderSize
      then Inl (errorsNew ''unsupported terminal header size'')
      else let payloadLength = unat (from_be (slice 32 36 data) :: 32 word) in
      if payloadLength > MaxPayload \<or> length data \<noteq> HeaderSize + payloadLength
      then Inl (errorsNew ''invalid terminal payload length'')
      else let f = \<lparr>f_Kind = data ! 3, f_Flags = from_be (slice 4 6 data),
                    f_Sequence = from_be (slice 8 16 data), f_TabID = slice 16 32 data,
                    f_Payload = drop HeaderSize data\<rparr> in
      if \<not> Kind_Valid (f_Kind f)
         \<or> (tab_IsZero (f_TabID f) \<and> f_Kind f \<noteq> KindPing \<and> f_Kind f \<noteq> KindPong)
      then Inl (errorsNew ''invalid terminal frame'')
      else case validateFlagsAndSequence f of
        Inl e \<Rightarrow> Inl e
      | Inr _ \<Rightarrow>
          if f_Kind f = KindAck \<and> length (f_Payload f) \<noteq> 0
          then Inl (errorsNew ''ack payload must be empty'')
          else if f_Kind f = KindResize \<and> length (f_Payload f) \<noteq> 8
          then Inl (errorsNew ''resize payload must be 8 bytes'')
          else if (f_Kind f = KindPing \<or> f_Kind f = KindPong) \<and> length (f_Payload f) > 64
          then Inl (errorsNew ''ping payload exceeds 64 bytes'')
          else Inr f)"

record size_t =
  Rows :: "16 word"
  Columns :: "16 word"
  WidthPixels :: "16 word"
  HeightPixels :: "16 word"

definition Size_MarshalBinary :: "size_t \<Rightarrow> bytes result" where
  "Size_MarshalBinary s =
     (if Rows s = 0 \<or> Columns s = 0
      then Inl (errorsNew ''terminal rows and columns must be non-zero'')
      else Inr (be16 (Rows s) @ be16 (Columns s) @ be16 (WidthPixels s) @ be16 (HeightPixels s)))"

definition ParseSize :: "bytes \<Rightarrow> size_t result" where
  "ParseSize b =
     (if length b \<noteq> 8 then Inl (errorsNew ''terminal size must be 8 bytes'')
      else let s = \<lparr>Rows = from_be (slice 0 2 b), Columns = from_be (slice 2 4 b),
                    WidthPixels = from_be (slice 4 6 b), HeightPixels = from_be (slice 6 8 b)\<rparr> in
        if Rows s = 0 \<or> Columns s = 0
        then Inl (errorsNew ''terminal rows and columns must be non-zero'')
        else Inr s)"

subsection \<open>The codec\<close>

text \<open>The condition under which a frame is on the wire: what \<^verbatim>\<open>ParseFrame\<close> accepts.\<close>

definition frame_wf :: "frame \<Rightarrow> bool" where
  "frame_wf f \<longleftrightarrow> Kind_Valid (f_Kind f) \<and> length (f_Payload f) \<le> MaxPayload
     \<and> length (f_TabID f) = 16
     \<and> (tab_IsZero (f_TabID f) \<longrightarrow> f_Kind f = KindPing \<or> f_Kind f = KindPong)
     \<and> (f_Kind f = KindAck \<longrightarrow> f_Payload f = [])
     \<and> (f_Kind f = KindResize \<longrightarrow> length (f_Payload f) = 8)
     \<and> (f_Kind f = KindPing \<or> f_Kind f = KindPong \<longrightarrow> length (f_Payload f) \<le> 64)
     \<and> validateFlagsAndSequence f = Inr ()"

lemma slice_length [simp]: "j \<le> length xs \<Longrightarrow> length (slice i j xs) = j - i"
  by (simp add: slice_def)

lemma slice_append_left: "i + n = length xs \<Longrightarrow> slice i (length xs) (xs @ ys) = drop i xs"
  by (simp add: slice_def)

lemma MarshalBinary_ok_iff:
  "MarshalBinary f = Inr d \<longleftrightarrow> Kind_Valid (f_Kind f) \<and> length (f_Payload f) \<le> MaxPayload
     \<and> (tab_IsZero (f_TabID f) \<longrightarrow> f_Kind f = KindPing \<or> f_Kind f = KindPong)
     \<and> (f_Kind f = KindAck \<longrightarrow> f_Payload f = [])
     \<and> (f_Kind f = KindResize \<longrightarrow> length (f_Payload f) = 8)
     \<and> validateFlagsAndSequence f = Inr () \<and> d = encode_frame f"
  by (auto simp: MarshalBinary_def split: sum.splits)

text \<open>The fields of an encoded frame, at the offsets the parser reads.\<close>

lemma encode_frame_fields:
  assumes "length (f_TabID f) = 16"
  shows "length (encode_frame f) = HeaderSize + length (f_Payload f)"
    and "encode_frame f ! 0 = 67" "encode_frame f ! 1 = 77" "encode_frame f ! 2 = Version"
    and "encode_frame f ! 3 = f_Kind f"
    and "slice 4 6 (encode_frame f) = be16 (f_Flags f)"
    and "slice 6 8 (encode_frame f) = be16 (of_nat HeaderSize)"
    and "slice 8 16 (encode_frame f) = be64 (f_Sequence f)"
    and "slice 16 32 (encode_frame f) = f_TabID f"
    and "slice 32 36 (encode_frame f) = be32 (of_nat (length (f_Payload f)))"
    and "drop HeaderSize (encode_frame f) = f_Payload f"
  using assms by (simp_all add: encode_frame_def slice_def HeaderSize_def)

lemma unat_payload_length: "n \<le> MaxPayload \<Longrightarrow> unat (of_nat n :: 32 word) = n"
  by (simp add: unat_of_nat MaxPayload_def)

lemma ParseFrame_encode:
  assumes "frame_wf f"
  shows "ParseFrame (encode_frame f) = Inr f"
proof -
  from assms have tab: "length (f_TabID f) = 16" and pay: "length (f_Payload f) \<le> MaxPayload"
    by (simp_all add: frame_wf_def)
  have eta: "\<lparr>f_Kind = f_Kind f, f_Flags = f_Flags f, f_Sequence = f_Sequence f,
      f_TabID = f_TabID f, f_Payload = f_Payload f\<rparr> = f" by simp
  show ?thesis
    unfolding ParseFrame_def encode_frame_fields [OF tab] from_be_be16 from_be_be32 from_be_be64
      unat_payload_length [OF pay] Let_def eta
    using assms by (simp add: frame_wf_def) auto
qed

text \<open>A byte sequence is determined by the slices the parser reads.\<close>

lemma wire_split:
  assumes "HeaderSize \<le> length d"
  shows "d = [d ! 0, d ! 1, d ! 2, d ! 3] @ slice 4 6 d @ slice 6 8 d @ slice 8 16 d
     @ slice 16 32 d @ slice 32 36 d @ drop HeaderSize d"
proof -
  have join: "slice i j d @ drop j d = drop i d" if "i \<le> j" for i j
    using that by (simp add: slice_def) (metis append_take_drop_id drop_drop le_add_diff_inverse2)
  from assms have "4 \<le> length d" by (simp add: HeaderSize_def)
  then obtain a b c e r where "d = a # b # c # e # r"
    by (auto simp: Suc_le_length_iff eval_nat_numeral)
  then have "d = [d ! 0, d ! 1, d ! 2, d ! 3] @ drop 4 d" by simp
  then show ?thesis
    by (simp add: join HeaderSize_def)
qed

lemma ParseFrame_ok:
  assumes "ParseFrame d = Inr f"
  shows "frame_wf f \<and> d = encode_frame f"
proof -
  from assms have len: "HeaderSize \<le> length d"
    and hdr: "d ! 0 = 67" "d ! 1 = 77" "d ! 2 = Version"
    and hs: "(from_be (slice 6 8 d) :: 16 word) = of_nat HeaderSize"
    and pl: "unat (from_be (slice 32 36 d) :: 32 word) \<le> MaxPayload"
      "length d = HeaderSize + unat (from_be (slice 32 36 d) :: 32 word)"
    and f: "f = \<lparr>f_Kind = d ! 3, f_Flags = from_be (slice 4 6 d),
                    f_Sequence = from_be (slice 8 16 d), f_TabID = slice 16 32 d,
                    f_Payload = drop HeaderSize d\<rparr>"
    and wf: "Kind_Valid (f_Kind f)"
      "tab_IsZero (f_TabID f) \<longrightarrow> f_Kind f = KindPing \<or> f_Kind f = KindPong"
      "validateFlagsAndSequence f = Inr ()" "f_Kind f = KindAck \<longrightarrow> f_Payload f = []"
      "f_Kind f = KindResize \<longrightarrow> length (f_Payload f) = 8"
      "f_Kind f = KindPing \<or> f_Kind f = KindPong \<longrightarrow> length (f_Payload f) \<le> 64"
    by (auto simp: ParseFrame_def Let_def split: if_splits sum.splits)
  have bounds: "36 \<le> length d" using len by (simp add: HeaderSize_def)
  have plen: "length (f_Payload f) = unat (from_be (slice 32 36 d) :: 32 word)"
    using pl f by simp
  have "frame_wf f"
    using wf pl plen f bounds by (simp add: frame_wf_def)
  moreover have "encode_frame f = d"
  proof -
    have "be16 (of_nat HeaderSize) = slice 6 8 d"
      using hs be16_from_be [of "slice 6 8 d"] bounds by simp
    moreover have "be32 (of_nat (length (f_Payload f))) = slice 32 36 d"
      using plen be32_from_be [of "slice 32 36 d"] bounds by simp
    ultimately show ?thesis
      using f hdr bounds wire_split [OF len]
      by (simp add: encode_frame_def be16_from_be be64_from_be)
  qed
  ultimately show ?thesis by simp
qed

text \<open>C39: the frame codec is exact. \<^verbatim>\<open>ParseFrame\<close> accepts a byte sequence as the frame \<open>f\<close>
  exactly when \<^verbatim>\<open>MarshalBinary\<close> encodes \<open>f\<close> as that sequence, the tab id has its 16 bytes
  and a ping or pong carries at most 64 bytes. So decoding inverts encoding, every accepted
  message is the canonical encoding of its frame, and the only frames that can be sent but
  not received are oversized pings and pongs.\<close>

theorem frame_codec_exact:
  "ParseFrame d = Inr f \<longleftrightarrow> MarshalBinary f = Inr d \<and> length (f_TabID f) = 16
     \<and> \<not> ((f_Kind f = KindPing \<or> f_Kind f = KindPong) \<and> length (f_Payload f) > 64)"
  (is "?L \<longleftrightarrow> ?R")
proof
  assume ?L
  then show ?R using ParseFrame_ok [of d f] by (auto simp: frame_wf_def MarshalBinary_ok_iff)
next
  assume ?R
  then have "frame_wf f" "d = encode_frame f"
    by (auto simp: frame_wf_def MarshalBinary_ok_iff)
  then show ?L by (simp add: ParseFrame_encode)
qed

text \<open>No client frame reaches the server with flags its kind does not define, with a
  sequence its kind forbids, or with a payload over one MiB; in particular an accepted
  idempotent input has a non-zero sequence and an acknowledgement never combines flags.\<close>

theorem parsed_frame_valid:
  assumes "ParseFrame d = Inr f"
  shows "f_Flags f AND NOT (allowedFlags (f_Kind f)) = 0
    \<and> length (f_Payload f) \<le> MaxPayload \<and> length d = 36 + length (f_Payload f)
    \<and> (f_Kind f = KindInput \<longrightarrow> (f_Sequence f \<noteq> 0 \<longleftrightarrow> f_Flags f AND FlagIdempotentInput \<noteq> 0))
    \<and> (f_Kind f = KindAck \<longrightarrow> f_Flags f \<in> {0, FlagInputReceipt, FlagInputReceiptConfirmed})
    \<and> (f_Kind f = KindOutput \<longrightarrow> f_Sequence f \<noteq> 0)"
proof -
  from ParseFrame_ok [OF assms] have wf: "frame_wf f" and d: "d = encode_frame f" by auto
  have "length d = 36 + length (f_Payload f)"
    using wf d by (simp add: frame_wf_def encode_frame_fields HeaderSize_def)
  moreover from wf have "validateFlagsAndSequence f = Inr ()" "length (f_Payload f) \<le> MaxPayload"
    by (simp_all add: frame_wf_def)
  ultimately show ?thesis
    by (auto simp: validateFlagsAndSequence_def kind_defs split: if_splits)
qed

definition example_ping :: frame where
  "example_ping = \<lparr>f_Kind = KindPing, f_Flags = 0, f_Sequence = 7, f_TabID = replicate 16 0,
     f_Payload = [1, 2]\<rparr>"

lemma example_ping_wf: "frame_wf example_ping"
  by (simp add: frame_wf_def example_ping_def Kind_Valid_def kind_defs validateFlagsAndSequence_def
      allowedFlags_def MaxPayload_def)

theorem parsed_frame_valid_witness:
  "ParseFrame (encode_frame example_ping) = Inr example_ping
    \<and> length (encode_frame example_ping) = 38"
  using parsed_frame_valid [OF ParseFrame_encode [OF example_ping_wf]]
    ParseFrame_encode [OF example_ping_wf]
  by (simp add: example_ping_def)

text \<open>The resize payload round-trips: \<^verbatim>\<open>ParseSize\<close> accepts eight bytes as a size
  exactly when marshalling that size gives those bytes, which requires both dimensions to
  be non-zero.\<close>

theorem size_codec_exact:
  "ParseSize b = Inr s \<longleftrightarrow> Size_MarshalBinary s = Inr b"
proof
  assume "ParseSize b = Inr s"
  then have len: "length b = 8" and nz: "Rows s \<noteq> 0" "Columns s \<noteq> 0"
    and s: "s = \<lparr>Rows = from_be (slice 0 2 b), Columns = from_be (slice 2 4 b),
                 WidthPixels = from_be (slice 4 6 b), HeightPixels = from_be (slice 6 8 b)\<rparr>"
    by (auto simp: ParseSize_def Let_def split: if_splits)
  have "slice 0 2 b @ slice 2 4 b @ slice 4 6 b @ slice 6 8 b = b"
    using list_8 [OF len] by (auto simp: slice_def)
  with len nz s show "Size_MarshalBinary s = Inr b"
    by (simp add: Size_MarshalBinary_def be16_from_be)
next
  assume "Size_MarshalBinary s = Inr b"
  then show "ParseSize b = Inr s"
    by (auto simp: Size_MarshalBinary_def ParseSize_def slice_def Let_def split: if_splits)
qed

end
