(* ===== verification/Terminal_Replay.thy ===== *)
theory Terminal_Replay
  imports Terminal_Protocol
begin

text \<open>
  \<^verbatim>\<open>terminal/replay.go\<close>: the bounded ring of output frames a reconnecting client replays.
  Sequences are \<^verbatim>\<open>uint64\<close> words. The abstract view is the history of all payloads ever
  appended: the ring retains a suffix of it, and \<open>replay_log\<close> is the contract that the
  tab relies on when it subscribes a client and broadcasts further output.
\<close>

record replay =
  Frames :: "frame list"
  Gap :: bool
  EarliestSequence :: "64 word"
  LatestSequence :: "64 word"

record ring =
  rg_tabID :: tab_id
  rg_frames :: "frame list"
  rg_bytes :: int
  rg_maxFrames :: int
  rg_maxBytes :: int
  rg_next :: "64 word"

definition NewRing :: "tab_id \<Rightarrow> int \<Rightarrow> int \<Rightarrow> ring result" where
  "NewRing tab maxFrames maxBytes =
     (if tab_IsZero tab \<or> maxFrames < 1 \<or> maxBytes < 1 \<or> maxBytes > 64 * int MaxPayload
      then Inl (errorsNew ''invalid replay ring configuration'')
      else Inr \<lparr>rg_tabID = tab, rg_frames = [], rg_bytes = 0, rg_maxFrames = maxFrames,
                rg_maxBytes = maxBytes, rg_next = 1\<rparr>)"

text \<open>The eviction loop of \<^verbatim>\<open>Append\<close>: drop the oldest frame while the ring is over a limit.\<close>

fun evict :: "int \<Rightarrow> int \<Rightarrow> frame list \<Rightarrow> int \<Rightarrow> frame list \<times> int" where
  "evict maxFrames maxBytes [] b = ([], b)"
| "evict maxFrames maxBytes (f # fs) b =
     (if int (length (f # fs)) > maxFrames \<or> (b > maxBytes \<and> length (f # fs) > 1)
      then evict maxFrames maxBytes fs (b - int (length (f_Payload f)))
      else (f # fs, b))"

definition ring_Append :: "ring \<Rightarrow> bytes \<Rightarrow> (frame \<times> ring) result" where
  "ring_Append r payload =
     (if length payload > MaxPayload then Inl (errorsNew ''terminal output frame too large'')
      else
      let f = \<lparr>f_Kind = KindOutput, f_Flags = 0, f_Sequence = rg_next r, f_TabID = rg_tabID r,
               f_Payload = payload\<rparr>;
          (fs, b) = evict (rg_maxFrames r) (rg_maxBytes r) (rg_frames r @ [f])
                      (rg_bytes r + int (length payload))
      in Inr (f, r\<lparr>rg_next := rg_next r + 1, rg_frames := fs, rg_bytes := b\<rparr>))"

definition ring_After :: "ring \<Rightarrow> 64 word \<Rightarrow> replay" where
  "ring_After r sequence =
     (let latest = rg_next r - 1 in
      case rg_frames r of
        [] \<Rightarrow> if sequence > latest
              then \<lparr>Frames = [], Gap = True, EarliestSequence = rg_next r, LatestSequence = latest\<rparr>
              else \<lparr>Frames = [], Gap = False, EarliestSequence = 0, LatestSequence = latest\<rparr>
      | f # _ \<Rightarrow>
          let earliest = f_Sequence f;
              gap = (sequence < earliest - 1 \<or> sequence > latest);
              start = (if gap then earliest - 1 else sequence)
          in \<lparr>Frames = filter (\<lambda>f. f_Sequence f > start) (rg_frames r), Gap = gap,
              EarliestSequence = earliest, LatestSequence = latest\<rparr>)"

subsection \<open>The history a ring stands for\<close>

definition out_frame :: "tab_id \<Rightarrow> nat \<Rightarrow> bytes \<Rightarrow> frame" where
  "out_frame tab n p = \<lparr>f_Kind = KindOutput, f_Flags = 0, f_Sequence = of_nat n, f_TabID = tab,
     f_Payload = p\<rparr>"

text \<open>The frames of a history whose first payload has sequence \<open>n\<close>.\<close>

fun frames_from :: "tab_id \<Rightarrow> nat \<Rightarrow> bytes list \<Rightarrow> frame list" where
  "frames_from tab n [] = []"
| "frames_from tab n (p # ps) = out_frame tab n p # frames_from tab (Suc n) ps"

definition payload_bytes :: "frame list \<Rightarrow> int" where
  "payload_bytes fs = int (sum_list (map (length \<circ> f_Payload) fs))"

text \<open>
  \<open>ring_hist k r h\<close>: the ring stands for the history \<open>h\<close>, of which it retains all but the
  first \<open>k\<close> payloads, within its limits, and always the newest frame.
\<close>

definition ring_hist :: "nat \<Rightarrow> ring \<Rightarrow> bytes list \<Rightarrow> bool" where
  "ring_hist k r h \<longleftrightarrow> k \<le> length h \<and> (h \<noteq> [] \<longrightarrow> k < length h) \<and> length h + 1 < 2 ^ 64
     \<and> rg_next r = of_nat (length h + 1)
     \<and> rg_frames r = frames_from (rg_tabID r) (Suc k) (drop k h)
     \<and> rg_bytes r = payload_bytes (rg_frames r) \<and> 1 \<le> rg_maxFrames r
     \<and> int (length (rg_frames r)) \<le> rg_maxFrames r
     \<and> (rg_bytes r \<le> rg_maxBytes r \<or> length (rg_frames r) = 1)
     \<and> (\<forall>p \<in> set h. length p \<le> MaxPayload)"

lemma length_frames_from [simp]: "length (frames_from tab n ps) = length ps"
  by (induction ps arbitrary: n) auto

lemma payloads_frames_from [simp]: "map f_Payload (frames_from tab n ps) = ps"
  by (induction ps arbitrary: n) (auto simp: out_frame_def)

lemma frames_from_append:
  "frames_from tab n (ps @ qs) = frames_from tab n ps @ frames_from tab (n + length ps) qs"
  by (induction ps arbitrary: n) auto

lemma drop_frames_from: "drop j (frames_from tab n ps) = frames_from tab (n + j) (drop j ps)"
  by (induction ps arbitrary: n j) (auto simp: drop_Cons' split: nat.splits)

lemma frames_from_eq_Nil [simp]: "frames_from tab n ps = [] \<longleftrightarrow> ps = []"
  by (cases ps) auto

lemma payload_bytes_simps [simp]:
  "payload_bytes [] = 0"
  "payload_bytes (f # fs) = int (length (f_Payload f)) + payload_bytes fs"
  "payload_bytes (fs @ gs) = payload_bytes fs + payload_bytes gs"
  by (simp_all add: payload_bytes_def)

text \<open>Eviction keeps a suffix, always the last frame, and ends within the limits.\<close>

lemma evict_spec:
  assumes "fs \<noteq> []" "1 \<le> maxFrames" "evict maxFrames maxBytes fs (payload_bytes fs) = (gs, b)"
  shows "\<exists>j < length fs. gs = drop j fs \<and> b = payload_bytes gs \<and> int (length gs) \<le> maxFrames
    \<and> (b \<le> maxBytes \<or> length gs = 1)"
  using assms
proof (induction fs)
  case Nil
  then show ?case by simp
next
  case (Cons f fs)
  show ?case
  proof (cases "int (length (f # fs)) > maxFrames \<or> (payload_bytes (f # fs) > maxBytes \<and> length (f # fs) > 1)")
    case True
    with Cons.prems(2) have ne: "fs \<noteq> []" by auto
    from True Cons.prems(3) have ev: "evict maxFrames maxBytes fs (payload_bytes fs) = (gs, b)"
      by simp
    obtain j where j: "j < length fs" "gs = drop j fs"
      and rest: "b = payload_bytes gs \<and> int (length gs) \<le> maxFrames \<and> (b \<le> maxBytes \<or> length gs = 1)"
      using Cons.IH [OF ne Cons.prems(2) ev] by blast
    from j have "Suc j < length (f # fs)" "gs = drop (Suc j) (f # fs)" by simp_all
    with rest show ?thesis by blast
  next
    case False
    with Cons.prems(3) have gs: "gs = drop 0 (f # fs)" and b: "b = payload_bytes (f # fs)"
      by auto
    moreover from False have "int (length gs) \<le> maxFrames" "b \<le> maxBytes \<or> length gs = 1"
      by (auto simp: gs b)
    ultimately show ?thesis by (intro exI [of _ 0]) simp
  qed
qed

lemma ring_hist_new:
  "NewRing tab maxFrames maxBytes = Inr r \<Longrightarrow> ring_hist 0 r []"
  by (auto simp: NewRing_def ring_hist_def split: if_splits)

lemma ring_hist_append:
  assumes hist: "ring_hist k r h" and app: "ring_Append r p = Inr (f, r')"
    and room: "length h + 2 < 2 ^ 64"
  shows "\<exists>k' \<ge> k. ring_hist k' r' (h @ [p]) \<and> f = out_frame (rg_tabID r) (length h + 1) p
    \<and> rg_tabID r' = rg_tabID r"
proof -
  let ?f = "out_frame (rg_tabID r) (length h + 1) p"
  let ?all = "frames_from (rg_tabID r) (Suc k) (drop k h @ [p])"
  from hist have k: "k \<le> length h" and nxt: "rg_next r = of_nat (length h + 1)"
    and fs: "rg_frames r = frames_from (rg_tabID r) (Suc k) (drop k h)"
    and b: "rg_bytes r = payload_bytes (rg_frames r)" and mf: "1 \<le> rg_maxFrames r"
    by (auto simp: ring_hist_def)
  have all: "rg_frames r @ [?f] = ?all"
    using k fs by (simp add: frames_from_append)
  obtain gs c where ev: "evict (rg_maxFrames r) (rg_maxBytes r) ?all (payload_bytes ?all) = (gs, c)"
    by force
  have pb: "payload_bytes ?all = rg_bytes r + int (length p)"
    unfolding all [symmetric] b by (simp add: out_frame_def)
  have ev': "evict (rg_maxFrames r) (rg_maxBytes r) (rg_frames r @ [?f])
      (rg_bytes r + int (length p)) = (gs, c)"
    using ev by (simp only: all pb)
  have "length p \<le> MaxPayload" using app by (auto simp: ring_Append_def split: if_splits)
  then have res: "f = ?f" "r' = r\<lparr>rg_next := rg_next r + 1, rg_frames := gs, rg_bytes := c\<rparr>"
    using app ev' by (auto simp: ring_Append_def Let_def out_frame_def nxt)
  from evict_spec [OF _ mf ev] obtain j where j: "j < length ?all" "gs = drop j ?all"
    and lim: "c = payload_bytes gs" "int (length gs) \<le> rg_maxFrames r"
      "c \<le> rg_maxBytes r \<or> length gs = 1"
    by auto
  have "gs = frames_from (rg_tabID r) (Suc (k + j)) (drop (k + j) (h @ [p]))"
    using j k by (simp add: drop_frames_from add.commute)
  moreover have "k + j < length (h @ [p])" using j k by simp
  moreover have "rg_next r + 1 = of_nat (length (h @ [p]) + 1)" by (simp add: nxt)
  ultimately have "ring_hist (k + j) r' (h @ [p])"
    using lim hist room \<open>length p \<le> MaxPayload\<close> by (auto simp: ring_hist_def res)
  with res show ?thesis by (intro exI [of _ "k + j"]) simp
qed

lemma filter_frames_from:
  assumes "n + length ps < 2 ^ 64" "unat s < n + length ps" "n \<le> unat s + 1"
  shows "filter (\<lambda>f. f_Sequence f > s) (frames_from tab n ps) =
    frames_from tab (unat s + 1) (drop (unat s + 1 - n) ps)"
  using assms
proof (induction ps arbitrary: n)
  case Nil
  then show ?case by simp
next
  case (Cons p ps)
  have seq: "(s < of_nat m) = (unat s < m)" if "m < 2 ^ 64" for m
    using that by (simp add: word_less_nat_alt unat_of_nat)
  show ?case
  proof (cases "n = unat s + 1")
    case True
    have "filter (\<lambda>f. f_Sequence f > s) (frames_from tab m qs) = frames_from tab m qs"
      if "unat s < m" "m + length qs < 2 ^ 64" for m qs
      using that by (induction qs arbitrary: m) (auto simp: out_frame_def seq)
    from this [of n "p # ps"] True Cons.prems show ?thesis
      by (simp del: frames_from.simps)
  next
    case False
    with Cons.prems have "n < unat s + 1" by simp
    with Cons.prems Cons.IH [of "Suc n"] show ?thesis
      by (simp add: out_frame_def seq Suc_diff_le)
  qed
qed

text \<open>\<^verbatim>\<open>After\<close> on a ring that stands for a history.\<close>

lemma ring_After_hist:
  assumes "ring_hist k r h"
  shows "Gap (ring_After r s) \<longleftrightarrow> unat s < k \<or> length h < unat s"
    and "\<not> Gap (ring_After r s) \<Longrightarrow>
      Frames (ring_After r s) = frames_from (rg_tabID r) (unat s + 1) (drop (unat s) h)"
    and "Gap (ring_After r s) \<Longrightarrow> Frames (ring_After r s) = rg_frames r
      \<and> EarliestSequence (ring_After r s) = of_nat (k + 1)"
proof -
  from assms have k: "k \<le> length h" "h \<noteq> [] \<Longrightarrow> k < length h" and len: "length h + 1 < 2 ^ 64"
    and nxt: "rg_next r = of_nat (length h + 1)"
    and fs: "rg_frames r = frames_from (rg_tabID r) (Suc k) (drop k h)"
    by (auto simp: ring_hist_def)
  have latest: "rg_next r - 1 = of_nat (length h)" by (simp add: nxt)
  have less: "(s < of_nat m) = (unat s < m)" "(of_nat m < s) = (m < unat s)" if "m < 2 ^ 64" for m
    using that by (simp_all add: word_less_nat_alt unat_of_nat)
  have all: "Gap (ring_After r s) \<longleftrightarrow> unat s < k \<or> length h < unat s"
    "\<not> Gap (ring_After r s) \<longrightarrow>
      Frames (ring_After r s) = frames_from (rg_tabID r) (unat s + 1) (drop (unat s) h)"
    "Gap (ring_After r s) \<longrightarrow> Frames (ring_After r s) = rg_frames r
      \<and> EarliestSequence (ring_After r s) = of_nat (k + 1)"
  proof (atomize (full), cases "h = []")
    case True
    with k fs nxt len latest less [of 0] show "(Gap (ring_After r s) \<longleftrightarrow> unat s < k \<or> length h < unat s) \<and>
      (\<not> Gap (ring_After r s) \<longrightarrow>
      Frames (ring_After r s) = frames_from (rg_tabID r) (unat s + 1) (drop (unat s) h)) \<and>
      (Gap (ring_After r s) \<longrightarrow> Frames (ring_After r s) = rg_frames r
      \<and> EarliestSequence (ring_After r s) = of_nat (k + 1))"
      by (auto simp: ring_After_def Let_def)
  next
    case False
    with k have "k < length h" by simp
    then obtain f rest where fr: "rg_frames r = f # rest" and seq: "f_Sequence f = of_nat (k + 1)"
      unfolding fs by (cases "drop k h") (auto simp: out_frame_def)
    have gap: "s < f_Sequence f - 1 \<or> rg_next r - 1 < s \<longleftrightarrow> unat s < k \<or> length h < unat s"
      using len k less [of k] less [of "length h"] by (simp add: seq latest)
    have whole: "filter (\<lambda>g. f_Sequence g > of_nat k) (rg_frames r) = rg_frames r"
      using filter_frames_from [of "Suc k" "drop k h" "of_nat k" "rg_tabID r"] k len \<open>k < length h\<close>
      by (simp add: fs unat_of_nat)
    have part: "filter (\<lambda>g. f_Sequence g > s) (rg_frames r) =
        frames_from (rg_tabID r) (unat s + 1) (drop (unat s) h)" if "k \<le> unat s" "unat s \<le> length h"
      using filter_frames_from [of "Suc k" "drop k h" s "rg_tabID r"] that k len
      by (simp add: fs drop_drop)
    show "(Gap (ring_After r s) \<longleftrightarrow> unat s < k \<or> length h < unat s) \<and>
      (\<not> Gap (ring_After r s) \<longrightarrow>
      Frames (ring_After r s) = frames_from (rg_tabID r) (unat s + 1) (drop (unat s) h)) \<and>
      (Gap (ring_After r s) \<longrightarrow> Frames (ring_After r s) = rg_frames r
      \<and> EarliestSequence (ring_After r s) = of_nat (k + 1))"
      using gap whole part by (auto simp: ring_After_def Let_def fr seq)
  qed
  show "Gap (ring_After r s) \<longleftrightarrow> unat s < k \<or> length h < unat s"
    "\<not> Gap (ring_After r s) \<Longrightarrow>
      Frames (ring_After r s) = frames_from (rg_tabID r) (unat s + 1) (drop (unat s) h)"
    "Gap (ring_After r s) \<Longrightarrow> Frames (ring_After r s) = rg_frames r
      \<and> EarliestSequence (ring_After r s) = of_nat (k + 1)"
    using all by simp_all
qed

text \<open>Appending a list of payloads: the frames broadcast and the resulting log.\<close>

fun feed :: "('r \<Rightarrow> bytes \<Rightarrow> (frame \<times> 'r) result) \<Rightarrow> 'r \<Rightarrow> bytes list \<Rightarrow> (frame list \<times> 'r) result"
  where
  "feed app r [] = Inr ([], r)"
| "feed app r (p # ps) =
     (case app r p of Inl e \<Rightarrow> Inl e
      | Inr (f, r') \<Rightarrow> (case feed app r' ps of Inl e \<Rightarrow> Inl e | Inr (fs, r'') \<Rightarrow> Inr (f # fs, r'')))"

subsection \<open>The contract of a replay log\<close>

text \<open>
  What a tab needs of its ring: appending extends the history by one payload and gives the
  frame to broadcast; a replay without a gap is exactly the part of the history after the
  client's cursor; a replay with a gap is a suffix of the history, starting at the announced
  sequence, from which the client can rebuild.
\<close>

locale replay_log =
  fixes hist :: "'r \<Rightarrow> bytes list \<Rightarrow> bool"
    and app :: "'r \<Rightarrow> bytes \<Rightarrow> (frame \<times> 'r) result"
    and aft :: "'r \<Rightarrow> 64 word \<Rightarrow> replay"
  assumes app_hist: "hist r h \<Longrightarrow> app r p = Inr (f, r') \<Longrightarrow> length h + 2 < 2 ^ 64 \<Longrightarrow>
      hist r' (h @ [p]) \<and> f_Payload f = p \<and> f_Sequence f = of_nat (length h + 1)"
    and aft_ok: "hist r h \<Longrightarrow> \<not> Gap (aft r s) \<Longrightarrow>
      unat s \<le> length h \<and> map f_Payload (Frames (aft r s)) = drop (unat s) h"
    and aft_gap: "hist r h \<Longrightarrow> Gap (aft r s) \<Longrightarrow>
      \<exists>k \<le> length h. map f_Payload (Frames (aft r s)) = drop k h
        \<and> EarliestSequence (aft r s) = of_nat (k + 1)"
begin

lemma feed_hist:
  "hist r h \<Longrightarrow> feed app r ps = Inr (fs, r') \<Longrightarrow> length h + length ps + 1 < 2 ^ 64 \<Longrightarrow>
     hist r' (h @ ps) \<and> map f_Payload fs = ps"
proof (induction ps arbitrary: r h fs)
  case Nil
  then show ?case by auto
next
  case (Cons p ps)
  from Cons.prems(2) obtain f r1 gs where a: "app r p = Inr (f, r1)"
    and b: "feed app r1 ps = Inr (gs, r')" and fs: "fs = f # gs"
    by (auto split: sum.splits)
  from app_hist [OF Cons.prems(1) a] Cons.prems(3)
  have "hist r1 (h @ [p])" "f_Payload f = p" by auto
  with Cons.IH [OF this(1) b] Cons.prems(3) fs show ?case by simp
qed

text \<open>A client that had received the first \<open>s\<close> payloads, replays after \<open>s\<close> without a gap and
  then receives the broadcasts has received the whole history, in order, once.\<close>

lemma resume_stream:
  assumes "hist r h" "\<not> Gap (aft r s)" "feed app r ps = Inr (fs, r')"
    and "length h + length ps + 1 < 2 ^ 64"
  shows "take (unat s) h @ map f_Payload (Frames (aft r s)) @ map f_Payload fs = h @ ps"
  using aft_ok [OF assms(1,2)] feed_hist [OF assms(1,3,4)]
  by (metis append.assoc append_take_drop_id)

lemma reset_stream:
  assumes "hist r h" "Gap (aft r s)" "feed app r ps = Inr (fs, r')"
    and "length h + length ps + 1 < 2 ^ 64"
  shows "\<exists>k \<le> length h. map f_Payload (Frames (aft r s)) @ map f_Payload fs = drop k (h @ ps)
    \<and> EarliestSequence (aft r s) = of_nat (k + 1)"
proof -
  obtain k where "k \<le> length h" "map f_Payload (Frames (aft r s)) = drop k h"
    "EarliestSequence (aft r s) = of_nat (k + 1)"
    using aft_gap [OF assms(1,2)] by blast
  moreover have "map f_Payload fs = ps" using feed_hist [OF assms(1,3,4)] by blast
  ultimately show ?thesis by (intro exI [of _ k]) simp
qed

end

interpretation ring_log: replay_log "\<lambda>r h. \<exists>k. ring_hist k r h" ring_Append ring_After
proof
  fix r h p f r'
  assume "\<exists>k. ring_hist k r h" and app: "ring_Append r p = Inr (f, r')" and room: "length h + 2 < 2 ^ 64"
  then obtain k where "ring_hist k r h" by blast
  from ring_hist_append [OF this app room]
  show "(\<exists>k. ring_hist k r' (h @ [p])) \<and> f_Payload f = p \<and> f_Sequence f = word_of_nat (length h + 1)"
    by (force simp: out_frame_def)
next
  fix r h s
  assume "\<exists>k. ring_hist k r h" "\<not> Gap (ring_After r s)"
  then show "unat s \<le> length h \<and> map f_Payload (Frames (ring_After r s)) = drop (unat s) h"
    by (auto simp: ring_After_hist)
next
  fix r h s
  assume hist: "\<exists>k. ring_hist k r h" and gap: "Gap (ring_After r s)"
  then obtain k where k: "ring_hist k r h" by blast
  have "Frames (ring_After r s) = rg_frames r" "EarliestSequence (ring_After r s) = of_nat (k + 1)"
    using ring_After_hist(3) [OF k gap] by auto
  with k show "\<exists>k\<le>length h. map f_Payload (Frames (ring_After r s)) = drop k h
      \<and> EarliestSequence (ring_After r s) = word_of_nat (k + 1)"
    by (intro exI [of _ k]) (auto simp: ring_hist_def)
qed

subsection \<open>Rings in use\<close>

lemma new_ring_hist:
  assumes "NewRing tab mf mb = Inr r0" "feed ring_Append r0 h = Inr (sent, r)" "length h + 1 < 2 ^ 64"
  shows "\<exists>k. ring_hist k r h"
proof -
  have "\<exists>k. ring_hist k r0 []" using ring_hist_new [OF assms(1)] by blast
  from ring_log.feed_hist [OF this assms(2)] assms(3) show ?thesis by simp
qed

text \<open>Reconnecting loses and duplicates nothing. For every ring built by \<^verbatim>\<open>NewRing\<close> and
  any appended history, a client whose cursor says it has received the first \<open>s\<close> frames and
  whose replay reports no gap ends up, after the replayed frames and the live broadcasts,
  with exactly the history in order. If the replay reports a gap, what it receives is the
  whole history from the announced earliest sequence on.\<close>

theorem replay_complete:
  assumes "NewRing tab mf mb = Inr r0" "feed ring_Append r0 h = Inr (sent, r)"
    and "feed ring_Append r ps = Inr (fs, r')" "length h + length ps + 1 < 2 ^ 64"
  shows "if Gap (ring_After r s)
    then \<exists>k \<le> length h. map f_Payload (Frames (ring_After r s)) @ map f_Payload fs = drop k (h @ ps)
           \<and> EarliestSequence (ring_After r s) = of_nat (k + 1)
    else take (unat s) h @ map f_Payload (Frames (ring_After r s)) @ map f_Payload fs = h @ ps"
proof -
  have hist: "\<exists>k. ring_hist k r h"
    using new_ring_hist [OF assms(1,2)] assms(4) by simp
  show ?thesis
    using ring_log.resume_stream [OF hist _ assms(3,4)] ring_log.reset_stream [OF hist _ assms(3,4)]
    by simp
qed

lemmas ring_eval = NewRing_def ring_Append_def ring_After_def tab_IsZero_def MaxPayload_def Let_def
  word_less_nat_alt

definition example_ring :: ring where
  "example_ring = \<lparr>rg_tabID = replicate 16 1, rg_frames = [], rg_bytes = 0, rg_maxFrames = 2,
     rg_maxBytes = 10, rg_next = 1\<rparr>"

lemma example_ring_new: "NewRing (replicate 16 1) 2 10 = Inr example_ring"
  by (simp add: ring_eval example_ring_def)

lemma example_ring_feed:
  "\<exists>sent r. feed ring_Append example_ring [[1], [2], [3]] = Inr (sent, r)
     \<and> map f_Payload (rg_frames r) = [[2], [3]] \<and> \<not> Gap (ring_After r 2)
     \<and> (\<exists>fs r'. feed ring_Append r [[4]] = Inr (fs, r'))"
  by (simp add: ring_eval example_ring_def)

theorem replay_complete_witness:
  "\<exists>sent r fs r'. feed ring_Append example_ring [[1], [2], [3]] = Inr (sent, r)
     \<and> feed ring_Append r [[4]] = Inr (fs, r') \<and> \<not> Gap (ring_After r 2)
     \<and> take 2 [[1], [2], [3]] @ map f_Payload (Frames (ring_After r 2)) @ map f_Payload fs
         = [[1], [2], [3], [4]]"
proof -
  obtain sent r fs r' where r: "feed ring_Append example_ring [[1], [2], [3]] = Inr (sent, r)"
    and ng: "\<not> Gap (ring_After r 2)" and b: "feed ring_Append r [[4]] = Inr (fs, r')"
    using example_ring_feed by (elim exE conjE)
  from replay_complete [OF example_ring_new r b, of 2] ng r b show ?thesis by auto
qed

text \<open>The ring never holds more than its configured number of frames, nor more than its
  byte budget unless a single frame is larger, and as soon as anything was written it holds
  the newest frame.\<close>

theorem ring_bounded:
  assumes "NewRing tab mf mb = Inr r0" "feed ring_Append r0 h = Inr (sent, r)" "length h + 1 < 2 ^ 64"
  shows "int (length (rg_frames r)) \<le> rg_maxFrames r
    \<and> (payload_bytes (rg_frames r) \<le> rg_maxBytes r \<or> length (rg_frames r) = 1)
    \<and> (h \<noteq> [] \<longrightarrow> rg_frames r \<noteq> [] \<and> f_Payload (last (rg_frames r)) = last h)"
proof -
  obtain k where k: "ring_hist k r h" using new_ring_hist [OF assms] by blast
  have "f_Payload (last (rg_frames r)) = last h" if "h \<noteq> []"
  proof -
    from k that have ne: "rg_frames r \<noteq> []" "map f_Payload (rg_frames r) = drop k h" "k < length h"
      by (auto simp: ring_hist_def)
    then have "f_Payload (last (rg_frames r)) = last (drop k h)" by (metis last_map)
    with ne show ?thesis by simp
  qed
  with k show ?thesis by (auto simp: ring_hist_def)
qed

theorem ring_bounded_witness:
  "\<exists>sent r. feed ring_Append example_ring [[1], [2], [3]] = Inr (sent, r)
     \<and> length (rg_frames r) = 2 \<and> f_Payload (last (rg_frames r)) = [3]"
proof -
  obtain sent r where r: "feed ring_Append example_ring [[1], [2], [3]] = Inr (sent, r)"
    and m: "map f_Payload (rg_frames r) = [[2], [3]]"
    using example_ring_feed by (elim exE conjE)
  from m have "length (map f_Payload (rg_frames r)) = 2" by simp
  then have "length (rg_frames r) = 2" by simp
  with ring_bounded [OF example_ring_new r] r show ?thesis by auto
qed

end
