(* ===== verification/Terminal_Lease.thy ===== *)
theory Terminal_Lease
  imports Go_Text
begin

text \<open>
  \<^verbatim>\<open>terminal/lease.go\<close>: the exclusive input lease of a tab. The zero \<^verbatim>\<open>Lease\<close> has an
  empty device id and the zero time. Each method runs under the manager's mutex, so it is
  one atomic state change. \<open>input_lease\<close> is the contract the gateway relies on.
\<close>

record lease =
  l_DeviceID :: string
  l_ExpiresAt :: time

record lease_decision =
  ld_Lease :: lease
  ld_Displaced :: string

record lease_manager =
  lm_ttl :: time
  lm_lease :: lease

definition zero_lease :: lease where
  "zero_lease = \<lparr>l_DeviceID = [], l_ExpiresAt = 0\<rparr>"

definition NewLeaseManager :: "time \<Rightarrow> lease_manager result" where
  "NewLeaseManager ttl =
     (if ttl < 5 * second \<or> ttl > 5 * minute
      then Inl (errorsNew ''lease TTL must be between 5 seconds and 5 minutes'')
      else Inr \<lparr>lm_ttl = ttl, lm_lease = zero_lease\<rparr>)"

text \<open>\<^verbatim>\<open>Request\<close> returns a decision and possibly an error; a refused request reports the
  current lease together with \<^verbatim>\<open>ErrLeaseHeld\<close>.\<close>

definition lease_Request ::
  "lease_manager \<Rightarrow> string \<Rightarrow> bool \<Rightarrow> time \<Rightarrow> (lease_decision \<times> goerr option) \<times> lease_manager" where
  "lease_Request m deviceID take_it now =
     (if deviceID = []
      then ((\<lparr>ld_Lease = zero_lease, ld_Displaced = []\<rparr>, Some (errorsNew ''device ID is required'')), m)
      else if l_DeviceID (lm_lease m) = [] \<or> \<not> now < l_ExpiresAt (lm_lease m)
         \<or> l_DeviceID (lm_lease m) = deviceID
      then let l = \<lparr>l_DeviceID = deviceID, l_ExpiresAt = now + lm_ttl m\<rparr>
           in ((\<lparr>ld_Lease = l, ld_Displaced = []\<rparr>, None), m\<lparr>lm_lease := l\<rparr>)
      else if \<not> take_it
      then ((\<lparr>ld_Lease = lm_lease m, ld_Displaced = []\<rparr>,
             Some (GoErr ErrLeaseHeld ''terminal input lease held by another device'')), m)
      else let displaced = l_DeviceID (lm_lease m);
               l = \<lparr>l_DeviceID = deviceID, l_ExpiresAt = now + lm_ttl m\<rparr>
           in ((\<lparr>ld_Lease = l, ld_Displaced = displaced\<rparr>, None), m\<lparr>lm_lease := l\<rparr>))"

definition lease_Renew ::
  "lease_manager \<Rightarrow> string \<Rightarrow> time \<Rightarrow> (lease \<times> goerr option) \<times> lease_manager" where
  "lease_Renew m deviceID now =
     (if l_DeviceID (lm_lease m) \<noteq> deviceID \<or> \<not> now < l_ExpiresAt (lm_lease m)
      then ((lm_lease m, Some (GoErr ErrLeaseHeld ''terminal input lease held by another device'')), m)
      else let l = (lm_lease m)\<lparr>l_ExpiresAt := now + lm_ttl m\<rparr>
           in ((l, None), m\<lparr>lm_lease := l\<rparr>))"

definition lease_Release :: "lease_manager \<Rightarrow> string \<Rightarrow> bool \<times> lease_manager" where
  "lease_Release m deviceID =
     (if l_DeviceID (lm_lease m) \<noteq> deviceID then (False, m)
      else (True, m\<lparr>lm_lease := zero_lease\<rparr>))"

definition lease_Holder :: "lease_manager \<Rightarrow> time \<Rightarrow> lease \<times> lease_manager" where
  "lease_Holder m now =
     (let m' = (if l_DeviceID (lm_lease m) \<noteq> [] \<and> \<not> now < l_ExpiresAt (lm_lease m)
                then m\<lparr>lm_lease := zero_lease\<rparr> else m)
      in (lm_lease m', m'))"

subsection \<open>Operations as events\<close>

datatype lease_op = LRequest string bool time | LRenew string time | LRelease string | LHolder time

fun lease_apply :: "lease_op \<Rightarrow> lease_manager \<Rightarrow> lease_manager" where
  "lease_apply (LRequest d t now) m = snd (lease_Request m d t now)"
| "lease_apply (LRenew d now) m = snd (lease_Renew m d now)"
| "lease_apply (LRelease d) m = snd (lease_Release m d)"
| "lease_apply (LHolder now) m = snd (lease_Holder m now)"

text \<open>An operation that can end \<open>d\<close>'s term \<open>[lo, hi)\<close>: a take-over by another device,
  \<open>d\<close>'s own release, or any operation whose clock reads outside the term.\<close>

fun ends_term :: "string \<Rightarrow> time \<Rightarrow> time \<Rightarrow> lease_op \<Rightarrow> bool" where
  "ends_term d lo hi (LRequest d' t now) \<longleftrightarrow> (t \<and> d' \<noteq> d) \<or> now < lo \<or> hi \<le> now"
| "ends_term d lo hi (LRenew d' now) \<longleftrightarrow> now < lo \<or> hi \<le> now"
| "ends_term d lo hi (LRelease d') \<longleftrightarrow> d' = d"
| "ends_term d lo hi (LHolder now) \<longleftrightarrow> now < lo \<or> hi \<le> now"

text \<open>\<open>lease_granted m d hi\<close>: device \<open>d\<close> has the lease at least until \<open>hi\<close>.\<close>

definition lease_granted :: "lease_manager \<Rightarrow> string \<Rightarrow> time \<Rightarrow> bool" where
  "lease_granted m d hi \<longleftrightarrow> d \<noteq> [] \<and> l_DeviceID (lm_lease m) = d \<and> hi \<le> l_ExpiresAt (lm_lease m)"

definition lease_renew_error :: "lease_manager \<Rightarrow> string \<Rightarrow> time \<Rightarrow> goerr option" where
  "lease_renew_error m d now = snd (fst (lease_Renew m d now))"

lemmas lease_defs = lease_Request_def lease_Renew_def lease_Release_def lease_Holder_def
  lease_granted_def lease_renew_error_def zero_lease_def Let_def

text \<open>
  The contract: at most one device has the lease, the holder renews within its term, nobody
  else renews at all, a request during the term without take-over is refused, and a term
  survives every operation that does not end it.
\<close>

locale input_lease =
  fixes granted :: "'m \<Rightarrow> string \<Rightarrow> time \<Rightarrow> bool"
    and ttl :: "'m \<Rightarrow> time"
    and renew_error :: "'m \<Rightarrow> string \<Rightarrow> time \<Rightarrow> goerr option"
    and apply_op :: "lease_op \<Rightarrow> 'm \<Rightarrow> 'm"
  assumes exclusive: "granted m d hi \<Longrightarrow> granted m d' hi' \<Longrightarrow> d = d'"
    and renews: "granted m d hi \<Longrightarrow> now < hi \<Longrightarrow> renew_error m d now = None"
    and refused: "granted m d hi \<Longrightarrow> d' \<noteq> d \<Longrightarrow> renew_error m d' now \<noteq> None"
    and survives: "granted m d hi \<Longrightarrow> ttl m = hi - lo \<Longrightarrow> \<not> ends_term d lo hi e \<Longrightarrow>
      granted (apply_op e m) d hi"
    and ttl_fixed: "ttl (apply_op e m) = ttl m"
begin

lemma term_survives:
  "granted m d hi \<Longrightarrow> ttl m = hi - lo \<Longrightarrow> \<forall>e \<in> set es. \<not> ends_term d lo hi e \<Longrightarrow>
     granted (fold apply_op es m) d hi"
proof (induction es arbitrary: m)
  case Nil
  then show ?case by simp
next
  case (Cons e es)
  from Cons.prems have "granted (apply_op e m) d hi" by (intro survives) auto
  from Cons.IH [OF this] Cons.prems show ?case by (simp add: ttl_fixed)
qed

lemma term_exclusive:
  assumes "granted m d hi" "ttl m = hi - lo" "\<forall>e \<in> set es. \<not> ends_term d lo hi e"
    and "now < hi"
  shows "renew_error (fold apply_op es m) d' now = None \<longleftrightarrow> d' = d"
  using renews [OF term_survives [OF assms(1-3)] assms(4)]
    refused [OF term_survives [OF assms(1-3)], of d' now] by (cases "d' = d") simp_all

end

interpretation tab_lease: input_lease lease_granted lm_ttl lease_renew_error lease_apply
proof
  fix m d hi lo e
  assume "lease_granted m d hi" "lm_ttl m = hi - lo" "\<not> ends_term d lo hi e"
  then show "lease_granted (lease_apply e m) d hi"
    by (cases e) (auto simp: lease_defs)
next
  fix e m
  show "lm_ttl (lease_apply e m) = lm_ttl m"
    by (cases e) (auto simp: lease_defs)
qed (auto simp: lease_defs)

lemma lease_Request_granted:
  assumes "lease_Request m d t now = ((dec, None), m')"
  shows "lease_granted m' d (now + lm_ttl m) \<and> lm_ttl m' = lm_ttl m \<and> ld_Lease dec = lm_lease m'"
  using assms by (auto simp: lease_defs split: if_splits)

text \<open>A granted input lease is exclusive for its whole term. After a successful request of
  device \<open>d\<close> at time \<open>now\<close>, whatever operations of any devices follow with clocks in the
  term, as long as nobody takes the lease over and \<open>d\<close> does not release it, a renewal
  within the term, which every input and resize frame performs, succeeds for \<open>d\<close> and for
  no other device.\<close>

theorem lease_term_exclusive:
  assumes "lease_Request m d t now = ((dec, None), m')"
    and "\<forall>e \<in> set es. \<not> ends_term d now (now + lm_ttl m) e"
    and "later < now + lm_ttl m"
  shows "snd (fst (lease_Renew (fold lease_apply es m') d' later)) = None \<longleftrightarrow> d' = d"
proof -
  from lease_Request_granted [OF assms(1)]
  have g: "lease_granted m' d (now + lm_ttl m)" and "lm_ttl m' = lm_ttl m" by simp_all
  then have ttl: "lm_ttl m' = now + lm_ttl m - now" by simp
  from tab_lease.term_exclusive [OF g ttl assms(2,3)] show ?thesis
    by (simp add: lease_renew_error_def)
qed

definition example_lease :: lease_manager where
  "example_lease = \<lparr>lm_ttl = 45 * second, lm_lease = zero_lease\<rparr>"

theorem lease_term_exclusive_witness:
  "\<exists>dec m'. lease_Request example_lease ''phone'' False 100 = ((dec, None), m')
     \<and> snd (fst (lease_Renew (fold lease_apply [LRequest ''pad'' False 200] m') ''phone'' 300)) = None
     \<and> snd (fst (lease_Renew (fold lease_apply [LRequest ''pad'' False 200] m') ''pad'' 300)) \<noteq> None"
proof -
  obtain dec m' where r: "lease_Request example_lease ''phone'' False 100 = ((dec, None), m')"
    by (simp add: lease_Request_def example_lease_def zero_lease_def Let_def)
  have ops: "\<forall>e \<in> set [LRequest ''pad'' False 200].
      \<not> ends_term ''phone'' 100 (100 + lm_ttl example_lease) e"
    by (simp add: example_lease_def)
  have t: "300 < 100 + lm_ttl example_lease" by (simp add: example_lease_def)
  from r lease_term_exclusive [OF r ops t, of "''phone''"] lease_term_exclusive [OF r ops t, of "''pad''"]
  show ?thesis by auto
qed

text \<open>The outcome of a request: an empty device id is refused and changes nothing; a
  device gets the lease when it is free, expired or its own, or when it asks to take it, and
  then the decision names the displaced device; otherwise it is refused with the holder's
  lease and nothing changes.\<close>

theorem lease_Request_cases:
  "case lease_Request m d t now of ((dec, err), m') \<Rightarrow>
     (if d = [] then err \<noteq> None \<and> m' = m
      else if lm_lease m = zero_lease \<or> l_DeviceID (lm_lease m) \<in> {[], d}
              \<or> l_ExpiresAt (lm_lease m) \<le> now \<or> t
      then err = None \<and> lm_lease m' = \<lparr>l_DeviceID = d, l_ExpiresAt = now + lm_ttl m\<rparr>
           \<and> ld_Displaced dec = (if l_DeviceID (lm_lease m) \<in> {[], d} \<or> l_ExpiresAt (lm_lease m) \<le> now
                                 then [] else l_DeviceID (lm_lease m))
      else map_option err_is err = Some ErrLeaseHeld \<and> m' = m \<and> ld_Lease dec = lm_lease m)"
  by (auto simp: lease_defs)

end
