(* ===== verification/Terminal_Gates.thy ===== *)
theory Terminal_Gates
  imports Go_Text
begin

text \<open>
  \<^verbatim>\<open>terminal/connection_admission.go\<close>: the two gates of a connection. The mutation gate
  linearises state-changing frames with revocation, the delivery gate WebSocket writes.
  Their code is the same text on two types, so both are modelled and both interpret the
  contract \<open>revocation_gate\<close>. The \<^verbatim>\<open>drained\<close> channel is the number of times it was
  closed: closing twice panics in Go, as does \<^verbatim>\<open>end\<close> without an admission, so these
  operations return \<open>None\<close> there. \<^verbatim>\<open>inFlight\<close> is a \<^verbatim>\<open>uint32\<close>.
\<close>

record mutation_gate =
  mg_revoked :: bool
  mg_inFlight :: "32 word"
  mg_drained :: bool

record delivery_gate =
  dg_revoked :: bool
  dg_inFlight :: "32 word"
  dg_drained :: bool

definition newConnectionMutationGate :: mutation_gate where
  "newConnectionMutationGate = \<lparr>mg_revoked = False, mg_inFlight = 0, mg_drained = False\<rparr>"

definition mutation_begin :: "mutation_gate \<Rightarrow> bool \<times> mutation_gate" where
  "mutation_begin g =
     (if mg_revoked g then (False, g) else (True, g\<lparr>mg_inFlight := mg_inFlight g + 1\<rparr>))"

definition close_mutation_drained :: "mutation_gate \<Rightarrow> mutation_gate option" where
  "close_mutation_drained g = (if mg_drained g then None else Some (g\<lparr>mg_drained := True\<rparr>))"

definition mutation_end :: "mutation_gate \<Rightarrow> mutation_gate option" where
  "mutation_end g =
     (if mg_inFlight g = 0 then None
      else let g' = g\<lparr>mg_inFlight := mg_inFlight g - 1\<rparr> in
        if mg_revoked g' \<and> mg_inFlight g' = 0 then close_mutation_drained g' else Some g')"

definition mutation_revoke :: "mutation_gate \<Rightarrow> mutation_gate option" where
  "mutation_revoke g =
     (if \<not> mg_revoked g
      then let g' = g\<lparr>mg_revoked := True\<rparr> in
        if mg_inFlight g' = 0 then close_mutation_drained g' else Some g'
      else Some g)"

definition newConnectionDeliveryGate :: delivery_gate where
  "newConnectionDeliveryGate = \<lparr>dg_revoked = False, dg_inFlight = 0, dg_drained = False\<rparr>"

definition delivery_begin :: "delivery_gate \<Rightarrow> bool \<times> delivery_gate" where
  "delivery_begin g =
     (if dg_revoked g then (False, g) else (True, g\<lparr>dg_inFlight := dg_inFlight g + 1\<rparr>))"

definition close_delivery_drained :: "delivery_gate \<Rightarrow> delivery_gate option" where
  "close_delivery_drained g = (if dg_drained g then None else Some (g\<lparr>dg_drained := True\<rparr>))"

definition delivery_end :: "delivery_gate \<Rightarrow> delivery_gate option" where
  "delivery_end g =
     (if dg_inFlight g = 0 then None
      else let g' = g\<lparr>dg_inFlight := dg_inFlight g - 1\<rparr> in
        if dg_revoked g' \<and> dg_inFlight g' = 0 then close_delivery_drained g' else Some g')"

definition delivery_revoke :: "delivery_gate \<Rightarrow> delivery_gate option" where
  "delivery_revoke g =
     (if \<not> dg_revoked g
      then let g' = g\<lparr>dg_revoked := True\<rparr> in
        if dg_inFlight g' = 0 then close_delivery_drained g' else Some g'
      else Some g)"

subsection \<open>Interleavings of callers\<close>

text \<open>
  The steps of any number of concurrent callers, in the order in which the mutex admits
  them. A caller ends only what was admitted to it, so the state counts the admitted work
  that has not ended. \<open>Panicked\<close> is the state after a Go panic.
\<close>

datatype gate_op = GBegin | GEnd | GRevoke

datatype 'g run_state = Live 'g nat | Panicked

fun gate_step ::
  "('g \<Rightarrow> bool \<times> 'g) \<Rightarrow> ('g \<Rightarrow> 'g option) \<Rightarrow> ('g \<Rightarrow> 'g option) \<Rightarrow> gate_op \<Rightarrow> 'g run_state \<Rightarrow> 'g run_state"
  where
  "gate_step beg fin rvk e Panicked = Panicked"
| "gate_step beg fin rvk GBegin (Live g n) =
     (case beg g of (True, g') \<Rightarrow> Live g' (Suc n) | (False, g') \<Rightarrow> Live g' n)"
| "gate_step beg fin rvk GEnd (Live g 0) = Live g 0"
| "gate_step beg fin rvk GEnd (Live g (Suc n)) =
     (case fin g of None \<Rightarrow> Panicked | Some g' \<Rightarrow> Live g' n)"
| "gate_step beg fin rvk GRevoke (Live g n) =
     (case rvk g of None \<Rightarrow> Panicked | Some g' \<Rightarrow> Live g' n)"

text \<open>
  The contract, for fewer than \<open>2^32\<close> callers in flight: the operations never panic, the
  channel is closed exactly when the gate is revoked and nothing is in flight, revocation is
  final, and a revoked gate admits nothing.
\<close>

locale revocation_gate =
  fixes new :: 'g
    and beg :: "'g \<Rightarrow> bool \<times> 'g"
    and fin :: "'g \<Rightarrow> 'g option"
    and rvk :: "'g \<Rightarrow> 'g option"
    and revoked :: "'g \<Rightarrow> bool"
    and drained :: "'g \<Rightarrow> bool"
    and flying :: "'g \<Rightarrow> nat"
  assumes new_gate: "\<not> revoked new \<and> \<not> drained new \<and> flying new = 0"
    and beg_gate: "beg g = (ok, g') \<Longrightarrow> flying g + 1 < 2 ^ 32 \<Longrightarrow>
      ok = (\<not> revoked g) \<and> revoked g' = revoked g \<and> drained g' = drained g
        \<and> flying g' = flying g + (if ok then 1 else 0)"
    and fin_gate: "0 < flying g \<Longrightarrow> \<not> drained g \<Longrightarrow>
      \<exists>g'. fin g = Some g' \<and> flying g' = flying g - 1 \<and> revoked g' = revoked g
        \<and> drained g' = (revoked g \<and> flying g' = 0)"
    and rev_gate: "drained g \<longleftrightarrow> revoked g \<and> flying g = 0 \<Longrightarrow>
      \<exists>g'. rvk g = Some g' \<and> revoked g' \<and> flying g' = flying g \<and> drained g' = (flying g = 0)"
begin

abbreviation run :: "gate_op list \<Rightarrow> 'g run_state \<Rightarrow> 'g run_state" where
  "run \<equiv> fold (gate_step beg fin rvk)"

definition good :: "'g run_state \<Rightarrow> bool" where
  "good s = (case s of Panicked \<Rightarrow> False
     | Live g n \<Rightarrow> flying g = n \<and> (drained g \<longleftrightarrow> revoked g \<and> n = 0))"

lemma good_step:
  assumes "good (Live g n)" "n + 1 < 2 ^ 32"
  shows "\<exists>g' n'. gate_step beg fin rvk e (Live g n) = Live g' n' \<and> good (Live g' n') \<and> n' \<le> n + 1
    \<and> (revoked g \<longrightarrow> revoked g' \<and> n' \<le> n)"
proof (cases e)
  case GBegin
  obtain ok g' where b: "beg g = (ok, g')" by force
  with beg_gate [OF b] assms GBegin show ?thesis by (cases ok) (auto simp: good_def)
next
  case GEnd
  show ?thesis
  proof (cases n)
    case 0
    with GEnd assms show ?thesis by (auto simp: good_def)
  next
    case (Suc m)
    with GEnd assms fin_gate [of g] show ?thesis by (auto simp: good_def)
  qed
next
  case GRevoke
  with assms rev_gate [of g] show ?thesis by (auto simp: good_def)
qed

lemma good_run:
  assumes "good (Live g n)" "n + length es + 1 < 2 ^ 32"
  shows "\<exists>g' n'. run es (Live g n) = Live g' n' \<and> good (Live g' n') \<and> n' \<le> n + length es
    \<and> (revoked g \<longrightarrow> revoked g' \<and> n' \<le> n)"
  using assms
proof (induction es arbitrary: g n)
  case Nil
  then show ?case by auto
next
  case (Cons e es)
  from Cons.prems have "n + 1 < 2 ^ 32" by simp
  from good_step [OF Cons.prems(1) this, of e] obtain g1 n1 where
    s: "gate_step beg fin rvk e (Live g n) = Live g1 n1" "good (Live g1 n1)" "n1 \<le> n + 1"
      "revoked g \<longrightarrow> revoked g1 \<and> n1 \<le> n"
    by blast
  from s(3) Cons.prems(2) have "n1 + length es + 1 < 2 ^ 32" by simp
  from Cons.IH [OF s(2) this] s show ?case by force
qed

lemma good_new: "good (Live new 0)"
  using new_gate by (simp add: good_def)

text \<open>Once a gate is drained, it stays drained and nothing is ever in flight again.\<close>

lemma drained_final:
  assumes "good (Live g n)" "drained g" "n + length es + 1 < 2 ^ 32"
  shows "\<exists>g'. run es (Live g n) = Live g' 0 \<and> drained g' \<and> fst (beg g') = False"
proof -
  from assms have "revoked g" "n = 0" by (auto simp: good_def)
  with good_run [OF assms(1,3)] obtain g' where
    g': "run es (Live g n) = Live g' 0" "good (Live g' 0)" "revoked g'" by auto
  obtain ok g'' where "beg g' = (ok, g'')" by force
  with beg_gate [of g' ok g''] g' show ?thesis by (auto simp: good_def)
qed

end

lemmas gate_defs = mutation_begin_def mutation_end_def mutation_revoke_def close_mutation_drained_def
  newConnectionMutationGate_def delivery_begin_def delivery_end_def delivery_revoke_def
  close_delivery_drained_def newConnectionDeliveryGate_def

lemma unat_inc: "unat (w :: 32 word) + 1 < 2 ^ 32 \<Longrightarrow> unat (w + 1) = unat w + 1"
  by (simp add: unat_word_ariths)

lemma unat_dec: "0 < unat (w :: 32 word) \<Longrightarrow> unat (w - 1) = unat w - 1"
  by (metis Suc_pred' diff_Suc_1 gr_implies_not0 less_Suc_eq_0_disj unat_eq_zero unat_minus_one)

interpretation mutation: revocation_gate newConnectionMutationGate mutation_begin mutation_end
  mutation_revoke mg_revoked mg_drained "\<lambda>g. unat (mg_inFlight g)"
proof
  fix g :: mutation_gate
  assume "0 < unat (mg_inFlight g)" "\<not> mg_drained g"
  then show "\<exists>g'. mutation_end g = Some g' \<and> unat (mg_inFlight g') = unat (mg_inFlight g) - 1
      \<and> mg_revoked g' = mg_revoked g \<and> mg_drained g' = (mg_revoked g \<and> unat (mg_inFlight g') = 0)"
    by (auto simp: gate_defs Let_def unat_dec unat_eq_zero)
qed (auto simp: gate_defs Let_def unat_inc unat_eq_zero split: if_splits)

interpretation delivery: revocation_gate newConnectionDeliveryGate delivery_begin delivery_end
  delivery_revoke dg_revoked dg_drained "\<lambda>g. unat (dg_inFlight g)"
proof
  fix g :: delivery_gate
  assume "0 < unat (dg_inFlight g)" "\<not> dg_drained g"
  then show "\<exists>g'. delivery_end g = Some g' \<and> unat (dg_inFlight g') = unat (dg_inFlight g) - 1
      \<and> dg_revoked g' = dg_revoked g \<and> dg_drained g' = (dg_revoked g \<and> unat (dg_inFlight g') = 0)"
    by (auto simp: gate_defs Let_def unat_dec unat_eq_zero)
qed (auto simp: gate_defs Let_def unat_inc unat_eq_zero split: if_splits)

text \<open>C36: revocation of a connection is final and its drain is exact. From a fresh mutation
  gate, under any interleaving of fewer than \<open>2^32 - 1\<close> begin, end and revoke calls of the
  connection's goroutines, no call panics; the drain channel is closed exactly when the gate
  has been revoked and no admitted mutation is left; and after a revocation no further
  mutation is admitted.\<close>

theorem mutation_gate_linearizes:
  assumes "length es + 1 < 2 ^ 32"
  shows "\<exists>g n. fold (gate_step mutation_begin mutation_end mutation_revoke) es
      (Live newConnectionMutationGate 0) = Live g n
    \<and> (mg_drained g \<longleftrightarrow> mg_revoked g \<and> n = 0)
    \<and> unat (mg_inFlight g) = n
    \<and> (fst (mutation_begin g) \<longleftrightarrow> \<not> mg_revoked g)
    \<and> (GRevoke \<in> set es \<longrightarrow> mg_revoked g)"
proof -
  have len: "0 + length es + 1 < 2 ^ 32" using assms by simp
  from mutation.good_run [OF mutation.good_new len] obtain g n where
    run: "mutation.run es (Live newConnectionMutationGate 0) = Live g n" and good: "mutation.good (Live g n)"
    by blast
  have "mg_revoked g" if "GRevoke \<in> set es"
  proof -
    from that obtain as bs where es: "es = as @ GRevoke # bs" by (meson split_list)
    have la: "0 + length as + 1 < 2 ^ 32" using assms es by simp
    from mutation.good_run [OF mutation.good_new la] obtain h k where
      h: "mutation.run as (Live newConnectionMutationGate 0) = Live h k" "mutation.good (Live h k)"
        "k \<le> 0 + length as" by blast
    from h(2) mutation.rev_gate [of h] obtain h' where
      h': "mutation_revoke h = Some h'" "mg_revoked h'" "mutation.good (Live h' k)"
      by (auto simp: mutation.good_def)
    have "k + length bs + 1 < 2 ^ 32" using h(3) assms es by simp
    from mutation.good_run [OF h'(3) this] h(1) h' run es show ?thesis by auto
  qed
  with run good show ?thesis by (auto simp: mutation.good_def mutation_begin_def)
qed

theorem mutation_gate_linearizes_witness:
  "\<exists>g n. fold (gate_step mutation_begin mutation_end mutation_revoke) [GBegin, GRevoke, GBegin, GEnd]
      (Live newConnectionMutationGate 0) = Live g n \<and> mg_revoked g \<and> \<not> fst (mutation_begin g)"
proof -
  have "length [GBegin, GRevoke, GBegin, GEnd] + 1 < (2::nat) ^ 32" by simp
  from mutation_gate_linearizes [OF this] show ?thesis by auto
qed

text \<open>Once the delivery gate has drained, no WebSocket write is in flight and none can
  start, whatever calls follow.\<close>

theorem delivery_gate_drained_final:
  assumes "length es + length fs + 1 < 2 ^ 32"
    and "fold (gate_step delivery_begin delivery_end delivery_revoke) es
           (Live newConnectionDeliveryGate 0) = Live g n"
    and "dg_drained g"
  shows "\<exists>g'. fold (gate_step delivery_begin delivery_end delivery_revoke) fs (Live g n) = Live g' 0
    \<and> dg_drained g' \<and> \<not> fst (delivery_begin g')"
proof -
  have le: "0 + length es + 1 < 2 ^ 32" using assms(1) by simp
  from delivery.good_run [OF delivery.good_new le] assms(2)
  have good: "delivery.good (Live g n)" and "n \<le> length es" by auto
  then have "n + length fs + 1 < 2 ^ 32" using assms(1) by simp
  from delivery.drained_final [OF good assms(3) this] show ?thesis by simp
qed

theorem delivery_gate_drained_final_witness:
  "\<exists>g n g'. fold (gate_step delivery_begin delivery_end delivery_revoke) [GBegin, GRevoke, GEnd]
      (Live newConnectionDeliveryGate 0) = Live g n \<and> dg_drained g
    \<and> fold (gate_step delivery_begin delivery_end delivery_revoke) [GBegin] (Live g n) = Live g' 0"
proof -
  let ?g = "\<lparr>dg_revoked = True, dg_inFlight = 0, dg_drained = True\<rparr>"
  have l: "length [GBegin, GRevoke, GEnd] + length [GBegin] + 1 < (2::nat) ^ 32" by simp
  have r: "fold (gate_step delivery_begin delivery_end delivery_revoke) [GBegin, GRevoke, GEnd]
      (Live newConnectionDeliveryGate 0) = Live ?g 0"
    by (simp add: gate_defs Let_def)
  have d: "dg_drained ?g" by simp
  from delivery_gate_drained_final [OF l r d] r d show ?thesis by blast
qed

end
