(* ===== verification/Terminal_Filter.thy ===== *)
theory Terminal_Filter
  imports Terminal_Protocol
begin

text \<open>
  \<^verbatim>\<open>terminal/filter.go\<close>: the stateful filter between the PTY and the replay ring. It
  removes clipboard writes (OSC 52), bounds operating-system commands (OSC), sanitises
  window titles, and keeps an unfinished sequence for the next read. The loop of
  \<^verbatim>\<open>Process\<close> is a function on the pending bytes, with the output as an accumulator.
\<close>

definition maxOSCBytes :: nat where "maxOSCBytes = 65536"

abbreviation ESC :: byte where "ESC \<equiv> 27"
abbreviation BEL :: byte where "BEL \<equiv> 7"

fun oscEnd :: "bytes \<Rightarrow> (nat \<times> nat) option" where
  "oscEnd [] = None"
| "oscEnd (b # bs) =
     (if b = BEL then Some (0, 1)
      else if b = ESC \<and> bs \<noteq> [] \<and> hd bs = 92 then Some (0, 2)
      else map_option (\<lambda>(i, t). (Suc i, t)) (oscEnd bs))"

text \<open>The loop over runes of \<^verbatim>\<open>sanitizeText\<close>: stop once the encoded output reaches the limit.\<close>

fun sanitize_runes :: "nat list \<Rightarrow> nat list \<Rightarrow> nat \<Rightarrow> nat list" where
  "sanitize_runes [] out limit = out"
| "sanitize_runes (r # rs) out limit =
     (let out' = (if r \<ge> 32 \<and> r \<noteq> 127 then out @ encode_rune r else out)
      in if length out' \<ge> limit then out' else sanitize_runes rs out' limit)"

text \<open>The final loop: cut bytes at the end while too long or not valid UTF-8.\<close>

function cut_valid :: "nat \<Rightarrow> nat list \<Rightarrow> nat list" where
  "cut_valid limit bs =
     (if bs \<noteq> [] \<and> (length bs > limit \<or> \<not> utf8_valid bs) then cut_valid limit (butlast bs) else bs)"
  by pat_completeness auto
termination
  by (relation "measure (length \<circ> snd)") auto

declare cut_valid.simps [simp del]

definition sanitizeText :: "bytes \<Rightarrow> nat \<Rightarrow> bytes" where
  "sanitizeText input limit =
     (let text = map fst (filter (\<lambda>(r, w, ok). ok) (runes (map unat input)))
      in map of_nat (cut_valid limit (sanitize_runes text [] limit)))"

definition safeOSC :: "bytes \<Rightarrow> bytes option" where
  "safeOSC content =
     (case index_of content [59] of
        None \<Rightarrow> None
      | Some i \<Rightarrow>
          let command = take i content; payload = drop (i + 1) content in
          if command = bytes_of ''52'' then None
          else if command = bytes_of ''0'' \<or> command = bytes_of ''2''
          then Some (command @ [59] @ sanitizeText payload 256)
          else if command = bytes_of ''8''
          then (if length payload > 4096 \<or> 0 \<in> set payload then None
                else Some (command @ [59] @ payload))
          else if length content > 16384 then None else Some content)"

lemma oscEnd_Some: "oscEnd bs = Some (i, t) \<Longrightarrow> 0 < t \<and> i + t \<le> length bs"
  by (induction bs arbitrary: i) (auto split: if_splits simp: neq_Nil_conv)

function filter_loop :: "bytes \<Rightarrow> bytes \<Rightarrow> bytes \<times> bytes" where
  "filter_loop pending output =
     (case index_of pending [ESC, 93] of
        None \<Rightarrow>
          if pending \<noteq> [] \<and> last pending = ESC
          then (output @ butlast pending, [last pending])
          else (output @ pending, [])
      | Some start \<Rightarrow>
          let output' = output @ take start pending in
          (case oscEnd (drop (start + 2) pending) of
             None \<Rightarrow>
               if length pending - start > maxOSCBytes
               then filter_loop (drop (start + maxOSCBytes) pending) output'
               else (output', drop start pending)
           | Some (end_at, terminator) \<Rightarrow>
               let content = slice (start + 2) (start + 2 + end_at) pending;
                   output'' = (case safeOSC content of
                       Some safe \<Rightarrow> output' @ [ESC, 93] @ safe
                         @ slice (start + 2 + end_at) (start + 2 + end_at + terminator) pending
                     | None \<Rightarrow> output')
               in filter_loop (drop (start + 2 + end_at + terminator) pending) output''))"
  by pat_completeness auto
termination
  by (relation "measure (length \<circ> fst)")
     (auto simp: maxOSCBytes_def dest!: oscEnd_Some index_of_Some)

declare filter_loop.simps [simp del]

record output_filter =
  of_pending :: bytes

definition filter_Process :: "output_filter \<Rightarrow> bytes \<Rightarrow> bytes \<times> output_filter" where
  "filter_Process f input =
     (case filter_loop (of_pending f @ input) [] of (out, rest) \<Rightarrow> (out, f\<lparr>of_pending := rest\<rparr>))"

definition filter_Reset :: "output_filter \<Rightarrow> output_filter" where
  "filter_Reset f = f\<lparr>of_pending := []\<rparr>"

subsection \<open>The loop\<close>

text \<open>What one complete OSC sequence found at \<open>s\<close> contributes to the output.\<close>

definition osc_out :: "bytes \<Rightarrow> nat \<Rightarrow> nat \<Rightarrow> nat \<Rightarrow> bytes" where
  "osc_out p s e t = (case safeOSC (slice (s + 2) (s + 2 + e) p) of
     Some safe \<Rightarrow> [ESC, 93] @ safe @ slice (s + 2 + e) (s + 2 + e + t) p | None \<Rightarrow> [])"

lemma loop_plain:
  "index_of p [ESC, 93] = None \<Longrightarrow> filter_loop p acc =
     (if p \<noteq> [] \<and> last p = ESC then (acc @ butlast p, [ESC]) else (acc @ p, []))"
  by (simp add: filter_loop.simps [of p])

lemma loop_hold:
  "index_of p [ESC, 93] = Some s \<Longrightarrow> oscEnd (drop (s + 2) p) = None \<Longrightarrow>
     length p - s \<le> maxOSCBytes \<Longrightarrow> filter_loop p acc = (acc @ take s p, drop s p)"
  by (simp add: filter_loop.simps [of p] Let_def)

lemma loop_drop:
  "index_of p [ESC, 93] = Some s \<Longrightarrow> oscEnd (drop (s + 2) p) = None \<Longrightarrow>
     maxOSCBytes < length p - s \<Longrightarrow>
     filter_loop p acc = filter_loop (drop (s + maxOSCBytes) p) (acc @ take s p)"
  by (simp add: filter_loop.simps [of p] Let_def)

lemma loop_osc:
  "index_of p [ESC, 93] = Some s \<Longrightarrow> oscEnd (drop (s + 2) p) = Some (e, t) \<Longrightarrow>
     filter_loop p acc = filter_loop (drop (s + 2 + e + t) p) (acc @ take s p @ osc_out p s e t)"
  by (simp add: filter_loop.simps [of p] Let_def osc_out_def split: option.splits)

text \<open>Case analysis of one iteration, with the rest of the pending bytes getting shorter.\<close>

lemma loop_cases [case_names plain hold drop osc]:
  obtains (plain) "index_of p [ESC, 93] = None"
  | (hold) s where "index_of p [ESC, 93] = Some s" "oscEnd (drop (s + 2) p) = None"
      "length p - s \<le> maxOSCBytes"
  | (drop) s where "index_of p [ESC, 93] = Some s" "oscEnd (drop (s + 2) p) = None"
      "maxOSCBytes < length p - s" "length (drop (s + maxOSCBytes) p) < length p"
  | (osc) s e t where "index_of p [ESC, 93] = Some s" "oscEnd (drop (s + 2) p) = Some (e, t)"
      "length (drop (s + 2 + e + t) p) < length p"
proof (cases "index_of p [ESC, 93]")
  case None
  then show ?thesis by (rule plain)
next
  case (Some s)
  have "0 < length p" using index_of_Some [OF Some] by (cases p) auto
  then have shorter: "length (drop (s + maxOSCBytes) p) < length p"
    "length (drop (s + 2 + e + t) p) < length p" for e t
    by (simp_all add: maxOSCBytes_def)
  show ?thesis
  proof (cases "oscEnd (drop (s + 2) p)")
    case None
    then show ?thesis using Some hold drop shorter not_le_imp_less by blast
  next
    case (Some et)
    with \<open>index_of p [ESC, 93] = Some s\<close> osc [of s "fst et" "snd et"] shorter show ?thesis by simp
  qed
qed

text \<open>The accumulator is only ever extended.\<close>

lemma filter_loop_acc:
  "filter_loop p acc = (acc @ fst (filter_loop p []), snd (filter_loop p []))"
proof (induction p arbitrary: acc rule: length_induct)
  case (1 p)
  show ?case
  proof (cases p rule: loop_cases)
    case plain
    then show ?thesis by (simp add: loop_plain)
  next
    case (hold s)
    then show ?thesis by (simp add: loop_hold)
  next
    case (drop s)
    note IH = "1.IH" [rule_format, OF drop(4)]
    show ?thesis
      unfolding loop_drop [OF drop(1-3)] append_Nil
      by (subst IH, subst (2 3) IH) simp
  next
    case (osc s e t)
    note IH = "1.IH" [rule_format, OF osc(3)]
    show ?thesis
      unfolding loop_osc [OF osc(1,2)] append_Nil
      by (subst IH, subst (2 3) IH) simp
  qed
qed

subsection \<open>The pending bytes stay bounded\<close>

lemma filter_loop_pending: "length (snd (filter_loop p acc)) \<le> maxOSCBytes"
proof (induction p arbitrary: acc rule: length_induct)
  case (1 p)
  show ?case
  proof (cases p rule: loop_cases)
    case plain
    then show ?thesis by (simp add: loop_plain maxOSCBytes_def)
  next
    case (hold s)
    then show ?thesis by (simp add: loop_hold)
  next
    case (drop s)
    then show ?thesis using "1.IH" by (simp only: loop_drop)
  next
    case (osc s e t)
    then show ?thesis using "1.IH" by (simp only: loop_osc)
  qed
qed

subsection \<open>Reads may split a sequence anywhere\<close>

text \<open>An OSC introducer at position \<open>j\<close>.\<close>

definition osc_at :: "bytes \<Rightarrow> nat \<Rightarrow> bool" where
  "osc_at s j \<longleftrightarrow> j + 1 < length s \<and> s ! j = ESC \<and> s ! (j + 1) = 93"

lemma osc_at_Cons: "osc_at (x # s) (Suc j) = osc_at s j"
  by (simp add: osc_at_def)

lemma has_prefix_osc: "has_prefix s [ESC, 93] = osc_at s 0"
  by (cases s; cases "tl s") (auto simp: osc_at_def)

lemma index_osc_Some: "index_of s [ESC, 93] = Some i \<longleftrightarrow> osc_at s i \<and> (\<forall>j < i. \<not> osc_at s j)"
proof (induction s arbitrary: i)
  case Nil
  then show ?case by (simp add: osc_at_def)
next
  case (Cons x s)
  show ?case
    by (cases i) (auto simp: has_prefix_osc osc_at_Cons Cons.IH less_Suc_eq_0_disj simp del: has_prefix.simps)
qed

lemma index_osc_None: "index_of s [ESC, 93] = None \<longleftrightarrow> (\<forall>j. \<not> osc_at s j)"
proof (induction s)
  case Nil
  then show ?case by (simp add: osc_at_def)
next
  case (Cons x s)
  have "(\<forall>j. \<not> osc_at (x # s) j) \<longleftrightarrow> \<not> osc_at (x # s) 0 \<and> (\<forall>j. \<not> osc_at s j)"
    by (metis not0_implies_Suc osc_at_Cons)
  with Cons.IH show ?case by (simp add: has_prefix_osc del: has_prefix.simps)
qed

lemma osc_at_append_right: "osc_at (q @ r) (length q + j) = osc_at r j"
  by (auto simp: osc_at_def nth_append)

lemma osc_at_append_left: "j + 1 < length q \<Longrightarrow> osc_at (q @ r) j = osc_at q j"
  by (auto simp: osc_at_def nth_append)

text \<open>\<open>q\<close> is plain in front of \<open>r\<close>: no introducer starts in it, not even across the border.\<close>

definition plain_before :: "bytes \<Rightarrow> bytes \<Rightarrow> bool" where
  "plain_before q r \<longleftrightarrow> (\<forall>j < length q. \<not> osc_at (q @ r) j) \<and> (r \<noteq> [] \<or> q = [] \<or> last q \<noteq> ESC)"

lemma plain_index:
  assumes "plain_before q r"
  shows "index_of (q @ r) [ESC, 93] = map_option (\<lambda>s. length q + s) (index_of r [ESC, 93])"
proof (cases "index_of r [ESC, 93]")
  case None
  then have "\<not> osc_at (q @ r) j" for j
    using assms osc_at_append_right [of q r "j - length q"]
    by (cases "j < length q") (auto simp: plain_before_def index_osc_None)
  then have "index_of (q @ r) [ESC, 93] = None" by (simp add: index_osc_None)
  with None show ?thesis by simp
next
  case (Some s)
  then have s: "osc_at r s" "\<forall>j < s. \<not> osc_at r j" by (simp_all add: index_osc_Some)
  have "\<not> osc_at (q @ r) j" if "j < length q + s" for j
    using assms s(2) that osc_at_append_right [of q r "j - length q"]
    by (cases "j < length q") (auto simp: plain_before_def)
  with s(1) have "index_of (q @ r) [ESC, 93] = Some (length q + s)"
    by (simp add: index_osc_Some osc_at_append_right)
  with Some show ?thesis by simp
qed

lemma slice_append_right: "slice (length q + i) (length q + j) (q @ r) = slice i j r"
  by (simp add: slice_def)

lemma slice_append_left': "j \<le> length p \<Longrightarrow> slice i j (p @ b) = slice i j p"
  by (simp add: slice_def)

lemma plain_prefix:
  assumes "plain_before q r"
  shows "filter_loop (q @ r) [] = (q @ fst (filter_loop r []), snd (filter_loop r []))"
proof (cases r rule: loop_cases)
  case plain
  with plain_index [OF assms] have i: "index_of (q @ r) [ESC, 93] = None" by simp
  show ?thesis
  proof (cases "r = []")
    case True
    with assms i show ?thesis by (auto simp: loop_plain plain_before_def)
  next
    case False
    with plain i show ?thesis by (simp add: loop_plain butlast_append)
  qed
next
  case (hold s)
  with plain_index [OF assms] have "index_of (q @ r) [ESC, 93] = Some (length q + s)" by simp
  with hold show ?thesis by (simp add: loop_hold)
next
  case (drop s)
  with plain_index [OF assms] have i: "index_of (q @ r) [ESC, 93] = Some (length q + s)" by simp
  have "filter_loop (q @ r) [] = filter_loop (List.drop (s + maxOSCBytes) r) (q @ take s r)"
    using loop_drop [OF i] drop by (simp add: add.assoc)
  then show ?thesis
    using loop_drop [OF drop(1-3), of "[]"] filter_loop_acc [of "List.drop (s + maxOSCBytes) r" "q @ take s r"]
      filter_loop_acc [of "List.drop (s + maxOSCBytes) r" "take s r"] by simp
next
  case (osc s e t)
  with plain_index [OF assms] have i: "index_of (q @ r) [ESC, 93] = Some (length q + s)" by simp
  let ?rest = "List.drop (s + 2 + e + t) r"
  have "osc_out (q @ r) (length q + s) e t = osc_out r s e t"
    unfolding osc_out_def add.assoc by (simp only: slice_append_right)
  then have "filter_loop (q @ r) [] = filter_loop ?rest (q @ take s r @ osc_out r s e t)"
    using loop_osc [OF i, of e t "[]"] osc by (simp add: add.assoc)
  then show ?thesis
    using loop_osc [OF osc(1,2), of "[]"] filter_loop_acc [of ?rest "q @ take s r @ osc_out r s e t"]
      filter_loop_acc [of ?rest "take s r @ osc_out r s e t"] by simp
qed

lemma oscEnd_append: "oscEnd x = Some v \<Longrightarrow> oscEnd (x @ b) = Some v"
  by (induction x arbitrary: v) (auto simp: hd_append split: if_splits)

text \<open>As long as the bytes in play fit the bound, the loop may stop after any prefix and
  continue with what it kept.\<close>

lemma filter_loop_split:
  assumes "length (p @ b) \<le> maxOSCBytes"
  shows "filter_loop (p @ b) [] =
    (let (o1, p1) = filter_loop p []; (o2, p2) = filter_loop (p1 @ b) [] in (o1 @ o2, p2))"
  using assms
proof (induction p rule: length_induct)
  case (1 p)
  show ?case
  proof (cases p rule: loop_cases)
    case plain
    then have none: "\<not> osc_at p j" for j by (simp add: index_osc_None)
    show ?thesis
    proof (cases "p \<noteq> [] \<and> last p = ESC")
      case True
      then obtain q where p: "p = q @ [ESC]" by (metis append_butlast_last_id)
      have "\<not> osc_at (q @ ESC # b) j" if "j < length q" for j
        using that none [of j] osc_at_append_left [of j "q @ [ESC]" b] by (simp add: p)
      then have "plain_before q (ESC # b)" by (simp add: plain_before_def)
      from plain_prefix [OF this] plain show ?thesis by (simp add: loop_plain p case_prod_beta Let_def)
    next
      case False
      have "\<not> osc_at (p @ b) j" if "j < length p" for j
      proof (cases "j + 1 < length p")
        case True
        then show ?thesis using none by (simp add: osc_at_append_left)
      next
        case j: False
        with that have "j = length p - 1" "p \<noteq> []" by auto
        with False have "(p @ b) ! j \<noteq> ESC" by (simp add: nth_append last_conv_nth)
        then show ?thesis by (simp add: osc_at_def)
      qed
      then have "plain_before p b" using False by (simp add: plain_before_def)
      from plain_prefix [OF this] False plain show ?thesis
        by (auto simp: loop_plain case_prod_beta Let_def)
    qed
  next
    case (hold s)
    then have s: "osc_at p s" "\<forall>j < s. \<not> osc_at p j" by (simp_all add: index_osc_Some)
    then have sl: "s + 1 < length p" by (simp add: osc_at_def)
    have "\<not> osc_at (take s p @ drop s p @ b) j" if "j < length (take s p)" for j
    proof -
      from that sl have "j + 1 < length p" "j < s" by simp_all
      with s(2) osc_at_append_left [of j p b] show ?thesis
        by (metis append.assoc append_take_drop_id)
    qed
    then have "plain_before (take s p) (drop s p @ b)" using sl by (simp add: plain_before_def)
    from plain_prefix [OF this] hold show ?thesis
      by (simp add: loop_hold case_prod_beta Let_def flip: append.assoc)
  next
    case (drop s)
    with "1.prems" show ?thesis by simp
  next
    case (osc s e t)
    let ?rest = "drop (s + 2 + e + t) p"
    from osc have s: "osc_at p s" "\<forall>j < s. \<not> osc_at p j" by (simp_all add: index_osc_Some)
    then have sl: "s + 2 \<le> length p" by (simp add: osc_at_def)
    have et: "e + t \<le> length p - (s + 2)" using oscEnd_Some [OF osc(2)] by simp
    have "osc_at (p @ b) j = osc_at p j" if "j \<le> s" for j
      using that sl by (intro osc_at_append_left) simp
    then have i: "index_of (p @ b) [ESC, 93] = Some s"
      using s by (auto simp: index_osc_Some)
    have oe: "oscEnd (drop (s + 2) (p @ b)) = Some (e, t)"
      using oscEnd_append [OF osc(2), of b] sl by simp
    have oo: "osc_out (p @ b) s e t = osc_out p s e t"
      using sl et by (simp add: osc_out_def slice_append_left' split: option.split)
    have rest: "drop (s + 2 + e + t) (p @ b) = ?rest @ b" using sl et by simp
    have "length (?rest @ b) \<le> maxOSCBytes" using "1.prems" by simp
    from "1.IH" [rule_format, OF osc(3) this] loop_osc [OF i oe, of "[]"] loop_osc [OF osc(1,2), of "[]"]
      filter_loop_acc [of "?rest @ b" "take s p @ osc_out p s e t"]
      filter_loop_acc [of ?rest "take s p @ osc_out p s e t"] sl oo rest
    show ?thesis by (simp add: case_prod_beta Let_def)
  qed
qed

lemma filter_loop_pending_hd: "snd (filter_loop p acc) \<noteq> [] \<Longrightarrow> hd (snd (filter_loop p acc)) = ESC"
proof (induction p arbitrary: acc rule: length_induct)
  case (1 p)
  show ?case
  proof (cases p rule: loop_cases)
    case plain
    with "1.prems" show ?thesis by (simp add: loop_plain split: if_splits)
  next
    case (hold s)
    then have "has_prefix (drop s p) [ESC, 93]" using index_of_Some by blast
    with hold show ?thesis by (auto simp: loop_hold has_prefix_iff)
  next
    case (drop s)
    from "1.prems" show ?thesis unfolding loop_drop [OF drop(1-3)] by (rule "1.IH" [rule_format, OF drop(4)])
  next
    case (osc s e t)
    from "1.prems" show ?thesis unfolding loop_osc [OF osc(1,2)] by (rule "1.IH" [rule_format, OF osc(3)])
  qed
qed

lemma index_of_single:
  "index_of s [c] = Some i \<Longrightarrow> s = take i s @ [c] @ drop (i + 1) s \<and> c \<notin> set (take i s)"
proof (induction s arbitrary: i)
  case (Cons x s)
  then show ?case by (cases "x = c") (auto split: if_splits)
qed simp

subsection \<open>What a sequence may contain\<close>

lemma encode_rune_bytes:
  "r \<ge> 32 \<Longrightarrow> r \<noteq> 127 \<Longrightarrow> b \<in> set (encode_rune r) \<Longrightarrow> 32 \<le> b \<and> b \<noteq> 127 \<and> b < 256"
proof -
  assume r: "r \<ge> 32" "r \<noteq> 127" and b: "b \<in> set (encode_rune r)"
  have "encode_rune r = [r] \<and> r < 128 \<or> (\<forall>c \<in> set (encode_rune r). 128 \<le> c \<and> c < 256)"
  proof -
    have "n mod 64 < 128" for n :: nat using mod_less_divisor [of 64 n] by linarith
    then show ?thesis unfolding encode_rune_def by (simp add: div_less_iff_less_mult)
  qed
  with r b show ?thesis by auto
qed

definition printable :: "nat list \<Rightarrow> bool" where
  "printable bs \<longleftrightarrow> (\<forall>b \<in> set bs. 32 \<le> b \<and> b \<noteq> 127 \<and> b < 256)"

lemma sanitize_runes_printable: "printable out \<Longrightarrow> printable (sanitize_runes rs out limit)"
proof (induction rs arbitrary: out)
  case (Cons r rs)
  define out' where "out' = (if r \<ge> 32 \<and> r \<noteq> 127 then out @ encode_rune r else out)"
  have "printable out'"
    using Cons.prems encode_rune_bytes [of r] by (auto simp: printable_def out'_def)
  from Cons.IH [OF this] this show ?case by (simp add: Let_def flip: out'_def)
qed simp

lemma cut_valid_props:
  "length (cut_valid limit bs) \<le> limit \<and> utf8_valid (cut_valid limit bs)
     \<and> set (cut_valid limit bs) \<subseteq> set bs"
proof (induction limit bs rule: cut_valid.induct)
  case (1 limit bs)
  then show ?case
  proof (cases "bs \<noteq> [] \<and> (length bs > limit \<or> \<not> utf8_valid bs)")
    case True
    with 1 have "set (cut_valid limit (butlast bs)) \<subseteq> set (butlast bs)" by simp
    moreover from True have "cut_valid limit bs = cut_valid limit (butlast bs)"
      by (simp add: cut_valid.simps [of limit bs])
    ultimately show ?thesis using "1.IH" [OF True] by (auto dest: in_set_butlastD)
  next
    case False
    then have "length bs \<le> limit" "utf8_valid bs" by (auto simp: utf8_valid_def)
    moreover from False have "cut_valid limit bs = bs" by (subst cut_valid.simps) (simp only: if_False)
    ultimately show ?thesis by simp
  qed
qed

lemma sanitizeText_props:
  "length (sanitizeText input limit) \<le> limit"
  "utf8_valid (map unat (sanitizeText input limit))"
  "b \<in> set (sanitizeText input limit) \<Longrightarrow> 32 \<le> b \<and> b \<noteq> 127"
proof -
  define rs where "rs = map fst (filter (\<lambda>(r, w, ok). ok) (runes (map unat input)))"
  define bs where "bs = cut_valid limit (sanitize_runes rs [] limit)"
  have bs: "sanitizeText input limit = map of_nat bs" by (simp add: sanitizeText_def rs_def bs_def)
  have ok: "\<forall>b \<in> set bs. 32 \<le> b \<and> b \<noteq> 127 \<and> b < 256"
    using sanitize_runes_printable [of "[]" rs limit] cut_valid_props [of limit "sanitize_runes rs [] limit"]
    unfolding printable_def by (auto simp: bs_def)
  then have "map unat (map of_nat bs :: bytes) = bs" by (intro nth_equalityI) (simp_all add: unat_of_nat)
  with cut_valid_props show "utf8_valid (map unat (sanitizeText input limit))"
    by (simp only: bs) (simp add: bs_def)
  show "length (sanitizeText input limit) \<le> limit"
    using cut_valid_props by (simp add: bs bs_def)
  assume "b \<in> set (sanitizeText input limit)"
  then obtain n where n: "n \<in> set bs" "b = of_nat n" by (auto simp: bs)
  with ok have "unat b = n" "32 \<le> n" "n \<noteq> 127" by (simp_all add: unat_of_nat)
  then show "32 \<le> b \<and> b \<noteq> 127" by (auto simp: word_le_nat_alt)
qed

text \<open>An operating-system command that passes the filter keeps its command number, which is never
  52 (the clipboard write); its size is bounded; a window title (0 or 2) is at most 256 bytes of
  valid UTF-8 without ASCII control bytes; a hyperlink (8) has no NUL byte.
\<close>

theorem safeOSC_contract:
  assumes "safeOSC content = Some safe"
  shows "\<exists>command payload. safe = command @ [59] @ payload \<and> 59 \<notin> set command
    \<and> has_prefix content (command @ [59])
    \<and> command \<noteq> bytes_of ''52''
    \<and> length safe \<le> 16384
    \<and> (command \<in> {bytes_of ''0'', bytes_of ''2''} \<longrightarrow> length payload \<le> 256
         \<and> utf8_valid (map unat payload) \<and> (\<forall>b \<in> set payload. 32 \<le> b \<and> b \<noteq> 127))
    \<and> (command = bytes_of ''8'' \<longrightarrow> length payload \<le> 4096 \<and> 0 \<notin> set payload)"
proof -
  from assms obtain i where i: "index_of content [59] = Some i"
    by (auto simp: safeOSC_def split: option.splits)
  then have c: "content = take i content @ [59] @ drop (i + 1) content" and n: "59 \<notin> set (take i content)"
    using index_of_single [of content 59 i] by auto
  have p: "has_prefix content (take i content @ [59])" using c by (metis append.assoc has_prefix_iff)
  show ?thesis
  proof (cases "take i content \<in> {bytes_of ''0'', bytes_of ''2''}")
    case True
    with assms i have "safe = take i content @ [59] @ sanitizeText (drop (i + 1) content) 256"
      by (auto simp: safeOSC_def bytes_of_def)
    moreover have "length safe \<le> 16384"
    proof -
      from True have "length (take i content) = 1" by (auto simp: bytes_of_def simp del: length_take)
      then show ?thesis
        using calculation sanitizeText_props(1) [of "drop (i + 1) content" 256]
        by (simp del: length_take)
    qed
    ultimately show ?thesis using True n p sanitizeText_props
      by (intro exI [of _ "take i content"] exI [of _ "sanitizeText (drop (i + 1) content) 256"])
         (auto simp: bytes_of_def)
  next
    case False
    with assms i c have s: "safe = take i content @ [59] @ drop (i + 1) content"
      "take i content \<noteq> bytes_of ''52''"
      "take i content = bytes_of ''8'' \<longrightarrow> length (drop (i + 1) content) \<le> 4096 \<and> 0 \<notin> set (drop (i + 1) content)"
      "take i content \<noteq> bytes_of ''8'' \<longrightarrow> length content \<le> 16384"
      by (auto simp: safeOSC_def Let_def split: if_splits)
    moreover have "length safe \<le> 16384"
    proof (cases "take i content = bytes_of ''8''")
      case True
      then show ?thesis using s(1,3) by (auto simp: bytes_of_def)
    next
      case f: False
      from s(1) c have "safe = content" by simp
      with f s(4) show ?thesis by simp
    qed
    ultimately show ?thesis using False n p
      by (intro exI [of _ "take i content"] exI [of _ "drop (i + 1) content"]) auto
  qed
qed

theorem safeOSC_contract_witness:
  "\<exists>command payload. bytes_of ''2;hi'' = command @ [59] @ payload \<and> length payload \<le> 4096"
proof -
  have "safeOSC (bytes_of ''2;hi'') = Some (bytes_of ''2;hi'')"
    by (simp add: safeOSC_def bytes_of_def sanitizeText_def encode_rune_def cut_valid.simps utf8_valid_def)
  from safeOSC_contract [OF this] obtain command payload where
    *: "bytes_of ''2;hi'' = command @ [59] @ payload" by blast
  then have "length (bytes_of ''2;hi'') = length (command @ [59] @ payload)" by simp
  then have "length payload \<le> 4096" by (simp add: bytes_of_def)
  with * show ?thesis by blast
qed

text \<open>The filter's memory is bounded: whatever the PTY sends, at most one unfinished sequence of
  64 KiB is retained, and it begins with the escape character, so nothing printable is held back.
\<close>

theorem filter_pending_bounded:
  "length (of_pending (snd (filter_Process f input))) \<le> maxOSCBytes
   \<and> (of_pending (snd (filter_Process f input)) \<noteq> [] \<longrightarrow> hd (of_pending (snd (filter_Process f input))) = ESC)"
  using filter_loop_pending [of "of_pending f @ input" "[]"] filter_loop_pending_hd [of "of_pending f @ input" "[]"]
  by (simp add: filter_Process_def case_prod_beta)

theorem filter_pending_bounded_witness:
  "hd (of_pending (snd (filter_Process \<lparr>of_pending = []\<rparr> [65, ESC]))) = ESC"
proof -
  have "of_pending (snd (filter_Process \<lparr>of_pending = []\<rparr> [65, ESC])) = [ESC]"
    by (simp add: filter_Process_def filter_loop.simps)
  then show ?thesis using filter_pending_bounded [of "\<lparr>of_pending = []\<rparr>" "[65, ESC]"] by simp
qed

text \<open>The filter does not depend on how the PTY output is cut into reads: processing two chunks one
  after the other gives the output and the pending state of processing them at once, as long as
  the unfinished data stays below the 64 KiB bound at which a prefix is dropped.
\<close>

theorem filter_chunk_independent:
  assumes "length (of_pending f) + length a + length b \<le> maxOSCBytes"
  shows "filter_Process f (a @ b) =
    (fst (filter_Process f a) @ fst (filter_Process (snd (filter_Process f a)) b),
     snd (filter_Process (snd (filter_Process f a)) b))"
  using filter_loop_split [of "of_pending f @ a" b] assms
  by (simp add: filter_Process_def case_prod_beta Let_def)

theorem filter_chunk_independent_witness:
  "filter_Process \<lparr>of_pending = []\<rparr> ([65, ESC] @ [93, 53, 50, 59, 120, BEL, 66])
     = ([65] @ [66], \<lparr>of_pending = []\<rparr>)"
  using filter_chunk_independent [of "\<lparr>of_pending = []\<rparr>" "[65, ESC]" "[93, 53, 50, 59, 120, BEL, 66]"]
  by (simp add: filter_Process_def filter_loop.simps maxOSCBytes_def safeOSC_def slice_def bytes_of_def)

text \<open>One pass is not enough against a spliced sequence: removing one clipboard write can join the
  bytes around it into another one. The output stream below contains a complete OSC 52, although
  the filter is documented to remove clipboard writes.
\<close>

theorem filter_splice_bypass:
  "fst (filter_Process \<lparr>of_pending = []\<rparr>
     ([ESC] @ [ESC, 93] @ bytes_of ''52;x'' @ [BEL] @ [93] @ bytes_of ''52;c;Y'' @ [BEL]))
   = [ESC, 93] @ bytes_of ''52;c;Y'' @ [BEL]"
  by (simp add: filter_Process_def filter_loop.simps maxOSCBytes_def safeOSC_def slice_def bytes_of_def)

end
