(* ===== verification/Terminal_Receipts.thy ===== *)
theory Terminal_Receipts
  imports Go_Text
begin

text \<open>
  The idempotent-input records of a tab (\<^verbatim>\<open>terminal/gateway.go\<close>, the fields of \<^verbatim>\<open>tabState\<close>
  under \<^verbatim>\<open>inputMu\<close> and their methods). A client numbers its input; the record of an applied
  input stays until its receipt was delivered and confirmed, and a bounded FIFO of confirmed keys
  follows it. \<^verbatim>\<open>inputMu\<close> is held for a whole method, so each is one atomic step. The PTY is
  not part of the repository's state: the outcome of \<^verbatim>\<open>Runtime.WriteInput\<close> is an argument of
  \<open>writeInput\<close>, and the bytes handed to it are part of its result.
\<close>

type_synonym digest = bytes

record receipt_key =
  rk_deviceID :: string
  rk_sequence :: "64 word"

record receipt_record =
  rr_payloadHash :: digest
  rr_receiptWritten :: bool

record input_state =
  ts_inputReceipts :: "(receipt_key, receipt_record) gomap"
  ts_inputReceiptCounts :: "(string, int) gomap"
  ts_confirmedInputKeys :: "(receipt_key, digest) gomap"
  ts_confirmedInputOrder :: "receipt_key list"

definition maxInputBytes :: nat where "maxInputBytes = 65536"
definition maxInputReceiptsPerDevice :: nat where "maxInputReceiptsPerDevice = 2048"
definition maxInputReceiptsPerTab :: nat where "maxInputReceiptsPerTab = 4096"
definition maxConfirmedInputKeys :: nat where "maxConfirmedInputKeys = 8192"

definition reused_key :: goerr where
  "reused_key = errorsNew ''terminal input idempotency key was reused with different bytes''"

definition reused_confirmed_key :: goerr where
  "reused_confirmed_key =
     errorsNew ''confirmed terminal input idempotency key was reused with different bytes''"

definition inputWasApplied ::
  "'a input_state_scheme \<Rightarrow> receipt_key \<Rightarrow> digest \<Rightarrow> bool \<times> goerr option" where
  "inputWasApplied t key payloadHash =
     (case map_of (ts_inputReceipts t) key of
        Some r \<Rightarrow> if rr_payloadHash r \<noteq> payloadHash then (False, Some reused_key) else (True, None)
      | None \<Rightarrow>
          (case map_of (ts_confirmedInputKeys t) key of
             Some h \<Rightarrow> if h \<noteq> payloadHash then (False, Some reused_confirmed_key) else (True, None)
           | None \<Rightarrow> (False, None)))"

text \<open>
  The guards of \<^verbatim>\<open>writeInput\<close> before the PTY is reached: \<open>Some e\<close> returns \<open>e\<close> (nil for a
  retry of the same bytes) without writing. A nil \<^verbatim>\<open>key\<close> pointer is \<open>None\<close>.
\<close>

definition input_refusal ::
  "'a input_state_scheme \<Rightarrow> receipt_key option \<Rightarrow> digest \<Rightarrow> goerr option option" where
  "input_refusal t key payloadHash =
     (case key of
        None \<Rightarrow> None
      | Some k \<Rightarrow>
          (case map_of (ts_inputReceipts t) k of
             Some r \<Rightarrow> Some (if rr_payloadHash r \<noteq> payloadHash then Some reused_key else None)
           | None \<Rightarrow>
               (case map_of (ts_confirmedInputKeys t) k of
                  Some h \<Rightarrow> Some (if h \<noteq> payloadHash then Some reused_confirmed_key else None)
                | None \<Rightarrow>
                    if length (ts_inputReceipts t) \<ge> maxInputReceiptsPerTab
                       \<or> get_count (ts_inputReceiptCounts t) (rk_deviceID k)
                           \<ge> int maxInputReceiptsPerDevice
                    then Some (Some (errorsNew ''terminal input receipt capacity reached''))
                    else None)))"

text \<open>
  \<open>writeInput t werr payload key hash\<close>: whether the input was written and the error, the bytes
  handed to the PTY (if the call was reached), and the new records. \<open>werr\<close> is the outcome of the
  PTY write.
\<close>

definition writeInput ::
  "'a input_state_scheme \<Rightarrow> goerr option \<Rightarrow> bytes \<Rightarrow> receipt_key option \<Rightarrow> digest \<Rightarrow>
     (bool \<times> goerr option) \<times> bytes option \<times> 'a input_state_scheme" where
  "writeInput t werr payload key payloadHash =
     (case input_refusal t key payloadHash of
        Some e \<Rightarrow> ((False, e), None, t)
      | None \<Rightarrow>
          (case werr of
             Some e \<Rightarrow> ((False, Some e), Some payload, t)
           | None \<Rightarrow>
               (case key of
                  None \<Rightarrow> ((True, None), Some payload, t)
                | Some k \<Rightarrow>
                    ((True, None), Some payload,
                     t\<lparr>ts_inputReceipts := AList.update k
                           \<lparr>rr_payloadHash = payloadHash, rr_receiptWritten = False\<rparr>
                           (ts_inputReceipts t),
                       ts_inputReceiptCounts := AList.update (rk_deviceID k)
                           (get_count (ts_inputReceiptCounts t) (rk_deviceID k) + 1)
                           (ts_inputReceiptCounts t)\<rparr>))))"

definition markInputReceiptWritten ::
  "'a input_state_scheme \<Rightarrow> receipt_key \<Rightarrow> digest \<Rightarrow> goerr option \<times> 'a input_state_scheme" where
  "markInputReceiptWritten t key payloadHash =
     (case map_of (ts_inputReceipts t) key of
        Some r \<Rightarrow>
          if rr_payloadHash r \<noteq> payloadHash
          then (Some (errorsNew ''terminal input receipt digest changed before delivery''), t)
          else (None, t\<lparr>ts_inputReceipts :=
                  AList.update key (r\<lparr>rr_receiptWritten := True\<rparr>) (ts_inputReceipts t)\<rparr>)
      | None \<Rightarrow>
          if map_of (ts_confirmedInputKeys t) key = Some payloadHash then (None, t)
          else (Some (errorsNew ''terminal input receipt record disappeared before delivery''), t))"

text \<open>The FIFO: the copy-down and truncation of the Go slice drop its first element.\<close>

definition rememberConfirmedInputLocked ::
  "'a input_state_scheme \<Rightarrow> receipt_key \<Rightarrow> digest \<Rightarrow> 'a input_state_scheme" where
  "rememberConfirmedInputLocked t key payloadHash =
     (if map_of (ts_confirmedInputKeys t) key \<noteq> None then t
      else
      let t1 = (if length (ts_confirmedInputOrder t) = maxConfirmedInputKeys
                then t\<lparr>ts_confirmedInputKeys :=
                         AList.delete (ts_confirmedInputOrder t ! 0) (ts_confirmedInputKeys t),
                       ts_confirmedInputOrder := drop 1 (ts_confirmedInputOrder t)\<rparr>
                else t)
      in t1\<lparr>ts_confirmedInputKeys := AList.update key payloadHash (ts_confirmedInputKeys t1),
            ts_confirmedInputOrder := ts_confirmedInputOrder t1 @ [key]\<rparr>)"

definition decrementCount :: "('k, int) gomap \<Rightarrow> 'k \<Rightarrow> ('k, int) gomap" where
  "decrementCount values k =
     (let n = get_count values k - 1
      in if n = 0 then AList.delete k values else AList.update k n values)"

definition confirmInputReceipt ::
  "'a input_state_scheme \<Rightarrow> receipt_key \<Rightarrow> goerr option \<times> 'a input_state_scheme" where
  "confirmInputReceipt t key =
     (case map_of (ts_inputReceipts t) key of
        Some r \<Rightarrow>
          if \<not> rr_receiptWritten r
          then (Some (errorsNew ''terminal input receipt was confirmed before delivery''), t)
          else (None, rememberConfirmedInputLocked
                  (t\<lparr>ts_inputReceipts := AList.delete key (ts_inputReceipts t),
                     ts_inputReceiptCounts :=
                       decrementCount (ts_inputReceiptCounts t) (rk_deviceID key)\<rparr>)
                  key (rr_payloadHash r))
      | None \<Rightarrow> (None, t))"

subsection \<open>Invariant of the records\<close>

definition of_device :: "string \<Rightarrow> receipt_key \<Rightarrow> 'v \<Rightarrow> bool" where
  "of_device d k v \<longleftrightarrow> rk_deviceID k = d"

text \<open>The counters count, the bounds hold, the FIFO lists the confirmed keys once each, and a key
  is never both pending and confirmed.\<close>

definition receipts_wf :: "'a input_state_scheme \<Rightarrow> bool" where
  "receipts_wf t \<longleftrightarrow>
     map_wf (ts_inputReceipts t) \<and> map_wf (ts_inputReceiptCounts t) \<and> map_wf (ts_confirmedInputKeys t)
     \<and> (\<forall>d. get_count (ts_inputReceiptCounts t) d
            = int (count_where (of_device d) (ts_inputReceipts t)))
     \<and> length (ts_inputReceipts t) \<le> maxInputReceiptsPerTab
     \<and> (\<forall>d. count_where (of_device d) (ts_inputReceipts t) \<le> maxInputReceiptsPerDevice)
     \<and> distinct (ts_confirmedInputOrder t)
     \<and> (\<forall>k. k \<in> set (ts_confirmedInputOrder t) \<longleftrightarrow> map_of (ts_confirmedInputKeys t) k \<noteq> None)
     \<and> length (ts_confirmedInputOrder t) \<le> maxConfirmedInputKeys
     \<and> (\<forall>k. map_of (ts_inputReceipts t) k \<noteq> None \<longrightarrow> map_of (ts_confirmedInputKeys t) k = None)"

lemma length_insert: "map_wf m \<Longrightarrow> map_of m k = None \<Longrightarrow> length (AList.update k v m) = length m + 1"
  using count_insert [of m k "\<lambda>_ _. True" v] by (simp flip: length_as_count)

lemma count_pos: "map_of m k = Some v \<Longrightarrow> p k v \<Longrightarrow> 0 < count_where p m"
proof -
  assume "map_of m k = Some v" "p k v"
  then have "(k, v) \<in> set (filter (\<lambda>(k, v). p k v) m)" by (auto dest: map_of_SomeD)
  then show ?thesis unfolding count_where_def by (rule length_pos_if_in_set)
qed

lemma count_delete:
  "map_wf m \<Longrightarrow> map_of m k = Some v \<Longrightarrow>
     int (count_where p (AList.delete k m)) = int (count_where p m) - (if p k v then 1 else 0)"
  using count_pos [of m k v p] by (auto simp: count_where_delete)

lemma length_delete_present: "map_wf m \<Longrightarrow> map_of m k = Some v \<Longrightarrow> length (AList.delete k m) = length m - 1"
  using count_where_delete [of m "\<lambda>_ _. True" k] by (simp flip: length_as_count)

lemma count_replace:
  "map_wf m \<Longrightarrow> map_of m k = Some w \<Longrightarrow> p k w = p k v \<Longrightarrow> count_where p (AList.update k v m) = count_where p m"
  using count_pos [of m k w p] by (simp add: count_where_update count_where_delete)

lemma length_replace: "map_wf m \<Longrightarrow> map_of m k = Some w \<Longrightarrow> length (AList.update k v m) = length m"
  using count_replace [of m k w "\<lambda>_ _. True" v] by (simp flip: length_as_count)

lemma get_decrementCount:
  "get_count (decrementCount m k) k' = (if k' = k then get_count m k - 1 else get_count m k')"
  by (simp add: decrementCount_def Let_def)

lemma map_wf_decrementCount [simp]: "map_wf m \<Longrightarrow> map_wf (decrementCount m k)"
  by (simp add: decrementCount_def Let_def)

text \<open>The four outcomes of a write with a key.\<close>

lemma writeInput_cases [case_names kept failed plain fresh]:
  fixes t :: "'a input_state_scheme"
  obtains (kept) e where "writeInput t werr p key h = ((False, e), None, t)"
  | (failed) e where "werr = Some e" "writeInput t werr p key h = ((False, Some e), Some p, t)"
  | (plain) "key = None" "werr = None" "writeInput t werr p key h = ((True, None), Some p, t)"
  | (fresh) k where "key = Some k" "werr = None"
      "map_of (ts_inputReceipts t) k = None" "map_of (ts_confirmedInputKeys t) k = None"
      "length (ts_inputReceipts t) < maxInputReceiptsPerTab"
      "get_count (ts_inputReceiptCounts t) (rk_deviceID k) < int maxInputReceiptsPerDevice"
      "writeInput t werr p key h = ((True, None), Some p,
         t\<lparr>ts_inputReceipts := AList.update k \<lparr>rr_payloadHash = h, rr_receiptWritten = False\<rparr> (ts_inputReceipts t),
           ts_inputReceiptCounts := AList.update (rk_deviceID k)
             (get_count (ts_inputReceiptCounts t) (rk_deviceID k) + 1) (ts_inputReceiptCounts t)\<rparr>)"
proof (cases "input_refusal t key h")
  case (Some e)
  then show ?thesis by (simp add: kept writeInput_def)
next
  case None
  show ?thesis
  proof (cases werr)
    case (Some e)
    with None failed show ?thesis by (simp add: writeInput_def)
  next
    case w: None
    show ?thesis
    proof (cases key)
      case k: None
      with None w plain show ?thesis by (simp add: writeInput_def)
    next
      case (Some k)
      with None have "map_of (ts_inputReceipts t) k = None" "map_of (ts_confirmedInputKeys t) k = None"
        "length (ts_inputReceipts t) < maxInputReceiptsPerTab"
        "get_count (ts_inputReceiptCounts t) (rk_deviceID k) < int maxInputReceiptsPerDevice"
        by (auto simp: input_refusal_def not_le split: option.splits if_splits)
      with None w Some fresh show ?thesis by (simp add: writeInput_def)
    qed
  qed
qed

lemma receipts_wf_write [go_inv]:
  assumes "receipts_wf t"
  shows "receipts_wf (snd (snd (writeInput t werr p key h)))"
proof (cases rule: writeInput_cases [where t = t and werr = werr and p = p and key = key and h = h])
  case (fresh k)
  with assms have "count_where (of_device (rk_deviceID k)) (ts_inputReceipts t) < maxInputReceiptsPerDevice"
    by (simp add: receipts_wf_def)
  with fresh assms show ?thesis
    by (simp add: receipts_wf_def count_insert length_insert of_device_def Suc_leI)
qed (use assms in auto)

lemma receipts_wf_mark [go_inv]:
  assumes "receipts_wf t"
  shows "receipts_wf (snd (markInputReceiptWritten t key h))"
proof (cases "map_of (ts_inputReceipts t) key")
  case None
  with assms show ?thesis by (simp add: markInputReceiptWritten_def)
next
  case (Some r)
  from assms have wf: "map_wf (ts_inputReceipts t)" by (simp add: receipts_wf_def)
  have "count_where (of_device d) (AList.update key (r\<lparr>rr_receiptWritten := True\<rparr>) (ts_inputReceipts t))
      = count_where (of_device d) (ts_inputReceipts t)" for d
    using wf Some by (rule count_replace) (simp add: of_device_def)
  with Some assms show ?thesis
    by (simp add: markInputReceiptWritten_def receipts_wf_def length_replace)
qed

text \<open>Confirmation, seen from the FIFO: the key is appended, after the oldest key was dropped when
  the FIFO is full.\<close>

lemma remember_order:
  "map_of (ts_confirmedInputKeys t) key = None \<Longrightarrow>
     ts_confirmedInputOrder (rememberConfirmedInputLocked t key h) =
       (if length (ts_confirmedInputOrder t) = maxConfirmedInputKeys
        then drop 1 (ts_confirmedInputOrder t) else ts_confirmedInputOrder t) @ [key]"
  by (simp add: rememberConfirmedInputLocked_def Let_def)

lemma remember_keys:
  "map_of (ts_confirmedInputKeys t) key = None \<Longrightarrow>
     map_of (ts_confirmedInputKeys (rememberConfirmedInputLocked t key h)) =
       (if length (ts_confirmedInputOrder t) = maxConfirmedInputKeys
        then (map_of (ts_confirmedInputKeys t))(hd (ts_confirmedInputOrder t) := None)
        else map_of (ts_confirmedInputKeys t))(key \<mapsto> h)"
  by (cases "ts_confirmedInputOrder t")
     (auto simp: rememberConfirmedInputLocked_def Let_def maxConfirmedInputKeys_def)

lemma remember_frame [simp]:
  "ts_inputReceipts (rememberConfirmedInputLocked t key h) = ts_inputReceipts t"
  "ts_inputReceiptCounts (rememberConfirmedInputLocked t key h) = ts_inputReceiptCounts t"
  "map_wf (ts_confirmedInputKeys t) \<Longrightarrow> map_wf (ts_confirmedInputKeys (rememberConfirmedInputLocked t key h))"
  by (auto simp: rememberConfirmedInputLocked_def Let_def)

lemma receipts_wf_confirm [go_inv]:
  assumes "receipts_wf t"
  shows "receipts_wf (snd (confirmInputReceipt t key))"
proof (cases "\<exists>r. map_of (ts_inputReceipts t) key = Some r \<and> rr_receiptWritten r")
  case False
  with assms show ?thesis by (auto simp: confirmInputReceipt_def split: option.splits)
next
  case True
  then obtain r where r: "map_of (ts_inputReceipts t) key = Some r" "rr_receiptWritten r" by blast
  define t1 where "t1 = t\<lparr>ts_inputReceipts := AList.delete key (ts_inputReceipts t),
    ts_inputReceiptCounts := decrementCount (ts_inputReceiptCounts t) (rk_deviceID key)\<rparr>"
  have c: "snd (confirmInputReceipt t key) = rememberConfirmedInputLocked t1 key (rr_payloadHash r)"
    using r by (simp add: confirmInputReceipt_def t1_def)
  have fresh: "map_of (ts_confirmedInputKeys t1) key = None" "key \<notin> set (ts_confirmedInputOrder t)"
    using assms r by (auto simp: receipts_wf_def t1_def)
  have counts: "get_count (decrementCount (ts_inputReceiptCounts t) (rk_deviceID key)) d
      = int (count_where (of_device d) (AList.delete key (ts_inputReceipts t)))" for d
    using assms r by (simp add: get_decrementCount receipts_wf_def count_delete of_device_def)
  have le: "count_where (of_device d) (AList.delete key (ts_inputReceipts t)) \<le> maxInputReceiptsPerDevice" for d
    using assms r count_where_delete [of "ts_inputReceipts t" "of_device d" key]
    by (auto simp: receipts_wf_def le_diff_conv intro: order.trans)
  show ?thesis
  proof (cases "length (ts_confirmedInputOrder t) = maxConfirmedInputKeys")
    case False
    with assms r fresh counts le show ?thesis unfolding c
      by (auto simp: receipts_wf_def remember_order remember_keys t1_def length_delete_present)
  next
    case full: True
    then obtain x xs where o: "ts_confirmedInputOrder t = x # xs"
      by (cases "ts_confirmedInputOrder t") (auto simp: maxConfirmedInputKeys_def)
    have disjoint: "map_of (ts_confirmedInputKeys t) k = None" if "map_of (ts_inputReceipts t) k \<noteq> None" for k
      using assms that by (simp add: receipts_wf_def)
    have keys: "k \<in> set (ts_confirmedInputOrder t) \<longleftrightarrow> map_of (ts_confirmedInputKeys t) k \<noteq> None" for k
      using assms by (simp add: receipts_wf_def)
    have dist: "distinct (ts_confirmedInputOrder t)" using assms by (simp add: receipts_wf_def)
    then have "distinct (xs @ [key])" using fresh(2) o by simp
    moreover have "k \<in> set (xs @ [key]) \<longleftrightarrow>
        ((map_of (ts_confirmedInputKeys t))(x := None, key \<mapsto> rr_payloadHash r)) k \<noteq> None" for k
      using keys [of k] dist o fresh by (cases "k = key"; cases "k = x") auto
    ultimately show ?thesis unfolding c
      using full assms r fresh counts le disjoint o
      by (simp add: receipts_wf_def remember_order remember_keys t1_def length_delete_present le_diff_conv)
  qed
qed

subsection \<open>Sequences of operations\<close>

datatype input_op = IWrite "goerr option" bytes "receipt_key option" digest
  | IMark receipt_key digest | IConfirm receipt_key

fun input_step :: "input_op \<Rightarrow> 'a input_state_scheme \<Rightarrow> 'a input_state_scheme" where
  "input_step (IWrite werr p key h) t = snd (snd (writeInput t werr p key h))"
| "input_step (IMark key h) t = snd (markInputReceiptWritten t key h)"
| "input_step (IConfirm key) t = snd (confirmInputReceipt t key)"

definition new_input_state :: input_state where
  "new_input_state = \<lparr>ts_inputReceipts = [], ts_inputReceiptCounts = [], ts_confirmedInputKeys = [],
     ts_confirmedInputOrder = []\<rparr>"

lemma receipts_wf_new: "receipts_wf new_input_state"
  by (simp add: receipts_wf_def new_input_state_def)

lemma receipts_wf_step: "receipts_wf t \<Longrightarrow> receipts_wf (input_step e t)"
  by (cases e) (simp_all add: go_inv)

lemma receipts_wf_run: "receipts_wf t \<Longrightarrow> receipts_wf (fold input_step es t)"
  by (induction es arbitrary: t) (simp_all add: receipts_wf_step)

subsection \<open>At most one PTY write per key\<close>

fun is_confirm :: "input_op \<Rightarrow> bool" where
  "is_confirm (IConfirm k) = True"
| "is_confirm _ = False"

text \<open>\<open>wrote_key k e t\<close>: in state \<open>t\<close> the operation \<open>e\<close> writes input \<open>k\<close> to the PTY.\<close>

fun wrote_key :: "receipt_key \<Rightarrow> input_op \<Rightarrow> 'a input_state_scheme \<Rightarrow> bool" where
  "wrote_key k (IWrite werr p key h) t \<longleftrightarrow> key = Some k \<and> fst (snd (writeInput t werr p key h)) \<noteq> None"
| "wrote_key k _ t \<longleftrightarrow> False"

text \<open>\<open>remembers k c t\<close>: the tab knows \<open>k\<close> was applied, and at most \<open>c\<close> keys were confirmed
  after it.\<close>

definition remembers :: "receipt_key \<Rightarrow> nat \<Rightarrow> 'a input_state_scheme \<Rightarrow> bool" where
  "remembers k c t \<longleftrightarrow> map_of (ts_inputReceipts t) k \<noteq> None
     \<or> (\<exists>xs ys. ts_confirmedInputOrder t = xs @ k # ys \<and> length ys < c)"

lemma remembers_blocks:
  assumes "receipts_wf t" "remembers k c t"
  shows "\<not> wrote_key k e t"
proof -
  have "map_of (ts_inputReceipts t) k \<noteq> None \<or> map_of (ts_confirmedInputKeys t) k \<noteq> None"
    using assms by (auto simp: remembers_def receipts_wf_def)
  then have "input_refusal t (Some k) h \<noteq> None" for h
    by (auto simp: input_refusal_def split: option.splits)
  then have "fst (snd (writeInput t werr p (Some k) h)) = None" for werr p h
    by (metis (no_types, lifting) fst_conv option.case(2) option.exhaust snd_conv writeInput_def)
  then show ?thesis by (cases e) auto
qed

lemma remembers_mono: "remembers k c t \<Longrightarrow> c \<le> c' \<Longrightarrow> remembers k c' t"
  unfolding remembers_def by (meson order_less_le_trans)

lemma remembers_write: "remembers k c t \<Longrightarrow> remembers k c (snd (snd (writeInput t werr p key h)))"
  by (cases rule: writeInput_cases [where t = t and werr = werr and p = p and key = key and h = h])
     (auto simp: remembers_def)

lemma remembers_mark: "remembers k c t \<Longrightarrow> remembers k c (snd (markInputReceiptWritten t key h))"
  by (auto simp: remembers_def markInputReceiptWritten_def split: option.splits)

lemma remembers_confirm:
  assumes "receipts_wf t" "remembers k c t" "c < maxConfirmedInputKeys"
  shows "remembers k (Suc c) (snd (confirmInputReceipt t key))"
proof (cases "\<exists>r. map_of (ts_inputReceipts t) key = Some r \<and> rr_receiptWritten r")
  case False
  then have "snd (confirmInputReceipt t key) = t"
    by (auto simp: confirmInputReceipt_def split: option.splits)
  with assms(2) show ?thesis by (simp add: remembers_mono)
next
  case True
  then obtain r where r: "map_of (ts_inputReceipts t) key = Some r" "rr_receiptWritten r" by blast
  have fresh: "map_of (ts_confirmedInputKeys t) key = None"
    using assms(1) r by (simp add: receipts_wf_def)
  let ?t = "snd (confirmInputReceipt t key)"
  let ?o = "ts_confirmedInputOrder t"
  have order: "ts_confirmedInputOrder ?t = (if length ?o = maxConfirmedInputKeys then drop 1 ?o else ?o) @ [key]"
    and pending: "ts_inputReceipts ?t = AList.delete key (ts_inputReceipts t)"
    using r fresh by (simp_all add: confirmInputReceipt_def remember_order)
  show ?thesis
  proof (cases "map_of (ts_inputReceipts t) k = None")
    case False
    show ?thesis
    proof (cases "k = key")
      case True
      with order show ?thesis unfolding remembers_def by (metis list.size(3) zero_less_Suc)
    next
      case ne: False
      with False pending show ?thesis by (simp add: remembers_def)
    qed
  next
    case k: True
    with assms(2) obtain xs ys where o: "?o = xs @ k # ys" "length ys < c" by (auto simp: remembers_def)
    show ?thesis
    proof (cases "length ?o = maxConfirmedInputKeys")
      case False
      with order o have "ts_confirmedInputOrder ?t = xs @ k # (ys @ [key])" by simp
      with o show ?thesis unfolding remembers_def by (metis length_append_singleton Suc_less_eq)
    next
      case full: True
      with o assms(3) obtain x xs' where "xs = x # xs'" by (cases xs) auto
      with order o full have "ts_confirmedInputOrder ?t = xs' @ k # (ys @ [key])" by simp
      with o show ?thesis unfolding remembers_def by (metis length_append_singleton Suc_less_eq)
    qed
  qed
qed

lemma remembers_run:
  "receipts_wf t \<Longrightarrow> remembers k c t \<Longrightarrow> c + length (filter is_confirm es) \<le> maxConfirmedInputKeys \<Longrightarrow>
     remembers k (c + length (filter is_confirm es)) (fold input_step es t)"
proof (induction es arbitrary: t c)
  case Nil
  then show ?case by simp
next
  case (Cons e es)
  note wf = receipts_wf_step [OF Cons.prems(1), of e]
  show ?case
  proof (cases "is_confirm e")
    case False
    with Cons.prems(2) have "remembers k c (input_step e t)"
      by (cases e) (simp_all add: remembers_write remembers_mark)
    from Cons.IH [OF wf this] Cons.prems(3) False show ?thesis by simp
  next
    case True
    then have "remembers k (Suc c) (input_step e t)"
      using Cons.prems by (cases e) (simp_all add: remembers_confirm)
    from Cons.IH [OF wf this] Cons.prems(3) True show ?thesis by simp
  qed
qed

text \<open>C12:
  An input key is written to the PTY at most once: after a successful write of \<open>k\<close>, whatever
  sequence of writes, receipts and confirmations follows, no later operation hands bytes for
  \<open>k\<close> to the PTY again until more than 8192 confirmations have been processed.
\<close>

theorem input_at_most_once:
  assumes "receipts_wf t" "fst (fst (writeInput t werr p (Some k) h))"
    and "length (filter is_confirm es) \<le> maxConfirmedInputKeys"
  shows "\<not> wrote_key k e (fold input_step es (snd (snd (writeInput t werr p (Some k) h))))"
proof -
  let ?t = "snd (snd (writeInput t werr p (Some k) h))"
  have "remembers k 0 ?t"
    using assms(2) by (cases rule: writeInput_cases [where t = t and werr = werr and p = p and key = "Some k" and h = h])
      (auto simp: remembers_def)
  moreover have wf: "receipts_wf ?t" using assms(1) by (rule receipts_wf_write)
  ultimately show ?thesis
    using remembers_run [of ?t k 0 es] assms(3) by (intro remembers_blocks) (auto intro: receipts_wf_run)
qed

theorem input_at_most_once_witness:
  "\<not> wrote_key \<lparr>rk_deviceID = ''d'', rk_sequence = 1\<rparr>
      (IWrite None [65] (Some \<lparr>rk_deviceID = ''d'', rk_sequence = 1\<rparr>) [1])
      (fold input_step [IMark \<lparr>rk_deviceID = ''d'', rk_sequence = 1\<rparr> [1], IConfirm \<lparr>rk_deviceID = ''d'', rk_sequence = 1\<rparr>]
        (snd (snd (writeInput new_input_state None [65] (Some \<lparr>rk_deviceID = ''d'', rk_sequence = 1\<rparr>) [1]))))"
proof -
  let ?k = "\<lparr>rk_deviceID = ''d'', rk_sequence = 1\<rparr>"
  have "fst (fst (writeInput new_input_state None [65] (Some ?k) [1]))"
    by (simp add: writeInput_def input_refusal_def new_input_state_def maxInputReceiptsPerTab_def
        maxInputReceiptsPerDevice_def)
  from input_at_most_once [OF receipts_wf_new this, of "[IMark ?k [1], IConfirm ?k]"] show ?thesis
    by (simp add: maxConfirmedInputKeys_def del: wrote_key.simps)
qed

text \<open>The receipt tables stay bounded and consistent under every sequence of operations: at most 4096
  pending records per tab and 2048 per device, at most 8192 confirmed keys, the per-device
  counters equal the number of pending records and never underflow, and no key is both pending
  and confirmed.
\<close>

theorem receipt_tables_invariant:
  "let t = fold input_step es new_input_state in
     length (ts_inputReceipts t) \<le> 4096
     \<and> (\<forall>d. get_count (ts_inputReceiptCounts t) d = int (count_where (of_device d) (ts_inputReceipts t))
          \<and> get_count (ts_inputReceiptCounts t) d \<le> 2048)
     \<and> length (ts_confirmedInputOrder t) \<le> 8192 \<and> distinct (ts_confirmedInputOrder t)
     \<and> set (ts_confirmedInputOrder t) = dom (map_of (ts_confirmedInputKeys t))
     \<and> dom (map_of (ts_inputReceipts t)) \<inter> dom (map_of (ts_confirmedInputKeys t)) = {}"
proof -
  have "receipts_wf (fold input_step es new_input_state)"
    using receipts_wf_new by (rule receipts_wf_run)
  then show ?thesis
    unfolding receipts_wf_def Let_def maxInputReceiptsPerTab_def maxInputReceiptsPerDevice_def
      maxConfirmedInputKeys_def
    by (auto simp: set_eq_iff domIff)
qed

end
