(* ===== verification/Terminal_Tab.thy ===== *)
theory Terminal_Tab
  imports Terminal_Replay Terminal_Lease Terminal_Gates Terminal_Filter Terminal_Receipts
    "HOL-Library.Monad_Syntax"
begin

text \<open>
  \<^verbatim>\<open>tabState\<close> of \<^verbatim>\<open>terminal/gateway.go\<close>: a registered terminal and its subscribers. A
  \<^verbatim>\<open>*connectionSubscriber\<close> is shared between the tab and the goroutines of its connection, so
  subscribers live in a heap \<open>conns\<close>, a list whose indices are the pointers; the tab's map
  holds pointers. A buffered channel is the list of its frames. A Go panic (a gate closed twice,
  a dangling pointer) is \<open>None\<close>. Each operation below runs under the tab's mutex.
\<close>

record subscriber =
  sb_deviceID :: string
  sb_frames :: "frame list"
  sb_mutations :: mutation_gate
  sb_deliveries :: delivery_gate
  sb_closed :: bool

type_synonym conns = "subscriber list"

record tab_state = input_state +
  ts_ownerID :: string
  ts_workspaceID :: string
  ts_id :: tab_id
  ts_ring :: ring
  ts_lease :: lease_manager
  ts_filter :: output_filter
  ts_redactorClosed :: bool
  ts_subscribers :: "(64 word, nat) gomap"
  ts_nextSubscriber :: "64 word"
  ts_closed :: bool
  ts_closeDrains :: "nat list"
  ts_runtimeClose :: "goerr option option"

definition maxSubscribersPerTab :: nat where "maxSubscribersPerTab = 8"
definition terminalSubscriberQueueFrames :: nat where "terminalSubscriberQueueFrames = 16"

text \<open>\<open>at_conn f a\<close> runs \<open>f\<close> on the subscriber at address \<open>a\<close>.\<close>

definition at_conn :: "(subscriber \<Rightarrow> subscriber option) \<Rightarrow> nat \<Rightarrow> conns \<Rightarrow> conns option" where
  "at_conn f a conns =
     (if a < length conns then map_option (\<lambda>s. conns[a := s]) (f (conns ! a)) else None)"

fun each_conn :: "(subscriber \<Rightarrow> subscriber option) \<Rightarrow> nat list \<Rightarrow> conns \<Rightarrow> conns option" where
  "each_conn f [] conns = Some conns"
| "each_conn f (a # as) conns = do { conns' \<leftarrow> at_conn f a conns; each_conn f as conns' }"

definition revokeGates :: "subscriber \<Rightarrow> subscriber option" where
  "revokeGates s = do {
     m \<leftarrow> mutation_revoke (sb_mutations s);
     d \<leftarrow> delivery_revoke (sb_deliveries s);
     Some (s\<lparr>sb_mutations := m, sb_deliveries := d\<rparr>) }"

definition closeSubscriber :: "subscriber \<Rightarrow> (bool \<times> subscriber) option" where
  "closeSubscriber s =
     (if sb_closed s then Some (False, s)
      else do { s' \<leftarrow> revokeGates (s\<lparr>sb_closed := True\<rparr>); Some (True, s') })"

text \<open>One iteration of the loop of \<^verbatim>\<open>broadcastLocked\<close>: a full queue closes the subscriber.\<close>

definition offer :: "frame \<Rightarrow> subscriber \<Rightarrow> subscriber option" where
  "offer f s =
     (if sb_closed s then Some s
      else if length (sb_frames s) < terminalSubscriberQueueFrames
      then Some (s\<lparr>sb_frames := sb_frames s @ [f]\<rparr>)
      else map_option snd (closeSubscriber s))"

definition broadcastLocked :: "tab_state \<Rightarrow> frame \<Rightarrow> conns \<Rightarrow> conns option" where
  "broadcastLocked t f conns = each_conn (offer f) (map snd (ts_subscribers t)) conns"

definition tab_broadcast :: "tab_state \<Rightarrow> frame \<Rightarrow> conns \<Rightarrow> conns option" where
  "tab_broadcast t f conns = (if ts_closed t then Some conns else broadcastLocked t f conns)"

definition appendOutput :: "tab_state \<Rightarrow> bytes \<Rightarrow> conns \<Rightarrow> (tab_state \<times> conns) option" where
  "appendOutput t payload conns =
     (if ts_closed t then Some (t, conns)
      else case ring_Append (ts_ring t) payload of
        Inl e \<Rightarrow> Some (t, conns)
      | Inr (f, r) \<Rightarrow>
          let t' = t\<lparr>ts_ring := r\<rparr> in map_option (Pair t') (broadcastLocked t' f conns))"

definition new_subscriber :: "string \<Rightarrow> subscriber" where
  "new_subscriber deviceID = \<lparr>sb_deviceID = deviceID, sb_frames = [],
     sb_mutations = newConnectionMutationGate, sb_deliveries = newConnectionDeliveryGate,
     sb_closed = False\<rparr>"

text \<open>\<open>subscribe\<close> returns the subscriber id, its pointer and the replay.\<close>

definition tab_subscribe ::
  "tab_state \<Rightarrow> 64 word \<Rightarrow> string \<Rightarrow> conns \<Rightarrow> (64 word \<times> nat \<times> replay \<times> tab_state \<times> conns) result" where
  "tab_subscribe t after deviceID conns =
     (if ts_closed t \<or> deviceID = [] then Inl (errorsNew ''terminal tab closed'')
      else if length (ts_subscribers t) \<ge> maxSubscribersPerTab
      then Inl (GoErr ErrTerminalCapacity ''terminal connection capacity reached'')
      else let id = ts_nextSubscriber t + 1; a = length conns
           in Inr (id, a, ring_After (ts_ring t) after,
                   t\<lparr>ts_nextSubscriber := id, ts_subscribers := AList.update id a (ts_subscribers t)\<rparr>,
                   conns @ [new_subscriber deviceID]))"

text \<open>\<open>unsubscribe\<close> up to the wait for its two drains; the wait is \<open>conn_drained\<close> below.\<close>

definition tab_unsubscribe :: "tab_state \<Rightarrow> 64 word \<Rightarrow> conns \<Rightarrow> (bool \<times> tab_state \<times> conns) option" where
  "tab_unsubscribe t sid conns =
     (case map_of (ts_subscribers t) sid of
        None \<Rightarrow> Some (False, t, conns)
      | Some a \<Rightarrow> do {
          conns1 \<leftarrow> at_conn revokeGates a conns;
          conns2 \<leftarrow> at_conn (map_option snd \<circ> closeSubscriber) a conns1;
          Some (True, t\<lparr>ts_subscribers := AList.delete sid (ts_subscribers t)\<rparr>, conns2) })"

text \<open>The loop of \<^verbatim>\<open>revokeDevice\<close>: number of disconnected subscribers and pointers to drain.\<close>

fun revoke_subscribers :: "string \<Rightarrow> nat list \<Rightarrow> conns \<Rightarrow> (nat \<times> nat list \<times> conns) option" where
  "revoke_subscribers d [] conns = Some (0, [], conns)"
| "revoke_subscribers d (a # as) conns =
     (if a \<ge> length conns then None
      else if sb_deviceID (conns ! a) \<noteq> d then revoke_subscribers d as conns
      else do {
        s \<leftarrow> revokeGates (conns ! a);
        (b, s') \<leftarrow> closeSubscriber s;
        (n, drains, conns') \<leftarrow> revoke_subscribers d as (conns[a := s']);
        Some ((if b then 1 else 0) + n, a # drains, conns') })"

definition tab_revokeDevice :: "tab_state \<Rightarrow> string \<Rightarrow> conns \<Rightarrow> (nat \<times> nat list \<times> conns) option" where
  "tab_revokeDevice t deviceID conns = revoke_subscribers deviceID (map snd (ts_subscribers t)) conns"

definition tab_beginClose :: "tab_state \<Rightarrow> bytes \<Rightarrow> conns \<Rightarrow> (tab_state \<times> conns) option" where
  "tab_beginClose t reason conns =
     (if ts_closed t then Some (t, conns)
      else do {
        let f = \<lparr>f_Kind = KindTabClosed, f_Flags = 0, f_Sequence = 0, f_TabID = ts_id t, f_Payload = reason\<rparr>;
        conns1 \<leftarrow> broadcastLocked t f conns;
        conns2 \<leftarrow> each_conn (\<lambda>s. do { s' \<leftarrow> revokeGates s; map_option snd (closeSubscriber s') })
                    (map snd (ts_subscribers t)) conns1;
        Some (t\<lparr>ts_closed := True, ts_filter := filter_Reset (ts_filter t), ts_redactorClosed := True,
                ts_closeDrains := map snd (ts_subscribers t)\<rparr>, conns2) })"

text \<open>Both drain channels of a connection are closed; \<^verbatim>\<open>closeDone\<close> is closed once all the
  drains collected by \<^verbatim>\<open>beginClose\<close> are.\<close>

definition conn_drained :: "conns \<Rightarrow> nat \<Rightarrow> bool" where
  "conn_drained conns a \<longleftrightarrow> mg_drained (sb_mutations (conns ! a)) \<and> dg_drained (sb_deliveries (conns ! a))"

definition close_done :: "tab_state \<Rightarrow> conns \<Rightarrow> bool" where
  "close_done t conns \<longleftrightarrow> ts_closed t \<and> list_all (conn_drained conns) (ts_closeDrains t)"

text \<open>\<open>closeRuntime\<close>: \<^verbatim>\<open>sync.Once\<close> around \<^verbatim>\<open>runtime.Close\<close>, whose outcome is \<open>cerr\<close>.\<close>

definition closeRuntime :: "tab_state \<Rightarrow> goerr option \<Rightarrow> goerr option \<times> tab_state" where
  "closeRuntime t cerr =
     (case ts_runtimeClose t of
        Some e \<Rightarrow> (e, t)
      | None \<Rightarrow> (cerr, t\<lparr>ts_runtimeClose := Some cerr\<rparr>))"

text \<open>The loop of \<^verbatim>\<open>appendRedactedOutput\<close> in chunks of 64 KiB.\<close>

definition RuntimeOutputChunkBytes :: nat where "RuntimeOutputChunkBytes = 65536"

function appendRedactedOutput :: "tab_state \<Rightarrow> bytes \<Rightarrow> conns \<Rightarrow> (tab_state \<times> conns) option" where
  "appendRedactedOutput t output conns =
     (if output = [] then Some (t, conns)
      else case appendOutput t (take (min (length output) RuntimeOutputChunkBytes) output) conns of
        None \<Rightarrow> None
      | Some (t', conns') \<Rightarrow>
          appendRedactedOutput t' (drop (min (length output) RuntimeOutputChunkBytes) output) conns')"
  by pat_completeness auto
termination
  by (relation "measure (\<lambda>(t, out, c). length out)") (auto simp: RuntimeOutputChunkBytes_def)

declare appendRedactedOutput.simps [simp del]

text \<open>
  What one connection's goroutines do with its subscriber: the reader enters and leaves the
  mutation gate, the writer the delivery gate, and the writer receives the next queued frame.
\<close>

definition begin_mutation :: "nat \<Rightarrow> conns \<Rightarrow> bool \<times> conns" where
  "begin_mutation a conns =
     (case mutation_begin (sb_mutations (conns ! a)) of
        (ok, g) \<Rightarrow> (ok, conns[a := (conns ! a)\<lparr>sb_mutations := g\<rparr>]))"

definition end_mutation :: "nat \<Rightarrow> conns \<Rightarrow> conns option" where
  "end_mutation a conns =
     map_option (\<lambda>g. conns[a := (conns ! a)\<lparr>sb_mutations := g\<rparr>]) (mutation_end (sb_mutations (conns ! a)))"

definition begin_delivery :: "nat \<Rightarrow> conns \<Rightarrow> bool \<times> conns" where
  "begin_delivery a conns =
     (case delivery_begin (sb_deliveries (conns ! a)) of
        (ok, g) \<Rightarrow> (ok, conns[a := (conns ! a)\<lparr>sb_deliveries := g\<rparr>]))"

definition end_delivery :: "nat \<Rightarrow> conns \<Rightarrow> conns option" where
  "end_delivery a conns =
     map_option (\<lambda>g. conns[a := (conns ! a)\<lparr>sb_deliveries := g\<rparr>]) (delivery_end (sb_deliveries (conns ! a)))"

definition receive :: "nat \<Rightarrow> conns \<Rightarrow> frame option \<times> conns" where
  "receive a conns =
     (case sb_frames (conns ! a) of
        [] \<Rightarrow> (None, conns)
      | f # fs \<Rightarrow> (Some f, conns[a := (conns ! a)\<lparr>sb_frames := fs\<rparr>]))"

subsection \<open>Invariants\<close>

text \<open>The gates of a subscriber are consistent, its queue is bounded, and a closed subscriber is
  revoked.\<close>

definition sub_ok :: "subscriber \<Rightarrow> bool" where
  "sub_ok s \<longleftrightarrow>
     mg_drained (sb_mutations s) = (mg_revoked (sb_mutations s) \<and> mg_inFlight (sb_mutations s) = 0)
     \<and> dg_drained (sb_deliveries s) = (dg_revoked (sb_deliveries s) \<and> dg_inFlight (sb_deliveries s) = 0)
     \<and> (sb_closed s \<longrightarrow> mg_revoked (sb_mutations s) \<and> dg_revoked (sb_deliveries s))
     \<and> length (sb_frames s) \<le> terminalSubscriberQueueFrames"

definition revoked_sub :: "subscriber \<Rightarrow> subscriber" where
  "revoked_sub s = s\<lparr>
     sb_mutations := (sb_mutations s)\<lparr>mg_revoked := True, mg_drained := mg_inFlight (sb_mutations s) = 0\<rparr>,
     sb_deliveries := (sb_deliveries s)\<lparr>dg_revoked := True, dg_drained := dg_inFlight (sb_deliveries s) = 0\<rparr>\<rparr>"

definition closed_sub :: "subscriber \<Rightarrow> subscriber" where
  "closed_sub s = revoked_sub (s\<lparr>sb_closed := True\<rparr>)"

lemma mutation_revoke_ok:
  "mg_drained g = (mg_revoked g \<and> mg_inFlight g = 0) \<Longrightarrow>
     mutation_revoke g = Some (g\<lparr>mg_revoked := True, mg_drained := mg_inFlight g = 0\<rparr>)"
  by (cases g) (auto simp: mutation_revoke_def close_mutation_drained_def Let_def)

lemma delivery_revoke_ok:
  "dg_drained g = (dg_revoked g \<and> dg_inFlight g = 0) \<Longrightarrow>
     delivery_revoke g = Some (g\<lparr>dg_revoked := True, dg_drained := dg_inFlight g = 0\<rparr>)"
  by (cases g) (auto simp: delivery_revoke_def close_delivery_drained_def Let_def)

lemma revokeGates_ok: "sub_ok s \<Longrightarrow> revokeGates s = Some (revoked_sub s)"
  by (simp add: revokeGates_def sub_ok_def mutation_revoke_ok delivery_revoke_ok revoked_sub_def)

lemma sub_ok_revoked [simp]: "sub_ok s \<Longrightarrow> sub_ok (revoked_sub s)"
  by (simp add: sub_ok_def revoked_sub_def)

lemma sub_ok_closed [simp]: "sub_ok s \<Longrightarrow> sub_ok (closed_sub s)"
  by (simp add: sub_ok_def revoked_sub_def closed_sub_def)

lemma closed_sub_id: "sub_ok s \<Longrightarrow> sb_closed s \<Longrightarrow> closed_sub s = s"
  by (cases s; cases "sb_mutations s"; cases "sb_deliveries s")
     (auto simp: sub_ok_def closed_sub_def revoked_sub_def)

lemma closed_revoked_sub [simp]: "closed_sub (revoked_sub s) = closed_sub s"
  by (simp add: closed_sub_def revoked_sub_def)

lemma closed_sub_fields [simp]:
  "sb_closed (closed_sub s)" "sb_deviceID (closed_sub s) = sb_deviceID s"
  "sb_frames (closed_sub s) = sb_frames s" "mg_revoked (sb_mutations (closed_sub s))"
  "dg_revoked (sb_deliveries (closed_sub s))"
  "sb_closed (revoked_sub s) = sb_closed s" "sb_deviceID (revoked_sub s) = sb_deviceID s"
  by (simp_all add: closed_sub_def revoked_sub_def)

lemma closeSubscriber_ok: "sub_ok s \<Longrightarrow> closeSubscriber s = Some (\<not> sb_closed s, closed_sub s)"
proof -
  assume ok: "sub_ok s"
  show ?thesis
  proof (cases "sb_closed s")
    case True
    with ok show ?thesis by (simp add: closeSubscriber_def closed_sub_id)
  next
    case False
    from ok have "mutation_revoke (sb_mutations s) = Some (sb_mutations (revoked_sub s))"
      "delivery_revoke (sb_deliveries s) = Some (sb_deliveries (revoked_sub s))"
      by (simp_all add: sub_ok_def mutation_revoke_ok delivery_revoke_ok revoked_sub_def)
    with False show ?thesis
      by (simp add: closeSubscriber_def revokeGates_def closed_sub_def revoked_sub_def)
  qed
qed

text \<open>A queued frame, or the subscriber closed because its queue is full.\<close>

definition offered :: "frame \<Rightarrow> subscriber \<Rightarrow> subscriber" where
  "offered f s =
     (if sb_closed s then s
      else if length (sb_frames s) < terminalSubscriberQueueFrames
      then s\<lparr>sb_frames := sb_frames s @ [f]\<rparr> else closed_sub s)"

lemma offer_ok: "sub_ok s \<Longrightarrow> offer f s = Some (offered f s)"
  by (simp add: offer_def offered_def closeSubscriber_ok)

lemma sub_ok_offered [simp]: "sub_ok s \<Longrightarrow> sub_ok (offered f s)"
  by (auto simp: offered_def) (auto simp: sub_ok_def)

text \<open>\<open>map_at\<close>: what a loop over the pointers \<open>as\<close> does to the heap.\<close>

definition map_at :: "(subscriber \<Rightarrow> subscriber) \<Rightarrow> nat list \<Rightarrow> conns \<Rightarrow> conns" where
  "map_at g as conns = map (\<lambda>a. if a \<in> set as then g (conns ! a) else conns ! a) [0..<length conns]"

lemma length_map_at [simp]: "length (map_at g as conns) = length conns"
  by (simp add: map_at_def)

lemma nth_map_at [simp]:
  "a < length conns \<Longrightarrow> map_at g as conns ! a = (if a \<in> set as then g (conns ! a) else conns ! a)"
  by (simp add: map_at_def)

lemma map_at_Nil [simp]: "map_at g [] conns = conns"
  by (simp add: map_at_def map_nth)

lemma map_at_Cons:
  "a \<notin> set as \<Longrightarrow> a < length conns \<Longrightarrow> map_at g as (conns[a := g (conns ! a)]) = map_at g (a # as) conns"
  by (rule nth_equalityI) (auto simp: nth_list_update)

lemma list_all_map_at:
  "list_all sub_ok conns \<Longrightarrow> (\<And>s. sub_ok s \<Longrightarrow> sub_ok (g s)) \<Longrightarrow> list_all sub_ok (map_at g as conns)"
  by (auto simp: list_all_length)

lemma each_conn_ok:
  assumes "\<And>s. sub_ok s \<Longrightarrow> f s = Some (g s)" "\<And>s. sub_ok s \<Longrightarrow> sub_ok (g s)"
  shows "list_all sub_ok conns \<Longrightarrow> distinct as \<Longrightarrow> \<forall>a \<in> set as. a < length conns \<Longrightarrow>
    each_conn f as conns = Some (map_at g as conns)"
proof (induction as arbitrary: conns)
  case Nil
  then show ?case by simp
next
  case (Cons a as)
  from Cons.prems have a: "a < length conns" "sub_ok (conns ! a)" by (simp_all add: list_all_length)
  then have "list_all sub_ok (conns[a := g (conns ! a)])"
    using Cons.prems assms(2) by (auto simp: list_all_length nth_list_update)
  from Cons.IH [OF this] Cons.prems a assms(1) show ?case
    by (simp add: at_conn_def map_at_Cons)
qed

definition tab_ok :: "tab_state \<Rightarrow> conns \<Rightarrow> bool" where
  "tab_ok t conns \<longleftrightarrow> map_wf (ts_subscribers t) \<and> distinct (map snd (ts_subscribers t))
     \<and> (\<forall>a \<in> snd ` set (ts_subscribers t). a < length conns)
     \<and> length (ts_subscribers t) \<le> maxSubscribersPerTab
     \<and> (\<forall>i \<in> fst ` set (ts_subscribers t). i \<le> ts_nextSubscriber t)
     \<and> (ts_closed t \<longrightarrow> (\<forall>a \<in> snd ` set (ts_subscribers t). sb_closed (conns ! a)))"

lemma tab_okD:
  assumes "tab_ok t conns"
  shows "distinct (map snd (ts_subscribers t))" "\<forall>a \<in> set (map snd (ts_subscribers t)). a < length conns"
    "map_wf (ts_subscribers t)"
  using assms by (auto simp: tab_ok_def)

lemma broadcastLocked_ok:
  assumes "tab_ok t conns" "list_all sub_ok conns"
  shows "broadcastLocked t f conns = Some (map_at (offered f) (map snd (ts_subscribers t)) conns)"
  unfolding broadcastLocked_def
  using assms(2) tab_okD(1,2) [OF assms(1)] by (intro each_conn_ok) (auto simp: offer_ok)

lemma beginClose_ok:
  assumes "tab_ok t conns" "list_all sub_ok conns" "\<not> ts_closed t"
  shows "\<exists>c. tab_beginClose t reason conns =
      Some (t\<lparr>ts_closed := True, ts_filter := filter_Reset (ts_filter t), ts_redactorClosed := True,
              ts_closeDrains := map snd (ts_subscribers t)\<rparr>, c)
    \<and> length c = length conns \<and> list_all sub_ok c
    \<and> (\<forall>a \<in> snd ` set (ts_subscribers t). sb_closed (c ! a))
    \<and> (\<forall>a < length conns. sb_closed (conns ! a) \<longrightarrow> sb_closed (c ! a))"
proof -
  let ?as = "map snd (ts_subscribers t)"
  let ?f = "\<lparr>f_Kind = KindTabClosed, f_Flags = 0, f_Sequence = 0, f_TabID = ts_id t, f_Payload = reason\<rparr>"
  let ?c1 = "map_at (offered ?f) ?as conns"
  let ?c2 = "map_at closed_sub ?as ?c1"
  have b: "broadcastLocked t ?f conns = Some ?c1" using assms(1,2) by (rule broadcastLocked_ok)
  have ok1: "list_all sub_ok ?c1" using assms(2) by (rule list_all_map_at) simp
  have "each_conn (\<lambda>s. do { s' \<leftarrow> revokeGates s; map_option snd (closeSubscriber s') }) ?as ?c1 = Some ?c2"
    using ok1 tab_okD(1,2) [OF assms(1)]
    by (intro each_conn_ok) (auto simp: revokeGates_ok closeSubscriber_ok)
  with b assms(3) have "tab_beginClose t reason conns =
      Some (t\<lparr>ts_closed := True, ts_filter := filter_Reset (ts_filter t), ts_redactorClosed := True,
              ts_closeDrains := ?as\<rparr>, ?c2)"
    by (simp add: tab_beginClose_def Let_def)
  moreover have "list_all sub_ok ?c2" using ok1 by (rule list_all_map_at) simp
  ultimately show ?thesis using assms(1) by (auto simp: tab_ok_def)
qed

lemma revoke_subscribers_ok:
  "list_all sub_ok conns \<Longrightarrow> distinct as \<Longrightarrow> \<forall>a \<in> set as. a < length conns \<Longrightarrow>
     revoke_subscribers d as conns =
       Some (length (filter (\<lambda>a. sb_deviceID (conns ! a) = d \<and> \<not> sb_closed (conns ! a)) as),
             filter (\<lambda>a. sb_deviceID (conns ! a) = d) as,
             map_at closed_sub (filter (\<lambda>a. sb_deviceID (conns ! a) = d) as) conns)"
proof (induction as arbitrary: conns)
  case Nil
  then show ?case by simp
next
  case (Cons a as)
  from Cons.prems have a: "a < length conns" "sub_ok (conns ! a)" "a \<notin> set as"
    by (simp_all add: list_all_length)
  show ?case
  proof (cases "sb_deviceID (conns ! a) = d")
    case False
    with Cons a show ?thesis by (simp add: not_le)
  next
    case True
    let ?c = "conns[a := closed_sub (conns ! a)]"
    have ok: "list_all sub_ok ?c"
      using Cons.prems a by (auto simp: list_all_length nth_list_update)
    have same: "sb_deviceID (?c ! b) = d \<and> \<not> sb_closed (?c ! b) \<longleftrightarrow>
        sb_deviceID (conns ! b) = d \<and> \<not> sb_closed (?c ! b)" for b
      using a(1) by (cases "b = a") auto
    have eq: "filter (\<lambda>b. sb_deviceID (?c ! b) = d) as = filter (\<lambda>b. sb_deviceID (conns ! b) = d) as"
      "filter (\<lambda>b. sb_deviceID (conns ! b) = d \<and> \<not> sb_closed (?c ! b)) as
        = filter (\<lambda>b. sb_deviceID (conns ! b) = d \<and> \<not> sb_closed (conns ! b)) as"
    proof -
      have "?c ! b = conns ! b" if "b \<in> set as" for b using a(3) that by (metis nth_list_update_neq)
      then show "filter (\<lambda>b. sb_deviceID (?c ! b) = d) as = filter (\<lambda>b. sb_deviceID (conns ! b) = d) as"
        "filter (\<lambda>b. sb_deviceID (conns ! b) = d \<and> \<not> sb_closed (?c ! b)) as
          = filter (\<lambda>b. sb_deviceID (conns ! b) = d \<and> \<not> sb_closed (conns ! b)) as" by (auto intro!: filter_cong)
    qed
    show ?thesis
      using Cons.IH [OF ok] Cons.prems True a map_at_Cons [of a "filter (\<lambda>b. sb_deviceID (conns ! b) = d) as" conns closed_sub]
      by (simp add: revokeGates_ok closeSubscriber_ok not_le eq same)
  qed
qed

subsection \<open>Runs of a tab and its connections\<close>

text \<open>
  Any interleaving of the tab's operations with those of its connections' goroutines. Each
  connection has one reader and one writer, so a gate is entered with nothing in flight and left
  only after it was entered. \<open>TReceive a\<close> is the writer of connection \<open>a\<close> taking a frame.
\<close>

datatype tab_op = TAppend bytes | TBroadcast frame | TSubscribe "64 word" string
  | TUnsubscribe "64 word" | TRevokeDevice string | TBeginClose bytes
  | TBeginMutation nat | TEndMutation nat | TBeginDelivery nat | TEndDelivery nat | TReceive nat

fun tab_step :: "tab_op \<Rightarrow> tab_state \<times> conns \<Rightarrow> (tab_state \<times> conns) option" where
  "tab_step (TAppend p) (t, c) = appendOutput t p c"
| "tab_step (TBroadcast f) (t, c) = map_option (Pair t) (tab_broadcast t f c)"
| "tab_step (TSubscribe s d) (t, c) =
     (case tab_subscribe t s d c of Inl e \<Rightarrow> Some (t, c) | Inr (sid, a, rp, t', c') \<Rightarrow> Some (t', c'))"
| "tab_step (TUnsubscribe sid) (t, c) = map_option snd (tab_unsubscribe t sid c)"
| "tab_step (TRevokeDevice d) (t, c) =
     map_option (\<lambda>(n, drains, c'). (t, c')) (tab_revokeDevice t d c)"
| "tab_step (TBeginClose r) (t, c) = tab_beginClose t r c"
| "tab_step (TBeginMutation a) (t, c) =
     (if a < length c \<and> mg_inFlight (sb_mutations (c ! a)) = 0
      then Some (t, snd (begin_mutation a c)) else Some (t, c))"
| "tab_step (TEndMutation a) (t, c) =
     (if a < length c \<and> mg_inFlight (sb_mutations (c ! a)) \<noteq> 0
      then map_option (Pair t) (end_mutation a c) else Some (t, c))"
| "tab_step (TBeginDelivery a) (t, c) =
     (if a < length c \<and> dg_inFlight (sb_deliveries (c ! a)) = 0
      then Some (t, snd (begin_delivery a c)) else Some (t, c))"
| "tab_step (TEndDelivery a) (t, c) =
     (if a < length c \<and> dg_inFlight (sb_deliveries (c ! a)) \<noteq> 0
      then map_option (Pair t) (end_delivery a c) else Some (t, c))"
| "tab_step (TReceive a) (t, c) = (if a < length c then Some (t, snd (receive a c)) else Some (t, c))"

text \<open>The frame that connection \<open>a\<close>'s writer receives in a step.\<close>

fun received :: "nat \<Rightarrow> tab_op \<Rightarrow> tab_state \<times> conns \<Rightarrow> frame list" where
  "received a (TReceive b) (t, c) =
     (if a = b \<and> a < length c then (case fst (receive a c) of None \<Rightarrow> [] | Some f \<Rightarrow> [f]) else [])"
| "received a _ _ = []"

fun tab_run :: "nat \<Rightarrow> tab_op list \<Rightarrow> tab_state \<times> conns \<Rightarrow> (frame list \<times> tab_state \<times> conns) option" where
  "tab_run a [] s = Some ([], s)"
| "tab_run a (e # es) s =
     (case tab_step e s of None \<Rightarrow> None
      | Some s' \<Rightarrow> map_option (apfst ((@) (received a e s))) (tab_run a es s'))"

definition world_ok :: "tab_state \<times> conns \<Rightarrow> bool" where
  "world_ok s \<longleftrightarrow> tab_ok (fst s) (snd s) \<and> list_all sub_ok (snd s)"

text \<open>Replacing one subscriber by another that is closed if the first is keeps the tab in order.\<close>

lemma tab_ok_mono:
  assumes "tab_ok t c" "length c' = length c" "\<And>a. a < length c \<Longrightarrow> sb_closed (c ! a) \<Longrightarrow> sb_closed (c' ! a)"
  shows "tab_ok t c'"
  using assms by (auto simp: tab_ok_def)

lemma world_ok_update:
  assumes "world_ok (t, c)" "a < length c" "sub_ok s" "sb_closed (c ! a) \<Longrightarrow> sb_closed s"
  shows "world_ok (t, c[a := s])"
  using assms by (auto simp: world_ok_def list_all_length nth_list_update intro: tab_ok_mono)

lemma world_ok_map_at:
  assumes "world_ok (t, c)" "\<And>s. sub_ok s \<Longrightarrow> sub_ok (g s)" "\<And>s. sb_closed s \<Longrightarrow> sb_closed (g s)"
  shows "world_ok (t, map_at g as c)"
proof -
  have "tab_ok t (map_at g as c)"
    by (rule tab_ok_mono [of t c]) (use assms in \<open>auto simp: world_ok_def\<close>)
  with assms show ?thesis by (simp add: world_ok_def list_all_map_at)
qed

lemma offered_closed [simp]: "sb_closed s \<Longrightarrow> sb_closed (offered f s)"
  by (simp add: offered_def)

lemma sub_ok_nth: "world_ok (t, c) \<Longrightarrow> a < length c \<Longrightarrow> sub_ok (c ! a)"
  by (simp add: world_ok_def list_all_length)

lemma gate_steps_ok:
  assumes "world_ok (t, c)" "a < length c"
  shows "mg_inFlight (sb_mutations (c ! a)) = 0 \<Longrightarrow> world_ok (t, snd (begin_mutation a c))"
    "mg_inFlight (sb_mutations (c ! a)) \<noteq> 0 \<Longrightarrow> \<exists>c'. end_mutation a c = Some c' \<and> world_ok (t, c')"
    "dg_inFlight (sb_deliveries (c ! a)) = 0 \<Longrightarrow> world_ok (t, snd (begin_delivery a c))"
    "dg_inFlight (sb_deliveries (c ! a)) \<noteq> 0 \<Longrightarrow> \<exists>c'. end_delivery a c = Some c' \<and> world_ok (t, c')"
    "world_ok (t, snd (receive a c))"
proof -
  note ok = sub_ok_nth [OF assms]
  show "mg_inFlight (sb_mutations (c ! a)) = 0 \<Longrightarrow> world_ok (t, snd (begin_mutation a c))"
    using ok assms by (auto simp: begin_mutation_def mutation_begin_def sub_ok_def intro!: world_ok_update [OF assms])
  show "mg_inFlight (sb_mutations (c ! a)) \<noteq> 0 \<Longrightarrow> \<exists>c'. end_mutation a c = Some c' \<and> world_ok (t, c')"
    using ok assms by (auto simp: end_mutation_def mutation_end_def close_mutation_drained_def Let_def sub_ok_def
        intro!: world_ok_update [OF assms])
  show "dg_inFlight (sb_deliveries (c ! a)) = 0 \<Longrightarrow> world_ok (t, snd (begin_delivery a c))"
    using ok assms by (auto simp: begin_delivery_def delivery_begin_def sub_ok_def intro!: world_ok_update [OF assms])
  show "dg_inFlight (sb_deliveries (c ! a)) \<noteq> 0 \<Longrightarrow> \<exists>c'. end_delivery a c = Some c' \<and> world_ok (t, c')"
    using ok assms by (auto simp: end_delivery_def delivery_end_def close_delivery_drained_def Let_def sub_ok_def
        intro!: world_ok_update [OF assms])
  show "world_ok (t, snd (receive a c))"
    using ok assms by (auto simp: receive_def sub_ok_def intro!: world_ok_update [OF assms] split: list.split)
qed

lemma update_new: "map_of m k = None \<Longrightarrow> AList.update k v m = m @ [(k, v)]"
  by (induction m) (auto split: if_splits)

text \<open>Changing fields of the tab other than those about subscribers.\<close>

lemma tab_ok_ring [simp]: "tab_ok (t\<lparr>ts_ring := r\<rparr>) c = tab_ok t c"
  by (simp add: tab_ok_def)

lemma world_ok_ring [simp]: "world_ok (t\<lparr>ts_ring := r\<rparr>, c) = world_ok (t, c)"
  by (simp add: world_ok_def)

lemma broadcast_world:
  assumes "world_ok (t, c)"
  shows "broadcastLocked t f c = Some (map_at (offered f) (map snd (ts_subscribers t)) c)"
    "world_ok (t, map_at (offered f) (map snd (ts_subscribers t)) c)"
proof -
  show "broadcastLocked t f c = Some (map_at (offered f) (map snd (ts_subscribers t)) c)"
    using assms by (intro broadcastLocked_ok) (simp_all add: world_ok_def)
  show "world_ok (t, map_at (offered f) (map snd (ts_subscribers t)) c)"
    using assms by (rule world_ok_map_at) simp_all
qed

lemma subscribe_world:
  assumes "world_ok (t, c)" "tab_subscribe t s d c = Inr (sid, a, rp, t', c')"
    "unat (ts_nextSubscriber t) + 1 < 2 ^ 64"
  shows "world_ok (t', c')" "a = length c" "c' = c @ [new_subscriber d]" "a \<in> snd ` set (ts_subscribers t')"
    "map_of (ts_subscribers t') sid = Some a" "rp = ring_After (ts_ring t) s" "ts_ring t' = ts_ring t"
    "ts_closed t' = ts_closed t" "snd ` set (ts_subscribers t) \<subseteq> snd ` set (ts_subscribers t')"
    "\<not> ts_closed t"
proof -
  from assms(2) have e: "sid = ts_nextSubscriber t + 1" "a = length c" "c' = c @ [new_subscriber d]"
    "rp = ring_After (ts_ring t) s" "\<not> ts_closed t" "length (ts_subscribers t) < maxSubscribersPerTab"
    "t' = t\<lparr>ts_nextSubscriber := sid, ts_subscribers := AList.update sid a (ts_subscribers t)\<rparr>"
    by (auto simp: tab_subscribe_def Let_def split: if_splits)
  have lt: "i < sid" if "i \<in> fst ` set (ts_subscribers t)" for i
  proof -
    from assms(1) that have "unat i \<le> unat (ts_nextSubscriber t)"
      by (auto simp: world_ok_def tab_ok_def word_le_nat_alt)
    moreover have "unat sid = unat (ts_nextSubscriber t) + 1"
      using assms(3) by (simp add: e(1) unat_word_ariths)
    ultimately show ?thesis by (simp add: word_less_nat_alt)
  qed
  then have fresh: "map_of (ts_subscribers t) sid = None" by (force simp: map_of_eq_None_iff)
  have wf: "map_wf (ts_subscribers t)" using assms(1) by (simp add: world_ok_def tab_ok_def)
  have upd: "AList.update sid a (ts_subscribers t) = ts_subscribers t @ [(sid, a)]"
    using fresh by (rule update_new)
  show "a = length c" "c' = c @ [new_subscriber d]" "rp = ring_After (ts_ring t) s" "ts_ring t' = ts_ring t"
    "a \<in> snd ` set (ts_subscribers t')" "map_of (ts_subscribers t') sid = Some a"
    "ts_closed t' = ts_closed t" "snd ` set (ts_subscribers t) \<subseteq> snd ` set (ts_subscribers t')"
    "\<not> ts_closed t"
    using e upd fresh by (auto simp: map_add_def)
  have "sub_ok (new_subscriber d)"
    by (simp add: sub_ok_def new_subscriber_def newConnectionMutationGate_def newConnectionDeliveryGate_def)
  moreover have "tab_ok t' c'"
    using assms(1) e lt upd fresh
    by (auto simp: world_ok_def tab_ok_def map_wf_def map_of_eq_None_iff less_SucI intro: order.strict_implies_order)
  ultimately show "world_ok (t', c')" using assms(1) e by (simp add: world_ok_def)
qed

lemma unsubscribe_world:
  assumes "world_ok (t, c)"
  shows "\<exists>b t' c'. tab_unsubscribe t sid c = Some (b, t', c') \<and> world_ok (t', c') \<and> length c' = length c
    \<and> ts_ring t' = ts_ring t \<and> ts_nextSubscriber t' = ts_nextSubscriber t \<and> ts_closed t' = ts_closed t
    \<and> (\<forall>a < length c. sb_frames (c' ! a) = sb_frames (c ! a) \<and> (sb_closed (c ! a) \<longrightarrow> sb_closed (c' ! a)))
    \<and> (\<forall>a \<in> snd ` set (ts_subscribers t). sb_closed (c' ! a) \<or> a \<in> snd ` set (ts_subscribers t'))"
proof (cases "map_of (ts_subscribers t) sid")
  case None
  with assms show ?thesis by (intro exI [of _ False] exI [of _ t] exI [of _ c]) (simp add: tab_unsubscribe_def)
next
  case (Some a)
  then have mem: "(sid, a) \<in> set (ts_subscribers t)" by (rule map_of_SomeD)
  with assms have a: "a < length c" by (force simp: world_ok_def tab_ok_def)
  note ok = sub_ok_nth [OF assms a]
  let ?t = "t\<lparr>ts_subscribers := AList.delete sid (ts_subscribers t)\<rparr>"
  let ?c = "c[a := closed_sub (c ! a)]"
  have u: "tab_unsubscribe t sid c = Some (True, ?t, ?c)"
    using Some a ok by (simp add: tab_unsubscribe_def at_conn_def revokeGates_ok closeSubscriber_ok)
  have sub: "set (AList.delete sid (ts_subscribers t)) \<subseteq> set (ts_subscribers t)"
    by (auto simp: AList.delete_eq)
  have "world_ok (t, ?c)" using assms a ok by (intro world_ok_update) auto
  then have w: "world_ok (?t, ?c)"
    using sub length_delete_le [of sid "ts_subscribers t"]
    by (auto simp: world_ok_def tab_ok_def AList.delete_eq distinct_map_filter
        intro: order.trans [OF length_filter_le])
  have keep: "a' = a \<or> a' \<in> snd ` set (AList.delete sid (ts_subscribers t))"
    if "(i, a') \<in> set (ts_subscribers t)" for i a'
  proof (cases "i = sid")
    case True
    from assms have "distinct (map fst (ts_subscribers t))" by (simp add: world_ok_def tab_ok_def map_wf_def)
    with True that mem show ?thesis by (auto dest: eq_key_imp_eq_value)
  next
    case False
    with that have "(i, a') \<in> set (AList.delete sid (ts_subscribers t))" by (simp add: AList.delete_eq)
    then show ?thesis by (metis image_eqI snd_conv)
  qed
  have "sb_closed (?c ! b) \<or> b \<in> snd ` set (ts_subscribers ?t)" if "b \<in> snd ` set (ts_subscribers t)" for b
  proof -
    from that obtain i where "(i, b) \<in> set (ts_subscribers t)" by auto
    from keep [OF this] a show ?thesis by auto
  qed
  then show ?thesis using u w a by (auto simp: nth_list_update)
qed

lemma step_world:
  assumes "world_ok (t, c)" "unat (ts_nextSubscriber t) + 1 < 2 ^ 64"
  shows "\<exists>t' c'. tab_step e (t, c) = Some (t', c') \<and> world_ok (t', c')
    \<and> unat (ts_nextSubscriber t') \<le> unat (ts_nextSubscriber t) + 1
    \<and> length c \<le> length c' \<and> (\<forall>a < length c. sb_closed (c ! a) \<longrightarrow> sb_closed (c' ! a))"
proof (cases e)
  case (TAppend p)
  show ?thesis
  proof (cases "ring_Append (ts_ring t) p")
    case (Inl err)
    with TAppend assms show ?thesis by (simp add: appendOutput_def)
  next
    case (Inr fr)
    obtain f r where fr: "fr = (f, r)" by force
    have "world_ok (t\<lparr>ts_ring := r\<rparr>, c)" using assms by simp
    from broadcast_world [OF this, of f] Inr fr TAppend assms show ?thesis
      by (simp add: appendOutput_def Let_def)
  qed
next
  case (TBroadcast f)
  with assms broadcast_world [OF assms(1), of f] show ?thesis by (simp add: tab_broadcast_def)
next
  case (TSubscribe s d)
  show ?thesis
  proof (cases "tab_subscribe t s d c")
    case (Inl err)
    with TSubscribe assms show ?thesis by simp
  next
    case (Inr x)
    obtain sid a rp t' c' where x: "x = (sid, a, rp, t', c')" by (metis prod_cases5)
    have "ts_nextSubscriber t' = ts_nextSubscriber t + 1"
      using Inr x by (auto simp: tab_subscribe_def Let_def split: if_splits)
    then have "unat (ts_nextSubscriber t') \<le> unat (ts_nextSubscriber t) + 1"
      using assms(2) by (simp add: unat_word_ariths)
    with subscribe_world(1-3) [OF assms(1) Inr [unfolded x] assms(2)] Inr x TSubscribe show ?thesis
      by (simp add: nth_append)
  qed
next
  case (TUnsubscribe sid)
  with unsubscribe_world [OF assms(1), of sid] show ?thesis by force
next
  case (TRevokeDevice d)
  let ?as = "filter (\<lambda>a. sb_deviceID (c ! a) = d) (map snd (ts_subscribers t))"
  have "world_ok (t, map_at closed_sub ?as c)" using assms(1) by (rule world_ok_map_at) simp_all
  with TRevokeDevice assms revoke_subscribers_ok [of c "map snd (ts_subscribers t)" d] show ?thesis
    by (auto simp: tab_revokeDevice_def world_ok_def tab_ok_def)
next
  case (TBeginClose r)
  show ?thesis
  proof (cases "ts_closed t")
    case True
    with TBeginClose assms show ?thesis by (simp add: tab_beginClose_def)
  next
    case False
    from assms(1) have "tab_ok t c" "list_all sub_ok c" by (simp_all add: world_ok_def)
    from beginClose_ok [OF this False, of r] TBeginClose assms show ?thesis
      by (auto simp: world_ok_def tab_ok_def)
  qed
next
  case (TBeginMutation a)
  then show ?thesis using assms gate_steps_ok(1) [OF assms(1)]
    by (auto simp: begin_mutation_def nth_list_update split: prod.splits)
next
  case (TEndMutation a)
  then show ?thesis using assms gate_steps_ok(2) [OF assms(1), of a]
    by (cases "end_mutation a c") (auto simp: end_mutation_def nth_list_update)
next
  case (TBeginDelivery a)
  then show ?thesis using assms gate_steps_ok(3) [OF assms(1)]
    by (auto simp: begin_delivery_def nth_list_update split: prod.splits)
next
  case (TEndDelivery a)
  then show ?thesis using assms gate_steps_ok(4) [OF assms(1), of a]
    by (cases "end_delivery a c") (auto simp: end_delivery_def nth_list_update)
next
  case (TReceive a)
  then show ?thesis using assms gate_steps_ok(5) [OF assms(1)]
    by (auto simp: receive_def nth_list_update split: list.splits)
qed

lemma run_world:
  "world_ok (t, c) \<Longrightarrow> unat (ts_nextSubscriber t) + length es < 2 ^ 64 \<Longrightarrow>
     \<exists>fs t' c'. tab_run a es (t, c) = Some (fs, t', c') \<and> world_ok (t', c')"
proof (induction es arbitrary: t c)
  case Nil
  then show ?case by simp
next
  case (Cons e es)
  obtain t1 c1 where s: "tab_step e (t, c) = Some (t1, c1)" "world_ok (t1, c1)"
    "unat (ts_nextSubscriber t1) \<le> unat (ts_nextSubscriber t) + 1"
    using step_world [OF Cons.prems(1), of e] Cons.prems(2) by auto
  with Cons.IH [of t1 c1] Cons.prems(2) show ?case by force
qed

subsection \<open>The stream of one connection\<close>

fun appended :: "tab_op \<Rightarrow> bytes list" where
  "appended (TAppend p) = (if length p \<le> MaxPayload then [p] else [])"
| "appended _ = []"

definition outputs :: "frame list \<Rightarrow> bytes list" where
  "outputs fs = map f_Payload (filter (\<lambda>f. f_Kind f = KindOutput) fs)"

lemma outputs_append [simp]: "outputs (fs @ gs) = outputs fs @ outputs gs"
  by (simp add: outputs_def)

text \<open>Connection \<open>a\<close> is closed, or it is subscribed and has got or queued exactly the output
  \<open>ps\<close> appended since the history \<open>h\<close>.\<close>

definition in_stream :: "nat \<Rightarrow> bytes list \<Rightarrow> bytes list \<Rightarrow> frame list \<Rightarrow> tab_state \<times> conns \<Rightarrow> bool" where
  "in_stream a h ps got s \<longleftrightarrow> a < length (snd s) \<and>
     (sb_closed (snd s ! a) \<or>
      a \<in> snd ` set (ts_subscribers (fst s)) \<and> \<not> ts_closed (fst s)
      \<and> (\<exists>k. ring_hist k (ts_ring (fst s)) (h @ ps)) \<and> outputs (got @ sb_frames (snd s ! a)) = ps)"

lemma in_stream_closed:
  "a < length c \<Longrightarrow> sb_closed (c ! a) \<Longrightarrow> in_stream a h ps got (t, c)"
  by (simp add: in_stream_def)

lemma ring_Append_frame:
  "ring_Append r p = Inr (f, r') \<Longrightarrow> f_Kind f = KindOutput \<and> f_Payload f = p \<and> length p \<le> MaxPayload"
  by (auto simp: ring_Append_def Let_def case_prod_beta split: if_splits)

lemma offered_stream:
  assumes "a \<in> set as" "a < length c" "\<not> sb_closed (map_at (offered f) as c ! a)"
  shows "sb_frames (map_at (offered f) as c ! a) = sb_frames (c ! a) @ [f]" "\<not> sb_closed (c ! a)"
  using assms by (auto simp: offered_def split: if_splits)

lemma in_stream_append:
  assumes w: "world_ok (t, c)" and i: "in_stream a h ps got (t, c)" and o: "\<not> sb_closed (c ! a)"
    and len: "length h + length ps + 2 < 2 ^ 64" and s: "appendOutput t p c = Some (t', c')"
  shows "in_stream a h (ps @ appended (TAppend p)) got (t', c')"
proof -
  from i o obtain k where st: "a < length c" "a \<in> snd ` set (ts_subscribers t)" "\<not> ts_closed t"
    "ring_hist k (ts_ring t) (h @ ps)" "outputs (got @ sb_frames (c ! a)) = ps"
    by (auto simp: in_stream_def)
  show ?thesis
  proof (cases "ring_Append (ts_ring t) p")
    case (Inl e)
    then have "\<not> length p \<le> MaxPayload" by (auto simp: ring_Append_def Let_def case_prod_beta split: if_splits)
    with Inl s st i show ?thesis by (simp add: appendOutput_def)
  next
    case (Inr fr)
    obtain f r where fr: "fr = (f, r)" by force
    let ?as = "map snd (ts_subscribers t)"
    have e: "t' = t\<lparr>ts_ring := r\<rparr>" "c' = map_at (offered f) ?as c"
      using s Inr fr st(3) broadcast_world(1) [of "t\<lparr>ts_ring := r\<rparr>" c f] w
      by (simp_all add: appendOutput_def Let_def)
    have f: "f_Kind f = KindOutput" "f_Payload f = p" "length p \<le> MaxPayload"
      using ring_Append_frame [of "ts_ring t" p f r] Inr fr by simp_all
    have hist: "\<exists>k. ring_hist k r ((h @ ps) @ [p])"
      using ring_log.app_hist [of "ts_ring t" "h @ ps" p f r] st(4) Inr fr len by auto
    show ?thesis
    proof (cases "sb_closed (c' ! a)")
      case True
      then show ?thesis using st(1) e by (intro in_stream_closed) simp_all
    next
      case False
      with offered_stream(1) [of a ?as c f] st e have "sb_frames (c' ! a) = sb_frames (c ! a) @ [f]" by simp
      with st e f hist show ?thesis by (simp add: in_stream_def outputs_def)
    qed
  qed
qed

lemma in_stream_keep:
  assumes "in_stream a h ps got (t, c)" "a < length c'" "sb_closed (c ! a) \<Longrightarrow> sb_closed (c' ! a)"
    and "\<not> sb_closed (c' ! a) \<Longrightarrow> a \<in> snd ` set (ts_subscribers t) \<Longrightarrow> \<not> ts_closed t \<Longrightarrow>
      a \<in> snd ` set (ts_subscribers t') \<and> \<not> ts_closed t' \<and> ts_ring t' = ts_ring t
      \<and> outputs (got' @ sb_frames (c' ! a)) = outputs (got @ sb_frames (c ! a))"
  shows "in_stream a h ps got' (t', c')"
proof (cases "sb_closed (c' ! a)")
  case True
  with assms(2) show ?thesis by (intro in_stream_closed)
next
  case False
  with assms(1,3) have st: "a \<in> snd ` set (ts_subscribers t)" "\<not> ts_closed t"
    "\<exists>k. ring_hist k (ts_ring t) (h @ ps)" "outputs (got @ sb_frames (c ! a)) = ps"
    by (auto simp: in_stream_def)
  from assms(4) [OF False st(1,2)] st assms(2) show ?thesis
    unfolding in_stream_def fst_conv snd_conv by metis
qed

lemma receive_outputs:
  assumes "a < length c" "tab_step (TReceive x) (t, c) = Some (t', c')"
  shows "outputs (received a (TReceive x) (t, c) @ sb_frames (c' ! a)) = outputs (sb_frames (c ! a))"
proof (cases "x = a")
  case True
  have c': "c' = snd (receive a c)" using assms True by simp
  show ?thesis
    by (cases "sb_frames (c ! a)") (simp_all add: True c' assms(1) receive_def outputs_def)
next
  case False
  have "sb_frames (snd (receive x c) ! a) = sb_frames (c ! a)" if "x < length c"
    using False by (simp add: receive_def split: list.split)
  with assms False show ?thesis by (auto simp: outputs_def split: if_splits)
qed

lemma gate_step_frames:
  assumes "tab_step e (t, c) = Some (t', c')" "a < length c"
    and "\<exists>x. e \<in> {TBeginMutation x, TEndMutation x, TBeginDelivery x, TEndDelivery x}"
  shows "t' = t \<and> sb_frames (c' ! a) = sb_frames (c ! a)"
  using assms
  by (auto simp: begin_mutation_def end_mutation_def begin_delivery_def end_delivery_def nth_list_update
      split: if_splits prod.splits)

lemma in_stream_step:
  assumes w: "world_ok (t, c)" and b: "unat (ts_nextSubscriber t) + 1 < 2 ^ 64"
    and i: "in_stream a h ps got (t, c)" and len: "length h + length ps + 2 < 2 ^ 64"
    and s: "tab_step e (t, c) = Some (t', c')"
    and nb: "\<And>f. e = TBroadcast f \<Longrightarrow> f_Kind f \<noteq> KindOutput"
  shows "in_stream a h (ps @ appended e) (got @ received a e (t, c)) (t', c')"
proof -
  from i have a: "a < length c" by (simp add: in_stream_def)
  from step_world [OF w b, of e] s a have mono: "a < length c'" "sb_closed (c ! a) \<Longrightarrow> sb_closed (c' ! a)"
    by auto
  show ?thesis
  proof (cases "sb_closed (c ! a)")
    case True
    with mono show ?thesis by (intro in_stream_closed)
  next
    case o: False
    note keep = in_stream_keep [OF i mono]
    show ?thesis
    proof (cases e)
      case (TAppend p)
      with in_stream_append [OF w i o len] s show ?thesis by simp
    next
      case (TBroadcast f)
      with nb have "f_Kind f \<noteq> KindOutput" by simp
      moreover have "t' = t" "\<not> ts_closed t \<Longrightarrow> c' = map_at (offered f) (map snd (ts_subscribers t)) c"
        using s TBroadcast broadcast_world(1) [OF w, of f] by (auto simp: tab_broadcast_def split: if_splits)
      ultimately show ?thesis using TBroadcast a offered_stream(1) [of a "map snd (ts_subscribers t)" c f]
        by (simp, intro keep) (auto simp: outputs_def)
    next
      case (TSubscribe x d)
      show ?thesis
      proof (cases "tab_subscribe t x d c")
        case (Inl err)
        with TSubscribe s i show ?thesis by simp
      next
        case (Inr y)
        obtain sid a' rp t1 c1 where y: "y = (sid, a', rp, t1, c1)" by (metis prod_cases5)
        from subscribe_world [OF w Inr [unfolded y] b] TSubscribe s a Inr y show ?thesis
          by (simp, intro keep) (auto simp: nth_append)
      qed
    next
      case (TUnsubscribe sid)
      then obtain u where u: "tab_unsubscribe t sid c = Some (u, t', c')" using s by auto
      with unsubscribe_world [OF w, of sid] have uns: "ts_ring t' = ts_ring t" "ts_closed t' = ts_closed t"
        "\<forall>x < length c. sb_frames (c' ! x) = sb_frames (c ! x)"
        "\<forall>x \<in> snd ` set (ts_subscribers t). sb_closed (c' ! x) \<or> x \<in> snd ` set (ts_subscribers t')"
        by auto
      have "in_stream a h ps got (t', c')"
      proof (rule keep)
        assume "\<not> sb_closed (c' ! a)" "a \<in> snd ` set (ts_subscribers t)" "\<not> ts_closed t"
        with uns(4) have "a \<in> snd ` set (ts_subscribers t')" by blast
        with uns(1-3) a \<open>\<not> ts_closed t\<close> show "a \<in> snd ` set (ts_subscribers t') \<and> \<not> ts_closed t' \<and> ts_ring t' = ts_ring t
            \<and> outputs (got @ sb_frames (c' ! a)) = outputs (got @ sb_frames (c ! a))" by simp
      qed
      with TUnsubscribe show ?thesis by simp
    next
      case (TRevokeDevice d)
      then show ?thesis using s w a revoke_subscribers_ok [of c "map snd (ts_subscribers t)" d]
        by (simp, intro keep) (auto simp: tab_revokeDevice_def world_ok_def tab_ok_def split: if_splits)
    next
      case (TBeginClose r)
      show ?thesis
      proof (cases "ts_closed t")
        case True
        with TBeginClose s i show ?thesis by (simp add: tab_beginClose_def)
      next
        case False
        from w have "tab_ok t c" "list_all sub_ok c" by (simp_all add: world_ok_def)
        from beginClose_ok [OF this False, of r] TBeginClose s a mono(1) show ?thesis
          by (simp, intro keep) auto
      qed
    next
      case (TReceive x)
      have "t' = t" using TReceive s by (simp split: if_splits)
      moreover have "outputs (received a e (t, c) @ sb_frames (c' ! a)) = outputs (sb_frames (c ! a))"
        using s unfolding TReceive by (rule receive_outputs [OF a])
      ultimately have "in_stream a h ps (got @ received a e (t, c)) (t', c')"
        by (intro keep) simp_all
      with TReceive show ?thesis by simp
    next
      case (TBeginMutation x)
      with gate_step_frames [OF s a] have "t' = t" "sb_frames (c' ! a) = sb_frames (c ! a)" by auto
      then have "in_stream a h ps got (t', c')" by (intro keep) simp_all
      with TBeginMutation show ?thesis by simp
    next
      case (TEndMutation x)
      with gate_step_frames [OF s a] have "t' = t" "sb_frames (c' ! a) = sb_frames (c ! a)" by auto
      then have "in_stream a h ps got (t', c')" by (intro keep) simp_all
      with TEndMutation show ?thesis by simp
    next
      case (TBeginDelivery x)
      with gate_step_frames [OF s a] have "t' = t" "sb_frames (c' ! a) = sb_frames (c ! a)" by auto
      then have "in_stream a h ps got (t', c')" by (intro keep) simp_all
      with TBeginDelivery show ?thesis by simp
    next
      case (TEndDelivery x)
      with gate_step_frames [OF s a] have "t' = t" "sb_frames (c' ! a) = sb_frames (c ! a)" by auto
      then have "in_stream a h ps got (t', c')" by (intro keep) simp_all
      with TEndDelivery show ?thesis by simp
    qed
  qed
qed

lemma in_stream_run:
  assumes "world_ok (t, c)" "unat (ts_nextSubscriber t) + length es < 2 ^ 64" "in_stream a h ps got (t, c)"
    and "length h + length ps + length es + 1 < 2 ^ 64" "tab_run a es (t, c) = Some (fs, t', c')"
    and "\<And>f. TBroadcast f \<in> set es \<Longrightarrow> f_Kind f \<noteq> KindOutput"
  shows "in_stream a h (ps @ concat (map appended es)) (got @ fs) (t', c')"
  using assms
proof (induction es arbitrary: t c ps got fs)
  case Nil
  then show ?case by simp
next
  case (Cons e es)
  have b: "unat (ts_nextSubscriber t) + 1 < 2 ^ 64" using Cons.prems(2) by simp
  obtain t1 c1 where s: "tab_step e (t, c) = Some (t1, c1)" "world_ok (t1, c1)"
    "unat (ts_nextSubscriber t1) \<le> unat (ts_nextSubscriber t) + 1"
    using step_world [OF Cons.prems(1) b, of e] by blast
  obtain fs' where r: "tab_run a es (t1, c1) = Some (fs', t', c')" "fs = received a e (t, c) @ fs'"
    using Cons.prems(5) s(1) by auto
  have len: "length (appended e) \<le> 1" by (cases e) auto
  have i: "in_stream a h (ps @ appended e) (got @ received a e (t, c)) (t1, c1)"
    using Cons.prems(3,4,6) by (intro in_stream_step [OF Cons.prems(1) b _ _ s(1)]) auto
  have "in_stream a h ((ps @ appended e) @ concat (map appended es)) ((got @ received a e (t, c)) @ fs') (t', c')"
    by (rule Cons.IH [OF s(2) _ i _ r(1)]) (use Cons.prems(2,4,6) s(3) len in auto)
  with r(2) show ?case by simp
qed

subsection \<open>Properties of a tab\<close>

definition new_tab :: "string \<Rightarrow> string \<Rightarrow> tab_id \<Rightarrow> ring \<Rightarrow> lease_manager \<Rightarrow> tab_state" where
  "new_tab owner ws tab r l = \<lparr>ts_inputReceipts = [], ts_inputReceiptCounts = [], ts_confirmedInputKeys = [],
     ts_confirmedInputOrder = [], ts_ownerID = owner, ts_workspaceID = ws, ts_id = tab, ts_ring = r,
     ts_lease = l, ts_filter = \<lparr>of_pending = []\<rparr>, ts_redactorClosed = False, ts_subscribers = [],
     ts_nextSubscriber = 0, ts_closed = False, ts_closeDrains = [], ts_runtimeClose = None\<rparr>"

lemma new_tab_world: "world_ok (new_tab owner ws tab r l, [])"
  by (simp add: world_ok_def tab_ok_def new_tab_def)


definition example_tab :: tab_state where
  "example_tab = new_tab ''o'' ''w'' (replicate 16 1)
     \<lparr>rg_tabID = replicate 16 1, rg_frames = [], rg_bytes = 0, rg_maxFrames = 4096,
      rg_maxBytes = 4194304, rg_next = 1\<rparr> \<lparr>lm_ttl = 45 * second, lm_lease = zero_lease\<rparr>"


text \<open>C29:
  A client that subscribes after sequence \<open>s\<close> sees every byte of output once and in order: the
  replayed frames, then the output frames its writer received, then those still queued, continue
  the history the client already has (or, when the ring announces a gap, the history from the
  announced sequence), whatever else happens on the tab, as long as the connection is not closed.
\<close>

theorem subscriber_stream_complete:
  assumes "world_ok (t, c)" "\<exists>k. ring_hist k (ts_ring t) h"
    and "tab_subscribe t s d c = Inr (sid, a, rp, t1, c1)"
    and "tab_run a es (t1, c1) = Some (fs, t2, c2)" "\<not> sb_closed (c2 ! a)"
    and "\<And>f. TBroadcast f \<in> set es \<Longrightarrow> f_Kind f \<noteq> KindOutput"
    and "unat (ts_nextSubscriber t) + length es + 1 < 2 ^ 64" "length h + length es + 1 < 2 ^ 64"
  shows "let live = outputs (fs @ sb_frames (c2 ! a)); written = concat (map appended es) in
    if Gap rp
    then \<exists>k \<le> length h. map f_Payload (Frames rp) @ live = drop k (h @ written)
           \<and> EarliestSequence rp = of_nat (k + 1)
    else take (unat s) h @ map f_Payload (Frames rp) @ live = h @ written"
proof -
  have b: "unat (ts_nextSubscriber t) + 1 < 2 ^ 64" using assms(7) by simp
  note sub = subscribe_world [OF assms(1,3) b]
  have nxt: "unat (ts_nextSubscriber t1) = unat (ts_nextSubscriber t) + 1"
    using assms(3) b by (auto simp: tab_subscribe_def Let_def unat_word_ariths split: if_splits)
  have "in_stream a h [] [] (t1, c1)"
    using sub assms(2) by (simp add: in_stream_def new_subscriber_def outputs_def nth_append)
  from in_stream_run [OF sub(1) _ this _ assms(4) assms(6)] assms(7,8) nxt
  have "in_stream a h (concat (map appended es)) fs (t2, c2)" by simp
  with assms(5) have live: "outputs (fs @ sb_frames (c2 ! a)) = concat (map appended es)"
    by (simp add: in_stream_def)
  show ?thesis
  proof (cases "Gap rp")
    case True
    from ring_log.aft_gap [OF assms(2)] True sub(6) obtain k where "k \<le> length h"
      "map f_Payload (Frames rp) = drop k h" "EarliestSequence rp = of_nat (k + 1)" by blast
    with True live show ?thesis by (auto simp: Let_def)
  next
    case False
    from ring_log.aft_ok [OF assms(2)] False sub(6) have "map f_Payload (Frames rp) = drop (unat s) h" by blast
    with False live show ?thesis by (simp add: Let_def)
  qed
qed

lemma example_tab_stream:
  "world_ok (example_tab, [])" "\<exists>k. ring_hist k (ts_ring example_tab) []"
proof -
  show "world_ok (example_tab, [])" by (simp add: example_tab_def new_tab_world)
  show "\<exists>k. ring_hist k (ts_ring example_tab) []"
    by (auto simp: example_tab_def ring_hist_def new_tab_def payload_bytes_def intro!: exI [of _ 0])
qed

theorem subscriber_stream_complete_witness:
  "\<exists>sid a rp t1 c1 fs t2 c2. tab_subscribe example_tab 0 ''d'' [] = Inr (sid, a, rp, t1, c1)
     \<and> tab_run a [TAppend [65], TReceive 0, TAppend [66]] (t1, c1) = Some (fs, t2, c2)
     \<and> outputs (fs @ sb_frames (c2 ! a)) = [[65], [66]]"
proof -
  obtain sid a rp t1 c1 where s: "tab_subscribe example_tab 0 ''d'' [] = Inr (sid, a, rp, t1, c1)" "\<not> Gap rp" "Frames rp = []"
    by (simp add: tab_subscribe_def example_tab_def new_tab_def maxSubscribersPerTab_def ring_After_def Let_def)
  let ?es = "[TAppend [65], TReceive 0, TAppend [66]]"
  have "\<exists>fs t2 c2. tab_run a ?es (t1, c1) = Some (fs, t2, c2) \<and> \<not> sb_closed (c2 ! a)"
    using s by (auto simp: tab_subscribe_def example_tab_def new_tab_def maxSubscribersPerTab_def Let_def
        appendOutput_def ring_Append_def MaxPayload_def broadcastLocked_def at_conn_def offer_def
        new_subscriber_def terminalSubscriberQueueFrames_def receive_def)
  then obtain fs t2 c2 where r: "tab_run a ?es (t1, c1) = Some (fs, t2, c2)" "\<not> sb_closed (c2 ! a)" by blast
  have "unat (ts_nextSubscriber example_tab) = 0" by (simp add: example_tab_def new_tab_def)
  from subscriber_stream_complete [OF example_tab_stream s(1) r] s(2,3) this
  have "outputs (fs @ sb_frames (c2 ! a)) = [[65], [66]]" by (simp add: MaxPayload_def Let_def)
  with s(1) r(1) show ?thesis by blast
qed

end
