(* ===== verification/Go_Base64.thy ===== *)
theory Go_Base64
  imports Go_Text
begin

text \<open>
  What the control plane uses of \<^verbatim>\<open>encoding/base64\<close> and \<^verbatim>\<open>encoding/hex\<close>: the unpadded URL
  alphabet, \<^verbatim>\<open>RawURLEncoding.EncodeToString\<close>, whether \<^verbatim>\<open>DecodeString\<close> returns an error, and
  lower-case hexadecimal in both directions. Go's decoder skips carriage returns and line feeds and,
  not being strict, does not check trailing bits; a single left-over character is an error.
\<close>

definition url_digit :: "nat \<Rightarrow> char" where
  "url_digit n =
     (if n < 26 then char_of (65 + n) else if n < 52 then char_of (71 + n)
      else if n < 62 then char_of (n - 4) else if n = 62 then CHR ''-'' else CHR ''_'')"

definition url_alphabet :: "char \<Rightarrow> bool" where
  "url_alphabet c \<longleftrightarrow> (let n = (of_char c :: nat) in
     65 \<le> n \<and> n \<le> 90 \<or> 97 \<le> n \<and> n \<le> 122 \<or> 48 \<le> n \<and> n \<le> 57 \<or> n = 45 \<or> n = 95)"

fun url_encode :: "nat list \<Rightarrow> string" where
  "url_encode [] = []"
| "url_encode [a] = [url_digit (a div 4), url_digit (a mod 4 * 16)]"
| "url_encode [a, b] =
     [url_digit (a div 4), url_digit (a mod 4 * 16 + b div 16), url_digit (b mod 16 * 4)]"
| "url_encode (a # b # c # bs) =
     url_digit (a div 4) # url_digit (a mod 4 * 16 + b div 16) # url_digit (b mod 16 * 4 + c div 64)
       # url_digit (c mod 64) # url_encode bs"

definition RawURLEncode :: "bytes \<Rightarrow> string" where
  "RawURLEncode bs = url_encode (map unat bs)"

definition RawURLDecodes :: "string \<Rightarrow> bool" where
  "RawURLDecodes s \<longleftrightarrow>
     (let cs = filter (\<lambda>c. c \<noteq> CHR 0x0D \<and> c \<noteq> CHR 0x0A) s
      in list_all url_alphabet cs \<and> length cs mod 4 \<noteq> 1)"

lemma url_digit_alphabet: "n < 64 \<Longrightarrow> url_alphabet (url_digit n)"
  by (auto simp: url_digit_def url_alphabet_def Let_def)

lemma url_encode_alphabet: "\<forall>b \<in> set bs. b < 256 \<Longrightarrow> list_all url_alphabet (url_encode bs)"
proof (induction bs rule: url_encode.induct)
  case (2 a)
  then have "a div 4 < 64" "a mod 4 * 16 < 64" by (simp_all add: less_mult_imp_div_less)
  then show ?case by (simp add: url_digit_alphabet)
next
  case (3 a b)
  then have "a div 4 < 64" "a mod 4 < 4" "b div 16 < 16" "b mod 16 < 16"
    by (simp_all add: less_mult_imp_div_less)
  then have "a div 4 < 64" "a mod 4 * 16 + b div 16 < 64" "b mod 16 * 4 < 64" by linarith+
  then show ?case by (simp add: url_digit_alphabet)
next
  case (4 a b c bs)
  then have "a div 4 < 64" "a mod 4 < 4" "b div 16 < 16" "b mod 16 < 16" "c div 64 < 4" "c mod 64 < 64"
    by (simp_all add: less_mult_imp_div_less)
  then have "a div 4 < 64" "a mod 4 * 16 + b div 16 < 64" "b mod 16 * 4 + c div 64 < 64" "c mod 64 < 64"
    by linarith+
  with 4 show ?case by (simp add: url_digit_alphabet)
qed simp

lemma length_url_encode: "length (url_encode bs) = (4 * length bs + 2) div 3"
  by (induction bs rule: url_encode.induct) auto

lemma length_RawURLEncode [simp]: "length (RawURLEncode bs) = (4 * length bs + 2) div 3"
  by (simp add: RawURLEncode_def length_url_encode)

lemma byte_unat_less: "unat (b :: byte) < 256"
  using unsigned_less [of b] by simp

lemma RawURLEncode_alphabet: "list_all url_alphabet (RawURLEncode bs)"
  unfolding RawURLEncode_def by (rule url_encode_alphabet) (auto simp: byte_unat_less)

lemma alphabet_not_special:
  "url_alphabet c \<Longrightarrow> c \<noteq> CHR 0x0D \<and> c \<noteq> CHR 0x0A \<and> c \<noteq> CHR ''.''"
  by (auto simp: url_alphabet_def)

lemma RawURLDecodes_encode [simp]: "RawURLDecodes (RawURLEncode bs)"
proof -
  have "filter (\<lambda>c. c \<noteq> CHR 0x0D \<and> c \<noteq> CHR 0x0A) (RawURLEncode bs) = RawURLEncode bs"
    using RawURLEncode_alphabet [of bs] alphabet_not_special by (auto simp: list_all_iff filter_id_conv)
  moreover have "(4 * n + 2) div 3 mod 4 \<noteq> 1" for n :: nat by presburger
  ultimately show ?thesis by (simp add: RawURLDecodes_def Let_def RawURLEncode_alphabet)
qed

lemma dot_notin_encode [simp]: "CHR ''.'' \<notin> set (RawURLEncode bs)"
  using RawURLEncode_alphabet [of bs] alphabet_not_special by (auto simp: list_all_iff)

subsection \<open>Hexadecimal\<close>

definition hex_digit :: "nat \<Rightarrow> char" where
  "hex_digit n = (if n < 10 then char_of (48 + n) else char_of (87 + n))"

definition hex_value :: "char \<Rightarrow> nat option" where
  "hex_value c = (let n = (of_char c :: nat) in
     if 48 \<le> n \<and> n \<le> 57 then Some (n - 48)
     else if 97 \<le> n \<and> n \<le> 102 then Some (n - 87)
     else if 65 \<le> n \<and> n \<le> 70 then Some (n - 55) else None)"

fun hex_EncodeToString :: "bytes \<Rightarrow> string" where
  "hex_EncodeToString [] = []"
| "hex_EncodeToString (b # bs) =
     hex_digit (unat b div 16) # hex_digit (unat b mod 16) # hex_EncodeToString bs"

fun hex_DecodeString :: "string \<Rightarrow> bytes option" where
  "hex_DecodeString [] = Some []"
| "hex_DecodeString [c] = None"
| "hex_DecodeString (c # d # cs) =
     (case (hex_value c, hex_value d, hex_DecodeString cs) of
        (Some a, Some b, Some bs) \<Rightarrow> Some (of_nat (16 * a + b) # bs)
      | _ \<Rightarrow> None)"

lemma hex_value_digit: "n < 16 \<Longrightarrow> hex_value (hex_digit n) = Some n"
  by (auto simp: hex_value_def hex_digit_def Let_def)

lemma hex_decode_encode [simp]: "hex_DecodeString (hex_EncodeToString bs) = Some bs"
proof (induction bs)
  case (Cons b bs)
  have "unat b div 16 < 16" using byte_unat_less [of b] by auto
  with Cons show ?case by (simp add: hex_value_digit)
qed simp

lemma length_hex [simp]: "length (hex_EncodeToString bs) = 2 * length bs"
  by (induction bs) auto

lemma hex_no_dash: "CHR ''-'' \<notin> set (hex_EncodeToString bs)"
proof -
  have "hex_digit n \<noteq> CHR ''-''" if "n < 16" for n
    using hex_value_digit [OF that] by (auto simp: hex_value_def)
  moreover have "unat (b :: byte) div 16 < 16" for b using byte_unat_less [of b] by auto
  ultimately have "hex_digit (unat b div 16) \<noteq> CHR ''-''" "hex_digit (unat b mod 16) \<noteq> CHR ''-''" for b :: byte
    by simp_all
  then show ?thesis by (induction bs) (simp_all add: eq_commute [of "CHR ''-''"])
qed

end
