(* ===== verification/Terminal_Manager.thy ===== *)
theory Terminal_Manager
  imports Terminal_Tab Go_Base64
begin

text \<open>
  \<^verbatim>\<open>Manager\<close> of \<^verbatim>\<open>terminal/gateway.go\<close> and \<^verbatim>\<open>terminal/capacity.go\<close>: registered tabs,
  one-use tickets, reconnect tokens and the accounting of admitted connections. Tabs are shared by
  pointer, so they live in a heap \<open>w_heap\<close> whose indices are the pointers. Each definition is
  one section under the manager's mutex; an operation that unlocks to wait for drains has a first
  and a second section. \<open>hash\<close> stands for the keyed \<^verbatim>\<open>Manager.hash\<close> (HMAC-SHA-256), the
  bytes read from \<^verbatim>\<open>crypto/rand\<close> and the clock are arguments, and a Go panic is \<open>None\<close>.
\<close>

record ticket_record =
  tk_ownerID :: string
  tk_deviceID :: string
  tk_workspaceID :: string
  tk_tabID :: tab_id
  tk_afterSequence :: "64 word"
  tk_expiresAt :: time

record reconnect_record =
  rc_ownerID :: string
  rc_deviceID :: string
  rc_workspaceID :: string
  rc_tabID :: tab_id
  rc_expiresAt :: time

record activity_event =
  ae_OwnerID :: string
  ae_WorkspaceID :: string
  ae_Kind :: string
  ae_At :: time

record audit_event =
  au_Kind :: string
  au_OwnerID :: string
  au_WorkspaceID :: string
  au_TabID :: string
  au_DeviceID :: string
  au_DisplacedDeviceID :: string

record manager =
  m_tabs :: "(tab_id, nat) gomap"
  m_tickets :: "(digest, ticket_record) gomap"
  m_reconnects :: "(digest, reconnect_record) gomap"
  m_ticketTTL :: time
  m_reconnectTTL :: time
  m_audit :: bool
  m_events :: bool
  m_activity :: bool
  m_subscribers :: int
  m_subscribersByOwner :: "(string, int) gomap"
  m_subscribersByDevice :: "(string \<times> string, int) gomap"
  m_subscribersByTab :: "(tab_id, int) gomap"
  m_closed :: bool
  m_closeErr :: "goerr option"

text \<open>The manager, the objects it shares, and the events its observers were given.\<close>

record term_world =
  w_mgr :: manager
  w_heap :: "tab_state list"
  w_conns :: conns
  w_activity :: "activity_event list"
  w_audit :: "audit_event list"

record connection =
  cn_Ticket :: string
  cn_ReconnectToken :: string
  cn_LeaseHolderDeviceID :: string
  cn_ProtocolVersion :: byte
  cn_MaximumFrameBytes :: nat

record admitted =
  ad_record :: ticket_record
  ad_tab :: nat
  ad_subscriberID :: "64 word"
  ad_conn :: nat
  ad_replay :: replay

definition defaultTicketTTL :: time where "defaultTicketTTL = 45 * second"
definition defaultReconnectTTL :: time where "defaultReconnectTTL = 30 * 24 * hour"
definition maxRegisteredTabsGlobal :: nat where "maxRegisteredTabsGlobal = 64"
definition maxRegisteredTabsPerOwner :: nat where "maxRegisteredTabsPerOwner = 48"
definition maxRegisteredTabsPerWorkspace :: nat where "maxRegisteredTabsPerWorkspace = 16"
definition terminalReplayMaxFrames :: int where "terminalReplayMaxFrames = 4096"
definition terminalReplayMaxBytes :: int where "terminalReplayMaxBytes = 4194304"
definition maxUnusedTicketsGlobal :: nat where "maxUnusedTicketsGlobal = 4096"
definition maxUnusedTicketsPerOwner :: nat where "maxUnusedTicketsPerOwner = 1024"
definition maxUnusedTicketsPerDevice :: nat where "maxUnusedTicketsPerDevice = 64"
definition maxUnusedTicketsPerTab :: nat where "maxUnusedTicketsPerTab = 64"
definition maxReconnectsGlobal :: nat where "maxReconnectsGlobal = 8192"
definition maxReconnectsPerOwner :: nat where "maxReconnectsPerOwner = 2048"
definition maxReconnectsPerDevice :: nat where "maxReconnectsPerDevice = 128"
definition maxReconnectsPerTab :: nat where "maxReconnectsPerTab = 128"
definition maxSubscribersGlobal :: int where "maxSubscribersGlobal = 128"
definition maxSubscribersPerOwner :: int where "maxSubscribersPerOwner = 64"
definition maxSubscribersPerDevice :: int where "maxSubscribersPerDevice = 8"

definition terminal_capacity :: goerr where
  "terminal_capacity = GoErr ErrTerminalCapacity ''terminal connection capacity reached''"

definition NewManager :: "bytes \<Rightarrow> bool \<Rightarrow> term_world result" where
  "NewManager pepper audit =
     (if length pepper < 32 then Inl (errorsNew ''terminal ticket pepper must be at least 32 bytes'')
      else Inr \<lparr>w_mgr = \<lparr>m_tabs = [], m_tickets = [], m_reconnects = [], m_ticketTTL = defaultTicketTTL,
          m_reconnectTTL = defaultReconnectTTL, m_audit = audit, m_events = False, m_activity = False,
          m_subscribers = 0, m_subscribersByOwner = [], m_subscribersByDevice = [], m_subscribersByTab = [],
          m_closed = False, m_closeErr = None\<rparr>,
        w_heap = [], w_conns = [], w_activity = [], w_audit = []\<rparr>)"

text \<open>The observers are callbacks: whether one was given is the argument, whether one is
  installed the field.\<close>

definition ConfigureActivityObserver :: "bool \<Rightarrow> manager \<Rightarrow> goerr option \<times> manager" where
  "ConfigureActivityObserver observer m =
     (if \<not> observer then (Some (errorsNew ''terminal activity observer is required''), m)
      else if length (m_tabs m) \<noteq> 0 \<or> m_activity m
      then (Some (errorsNew ''terminal activity must be configured once before terminal registration''), m)
      else (None, m\<lparr>m_activity := True\<rparr>))"

definition ConfigureCodexEvents :: "bool \<Rightarrow> bool \<Rightarrow> bool \<Rightarrow> manager \<Rightarrow> goerr option \<times> manager" where
  "ConfigureCodexEvents factory handler provider m =
     (if \<not> factory \<or> \<not> handler then (Some (errorsNew ''Codex event provider and handler are required''), m)
      else if \<not> provider then (Some (errorsNew ''Codex event provider factory returned nil''), m)
      else if length (m_tabs m) \<noteq> 0 \<or> m_events m
      then (Some (errorsNew ''Codex events must be configured once before terminal registration''), m)
      else (None, m\<lparr>m_events := True\<rparr>))"

definition observeActivity :: "nat \<Rightarrow> string \<Rightarrow> time \<Rightarrow> term_world \<Rightarrow> term_world" where
  "observeActivity p kind at w =
     (if m_activity (w_mgr w)
      then w\<lparr>w_activity := w_activity w @
             [\<lparr>ae_OwnerID = ts_ownerID (w_heap w ! p), ae_WorkspaceID = ts_workspaceID (w_heap w ! p),
               ae_Kind = kind, ae_At = at\<rparr>]\<rparr>
      else w)"

subsection \<open>Capacity\<close>

definition requireTabCapacityLocked :: "term_world \<Rightarrow> string \<Rightarrow> string \<Rightarrow> goerr option" where
  "requireTabCapacityLocked w ownerID workspaceID =
     (let tabs = m_tabs (w_mgr w);
          ownerTabs = count_where (\<lambda>_ p. ts_ownerID (w_heap w ! p) = ownerID) tabs;
          workspaceTabs = count_where (\<lambda>_ p. ts_ownerID (w_heap w ! p) = ownerID
                            \<and> ts_workspaceID (w_heap w ! p) = workspaceID) tabs
      in if length tabs \<ge> maxRegisteredTabsGlobal \<or> ownerTabs \<ge> maxRegisteredTabsPerOwner
            \<or> workspaceTabs \<ge> maxRegisteredTabsPerWorkspace
         then Some terminal_capacity else None)"

definition requireCredentialCapacityLocked ::
  "manager \<Rightarrow> string \<Rightarrow> string \<Rightarrow> tab_id \<Rightarrow> digest option \<Rightarrow> goerr option" where
  "requireCredentialCapacityLocked m ownerID deviceID tabID consumedReconnect =
     (if length (m_tickets m) \<ge> maxUnusedTicketsGlobal
         \<or> count_where (\<lambda>_ r. tk_ownerID r = ownerID) (m_tickets m) \<ge> maxUnusedTicketsPerOwner
         \<or> count_where (\<lambda>_ r. tk_ownerID r = ownerID \<and> tk_deviceID r = deviceID) (m_tickets m)
              \<ge> maxUnusedTicketsPerDevice
         \<or> count_where (\<lambda>_ r. tk_tabID r = tabID) (m_tickets m) \<ge> maxUnusedTicketsPerTab
      then Some terminal_capacity
      else
      if count_where (\<lambda>k _. consumedReconnect \<noteq> Some k) (m_reconnects m) \<ge> maxReconnectsGlobal
         \<or> count_where (\<lambda>k r. consumedReconnect \<noteq> Some k \<and> rc_ownerID r = ownerID) (m_reconnects m)
              \<ge> maxReconnectsPerOwner
         \<or> count_where (\<lambda>k r. consumedReconnect \<noteq> Some k \<and> rc_ownerID r = ownerID \<and> rc_deviceID r = deviceID)
              (m_reconnects m) \<ge> maxReconnectsPerDevice
         \<or> count_where (\<lambda>k r. consumedReconnect \<noteq> Some k \<and> rc_tabID r = tabID) (m_reconnects m)
              \<ge> maxReconnectsPerTab
      then Some terminal_capacity else None)"

definition increment :: "('k, int) gomap \<Rightarrow> 'k \<Rightarrow> ('k, int) gomap" where
  "increment values k = AList.update k (get_count values k + 1) values"

definition reserveSubscriberLocked :: "manager \<Rightarrow> ticket_record \<Rightarrow> manager result" where
  "reserveSubscriberLocked m r =
     (let device = (tk_ownerID r, tk_deviceID r) in
      if m_subscribers m \<ge> maxSubscribersGlobal
         \<or> get_count (m_subscribersByOwner m) (tk_ownerID r) \<ge> maxSubscribersPerOwner
         \<or> get_count (m_subscribersByDevice m) device \<ge> maxSubscribersPerDevice
         \<or> get_count (m_subscribersByTab m) (tk_tabID r) \<ge> int maxSubscribersPerTab
      then Inl terminal_capacity
      else Inr (m\<lparr>m_subscribers := m_subscribers m + 1,
                  m_subscribersByOwner := increment (m_subscribersByOwner m) (tk_ownerID r),
                  m_subscribersByDevice := increment (m_subscribersByDevice m) device,
                  m_subscribersByTab := increment (m_subscribersByTab m) (tk_tabID r)\<rparr>))"

definition releaseSubscriberLocked :: "manager \<Rightarrow> ticket_record \<Rightarrow> manager option" where
  "releaseSubscriberLocked m r =
     (let device = (tk_ownerID r, tk_deviceID r) in
      if m_subscribers m = 0 \<or> get_count (m_subscribersByOwner m) (tk_ownerID r) = 0
         \<or> get_count (m_subscribersByDevice m) device = 0
         \<or> get_count (m_subscribersByTab m) (tk_tabID r) = 0
      then None
      else Some (m\<lparr>m_subscribers := m_subscribers m - 1,
                   m_subscribersByOwner := decrementCount (m_subscribersByOwner m) (tk_ownerID r),
                   m_subscribersByDevice := decrementCount (m_subscribersByDevice m) device,
                   m_subscribersByTab := decrementCount (m_subscribersByTab m) (tk_tabID r)\<rparr>))"

definition cleanupLocked :: "time \<Rightarrow> manager \<Rightarrow> manager" where
  "cleanupLocked now m =
     m\<lparr>m_tickets := filter (\<lambda>(k, r). now < tk_expiresAt r) (m_tickets m),
       m_reconnects := filter (\<lambda>(k, r). now < rc_expiresAt r) (m_reconnects m)\<rparr>"

subsection \<open>Tabs\<close>

text \<open>\<open>Register\<close>: \<open>runtime\<close> and \<open>redactor\<close> say whether the interfaces (and the output channel)
  are non-nil, \<open>provider\<close> whether the event factory returned one.\<close>

definition Register ::
  "string \<Rightarrow> string \<Rightarrow> tab_id \<Rightarrow> bool \<Rightarrow> bool \<Rightarrow> bool \<Rightarrow> bool \<Rightarrow> term_world \<Rightarrow> goerr option \<times> term_world" where
  "Register ownerID workspaceID tabID runtime redactor observeCodexEvents provider w =
     (if ownerID = [] \<or> workspaceID = [] \<or> tab_IsZero tabID \<or> \<not> runtime \<or> \<not> redactor
      then (Some (errorsNew ''terminal tab identity, runtime, and output redactor are required''), w)
      else case NewRing tabID terminalReplayMaxFrames terminalReplayMaxBytes of
        Inl e \<Rightarrow> (Some e, w)
      | Inr r \<Rightarrow>
      case NewLeaseManager (45 * second) of
        Inl e \<Rightarrow> (Some e, w)
      | Inr l \<Rightarrow>
      if m_closed (w_mgr w) then (Some (errorsNew ''terminal manager is closed''), w)
      else if observeCodexEvents \<and> m_events (w_mgr w) \<and> \<not> provider
      then (Some (errorsNew ''Codex event provider factory returned nil''), w)
      else if map_of (m_tabs (w_mgr w)) tabID \<noteq> None
      then (Some (errorsNew ''terminal tab already exists''), w)
      else case requireTabCapacityLocked w ownerID workspaceID of
        Some e \<Rightarrow> (Some e, w)
      | None \<Rightarrow>
          (None, w\<lparr>w_heap := w_heap w @ [new_tab ownerID workspaceID tabID r l],
                   w_mgr := (w_mgr w)\<lparr>m_tabs := AList.update tabID (length (w_heap w)) (m_tabs (w_mgr w))\<rparr>\<rparr>))"

text \<open>\<open>boundedReason\<close>: \<^verbatim>\<open>strings.Map\<close> drops control runes and re-encodes the others, so an
  invalid byte becomes the replacement character.\<close>

definition boundedReason :: "bytes \<Rightarrow> bytes" where
  "boundedReason reason =
     (let kept = concat (map encode_rune (filter (\<lambda>r. \<not> (r < 32 \<or> r = 127)) (map fst (runes (map unat reason)))));
          cut = (if length kept > 120 then take 120 kept else kept)
      in if cut = [] then bytes_of ''terminal_closed'' else map of_nat cut)"

definition drop_tab_credentials :: "tab_id \<Rightarrow> manager \<Rightarrow> manager" where
  "drop_tab_credentials tabID m =
     m\<lparr>m_tickets := filter (\<lambda>(k, r). tk_tabID r \<noteq> tabID) (m_tickets m),
       m_reconnects := filter (\<lambda>(k, r). rc_tabID r \<noteq> tabID) (m_reconnects m)\<rparr>"

text \<open>First section of \<open>Unregister\<close>: the pointer of the tab, if it was registered.\<close>

definition Unregister_begin :: "tab_id \<Rightarrow> bytes \<Rightarrow> term_world \<Rightarrow> (nat option \<times> term_world) option" where
  "Unregister_begin tabID reason w =
     (case map_of (m_tabs (w_mgr w)) tabID of
        None \<Rightarrow> Some (None, w\<lparr>w_mgr := drop_tab_credentials tabID (w_mgr w)\<rparr>)
      | Some p \<Rightarrow> do {
          (t, c) \<leftarrow> tab_beginClose (w_heap w ! p) (boundedReason reason) (w_conns w);
          Some (Some p, w\<lparr>w_heap := (w_heap w)[p := t], w_conns := c,
                          w_mgr := drop_tab_credentials tabID (w_mgr w)\<rparr>) })"

text \<open>Second section, reached once \<^const>\<open>close_done\<close> holds: close the runtime (outcome
  \<open>cerr\<close>) and remove the tab if the map still holds this pointer.\<close>

definition Unregister_finish :: "tab_id \<Rightarrow> nat \<Rightarrow> goerr option \<Rightarrow> term_world \<Rightarrow> goerr option \<times> term_world" where
  "Unregister_finish tabID p cerr w =
     (case closeRuntime (w_heap w ! p) cerr of (e, t) \<Rightarrow>
        let w' = w\<lparr>w_heap := (w_heap w)[p := t]\<rparr> in
        (e, if map_of (m_tabs (w_mgr w')) tabID = Some p
            then w'\<lparr>w_mgr := (w_mgr w')\<lparr>m_tabs := AList.delete tabID (m_tabs (w_mgr w'))\<rparr>\<rparr> else w'))"

text \<open>\<open>Close\<close>: mark every tab in one section, then close the runtimes (outcomes \<open>cerrs\<close>, one
  per tab) and forget the tabs. \<^verbatim>\<open>errors.Join\<close> keeps the first sentinel and both messages.\<close>

definition errors_Join :: "goerr option \<Rightarrow> goerr option \<Rightarrow> goerr option" where
  "errors_Join a b =
     (case a of None \<Rightarrow> b
      | Some e \<Rightarrow> (case b of None \<Rightarrow> a
                  | Some f \<Rightarrow> Some (GoErr (err_is e) (err_msg e @ [CHR 0x0A] @ err_msg f))))"

fun close_tabs :: "nat list \<Rightarrow> bytes \<Rightarrow> term_world \<Rightarrow> term_world option" where
  "close_tabs [] reason w = Some w"
| "close_tabs (p # ps) reason w = do {
     (t, c) \<leftarrow> tab_beginClose (w_heap w ! p) reason (w_conns w);
     close_tabs ps reason (w\<lparr>w_heap := (w_heap w)[p := t], w_conns := c\<rparr>) }"

definition Close_begin :: "term_world \<Rightarrow> (nat list \<times> term_world) option" where
  "Close_begin w =
     (if m_closed (w_mgr w) then Some ([], w)
      else do {
        let tabs = map snd (m_tabs (w_mgr w));
        w' \<leftarrow> close_tabs tabs (bytes_of ''manager_shutdown'') w;
        Some (tabs, w'\<lparr>w_mgr := (w_mgr w')\<lparr>m_closed := True, m_tickets := [], m_reconnects := []\<rparr>\<rparr>) })"

fun close_runtimes :: "(nat \<times> goerr option) list \<Rightarrow> goerr option \<Rightarrow> tab_state list \<Rightarrow> goerr option \<times> tab_state list" where
  "close_runtimes [] joined heap = (joined, heap)"
| "close_runtimes ((p, cerr) # ps) joined heap =
     (case closeRuntime (heap ! p) cerr of (e, t) \<Rightarrow>
        close_runtimes ps (errors_Join joined e) (heap[p := t]))"

definition Close_finish :: "(nat \<times> goerr option) list \<Rightarrow> term_world \<Rightarrow> goerr option \<times> term_world" where
  "Close_finish tabs w =
     (case close_runtimes tabs None (w_heap w) of (joined, heap) \<Rightarrow>
        (joined, w\<lparr>w_heap := heap,
           w_mgr := (w_mgr w)\<lparr>m_tabs := filter (\<lambda>(tid, p). \<not> (p \<in> fst ` set tabs \<and> ts_id (heap ! p) = tid))
                                          (m_tabs (w_mgr w)),
                              m_closeErr := joined\<rparr>\<rparr>))"

subsection \<open>Credentials\<close>

definition randomCredential :: "bytes result \<Rightarrow> string \<Rightarrow> string result" where
  "randomCredential source prefix =
     (case source of Inl e \<Rightarrow> Inl e | Inr b \<Rightarrow> Inr (prefix @ RawURLEncode b))"

definition ticket_prefix :: string where "ticket_prefix = ''cm_terminal_ticket_''"
definition reconnect_prefix :: string where "reconnect_prefix = ''cm_terminal_reconnect_''"

definition reconnect_matches :: "reconnect_record \<Rightarrow> string \<Rightarrow> string \<Rightarrow> string \<Rightarrow> tab_id \<Rightarrow> time \<Rightarrow> bool" where
  "reconnect_matches r ownerID deviceID workspaceID tabID now \<longleftrightarrow>
     rc_ownerID r = ownerID \<and> rc_deviceID r = deviceID \<and> rc_workspaceID r = workspaceID
     \<and> rc_tabID r = tabID \<and> now < rc_expiresAt r"

definition Issue ::
  "(string \<Rightarrow> string \<Rightarrow> digest) \<Rightarrow> time \<Rightarrow> bytes result \<Rightarrow> bytes result \<Rightarrow>
   string \<Rightarrow> string \<Rightarrow> string \<Rightarrow> tab_id \<Rightarrow> 64 word \<Rightarrow> string \<Rightarrow> term_world \<Rightarrow> connection result \<times> term_world" where
  "Issue hash now rnd1 rnd2 ownerID deviceID workspaceID tabID afterSequence reconnectToken w =
     (if ownerID = [] \<or> deviceID = [] \<or> workspaceID = [] \<or> tab_IsZero tabID
      then (Inl (errorsNew ''terminal connection identity is required''), w)
      else if m_closed (w_mgr w) then (Inl (errorsNew ''terminal manager is closed''), w)
      else case map_of (m_tabs (w_mgr w)) tabID of
        None \<Rightarrow> (Inl (errorsNew ''terminal tab not found''), w)
      | Some p \<Rightarrow>
      let tab = w_heap w ! p in
      if ts_ownerID tab \<noteq> ownerID \<or> ts_workspaceID tab \<noteq> workspaceID
      then (Inl (errorsNew ''terminal tab not found''), w)
      else if ts_closed tab then (Inl (errorsNew ''terminal tab not found''), w)
      else
      let m = cleanupLocked now (w_mgr w); w1 = w\<lparr>w_mgr := m\<rparr>;
          key = hash ''reconnect'' reconnectToken;
          consumed = (if reconnectToken = [] then None else Some key) in
      if reconnectToken \<noteq> [] \<and>
         (case map_of (m_reconnects m) key of None \<Rightarrow> True
          | Some r \<Rightarrow> \<not> reconnect_matches r ownerID deviceID workspaceID tabID now)
      then (Inl (errorsNew ''invalid terminal reconnect token''), w1)
      else case requireCredentialCapacityLocked m ownerID deviceID tabID consumed of
        Some e \<Rightarrow> (Inl e, w1)
      | None \<Rightarrow>
      case randomCredential rnd1 ticket_prefix of
        Inl e \<Rightarrow> (Inl e, w1)
      | Inr ticket \<Rightarrow>
      case randomCredential rnd2 reconnect_prefix of
        Inl e \<Rightarrow> (Inl e, w1)
      | Inr reconnect \<Rightarrow>
      let rs = (case consumed of None \<Rightarrow> m_reconnects m | Some k \<Rightarrow> AList.delete k (m_reconnects m));
          m' = m\<lparr>m_tickets := AList.update (hash ''ticket'' ticket)
                   \<lparr>tk_ownerID = ownerID, tk_deviceID = deviceID, tk_workspaceID = workspaceID,
                    tk_tabID = tabID, tk_afterSequence = afterSequence, tk_expiresAt = now + m_ticketTTL m\<rparr>
                   (m_tickets m),
                 m_reconnects := AList.update (hash ''reconnect'' reconnect)
                   \<lparr>rc_ownerID = ownerID, rc_deviceID = deviceID, rc_workspaceID = workspaceID,
                    rc_tabID = tabID, rc_expiresAt = now + m_reconnectTTL m\<rparr> rs\<rparr>;
          (holder, l) = lease_Holder (ts_lease tab) now
      in (Inr \<lparr>cn_Ticket = ticket, cn_ReconnectToken = reconnect, cn_LeaseHolderDeviceID = l_DeviceID holder,
               cn_ProtocolVersion = Version, cn_MaximumFrameBytes = MaxPayload\<rparr>,
          w1\<lparr>w_mgr := m', w_heap := (w_heap w)[p := tab\<lparr>ts_lease := l\<rparr>]\<rparr>))"

definition admit ::
  "(string \<Rightarrow> string \<Rightarrow> digest) \<Rightarrow> time \<Rightarrow> string \<Rightarrow> term_world \<Rightarrow> (admitted result \<times> term_world) option" where
  "admit hash now ticket w =
     (if \<not> has_prefix ticket ticket_prefix \<or> length ticket > 256
      then Some (Inl (errorsNew ''invalid terminal ticket''), w)
      else if m_closed (w_mgr w) then Some (Inl (errorsNew ''terminal manager is closed''), w)
      else
      let key = hash ''ticket'' ticket;
          m = (w_mgr w)\<lparr>m_tickets := AList.delete key (m_tickets (w_mgr w))\<rparr>; w1 = w\<lparr>w_mgr := m\<rparr> in
      case map_of (m_tickets (w_mgr w)) key of
        None \<Rightarrow> Some (Inl (errorsNew ''invalid terminal ticket''), w1)
      | Some r \<Rightarrow>
      if \<not> now < tk_expiresAt r then Some (Inl (errorsNew ''invalid terminal ticket''), w1)
      else case map_of (m_tabs m) (tk_tabID r) of
        None \<Rightarrow> Some (Inl (errorsNew ''terminal tab is unavailable''), w1)
      | Some p \<Rightarrow>
      let tab = w_heap w ! p in
      if ts_ownerID tab \<noteq> tk_ownerID r \<or> ts_workspaceID tab \<noteq> tk_workspaceID r
      then Some (Inl (errorsNew ''terminal tab is unavailable''), w1)
      else case reserveSubscriberLocked m r of
        Inl e \<Rightarrow> Some (Inl e, w1)
      | Inr m1 \<Rightarrow>
      case tab_subscribe tab (tk_afterSequence r) (tk_deviceID r) (w_conns w) of
        Inl e \<Rightarrow> map_option (\<lambda>m2. (Inl e, w1\<lparr>w_mgr := m2\<rparr>)) (releaseSubscriberLocked m1 r)
      | Inr (sid, a, rp, tab', c') \<Rightarrow>
          Some (Inr \<lparr>ad_record = r, ad_tab = p, ad_subscriberID = sid, ad_conn = a, ad_replay = rp\<rparr>,
                w1\<lparr>w_mgr := m1, w_heap := (w_heap w)[p := tab'], w_conns := c'\<rparr>))"

text \<open>\<open>unsubscribe\<close>: the tab's section, then (once the connection drained) the release.\<close>

definition unsubscribe_tab :: "admitted \<Rightarrow> term_world \<Rightarrow> (bool \<times> term_world) option" where
  "unsubscribe_tab ad w =
     map_option (\<lambda>(ok, t, c). (ok, w\<lparr>w_heap := (w_heap w)[ad_tab ad := t], w_conns := c\<rparr>))
       (tab_unsubscribe (w_heap w ! ad_tab ad) (ad_subscriberID ad) (w_conns w))"

definition unsubscribe_release :: "admitted \<Rightarrow> term_world \<Rightarrow> term_world option" where
  "unsubscribe_release ad w =
     map_option (\<lambda>m. w\<lparr>w_mgr := m\<rparr>) (releaseSubscriberLocked (w_mgr w) (ad_record ad))"

text \<open>First section of \<open>RevokeDevice\<close>: the number of disconnected subscribers, and the tabs whose
  leases the second section releases, each with the connections it first waits for.\<close>

fun revoke_tabs ::
  "string \<Rightarrow> string \<Rightarrow> nat list \<Rightarrow> tab_state list \<Rightarrow> conns \<Rightarrow> (nat \<times> (nat \<times> nat list) list \<times> conns) option" where
  "revoke_tabs ownerID deviceID [] heap c = Some (0, [], c)"
| "revoke_tabs ownerID deviceID (p # ps) heap c =
     (if ts_ownerID (heap ! p) \<noteq> ownerID then revoke_tabs ownerID deviceID ps heap c
      else do {
        (n, drains, c1) \<leftarrow> tab_revokeDevice (heap ! p) deviceID c;
        (k, revoked, c2) \<leftarrow> revoke_tabs ownerID deviceID ps heap c1;
        Some (n + k, (p, drains) # revoked, c2) })"

definition RevokeDevice_mark ::
  "string \<Rightarrow> string \<Rightarrow> term_world \<Rightarrow> (nat \<times> (nat \<times> nat list) list \<times> term_world) option" where
  "RevokeDevice_mark ownerID deviceID w =
     (if ownerID = [] \<or> deviceID = [] then Some (0, [], w)
      else
      let m = (w_mgr w)\<lparr>
            m_tickets := filter (\<lambda>(k, r). \<not> (tk_ownerID r = ownerID \<and> tk_deviceID r = deviceID)) (m_tickets (w_mgr w)),
            m_reconnects := filter (\<lambda>(k, r). \<not> (rc_ownerID r = ownerID \<and> rc_deviceID r = deviceID))
              (m_reconnects (w_mgr w))\<rparr> in
      do { (n, revoked, c) \<leftarrow> revoke_tabs ownerID deviceID (map snd (m_tabs m)) (w_heap w) (w_conns w);
           Some (n, revoked, w\<lparr>w_mgr := m, w_conns := c\<rparr>) })"

text \<open>One iteration of the second section, once the connections in its list are drained.\<close>

definition RevokeDevice_release :: "string \<Rightarrow> nat \<Rightarrow> term_world \<Rightarrow> term_world" where
  "RevokeDevice_release deviceID p w =
     w\<lparr>w_heap := (w_heap w)[p := (w_heap w ! p)\<lparr>ts_lease := snd (lease_Release (ts_lease (w_heap w ! p)) deviceID)\<rparr>]\<rparr>"

definition Notify :: "time \<Rightarrow> tab_id \<Rightarrow> string \<Rightarrow> term_world \<Rightarrow> term_world option" where
  "Notify now tabID kind w =
     (let kind' = (if kind \<in> {''approval'', ''question'', ''completion'', ''failure''} then kind else ''attention'') in
      case map_of (m_tabs (w_mgr w)) tabID of
        None \<Rightarrow> Some w
      | Some p \<Rightarrow> do {
          c \<leftarrow> tab_broadcast (w_heap w ! p)
                \<lparr>f_Kind = KindAttention, f_Flags = 0, f_Sequence = 0, f_TabID = tabID, f_Payload = bytes_of kind'\<rparr>
                (w_conns w);
          Some (observeActivity p ''attention'' now (w\<lparr>w_conns := c\<rparr>)) })"

text \<open>
  One iteration of \<open>pump\<close> for a chunk of PTY output: activity, then the filter, then the
  redactor, then the ring. \<open>redact\<close> is what the tab's \<^verbatim>\<open>OutputRedactor\<close> returns for the
  filtered bytes. The Codex event provider sees the chunk as well; it shares no state with the
  tab and is not part of this model. \<open>pump_closed\<close> is the iteration that finds the output
  channel closed, with \<open>flushed\<close> what the redactor releases.
\<close>

definition pump_output :: "time \<Rightarrow> (bytes \<Rightarrow> bytes) \<Rightarrow> nat \<Rightarrow> bytes \<Rightarrow> term_world \<Rightarrow> term_world option" where
  "pump_output now redact p output w =
     (let w1 = (if output \<noteq> [] then observeActivity p ''output'' now w else w);
          (filtered, flt) = filter_Process (ts_filter (w_heap w1 ! p)) output;
          t = (w_heap w1 ! p)\<lparr>ts_filter := flt\<rparr>
      in map_option (\<lambda>(t', c). w1\<lparr>w_heap := (w_heap w1)[p := t'], w_conns := c\<rparr>)
           (appendRedactedOutput t (redact filtered) (w_conns w1)))"

definition pump_closed :: "bytes \<Rightarrow> nat \<Rightarrow> term_world \<Rightarrow> term_world option" where
  "pump_closed flushed p w = do {
     (t1, c1) \<leftarrow> appendRedactedOutput (w_heap w ! p) flushed (w_conns w);
     (t2, c2) \<leftarrow> tab_beginClose t1 (bytes_of ''runtime_closed'') c1;
     Some (w\<lparr>w_heap := (w_heap w)[p := t2], w_conns := c2\<rparr>) }"

end
