(* ===== verification/Terminal_Accounting.thy ===== *)
theory Terminal_Accounting
  imports Terminal_Manager "HOL-Library.Multiset"
begin

text \<open>
  The accounting of admitted connections: the counters of \<^verbatim>\<open>Manager\<close> always equal the number
  of connections whose slot has not been released, under every interleaving of registration,
  tickets, admission, output, revocation, shutdown and disconnection. \<open>slot_accounting\<close> is the
  contract between admission and the counters; \<open>mgr_reach\<close> the reachable states.
\<close>

subsection \<open>Slots\<close>

text \<open>
  A provider of slots keeps \<open>ok m M\<close>: the state accounts for the multiset \<open>M\<close> of holders. A
  reservation adds a holder, and releasing a holder never fails.
\<close>

locale slot_accounting =
  fixes ok :: "'m \<Rightarrow> 'r multiset \<Rightarrow> bool"
    and reserve :: "'m \<Rightarrow> 'r \<Rightarrow> 'm result"
    and release :: "'m \<Rightarrow> 'r \<Rightarrow> 'm option"
  assumes reserve_ok: "ok m M \<Longrightarrow> reserve m r = Inr m' \<Longrightarrow> ok m' (add_mset r M)"
    and release_ok: "ok m M \<Longrightarrow> r \<in># M \<Longrightarrow> \<exists>m'. release m r = Some m' \<and> ok m' (M - {#r#})"
begin

lemma rollback: "ok m M \<Longrightarrow> reserve m r = Inr m1 \<Longrightarrow> \<exists>m2. release m1 r = Some m2 \<and> ok m2 M"
  using release_ok [OF reserve_ok, of m M r m1 r] by simp

lemma release_some: "ok m M \<Longrightarrow> r \<in># M \<Longrightarrow> release m r = Some m' \<Longrightarrow> ok m' (M - {#r#})"
  using release_ok [of m M r] by simp

end

definition device_of :: "ticket_record \<Rightarrow> string \<times> string" where
  "device_of r = (tk_ownerID r, tk_deviceID r)"

text \<open>One counter map counts the holders by \<open>f\<close>, none above the limit \<open>n\<close>.\<close>

definition counted :: "('k, int) gomap \<Rightarrow> ('r \<Rightarrow> 'k) \<Rightarrow> nat \<Rightarrow> 'r multiset \<Rightarrow> bool" where
  "counted values f n M \<longleftrightarrow>
     (\<forall>x. get_count values x = int (count (image_mset f M) x) \<and> count (image_mset f M) x \<le> n)"

lemma counted_increment:
  "counted v f n M \<Longrightarrow> get_count v (f r) < int n \<Longrightarrow> counted (increment v (f r)) f n (add_mset r M)"
  by (auto simp: counted_def increment_def)

lemma counted_decrement:
  assumes "counted v f n (add_mset r M)"
  shows "counted (decrementCount v (f r)) f n M"
  unfolding counted_def
proof
  fix x
  from assms have "get_count v x = int (count (image_mset f (add_mset r M)) x)"
    "count (image_mset f (add_mset r M)) x \<le> n" by (auto simp: counted_def simp del: image_mset_add_mset)
  then show "get_count (decrementCount v (f r)) x = int (count (image_mset f M) x) \<and> count (image_mset f M) x \<le> n"
    by (auto simp: get_decrementCount)
qed

lemma counted_pos: "counted v f n (add_mset r M) \<Longrightarrow> get_count v (f r) \<noteq> 0"
  by (auto simp: counted_def simp del: image_mset_add_mset)

definition slots_ok :: "manager \<Rightarrow> ticket_record multiset \<Rightarrow> bool" where
  "slots_ok m M \<longleftrightarrow> m_subscribers m = int (size M) \<and> size M \<le> 128
     \<and> counted (m_subscribersByOwner m) tk_ownerID 64 M
     \<and> counted (m_subscribersByDevice m) device_of 8 M
     \<and> counted (m_subscribersByTab m) tk_tabID 8 M"

interpretation slots: slot_accounting slots_ok reserveSubscriberLocked releaseSubscriberLocked
proof
  fix m M r m'
  assume ok: "slots_ok m M" and res: "reserveSubscriberLocked m r = Inr m'"
  then have lim: "m_subscribers m < 128" "get_count (m_subscribersByOwner m) (tk_ownerID r) < 64"
    "get_count (m_subscribersByDevice m) (device_of r) < 8" "get_count (m_subscribersByTab m) (tk_tabID r) < 8"
    and m': "m' = m\<lparr>m_subscribers := m_subscribers m + 1,
                  m_subscribersByOwner := increment (m_subscribersByOwner m) (tk_ownerID r),
                  m_subscribersByDevice := increment (m_subscribersByDevice m) (device_of r),
                  m_subscribersByTab := increment (m_subscribersByTab m) (tk_tabID r)\<rparr>"
    by (auto simp: reserveSubscriberLocked_def Let_def maxSubscribersGlobal_def maxSubscribersPerOwner_def
        maxSubscribersPerDevice_def maxSubscribersPerTab_def device_of_def split: if_splits)
  from lim ok show "slots_ok m' (add_mset r M)"
    by (auto simp: slots_ok_def m' intro!: counted_increment)
next
  fix m M r
  assume ok: "slots_ok m M" and "r \<in># M"
  then obtain N where N: "M = add_mset r N" by (meson mset_add)
  with ok have c: "counted (m_subscribersByOwner m) tk_ownerID 64 (add_mset r N)"
    "counted (m_subscribersByDevice m) device_of 8 (add_mset r N)"
    "counted (m_subscribersByTab m) tk_tabID 8 (add_mset r N)" "m_subscribers m = int (size N) + 1" "size N \<le> 128"
    by (auto simp: slots_ok_def)
  let ?m = "m\<lparr>m_subscribers := m_subscribers m - 1,
              m_subscribersByOwner := decrementCount (m_subscribersByOwner m) (tk_ownerID r),
              m_subscribersByDevice := decrementCount (m_subscribersByDevice m) (device_of r),
              m_subscribersByTab := decrementCount (m_subscribersByTab m) (tk_tabID r)\<rparr>"
  have "releaseSubscriberLocked m r = Some ?m"
    using counted_pos [OF c(1)] counted_pos [OF c(2)] counted_pos [OF c(3)] c(4)
    by (simp add: releaseSubscriberLocked_def Let_def device_of_def)
  moreover have "slots_ok ?m N"
    using counted_decrement [OF c(1)] counted_decrement [OF c(2)] counted_decrement [OF c(3)] c(4,5)
    by (simp add: slots_ok_def)
  ultimately show "\<exists>m'. releaseSubscriberLocked m r = Some m' \<and> slots_ok m' (M - {#r#})" by (simp add: N)
qed

subsection \<open>Tabs in the heap\<close>

definition grows :: "conns \<Rightarrow> conns \<Rightarrow> bool" where
  "grows c c' \<longleftrightarrow> length c \<le> length c' \<and> (\<forall>a < length c. sb_closed (c ! a) \<longrightarrow> sb_closed (c' ! a))"

lemma grows_refl [simp]: "grows c c"
  by (simp add: grows_def)

lemma grows_trans: "grows a b \<Longrightarrow> grows b c \<Longrightarrow> grows a c"
  by (auto simp: grows_def)

lemma tab_ok_grows: "tab_ok t c \<Longrightarrow> grows c c' \<Longrightarrow> tab_ok t c'"
  by (force simp: tab_ok_def grows_def)

text \<open>What the subscribers of a tab depend on; every operation but subscription keeps it.\<close>

definition same_subs :: "tab_state \<Rightarrow> tab_state \<Rightarrow> bool" where
  "same_subs t t' \<longleftrightarrow> ts_subscribers t' = ts_subscribers t \<and> ts_nextSubscriber t' = ts_nextSubscriber t
     \<and> ts_id t' = ts_id t \<and> ts_ownerID t' = ts_ownerID t \<and> ts_workspaceID t' = ts_workspaceID t"

lemma same_subs_refl [simp]: "same_subs t t"
  by (simp add: same_subs_def)

definition heap_ok :: "tab_state list \<Rightarrow> conns \<Rightarrow> bool" where
  "heap_ok heap c \<longleftrightarrow> (\<forall>t \<in> set heap. tab_ok t c) \<and> list_all sub_ok c"

lemma heap_ok_world: "heap_ok heap c \<Longrightarrow> p < length heap \<Longrightarrow> world_ok (heap ! p, c)"
  by (simp add: heap_ok_def world_ok_def)

lemma heap_ok_update:
  assumes "heap_ok heap c" "world_ok (t', c')" "grows c c'"
  shows "heap_ok (heap[p := t']) c'"
  using assms tab_ok_grows by (auto simp: heap_ok_def world_ok_def dest!: set_update_subset_insert [THEN subsetD])

lemma heap_ok_grows: "heap_ok heap c \<Longrightarrow> grows c c' \<Longrightarrow> list_all sub_ok c' \<Longrightarrow> heap_ok heap c'"
  using tab_ok_grows by (auto simp: heap_ok_def)

text \<open>One step of a tab that is not a subscription.\<close>

definition tab_next :: "tab_state \<times> conns \<Rightarrow> tab_state \<times> conns \<Rightarrow> bool" where
  "tab_next s s' \<longleftrightarrow> (world_ok s \<longrightarrow> world_ok s') \<and> grows (snd s) (snd s') \<and> same_subs (fst s) (fst s')"

lemma tab_next_refl [simp]: "tab_next s s"
  by (simp add: tab_next_def)

lemma tab_next_trans: "tab_next a b \<Longrightarrow> tab_next b c \<Longrightarrow> tab_next a c"
  by (auto simp: tab_next_def same_subs_def intro: grows_trans)

lemma append_next:
  assumes "world_ok (t, c)"
  shows "\<exists>t' c'. appendOutput t p c = Some (t', c') \<and> tab_next (t, c) (t', c')"
proof (cases "ts_closed t \<or> (\<exists>e. ring_Append (ts_ring t) p = Inl e)")
  case True
  then show ?thesis by (auto simp: appendOutput_def)
next
  case False
  then obtain f r where a: "ring_Append (ts_ring t) p = Inr (f, r)" by (metis old.sum.exhaust surj_pair)
  have w: "world_ok (t\<lparr>ts_ring := r\<rparr>, c)" using assms by simp
  from broadcast_world [OF w, of f] False a show ?thesis
    by (auto simp: appendOutput_def Let_def tab_next_def same_subs_def grows_def)
qed

lemma redacted_next:
  "world_ok (t, c) \<Longrightarrow> \<exists>t' c'. appendRedactedOutput t out c = Some (t', c') \<and> tab_next (t, c) (t', c')"
proof (induction t out c rule: appendRedactedOutput.induct)
  case (1 t out c)
  show ?case
  proof (cases "out = []")
    case True
    then show ?thesis by (simp add: appendRedactedOutput.simps)
  next
    case False
    obtain t1 c1 where s: "appendOutput t (take (min (length out) RuntimeOutputChunkBytes) out) c = Some (t1, c1)"
      "tab_next (t, c) (t1, c1)" using append_next [OF "1.prems"] by blast
    then have "world_ok (t1, c1)" using "1.prems" by (simp add: tab_next_def)
    from "1.IH" [OF False s(1) refl this] s False show ?thesis
      by (subst appendRedactedOutput.simps) (auto intro: tab_next_trans)
  qed
qed

lemma broadcast_next:
  assumes "world_ok (t, c)"
  shows "\<exists>c'. tab_broadcast t f c = Some c' \<and> tab_next (t, c) (t, c')"
  using assms broadcast_world [OF assms, of f]
  by (auto simp: tab_broadcast_def tab_next_def grows_def)

lemma beginClose_next:
  assumes "world_ok (t, c)"
  shows "\<exists>t' c'. tab_beginClose t r c = Some (t', c') \<and> tab_next (t, c) (t', c')"
proof (cases "ts_closed t")
  case True
  then show ?thesis by (simp add: tab_beginClose_def)
next
  case False
  from assms have "tab_ok t c" "list_all sub_ok c" by (simp_all add: world_ok_def)
  from beginClose_ok [OF this False, of r] assms show ?thesis
    by (auto simp: tab_next_def grows_def same_subs_def world_ok_def tab_ok_def)
qed

lemma revokeDevice_next:
  assumes "world_ok (t, c)"
  shows "\<exists>n drains c'. tab_revokeDevice t d c = Some (n, drains, c') \<and> length c' = length c \<and> list_all sub_ok c'
    \<and> grows c c' \<and> (\<forall>a \<in> snd ` set (ts_subscribers t). sb_deviceID (c ! a) = d \<longrightarrow> sb_closed (c' ! a))
    \<and> (\<forall>a < length c. sb_deviceID (c' ! a) = sb_deviceID (c ! a))"
proof -
  let ?as = "filter (\<lambda>a. sb_deviceID (c ! a) = d) (map snd (ts_subscribers t))"
  have r: "tab_revokeDevice t d c =
      Some (length (filter (\<lambda>a. sb_deviceID (c ! a) = d \<and> \<not> sb_closed (c ! a)) (map snd (ts_subscribers t))),
            ?as, map_at closed_sub ?as c)"
    using assms revoke_subscribers_ok [of c "map snd (ts_subscribers t)" d]
    by (auto simp: tab_revokeDevice_def world_ok_def tab_ok_def)
  have "list_all sub_ok (map_at closed_sub ?as c)"
    using assms by (intro list_all_map_at) (simp_all add: world_ok_def)
  with r assms show ?thesis by (auto simp: grows_def world_ok_def tab_ok_def)
qed

subsection \<open>Reachable states\<close>

text \<open>
  A state is the shared world and the connections that hold a slot; the flag of a connection says
  that it already left its tab and waits for the second section of \<open>unsubscribe\<close>. A step is one
  critical section of any goroutine. \<open>Frame\<close> covers the effects of a client frame that happen
  under other mutexes than the tab's (lease and receipts), \<open>Conn\<close> what the goroutines of one
  connection do to its gates and queue, and broadcasts.
\<close>

type_synonym mgr_state = "term_world \<times> (admitted \<times> bool) list"

definition put_tab :: "nat \<Rightarrow> tab_state \<Rightarrow> conns \<Rightarrow> term_world \<Rightarrow> term_world" where
  "put_tab p t c w = w\<lparr>w_heap := (w_heap w)[p := t], w_conns := c\<rparr>"

fun is_subscription :: "tab_op \<Rightarrow> bool" where
  "is_subscription (TSubscribe s d) = True"
| "is_subscription (TUnsubscribe sid) = True"
| "is_subscription _ = False"

definition drop_nth :: "nat \<Rightarrow> 'a list \<Rightarrow> 'a list" where
  "drop_nth i xs = take i xs @ drop (Suc i) xs"

inductive mgr_step :: "(string \<Rightarrow> string \<Rightarrow> digest) \<Rightarrow> mgr_state \<Rightarrow> mgr_state \<Rightarrow> bool" for hash where
  Configure: "ConfigureActivityObserver obs (w_mgr w) = (e, m) \<Longrightarrow> mgr_step hash (w, live) (w\<lparr>w_mgr := m\<rparr>, live)"
| Register: "Register ow ws tab rt rd ob pr w = (e, w') \<Longrightarrow> mgr_step hash (w, live) (w', live)"
| Issue: "Issue hash now r1 r2 ow dev ws tab seq tok w = (res, w') \<Longrightarrow> mgr_step hash (w, live) (w', live)"
| Admit: "admit hash now tk w = Some (Inr ad, w') \<Longrightarrow> mgr_step hash (w, live) (w', (ad, False) # live)"
| Refuse: "admit hash now tk w = Some (Inl e, w') \<Longrightarrow> mgr_step hash (w, live) (w', live)"
| Leave: "i < length live \<Longrightarrow> live ! i = (ad, False) \<Longrightarrow> unsubscribe_tab ad w = Some (b, w') \<Longrightarrow>
    mgr_step hash (w, live) (w', if b then (ad, True) # drop_nth i live else drop_nth i live)"
| Release: "i < length live \<Longrightarrow> live ! i = (ad, True) \<Longrightarrow> conn_drained (w_conns w) (ad_conn ad) \<Longrightarrow>
    unsubscribe_release ad w = Some w' \<Longrightarrow> mgr_step hash (w, live) (w', drop_nth i live)"
| RevokeMark: "RevokeDevice_mark ow dev w = Some (n, ps, w') \<Longrightarrow> mgr_step hash (w, live) (w', live)"
| RevokeRelease: "mgr_step hash (w, live) (RevokeDevice_release dev p w, live)"
| UnregisterBegin: "Unregister_begin tab reason w = Some (po, w') \<Longrightarrow> mgr_step hash (w, live) (w', live)"
| UnregisterFinish: "close_done (w_heap w ! p) (w_conns w) \<Longrightarrow> Unregister_finish tab p cerr w = (e, w') \<Longrightarrow>
    mgr_step hash (w, live) (w', live)"
| CloseBegin: "Close_begin w = Some (ps, w') \<Longrightarrow> mgr_step hash (w, live) (w', live)"
| CloseFinish: "Close_finish ps w = (e, w') \<Longrightarrow> mgr_step hash (w, live) (w', live)"
| Notify: "Notify now tab kind w = Some w' \<Longrightarrow> mgr_step hash (w, live) (w', live)"
| Output: "p < length (w_heap w) \<Longrightarrow> pump_output now red p out w = Some w' \<Longrightarrow> mgr_step hash (w, live) (w', live)"
| OutputClosed: "p < length (w_heap w) \<Longrightarrow> pump_closed out p w = Some w' \<Longrightarrow> mgr_step hash (w, live) (w', live)"
| Conn: "p < length (w_heap w) \<Longrightarrow> \<not> is_subscription e \<Longrightarrow> tab_step e (w_heap w ! p, w_conns w) = Some (t, c) \<Longrightarrow>
    mgr_step hash (w, live) (put_tab p t c w, live)"
| FrameLease: "mgr_step hash (w, live)
    (put_tab p ((w_heap w ! p)\<lparr>ts_lease := lease_apply le (ts_lease (w_heap w ! p))\<rparr>) (w_conns w) w, live)"
| FrameInput: "mgr_step hash (w, live) (put_tab p (input_step ie (w_heap w ! p)) (w_conns w) w, live)"

inductive mgr_reach :: "(string \<Rightarrow> string \<Rightarrow> digest) \<Rightarrow> nat \<Rightarrow> mgr_state \<Rightarrow> bool" for hash where
  init: "NewManager pepper audit = Inr w \<Longrightarrow> mgr_reach hash 0 (w, [])"
| step: "mgr_reach hash n s \<Longrightarrow> mgr_step hash s s' \<Longrightarrow> mgr_reach hash (Suc n) s'"

definition conn_key :: "admitted \<times> bool \<Rightarrow> nat \<times> 64 word" where
  "conn_key x = (ad_tab (fst x), ad_subscriberID (fst x))"

definition entry_ok :: "tab_state list \<Rightarrow> admitted \<times> bool \<Rightarrow> bool" where
  "entry_ok heap x \<longleftrightarrow> ad_tab (fst x) < length heap
     \<and> (\<not> snd x \<longrightarrow> map_of (ts_subscribers (heap ! ad_tab (fst x))) (ad_subscriberID (fst x)) = Some (ad_conn (fst x)))"

definition live_ok :: "tab_state list \<Rightarrow> (admitted \<times> bool) list \<Rightarrow> bool" where
  "live_ok heap live \<longleftrightarrow> (\<forall>x \<in> set live. entry_ok heap x) \<and> distinct (map conn_key (filter (Not \<circ> snd) live))"

text \<open>The invariant; \<open>c0\<close> is an earlier state of the connections, from which none was reopened.\<close>

definition mgr_inv :: "conns \<Rightarrow> nat \<Rightarrow> mgr_state \<Rightarrow> bool" where
  "mgr_inv c0 n s \<longleftrightarrow> (case s of (w, live) \<Rightarrow>
     slots_ok (w_mgr w) (mset (map (ad_record \<circ> fst) live)) \<and> heap_ok (w_heap w) (w_conns w)
     \<and> (\<forall>t \<in> set (w_heap w). unat (ts_nextSubscriber t) \<le> n)
     \<and> (\<forall>x \<in> set (m_tabs (w_mgr w)). snd x < length (w_heap w)) \<and> live_ok (w_heap w) live
     \<and> grows c0 (w_conns w))"

text \<open>A step that keeps the slots and the subscribers of every tab, and may add new tabs.\<close>

lemma mgr_inv_frame:
  assumes inv: "mgr_inv c0 n (w, live)" and heap: "heap_ok (w_heap w') (w_conns w')"
    and grow: "grows (w_conns w) (w_conns w')"
    and len: "length (w_heap w) \<le> length (w_heap w')"
    and same: "\<And>p. p < length (w_heap w) \<Longrightarrow> same_subs (w_heap w ! p) (w_heap w' ! p)"
    and new: "\<And>p. length (w_heap w) \<le> p \<Longrightarrow> p < length (w_heap w') \<Longrightarrow> ts_nextSubscriber (w_heap w' ! p) = 0"
    and slots: "\<And>M. slots_ok (w_mgr w) M \<Longrightarrow> slots_ok (w_mgr w') M"
    and tabs: "\<And>x. x \<in> set (m_tabs (w_mgr w')) \<Longrightarrow> x \<in> set (m_tabs (w_mgr w)) \<or> snd x < length (w_heap w')"
  shows "mgr_inv c0 n (w', live)"
proof -
  have "live_ok (w_heap w') live"
  proof -
    have "entry_ok (w_heap w') x" if "entry_ok (w_heap w) x" for x
      using that len same [of "ad_tab (fst x)"] by (auto simp: entry_ok_def same_subs_def)
    with inv show ?thesis by (auto simp: mgr_inv_def live_ok_def)
  qed
  moreover have "unat (ts_nextSubscriber (w_heap w' ! p)) \<le> n" if "p < length (w_heap w')" for p
  proof (cases "p < length (w_heap w)")
    case True
    with inv same [OF True] show ?thesis by (simp add: mgr_inv_def same_subs_def)
  next
    case False
    with new [of p] that show ?thesis by simp
  qed
  moreover have "\<forall>x \<in> set (m_tabs (w_mgr w')). snd x < length (w_heap w')"
    using tabs inv len by (fastforce simp: mgr_inv_def)
  moreover have "grows c0 (w_conns w')" using inv grow grows_trans by (auto simp: mgr_inv_def)
  ultimately show ?thesis using inv heap slots by (auto simp: mgr_inv_def in_set_conv_nth)
qed

lemma slots_ok_fields [simp]:
  "slots_ok (m\<lparr>m_tickets := x1\<rparr>) M = slots_ok m M" "slots_ok (m\<lparr>m_reconnects := x2\<rparr>) M = slots_ok m M"
  "slots_ok (m\<lparr>m_tabs := x3\<rparr>) M = slots_ok m M" "slots_ok (m\<lparr>m_closed := x4\<rparr>) M = slots_ok m M"
  "slots_ok (m\<lparr>m_closeErr := x5\<rparr>) M = slots_ok m M" "slots_ok (m\<lparr>m_activity := x6\<rparr>) M = slots_ok m M"
  "slots_ok (cleanupLocked now m) M = slots_ok m M" "slots_ok (drop_tab_credentials tab m) M = slots_ok m M"
  by (simp_all add: slots_ok_def cleanupLocked_def drop_tab_credentials_def)

lemma m_tabs_fields [simp]:
  "m_tabs (cleanupLocked now m) = m_tabs m" "m_tabs (drop_tab_credentials tab m) = m_tabs m"
  by (simp_all add: cleanupLocked_def drop_tab_credentials_def)

lemma mgr_inv_heap: "mgr_inv c0 n (w, live) \<Longrightarrow> heap_ok (w_heap w) (w_conns w)"
  by (simp add: mgr_inv_def)

lemma mgr_inv_tabs:
  "mgr_inv c0 n (w, live) \<Longrightarrow> map_of (m_tabs (w_mgr w)) tab = Some p \<Longrightarrow> p < length (w_heap w)"
  by (auto simp: mgr_inv_def dest!: map_of_SomeD)

text \<open>One tab makes a step; the manager's other state may change around it.\<close>

lemma mgr_inv_tab_next:
  assumes inv: "mgr_inv c0 n (w, live)" and nx: "tab_next (w_heap w ! p, w_conns w) (t, c)"
    and w': "w_heap w' = (w_heap w)[p := t]" "w_conns w' = c"
    and slots: "\<And>M. slots_ok (w_mgr w) M \<Longrightarrow> slots_ok (w_mgr w') M"
    and tabs: "set (m_tabs (w_mgr w')) \<subseteq> set (m_tabs (w_mgr w))"
    and p: "p < length (w_heap w) \<or> c = w_conns w"
  shows "mgr_inv c0 n (w', live)"
proof (rule mgr_inv_frame [OF inv _ _ _ _ _ slots])
  note h = mgr_inv_heap [OF inv]
  show "heap_ok (w_heap w') (w_conns w')"
  proof (cases "p < length (w_heap w)")
    case True
    with nx heap_ok_world [OF h True] show ?thesis
      unfolding w' by (intro heap_ok_update [OF h]) (simp_all add: tab_next_def)
  next
    case False
    with p h show ?thesis by (simp add: w' list_update_beyond)
  qed
  show "grows (w_conns w) (w_conns w')" using nx by (simp add: w' tab_next_def)
  show "same_subs (w_heap w ! q) (w_heap w' ! q)" if "q < length (w_heap w)" for q
    using nx that by (cases "q = p") (auto simp: w' tab_next_def)
  show "x \<in> set (m_tabs (w_mgr w)) \<or> snd x < length (w_heap w')" if "x \<in> set (m_tabs (w_mgr w'))" for x
    using tabs that by blast
qed (simp_all add: w')

subsection \<open>Each operation keeps the invariant\<close>

lemma tab_next_quiet:
  "same_subs t t' \<Longrightarrow> ts_closed t' = ts_closed t \<Longrightarrow> tab_next (t, c) (t', c)"
  by (auto simp: tab_next_def world_ok_def tab_ok_def same_subs_def)

lemma world_activity [simp]:
  "w_mgr (observeActivity p k a w) = w_mgr w" "w_heap (observeActivity p k a w) = w_heap w"
  "w_conns (observeActivity p k a w) = w_conns w"
  by (simp_all add: observeActivity_def)

lemma inv_quiet:
  assumes "mgr_inv c0 n (w, live)" "w_heap w' = (w_heap w)[p := t]" "w_conns w' = w_conns w"
    and "same_subs (w_heap w ! p) t" "ts_closed t = ts_closed (w_heap w ! p)"
    and "\<And>M. slots_ok (w_mgr w) M \<Longrightarrow> slots_ok (w_mgr w') M"
    and "set (m_tabs (w_mgr w')) \<subseteq> set (m_tabs (w_mgr w))"
  shows "mgr_inv c0 n (w', live)"
  using assms by (intro mgr_inv_tab_next [OF assms(1) tab_next_quiet]) auto

lemma inv_mgr_only:
  assumes "mgr_inv c0 n (w, live)" "w_heap w' = w_heap w" "w_conns w' = w_conns w"
    and "\<And>M. slots_ok (w_mgr w) M \<Longrightarrow> slots_ok (w_mgr w') M"
    and "set (m_tabs (w_mgr w')) \<subseteq> set (m_tabs (w_mgr w))"
  shows "mgr_inv c0 n (w', live)"
  using assms by (intro inv_quiet [OF assms(1), of w' 0 "w_heap w ! 0"]) auto

lemma inv_Register:
  assumes "mgr_inv c0 n (w, live)" "Register ow ws tab rt rd ob pr w = (e, w')"
  shows "mgr_inv c0 n (w', live)"
proof (cases "w' = w")
  case True
  with assms(1) show ?thesis by simp
next
  case False
  with assms(2) obtain r l where w': "w' = w\<lparr>w_heap := w_heap w @ [new_tab ow ws tab r l],
      w_mgr := (w_mgr w)\<lparr>m_tabs := AList.update tab (length (w_heap w)) (m_tabs (w_mgr w))\<rparr>\<rparr>"
    and none: "map_of (m_tabs (w_mgr w)) tab = None"
    by (auto simp: Register_def split: if_splits sum.splits option.splits)
  have "heap_ok (w_heap w') (w_conns w')"
    using mgr_inv_heap [OF assms(1)] by (auto simp: w' heap_ok_def tab_ok_def new_tab_def)
  then show ?thesis
    by (rule mgr_inv_frame [OF assms(1)]) (auto simp: w' nth_append new_tab_def update_new [OF none])
qed

lemma inv_Issue:
  assumes "mgr_inv c0 n (w, live)" "Issue hash now r1 r2 ow dev ws tab seq tok w = (res, w')"
  shows "mgr_inv c0 n (w', live)"
proof -
  consider "w' = w" | "w' = w\<lparr>w_mgr := cleanupLocked now (w_mgr w)\<rparr>"
    | p l where "w_heap w' = (w_heap w)[p := (w_heap w ! p)\<lparr>ts_lease := l\<rparr>]" "w_conns w' = w_conns w"
        "m_tabs (w_mgr w') = m_tabs (w_mgr w)" "\<And>M. slots_ok (w_mgr w') M = slots_ok (w_mgr w) M"
    using assms(2) by (auto simp: Issue_def Let_def split: if_splits sum.splits option.splits prod.splits)
  then show ?thesis
  proof cases
    case 1
    with assms(1) show ?thesis by simp
  next
    case 2
    then show ?thesis by (intro inv_mgr_only [OF assms(1)]) auto
  next
    case (3 p l)
    then show ?thesis by (intro inv_quiet [OF assms(1) 3(1)]) (auto simp: same_subs_def)
  qed
qed

lemma inv_Unregister_begin:
  assumes "mgr_inv c0 n (w, live)" "Unregister_begin tab reason w = Some (po, w')"
  shows "mgr_inv c0 n (w', live)"
proof (cases "map_of (m_tabs (w_mgr w)) tab")
  case None
  with assms show ?thesis by (intro inv_mgr_only [OF assms(1)]) (auto simp: Unregister_begin_def)
next
  case (Some p)
  note p = mgr_inv_tabs [OF assms(1) Some]
  obtain t c where b: "tab_beginClose (w_heap w ! p) (boundedReason reason) (w_conns w) = Some (t, c)"
    "tab_next (w_heap w ! p, w_conns w) (t, c)"
    using beginClose_next [OF heap_ok_world [OF mgr_inv_heap [OF assms(1)] p]] by blast
  with Some assms(2) p show ?thesis
    by (intro mgr_inv_tab_next [OF assms(1) b(2)]) (auto simp: Unregister_begin_def)
qed

lemma inv_Unregister_finish:
  assumes "mgr_inv c0 n (w, live)" "Unregister_finish tab p cerr w = (e, w')"
  shows "mgr_inv c0 n (w', live)"
proof -
  obtain t where t: "closeRuntime (w_heap w ! p) cerr = (e, t)" "same_subs (w_heap w ! p) t"
    "ts_closed t = ts_closed (w_heap w ! p)" "w_heap w' = (w_heap w)[p := t]" "w_conns w' = w_conns w"
    "w_mgr w' = w_mgr w \<or> w_mgr w' = (w_mgr w)\<lparr>m_tabs := AList.delete tab (m_tabs (w_mgr w))\<rparr>"
    using assms(2) by (auto simp: Unregister_finish_def closeRuntime_def Let_def same_subs_def split: option.splits)
  then show ?thesis
    by (intro inv_quiet [OF assms(1) t(4,5)]) (auto simp: AList.delete_eq)
qed

lemma inv_close_tabs:
  "mgr_inv c0 n (w, live) \<Longrightarrow> \<forall>p \<in> set ps. p < length (w_heap w) \<Longrightarrow>
     \<exists>w'. close_tabs ps reason w = Some w' \<and> mgr_inv c0 n (w', live) \<and> w_mgr w' = w_mgr w"
proof (induction ps arbitrary: w)
  case Nil
  then show ?case by simp
next
  case (Cons p ps)
  then have p: "p < length (w_heap w)" by simp
  obtain t c where b: "tab_beginClose (w_heap w ! p) reason (w_conns w) = Some (t, c)"
    "tab_next (w_heap w ! p, w_conns w) (t, c)"
    using beginClose_next [OF heap_ok_world [OF mgr_inv_heap [OF Cons.prems(1)] p]] by blast
  let ?w = "w\<lparr>w_heap := (w_heap w)[p := t], w_conns := c\<rparr>"
  have "mgr_inv c0 n (?w, live)" using p by (intro mgr_inv_tab_next [OF Cons.prems(1) b(2)]) auto
  from Cons.IH [OF this] Cons.prems(2) b(1) show ?case by auto
qed

lemma inv_Close_begin:
  assumes "mgr_inv c0 n (w, live)" "Close_begin w = Some (ps, w')"
  shows "mgr_inv c0 n (w', live)"
proof (cases "m_closed (w_mgr w)")
  case True
  with assms show ?thesis by (simp add: Close_begin_def)
next
  case False
  have "\<forall>p \<in> set (map snd (m_tabs (w_mgr w))). p < length (w_heap w)"
    using assms(1) by (auto simp: mgr_inv_def)
  from inv_close_tabs [OF assms(1) this] obtain w1 where
    w1: "close_tabs (map snd (m_tabs (w_mgr w))) (bytes_of ''manager_shutdown'') w = Some w1" "mgr_inv c0 n (w1, live)"
    by blast
  then have w': "w' = w1\<lparr>w_mgr := (w_mgr w1)\<lparr>m_closed := True, m_tickets := [], m_reconnects := []\<rparr>\<rparr>"
    using False assms(2) by (simp add: Close_begin_def Let_def)
  show ?thesis by (rule inv_mgr_only [OF w1(2)]) (simp_all add: w')
qed

definition quiet :: "tab_state \<Rightarrow> tab_state \<Rightarrow> bool" where
  "quiet t t' \<longleftrightarrow> same_subs t t' \<and> ts_closed t' = ts_closed t"

lemma quiet_trans: "quiet a b \<Longrightarrow> quiet b c \<Longrightarrow> quiet a c"
  by (simp add: quiet_def same_subs_def)

lemma quiet_closeRuntime: "closeRuntime t cerr = (e, t') \<Longrightarrow> quiet t t'"
  by (auto simp: closeRuntime_def quiet_def same_subs_def split: option.splits)

lemma close_runtimes_same:
  "close_runtimes tabs joined heap = (j, heap') \<Longrightarrow>
     length heap' = length heap \<and> (\<forall>p < length heap. quiet (heap ! p) (heap' ! p))"
proof (induction tabs joined heap rule: close_runtimes.induct)
  case (1 joined heap)
  then show ?case by (simp add: quiet_def)
next
  case (2 p cerr ps joined heap)
  obtain e t where c: "closeRuntime (heap ! p) cerr = (e, t)" by force
  note t = quiet_closeRuntime [OF c]
  from 2 c have IH: "length heap' = length heap" "\<forall>q < length heap. quiet ((heap[p := t]) ! q) (heap' ! q)" by simp_all
  have "quiet (heap ! q) ((heap[p := t]) ! q)" if "q < length heap" for q
    using t that by (cases "q = p") (auto simp: quiet_def)
  with IH show ?case by (blast intro: quiet_trans)
qed

lemma inv_Close_finish:
  assumes "mgr_inv c0 n (w, live)" "Close_finish ps w = (e, w')"
  shows "mgr_inv c0 n (w', live)"
proof -
  obtain j heap where c: "close_runtimes ps None (w_heap w) = (j, heap)" by force
  note same = close_runtimes_same [OF c]
  have w': "w_heap w' = heap" "w_conns w' = w_conns w" "set (m_tabs (w_mgr w')) \<subseteq> set (m_tabs (w_mgr w))"
    "\<And>M. slots_ok (w_mgr w') M = slots_ok (w_mgr w) M"
    using assms(2) c by (auto simp: Close_finish_def)
  have "heap_ok heap (w_conns w)"
    unfolding heap_ok_def
  proof
    show "list_all sub_ok (w_conns w)" using mgr_inv_heap [OF assms(1)] by (simp add: heap_ok_def)
    show "\<forall>t \<in> set heap. tab_ok t (w_conns w)"
    proof
      fix t assume "t \<in> set heap"
      then obtain p where p: "p < length heap" "t = heap ! p" by (auto simp: in_set_conv_nth)
      with same have "quiet (w_heap w ! p) t" "tab_ok (w_heap w ! p) (w_conns w)"
        using mgr_inv_heap [OF assms(1)] by (auto simp: heap_ok_def)
      then show "tab_ok t (w_conns w)" by (simp add: quiet_def same_subs_def tab_ok_def)
    qed
  qed
  then show ?thesis
    using same w' by (intro mgr_inv_frame [OF assms(1)]) (auto simp: quiet_def)
qed

lemma revoke_tabs_next:
  "heap_ok heap c \<Longrightarrow> \<forall>p \<in> set ps. p < length heap \<Longrightarrow>
     \<exists>n rs c'. revoke_tabs ow dev ps heap c = Some (n, rs, c') \<and> length c' = length c \<and> list_all sub_ok c' \<and> grows c c'
       \<and> (\<forall>a < length c. sb_deviceID (c' ! a) = sb_deviceID (c ! a))
       \<and> (\<forall>p \<in> set ps. ts_ownerID (heap ! p) = ow \<longrightarrow>
            (\<forall>a \<in> snd ` set (ts_subscribers (heap ! p)). sb_deviceID (c ! a) = dev \<longrightarrow> sb_closed (c' ! a)))"
proof (induction ps arbitrary: c)
  case Nil
  then show ?case by (simp add: heap_ok_def)
next
  case (Cons p ps)
  show ?case
  proof (cases "ts_ownerID (heap ! p) = ow")
    case False
    from Cons.IH [OF Cons.prems(1)] Cons.prems(2) False show ?thesis by auto
  next
    case True
    from Cons.prems have p: "p < length heap" by simp
    note w = heap_ok_world [OF Cons.prems(1) p]
    obtain n drains c1 where r: "tab_revokeDevice (heap ! p) dev c = Some (n, drains, c1)"
      "length c1 = length c" "list_all sub_ok c1" "grows c c1"
      "\<forall>a \<in> snd ` set (ts_subscribers (heap ! p)). sb_deviceID (c ! a) = dev \<longrightarrow> sb_closed (c1 ! a)"
      "\<forall>a < length c. sb_deviceID (c1 ! a) = sb_deviceID (c ! a)"
      using revokeDevice_next [OF w, of dev] by blast
    have "heap_ok heap c1" using Cons.prems(1) r(4,3) by (rule heap_ok_grows)
    from Cons.IH [OF this] Cons.prems(2) obtain k rs c2 where s: "revoke_tabs ow dev ps heap c1 = Some (k, rs, c2)"
      "length c2 = length c1" "list_all sub_ok c2" "grows c1 c2"
      "\<forall>a < length c1. sb_deviceID (c2 ! a) = sb_deviceID (c1 ! a)"
      "\<forall>p \<in> set ps. ts_ownerID (heap ! p) = ow \<longrightarrow>
         (\<forall>a \<in> snd ` set (ts_subscribers (heap ! p)). sb_deviceID (c1 ! a) = dev \<longrightarrow> sb_closed (c2 ! a))"
      by auto
    have bound: "a < length c" if "q \<in> set (p # ps)" "a \<in> snd ` set (ts_subscribers (heap ! q))" for q a
      using that Cons.prems by (auto simp: heap_ok_def tab_ok_def)
    have "sb_closed (c2 ! a)" if "a \<in> snd ` set (ts_subscribers (heap ! p))" "sb_deviceID (c ! a) = dev" for a
    proof -
      from r(5) that have "sb_closed (c1 ! a)" by blast
      with r(2) s(4) bound [of p a] that show ?thesis by (simp add: grows_def)
    qed
    moreover have "sb_closed (c2 ! a)" if "q \<in> set ps" "ts_ownerID (heap ! q) = ow"
      "a \<in> snd ` set (ts_subscribers (heap ! q))" "sb_deviceID (c ! a) = dev" for q a
    proof -
      from r(6) bound [of q a] that have "sb_deviceID (c1 ! a) = dev" by simp
      with s(6) that show ?thesis by blast
    qed
    ultimately have "\<forall>q \<in> set (p # ps). ts_ownerID (heap ! q) = ow \<longrightarrow>
        (\<forall>a \<in> snd ` set (ts_subscribers (heap ! q)). sb_deviceID (c ! a) = dev \<longrightarrow> sb_closed (c2 ! a))" by auto
    moreover have "revoke_tabs ow dev (p # ps) heap c = Some (n + k, (p, drains) # rs, c2)"
      using True r(1) s(1) by simp
    ultimately show ?thesis using r(2,4,6) s(2-5) grows_trans by auto
  qed
qed

lemma inv_tab_pointers: "mgr_inv c0 n (w, live) \<Longrightarrow> \<forall>p \<in> set (map snd (m_tabs (w_mgr w))). p < length (w_heap w)"
  by (auto simp: mgr_inv_def)

lemma inv_RevokeDevice_mark:
  assumes "mgr_inv c0 n (w, live)" "RevokeDevice_mark ow dev w = Some (k, rs, w')"
  shows "mgr_inv c0 n (w', live)"
proof (cases "ow = [] \<or> dev = []")
  case True
  with assms show ?thesis by (simp add: RevokeDevice_mark_def)
next
  case False
  note h = mgr_inv_heap [OF assms(1)]
  obtain c where c: "w_conns w' = c" "w_heap w' = w_heap w" "m_tabs (w_mgr w') = m_tabs (w_mgr w)"
    "\<And>M. slots_ok (w_mgr w') M = slots_ok (w_mgr w) M" "list_all sub_ok c" "grows (w_conns w) c"
    using revoke_tabs_next [OF h inv_tab_pointers [OF assms(1)], of ow dev] assms(2) False
    by (auto simp: RevokeDevice_mark_def Let_def)
  have "heap_ok (w_heap w) c" using h c(6,5) by (rule heap_ok_grows)
  with c show ?thesis by (intro mgr_inv_frame [OF assms(1)]) auto
qed

lemma inv_Notify:
  assumes "mgr_inv c0 n (w, live)" "Notify now tab kind w = Some w'"
  shows "mgr_inv c0 n (w', live)"
proof (cases "map_of (m_tabs (w_mgr w)) tab")
  case None
  with assms show ?thesis by (simp add: Notify_def)
next
  case (Some p)
  note p = mgr_inv_tabs [OF assms(1) Some]
  from assms(2) Some obtain f c where c: "tab_broadcast (w_heap w ! p) f (w_conns w) = Some c"
    "w_heap w' = w_heap w" "w_conns w' = c" "w_mgr w' = w_mgr w"
    by (auto simp: Notify_def Let_def bind_eq_Some_conv)
  have "tab_next (w_heap w ! p, w_conns w) (w_heap w ! p, c)"
    using broadcast_next [OF heap_ok_world [OF mgr_inv_heap [OF assms(1)] p], of f] c(1) by simp
  then show ?thesis using c p by (intro mgr_inv_tab_next [OF assms(1)]) auto
qed

lemma world_ok_filter [simp]: "world_ok (t\<lparr>ts_filter := f\<rparr>, c) = world_ok (t, c)"
  by (simp add: world_ok_def tab_ok_def)

lemma inv_pump_output:
  assumes "mgr_inv c0 n (w, live)" "p < length (w_heap w)" "pump_output now red p out w = Some w'"
  shows "mgr_inv c0 n (w', live)"
proof -
  note w = heap_ok_world [OF mgr_inv_heap [OF assms(1)] assms(2)]
  obtain flt bs t c where s: "appendRedactedOutput ((w_heap w ! p)\<lparr>ts_filter := flt\<rparr>) bs (w_conns w) = Some (t, c)"
    "w_heap w' = (w_heap w)[p := t]" "w_conns w' = c" "w_mgr w' = w_mgr w"
    using assms(3) by (auto simp: pump_output_def Let_def split: prod.splits if_splits)
  have q: "tab_next (w_heap w ! p, w_conns w) ((w_heap w ! p)\<lparr>ts_filter := flt\<rparr>, w_conns w)"
    by (rule tab_next_quiet) (simp_all add: same_subs_def)
  have "tab_next ((w_heap w ! p)\<lparr>ts_filter := flt\<rparr>, w_conns w) (t, c)"
    using redacted_next [of "(w_heap w ! p)\<lparr>ts_filter := flt\<rparr>" "w_conns w" bs] w s(1) by simp
  from tab_next_trans [OF q this] show ?thesis
    using s assms(2) by (intro mgr_inv_tab_next [OF assms(1)]) auto
qed

lemma inv_pump_closed:
  assumes "mgr_inv c0 n (w, live)" "p < length (w_heap w)" "pump_closed out p w = Some w'"
  shows "mgr_inv c0 n (w', live)"
proof -
  note w = heap_ok_world [OF mgr_inv_heap [OF assms(1)] assms(2)]
  obtain t1 c1 where s1: "appendRedactedOutput (w_heap w ! p) out (w_conns w) = Some (t1, c1)"
    "tab_next (w_heap w ! p, w_conns w) (t1, c1)" using redacted_next [OF w] by blast
  then have "world_ok (t1, c1)" using w by (simp add: tab_next_def)
  from beginClose_next [OF this] obtain t2 c2 where s2: "tab_beginClose t1 (bytes_of ''runtime_closed'') c1 = Some (t2, c2)"
    "tab_next (t1, c1) (t2, c2)" by blast
  from tab_next_trans [OF s1(2) s2(2)] show ?thesis
    using s1 s2 assms(2,3) by (intro mgr_inv_tab_next [OF assms(1)]) (auto simp: pump_closed_def)
qed

lemma step_tab_next:
  assumes "world_ok (t, c)" "\<not> is_subscription e" "tab_step e (t, c) = Some (t', c')"
  shows "tab_next (t, c) (t', c')"
proof (cases e)
  case (TAppend p)
  with append_next [OF assms(1), of p] assms(3) show ?thesis by simp
next
  case (TBroadcast f)
  with broadcast_next [OF assms(1), of f] assms(3) show ?thesis by auto
next
  case (TRevokeDevice d)
  with revokeDevice_next [OF assms(1), of d] assms(1,3) show ?thesis
    by (auto simp: tab_next_def world_ok_def intro: tab_ok_grows)
next
  case (TBeginClose r)
  with beginClose_next [OF assms(1), of r] assms(3) show ?thesis by auto
next
  case (TBeginMutation a)
  with gate_steps_ok(1) [OF assms(1), of a] assms(1,3) show ?thesis
    by (auto simp: tab_next_def grows_def begin_mutation_def nth_list_update split: if_splits prod.splits)
next
  case (TEndMutation a)
  with gate_steps_ok(2) [OF assms(1), of a] assms(1,3) show ?thesis
    by (force simp: tab_next_def grows_def end_mutation_def nth_list_update split: if_splits)
next
  case (TBeginDelivery a)
  with gate_steps_ok(3) [OF assms(1), of a] assms(1,3) show ?thesis
    by (auto simp: tab_next_def grows_def begin_delivery_def nth_list_update split: if_splits prod.splits)
next
  case (TEndDelivery a)
  with gate_steps_ok(4) [OF assms(1), of a] assms(1,3) show ?thesis
    by (force simp: tab_next_def grows_def end_delivery_def nth_list_update split: if_splits)
next
  case (TReceive a)
  with gate_steps_ok(5) [OF assms(1), of a] assms(1,3) show ?thesis
    by (auto simp: tab_next_def grows_def receive_def nth_list_update split: if_splits list.splits)
qed (use assms in simp_all)

text \<open>Admission: a new subscriber in one tab and a reserved slot, or neither.\<close>

lemma admit_cases:
  assumes "slots_ok (w_mgr w) M"
  obtains (refused) e w' where "admit hash now tk w = Some (Inl e, w')" "w_heap w' = w_heap w"
      "w_conns w' = w_conns w" "m_tabs (w_mgr w') = m_tabs (w_mgr w)" "slots_ok (w_mgr w') M"
  | (admitted) r p sid a rp t c m1 where
      "map_of (m_tabs (w_mgr w)) (tk_tabID r) = Some p"
      "tab_subscribe (w_heap w ! p) (tk_afterSequence r) (tk_deviceID r) (w_conns w) = Inr (sid, a, rp, t, c)"
      "slots_ok m1 (add_mset r M)" "m_tabs m1 = m_tabs (w_mgr w)"
      "admit hash now tk w = Some (Inr \<lparr>ad_record = r, ad_tab = p, ad_subscriberID = sid, ad_conn = a, ad_replay = rp\<rparr>,
         w\<lparr>w_mgr := m1, w_heap := (w_heap w)[p := t], w_conns := c\<rparr>)"
proof -
  let ?m = "(w_mgr w)\<lparr>m_tickets := AList.delete (hash ''ticket'' tk) (m_tickets (w_mgr w))\<rparr>"
  have ok: "slots_ok ?m M" using assms by simp
  show ?thesis
  proof (cases "\<exists>r p m1. map_of (m_tickets (w_mgr w)) (hash ''ticket'' tk) = Some r \<and> now < tk_expiresAt r
      \<and> map_of (m_tabs (w_mgr w)) (tk_tabID r) = Some p \<and> ts_ownerID (w_heap w ! p) = tk_ownerID r
      \<and> ts_workspaceID (w_heap w ! p) = tk_workspaceID r \<and> reserveSubscriberLocked ?m r = Inr m1
      \<and> has_prefix tk ticket_prefix \<and> length tk \<le> 256 \<and> \<not> m_closed (w_mgr w)")
    case False
    then have "\<exists>e w'. admit hash now tk w = Some (Inl e, w') \<and> (w' = w \<or> w' = w\<lparr>w_mgr := ?m\<rparr>)"
      unfolding admit_def Let_def by (auto split: option.split sum.split)
    with refused assms show ?thesis by auto
  next
    case True
    then obtain r p m1 where g: "map_of (m_tickets (w_mgr w)) (hash ''ticket'' tk) = Some r" "now < tk_expiresAt r"
      "map_of (m_tabs (w_mgr w)) (tk_tabID r) = Some p" "ts_ownerID (w_heap w ! p) = tk_ownerID r"
      "ts_workspaceID (w_heap w ! p) = tk_workspaceID r" "reserveSubscriberLocked ?m r = Inr m1"
      "has_prefix tk ticket_prefix" "length tk \<le> 256" "\<not> m_closed (w_mgr w)" by blast
    have m1: "m_tabs m1 = m_tabs (w_mgr w)"
      using g(6) by (auto simp: reserveSubscriberLocked_def Let_def split: if_splits)
    show ?thesis
    proof (cases "tab_subscribe (w_heap w ! p) (tk_afterSequence r) (tk_deviceID r) (w_conns w)")
      case (Inl e)
      from slots.rollback [OF ok g(6)] obtain m2 where m2: "releaseSubscriberLocked m1 r = Some m2" "slots_ok m2 M" by blast
      moreover have "m_tabs m2 = m_tabs m1"
        using m2(1) by (auto simp: releaseSubscriberLocked_def Let_def split: if_splits)
      moreover have a: "admit hash now tk w = Some (Inl e, w\<lparr>w_mgr := m2\<rparr>)"
        using g Inl m2(1) by (simp add: admit_def Let_def)
      ultimately show ?thesis using m1 by (intro refused [OF a]) simp_all
    next
      case (Inr x)
      obtain sid a rp t c where x: "x = (sid, a, rp, t, c)" by (metis prod_cases5)
      with g Inr show ?thesis
        by (intro admitted [OF g(3) Inr [unfolded x] slots.reserve_ok [OF ok g(6)] m1]) (simp add: admit_def Let_def)
    qed
  qed
qed

lemma live_ok_other:
  assumes "live_ok heap live" "ts_subscribers t = ts_subscribers (heap ! p) @ [(sid, a)]"
    and "map_of (ts_subscribers (heap ! p)) sid = None" "p < length heap"
  shows "live_ok (heap[p := t]) ((\<lparr>ad_record = r, ad_tab = p, ad_subscriberID = sid, ad_conn = a, ad_replay = rp\<rparr>, False) # live)"
proof -
  have old: "entry_ok (heap[p := t]) x" if "entry_ok heap x" for x
    using that assms(2-4) by (cases "ad_tab (fst x) = p") (auto simp: entry_ok_def map_add_def)
  have "(p, sid) \<notin> set (map conn_key (filter (Not \<circ> snd) live))"
    using assms(1,3) by (fastforce simp: live_ok_def entry_ok_def conn_key_def)
  with assms old show ?thesis by (auto simp: live_ok_def entry_ok_def conn_key_def map_add_def)
qed

lemma inv_admit:
  assumes inv: "mgr_inv c0 n (w, live)" and n: "n + 1 < 2 ^ 64"
  shows "admit hash now tk w = Some (Inl e, w') \<Longrightarrow> mgr_inv c0 n (w', live)"
    and "admit hash now tk w = Some (Inr ad, w') \<Longrightarrow> mgr_inv c0 (Suc n) (w', (ad, False) # live)"
    and "admit hash now tk w \<noteq> None"
proof -
  let ?M = "mset (map (ad_record \<circ> fst) live)"
  have slots: "slots_ok (w_mgr w) ?M" using inv by (simp add: mgr_inv_def)
  have "(admit hash now tk w = Some (Inl e, w') \<longrightarrow> mgr_inv c0 n (w', live))
    \<and> (admit hash now tk w = Some (Inr ad, w') \<longrightarrow> mgr_inv c0 (Suc n) (w', (ad, False) # live))
    \<and> admit hash now tk w \<noteq> None"
    using slots
  proof (cases rule: admit_cases [where hash = hash and now = now and tk = tk, consumes 1, case_names refused admitted])
    case (refused e' w1)
    with inv have "mgr_inv c0 n (w1, live)" by (simp add: mgr_inv_def)
    with refused show ?thesis by auto
  next
    case (admitted r p sid a rp t c m1)
    note p = mgr_inv_tabs [OF inv admitted(1)]
    note ok = heap_ok_world [OF mgr_inv_heap [OF inv] p]
    have le: "unat (ts_nextSubscriber (w_heap w ! p)) \<le> n" using inv p by (simp add: mgr_inv_def)
    then have b: "unat (ts_nextSubscriber (w_heap w ! p)) + 1 < 2 ^ 64" using n by simp
    note sub = subscribe_world [OF ok admitted(2) b]
    have t: "ts_nextSubscriber t = ts_nextSubscriber (w_heap w ! p) + 1" "sid = ts_nextSubscriber (w_heap w ! p) + 1"
      "ts_subscribers t = AList.update sid a (ts_subscribers (w_heap w ! p))"
      using admitted(2) by (auto simp: tab_subscribe_def Let_def split: if_splits)
    have "i \<le> ts_nextSubscriber (w_heap w ! p)" if "i \<in> fst ` set (ts_subscribers (w_heap w ! p))" for i
      using ok that by (auto simp: world_ok_def tab_ok_def)
    then have fresh: "map_of (ts_subscribers (w_heap w ! p)) sid = None"
      using b by (force simp: map_of_eq_None_iff t(2) word_le_nat_alt unat_word_ariths)
    have g: "grows (w_conns w) c" using sub(3) by (simp add: grows_def nth_append)
    have heap: "heap_ok ((w_heap w)[p := t]) c" by (rule heap_ok_update [OF mgr_inv_heap [OF inv] sub(1) g])
    have live: "live_ok ((w_heap w)[p := t])
        ((\<lparr>ad_record = r, ad_tab = p, ad_subscriberID = sid, ad_conn = a, ad_replay = rp\<rparr>, False) # live)"
      using inv t(3) fresh p by (intro live_ok_other) (auto simp: mgr_inv_def update_new)
    have nxt: "unat (ts_nextSubscriber x) \<le> Suc n" if "x \<in> set ((w_heap w)[p := t])" for x
    proof -
      from that consider "x \<in> set (w_heap w)" | "x = t" using set_update_subset_insert by fastforce
      then show ?thesis
      proof cases
        case 1
        with inv show ?thesis by (force simp: mgr_inv_def)
      next
        case 2
        with t(1) b le show ?thesis by (simp add: unat_word_ariths)
      qed
    qed
    have "\<forall>x \<in> set (m_tabs (w_mgr w)). snd x < length (w_heap w)" using inv by (simp add: mgr_inv_def)
    then have "mgr_inv c0 (Suc n) (w\<lparr>w_mgr := m1, w_heap := (w_heap w)[p := t], w_conns := c\<rparr>,
        (\<lparr>ad_record = r, ad_tab = p, ad_subscriberID = sid, ad_conn = a, ad_replay = rp\<rparr>, False) # live)"
      using heap live nxt admitted(3,4) inv g grows_trans by (auto simp: mgr_inv_def)
    with admitted(5) show ?thesis by auto
  qed
  then show "admit hash now tk w = Some (Inl e, w') \<Longrightarrow> mgr_inv c0 n (w', live)"
    and "admit hash now tk w = Some (Inr ad, w') \<Longrightarrow> mgr_inv c0 (Suc n) (w', (ad, False) # live)"
    and "admit hash now tk w \<noteq> None" by blast+
qed

lemma mset_drop_nth: "i < length xs \<Longrightarrow> mset xs = add_mset (xs ! i) (mset (drop_nth i xs))"
  unfolding drop_nth_def by (metis id_take_nth_drop mset_append mset.simps(2) union_mset_add_mset_right)

lemma set_drop_nth: "set (drop_nth i xs) \<subseteq> set xs"
  by (auto simp: drop_nth_def dest: in_set_takeD in_set_dropD)

lemma live_ok_perm: "mset xs = mset ys \<Longrightarrow> live_ok heap xs = live_ok heap ys"
proof -
  assume eq: "mset xs = mset ys"
  then have "set xs = set ys" by (metis set_mset_mset)
  moreover have "mset (map conn_key (filter (Not \<circ> snd) xs)) = mset (map conn_key (filter (Not \<circ> snd) ys))"
    using eq by (simp add: mset_filter)
  from mset_eq_imp_distinct_iff [OF this] have
    "distinct (map conn_key (filter (Not \<circ> snd) xs)) = distinct (map conn_key (filter (Not \<circ> snd) ys))" .
  ultimately show ?thesis by (simp add: live_ok_def)
qed

lemma mgr_inv_perm: "mset xs = mset ys \<Longrightarrow> mgr_inv c0 n (w, xs) = mgr_inv c0 n (w, ys)"
  by (simp add: mgr_inv_def live_ok_perm [of xs ys] mset_map)

lemma inv_pick:
  assumes "mgr_inv c0 n (w, live)" "i < length live" "live ! i = x"
  shows "mgr_inv c0 n (w, x # drop_nth i live)"
  using assms mgr_inv_perm [of live "x # drop_nth i live"] mset_drop_nth [OF assms(2)] by simp

lemma inv_leave_first:
  assumes inv: "mgr_inv c0 n (w, (ad, False) # live)" and u: "unsubscribe_tab ad w = Some (b, w')"
  shows "b" "mgr_inv c0 n (w', (ad, True) # live)"
proof -
  let ?p = "ad_tab ad" and ?sid = "ad_subscriberID ad"
  let ?t = "w_heap w ! ?p"
  from inv have p: "?p < length (w_heap w)" and sub: "map_of (ts_subscribers ?t) ?sid = Some (ad_conn ad)"
    by (auto simp: mgr_inv_def live_ok_def entry_ok_def)
  note ok = heap_ok_world [OF mgr_inv_heap [OF inv] p]
  from unsubscribe_world [OF ok, of ?sid] obtain b' t c where s: "tab_unsubscribe ?t ?sid (w_conns w) = Some (b', t, c)"
    "world_ok (t, c)" "length c = length (w_conns w)"
    "ts_nextSubscriber t = ts_nextSubscriber ?t"
    "\<forall>a < length (w_conns w). sb_closed (w_conns w ! a) \<longrightarrow> sb_closed (c ! a)" by blast
  have b': "b'" "ts_subscribers t = AList.delete ?sid (ts_subscribers ?t)"
    using s(1) sub by (auto simp: tab_unsubscribe_def bind_eq_Some_conv)
  have w': "b" "w' = w\<lparr>w_heap := (w_heap w)[?p := t], w_conns := c\<rparr>" using u s(1) b'(1) by (auto simp: unsubscribe_tab_def)
  then show "b" by simp
  have g: "grows (w_conns w) c" using s by (simp add: grows_def)
  have heap: "heap_ok ((w_heap w)[?p := t]) c"
    using s g by (intro heap_ok_update [OF mgr_inv_heap [OF inv]])
  have old: "entry_ok ((w_heap w)[?p := t]) x" if "x \<in> set live" for x
  proof -
    from inv that have x: "entry_ok (w_heap w) x" by (simp add: mgr_inv_def live_ok_def)
    have "conn_key x \<noteq> conn_key (ad, False)" if "\<not> snd x"
    proof -
      from inv have "live_ok (w_heap w) ((ad, False) # live)" by (simp add: mgr_inv_def)
      then have "conn_key (ad, False) \<notin> conn_key ` set (filter (Not \<circ> snd) live)" by (simp add: live_ok_def)
      moreover have "x \<in> set (filter (Not \<circ> snd) live)" using that \<open>x \<in> set live\<close> by simp
      ultimately show ?thesis by (metis image_eqI)
    qed
    with x b'(2) p show ?thesis by (cases "ad_tab (fst x) = ?p") (auto simp: entry_ok_def conn_key_def)
  qed
  have "live_ok (w_heap w) ((ad, False) # live)" using inv by (simp add: mgr_inv_def)
  then have "live_ok ((w_heap w)[?p := t]) ((ad, True) # live)"
    using old p by (auto simp: live_ok_def entry_ok_def)
  moreover have "unat (ts_nextSubscriber x) \<le> n" if "x \<in> set ((w_heap w)[?p := t])" for x
  proof -
    from that consider "x \<in> set (w_heap w)" | "x = t" using set_update_subset_insert by fastforce
    then show ?thesis
    proof cases
      case 1
      with inv show ?thesis by (simp add: mgr_inv_def)
    next
      case 2
      with inv p s(4) show ?thesis by (simp add: mgr_inv_def)
    qed
  qed
  ultimately show "mgr_inv c0 n (w', (ad, True) # live)"
    using inv heap g grows_trans by (auto simp: mgr_inv_def w'(2))
qed

lemma inv_release_first:
  assumes inv: "mgr_inv c0 n (w, (ad, True) # live)"
  shows "\<exists>w'. unsubscribe_release ad w = Some w' \<and> mgr_inv c0 n (w', live)"
proof -
  let ?M = "mset (map (ad_record \<circ> fst) live)"
  have "slots_ok (w_mgr w) (add_mset (ad_record ad) ?M)" using inv by (simp add: mgr_inv_def)
  from slots.release_ok [OF this, of "ad_record ad"] obtain m where
    m: "releaseSubscriberLocked (w_mgr w) (ad_record ad) = Some m" "slots_ok m ?M" by auto
  have "m_tabs m = m_tabs (w_mgr w)"
    using m(1) by (auto simp: releaseSubscriberLocked_def Let_def split: if_splits)
  with inv m show ?thesis by (auto simp: mgr_inv_def unsubscribe_release_def live_ok_def)
qed

lemma input_step_frame [simp]:
  fixes t :: tab_state
  shows "same_subs t (input_step e t)" "ts_closed (input_step e t) = ts_closed t"
  by (cases e; auto simp: same_subs_def writeInput_def markInputReceiptWritten_def confirmInputReceipt_def
      rememberConfirmedInputLocked_def Let_def split: option.splits if_splits)+

lemma mgr_inv_Suc: "mgr_inv c0 n s \<Longrightarrow> mgr_inv c0 (Suc n) s"
  by (force simp: mgr_inv_def)

lemma mgr_inv_step:
  assumes "mgr_step hash s s'" "mgr_inv c0 n s" "n + 1 < 2 ^ 64"
  shows "mgr_inv c0 (Suc n) s'"
  using assms
proof (induction rule: mgr_step.induct)
  case (Configure obs w e m live)
  then have "m = w_mgr w \<or> m = (w_mgr w)\<lparr>m_activity := True\<rparr>"
    by (auto simp: ConfigureActivityObserver_def split: if_splits)
  then have "mgr_inv c0 n (w\<lparr>w_mgr := m\<rparr>, live)"
    by (intro inv_mgr_only [OF Configure(2)]) auto
  then show ?case by (rule mgr_inv_Suc)
next
  case (Admit now tk w ad w' live)
  then show ?case by (metis inv_admit(2))
next
  case (Refuse now tk w e w' live)
  then show ?case by (metis inv_admit(1) mgr_inv_Suc)
next
  case (Leave i live ad w b w')
  from inv_leave_first [OF inv_pick [OF Leave(4,1,2)] Leave(3)] show ?case by (simp add: mgr_inv_Suc)
next
  case (Release i live ad w w')
  from inv_release_first [OF inv_pick [OF Release(5,1,2)]] Release(4) show ?case by (auto simp: mgr_inv_Suc)
next
  case (RevokeRelease w live dev p)
  then show ?case
    by (intro mgr_inv_Suc inv_quiet [OF RevokeRelease(1), of _ p
          "(w_heap w ! p)\<lparr>ts_lease := snd (lease_Release (ts_lease (w_heap w ! p)) dev)\<rparr>"])
       (auto simp: RevokeDevice_release_def same_subs_def)
next
  case (Conn p w e t c live)
  from step_tab_next [OF heap_ok_world [OF mgr_inv_heap [OF Conn(4)] Conn(1)] Conn(2,3)] Conn(1) show ?case
    by (intro mgr_inv_Suc mgr_inv_tab_next [OF Conn(4)]) (auto simp: put_tab_def)
next
  case (FrameLease w live p le)
  then show ?case
    by (intro mgr_inv_Suc inv_quiet [OF FrameLease(1), of _ p
          "(w_heap w ! p)\<lparr>ts_lease := lease_apply le (ts_lease (w_heap w ! p))\<rparr>"]) (auto simp: put_tab_def same_subs_def)
next
  case (FrameInput w live p ie)
  then show ?case
    by (intro mgr_inv_Suc inv_quiet [OF FrameInput(1), of _ p "input_step ie (w_heap w ! p)"]) (auto simp: put_tab_def input_step_frame)
qed (blast intro: mgr_inv_Suc inv_Register inv_Issue inv_RevokeDevice_mark inv_Unregister_begin
      inv_Unregister_finish inv_Close_begin inv_Close_finish inv_Notify inv_pump_output inv_pump_closed)+

lemma inv_steps:
  "(mgr_step hash ^^ k) s s' \<Longrightarrow> mgr_inv c0 n s \<Longrightarrow> n + k < 2 ^ 64 \<Longrightarrow> mgr_inv c0 (n + k) s'"
proof (induction k arbitrary: s')
  case 0
  then show ?case by simp
next
  case (Suc k)
  then obtain s1 where s1: "(mgr_step hash ^^ k) s s1" "mgr_step hash s1 s'" by auto
  from mgr_inv_step [OF s1(2) Suc.IH [OF s1(1) Suc.prems(2)]] Suc.prems(3) show ?case by simp
qed

lemma mgr_reach_inv: "mgr_reach hash n s \<Longrightarrow> n < 2 ^ 64 \<Longrightarrow> mgr_inv [] n s"
proof (induction rule: mgr_reach.induct)
  case (init pepper audit w)
  then show ?case
    by (auto simp: NewManager_def mgr_inv_def slots_ok_def counted_def heap_ok_def live_ok_def grows_def split: if_splits)
next
  case (step n s s')
  then show ?case by (intro mgr_inv_step) auto
qed

subsection \<open>Properties\<close>

lemma count_mset_map: "count (mset (map f xs)) k = length (filter (\<lambda>x. f x = k) xs)"
  by (induction xs) auto

lemma counted_list:
  "counted v f n (mset xs) \<Longrightarrow> get_count v k = int (length (filter (\<lambda>x. f x = k) xs))
     \<and> length (filter (\<lambda>x. f x = k) xs) \<le> n"
  by (simp add: counted_def count_mset_map flip: mset_map)


definition example_world :: term_world where
  "example_world = \<lparr>w_mgr = \<lparr>m_tabs = [], m_tickets = [], m_reconnects = [], m_ticketTTL = defaultTicketTTL,
          m_reconnectTTL = defaultReconnectTTL, m_audit = False, m_events = False, m_activity = False,
          m_subscribers = 0, m_subscribersByOwner = [], m_subscribersByDevice = [], m_subscribersByTab = [],
          m_closed = False, m_closeErr = None\<rparr>,
        w_heap = [], w_conns = [], w_activity = [], w_audit = []\<rparr>"

lemma example_world_reach: "mgr_reach hash 0 (example_world, [])"
  by (rule mgr_reach.init [of "replicate 32 0" False]) (simp add: NewManager_def example_world_def)


text \<open>C14:
  Signing a device out cuts its terminal access for good: the marking section of
  \<^verbatim>\<open>RevokeDevice\<close> leaves no ticket and no reconnect token of that device, every subscriber it
  has on a registered tab of the owner is closed, and in every later state the mutation gate and
  the delivery gate of those connections admit nothing.
\<close>

theorem revoke_device_cuts_access:
  assumes "mgr_reach hash n (w, live)" "n + k < 2 ^ 64" "ow \<noteq> []" "dev \<noteq> []"
    and "RevokeDevice_mark ow dev w = Some (d, rs, w1)"
    and "(tab, p) \<in> set (m_tabs (w_mgr w))" "ts_ownerID (w_heap w ! p) = ow"
    and "(sid, a) \<in> set (ts_subscribers (w_heap w ! p))" "sb_deviceID (w_conns w ! a) = dev"
    and "(mgr_step hash ^^ k) (w1, live) (w2, live2)"
  shows "(\<forall>(key, r) \<in> set (m_tickets (w_mgr w1)). \<not> (tk_ownerID r = ow \<and> tk_deviceID r = dev))
    \<and> (\<forall>(key, r) \<in> set (m_reconnects (w_mgr w1)). \<not> (rc_ownerID r = ow \<and> rc_deviceID r = dev))
    \<and> sb_closed (w_conns w2 ! a) \<and> begin_mutation a (w_conns w2) = (False, w_conns w2)
    \<and> begin_delivery a (w_conns w2) = (False, w_conns w2)"
proof -
  have inv: "mgr_inv [] n (w, live)" using assms(1,2) by (intro mgr_reach_inv) auto
  note h = mgr_inv_heap [OF inv]
  obtain n' rs' c where r: "revoke_tabs ow dev (map snd (m_tabs (w_mgr w))) (w_heap w) (w_conns w) = Some (n', rs', c)"
    "\<forall>p \<in> set (map snd (m_tabs (w_mgr w))). ts_ownerID (w_heap w ! p) = ow \<longrightarrow>
       (\<forall>a \<in> snd ` set (ts_subscribers (w_heap w ! p)). sb_deviceID (w_conns w ! a) = dev \<longrightarrow> sb_closed (c ! a))"
    using revoke_tabs_next [OF h inv_tab_pointers [OF inv], of ow dev] by blast
  have c: "w_conns w1 = c" using assms(3-5) r(1) by (auto simp: RevokeDevice_mark_def Let_def)
  have creds: "\<forall>(key, r) \<in> set (m_tickets (w_mgr w1)). \<not> (tk_ownerID r = ow \<and> tk_deviceID r = dev)"
    "\<forall>(key, r) \<in> set (m_reconnects (w_mgr w1)). \<not> (rc_ownerID r = ow \<and> rc_deviceID r = dev)"
    using assms(3-5) r(1) by (auto simp: RevokeDevice_mark_def Let_def)
  have mem: "p \<in> set (map snd (m_tabs (w_mgr w)))" "a \<in> snd ` set (ts_subscribers (w_heap w ! p))"
    using assms(6,8) by force+
  from r(2) mem assms(7,9) c have closed: "sb_closed (w_conns w1 ! a)" by blast
  have inv1: "mgr_inv [] n (w1, live)" using inv assms(5) by (rule inv_RevokeDevice_mark)
  have "a < length (w_conns w)"
    using heap_ok_world [OF h, of p] inv_tab_pointers [OF inv] mem by (auto simp: world_ok_def tab_ok_def)
  moreover have "w_heap w1 = w_heap w" using assms(3-5) r(1) by (auto simp: RevokeDevice_mark_def Let_def)
  ultimately have a: "a < length (w_conns w1)"
    using mgr_inv_heap [OF inv1] heap_ok_world [of "w_heap w1" "w_conns w1" p] inv_tab_pointers [OF inv] mem
    by (auto simp: world_ok_def tab_ok_def)
  have "mgr_inv (w_conns w1) n (w1, live)" using inv1 by (simp add: mgr_inv_def)
  from inv_steps [OF assms(10) this assms(2)] have inv2: "mgr_inv (w_conns w1) (n + k) (w2, live2)" .
  then have g: "grows (w_conns w1) (w_conns w2)" "list_all sub_ok (w_conns w2)"
    by (simp_all add: mgr_inv_def heap_ok_def)
  with a closed have cl: "sb_closed (w_conns w2 ! a)" by (simp add: grows_def)
  have "sub_ok (w_conns w2 ! a)" using g a by (simp add: grows_def list_all_length)
  with cl have "mg_revoked (sb_mutations (w_conns w2 ! a))" "dg_revoked (sb_deliveries (w_conns w2 ! a))"
    by (simp_all add: sub_ok_def)
  then have "begin_mutation a (w_conns w2) = (False, w_conns w2)"
    "begin_delivery a (w_conns w2) = (False, w_conns w2)"
    by (simp_all add: begin_mutation_def mutation_begin_def begin_delivery_def delivery_begin_def)
  with creds cl show ?thesis by blast
qed

text \<open>A concrete run: a tab is registered and a device is given a ticket and connects.\<close>

definition example_id :: tab_id where "example_id = replicate 16 1"

definition example_hash :: "string \<Rightarrow> string \<Rightarrow> digest" where "example_hash d t = [1]"

definition example_tabstate :: tab_state where
  "example_tabstate = new_tab ''o'' ''w'' example_id
     \<lparr>rg_tabID = example_id, rg_frames = [], rg_bytes = 0, rg_maxFrames = terminalReplayMaxFrames,
      rg_maxBytes = terminalReplayMaxBytes, rg_next = 1\<rparr> \<lparr>lm_ttl = 45 * second, lm_lease = zero_lease\<rparr>"

definition world_registered :: term_world where
  "world_registered = example_world\<lparr>w_heap := [example_tabstate],
     w_mgr := (w_mgr example_world)\<lparr>m_tabs := [(example_id, 0)]\<rparr>\<rparr>"

definition example_record :: ticket_record where
  "example_record = \<lparr>tk_ownerID = ''o'', tk_deviceID = ''d'', tk_workspaceID = ''w'', tk_tabID = example_id,
     tk_afterSequence = 0, tk_expiresAt = defaultTicketTTL\<rparr>"

definition example_reconnect :: reconnect_record where
  "example_reconnect = \<lparr>rc_ownerID = ''o'', rc_deviceID = ''d'', rc_workspaceID = ''w'', rc_tabID = example_id,
     rc_expiresAt = defaultReconnectTTL\<rparr>"

definition world_issued :: term_world where
  "world_issued = world_registered\<lparr>w_mgr := (w_mgr world_registered)\<lparr>m_tickets := [([1], example_record)],
     m_reconnects := [([1], example_reconnect)]\<rparr>\<rparr>"

definition conn_admitted :: admitted where
  "conn_admitted = \<lparr>ad_record = example_record, ad_tab = 0, ad_subscriberID = 1, ad_conn = 0,
     ad_replay = \<lparr>Frames = [], Gap = False, EarliestSequence = 0, LatestSequence = 0\<rparr>\<rparr>"

definition world_admitted :: term_world where
  "world_admitted = world_issued\<lparr>w_heap := [example_tabstate\<lparr>ts_nextSubscriber := 1, ts_subscribers := [(1, 0)]\<rparr>],
     w_conns := [new_subscriber ''d''],
     w_mgr := (w_mgr world_issued)\<lparr>m_tickets := [], m_subscribers := 1, m_subscribersByOwner := [(''o'', 1)],
       m_subscribersByDevice := [((''o'', ''d''), 1)], m_subscribersByTab := [(example_id, 1)]\<rparr>\<rparr>"

lemmas example_defs = example_world_def world_registered_def world_issued_def world_admitted_def
  example_record_def example_reconnect_def conn_admitted_def example_tabstate_def new_tab_def example_hash_def
  zero_lease_def Let_def

lemma example_id_ok: "\<not> tab_IsZero example_id"
  by (simp add: tab_IsZero_def example_id_def)

lemma example_register:
  "Register ''o'' ''w'' example_id True True False False example_world = (None, world_registered)"
  by (simp add: Register_def example_id_ok NewRing_def NewLeaseManager_def terminalReplayMaxFrames_def
      terminalReplayMaxBytes_def MaxPayload_def requireTabCapacityLocked_def maxRegisteredTabsGlobal_def
      maxRegisteredTabsPerOwner_def maxRegisteredTabsPerWorkspace_def example_defs)

lemma example_issue:
  "Issue example_hash 0 (Inr []) (Inr []) ''o'' ''d'' ''w'' example_id 0 [] world_registered =
     (Inr \<lparr>cn_Ticket = ticket_prefix, cn_ReconnectToken = reconnect_prefix, cn_LeaseHolderDeviceID = [],
           cn_ProtocolVersion = Version, cn_MaximumFrameBytes = MaxPayload\<rparr>, world_issued)"
  by (simp add: Issue_def example_id_ok cleanupLocked_def requireCredentialCapacityLocked_def
      maxUnusedTicketsGlobal_def maxUnusedTicketsPerOwner_def maxUnusedTicketsPerDevice_def
      maxUnusedTicketsPerTab_def maxReconnectsGlobal_def maxReconnectsPerOwner_def maxReconnectsPerDevice_def
      maxReconnectsPerTab_def randomCredential_def RawURLEncode_def lease_Holder_def example_defs)

lemma example_admit: "admit example_hash 0 ticket_prefix world_issued = Some (Inr conn_admitted, world_admitted)"
  by (simp add: admit_def ticket_prefix_def reserveSubscriberLocked_def maxSubscribersGlobal_def
      maxSubscribersPerOwner_def maxSubscribersPerDevice_def maxSubscribersPerTab_def increment_def
      tab_subscribe_def ring_After_def defaultTicketTTL_def example_defs)

lemma world_admitted_reach: "mgr_reach example_hash 3 (world_admitted, [(conn_admitted, False)])"
proof -
  note 1 = mgr_reach.step [OF example_world_reach mgr_step.Register [OF example_register], of example_hash]
  note 2 = mgr_reach.step [OF 1 mgr_step.Issue [OF example_issue]]
  from mgr_reach.step [OF 2 mgr_step.Admit [OF example_admit]] show ?thesis by (simp add: eval_nat_numeral)
qed

lemma example_revoke:
  "\<exists>rs w1. RevokeDevice_mark ''o'' ''d'' world_admitted = Some (1, rs, w1)"
  by (simp add: RevokeDevice_mark_def tab_revokeDevice_def new_subscriber_def revokeGates_def mutation_revoke_def
      delivery_revoke_def close_mutation_drained_def close_delivery_drained_def newConnectionMutationGate_def
      newConnectionDeliveryGate_def closeSubscriber_def example_defs)

theorem revoke_device_cuts_access_witness:
  "\<exists>rs w1. RevokeDevice_mark ''o'' ''d'' world_admitted = Some (1, rs, w1)
     \<and> sb_closed (w_conns w1 ! 0) \<and> begin_mutation 0 (w_conns w1) = (False, w_conns w1)"
proof -
  obtain rs w1 where r: "RevokeDevice_mark ''o'' ''d'' world_admitted = Some (1, rs, w1)"
    using example_revoke by blast
  have "(example_id, 0) \<in> set (m_tabs (w_mgr world_admitted))" "ts_ownerID (w_heap world_admitted ! 0) = ''o''"
    "(1, 0) \<in> set (ts_subscribers (w_heap world_admitted ! 0))" "sb_deviceID (w_conns world_admitted ! 0) = ''d''"
    by (simp_all add: example_defs new_subscriber_def)
  from revoke_device_cuts_access [OF world_admitted_reach, of 0 "''o''" "''d''", OF _ _ _ r this,
      of w1 "[(conn_admitted, False)]"]
  show ?thesis using r by simp
qed

end
