(* ===== verification/Terminal_Gateway.thy ===== *)
theory Terminal_Gateway
  imports Terminal_Accounting
begin

text \<open>
  The gateway of \<^verbatim>\<open>terminal/gateway.go\<close>: admission of an HTTP request, the frames a client may
  send and what each does to the tab, the lease, the receipts and the PTY, and the frames written
  back. The WebSocket library, the PTY and SHA-256 are outside the repository: what they return is an
  argument (\<open>werr\<close>, \<open>zerr\<close>, \<open>resp\<close>, \<open>sha\<close>), what they are given a result.
\<close>

subsection \<open>Tab identifiers\<close>

definition NewTabID :: "bytes \<Rightarrow> tab_id" where
  "NewTabID b = b[6 := (b ! 6 AND 0x0f) OR 0x40, 8 := (b ! 8 AND 0x3f) OR 0x80]"

definition ParseTabID :: "string \<Rightarrow> tab_id result" where
  "ParseTabID value =
     (let compact = filter (\<lambda>c. c \<noteq> CHR ''-'') value in
      case hex_DecodeString compact of
        None \<Rightarrow> Inl (errorsNew ''invalid terminal tab UUID'')
      | Some decoded \<Rightarrow>
          if length decoded \<noteq> 16 then Inl (errorsNew ''invalid terminal tab UUID'')
          else if tab_IsZero decoded then Inl (errorsNew ''terminal tab UUID cannot be zero'')
          else Inr decoded)"

definition TabID_String :: "tab_id \<Rightarrow> string" where
  "TabID_String tid =
     (let e = hex_EncodeToString tid
      in slice 0 8 e @ ''-'' @ slice 8 12 e @ ''-'' @ slice 12 16 e @ ''-'' @ slice 16 20 e @ ''-'' @ drop 20 e)"

subsection \<open>Admission of a request\<close>

text \<open>\<open>bearer\<close>: \<^verbatim>\<open>strings.EqualFold\<close> with an ASCII text that has no K or S folds ASCII letters only.\<close>

definition fold_ascii :: "char \<Rightarrow> char" where
  "fold_ascii c = (let n = (of_char c :: nat) in if 65 \<le> n \<and> n \<le> 90 then char_of (n + 32) else c)"

definition bearer :: "string \<Rightarrow> string option" where
  "bearer value =
     (if length value < 8 \<or> map fold_ascii (take 7 value) \<noteq> ''bearer '' then None
      else let token = trim_space (drop 7 value) in
        if token \<noteq> [] \<and> list_all (\<lambda>c. c \<notin> {CHR '' '', CHR 0x09, CHR 0x0D, CHR 0x0A}) token
        then Some token else None)"

definition trim_right_slash :: "string \<Rightarrow> string" where
  "trim_right_slash s = rev (dropWhile ((=) (CHR ''/'')) (rev s))"

definition NewGateway :: "string \<Rightarrow> string result" where
  "NewGateway allowedOrigin =
     (if allowedOrigin = [] \<or> CHR 0x0D \<in> set allowedOrigin \<or> CHR 0x0A \<in> set allowedOrigin
      then Inl (errorsNew ''exact terminal origin is required'')
      else Inr (trim_right_slash allowedOrigin))"

datatype http_outcome = Rejected nat | Accepted admitted "frame list"

text \<open>\<open>ServeHTTP\<close> up to the WebSocket handshake: status codes 403, 401 and 503, or the admitted
  connection with the frames its writer starts with.\<close>

definition initial_frames :: "tab_id \<Rightarrow> replay \<Rightarrow> frame list" where
  "initial_frames tid rp =
     (if Gap rp then [\<lparr>f_Kind = KindReplayGap, f_Flags = 0, f_Sequence = EarliestSequence rp, f_TabID = tid,
                      f_Payload = bytes_of ''scrollback_truncated''\<rparr>] else []) @ Frames rp"

definition ServeHTTP ::
  "(string \<Rightarrow> string \<Rightarrow> digest) \<Rightarrow> time \<Rightarrow> string \<Rightarrow> string \<Rightarrow> string \<Rightarrow> term_world \<Rightarrow> (http_outcome \<times> term_world) option" where
  "ServeHTTP hash now allowedOrigin origin authorization w =
     (if origin \<noteq> [] \<and> trim_right_slash origin \<noteq> allowedOrigin then Some (Rejected 403, w)
      else case bearer authorization of
        None \<Rightarrow> Some (Rejected 401, w)
      | Some ticket \<Rightarrow>
          map_option (\<lambda>(res, w').
            (case res of
               Inl e \<Rightarrow> Rejected (if err_is e = ErrTerminalCapacity then 503 else 401)
             | Inr ad \<Rightarrow> Accepted ad (initial_frames (ts_id (w_heap w' ! ad_tab ad)) (ad_replay ad)), w'))
            (admit hash now ticket w))"

subsection \<open>Frames to the client\<close>

text \<open>\<open>writeFrame\<close>: the error, the bytes given to the WebSocket (outcome \<open>outcome\<close>) and the
  connections, with the delivery gate entered and left.\<close>

definition access_revoked :: goerr where
  "access_revoked = GoErr ErrAccessRevoked ''terminal access revoked''"

definition writeFrame ::
  "nat \<Rightarrow> frame \<Rightarrow> goerr option \<Rightarrow> conns \<Rightarrow> (goerr option \<times> bytes option \<times> conns) option" where
  "writeFrame a f outcome c =
     (case MarshalBinary f of
        Inl e \<Rightarrow> Some (Some e, None, c)
      | Inr encoded \<Rightarrow>
          (case begin_delivery a c of
             (False, c1) \<Rightarrow> Some (Some access_revoked, None, c1)
           | (True, c1) \<Rightarrow> map_option (\<lambda>c2. (outcome, Some encoded, c2)) (end_delivery a c1)))"

subsection \<open>Frames from the client\<close>

definition frameMutatesTerminalState :: "frame \<Rightarrow> bool" where
  "frameMutatesTerminalState f \<longleftrightarrow>
     f_Kind f \<in> {KindInput, KindResize, KindLeaseRequest}
     \<or> f_Kind f = KindAck \<and> f_Flags f = FlagInputReceiptConfirmed"

record effects =
  fx_responses :: "frame list"
  fx_pty :: "bytes option"
  fx_resize :: "size_t option"

definition no_effects :: effects where
  "no_effects = \<lparr>fx_responses = [], fx_pty = None, fx_resize = None\<rparr>"

definition set_tab :: "nat \<Rightarrow> tab_state \<Rightarrow> term_world \<Rightarrow> term_world" where
  "set_tab p t w = w\<lparr>w_heap := (w_heap w)[p := t]\<rparr>"

definition control_frame :: "kind \<Rightarrow> tab_id \<Rightarrow> string \<Rightarrow> frame" where
  "control_frame k tid payload = \<lparr>f_Kind = k, f_Flags = 0, f_Sequence = 0, f_TabID = tid, f_Payload = bytes_of payload\<rparr>"

definition broadcast_tab :: "nat \<Rightarrow> frame \<Rightarrow> term_world \<Rightarrow> term_world option" where
  "broadcast_tab p f w = map_option (\<lambda>c. w\<lparr>w_conns := c\<rparr>) (tab_broadcast (w_heap w ! p) f (w_conns w))"

text \<open>\<open>sendInputReceipt\<close>: \<open>resp\<close> is the outcome of \<^verbatim>\<open>sendResponse\<close> (written, failed, or cancelled).\<close>

definition receipt_frame :: "tab_id \<Rightarrow> receipt_key \<Rightarrow> frame" where
  "receipt_frame tid key = \<lparr>f_Kind = KindAck, f_Flags = FlagInputReceipt, f_Sequence = rk_sequence key,
     f_TabID = tid, f_Payload = []\<rparr>"

definition sendInputReceipt ::
  "nat \<Rightarrow> receipt_key \<Rightarrow> digest \<Rightarrow> goerr option \<Rightarrow> effects \<Rightarrow> term_world \<Rightarrow> goerr option \<times> effects \<times> term_world" where
  "sendInputReceipt p key payloadHash resp fx w =
     (let fx' = fx\<lparr>fx_responses := fx_responses fx @ [receipt_frame (ts_id (w_heap w ! p)) key]\<rparr> in
      case resp of
        Some e \<Rightarrow> (Some e, fx', w)
      | None \<Rightarrow>
          (case markInputReceiptWritten (w_heap w ! p) key payloadHash of
             (err, t) \<Rightarrow> (err, fx', set_tab p t w)))"

text \<open>The \<^verbatim>\<open>KindInput\<close> branch of \<open>handleFrame\<close>.\<close>

definition handleInput ::
  "(bytes \<Rightarrow> digest) \<Rightarrow> time \<Rightarrow> nat \<Rightarrow> ticket_record \<Rightarrow> frame \<Rightarrow> goerr option \<Rightarrow> goerr option \<Rightarrow>
     term_world \<Rightarrow> (goerr option \<times> effects \<times> term_world) option" where
  "handleInput sha now p r f werr resp w =
     (if length (f_Payload f) > maxInputBytes
      then Some (Some (errorsNew ''terminal input too large''), no_effects, w)
      else
      let idempotent = f_Flags f AND FlagIdempotentInput \<noteq> 0;
          key = \<lparr>rk_deviceID = tk_deviceID r, rk_sequence = f_Sequence f\<rparr>;
          payloadHash = (if idempotent then sha (f_Payload f) else replicate 32 0);
          (applied, aerr) = (if idempotent then inputWasApplied (w_heap w ! p) key payloadHash else (False, None)) in
      if aerr \<noteq> None then Some (aerr, no_effects, w)
      else if applied then Some (sendInputReceipt p key payloadHash resp no_effects w)
      else
      case lease_Renew (ts_lease (w_heap w ! p)) (tk_deviceID r) now of
        ((_, Some e), l) \<Rightarrow>
          (case lease_Holder l now of (holder, l') \<Rightarrow>
             let w1 = set_tab p ((w_heap w ! p)\<lparr>ts_lease := l'\<rparr>) w in
             map_option (\<lambda>w2. (Some e, no_effects, w2))
               (broadcast_tab p (control_frame KindLeaseDenied (ts_id (w_heap w ! p)) (l_DeviceID holder)) w1))
      | ((_, None), l) \<Rightarrow>
          let t1 = (w_heap w ! p)\<lparr>ts_lease := l\<rparr> in
          (case writeInput t1 werr (f_Payload f) (if idempotent then Some key else None) payloadHash of
             ((wrote, err), handed, t2) \<Rightarrow>
               let w1 = set_tab p t2 w; fx = no_effects\<lparr>fx_pty := handed\<rparr> in
               if err \<noteq> None then Some (err, fx, w1)
               else
               let w2 = (if wrote then observeActivity p ''input'' now w1 else w1) in
               if idempotent then Some (sendInputReceipt p key payloadHash resp fx w2)
               else Some (None, fx, w2)))"

definition handleResize ::
  "time \<Rightarrow> nat \<Rightarrow> ticket_record \<Rightarrow> frame \<Rightarrow> goerr option \<Rightarrow> term_world \<Rightarrow> goerr option \<times> effects \<times> term_world" where
  "handleResize now p r f zerr w =
     (case lease_Renew (ts_lease (w_heap w ! p)) (tk_deviceID r) now of
        ((_, Some e), l) \<Rightarrow> (Some e, no_effects, w)
      | ((_, None), l) \<Rightarrow>
          let w1 = set_tab p ((w_heap w ! p)\<lparr>ts_lease := l\<rparr>) w in
          (case ParseSize (f_Payload f) of
             Inl e \<Rightarrow> (Some e, no_effects, w1)
           | Inr sz \<Rightarrow> (zerr, no_effects\<lparr>fx_resize := Some sz\<rparr>, w1)))"

definition handleLeaseRequest ::
  "time \<Rightarrow> nat \<Rightarrow> ticket_record \<Rightarrow> frame \<Rightarrow> term_world \<Rightarrow> (goerr option \<times> effects \<times> term_world) option" where
  "handleLeaseRequest now p r f w =
     (if f_Payload f \<noteq> bytes_of (tk_deviceID r) \<or> length (f_Payload f) > 256
      then Some (Some (errorsNew ''lease identity mismatch''), no_effects, w)
      else
      case lease_Request (ts_lease (w_heap w ! p)) (tk_deviceID r) (f_Flags f AND FlagTakeLease \<noteq> 0) now of
        ((d, err), l) \<Rightarrow>
          let tid = ts_id (w_heap w ! p); w1 = set_tab p ((w_heap w ! p)\<lparr>ts_lease := l\<rparr>) w in
          (case err of
             Some e \<Rightarrow> map_option (\<lambda>w2. (None, no_effects, w2))
               (broadcast_tab p (control_frame KindLeaseDenied tid (l_DeviceID (ld_Lease d))) w1)
           | None \<Rightarrow> map_option (\<lambda>w2. (None, no_effects,
               if m_audit (w_mgr w2)
               then w2\<lparr>w_audit := w_audit w2 @ [\<lparr>au_Kind = ''terminal_lease_granted'', au_OwnerID = tk_ownerID r,
                      au_WorkspaceID = tk_workspaceID r, au_TabID = TabID_String tid,
                      au_DeviceID = tk_deviceID r, au_DisplacedDeviceID = ld_Displaced d\<rparr>]\<rparr> else w2))
               (broadcast_tab p (control_frame KindLeaseGranted tid (l_DeviceID (ld_Lease d))) w1)))"

definition frame_body ::
  "(bytes \<Rightarrow> digest) \<Rightarrow> time \<Rightarrow> nat \<Rightarrow> ticket_record \<Rightarrow> frame \<Rightarrow> goerr option \<Rightarrow> goerr option \<Rightarrow> goerr option \<Rightarrow>
     term_world \<Rightarrow> (goerr option \<times> effects \<times> term_world) option" where
  "frame_body sha now p r f werr zerr resp w =
     (if f_Kind f = KindInput then handleInput sha now p r f werr resp w
      else if f_Kind f = KindResize then Some (handleResize now p r f zerr w)
      else if f_Kind f = KindLeaseRequest then handleLeaseRequest now p r f w
      else if f_Kind f = KindPing
      then Some (resp, no_effects\<lparr>fx_responses := [\<lparr>f_Kind = KindPong, f_Flags = 0, f_Sequence = f_Sequence f,
                   f_TabID = f_TabID f, f_Payload = f_Payload f\<rparr>]\<rparr>, w)
      else if f_Kind f = KindPong then Some (None, no_effects, w)
      else if f_Kind f = KindAck then
        (if f_Flags f = 0 then Some (None, no_effects, w)
         else if f_Flags f = FlagInputReceiptConfirmed
         then (case confirmInputReceipt (w_heap w ! p)
                 \<lparr>rk_deviceID = tk_deviceID r, rk_sequence = f_Sequence f\<rparr> of
                 (err, t) \<Rightarrow> Some (err, no_effects, set_tab p t w))
         else Some (Some (errorsNew ''client sent a server-only input receipt''), no_effects, w))
      else Some (Some (errorsNew ''client sent a server-only terminal frame''), no_effects, w))"

text \<open>\<open>handleFrame\<close>: a state-changing frame runs inside the mutation gate of its connection.\<close>

definition handleFrame ::
  "(bytes \<Rightarrow> digest) \<Rightarrow> time \<Rightarrow> admitted \<Rightarrow> frame \<Rightarrow> goerr option \<Rightarrow> goerr option \<Rightarrow> goerr option \<Rightarrow>
     term_world \<Rightarrow> (goerr option \<times> effects \<times> term_world) option" where
  "handleFrame sha now ad f werr zerr resp w =
     (if frameMutatesTerminalState f
      then (case begin_mutation (ad_conn ad) (w_conns w) of
              (False, c) \<Rightarrow> Some (Some access_revoked, no_effects, w\<lparr>w_conns := c\<rparr>)
            | (True, c) \<Rightarrow> do {
                (err, fx, w') \<leftarrow> frame_body sha now (ad_tab ad) (ad_record ad) f werr zerr resp (w\<lparr>w_conns := c\<rparr>);
                c' \<leftarrow> end_mutation (ad_conn ad) (w_conns w');
                Some (err, fx, w'\<lparr>w_conns := c'\<rparr>) })
      else frame_body sha now (ad_tab ad) (ad_record ad) f werr zerr resp w)"

datatype read_outcome = Continue | CloseConnection nat bytes

text \<open>One iteration of \<open>readFrames\<close> on a received message (\<open>binary\<close>: its type); 1003 and 1008 are
  the WebSocket close codes.\<close>

definition readFrame ::
  "(bytes \<Rightarrow> digest) \<Rightarrow> time \<Rightarrow> admitted \<Rightarrow> bool \<Rightarrow> bytes \<Rightarrow> goerr option \<Rightarrow> goerr option \<Rightarrow> goerr option \<Rightarrow>
     term_world \<Rightarrow> (read_outcome \<times> effects \<times> term_world) option" where
  "readFrame sha now ad binary data werr zerr resp w =
     (if \<not> binary then Some (CloseConnection 1003 (bytes_of ''binary terminal frames required''), no_effects, w)
      else case ParseFrame data of
        Inl e \<Rightarrow> Some (CloseConnection 1008 (bytes_of ''invalid terminal frame''), no_effects, w)
      | Inr f \<Rightarrow>
          if \<not> tab_IsZero (f_TabID f) \<and> f_TabID f \<noteq> ts_id (w_heap w ! ad_tab ad)
          then Some (CloseConnection 1008 (bytes_of ''invalid terminal frame''), no_effects, w)
          else map_option (\<lambda>(err, fx, w').
                 (case err of None \<Rightarrow> Continue
                  | Some e \<Rightarrow> CloseConnection 1008 (boundedReason (bytes_of (err_msg e))), fx, w'))
                 (handleFrame sha now ad f werr zerr resp w))"

subsection \<open>What a frame can do\<close>

text \<open>Tab identifiers print and parse back: parsing the canonical UUID text of a non-zero identifier
  gives it back, a parsed identifier is 16 bytes and non-zero, and generated identifiers carry the
  version and variant bits of a random UUID.
\<close>

theorem tab_id_roundtrip:
  shows "(length tid = 16 \<longrightarrow> \<not> tab_IsZero tid \<longrightarrow> ParseTabID (TabID_String tid) = Inr tid)
    \<and> (ParseTabID s = Inr t \<longrightarrow> length t = 16 \<and> \<not> tab_IsZero t)
    \<and> (length b = 16 \<longrightarrow> length (NewTabID b) = 16 \<and> NewTabID b ! 6 AND 0xf0 = 0x40 \<and> NewTabID b ! 8 AND 0xc0 = 0x80)"
proof (intro conjI impI)
  assume l: "length tid = 16" and z: "\<not> tab_IsZero tid"
  let ?e = "hex_EncodeToString tid"
  let ?ns = "\<lambda>s. filter (\<lambda>c. c \<noteq> CHR ''-'') s"
  have keep: "?ns xs = xs" if "set xs \<subseteq> set ?e" for xs
    using that hex_no_dash [of tid] by (auto simp: filter_id_conv)
  have sub: "set (slice i j ?e) \<subseteq> set ?e" "set (drop i ?e) \<subseteq> set ?e" for i j
    by (auto simp: slice_def dest: in_set_takeD in_set_dropD)
  have join: "slice 0 8 ?e @ slice 8 12 ?e @ slice 12 16 ?e @ slice 16 20 ?e @ drop 20 ?e = ?e"
  proof -
    have cut: "slice i j ?e @ drop j ?e = drop i ?e" if "i \<le> j" for i j
      using that by (simp add: slice_def) (metis append_take_drop_id drop_drop le_add_diff_inverse2)
    show ?thesis using cut [of 16 20] cut [of 12 16] cut [of 8 12] cut [of 0 8] by simp
  qed
  have "?ns (TabID_String tid) = ?e"
    unfolding TabID_String_def Let_def by (simp add: keep sub join)
  then show "ParseTabID (TabID_String tid) = Inr tid" using l z by (simp add: ParseTabID_def)
next
  assume "ParseTabID s = Inr t"
  then show "length t = 16" "\<not> tab_IsZero t" by (auto simp: ParseTabID_def Let_def split: option.splits if_splits)
next
  assume "length b = 16"
  then show "length (NewTabID b) = 16" by (simp add: NewTabID_def)
  show "NewTabID b ! 6 AND 0xf0 = 0x40" "NewTabID b ! 8 AND 0xc0 = 0x80"
    using \<open>length b = 16\<close>
    by (simp_all add: NewTabID_def bit.conj_disj_distrib2 and.assoc)
qed

theorem tab_id_roundtrip_witness:
  shows "ParseTabID (TabID_String example_id) = Inr example_id
    \<and> length (NewTabID example_id) = 16 \<and> NewTabID example_id ! 6 AND 0xf0 = 0x40"
  using tab_id_roundtrip [of example_id "[]" "[]" example_id] example_id_ok
  by (simp add: example_id_def)

lemma frame_kind_cases:
  "frameMutatesTerminalState f \<longleftrightarrow> f_Kind f = KindInput \<or> f_Kind f = KindResize \<or> f_Kind f = KindLeaseRequest
     \<or> f_Kind f = KindAck \<and> f_Flags f = FlagInputReceiptConfirmed"
  by (auto simp: frameMutatesTerminalState_def)

lemma kinds_differ [simp]:
  "KindResize \<noteq> KindInput" "KindInput \<noteq> KindResize" "KindLeaseRequest \<noteq> KindInput" "KindLeaseRequest \<noteq> KindResize"
  "KindPing \<noteq> KindInput" "KindPing \<noteq> KindResize" "KindPing \<noteq> KindLeaseRequest"
  "KindPong \<noteq> KindInput" "KindPong \<noteq> KindResize" "KindPong \<noteq> KindLeaseRequest" "KindPong \<noteq> KindPing"
  "KindAck \<noteq> KindInput" "KindAck \<noteq> KindResize" "KindAck \<noteq> KindLeaseRequest" "KindAck \<noteq> KindPing" "KindAck \<noteq> KindPong"
  by (simp_all add: kind_defs)

lemma sendInputReceipt_pty [simp]: "fx_pty (fst (snd (sendInputReceipt p k h resp fx w))) = fx_pty fx"
  by (simp add: sendInputReceipt_def Let_def split: option.split prod.split)

text \<open>Bytes reach the PTY only through a lease renewal.\<close>

lemma handleInput_pty:
  assumes "handleInput sha now p r f werr resp w = Some (err, fx, w')" "fx_pty fx = Some bs"
  shows "bs = f_Payload f \<and> lease_renew_error (ts_lease (w_heap w ! p)) (tk_deviceID r) now = None
    \<and> length bs \<le> maxInputBytes"
  using assms
  by (auto simp: handleInput_def Let_def no_effects_def lease_renew_error_def writeInput_def
      split: if_splits prod.splits option.splits)
     (auto simp: sendInputReceipt_def Let_def split: option.splits prod.splits)

lemma handleInput_resize: "handleInput sha now p r f werr resp w = Some (err, fx, w') \<Longrightarrow> fx_resize fx = None"
  by (auto simp: handleInput_def sendInputReceipt_def Let_def no_effects_def split: if_splits prod.splits option.splits)

lemma lease_renew_ok: "lease_renew_error m d now = None \<longleftrightarrow> l_DeviceID (lm_lease m) = d \<and> now < l_ExpiresAt (lm_lease m)"
  by (simp add: lease_renew_error_def lease_Renew_def Let_def)


text \<open>A concrete connection whose device holds the lease, and one frame of input from it.\<close>

definition world_leased :: term_world where
  "world_leased = set_tab 0 ((w_heap world_admitted ! 0)\<lparr>ts_lease :=
     \<lparr>lm_ttl = 45 * second, lm_lease = \<lparr>l_DeviceID = ''d'', l_ExpiresAt = 45 * second\<rparr>\<rparr>\<rparr>) world_admitted"

definition example_input :: frame where
  "example_input = \<lparr>f_Kind = KindInput, f_Flags = 0, f_Sequence = 0, f_TabID = example_id, f_Payload = [65]\<rparr>"

lemma example_input_handled:
  "\<exists>fx w'. handleFrame (\<lambda>_. []) 0 conn_admitted example_input None None None world_leased = Some (None, fx, w')
     \<and> fx_pty fx = Some [65]"
  by (simp add: handleFrame_def frame_kind_cases example_input_def begin_mutation_def mutation_begin_def
      frame_body_def handleInput_def maxInputBytes_def world_leased_def set_tab_def lease_Renew_def
      writeInput_def input_refusal_def no_effects_def observeActivity_def end_mutation_def mutation_end_def
      new_subscriber_def newConnectionMutationGate_def example_defs)


text \<open>A retry of an applied input is acknowledged and not written again, even when the lease has moved
  to another device: no bytes reach the PTY, the receipt frame is the only response, the lease is
  untouched, and the handler fails only if the response could not be delivered.
\<close>

theorem retry_acknowledged_not_rewritten:
  assumes "f_Kind f = KindInput" "f_Flags f AND FlagIdempotentInput \<noteq> 0" "length (f_Payload f) \<le> 65536"
    and "ad_conn ad < length (w_conns w)" "\<not> mg_revoked (sb_mutations (w_conns w ! ad_conn ad))"
    and "mg_inFlight (sb_mutations (w_conns w ! ad_conn ad)) = 0" "ad_tab ad < length (w_heap w)"
    and "key = \<lparr>rk_deviceID = tk_deviceID (ad_record ad), rk_sequence = f_Sequence f\<rparr>"
    and "inputWasApplied (w_heap w ! ad_tab ad) key (sha (f_Payload f)) = (True, None)"
  shows "\<exists>w'. handleFrame sha now ad f werr zerr resp w =
      Some (resp, no_effects\<lparr>fx_responses := [receipt_frame (ts_id (w_heap w ! ad_tab ad)) key]\<rparr>, w')
    \<and> ts_lease (w_heap w' ! ad_tab ad) = ts_lease (w_heap w ! ad_tab ad)
    \<and> inputWasApplied (w_heap w' ! ad_tab ad) key (sha (f_Payload f)) = (True, None)"
proof -
  let ?a = "ad_conn ad" and ?p = "ad_tab ad"
  let ?t = "w_heap w ! ?p"
  obtain t' where m: "markInputReceiptWritten ?t key (sha (f_Payload f)) = (None, t')"
    and t': "ts_lease t' = ts_lease ?t" "inputWasApplied t' key (sha (f_Payload f)) = (True, None)"
    using assms(9)
    by (auto simp: inputWasApplied_def markInputReceiptWritten_def split: option.splits if_splits)
  obtain c where b: "begin_mutation ?a (w_conns w) = (True, c)" "mg_inFlight (sb_mutations (c ! ?a)) = 1"
    "\<not> mg_revoked (sb_mutations (c ! ?a))"
    using assms(4-6) by (simp add: begin_mutation_def mutation_begin_def)
  then obtain c' where e: "end_mutation ?a c = Some c'" by (simp add: end_mutation_def mutation_end_def Let_def)
  have body: "frame_body sha now ?p (ad_record ad) f werr zerr resp (w\<lparr>w_conns := c\<rparr>) =
      Some (sendInputReceipt ?p key (sha (f_Payload f)) resp no_effects (w\<lparr>w_conns := c\<rparr>))"
    using assms(1-3,8,9) by (simp add: frame_body_def handleInput_def maxInputBytes_def Let_def)
  show ?thesis
  proof (cases resp)
    case None
    then show ?thesis
      using assms(1,7,9) b(1) e body m t'
      by (simp add: handleFrame_def frame_kind_cases sendInputReceipt_def Let_def set_tab_def no_effects_def)
  next
    case (Some err)
    then show ?thesis
      using assms(1,7,9) b(1) e body m t'
      by (simp add: handleFrame_def frame_kind_cases sendInputReceipt_def Let_def set_tab_def no_effects_def)
  qed
qed

definition example_retry :: frame where
  "example_retry = \<lparr>f_Kind = KindInput, f_Flags = FlagIdempotentInput, f_Sequence = 7, f_TabID = example_id, f_Payload = [65]\<rparr>"

definition world_applied :: term_world where
  "world_applied = set_tab 0 ((w_heap world_admitted ! 0)\<lparr>ts_inputReceipts :=
     [(\<lparr>rk_deviceID = ''d'', rk_sequence = 7\<rparr>, \<lparr>rr_payloadHash = [], rr_receiptWritten = False\<rparr>)],
     ts_inputReceiptCounts := [(''d'', 1)]\<rparr>) world_admitted"

theorem retry_acknowledged_not_rewritten_witness:
  "\<exists>w'. handleFrame (\<lambda>_. []) 0 conn_admitted example_retry None None None world_applied =
      Some (None, no_effects\<lparr>fx_responses := [receipt_frame (ts_id (w_heap world_applied ! 0))
        \<lparr>rk_deviceID = ''d'', rk_sequence = 7\<rparr>]\<rparr>, w')"
proof -
  have ad: "ad_tab conn_admitted = 0" "ad_conn conn_admitted = 0" "tk_deviceID (ad_record conn_admitted) = ''d''"
    by (simp_all add: conn_admitted_def example_record_def)
  have 1: "f_Kind example_retry = KindInput" "f_Flags example_retry AND FlagIdempotentInput \<noteq> 0"
    "length (f_Payload example_retry) \<le> 65536"
    by (simp_all add: example_retry_def FlagIdempotentInput_def)
  have 2: "ad_conn conn_admitted < length (w_conns world_applied)"
    "\<not> mg_revoked (sb_mutations (w_conns world_applied ! ad_conn conn_admitted))"
    "mg_inFlight (sb_mutations (w_conns world_applied ! ad_conn conn_admitted)) = 0"
    "ad_tab conn_admitted < length (w_heap world_applied)"
    by (simp_all add: ad world_applied_def set_tab_def world_admitted_def new_subscriber_def newConnectionMutationGate_def)
  have 3: "\<lparr>rk_deviceID = ''d'', rk_sequence = 7\<rparr> =
      \<lparr>rk_deviceID = tk_deviceID (ad_record conn_admitted), rk_sequence = f_Sequence example_retry\<rparr>"
    by (simp add: ad example_retry_def)
  have 4: "inputWasApplied (w_heap world_applied ! ad_tab conn_admitted) \<lparr>rk_deviceID = ''d'', rk_sequence = 7\<rparr>
      ((\<lambda>_. []) (f_Payload example_retry)) = (True, None)"
    by (simp add: ad world_applied_def set_tab_def world_admitted_def inputWasApplied_def)
  from retry_acknowledged_not_rewritten [OF 1 2 3 4, of 0 None None None] ad show ?thesis by auto
qed

text \<open>A refused frame changes nothing: a state-changing frame on a revoked connection, a frame of a
  server-only kind, and an acknowledgement with a server-only flag are each answered with an error,
  without any effect on the PTY, the client or the shared state.
\<close>

theorem refused_frame_changes_nothing:
  assumes "frameMutatesTerminalState f \<and> mg_revoked (sb_mutations (w_conns w ! ad_conn ad))
    \<or> f_Kind f \<in> {KindOutput, KindReplayGap, KindLeaseGranted, KindLeaseDenied, KindTabClosed, KindAttention}
    \<or> f_Kind f = KindAck \<and> f_Flags f \<notin> {0, FlagInputReceiptConfirmed}"
  shows "\<exists>e. handleFrame sha now ad f werr zerr resp w = Some (Some e, no_effects, w)"
  using assms
proof (elim disjE conjE)
  assume "frameMutatesTerminalState f" "mg_revoked (sb_mutations (w_conns w ! ad_conn ad))"
  then show ?thesis by (simp add: handleFrame_def begin_mutation_def mutation_begin_def)
next
  assume "f_Kind f \<in> {KindOutput, KindReplayGap, KindLeaseGranted, KindLeaseDenied, KindTabClosed, KindAttention}"
  then show ?thesis by (auto simp: handleFrame_def frame_kind_cases frame_body_def kind_defs)
next
  assume "f_Kind f = KindAck" "f_Flags f \<notin> {0, FlagInputReceiptConfirmed}"
  then show ?thesis by (simp add: handleFrame_def frame_kind_cases frame_body_def)
qed

theorem refused_frame_changes_nothing_witness:
  "\<exists>e. handleFrame (\<lambda>_. []) 0 conn_admitted (control_frame KindLeaseGranted example_id ''d'') None None None world_leased
     = Some (Some e, no_effects, world_leased)"
  by (rule refused_frame_changes_nothing) (simp add: control_frame_def)

end
