(* ===== verification/Terminal_Credentials.thy ===== *)
theory Terminal_Credentials
  imports Terminal_Accounting
begin

text \<open>
  Properties of the one-use tickets and reconnect tokens of the terminal manager: a ticket is
  accepted at most once, an issued ticket admits exactly what it was issued for, and the tables of
  unused credentials stay within their limits. The keyed hash is a parameter; where a property needs
  that different tickets have different hashes, that is a hypothesis.
\<close>

subsection \<open>The outcome of Issue\<close>

lemma Issue_ok:
  assumes "Issue hash now r1 r2 ow dev ws tab seq tok w = (Inr cn, w')"
  obtains p b1 b2 rs l where "map_of (m_tabs (w_mgr w)) tab = Some p" "ts_ownerID (w_heap w ! p) = ow"
    "ts_workspaceID (w_heap w ! p) = ws" "\<not> ts_closed (w_heap w ! p)" "\<not> m_closed (w_mgr w)" "dev \<noteq> []"
    "r1 = Inr b1" "cn_Ticket cn = ticket_prefix @ RawURLEncode b1" "r2 = Inr b2"
    "rs = (if tok = [] then m_reconnects (cleanupLocked now (w_mgr w))
           else AList.delete (hash ''reconnect'' tok) (m_reconnects (cleanupLocked now (w_mgr w))))"
    "requireCredentialCapacityLocked (cleanupLocked now (w_mgr w)) ow dev tab
       (if tok = [] then None else Some (hash ''reconnect'' tok)) = None"
    "w' = w\<lparr>w_mgr := (cleanupLocked now (w_mgr w))\<lparr>
              m_tickets := AList.update (hash ''ticket'' (cn_Ticket cn))
                \<lparr>tk_ownerID = ow, tk_deviceID = dev, tk_workspaceID = ws, tk_tabID = tab, tk_afterSequence = seq,
                 tk_expiresAt = now + m_ticketTTL (w_mgr w)\<rparr> (m_tickets (cleanupLocked now (w_mgr w))),
              m_reconnects := AList.update (hash ''reconnect'' (cn_ReconnectToken cn))
                \<lparr>rc_ownerID = ow, rc_deviceID = dev, rc_workspaceID = ws, rc_tabID = tab,
                 rc_expiresAt = now + m_reconnectTTL (w_mgr w)\<rparr> rs\<rparr>,
           w_heap := (w_heap w)[p := (w_heap w ! p)\<lparr>ts_lease := l\<rparr>]\<rparr>"
proof -
  have ttl: "m_ticketTTL (cleanupLocked now (w_mgr w)) = m_ticketTTL (w_mgr w)"
    "m_reconnectTTL (cleanupLocked now (w_mgr w)) = m_reconnectTTL (w_mgr w)" by (simp_all add: cleanupLocked_def)
  from assms show ?thesis
    using that unfolding Issue_def Let_def randomCredential_def ttl
    by (auto split: if_splits option.splits sum.splits prod.splits)
qed

lemma Issue_tickets:
  assumes "Issue hash now r1 r2 ow dev ws tab seq tok w = (res, w')"
  shows "fst ` set (m_tickets (w_mgr w')) \<subseteq> fst ` set (m_tickets (w_mgr w))
    \<union> (case res of Inl e \<Rightarrow> {} | Inr cn \<Rightarrow> {hash ''ticket'' (cn_Ticket cn)})"
proof (cases res)
  case (Inl e)
  with assms have "w' = w \<or> w' = w\<lparr>w_mgr := cleanupLocked now (w_mgr w)\<rparr>"
    by (auto simp: Issue_def Let_def split: if_splits option.splits sum.splits prod.splits)
  with Inl show ?thesis by (auto simp: cleanupLocked_def)
next
  case (Inr cn)
  with assms have "Issue hash now r1 r2 ow dev ws tab seq tok w = (Inr cn, w')" by simp
  then show ?thesis
    by (rule Issue_ok) (auto simp: Inr cleanupLocked_def dom_update)
qed

subsection \<open>A ticket is used at most once\<close>

text \<open>\<open>issues hash tk s s'\<close>: the step from \<open>s\<close> to \<open>s'\<close> issues the ticket \<open>tk\<close>.\<close>

definition issues :: "(string \<Rightarrow> string \<Rightarrow> digest) \<Rightarrow> string \<Rightarrow> mgr_state \<Rightarrow> mgr_state \<Rightarrow> bool" where
  "issues hash tk s s' \<longleftrightarrow> (\<exists>now r1 r2 ow dev ws tab seq tok cn.
     Issue hash now r1 r2 ow dev ws tab seq tok (fst s) = (Inr cn, fst s') \<and> cn_Ticket cn = tk)"

lemma close_tabs_mgr: "close_tabs ps reason w = Some w' \<Longrightarrow> w_mgr w' = w_mgr w"
  by (induction ps reason w rule: close_tabs.induct) (auto simp: bind_eq_Some_conv)

text \<open>Every other operation only removes credentials.\<close>

definition shrinks :: "manager \<Rightarrow> manager \<Rightarrow> bool" where
  "shrinks m m' \<longleftrightarrow> (\<exists>P Q. m_tickets m' = filter P (m_tickets m) \<and> m_reconnects m' = filter Q (m_reconnects m))"

lemma shrinks_same: "m_tickets m' = m_tickets m \<Longrightarrow> m_reconnects m' = m_reconnects m \<Longrightarrow> shrinks m m'"
  unfolding shrinks_def by (intro exI [of _ "\<lambda>_. True"]) simp

lemma shrinks_admit: "admit hash now tk w = Some (res, w') \<Longrightarrow> shrinks (w_mgr w) (w_mgr w')"
proof -
  assume a: "admit hash now tk w = Some (res, w')"
  have "(m_tickets (w_mgr w') = m_tickets (w_mgr w) \<or>
      m_tickets (w_mgr w') = AList.delete (hash ''ticket'' tk) (m_tickets (w_mgr w)))
      \<and> m_reconnects (w_mgr w') = m_reconnects (w_mgr w)"
    using a
    by (auto simp: admit_def Let_def reserveSubscriberLocked_def releaseSubscriberLocked_def
        split: if_splits option.splits sum.splits prod.splits)
  then show ?thesis
  proof (elim conjE disjE)
    assume "m_tickets (w_mgr w') = AList.delete (hash ''ticket'' tk) (m_tickets (w_mgr w))"
      "m_reconnects (w_mgr w') = m_reconnects (w_mgr w)"
    then show ?thesis unfolding shrinks_def AList.delete_eq
      by (intro exI [of _ "\<lambda>(k', _). hash ''ticket'' tk \<noteq> k'"] exI [of _ "\<lambda>_. True"]) simp
  qed (rule shrinks_same)
qed

lemma shrinks_drop: "shrinks m (drop_tab_credentials tab m)" "shrinks m (cleanupLocked now m)"
  unfolding shrinks_def drop_tab_credentials_def cleanupLocked_def by auto

lemma shrinks_Close_begin: "Close_begin w = Some (ps, w') \<Longrightarrow> shrinks (w_mgr w) (w_mgr w')"
proof (cases "m_closed (w_mgr w)")
  case True
  assume "Close_begin w = Some (ps, w')"
  with True show ?thesis by (intro shrinks_same) (simp_all add: Close_begin_def)
next
  case False
  assume "Close_begin w = Some (ps, w')"
  with False have "m_tickets (w_mgr w') = []" "m_reconnects (w_mgr w') = []"
    by (auto simp: Close_begin_def Let_def bind_eq_Some_conv)
  then show ?thesis unfolding shrinks_def by (intro exI [of _ "\<lambda>_. False"]) simp
qed

lemma shrinks_RevokeDevice_mark: "RevokeDevice_mark ow dev w = Some (n, rs, w') \<Longrightarrow> shrinks (w_mgr w) (w_mgr w')"
  by (cases "ow = [] \<or> dev = []")
     (auto simp: RevokeDevice_mark_def Let_def bind_eq_Some_conv shrinks_same, auto simp: shrinks_def)

lemma shrinks_Unregister_begin: "Unregister_begin tab reason w = Some (po, w') \<Longrightarrow> shrinks (w_mgr w) (w_mgr w')"
  by (auto simp: Unregister_begin_def bind_eq_Some_conv shrinks_drop split: option.splits)

lemma shrinks_Register: "Register ow ws tab rt rd ob pr w = (e, w') \<Longrightarrow> shrinks (w_mgr w) (w_mgr w')"
  by (rule shrinks_same) (auto simp: Register_def split: if_splits option.splits sum.splits)

lemma shrinks_quiet:
  "unsubscribe_tab ad w = Some (b, w') \<Longrightarrow> shrinks (w_mgr w) (w_mgr w')"
  "Notify now tab kind w = Some w' \<Longrightarrow> shrinks (w_mgr w) (w_mgr w')"
  "pump_output now red p out w = Some w' \<Longrightarrow> shrinks (w_mgr w) (w_mgr w')"
  "pump_closed bs p w = Some w' \<Longrightarrow> shrinks (w_mgr w) (w_mgr w')"
  "Close_finish ps w = (err, w') \<Longrightarrow> shrinks (w_mgr w) (w_mgr w')"
  "Unregister_finish tab p cerr w = (err, w') \<Longrightarrow> shrinks (w_mgr w) (w_mgr w')"
  "unsubscribe_release ad w = Some w' \<Longrightarrow> shrinks (w_mgr w) (w_mgr w')"
proof -
  show "unsubscribe_tab ad w = Some (b, w') \<Longrightarrow> shrinks (w_mgr w) (w_mgr w')"
    by (rule shrinks_same) (auto simp: unsubscribe_tab_def)
  show "Notify now tab kind w = Some w' \<Longrightarrow> shrinks (w_mgr w) (w_mgr w')"
    by (rule shrinks_same) (auto simp: Notify_def Let_def bind_eq_Some_conv split: option.splits)
  show "pump_output now red p out w = Some w' \<Longrightarrow> shrinks (w_mgr w) (w_mgr w')"
    by (rule shrinks_same) (auto simp: pump_output_def Let_def split: prod.splits if_splits)
  show "pump_closed bs p w = Some w' \<Longrightarrow> shrinks (w_mgr w) (w_mgr w')"
    by (rule shrinks_same) (auto simp: pump_closed_def bind_eq_Some_conv)
  show "Close_finish ps w = (err, w') \<Longrightarrow> shrinks (w_mgr w) (w_mgr w')"
    by (rule shrinks_same) (auto simp: Close_finish_def split: prod.splits)
  show "Unregister_finish tab p cerr w = (err, w') \<Longrightarrow> shrinks (w_mgr w) (w_mgr w')"
    by (rule shrinks_same) (auto simp: Unregister_finish_def Let_def split: prod.splits if_splits)
  show "unsubscribe_release ad w = Some w' \<Longrightarrow> shrinks (w_mgr w) (w_mgr w')"
    by (rule shrinks_same) (auto simp: unsubscribe_release_def releaseSubscriberLocked_def Let_def split: if_splits)
qed

lemma step_credentials:
  "mgr_step hash s s' \<Longrightarrow> shrinks (w_mgr (fst s)) (w_mgr (fst s'))
    \<or> (\<exists>now r1 r2 ow dev ws tab seq tok cn. Issue hash now r1 r2 ow dev ws tab seq tok (fst s) = (Inr cn, fst s'))"
proof (induction rule: mgr_step.induct)
  case (Issue now r1 r2 ow dev ws tab seq tok w res w' live)
  show ?case
  proof (cases res)
    case (Inl e)
    with Issue have "w' = w \<or> w' = w\<lparr>w_mgr := cleanupLocked now (w_mgr w)\<rparr>"
      by (auto simp: Issue_def Let_def split: if_splits option.splits sum.splits prod.splits)
    then show ?thesis using shrinks_drop(2) [of "w_mgr w" now] by (auto simp: shrinks_same)
  next
    case (Inr cn)
    with Issue show ?thesis by (simp only: fst_conv) blast
  qed
next
  case (Configure obs w e m live)
  have "shrinks (w_mgr w) m"
    by (rule shrinks_same) (use Configure in \<open>auto simp: ConfigureActivityObserver_def split: if_splits\<close>)
  then show ?case by simp
qed (simp_all add: shrinks_Register shrinks_admit shrinks_quiet shrinks_RevokeDevice_mark shrinks_Unregister_begin
      shrinks_Close_begin RevokeDevice_release_def put_tab_def shrinks_same)

lemma step_tickets:
  assumes "mgr_step hash s s'" "\<not> issues hash tk s s'"
    and inj: "\<And>x. hash ''ticket'' x = hash ''ticket'' tk \<Longrightarrow> x = tk"
    and k: "hash ''ticket'' tk \<notin> fst ` set (m_tickets (w_mgr (fst s)))"
  shows "hash ''ticket'' tk \<notin> fst ` set (m_tickets (w_mgr (fst s')))"
  using step_credentials [OF assms(1)]
proof (elim disjE exE)
  assume "shrinks (w_mgr (fst s)) (w_mgr (fst s'))"
  with k show ?thesis by (auto simp: shrinks_def)
next
  fix now r1 r2 ow dev ws tab seq tok cn
  assume i: "Issue hash now r1 r2 ow dev ws tab seq tok (fst s) = (Inr cn, fst s')"
  with assms(2) have "cn_Ticket cn \<noteq> tk" by (auto simp: issues_def)
  then have "hash ''ticket'' (cn_Ticket cn) \<noteq> hash ''ticket'' tk" using inj by blast
  with Issue_tickets [OF i] k show ?thesis by auto
qed

lemma steps_tickets:
  assumes inj: "\<And>x. hash ''ticket'' x = hash ''ticket'' tk \<Longrightarrow> x = tk"
  shows "(\<lambda>s s'. mgr_step hash s s' \<and> \<not> issues hash tk s s')\<^sup>*\<^sup>* s s' \<Longrightarrow>
    hash ''ticket'' tk \<notin> fst ` set (m_tickets (w_mgr (fst s))) \<Longrightarrow>
    hash ''ticket'' tk \<notin> fst ` set (m_tickets (w_mgr (fst s')))"
proof (induction rule: rtranclp_induct)
  case (step y z)
  then show ?case using step_tickets [of hash y z tk] inj by blast
qed

text \<open>C34:
  A terminal ticket admits at most one connection: after a ticket was accepted, whatever happens
  next, presenting it again is refused, unless that very ticket is issued anew. (Hypothesis on the
  keyed hash: no other ticket has the same hash.)
\<close>

theorem ticket_single_use:
  assumes "admit hash now tk w = Some (Inr ad, w1)"
    and "\<And>x. hash ''ticket'' x = hash ''ticket'' tk \<Longrightarrow> x = tk"
    and "(\<lambda>s s'. mgr_step hash s s' \<and> \<not> issues hash tk s s')\<^sup>*\<^sup>* (w1, live1) (w2, live2)"
  shows "\<exists>e w3. admit hash now2 tk w2 = Some (Inl e, w3)"
proof -
  have "m_tickets (w_mgr w1) = AList.delete (hash ''ticket'' tk) (m_tickets (w_mgr w))"
    using assms(1)
    by (auto simp: admit_def Let_def reserveSubscriberLocked_def split: if_splits option.splits sum.splits prod.splits)
  then have "hash ''ticket'' tk \<notin> fst ` set (m_tickets (w_mgr w1))" by (auto simp: AList.delete_eq)
  from steps_tickets [OF assms(2,3)] this have "hash ''ticket'' tk \<notin> fst ` set (m_tickets (w_mgr w2))" by simp
  then have "map_of (m_tickets (w_mgr w2)) (hash ''ticket'' tk) = None" by (simp add: map_of_eq_None_iff)
  then show ?thesis by (auto simp: admit_def Let_def)
qed

text \<open>A hash without collisions, for concrete runs.\<close>

definition injective_hash :: "string \<Rightarrow> string \<Rightarrow> digest" where
  "injective_hash d t = bytes_of t"

lemma injective_hash_inj: "injective_hash d x = injective_hash d y \<Longrightarrow> x = y"
  by (metis injective_hash_def string_of_bytes_of)

definition world_ticketed :: term_world where
  "world_ticketed = world_issued\<lparr>w_mgr := (w_mgr world_issued)\<lparr>
     m_tickets := [(injective_hash ''ticket'' ticket_prefix, example_record)]\<rparr>\<rparr>"

lemma world_ticketed_admit: "\<exists>ad w1. admit injective_hash 0 ticket_prefix world_ticketed = Some (Inr ad, w1)"
  by (simp add: admit_def world_ticketed_def ticket_prefix_def reserveSubscriberLocked_def maxSubscribersGlobal_def
      maxSubscribersPerOwner_def maxSubscribersPerDevice_def maxSubscribersPerTab_def increment_def
      tab_subscribe_def ring_After_def defaultTicketTTL_def example_defs)

theorem ticket_single_use_witness:
  "\<exists>ad w1 e w3. admit injective_hash 0 ticket_prefix world_ticketed = Some (Inr ad, w1)
     \<and> admit injective_hash 1 ticket_prefix w1 = Some (Inl e, w3)"
proof -
  obtain ad w1 where a: "admit injective_hash 0 ticket_prefix world_ticketed = Some (Inr ad, w1)"
    using world_ticketed_admit by blast
  have inj: "\<And>x. injective_hash ''ticket'' x = injective_hash ''ticket'' ticket_prefix \<Longrightarrow> x = ticket_prefix"
    by (rule injective_hash_inj)
  from ticket_single_use [where ?now2.0 = 1, OF a inj rtranclp.rtrancl_refl] a show ?thesis by blast
qed

text \<open>A ticket stands for what it was issued for: presented before it expires, it is either refused
  for capacity or admits a connection of the same owner, device and workspace to the same tab,
  with the replay after the sequence the client asked for. Nothing panics.
\<close>

theorem issued_ticket_admits:
  assumes "slots_ok (w_mgr w) M"
    and "Issue hash now (Inr b1) r2 ow dev ws tab seq tok w = (Inr cn, w')" "length b1 = 32"
    and "map_of (m_tabs (w_mgr w)) tab = Some p" "p < length (w_heap w)" "now2 < now + m_ticketTTL (w_mgr w)"
  shows "\<exists>res w2. admit hash now2 (cn_Ticket cn) w' = Some (res, w2)
    \<and> (case res of Inl e \<Rightarrow> err_is e = ErrTerminalCapacity
       | Inr ad \<Rightarrow> tk_ownerID (ad_record ad) = ow \<and> tk_deviceID (ad_record ad) = dev
           \<and> tk_workspaceID (ad_record ad) = ws \<and> tk_tabID (ad_record ad) = tab \<and> ad_tab ad = p
           \<and> ad_replay ad = ring_After (ts_ring (w_heap w ! p)) seq
           \<and> sb_deviceID (w_conns w2 ! ad_conn ad) = dev)"
  using assms(2)
proof (cases rule: Issue_ok)
  case (1 p' b1' b2 rs l)
  with assms(4) have p': "p' = p" by simp
  let ?r = "\<lparr>tk_ownerID = ow, tk_deviceID = dev, tk_workspaceID = ws, tk_tabID = tab, tk_afterSequence = seq,
     tk_expiresAt = now + m_ticketTTL (w_mgr w)\<rparr>"
  let ?m = "(w_mgr w')\<lparr>m_tickets := AList.delete (hash ''ticket'' (cn_Ticket cn)) (m_tickets (w_mgr w'))\<rparr>"
  have tk: "has_prefix (cn_Ticket cn) ticket_prefix" "\<not> length (cn_Ticket cn) > 256"
    using 1(7,8) assms(3) by (auto simp: has_prefix_iff ticket_prefix_def)
  have w': "map_of (m_tickets (w_mgr w')) (hash ''ticket'' (cn_Ticket cn)) = Some ?r"
    "m_tabs (w_mgr w') = m_tabs (w_mgr w)" "\<not> m_closed (w_mgr w')" "slots_ok ?m M"
    "w_heap w' ! p = (w_heap w ! p)\<lparr>ts_lease := l\<rparr>"
    using 1 assms(1,5) p' by (simp_all add: cleanupLocked_def slots_ok_def)
  show ?thesis
  proof (cases "reserveSubscriberLocked ?m ?r")
    case (Inl e)
    then have "err_is e = ErrTerminalCapacity"
      by (auto simp: reserveSubscriberLocked_def Let_def terminal_capacity_def split: if_splits)
    with Inl tk w' 1(1-5) p' assms(6) show ?thesis by (simp add: admit_def Let_def)
  next
    case (Inr m1)
    show ?thesis
    proof (cases "length (ts_subscribers (w_heap w ! p)) \<ge> maxSubscribersPerTab")
      case True
      obtain m2 where m2: "releaseSubscriberLocked m1 ?r = Some m2" using slots.rollback [OF w'(4) Inr] by blast
      have s: "tab_subscribe (w_heap w' ! p) seq dev (w_conns w')
          = Inl (GoErr ErrTerminalCapacity ''terminal connection capacity reached'')"
        using True w'(5) 1(4,6) p' by (simp add: tab_subscribe_def)
      with Inr tk w' 1(1-5) p' assms(6) m2 show ?thesis by (simp add: admit_def Let_def)
    next
      case False
      then obtain t where s: "tab_subscribe (w_heap w' ! p) seq dev (w_conns w')
          = Inr (ts_nextSubscriber (w_heap w ! p) + 1, length (w_conns w'), ring_After (ts_ring (w_heap w ! p)) seq,
                 t, w_conns w' @ [new_subscriber dev])"
        using w'(5) 1(4,6) p' by (simp add: tab_subscribe_def Let_def)
      with Inr tk w' 1(1-5) p' assms(6) show ?thesis by (simp add: admit_def Let_def new_subscriber_def)
    qed
  qed
qed

theorem issued_ticket_admits_witness:
  "\<exists>cn w' res w2. Issue example_hash 0 (Inr (replicate 32 0)) (Inr []) ''o'' ''d'' ''w'' example_id 0 [] world_registered
       = (Inr cn, w')
     \<and> admit example_hash 1 (cn_Ticket cn) w' = Some (res, w2)
     \<and> (case res of Inl e \<Rightarrow> err_is e = ErrTerminalCapacity | Inr ad \<Rightarrow> tk_deviceID (ad_record ad) = ''d'')"
proof -
  have slots: "slots_ok (w_mgr world_registered) {#}"
    by (simp add: slots_ok_def counted_def world_registered_def example_world_def)
  obtain cn w' where i: "Issue example_hash 0 (Inr (replicate 32 0)) (Inr []) ''o'' ''d'' ''w'' example_id 0 [] world_registered
       = (Inr cn, w')"
    by (simp add: Issue_def example_id_ok cleanupLocked_def requireCredentialCapacityLocked_def
        maxUnusedTicketsGlobal_def maxUnusedTicketsPerOwner_def maxUnusedTicketsPerDevice_def
        maxUnusedTicketsPerTab_def maxReconnectsGlobal_def maxReconnectsPerOwner_def maxReconnectsPerDevice_def
        maxReconnectsPerTab_def randomCredential_def lease_Holder_def example_defs)
  have "map_of (m_tabs (w_mgr world_registered)) example_id = Some 0" "0 < length (w_heap world_registered)"
    "1 < 0 + m_ticketTTL (w_mgr world_registered)"
    by (simp_all add: world_registered_def example_world_def defaultTicketTTL_def)
  from issued_ticket_admits [OF slots i _ this] obtain res w2 where
    a: "admit example_hash 1 (cn_Ticket cn) w' = Some (res, w2)"
    and r: "case res of Inl e \<Rightarrow> err_is e = ErrTerminalCapacity | Inr ad \<Rightarrow> tk_deviceID (ad_record ad) = ''d'' \<and> ad_tab ad = 0"
    by (simp only: length_replicate refl simp_thms) (metis (no_types, lifting) sum.case_eq_if)
  from r have "case res of Inl e \<Rightarrow> err_is e = ErrTerminalCapacity | Inr ad \<Rightarrow> tk_deviceID (ad_record ad) = ''d''"
    by (cases res) simp_all
  with i a show ?thesis by blast
qed

subsection \<open>Bounded tables\<close>

definition rc_device_of :: "reconnect_record \<Rightarrow> string \<times> string" where
  "rc_device_of r = (rc_ownerID r, rc_deviceID r)"

definition creds_ok :: "manager \<Rightarrow> bool" where
  "creds_ok m \<longleftrightarrow> map_wf (m_tickets m) \<and> map_wf (m_reconnects m)
     \<and> bounded (m_tickets m) (\<lambda>_. ()) maxUnusedTicketsGlobal \<and> bounded (m_tickets m) tk_ownerID maxUnusedTicketsPerOwner
     \<and> bounded (m_tickets m) device_of maxUnusedTicketsPerDevice \<and> bounded (m_tickets m) tk_tabID maxUnusedTicketsPerTab
     \<and> bounded (m_reconnects m) (\<lambda>_. ()) maxReconnectsGlobal \<and> bounded (m_reconnects m) rc_ownerID maxReconnectsPerOwner
     \<and> bounded (m_reconnects m) rc_device_of maxReconnectsPerDevice \<and> bounded (m_reconnects m) rc_tabID maxReconnectsPerTab"

lemma creds_ok_shrinks: "creds_ok m \<Longrightarrow> shrinks m m' \<Longrightarrow> creds_ok m'"
  by (auto simp: creds_ok_def shrinks_def bounded_filter)

lemma creds_ok_Issue:
  assumes "Issue hash now r1 r2 ow dev ws tab seq tok w = (Inr cn, w')" "creds_ok (w_mgr w)"
  shows "creds_ok (w_mgr w')"
  using assms(1)
proof (cases rule: Issue_ok)
  case (1 p b1 b2 rs l)
  let ?m = "cleanupLocked now (w_mgr w)"
  let ?c = "if tok = [] then None else Some (hash ''reconnect'' tok)"
  have ok: "creds_ok ?m" using assms(2) shrinks_drop(2) by (rule creds_ok_shrinks)
  obtain P where rs: "rs = filter P (m_reconnects ?m)"
  proof (cases "tok = []")
    case True
    with 1(10) that [of "\<lambda>_. True"] show ?thesis by simp
  next
    case False
    with 1(10) that show ?thesis by (simp add: AList.delete_eq)
  qed
  then have "map_wf rs" "bounded rs (\<lambda>_. ()) maxReconnectsGlobal" "bounded rs rc_ownerID maxReconnectsPerOwner"
    "bounded rs rc_device_of maxReconnectsPerDevice" "bounded rs rc_tabID maxReconnectsPerTab"
    using ok by (simp_all add: creds_ok_def bounded_filter)
  note rs = this
  have cnt: "count_where p rs = count_where (\<lambda>k v. ?c \<noteq> Some k \<and> p k v) (m_reconnects ?m)" for p
    using 1(10) by (auto simp: count_delete_conv eq_commute)
  have lim: "length (m_tickets ?m) < maxUnusedTicketsGlobal"
    "count_where (\<lambda>_ r. tk_ownerID r = ow) (m_tickets ?m) < maxUnusedTicketsPerOwner"
    "count_where (\<lambda>_ r. tk_ownerID r = ow \<and> tk_deviceID r = dev) (m_tickets ?m) < maxUnusedTicketsPerDevice"
    "count_where (\<lambda>_ r. tk_tabID r = tab) (m_tickets ?m) < maxUnusedTicketsPerTab"
    "count_where (\<lambda>_ _. True) rs < maxReconnectsGlobal"
    "count_where (\<lambda>_ r. rc_ownerID r = ow) rs < maxReconnectsPerOwner"
    "count_where (\<lambda>_ r. rc_ownerID r = ow \<and> rc_deviceID r = dev) rs < maxReconnectsPerDevice"
    "count_where (\<lambda>_ r. rc_tabID r = tab) rs < maxReconnectsPerTab"
    using 1(11) unfolding cnt requireCredentialCapacityLocked_def by (auto simp: not_le split: if_splits)
  show ?thesis
    using ok rs lim unfolding 1(12) creds_ok_def
    by (auto intro!: bounded_update simp: device_of_def rc_device_of_def length_as_count)
qed

text \<open>The credential tables are bounded in every reachable state: at most 4096 unused tickets, 1024
  per owner, 64 per device and per tab, and at most 8192 reconnect tokens, 2048 per owner, 128 per
  device and per tab, also when a reconnect token is exchanged for a new one.
\<close>

theorem credential_tables_bounded:
  assumes "mgr_reach hash n (w, live)"
  shows "let m = w_mgr w in
    length (m_tickets m) \<le> 4096 \<and> length (m_reconnects m) \<le> 8192
    \<and> (\<forall>x. count_where (\<lambda>_ r. tk_ownerID r = x) (m_tickets m) \<le> 1024
          \<and> count_where (\<lambda>_ r. rc_ownerID r = x) (m_reconnects m) \<le> 2048)
    \<and> (\<forall>x. count_where (\<lambda>_ r. device_of r = x) (m_tickets m) \<le> 64
          \<and> count_where (\<lambda>_ r. rc_device_of r = x) (m_reconnects m) \<le> 128)
    \<and> (\<forall>x. count_where (\<lambda>_ r. tk_tabID r = x) (m_tickets m) \<le> 64
          \<and> count_where (\<lambda>_ r. rc_tabID r = x) (m_reconnects m) \<le> 128)"
proof -
  have "creds_ok (w_mgr (fst s))" if "mgr_reach hash k s" for k s
    using that
  proof (induction rule: mgr_reach.induct)
    case (init pepper audit w)
    then show ?case by (auto simp: NewManager_def creds_ok_def bounded_def split: if_splits)
  next
    case (step n s s')
    from step_credentials [OF step(2)] step(3) show ?case
      by (elim disjE exE) (auto intro: creds_ok_shrinks creds_ok_Issue)
  qed
  from this [OF assms] show ?thesis
    unfolding creds_ok_def bounded_def Let_def maxUnusedTicketsGlobal_def maxUnusedTicketsPerOwner_def
      maxUnusedTicketsPerDevice_def maxUnusedTicketsPerTab_def maxReconnectsGlobal_def maxReconnectsPerOwner_def
      maxReconnectsPerDevice_def maxReconnectsPerTab_def length_as_count
    by simp
qed

theorem credential_tables_bounded_witness: "length (m_tickets (w_mgr world_admitted)) \<le> 4096"
  using credential_tables_bounded [OF world_admitted_reach] by (simp add: Let_def)

end
