(* ===== verification/Session.thy ===== *)
theory Session
  imports Go_Base64
begin

text \<open>
  Package \<^verbatim>\<open>session\<close> (\<^verbatim>\<open>session/session.go\<close>): access and refresh credentials, the rotation of a
  refresh credential and the detection of its replay. The Go interface \<^verbatim>\<open>Store\<close> is a record of
  functions over an abstract store state, so the manager's operations are the source's, calling
  whatever store they are given; \<open>MemoryStore\<close> is the store of the source. The locale
  \<open>session_store\<close> states what the manager relies on and proves the manager's properties from it,
  and its interpretation discharges the laws for \<open>MemoryStore\<close>.
  HMAC-SHA-256 is a field of the manager, the random source is the bytes it will still deliver,
  and every reading of the clock is an argument.
\<close>

subsection \<open>Data\<close>

datatype session_kind = Access | Refresh

fun kind_text :: "session_kind \<Rightarrow> string" where
  "kind_text Access = ''access''"
| "kind_text Refresh = ''refresh''"

record session_record =
  sr_ID :: string
  sr_FamilyID :: string
  sr_OwnerID :: string
  sr_DeviceID :: string
  sr_Kind :: session_kind
  sr_Hash :: bytes
  sr_CreatedAt :: time
  sr_ExpiresAt :: time
  sr_UsedAt :: "time option"
  sr_RevokedAt :: "time option"

record principal =
  p_OwnerID :: string
  p_DeviceID :: string
  p_FamilyID :: string

record token_pair =
  tp_AccessToken :: string
  tp_AccessExpiresAt :: time
  tp_RefreshToken :: string
  tp_RefreshExpiresAt :: time
  tp_DeviceID :: string

record session_device =
  sd_ID :: string
  sd_OwnerID :: string
  sd_Name :: string
  sd_Platform :: string
  sd_CreatedAt :: time
  sd_LastSeenAt :: time

text \<open>The interface \<^verbatim>\<open>Store\<close>. An operation returns its error, if any, and the new store.\<close>

record 's session_store_ops =
  so_CreatePair :: "session_record \<Rightarrow> session_record \<Rightarrow> 's \<Rightarrow> goerr option \<times> 's"
  so_Get :: "string \<Rightarrow> 's \<Rightarrow> session_record result"
  so_ValidatePrincipal :: "principal \<Rightarrow> 's \<Rightarrow> goerr option"
  so_Rotate :: "string \<Rightarrow> bytes \<Rightarrow> time \<Rightarrow> session_record \<Rightarrow> session_record \<Rightarrow> 's \<Rightarrow> goerr option \<times> 's"
  so_RevokeFamily :: "string \<Rightarrow> time \<Rightarrow> 's \<Rightarrow> goerr option \<times> 's"
  so_ListDevices :: "string \<Rightarrow> 's \<Rightarrow> session_device list result"
  so_RevokeDevice :: "string \<Rightarrow> string \<Rightarrow> time \<Rightarrow> 's \<Rightarrow> goerr option \<times> 's"

record 's session_manager =
  sm_store :: "'s session_store_ops"
  sm_hmac :: "bytes \<Rightarrow> bytes \<Rightarrow> bytes"
  sm_pepper :: bytes
  sm_accessTTL :: time
  sm_refreshTTL :: time

definition NewWithDependencies ::
  "'s session_store_ops option \<Rightarrow> (bytes \<Rightarrow> bytes \<Rightarrow> bytes) \<Rightarrow> bytes \<Rightarrow> time \<Rightarrow> time \<Rightarrow> bool \<Rightarrow> bool
    \<Rightarrow> 's session_manager result" where
  "NewWithDependencies store hmac pepper accessTTL refreshTTL hasRandom hasClock =
     (case store of
        None \<Rightarrow> Inl (errorsNew ''store, >=32-byte pepper, random source, and clock are required'')
      | Some st \<Rightarrow>
          if length pepper < 32 \<or> \<not> hasRandom \<or> \<not> hasClock
          then Inl (errorsNew ''store, >=32-byte pepper, random source, and clock are required'')
          else if accessTTL \<le> 0 \<or> accessTTL > hour \<or> refreshTTL \<le> accessTTL
          then Inl (errorsNew ''invalid session lifetimes'')
          else Inr \<lparr>sm_store = st, sm_hmac = hmac, sm_pepper = pepper, sm_accessTTL = accessTTL,
                 sm_refreshTTL = refreshTTL\<rparr>)"

subsection \<open>Credentials\<close>

text \<open>\<^verbatim>\<open>io.ReadFull\<close> on the bytes the random source will still deliver.\<close>

definition randomPart :: "nat \<Rightarrow> bytes \<Rightarrow> string result \<times> bytes" where
  "randomPart n random =
     (if length random < n then (Inl (errorsNew ''random credential''), [])
      else (Inr (RawURLEncode (take n random)), drop n random))"

definition session_hash :: "'s session_manager \<Rightarrow> session_kind \<Rightarrow> string \<Rightarrow> string \<Rightarrow> bytes" where
  "session_hash m kind rid secret =
     take 32 (sm_hmac m (sm_pepper m)
       (bytes_of ''codex-mobile:session:v1:'' @ bytes_of (kind_text kind) @ [0] @ bytes_of rid
         @ [0] @ bytes_of secret))"

definition parseToken :: "string \<Rightarrow> session_kind \<Rightarrow> (string \<times> string) result" where
  "parseToken token expected =
     (let prefix = ''cm_'' @ kind_text expected @ ''_'';
          malformed = Inl (errorsNew ''malformed credential'')
      in if \<not> has_prefix token prefix \<or> length token > 256 then malformed
         else (case split_on (CHR ''.'') (drop (length prefix) token) of
             [tid, secret] \<Rightarrow>
               if length tid < 16 \<or> length secret < 32 then malformed
               else if \<not> RawURLDecodes tid then malformed
               else if \<not> RawURLDecodes secret then malformed
               else Inr (tid, secret)
           | _ \<Rightarrow> malformed))"

definition makeRecord ::
  "'s session_manager \<Rightarrow> string \<Rightarrow> string \<Rightarrow> string \<Rightarrow> session_kind \<Rightarrow> time \<Rightarrow> time \<Rightarrow> bytes
    \<Rightarrow> (string \<times> session_record) result \<times> bytes" where
  "makeRecord m ownerID deviceID familyID kind createdAt expiresAt random =
     (case randomPart 16 random of
        (Inl e, random1) \<Rightarrow> (Inl e, random1)
      | (Inr rid, random1) \<Rightarrow>
          (case randomPart 32 random1 of
             (Inl e, random2) \<Rightarrow> (Inl e, random2)
           | (Inr secret, random2) \<Rightarrow>
               (Inr (''cm_'' @ kind_text kind @ ''_'' @ rid @ ''.'' @ secret,
                  \<lparr>sr_ID = rid, sr_FamilyID = familyID, sr_OwnerID = ownerID, sr_DeviceID = deviceID,
                   sr_Kind = kind, sr_Hash = session_hash m kind rid secret, sr_CreatedAt = createdAt,
                   sr_ExpiresAt = expiresAt, sr_UsedAt = None, sr_RevokedAt = None\<rparr>), random2)))"

subsection \<open>The manager\<close>

text \<open>The optional argument \<open>previous\<close> is the source's \<^verbatim>\<open>rotate, previousID, previousHash\<close>.\<close>

definition session_issue ::
  "'s session_manager \<Rightarrow> string \<Rightarrow> string \<Rightarrow> string \<Rightarrow> (string \<times> bytes) option \<Rightarrow> time \<Rightarrow> 's \<times> bytes
    \<Rightarrow> token_pair result \<times> 's \<times> bytes" where
  "session_issue m ownerID deviceID familyID previous now st =
     (case st of (s, random) \<Rightarrow>
       (case makeRecord m ownerID deviceID familyID Access now (now + sm_accessTTL m) random of
          (Inl e, random1) \<Rightarrow> (Inl e, s, random1)
        | (Inr (accessToken, accessRecord), random1) \<Rightarrow>
           (case makeRecord m ownerID deviceID familyID Refresh now (now + sm_refreshTTL m) random1 of
              (Inl e, random2) \<Rightarrow> (Inl e, s, random2)
            | (Inr (refreshToken, refreshRecord), random2) \<Rightarrow>
               (case (case previous of
                    Some (previousID, previousHash) \<Rightarrow>
                      so_Rotate (sm_store m) previousID previousHash now accessRecord refreshRecord s
                  | None \<Rightarrow> so_CreatePair (sm_store m) accessRecord refreshRecord s) of
                  (Some e, s1) \<Rightarrow> (Inl e, s1, random2)
                | (None, s1) \<Rightarrow>
                    (Inr \<lparr>tp_AccessToken = accessToken, tp_AccessExpiresAt = sr_ExpiresAt accessRecord,
                          tp_RefreshToken = refreshToken, tp_RefreshExpiresAt = sr_ExpiresAt refreshRecord,
                          tp_DeviceID = deviceID\<rparr>, s1, random2)))))"

definition session_Issue ::
  "'s session_manager \<Rightarrow> string \<Rightarrow> string \<Rightarrow> time \<Rightarrow> 's \<times> bytes \<Rightarrow> token_pair result \<times> 's \<times> bytes" where
  "session_Issue m ownerID deviceID now st =
     (if ownerID = [] \<or> deviceID = [] then (Inl (errorsNew ''owner and device are required''), st)
      else (case randomPart 16 (snd st) of
          (Inl e, random1) \<Rightarrow> (Inl e, fst st, random1)
        | (Inr familyID, random1) \<Rightarrow> session_issue m ownerID deviceID familyID None now (fst st, random1)))"

definition principal_of :: "session_record \<Rightarrow> principal" where
  "principal_of r = \<lparr>p_OwnerID = sr_OwnerID r, p_DeviceID = sr_DeviceID r, p_FamilyID = sr_FamilyID r\<rparr>"

definition Authenticate :: "'s session_manager \<Rightarrow> string \<Rightarrow> time \<Rightarrow> 's \<Rightarrow> principal result" where
  "Authenticate m token now s =
     (let invalid = Inl (errorsNew ''invalid access credential'') in
      case parseToken token Access of
        Inl e \<Rightarrow> Inl e
      | Inr (tid, secret) \<Rightarrow>
         (case so_Get (sm_store m) tid s of
            Inl _ \<Rightarrow> invalid
          | Inr r \<Rightarrow>
              if sr_Kind r \<noteq> Access \<or> sr_UsedAt r \<noteq> None \<or> sr_RevokedAt r \<noteq> None \<or> \<not> now < sr_ExpiresAt r
              then invalid
              else if sr_Hash r \<noteq> session_hash m Access tid secret then invalid
              else Inr (principal_of r)))"

definition refreshRecord :: "'s session_manager \<Rightarrow> string \<Rightarrow> time \<Rightarrow> 's \<Rightarrow> (session_record \<times> bytes) result" where
  "refreshRecord m token now s =
     (let invalid = Inl (errorsNew ''invalid refresh credential'') in
      case parseToken token Refresh of
        Inl e \<Rightarrow> Inl e
      | Inr (tid, secret) \<Rightarrow>
         (let hash = session_hash m Refresh tid secret in
          case so_Get (sm_store m) tid s of
            Inl _ \<Rightarrow> invalid
          | Inr r \<Rightarrow>
              if sr_Kind r \<noteq> Refresh \<or> sr_RevokedAt r \<noteq> None \<or> \<not> now < sr_ExpiresAt r then invalid
              else if sr_Hash r \<noteq> hash then invalid
              else Inr (r, hash)))"

definition RefreshPrincipal :: "'s session_manager \<Rightarrow> string \<Rightarrow> time \<Rightarrow> 's \<Rightarrow> principal result" where
  "RefreshPrincipal m token now s =
     (case refreshRecord m token now s of Inl e \<Rightarrow> Inl e | Inr (r, _) \<Rightarrow> Inr (principal_of r))"

definition session_ValidatePrincipal :: "'s session_manager \<Rightarrow> principal \<Rightarrow> 's \<Rightarrow> goerr option" where
  "session_ValidatePrincipal m p s =
     (if p_OwnerID p = [] \<or> p_DeviceID p = [] \<or> p_FamilyID p = []
      then Some (errorsNew ''session principal is incomplete'')
      else so_ValidatePrincipal (sm_store m) p s)"

text \<open>\<^verbatim>\<open>Rotate\<close> reads the clock twice: in \<^verbatim>\<open>refreshRecord\<close> and for the change it makes.\<close>

definition session_Rotate ::
  "'s session_manager \<Rightarrow> string \<Rightarrow> time \<Rightarrow> time \<Rightarrow> 's \<times> bytes \<Rightarrow> token_pair result \<times> 's \<times> bytes" where
  "session_Rotate m token now now' st =
     (case refreshRecord m token now (fst st) of
        Inl e \<Rightarrow> (Inl e, st)
      | Inr (r, hash) \<Rightarrow>
          if sr_UsedAt r \<noteq> None then
            (case so_RevokeFamily (sm_store m) (sr_FamilyID r) now' (fst st) of
               (Some e, s1) \<Rightarrow> (Inl (GoErr (err_is e) ''revoke replayed refresh family''), s1, snd st)
             | (None, s1) \<Rightarrow> (Inl (GoErr ErrReplay ''refresh credential replay detected''), s1, snd st))
          else session_issue m (sr_OwnerID r) (sr_DeviceID r) (sr_FamilyID r) (Some (sr_ID r, hash)) now' st)"

definition session_RevokeFamily :: "'s session_manager \<Rightarrow> string \<Rightarrow> time \<Rightarrow> 's \<Rightarrow> goerr option \<times> 's" where
  "session_RevokeFamily m familyID now s = so_RevokeFamily (sm_store m) familyID now s"

definition session_ListDevices :: "'s session_manager \<Rightarrow> string \<Rightarrow> 's \<Rightarrow> session_device list result" where
  "session_ListDevices m ownerID s =
     (if ownerID = [] then Inl (errorsNew ''owner is required'') else so_ListDevices (sm_store m) ownerID s)"

definition session_RevokeDevice ::
  "'s session_manager \<Rightarrow> string \<Rightarrow> string \<Rightarrow> time \<Rightarrow> 's \<Rightarrow> goerr option \<times> 's" where
  "session_RevokeDevice m ownerID deviceID now s =
     (if ownerID = [] \<or> deviceID = [] then (Some (errorsNew ''owner and device are required''), s)
      else so_RevokeDevice (sm_store m) ownerID deviceID now s)"

subsection \<open>The in-memory store\<close>

type_synonym session_records = "(string, session_record) gomap"

definition ms_CreatePair :: "session_record \<Rightarrow> session_record \<Rightarrow> session_records \<Rightarrow> goerr option \<times> session_records" where
  "ms_CreatePair access refresh s =
     (if map_of s (sr_ID access) \<noteq> None then (Some (errorsNew ''credential ID collision''), s)
      else if map_of s (sr_ID refresh) \<noteq> None then (Some (errorsNew ''credential ID collision''), s)
      else (None, AList.update (sr_ID refresh) refresh (AList.update (sr_ID access) access s)))"

definition ms_Get :: "string \<Rightarrow> session_records \<Rightarrow> session_record result" where
  "ms_Get rid s = (case map_of s rid of None \<Rightarrow> Inl (errorsNew ''credential not found'') | Some r \<Rightarrow> Inr r)"

text \<open>
  The loop of \<^verbatim>\<open>ValidatePrincipal\<close>: the first record of the family with another owner or device, or
  revoked, ends it with an error. The result does not depend on the iteration order.
\<close>

fun validate_loop :: "principal \<Rightarrow> bool \<Rightarrow> session_record list \<Rightarrow> goerr option" where
  "validate_loop p found [] = (if found then None else Some (errorsNew ''invalid session principal''))"
| "validate_loop p found (r # rs) =
     (if sr_FamilyID r \<noteq> p_FamilyID p then validate_loop p found rs
      else if sr_OwnerID r \<noteq> p_OwnerID p \<or> sr_DeviceID r \<noteq> p_DeviceID p \<or> sr_RevokedAt r \<noteq> None
      then Some (errorsNew ''invalid session principal'')
      else validate_loop p True rs)"

definition ms_ValidatePrincipal :: "principal \<Rightarrow> session_records \<Rightarrow> goerr option" where
  "ms_ValidatePrincipal p s = validate_loop p False (map snd s)"

definition revoke_where :: "(session_record \<Rightarrow> bool) \<Rightarrow> time \<Rightarrow> session_record \<Rightarrow> session_record" where
  "revoke_where sel now r = (if sel r \<and> sr_RevokedAt r = None then r\<lparr>sr_RevokedAt := Some now\<rparr> else r)"

definition revokeFamilyLocked :: "string \<Rightarrow> time \<Rightarrow> session_records \<Rightarrow> session_records" where
  "revokeFamilyLocked familyID now s =
     map (\<lambda>(k, r). (k, revoke_where (\<lambda>r. sr_FamilyID r = familyID) now r)) s"

definition ms_Rotate ::
  "string \<Rightarrow> bytes \<Rightarrow> time \<Rightarrow> session_record \<Rightarrow> session_record \<Rightarrow> session_records \<Rightarrow> goerr option \<times> session_records" where
  "ms_Rotate previousID previousHash now access refresh s =
     (case map_of s previousID of
        None \<Rightarrow> (Some (errorsNew ''invalid refresh credential''), s)
      | Some previous \<Rightarrow>
          if sr_Kind previous \<noteq> Refresh \<or> sr_RevokedAt previous \<noteq> None \<or> sr_Hash previous \<noteq> previousHash
          then (Some (errorsNew ''invalid refresh credential''), s)
          else if sr_UsedAt previous \<noteq> None
          then (Some (GoErr ErrReplay ''refresh credential replay detected''),
                revokeFamilyLocked (sr_FamilyID previous) now s)
          else (None,
            AList.update (sr_ID refresh) refresh (AList.update (sr_ID access) access
              (AList.update previousID (previous\<lparr>sr_UsedAt := Some now\<rparr>) s))))"

definition ms_RevokeFamily :: "string \<Rightarrow> time \<Rightarrow> session_records \<Rightarrow> goerr option \<times> session_records" where
  "ms_RevokeFamily familyID now s = (None, revokeFamilyLocked familyID now s)"

definition ms_ListDevices :: "string \<Rightarrow> session_records \<Rightarrow> session_device list result" where
  "ms_ListDevices ownerID s = Inr []"

text \<open>The in-memory store ignores the owner and revokes by device alone.\<close>

definition ms_RevokeDevice :: "string \<Rightarrow> string \<Rightarrow> time \<Rightarrow> session_records \<Rightarrow> goerr option \<times> session_records" where
  "ms_RevokeDevice ownerID deviceID now s =
     (None, map (\<lambda>(k, r). (k, revoke_where (\<lambda>r. sr_DeviceID r = deviceID) now r)) s)"

definition MemoryStore :: "session_records session_store_ops" where
  "MemoryStore = \<lparr>so_CreatePair = ms_CreatePair, so_Get = ms_Get, so_ValidatePrincipal = ms_ValidatePrincipal,
     so_Rotate = ms_Rotate, so_RevokeFamily = ms_RevokeFamily, so_ListDevices = ms_ListDevices,
     so_RevokeDevice = ms_RevokeDevice\<rparr>"

definition NewMemoryStore :: session_records where
  "NewMemoryStore = []"

subsection \<open>The specification\<close>

text \<open>
  What the credential table promises, over the table seen as a partial function from identifiers to
  records: a pair may be added in a family never seen before, a live refresh record may be used up
  for one new pair of the same family, owner and device, records may be marked revoked, and nothing
  else happens to the table.
\<close>

type_synonym session_table = "string \<Rightarrow> session_record option"

definition live_refresh :: "session_record \<Rightarrow> bool" where
  "live_refresh r \<longleftrightarrow> sr_Kind r = Refresh \<and> sr_UsedAt r = None \<and> sr_RevokedAt r = None"

definition new_pair :: "session_table \<Rightarrow> session_record \<Rightarrow> session_record \<Rightarrow> bool" where
  "new_pair v a r \<longleftrightarrow> v (sr_ID a) = None \<and> v (sr_ID r) = None \<and> sr_ID a \<noteq> sr_ID r
     \<and> sr_Kind a = Access \<and> sr_Kind r = Refresh
     \<and> sr_FamilyID a = sr_FamilyID r \<and> sr_OwnerID a = sr_OwnerID r \<and> sr_DeviceID a = sr_DeviceID r
     \<and> sr_UsedAt a = None \<and> sr_UsedAt r = None \<and> sr_RevokedAt a = None \<and> sr_RevokedAt r = None"

inductive table_step :: "session_table \<Rightarrow> session_table \<Rightarrow> bool" where
  table_issue: "new_pair v a r \<Longrightarrow> sr_FamilyID r \<notin> sr_FamilyID ` ran v \<Longrightarrow>
     table_step v (v(sr_ID a \<mapsto> a, sr_ID r \<mapsto> r))"
| table_rotate: "new_pair v a r \<Longrightarrow> v pid = Some p \<Longrightarrow> live_refresh p \<Longrightarrow>
     principal_of p = principal_of r \<Longrightarrow>
     table_step v (v(pid \<mapsto> p\<lparr>sr_UsedAt := Some now\<rparr>, sr_ID a \<mapsto> a, sr_ID r \<mapsto> r))"
| table_revoke: "table_step v (\<lambda>rid. map_option (revoke_where sel now) (v rid))"
| table_same: "table_step v v"

inductive_cases table_stepE: "table_step v v'"

text \<open>
  The table's invariant: a record is filed under its own identifier, a family has one owner and
  device, and at most one refresh record of a family is live.
\<close>

definition table_ok :: "session_table \<Rightarrow> bool" where
  "table_ok v \<longleftrightarrow> (\<forall>i r. v i = Some r \<longrightarrow> sr_ID r = i)
     \<and> (\<forall>i j r q. v i = Some r \<longrightarrow> v j = Some q \<longrightarrow> sr_FamilyID r = sr_FamilyID q \<longrightarrow> principal_of r = principal_of q)
     \<and> (\<forall>i j r q. v i = Some r \<longrightarrow> v j = Some q \<longrightarrow> sr_FamilyID r = sr_FamilyID q
          \<longrightarrow> live_refresh r \<longrightarrow> live_refresh q \<longrightarrow> i = j)"

text \<open>A record later in the life of the table: only unset marks may have been set.\<close>

definition record_later :: "session_record \<Rightarrow> session_record \<Rightarrow> bool" where
  "record_later r q \<longleftrightarrow> (\<exists>u w. q = r\<lparr>sr_UsedAt := u, sr_RevokedAt := w\<rparr>
     \<and> (sr_UsedAt r \<noteq> None \<longrightarrow> u = sr_UsedAt r) \<and> (sr_RevokedAt r \<noteq> None \<longrightarrow> w = sr_RevokedAt r))"

definition family_dead :: "session_table \<Rightarrow> string \<Rightarrow> bool" where
  "family_dead v f \<longleftrightarrow> f \<in> sr_FamilyID ` ran v
     \<and> (\<forall>r \<in> ran v. sr_FamilyID r = f \<longrightarrow> sr_RevokedAt r \<noteq> None)"

lemma record_later_refl [simp]: "record_later r r"
  unfolding record_later_def by (rule exI [of _ "sr_UsedAt r"], rule exI [of _ "sr_RevokedAt r"]) simp

lemma record_later_fields:
  assumes "record_later r q"
  shows "sr_FamilyID q = sr_FamilyID r" "sr_ID q = sr_ID r" "sr_Kind q = sr_Kind r" "principal_of q = principal_of r"
    "sr_Hash q = sr_Hash r" "sr_ExpiresAt q = sr_ExpiresAt r"
    "sr_RevokedAt r \<noteq> None \<Longrightarrow> sr_RevokedAt q \<noteq> None" "sr_UsedAt r \<noteq> None \<Longrightarrow> sr_UsedAt q \<noteq> None"
  using assms by (auto simp: record_later_def principal_of_def)

lemma record_later_trans: "record_later r q \<Longrightarrow> record_later q z \<Longrightarrow> record_later r z"
  unfolding record_later_def by (elim exE conjE) (simp, metis)

lemma record_later_used: "live_refresh p \<Longrightarrow> record_later p (p\<lparr>sr_UsedAt := Some now\<rparr>)"
  unfolding record_later_def live_refresh_def
  by (rule exI [of _ "Some now"], rule exI [of _ "sr_RevokedAt p"]) simp

lemma record_later_revoke: "record_later r (revoke_where sel now r)"
  unfolding record_later_def revoke_where_def
  by (rule exI [of _ "sr_UsedAt r"], rule exI [of _ "sr_RevokedAt (revoke_where sel now r)"])
     (simp add: revoke_where_def)

lemma family_seen: "v i = Some r \<Longrightarrow> sr_FamilyID r \<in> sr_FamilyID ` ran v"
  by (blast intro: ranI)

lemma table_step_later:
  assumes "table_step v v'" "v i = Some r"
  shows "\<exists>q. v' i = Some q \<and> record_later r q"
  using assms
proof (cases rule: table_step.cases)
  case (table_issue a b)
  then have "i \<noteq> sr_ID a" "i \<noteq> sr_ID b" using assms(2) by (auto simp: new_pair_def)
  with table_issue assms(2) show ?thesis by simp
next
  case (table_rotate a b pid p now)
  then have "i \<noteq> sr_ID a" "i \<noteq> sr_ID b" using assms(2) by (auto simp: new_pair_def)
  with table_rotate assms(2) record_later_used [of p now] show ?thesis by (cases "i = pid") simp_all
qed (auto simp: assms(2) record_later_revoke)

lemma table_steps_later:
  assumes "table_step\<^sup>*\<^sup>* v v'" "v i = Some r"
  shows "\<exists>q. v' i = Some q \<and> record_later r q"
  using assms
  by (induction rule: rtranclp_induct) (auto dest: table_step_later intro: record_later_trans)

lemma table_step_new:
  assumes "table_step v v'" "v' i = Some q" "v i = None"
  shows "sr_FamilyID q \<notin> sr_FamilyID ` ran v \<or> (\<exists>p \<in> ran v. live_refresh p \<and> sr_FamilyID p = sr_FamilyID q)"
  using assms
proof (cases rule: table_step.cases)
  case (table_rotate a b pid p now)
  then have "sr_FamilyID p = sr_FamilyID q"
    using assms(2,3) by (auto simp: new_pair_def principal_of_def split: if_splits)
  with table_rotate show ?thesis by (auto intro: ranI)
qed (use assms in \<open>auto simp: new_pair_def split: if_splits\<close>)

lemma family_dead_step:
  assumes dead: "family_dead v f" and step: "table_step v v'"
  shows "family_dead v' f"
proof -
  obtain i r where i: "v i = Some r" "sr_FamilyID r = f"
    using dead by (auto simp: family_dead_def ran_def)
  then obtain q where "v' i = Some q" "record_later r q" using table_step_later [OF step] by blast
  then have "f \<in> sr_FamilyID ` ran v'" using i record_later_fields(1) [of r q] family_seen by metis
  moreover have "sr_RevokedAt q \<noteq> None" if q: "v' j = Some q" "sr_FamilyID q = f" for j q
  proof (cases "v j")
    case None
    have False using table_step_new [OF step q(1) None] dead q(2)
      by (auto simp: family_dead_def live_refresh_def)
    then show ?thesis ..
  next
    case (Some r)
    then obtain q' where "v' j = Some q'" "record_later r q'" using table_step_later [OF step] by blast
    moreover from this have "sr_RevokedAt r \<noteq> None"
      using q Some dead record_later_fields(1) [of r q'] by (auto simp: family_dead_def intro: ranI)
    ultimately show ?thesis using q record_later_fields(7) by auto
  qed
  ultimately show ?thesis by (auto simp: family_dead_def ran_def)
qed

lemma family_dead_steps: "table_step\<^sup>*\<^sup>* v v' \<Longrightarrow> family_dead v f \<Longrightarrow> family_dead v' f"
  by (induction rule: rtranclp_induct) (auto intro: family_dead_step)

lemma live_revoke [simp]: "live_refresh (revoke_where sel now r) \<Longrightarrow> live_refresh r"
  by (auto simp: live_refresh_def revoke_where_def split: if_splits)

lemma revoke_where_fields [simp]:
  "sr_ID (revoke_where sel now r) = sr_ID r" "sr_FamilyID (revoke_where sel now r) = sr_FamilyID r"
  "principal_of (revoke_where sel now r) = principal_of r"
  by (simp_all add: revoke_where_def principal_of_def)

lemma revoke_where_marks: "sel r \<Longrightarrow> sr_RevokedAt (revoke_where sel now r) \<noteq> None"
  by (simp add: revoke_where_def)

lemma principal_of_eq: "principal_of a = principal_of b \<longleftrightarrow>
   sr_OwnerID a = sr_OwnerID b \<and> sr_DeviceID a = sr_DeviceID b \<and> sr_FamilyID a = sr_FamilyID b"
  by (simp add: principal_of_def)

lemma live_used [simp]: "\<not> live_refresh (p\<lparr>sr_UsedAt := Some now\<rparr>)"
  by (simp add: live_refresh_def)

lemma table_okI:
  assumes "\<And>i r. v i = Some r \<Longrightarrow> sr_ID r = i"
    and "\<And>i j r q. v i = Some r \<Longrightarrow> v j = Some q \<Longrightarrow> sr_FamilyID r = sr_FamilyID q \<Longrightarrow> principal_of r = principal_of q"
    and "\<And>i j r q. v i = Some r \<Longrightarrow> v j = Some q \<Longrightarrow> sr_FamilyID r = sr_FamilyID q
      \<Longrightarrow> live_refresh r \<Longrightarrow> live_refresh q \<Longrightarrow> i = j"
  shows "table_ok v"
  using assms unfolding table_ok_def by blast

lemma table_ok_key: "table_ok v \<Longrightarrow> v i = Some r \<Longrightarrow> sr_ID r = i"
  by (simp add: table_ok_def)

lemma table_ok_family:
  "table_ok v \<Longrightarrow> v i = Some r \<Longrightarrow> v j = Some q \<Longrightarrow> sr_FamilyID r = sr_FamilyID q \<Longrightarrow> principal_of r = principal_of q"
  unfolding table_ok_def by blast

lemma table_ok_live:
  "table_ok v \<Longrightarrow> v i = Some r \<Longrightarrow> v j = Some q \<Longrightarrow> sr_FamilyID r = sr_FamilyID q
     \<Longrightarrow> live_refresh r \<Longrightarrow> live_refresh q \<Longrightarrow> i = j"
  unfolding table_ok_def by blast

text \<open>Adding a pair to a family without live refresh record, and marking records of the table.\<close>

lemma table_ok_pair:
  assumes ok: "table_ok v" and pair: "new_pair v a r"
    and fam: "\<And>i q. v i = Some q \<Longrightarrow> sr_FamilyID q = sr_FamilyID r \<Longrightarrow> principal_of q = principal_of r \<and> \<not> live_refresh q"
  shows "table_ok (v(sr_ID a \<mapsto> a, sr_ID r \<mapsto> r))"
proof -
  let ?v = "v(sr_ID a \<mapsto> a, sr_ID r \<mapsto> r)"
  have a: "principal_of a = principal_of r" "\<not> live_refresh a" "sr_FamilyID a = sr_FamilyID r"
    using pair by (auto simp: new_pair_def principal_of_eq live_refresh_def)
  have cases_v: "(i = sr_ID r \<and> q = r) \<or> (i = sr_ID a \<and> q = a) \<or> v i = Some q" if "?v i = Some q" for i q
    using that by (auto split: if_splits)
  have in_fam: "principal_of q = principal_of r \<and> (live_refresh q \<longrightarrow> i = sr_ID r)"
    if "?v i = Some q" "sr_FamilyID q = sr_FamilyID r" for i q
    using cases_v [OF that(1)] fam that(2) a by blast
  have old: "v i = Some q" if "?v i = Some q" "sr_FamilyID q \<noteq> sr_FamilyID r" for i q
    using cases_v [OF that(1)] that(2) a by auto
  show ?thesis
  proof (rule table_okI)
    show "sr_ID q = i" if "?v i = Some q" for i q
      using cases_v [OF that] table_ok_key [OF ok] by auto
    show "principal_of s = principal_of q"
      if "?v i = Some s" "?v j = Some q" "sr_FamilyID s = sr_FamilyID q" for i j s q
      using that in_fam [of i s] in_fam [of j q] old [of i s] old [of j q] table_ok_family [OF ok] by metis
    show "i = j"
      if "?v i = Some s" "?v j = Some q" "sr_FamilyID s = sr_FamilyID q" "live_refresh s" "live_refresh q" for i j s q
      using that in_fam [of i s] in_fam [of j q] old [of i s] old [of j q] table_ok_live [OF ok] by metis
  qed
qed

lemma record_later_live: "record_later r q \<Longrightarrow> live_refresh q \<Longrightarrow> live_refresh r"
  by (auto simp: record_later_def live_refresh_def)

lemma table_ok_later:
  assumes ok: "table_ok v"
    and orig: "\<And>i q. v' i = Some q \<Longrightarrow> \<exists>r. v i = Some r \<and> record_later r q"
  shows "table_ok v'"
proof (rule table_okI)
  show "sr_ID q = i" if "v' i = Some q" for i q
    using orig [OF that] table_ok_key [OF ok] record_later_fields(2) by metis
  show "principal_of s = principal_of q"
    if "v' i = Some s" "v' j = Some q" "sr_FamilyID s = sr_FamilyID q" for i j s q
    using that orig [OF that(1)] orig [OF that(2)] table_ok_family [OF ok] record_later_fields(1,4) by metis
  show "i = j"
    if "v' i = Some s" "v' j = Some q" "sr_FamilyID s = sr_FamilyID q" "live_refresh s" "live_refresh q" for i j s q
    using that orig [OF that(1)] orig [OF that(2)] table_ok_live [OF ok] record_later_fields(1) record_later_live by metis
qed

lemma table_ok_issue:
  assumes "table_ok v" "new_pair v a r" "sr_FamilyID r \<notin> sr_FamilyID ` ran v"
  shows "table_ok (v(sr_ID a \<mapsto> a, sr_ID r \<mapsto> r))"
  using assms family_seen [of v] by (intro table_ok_pair) metis+

lemma table_ok_rotate:
  assumes ok: "table_ok v" and pair: "new_pair v a r"
    and p: "v pid = Some p" "live_refresh p" "principal_of p = principal_of r"
  shows "table_ok (v(pid \<mapsto> p\<lparr>sr_UsedAt := Some now\<rparr>, sr_ID a \<mapsto> a, sr_ID r \<mapsto> r))"
proof -
  let ?w = "v(pid \<mapsto> p\<lparr>sr_UsedAt := Some now\<rparr>)"
  have w: "table_ok ?w"
  proof (rule table_ok_later [OF ok])
    show "\<exists>r. v i = Some r \<and> record_later r q" if "?w i = Some q" for i q
      using that p record_later_used [OF p(2), of now] by (cases "i = pid") auto
  qed
  have fam: "principal_of q = principal_of r \<and> \<not> live_refresh q"
    if "?w i = Some q" "sr_FamilyID q = sr_FamilyID r" for i q
  proof (cases "i = pid")
    case True
    with that p show ?thesis by (auto simp: principal_of_eq)
  next
    case False
    with that p(3) have "v i = Some q" "sr_FamilyID q = sr_FamilyID p" by (simp_all add: principal_of_eq)
    with ok p False show ?thesis using table_ok_family [OF ok, of i q pid p] table_ok_live [OF ok, of i q pid p] by auto
  qed
  have "new_pair ?w a r" using pair p by (auto simp: new_pair_def)
  from table_ok_pair [OF w this fam] show ?thesis .
qed

lemma table_ok_revoke: "table_ok v \<Longrightarrow> table_ok (\<lambda>rid. map_option (revoke_where sel now) (v rid))"
  by (rule table_ok_later) (auto simp: record_later_revoke)

lemma table_ok_step [go_inv]: "table_step v v' \<Longrightarrow> table_ok v \<Longrightarrow> table_ok v'"
  by (cases rule: table_step.cases) (auto intro: table_ok_issue table_ok_rotate table_ok_revoke)

lemma table_ok_steps: "table_step\<^sup>*\<^sup>* v v' \<Longrightarrow> table_ok v \<Longrightarrow> table_ok v'"
  by (induction rule: rtranclp_induct) (auto intro: table_ok_step)

subsection \<open>Credentials parse back\<close>

lemma kind_text_length: "length (kind_text k) \<le> 7"
  by (cases k) simp_all

lemma parseToken_make:
  assumes "length a = 16" "length b = 32"
  shows "parseToken (''cm_'' @ kind_text k @ ''_'' @ RawURLEncode a @ ''.'' @ RawURLEncode b) k
    = Inr (RawURLEncode a, RawURLEncode b)"
proof -
  let ?p = "''cm_'' @ kind_text k @ ''_''" and ?t = "RawURLEncode a @ CHR ''.'' # RawURLEncode b"
  have t: "''cm_'' @ kind_text k @ ''_'' @ RawURLEncode a @ ''.'' @ RawURLEncode b = ?p @ ?t" by simp
  have "split_on (CHR ''.'') ?t = [RawURLEncode a, RawURLEncode b]" by (rule split_on_two) simp_all
  moreover have "length (?p @ ?t) \<le> 256" using assms kind_text_length [of k] by simp
  moreover have "drop (length ?p) (?p @ ?t) = ?t" "has_prefix (?p @ ?t) ?p"
    by (metis append_eq_conv_conj) (rule has_prefix_append)
  ultimately show ?thesis
    using assms unfolding t parseToken_def Let_def
    by (simp add: append_Nil del: append_Cons append_assoc)
qed

text \<open>The record \<^verbatim>\<open>makeRecord\<close> builds for an identifier and a secret.\<close>

abbreviation credential where
  "credential m ow dv f k rid secret c e \<equiv>
     \<lparr>sr_ID = rid, sr_FamilyID = f, sr_OwnerID = ow, sr_DeviceID = dv, sr_Kind = k,
      sr_Hash = session_hash m k rid secret, sr_CreatedAt = c, sr_ExpiresAt = e, sr_UsedAt = None,
      sr_RevokedAt = None\<rparr>"

lemma makeRecord_ok:
  assumes "makeRecord m ow dv f k c e random = (Inr (tok, r), random')"
  obtains secret where "random' = drop 48 random" "48 \<le> length random"
    "r = credential m ow dv f k (RawURLEncode (take 16 random)) secret c e"
    "parseToken tok k = Inr (RawURLEncode (take 16 random), secret)"
proof -
  let ?i = "RawURLEncode (take 16 random)" and ?s = "RawURLEncode (take 32 (drop 16 random))"
  from assms have l: "48 \<le> length random"
    by (auto simp: makeRecord_def randomPart_def split: if_splits)
  with assms have eq: "random' = drop 48 random" "r = credential m ow dv f k ?i ?s c e"
    and tok: "tok = ''cm_'' @ kind_text k @ ''_'' @ ?i @ ''.'' @ ?s"
    by (auto simp: makeRecord_def randomPart_def split: if_splits)
  have "parseToken tok k = Inr (?i, ?s)"
    unfolding tok by (rule parseToken_make) (use l in simp_all)
  with eq l that show ?thesis by blast
qed

subsection \<open>Sequences of calls\<close>

text \<open>The calls that change the table, and what they leave; the results of the calls are dropped.\<close>

datatype session_call = CallIssue string string time | CallRotate string time time
  | CallRevokeFamily string time | CallRevokeDevice string string time

fun session_exec :: "'s session_manager \<Rightarrow> session_call \<Rightarrow> 's \<times> bytes \<Rightarrow> 's \<times> bytes" where
  "session_exec m (CallIssue ow dv now) st = snd (session_Issue m ow dv now st)"
| "session_exec m (CallRotate tok now now') st = snd (session_Rotate m tok now now' st)"
| "session_exec m (CallRevokeFamily f now) st = (snd (session_RevokeFamily m f now (fst st)), snd st)"
| "session_exec m (CallRevokeDevice ow dv now) st = (snd (session_RevokeDevice m ow dv now (fst st)), snd st)"

text \<open>
  The random source does not repeat itself: the identifiers a call draws are not in the table and
  differ from each other. The identifiers of a pair are its first 16 bytes and, after the 32 bytes
  of the access secret, the next 16.
\<close>

definition fresh_ids :: "session_table \<Rightarrow> bytes \<Rightarrow> bool" where
  "fresh_ids v random \<longleftrightarrow>
     (let a = RawURLEncode (take 16 random); r = RawURLEncode (take 16 (drop 48 random))
      in v a = None \<and> v r = None \<and> a \<noteq> r)"

fun draws_fresh :: "session_table \<Rightarrow> session_call \<Rightarrow> bytes \<Rightarrow> bool" where
  "draws_fresh v (CallIssue ow dv now) random \<longleftrightarrow>
     RawURLEncode (take 16 random) \<notin> sr_FamilyID ` ran v \<and> fresh_ids v (drop 16 random)"
| "draws_fresh v (CallRotate tok now now') random \<longleftrightarrow> fresh_ids v random"
| "draws_fresh v _ random \<longleftrightarrow> True"

inductive session_reach :: "('s \<Rightarrow> session_table) \<Rightarrow> 's session_manager \<Rightarrow> 's \<times> bytes \<Rightarrow> 's \<times> bytes \<Rightarrow> bool"
  for view :: "'s \<Rightarrow> session_table" and m :: "'s session_manager" where
  reach_start: "session_reach view m st st"
| reach_call: "session_reach view m st st' \<Longrightarrow> draws_fresh (view (fst st')) c (snd st') \<Longrightarrow>
     session_reach view m st (session_exec m c st')"

subsection \<open>What the manager relies on, and what follows\<close>

locale session_store =
  fixes S :: "'s session_store_ops"
    and view :: "'s \<Rightarrow> session_table"
    and ok :: "'s \<Rightarrow> bool"
  assumes get: "so_Get S rid s = Inr r \<longleftrightarrow> view s rid = Some r"
    and create_ok: "so_CreatePair S a r s = (None, s') \<Longrightarrow>
      view s (sr_ID a) = None \<and> view s (sr_ID r) = None \<and> view s' = (view s)(sr_ID a \<mapsto> a, sr_ID r \<mapsto> r)"
    and create_error: "so_CreatePair S a r s = (Some e, s') \<Longrightarrow> view s' = view s"
    and rotate_ok: "so_Rotate S pid h now a r s = (None, s') \<Longrightarrow>
      \<exists>p. view s pid = Some p \<and> live_refresh p \<and> sr_Hash p = h
        \<and> view s' = (view s)(pid \<mapsto> p\<lparr>sr_UsedAt := Some now\<rparr>, sr_ID a \<mapsto> a, sr_ID r \<mapsto> r)"
    and rotate_error: "so_Rotate S pid h now a r s = (Some e, s') \<Longrightarrow>
      view s' = view s \<or> (\<exists>f. view s' = (\<lambda>rid. map_option (revoke_where (\<lambda>r. sr_FamilyID r = f) now) (view s rid)))"
    and revoke_family_ok: "so_RevokeFamily S f now s = (None, s') \<Longrightarrow>
      view s' = (\<lambda>rid. map_option (revoke_where (\<lambda>r. sr_FamilyID r = f) now) (view s rid))"
    and revoke_family_error: "so_RevokeFamily S f now s = (Some e, s') \<Longrightarrow> view s' = view s"
    and revoke_device_ok: "so_RevokeDevice S ow dv now s = (None, s') \<Longrightarrow>
      \<exists>sel. view s' = (\<lambda>rid. map_option (revoke_where sel now) (view s rid))
        \<and> (\<forall>r. sr_OwnerID r = ow \<and> sr_DeviceID r = dv \<longrightarrow> sel r) \<and> (\<forall>r. sel r \<longrightarrow> sr_DeviceID r = dv)"
    and revoke_device_error: "so_RevokeDevice S ow dv now s = (Some e, s') \<Longrightarrow> view s' = view s"
    and validate: "ok s \<Longrightarrow> so_ValidatePrincipal S p s = None \<longleftrightarrow>
      p_FamilyID p \<in> sr_FamilyID ` ran (view s)
      \<and> (\<forall>r \<in> ran (view s). sr_FamilyID r = p_FamilyID p \<longrightarrow> principal_of r = p \<and> sr_RevokedAt r = None)"
    and create_keeps: "ok s \<Longrightarrow> ok (snd (so_CreatePair S a r s))"
    and rotate_keeps: "ok s \<Longrightarrow> ok (snd (so_Rotate S pid h now a r s))"
    and revoke_family_keeps: "ok s \<Longrightarrow> ok (snd (so_RevokeFamily S f now s))"
    and revoke_device_keeps: "ok s \<Longrightarrow> ok (snd (so_RevokeDevice S ow dv now s))"
begin

lemma refreshRecord_ok:
  assumes "refreshRecord m tok now s = Inr (r, h)" "sm_store m = S"
  obtains tid secret where "parseToken tok Refresh = Inr (tid, secret)" "view s tid = Some r"
    "sr_Kind r = Refresh" "sr_RevokedAt r = None" "now < sr_ExpiresAt r" "sr_Hash r = h"
    "h = session_hash m Refresh tid secret"
proof (cases "parseToken tok Refresh")
  case (Inl e)
  with assms show ?thesis by (simp add: refreshRecord_def Let_def)
next
  case (Inr q)
  obtain tid secret where q: "q = (tid, secret)" by force
  show ?thesis
  proof (cases "so_Get S tid s")
    case (Inl e)
    with assms Inr q show ?thesis by (simp add: refreshRecord_def Let_def)
  next
    case got: (Inr z)
    with assms Inr q have "r = z" "sr_Kind r = Refresh" "sr_RevokedAt r = None" "now < sr_ExpiresAt r"
      "sr_Hash r = h" "h = session_hash m Refresh tid secret"
      by (simp_all add: refreshRecord_def Let_def split: if_splits)
    with that Inr q got get show ?thesis by simp
  qed
qed

lemma issue_ok:
  assumes "session_issue m ow dv f prev now (s, random) = (Inr pair, s', random')" "sm_store m = S"
  obtains a r sa sb where
    "a = credential m ow dv f Access (RawURLEncode (take 16 random)) sa now (now + sm_accessTTL m)"
    "r = credential m ow dv f Refresh (RawURLEncode (take 16 (drop 48 random))) sb now (now + sm_refreshTTL m)"
    "parseToken (tp_AccessToken pair) Access = Inr (sr_ID a, sa)"
    "parseToken (tp_RefreshToken pair) Refresh = Inr (sr_ID r, sb)"
    "tp_AccessExpiresAt pair = sr_ExpiresAt a" "tp_RefreshExpiresAt pair = sr_ExpiresAt r"
    "(case prev of Some (pid, h) \<Rightarrow> so_Rotate S pid h now a r s | None \<Rightarrow> so_CreatePair S a r s) = (None, s')"
proof -
  obtain at a rnd1 where a: "makeRecord m ow dv f Access now (now + sm_accessTTL m) random = (Inr (at, a), rnd1)"
    using assms by (auto simp: session_issue_def split: sum.splits prod.splits)
  then obtain rt r rnd2 where r: "makeRecord m ow dv f Refresh now (now + sm_refreshTTL m) rnd1 = (Inr (rt, r), rnd2)"
    using assms by (auto simp: session_issue_def split: sum.splits prod.splits)
  let ?st = "case prev of Some (pid, h) \<Rightarrow> so_Rotate S pid h now a r s | None \<Rightarrow> so_CreatePair S a r s"
  obtain e s1 where st: "?st = (e, s1)" by force
  have res: "e = None" "s1 = s'" "tp_AccessToken pair = at" "tp_RefreshToken pair = rt"
    "tp_AccessExpiresAt pair = sr_ExpiresAt a" "tp_RefreshExpiresAt pair = sr_ExpiresAt r"
    using assms a r st by (auto simp: session_issue_def split: option.splits)
  from a obtain sa where sa: "rnd1 = drop 48 random"
      "a = credential m ow dv f Access (RawURLEncode (take 16 random)) sa now (now + sm_accessTTL m)"
      "parseToken at Access = Inr (RawURLEncode (take 16 random), sa)" by (rule makeRecord_ok)
  from r obtain sb where sb:
      "r = credential m ow dv f Refresh (RawURLEncode (take 16 rnd1)) sb now (now + sm_refreshTTL m)"
      "parseToken rt Refresh = Inr (RawURLEncode (take 16 rnd1), sb)" by (rule makeRecord_ok)
  show ?thesis by (rule that [of a sa r sb]) (use sa sb res st in auto)
qed

text \<open>Every outcome of \<^verbatim>\<open>issue\<close> is a step of the specification.\<close>

lemma rotate_error_step: "so_Rotate S pid h now a r s = (Some e, s') \<Longrightarrow> table_step (view s) (view s')"
  using rotate_error [of pid h now a r s e s'] by (auto simp: table_same table_revoke)

lemma create_error_step: "so_CreatePair S a r s = (Some e, s') \<Longrightarrow> table_step (view s) (view s')"
  using create_error [of a r s e s'] by (simp add: table_same)

lemma issue_error:
  assumes "session_issue m ow dv f prev now (s, random) = (Inl e, s', random')" "sm_store m = S"
  shows "table_step (view s) (view s')"
  using assms
  by (auto simp: session_issue_def intro: table_same rotate_error_step create_error_step
      split: sum.splits prod.splits option.splits)

lemma issue_new_step:
  assumes "session_issue m ow dv f None now (s, random) = (Inr pair, s', random')" "sm_store m = S"
    and "f \<notin> sr_FamilyID ` ran (view s)" "fresh_ids (view s) random"
  shows "table_step (view s) (view s')"
proof -
  from assms(1,2) obtain a r sa sb where
    a: "a = credential m ow dv f Access (RawURLEncode (take 16 random)) sa now (now + sm_accessTTL m)" and
    r: "r = credential m ow dv f Refresh (RawURLEncode (take 16 (drop 48 random))) sb now (now + sm_refreshTTL m)"
    and c: "so_CreatePair S a r s = (None, s')"
    by (rule issue_ok) simp
  have "new_pair (view s) a r" using assms(4) by (simp add: a r new_pair_def fresh_ids_def Let_def)
  then have "table_step (view s) ((view s)(sr_ID a \<mapsto> a, sr_ID r \<mapsto> r))"
    by (rule table_issue) (simp add: r assms(3))
  with create_ok [OF c] show ?thesis by simp
qed

lemma issue_rotate_step:
  assumes "session_issue m ow dv f (Some (pid, h)) now (s, random) = (Inr pair, s', random')" "sm_store m = S"
    and "view s pid = Some p" "principal_of p = \<lparr>p_OwnerID = ow, p_DeviceID = dv, p_FamilyID = f\<rparr>"
    and "fresh_ids (view s) random"
  shows "table_step (view s) (view s')"
proof -
  from assms(1,2) obtain a r sa sb where
    a: "a = credential m ow dv f Access (RawURLEncode (take 16 random)) sa now (now + sm_accessTTL m)" and
    r: "r = credential m ow dv f Refresh (RawURLEncode (take 16 (drop 48 random))) sb now (now + sm_refreshTTL m)"
    and c: "so_Rotate S pid h now a r s = (None, s')"
    by (rule issue_ok) simp
  have new: "new_pair (view s) a r" using assms(5) by (simp add: a r new_pair_def fresh_ids_def Let_def)
  from rotate_ok [OF c] assms(3) have live: "live_refresh p"
    and s': "view s' = (view s)(pid \<mapsto> p\<lparr>sr_UsedAt := Some now\<rparr>, sr_ID a \<mapsto> a, sr_ID r \<mapsto> r)" by auto
  show ?thesis
    unfolding s' by (rule table_rotate [OF new assms(3) live]) (use assms(4) in \<open>simp add: r principal_of_def\<close>)
qed

text \<open>Refinement: every call of the manager is a step of the specification.\<close>

lemma Rotate_step:
  assumes m: "sm_store m = S" and ok: "table_ok (view s)" and fr: "fresh_ids (view s) random"
  shows "table_step (view s) (view (fst (snd (session_Rotate m tok now now' (s, random)))))"
proof (cases "refreshRecord m tok now s")
  case (Inl e)
  then show ?thesis by (simp add: session_Rotate_def table_same)
next
  case (Inr q)
  obtain r h where q: "q = (r, h)" by force
  from Inr m obtain tid where tid: "view s tid = Some r" unfolding q by (rule refreshRecord_ok)
  from table_ok_key [OF ok tid] tid have pid: "view s (sr_ID r) = Some r" by simp
  show ?thesis
  proof (cases "sr_UsedAt r")
    case (Some u)
    obtain e s1 where st: "so_RevokeFamily S (sr_FamilyID r) now' s = (e, s1)" by force
    have "table_step (view s) (view s1)"
      using revoke_family_ok [of "sr_FamilyID r" now' s s1] revoke_family_error [of "sr_FamilyID r" now' s _ s1] st
      by (cases e) (auto simp: table_same table_revoke)
    with st m Inr q Some show ?thesis by (cases e) (simp_all add: session_Rotate_def)
  next
    case None
    obtain res s1 rnd where st: "session_issue m (sr_OwnerID r) (sr_DeviceID r) (sr_FamilyID r)
        (Some (sr_ID r, h)) now' (s, random) = (res, s1, rnd)" by (metis prod_cases3)
    have "table_step (view s) (view s1)"
    proof (cases res)
      case (Inl e)
      with st m show ?thesis by (auto intro: issue_error)
    next
      case (Inr pair)
      with st m pid fr show ?thesis by (intro issue_rotate_step [of m _ _ _ "sr_ID r"]) (auto simp: principal_of_def)
    qed
    with st Inr q None show ?thesis by (simp add: session_Rotate_def)
  qed
qed

lemma Issue_step:
  assumes m: "sm_store m = S" and fr: "draws_fresh (view s) (CallIssue ow dv now) random"
  shows "table_step (view s) (view (fst (snd (session_Issue m ow dv now (s, random)))))"
proof (cases "ow = [] \<or> dv = [] \<or> length random < 16")
  case True
  then show ?thesis by (auto simp: session_Issue_def randomPart_def table_same)
next
  case False
  obtain res s1 rnd where st: "session_issue m ow dv (RawURLEncode (take 16 random)) None now (s, drop 16 random)
      = (res, s1, rnd)" by (metis prod_cases3)
  have "table_step (view s) (view s1)"
    using st m fr by (cases res) (auto intro: issue_error issue_new_step)
  with False st show ?thesis by (simp add: session_Issue_def randomPart_def)
qed

lemma exec_step:
  assumes m: "sm_store m = S" and ok: "table_ok (view (fst st))" and fr: "draws_fresh (view (fst st)) c (snd st)"
  shows "table_step (view (fst st)) (view (fst (session_exec m c st)))"
proof (cases c)
  case (CallIssue ow dv now)
  with fr Issue_step [OF m, of "fst st" ow dv now "snd st"] show ?thesis by simp
next
  case (CallRotate tok now now')
  with fr Rotate_step [OF m ok, of "snd st" tok now now'] show ?thesis by simp
next
  case (CallRevokeFamily f now)
  obtain e s1 where "so_RevokeFamily S f now (fst st) = (e, s1)" by force
  then show ?thesis using CallRevokeFamily m
    using revoke_family_ok [of f now "fst st" s1] revoke_family_error [of f now "fst st" _ s1]
    by (cases e) (auto simp: session_RevokeFamily_def table_same table_revoke)
next
  case (CallRevokeDevice ow dv now)
  obtain e s1 where "so_RevokeDevice S ow dv now (fst st) = (e, s1)" by force
  then show ?thesis using CallRevokeDevice m
    using revoke_device_ok [of ow dv now "fst st" s1] revoke_device_error [of ow dv now "fst st" _ s1]
    by (cases e) (auto simp: session_RevokeDevice_def table_same table_revoke)
qed

lemma reach_refines:
  assumes "session_reach view m st st'" "sm_store m = S" "table_ok (view (fst st))"
  shows "table_step\<^sup>*\<^sup>* (view (fst st)) (view (fst st')) \<and> table_ok (view (fst st'))"
  using assms
proof (induction rule: session_reach.induct)
  case (reach_call st st' c)
  then have "table_step (view (fst st')) (view (fst (session_exec m c st')))" by (intro exec_step) auto
  with reach_call show ?case by (auto intro: rtranclp.rtrancl_into_rtrancl table_ok_step)
qed simp

text \<open>The calls keep the store's own invariant.\<close>

lemma issue_keeps: "ok s \<Longrightarrow> sm_store m = S \<Longrightarrow> ok (fst (snd (session_issue m ow dv f prev now (s, random))))"
  using create_keeps [of s] rotate_keeps [of s]
  by (auto simp: session_issue_def split: sum.splits prod.splits option.splits; metis snd_conv)

lemma exec_keeps:
  assumes k: "ok (fst st)" and m: "sm_store m = S"
  shows "ok (fst (session_exec m c st))"
proof (cases c)
  case (CallIssue ow dv now)
  with issue_keeps [OF k m] k show ?thesis by (auto simp: session_Issue_def split: sum.splits prod.splits)
next
  case (CallRotate tok now now')
  have "ok s1" if "so_RevokeFamily S f now' (fst st) = (e, s1)" for f e s1
    using revoke_family_keeps [OF k, of f now'] that by simp
  with CallRotate issue_keeps [OF k m, of _ _ _ _ _ "snd st"] k m show ?thesis
    by (auto simp: session_Rotate_def split: sum.splits prod.splits option.splits)
qed (use k m revoke_family_keeps [OF k] revoke_device_keeps [OF k] in
     \<open>simp_all add: session_RevokeFamily_def session_RevokeDevice_def\<close>)

lemma reach_keeps:
  "session_reach view m st st' \<Longrightarrow> sm_store m = S \<Longrightarrow> ok (fst st) \<Longrightarrow> ok (fst st')"
  by (induction rule: session_reach.induct) (auto intro: exec_keeps)

text \<open>A dead family admits nobody.\<close>

lemma Authenticate_ok:
  assumes "Authenticate m tok now s = Inr p" "sm_store m = S"
  obtains tid secret r where "parseToken tok Access = Inr (tid, secret)" "view s tid = Some r" "p = principal_of r"
    "sr_Kind r = Access" "sr_RevokedAt r = None" "now < sr_ExpiresAt r" "sr_Hash r = session_hash m Access tid secret"
proof (cases "parseToken tok Access")
  case (Inl e)
  with assms show ?thesis by (simp add: Authenticate_def Let_def)
next
  case (Inr q)
  obtain tid secret where q: "q = (tid, secret)" by force
  show ?thesis
  proof (cases "so_Get S tid s")
    case (Inl e)
    with assms Inr q show ?thesis by (simp add: Authenticate_def Let_def)
  next
    case got: (Inr z)
    with assms Inr q have "p = principal_of z" "sr_Kind z = Access" "sr_RevokedAt z = None" "now < sr_ExpiresAt z"
      "sr_Hash z = session_hash m Access tid secret"
      by (simp_all add: Authenticate_def Let_def split: if_splits)
    with that Inr q got get show ?thesis by simp
  qed
qed

lemma RefreshPrincipal_ok:
  assumes "RefreshPrincipal m tok now s = Inr p"
  obtains r h where "refreshRecord m tok now s = Inr (r, h)" "p = principal_of r"
  using assms by (auto simp: RefreshPrincipal_def split: sum.splits prod.splits)

lemma dead_refuses:
  assumes m: "sm_store m = S" and dead: "family_dead (view s) f"
  shows "Authenticate m tok now s = Inr p \<Longrightarrow> p_FamilyID p \<noteq> f"
    and "RefreshPrincipal m tok now s = Inr p \<Longrightarrow> p_FamilyID p \<noteq> f"
    and "ok s \<Longrightarrow> p_FamilyID p = f \<Longrightarrow> session_ValidatePrincipal m p s \<noteq> None"
proof -
  have no: "sr_FamilyID r \<noteq> f" if "view s i = Some r" "sr_RevokedAt r = None" for i r
    using dead that by (auto simp: family_dead_def intro: ranI)
  show "p_FamilyID p \<noteq> f" if "Authenticate m tok now s = Inr p"
    using that m by (rule Authenticate_ok) (auto simp: principal_of_def dest: no)
  show "p_FamilyID p \<noteq> f" if rp: "RefreshPrincipal m tok now s = Inr p"
  proof -
    from rp obtain r h where r: "refreshRecord m tok now s = Inr (r, h)" "p = principal_of r"
      by (rule RefreshPrincipal_ok)
    from r(1) m show ?thesis by (rule refreshRecord_ok) (use r(2) in \<open>auto simp: principal_of_def dest: no\<close>)
  qed
  show "session_ValidatePrincipal m p s \<noteq> None" if "ok s" "p_FamilyID p = f"
    using dead that m validate [OF that(1), of p]
    by (auto simp: session_ValidatePrincipal_def family_dead_def)
qed

lemma revoke_family_dead:
  assumes "so_RevokeFamily S (sr_FamilyID r) now s = (None, s')" "view s i = Some r"
  shows "family_dead (view s') (sr_FamilyID r)"
proof -
  have v: "view s' = (\<lambda>rid. map_option (revoke_where (\<lambda>q. sr_FamilyID q = sr_FamilyID r) now) (view s rid))"
    by (rule revoke_family_ok [OF assms(1)])
  have "view s' i = Some (revoke_where (\<lambda>q. sr_FamilyID q = sr_FamilyID r) now r)"
    using assms(2) v by simp
  from family_seen [of "view s'" i, OF this] have "sr_FamilyID r \<in> sr_FamilyID ` ran (view s')" by simp
  moreover have "sr_RevokedAt q \<noteq> None" if q: "q \<in> ran (view s')" "sr_FamilyID q = sr_FamilyID r" for q
  proof -
    obtain z where z: "q = revoke_where (\<lambda>q. sr_FamilyID q = sr_FamilyID r) now z" using q(1) unfolding v ran_def by auto
    with q(2) have "sr_FamilyID z = sr_FamilyID r" by simp
    then show ?thesis unfolding z by (rule revoke_where_marks)
  qed
  ultimately show ?thesis by (simp add: family_dead_def)
qed

text \<open>A refresh credential that was rotated stays used, whatever happens later.\<close>

lemma rotated_stays_used:
  assumes m: "sm_store m = S" and ok: "table_ok (view s)" and fr: "fresh_ids (view s) random"
    and rot: "session_Rotate m tok now now' (s, random) = (Inr pair, s1, random1)"
    and reach: "session_reach view m (s1, random1) (s2, random2)"
    and again: "refreshRecord m tok t s2 = Inr (q, h)"
  shows "sr_UsedAt q \<noteq> None"
proof -
  obtain r h' where r: "refreshRecord m tok now s = Inr (r, h')" and unused: "sr_UsedAt r = None"
    and iss: "session_issue m (sr_OwnerID r) (sr_DeviceID r) (sr_FamilyID r) (Some (sr_ID r, h')) now' (s, random)
      = (Inr pair, s1, random1)"
    using rot by (auto simp: session_Rotate_def split: sum.splits prod.splits option.splits if_splits)
  from r m obtain tid sec where tid: "parseToken tok Refresh = Inr (tid, sec)" "view s tid = Some r"
    by (rule refreshRecord_ok)
  from again m obtain tid' sec' where "parseToken tok Refresh = Inr (tid', sec')" "view s2 tid' = Some q"
    by (rule refreshRecord_ok)
  with tid have q: "view s2 tid = Some q" by simp
  have pid: "sr_ID r = tid" by (rule table_ok_key [OF ok tid(2)])
  from iss m obtain a b sa sb where
    a: "a = credential m (sr_OwnerID r) (sr_DeviceID r) (sr_FamilyID r) Access (RawURLEncode (take 16 random)) sa now' (now' + sm_accessTTL m)" and
    b: "b = credential m (sr_OwnerID r) (sr_DeviceID r) (sr_FamilyID r) Refresh (RawURLEncode (take 16 (drop 48 random))) sb now' (now' + sm_refreshTTL m)"
    and c: "so_Rotate S (sr_ID r) h' now' a b s = (None, s1)"
    by (rule issue_ok) simp
  have "tid \<noteq> sr_ID a" "tid \<noteq> sr_ID b" using fr tid(2) by (auto simp: a b fresh_ids_def Let_def)
  with rotate_ok [OF c] pid tid(2) have u: "view s1 tid = Some (r\<lparr>sr_UsedAt := Some now'\<rparr>)" by auto
  have "table_step (view s) (view s1)" using Rotate_step [OF m ok fr, of tok now now'] rot by simp
  then have "table_ok (view s1)" using ok by (rule table_ok_step)
  with reach_refines [OF reach m] have "table_step\<^sup>*\<^sup>* (view s1) (view s2)" by simp
  from table_steps_later [OF this u] q show ?thesis using record_later_fields(8) by fastforce
qed

end

subsection \<open>The in-memory store keeps the laws\<close>

lemma validate_loop_None:
  "validate_loop p b rs = None \<longleftrightarrow> (b \<or> p_FamilyID p \<in> sr_FamilyID ` set rs)
     \<and> (\<forall>r \<in> set rs. sr_FamilyID r = p_FamilyID p \<longrightarrow> principal_of r = p \<and> sr_RevokedAt r = None)"
  by (cases p, induction rs arbitrary: b) (auto simp: principal_of_def)

lemma map_of_revoke [simp]:
  "map_of (map (\<lambda>(k, r). (k, revoke_where sel now r)) s) = (\<lambda>rid. map_option (revoke_where sel now) (map_of s rid))"
  by (auto simp: map_of_map)

lemma map_wf_mapped [simp]: "map_wf (map (\<lambda>(k, r). (k, g r)) s) = map_wf s"
  by (simp add: map_wf_def comp_def case_prod_beta)

lemma ran_map_of: "map_wf s \<Longrightarrow> ran (map_of s) = snd ` set s"
  by (auto simp: map_wf_def ran_distinct)

lemmas ms_defs = MemoryStore_def ms_CreatePair_def ms_Get_def ms_ValidatePrincipal_def ms_Rotate_def
  ms_RevokeFamily_def ms_ListDevices_def ms_RevokeDevice_def revokeFamilyLocked_def

interpretation ms: session_store MemoryStore map_of map_wf
proof
  fix s s' :: session_records and a r pid h now e f ow dv p rid
  show "so_Get MemoryStore rid s = Inr r \<longleftrightarrow> map_of s rid = Some r"
    by (simp add: ms_defs split: option.splits)
  show "so_CreatePair MemoryStore a r s = (None, s') \<Longrightarrow>
      map_of s (sr_ID a) = None \<and> map_of s (sr_ID r) = None \<and> map_of s' = (map_of s)(sr_ID a \<mapsto> a, sr_ID r \<mapsto> r)"
    by (auto simp: ms_defs split: if_splits)
  show "so_CreatePair MemoryStore a r s = (Some e, s') \<Longrightarrow> map_of s' = map_of s"
    by (auto simp: ms_defs split: if_splits)
  show "so_Rotate MemoryStore pid h now a r s = (None, s') \<Longrightarrow>
      \<exists>p. map_of s pid = Some p \<and> live_refresh p \<and> sr_Hash p = h
        \<and> map_of s' = (map_of s)(pid \<mapsto> p\<lparr>sr_UsedAt := Some now\<rparr>, sr_ID a \<mapsto> a, sr_ID r \<mapsto> r)"
    by (auto simp: ms_defs live_refresh_def split: if_splits option.splits)
  show "so_Rotate MemoryStore pid h now a r s = (Some e, s') \<Longrightarrow> map_of s' = map_of s \<or>
      (\<exists>f. map_of s' = (\<lambda>rid. map_option (revoke_where (\<lambda>r. sr_FamilyID r = f) now) (map_of s rid)))"
    by (auto simp: ms_defs split: if_splits option.splits)
  show "so_RevokeDevice MemoryStore ow dv now s = (None, s') \<Longrightarrow>
      \<exists>sel. map_of s' = (\<lambda>rid. map_option (revoke_where sel now) (map_of s rid))
        \<and> (\<forall>r. sr_OwnerID r = ow \<and> sr_DeviceID r = dv \<longrightarrow> sel r) \<and> (\<forall>r. sel r \<longrightarrow> sr_DeviceID r = dv)"
    by (rule exI [of _ "\<lambda>r. sr_DeviceID r = dv"]) (auto simp: ms_defs)
  show "map_wf s \<Longrightarrow> so_ValidatePrincipal MemoryStore p s = None \<longleftrightarrow>
      p_FamilyID p \<in> sr_FamilyID ` ran (map_of s)
      \<and> (\<forall>r \<in> ran (map_of s). sr_FamilyID r = p_FamilyID p \<longrightarrow> principal_of r = p \<and> sr_RevokedAt r = None)"
    by (simp add: ms_defs validate_loop_None ran_map_of image_image)
qed (auto simp: ms_defs split: option.splits)

subsection \<open>Properties\<close>

text \<open>C10:
  From an empty in-memory store, with a random source that does not repeat itself, whatever calls
  are made and whatever their outcome, the credential table moves only by the steps of its
  specification; a record is filed under its own identifier, a family has one owner and one device,
  and at most one refresh credential of a family is live: unused and not revoked.\<close>

theorem session_table_refines:
  assumes "session_reach map_of m (NewMemoryStore, random) (s, random')" and "sm_store m = MemoryStore"
  shows "table_step\<^sup>*\<^sup>* Map.empty (map_of s) \<and> table_ok (map_of s)"
proof -
  have "table_ok (map_of NewMemoryStore)" by (simp add: NewMemoryStore_def table_ok_def)
  from ms.reach_refines [OF assms, unfolded fst_conv, OF this] show ?thesis by (simp add: NewMemoryStore_def)
qed


text \<open>C40:
  A pair of credentials works: after \<^verbatim>\<open>Issue\<close> succeeds, the access token authenticates as the owner
  and the device it was issued for until it expires, the refresh token identifies the same
  principal until it expires, and the durable check of that principal passes.\<close>

theorem session_issue_authenticates:
  assumes m: "sm_store m = MemoryStore" and wf: "map_wf s"
    and fresh: "draws_fresh (map_of s) (CallIssue ow dv now) random"
    and iss: "session_Issue m ow dv now (s, random) = (Inr pair, s', random')"
  shows "\<exists>p. p_OwnerID p = ow \<and> p_DeviceID p = dv
    \<and> (\<forall>t. t < now + sm_accessTTL m \<longrightarrow> Authenticate m (tp_AccessToken pair) t s' = Inr p)
    \<and> (\<forall>t. t < now + sm_refreshTTL m \<longrightarrow> RefreshPrincipal m (tp_RefreshToken pair) t s' = Inr p)
    \<and> session_ValidatePrincipal m p s' = None"
proof -
  let ?f = "RawURLEncode (take 16 random)"
  let ?p = "\<lparr>p_OwnerID = ow, p_DeviceID = dv, p_FamilyID = ?f\<rparr>"
  have ne: "ow \<noteq> []" "dv \<noteq> []" and len: "16 \<le> length random"
    and iss': "session_issue m ow dv ?f None now (s, drop 16 random) = (Inr pair, s', random')"
    using iss by (auto simp: session_Issue_def randomPart_def split: if_splits)
  from iss' m obtain a r sa sb where
    a: "a = credential m ow dv ?f Access (RawURLEncode (take 16 (drop 16 random))) sa now (now + sm_accessTTL m)" and
    r: "r = credential m ow dv ?f Refresh (RawURLEncode (take 16 (drop 48 (drop 16 random)))) sb now (now + sm_refreshTTL m)"
    and tok: "parseToken (tp_AccessToken pair) Access = Inr (sr_ID a, sa)"
      "parseToken (tp_RefreshToken pair) Refresh = Inr (sr_ID r, sb)"
    and c: "so_CreatePair MemoryStore a r s = (None, s')"
    by (rule ms.issue_ok) simp
  have fr: "?f \<notin> sr_FamilyID ` ran (map_of s)" "sr_ID a \<noteq> sr_ID r"
    using fresh by (simp_all add: a r fresh_ids_def Let_def)
  have v: "map_of s' = (map_of s)(sr_ID a \<mapsto> a, sr_ID r \<mapsto> r)" using ms.create_ok [OF c] by simp
  with fr have va: "map_of s' (sr_ID a) = Some a" "map_of s' (sr_ID r) = Some r" by simp_all
  then have g: "so_Get MemoryStore (sr_ID a) s' = Inr a" "so_Get MemoryStore (sr_ID r) s' = Inr r"
    by (simp_all add: ms.get)
  have "Authenticate m (tp_AccessToken pair) t s' = Inr ?p" if "t < now + sm_accessTTL m" for t
    using tok(1) g(1) m that by (simp add: Authenticate_def Let_def principal_of_def a)
  moreover have "RefreshPrincipal m (tp_RefreshToken pair) t s' = Inr ?p" if "t < now + sm_refreshTTL m" for t
    using tok(2) g(2) m that by (simp add: RefreshPrincipal_def refreshRecord_def Let_def principal_of_def r)
  moreover have "session_ValidatePrincipal m ?p s' = None"
  proof -
    have "map_wf s'" using ms.create_keeps [OF wf, of a r] c by simp
    moreover have "length ?f = 22" using len by simp
    then have "?f \<noteq> []" by (metis list.size(3) zero_neq_numeral)
    moreover have "?f \<in> sr_FamilyID ` ran (map_of s')" using family_seen [of "map_of s'" "sr_ID a" a] va by (simp add: a)
    moreover have "q = a \<or> q = r" if "q \<in> ran (map_of s')" "sr_FamilyID q = ?f" for q
      using that fr(1) by (auto simp: v ran_def image_def split: if_splits)
    moreover have "principal_of a = ?p" "principal_of r = ?p" "sr_RevokedAt a = None" "sr_RevokedAt r = None"
      by (simp_all add: a r principal_of_def)
    ultimately have "so_ValidatePrincipal MemoryStore ?p s' = None"
      by (subst ms.validate) auto
    with m ne \<open>?f \<noteq> []\<close> show ?thesis by (simp add: session_ValidatePrincipal_def)
  qed
  ultimately show ?thesis by (intro exI [of _ ?p]) simp
qed

text \<open>A manager over the in-memory store, and the calls of one device that replays its token.\<close>

definition example_manager :: "session_records session_manager" where
  "example_manager = \<lparr>sm_store = MemoryStore, sm_hmac = (\<lambda>key msg. drop 20 msg), sm_pepper = replicate 32 0,
     sm_accessTTL = hour, sm_refreshTTL = 24 * hour\<rparr>"

definition example_random :: bytes where
  "example_random = replicate 16 1 @ replicate 16 2 @ replicate 32 3 @ replicate 16 4 @ replicate 32 5
     @ replicate 16 6 @ replicate 32 7 @ replicate 16 8 @ replicate 32 9"

abbreviation example_id where "example_id (n :: byte) \<equiv> RawURLEncode (replicate 16 n)"
abbreviation example_secret where "example_secret (n :: byte) \<equiv> RawURLEncode (replicate 32 n)"

definition example_token :: string where
  "example_token = ''cm_refresh_'' @ example_id 4 @ ''.'' @ example_secret 5"

definition example_access :: session_record where
  "example_access = credential example_manager ''o'' ''d'' (example_id 1) Access (example_id 2) (example_secret 3) 0 hour"

definition example_refresh :: session_record where
  "example_refresh = credential example_manager ''o'' ''d'' (example_id 1) Refresh (example_id 4) (example_secret 5) 0 (24 * hour)"

definition example_issued :: session_records where
  "example_issued = [(example_id 2, example_access), (example_id 4, example_refresh)]"

lemma example_id_start:
  "take 2 (example_id n) = [url_digit (unat n div 4), url_digit (unat n mod 4 * 16 + unat n div 16)]"
proof -
  have "replicate 16 n = n # n # n # replicate 13 n" by (simp add: numeral_eq_Suc)
  then show ?thesis by (simp add: RawURLEncode_def)
qed

lemma example_id_neq: "take 2 (example_id a) \<noteq> take 2 (example_id b) \<Longrightarrow> example_id a \<noteq> example_id b"
  by auto

lemma example_ids [simp]:
  "example_id 2 \<noteq> example_id 4" "example_id 4 \<noteq> example_id 2" "example_id 2 \<noteq> example_id 6" "example_id 2 \<noteq> example_id 8"
  "example_id 4 \<noteq> example_id 6" "example_id 4 \<noteq> example_id 8" "example_id 6 \<noteq> example_id 8"
  by (rule example_id_neq; simp add: example_id_start url_digit_def)+

lemma example_store [simp]: "sm_store example_manager = MemoryStore" "sm_accessTTL example_manager = hour"
  "sm_refreshTTL example_manager = 24 * hour"
  by (simp_all add: example_manager_def)

lemma example_Issue:
  "\<exists>pair. session_Issue example_manager ''o'' ''d'' 0 (NewMemoryStore, example_random)
     = (Inr pair, example_issued, drop 112 example_random)"
  by (simp add: session_Issue_def session_issue_def makeRecord_def randomPart_def example_random_def
      ms_defs NewMemoryStore_def example_issued_def example_access_def example_refresh_def)

lemma example_parse: "parseToken example_token Refresh = Inr (example_id 4, example_secret 5)"
  using parseToken_make [of "replicate 16 4" "replicate 32 5" Refresh] by (simp add: example_token_def)

definition example_access2 :: session_record where
  "example_access2 = credential example_manager ''o'' ''d'' (example_id 1) Access (example_id 6) (example_secret 7) 1 (1 + hour)"

definition example_refresh2 :: session_record where
  "example_refresh2 = credential example_manager ''o'' ''d'' (example_id 1) Refresh (example_id 8) (example_secret 9) 1 (1 + 24 * hour)"

definition example_rotated :: session_records where
  "example_rotated = [(example_id 2, example_access), (example_id 4, example_refresh\<lparr>sr_UsedAt := Some 1\<rparr>),
     (example_id 6, example_access2), (example_id 8, example_refresh2)]"

lemma example_refreshRecord:
  "refreshRecord example_manager example_token 1 example_issued = Inr (example_refresh, sr_Hash example_refresh)"
  "refreshRecord example_manager example_token 2 example_rotated
     = Inr (example_refresh\<lparr>sr_UsedAt := Some 1\<rparr>, sr_Hash example_refresh)"
  by (simp_all add: refreshRecord_def Let_def example_parse ms_defs example_issued_def example_rotated_def example_refresh_def)

lemma example_Rotate:
  "\<exists>pair. session_Rotate example_manager example_token 1 1 (example_issued, drop 112 example_random)
     = (Inr pair, example_rotated, [])"
  by (simp add: session_Rotate_def example_refreshRecord)
     (simp add: session_issue_def makeRecord_def randomPart_def example_random_def
      ms_defs example_issued_def example_rotated_def example_access_def example_access2_def
      example_refresh_def example_refresh2_def)

lemma example_replay:
  "session_Rotate example_manager example_token 2 2 (example_rotated, [])
     = (Inl (GoErr ErrReplay ''refresh credential replay detected''),
        revokeFamilyLocked (example_id 1) 2 example_rotated, [])"
  "RefreshPrincipal example_manager example_token 2 example_rotated
     = Inr \<lparr>p_OwnerID = ''o'', p_DeviceID = ''d'', p_FamilyID = example_id 1\<rparr>"
  by (simp_all add: session_Rotate_def RefreshPrincipal_def example_refreshRecord principal_of_def)
     (simp_all add: ms_defs example_refresh_def)

lemma example_fresh:
  "draws_fresh (map_of NewMemoryStore) (CallIssue ''o'' ''d'' 0) example_random"
  "draws_fresh (map_of example_issued) (CallRotate example_token 1 1) (drop 112 example_random)"
  by (simp_all add: NewMemoryStore_def fresh_ids_def Let_def example_random_def example_issued_def
      example_ids [symmetric])

lemma example_reach: "session_reach map_of example_manager (NewMemoryStore, example_random)
    (example_issued, drop 112 example_random)"
proof -
  obtain pair where "session_Issue example_manager ''o'' ''d'' 0 (NewMemoryStore, example_random)
     = (Inr pair, example_issued, drop 112 example_random)" using example_Issue ..
  then show ?thesis
    using reach_call [OF reach_start, of map_of "(NewMemoryStore, example_random)" "CallIssue ''o'' ''d'' 0" example_manager]
      example_fresh(1) by simp
qed

theorem session_table_refines_witness:
  "session_reach map_of example_manager (NewMemoryStore, example_random) (example_issued, drop 112 example_random)
    \<and> table_ok (map_of example_issued)"
  using session_table_refines [OF example_reach] example_reach by simp


theorem session_issue_authenticates_witness:
  "\<exists>pair p. session_Issue example_manager ''o'' ''d'' 0 (NewMemoryStore, example_random)
       = (Inr pair, example_issued, drop 112 example_random)
     \<and> p_OwnerID p = ''o'' \<and> Authenticate example_manager (tp_AccessToken pair) 1 example_issued = Inr p"
proof -
  obtain pair where iss: "session_Issue example_manager ''o'' ''d'' 0 (NewMemoryStore, example_random)
     = (Inr pair, example_issued, drop 112 example_random)" using example_Issue ..
  have wf: "map_wf NewMemoryStore" by (simp add: NewMemoryStore_def)
  have "(1 :: time) < 0 + sm_accessTTL example_manager" by simp
  with session_issue_authenticates [OF example_store(1) wf example_fresh(1) iss] iss show ?thesis by blast
qed

end
