(* ===== verification/Workspace_Store.thy ===== *)
theory Workspace_Store
  imports Core_Types Admission "HOL-Library.Product_Lexorder" "HOL-Library.List_Lexorder" "HOL-Library.Char_ord"
begin

text \<open>
  The in-memory workspace store (\<^verbatim>\<open>workspace/memory.go\<close>): rows by workspace identifier, each
  operation atomic under the store's mutex. The operations that name an owner and a workspace share
  one contract, the locale \<open>owner_update\<close>: they change nothing but the named row, and that only
  when it belongs to the named owner. Its lemmas are the isolation of owners and the preservation of
  the store's invariant, and every such operation is interpreted in it.
\<close>

subsection \<open>Operations\<close>

type_synonym rows = "(string, workspace) gomap"

record workspace_store =
  st_workspaces :: rows
  st_diskFreeGiB :: int

definition NewWorkspaceStore :: "int \<Rightarrow> workspace_store" where
  "NewWorkspaceStore diskFreeGiB = \<lparr>st_workspaces = [], st_diskFreeGiB = diskFreeGiB\<rparr>"

definition workspaceWithoutPrivateInputs :: "workspace \<Rightarrow> workspace" where
  "workspaceWithoutPrivateInputs w = w\<lparr>ws_EnvironmentVariables := [], ws_InitialPrompt := []\<rparr>"

definition store_Create :: "workspace \<Rightarrow> rows \<Rightarrow> goerr option \<times> rows" where
  "store_Create ws s =
     (if map_of s (ws_ID ws) \<noteq> None then (Some (errorsNew ''workspace already exists''), s)
      else (None, AList.update (ws_ID ws) (workspaceWithoutPrivateInputs ws) s))"

definition store_Get :: "string \<Rightarrow> string \<Rightarrow> rows \<Rightarrow> workspace result" where
  "store_Get ownerID wid s =
     (case map_of s wid of
        Some ws \<Rightarrow> if ws_OwnerID ws \<noteq> ownerID then Inl (GoErr ErrNotFound []) else Inr ws
      | None \<Rightarrow> Inl (GoErr ErrNotFound []))"

definition store_Save :: "workspace \<Rightarrow> rows \<Rightarrow> goerr option \<times> rows" where
  "store_Save ws s =
     (case map_of s (ws_ID ws) of
        Some prior \<Rightarrow>
          if ws_OwnerID prior \<noteq> ws_OwnerID ws then (Some (GoErr ErrNotFound []), s)
          else (None, AList.update (ws_ID ws) (workspaceWithoutPrivateInputs ws) s)
      | None \<Rightarrow> (Some (GoErr ErrNotFound []), s))"

definition store_FinalizeDelete :: "string \<Rightarrow> string \<Rightarrow> rows \<Rightarrow> goerr option \<times> rows" where
  "store_FinalizeDelete ownerID wid s =
     (case map_of s wid of
        None \<Rightarrow> (Some (GoErr ErrNotFound []), s)
      | Some ws \<Rightarrow>
          if ws_OwnerID ws \<noteq> ownerID then (Some (GoErr ErrNotFound []), s)
          else if ws_State ws \<noteq> WorkspaceDeleting then (Some (GoErr ErrConflict []), s)
          else (None, AList.delete wid s))"

text \<open>
  \<^verbatim>\<open>List\<close> and \<^verbatim>\<open>ListAll\<close> sort by creation time and identifier, the latter by owner first; the
  keys are distinct, so the result does not depend on the iteration order of the map.
\<close>

definition store_List :: "string \<Rightarrow> rows \<Rightarrow> workspace list" where
  "store_List ownerID s =
     sort_key (\<lambda>ws. (ws_CreatedAt ws, ws_ID ws)) (filter (\<lambda>ws. ws_OwnerID ws = ownerID) (map snd s))"

definition store_ListAll :: "rows \<Rightarrow> workspace list" where
  "store_ListAll s = sort_key (\<lambda>ws. (ws_OwnerID ws, ws_CreatedAt ws, ws_ID ws)) (map snd s)"

definition later :: "time \<Rightarrow> time \<Rightarrow> time" where
  "later at updated = (if at > updated then at else updated)"

definition store_TouchActivity :: "string \<Rightarrow> string \<Rightarrow> time \<Rightarrow> rows \<Rightarrow> goerr option \<times> rows" where
  "store_TouchActivity ownerID wid observedAt s =
     (case map_of s wid of
        None \<Rightarrow> (Some (GoErr ErrNotFound []), s)
      | Some ws \<Rightarrow>
          if ws_OwnerID ws \<noteq> ownerID then (Some (GoErr ErrNotFound []), s)
          else if ws_State ws \<notin> {WorkspaceReady, WorkspaceRunning, WorkspaceNeedsAttention, WorkspaceIdle}
          then (Some (GoErr ErrConflict []), s)
          else (let ws1 = ws\<lparr>ws_LastActivityAt := later observedAt (ws_LastActivityAt ws)\<rparr>;
                    ws2 = ws1\<lparr>ws_UpdatedAt := later observedAt (ws_UpdatedAt ws1)\<rparr>;
                    ws3 = (if ws_State ws2 = WorkspaceIdle then ws2\<lparr>ws_State := WorkspaceRunning\<rparr> else ws2)
                in (None, AList.update wid ws3 s)))"

definition store_TransitionIfInactive ::
  "string \<Rightarrow> string \<Rightarrow> workspace_state \<Rightarrow> workspace_state \<Rightarrow> time \<Rightarrow> time \<Rightarrow> rows \<Rightarrow> bool result \<times> rows" where
  "store_TransitionIfInactive ownerID wid from_state to_state expected at s =
     (case map_of s wid of
        None \<Rightarrow> (Inl (GoErr ErrNotFound []), s)
      | Some ws \<Rightarrow>
          if ws_OwnerID ws \<noteq> ownerID then (Inl (GoErr ErrNotFound []), s)
          else if ws_State ws \<noteq> from_state \<or> ws_LastActivityAt ws \<noteq> expected then (Inr False, s)
          else if \<not> CanTransition from_state to_state then (Inl (GoErr ErrInvalid []), s)
          else (Inr True, AList.update wid
                 (ws\<lparr>ws_State := to_state, ws_UpdatedAt := later at (ws_UpdatedAt ws)\<rparr>) s))"

definition store_UpdateQuota :: "string \<Rightarrow> string \<Rightarrow> quota \<Rightarrow> time \<Rightarrow> rows \<Rightarrow> goerr option \<times> rows" where
  "store_UpdateQuota ownerID wid q at s =
     (case map_of s wid of
        None \<Rightarrow> (Some (GoErr ErrNotFound []), s)
      | Some ws \<Rightarrow>
          if ws_OwnerID ws \<noteq> ownerID then (Some (GoErr ErrNotFound []), s)
          else (None, AList.update wid (ws\<lparr>ws_Quota := q, ws_UpdatedAt := later at (ws_UpdatedAt ws)\<rparr>) s))"

definition store_UpdatePolicy ::
  "string \<Rightarrow> string \<Rightarrow> retention_policy \<Rightarrow> int \<Rightarrow> time \<Rightarrow> rows \<Rightarrow> goerr option \<times> rows" where
  "store_UpdatePolicy ownerID wid retention idle at s =
     (case map_of s wid of
        None \<Rightarrow> (Some (GoErr ErrNotFound []), s)
      | Some ws \<Rightarrow>
          if ws_OwnerID ws \<noteq> ownerID then (Some (GoErr ErrNotFound []), s)
          else (None, AList.update wid (ws\<lparr>ws_Retention := retention, ws_IdleTimeoutMinutes := idle,
                 ws_UpdatedAt := later at (ws_UpdatedAt ws)\<rparr>) s))"

definition store_UpdateSafetyMode ::
  "string \<Rightarrow> string \<Rightarrow> safety_mode \<Rightarrow> time \<Rightarrow> rows \<Rightarrow> goerr option \<times> rows" where
  "store_UpdateSafetyMode ownerID wid mode at s =
     (case map_of s wid of
        None \<Rightarrow> (Some (GoErr ErrNotFound []), s)
      | Some ws \<Rightarrow>
          if ws_OwnerID ws \<noteq> ownerID then (Some (GoErr ErrNotFound []), s)
          else if \<not> SafetyMode_Valid mode then (Some (GoErr ErrInvalid []), s)
          else if ws_State ws \<noteq> WorkspaceSuspended then (Some (GoErr ErrConflict []), s)
          else (None, AList.update wid (ws\<lparr>ws_SafetyMode := mode, ws_UpdatedAt := later at (ws_UpdatedAt ws)\<rparr>) s))"

definition snapshot_add :: "string \<Rightarrow> workspace \<Rightarrow> snapshot \<Rightarrow> snapshot" where
  "snapshot_add ownerID ws sn =
     (if ws_OwnerID ws \<noteq> ownerID then sn
      else (let sn1 = (if CountsAsRunning (ws_State ws) then sn\<lparr>Running := Running sn + 1\<rparr> else sn);
                sn2 = (if ws_State ws = WorkspaceProvisioning \<and> ws_ProviderResourceID ws = []
                       then sn1\<lparr>PendingDiskGiB := wrap64 (PendingDiskGiB sn1 + DiskGiB (ws_Quota ws))\<rparr> else sn1)
            in if ws_State ws = WorkspaceQueued then sn2\<lparr>Queued := Queued sn2 + 1\<rparr> else sn2))"

definition store_Snapshot :: "string \<Rightarrow> workspace_store \<Rightarrow> snapshot" where
  "store_Snapshot ownerID st =
     foldl (\<lambda>sn (k, ws). snapshot_add ownerID ws sn)
       \<lparr>Running = 0, Queued = 0, DiskFreeGiB = st_diskFreeGiB st, PendingDiskGiB = 0\<rparr> (st_workspaces st)"

subsection \<open>The contract of an owner's update\<close>

text \<open>
  The store's invariant: a row is filed under its own identifier and carries neither environment
  values nor the initial prompt.
\<close>

definition row_ok :: "string \<Rightarrow> workspace \<Rightarrow> bool" where
  "row_ok k w \<longleftrightarrow> ws_ID w = k \<and> ws_EnvironmentVariables w = [] \<and> ws_InitialPrompt w = []"

definition rows_ok :: "rows \<Rightarrow> bool" where
  "rows_ok s \<longleftrightarrow> map_wf s \<and> (\<forall>k w. map_of s k = Some w \<longrightarrow> row_ok k w)"

lemma rows_okD: "rows_ok s \<Longrightarrow> map_of s k = Some w \<Longrightarrow> row_ok k w"
  by (simp add: rows_ok_def)

lemma rows_ok_Nil [simp]: "rows_ok []"
  by (simp add: rows_ok_def)

lemma rows_ok_update: "rows_ok s \<Longrightarrow> row_ok k w \<Longrightarrow> rows_ok (AList.update k w s)"
  by (simp add: rows_ok_def)

lemma rows_ok_delete: "rows_ok s \<Longrightarrow> rows_ok (AList.delete k s)"
  by (simp add: rows_ok_def)

lemma row_ok_strip [simp]: "row_ok (ws_ID w) (workspaceWithoutPrivateInputs w)"
  by (simp add: row_ok_def workspaceWithoutPrivateInputs_def)

lemma owner_strip [simp]: "ws_OwnerID (workspaceWithoutPrivateInputs w) = ws_OwnerID w"
  by (simp add: workspaceWithoutPrivateInputs_def)

lemma filter_update_other:
  "map_of s k = Some w \<Longrightarrow> \<not> p w \<Longrightarrow> \<not> p w' \<Longrightarrow> filter p (map snd (AList.update k w' s)) = filter p (map snd s)"
  by (induction s) auto

lemma filter_delete_other:
  "map_wf s \<Longrightarrow> map_of s k = Some w \<Longrightarrow> \<not> p w \<Longrightarrow> filter p (map snd (AList.delete k s)) = filter p (map snd s)"
proof (induction s)
  case (Cons a s)
  show ?case
  proof (cases "fst a = k")
    case True
    with Cons.prems have "k \<notin> fst ` set s" by (auto simp: map_wf_def)
    then have "AList.delete k s = s" by (simp add: delete_idem)
    with True Cons.prems show ?thesis by (cases a) simp
  next
    case False
    with Cons show ?thesis by (cases a) (simp add: map_wf_def)
  qed
qed simp

locale owner_update =
  fixes upd :: "rows \<Rightarrow> rows" and ownerID wid :: string
  assumes frame: "upd s = s \<or>
    (\<exists>w. map_of s wid = Some w \<and> ws_OwnerID w = ownerID \<and>
       (upd s = AList.delete wid s \<or>
        (\<exists>w'. upd s = AList.update wid w' s \<and> ws_OwnerID w' = ownerID \<and> (row_ok wid w \<longrightarrow> row_ok wid w'))))"
begin

lemma keeps_rows_ok: "rows_ok s \<Longrightarrow> rows_ok (upd s)"
  using frame [of s] by (auto intro: rows_ok_update rows_ok_delete dest: rows_okD)

lemma other_row: "k \<noteq> wid \<Longrightarrow> map_of (upd s) k = map_of s k"
  using frame [of s] by auto

lemma other_owner_Get: "ow \<noteq> ownerID \<Longrightarrow> store_Get ow k (upd s) = store_Get ow k s"
  using frame [of s] by (cases "k = wid") (auto simp: store_Get_def other_row)

lemma other_owner_List: "map_wf s \<Longrightarrow> ow \<noteq> ownerID \<Longrightarrow> store_List ow (upd s) = store_List ow s"
  using frame [of s]
  by (auto simp: store_List_def filter_update_other filter_delete_other)

end

lemmas store_defs = store_Create_def store_Get_def store_Save_def store_FinalizeDelete_def
  store_TouchActivity_def store_TransitionIfInactive_def store_UpdateQuota_def store_UpdatePolicy_def
  store_UpdateSafetyMode_def

interpretation save: owner_update "\<lambda>s. snd (store_Save ws s)" "ws_OwnerID ws" "ws_ID ws" for ws
  by unfold_locales (auto simp: store_defs split: option.split)

interpretation finalize: owner_update "\<lambda>s. snd (store_FinalizeDelete ow wid s)" ow wid for ow wid
  by unfold_locales (auto simp: store_defs split: option.split)

interpretation touch: owner_update "\<lambda>s. snd (store_TouchActivity ow wid at s)" ow wid for ow wid at
  by unfold_locales (auto simp: store_defs row_ok_def Let_def split: option.split)

interpretation transition: owner_update "\<lambda>s. snd (store_TransitionIfInactive ow wid a b expected at s)" ow wid
  for ow wid a b expected at
  by unfold_locales (auto simp: store_defs row_ok_def split: option.split)

interpretation quota_update: owner_update "\<lambda>s. snd (store_UpdateQuota ow wid q at s)" ow wid for ow wid q at
  by unfold_locales (auto simp: store_defs row_ok_def split: option.split)

interpretation policy_update: owner_update "\<lambda>s. snd (store_UpdatePolicy ow wid r i at s)" ow wid for ow wid r i at
  by unfold_locales (auto simp: store_defs row_ok_def split: option.split)

interpretation mode_update: owner_update "\<lambda>s. snd (store_UpdateSafetyMode ow wid m at s)" ow wid for ow wid m at
  by unfold_locales (auto simp: store_defs row_ok_def split: option.split)

text \<open>Creating a row is not an update of one: it is refused when the identifier is taken.\<close>

lemma store_Create_ok: "rows_ok s \<Longrightarrow> rows_ok (snd (store_Create ws s))"
  by (auto simp: store_Create_def intro: rows_ok_update)

lemma store_Create_other: "k \<noteq> ws_ID ws \<Longrightarrow> map_of (snd (store_Create ws s)) k = map_of s k"
  by (simp add: store_Create_def)

text \<open>The running count of a snapshot is the number of the owner's rows that count.\<close>

lemma snapshot_Running_fold:
  "Running (foldl (\<lambda>sn (k, ws). snapshot_add ownerID ws sn) sn0 s) =
     Running sn0 + int (count_where (\<lambda>k ws. ws_OwnerID ws = ownerID \<and> CountsAsRunning (ws_State ws)) s)"
  by (induction s arbitrary: sn0) (auto simp: snapshot_add_def Let_def split: prod.split)

lemma snapshot_Running:
  "Running (store_Snapshot ownerID st) =
     int (count_where (\<lambda>k ws. ws_OwnerID ws = ownerID \<and> CountsAsRunning (ws_State ws)) (st_workspaces st))"
  by (simp add: store_Snapshot_def snapshot_Running_fold)

lemma snapshot_Disk_fold:
  "DiskFreeGiB (foldl (\<lambda>sn (k, ws). snapshot_add ownerID ws sn) sn0 s) = DiskFreeGiB sn0"
  by (induction s arbitrary: sn0) (auto simp: snapshot_add_def Let_def split: prod.split)

end
