(* ===== verification/Workspace_World.thy ===== *)
theory Workspace_World
  imports Workspace_Store "HOL-Library.State_Monad"
begin

text \<open>
  The world the workspace service runs in. A handler of \<^verbatim>\<open>workspace/service.go\<close> calls the store, the
  compute provider, the checkpoint service, the initializer, the boundaries that drain terminals, and
  the clock, and takes the admission, runtime and per-workspace gates. All of it is one state of the
  library's state monad: the durable rows, the gates, a log of the calls that left the process, and
  an environment that answers the n-th interaction. An answer gives the clock reading, the error if
  the call fails, whether a failing write was committed nevertheless, the data a successful call
  returns, and the narrow updates (keep-alives, idle marks, policy changes) that other requests
  applied to the rows just before. Nothing is assumed of the answers, so every theorem covers every
  failure at every call.
\<close>

subsection \<open>Data of the interfaces\<close>

record environment =
  en_HasDevcontainer :: bool
  en_Supported :: bool
  en_RequiresTrust :: bool
  en_ConfigDirectory :: string
  en_Reason :: string

record provision_request =
  pr_WorkspaceID :: string
  pr_Repository :: repository
  pr_Branch :: string
  pr_BaseBranch :: string
  pr_WorktreeName :: string
  pr_Quota :: quota
  pr_SafetyMode :: safety_mode
  pr_NestedContainers :: bool
  pr_DevcontainerDir :: string

record start_request =
  sq_SafetyMode :: safety_mode
  sq_Quota :: quota

record setup_start_request =
  su_WorkspaceID :: string
  su_ConfigDirectory :: string
  su_UseEnvBuilder :: bool
  su_SafetyMode :: safety_mode
  su_Quota :: quota

text \<open>The calls that leave the process; the provider's are those of the interface \<^verbatim>\<open>Provider\<close>.\<close>

datatype outside_call =
    LookupProvisioned
  | Provision provision_request
  | Start string start_request
  | StartWithSetup string setup_start_request
  | StopAndWait string
  | ProviderDelete string
  | ApplyQuota string quota
  | CheckpointCreate string string
  | CheckpointLatest
  | Initialize
  | PrepareEnvironment
  | BeginWorkspaceSuspension
  | BeginWorkspaceDeleteFinalization

text \<open>
  An event of the log: the workspace the handler was working on, the call, its error, and the rows
  as they were durable when the call was made.
\<close>

record event =
  ev_wid :: string
  ev_call :: outside_call
  ev_err :: "goerr option"
  ev_rows :: rows

datatype narrow = NarrowTouch string string time
  | NarrowIdle string string time time
  | NarrowPolicy string string retention_policy int time
  | NarrowMode string string safety_mode time

record answer =
  an_now :: time
  an_cancel :: bool
  an_err :: "goerr option"
  an_commit :: bool
  an_text :: string
  an_dirty :: bool
  an_unpushed :: bool
  an_release :: bool
  an_random :: bytes
  an_repo :: repository
  an_environment :: environment
  an_narrow :: "narrow list"

record workspace_mutation_gate =
  mg_token :: bool
  mg_refs :: int

record world =
  w_rows :: rows
  w_diskFreeGiB :: int
  w_admission :: controller
  w_initializer :: "bool option"
  w_deletion :: bool
  w_suspension :: bool
  w_mutations :: "(string, workspace_mutation_gate) gomap"
  w_admissionGate :: bool
  w_runtimeGate :: bool
  w_log :: "event list"
  w_tick :: nat
  w_env :: "nat \<Rightarrow> answer"

text \<open>
  \<open>w_initializer\<close> is the optional \<^verbatim>\<open>Initializer\<close>, and whether it also is an
  \<^verbatim>\<open>EnvironmentPreparer\<close>; \<open>w_deletion\<close> and \<open>w_suspension\<close> say whether the boundaries are
  configured; a gate is open when its token is in the channel.
\<close>

type_synonym 'a svc = "(world, 'a) state"

fun apply_narrow :: "narrow \<Rightarrow> rows \<Rightarrow> rows" where
  "apply_narrow (NarrowTouch ow wid at) s = snd (store_TouchActivity ow wid at s)"
| "apply_narrow (NarrowIdle ow wid expected at) s =
     snd (store_TransitionIfInactive ow wid WorkspaceRunning WorkspaceIdle expected at s)"
| "apply_narrow (NarrowPolicy ow wid r i at) s = snd (store_UpdatePolicy ow wid r i at s)"
| "apply_narrow (NarrowMode ow wid m at) s = snd (store_UpdateSafetyMode ow wid m at s)"

subsection \<open>Interactions\<close>

abbreviation ret :: "'a \<Rightarrow> ('s, 'a) state" where "ret \<equiv> State_Monad.return"

text \<open>Every interaction takes the next answer; other requests' narrow updates come first.\<close>

definition tick :: "answer svc" where
  "tick = do {
     w \<leftarrow> State_Monad.get;
     let a = w_env w (w_tick w);
     _ \<leftarrow> State_Monad.set (w\<lparr>w_tick := Suc (w_tick w), w_rows := fold apply_narrow (an_narrow a) (w_rows w)\<rparr>);
     ret a }"

definition svc_now :: "time svc" where
  "svc_now = do { a \<leftarrow> tick; ret (an_now a) }"

definition ctx_error :: goerr where
  "ctx_error = GoErr ErrContext ''context canceled''"

definition ctx_Err :: "goerr option svc" where
  "ctx_Err = do { a \<leftarrow> tick; ret (if an_cancel a then Some ctx_error else None) }"

definition rows_read :: "(rows \<Rightarrow> 'a result) \<Rightarrow> 'a result svc" where
  "rows_read f = do {
     a \<leftarrow> tick;
     w \<leftarrow> State_Monad.get;
     ret (case an_err a of Some e \<Rightarrow> Inl e | None \<Rightarrow> f (w_rows w)) }"

definition rows_write :: "(rows \<Rightarrow> goerr option \<times> rows) \<Rightarrow> goerr option svc" where
  "rows_write f = do {
     a \<leftarrow> tick;
     w \<leftarrow> State_Monad.get;
     (case an_err a of
        None \<Rightarrow> do {
          _ \<leftarrow> State_Monad.set (w\<lparr>w_rows := snd (f (w_rows w))\<rparr>);
          ret (fst (f (w_rows w))) }
      | Some e \<Rightarrow> do {
          _ \<leftarrow> State_Monad.set (if an_commit a then w\<lparr>w_rows := snd (f (w_rows w))\<rparr> else w);
          ret (Some e) }) }"

definition svc_Get :: "string \<Rightarrow> string \<Rightarrow> workspace result svc" where
  "svc_Get ownerID wid = rows_read (store_Get ownerID wid)"

definition svc_List :: "string \<Rightarrow> workspace list result svc" where
  "svc_List ownerID = rows_read (\<lambda>s. Inr (store_List ownerID s))"

definition svc_Snapshot :: "string \<Rightarrow> snapshot result svc" where
  "svc_Snapshot ownerID = do {
     w \<leftarrow> State_Monad.get;
     rows_read (\<lambda>s. Inr (store_Snapshot ownerID \<lparr>st_workspaces = s, st_diskFreeGiB = w_diskFreeGiB w\<rparr>)) }"

definition svc_Create :: "workspace \<Rightarrow> goerr option svc" where
  "svc_Create ws = rows_write (store_Create ws)"

definition svc_Save :: "workspace \<Rightarrow> goerr option svc" where
  "svc_Save ws = rows_write (store_Save ws)"

definition svc_FinalizeDelete :: "string \<Rightarrow> string \<Rightarrow> goerr option svc" where
  "svc_FinalizeDelete ownerID wid = rows_write (store_FinalizeDelete ownerID wid)"

definition svc_UpdateQuota :: "string \<Rightarrow> string \<Rightarrow> quota \<Rightarrow> time \<Rightarrow> goerr option svc" where
  "svc_UpdateQuota ownerID wid q at = rows_write (store_UpdateQuota ownerID wid q at)"

definition svc_store_TouchActivity :: "string \<Rightarrow> string \<Rightarrow> time \<Rightarrow> goerr option svc" where
  "svc_store_TouchActivity ownerID wid at = rows_write (store_TouchActivity ownerID wid at)"

definition svc_store_UpdatePolicy :: "string \<Rightarrow> string \<Rightarrow> retention_policy \<Rightarrow> int \<Rightarrow> time \<Rightarrow> goerr option svc" where
  "svc_store_UpdatePolicy ownerID wid r i at = rows_write (store_UpdatePolicy ownerID wid r i at)"

definition svc_store_UpdateSafetyMode :: "string \<Rightarrow> string \<Rightarrow> safety_mode \<Rightarrow> time \<Rightarrow> goerr option svc" where
  "svc_store_UpdateSafetyMode ownerID wid m at = rows_write (store_UpdateSafetyMode ownerID wid m at)"

text \<open>The claim of \<^verbatim>\<open>TransitionIfInactive\<close>: whether it was made, or an error.\<close>

definition svc_TransitionIfInactive ::
  "string \<Rightarrow> string \<Rightarrow> workspace_state \<Rightarrow> workspace_state \<Rightarrow> time \<Rightarrow> time \<Rightarrow> bool result svc" where
  "svc_TransitionIfInactive ownerID wid a b expected at = do {
     w0 \<leftarrow> tick;
     w \<leftarrow> State_Monad.get;
     let (r, s) = store_TransitionIfInactive ownerID wid a b expected at (w_rows w);
     (case an_err w0 of
        None \<Rightarrow> do { _ \<leftarrow> State_Monad.set (w\<lparr>w_rows := s\<rparr>); ret r }
      | Some e \<Rightarrow> do {
          _ \<leftarrow> State_Monad.set (if an_commit w0 then w\<lparr>w_rows := s\<rparr> else w);
          ret (Inl e) }) }"

text \<open>A call that leaves the process: it is logged with the rows it found, then answered.\<close>

definition outside :: "string \<Rightarrow> outside_call \<Rightarrow> answer svc" where
  "outside wid c = do {
     a \<leftarrow> tick;
     w \<leftarrow> State_Monad.get;
     _ \<leftarrow> State_Monad.set (w\<lparr>w_log := w_log w @ [\<lparr>ev_wid = wid, ev_call = c, ev_err = an_err a, ev_rows = w_rows w\<rparr>]\<rparr>);
     ret a }"

subsection \<open>Gates\<close>

text \<open>
  Taking a gate selects between the context's end and the token. With the token taken by nobody who
  could return it in this run, only the context can end the wait.
\<close>

definition acquireAdmission :: "goerr option svc" where
  "acquireAdmission = do {
     a \<leftarrow> tick;
     w \<leftarrow> State_Monad.get;
     if an_cancel a \<or> \<not> w_admissionGate w then ret (Some ctx_error)
     else do { _ \<leftarrow> State_Monad.set (w\<lparr>w_admissionGate := False\<rparr>); ret None } }"

definition releaseAdmission :: "unit svc" where
  "releaseAdmission = do { w \<leftarrow> State_Monad.get; State_Monad.set (w\<lparr>w_admissionGate := True\<rparr>) }"

definition acquireRuntime :: "goerr option svc" where
  "acquireRuntime = do {
     a \<leftarrow> tick;
     w \<leftarrow> State_Monad.get;
     if an_cancel a \<or> \<not> w_runtimeGate w then ret (Some ctx_error)
     else do { _ \<leftarrow> State_Monad.set (w\<lparr>w_runtimeGate := False\<rparr>); ret None } }"

definition releaseRuntime :: "unit svc" where
  "releaseRuntime = do { w \<leftarrow> State_Monad.get; State_Monad.set (w\<lparr>w_runtimeGate := True\<rparr>) }"

definition acquireStartBoundary :: "goerr option svc" where
  "acquireStartBoundary = do {
     e \<leftarrow> acquireAdmission;
     (case e of
        Some e \<Rightarrow> ret (Some e)
      | None \<Rightarrow> do {
          e \<leftarrow> acquireRuntime;
          (case e of
             Some e \<Rightarrow> do { _ \<leftarrow> releaseAdmission; ret (Some e) }
           | None \<Rightarrow> ret None) }) }"

text \<open>\<^verbatim>\<open>fmt.Sprintf("%d:%s:%s", len(ownerID), ownerID, workspaceID)\<close>.\<close>

definition mutation_key :: "string \<Rightarrow> string \<Rightarrow> string" where
  "mutation_key ownerID wid = decimal (length ownerID) @ '':'' @ ownerID @ '':'' @ wid"

definition mutation_unref :: "string \<Rightarrow> bool \<Rightarrow> world \<Rightarrow> world" where
  "mutation_unref key return_token w =
     (case map_of (w_mutations w) key of
        None \<Rightarrow> w
      | Some g \<Rightarrow>
          (let g1 = g\<lparr>mg_refs := mg_refs g - 1, mg_token := (return_token \<or> mg_token g)\<rparr>
           in w\<lparr>w_mutations := (if mg_refs g1 = 0 then AList.delete key (w_mutations w)
                                 else AList.update key g1 (w_mutations w))\<rparr>))"

definition acquireWorkspaceMutation :: "string \<Rightarrow> string \<Rightarrow> goerr option svc" where
  "acquireWorkspaceMutation ownerID wid =
     (if ownerID = [] \<or> wid = [] then ret (Some (GoErr ErrInvalid ''workspace mutation''))
      else do {
        a \<leftarrow> tick;
        w \<leftarrow> State_Monad.get;
        let key = mutation_key ownerID wid;
        let g = (case map_of (w_mutations w) key of
                   None \<Rightarrow> \<lparr>mg_token = True, mg_refs = 0\<rparr> | Some g \<Rightarrow> g);
        let g1 = g\<lparr>mg_refs := mg_refs g + 1\<rparr>;
        let w1 = w\<lparr>w_mutations := AList.update key g1 (w_mutations w)\<rparr>;
        if an_cancel a \<or> \<not> mg_token g1
        then do { _ \<leftarrow> State_Monad.set (mutation_unref key False w1); ret (Some ctx_error) }
        else do {
          _ \<leftarrow> State_Monad.set (w1\<lparr>w_mutations := AList.update key (g1\<lparr>mg_token := False\<rparr>) (w_mutations w1)\<rparr>);
          ret None } })"

definition releaseWorkspaceMutation :: "string \<Rightarrow> string \<Rightarrow> unit svc" where
  "releaseWorkspaceMutation ownerID wid = do {
     w \<leftarrow> State_Monad.get;
     State_Monad.set (mutation_unref (mutation_key ownerID wid) True w) }"

text \<open>
  The idiom \<^verbatim>\<open>if err := acquire(); err != nil { return fail }; defer release()\<close>: the body runs with
  the gate taken and the gate is given back on every return.
\<close>

definition gated :: "goerr option svc \<Rightarrow> unit svc \<Rightarrow> (goerr \<Rightarrow> 'a) \<Rightarrow> 'a svc \<Rightarrow> 'a svc" where
  "gated acquire release fail body = do {
     e \<leftarrow> acquire;
     (case e of
        Some e \<Rightarrow> ret (fail e)
      | None \<Rightarrow> do { r \<leftarrow> body; _ \<leftarrow> release; ret r }) }"

definition releaseStartBoundary :: "unit svc" where
  "releaseStartBoundary = do { _ \<leftarrow> releaseRuntime; releaseAdmission }"

end
