(* ===== verification/Workspace_Service.thy ===== *)
theory Workspace_Service
  imports Workspace_World
begin

text \<open>
  The workspace service (\<^verbatim>\<open>workspace/service.go\<close>): creation, private inputs, setup approval, retry and
  the recovery of every provisioning phase, suspension, resumption, deletion, the maintenance drain
  and the fair-share quotas, each handler whole, over the world of \<open>Workspace_World\<close>. A Go pair
  \<^verbatim>\<open>(core.Workspace, error)\<close> is a pair; \<open>zero_ws\<close> is \<^verbatim>\<open>core.Workspace{}\<close>.
\<close>

type_synonym outcome = "workspace \<times> goerr option"

definition zero_repository :: repository where
  "zero_repository = \<lparr>r_ID = [], r_InstallationID = 0, r_FullName = [], r_DefaultBranch = [], r_Private = False,
     r_Organization = False, r_Permission = [], r_UpdatedAt = 0\<rparr>"

definition zero_ws :: workspace where
  "zero_ws = \<lparr>ws_ID = [], ws_OwnerID = [], ws_Repository = zero_repository, ws_Name = [], ws_Branch = [],
     ws_BaseBranch = [], ws_WorktreePath = [], ws_State = WorkspaceQueued, ws_SafetyMode = [],
     ws_Retention = [], ws_IdleTimeoutMinutes = 0, ws_NestedContainers = False, ws_SetupApproved = False,
     ws_DevcontainerDir = [], ws_DevcontainerSupported = False, ws_PrivateInputsPending = False,
     ws_Dirty = False, ws_Unpushed = False, ws_Quota = zero_quota, ws_RequestedDiskGiB = 0,
     ws_ProviderResourceID = [], ws_FailureCode = [], ws_CreatedAt = 0, ws_UpdatedAt = 0,
     ws_LastActivityAt = 0, ws_SuspendedAt = None, ws_EnvironmentVariables = [], ws_InitialPrompt = []\<rparr>"

subsection \<open>Failure codes\<close>

definition failureProvisionUnconfirmed :: string where
  "failureProvisionUnconfirmed = ''provider_provision_unconfirmed''"
definition failureProvisionCleanupPending :: string where
  "failureProvisionCleanupPending = ''provider_provision_cleanup_pending''"
definition failureProviderStartReserved :: string where
  "failureProviderStartReserved = ''provider_start_reserved''"
definition failureStartCleanupPending :: string where
  "failureStartCleanupPending = ''provider_start_cleanup_pending''"
definition failureInitializeCleanupPending :: string where
  "failureInitializeCleanupPending = ''workspace_initialize_cleanup_pending''"
definition failureSetupStopCleanupPending :: string where
  "failureSetupStopCleanupPending = ''provider_stop_before_setup_approval_cleanup_pending''"
definition failureProviderProvision :: string where
  "failureProviderProvision = ''provider_provision_failed''"
definition failureProviderStart :: string where
  "failureProviderStart = ''provider_start_failed''"
definition failureWorkspaceInitialize :: string where
  "failureWorkspaceInitialize = ''workspace_initialize_failed''"
definition failureStopBeforeSetupApproval :: string where
  "failureStopBeforeSetupApproval = ''provider_stop_before_setup_approval_failed''"
definition failureCapacityRebalancePending :: string where
  "failureCapacityRebalancePending = ''capacity_rebalance_pending''"
definition failureEnvironmentPersistence :: string where
  "failureEnvironmentPersistence = ''environment_persistence_failed''"
definition failurePrivateInputsRecreate :: string where
  "failurePrivateInputsRecreate = ''private_inputs_recreate_required''"

lemmas failure_defs = failureProvisionUnconfirmed_def failureProvisionCleanupPending_def
  failureProviderStartReserved_def failureStartCleanupPending_def failureInitializeCleanupPending_def
  failureSetupStopCleanupPending_def failureProviderProvision_def failureProviderStart_def
  failureWorkspaceInitialize_def failureStopBeforeSetupApproval_def failureCapacityRebalancePending_def
  failureEnvironmentPersistence_def failurePrivateInputsRecreate_def

subsection \<open>Pure helpers\<close>

definition quotaUpperBound :: "quota \<Rightarrow> quota \<Rightarrow> quota" where
  "quotaUpperBound current target = \<lparr>CPUMilli = max (CPUMilli current) (CPUMilli target),
     MemoryMiB = max (MemoryMiB current) (MemoryMiB target), DiskGiB = max (DiskGiB current) (DiskGiB target)\<rparr>"

definition quotaWithinRequest :: "quota \<Rightarrow> int \<Rightarrow> quota" where
  "quotaWithinRequest equalShare requestedDiskGiB =
     (let q1 = (if DiskGiB equalShare > MaximumWorkspaceDiskGiB
                then equalShare\<lparr>DiskGiB := MaximumWorkspaceDiskGiB\<rparr> else equalShare)
      in if requestedDiskGiB \<ge> MinimumWorkspaceDiskGiB \<and> requestedDiskGiB < DiskGiB q1
         then q1\<lparr>DiskGiB := requestedDiskGiB\<rparr> else q1)"

fun stableLiveProviderState :: "workspace_state \<Rightarrow> bool" where
  "stableLiveProviderState WorkspaceReady = True"
| "stableLiveProviderState WorkspaceRunning = True"
| "stableLiveProviderState WorkspaceNeedsAttention = True"
| "stableLiveProviderState WorkspaceIdle = True"
| "stableLiveProviderState _ = False"

fun checkpointLiveState :: "workspace_state \<Rightarrow> bool" where
  "checkpointLiveState WorkspaceReady = True"
| "checkpointLiveState WorkspaceRunning = True"
| "checkpointLiveState WorkspaceNeedsAttention = True"
| "checkpointLiveState WorkspaceIdle = True"
| "checkpointLiveState _ = False"

definition definitelyStoppedStartReservation :: "workspace \<Rightarrow> bool" where
  "definitelyStoppedStartReservation w \<longleftrightarrow>
     ws_State w = WorkspaceProvisioning \<and> ws_FailureCode w = failureProviderStartReserved"

definition privateInputsIncomplete :: "workspace \<Rightarrow> bool" where
  "privateInputsIncomplete w \<longleftrightarrow> ws_PrivateInputsPending w \<or> ws_FailureCode w = failureEnvironmentPersistence
     \<or> ws_FailureCode w = failurePrivateInputsRecreate"

definition clearWorkspacePrivateInputs :: "workspace \<Rightarrow> workspace" where
  "clearWorkspacePrivateInputs w = w\<lparr>ws_EnvironmentVariables := [], ws_InitialPrompt := []\<rparr>"

definition cloneEnvironment :: "(string, string) gomap \<Rightarrow> (string, string) gomap" where
  "cloneEnvironment source = (if length source = 0 then [] else foldl (\<lambda>m (k, v). AList.update k v m) [] source)"

definition validateEnvironment :: "environment \<Rightarrow> goerr option" where
  "validateEnvironment e =
     (if \<not> en_HasDevcontainer e
      then (if en_ConfigDirectory e \<noteq> []
            then Some (GoErr ErrInvalid ''Dev Container directory without configuration'') else None)
      else if \<not> en_RequiresTrust e \<or> (en_ConfigDirectory e \<noteq> ''.'' \<and> en_ConfigDirectory e \<noteq> ''.devcontainer'')
      then Some (GoErr ErrInvalid ''unsafe Dev Container detection'') else None)"

text \<open>The characters the regular expression \<^verbatim>\<open>[^a-z0-9]+\<close> keeps; each run of others is one separator.\<close>

definition slug_rune :: "nat \<Rightarrow> bool" where
  "slug_rune r \<longleftrightarrow> 97 \<le> r \<and> r \<le> 122 \<or> 48 \<le> r \<and> r \<le> 57"

function unsafeSlug :: "char \<Rightarrow> nat list \<Rightarrow> string" where
  "unsafeSlug sep [] = []"
| "unsafeSlug sep (r # rs) =
     (if slug_rune r then char_of r # unsafeSlug sep rs
      else sep # unsafeSlug sep (dropWhile (\<lambda>r. \<not> slug_rune r) rs))"
  by pat_completeness auto
termination
  by (relation "measure (\<lambda>(sep, rs). length rs)") (auto simp: le_imp_less_Suc length_dropWhile_le)

definition branchName :: "string \<Rightarrow> string \<Rightarrow> string" where
  "branchName name suffix =
     (let slug = trim_char (CHR ''-'') (unsafeSlug (CHR ''-'') (to_lower name));
          slug = (if slug = [] then ''task'' else slug);
          slug = (if length slug > 40 then trim_char (CHR ''-'') (take 40 slug) else slug)
      in ''codex-mobile/'' @ slug @ ''-'' @ suffix)"

definition queueReason :: "string \<Rightarrow> string" where
  "queueReason reason = ''queued_'' @ trim_char (CHR ''_'') (unsafeSlug (CHR ''_'') (to_lower reason))"

text \<open>Unpadded base32 in lower case: five bits a digit, the most significant first.\<close>

definition byte_bits :: "byte \<Rightarrow> bool list" where
  "byte_bits b = map (bit b) [7, 6, 5, 4, 3, 2, 1, 0]"

definition base32_digit :: "bool list \<Rightarrow> char" where
  "base32_digit bs = (let n = foldl (\<lambda>n b. 2 * n + of_bool b) (0 :: nat) bs
     in if n < 26 then char_of (97 + n) else char_of (24 + n))"

function base32_bits :: "bool list \<Rightarrow> string" where
  "base32_bits bs = (if bs = [] then []
     else base32_digit (take 5 (bs @ replicate 4 False)) # base32_bits (drop 5 bs))"
  by auto
termination by (relation "measure length") auto

declare base32_bits.simps [simp del]

definition base32_lower :: "bytes \<Rightarrow> string" where
  "base32_lower b = base32_bits (concat (map byte_bits b))"

definition identifiers :: "(string \<times> string) result svc" where
  "identifiers = do {
     a \<leftarrow> tick;
     ret (case an_err a of
         Some e \<Rightarrow> Inl e
       | None \<Rightarrow>
           if length (an_random a) < 16 then Inl (errorsNew ''unexpected EOF'')
           else (let encoded = base32_lower (take 16 (an_random a)) in Inr (''ws_'' @ encoded, take 8 encoded))) }"

subsection \<open>Fair-share quotas\<close>

text \<open>One target: persist the upper bound, build at the provider, persist the target.\<close>

definition set_quota :: "workspace \<Rightarrow> quota \<Rightarrow> goerr option svc" where
  "set_quota ws q = do { now \<leftarrow> svc_now; svc_UpdateQuota (ws_OwnerID ws) (ws_ID ws) q now }"

definition apply_quota :: "workspace \<Rightarrow> quota \<Rightarrow> goerr option svc" where
  "apply_quota ws target =
     (let upper = quotaUpperBound (ws_Quota ws) target in do {
        e \<leftarrow> (if upper \<noteq> ws_Quota ws then set_quota ws upper else ret None);
        (case e of
           Some e \<Rightarrow> ret (Some e)
         | None \<Rightarrow> do {
             a \<leftarrow> outside (ws_ID ws) (ApplyQuota (ws_ProviderResourceID ws) target);
             (case an_err a of
                Some e \<Rightarrow> ret (Some e)
              | None \<Rightarrow> if target \<noteq> upper then set_quota ws target else ret None) }) })"

fun apply_quotas :: "string \<Rightarrow> (workspace \<times> quota) list \<Rightarrow> goerr option svc" where
  "apply_quotas startingID [] = ret None"
| "apply_quotas startingID ((ws, target) # rest) =
     (if ws_ID ws = startingID then apply_quotas startingID rest
      else if \<not> stableLiveProviderState (ws_State ws) then apply_quotas startingID rest
      else if ws_ProviderResourceID ws = []
      then ret (Some (errorsNew ''live workspace is missing its provider resource ID''))
      else do {
        e \<leftarrow> apply_quota ws target;
        (case e of Some e \<Rightarrow> ret (Some e) | None \<Rightarrow> apply_quotas startingID rest) })"

definition unresolved :: "string \<Rightarrow> workspace \<times> quota \<Rightarrow> bool" where
  "unresolved startingID t \<longleftrightarrow> \<not> (ws_ID (fst t) = startingID \<or> stableLiveProviderState (ws_State (fst t))
     \<or> definitelyStoppedStartReservation (fst t))"

definition capacity_targets :: "workspace list \<Rightarrow> quota list \<Rightarrow> (workspace \<times> quota) list" where
  "capacity_targets consumers shares =
     map (\<lambda>(ws, share). (ws, quotaWithinRequest share (ws_RequestedDiskGiB ws))) (zip consumers shares)"

definition starting_target :: "string \<Rightarrow> (workspace \<times> quota) list \<Rightarrow> quota \<times> bool" where
  "starting_target startingID targets =
     foldl (\<lambda>(q, f) (ws, t). if ws_ID ws = startingID then (t, True) else (q, f)) (zero_quota, False) targets"

text \<open>The preflight over unresolved consumers, the provider builds, and the starting workspace's own quota.\<close>

definition apply_capacity :: "string \<Rightarrow> string \<Rightarrow> (workspace \<times> quota) list \<Rightarrow> (quota \<times> bool \<times> goerr option) svc" where
  "apply_capacity ownerID startingID targets =
     (if \<exists>t \<in> set targets. unresolved startingID t
      then ret (zero_quota, False, Some (GoErr ErrCapacity ''unresolved provider capacity''))
      else do {
        e \<leftarrow> apply_quotas startingID targets;
        (case e of
           Some e \<Rightarrow> ret (zero_quota, False, Some e)
         | None \<Rightarrow>
             if snd (starting_target startingID targets) then do {
               now \<leftarrow> svc_now;
               e \<leftarrow> svc_UpdateQuota ownerID startingID (fst (starting_target startingID targets)) now;
               (case e of
                  Some e \<Rightarrow> ret (zero_quota, False, Some e)
                | None \<Rightarrow> ret (fst (starting_target startingID targets), True, None)) }
             else ret (fst (starting_target startingID targets), False, None)) })"

definition reconcileCapacityQuotas :: "string \<Rightarrow> string \<Rightarrow> (quota \<times> bool \<times> goerr option) svc" where
  "reconcileCapacityQuotas ownerID startingID = do {
     r \<leftarrow> svc_List ownerID;
     (case r of
        Inl e \<Rightarrow> ret (zero_quota, False, Some e)
      | Inr workspaces \<Rightarrow> do {
          let consumers = filter (\<lambda>ws. CountsAsRunning (ws_State ws)) workspaces;
          w \<leftarrow> State_Monad.get;
          (case Shares (w_admission w) (int (length consumers)) of
             Inl e \<Rightarrow> ret (zero_quota, False, Some e)
           | Inr shares \<Rightarrow> apply_capacity ownerID startingID (capacity_targets consumers shares)) }) }"

definition reconcileStableQuotas :: "string \<Rightarrow> string \<Rightarrow> goerr option svc" where
  "reconcileStableQuotas ownerID startingID = do {
     r \<leftarrow> reconcileCapacityQuotas ownerID startingID;
     ret (snd (snd r)) }"

definition rebalance :: "string \<Rightarrow> goerr option svc" where
  "rebalance ownerID = reconcileStableQuotas ownerID []"

definition ReconcileCapacity :: "string \<Rightarrow> goerr option svc" where
  "ReconcileCapacity ownerID =
     (if ownerID = [] then ret (Some (GoErr ErrInvalid ''reconcile workspace capacity''))
      else gated acquireRuntime releaseRuntime Some (rebalance ownerID))"

definition prepareCapacityForStart :: "workspace \<Rightarrow> outcome svc" where
  "prepareCapacityForStart starting = do {
     r \<leftarrow> reconcileCapacityQuotas (ws_OwnerID starting) (ws_ID starting);
     (case r of (q, found, e) \<Rightarrow>
       (case e of
          Some e \<Rightarrow> ret (starting, Some e)
        | None \<Rightarrow>
            if \<not> found then ret (starting, Some (errorsNew ''starting workspace lost its capacity reservation''))
            else ret (starting\<lparr>ws_Quota := q\<rparr>, None))) }"

end
