(* ===== verification/Workspace_Provision.thy ===== *)
theory Workspace_Provision
  imports Workspace_Service
begin

text \<open>
  The part of \<^verbatim>\<open>workspace/service.go\<close> that brings a reserved workspace up: private inputs and their
  quarantine, the durable markers around every provider call, starting and initializing, the cleanup
  of a failed start, and the recovery of each durable provisioning phase.
\<close>

subsection \<open>Private inputs\<close>

definition quarantinePrivateInputs :: "workspace \<Rightarrow> outcome svc" where
  "quarantinePrivateInputs value =
     (let v = clearWorkspacePrivateInputs value in
      if ws_State v = WorkspaceDeleting
      then ret (v, Some (GoErr ErrConflict ''quarantine incomplete private workspace inputs''))
      else if ws_State v = WorkspaceFailed \<and> ws_FailureCode v = failurePrivateInputsRecreate
      then ret (v, Some (GoErr ErrPrecondition ''workspace private inputs require recreation''))
      else do {
        now \<leftarrow> svc_now;
        let v1 = v\<lparr>ws_State := WorkspaceFailed, ws_SuspendedAt := None,
                   ws_FailureCode := failurePrivateInputsRecreate, ws_UpdatedAt := now\<rparr>;
        e \<leftarrow> svc_Save v1;
        (case e of
           Some e \<Rightarrow> ret (v1, Some (GoErr (err_is e) ''quarantine incomplete private workspace inputs''))
         | None \<Rightarrow> ret (v1, None)) })"

definition prepareEnvironment :: "workspace \<Rightarrow> goerr option svc" where
  "prepareEnvironment value = do {
     w \<leftarrow> State_Monad.get;
     if w_initializer w = Some True then do { a \<leftarrow> outside (ws_ID value) PrepareEnvironment; ret (an_err a) }
     else if length (ws_EnvironmentVariables value) \<noteq> 0 \<or> ws_InitialPrompt value \<noteq> []
     then ret (Some (errorsNew ''workspace private state persistence is not configured''))
     else ret None }"

definition preparePrivateInputs :: "workspace \<Rightarrow> outcome svc" where
  "preparePrivateInputs value =
     (if \<not> ws_PrivateInputsPending value then ret (clearWorkspacePrivateInputs value, None)
      else do {
        prepareErr \<leftarrow> prepareEnvironment value;
        let v = clearWorkspacePrivateInputs value;
        (case prepareErr of
           Some pe \<Rightarrow> do {
             r \<leftarrow> quarantinePrivateInputs v;
             (case snd r of
                Some saveErr \<Rightarrow> ret (fst r, Some saveErr)
              | None \<Rightarrow>
                  if err_is pe = ErrContext then ret (fst r, Some pe)
                  else ret (fst r, Some (GoErr ErrExternal failurePrivateInputsRecreate))) }
         | None \<Rightarrow> do {
             now \<leftarrow> svc_now;
             let ready = v\<lparr>ws_PrivateInputsPending := False, ws_UpdatedAt := now\<rparr>;
             e \<leftarrow> svc_Save ready;
             (case e of
                Some e \<Rightarrow> ret (v, Some (GoErr (err_is e) ''commit private workspace input preparation''))
              | None \<Rightarrow> ret (ready, None)) }) })"

subsection \<open>Starting the provider\<close>

definition startProvider :: "workspace \<Rightarrow> goerr option svc" where
  "startProvider ws =
     (if ws_SetupApproved ws \<and> ws_DevcontainerDir ws \<noteq> []
      then do {
        a \<leftarrow> outside (ws_ID ws) (StartWithSetup (ws_ProviderResourceID ws)
               \<lparr>su_WorkspaceID = ws_ID ws, su_ConfigDirectory = ws_DevcontainerDir ws,
                su_UseEnvBuilder = ws_DevcontainerSupported ws, su_SafetyMode = ws_SafetyMode ws, su_Quota = ws_Quota ws\<rparr>);
        ret (an_err a) }
      else do {
        a \<leftarrow> outside (ws_ID ws) (Start (ws_ProviderResourceID ws)
               \<lparr>sq_SafetyMode = ws_SafetyMode ws, sq_Quota = ws_Quota ws\<rparr>);
        ret (an_err a) })"

definition markProviderStartPending :: "workspace \<Rightarrow> outcome svc" where
  "markProviderStartPending ws =
     (if ws_ProviderResourceID ws = []
      then ret (zero_ws, Some (errorsNew ''provider start is missing its durable resource ID''))
      else do {
        now \<leftarrow> svc_now;
        let ws1 = ws\<lparr>ws_FailureCode := failureStartCleanupPending, ws_UpdatedAt := now\<rparr>;
        e \<leftarrow> svc_Save ws1;
        (case e of Some e \<Rightarrow> ret (zero_ws, Some e) | None \<Rightarrow> ret (ws1, None)) })"

definition stopAndWait :: "workspace \<Rightarrow> goerr option svc" where
  "stopAndWait ws = do { a \<leftarrow> outside (ws_ID ws) (StopAndWait (ws_ProviderResourceID ws)); ret (an_err a) }"

text \<open>
  \<^verbatim>\<open>errors.Join\<close> of the external failure and a store error is represented by the external failure,
  which is the one callers match.
\<close>

definition cleanupFailedRuntime :: "workspace \<Rightarrow> string \<Rightarrow> string \<Rightarrow> goerr \<Rightarrow> outcome svc" where
  "cleanupFailedRuntime ws pendingCode finalCode cause = do {
     now \<leftarrow> svc_now;
     let ws1 = ws\<lparr>ws_State := WorkspaceProvisioning, ws_FailureCode := pendingCode, ws_SuspendedAt := None,
                   ws_UpdatedAt := now\<rparr>;
     e \<leftarrow> svc_Save ws1;
     (case e of
        Some e \<Rightarrow> ret (zero_ws, Some (GoErr ErrExternal finalCode))
      | None \<Rightarrow> do {
          e \<leftarrow> stopAndWait ws1;
          (case e of
             Some e \<Rightarrow> ret (ws1, Some (GoErr ErrExternal finalCode))
           | None \<Rightarrow> do {
               now \<leftarrow> svc_now;
               let ws2 = ws1\<lparr>ws_State := WorkspaceFailed, ws_FailureCode := finalCode, ws_UpdatedAt := now\<rparr>;
               e \<leftarrow> svc_Save ws2;
               (case e of
                  Some e \<Rightarrow> ret (zero_ws, Some (GoErr ErrExternal finalCode))
                | None \<Rightarrow> do {
                    _ \<leftarrow> rebalance (ws_OwnerID ws2);
                    ret (ws2, Some (GoErr ErrExternal finalCode)) }) }) }) }"

definition finishFailedRuntimeCleanup :: "workspace \<Rightarrow> string \<Rightarrow> outcome svc" where
  "finishFailedRuntimeCleanup ws finalCode =
     (if ws_ProviderResourceID ws = []
      then ret (ws, Some (errorsNew ''provider cleanup is pending without a durable provider resource ID''))
      else do {
        e \<leftarrow> stopAndWait ws;
        (case e of
           Some e \<Rightarrow> ret (ws, Some (GoErr (err_is e) ''confirm failed provider cleanup''))
         | None \<Rightarrow> do {
             now \<leftarrow> svc_now;
             let ws1 = ws\<lparr>ws_State := WorkspaceFailed, ws_FailureCode := finalCode, ws_SuspendedAt := None,
                           ws_UpdatedAt := now\<rparr>;
             e \<leftarrow> svc_Save ws1;
             (case e of
                Some e \<Rightarrow> ret (zero_ws, Some e)
              | None \<Rightarrow> do { _ \<leftarrow> rebalance (ws_OwnerID ws1); ret (ws1, None) }) }) })"

text \<open>The workspace awaits the owner's decision on repository-controlled setup; its provider is stopped.\<close>

definition await_setup :: "workspace \<Rightarrow> time \<Rightarrow> workspace" where
  "await_setup ws now = ws\<lparr>ws_State := WorkspaceAwaitingSetupApproval,
     ws_FailureCode := (if ws_DevcontainerSupported ws then [] else ''devcontainer_unsupported_safe_fallback_available''),
     ws_UpdatedAt := now\<rparr>"

definition commit_await_setup :: "workspace \<Rightarrow> outcome svc" where
  "commit_await_setup ws = do {
     now \<leftarrow> svc_now;
     let ws1 = await_setup ws now;
     e \<leftarrow> svc_Save ws1;
     (case e of
        Some e \<Rightarrow> ret (zero_ws, Some e)
      | None \<Rightarrow> do { _ \<leftarrow> rebalance (ws_OwnerID ws1); ret (ws1, None) }) }"

text \<open>After a successful provider start: initialize, then stop for setup approval or commit Running.\<close>

definition after_start :: "workspace \<Rightarrow> outcome svc" where
  "after_start ws =
     (if ws_DevcontainerDir ws \<noteq> [] \<and> \<not> ws_SetupApproved ws
      then do {
        e \<leftarrow> stopAndWait ws;
        (case e of
           Some e \<Rightarrow> do {
             now \<leftarrow> svc_now;
             let ws1 = ws\<lparr>ws_State := WorkspaceProvisioning, ws_FailureCode := failureSetupStopCleanupPending,
                           ws_UpdatedAt := now\<rparr>;
             _ \<leftarrow> svc_Save ws1;
             ret (ws1, Some (GoErr ErrExternal failureStopBeforeSetupApproval)) }
         | None \<Rightarrow> commit_await_setup ws) }
      else do {
        now \<leftarrow> svc_now;
        let ws1 = ws\<lparr>ws_State := WorkspaceRunning, ws_FailureCode := [], ws_UpdatedAt := now,
                      ws_LastActivityAt := now, ws_SuspendedAt := None\<rparr>;
        e \<leftarrow> svc_Save ws1;
        (case e of
           Some e \<Rightarrow> ret (zero_ws, Some e)
         | None \<Rightarrow> do { _ \<leftarrow> rebalance (ws_OwnerID ws1); ret (ws1, None) }) })"

text \<open>\<^verbatim>\<open>startProvider\<close> and \<^verbatim>\<open>Initialize\<close>, the steps \<^verbatim>\<open>provision\<close> and \<^verbatim>\<open>Resume\<close> share.\<close>

definition start_and_initialize :: "workspace \<Rightarrow> (workspace \<Rightarrow> outcome svc) \<Rightarrow> outcome svc" where
  "start_and_initialize ws continue = do {
     e \<leftarrow> startProvider ws;
     (case e of
        Some e \<Rightarrow> cleanupFailedRuntime ws failureStartCleanupPending failureProviderStart e
      | None \<Rightarrow> do {
          w \<leftarrow> State_Monad.get;
          e \<leftarrow> (if w_initializer w \<noteq> None
                then do { a \<leftarrow> outside (ws_ID ws) Initialize; ret (an_err a) } else ret None);
          (case e of
             Some e \<Rightarrow> cleanupFailedRuntime ws failureInitializeCleanupPending failureWorkspaceInitialize e
           | None \<Rightarrow> continue ws) }) }"

definition provision_request_of :: "workspace \<Rightarrow> provision_request" where
  "provision_request_of ws = \<lparr>pr_WorkspaceID = ws_ID ws, pr_Repository = ws_Repository ws, pr_Branch = ws_Branch ws,
     pr_BaseBranch = ws_BaseBranch ws, pr_WorktreeName = ws_ID ws, pr_Quota = ws_Quota ws,
     pr_SafetyMode = ws_SafetyMode ws, pr_NestedContainers = ws_NestedContainers ws,
     pr_DevcontainerDir = ws_DevcontainerDir ws\<rparr>"

text \<open>The provider call under its durable marker, and the marker that follows it.\<close>

definition call_provision :: "workspace \<Rightarrow> outcome svc" where
  "call_provision ws = do {
     a \<leftarrow> outside (ws_ID ws) (Provision (provision_request_of ws));
     (case an_err a of
        Some e \<Rightarrow> ret (ws, Some (GoErr ErrExternal failureProvisionUnconfirmed))
      | None \<Rightarrow> do {
          now \<leftarrow> svc_now;
          let ws1 = ws\<lparr>ws_ProviderResourceID := an_text a, ws_FailureCode := failureStartCleanupPending, ws_UpdatedAt := now\<rparr>;
          e \<leftarrow> svc_Save ws1;
          (case e of
             Some e \<Rightarrow> ret (zero_ws, Some e)
           | None \<Rightarrow> start_and_initialize ws1 after_start) }) }"

definition provision_runtime :: "workspace \<Rightarrow> outcome svc" where
  "provision_runtime ws =
     (if ws_ProviderResourceID ws = [] then do {
        now \<leftarrow> svc_now;
        let ws1 = ws\<lparr>ws_FailureCode := failureProvisionUnconfirmed, ws_UpdatedAt := now\<rparr>;
        e \<leftarrow> svc_Save ws1;
        (case e of Some e \<Rightarrow> ret (zero_ws, Some e) | None \<Rightarrow> call_provision ws1) }
      else do {
        m \<leftarrow> markProviderStartPending ws;
        (case snd m of
           Some e \<Rightarrow> ret (zero_ws, Some e)
         | None \<Rightarrow> start_and_initialize (fst m) after_start) })"

definition provision :: "workspace \<Rightarrow> outcome svc" where
  "provision ws =
     (if privateInputsIncomplete ws then do {
        r \<leftarrow> quarantinePrivateInputs ws;
        (case snd r of
           Some e \<Rightarrow> ret r
         | None \<Rightarrow> ret (fst r, Some (GoErr ErrPrecondition ''workspace private inputs require recreation''))) }
      else do {
        r \<leftarrow> prepareCapacityForStart ws;
        (case snd r of
           Some e \<Rightarrow> do {
             now \<leftarrow> svc_now;
             let ws1 = (fst r)\<lparr>ws_State := WorkspaceProvisioning, ws_UpdatedAt := now\<rparr>;
             _ \<leftarrow> svc_Save ws1;
             ret (ws1, Some (GoErr ErrExternal failureCapacityRebalancePending)) }
         | None \<Rightarrow> provision_runtime (fst r)) })"

subsection \<open>Recovering a provisioning phase\<close>

definition lookupProvisioned :: "workspace \<Rightarrow> string result svc" where
  "lookupProvisioned ws = do {
     a \<leftarrow> outside (ws_ID ws) LookupProvisioned;
     ret (case an_err a of Some e \<Rightarrow> Inl e | None \<Rightarrow> Inr (an_text a)) }"

definition mark_provision_cleanup :: "workspace \<Rightarrow> outcome svc" where
  "mark_provision_cleanup ws = do {
     now \<leftarrow> svc_now;
     let ws1 = ws\<lparr>ws_FailureCode := failureProvisionCleanupPending, ws_UpdatedAt := now\<rparr>;
     e \<leftarrow> svc_Save ws1;
     (case e of
        Some e \<Rightarrow> ret (zero_ws, Some e)
      | None \<Rightarrow> finishFailedRuntimeCleanup ws1 failureProviderProvision) }"

definition reconcileAmbiguousProvision :: "workspace \<Rightarrow> outcome svc" where
  "reconcileAmbiguousProvision ws =
     (if ws_ProviderResourceID ws \<noteq> [] then mark_provision_cleanup ws
      else do {
        r \<leftarrow> lookupProvisioned ws;
        (case r of
           Inr providerID \<Rightarrow> mark_provision_cleanup (ws\<lparr>ws_ProviderResourceID := providerID\<rparr>)
         | Inl e \<Rightarrow>
             if err_is e = ErrNotFound then do {
               now \<leftarrow> svc_now;
               let ws1 = ws\<lparr>ws_FailureCode := failureProviderStartReserved, ws_UpdatedAt := now\<rparr>;
               e \<leftarrow> svc_Save ws1;
               (case e of Some e \<Rightarrow> ret (zero_ws, Some e) | None \<Rightarrow> ret (ws1, None)) }
             else ret (ws, Some (GoErr (err_is e) ''resolve ambiguous provider provisioning''))) })"

definition reconcileLegacyProvisioning :: "workspace \<Rightarrow> outcome svc" where
  "reconcileLegacyProvisioning ws =
     (if ws_ProviderResourceID ws = [] then reconcileAmbiguousProvision ws
      else do {
        now \<leftarrow> svc_now;
        let ws1 = ws\<lparr>ws_FailureCode := failureStartCleanupPending, ws_UpdatedAt := now\<rparr>;
        e \<leftarrow> svc_Save ws1;
        (case e of
           Some e \<Rightarrow> ret (zero_ws, Some e)
         | None \<Rightarrow> finishFailedRuntimeCleanup ws1 failureProviderStart) })"

definition reconcileProvisioning :: "workspace \<Rightarrow> outcome svc" where
  "reconcileProvisioning ws =
     (if ws_FailureCode ws = failureProvisionUnconfirmed then reconcileAmbiguousProvision ws
      else if ws_FailureCode ws = failureProvisionCleanupPending then finishFailedRuntimeCleanup ws failureProviderProvision
      else if ws_FailureCode ws = failureStartCleanupPending then finishFailedRuntimeCleanup ws failureProviderStart
      else if ws_FailureCode ws = failureInitializeCleanupPending then finishFailedRuntimeCleanup ws failureWorkspaceInitialize
      else if ws_FailureCode ws = failureSetupStopCleanupPending then do {
        e \<leftarrow> stopAndWait ws;
        (case e of
           Some e \<Rightarrow> ret (ws, Some (GoErr (err_is e) ''confirm provider stop before setup approval''))
         | None \<Rightarrow> commit_await_setup ws) }
      else if ws_FailureCode ws = failureProviderStartReserved then provision ws
      else if ws_FailureCode ws = failureCapacityRebalancePending then reconcileLegacyProvisioning ws
      else if ws_FailureCode ws = [] then reconcileLegacyProvisioning ws
      else ret (ws, Some (GoErr ErrPrecondition ''reconcile unknown provisioning phase'')))"

definition fail_workspace :: "workspace \<Rightarrow> string \<Rightarrow> goerr \<Rightarrow> outcome svc" where
  "fail_workspace ws code cause = do {
     now \<leftarrow> svc_now;
     let ws1 = ws\<lparr>ws_State := WorkspaceFailed, ws_SuspendedAt := None, ws_FailureCode := code, ws_UpdatedAt := now\<rparr>;
     _ \<leftarrow> svc_Save ws1;
     ret (ws1, Some (GoErr ErrExternal code)) }"

end
