(* ===== verification/Workspace_Handlers.thy ===== *)
theory Workspace_Handlers
  imports Workspace_Provision
begin

text \<open>
  The exported operations of \<^verbatim>\<open>workspace/service.go\<close>: creation, setup approval and denial, retry, the
  maintenance drain, activity, policies, suspension, resumption and deletion. Each takes its gates,
  reads the durable row, and returns on every error the way the source does.
\<close>

subsection \<open>Reservation\<close>

definition reserve :: "workspace \<Rightarrow> decision \<Rightarrow> workspace" where
  "reserve ws d =
     (if Admitted d then ws\<lparr>ws_State := WorkspaceProvisioning, ws_FailureCode := failureProviderStartReserved\<rparr>
      else ws\<lparr>ws_State := WorkspaceQueued, ws_FailureCode := queueReason (Reason d)\<rparr>)"

definition reserveNewStart :: "workspace \<Rightarrow> (workspace \<times> bool \<times> goerr option) svc" where
  "reserveNewStart ws = do {
     r \<leftarrow> svc_Snapshot (ws_OwnerID ws);
     (case r of
        Inl e \<Rightarrow> ret (zero_ws, False, Some e)
      | Inr sn \<Rightarrow> do {
          w \<leftarrow> State_Monad.get;
          let d = PlanStart (w_admission w) sn;
          let ws1 = reserve (ws\<lparr>ws_Quota := quotaWithinRequest (d_Quota d) (ws_RequestedDiskGiB ws)\<rparr>) d;
          e \<leftarrow> ctx_Err;
          (case e of
             Some e \<Rightarrow> ret (zero_ws, False, Some e)
           | None \<Rightarrow> do {
               e \<leftarrow> svc_Create ws1;
               (case e of
                  Some e \<Rightarrow> ret (zero_ws, False, Some e)
                | None \<Rightarrow> ret (ws1, Admitted d, None)) }) }) }"

definition reserveExistingStart ::
  "string \<Rightarrow> string \<Rightarrow> (workspace \<Rightarrow> workspace result) \<Rightarrow> (workspace \<times> bool \<times> goerr option) svc" where
  "reserveExistingStart ownerID workspaceID validate = do {
     r \<leftarrow> svc_Get ownerID workspaceID;
     (case r of
        Inl e \<Rightarrow> ret (zero_ws, False, Some e)
      | Inr ws0 \<Rightarrow>
          if privateInputsIncomplete ws0 then do {
            q \<leftarrow> quarantinePrivateInputs ws0;
            (case snd q of
               Some e \<Rightarrow> ret (fst q, False, Some e)
             | None \<Rightarrow> ret (fst q, False, Some (GoErr ErrPrecondition ''workspace private inputs require recreation''))) }
          else (case validate ws0 of
             Inl e \<Rightarrow> ret (zero_ws, False, Some e)
           | Inr ws \<Rightarrow> do {
               r \<leftarrow> svc_Snapshot ownerID;
               (case r of
                  Inl e \<Rightarrow> ret (zero_ws, False, Some e)
                | Inr sn \<Rightarrow> do {
                    w \<leftarrow> State_Monad.get;
                    let d = PlanStart (w_admission w) sn;
                    now \<leftarrow> svc_now;
                    let ws1 = reserve (ws\<lparr>ws_Quota := quotaWithinRequest (d_Quota d) (ws_RequestedDiskGiB ws),
                                ws_UpdatedAt := now, ws_LastActivityAt := now, ws_SuspendedAt := None\<rparr>) d;
                    e \<leftarrow> ctx_Err;
                    (case e of
                       Some e \<Rightarrow> ret (zero_ws, False, Some e)
                     | None \<Rightarrow> do {
                         e \<leftarrow> svc_Save ws1;
                         (case e of
                            Some e \<Rightarrow> ret (zero_ws, False, Some e)
                          | None \<Rightarrow> ret (ws1, Admitted d, None)) }) }) })) }"

text \<open>The end of \<^verbatim>\<open>Create\<close>, \<^verbatim>\<open>ApproveSetup\<close> and \<^verbatim>\<open>Retry\<close>: take the runtime gate, read the row, provision.\<close>

definition provision_reserved :: "string \<Rightarrow> string \<Rightarrow> workspace \<Rightarrow> outcome svc" where
  "provision_reserved ownerID workspaceID ws =
     gated acquireRuntime releaseRuntime (\<lambda>e. (ws, Some e))
       (do {
          r \<leftarrow> svc_Get ownerID workspaceID;
          (case r of Inl e \<Rightarrow> ret (zero_ws, Some e) | Inr ws1 \<Rightarrow> provision ws1) })"

subsection \<open>Create\<close>

definition new_workspace :: "string \<Rightarrow> string \<Rightarrow> string \<Rightarrow> repository \<Rightarrow> create_input \<Rightarrow> time \<Rightarrow> environment \<Rightarrow> workspace" where
  "new_workspace wid suffix ownerID repo input now environment = zero_ws\<lparr>
     ws_ID := wid, ws_OwnerID := ownerID, ws_Repository := repo, ws_Name := trim_space (in_Name input),
     ws_Branch := branchName (in_Name input) suffix, ws_BaseBranch := in_BaseBranch input,
     ws_State := WorkspaceQueued, ws_SafetyMode := in_SafetyMode input, ws_Retention := in_Retention input,
     ws_NestedContainers := in_NestedContainers input, ws_CreatedAt := now, ws_UpdatedAt := now,
     ws_LastActivityAt := now, ws_EnvironmentVariables := cloneEnvironment (in_EnvironmentVariables input),
     ws_InitialPrompt := in_InitialPrompt input, ws_RequestedDiskGiB := in_RequestedDiskGiB input,
     ws_PrivateInputsPending := (length (in_EnvironmentVariables input) \<noteq> 0 \<or> in_InitialPrompt input \<noteq> []),
     ws_DevcontainerDir := en_ConfigDirectory environment,
     ws_DevcontainerSupported := (en_HasDevcontainer environment \<and> en_Supported environment)\<rparr>"

definition create_reserved :: "string \<Rightarrow> workspace \<Rightarrow> outcome svc" where
  "create_reserved ownerID ws0 = do {
     r \<leftarrow> reserveNewStart ws0;
     (case r of (ws, admitted, e) \<Rightarrow>
       (case e of
          Some e \<Rightarrow> ret (zero_ws, Some e)
        | None \<Rightarrow> do {
            p \<leftarrow> preparePrivateInputs ws;
            (case snd p of
               Some e \<Rightarrow> ret (fst p, Some e)
             | None \<Rightarrow> if \<not> admitted then ret (fst p, None) else provision_reserved ownerID (ws_ID (fst p)) (fst p)) })) }"

definition Create :: "string \<Rightarrow> create_input \<Rightarrow> outcome svc" where
  "Create ownerID input0 = do {
     repo \<leftarrow> tick;
     (case an_err repo of
        Some e \<Rightarrow> ret (zero_ws, Some e)
      | None \<Rightarrow> do {
          let input = ApplyDefaults input0 (r_DefaultBranch (an_repo repo));
          (case CreateWorkspaceInput_Validate input of
             Inl e \<Rightarrow> ret (zero_ws, Some e)
           | Inr _ \<Rightarrow> do {
               ids \<leftarrow> identifiers;
               (case ids of
                  Inl e \<Rightarrow> ret (zero_ws, Some e)
                | Inr (wid, suffix) \<Rightarrow> do {
                    now \<leftarrow> svc_now;
                    env \<leftarrow> tick;
                    (case an_err env of
                       Some e \<Rightarrow> ret (zero_ws, Some (GoErr (err_is e) ''detect repository environment''))
                     | None \<Rightarrow>
                         (case validateEnvironment (an_environment env) of
                            Some e \<Rightarrow> ret (zero_ws, Some (GoErr (err_is e) ''detect repository environment''))
                          | None \<Rightarrow> do {
                              let ws = new_workspace wid suffix ownerID (an_repo repo) input now (an_environment env);
                              gated (acquireWorkspaceMutation ownerID (ws_ID ws)) (releaseWorkspaceMutation ownerID (ws_ID ws))
                                (\<lambda>e. (zero_ws, Some e))
                                (gated acquireAdmission releaseAdmission (\<lambda>e. (zero_ws, Some e)) (create_reserved ownerID ws)) })) }) }) }) }"

subsection \<open>Setup approval and retry\<close>

definition with_mutation :: "string \<Rightarrow> string \<Rightarrow> outcome svc \<Rightarrow> outcome svc" where
  "with_mutation ownerID workspaceID body =
     gated (acquireWorkspaceMutation ownerID workspaceID) (releaseWorkspaceMutation ownerID workspaceID)
       (\<lambda>e. (zero_ws, Some e)) body"

definition start_reserved :: "string \<Rightarrow> string \<Rightarrow> (workspace \<times> bool \<times> goerr option) \<Rightarrow> outcome svc" where
  "start_reserved ownerID workspaceID r =
     (case r of (ws, admitted, e) \<Rightarrow>
        if e \<noteq> None \<or> \<not> admitted then ret (ws, e) else provision_reserved ownerID workspaceID ws)"

definition validate_approval :: "workspace \<Rightarrow> workspace result" where
  "validate_approval v =
     (if ws_State v \<noteq> WorkspaceAwaitingSetupApproval then Inl (GoErr ErrConflict ''workspace is not awaiting setup approval'')
      else if ws_DevcontainerDir v = [] then Inl (GoErr ErrPrecondition ''approved setup configuration is unavailable'')
      else Inr (v\<lparr>ws_SetupApproved := True\<rparr>))"

definition ApproveSetup :: "string \<Rightarrow> string \<Rightarrow> outcome svc" where
  "ApproveSetup ownerID workspaceID = with_mutation ownerID workspaceID
     (do {
        r \<leftarrow> svc_Get ownerID workspaceID;
        (case r of
           Inl e \<Rightarrow> ret (zero_ws, Some e)
         | Inr current \<Rightarrow>
             if ws_SetupApproved current then ret (current, None)
             else gated acquireAdmission releaseAdmission (\<lambda>e. (zero_ws, Some e))
               (do {
                  r \<leftarrow> reserveExistingStart ownerID workspaceID validate_approval;
                  start_reserved ownerID workspaceID r })) })"

definition DenySetup :: "string \<Rightarrow> string \<Rightarrow> outcome svc" where
  "DenySetup ownerID workspaceID = with_mutation ownerID workspaceID
     (do {
        r \<leftarrow> svc_Get ownerID workspaceID;
        (case r of
           Inl e \<Rightarrow> ret (zero_ws, Some e)
         | Inr v \<Rightarrow>
             if ws_State v = WorkspaceFailed \<and> ws_FailureCode v = ''setup_approval_denied'' then ret (v, None)
             else if ws_State v \<noteq> WorkspaceAwaitingSetupApproval \<or> ws_SetupApproved v
             then ret (zero_ws, Some (GoErr ErrConflict ''deny workspace setup''))
             else do {
               now \<leftarrow> svc_now;
               let v1 = v\<lparr>ws_State := WorkspaceFailed, ws_FailureCode := ''setup_approval_denied'', ws_UpdatedAt := now\<rparr>;
               e \<leftarrow> svc_Save v1;
               (case e of Some e \<Rightarrow> ret (zero_ws, Some e) | None \<Rightarrow> ret (v1, None)) }) })"

definition validate_retry :: "workspace \<Rightarrow> workspace result" where
  "validate_retry v =
     (if ws_State v \<noteq> WorkspaceFailed \<and> ws_State v \<noteq> WorkspaceQueued then Inl (GoErr ErrConflict ''workspace cannot be retried'')
      else if ws_FailureCode v = ''devcontainer_secure_recreate_required''
      then Inl (GoErr ErrPrecondition ''legacy Dev Container workspace must be recreated'')
      else if privateInputsIncomplete v then Inl (GoErr ErrPrecondition ''workspace private inputs require recreation'')
      else Inr v)"

definition Retry :: "string \<Rightarrow> string \<Rightarrow> outcome svc" where
  "Retry ownerID workspaceID = with_mutation ownerID workspaceID
     (do {
        r \<leftarrow> svc_Get ownerID workspaceID;
        (case r of
           Inl e \<Rightarrow> ret (zero_ws, Some e)
         | Inr current \<Rightarrow>
             if ws_State current = WorkspaceDeleting then ret (current, Some (GoErr ErrConflict ''workspace is deleting''))
             else if privateInputsIncomplete current then do {
               q \<leftarrow> quarantinePrivateInputs current;
               (case snd q of
                  Some e \<Rightarrow> ret q
                | None \<Rightarrow> ret (fst q, Some (GoErr ErrPrecondition ''workspace private inputs require recreation''))) }
             else if ws_State current = WorkspaceProvisioning then
               gated acquireStartBoundary releaseStartBoundary (\<lambda>e. (current, Some e))
                 (do {
                    r \<leftarrow> svc_Get ownerID workspaceID;
                    (case r of Inl e \<Rightarrow> ret (zero_ws, Some e) | Inr v \<Rightarrow> reconcileProvisioning v) })
             else gated acquireAdmission releaseAdmission (\<lambda>e. (zero_ws, Some e))
               (do {
                  r \<leftarrow> reserveExistingStart ownerID workspaceID validate_retry;
                  start_reserved ownerID workspaceID r })) })"

subsection \<open>Maintenance\<close>

definition BeginMaintenanceDrain :: "goerr option svc" where
  "BeginMaintenanceDrain = do {
     e \<leftarrow> acquireAdmission;
     (case e of
        Some e \<Rightarrow> ret (Some e)
      | None \<Rightarrow> do {
          e \<leftarrow> acquireRuntime;
          (case e of
             Some e \<Rightarrow> do { _ \<leftarrow> releaseAdmission; ret (Some e) }
           | None \<Rightarrow> do { _ \<leftarrow> releaseRuntime; ret None }) }) }"

definition persistMaintenanceDrainResult :: "workspace \<Rightarrow> outcome svc" where
  "persistMaintenanceDrainResult value = do {
     now \<leftarrow> svc_now;
     let v = value\<lparr>ws_UpdatedAt := now, ws_SuspendedAt := None\<rparr>;
     let v1 = (if ws_State v = WorkspaceProvisioning
               then v\<lparr>ws_State := WorkspaceFailed, ws_FailureCode := ''maintenance_interrupted_provisioning''\<rparr>
               else v\<lparr>ws_State := WorkspaceSuspended, ws_FailureCode := [], ws_SuspendedAt := Some now\<rparr>);
     e \<leftarrow> svc_Save v1;
     (case e of
        Some e \<Rightarrow> ret (zero_ws, Some e)
      | None \<Rightarrow> do { _ \<leftarrow> rebalance (ws_OwnerID v1); ret (v1, None) }) }"

text \<open>The suspension boundary: configured, entered without error, and returning its release function.\<close>

definition suspension_boundary :: "workspace \<Rightarrow> goerr option svc" where
  "suspension_boundary ws = do {
     w \<leftarrow> State_Monad.get;
     if \<not> w_suspension w then ret (Some (errorsNew ''workspace suspension boundary is not configured''))
     else do {
       a \<leftarrow> outside (ws_ID ws) BeginWorkspaceSuspension;
       ret (case an_err a of
           Some e \<Rightarrow> Some e
         | None \<Rightarrow> if \<not> an_release a then Some (errorsNew ''workspace suspension boundary returned no release function'') else None) } }"

definition drain_stop :: "workspace \<Rightarrow> outcome svc" where
  "drain_stop v = do {
     e \<leftarrow> suspension_boundary (v\<lparr>ws_State := WorkspaceSuspending\<rparr>);
     (case e of
        Some e \<Rightarrow> ret (v, Some e)
      | None \<Rightarrow> do {
          e \<leftarrow> stopAndWait v;
          (case e of
             Some e \<Rightarrow> ret (v, Some (GoErr (err_is e) ''confirm maintenance provider stop''))
           | None \<Rightarrow> persistMaintenanceDrainResult v) }) }"

definition ReconcileMaintenanceDrain :: "string \<Rightarrow> string \<Rightarrow> outcome svc" where
  "ReconcileMaintenanceDrain ownerID workspaceID = with_mutation ownerID workspaceID
     (gated acquireRuntime releaseRuntime (\<lambda>e. (zero_ws, Some e))
       (do {
          r \<leftarrow> svc_Get ownerID workspaceID;
          (case r of
             Inl e \<Rightarrow> ret (zero_ws, Some e)
           | Inr v \<Rightarrow>
               if privateInputsIncomplete v then quarantinePrivateInputs v
               else if ws_State v \<noteq> WorkspaceProvisioning \<and> ws_State v \<noteq> WorkspaceMaintenance then ret (v, None)
               else if ws_ProviderResourceID v = [] then do {
                 r \<leftarrow> lookupProvisioned v;
                 (case r of
                    Inr providerID \<Rightarrow> do {
                      now \<leftarrow> svc_now;
                      let v1 = v\<lparr>ws_ProviderResourceID := providerID, ws_UpdatedAt := now\<rparr>;
                      e \<leftarrow> svc_Save v1;
                      (case e of Some e \<Rightarrow> ret (zero_ws, Some e) | None \<Rightarrow> drain_stop v1) }
                  | Inl e \<Rightarrow>
                      if err_is e = ErrNotFound then persistMaintenanceDrainResult v
                      else ret (v, Some (GoErr (err_is e) ''resolve provider during maintenance drain''))) }
               else drain_stop v) }))"

subsection \<open>Activity and policies\<close>

definition svc_TouchActivity :: "string \<Rightarrow> string \<Rightarrow> time \<Rightarrow> workspace result svc" where
  "svc_TouchActivity ownerID workspaceID at = do {
     at1 \<leftarrow> (if at = 0 then svc_now else ret at);
     e \<leftarrow> svc_store_TouchActivity ownerID workspaceID at1;
     (case e of Some e \<Rightarrow> ret (Inl e) | None \<Rightarrow> svc_Get ownerID workspaceID) }"

definition MarkIdleIfInactive :: "string \<Rightarrow> string \<Rightarrow> time \<Rightarrow> bool result svc" where
  "MarkIdleIfInactive ownerID workspaceID expected = do {
     now \<leftarrow> svc_now;
     svc_TransitionIfInactive ownerID workspaceID WorkspaceRunning WorkspaceIdle expected now }"

definition svc_UpdatePolicy :: "string \<Rightarrow> string \<Rightarrow> retention_policy \<Rightarrow> int \<Rightarrow> workspace result svc" where
  "svc_UpdatePolicy ownerID workspaceID retention idle =
     (if \<not> Retention_Valid retention \<or> (idle \<noteq> 0 \<and> (idle < 5 \<or> idle > 10080))
      then ret (Inl (GoErr ErrInvalid ''workspace policy''))
      else do {
        now \<leftarrow> svc_now;
        e \<leftarrow> svc_store_UpdatePolicy ownerID workspaceID retention idle now;
        (case e of Some e \<Rightarrow> ret (Inl e) | None \<Rightarrow> svc_Get ownerID workspaceID) })"

definition svc_UpdateSafetyMode :: "string \<Rightarrow> string \<Rightarrow> safety_mode \<Rightarrow> workspace result svc" where
  "svc_UpdateSafetyMode ownerID workspaceID mode =
     (if \<not> SafetyMode_Valid mode then ret (Inl (GoErr ErrInvalid ''workspace safety mode''))
      else gated acquireAdmission releaseAdmission Inl
        (do {
           r \<leftarrow> svc_Get ownerID workspaceID;
           (case r of
              Inl e \<Rightarrow> ret (Inl e)
            | Inr v \<Rightarrow>
                if ws_State v \<noteq> WorkspaceSuspended
                then ret (Inl (GoErr ErrConflict ''workspace must be suspended before changing autonomy''))
                else if ws_SafetyMode v = mode then ret (Inr v)
                else do {
                  now \<leftarrow> svc_now;
                  e \<leftarrow> svc_store_UpdateSafetyMode ownerID workspaceID mode now;
                  (case e of Some e \<Rightarrow> ret (Inl e) | None \<Rightarrow> svc_Get ownerID workspaceID) }) }))"

subsection \<open>Suspension and resumption\<close>

definition completeSuspension :: "workspace \<Rightarrow> outcome svc" where
  "completeSuspension ws =
     (if ws_State ws \<noteq> WorkspaceSuspending then ret (zero_ws, Some (GoErr ErrConflict ''workspace is not suspending''))
      else do {
        e \<leftarrow> suspension_boundary ws;
        (case e of
           Some e \<Rightarrow> ret (zero_ws, Some e)
         | None \<Rightarrow> do {
             e \<leftarrow> stopAndWait ws;
             (case e of
                Some e \<Rightarrow> ret (zero_ws, Some (GoErr (err_is e) ''stop workspace provider''))
              | None \<Rightarrow> do {
                  now \<leftarrow> svc_now;
                  let ws1 = ws\<lparr>ws_State := WorkspaceSuspended, ws_UpdatedAt := now, ws_SuspendedAt := Some now\<rparr>;
                  e \<leftarrow> svc_Save ws1;
                  (case e of
                     Some e \<Rightarrow> ret (zero_ws, Some e)
                   | None \<Rightarrow> do { _ \<leftarrow> rebalance (ws_OwnerID ws1); ret (ws1, None) }) }) }) })"

definition Suspend :: "string \<Rightarrow> string \<Rightarrow> outcome svc" where
  "Suspend ownerID workspaceID = with_mutation ownerID workspaceID
     (gated acquireRuntime releaseRuntime (\<lambda>e. (zero_ws, Some e))
       (do {
          r \<leftarrow> svc_Get ownerID workspaceID;
          (case r of
             Inl e \<Rightarrow> ret (zero_ws, Some e)
           | Inr ws \<Rightarrow>
               if ws_State ws = WorkspaceSuspending then completeSuspension ws
               else if \<not> CanTransition (ws_State ws) WorkspaceSuspending
               then ret (zero_ws, Some (GoErr ErrConflict ''workspace cannot suspend''))
               else do {
                 a \<leftarrow> outside (ws_ID ws) (CheckpointCreate (ws_ProviderResourceID ws) ''before-suspend'');
                 (case an_err a of
                    Some e \<Rightarrow> ret (zero_ws, Some (GoErr (err_is e) ''checkpoint before suspend''))
                  | None \<Rightarrow> do {
                      now \<leftarrow> svc_now;
                      let ws1 = ws\<lparr>ws_Dirty := an_dirty a, ws_Unpushed := an_unpushed a, ws_State := WorkspaceSuspending,
                                    ws_SuspendedAt := None, ws_UpdatedAt := now\<rparr>;
                      e \<leftarrow> svc_Save ws1;
                      (case e of Some e \<Rightarrow> ret (zero_ws, Some e) | None \<Rightarrow> completeSuspension ws1) }) }) }))"

text \<open>The boolean result of \<^verbatim>\<open>SuspendIfInactive\<close> says whether the suspension was claimed.\<close>

definition SuspendIfInactive :: "string \<Rightarrow> string \<Rightarrow> time \<Rightarrow> (workspace \<times> bool \<times> goerr option) svc" where
  "SuspendIfInactive ownerID workspaceID expected =
     gated (acquireWorkspaceMutation ownerID workspaceID) (releaseWorkspaceMutation ownerID workspaceID)
       (\<lambda>e. (zero_ws, False, Some e))
       (gated acquireRuntime releaseRuntime (\<lambda>e. (zero_ws, False, Some e))
         (do {
            r \<leftarrow> svc_Get ownerID workspaceID;
            (case r of
               Inl e \<Rightarrow> ret (zero_ws, False, Some e)
             | Inr ws \<Rightarrow>
                 if ws_State ws = WorkspaceSuspending
                 then do { v \<leftarrow> completeSuspension ws; ret (fst v, True, snd v) }
                 else if ws_State ws \<noteq> WorkspaceIdle \<or> ws_LastActivityAt ws \<noteq> expected then ret (ws, False, None)
                 else do {
                   a \<leftarrow> outside (ws_ID ws) (CheckpointCreate (ws_ProviderResourceID ws) ''before-idle-suspend'');
                   (case an_err a of
                      Some e \<Rightarrow> ret (zero_ws, False, Some (GoErr (err_is e) ''checkpoint before idle suspend''))
                    | None \<Rightarrow> do {
                        now \<leftarrow> svc_now;
                        c \<leftarrow> svc_TransitionIfInactive ownerID workspaceID WorkspaceIdle WorkspaceSuspending expected now;
                        (case c of
                           Inl e \<Rightarrow> ret (ws, False, Some e)
                         | Inr claimed \<Rightarrow>
                             if \<not> claimed then ret (ws, False, None)
                             else do {
                               r \<leftarrow> svc_Get ownerID workspaceID;
                               (case r of
                                  Inl e \<Rightarrow> ret (zero_ws, False, Some e)
                                | Inr ws1 \<Rightarrow> do { v \<leftarrow> completeSuspension ws1; ret (fst v, True, snd v) }) }) }) }) }))"

definition validate_resume :: "workspace \<Rightarrow> workspace result" where
  "validate_resume v = (if ws_State v \<noteq> WorkspaceSuspended then Inl (GoErr ErrConflict ''workspace is not suspended'') else Inr v)"

definition resume_running :: "workspace \<Rightarrow> outcome svc" where
  "resume_running ws = do {
     now \<leftarrow> svc_now;
     let ws1 = ws\<lparr>ws_State := WorkspaceRunning, ws_FailureCode := [], ws_UpdatedAt := now\<rparr>;
     e \<leftarrow> svc_Save ws1;
     (case e of
        Some e \<Rightarrow> ret (zero_ws, Some e)
      | None \<Rightarrow> do { _ \<leftarrow> rebalance (ws_OwnerID ws1); ret (ws1, None) }) }"

definition resume_reserved :: "workspace \<Rightarrow> outcome svc" where
  "resume_reserved ws = do {
     c \<leftarrow> prepareCapacityForStart ws;
     (case snd c of
        Some e \<Rightarrow> do {
          now \<leftarrow> svc_now;
          let ws1 = (fst c)\<lparr>ws_UpdatedAt := now\<rparr>;
          _ \<leftarrow> svc_Save ws1;
          ret (ws1, Some (GoErr ErrExternal failureCapacityRebalancePending)) }
      | None \<Rightarrow> do {
          m \<leftarrow> markProviderStartPending (fst c);
          (case snd m of
             Some e \<Rightarrow> ret (zero_ws, Some e)
           | None \<Rightarrow> start_and_initialize (fst m) resume_running) }) }"

definition Resume :: "string \<Rightarrow> string \<Rightarrow> outcome svc" where
  "Resume ownerID workspaceID = with_mutation ownerID workspaceID
     (gated acquireAdmission releaseAdmission (\<lambda>e. (zero_ws, Some e))
       (do {
          r \<leftarrow> reserveExistingStart ownerID workspaceID validate_resume;
          (case r of (ws, admitted, e) \<Rightarrow>
            if e \<noteq> None \<or> \<not> admitted then ret (ws, e)
            else gated acquireRuntime releaseRuntime (\<lambda>e. (ws, Some e))
              (do {
                 r \<leftarrow> svc_Get ownerID workspaceID;
                 (case r of Inl e \<Rightarrow> ret (zero_ws, Some e) | Inr ws1 \<Rightarrow> resume_reserved ws1) })) }))"

subsection \<open>Deletion\<close>

text \<open>The checks and the checkpoint before a workspace becomes \<^verbatim>\<open>deleting\<close>.\<close>

definition delete_checkpoint :: "workspace \<Rightarrow> bool \<Rightarrow> workspace result svc" where
  "delete_checkpoint ws automatic =
     (if automatic then ret (Inr ws)
      else if checkpointLiveState (ws_State ws) then do {
        a \<leftarrow> outside (ws_ID ws) (CheckpointCreate (ws_ProviderResourceID ws) ''before-delete'');
        ret (case an_err a of
            Some e \<Rightarrow> Inl (GoErr (err_is e) ''checkpoint before delete'')
          | None \<Rightarrow> Inr (ws\<lparr>ws_Dirty := an_dirty a, ws_Unpushed := an_unpushed a\<rparr>)) }
      else if ws_Dirty ws \<or> ws_Unpushed ws then do {
        a \<leftarrow> outside (ws_ID ws) CheckpointLatest;
        ret (case an_err a of Some e \<Rightarrow> Inl (GoErr (err_is e) ''checkpoint before delete'') | None \<Rightarrow> Inr ws) }
      else ret (Inr ws))"

definition claim_delete :: "workspace \<Rightarrow> bool \<Rightarrow> bool \<Rightarrow> workspace result svc" where
  "claim_delete ws automatic confirmed =
     (if ws_State ws = WorkspaceDeleting then ret (Inr ws)
      else if automatic \<and> ws_State ws \<noteq> WorkspaceSuspended
      then ret (Inl (GoErr ErrPrecondition ''only a suspended workspace can be auto-deleted''))
      else if automatic \<and> \<not> MayAutoDelete ws
      then ret (Inl (GoErr ErrPrecondition ''dirty, unpushed, or keep-forever workspace cannot be auto-deleted''))
      else if \<not> automatic \<and> \<not> confirmed
      then ret (Inl (GoErr ErrPrecondition ''explicit delete confirmation required''))
      else do {
        c \<leftarrow> delete_checkpoint ws automatic;
        (case c of
           Inl e \<Rightarrow> ret (Inl e)
         | Inr ws1 \<Rightarrow> do {
             now \<leftarrow> svc_now;
             let ws2 = ws1\<lparr>ws_State := WorkspaceDeleting, ws_SuspendedAt := None, ws_UpdatedAt := now\<rparr>;
             e \<leftarrow> svc_Save ws2;
             (case e of Some e \<Rightarrow> ret (Inl e) | None \<Rightarrow> ret (Inr ws2)) }) })"

text \<open>A row without provider identifier: its provider is looked up before anything is removed.\<close>

definition resolve_delete :: "workspace \<Rightarrow> workspace result svc" where
  "resolve_delete ws =
     (if ws_ProviderResourceID ws \<noteq> [] then ret (Inr ws)
      else do {
        r \<leftarrow> lookupProvisioned ws;
        (case r of
           Inr providerID \<Rightarrow> do {
             now \<leftarrow> svc_now;
             let ws1 = ws\<lparr>ws_ProviderResourceID := providerID, ws_UpdatedAt := now\<rparr>;
             e \<leftarrow> svc_Save ws1;
             (case e of Some e \<Rightarrow> ret (Inl e) | None \<Rightarrow> ret (Inr ws1)) }
         | Inl e \<Rightarrow>
             if err_is e = ErrNotFound then ret (Inr ws)
             else ret (Inl (GoErr (err_is e) ''resolve provider before workspace deletion''))) })"

definition finalize_delete :: "string \<Rightarrow> string \<Rightarrow> workspace \<Rightarrow> goerr option svc" where
  "finalize_delete ownerID workspaceID ws = do {
     e \<leftarrow> (if ws_ProviderResourceID ws \<noteq> []
           then do { a \<leftarrow> outside (ws_ID ws) (ProviderDelete (ws_ProviderResourceID ws)); ret (an_err a) }
           else ret None);
     (case e of
        Some e \<Rightarrow> ret (Some e)
      | None \<Rightarrow> do {
          a \<leftarrow> outside (ws_ID ws) BeginWorkspaceDeleteFinalization;
          (case an_err a of
             Some e \<Rightarrow> ret (Some e)
           | None \<Rightarrow>
               if \<not> an_release a then ret (Some (errorsNew ''workspace deletion boundary returned no release function''))
               else do {
                 e \<leftarrow> svc_FinalizeDelete ownerID workspaceID;
                 if e \<noteq> None \<and> err_is (the e) \<noteq> ErrNotFound then ret e
                 else do { _ \<leftarrow> rebalance ownerID; ret None } }) }) }"

definition Delete :: "string \<Rightarrow> string \<Rightarrow> bool \<Rightarrow> bool \<Rightarrow> goerr option svc" where
  "Delete ownerID workspaceID automatic confirmed =
     gated (acquireWorkspaceMutation ownerID workspaceID) (releaseWorkspaceMutation ownerID workspaceID) Some
       (gated acquireRuntime releaseRuntime Some
         (do {
            w \<leftarrow> State_Monad.get;
            if \<not> w_deletion w then ret (Some (errorsNew ''workspace deletion boundary is not configured''))
            else do {
              r \<leftarrow> svc_Get ownerID workspaceID;
              (case r of
                 Inl e \<Rightarrow> if err_is e = ErrNotFound then ret None else ret (Some e)
               | Inr ws \<Rightarrow> do {
                   c \<leftarrow> claim_delete ws automatic confirmed;
                   (case c of
                      Inl e \<Rightarrow> ret (Some e)
                    | Inr ws1 \<Rightarrow> do {
                        p \<leftarrow> resolve_delete ws1;
                        (case p of
                           Inl e \<Rightarrow> ret (Some e)
                         | Inr ws2 \<Rightarrow> finalize_delete ownerID workspaceID ws2) }) }) } }))"

definition ConfigureDeletionBoundary :: "bool \<Rightarrow> goerr option svc" where
  "ConfigureDeletionBoundary present =
     (if \<not> present then ret (Some (errorsNew ''workspace deletion boundary is required''))
      else do {
        w \<leftarrow> State_Monad.get;
        if w_deletion w then ret (Some (errorsNew ''workspace deletion boundary is already configured''))
        else do { _ \<leftarrow> State_Monad.set (w\<lparr>w_deletion := True\<rparr>); ret None } })"

definition ConfigureSuspensionBoundary :: "bool \<Rightarrow> goerr option svc" where
  "ConfigureSuspensionBoundary present =
     (if \<not> present then ret (Some (errorsNew ''workspace suspension boundary is required''))
      else do {
        w \<leftarrow> State_Monad.get;
        if w_suspension w then ret (Some (errorsNew ''workspace suspension boundary is already configured''))
        else do { _ \<leftarrow> State_Monad.set (w\<lparr>w_suspension := True\<rparr>); ret None } })"

subsection \<open>Construction\<close>

text \<open>
  \<^verbatim>\<open>New\<close> over the durable part of a world, as a process start finds it: the gates hold their tokens,
  no mutation gate exists and no boundary is configured. An initializer is given with whether it also
  prepares environments.
\<close>

definition NewService :: "bool \<Rightarrow> bool list \<Rightarrow> world \<Rightarrow> world result" where
  "NewService dependencies initializers w =
     (if \<not> dependencies then Inl (errorsNew ''workspace dependencies are required'')
      else if length initializers > 1 then Inl (errorsNew ''at most one workspace initializer is allowed'')
      else Inr (w\<lparr>w_initializer := (case initializers of [] \<Rightarrow> None | p # _ \<Rightarrow> Some p),
                 w_admissionGate := True, w_runtimeGate := True, w_mutations := [],
                 w_deletion := False, w_suspension := False\<rparr>))"

end
