(* ===== verification/Workspace_Accounting.thy ===== *)
theory Workspace_Accounting
  imports Workspace_Handlers
begin

text \<open>
  The invariant of the workspace service and the rules that carry it through a handler. The log of a
  run determines which workspaces may have a live runtime: any attempt to create or start one makes
  it so, and only a confirmed stop, a confirmed delete or a confirmed absence undoes it. The
  invariant says that every such workspace has a durable row that counts against the capacity, that
  its row does not claim to be a mere reservation, that an owner's slots stay within the limit, and
  that every call to the provider was preceded by its durable marker. Handlers are verified with
  weakest preconditions over one assertion \<open>K\<close> that every interaction keeps.
\<close>

subsection \<open>What may be live\<close>

definition live_step :: "event \<Rightarrow> string set \<Rightarrow> string set" where
  "live_step ev L = (case ev_call ev of
       Provision _ \<Rightarrow> insert (ev_wid ev) L
     | Start _ _ \<Rightarrow> insert (ev_wid ev) L
     | StartWithSetup _ _ \<Rightarrow> insert (ev_wid ev) L
     | StopAndWait _ \<Rightarrow> if ev_err ev = None then L - {ev_wid ev} else L
     | ProviderDelete _ \<Rightarrow> if ev_err ev = None then L - {ev_wid ev} else L
     | LookupProvisioned \<Rightarrow> if map_option err_is (ev_err ev) = Some ErrNotFound then L - {ev_wid ev} else L
     | _ \<Rightarrow> L)"

definition maybe_live :: "event list \<Rightarrow> string set" where
  "maybe_live evs = fold live_step evs {}"

lemma maybe_live_snoc: "maybe_live (evs @ [ev]) = live_step ev (maybe_live evs)"
  by (simp add: maybe_live_def)

text \<open>The row of a workspace that may be live: it counts, is no bare reservation, and is complete unless it is being deleted.\<close>

definition accounted :: "workspace \<Rightarrow> bool" where
  "accounted r \<longleftrightarrow> CountsAsRunning (ws_State r) \<and> \<not> definitelyStoppedStartReservation r
     \<and> (privateInputsIncomplete r \<longrightarrow> ws_State r = WorkspaceDeleting)"

text \<open>The states that use one of the owner's slots; a workspace being deleted only releases one.\<close>

definition holds_slot :: "workspace_state \<Rightarrow> bool" where
  "holds_slot st \<longleftrightarrow> CountsAsRunning st \<and> st \<noteq> WorkspaceDeleting"

definition slots :: "string \<Rightarrow> rows \<Rightarrow> nat" where
  "slots ow s = count_where (\<lambda>k r. ws_OwnerID r = ow \<and> holds_slot (ws_State r)) s"

text \<open>What a provider call finds durable.\<close>

definition marked :: "event \<Rightarrow> bool" where
  "marked ev \<longleftrightarrow> (case ev_call ev of
       Provision req \<Rightarrow> pr_WorkspaceID req = ev_wid ev \<and> (\<exists>r. map_of (ev_rows ev) (ev_wid ev) = Some r
         \<and> ws_State r = WorkspaceProvisioning \<and> ws_FailureCode r = failureProvisionUnconfirmed
         \<and> \<not> ws_PrivateInputsPending r \<and> ws_ProviderResourceID r = [] \<and> ws_Quota r = pr_Quota req)
     | Start rid req \<Rightarrow> (\<exists>r. map_of (ev_rows ev) (ev_wid ev) = Some r
         \<and> ws_State r = WorkspaceProvisioning \<and> ws_FailureCode r = failureStartCleanupPending
         \<and> \<not> ws_PrivateInputsPending r \<and> ws_ProviderResourceID r = rid \<and> ws_Quota r = sq_Quota req)
     | StartWithSetup rid req \<Rightarrow> su_WorkspaceID req = ev_wid ev \<and> (\<exists>r. map_of (ev_rows ev) (ev_wid ev) = Some r
         \<and> ws_State r = WorkspaceProvisioning \<and> ws_FailureCode r = failureStartCleanupPending
         \<and> \<not> ws_PrivateInputsPending r \<and> ws_ProviderResourceID r = rid \<and> ws_Quota r = su_Quota req
         \<and> ws_SetupApproved r)
     | ApplyQuota rid q \<Rightarrow> (\<exists>r. map_of (ev_rows ev) (ev_wid ev) = Some r
         \<and> ws_ProviderResourceID r = rid \<and> notGreater q (ws_Quota r))
     | _ \<Rightarrow> True)"

text \<open>The provider names a runtime it reports: a successful lookup or creation returns a non-empty identifier.\<close>

definition provider_named :: "(nat \<Rightarrow> answer) \<Rightarrow> bool" where
  "provider_named env \<longleftrightarrow> (\<forall>n. an_text (env n) \<noteq> [])"

text \<open>
  A controller with the number of slots an owner may hold: every start it admits stays within them.
  A controller that drains for maintenance admits none, so any number bounds it.
\<close>

definition limits :: "controller \<times> int \<Rightarrow> bool" where
  "limits c \<longleftrightarrow> maintenanceDrain (fst c) \<or> MaxRunning (ctl_capacity (fst c)) \<le> snd c"

text \<open>Without slots nothing may be live: no start is possible, and none is left from before.\<close>

definition svc_inv :: "controller \<times> int \<Rightarrow> world \<Rightarrow> bool" where
  "svc_inv c w \<longleftrightarrow> w_admission w = fst c \<and> limits c \<and> provider_named (w_env w) \<and> rows_ok (w_rows w)
     \<and> (\<forall>k \<in> maybe_live (w_log w). \<exists>r. map_of (w_rows w) k = Some r \<and> accounted r)
     \<and> (\<forall>ow. int (slots ow (w_rows w)) \<le> snd c)
     \<and> (snd c = 0 \<longrightarrow> maybe_live (w_log w) = {})
     \<and> (\<forall>ev \<in> set (w_log w). marked ev)"

subsection \<open>Narrow updates\<close>

text \<open>
  What a narrow update leaves of a row: everything the invariant reads, up to a change between the
  stable live states. A provisioning row keeps its safety mode.
\<close>

definition near :: "workspace \<Rightarrow> workspace \<Rightarrow> bool" where
  "near r q \<longleftrightarrow> ws_ID q = ws_ID r \<and> ws_OwnerID q = ws_OwnerID r \<and> ws_ProviderResourceID q = ws_ProviderResourceID r
     \<and> ws_FailureCode q = ws_FailureCode r \<and> ws_PrivateInputsPending q = ws_PrivateInputsPending r
     \<and> ws_Quota q = ws_Quota r \<and> ws_SetupApproved q = ws_SetupApproved r
     \<and> (ws_State q = ws_State r \<or> stableLiveProviderState (ws_State r) \<and> stableLiveProviderState (ws_State q))"

definition near_rows :: "rows \<Rightarrow> rows \<Rightarrow> bool" where
  "near_rows s t \<longleftrightarrow> (rows_ok s \<longrightarrow> rows_ok t) \<and> (rows_ok s \<longrightarrow> (\<forall>ow. slots ow t = slots ow s))
     \<and> (\<forall>k. rel_option near (map_of s k) (map_of t k))"

lemma near_refl [simp]: "near r r"
  by (simp add: near_def)

lemma near_trans: "near a b \<Longrightarrow> near b c \<Longrightarrow> near a c"
  by (auto simp: near_def)

lemma near_rows_refl [simp]: "near_rows s s"
  by (simp add: near_rows_def option.rel_refl)

lemma near_option_trans: "rel_option near x y \<Longrightarrow> rel_option near y z \<Longrightarrow> rel_option near x z"
  by (cases x; cases y; cases z) (auto intro: near_trans)

lemma near_rows_trans: "near_rows a b \<Longrightarrow> near_rows b c \<Longrightarrow> near_rows a c"
  unfolding near_rows_def by (auto intro: near_option_trans)

lemma slots_update_same:
  assumes "map_wf s" "map_of s k = Some r" "ws_OwnerID q = ws_OwnerID r"
    "holds_slot (ws_State q) = holds_slot (ws_State r)"
  shows "slots ow (AList.update k q s) = slots ow s"
proof -
  let ?p = "\<lambda>k r. ws_OwnerID r = ow \<and> holds_slot (ws_State r)"
  have "count_where ?p s = count_where ?p (AList.update k r s)"
  proof -
    have "AList.update k r s = s" using assms(1,2)
      by (induction s) (auto simp: map_wf_def split: if_splits)
    then show ?thesis by simp
  qed
  with assms show ?thesis by (simp add: slots_def count_where_update)
qed

lemma holds_slot_stable: "stableLiveProviderState st \<Longrightarrow> holds_slot st"
  by (cases st) (simp_all add: holds_slot_def)

lemma near_holds_slot: "near r q \<Longrightarrow> holds_slot (ws_State q) = holds_slot (ws_State r)"
  using holds_slot_stable by (auto simp: near_def)

lemma near_rows_update:
  assumes "map_of s k = Some r" "near r q" "row_ok k r \<Longrightarrow> row_ok k q"
  shows "near_rows s (AList.update k q s)"
  unfolding near_rows_def
proof (intro conjI allI impI)
  assume "rows_ok s"
  then show "rows_ok (AList.update k q s)" using assms by (auto intro: rows_ok_update dest: rows_okD)
  show "slots ow (AList.update k q s) = slots ow s" for ow
    by (rule slots_update_same [OF _ assms(1)])
       (use \<open>rows_ok s\<close> assms(2) near_holds_slot [OF assms(2)] in \<open>auto simp: rows_ok_def near_def\<close>)
next
  show "rel_option near (map_of s j) (map_of (AList.update k q s) j)" for j
    using assms by (auto intro: option.rel_refl)
qed

lemma narrow_near: "near_rows s (apply_narrow n s)"
proof (cases n)
  case (NarrowTouch ow wid at)
  show ?thesis
  proof (cases "map_of s wid")
    case (Some r)
    then show ?thesis
      by (auto simp: NarrowTouch store_TouchActivity_def Let_def row_ok_def near_def intro!: near_rows_update)
  qed (simp add: NarrowTouch store_TouchActivity_def)
next
  case (NarrowIdle ow wid expected at)
  show ?thesis
  proof (cases "map_of s wid")
    case (Some r)
    then show ?thesis
      by (auto simp: NarrowIdle store_TransitionIfInactive_def row_ok_def near_def intro!: near_rows_update)
  qed (simp add: NarrowIdle store_TransitionIfInactive_def)
next
  case (NarrowPolicy ow wid r i at)
  show ?thesis
  proof (cases "map_of s wid")
    case (Some r)
    then show ?thesis
      by (auto simp: NarrowPolicy store_UpdatePolicy_def row_ok_def near_def intro!: near_rows_update)
  qed (simp add: NarrowPolicy store_UpdatePolicy_def)
next
  case (NarrowMode ow wid m at)
  show ?thesis
  proof (cases "map_of s wid")
    case (Some r)
    then show ?thesis
      by (auto simp: NarrowMode store_UpdateSafetyMode_def row_ok_def near_def intro!: near_rows_update)
  qed (simp add: NarrowMode store_UpdateSafetyMode_def)
qed

lemma narrows_near: "near_rows s (fold apply_narrow ns s)"
  by (induction ns arbitrary: s) (auto intro: near_rows_trans [OF narrow_near])

subsection \<open>Weakest preconditions\<close>

definition wp :: "('s, 'a) state \<Rightarrow> ('a \<Rightarrow> 's \<Rightarrow> bool) \<Rightarrow> 's \<Rightarrow> bool" where
  "wp m Q w = (case run_state m w of (r, w') \<Rightarrow> Q r w')"

lemma wp_ret: "Q r w \<Longrightarrow> wp (ret r) Q w"
  by (simp add: wp_def)

lemma wp_bind: "wp m (\<lambda>r. wp (f r) Q) w \<Longrightarrow> wp (State_Monad.bind m f) Q w"
  by (simp add: wp_def split: prod.splits)

lemma wp_get: "Q w w \<Longrightarrow> wp State_Monad.get Q w"
  by (simp add: wp_def)

lemma wp_set: "Q () v \<Longrightarrow> wp (State_Monad.set v) Q w"
  by (simp add: wp_def)

lemma wp_if: "(b \<Longrightarrow> wp m Q w) \<Longrightarrow> (\<not> b \<Longrightarrow> wp n Q w) \<Longrightarrow> wp (if b then m else n) Q w"
  by simp

lemma wp_option:
  "(x = None \<Longrightarrow> wp m Q w) \<Longrightarrow> (\<And>e. x = Some e \<Longrightarrow> wp (f e) Q w) \<Longrightarrow> wp (case x of None \<Rightarrow> m | Some e \<Rightarrow> f e) Q w"
  by (cases x) auto

lemma wp_sum:
  "(\<And>e. x = Inl e \<Longrightarrow> wp (f e) Q w) \<Longrightarrow> (\<And>v. x = Inr v \<Longrightarrow> wp (g v) Q w) \<Longrightarrow> wp (case x of Inl e \<Rightarrow> f e | Inr v \<Rightarrow> g v) Q w"
  by (cases x) auto

lemma wp_prod: "(\<And>a b. x = (a, b) \<Longrightarrow> wp (f a b) Q w) \<Longrightarrow> wp (case x of (a, b) \<Rightarrow> f a b) Q w"
  by (cases x) auto

lemma wp_let: "wp (f x) Q w \<Longrightarrow> wp (let y = x in f y) Q w"
  by simp

lemma wp_mono: "wp m Q w \<Longrightarrow> (\<And>r w'. Q r w' \<Longrightarrow> R r w') \<Longrightarrow> wp m R w"
  by (auto simp: wp_def split: prod.splits)

lemma wp_run: "wp m (\<lambda>r w'. P w') w \<Longrightarrow> P (snd (run_state m w))"
  by (auto simp: wp_def split: prod.splits)

lemmas wp_intros = wp_ret wp_bind wp_if wp_option wp_sum wp_prod wp_let

subsection \<open>The assertion of a handler\<close>

text \<open>
  What a handler working on workspace \<open>k\<close> knows: the invariant; whether \<open>k\<close> may be live; whether
  its row, if any, holds a slot; and, while it is provisioning, the value its row was last saved
  with.
\<close>

definition slotted :: "world \<Rightarrow> string \<Rightarrow> bool" where
  "slotted w k \<longleftrightarrow> (\<forall>r. map_of (w_rows w) k = Some r \<longrightarrow> holds_slot (ws_State r))"

definition pinned :: "world \<Rightarrow> workspace \<Rightarrow> bool" where
  "pinned w v \<longleftrightarrow> ws_State v = WorkspaceProvisioning \<and> (\<exists>r. map_of (w_rows w) (ws_ID v) = Some r \<and> near v r)"

definition K :: "controller \<times> int \<Rightarrow> string \<Rightarrow> bool \<Rightarrow> bool \<Rightarrow> workspace option \<Rightarrow> world \<Rightarrow> bool" where
  "K c k lv sl pv w \<longleftrightarrow> svc_inv c w \<and> (k \<in> maybe_live (w_log w) \<longrightarrow> lv) \<and> (sl \<longrightarrow> slotted w k)
     \<and> (\<forall>v. pv = Some v \<longrightarrow> pinned w v \<and> ws_ID v = k)"

abbreviation pin :: "workspace \<Rightarrow> workspace option" where
  "pin ws \<equiv> (if ws_State ws = WorkspaceProvisioning then Some ws else None)"

lemma K_inv: "K c k lv sl pv w \<Longrightarrow> svc_inv c w"
  by (simp add: K_def)

lemma K_start: "svc_inv c w \<Longrightarrow> K c k True False None w"
  by (simp add: K_def)

lemma K_weaken:
  "K c k lv sl pv w \<Longrightarrow> (lv \<Longrightarrow> lv') \<Longrightarrow> (sl' \<Longrightarrow> sl) \<Longrightarrow> pv' = None \<or> pv' = pv \<Longrightarrow> K c k lv' sl' pv' w"
  by (auto simp: K_def)

lemma near_accounted: "near r q \<Longrightarrow> accounted r \<Longrightarrow> accounted q"
  by (cases "ws_State r"; cases "ws_State q")
     (auto simp: near_def accounted_def definitelyStoppedStartReservation_def privateInputsIncomplete_def)

lemma near_rows_Some: "near_rows s t \<Longrightarrow> map_of s k = Some r \<Longrightarrow> \<exists>q. map_of t k = Some q \<and> near r q"
  by (auto simp: near_rows_def option_rel_Some1 dest!: spec [of _ k])

lemma near_rows_Some': "near_rows s t \<Longrightarrow> map_of t k = Some q \<Longrightarrow> \<exists>r. map_of s k = Some r \<and> near r q"
  by (auto simp: near_rows_def option_rel_Some2 dest!: spec [of _ k])

text \<open>Rows changed only by narrow updates, everything else the assertion reads unchanged.\<close>

definition quiet :: "world \<Rightarrow> world \<Rightarrow> bool" where
  "quiet w w' \<longleftrightarrow> near_rows (w_rows w) (w_rows w') \<and> w_log w' = w_log w \<and> w_admission w' = w_admission w
     \<and> w_initializer w' = w_initializer w \<and> w_env w' = w_env w"

lemma quiet_refl [simp]: "quiet w w"
  by (simp add: quiet_def)

lemma world_quiet_trans: "quiet a b \<Longrightarrow> quiet b d \<Longrightarrow> quiet a d"
  by (auto simp: quiet_def intro: near_rows_trans)

lemma K_quiet:
  assumes "K c k lv sl pv w" "quiet w w'"
  shows "K c k lv sl pv w'"
proof -
  have n: "near_rows (w_rows w) (w_rows w')" and same: "w_log w' = w_log w" "w_admission w' = w_admission w" "w_env w' = w_env w"
    using assms(2) by (auto simp: quiet_def)
  have i: "svc_inv c w" using assms(1) by (rule K_inv)
  have rows: "rows_ok (w_rows w')" "slots ow (w_rows w') = slots ow (w_rows w)" for ow
    using i n by (auto simp: svc_inv_def near_rows_def)
  have live: "\<exists>r. map_of (w_rows w') j = Some r \<and> accounted r" if "j \<in> maybe_live (w_log w)" for j
    using i that near_rows_Some [OF n] near_accounted unfolding svc_inv_def by blast
  have "svc_inv c w'" using i rows live by (auto simp: svc_inv_def same)
  moreover have "slotted w' k" if "slotted w k"
    using that near_rows_Some' [OF n] near_holds_slot unfolding slotted_def by blast
  moreover have "pinned w' v" if "pinned w v" for v
    using that near_rows_Some [OF n] near_trans unfolding pinned_def by blast
  ultimately show ?thesis using assms(1) by (auto simp: K_def same)
qed

subsection \<open>Rules of the interactions\<close>

lemma wp_tick:
  assumes "\<And>w'. quiet w w' \<Longrightarrow> Q (w_env w (w_tick w)) w'"
  shows "wp tick Q w"
  unfolding tick_def
  by (intro wp_intros wp_get wp_set assms) (simp add: quiet_def narrows_near)

text \<open>A tick keeps the assertion; the room left for an owner is kept too.\<close>

definition room :: "controller \<times> int \<Rightarrow> string \<Rightarrow> world \<Rightarrow> bool" where
  "room c ow w \<longleftrightarrow> int (slots ow (w_rows w)) < snd c"

lemma room_quiet: "quiet w w' \<Longrightarrow> svc_inv c w \<Longrightarrow> room c ow w \<Longrightarrow> room c ow w'"
  by (simp add: room_def quiet_def near_rows_def svc_inv_def)

lemma wp_now:
  assumes "K c k lv sl pv w"
    and "\<And>t w'. K c k lv sl pv w' \<Longrightarrow> quiet w w' \<Longrightarrow> Q t w'"
  shows "wp svc_now Q w"
  unfolding svc_now_def by (intro wp_intros wp_tick) (metis assms K_quiet)

lemma wp_ctx_Err:
  assumes "K c k lv sl pv w"
    and "\<And>e w'. K c k lv sl pv w' \<Longrightarrow> quiet w w' \<Longrightarrow> Q e w'"
  shows "wp ctx_Err Q w"
  unfolding ctx_Err_def by (intro wp_intros wp_tick) (metis assms K_quiet)

lemma wp_rows_read:
  assumes "K c k lv sl pv w"
    and "\<And>e w'. K c k lv sl pv w' \<Longrightarrow> quiet w w' \<Longrightarrow> Q (Inl e) w'"
    and "\<And>w'. K c k lv sl pv w' \<Longrightarrow> quiet w w' \<Longrightarrow> Q (f (w_rows w')) w'"
  shows "wp (rows_read f) Q w"
  unfolding rows_read_def
  by (intro wp_intros wp_tick wp_get) (auto split: option.splits intro: assms K_quiet)

lemma wp_Get:
  assumes K: "K c k lv sl pv w"
    and err: "\<And>e w'. K c k lv sl pv w' \<Longrightarrow> Q (Inl e) w'"
    and ok: "\<And>ws w'. K c k (lv \<and> accounted ws) (holds_slot (ws_State ws)) (pin ws) w' \<Longrightarrow> quiet w w' \<Longrightarrow>
      ws_ID ws = k \<Longrightarrow> ws_OwnerID ws = ow \<Longrightarrow> (\<And>v. pv = Some v \<Longrightarrow> near v ws) \<Longrightarrow> Q (Inr ws) w'"
  shows "wp (svc_Get ow k) Q w"
  unfolding svc_Get_def
proof (rule wp_rows_read [OF K])
  fix w' assume K': "K c k lv sl pv w'" and q: "quiet w w'"
  show "Q (store_Get ow k (w_rows w')) w'"
  proof (cases "store_Get ow k (w_rows w')")
    case (Inl e)
    then show ?thesis using err [OF K'] by simp
  next
    case (Inr ws)
    then have ws: "map_of (w_rows w') k = Some ws" "ws_OwnerID ws = ow"
      by (auto simp: store_Get_def split: option.splits if_splits)
    have id: "ws_ID ws = k" using K' ws(1) by (auto simp: K_def svc_inv_def rows_ok_def row_ok_def)
    have "K c k (lv \<and> accounted ws) (holds_slot (ws_State ws)) (pin ws) w'"
      using K' ws(1) id by (auto simp: K_def svc_inv_def slotted_def pinned_def)
    moreover have "near v ws" if "pv = Some v" for v
      using K' that ws(1) by (auto simp: K_def pinned_def)
    ultimately show ?thesis using ok [OF _ q id ws(2)] Inr by simp
  qed
qed (rule err)

lemma slots_update_le:
  assumes "map_wf s" "map_of s k = Some r" "ws_OwnerID q = ws_OwnerID r"
  shows "slots ow (AList.update k q s) \<le> slots ow s + (if holds_slot (ws_State q) \<and> ws_OwnerID q = ow then 1 else 0)"
    and "(holds_slot (ws_State q) \<Longrightarrow> holds_slot (ws_State r)) \<Longrightarrow> slots ow (AList.update k q s) \<le> slots ow s"
proof -
  let ?p = "\<lambda>k r. ws_OwnerID r = ow \<and> holds_slot (ws_State r)"
  have d: "count_where ?p (AList.delete k s) \<le> count_where ?p s"
    using assms(1) by (simp add: count_where_delete)
  show "slots ow (AList.update k q s) \<le> slots ow s + (if holds_slot (ws_State q) \<and> ws_OwnerID q = ow then 1 else 0)"
    using d assms(1) by (auto simp: slots_def count_where_update)
  show "slots ow (AList.update k q s) \<le> slots ow s" if "holds_slot (ws_State q) \<Longrightarrow> holds_slot (ws_State r)"
  proof (cases "holds_slot (ws_State q) = holds_slot (ws_State r)")
    case True
    then show ?thesis using slots_update_same [OF assms True] by simp
  next
    case False
    with that have "\<not> holds_slot (ws_State q)" by blast
    with d assms(1) show ?thesis by (auto simp: slots_def count_where_update)
  qed
qed

lemma accounted_strip [simp]: "accounted (workspaceWithoutPrivateInputs ws) = accounted ws"
  by (simp add: accounted_def workspaceWithoutPrivateInputs_def definitelyStoppedStartReservation_def
      privateInputsIncomplete_def)

lemma near_strip [simp]: "near ws (workspaceWithoutPrivateInputs ws)"
  by (simp add: near_def workspaceWithoutPrivateInputs_def)

lemma strip_fields [simp]:
  "ws_State (workspaceWithoutPrivateInputs ws) = ws_State ws" "ws_ID (workspaceWithoutPrivateInputs ws) = ws_ID ws"
  by (simp_all add: workspaceWithoutPrivateInputs_def)

text \<open>The row of \<open>k\<close> replaced by a value that is accounted for when \<open>k\<close> may be live and has its slot.\<close>

lemma svc_inv_replace:
  assumes i: "svc_inv c w" and r: "map_of (w_rows w) k = Some r" "ws_OwnerID q = ws_OwnerID r"
    and q: "row_ok k q" "k \<in> maybe_live (w_log w) \<Longrightarrow> accounted q"
    and slot: "holds_slot (ws_State q) \<Longrightarrow> holds_slot (ws_State r) \<or> room c (ws_OwnerID q) w"
  shows "svc_inv c (w\<lparr>w_rows := AList.update k q (w_rows w)\<rparr>)"
proof -
  have wf: "map_wf (w_rows w)" using i by (simp add: svc_inv_def rows_ok_def)
  have "int (slots ow (AList.update k q (w_rows w))) \<le> snd c" for ow
  proof (cases "holds_slot (ws_State q) \<and> \<not> holds_slot (ws_State r) \<and> ws_OwnerID q = ow")
    case True
    then have "room c ow w" using slot by auto
    then show ?thesis using slots_update_le(1) [OF wf r, of ow] True by (simp add: room_def)
  next
    case False
    have "int (slots ow (w_rows w)) \<le> snd c" using i by (simp add: svc_inv_def)
    moreover have "slots ow (AList.update k q (w_rows w)) \<le> slots ow (w_rows w)"
      using False slots_update_le [OF wf r, of ow] by (cases "holds_slot (ws_State q) \<and> ws_OwnerID q = ow") auto
    ultimately show ?thesis by linarith
  qed
  with i q show ?thesis
    by (auto simp: svc_inv_def intro: rows_ok_update)
qed

lemma K_save:
  assumes K: "K c k lv sl pv w" and k: "ws_ID ws = k" and live: "lv \<Longrightarrow> accounted ws"
    and slot: "holds_slot (ws_State ws) \<Longrightarrow> sl \<or> room c (ws_OwnerID ws) w"
  shows "K c k lv (sl \<and> holds_slot (ws_State ws)) None (w\<lparr>w_rows := snd (store_Save ws (w_rows w))\<rparr>)"
    and "fst (store_Save ws (w_rows w)) = None \<Longrightarrow>
      K c k lv (holds_slot (ws_State ws)) (pin ws) (w\<lparr>w_rows := snd (store_Save ws (w_rows w))\<rparr>)"
proof -
  let ?q = "workspaceWithoutPrivateInputs ws"
  show "K c k lv (sl \<and> holds_slot (ws_State ws)) None (w\<lparr>w_rows := snd (store_Save ws (w_rows w))\<rparr>)"
    and "fst (store_Save ws (w_rows w)) = None \<Longrightarrow>
      K c k lv (holds_slot (ws_State ws)) (pin ws) (w\<lparr>w_rows := snd (store_Save ws (w_rows w))\<rparr>)"
  proof (atomize (full), cases "\<exists>r. map_of (w_rows w) k = Some r \<and> ws_OwnerID r = ws_OwnerID ws")
    case False
    then have "store_Save ws (w_rows w) = (Some (GoErr ErrNotFound []), w_rows w)"
      using k by (auto simp: store_Save_def split: option.splits)
    with K show "K c k lv (sl \<and> holds_slot (ws_State ws)) None (w\<lparr>w_rows := snd (store_Save ws (w_rows w))\<rparr>) \<and>
        (fst (store_Save ws (w_rows w)) = None \<longrightarrow>
          K c k lv (holds_slot (ws_State ws)) (pin ws) (w\<lparr>w_rows := snd (store_Save ws (w_rows w))\<rparr>))"
      by (auto simp: K_def)
  next
    case True
    then obtain r where r: "map_of (w_rows w) k = Some r" "ws_OwnerID r = ws_OwnerID ws" by blast
    then have st: "store_Save ws (w_rows w) = (None, AList.update k ?q (w_rows w))"
      using k by (simp add: store_Save_def)
    have "svc_inv c (w\<lparr>w_rows := AList.update k ?q (w_rows w)\<rparr>)"
    proof (rule svc_inv_replace [OF K_inv [OF K] r(1)])
      show "row_ok k ?q" unfolding k [symmetric] by (rule row_ok_strip)
      show "accounted ?q" if "k \<in> maybe_live (w_log w)" using that K live by (simp add: K_def)
      show "holds_slot (ws_State r) \<or> room c (ws_OwnerID ?q) w" if "holds_slot (ws_State ?q)"
        using that slot K r by (auto simp: K_def slotted_def)
    qed (simp add: r)
    with K st k show "K c k lv (sl \<and> holds_slot (ws_State ws)) None (w\<lparr>w_rows := snd (store_Save ws (w_rows w))\<rparr>) \<and>
        (fst (store_Save ws (w_rows w)) = None \<longrightarrow>
          K c k lv (holds_slot (ws_State ws)) (pin ws) (w\<lparr>w_rows := snd (store_Save ws (w_rows w))\<rparr>))"
      by (auto simp: K_def slotted_def pinned_def)
  qed
qed

lemma wp_rows_write:
  assumes "\<And>w'. quiet w w' \<Longrightarrow> Q (fst (f (w_rows w'))) (w'\<lparr>w_rows := snd (f (w_rows w'))\<rparr>)"
    and "\<And>e w'. quiet w w' \<Longrightarrow> Q (Some e) (w'\<lparr>w_rows := snd (f (w_rows w'))\<rparr>)"
    and "\<And>e w'. quiet w w' \<Longrightarrow> Q (Some e) w'"
  shows "wp (rows_write f) Q w"
  unfolding rows_write_def
  by (intro wp_bind wp_tick wp_get wp_option wp_set wp_ret) (auto intro: assms)

lemma wp_Save:
  assumes K: "K c k lv sl pv w" and k: "ws_ID ws = k" and live: "lv \<Longrightarrow> accounted ws"
    and slot: "holds_slot (ws_State ws) \<Longrightarrow> sl \<or> room c (ws_OwnerID ws) w"
    and err: "\<And>e w'. K c k lv (sl \<and> holds_slot (ws_State ws)) None w' \<Longrightarrow> Q (Some e) w'"
    and ok: "\<And>w'. K c k lv (holds_slot (ws_State ws)) (pin ws) w' \<Longrightarrow> Q None w'"
  shows "wp (svc_Save ws) Q w"
  unfolding svc_Save_def
proof (rule wp_rows_write)
  fix w' assume q: "quiet w w'"
  have K': "K c k lv sl pv w'" by (rule K_quiet [OF K q])
  have "holds_slot (ws_State ws) \<Longrightarrow> sl \<or> room c (ws_OwnerID ws) w'"
    using slot room_quiet [OF q K_inv [OF K]] by blast
  note S = K_save [OF K' k live this]
  show "Q (fst (store_Save ws (w_rows w'))) (w'\<lparr>w_rows := snd (store_Save ws (w_rows w'))\<rparr>)"
    using S by (cases "fst (store_Save ws (w_rows w'))") (auto intro: err ok)
  show "Q (Some e) (w'\<lparr>w_rows := snd (store_Save ws (w_rows w'))\<rparr>)" for e
    using S(1) by (rule err)
  show "Q (Some e) w'" for e
    by (rule err, rule K_weaken [OF K']) auto
qed

text \<open>Creating a row for a fresh identifier; it takes a slot only when there is room.\<close>

lemma wp_Create:
  assumes K: "K c k lv sl pv w" and k: "ws_ID ws = k"
    and slot: "holds_slot (ws_State ws) \<Longrightarrow> room c (ws_OwnerID ws) w"
    and err: "\<And>e w'. svc_inv c w' \<Longrightarrow> Q (Some e) w'"
    and ok: "\<And>w'. K c k False (holds_slot (ws_State ws)) (pin ws) w' \<Longrightarrow> Q None w'"
  shows "wp (svc_Create ws) Q w"
  unfolding svc_Create_def
proof (rule wp_rows_write)
  fix w' assume q: "quiet w w'"
  have i: "svc_inv c w'" by (rule K_inv [OF K_quiet [OF K q]])
  let ?s = "store_Create ws (w_rows w')" and ?q = "workspaceWithoutPrivateInputs ws"
  show "Q (Some e) w'" for e using i by (rule err)
  have new: "K c k False (holds_slot (ws_State ws)) (pin ws) (w'\<lparr>w_rows := snd ?s\<rparr>)" if "fst ?s = None"
  proof -
    have fresh: "map_of (w_rows w') k = None" and s: "snd ?s = AList.update k ?q (w_rows w')"
      using that k by (auto simp: store_Create_def split: if_splits)
    have dead: "k \<notin> maybe_live (w_log w')" using i fresh by (auto simp: svc_inv_def)
    have nokey: "AList.delete k (w_rows w') = w_rows w'"
      using fresh by (simp add: map_of_eq_None_iff delete_idem)
    have wf: "map_wf (w_rows w')" using i by (simp add: svc_inv_def rows_ok_def)
    have "int (slots ow (AList.update k ?q (w_rows w'))) \<le> snd c" for ow
      using i wf slot room_quiet [OF q K_inv [OF K], of "ws_OwnerID ws"]
      by (auto simp: slots_def count_where_update nokey svc_inv_def room_def)
    then have "svc_inv c (w'\<lparr>w_rows := AList.update k ?q (w_rows w')\<rparr>)"
      using i dead k row_ok_strip [of ws] by (auto simp: svc_inv_def intro: rows_ok_update)
    then show ?thesis using dead k by (auto simp: K_def s slotted_def pinned_def)
  qed
  have keep: "w'\<lparr>w_rows := snd ?s\<rparr> = w'" if "fst ?s \<noteq> None"
    using that by (auto simp: store_Create_def split: if_splits)
  show "Q (fst ?s) (w'\<lparr>w_rows := snd ?s\<rparr>)"
    using new keep i by (cases "fst ?s") (auto intro: ok err)
  show "Q (Some e) (w'\<lparr>w_rows := snd ?s\<rparr>)" for e
    using new keep i by (cases "fst ?s") (auto intro: err K_inv)
qed

text \<open>Removing the row of a workspace that cannot be live.\<close>

lemma slots_delete_le: "map_wf s \<Longrightarrow> slots ow (AList.delete k s) \<le> slots ow s"
  by (simp add: slots_def count_where_delete)

lemma svc_inv_remove:
  assumes "svc_inv c w" "k \<notin> maybe_live (w_log w)"
  shows "svc_inv c (w\<lparr>w_rows := AList.delete k (w_rows w)\<rparr>)"
proof -
  have "map_wf (w_rows w)" using assms(1) by (simp add: svc_inv_def rows_ok_def)
  then have "int (slots ow (AList.delete k (w_rows w))) \<le> snd c" for ow
    using assms(1) slots_delete_le [of "w_rows w" ow k] unfolding svc_inv_def by (meson of_nat_mono order_trans)
  with assms show ?thesis by (auto simp: svc_inv_def intro: rows_ok_delete)
qed

lemma wp_FinalizeDelete:
  assumes K: "K c k False sl pv w" and post: "\<And>e w'. svc_inv c w' \<Longrightarrow> Q e w'"
  shows "wp (svc_FinalizeDelete ow k) Q w"
  unfolding svc_FinalizeDelete_def
proof (rule wp_rows_write)
  fix w' assume q: "quiet w w'"
  have K': "K c k False sl pv w'" by (rule K_quiet [OF K q])
  then have "svc_inv c (w'\<lparr>w_rows := snd (store_FinalizeDelete ow k (w_rows w'))\<rparr>)"
    by (auto simp: store_FinalizeDelete_def K_def svc_inv_remove split: option.splits)
  then show "Q (fst (store_FinalizeDelete ow k (w_rows w'))) (w'\<lparr>w_rows := snd (store_FinalizeDelete ow k (w_rows w'))\<rparr>)"
    "Q (Some e) (w'\<lparr>w_rows := snd (store_FinalizeDelete ow k (w_rows w'))\<rparr>)" for e
    by (auto intro: post)
  show "Q (Some e) w'" for e using K_inv [OF K'] by (rule post)
qed

subsection \<open>Rules of the calls that leave the process\<close>

lemma wp_outside:
  assumes K: "K c k lv sl pv w"
    and m: "\<And>w' e. quiet w w' \<Longrightarrow> marked \<lparr>ev_wid = k', ev_call = call, ev_err = e, ev_rows = w_rows w'\<rparr>"
    and post: "\<And>a w' w''. quiet w w' \<Longrightarrow> K c k lv sl pv w' \<Longrightarrow>
      w'' = w'\<lparr>w_log := w_log w' @ [\<lparr>ev_wid = k', ev_call = call, ev_err = an_err a, ev_rows = w_rows w'\<rparr>]\<rparr> \<Longrightarrow>
      (\<forall>ev \<in> set (w_log w''). marked ev) \<Longrightarrow> an_text a \<noteq> [] \<Longrightarrow> Q a w''"
  shows "wp (outside k' call) Q w"
  unfolding outside_def
proof (intro wp_bind wp_tick wp_get wp_set wp_ret)
  fix w' assume q: "quiet w w'"
  have K': "K c k lv sl pv w'" by (rule K_quiet [OF K q])
  have "\<forall>ev \<in> set (w_log w'). marked ev" using K_inv [OF K'] by (simp add: svc_inv_def)
  then show "Q (w_env w (w_tick w)) (w'\<lparr>w_log := w_log w' @ [\<lparr>ev_wid = k', ev_call = call,
      ev_err = an_err (w_env w (w_tick w)), ev_rows = w_rows w'\<rparr>]\<rparr>)"
    using m [OF q] K_inv [OF K] by (intro post [OF q K']) (auto simp: svc_inv_def provider_named_def)
qed

text \<open>Calls without effect on what may be live: checkpoints, initialization, private inputs, boundaries, quota builds.\<close>

definition harmless :: "outside_call \<Rightarrow> bool" where
  "harmless call = (case call of CheckpointCreate _ _ \<Rightarrow> True | CheckpointLatest \<Rightarrow> True | Initialize \<Rightarrow> True
     | PrepareEnvironment \<Rightarrow> True | BeginWorkspaceSuspension \<Rightarrow> True | BeginWorkspaceDeleteFinalization \<Rightarrow> True | _ \<Rightarrow> False)"

lemma K_log:
  assumes "K c k lv sl pv w" "\<forall>ev \<in> set (w_log w @ [ev]). marked ev"
    and "maybe_live (w_log w @ [ev]) \<subseteq> maybe_live (w_log w)" "k \<in> maybe_live (w_log w @ [ev]) \<Longrightarrow> lv'"
  shows "K c k lv' sl pv (w\<lparr>w_log := w_log w @ [ev]\<rparr>)"
  using assms by (auto simp: K_def svc_inv_def slotted_def pinned_def)

lemma wp_harmless:
  assumes K: "K c k lv sl pv w" and call: "harmless call"
    and post: "\<And>a w'. K c k lv sl pv w' \<Longrightarrow> Q a w'"
  shows "wp (outside k' call) Q w"
proof (rule wp_outside [OF K])
  show "marked \<lparr>ev_wid = k', ev_call = call, ev_err = e, ev_rows = w_rows w'\<rparr>" for w' e
    using call by (cases call) (auto simp: marked_def harmless_def)
next
  fix a :: answer and w' w'' :: world
  assume K': "K c k lv sl pv w'" and m: "\<forall>ev \<in> set (w_log w''). marked ev"
    and w'': "w'' = w'\<lparr>w_log := w_log w' @ [\<lparr>ev_wid = k', ev_call = call, ev_err = an_err a, ev_rows = w_rows w'\<rparr>]\<rparr>"
  have "K c k lv sl pv w''"
    unfolding w''
  proof (rule K_log [OF K'])
    show "maybe_live (w_log w' @ [\<lparr>ev_wid = k', ev_call = call, ev_err = an_err a, ev_rows = w_rows w'\<rparr>]) \<subseteq> maybe_live (w_log w')"
      using call by (cases call) (auto simp: maybe_live_snoc live_step_def harmless_def)
    then show "k \<in> maybe_live (w_log w' @ [\<lparr>ev_wid = k', ev_call = call, ev_err = an_err a, ev_rows = w_rows w'\<rparr>]) \<Longrightarrow> lv"
      using K' by (auto simp: K_def)
  qed (use m w'' in simp)
  then show "Q a w''" by (rule post)
qed

text \<open>A confirmed stop, a confirmed delete and a confirmed absence end what may be live.\<close>

definition ends_live :: "outside_call \<Rightarrow> goerr option \<Rightarrow> bool" where
  "ends_live call e = (case call of StopAndWait _ \<Rightarrow> e = None | ProviderDelete _ \<Rightarrow> e = None
     | LookupProvisioned \<Rightarrow> map_option err_is e = Some ErrNotFound | _ \<Rightarrow> False)"

definition ending :: "outside_call \<Rightarrow> bool" where
  "ending call = (case call of StopAndWait _ \<Rightarrow> True | ProviderDelete _ \<Rightarrow> True | LookupProvisioned \<Rightarrow> True | _ \<Rightarrow> False)"

lemma wp_ending:
  assumes K: "K c k lv sl pv w" and call: "ending call"
    and post: "\<And>a w'. K c k (lv \<and> \<not> ends_live call (an_err a)) sl pv w' \<Longrightarrow> an_text a \<noteq> [] \<Longrightarrow> Q a w'"
  shows "wp (outside k call) Q w"
proof (rule wp_outside [OF K])
  show "marked \<lparr>ev_wid = k, ev_call = call, ev_err = e, ev_rows = w_rows w'\<rparr>" for w' e
    using call by (cases call) (auto simp: marked_def ending_def)
next
  fix a :: answer and w' w'' :: world
  assume K': "K c k lv sl pv w'" and named: "an_text a \<noteq> []" and m: "\<forall>ev \<in> set (w_log w''). marked ev"
    and w'': "w'' = w'\<lparr>w_log := w_log w' @ [\<lparr>ev_wid = k, ev_call = call, ev_err = an_err a, ev_rows = w_rows w'\<rparr>]\<rparr>"
  let ?ev = "\<lparr>ev_wid = k, ev_call = call, ev_err = an_err a, ev_rows = w_rows w'\<rparr>"
  have step: "maybe_live (w_log w' @ [?ev]) = (if ends_live call (an_err a) then maybe_live (w_log w') - {k} else maybe_live (w_log w'))"
    using call by (cases call) (auto simp: maybe_live_snoc live_step_def ending_def ends_live_def)
  have "K c k (lv \<and> \<not> ends_live call (an_err a)) sl pv w''"
    unfolding w''
    by (rule K_log [OF K']) (use m w'' step K' in \<open>auto simp: K_def split: if_splits\<close>)
  then show "Q a w''" using named by (rule post)
qed

text \<open>Creating or starting a runtime: the row must carry the marker, and is accounted for.\<close>

lemma wp_starting:
  assumes K: "K c k lv sl (Some v) w"
    and m: "\<And>(w' :: world) r e. map_of (w_rows w') k = Some r \<Longrightarrow> near v r \<Longrightarrow>
      marked \<lparr>ev_wid = k, ev_call = call, ev_err = e, ev_rows = w_rows w'\<rparr>"
    and call: "case call of Provision _ \<Rightarrow> True | Start _ _ \<Rightarrow> True | StartWithSetup _ _ \<Rightarrow> True | _ \<Rightarrow> False"
    and acc: "accounted v"
    and post: "\<And>a w'. K c k True sl (Some v) w' \<Longrightarrow> Q a w'"
  shows "wp (outside k call) Q w"
proof (rule wp_outside [OF K])
  show "marked \<lparr>ev_wid = k, ev_call = call, ev_err = e, ev_rows = w_rows w'\<rparr>" if "quiet w w'" for w' e
  proof -
    have "K c k lv sl (Some v) w'" by (rule K_quiet [OF K that])
    then obtain r where "map_of (w_rows w') k = Some r" "near v r" by (auto simp: K_def pinned_def)
    then show ?thesis by (rule m)
  qed
next
  fix a :: answer and w' w'' :: world
  assume K': "K c k lv sl (Some v) w'" and m: "\<forall>ev \<in> set (w_log w''). marked ev"
    and w'': "w'' = w'\<lparr>w_log := w_log w' @ [\<lparr>ev_wid = k, ev_call = call, ev_err = an_err a, ev_rows = w_rows w'\<rparr>]\<rparr>"
  let ?ev = "\<lparr>ev_wid = k, ev_call = call, ev_err = an_err a, ev_rows = w_rows w'\<rparr>"
  have step: "maybe_live (w_log w' @ [?ev]) = insert k (maybe_live (w_log w'))"
    using call by (cases call) (auto simp: maybe_live_snoc live_step_def)
  obtain r where "map_of (w_rows w') k = Some r" "near v r" using K' by (auto simp: K_def pinned_def)
  with acc have row: "map_of (w_rows w') k = Some r" "accounted r" by (auto intro: near_accounted)
  have "holds_slot (ws_State r)" using K' \<open>near v r\<close> by (auto simp: K_def pinned_def near_def holds_slot_def)
  with row(1) have "0 < slots (ws_OwnerID r) (w_rows w')"
    by (auto simp: slots_def count_where_def filter_empty_conv dest: map_of_SomeD)
  moreover have "int (slots (ws_OwnerID r) (w_rows w')) \<le> snd c" using K' by (simp add: K_def svc_inv_def)
  ultimately have "snd c \<noteq> 0" by linarith
  have "K c k True sl (Some v) w''"
    using K' m row step \<open>snd c \<noteq> 0\<close> by (auto simp: w'' K_def svc_inv_def slotted_def pinned_def)
  then show "Q a w''" by (rule post)
qed

end
