(* ===== verification/Workspace_Safety.thy ===== *)
theory Workspace_Safety
  imports Workspace_Accounting
begin

text \<open>
  Every handler of the workspace service keeps the invariant, whatever fails: the rules of
  \<open>Workspace_Accounting\<close> composed along the code, from the quota loop to the exported operations, and
  the properties of the service that follow.
\<close>

subsection \<open>Quotas\<close>

definition qrow :: "world \<Rightarrow> workspace \<Rightarrow> quota \<Rightarrow> bool" where
  "qrow w ws q \<longleftrightarrow> (\<exists>r. map_of (w_rows w) (ws_ID ws) = Some r \<and> ws_OwnerID r = ws_OwnerID ws
     \<and> ws_ProviderResourceID r = ws_ProviderResourceID ws \<and> ws_Quota r = q)"

lemma qrow_quiet: "quiet w w' \<Longrightarrow> qrow w ws q \<Longrightarrow> qrow w' ws q"
  unfolding qrow_def quiet_def by (auto dest!: near_rows_Some simp: near_def)

lemma accounted_quota [simp]: "accounted (r\<lparr>ws_Quota := q, ws_UpdatedAt := t\<rparr>) = accounted r"
  by (simp add: accounted_def definitelyStoppedStartReservation_def privateInputsIncomplete_def)

lemma K_UpdateQuota:
  assumes K: "K c k lv sl pv w"
  shows "K c k lv sl None (w\<lparr>w_rows := snd (store_UpdateQuota ow wid q at (w_rows w))\<rparr>)"
proof (cases "\<exists>r. map_of (w_rows w) wid = Some r \<and> ws_OwnerID r = ow")
  case False
  then have "snd (store_UpdateQuota ow wid q at (w_rows w)) = w_rows w"
    by (auto simp: store_UpdateQuota_def split: option.splits)
  with K show ?thesis by (auto simp: K_def)
next
  case True
  then obtain r where r: "map_of (w_rows w) wid = Some r" "ws_OwnerID r = ow" by blast
  let ?q = "r\<lparr>ws_Quota := q, ws_UpdatedAt := later at (ws_UpdatedAt r)\<rparr>"
  have s: "snd (store_UpdateQuota ow wid q at (w_rows w)) = AList.update wid ?q (w_rows w)"
    using r by (simp add: store_UpdateQuota_def)
  have i: "svc_inv c w" by (rule K_inv [OF K])
  have "svc_inv c (w\<lparr>w_rows := AList.update wid ?q (w_rows w)\<rparr>)"
  proof (rule svc_inv_replace [OF i r(1)])
    show "row_ok wid ?q" using i r(1) by (auto simp: svc_inv_def rows_ok_def row_ok_def)
    show "accounted ?q" if "wid \<in> maybe_live (w_log w)" using i r(1) that by (auto simp: svc_inv_def)
  qed simp_all
  then show ?thesis using K r(1) by (auto simp: s K_def slotted_def)
qed

lemma wp_UpdateQuota:
  assumes K: "K c k lv sl pv w"
    and post: "\<And>e w'. K c k lv sl None w' \<Longrightarrow>
      (\<And>ws q'. ws_ID ws \<noteq> wid \<Longrightarrow> qrow w ws q' \<Longrightarrow> qrow w' ws q') \<Longrightarrow>
      (\<And>ws q'. e = None \<Longrightarrow> ws_ID ws = wid \<Longrightarrow> qrow w ws q' \<Longrightarrow> qrow w' ws q) \<Longrightarrow> Q e w'"
  shows "wp (svc_UpdateQuota ow wid q at) Q w"
  unfolding svc_UpdateQuota_def
proof (rule wp_rows_write)
  fix w' assume quiet: "quiet w w'"
  have K': "K c k lv sl pv w'" by (rule K_quiet [OF K quiet])
  let ?s = "store_UpdateQuota ow wid q at (w_rows w')"
  have other: "qrow (w'\<lparr>w_rows := snd ?s\<rparr>) ws q'" if "ws_ID ws \<noteq> wid" "qrow w ws q'" for ws q'
    using qrow_quiet [OF quiet that(2)] that(1) by (simp add: qrow_def quota_update.other_row)
  have own: "qrow (w'\<lparr>w_rows := snd ?s\<rparr>) ws q" if "fst ?s = None" "ws_ID ws = wid" "qrow w ws q'" for ws q'
    using qrow_quiet [OF quiet that(3)] that(1,2)
    by (auto simp: qrow_def store_UpdateQuota_def split: option.splits if_splits)
  show "Q (fst ?s) (w'\<lparr>w_rows := snd ?s\<rparr>)" "Q (Some e) (w'\<lparr>w_rows := snd ?s\<rparr>)" for e
    using K_UpdateQuota [OF K'] other own by (auto intro!: post)
  show "Q (Some e) w'" for e
  proof (rule post)
    show "K c k lv sl None w'" using K' by (rule K_weaken) auto
  qed (auto intro: qrow_quiet [OF quiet])
qed

lemma notGreater_upper: "notGreater t (quotaUpperBound q t)"
  by (simp add: notGreater_def quotaUpperBound_def)

lemma wp_ApplyQuota:
  assumes K: "K c k lv sl pv w" and q: "qrow w ws u" "notGreater t u"
    and post: "\<And>a w'. K c k lv sl pv w' \<Longrightarrow> (\<And>v q'. qrow w v q' \<Longrightarrow> qrow w' v q') \<Longrightarrow> Q a w'"
  shows "wp (outside (ws_ID ws) (ApplyQuota (ws_ProviderResourceID ws) t)) Q w"
proof (rule wp_outside [OF K])
  show "marked \<lparr>ev_wid = ws_ID ws, ev_call = ApplyQuota (ws_ProviderResourceID ws) t, ev_err = e, ev_rows = w_rows w'\<rparr>"
    if "quiet w w'" for w' e
    using qrow_quiet [OF that q(1)] q(2) by (auto simp: marked_def qrow_def)
next
  fix a :: answer and w' w'' :: world
  assume q: "quiet w w'" and K': "K c k lv sl pv w'" and m: "\<forall>ev \<in> set (w_log w''). marked ev"
    and w'': "w'' = w'\<lparr>w_log := w_log w' @ [\<lparr>ev_wid = ws_ID ws, ev_call = ApplyQuota (ws_ProviderResourceID ws) t,
      ev_err = an_err a, ev_rows = w_rows w'\<rparr>]\<rparr>"
  have live: "maybe_live (w_log w' @ [\<lparr>ev_wid = ws_ID ws, ev_call = ApplyQuota (ws_ProviderResourceID ws) t,
      ev_err = an_err a, ev_rows = w_rows w'\<rparr>]) = maybe_live (w_log w')"
    by (simp add: maybe_live_snoc live_step_def)
  have "K c k lv sl pv w''"
    unfolding w'' by (rule K_log [OF K']) (use m w'' live K' in \<open>auto simp: K_def\<close>)
  then show "Q a w''" by (rule post) (use qrow_quiet [OF q] in \<open>simp add: w'' qrow_def\<close>)
qed

text \<open>One target, then the loop over the targets, each of whose rows still is as it was listed.\<close>

lemma wp_set_quota:
  assumes K: "K c k lv sl pv w"
    and post: "\<And>e w'. K c k lv sl None w' \<Longrightarrow>
      (\<And>v q'. ws_ID v \<noteq> ws_ID ws \<Longrightarrow> qrow w v q' \<Longrightarrow> qrow w' v q') \<Longrightarrow>
      (\<And>q'. e = None \<Longrightarrow> qrow w ws q' \<Longrightarrow> qrow w' ws q) \<Longrightarrow> Q e w'"
  shows "wp (set_quota ws q) Q w"
  unfolding set_quota_def
proof (rule wp_bind, rule wp_now [OF K])
  fix n w1 assume K1: "K c k lv sl pv w1" and q1: "quiet w w1"
  show "wp (svc_UpdateQuota (ws_OwnerID ws) (ws_ID ws) q n) Q w1"
    by (rule wp_UpdateQuota [OF K1], rule post) (blast intro: qrow_quiet [OF q1])+
qed

lemma wp_apply_quota:
  assumes K: "K c k lv sl None w" and row: "qrow w ws (ws_Quota ws)"
    and post: "\<And>e w'. K c k lv sl None w' \<Longrightarrow> (\<And>v q. ws_ID v \<noteq> ws_ID ws \<Longrightarrow> qrow w v q \<Longrightarrow> qrow w' v q) \<Longrightarrow> Q e w'"
  shows "wp (apply_quota ws t) Q w"
proof -
  let ?u = "quotaUpperBound (ws_Quota ws) t"
  have build: "wp (State_Monad.bind (outside (ws_ID ws) (ApplyQuota (ws_ProviderResourceID ws) t))
        (\<lambda>a. case an_err a of Some e \<Rightarrow> ret (Some e) | None \<Rightarrow> if t \<noteq> ?u then set_quota ws t else ret None)) Q w1"
    if K1: "K c k lv sl None w1" and u: "qrow w1 ws ?u"
      and o1: "\<And>v q. ws_ID v \<noteq> ws_ID ws \<Longrightarrow> qrow w v q \<Longrightarrow> qrow w1 v q" for w1
    by (rule wp_bind, rule wp_ApplyQuota [OF K1 u notGreater_upper], intro wp_option wp_if wp_ret)
       (auto intro!: post o1 elim!: wp_set_quota)
  show ?thesis
    unfolding apply_quota_def Let_def
  proof (intro wp_bind wp_if wp_ret)
    show "wp (set_quota ws ?u) (\<lambda>e. wp (case e of None \<Rightarrow> State_Monad.bind
          (outside (ws_ID ws) (ApplyQuota (ws_ProviderResourceID ws) t))
          (\<lambda>a. case an_err a of None \<Rightarrow> if t \<noteq> ?u then set_quota ws t else ret None | Some e \<Rightarrow> ret (Some e))
        | Some e \<Rightarrow> ret (Some e)) Q) w"
    proof (rule wp_set_quota [OF K], intro wp_option wp_ret, goal_cases)
      case (1 e w1)
      then show ?case using row by (intro build) auto
    next
      case (2 e w1 x)
      then show ?case by (intro post) auto
    qed
  qed (use build [OF K] row in simp)
qed

lemma wp_apply_quotas:
  assumes "K c k lv sl None w" "distinct (map (ws_ID \<circ> fst) targets)"
    "\<forall>(ws, t) \<in> set targets. qrow w ws (ws_Quota ws)"
    and "\<And>e w'. K c k lv sl None w' \<Longrightarrow> Q e w'"
  shows "wp (apply_quotas startingID targets) Q w"
  using assms
proof (induction targets arbitrary: w)
  case Nil
  then show ?case by (simp add: wp_ret)
next
  case (Cons x rest)
  obtain ws t where x: "x = (ws, t)" by force
  have rest: "wp (apply_quotas startingID rest) Q w'"
    if "K c k lv sl None w'" "\<And>v q. ws_ID v \<noteq> ws_ID ws \<Longrightarrow> qrow w v q \<Longrightarrow> qrow w' v q" for w'
  proof (rule Cons.IH [OF that(1)])
    show "\<forall>(v, t) \<in> set rest. qrow w' v (ws_Quota v)"
      using Cons.prems(2,3) that(2) by (force simp: x)
  qed (use Cons.prems(2) in simp, rule Cons.prems(4))
  have "qrow w ws (ws_Quota ws)" using Cons.prems(3) by (simp add: x)
  note one = wp_apply_quota [OF Cons.prems(1) this]
  have same: "wp (apply_quotas startingID rest) Q w" by (rule rest [OF Cons.prems(1)])
  show ?case
    unfolding x apply_quotas.simps
    by (intro wp_if wp_bind wp_ret one wp_option) (use same in \<open>auto intro: rest Cons.prems\<close>)
qed

lemma store_List_rows:
  assumes "rows_ok s" "ws \<in> set (store_List ow s)"
  shows "map_of s (ws_ID ws) = Some ws" "ws_OwnerID ws = ow"
proof -
  from assms(2) obtain j where j: "(j, ws) \<in> set s" "ws_OwnerID ws = ow" by (auto simp: store_List_def)
  with assms(1) have "map_of s j = Some ws" by (auto simp: rows_ok_def map_wf_in_set)
  with rows_okD [OF assms(1) this] j(2) show "map_of s (ws_ID ws) = Some ws" "ws_OwnerID ws = ow"
    by (auto simp: row_ok_def)
qed

lemma store_List_distinct:
  assumes "rows_ok s"
  shows "distinct (map ws_ID (store_List ow s))"
proof -
  have "ws_ID (snd x) = fst x" if "x \<in> set s" for x
  proof -
    obtain j r where x: "x = (j, r)" by force
    with that assms have "map_of s j = Some r" by (auto simp: rows_ok_def map_wf_in_set)
    from rows_okD [OF assms this] show ?thesis by (simp add: x row_ok_def)
  qed
  then have eq: "map ws_ID (map snd s) = map fst s" by simp
  have "distinct (map fst s)" using assms by (simp add: rows_ok_def map_wf_def)
  then have "distinct (map ws_ID (map snd s))" unfolding eq .
  then have "distinct (map ws_ID (filter (\<lambda>ws. ws_OwnerID ws = ow) (map snd s)))"
    by (rule distinct_map_filter)
  then show ?thesis by (simp add: store_List_def distinct_map)
qed

lemma capacity_targets_ids:
  "map (ws_ID \<circ> fst) (capacity_targets cs shares) = take (length shares) (map ws_ID cs)"
  unfolding capacity_targets_def
  by (induction cs shares rule: list_induct2') auto

lemma capacity_targets_in: "(ws, t) \<in> set (capacity_targets cs shares) \<Longrightarrow> ws \<in> set cs"
  by (auto simp: capacity_targets_def dest: set_zip_leftD)

lemma wp_apply_capacity:
  assumes K: "K c k lv sl None w" and "distinct (map (ws_ID \<circ> fst) targets)"
    "\<forall>(ws, t) \<in> set targets. qrow w ws (ws_Quota ws)"
    and post: "\<And>r w'. K c k lv sl None w' \<Longrightarrow> Q r w'"
  shows "wp (apply_capacity ow startingID targets) Q w"
  unfolding apply_capacity_def
  by (intro wp_if wp_bind wp_ret post K wp_apply_quotas [OF assms(1-3)] wp_option)
     (auto intro!: wp_bind wp_option wp_ret post elim!: wp_now wp_UpdateQuota)

lemma wp_reconcileCapacityQuotas:
  assumes K: "K c k lv sl pv w" and post: "\<And>r w'. K c k lv sl None w' \<Longrightarrow> Q r w'"
  shows "wp (reconcileCapacityQuotas ow startingID) Q w"
  unfolding reconcileCapacityQuotas_def svc_List_def Let_def
proof (rule wp_bind, rule wp_rows_read [OF K]; intro wp_sum wp_ret wp_bind wp_get)
  fix w' assume "K c k lv sl pv w'"
  then have K': "K c k lv sl None w'" by (rule K_weaken) auto
  have ok: "rows_ok (w_rows w')" using K_inv [OF K'] by (simp add: svc_inv_def)
  show "wp (apply_capacity ow startingID (capacity_targets (filter (\<lambda>ws. CountsAsRunning (ws_State ws)) v) shares)) Q w'"
    if "Inr (store_List ow (w_rows w')) = (Inr v :: workspace list result)" for v shares
  proof (rule wp_apply_capacity [OF K' _ _ post])
    from that have v: "v = store_List ow (w_rows w')" by simp
    show "distinct (map (ws_ID \<circ> fst) (capacity_targets (filter (\<lambda>ws. CountsAsRunning (ws_State ws)) v) shares))"
      using store_List_distinct [OF ok] by (simp add: capacity_targets_ids v distinct_map_filter)
    show "\<forall>(ws, t) \<in> set (capacity_targets (filter (\<lambda>ws. CountsAsRunning (ws_State ws)) v) shares). qrow w' ws (ws_Quota ws)"
      using store_List_rows [OF ok] by (auto simp: qrow_def v dest!: capacity_targets_in)
  qed
qed (rule post, erule K_weaken, simp_all)+

lemma wp_rebalance:
  assumes "K c k lv sl pv w" and "\<And>e w'. K c k lv sl None w' \<Longrightarrow> Q e w'"
  shows "wp (rebalance ow) Q w"
  unfolding rebalance_def reconcileStableQuotas_def
  by (intro wp_bind wp_reconcileCapacityQuotas [OF assms(1)] wp_ret assms(2))

text \<open>Every handler ends with a rebalance that only keeps the invariant.\<close>

lemma wp_rebalance_inv:
  assumes "K c k lv sl pv w" and "\<And>w'. svc_inv c w' \<Longrightarrow> Q r w'"
  shows "wp (State_Monad.bind (rebalance ow) (\<lambda>_. ret r)) Q w"
  by (intro wp_bind wp_rebalance [OF assms(1)] wp_ret assms(2)) (rule K_inv)

lemma wp_prepareCapacityForStart:
  assumes "K c k lv sl pv w"
    and "\<And>q e w'. K c k lv sl None w' \<Longrightarrow> Q (ws\<lparr>ws_Quota := q\<rparr>, e) w'"
  shows "wp (prepareCapacityForStart ws) Q w"
proof -
  have same: "ws = ws\<lparr>ws_Quota := ws_Quota ws\<rparr>" by simp
  show ?thesis
    unfolding prepareCapacityForStart_def
    by (intro wp_intros wp_reconcileCapacityQuotas [OF assms(1)]) (metis assms(2) same)+
qed

subsection \<open>Bringing a workspace up\<close>

lemmas row_simps = accounted_def definitelyStoppedStartReservation_def privateInputsIncomplete_def
  failure_defs holds_slot_def clearWorkspacePrivateInputs_def await_setup_def

lemma wp_quarantine:
  assumes K: "K c k lv sl pv w" and k: "ws_ID ws = k" and dead: "ws_State ws \<noteq> WorkspaceDeleting \<Longrightarrow> \<not> lv"
    and post: "\<And>r w'. svc_inv c w' \<Longrightarrow> Q r w'"
  shows "wp (quarantinePrivateInputs ws) Q w"
  unfolding quarantinePrivateInputs_def Let_def
  by (intro wp_if wp_ret wp_bind post K_inv [OF K], rule wp_now [OF K], rule wp_bind, rule wp_Save, assumption)
     (use k dead in \<open>auto simp: row_simps intro!: wp_option wp_ret post elim: K_inv\<close>)

lemma wp_stopAndWait:
  assumes "K c k lv sl pv w" "ws_ID ws = k"
    and "\<And>e w'. K c k (lv \<and> e \<noteq> None) sl pv w' \<Longrightarrow> Q e w'"
  shows "wp (stopAndWait ws) Q w"
  unfolding stopAndWait_def assms(2)
  by (intro wp_bind wp_ending [OF assms(1)] wp_ret) (use assms(3) in \<open>auto simp: ending_def ends_live_def\<close>)

text \<open>A value saved when the workspace is certainly not live and holds no slot, then a rebalance.\<close>

lemma wp_settle:
  assumes "K c k False sl pv w" "\<And>t. ws_ID (f t) = k" "\<And>t. \<not> holds_slot (ws_State (f t))"
    and post: "\<And>r w'. svc_inv c w' \<Longrightarrow> Q r w'"
  shows "wp (do { now \<leftarrow> svc_now; e \<leftarrow> svc_Save (f now);
      (case e of Some e \<Rightarrow> ret (g now e) | None \<Rightarrow> do { _ \<leftarrow> rebalance (h now); ret (r now) }) }) Q w"
  by (rule wp_bind, rule wp_now [OF assms(1)], rule wp_bind, rule wp_Save, assumption)
     (use assms in \<open>auto intro!: wp_option wp_ret post wp_rebalance_inv elim: K_inv\<close>)

lemma wp_finishFailedRuntimeCleanup:
  assumes K: "K c k lv sl pv w" and k: "ws_ID ws = k" and post: "\<And>r w'. svc_inv c w' \<Longrightarrow> Q r w'"
  shows "wp (finishFailedRuntimeCleanup ws code) Q w"
  unfolding finishFailedRuntimeCleanup_def Let_def
proof (intro wp_if wp_ret post K_inv [OF K], rule wp_bind, rule wp_stopAndWait [OF K k], rule wp_option, goal_cases)
  case (1 e w')
  then have "K c k False sl pv w'" by simp
  then show ?case by (rule wp_settle) (use k post in \<open>auto simp: holds_slot_def\<close>)
qed (auto intro: wp_ret post K_inv)

lemma wp_commit_await_setup:
  assumes K: "K c k False sl pv w" and k: "ws_ID ws = k" and post: "\<And>r w'. svc_inv c w' \<Longrightarrow> Q r w'"
  shows "wp (commit_await_setup ws) Q w"
  unfolding commit_await_setup_def Let_def
  by (rule wp_settle [OF K]) (use k post in \<open>auto simp: row_simps\<close>)

lemma wp_cleanupFailedRuntime:
  assumes K: "K c k lv True pv w" and k: "ws_ID ws = k" and complete: "\<not> ws_PrivateInputsPending ws"
    and code: "code \<in> {failureStartCleanupPending, failureInitializeCleanupPending}"
    and post: "\<And>r w'. svc_inv c w' \<Longrightarrow> Q r w'"
  shows "wp (cleanupFailedRuntime ws code final cause) Q w"
  unfolding cleanupFailedRuntime_def Let_def
proof (rule wp_bind, rule wp_now [OF K], rule wp_bind, rule wp_Save, assumption, goal_cases)
  case (5 t w1 w2)
  show ?case
  proof (rule wp_option, rule wp_bind, rule wp_stopAndWait [OF 5(3)], goal_cases)
    case (2 e w3)
    show ?case
    proof (rule wp_option, goal_cases)
      case 1
      with 2 have "K c k False True (pin (ws\<lparr>ws_State := WorkspaceProvisioning, ws_FailureCode := code, ws_SuspendedAt := None, ws_UpdatedAt := t\<rparr>)) w3"
        by (simp add: holds_slot_def)
      then show ?case by (rule wp_settle) (use k post in \<open>auto simp: holds_slot_def\<close>)
    qed (use 2 in \<open>auto intro: wp_ret post K_inv\<close>)
  qed (use k in auto)
qed (use k complete code in \<open>auto simp: row_simps intro!: wp_ret wp_option post elim: K_inv\<close>)

lemma wp_after_start:
  assumes K: "K c k True True pv w" and k: "ws_ID ws = k" and complete: "\<not> ws_PrivateInputsPending ws"
    and post: "\<And>r w'. svc_inv c w' \<Longrightarrow> Q r w'"
  shows "wp (after_start ws) Q w"
  unfolding after_start_def Let_def
proof ((rule wp_if; rule wp_bind), goal_cases)
  case 1
  show ?case
  proof (rule wp_stopAndWait [OF K k], rule wp_option, goal_cases)
    case (1 e w1)
    then have "K c k False True pv w1" by simp
    then show ?case by (rule wp_commit_await_setup) (use k post in auto)
  next
    case (2 e w1 x)
    show ?case
      by (rule wp_bind, rule wp_now [OF 2(1)], rule wp_bind, rule wp_Save, assumption)
         (use k complete in \<open>auto simp: row_simps intro!: wp_ret post elim: K_inv\<close>)
  qed
next
  case 2
  show ?case
    by (rule wp_now [OF K], rule wp_bind, rule wp_Save, assumption)
       (use k complete in \<open>auto simp: row_simps intro!: wp_ret wp_option wp_rebalance_inv post elim: K_inv\<close>)
qed

lemma wp_startProvider:
  assumes K: "K c k lv sl (Some ws) w" and k: "ws_ID ws = k" and st: "ws_State ws = WorkspaceProvisioning"
    and code: "ws_FailureCode ws = failureStartCleanupPending" and complete: "\<not> ws_PrivateInputsPending ws"
    and post: "\<And>e w'. K c k True sl (Some ws) w' \<Longrightarrow> Q e w'"
  shows "wp (startProvider ws) Q w"
proof -
  have acc: "accounted ws" using st code complete by (simp add: row_simps)
  show ?thesis
    unfolding startProvider_def k
    by (intro wp_if wp_bind wp_ret wp_starting [OF K] acc post)
       (use st code complete k in \<open>auto simp: marked_def near_def\<close>)
qed

lemma wp_start_and_initialize:
  assumes K: "K c k lv True (Some ws) w" and k: "ws_ID ws = k" and st: "ws_State ws = WorkspaceProvisioning"
    and code: "ws_FailureCode ws = failureStartCleanupPending" and complete: "\<not> ws_PrivateInputsPending ws"
    and cont: "\<And>w'. K c k True True (Some ws) w' \<Longrightarrow> wp (continue ws) Q w'"
    and post: "\<And>r w'. svc_inv c w' \<Longrightarrow> Q r w'"
  shows "wp (start_and_initialize ws continue) Q w"
  unfolding start_and_initialize_def
proof (rule wp_bind, rule wp_startProvider [OF K k st code complete], rule wp_option, goal_cases)
  case (1 e w1)
  have init: "wp (if w_initializer w1 \<noteq> None then State_Monad.bind (outside (ws_ID ws) Initialize) (\<lambda>a. ret (an_err a)) else ret None)
     (\<lambda>e. wp (case e of None \<Rightarrow> continue ws
        | Some e \<Rightarrow> cleanupFailedRuntime ws failureInitializeCleanupPending failureWorkspaceInitialize e) Q) w1"
    by (intro wp_if wp_bind wp_ret wp_harmless [OF 1(1)] wp_option cont wp_cleanupFailedRuntime [OF _ k complete])
       (auto simp: harmless_def intro: 1(1) post)
  then show ?case by (intro wp_bind wp_get)
next
  case (2 e w1 x)
  show ?case by (rule wp_cleanupFailedRuntime [OF 2(1) k complete _ post]) simp
qed

lemma wp_markProviderStartPending:
  assumes K: "K c k lv True pv w" and k: "ws_ID ws = k" and st: "ws_State ws = WorkspaceProvisioning"
    and complete: "\<not> ws_PrivateInputsPending ws"
    and err: "\<And>v e w'. svc_inv c w' \<Longrightarrow> Q (v, Some e) w'"
    and ok: "\<And>v w'. K c k lv True (Some v) w' \<Longrightarrow> ws_ID v = k \<Longrightarrow> ws_State v = WorkspaceProvisioning \<Longrightarrow>
      ws_FailureCode v = failureStartCleanupPending \<Longrightarrow> \<not> ws_PrivateInputsPending v \<Longrightarrow> Q (v, None) w'"
  shows "wp (markProviderStartPending ws) Q w"
  unfolding markProviderStartPending_def Let_def
proof (intro wp_if wp_ret err K_inv [OF K], rule wp_bind, rule wp_now [OF K], rule wp_bind, rule wp_Save, assumption, goal_cases)
  case (5 t w1 w2)
  then show ?case using k st complete by (intro wp_option wp_ret ok) (auto simp: holds_slot_def)
qed (use k st complete in \<open>auto simp: row_simps intro!: wp_ret err elim: K_inv\<close>)

text \<open>Saving a provisioning value with a new marker; the row keeps its slot.\<close>

lemma wp_mark:
  assumes K: "K c k lv True pv w" and f: "\<And>t. ws_ID (f t) = k" "\<And>t. ws_State (f t) = WorkspaceProvisioning"
    and live: "\<And>t. lv \<Longrightarrow> accounted (f t)"
    and err: "\<And>t e w'. svc_inv c w' \<Longrightarrow> wp (g t (Some e)) Q w'"
    and ok: "\<And>t w'. K c k lv True (Some (f t)) w' \<Longrightarrow> wp (g t None) Q w'"
  shows "wp (do { now \<leftarrow> svc_now; e \<leftarrow> svc_Save (f now); g now e }) Q w"
  by (rule wp_bind, rule wp_now [OF K], rule wp_bind, rule wp_Save, assumption)
     (use f live in \<open>auto simp: holds_slot_def intro!: err ok elim: K_inv\<close>)

lemma wp_call_provision:
  assumes K: "K c k lv True (Some ws) w" and k: "ws_ID ws = k" and st: "ws_State ws = WorkspaceProvisioning"
    and code: "ws_FailureCode ws = failureProvisionUnconfirmed" and complete: "\<not> ws_PrivateInputsPending ws"
    and new: "ws_ProviderResourceID ws = []" and post: "\<And>r w'. svc_inv c w' \<Longrightarrow> Q r w'"
  shows "wp (call_provision ws) Q w"
  unfolding call_provision_def Let_def k
proof (rule wp_bind, rule wp_starting [OF K], goal_cases)
  case (4 a w1)
  show ?case
  proof (rule wp_option, goal_cases)
    case 1
    show ?case
      by (rule wp_mark [OF 4])
         (use k st complete in \<open>auto simp: row_simps intro!: wp_ret post wp_start_and_initialize wp_after_start\<close>)
  qed (auto intro: wp_ret post K_inv [OF 4])
qed (use k st code complete new in \<open>auto simp: row_simps marked_def provision_request_of_def near_def\<close>)

lemma wp_provision_runtime:
  assumes K: "K c k False True pv w" and k: "ws_ID ws = k" and st: "ws_State ws = WorkspaceProvisioning"
    and complete: "\<not> ws_PrivateInputsPending ws" and post: "\<And>r w'. svc_inv c w' \<Longrightarrow> Q r w'"
  shows "wp (provision_runtime ws) Q w"
  unfolding provision_runtime_def Let_def
proof (rule wp_if, goal_cases)
  case 1
  show ?case
    by (rule wp_mark [OF K]) (use k st complete 1 in \<open>auto intro!: wp_ret post wp_call_provision\<close>)
next
  case 2
  show ?case
    by (rule wp_bind, rule wp_markProviderStartPending [OF K])
       (use k st complete in \<open>auto intro!: wp_ret post wp_start_and_initialize wp_after_start\<close>)
qed

lemma wp_provision:
  assumes K: "K c k False True pv w" and k: "ws_ID ws = k" and st: "ws_State ws = WorkspaceProvisioning"
    and post: "\<And>r w'. svc_inv c w' \<Longrightarrow> Q r w'"
  shows "wp (provision ws) Q w"
  unfolding provision_def Let_def
proof (rule wp_if, goal_cases)
  case 1
  show ?case by (rule wp_bind, rule wp_quarantine [OF K k]) (auto intro!: wp_option wp_ret post)
next
  case 2
  then have complete: "\<not> ws_PrivateInputsPending ws" by (simp add: privateInputsIncomplete_def)
  show ?case
  proof (rule wp_bind, rule wp_prepareCapacityForStart [OF K], rule wp_option, goal_cases)
    case (1 q e w1)
    show ?case by (rule wp_provision_runtime [OF 1(1)]) (use k st complete post in auto)
  next
    case (2 q e w1 x)
    show ?case by (rule wp_mark [OF 2(1)]) (use k st in \<open>auto intro!: wp_ret post elim: K_inv\<close>)
  qed
qed

subsection \<open>Recovery\<close>

lemma wp_lookupProvisioned:
  assumes K: "K c k lv sl pv w" and k: "ws_ID ws = k"
    and absent: "\<And>e w'. err_is e = ErrNotFound \<Longrightarrow> K c k False sl pv w' \<Longrightarrow> Q (Inl e) w'"
    and err: "\<And>e w'. K c k lv sl pv w' \<Longrightarrow> err_is e \<noteq> ErrNotFound \<Longrightarrow> Q (Inl e) w'"
    and ok: "\<And>rid w'. K c k lv sl pv w' \<Longrightarrow> rid \<noteq> [] \<Longrightarrow> Q (Inr rid) w'"
  shows "wp (lookupProvisioned ws) Q w"
  unfolding lookupProvisioned_def k
proof (rule wp_bind, rule wp_ending [OF K], simp add: ending_def, rule wp_ret)
  fix a :: answer and w'
  assume K': "K c k (lv \<and> \<not> ends_live LookupProvisioned (an_err a)) sl pv w'" and named: "an_text a \<noteq> []"
  show "Q (case an_err a of None \<Rightarrow> Inr (an_text a) | Some e \<Rightarrow> Inl e) w'"
  proof (cases "an_err a")
    case None
    with K' named show ?thesis by (auto simp: ends_live_def intro: ok)
  next
    case (Some e)
    with K' show ?thesis by (cases "err_is e = ErrNotFound") (auto simp: ends_live_def intro: absent err)
  qed
qed

lemma wp_mark_provision_cleanup:
  assumes K: "K c k lv True pv w" and k: "ws_ID ws = k" and st: "ws_State ws = WorkspaceProvisioning"
    and complete: "\<not> ws_PrivateInputsPending ws" and post: "\<And>r w'. svc_inv c w' \<Longrightarrow> Q r w'"
  shows "wp (mark_provision_cleanup ws) Q w"
  unfolding mark_provision_cleanup_def Let_def
  by (rule wp_mark [OF K])
     (use k st complete in \<open>auto simp: row_simps intro!: wp_ret post wp_finishFailedRuntimeCleanup\<close>)

lemma wp_reconcileAmbiguousProvision:
  assumes K: "K c k lv True pv w" and k: "ws_ID ws = k" and st: "ws_State ws = WorkspaceProvisioning"
    and complete: "\<not> ws_PrivateInputsPending ws" and post: "\<And>r w'. svc_inv c w' \<Longrightarrow> Q r w'"
  shows "wp (reconcileAmbiguousProvision ws) Q w"
  unfolding reconcileAmbiguousProvision_def Let_def
proof (rule wp_if, goal_cases)
  case 1
  show ?case by (rule wp_mark_provision_cleanup [OF K k st complete post])
next
  case 2
  show ?case
  proof (rule wp_bind, rule wp_lookupProvisioned [OF K k], goal_cases)
    case (1 e w1)
    then show ?case by (auto intro!: wp_mark [OF 1(2)] wp_ret post simp: k st elim: K_inv)
  next
    case (2 e w1)
    then show ?case by (auto intro!: wp_ret post elim: K_inv)
  next
    case (3 rid w1)
    show ?case using k st complete post by (simp, intro wp_mark_provision_cleanup [OF 3(1)]) auto
  qed
qed

lemma wp_reconcileLegacyProvisioning:
  assumes K: "K c k lv True pv w" and k: "ws_ID ws = k" and st: "ws_State ws = WorkspaceProvisioning"
    and complete: "\<not> ws_PrivateInputsPending ws" and post: "\<And>r w'. svc_inv c w' \<Longrightarrow> Q r w'"
  shows "wp (reconcileLegacyProvisioning ws) Q w"
  unfolding reconcileLegacyProvisioning_def Let_def
proof (rule wp_if, rule wp_reconcileAmbiguousProvision [OF K k st complete post], assumption)
  show "wp (do { now \<leftarrow> svc_now; e \<leftarrow> svc_Save (ws\<lparr>ws_FailureCode := failureStartCleanupPending, ws_UpdatedAt := now\<rparr>);
      (case e of None \<Rightarrow> finishFailedRuntimeCleanup (ws\<lparr>ws_FailureCode := failureStartCleanupPending, ws_UpdatedAt := now\<rparr>) failureProviderStart
       | Some e \<Rightarrow> ret (zero_ws, Some e)) }) Q w"
    by (rule wp_mark [OF K])
       (use k st complete in \<open>auto simp: row_simps intro!: wp_ret post wp_finishFailedRuntimeCleanup\<close>)
qed

lemma wp_reconcileProvisioning:
  assumes K: "K c k (lv \<and> accounted ws) True pv w" and k: "ws_ID ws = k" and st: "ws_State ws = WorkspaceProvisioning"
    and complete: "\<not> ws_PrivateInputsPending ws" and post: "\<And>r w'. svc_inv c w' \<Longrightarrow> Q r w'"
  shows "wp (reconcileProvisioning ws) Q w"
proof -
  have stop: "wp (State_Monad.bind (stopAndWait ws) (\<lambda>e. case e of None \<Rightarrow> commit_await_setup ws | Some e \<Rightarrow> ret (g e))) Q w" for g
  proof (rule wp_bind, rule wp_stopAndWait [OF K k], rule wp_option, goal_cases)
    case (1 e w1)
    then have "K c k False True pv w1" by simp
    then show ?case by (rule wp_commit_await_setup [OF _ k post])
  qed (auto intro: wp_ret post K_inv)
  have fresh: "wp (provision ws) Q w" if "ws_FailureCode ws = failureProviderStartReserved"
  proof (rule wp_provision [OF _ k st post])
    show "K c k False True pv w" using K that st by (simp add: accounted_def definitelyStoppedStartReservation_def)
  qed
  show ?thesis
    unfolding reconcileProvisioning_def
    by (intro wp_if stop fresh wp_ret post K_inv [OF K] wp_reconcileAmbiguousProvision [OF K k st complete]
        wp_finishFailedRuntimeCleanup [OF K k] wp_reconcileLegacyProvisioning [OF K k st complete])
qed

subsection \<open>Reservation\<close>

text \<open>
  The running count is a machine integer, so the bound on an owner's slots needs that the store has
  fewer than \<open>2 ^ 62\<close> rows, or that a maintenance drain refuses every start.
\<close>

definition small :: "world \<Rightarrow> bool" where
  "small w \<longleftrightarrow> maintenanceDrain (w_admission w) \<or> card (dom (map_of (w_rows w))) < 2 ^ 62"

lemma near_rows_dom: "near_rows s t \<Longrightarrow> dom (map_of t) = dom (map_of s)"
  by (auto dest: near_rows_Some near_rows_Some')

lemma small_quiet: "quiet w w' \<Longrightarrow> small w \<Longrightarrow> small w'"
  using near_rows_dom [of "w_rows w" "w_rows w'"] by (simp add: small_def quiet_def)

lemma PlanStart_room:
  assumes "Admitted (PlanStart (fst c) sn)" "in_int64 (Running sn + 1)" "limits c"
  shows "Running sn + 1 \<le> snd c"
  using assms by (auto simp: PlanStart_def refuse_def limits_def Let_def split: if_splits)

lemma snapshot_room:
  assumes i: "svc_inv c w" and sm: "small w"
    and adm: "Admitted (PlanStart (fst c) (store_Snapshot ow \<lparr>st_workspaces = w_rows w, st_diskFreeGiB = d\<rparr>))"
  shows "room c ow w"
proof -
  let ?n = "count_where (\<lambda>k ws. ws_OwnerID ws = ow \<and> CountsAsRunning (ws_State ws)) (w_rows w)"
  have wf: "map_wf (w_rows w)" using i by (simp add: svc_inv_def rows_ok_def)
  have "card (set (map fst (w_rows w))) = length (map fst (w_rows w))"
    by (rule distinct_card) (use wf in \<open>simp add: map_wf_def\<close>)
  then have len: "card (dom (map_of (w_rows w))) = length (w_rows w)" by (simp add: dom_map_of_conv_image_fst)
  have "?n \<le> length (w_rows w)" by (rule count_where_le_length)
  moreover have "card (dom (map_of (w_rows w))) < 2 ^ 62"
    using sm adm i by (auto simp: small_def svc_inv_def PlanStart_def refuse_def)
  ultimately have "?n < 2 ^ 62" unfolding len by (rule le_less_trans)
  then have "int ?n < int (2 ^ 62)" by (simp only: of_nat_less_iff)
  then have "int ?n < 2 ^ 62" by simp
  then have "in_int64 (int ?n + 1)" by (simp add: in_int64_def)
  then have "int ?n + 1 \<le> snd c"
    using PlanStart_room [OF adm] i by (simp add: snapshot_Running svc_inv_def)
  moreover have "slots ow (w_rows w) \<le> ?n"
    unfolding slots_def by (rule count_where_mono) (simp add: holds_slot_def)
  ultimately show ?thesis by (simp add: room_def)
qed

lemma wp_Snapshot:
  assumes K: "K c k lv sl pv w" and sm: "small w"
    and err: "\<And>e w'. K c k lv sl pv w' \<Longrightarrow> Q (Inl e) w'"
    and ok: "\<And>sn w'. K c k lv sl pv w' \<Longrightarrow> quiet w w' \<Longrightarrow> w_admission w' = fst c \<Longrightarrow>
      (Admitted (PlanStart (fst c) sn) \<Longrightarrow> room c ow w') \<Longrightarrow> Q (Inr sn) w'"
  shows "wp (svc_Snapshot ow) Q w"
  unfolding svc_Snapshot_def
proof (rule wp_bind, rule wp_get, rule wp_rows_read [OF K])
  fix w' assume K': "K c k lv sl pv w'" and q: "quiet w w'"
  have "room c ow w'" if "Admitted (PlanStart (fst c) (store_Snapshot ow \<lparr>st_workspaces = w_rows w', st_diskFreeGiB = w_diskFreeGiB w\<rparr>))"
    by (rule snapshot_room [OF K_inv [OF K'] small_quiet [OF q sm] that])
  moreover have "w_admission w' = fst c" using K_inv [OF K'] by (simp add: svc_inv_def)
  ultimately show "Q (Inr (store_Snapshot ow \<lparr>st_workspaces = w_rows w', st_diskFreeGiB = w_diskFreeGiB w\<rparr>)) w'"
    using K' q by (intro ok)
qed (rule err)

lemma reserve_fields [simp]:
  "ws_ID (reserve ws d) = ws_ID ws" "ws_OwnerID (reserve ws d) = ws_OwnerID ws"
  "ws_PrivateInputsPending (reserve ws d) = ws_PrivateInputsPending ws"
  "holds_slot (ws_State (reserve ws d)) = Admitted d"
  "ws_State (reserve ws d) = WorkspaceProvisioning \<longleftrightarrow> Admitted d"
  by (simp_all add: reserve_def holds_slot_def)

lemma wp_reserveNewStart:
  assumes i: "svc_inv c w" and sm: "small w"
    and err: "\<And>v b e w'. svc_inv c w' \<Longrightarrow> Q (v, b, Some e) w'"
    and ok: "\<And>v b w'. K c (ws_ID v) False b (pin v) w' \<Longrightarrow> (b \<Longrightarrow> ws_State v = WorkspaceProvisioning) \<Longrightarrow>
      holds_slot (ws_State v) = b \<Longrightarrow> Q (v, b, None) w'"
  shows "wp (reserveNewStart ws) Q w"
  unfolding reserveNewStart_def Let_def
proof (rule wp_bind, rule wp_Snapshot [OF K_start [OF i, of "ws_ID ws"] sm], goal_cases)
  case (1 e w')
  then show ?case by (auto intro!: wp_ret err elim: K_inv)
next
  case (2 sn w')
  let ?v = "reserve (ws\<lparr>ws_Quota := quotaWithinRequest (d_Quota (PlanStart (fst c) sn)) (ws_RequestedDiskGiB ws)\<rparr>) (PlanStart (fst c) sn)"
  have room2: "room c (ws_OwnerID ws) w''" if "quiet w' w''" "Admitted (PlanStart (fst c) sn)" for w''
    by (rule room_quiet [OF that(1) K_inv [OF 2(1)] 2(4) [OF that(2)]])
  show ?case
    unfolding sum.case
  proof (rule wp_bind, rule wp_get, rule wp_bind, rule wp_ctx_Err [OF 2(1)], unfold 2(3), rule wp_option, goal_cases)
    case (1 e w'')
    show ?case
      by (rule wp_bind, rule wp_Create [OF 1(1)])
         (use room2 [OF 1(2)] in \<open>auto intro!: wp_option wp_ret err ok\<close>)
  qed (auto intro!: wp_ret err elim: K_inv)
qed

text \<open>What the validators of a restart check: the workspace holds no slot, and its identity is kept.\<close>

definition restart_check :: "(workspace \<Rightarrow> workspace result) \<Rightarrow> bool" where
  "restart_check validate \<longleftrightarrow> (\<forall>v v'. validate v = Inr v' \<longrightarrow> ws_ID v' = ws_ID v \<and> ws_OwnerID v' = ws_OwnerID v
     \<and> ws_PrivateInputsPending v' = ws_PrivateInputsPending v \<and> \<not> CountsAsRunning (ws_State v))"

lemma restart_checks: "restart_check validate_approval" "restart_check validate_retry" "restart_check validate_resume"
  by (auto simp: restart_check_def validate_approval_def validate_retry_def validate_resume_def split: if_splits)

lemma wp_reserve_save:
  assumes K: "K c k False sl pv w" and sm: "small w" and v: "ws_ID v = k" "ws_OwnerID v = ow" "\<not> ws_PrivateInputsPending v"
    and err: "\<And>x b e w'. svc_inv c w' \<Longrightarrow> Q (x, b, Some e) w'"
    and ok: "\<And>x b w'. K c k False b (pin x) w' \<Longrightarrow> ws_ID x = k \<Longrightarrow> (b \<Longrightarrow> ws_State x = WorkspaceProvisioning) \<Longrightarrow>
      \<not> ws_PrivateInputsPending x \<Longrightarrow> Q (x, b, None) w'"
  shows "wp (do {
      r \<leftarrow> svc_Snapshot ow;
      (case r of
         Inl e \<Rightarrow> ret (zero_ws, False, Some e)
       | Inr sn \<Rightarrow> do {
           w \<leftarrow> State_Monad.get;
           now \<leftarrow> svc_now;
           e \<leftarrow> ctx_Err;
           (case e of
              Some e \<Rightarrow> ret (zero_ws, False, Some e)
            | None \<Rightarrow> do {
                e \<leftarrow> svc_Save (reserve (v\<lparr>ws_Quota := quotaWithinRequest (d_Quota (PlanStart (w_admission w) sn)) (ws_RequestedDiskGiB v),
                        ws_UpdatedAt := now, ws_LastActivityAt := now, ws_SuspendedAt := None\<rparr>) (PlanStart (w_admission w) sn));
                (case e of
                   Some e \<Rightarrow> ret (zero_ws, False, Some e)
                 | None \<Rightarrow> ret (reserve (v\<lparr>ws_Quota := quotaWithinRequest (d_Quota (PlanStart (w_admission w) sn)) (ws_RequestedDiskGiB v),
                        ws_UpdatedAt := now, ws_LastActivityAt := now, ws_SuspendedAt := None\<rparr>) (PlanStart (w_admission w) sn),
                      Admitted (PlanStart (w_admission w) sn), None)) }) }) }) Q w"
proof (rule wp_bind, rule wp_Snapshot [OF K sm], goal_cases)
  case (1 e w1)
  then show ?case by (auto intro!: wp_ret err elim: K_inv)
next
  case (2 sn w1)
  note K1 = 2(1) and adm = 2(3) and rm = 2(4)
  show ?case
    unfolding sum.case
  proof (rule wp_bind, rule wp_get, rule wp_bind, rule wp_now [OF K1], rule wp_bind, rule wp_ctx_Err, assumption, rule wp_option, goal_cases)
    case (1 t w2 e w3)
    have "quiet w1 w3" by (rule world_quiet_trans [OF 1(2) 1(4)])
    then have "room c ow w3" if "Admitted (PlanStart (fst c) sn)"
      using room_quiet [OF _ K_inv [OF K1]] rm [OF that] by blast
    then show ?case
      unfolding adm by (intro wp_bind wp_Save [OF 1(3)]) (use v in \<open>auto intro!: wp_option wp_ret err ok elim: K_inv\<close>)
  qed (auto intro!: wp_ret err elim: K_inv)
qed

lemma wp_reserveExistingStart:
  assumes i: "svc_inv c w" and sm: "small w" and val: "restart_check validate"
    and err: "\<And>x b e w'. svc_inv c w' \<Longrightarrow> Q (x, b, Some e) w'"
    and ok: "\<And>x b w'. K c k False b (pin x) w' \<Longrightarrow> ws_ID x = k \<Longrightarrow> (b \<Longrightarrow> ws_State x = WorkspaceProvisioning) \<Longrightarrow>
      \<not> ws_PrivateInputsPending x \<Longrightarrow> Q (x, b, None) w'"
  shows "wp (reserveExistingStart ow k validate) Q w"
  unfolding reserveExistingStart_def Let_def
proof (rule wp_bind, rule wp_Get [OF K_start [OF i]], goal_cases)
  case (1 e w1)
  then show ?case by (auto intro!: wp_ret err elim: K_inv)
next
  case (2 ws w1)
  show ?case
    unfolding sum.case
  proof (rule wp_if, goal_cases)
    case 1
    then have "ws_State ws \<noteq> WorkspaceDeleting \<Longrightarrow> \<not> (True \<and> accounted ws)" by (simp add: accounted_def)
    then show ?case
      by (intro wp_bind wp_quarantine [OF 2(1)]) (use 2(3) in \<open>auto intro!: wp_option wp_ret err\<close>)
  next
    case complete: 2
    show ?case
    proof (rule wp_sum, goal_cases)
      case (2 v)
      then have v: "ws_ID v = k" "ws_OwnerID v = ow" "\<not> ws_PrivateInputsPending v" and "\<not> accounted ws"
        using val \<open>ws_ID ws = k\<close> \<open>ws_OwnerID ws = ow\<close> complete
        by (auto simp: restart_check_def accounted_def privateInputsIncomplete_def)
      with \<open>K c k (True \<and> accounted ws) (holds_slot (ws_State ws)) (pin ws) w1\<close>
      have "K c k False (holds_slot (ws_State ws)) (pin ws) w1" by simp
      then show ?case by (rule wp_reserve_save) (use v err ok small_quiet [OF \<open>quiet w w1\<close> sm] in auto)
    qed (use 2(1) in \<open>auto intro!: wp_ret err elim: K_inv\<close>)
  qed
qed

subsection \<open>Gates\<close>

definition quiet_gate :: "goerr option svc \<Rightarrow> unit svc \<Rightarrow> bool" where
  "quiet_gate acquire release \<longleftrightarrow> (\<forall>w. quiet w (snd (run_state acquire w))) \<and> (\<forall>w. quiet w (snd (run_state release w)))"

lemma quiet_upd [simp]: "quiet w (v\<lparr>w_admissionGate := b\<rparr>) = quiet w v" "quiet w (v\<lparr>w_runtimeGate := b\<rparr>) = quiet w v"
  "quiet w (v\<lparr>w_mutations := m\<rparr>) = quiet w v"
  by (simp_all add: quiet_def)

lemma quiet_unref [simp]: "quiet w (mutation_unref key b v) = quiet w v"
  by (simp add: mutation_unref_def Let_def split: option.split)

lemma run_wp: "P (snd (run_state m w)) = wp m (\<lambda>r. P) w"
  by (simp add: wp_def split: prod.splits)

lemma wp_quietI: "quiet w (snd (run_state m w)) \<Longrightarrow> (\<And>r w'. quiet w w' \<Longrightarrow> Q r w') \<Longrightarrow> wp m Q w"
  by (auto simp: wp_def split: prod.splits)

lemma quiet_runtime: "quiet_gate acquireRuntime releaseRuntime"
  unfolding quiet_gate_def run_wp acquireRuntime_def releaseRuntime_def
  by (auto intro!: wp_intros wp_tick wp_get wp_set)

lemma quiet_admission: "quiet_gate acquireAdmission releaseAdmission"
  unfolding quiet_gate_def run_wp acquireAdmission_def releaseAdmission_def
  by (auto intro!: wp_intros wp_tick wp_get wp_set)

lemma quiet_mutation: "quiet_gate (acquireWorkspaceMutation ow k) (releaseWorkspaceMutation ow k)"
  unfolding quiet_gate_def run_wp acquireWorkspaceMutation_def releaseWorkspaceMutation_def Let_def
  by (auto intro!: wp_intros wp_tick wp_get wp_set)

lemma quiet_start: "quiet_gate acquireStartBoundary releaseStartBoundary"
proof -
  have a: "wp acquireAdmission (\<lambda>r. quiet w) v" "wp releaseAdmission (\<lambda>r. quiet w) v"
    "wp acquireRuntime (\<lambda>r. quiet w) v" "wp releaseRuntime (\<lambda>r. quiet w) v" if "quiet w v" for w v
    using quiet_admission quiet_runtime that
    by (auto simp: quiet_gate_def run_wp [symmetric] intro: world_quiet_trans)
  show ?thesis
    unfolding quiet_gate_def run_wp acquireStartBoundary_def releaseStartBoundary_def
  proof (intro conjI allI)
    show "wp (State_Monad.bind acquireAdmission (\<lambda>e. case e of
          None \<Rightarrow> State_Monad.bind acquireRuntime (\<lambda>e. case e of None \<Rightarrow> ret None
            | Some e \<Rightarrow> State_Monad.bind releaseAdmission (\<lambda>_. ret (Some e)))
        | Some e \<Rightarrow> ret (Some e))) (\<lambda>r. quiet w) w" for w
      by (rule wp_bind, rule wp_mono [OF a(1) [OF quiet_refl]], intro wp_option wp_ret wp_bind)
         (auto intro!: wp_ret wp_bind wp_option elim!: wp_mono [OF a(3)] wp_mono [OF a(2)])
    show "wp (State_Monad.bind releaseRuntime (\<lambda>_. releaseAdmission)) (\<lambda>r. quiet w) w" for w
      by (rule wp_bind, rule wp_mono [OF a(4) [OF quiet_refl]]) (rule a(2))
  qed
qed

lemma wp_gated:
  assumes g: "quiet_gate acquire release" and K: "K c k lv sl pv w"
    and body: "\<And>w'. K c k lv sl pv w' \<Longrightarrow> quiet w w' \<Longrightarrow> wp body (\<lambda>r. svc_inv c) w'"
  shows "wp (gated acquire release fail body) (\<lambda>r. svc_inv c) w"
  unfolding gated_def
proof (rule wp_bind, rule wp_quietI, goal_cases)
  case 1
  show ?case using g by (simp add: quiet_gate_def)
next
  case (2 e w1)
  have K1: "K c k lv sl pv w1" by (rule K_quiet [OF K 2])
  have rel: "wp release (\<lambda>_. svc_inv c) w2" if "svc_inv c w2" for w2
    by (rule wp_quietI, use g in \<open>simp add: quiet_gate_def\<close>) (rule K_inv [OF K_quiet [OF K_start [OF that]]])
  show ?case
    by (intro wp_option wp_ret K_inv [OF K1] wp_bind wp_mono [OF body [OF K1 2]] wp_mono [OF rel])
qed

lemmas wp_gated_inv = wp_gated [OF _ K_start]

end
