(* ===== verification/Workspace_Example.thy ===== *)
theory Workspace_Example
  imports Workspace_Handlers
begin

text \<open>
  One run of the model, evaluated by the simplifier: an owner of the beta profile creates a first
  workspace and every call succeeds. The provider is asked to create the runtime, to start it, and,
  once the row says running, to build its share. The witnesses of the service's theorems rest on it.
\<close>

subsection \<open>Evaluating the state monad\<close>

lemma bind_eval_cong: "m = m' \<Longrightarrow> State_Monad.bind m f = State_Monad.bind m' f"
  by simp

lemma gated_eval_cong: "gated a r f b = gated a r f b"
  by simp

lemma run_bind: "run_state (State_Monad.bind m f) w = (case run_state m w of (r, w') \<Rightarrow> run_state (f r) w')"
  by (simp add: State_Monad.bind_def split: prod.split)

lemma run_let: "run_state (Let x f) w = run_state (f x) w"
  by simp

lemma run_tick:
  "run_state tick w = (w_env w (w_tick w),
     w\<lparr>w_tick := Suc (w_tick w), w_rows := fold apply_narrow (an_narrow (w_env w (w_tick w))) (w_rows w)\<rparr>)"
  by (simp add: tick_def run_bind Let_def)

lemmas svc_eval = run_bind run_let run_tick gated_def acquireWorkspaceMutation_def acquireAdmission_def
  acquireRuntime_def releaseRuntime_def releaseAdmission_def releaseWorkspaceMutation_def mutation_unref_def
  mutation_key_def svc_now_def ctx_Err_def rows_read_def rows_write_def svc_Get_def svc_Save_def svc_Create_def
  svc_Snapshot_def svc_List_def outside_def svc_UpdateQuota_def Let_def

lemmas create_eval = Create_def identifiers_def create_reserved_def reserveNewStart_def reserve_def store_Create_def
  preparePrivateInputs_def provision_reserved_def clearWorkspacePrivateInputs_def workspaceWithoutPrivateInputs_def
  store_Get_def

lemmas provision_eval = provision_def privateInputsIncomplete_def prepareCapacityForStart_def
  reconcileCapacityQuotas_def store_List_def capacity_targets_def apply_capacity_def unresolved_def
  definitelyStoppedStartReservation_def starting_target_def store_UpdateQuota_def provision_runtime_def
  store_Save_def call_provision_def start_and_initialize_def startProvider_def after_start_def rebalance_def
  reconcileStableQuotas_def apply_quota_def provision_request_of_def quotaUpperBound_def
  failureProviderStartReserved_def failureStartCleanupPending_def failurePrivateInputsRecreate_def
  failureEnvironmentPersistence_def

subsection \<open>A first workspace\<close>

definition example_answer :: answer where
  "example_answer = \<lparr>an_now = 0, an_cancel = False, an_err = None, an_commit = False, an_text = ''vm'', an_dirty = False,
     an_unpushed = False, an_release = True, an_random = replicate 20 0,
     an_repo = zero_repository\<lparr>r_DefaultBranch := ''main''\<rparr>,
     an_environment = \<lparr>en_HasDevcontainer = False, en_Supported = False, en_RequiresTrust = False,
       en_ConfigDirectory = [], en_Reason = []\<rparr>,
     an_narrow = []\<rparr>"

definition example_controller :: controller where
  "example_controller = \<lparr>ctl_capacity = OwnerPCBetaCapacity, maintenanceDrain = False\<rparr>"

definition first_world :: world where
  "first_world = \<lparr>w_rows = [], w_diskFreeGiB = 100, w_admission = example_controller,
     w_initializer = None, w_deletion = False, w_suspension = False, w_mutations = [], w_admissionGate = True,
     w_runtimeGate = True, w_log = [], w_tick = 0, w_env = (\<lambda>_. example_answer)\<rparr>"

definition example_create :: create_input where
  "example_create = \<lparr>in_RepositoryID = ''r1'', in_Name = ''fix'', in_BaseBranch = [],
     in_InitialPrompt = [], in_SafetyMode = [], in_Retention = [], in_NestedContainers = False,
     in_EnvironmentVariables = [], in_RequestedDiskGiB = 0\<rparr>"

abbreviation example_workspace :: string where
  "example_workspace \<equiv> ''ws_aaaaaaaaaaaaaaaaaaaaaaaaaa''"

definition example_row :: workspace where
  "example_row = zero_ws\<lparr>ws_ID := example_workspace, ws_OwnerID := ''o'', ws_Repository := an_repo example_answer,
     ws_Name := ''fix'', ws_Branch := ''codex-mobile/fix-aaaaaaaa'', ws_BaseBranch := ''main'',
     ws_SafetyMode := ''balanced'', ws_Retention := ''30_days'', ws_RequestedDiskGiB := 12, ws_State := WorkspaceQueued\<rparr>"

lemma example_answer_fields:
  "an_err example_answer = None" "\<not> an_cancel example_answer" "an_narrow example_answer = []"
  "an_text example_answer = ''vm''" "r_DefaultBranch (an_repo example_answer) = ''main''"
  "validateEnvironment (an_environment example_answer) = None" "\<not> length (an_random example_answer) < 16"
  "an_now example_answer = 0"
  by (simp_all add: example_answer_def validateEnvironment_def)

lemma example_row_fields:
  "ws_ID example_row = example_workspace" "ws_OwnerID example_row = ''o''" "ws_RequestedDiskGiB example_row = 12"
  "\<not> ws_PrivateInputsPending example_row" "ws_EnvironmentVariables example_row = []"
  "ws_InitialPrompt example_row = []" "ws_ProviderResourceID example_row = []" "ws_DevcontainerDir example_row = []"
  "\<not> ws_SetupApproved example_row"
  by (simp_all add: example_row_def zero_ws_def)

lemma example_identifier:
  "base32_lower (take 16 (an_random example_answer)) = ''aaaaaaaaaaaaaaaaaaaaaaaaaa''" "decimal (Suc 0) = ''1''"
  by code_simp+

lemma example_create_valid: "CreateWorkspaceInput_Validate (ApplyDefaults example_create ''main'') = Inr ()"
  by (simp add: request_eval example_create_def)

lemma example_branch: "branchName ''fix'' ''aaaaaaaa'' = ''codex-mobile/fix-aaaaaaaa''"
  by code_simp

lemma example_new:
  "new_workspace example_workspace ''aaaaaaaa'' ''o'' (an_repo example_answer) (ApplyDefaults example_create ''main'') 0
     (an_environment example_answer) = example_row"
  by (simp add: new_workspace_def example_row_def example_create_def example_branch request_eval zero_ws_def
      cloneEnvironment_def example_answer_def)

lemma example_plan:
  "PlanStart example_controller (store_Snapshot ''o'' \<lparr>st_workspaces = [], st_diskFreeGiB = 100\<rparr>) =
     \<lparr>Admitted = True, Reason = [], QueuePosition = 0,
      d_Quota = \<lparr>CPUMilli = 2000, MemoryMiB = 2048, DiskGiB = 40\<rparr>, Pressure = (1, 1)\<rparr>"
  "Shares example_controller 1 = Inr [\<lparr>CPUMilli = 2000, MemoryMiB = 2048, DiskGiB = 40\<rparr>]"
  "quotaWithinRequest \<lparr>CPUMilli = 2000, MemoryMiB = 2048, DiskGiB = 40\<rparr> 12 = \<lparr>CPUMilli = 2000, MemoryMiB = 2048, DiskGiB = 12\<rparr>"
  by code_simp+

lemmas example_eval = example_answer_fields example_row_fields example_identifier example_create_valid example_new
  example_plan first_world_def

lemma example_log:
  "map (\<lambda>e. (ev_wid e, ev_call e)) (w_log (snd (run_state (Create ''o'' example_create) first_world))) =
     [(example_workspace, Provision (provision_request_of (example_row\<lparr>ws_Quota := \<lparr>CPUMilli = 2000, MemoryMiB = 2048, DiskGiB = 12\<rparr>\<rparr>))),
      (example_workspace, Start ''vm'' \<lparr>sq_SafetyMode = ws_SafetyMode example_row,
         sq_Quota = \<lparr>CPUMilli = 2000, MemoryMiB = 2048, DiskGiB = 12\<rparr>\<rparr>),
      (example_workspace, ApplyQuota ''vm'' \<lparr>CPUMilli = 2000, MemoryMiB = 2048, DiskGiB = 12\<rparr>)]"
  supply [cong] = bind_eval_cong gated_eval_cong
  by (simp add: svc_eval create_eval provision_eval example_eval)

end
