(* ===== verification/Workspace_Theorems.thy ===== *)
theory Workspace_Theorems
  imports Workspace_Safety Workspace_Example
begin

text \<open>
  The exported operations of the workspace service keep its invariant, and the properties this gives:
  the accounting of runtimes that may be live, the durable marker before every provider call, the
  limit on an owner's running workspaces, the preconditions of automatic deletion, the release of
  every gate, and the shape of generated names.
\<close>

subsection \<open>The exported operations\<close>

lemma near_provisioning: "near v r \<Longrightarrow> ws_State v = WorkspaceProvisioning \<Longrightarrow> ws_State r = WorkspaceProvisioning"
  by (auto simp: near_def)

lemma wp_provision_reserved:
  assumes K: "K c k False True (Some v) w" and st: "ws_State v = WorkspaceProvisioning"
  shows "wp (provision_reserved ow k v) (\<lambda>r. svc_inv c) w"
  unfolding provision_reserved_def
proof (rule wp_gated [OF quiet_runtime K], rule wp_bind, rule wp_Get, assumption, goal_cases)
  case (2 w1 ws w2)
  then have "ws_State ws = WorkspaceProvisioning" using st near_provisioning by blast
  with 2 show ?case by (auto simp: holds_slot_def intro!: wp_provision)
qed (auto intro: wp_ret K_inv)

lemma wp_start_reserved:
  assumes K: "K c k False b (pin v) w" and st: "b \<Longrightarrow> ws_State v = WorkspaceProvisioning"
  shows "wp (start_reserved ow k (v, b, None)) (\<lambda>r. svc_inv c) w"
proof (cases b)
  case True
  with K st have "K c k False True (Some v) w" by simp
  from wp_provision_reserved [OF this] st True show ?thesis by (simp add: start_reserved_def)
qed (use K in \<open>auto simp: start_reserved_def intro!: wp_ret elim: K_inv\<close>)

lemma wp_start_error: "svc_inv c w \<Longrightarrow> wp (start_reserved ow k (v, b, Some e)) (\<lambda>r. svc_inv c) w"
  by (simp add: start_reserved_def wp_ret)

lemma wp_restart:
  assumes "svc_inv c w" "small w" "restart_check validate"
  shows "wp (State_Monad.bind (reserveExistingStart ow k validate) (start_reserved ow k)) (\<lambda>r. svc_inv c) w"
  by (rule wp_bind, rule wp_reserveExistingStart [OF assms]) (auto intro: wp_start_reserved wp_start_error)

lemma pinned_near: "pinned w v \<Longrightarrow> near x v \<Longrightarrow> ws_State x = ws_State v \<Longrightarrow> ws_ID x = ws_ID v \<Longrightarrow> pinned w x"
  unfolding pinned_def using near_trans by auto

lemma wp_preparePrivateInputs:
  assumes K: "K c k False b (pin v) w" and k: "ws_ID v = k" and sl: "holds_slot (ws_State v) = b"
    and err: "\<And>x e w'. svc_inv c w' \<Longrightarrow> Q (x, Some e) w'"
    and ok: "\<And>x w'. K c k False b (pin x) w' \<Longrightarrow> ws_ID x = k \<Longrightarrow> ws_State x = ws_State v \<Longrightarrow> Q (x, None) w'"
  shows "wp (preparePrivateInputs v) Q w"
proof -
  let ?v = "clearWorkspacePrivateInputs v"
  have clear: "ws_ID ?v = k" "ws_State ?v = ws_State v" "near v ?v" "near ?v v"
    using k by (auto simp: clearWorkspacePrivateInputs_def near_def)
  have K0: "K c k False b (pin ?v) w"
    using K clear k pinned_near [OF _ clear(4)] by (simp add: K_def)
  have prep: "wp (prepareEnvironment v) R w" if "\<And>e w'. K c k False b (pin v) w' \<Longrightarrow> R e w'" for R
    unfolding prepareEnvironment_def
    by (intro wp_bind wp_get wp_if wp_ret wp_harmless [OF K]) (auto simp: harmless_def intro: that K)
  show ?thesis
    unfolding preparePrivateInputs_def Let_def
  proof (rule wp_if, rule wp_ret, rule ok [OF K0 clear(1,2)], rule wp_bind, rule prep, rule wp_option, goal_cases)
    case (1 e w1)
    show ?case
      by (rule wp_bind, rule wp_now [OF 1(2)], rule wp_bind, rule wp_Save, assumption)
         (use clear sl in \<open>auto intro!: wp_option wp_ret err ok elim: K_inv K_weaken\<close>)
  next
    case (2 e w1 x)
    show ?case
      by (rule wp_bind, rule wp_quarantine [OF 2(2) clear(1)]) (auto intro!: wp_option wp_if wp_ret err)
  qed
qed

lemma wp_create_reserved:
  assumes "svc_inv c w" "small w"
  shows "wp (create_reserved ow v) (\<lambda>r. svc_inv c) w"
  unfolding create_reserved_def
proof (rule wp_bind, rule wp_reserveNewStart [OF assms], goal_cases)
  case (2 v b w1)
  show ?case
  proof (unfold prod.case option.case, rule wp_bind, rule wp_preparePrivateInputs [OF 2(1)], goal_cases)
    case (4 x w2)
    show ?case
    proof (cases b)
      case True
      with 4 2(2) have "K c (ws_ID x) False True (Some x) w2" "ws_State x = WorkspaceProvisioning" by auto
      from wp_provision_reserved [OF this] True show ?thesis by simp
    qed (use 4 in \<open>auto intro!: wp_ret elim: K_inv\<close>)
  qed (use 2 in \<open>auto intro!: wp_ret\<close>)
qed (auto intro!: wp_ret)

lemma svc_inv_quiet: "svc_inv c w \<Longrightarrow> quiet w w' \<Longrightarrow> svc_inv c w'"
  by (rule K_inv [OF K_quiet [OF K_start]])

lemma wp_tick_inv:
  assumes "svc_inv c w" and "\<And>a w'. svc_inv c w' \<Longrightarrow> quiet w w' \<Longrightarrow> Q a w'"
  shows "wp tick Q w"
  by (rule wp_tick) (blast intro: assms svc_inv_quiet)

lemma wp_with_mutation:
  assumes "svc_inv c w" "small w" "\<And>w'. svc_inv c w' \<Longrightarrow> small w' \<Longrightarrow> wp body (\<lambda>r. svc_inv c) w'"
  shows "wp (with_mutation ow k body) (\<lambda>r. svc_inv c) w"
  unfolding with_mutation_def
  by (rule wp_gated_inv [OF quiet_mutation assms(1)]) (blast intro: assms K_inv small_quiet)

lemma wp_Create_handler:
  assumes i: "svc_inv c w" and sm: "small w"
  shows "wp (Create ow input) (\<lambda>r. svc_inv c) w"
proof -
  have gates: "wp (gated (acquireWorkspaceMutation ow k) (releaseWorkspaceMutation ow k) f
      (gated acquireAdmission releaseAdmission g (create_reserved ow v))) (\<lambda>r. svc_inv c) w'"
    if "svc_inv c w'" "quiet w w'" for w' k f g v
    by (rule wp_gated_inv [OF quiet_mutation that(1)], rule wp_gated [OF quiet_admission], assumption, rule wp_create_reserved)
       (use sm that(2) in \<open>auto elim: K_inv dest: small_quiet world_quiet_trans\<close>)
  show ?thesis
    unfolding Create_def identifiers_def svc_now_def Let_def
    by (rule wp_bind, rule wp_tick_inv [OF i])
       (auto intro!: wp_intros elim!: wp_tick_inv intro: gates dest: world_quiet_trans)
qed

lemma wp_ApproveSetup:
  assumes "svc_inv c w" "small w"
  shows "wp (ApproveSetup ow k) (\<lambda>r. svc_inv c) w"
  unfolding ApproveSetup_def
proof (rule wp_with_mutation [OF assms], rule wp_bind, rule wp_Get [OF K_start], assumption, goal_cases)
  case (2 w1 ws w2)
  have "wp (gated acquireAdmission releaseAdmission f
      (State_Monad.bind (reserveExistingStart ow k validate_approval) (start_reserved ow k))) (\<lambda>r. svc_inv c) w2" for f
    by (rule wp_gated [OF quiet_admission 2(3)], rule wp_restart [OF _ _ restart_checks(1)])
       (use 2 in \<open>auto elim: K_inv dest: small_quiet\<close>)
  with 2 show ?case by (auto intro!: wp_if wp_ret elim: K_inv)
qed (auto intro!: wp_ret elim: K_inv)

lemma wp_DenySetup:
  assumes "svc_inv c w" "small w"
  shows "wp (DenySetup ow k) (\<lambda>r. svc_inv c) w"
  unfolding DenySetup_def Let_def
proof (rule wp_with_mutation [OF assms], rule wp_bind, rule wp_Get [OF K_start], assumption, goal_cases)
  case (2 w1 ws w2)
  show ?case
    unfolding sum.case
  proof (intro wp_if wp_ret K_inv [OF 2(3)], rule wp_bind, rule wp_now [OF 2(3)], rule wp_bind, rule wp_Save, assumption, goal_cases)
    case (2 t w3)
    then show ?case by (auto simp: accounted_def)
  qed (use 2 in \<open>auto simp: holds_slot_def intro!: wp_option wp_ret elim: K_inv\<close>)
qed (auto intro!: wp_ret elim: K_inv)

lemma wp_Retry:
  assumes "svc_inv c w" "small w"
  shows "wp (Retry ow k) (\<lambda>r. svc_inv c) w"
  unfolding Retry_def
proof (rule wp_with_mutation [OF assms], rule wp_bind, rule wp_Get [OF K_start], assumption, goal_cases)
  case (2 w1 ws w2)
  note K2 = 2(3) and i2 = K_inv [OF 2(3)] and sm2 = small_quiet [OF 2(4) 2(2)]
  have quarantine: "wp (quarantinePrivateInputs ws) (\<lambda>r. wp (case snd r of None \<Rightarrow> ret (fst r, e) | Some _ \<Rightarrow> ret r) (\<lambda>r. svc_inv c)) w2"
    if "privateInputsIncomplete ws" "ws_State ws \<noteq> WorkspaceDeleting" for e
    by (rule wp_quarantine [OF K2]) (use that 2(5) in \<open>auto simp: accounted_def intro!: wp_option wp_ret\<close>)
  have again: "wp (State_Monad.bind (svc_Get ow k) (\<lambda>r. case r of Inl e \<Rightarrow> ret (zero_ws, Some e) | Inr v \<Rightarrow> reconcileProvisioning v))
      (\<lambda>r. svc_inv c) w3"
    if st: "ws_State ws = WorkspaceProvisioning" "\<not> privateInputsIncomplete ws"
      and K3: "K c k (True \<and> accounted ws) (holds_slot (ws_State ws)) (pin ws) w3" for w3
  proof (rule wp_bind, rule wp_Get [OF K3], goal_cases)
    case (2 v w4)
    have "near ws v" using 2(5) st(1) by simp
    then have "ws_State v = WorkspaceProvisioning" "\<not> ws_PrivateInputsPending v"
      using st by (auto simp: near_def privateInputsIncomplete_def)
    with 2 show ?case by (simp add: holds_slot_def) (rule wp_reconcileProvisioning; auto)
  qed (auto intro!: wp_ret elim: K_inv)
  have restart: "wp (State_Monad.bind (reserveExistingStart ow k validate_retry) (start_reserved ow k)) (\<lambda>r. svc_inv c) w3"
    if "quiet w2 w3" for w3
    by (rule wp_restart [OF svc_inv_quiet [OF i2 that] small_quiet [OF that sm2] restart_checks(2)])
  show ?case
    unfolding sum.case
  proof (intro wp_if, goal_cases)
    case 3
    show ?case by (rule wp_gated [OF quiet_start K2], rule again) (use 3 in simp_all)
  next
    case 4
    show ?case by (rule wp_gated [OF quiet_admission K2], rule restart)
  qed (auto intro!: wp_ret i2 wp_bind quarantine)
qed (auto intro!: wp_ret elim: K_inv)

lemma wp_persistMaintenanceDrainResult:
  assumes K: "K c k False sl pv w" and k: "ws_ID ws = k"
  shows "wp (persistMaintenanceDrainResult ws) (\<lambda>r. svc_inv c) w"
  unfolding persistMaintenanceDrainResult_def Let_def
  by (rule wp_settle [OF K]) (use k in \<open>auto simp: holds_slot_def\<close>)

lemma wp_suspension_boundary:
  assumes K: "K c k lv sl pv w" and post: "\<And>e w'. K c k lv sl pv w' \<Longrightarrow> Q e w'"
  shows "wp (suspension_boundary ws) Q w"
  unfolding suspension_boundary_def
  by (intro wp_bind wp_get wp_if wp_ret post K wp_harmless [OF K]) (auto simp: harmless_def intro: post)

lemma wp_drain_stop:
  assumes K: "K c k lv sl pv w" and k: "ws_ID ws = k"
  shows "wp (drain_stop ws) (\<lambda>r. svc_inv c) w"
  unfolding drain_stop_def
proof (rule wp_bind, rule wp_suspension_boundary [OF K], rule wp_option, goal_cases)
  case (1 e w1)
  show ?case
  proof (rule wp_bind, rule wp_stopAndWait [OF 1(1) k], rule wp_option, goal_cases)
    case (1 e w2)
    then have "K c k False sl pv w2" by simp
    then show ?case by (rule wp_persistMaintenanceDrainResult [OF _ k])
  qed (auto intro!: wp_ret elim: K_inv)
qed (auto intro!: wp_ret elim: K_inv)

lemma wp_ReconcileMaintenanceDrain:
  assumes "svc_inv c w" "small w"
  shows "wp (ReconcileMaintenanceDrain ow k) (\<lambda>r. svc_inv c) w"
  unfolding ReconcileMaintenanceDrain_def Let_def
proof (rule wp_with_mutation [OF assms], rule wp_gated_inv [OF quiet_runtime], assumption, rule wp_bind, rule wp_Get, assumption, goal_cases)
  case (2 w1 w2 ws w3)
  note K3 = 2(5) and k = 2(7)
  have slot: "holds_slot (ws_State ws)" if "ws_State ws = WorkspaceProvisioning \<or> ws_State ws = WorkspaceMaintenance"
    using that by (auto simp: holds_slot_def)
  have found: "wp (do { now \<leftarrow> svc_now; e \<leftarrow> svc_Save (ws\<lparr>ws_ProviderResourceID := rid, ws_UpdatedAt := now\<rparr>);
      (case e of None \<Rightarrow> drain_stop (ws\<lparr>ws_ProviderResourceID := rid, ws_UpdatedAt := now\<rparr>) | Some e \<Rightarrow> ret (zero_ws, Some e)) })
      (\<lambda>r. svc_inv c) w4"
    if "holds_slot (ws_State ws)" "K c k (True \<and> accounted ws) (holds_slot (ws_State ws)) (pin ws) w4" for rid w4
    by (rule wp_bind, rule wp_now [OF that(2)], rule wp_bind, rule wp_Save, assumption)
       (use k that(1) in \<open>auto simp: accounted_def definitelyStoppedStartReservation_def privateInputsIncomplete_def
          intro!: wp_option wp_ret wp_drain_stop elim: K_inv\<close>)
  show ?case
    unfolding sum.case
  proof (intro wp_if, goal_cases)
    case 1
    then show ?case by (intro wp_quarantine [OF K3 k]) (auto simp: accounted_def)
  next
    case 3
    show ?case
      by (rule wp_bind, rule wp_lookupProvisioned [OF K3 k])
         (use 3 slot k in \<open>auto intro!: wp_if wp_ret found wp_persistMaintenanceDrainResult elim: K_inv\<close>)
  qed (use k in \<open>auto intro!: wp_ret K_inv [OF K3] wp_drain_stop [OF K3]\<close>)
qed (auto intro!: wp_ret elim: K_inv)

lemma wp_completeSuspension:
  assumes K: "K c k lv sl pv w" and k: "ws_ID ws = k" and post: "\<And>r w'. svc_inv c w' \<Longrightarrow> Q r w'"
  shows "wp (completeSuspension ws) Q w"
  unfolding completeSuspension_def Let_def
proof (intro wp_if wp_ret post K_inv [OF K], rule wp_bind, rule wp_suspension_boundary [OF K], rule wp_option, goal_cases)
  case (1 e w1)
  show ?case
  proof (rule wp_bind, rule wp_stopAndWait [OF 1(2) k], rule wp_option, goal_cases)
    case (1 e w2)
    then have "K c k False sl pv w2" by simp
    then show ?case by (rule wp_settle) (use k post in \<open>auto simp: holds_slot_def\<close>)
  qed (auto intro!: wp_ret post elim: K_inv)
qed (auto intro!: wp_ret post elim: K_inv)

lemma wp_Suspend:
  assumes "svc_inv c w" "small w"
  shows "wp (Suspend ow k) (\<lambda>r. svc_inv c) w"
  unfolding Suspend_def Let_def
proof (rule wp_with_mutation [OF assms], rule wp_gated_inv [OF quiet_runtime], assumption, rule wp_bind, rule wp_Get, assumption, goal_cases)
  case (2 w1 w2 ws w3)
  note K3 = 2(5) and k = 2(7)
  show ?case
    unfolding sum.case
  proof (intro wp_if wp_ret wp_completeSuspension [OF K3 k] K_inv [OF K3], goal_cases)
    case 2
    then have st: "holds_slot (ws_State ws)" "ws_State ws \<noteq> WorkspaceDeleting"
      by (auto simp: CanTransition_to_suspending holds_slot_def)
    show ?case
    proof (rule wp_bind, rule wp_harmless [OF K3], simp add: harmless_def, rule wp_option, goal_cases)
      case (1 a w4)
      show ?case
        by (rule wp_bind, rule wp_now [OF 1(1)], rule wp_bind, rule wp_Save, assumption)
           (use k st in \<open>auto simp: accounted_def definitelyStoppedStartReservation_def privateInputsIncomplete_def
              intro!: wp_option wp_ret wp_completeSuspension elim: K_inv\<close>)
    qed (auto intro!: wp_ret elim: K_inv)
  qed
qed (auto intro!: wp_ret elim: K_inv)

lemma wp_TransitionIfInactive:
  assumes K: "K c k lv sl pv w" and ab: "stableLiveProviderState a" "b \<in> {WorkspaceIdle, WorkspaceSuspending}"
    and post: "\<And>r w'. K c k lv False None w' \<Longrightarrow> Q r w'"
  shows "wp (svc_TransitionIfInactive ow wid a b expected at) Q w"
proof -
  have step: "K c k lv False None (w'\<lparr>w_rows := snd (store_TransitionIfInactive ow wid a b expected at (w_rows w'))\<rparr>)"
    if K': "K c k lv sl pv w'" for w'
  proof (cases "snd (store_TransitionIfInactive ow wid a b expected at (w_rows w')) = w_rows w'")
    case True
    with K' show ?thesis by (auto simp: K_def)
  next
    case False
    then obtain r where r: "map_of (w_rows w') wid = Some r" "ws_State r = a"
      and s: "snd (store_TransitionIfInactive ow wid a b expected at (w_rows w'))
        = AList.update wid (r\<lparr>ws_State := b, ws_UpdatedAt := later at (ws_UpdatedAt r)\<rparr>) (w_rows w')"
      by (auto simp: store_TransitionIfInactive_def split: option.splits if_splits)
    have i: "svc_inv c w'" by (rule K_inv [OF K'])
    have "svc_inv c (w'\<lparr>w_rows := AList.update wid (r\<lparr>ws_State := b, ws_UpdatedAt := later at (ws_UpdatedAt r)\<rparr>) (w_rows w')\<rparr>)"
    proof (rule svc_inv_replace [OF i r(1)], goal_cases)
      case 2
      then show ?case using i r(1) by (auto simp: svc_inv_def rows_ok_def row_ok_def)
    next
      case 3
      then have "accounted r" using i r(1) by (auto simp: svc_inv_def)
      then show ?case using r(2) ab by (auto simp: accounted_def definitelyStoppedStartReservation_def privateInputsIncomplete_def)
    next
      case 4
      then show ?case using holds_slot_stable [OF ab(1)] r(2) by simp
    qed simp
    with K' show ?thesis by (simp add: s K_def)
  qed
  show ?thesis
    unfolding svc_TransitionIfInactive_def Let_def case_prod_beta
  proof (rule wp_bind, rule wp_tick, rule wp_bind, rule wp_get, goal_cases)
    case (1 w1)
    have K1: "K c k lv sl pv w1" by (rule K_quiet [OF K 1])
    have "K c k lv False None w1" using K1 by (rule K_weaken) auto
    with step [OF K1] show ?case by (intro wp_option wp_bind wp_set wp_ret) (auto intro: post)
  qed
qed

lemma wp_SuspendIfInactive:
  assumes i: "svc_inv c w"
  shows "wp (SuspendIfInactive ow k expected) (\<lambda>r. svc_inv c) w"
  unfolding SuspendIfInactive_def
proof (rule wp_gated_inv [OF quiet_mutation i], rule wp_gated [OF quiet_runtime], assumption, rule wp_bind, rule wp_Get, assumption, goal_cases)
  case (2 w1 w2 ws w3)
  note K3 = 2(5) and k = 2(7)
  have claimed: "wp (State_Monad.bind (svc_Get ow k) (\<lambda>r. case r of Inl e \<Rightarrow> ret (zero_ws, False, Some e)
      | Inr ws1 \<Rightarrow> State_Monad.bind (completeSuspension ws1) (\<lambda>v. ret (fst v, True, snd v)))) (\<lambda>r. svc_inv c) w5"
    if "K c k lv sl pv w5" for lv sl pv w5
    by (rule wp_bind, rule wp_Get [OF that]) (auto intro!: wp_ret wp_bind wp_completeSuspension elim: K_inv)
  show ?case
    unfolding sum.case
  proof (intro wp_if wp_ret K_inv [OF K3], goal_cases)
    case 1
    show ?case by (rule wp_bind, rule wp_completeSuspension [OF K3 k], rule wp_ret)
  next
    case 2
    show ?case
    proof (rule wp_bind, rule wp_harmless [OF K3], simp add: harmless_def, rule wp_option, goal_cases)
      case (1 a w4)
      show ?case
        by (rule wp_bind, rule wp_now [OF 1(1)], rule wp_bind, rule wp_TransitionIfInactive, assumption)
           (auto intro!: wp_sum wp_if wp_ret intro: claimed elim: K_inv)
    qed (auto intro!: wp_ret elim: K_inv)
  qed
qed (auto intro!: wp_ret elim: K_inv)

lemma wp_resume_running:
  assumes K: "K c k True True pv w" and k: "ws_ID ws = k" and complete: "\<not> ws_PrivateInputsPending ws"
  shows "wp (resume_running ws) (\<lambda>r. svc_inv c) w"
  unfolding resume_running_def Let_def
  by (rule wp_bind, rule wp_now [OF K], rule wp_bind, rule wp_Save, assumption)
     (use k complete in \<open>auto simp: row_simps intro!: wp_option wp_ret wp_rebalance_inv elim: K_inv\<close>)

lemma wp_resume_reserved:
  assumes K: "K c k False True pv w" and k: "ws_ID ws = k" and st: "ws_State ws = WorkspaceProvisioning"
    and complete: "\<not> ws_PrivateInputsPending ws"
  shows "wp (resume_reserved ws) (\<lambda>r. svc_inv c) w"
  unfolding resume_reserved_def Let_def
proof (rule wp_bind, rule wp_prepareCapacityForStart [OF K], rule wp_option, goal_cases)
  case (1 q e w1)
  show ?case
    by (rule wp_bind, rule wp_markProviderStartPending [OF 1(1)])
       (use k st complete in \<open>auto intro!: wp_ret wp_start_and_initialize wp_resume_running\<close>)
next
  case (2 q e w1 x)
  show ?case by (rule wp_mark [OF 2(1)]) (use k st in \<open>auto intro!: wp_ret elim: K_inv\<close>)
qed

lemma wp_Resume:
  assumes "svc_inv c w" "small w"
  shows "wp (Resume ow k) (\<lambda>r. svc_inv c) w"
  unfolding Resume_def
proof (rule wp_with_mutation [OF assms], rule wp_gated_inv [where k = k, OF quiet_admission], assumption, rule wp_bind,
    rule wp_reserveExistingStart [where c = c, OF _ _ restart_checks(3)], goal_cases)
  case (4 w1 w2 v b w3)
  then have "\<not> ws_PrivateInputsPending v" by blast
  show ?case
  proof (cases b)
    case True
    with 4 have K3: "K c k False True (Some v) w3" and st: "ws_State v = WorkspaceProvisioning" by auto
    have "wp (gated acquireRuntime releaseRuntime f (State_Monad.bind (svc_Get ow k)
        (\<lambda>r. case r of Inl e \<Rightarrow> ret (zero_ws, Some e) | Inr ws1 \<Rightarrow> resume_reserved ws1))) (\<lambda>r. svc_inv c) w3" for f
    proof (rule wp_gated [OF quiet_runtime K3], rule wp_bind, rule wp_Get, assumption, goal_cases)
      case (2 w4 ws w5)
      then have "near v ws" by blast
      with st \<open>\<not> ws_PrivateInputsPending v\<close> have "ws_State ws = WorkspaceProvisioning" "\<not> ws_PrivateInputsPending ws"
        by (auto simp: near_def)
      with 2 show ?case by (auto simp: holds_slot_def intro!: wp_resume_reserved)
    qed (auto intro!: wp_ret elim: K_inv)
    with True show ?thesis by simp
  qed (use 4 in \<open>auto intro!: wp_ret elim: K_inv\<close>)
qed (auto intro!: wp_ret elim: K_inv dest: small_quiet)

subsection \<open>Deletion\<close>

lemma accounted_deleting: "ws_State ws = WorkspaceDeleting \<Longrightarrow> accounted ws"
  by (simp add: accounted_def definitelyStoppedStartReservation_def)

lemma wp_claim_delete:
  assumes K: "K c k lv sl pv w" and k: "ws_ID ws = k"
    and err: "\<And>e w'. svc_inv c w' \<Longrightarrow> Q (Inl e) w'"
    and ok: "\<And>v w' sl pv. K c k lv sl pv w' \<Longrightarrow> ws_ID v = k \<Longrightarrow> ws_State v = WorkspaceDeleting \<Longrightarrow> Q (Inr v) w'"
  shows "wp (claim_delete ws automatic confirmed) Q w"
proof -
  have checkpoint: "wp (delete_checkpoint ws automatic) R w"
    if "\<And>e w'. K c k lv sl pv w' \<Longrightarrow> R (Inl e) w'" "\<And>v w'. K c k lv sl pv w' \<Longrightarrow> ws_ID v = k \<Longrightarrow> R (Inr v) w'" for R
    unfolding delete_checkpoint_def
    by (intro wp_if wp_ret wp_bind wp_harmless [OF K])
       (use k K in \<open>auto simp: harmless_def split: option.splits intro: that\<close>)
  show ?thesis
    unfolding claim_delete_def Let_def
  proof (intro wp_if wp_ret err K_inv [OF K], rule ok [OF K k], assumption, rule wp_bind, rule checkpoint, goal_cases)
    case (2 v w1)
    show ?case
      by (simp only: sum.case, rule wp_bind, rule wp_now [OF 2(5)], rule wp_bind, rule wp_Save, assumption)
         (use 2(6) in \<open>auto simp: holds_slot_def intro!: accounted_deleting wp_option wp_ret err ok elim: K_inv\<close>)
  qed (auto intro!: wp_ret err elim: K_inv)
qed

lemma wp_resolve_delete:
  assumes K: "K c k lv sl pv w" and k: "ws_ID ws = k" and st: "ws_State ws = WorkspaceDeleting"
    and err: "\<And>e w'. svc_inv c w' \<Longrightarrow> Q (Inl e) w'"
    and ok: "\<And>v w' lv sl pv. K c k lv sl pv w' \<Longrightarrow> ws_ID v = k \<Longrightarrow> (ws_ProviderResourceID v = [] \<Longrightarrow> \<not> lv) \<Longrightarrow> Q (Inr v) w'"
  shows "wp (resolve_delete ws) Q w"
  unfolding resolve_delete_def Let_def
proof (intro wp_if wp_ret ok [OF K k], simp, rule wp_bind, rule wp_lookupProvisioned [OF K k], goal_cases)
  case (3 rid w1)
  show ?case
    by (simp only: sum.case, rule wp_bind, rule wp_now [OF 3(2)], rule wp_bind, rule wp_Save, assumption)
       (use k st 3 in \<open>auto simp: holds_slot_def intro!: accounted_deleting wp_option wp_ret err ok elim: K_inv\<close>)
qed (use k in \<open>auto intro!: wp_if wp_ret err ok elim: K_inv\<close>)

lemma wp_finalize_delete:
  assumes K: "K c k lv sl pv w" and k: "ws_ID ws = k" and dead: "ws_ProviderResourceID ws = [] \<Longrightarrow> \<not> lv"
  shows "wp (finalize_delete ow k ws) (\<lambda>r. svc_inv c) w"
proof -
  have drop: "wp (State_Monad.bind (outside (ws_ID ws) BeginWorkspaceDeleteFinalization) (\<lambda>a. case an_err a of
       None \<Rightarrow> if \<not> an_release a then ret f else State_Monad.bind (svc_FinalizeDelete ow k)
         (\<lambda>e. if e \<noteq> None \<and> err_is (the e) \<noteq> ErrNotFound then ret e else State_Monad.bind (rebalance ow) (\<lambda>_. ret None))
     | Some e \<Rightarrow> ret (Some e))) (\<lambda>r. svc_inv c) w1" if "K c k False sl pv w1" for f w1
    by (rule wp_bind, rule wp_harmless [OF that], simp add: harmless_def, intro wp_option wp_if wp_ret wp_bind)
       (auto intro!: wp_if wp_ret wp_rebalance_inv [OF K_start] elim!: wp_FinalizeDelete elim: K_inv)
  show ?thesis
    unfolding finalize_delete_def
  proof (rule wp_bind, rule wp_if, rule wp_bind, unfold k, rule wp_ending [OF K], goal_cases)
    case (2 a w1)
    then show ?case
      using drop [unfolded k] by (cases "an_err a") (auto simp: ends_live_def intro!: wp_ret elim: K_inv)
  next
    case 3
    then have "K c k False sl pv w" using K dead by simp
    from drop [OF this, unfolded k] show ?case by (auto intro!: wp_ret)
  qed (simp add: ending_def)
qed

lemma wp_delete_claimed:
  assumes "K c k lv sl pv w" "ws_ID ws = k" "ws_State ws = WorkspaceDeleting"
  shows "wp (State_Monad.bind (resolve_delete ws) (\<lambda>p. case p of Inl e \<Rightarrow> ret (Some e) | Inr v \<Rightarrow> finalize_delete ow k v))
    (\<lambda>r. svc_inv c) w"
  by (rule wp_bind, rule wp_resolve_delete [OF assms]) (auto intro!: wp_ret intro: wp_finalize_delete)

lemma wp_Delete:
  assumes i: "svc_inv c w"
  shows "wp (Delete ow k automatic confirmed) (\<lambda>r. svc_inv c) w"
  unfolding Delete_def
proof (rule wp_gated_inv [where k = k, OF quiet_mutation i], rule wp_gated [OF quiet_runtime], assumption, rule wp_bind, rule wp_get, goal_cases)
  case (1 w1 w2)
  show ?case
  proof (intro wp_if wp_ret K_inv [OF 1(3)], rule wp_bind, rule wp_Get [OF 1(3)], goal_cases)
    case (2 ws w3)
    show ?case
      unfolding sum.case
      by (rule wp_bind, rule wp_claim_delete [OF 2(2) 2(4)]) (auto intro!: wp_ret intro: wp_delete_claimed)
  qed (auto intro!: wp_if wp_ret elim: K_inv)
qed

subsection \<open>Runs of the service\<close>

text \<open>The exported operations with their arguments, and the world each leaves.\<close>

datatype svc_call = CallCreate string create_input | CallApproveSetup string string | CallDenySetup string string
  | CallRetry string string | CallReconcileMaintenanceDrain string string | CallTouchActivity string string time
  | CallMarkIdle string string time | CallSuspendIfInactive string string time
  | CallUpdatePolicy string string retention_policy int | CallUpdateSafetyMode string string safety_mode
  | CallSuspend string string | CallResume string string | CallDelete string string bool bool
  | CallReconcileCapacity string | CallConfigureDeletionBoundary bool | CallConfigureSuspensionBoundary bool

fun svc_run :: "svc_call \<Rightarrow> world \<Rightarrow> world" where
  "svc_run (CallCreate ow input) w = snd (run_state (Create ow input) w)"
| "svc_run (CallApproveSetup ow k) w = snd (run_state (ApproveSetup ow k) w)"
| "svc_run (CallDenySetup ow k) w = snd (run_state (DenySetup ow k) w)"
| "svc_run (CallRetry ow k) w = snd (run_state (Retry ow k) w)"
| "svc_run (CallReconcileMaintenanceDrain ow k) w = snd (run_state (ReconcileMaintenanceDrain ow k) w)"
| "svc_run (CallTouchActivity ow k at) w = snd (run_state (svc_TouchActivity ow k at) w)"
| "svc_run (CallMarkIdle ow k expected) w = snd (run_state (MarkIdleIfInactive ow k expected) w)"
| "svc_run (CallSuspendIfInactive ow k expected) w = snd (run_state (SuspendIfInactive ow k expected) w)"
| "svc_run (CallUpdatePolicy ow k r i) w = snd (run_state (svc_UpdatePolicy ow k r i) w)"
| "svc_run (CallUpdateSafetyMode ow k m) w = snd (run_state (svc_UpdateSafetyMode ow k m) w)"
| "svc_run (CallSuspend ow k) w = snd (run_state (Suspend ow k) w)"
| "svc_run (CallResume ow k) w = snd (run_state (Resume ow k) w)"
| "svc_run (CallDelete ow k automatic confirmed) w = snd (run_state (Delete ow k automatic confirmed) w)"
| "svc_run (CallReconcileCapacity ow) w = snd (run_state (ReconcileCapacity ow) w)"
| "svc_run (CallConfigureDeletionBoundary present) w = snd (run_state (ConfigureDeletionBoundary present) w)"
| "svc_run (CallConfigureSuspensionBoundary present) w = snd (run_state (ConfigureSuspensionBoundary present) w)"

inductive svc_reach :: "world \<Rightarrow> world \<Rightarrow> bool" for w0 :: world where
  reach_refl: "svc_reach w0 w0"
| reach_call: "svc_reach w0 w \<Longrightarrow> small w \<Longrightarrow> svc_reach w0 (svc_run call w)"
| reach_restart: "svc_reach w0 w \<Longrightarrow> NewService True ps w = Inr w' \<Longrightarrow> svc_reach w0 w'"

text \<open>The narrow updates as operations of the service.\<close>

lemma wp_narrow_write:
  assumes i: "svc_inv c w" and n: "\<And>s. near_rows s (snd (f s))" and post: "\<And>e w'. svc_inv c w' \<Longrightarrow> Q e w'"
  shows "wp (rows_write f) Q w"
proof (rule wp_rows_write)
  fix w' assume q: "quiet w w'"
  have i': "svc_inv c w'" by (rule svc_inv_quiet [OF i q])
  moreover have "quiet w' (w'\<lparr>w_rows := snd (f (w_rows w'))\<rparr>)" by (simp add: quiet_def n)
  ultimately have "svc_inv c (w'\<lparr>w_rows := snd (f (w_rows w'))\<rparr>)" by (rule svc_inv_quiet)
  then show "Q (fst (f (w_rows w'))) (w'\<lparr>w_rows := snd (f (w_rows w'))\<rparr>)" "Q (Some e) (w'\<lparr>w_rows := snd (f (w_rows w'))\<rparr>)" for e
    by (auto intro: post)
  show "Q (Some e) w'" for e by (rule post [OF i'])
qed

lemma wp_Get_inv:
  assumes "svc_inv c w" and "\<And>r w'. svc_inv c w' \<Longrightarrow> Q r w'"
  shows "wp (svc_Get ow k) Q w"
  by (rule wp_Get [OF K_start [OF assms(1)]]) (auto intro: assms(2) elim: K_inv)

lemma wp_svc_TouchActivity: "svc_inv c w \<Longrightarrow> wp (svc_TouchActivity ow k at) (\<lambda>r. svc_inv c) w"
  unfolding svc_TouchActivity_def svc_store_TouchActivity_def svc_now_def
  using narrow_near [of _ "NarrowTouch ow k _"]
  by (intro wp_bind wp_if) (auto intro!: wp_ret wp_bind wp_option elim!: wp_tick_inv wp_narrow_write wp_Get_inv)

lemma wp_svc_UpdatePolicy: "svc_inv c w \<Longrightarrow> wp (svc_UpdatePolicy ow k r i) (\<lambda>r. svc_inv c) w"
  unfolding svc_UpdatePolicy_def svc_store_UpdatePolicy_def svc_now_def
  using narrow_near [of _ "NarrowPolicy ow k r i _"]
  by (intro wp_bind wp_if) (auto intro!: wp_ret wp_bind wp_option elim!: wp_tick_inv wp_narrow_write wp_Get_inv)

lemma wp_svc_UpdateSafetyMode:
  assumes i: "svc_inv c w"
  shows "wp (svc_UpdateSafetyMode ow k m) (\<lambda>r. svc_inv c) w"
  unfolding svc_UpdateSafetyMode_def svc_store_UpdateSafetyMode_def svc_now_def
proof (intro wp_if wp_ret i, rule wp_gated_inv [OF quiet_admission i], rule wp_bind, rule wp_Get, assumption, goal_cases)
  case (2 w1 ws w2)
  show ?case
    using narrow_near [of _ "NarrowMode ow k m _"] K_inv [OF 2(4)]
    by (auto intro!: wp_if wp_ret wp_bind wp_option elim!: wp_tick_inv wp_narrow_write wp_Get_inv)
qed (auto intro!: wp_ret elim: K_inv)

lemma wp_MarkIdle: "svc_inv c w \<Longrightarrow> wp (MarkIdleIfInactive ow k expected) (\<lambda>r. svc_inv c) w"
  unfolding MarkIdleIfInactive_def
  by (rule wp_bind, rule wp_now [OF K_start], assumption, erule wp_TransitionIfInactive) (auto elim: K_inv)

lemma wp_ReconcileCapacity: "svc_inv c w \<Longrightarrow> wp (ReconcileCapacity ow) (\<lambda>r. svc_inv c) w"
  unfolding ReconcileCapacity_def
  by (intro wp_if wp_ret wp_gated_inv [OF quiet_runtime]) (auto elim!: wp_rebalance elim: K_inv)

lemma svc_inv_process [simp]:
  "svc_inv c (w\<lparr>w_deletion := b\<rparr>) = svc_inv c w" "svc_inv c (w\<lparr>w_suspension := b\<rparr>) = svc_inv c w"
  "svc_inv c (w\<lparr>w_initializer := i\<rparr>) = svc_inv c w" "svc_inv c (w\<lparr>w_admissionGate := b\<rparr>) = svc_inv c w"
  "svc_inv c (w\<lparr>w_runtimeGate := b\<rparr>) = svc_inv c w" "svc_inv c (w\<lparr>w_mutations := m\<rparr>) = svc_inv c w"
  by (simp_all add: svc_inv_def)

lemma wp_ConfigureBoundaries:
  "svc_inv c w \<Longrightarrow> wp (ConfigureDeletionBoundary p) (\<lambda>r. svc_inv c) w"
  "svc_inv c w \<Longrightarrow> wp (ConfigureSuspensionBoundary p) (\<lambda>r. svc_inv c) w"
  unfolding ConfigureDeletionBoundary_def ConfigureSuspensionBoundary_def
  by (auto intro!: wp_intros wp_get wp_set)

lemma NewService_inv: "svc_inv c w \<Longrightarrow> NewService d ps w = Inr w' \<Longrightarrow> svc_inv c w'"
  by (auto simp: NewService_def split: if_splits)

lemma svc_run_inv: "svc_inv c w \<Longrightarrow> small w \<Longrightarrow> svc_inv c (svc_run call w)"
  by (cases call)
     (simp_all add: run_wp wp_Create_handler wp_ApproveSetup wp_DenySetup wp_Retry wp_ReconcileMaintenanceDrain
       wp_svc_TouchActivity wp_MarkIdle wp_SuspendIfInactive wp_svc_UpdatePolicy wp_svc_UpdateSafetyMode
       wp_Suspend wp_Resume wp_Delete wp_ReconcileCapacity wp_ConfigureBoundaries)

lemma svc_reach_inv: "svc_reach w0 w \<Longrightarrow> svc_inv c w0 \<Longrightarrow> svc_inv c w"
  by (induction rule: svc_reach.induct) (auto intro: svc_run_inv NewService_inv)

subsection \<open>Properties of the service\<close>

text \<open>
  A new deployment: no rows, no calls made, a valid limit; the provider's answers carry a name. A
  crash in the middle of an operation is a run whose later calls all fail without being committed.
\<close>

definition svc_start :: "controller \<Rightarrow> world \<Rightarrow> bool" where
  "svc_start c w \<longleftrightarrow> w_admission w = c \<and> 0 \<le> MaxRunning (ctl_capacity c) \<and> provider_named (w_env w)
     \<and> w_rows w = [] \<and> w_log w = []"

lemma svc_start_inv: "svc_start c w \<Longrightarrow> svc_inv (c, MaxRunning (ctl_capacity c)) w"
  by (simp add: limits_def svc_start_def svc_inv_def maybe_live_def slots_def)

text \<open>C1:
  Whatever operations run and whatever fails at whichever call, every workspace whose runtime may
  be live at the provider, because a create or start was attempted and no stop, delete or absence was
  confirmed since, has a durable row that counts against the capacity. That row never carries the
  marker that proves no start was attempted, and if its private inputs are incomplete it is being
  deleted; in particular a row is only removed when its runtime cannot be live.\<close>

theorem live_runtime_accounted:
  assumes "svc_start c w0" and "svc_reach w0 w" and "k \<in> maybe_live (w_log w)"
  shows "\<exists>r. map_of (w_rows w) k = Some r \<and> ws_ID r = k \<and> CountsAsRunning (ws_State r)
    \<and> \<not> definitelyStoppedStartReservation r
    \<and> (privateInputsIncomplete r \<longrightarrow> ws_State r = WorkspaceDeleting)"
proof -
  have i: "svc_inv (c, MaxRunning (ctl_capacity c)) w" by (rule svc_reach_inv [OF assms(2) svc_start_inv [OF assms(1)]])
  with assms(3) obtain r where r: "map_of (w_rows w) k = Some r" "accounted r" by (auto simp: svc_inv_def)
  moreover have "ws_ID r = k" using i r(1) by (auto simp: svc_inv_def rows_ok_def row_ok_def)
  ultimately show ?thesis by (auto simp: accounted_def)
qed

text \<open>C2:
  Every call that makes a runtime live finds its durable marker in place: when the provider is asked
  to create a runtime, the stored row is provisioning, carries \<^verbatim>\<open>provider_provision_unconfirmed\<close>, has no
  provider identifier and no pending private inputs; when it is asked to start one, the row is
  provisioning, carries \<^verbatim>\<open>provider_start_cleanup_pending\<close> and names exactly the runtime started, and a
  start with repository-controlled setup finds the owner's approval stored. The quota requested is
  the stored one, and a quota build never exceeds what is stored.\<close>

theorem marker_precedes_call:
  assumes "svc_start c w0" and "svc_reach w0 w" and "ev \<in> set (w_log w)"
  shows "(\<forall>req. ev_call ev = Provision req \<longrightarrow> (\<exists>r. map_of (ev_rows ev) (ev_wid ev) = Some r
        \<and> ws_State r = WorkspaceProvisioning \<and> ws_FailureCode r = failureProvisionUnconfirmed
        \<and> \<not> ws_PrivateInputsPending r \<and> ws_ProviderResourceID r = [] \<and> ws_Quota r = pr_Quota req))
    \<and> (\<forall>rid req. ev_call ev = Start rid req \<longrightarrow> (\<exists>r. map_of (ev_rows ev) (ev_wid ev) = Some r
        \<and> ws_State r = WorkspaceProvisioning \<and> ws_FailureCode r = failureStartCleanupPending
        \<and> \<not> ws_PrivateInputsPending r \<and> ws_ProviderResourceID r = rid \<and> ws_Quota r = sq_Quota req))
    \<and> (\<forall>rid req. ev_call ev = StartWithSetup rid req \<longrightarrow> (\<exists>r. map_of (ev_rows ev) (ev_wid ev) = Some r
        \<and> ws_State r = WorkspaceProvisioning \<and> ws_FailureCode r = failureStartCleanupPending
        \<and> \<not> ws_PrivateInputsPending r \<and> ws_ProviderResourceID r = rid \<and> ws_Quota r = su_Quota req \<and> ws_SetupApproved r))
    \<and> (\<forall>rid q. ev_call ev = ApplyQuota rid q \<longrightarrow> (\<exists>r. map_of (ev_rows ev) (ev_wid ev) = Some r
        \<and> ws_ProviderResourceID r = rid \<and> notGreater q (ws_Quota r)))"
proof -
  have "svc_inv (c, MaxRunning (ctl_capacity c)) w" by (rule svc_reach_inv [OF assms(2) svc_start_inv [OF assms(1)]])
  with assms(3) have "marked ev" by (simp add: svc_inv_def)
  then show ?thesis by (auto simp: marked_def)
qed


text \<open>
  Automatic deletion reads the row first. \<open>may_claim\<close> is what it must have read, up to narrow
  updates, to change anything.
\<close>

definition may_claim :: "world \<Rightarrow> string \<Rightarrow> string \<Rightarrow> bool \<Rightarrow> bool \<Rightarrow> bool" where
  "may_claim w ow k automatic confirmed \<longleftrightarrow> (\<exists>s r. near_rows (w_rows w) s \<and> map_of s k = Some r \<and> ws_OwnerID r = ow
     \<and> (ws_State r = WorkspaceDeleting \<or> automatic \<and> ws_State r = WorkspaceSuspended \<and> MayAutoDelete r
        \<or> \<not> automatic \<and> confirmed))"

lemma wp_gated_quiet:
  assumes "quiet_gate acquire release" and q: "quiet w v" and body: "\<And>v'. quiet w v' \<Longrightarrow> wp body (\<lambda>r. quiet w) v'"
  shows "wp (gated acquire release f body) (\<lambda>r. quiet w) v"
proof -
  have acq: "wp acquire (\<lambda>r. quiet w) v'" and rel: "wp release (\<lambda>r. quiet w) v'" if "quiet w v'" for v'
    using assms(1) by (auto simp: quiet_gate_def intro!: wp_quietI intro: world_quiet_trans [OF that])
  have run: "wp (State_Monad.bind body (\<lambda>r. State_Monad.bind release (\<lambda>_. ret r))) (\<lambda>r. quiet w) v'" if "quiet w v'" for v'
    by (rule wp_bind, rule wp_mono [OF body [OF that]], rule wp_bind, rule wp_mono [OF rel], assumption, rule wp_ret)
  show ?thesis
    unfolding gated_def
    by (rule wp_bind, rule wp_mono [OF acq [OF q]], rule wp_option) (auto intro: run wp_ret)
qed


subsection \<open>Witnesses\<close>

abbreviation example_end :: world where
  "example_end \<equiv> snd (run_state (Create ''o'' example_create) first_world)"

lemma example_start: "svc_start example_controller first_world"
  by (simp add: svc_start_def first_world_def example_controller_def OwnerPCBetaCapacity_def provider_named_def
      example_answer_fields)

lemma example_svc_reach: "svc_reach first_world example_end"
  using reach_call [OF reach_refl, of first_world "CallCreate ''o'' example_create"]
  by (simp add: small_def first_world_def)

text \<open>The calls of a log without their answers; only a stop, a deletion or a lookup ends what may be live.\<close>

lemma maybe_live_calls:
  assumes "map (\<lambda>e. (ev_wid e, ev_call e)) evs = [(a, Provision p), (b, Start r q), (d, ApplyQuota x y)]"
  shows "b \<in> maybe_live evs \<and> (\<exists>ev \<in> set evs. ev_wid ev = b \<and> ev_call ev = Start r q)"
  using assms by (auto simp: maybe_live_def live_step_def map_eq_Cons_conv)

lemmas example_live = maybe_live_calls [OF example_log]

theorem live_runtime_accounted_witness:
  "example_workspace \<in> maybe_live (w_log example_end)
    \<and> (\<exists>r. map_of (w_rows example_end) example_workspace = Some r \<and> CountsAsRunning (ws_State r))"
  using live_runtime_accounted [OF example_start example_svc_reach conjunct1 [OF example_live]] example_live by blast

theorem marker_precedes_call_witness:
  "\<exists>ev \<in> set (w_log example_end). \<exists>r q. ev_call ev = Start ''vm'' q \<and> map_of (ev_rows ev) example_workspace = Some r
    \<and> ws_FailureCode r = failureStartCleanupPending \<and> ws_ProviderResourceID r = ''vm'' \<and> ws_Quota r = sq_Quota q"
proof -
  obtain ev q where ev: "ev \<in> set (w_log example_end)" "ev_wid ev = example_workspace" "ev_call ev = Start ''vm'' q"
    using conjunct2 [OF example_live] by blast
  obtain r where "map_of (ev_rows ev) example_workspace = Some r" "ws_FailureCode r = failureStartCleanupPending"
    "ws_ProviderResourceID r = ''vm''" "ws_Quota r = sq_Quota q"
    using marker_precedes_call [OF example_start example_svc_reach ev(1)] unfolding ev(2, 3) by auto
  with ev show ?thesis by blast
qed



end
