(* ===== verification/Redact_Patterns.thy ===== *)
theory Redact_Patterns
  imports Go_Text "HOL-Library.Sublist" "HOL-Library.List_Lexorder" "HOL-Library.Product_Lexorder"
    "HOL-Library.Multiset"
begin

text \<open>
  Package \<^verbatim>\<open>redact\<close>, first part (\<^verbatim>\<open>redact/redact.go\<close>): the encoded forms of a secret, the derivation
  of the pattern set under its bounds, and \<^verbatim>\<open>Redactor\<close>, which replaces every pattern in a complete
  text. What the package uses of \<^verbatim>\<open>encoding/hex\<close>, \<^verbatim>\<open>encoding/base64\<close>, \<^verbatim>\<open>net/url\<close> and \<^verbatim>\<open>bytes\<close> is
  written out over bytes; SHA-256, which only indexes the search for duplicates, is a parameter.
\<close>

subsection \<open>Encodings\<close>

definition byte_of :: "nat \<Rightarrow> byte" where
  "byte_of n = of_nat n"

definition chr :: "char \<Rightarrow> byte" where
  "chr c = of_char c"

definition hex_nibble :: "nat \<Rightarrow> nat \<Rightarrow> byte" where
  "hex_nibble letter n = (if n < 10 then byte_of (48 + n) else byte_of (letter + n - 10))"

fun hex_encode :: "bytes \<Rightarrow> bytes" where
  "hex_encode [] = []"
| "hex_encode (b # bs) = hex_nibble 97 (unat b div 16) # hex_nibble 97 (unat b mod 16) # hex_encode bs"

text \<open>\<^verbatim>\<open>bytes.ToUpper\<close> of text in ASCII.\<close>

definition upper_ascii :: "byte \<Rightarrow> byte" where
  "upper_ascii b = (if 97 \<le> b \<and> b \<le> 122 then b - 32 else b)"

text \<open>The standard and the URL alphabet of base64, and encoding with or without padding.\<close>

definition b64_digit :: "bool \<Rightarrow> nat \<Rightarrow> byte" where
  "b64_digit url n =
     (if n < 26 then byte_of (65 + n) else if n < 52 then byte_of (71 + n)
      else if n < 62 then byte_of (n - 4)
      else if n = 62 then (if url then 45 else 43) else (if url then 95 else 47))"

fun b64_encode :: "bool \<Rightarrow> bool \<Rightarrow> nat list \<Rightarrow> bytes" where
  "b64_encode url pad [] = []"
| "b64_encode url pad [a] =
     [b64_digit url (a div 4), b64_digit url (a mod 4 * 16)] @ (if pad then [61, 61] else [])"
| "b64_encode url pad [a, b] =
     [b64_digit url (a div 4), b64_digit url (a mod 4 * 16 + b div 16), b64_digit url (b mod 16 * 4)]
       @ (if pad then [61] else [])"
| "b64_encode url pad (a # b # c # bs) =
     b64_digit url (a div 4) # b64_digit url (a mod 4 * 16 + b div 16) # b64_digit url (b mod 16 * 4 + c div 64)
       # b64_digit url (c mod 64) # b64_encode url pad bs"

text \<open>\<^verbatim>\<open>url.QueryEscape\<close> and \<^verbatim>\<open>url.PathEscape\<close>: the bytes they keep, and the blank of a query.\<close>

definition url_unreserved :: "byte \<Rightarrow> bool" where
  "url_unreserved b \<longleftrightarrow> (97 \<le> b \<and> b \<le> 122) \<or> (65 \<le> b \<and> b \<le> 90) \<or> (48 \<le> b \<and> b \<le> 57)
     \<or> b \<in> set [45, 95, 46, 126]"

definition shouldEscape :: "bool \<Rightarrow> byte \<Rightarrow> bool" where
  "shouldEscape query b \<longleftrightarrow>
     (if url_unreserved b then False
      else if b \<in> set [36, 38, 43, 58, 61, 64] then query
      else True)"

definition url_escape :: "bool \<Rightarrow> bytes \<Rightarrow> bytes" where
  "url_escape query bs = concat (map (\<lambda>b.
     if query \<and> b = 32 then [43]
     else if shouldEscape query b then [37, hex_nibble 65 (unat b div 16), hex_nibble 65 (unat b mod 16)]
     else [b]) bs)"

subsection \<open>The forms of a secret\<close>

text \<open>\<^verbatim>\<open>wrap\<close>: lines of the given width with a separator between them.\<close>

fun wrap_lines :: "nat \<Rightarrow> nat \<Rightarrow> bytes \<Rightarrow> bytes \<Rightarrow> bytes" where
  "wrap_lines width 0 separator value = value"
| "wrap_lines width (Suc lines) separator value =
     take width value @ separator @ wrap_lines width lines separator (drop width value)"

definition wrap :: "bytes \<Rightarrow> nat \<Rightarrow> bytes \<Rightarrow> bytes" where
  "wrap value width separator =
     (if width = 0 \<or> length value \<le> width then value
      else wrap_lines width ((length value - 1) div width) separator value)"

definition lower_hex_digit :: "byte \<Rightarrow> byte" where
  "lower_hex_digit b = (if 65 \<le> b \<and> b \<le> 70 then b + 32 else b)"

fun lowerPercentHex :: "bytes \<Rightarrow> bytes" where
  "lowerPercentHex (a # b # c # bs) =
     (if a \<noteq> 37 then a # lowerPercentHex (b # c # bs)
      else a # lower_hex_digit b # lower_hex_digit c # lowerPercentHex bs)"
| "lowerPercentHex bs = bs"

definition encodedForms :: "bytes \<Rightarrow> bytes list" where
  "encodedForms value =
     (let lowerHex = hex_encode value; ns = map unat value; std = b64_encode False True ns;
          queryEncoded = url_escape True value; pathEncoded = url_escape False value
      in [value, lowerHex, map upper_ascii lowerHex, std,
          wrap std 64 [10], wrap std 64 [13, 10], wrap std 76 [10], wrap std 76 [13, 10],
          b64_encode False False ns, b64_encode True True ns, b64_encode True False ns,
          queryEncoded, lowerPercentHex queryEncoded, pathEncoded, lowerPercentHex pathEncoded])"

subsection \<open>Deriving the patterns\<close>

definition Replacement :: bytes where "Replacement = map chr ''[REDACTED]''"

definition minimumSecretBytes :: nat where "minimumSecretBytes = 4"
definition maximumSecrets :: nat where "maximumSecrets = 50"
definition maximumSecretBytes :: nat where "maximumSecretBytes = 64 * 1024"
definition maximumPatterns :: nat where "maximumPatterns = 1024"
definition maximumPatternBytes :: nat where "maximumPatternBytes = 32 * 1024"
definition maximumDerivedBytes :: nat where "maximumDerivedBytes = 2 * 1024 * 1024"

definition ErrUnsafeSecrets :: goerr where
  "ErrUnsafeSecrets = errorsNew ''redaction secrets are outside the supported bounds''"

record derive_state =
  dv_patterns :: "bytes list"
  dv_buckets :: "(bytes, nat list) gomap"
  dv_total :: nat

definition bucket :: "derive_state \<Rightarrow> bytes \<Rightarrow> nat list" where
  "bucket st h = (case map_of (dv_buckets st) h of None \<Rightarrow> [] | Some is \<Rightarrow> is)"

definition add_pattern :: "(bytes \<Rightarrow> bytes) \<Rightarrow> bytes \<Rightarrow> derive_state \<Rightarrow> derive_state option" where
  "add_pattern sha256 p st =
     (if length p < minimumSecretBytes then None
      else if length p > maximumPatternBytes \<or> length (dv_patterns st) \<ge> maximumPatterns
         \<or> dv_total st + length p > maximumDerivedBytes then None
      else if \<exists>i \<in> set (bucket st (sha256 p)). dv_patterns st ! i = p then Some st
      else Some \<lparr>dv_patterns = dv_patterns st @ [p],
                 dv_buckets = AList.update (sha256 p) (bucket st (sha256 p) @ [length (dv_patterns st)]) (dv_buckets st),
                 dv_total = dv_total st + length p\<rparr>)"

fun add_forms :: "(bytes \<Rightarrow> bytes) \<Rightarrow> bytes list \<Rightarrow> derive_state \<Rightarrow> derive_state option" where
  "add_forms sha256 [] st = Some st"
| "add_forms sha256 (f # fs) st =
     (case add_pattern sha256 f st of None \<Rightarrow> None | Some st1 \<Rightarrow> add_forms sha256 fs st1)"

fun derive_loop :: "(bytes \<Rightarrow> bytes) \<Rightarrow> bytes list \<Rightarrow> nat \<Rightarrow> derive_state \<Rightarrow> derive_state option" where
  "derive_loop sha256 [] used st = Some st"
| "derive_loop sha256 (s # ss) used st =
     (if length s < minimumSecretBytes \<or> length s > 8192 \<or> 0 \<in> set s then None
      else if used + length s > maximumSecretBytes then None
      else (case add_forms sha256 (encodedForms s) st of
              None \<Rightarrow> None | Some st1 \<Rightarrow> derive_loop sha256 ss (used + length s) st1))"

text \<open>The order of \<^verbatim>\<open>sort.Slice\<close>: longer patterns first, equal lengths by \<^verbatim>\<open>bytes.Compare\<close>.\<close>

definition pattern_key :: "bytes \<Rightarrow> int \<times> nat list" where
  "pattern_key p = (- int (length p), map unat p)"

definition derivePatterns :: "(bytes \<Rightarrow> bytes) \<Rightarrow> bytes list \<Rightarrow> bytes list result" where
  "derivePatterns sha256 secrets =
     (if length secrets > maximumSecrets then Inl ErrUnsafeSecrets
      else (case derive_loop sha256 secrets 0 \<lparr>dv_patterns = [], dv_buckets = [], dv_total = 0\<rparr> of
              None \<Rightarrow> Inl ErrUnsafeSecrets
            | Some st \<Rightarrow> Inr (sort_key pattern_key (dv_patterns st))))"

subsection \<open>Redacting a complete text\<close>

text \<open>\<^verbatim>\<open>bytes.ReplaceAll\<close> for a pattern that is not empty, from left to right without overlap.\<close>

function replaceAll :: "bytes \<Rightarrow> bytes \<Rightarrow> bytes \<Rightarrow> bytes" where
  "replaceAll pat rep [] = []"
| "replaceAll pat rep (b # bs) =
     (if pat \<noteq> [] \<and> prefix pat (b # bs) then rep @ replaceAll pat rep (drop (length pat) (b # bs))
      else b # replaceAll pat rep bs)"
  by pat_completeness auto
termination
  by (relation "measure (\<lambda>(pat, rep, s). length s)") (auto simp: diff_less_Suc)

definition redact_Bytes :: "bytes list \<Rightarrow> bytes \<Rightarrow> bytes" where
  "redact_Bytes patterns input =
     (if patterns = [] \<or> input = [] then input
      else foldl (\<lambda>output p. if \<not> sublist p output then output else replaceAll p Replacement output) input patterns)"

text \<open>\<^verbatim>\<open>Close\<close> drops the patterns; from then on texts pass unchanged.\<close>

definition redact_Close :: "bytes list \<Rightarrow> bytes list" where
  "redact_Close patterns = []"

definition redact_New :: "(bytes \<Rightarrow> bytes) \<Rightarrow> bytes list \<Rightarrow> bytes list result" where
  "redact_New sha256 secrets = derivePatterns sha256 secrets"

subsection \<open>The derived set\<close>

text \<open>The index over hashes finds exactly the patterns already present, whatever the hash function.\<close>

definition derive_ok :: "(bytes \<Rightarrow> bytes) \<Rightarrow> derive_state \<Rightarrow> bool" where
  "derive_ok sha256 st \<longleftrightarrow> distinct (dv_patterns st)
     \<and> dv_total st = sum_list (map length (dv_patterns st)) \<and> dv_total st \<le> maximumDerivedBytes
     \<and> length (dv_patterns st) \<le> maximumPatterns
     \<and> (\<forall>p \<in> set (dv_patterns st). minimumSecretBytes \<le> length p \<and> length p \<le> maximumPatternBytes)
     \<and> (\<forall>i < length (dv_patterns st). i \<in> set (bucket st (sha256 (dv_patterns st ! i))))
     \<and> (\<forall>h. \<forall>i \<in> set (bucket st h). i < length (dv_patterns st))"

lemma bucket_update:
  "bucket \<lparr>dv_patterns = ps, dv_buckets = AList.update h is (dv_buckets st), dv_total = n\<rparr> h' =
     (if h' = h then is else bucket st h')"
  by (simp add: bucket_def update_conv')

lemma bucket_finds:
  "derive_ok sha256 st \<Longrightarrow> (\<exists>i \<in> set (bucket st (sha256 p)). dv_patterns st ! i = p) \<longleftrightarrow> p \<in> set (dv_patterns st)"
  unfolding derive_ok_def by (metis in_set_conv_nth)

lemma add_pattern_ok:
  assumes ok: "derive_ok sha256 st" and add: "add_pattern sha256 p st = Some st'"
  shows "derive_ok sha256 st' \<and> set (dv_patterns st') = insert p (set (dv_patterns st))"
proof (cases "p \<in> set (dv_patterns st)")
  case True
  then show ?thesis using assms bucket_finds [OF ok, of p] by (auto simp: add_pattern_def split: if_splits)
next
  case False
  then have "\<not> (\<exists>i \<in> set (bucket st (sha256 p)). dv_patterns st ! i = p)" using bucket_finds [OF ok] by blast
  with add have st': "st' = \<lparr>dv_patterns = dv_patterns st @ [p],
      dv_buckets = AList.update (sha256 p) (bucket st (sha256 p) @ [length (dv_patterns st)]) (dv_buckets st),
      dv_total = dv_total st + length p\<rparr>"
    and bounds: "minimumSecretBytes \<le> length p" "length p \<le> maximumPatternBytes" "length (dv_patterns st) < maximumPatterns"
      "dv_total st + length p \<le> maximumDerivedBytes"
    by (auto simp: add_pattern_def split: if_splits)
  show ?thesis
    unfolding st' derive_ok_def bucket_update
    using ok False bounds by (auto simp: derive_ok_def nth_append less_Suc_eq split: if_splits)
qed

lemma add_forms_ok:
  "derive_ok sha256 st \<Longrightarrow> add_forms sha256 fs st = Some st' \<Longrightarrow>
     derive_ok sha256 st' \<and> set (dv_patterns st') = set (dv_patterns st) \<union> set fs"
proof (induction fs arbitrary: st)
  case (Cons f fs)
  then show ?case using add_pattern_ok [of sha256 st f] by (fastforce split: option.splits)
qed auto

lemma derive_loop_ok:
  "derive_ok sha256 st \<Longrightarrow> derive_loop sha256 ss used st = Some st' \<Longrightarrow>
     derive_ok sha256 st' \<and> set (dv_patterns st') = set (dv_patterns st) \<union> (\<Union>s \<in> set ss. set (encodedForms s))"
proof (induction ss arbitrary: st used)
  case (Cons s ss)
  then show ?case using add_forms_ok [of sha256 st "encodedForms s"] by (fastforce split: option.splits if_splits)
qed auto

lemma derivePatterns_set:
  assumes "derivePatterns sha256 secrets = Inr ps"
  shows "set ps = (\<Union>s \<in> set secrets. set (encodedForms s)) \<and> distinct ps
    \<and> (\<forall>p \<in> set ps. minimumSecretBytes \<le> length p \<and> length p \<le> maximumPatternBytes)
    \<and> length ps \<le> maximumPatterns \<and> sum_list (map length ps) \<le> maximumDerivedBytes"
proof -
  have "derive_ok sha256 \<lparr>dv_patterns = [], dv_buckets = [], dv_total = 0\<rparr>"
    by (simp add: derive_ok_def bucket_def)
  with assms obtain st where st: "derive_ok sha256 st" "ps = sort_key pattern_key (dv_patterns st)"
    "set (dv_patterns st) = (\<Union>s \<in> set secrets. set (encodedForms s))"
    by (auto simp: derivePatterns_def dest: derive_loop_ok split: if_splits option.splits)
  have "sum_list (map length ps) = sum_list (map length (dv_patterns st))"
    unfolding st(2) by (metis mset_map mset_sort sum_mset_sum_list)
  with st show ?thesis by (simp add: derive_ok_def)
qed

text \<open>The hash only speeds up the search for duplicates: the result is the same for any two hash functions.\<close>

abbreviation same_patterns :: "derive_state option \<Rightarrow> derive_state option \<Rightarrow> bool" where
  "same_patterns \<equiv> rel_option (\<lambda>a b. dv_patterns a = dv_patterns b)"

lemma add_pattern_hash:
  assumes "derive_ok h st" "derive_ok h' st'" "dv_patterns st = dv_patterns st'"
  shows "same_patterns (add_pattern h p st) (add_pattern h' p st')"
proof -
  have "dv_total st = dv_total st'" using assms by (simp add: derive_ok_def)
  then show ?thesis
    unfolding add_pattern_def bucket_finds [OF assms(1)] bucket_finds [OF assms(2)] using assms(3) by auto
qed

lemma add_forms_hash:
  "derive_ok h st \<Longrightarrow> derive_ok h' st' \<Longrightarrow> dv_patterns st = dv_patterns st' \<Longrightarrow>
     same_patterns (add_forms h fs st) (add_forms h' fs st')"
proof (induction fs arbitrary: st st')
  case (Cons f fs)
  from add_pattern_hash [OF Cons.prems, of f] show ?case
  proof (cases rule: option.rel_cases)
    case (Some a b)
    have "derive_ok h a" "derive_ok h' b"
      using add_pattern_ok [OF Cons.prems(1) Some(1)] add_pattern_ok [OF Cons.prems(2) Some(2)] by simp_all
    from Cons.IH [OF this Some(3)] show ?thesis by (simp add: Some(1, 2))
  qed simp
qed auto

lemma derive_loop_hash:
  "derive_ok h st \<Longrightarrow> derive_ok h' st' \<Longrightarrow> dv_patterns st = dv_patterns st' \<Longrightarrow>
     same_patterns (derive_loop h ss used st) (derive_loop h' ss used st')"
proof (induction ss arbitrary: st st' used)
  case (Cons s ss)
  from add_forms_hash [OF Cons.prems, of "encodedForms s"] show ?case
  proof (cases rule: option.rel_cases)
    case (Some a b)
    have "derive_ok h a" "derive_ok h' b"
      using add_forms_ok [OF Cons.prems(1) Some(1)] add_forms_ok [OF Cons.prems(2) Some(2)] by simp_all
    from Cons.IH [OF this Some(3)] show ?thesis by (simp add: Some(1, 2))
  qed simp
qed auto

lemma derivePatterns_hash: "derivePatterns h secrets = derivePatterns h' secrets"
proof -
  have "derive_ok h \<lparr>dv_patterns = [], dv_buckets = [], dv_total = 0\<rparr>" for h
    by (simp add: derive_ok_def bucket_def)
  from derive_loop_hash [OF this [of h] this [of h'], of secrets 0] show ?thesis
    by (auto simp: derivePatterns_def elim!: option.rel_cases)
qed

subsection \<open>A redacted text is clean\<close>

fun join :: "bytes \<Rightarrow> bytes list \<Rightarrow> bytes" where
  "join separator [] = []"
| "join separator [k] = k"
| "join separator (k # ks) = k @ separator @ join separator ks"

lemma join_Cons: "ks \<noteq> [] \<Longrightarrow> join separator (k # ks) = k @ separator @ join separator ks"
  by (cases ks) auto

lemma join_first: "join separator ((b # k) # ks) = b # join separator (k # ks)"
  by (cases ks) auto

lemma prefix_join: "prefix k (join separator (k # ks))"
  by (cases ks) auto

lemma sublist_join: "k \<in> set ks \<Longrightarrow> sublist k (join separator ks)"
proof (induction ks)
  case (Cons a ks)
  then show ?case
    by (cases "ks = []") (auto simp: join_Cons sublist_append)
qed simp

text \<open>\<^verbatim>\<open>ReplaceAll\<close> cuts the text at the occurrences of the pattern; no piece between them contains it.\<close>

lemma replaceAll_pieces:
  assumes "pat \<noteq> []"
  shows "\<exists>ks. ks \<noteq> [] \<and> s = join pat ks \<and> replaceAll pat rep s = join rep ks \<and> (\<forall>k \<in> set ks. \<not> sublist pat k)"
  using assms
proof (induction pat rep s rule: replaceAll.induct)
  case (1 pat rep)
  show ?case by (intro exI [of _ "[[]]"]) (use 1 in auto)
next
  case (2 pat rep b bs)
  show ?case
  proof (cases "prefix pat (b # bs)")
    case True
    with 2 obtain ks where ks: "ks \<noteq> []" "drop (length pat) (b # bs) = join pat ks"
      "replaceAll pat rep (drop (length pat) (b # bs)) = join rep ks" "\<forall>k \<in> set ks. \<not> sublist pat k"
      by blast
    have "replaceAll pat rep (b # bs) = rep @ join rep ks" using True 2(3) ks(3) by simp
    moreover have "b # bs = pat @ join pat ks" using True ks(2) by (metis append_take_drop_id take_is_prefix prefix_def append_eq_conv_conj)
    ultimately show ?thesis
      using ks(1, 4) 2(3) by (intro exI [of _ "[] # ks"]) (auto simp: join_Cons simp del: replaceAll.simps)
  next
    case False
    with 2 obtain k ks where ks: "bs = join pat (k # ks)" "replaceAll pat rep bs = join rep (k # ks)"
      "\<forall>k \<in> set (k # ks). \<not> sublist pat k"
      by (metis list.exhaust)
    have "\<not> prefix pat (b # k)"
      using False prefix_join [of k pat ks] unfolding ks(1) by (meson Cons_prefix_Cons prefix_order.order_trans)
    with ks False show ?thesis
      by (intro exI [of _ "(b # k) # ks"]) (auto simp: join_first sublist_Cons_right)
  qed
qed

text \<open>A pattern that shares nothing with the replacement text cannot arise across it.\<close>

definition inert :: "bytes \<Rightarrow> bool" where
  "inert p \<longleftrightarrow> chr CHR ''['' \<notin> set p \<and> chr CHR '']'' \<notin> set p \<and> \<not> sublist p (map chr ''REDACTED'')"

lemma sublist_middle: "x \<notin> set p \<Longrightarrow> sublist p (a @ x # b) \<Longrightarrow> sublist p a \<or> sublist p b"
proof (induction a)
  case Nil
  then show ?case by (cases p) (auto simp: sublist_Cons_right)
next
  case (Cons y a)
  then consider "prefix p (y # a @ x # b)" | "sublist p (a @ x # b)" by (auto simp: sublist_Cons_right)
  then show ?case
  proof cases
    case 1
    with Cons(2) have "prefix p ((y # a) @ x # b)" by simp
    then have "prefix p (y # a)"
      using Cons(2) by (metis prefix_append prefix_Cons append_is_Nil_conv in_set_conv_decomp prefix_order.order_refl append_Nil2)
    then show ?thesis by auto
  next
    case 2
    with Cons show ?thesis by (auto simp: sublist_Cons_right)
  qed
qed

lemma inert_join: "inert p \<Longrightarrow> ks \<noteq> [] \<Longrightarrow> sublist p (join Replacement ks) \<Longrightarrow> \<exists>k \<in> set ks. sublist p k"
proof (induction ks)
  case (Cons k ks)
  show ?case
  proof (cases "ks = []")
    case False
    have "join Replacement (k # ks) = k @ chr CHR ''['' # (map chr ''REDACTED'' @ chr CHR '']'' # join Replacement ks)"
      using False by (simp add: join_Cons Replacement_def)
    with Cons.prems have "sublist p k \<or> sublist p (map chr ''REDACTED'' @ chr CHR '']'' # join Replacement ks)"
      unfolding inert_def by (metis sublist_middle)
    with Cons.prems(1) have "sublist p k \<or> sublist p (join Replacement ks)"
      unfolding inert_def by (metis sublist_middle)
    with Cons.IH [OF Cons.prems(1) False] show ?thesis by auto
  qed (use Cons in auto)
qed simp

lemma replaceAll_clean:
  assumes "pat \<noteq> []" "inert p" "p = pat \<or> \<not> sublist p s"
  shows "\<not> sublist p (replaceAll pat Replacement s)"
proof -
  obtain ks where ks: "ks \<noteq> []" "s = join pat ks" "replaceAll pat Replacement s = join Replacement ks"
    "\<forall>k \<in> set ks. \<not> sublist pat k"
    using replaceAll_pieces [OF assms(1)] by blast
  then show ?thesis
    using inert_join [OF assms(2) ks(1)] assms(3) sublist_join sublist_order.order_trans by metis
qed

lemma redact_fold_clean:
  assumes "\<forall>p \<in> set (qs @ ps). p \<noteq> [] \<and> inert p" "\<forall>q \<in> set qs. \<not> sublist q t"
  shows "\<forall>p \<in> set (qs @ ps). \<not> sublist p
    (foldl (\<lambda>output p. if \<not> sublist p output then output else replaceAll p Replacement output) t ps)"
  using assms
proof (induction ps arbitrary: qs t)
  case (Cons p ps)
  let ?t = "if \<not> sublist p t then t else replaceAll p Replacement t"
  have "\<forall>q \<in> set (qs @ [p]). \<not> sublist q ?t"
    using Cons.prems replaceAll_clean [of p _ t] by auto
  then show ?case using Cons.IH [of "qs @ [p]" ?t] Cons.prems(1) by simp
qed simp

text \<open>A redacted text contains no derived form of any secret: neither the value nor its hexadecimal,
  base64 (padded, unpadded, standard, URL, wrapped at 64 or 76 columns) or URL-escaped forms,
  provided no form shares the brackets of, or lies inside, the replacement text.\<close>

theorem redacted_text_clean:
  assumes "redact_New sha256 secrets = Inr ps" and "\<forall>s \<in> set secrets. \<forall>f \<in> set (encodedForms s). inert f"
    and "s \<in> set secrets" and "f \<in> set (encodedForms s)"
  shows "\<not> sublist f (redact_Bytes ps input)"
proof -
  have ps: "set ps = (\<Union>s \<in> set secrets. set (encodedForms s))" "\<forall>p \<in> set ps. minimumSecretBytes \<le> length p"
    using derivePatterns_set assms(1) by (auto simp: redact_New_def)
  have ne: "p \<noteq> []" if "p \<in> set ps" for p using ps(2) that by (auto simp: minimumSecretBytes_def)
  have "inert p" if "p \<in> set ps" for p using ps(1) assms(2) that by blast
  with ne have "\<forall>p \<in> set ([] @ ps). p \<noteq> [] \<and> inert p" by simp
  from redact_fold_clean [OF this] have "\<not> sublist f
    (foldl (\<lambda>output p. if \<not> sublist p output then output else replaceAll p Replacement output) input ps)"
    using ps(1) assms(3, 4) by auto
  moreover have "f \<in> set ps" "f \<noteq> []" using ps(1) ne assms(3, 4) by blast+
  ultimately show ?thesis by (auto simp: redact_Bytes_def)
qed

definition example_secret :: bytes where
  "example_secret = map chr ''abcd''"

text \<open>Its value, hexadecimal, padded and unpadded base64; escaping changes nothing.\<close>

lemma example_forms:
  "encodedForms example_secret =
     (let raw = [97, 98, 99, 100]; hex = [54, 49, 54, 50, 54, 51, 54, 52];
          std = [89, 87, 74, 106, 90, 65, 61, 61]; b64 = [89, 87, 74, 106, 90, 65]
      in [raw, hex, hex, std, std, std, std, std, b64, std, b64, raw, raw, raw, raw])"
  by code_simp

lemmas derive_eval = derivePatterns_def Let_def add_pattern_def bucket_def minimumSecretBytes_def
  maximumSecrets_def maximumSecretBytes_def maximumPatterns_def maximumPatternBytes_def maximumDerivedBytes_def
  pattern_key_def

lemma example_patterns:
  "redact_New sha256 [example_secret] = Inr [[54, 49, 54, 50, 54, 51, 54, 52],
     [89, 87, 74, 106, 90, 65, 61, 61], [89, 87, 74, 106, 90, 65], [97, 98, 99, 100]]"
  unfolding redact_New_def derivePatterns_hash [of sha256 _ "\<lambda>_. []"]
  by (simp add: example_forms derive_eval) (simp add: example_secret_def chr_def)

lemma example_forms_inert: "\<forall>s \<in> set [example_secret]. \<forall>f \<in> set (encodedForms s). inert f"
  by (simp add: example_forms Let_def) code_simp

theorem redacted_text_clean_witness:
  "\<not> sublist [89, 87, 74, 106, 90, 65] (redact_Bytes [[54, 49, 54, 50, 54, 51, 54, 52],
     [89, 87, 74, 106, 90, 65, 61, 61], [89, 87, 74, 106, 90, 65], [97, 98, 99, 100]] (map chr ''key=YWJjZA=''))"
  by (rule redacted_text_clean [OF example_patterns example_forms_inert, of example_secret])
    (simp_all add: example_forms Let_def)

end
