(* ===== verification/Redact_Trie.thy ===== *)
theory Redact_Trie
  imports Redact_Patterns
begin

text \<open>
  Package \<^verbatim>\<open>redact\<close>, second part (\<^verbatim>\<open>redact/redact.go\<close>): the trie of the patterns with its failure
  links. The nodes live in a heap, a list of records; a pointer \<^verbatim>\<open>*trieNode\<close> is an index and the root
  is node 0. The two loops, following failure links and the breadth-first traversal, are partial
  functions: that they end on every trie \<^verbatim>\<open>NewStream\<close> builds is proved. The reference is a node's word:
  each failure link leads to the longest proper suffix of the word that is in the trie, and each
  \<^verbatim>\<open>match\<close> is the length of the longest pattern the word ends with.
\<close>

subsection \<open>Nodes\<close>

record trie_node =
  children :: "(byte, nat) gomap"
  fail_link :: nat
  depth :: nat
  ownMatch :: nat
  match_len :: nat

definition new_node :: "nat \<Rightarrow> trie_node" where
  "new_node d = \<lparr>children = [], fail_link = 0, depth = d, ownMatch = 0, match_len = 0\<rparr>"

abbreviation child :: "trie_node list \<Rightarrow> nat \<Rightarrow> byte \<Rightarrow> nat option" where
  "child H n v \<equiv> map_of (children (H ! n)) v"

text \<open>The inner loop of \<^verbatim>\<open>NewStream\<close>: walk the pattern, allocating the nodes that are missing.\<close>

fun insert_walk :: "nat \<Rightarrow> bytes \<Rightarrow> trie_node list \<Rightarrow> nat \<times> trie_node list" where
  "insert_walk node [] H = (node, H)"
| "insert_walk node (v # vs) H =
     (case child H node v of
        Some c \<Rightarrow> insert_walk c vs H
      | None \<Rightarrow> insert_walk (length H) vs
          (H[node := (H ! node)\<lparr>children := AList.update v (length H) (children (H ! node))\<rparr>]
             @ [new_node (depth (H ! node) + 1)]))"

definition insert_pattern :: "trie_node list \<Rightarrow> bytes \<Rightarrow> trie_node list" where
  "insert_pattern H p =
     (case insert_walk 0 p H of (n, H1) \<Rightarrow> H1[n := (H1 ! n)\<lparr>ownMatch := length p, match_len := length p\<rparr>])"

definition build_trie :: "bytes list \<Rightarrow> trie_node list" where
  "build_trie patterns = foldl insert_pattern [new_node 0] patterns"

subsection \<open>Failure links\<close>

text \<open>\<^verbatim>\<open>for failure != root && failure.children[value] == nil { failure = failure.fail }\<close>\<close>

partial_function (option) follow :: "trie_node list \<Rightarrow> byte \<Rightarrow> nat \<Rightarrow> nat option" where
  "follow H v n = (if n \<noteq> 0 \<and> child H n v = None then follow H v (fail_link (H ! n)) else Some n)"

definition goto :: "trie_node list \<Rightarrow> byte \<Rightarrow> nat \<Rightarrow> nat option" where
  "goto H v n = map_option (\<lambda>f. case child H f v of Some g \<Rightarrow> g | None \<Rightarrow> 0) (follow H v n)"

definition set_fail :: "nat \<Rightarrow> nat \<Rightarrow> trie_node list \<Rightarrow> trie_node list" where
  "set_fail c f H = H[c := (H ! c)\<lparr>fail_link := f,
     match_len := (if match_len (H ! f) > match_len (H ! c) then match_len (H ! f) else match_len (H ! c))\<rparr>]"

fun link_children :: "nat \<Rightarrow> (byte \<times> nat) list \<Rightarrow> trie_node list \<Rightarrow> trie_node list option" where
  "link_children node [] H = Some H"
| "link_children node ((v, c) # rest) H =
     (case goto H v (fail_link (H ! node)) of
        None \<Rightarrow> None
      | Some f \<Rightarrow> link_children node rest (set_fail c f H))"

partial_function (option) link_queue :: "nat list \<Rightarrow> trie_node list \<Rightarrow> trie_node list option" where
  "link_queue queue H =
     (case queue of
        [] \<Rightarrow> Some H
      | node # rest \<Rightarrow>
          (case link_children node (children (H ! node)) H of
             None \<Rightarrow> None
           | Some H1 \<Rightarrow> link_queue (rest @ map snd (children (H ! node))) H1))"

text \<open>
  \<^verbatim>\<open>buildFailureLinks\<close>; the order in which Go ranges over a map is the order of the association list,
  and the reference shows that it does not matter.
\<close>

definition link_root :: "trie_node list \<Rightarrow> trie_node list" where
  "link_root H = fold (\<lambda>(v, c) H. H[c := (H ! c)\<lparr>fail_link := 0\<rparr>]) (children (H ! 0)) (H[0 := (H ! 0)\<lparr>fail_link := 0\<rparr>])"

definition buildFailureLinks :: "trie_node list \<Rightarrow> trie_node list option" where
  "buildFailureLinks H = link_queue (map snd (children (H ! 0))) (link_root H)"

subsection \<open>The reference\<close>

text \<open>The longest suffix of a word that satisfies a predicate, and the longest suffix that is a pattern.\<close>

fun longest_suffix :: "(bytes \<Rightarrow> bool) \<Rightarrow> bytes \<Rightarrow> bytes" where
  "longest_suffix S [] = []"
| "longest_suffix S (b # bs) = (if S (b # bs) then b # bs else longest_suffix S bs)"

fun longest_match :: "bytes set \<Rightarrow> bytes \<Rightarrow> nat" where
  "longest_match P [] = 0"
| "longest_match P (b # bs) = (if b # bs \<in> P then length (b # bs) else longest_match P bs)"

definition in_trie :: "bytes set \<Rightarrow> bytes \<Rightarrow> bool" where
  "in_trie P q \<longleftrightarrow> q = [] \<or> (\<exists>p \<in> P. prefix q p)"

lemma in_trie_Nil [simp]: "in_trie P []"
  by (simp add: in_trie_def)

lemma in_trie_pattern: "p \<in> P \<Longrightarrow> in_trie P p"
  by (auto simp: in_trie_def)

lemma in_trie_snocD: "in_trie P (q @ [v]) \<Longrightarrow> in_trie P q"
  by (auto simp: in_trie_def dest: append_prefixD)

lemma longest_suffix_id: "S w \<Longrightarrow> longest_suffix S w = w"
  by (cases w) auto

lemma longest_suffix_suffix: "suffix (longest_suffix S w) w"
  by (induction w) (auto simp: suffix_Cons)

lemma longest_suffix_in: "S [] \<Longrightarrow> S (longest_suffix S w)"
  by (induction w) auto

lemma longest_suffix_length: "length (longest_suffix S w) \<le> length w"
  using longest_suffix_suffix suffix_length_le by blast

text \<open>The state after one more byte depends on the state only.\<close>

lemma longest_suffix_snoc:
  assumes closed: "\<And>q v. S (q @ [v]) \<Longrightarrow> S q"
  shows "longest_suffix S (w @ [v]) = longest_suffix S (longest_suffix S w @ [v])"
proof (induction w)
  case (Cons b w)
  show ?case
  proof (cases "S (b # w)")
    case False
    then have "\<not> S (b # w @ [v])" using closed [of "b # w" v] by auto
    with False Cons show ?thesis by simp
  qed simp
qed simp

lemma trie_state_snoc:
  "longest_suffix (in_trie P) (w @ [v]) = longest_suffix (in_trie P) (longest_suffix (in_trie P) w @ [v])"
  by (rule longest_suffix_snoc) (rule in_trie_snocD)

lemma longest_match_state: "\<forall>p \<in> P. S p \<Longrightarrow> longest_match P (longest_suffix S w) = longest_match P w"
  by (induction w) auto

lemma longest_match_pattern: "p \<in> P \<Longrightarrow> longest_match P p = length p"
  by (cases p) auto

lemma longest_match_le: "longest_match P w \<le> length w"
  by (induction w) auto

lemma longest_match_pos: "[] \<notin> P \<Longrightarrow> 0 < longest_match P w \<longleftrightarrow> (\<exists>p \<in> P. suffix p w)"
proof (induction w)
  case (Cons b w)
  then show ?case by (auto simp: suffix_Cons)
qed auto

subsection \<open>Building the trie\<close>

text \<open>Node \<open>i\<close> of the heap stands for the word \<open>W ! i\<close>.\<close>

definition trie_rep :: "trie_node list \<Rightarrow> bytes list \<Rightarrow> bool" where
  "trie_rep H W \<longleftrightarrow> length W = length H \<and> H \<noteq> [] \<and> W ! 0 = [] \<and> distinct W
     \<and> (\<forall>i < length H. \<forall>v c. child H i v = Some c \<longleftrightarrow> c < length H \<and> W ! c = W ! i @ [v])
     \<and> (\<forall>i < length H. depth (H ! i) = length (W ! i) \<and> distinct (map fst (children (H ! i))))
     \<and> (\<forall>i < length H. W ! i \<noteq> [] \<longrightarrow> butlast (W ! i) \<in> set W)"

lemma trie_repD:
  assumes "trie_rep H W"
  shows "length W = length H" "0 < length H" "W ! 0 = []" "distinct W"
    "i < length H \<Longrightarrow> child H i v = Some c \<longleftrightarrow> c < length H \<and> W ! c = W ! i @ [v]"
    "i < length H \<Longrightarrow> depth (H ! i) = length (W ! i)"
    "i < length H \<Longrightarrow> distinct (map fst (children (H ! i)))"
    "i < length H \<Longrightarrow> W ! i \<noteq> [] \<Longrightarrow> butlast (W ! i) \<in> set W"
  using assms by (auto simp: trie_rep_def)

lemma trie_rep_root: "trie_rep H W \<Longrightarrow> i < length H \<Longrightarrow> W ! i = [] \<longleftrightarrow> i = 0"
  using nth_eq_iff_index_eq [of W i 0] trie_repD(1-4) [of H W] by auto

lemma trie_rep_inj: "trie_rep H W \<Longrightarrow> i < length H \<Longrightarrow> j < length H \<Longrightarrow> W ! i = W ! j \<longleftrightarrow> i = j"
  using nth_eq_iff_index_eq [of W i j] trie_repD(1, 4) [of H W] by simp

lemma trie_rep_word: "trie_rep H W \<Longrightarrow> i < length H \<Longrightarrow> W ! i \<in> set W"
  using trie_repD(1) [of H W] by simp

lemma trie_rep_None: "trie_rep H W \<Longrightarrow> i < length H \<Longrightarrow> child H i v = None \<longleftrightarrow> W ! i @ [v] \<notin> set W"
  using trie_repD(5) [of H W i v] trie_repD(1) [of H W]
  by (cases "child H i v") (auto simp: in_set_conv_nth)

lemma trie_rep_alloc:
  assumes rep: "trie_rep H W" and n: "node < length H" and none: "child H node v = None"
  shows "trie_rep (H[node := (H ! node)\<lparr>children := AList.update v (length H) (children (H ! node))\<rparr>]
    @ [new_node (depth (H ! node) + 1)]) (W @ [W ! node @ [v]])" (is "trie_rep ?H ?W")
proof -
  note D = trie_repD [OF rep]
  have fresh: "W ! node @ [v] \<notin> set W" using trie_rep_None [OF rep n] none by simp
  have no_parent: "W ! node @ [v] @ [u] \<notin> set W" for u
  proof
    assume "W ! node @ [v] @ [u] \<in> set W"
    then obtain i where "i < length H" "W ! i = (W ! node @ [v]) @ [u]" using D(1) by (auto simp: in_set_conv_nth)
    then show False using D(8) [of i] fresh by (metis butlast_snoc snoc_eq_iff_butlast)
  qed
  have old: "?W ! i = W ! i" if "i < length H" for i using that D(1) by (simp add: nth_append)
  have new: "?W ! length H = W ! node @ [v]" by (simp add: nth_append D(1))
  have in_old: "?W ! c \<in> set W" if "c < length ?H" "c \<noteq> length H" for c
    using that D(1) by (simp add: nth_append)
  have ch: "child ?H i u = Some c \<longleftrightarrow> c < length ?H \<and> ?W ! c = ?W ! i @ [u]" if i: "i < length ?H" for i u c
  proof (cases "i = length H")
    case True
    have "?W ! c \<noteq> (W ! node @ [v]) @ [u]" if "c < length ?H" for c
      using in_old [OF that] no_parent [of u] new by (cases "c = length H") auto
    then show ?thesis using True new by (auto simp: new_node_def nth_append)
  next
    case False
    then have i: "i < length H" using that by simp
    show ?thesis
    proof (cases "i = node \<and> u = v")
      case True
      have "?W ! c = W ! node @ [v] \<longleftrightarrow> c = length H" if "c < length ?H" for c
        using in_old [OF that] new fresh by (cases "c = length H") auto
      moreover have "child ?H node v = Some (length H)" using n by (simp add: nth_append update_conv')
      ultimately show ?thesis using True old [OF n] by auto
    next
      case False
      have "child ?H i u = child H i u" using False i by (cases "i = node") (auto simp: nth_append update_conv')
      moreover have "c = length H \<Longrightarrow> ?W ! c \<noteq> W ! i @ [u]"
        using False new i n D(1, 4) by (auto simp: nth_eq_iff_index_eq)
      ultimately show ?thesis using D(5) [OF i, of u c] old i by (auto simp: less_Suc_eq)
    qed
  qed
  have "butlast (?W ! i) \<in> set ?W" if "i < length ?H" "?W ! i \<noteq> []" for i
    using that D(8) [of i] new old [of i] n D(1) by (cases "i = length H") auto
  moreover have "depth (?H ! i) = length (?W ! i) \<and> distinct (map fst (children (?H ! i)))" if "i < length ?H" for i
    using that D(6, 7) [of i] D(6, 7) [OF n] new old [of i]
    by (cases "i = length H"; cases "i = node") (auto simp: nth_append new_node_def distinct_update)
  ultimately show ?thesis
    unfolding trie_rep_def using ch D(1-4) fresh by (auto simp: nth_append)
qed

definition own_rep :: "trie_node list \<Rightarrow> bytes list \<Rightarrow> bytes set \<Rightarrow> bool" where
  "own_rep H W P \<longleftrightarrow> (\<forall>i < length H. ownMatch (H ! i) = (if W ! i \<in> P then length (W ! i) else 0)
     \<and> match_len (H ! i) = ownMatch (H ! i))"

lemma own_rep_alloc:
  assumes rep: "trie_rep H W" and own: "own_rep H W P" and P: "P \<subseteq> set W" and n: "node < length H"
    and none: "child H node v = None"
  shows "own_rep (H[node := (H ! node)\<lparr>children := cs\<rparr>] @ [new_node d]) (W @ [W ! node @ [v]]) P"
proof -
  have "W ! node @ [v] \<notin> P" using trie_rep_None [OF rep n] none P by blast
  moreover have "length W = length H" by (rule trie_repD(1) [OF rep])
  ultimately show ?thesis
    using own n unfolding own_rep_def by (auto simp: nth_append nth_list_update new_node_def less_Suc_eq)
qed

lemma prefix_words_Cons: "{a @ u |u. prefix u (v # vs)} = insert a {(a @ [v]) @ u |u. prefix u vs}"
  by (auto simp: prefix_Cons)

lemma insert_walk_rep:
  assumes "trie_rep H W" "own_rep H W P" "P \<subseteq> set W" "node < length H" "insert_walk node vs H = (n, H')"
  shows "\<exists>W'. trie_rep H' W' \<and> own_rep H' W' P \<and> n < length H' \<and> W' ! n = W ! node @ vs
    \<and> set W' = set W \<union> {W ! node @ u |u. prefix u vs}"
  using assms
proof (induction node vs H arbitrary: W rule: insert_walk.induct)
  case (1 node H)
  then have "W ! node \<in> set W" by (auto intro: trie_rep_word)
  with 1 show ?case by (intro exI [of _ W]) auto
next
  case (2 node v vs H)
  note rep = 2(3) and own = 2(4) and P = 2(5) and n = 2(6)
  have here: "W ! node \<in> set W" by (rule trie_rep_word [OF rep n])
  show ?case
  proof (cases "child H node v")
    case None
    let ?H = "H[node := (H ! node)\<lparr>children := AList.update v (length H) (children (H ! node))\<rparr>] @ [new_node (depth (H ! node) + 1)]"
    let ?W = "W @ [W ! node @ [v]]"
    have w: "?W ! length H = W ! node @ [v]" by (simp add: nth_append trie_repD(1) [OF rep])
    obtain W' where "trie_rep H' W'" "own_rep H' W' P" "n < length H'" "W' ! n = ?W ! length H @ vs"
      "set W' = set ?W \<union> {?W ! length H @ u |u. prefix u vs}"
      using 2(1) [OF None trie_rep_alloc [OF rep n None] own_rep_alloc [OF rep own P n None]] P 2(7) None by auto
    then show ?thesis unfolding w prefix_words_Cons using here by (intro exI [of _ W']) auto
  next
    case (Some c)
    then have c: "c < length H" "W ! c = W ! node @ [v]" using trie_repD(5) [OF rep n] by auto
    obtain W' where "trie_rep H' W'" "own_rep H' W' P" "n < length H'" "W' ! n = W ! c @ vs"
      "set W' = set W \<union> {W ! c @ u |u. prefix u vs}"
      using 2(2) [OF Some rep own P c(1)] 2(7) Some by auto
    then show ?thesis unfolding c(2) prefix_words_Cons using here by (intro exI [of _ W']) auto
  qed
qed

text \<open>The words of the trie are the prefixes of the patterns, and the nodes of the patterns carry their length.\<close>

definition trie_of :: "trie_node list \<Rightarrow> bytes list \<Rightarrow> bytes set \<Rightarrow> bool" where
  "trie_of H W P \<longleftrightarrow> trie_rep H W \<and> own_rep H W P \<and> set W = {q. in_trie P q}"

lemma trie_of_empty: "trie_of [new_node 0] [[]] {}"
  by (auto simp: trie_of_def trie_rep_def own_rep_def in_trie_def new_node_def)

lemma insert_pattern_trie:
  assumes "trie_of H W P"
  shows "\<exists>W'. trie_of (insert_pattern H p) W' (insert p P)"
proof -
  note t = assms [unfolded trie_of_def]
  have P: "P \<subseteq> set W" using t by (auto intro: in_trie_pattern)
  obtain n H' where walk: "insert_walk 0 p H = (n, H')" by fastforce
  obtain W' where W': "trie_rep H' W'" "own_rep H' W' P" "n < length H'" "W' ! n = p"
    "set W' = set W \<union> {u. prefix u p}"
    using insert_walk_rep [OF _ _ P _ walk] t trie_repD(2, 3) by fastforce
  let ?H = "H'[n := (H' ! n)\<lparr>ownMatch := length p, match_len := length p\<rparr>]"
  have same: "children (?H ! i) = children (H' ! i)" "depth (?H ! i) = depth (H' ! i)" for i
    using W'(3) by (cases "i = n"; simp)+
  have "trie_rep ?H W'" using W'(1) W'(3) unfolding trie_rep_def by (simp add: same del: map_of_eq_Some_iff)
  moreover have "own_rep ?H W' (insert p P)"
    unfolding own_rep_def
  proof (intro allI impI)
    fix i assume i: "i < length ?H"
    show "ownMatch (?H ! i) = (if W' ! i \<in> insert p P then length (W' ! i) else 0) \<and> match_len (?H ! i) = ownMatch (?H ! i)"
    proof (cases "i = n")
      case False
      then have "W' ! i \<noteq> p" using trie_rep_inj [OF W'(1), of i n] W'(3, 4) i by auto
      with False i W'(2) show ?thesis by (simp add: own_rep_def)
    qed (use W'(3, 4) in simp)
  qed
  moreover have "set W' = {q. in_trie (insert p P) q}" using W'(5) t by (auto simp: in_trie_def)
  ultimately show ?thesis unfolding insert_pattern_def walk trie_of_def by auto
qed

lemma build_trie_trie: "\<exists>W. trie_of (build_trie ps) W (set ps)"
proof (induction ps rule: rev_induct)
  case Nil
  show ?case using trie_of_empty by (auto simp: build_trie_def)
next
  case (snoc p ps)
  then show ?case using insert_pattern_trie by (auto simp: build_trie_def)
qed

subsection \<open>Failure links lead to longest suffixes\<close>

definition shape :: "trie_node list \<Rightarrow> bytes list \<Rightarrow> bytes set \<Rightarrow> bool" where
  "shape H W P \<longleftrightarrow> trie_rep H W \<and> set W = {q. in_trie P q}
     \<and> (\<forall>i < length H. ownMatch (H ! i) = (if W ! i \<in> P then length (W ! i) else 0))"

definition linked :: "trie_node list \<Rightarrow> bytes list \<Rightarrow> bytes set \<Rightarrow> nat \<Rightarrow> bool" where
  "linked H W P n \<longleftrightarrow> fail_link (H ! n) < length H
     \<and> W ! fail_link (H ! n) = longest_suffix (in_trie P) (tl (W ! n))
     \<and> match_len (H ! n) = longest_match P (W ! n)"

lemma shapeD:
  assumes "shape H W P"
  shows "trie_rep H W" "set W = {q. in_trie P q}"
    "i < length H \<Longrightarrow> ownMatch (H ! i) = (if W ! i \<in> P then length (W ! i) else 0)"
    "i < length H \<Longrightarrow> in_trie P (W ! i)"
    "i < length H \<Longrightarrow> child H i v = None \<longleftrightarrow> \<not> in_trie P (W ! i @ [v])"
  using assms trie_rep_None [of H W i v] trie_rep_word [of H W i] by (auto simp: shape_def)

lemma goto_ok:
  assumes sh: "shape H W P" and n: "n < length H"
    and fails: "\<And>m. m < length H \<Longrightarrow> length (W ! m) \<le> length (W ! n) \<Longrightarrow> linked H W P m"
  shows "\<exists>g. goto H v n = Some g \<and> g < length H \<and> W ! g = longest_suffix (in_trie P) (W ! n @ [v])"
  using n fails
proof (induction "length (W ! n)" arbitrary: n rule: less_induct)
  case less
  note rep = shapeD(1) [OF sh]
  show ?case
  proof (cases "child H n v")
    case (Some g)
    then have "follow H v n = Some n" by (subst follow.simps) simp
    moreover have "g < length H" "W ! g = W ! n @ [v]" using Some trie_repD(5) [OF rep less(2)] by auto
    moreover from this have "in_trie P (W ! n @ [v])" using shapeD(4) [OF sh, of g] by simp
    ultimately show ?thesis using Some by (simp add: goto_def longest_suffix_id)
  next
    case None
    then have out: "\<not> in_trie P (W ! n @ [v])" using shapeD(5) [OF sh less(2)] by simp
    show ?thesis
    proof (cases "n = 0")
      case True
      then have "follow H v n = Some 0" by (subst follow.simps) simp
      moreover have "longest_suffix (in_trie P) (W ! n @ [v]) = []" using True out trie_repD(3) [OF rep] by simp
      ultimately show ?thesis using None True trie_repD(2, 3) [OF rep] by (simp add: goto_def)
    next
      case False
      let ?f = "fail_link (H ! n)"
      have f: "?f < length H" "W ! ?f = longest_suffix (in_trie P) (tl (W ! n))"
        using less(3) [OF less(2)] by (auto simp: linked_def)
      obtain b w where w: "W ! n = b # w" using False trie_rep_root [OF rep less(2)] by (cases "W ! n") auto
      have short: "length (W ! ?f) < length (W ! n)"
        using longest_suffix_length [of "in_trie P" w] by (simp add: f w)
      have "goto H v n = goto H v ?f"
        unfolding goto_def by (subst (1) follow.simps) (simp add: None False)
      moreover have "longest_suffix (in_trie P) (W ! n @ [v]) = longest_suffix (in_trie P) (W ! ?f @ [v])"
        unfolding f(2) using out by (simp add: w trie_state_snoc [symmetric])
      ultimately show ?thesis using less(1) [OF short f(1)] less(3) short by auto
    qed
  qed
qed

lemma nth_update_total: "xs[c := x] ! i = (if i = c \<and> c < length xs then x else xs ! i)"
  by (cases "c < length xs") (simp_all add: nth_list_update list_update_beyond)

lemma set_fail_nth:
  "set_fail c f H ! i = (if i = c \<and> c < length H then (H ! c)\<lparr>fail_link := f, match_len :=
     (if match_len (H ! f) > match_len (H ! c) then match_len (H ! f) else match_len (H ! c))\<rparr> else H ! i)"
  by (simp add: set_fail_def nth_update_total)

lemma shape_set_fail:
  assumes "shape H W P"
  shows "shape (set_fail c f H) W P"
proof -
  have same: "children (set_fail c f H ! i) = children (H ! i)" "depth (set_fail c f H ! i) = depth (H ! i)"
    "ownMatch (set_fail c f H ! i) = ownMatch (H ! i)" for i
    by (simp_all add: set_fail_nth)
  have len: "length (set_fail c f H) = length H" "(set_fail c f H \<noteq> []) = (H \<noteq> [])" by (simp_all add: set_fail_def)
  show ?thesis using assms unfolding shape_def trie_rep_def same len .
qed

lemma set_fail_linked:
  assumes sh: "shape H W P" and n: "n < length H" "W ! n \<noteq> []" and c: "c < length H" "W ! c = W ! n @ [v]"
    and fails: "\<And>m. m < length H \<Longrightarrow> length (W ! m) \<le> length (W ! n) \<Longrightarrow> linked H W P m"
    and own: "match_len (H ! c) = ownMatch (H ! c)"
  shows "\<exists>f. goto H v (fail_link (H ! n)) = Some f \<and> linked (set_fail c f H) W P c"
proof -
  let ?S = "in_trie P"
  have fn: "fail_link (H ! n) < length H" "W ! fail_link (H ! n) = longest_suffix ?S (tl (W ! n))"
    using fails [OF n(1)] by (auto simp: linked_def)
  obtain b w where w: "W ! n = b # w" using n(2) by (cases "W ! n") auto
  have short: "length (W ! fail_link (H ! n)) \<le> length w" using longest_suffix_length [of ?S w] by (simp add: fn w)
  obtain f where f: "goto H v (fail_link (H ! n)) = Some f" "f < length H" "W ! f = longest_suffix ?S (w @ [v])"
    using goto_ok [OF sh fn(1), of v] fails short by (fastforce simp: fn(2) w trie_state_snoc [symmetric])
  have flen: "length (W ! f) \<le> length (W ! n)" using longest_suffix_length [of ?S "w @ [v]"] by (simp add: f w)
  have fm: "match_len (H ! f) = longest_match P (w @ [v])"
    using fails [OF f(2) flen] longest_match_state [of P ?S] in_trie_pattern by (auto simp: linked_def f(3))
  have "longest_match P (W ! c) = max (ownMatch (H ! c)) (match_len (H ! f))"
    using longest_match_le [of P "w @ [v]"] by (auto simp: shapeD(3) [OF sh c(1)] c(2) w fm)
  then show ?thesis
    using f own c by (intro exI [of _ f]) (auto simp: linked_def set_fail_def w max_def)
qed

lemma link_children_ok:
  assumes "shape H W P" "n < length H" "W ! n \<noteq> []"
    and "\<And>m. m < length H \<Longrightarrow> length (W ! m) \<le> length (W ! n) \<Longrightarrow> linked H W P m"
    and "\<forall>(v, c) \<in> set cs. c < length H \<and> W ! c = W ! n @ [v] \<and> match_len (H ! c) = ownMatch (H ! c)"
    and "distinct (map snd cs)"
  shows "\<exists>H'. link_children n cs H = Some H' \<and> length H' = length H \<and> shape H' W P
    \<and> (\<forall>c \<in> snd ` set cs. linked H' W P c) \<and> (\<forall>m. m \<notin> snd ` set cs \<longrightarrow> H' ! m = H ! m)"
  using assms
proof (induction n cs H rule: link_children.induct)
  case (2 n v c rest H)
  note sh = 2(2) and n = 2(3, 4) and fails = 2(5)
  have c: "c < length H" "W ! c = W ! n @ [v]" "match_len (H ! c) = ownMatch (H ! c)" using 2(6) by auto
  obtain f where f: "goto H v (fail_link (H ! n)) = Some f" "linked (set_fail c f H) W P c"
    using set_fail_linked [OF sh n c(1, 2) fails c(3)] by blast
  let ?H = "set_fail c f H"
  have len: "length ?H = length H" by (simp add: set_fail_def)
  have other: "?H ! m = H ! m" if "m \<noteq> c" for m using that by (simp add: set_fail_def)
  have lk: "linked ?H W P m" if "m < length H" "length (W ! m) \<le> length (W ! n)" for m
    using fails [OF that] other [of m] len c(2) that by (cases "m = c") (auto simp: linked_def)
  have rest: "\<forall>(v, c) \<in> set rest. c < length H \<and> W ! c = W ! n @ [v] \<and> match_len (?H ! c) = ownMatch (?H ! c)"
  proof (clarify)
    fix u d assume d: "(u, d) \<in> set rest"
    then have "d \<noteq> c" using 2(7) by force
    then have "?H ! d = H ! d" by (rule other)
    then show "d < length H \<and> W ! d = W ! n @ [u] \<and> match_len (?H ! d) = ownMatch (?H ! d)" using 2(6) d by auto
  qed
  have "\<exists>H'. link_children n rest ?H = Some H' \<and> length H' = length ?H \<and> shape H' W P
    \<and> (\<forall>c \<in> snd ` set rest. linked H' W P c) \<and> (\<forall>m. m \<notin> snd ` set rest \<longrightarrow> H' ! m = ?H ! m)"
    by (rule 2(1) [OF f(1) shape_set_fail [OF sh]]) (use n lk len rest 2(7) in auto)
  then obtain H' where H': "link_children n rest ?H = Some H'" "length H' = length ?H" "shape H' W P"
    "\<forall>c \<in> snd ` set rest. linked H' W P c" "\<forall>m. m \<notin> snd ` set rest \<longrightarrow> H' ! m = ?H ! m" by blast
  have "linked H' W P c" using H'(2, 5) f(2) 2(7) by (auto simp: linked_def)
  then show ?case using H' f(1) other len by (auto simp: image_iff)
qed auto

subsection \<open>The breadth-first traversal\<close>

text \<open>
  The queue holds the rest \<open>A\<close> of one level \<open>d\<close> and, behind it, the children \<open>B\<close> already reached on the next.
  Every node up to level \<open>d\<close> and every node of \<open>B\<close> is linked.
\<close>

definition bfs_inv :: "bytes list \<Rightarrow> bytes set \<Rightarrow> nat \<Rightarrow> nat list \<Rightarrow> nat list \<Rightarrow> trie_node list \<Rightarrow> bool" where
  "bfs_inv W P d A B H \<longleftrightarrow> shape H W P \<and> 0 < d \<and> distinct A
     \<and> (\<forall>a \<in> set A. a < length H \<and> length (W ! a) = d) \<and> (\<forall>b \<in> set B. b < length H \<and> length (W ! b) = Suc d)
     \<and> (\<forall>m < length H. length (W ! m) \<le> d \<or> m \<in> set B \<longrightarrow> linked H W P m)
     \<and> (\<forall>c < length H. length (W ! c) = Suc d \<longrightarrow> (c \<in> set B \<longleftrightarrow> (\<forall>a \<in> set A. W ! a \<noteq> butlast (W ! c))))
     \<and> (\<forall>m < length H. d < length (W ! m) \<and> m \<notin> set B \<longrightarrow> match_len (H ! m) = ownMatch (H ! m)) \<and> distinct B"

lemma bfs_invD:
  assumes "bfs_inv W P d A B H"
  shows "shape H W P" "0 < d" "distinct A" "distinct B" "a \<in> set A \<Longrightarrow> a < length H \<and> length (W ! a) = d"
    "b \<in> set B \<Longrightarrow> b < length H \<and> length (W ! b) = Suc d"
    "m < length H \<Longrightarrow> length (W ! m) \<le> d \<or> m \<in> set B \<Longrightarrow> linked H W P m"
    "c < length H \<Longrightarrow> length (W ! c) = Suc d \<Longrightarrow> c \<in> set B \<longleftrightarrow> (\<forall>a \<in> set A. W ! a \<noteq> butlast (W ! c))"
    "m < length H \<Longrightarrow> d < length (W ! m) \<Longrightarrow> m \<notin> set B \<Longrightarrow> match_len (H ! m) = ownMatch (H ! m)"
  using assms unfolding bfs_inv_def by blast+

lemma child_set:
  assumes "trie_rep H W" "n < length H"
  shows "snd ` set (children (H ! n)) = {c. c < length H \<and> W ! c \<noteq> [] \<and> butlast (W ! c) = W ! n}"
    "distinct (map snd (children (H ! n)))" "(v, c) \<in> set (children (H ! n)) \<Longrightarrow> c < length H \<and> W ! c = W ! n @ [v]"
proof -
  have mem: "(v, c) \<in> set (children (H ! n)) \<longleftrightarrow> c < length H \<and> W ! c = W ! n @ [v]" for v c
    using trie_repD(5) [OF assms, of v c] trie_repD(7) [OF assms] by simp
  show "(v, c) \<in> set (children (H ! n)) \<Longrightarrow> c < length H \<and> W ! c = W ! n @ [v]" using mem by simp
  show "snd ` set (children (H ! n)) = {c. c < length H \<and> W ! c \<noteq> [] \<and> butlast (W ! c) = W ! n}"
    by (auto simp: mem image_iff Bex_def) (metis append_butlast_last_id)
  have "inj_on snd (set (children (H ! n)))" by (auto simp: inj_on_def mem)
  moreover have "distinct (children (H ! n))" using trie_repD(7) [OF assms] by (simp add: distinct_map)
  ultimately show "distinct (map snd (children (H ! n)))" by (simp add: distinct_map)
qed

lemma bfs_switch:
  assumes inv: "bfs_inv W P d [] B H"
  shows "bfs_inv W P (Suc d) B [] H"
proof -
  note i = bfs_invD [OF inv]
  have rep: "trie_rep H W" by (rule shapeD(1) [OF i(1)])
  have all: "c \<in> set B" if "c < length H" "length (W ! c) = Suc d" for c using i(8) [OF that] by simp
  have "\<exists>a \<in> set B. W ! a = butlast (W ! c)" if c: "c < length H" "length (W ! c) = Suc (Suc d)" for c
  proof -
    have "butlast (W ! c) \<in> set W" using c by (intro trie_repD(8) [OF rep]) auto
    then obtain a where "a < length H" "W ! a = butlast (W ! c)" using trie_repD(1) [OF rep] by (auto simp: in_set_conv_nth)
    then show ?thesis using all [of a] c by auto
  qed
  moreover have "linked H W P m" if "m < length H" "length (W ! m) \<le> Suc d" for m
    using i(7) [OF that(1)] that(2) all [OF that(1)] by (auto simp: le_Suc_eq)
  moreover have "match_len (H ! m) = ownMatch (H ! m)" if "m < length H" "Suc d < length (W ! m)" for m
    using i(9) [OF that(1)] i(6) [of m] that(2) by auto
  ultimately show ?thesis unfolding bfs_inv_def using i(1, 4, 6) by auto
qed

lemma bfs_step:
  assumes inv: "bfs_inv W P d (a # A) B H"
  shows "\<exists>H1. link_children a (children (H ! a)) H = Some H1 \<and> length H1 = length H
    \<and> bfs_inv W P d A (B @ map snd (children (H ! a))) H1"
proof -
  note i = bfs_invD [OF inv]
  have a: "a < length H" "length (W ! a) = d" "W ! a \<noteq> []" using i(2) i(5) [of a] by auto
  have lk: "linked H W P m" if "m < length H" "length (W ! m) \<le> length (W ! a)" for m using i(7) that a(2) by simp
  note rep = shapeD(1) [OF i(1)]
  note ch = child_set [OF rep a(1)]
  let ?C = "snd ` set (children (H ! a))"
  have C: "c \<in> ?C \<longleftrightarrow> c < length H \<and> length (W ! c) = Suc d \<and> butlast (W ! c) = W ! a" for c
    unfolding ch(1) using a(2, 3) by (cases "W ! c" rule: rev_cases) auto
  have notB: "c \<notin> set B" if "c \<in> ?C" for c using i(8) [of c] that C [of c] by auto
  have cs: "\<forall>(v, c) \<in> set (children (H ! a)). c < length H \<and> W ! c = W ! a @ [v] \<and> match_len (H ! c) = ownMatch (H ! c)"
  proof clarify
    fix v c assume vc: "(v, c) \<in> set (children (H ! a))"
    then have "c \<in> ?C" by force
    then show "c < length H \<and> W ! c = W ! a @ [v] \<and> match_len (H ! c) = ownMatch (H ! c)"
      using ch(3) [OF vc] notB [of c] i(9) [of c] a(2) by simp
  qed
  obtain H1 where H1: "link_children a (children (H ! a)) H = Some H1" "length H1 = length H" "shape H1 W P"
    "\<forall>c \<in> ?C. linked H1 W P c" "\<forall>m. m \<notin> ?C \<longrightarrow> H1 ! m = H ! m"
    using link_children_ok [OF i(1) a(1, 3) lk cs ch(2)] by blast
  have lk1: "linked H1 W P m" if "m < length H" "length (W ! m) \<le> d \<or> m \<in> set (B @ map snd (children (H ! a)))" for m
  proof (cases "m \<in> ?C")
    case False
    then have "linked H W P m" using i(7) [OF that(1)] that(2) by auto
    then show ?thesis using H1(2, 5) False by (simp add: linked_def)
  qed (use H1(4) in blast)
  have level: "c \<in> set (B @ map snd (children (H ! a))) \<longleftrightarrow> (\<forall>x \<in> set A. W ! x \<noteq> butlast (W ! c))"
    if c: "c < length H" "length (W ! c) = Suc d" for c
  proof -
    have "W ! x \<noteq> W ! a" if "x \<in> set A" for x using trie_rep_inj [OF rep, of x a] that i(3) i(5) [of x] a(1) by auto
    then show ?thesis using i(8) [OF c] c C [of c] by auto
  qed
  have own: "match_len (H1 ! m) = ownMatch (H1 ! m)"
    if "m < length H" "d < length (W ! m)" "m \<notin> set (B @ map snd (children (H ! a)))" for m
    using that i(9) [OF that(1, 2)] H1(5) by simp
  have AB: "distinct A" "distinct (B @ map snd (children (H ! a)))" using i(3, 4) ch(2) notB by auto
  have As: "\<forall>x \<in> set A. x < length H \<and> length (W ! x) = d" using i(5) by simp
  have Bs: "\<forall>b \<in> set (B @ map snd (children (H ! a))). b < length H \<and> length (W ! b) = Suc d" using i(6) C by auto
  have "bfs_inv W P d A (B @ map snd (children (H ! a))) H1"
    unfolding bfs_inv_def H1(2) by (intro conjI H1(3) i(2) AB As Bs) (use lk1 level own in blast)+
  with H1 show ?thesis by blast
qed

text \<open>Nodes not yet taken from the queue; each turn of the loop takes one.\<close>

definition pending_nodes :: "bytes list \<Rightarrow> nat \<Rightarrow> nat list \<Rightarrow> trie_node list \<Rightarrow> nat set" where
  "pending_nodes W d A H = set A \<union> {m. m < length H \<and> d < length (W ! m)}"

lemma bfs_bottom:
  assumes inv: "bfs_inv W P d [] [] H" and m: "m < length H"
  shows "linked H W P m"
proof (rule bfs_invD(7) [OF inv m], rule disjI1, rule ccontr)
  note i = bfs_invD [OF inv]
  assume deep: "\<not> length (W ! m) \<le> d"
  have "in_trie P (take (Suc d) (W ! m))"
    using shapeD(4) [OF i(1) m] take_is_prefix [of "Suc d" "W ! m"] deep
    by (auto simp: in_trie_def intro: prefix_order.order_trans)
  then obtain c where "c < length H" "W ! c = take (Suc d) (W ! m)"
    using shapeD(2) [OF i(1)] trie_repD(1) [OF shapeD(1) [OF i(1)]] by (metis in_set_conv_nth mem_Collect_eq)
  then show False using i(8) [of c] deep by auto
qed

lemma link_queue_turn:
  assumes inv: "bfs_inv W P d (a # A) B H"
  shows "\<exists>H1 B1. link_queue ((a # A) @ B) H = link_queue (A @ B1) H1 \<and> length H1 = length H \<and> bfs_inv W P d A B1 H1
    \<and> pending_nodes W d A H1 \<subset> pending_nodes W d (a # A) H"
proof -
  obtain H1 where H1: "link_children a (children (H ! a)) H = Some H1" "length H1 = length H"
    "bfs_inv W P d A (B @ map snd (children (H ! a))) H1"
    using bfs_step [OF inv] by blast
  have "link_queue ((a # A) @ B) H = link_queue (A @ (B @ map snd (children (H ! a)))) H1"
    by (subst link_queue.simps) (simp add: H1(1))
  moreover have "a \<in> pending_nodes W d (a # A) H" "a \<notin> pending_nodes W d A H1"
    "pending_nodes W d A H1 \<subseteq> pending_nodes W d (a # A) H"
    using bfs_invD(3) [OF inv] bfs_invD(5) [OF inv, of a] by (auto simp: pending_nodes_def H1(2))
  ultimately show ?thesis using H1 by blast
qed

lemma finite_pending: "finite (pending_nodes W d A H)"
  by (simp add: pending_nodes_def)

lemma link_queue_ok:
  "bfs_inv W P d A B H \<Longrightarrow>
     \<exists>H'. link_queue (A @ B) H = Some H' \<and> length H' = length H \<and> shape H' W P \<and> (\<forall>m < length H. linked H' W P m)"
proof (induction "card (pending_nodes W d A H)" arbitrary: d A B H rule: less_induct)
  case less
  have next_turn: ?case if q: "A @ B = (a # A1) @ B1" and inv: "bfs_inv W P d1 (a # A1) B1 H"
    and sub: "pending_nodes W d1 (a # A1) H \<subseteq> pending_nodes W d A H" for a A1 B1 d1
  proof -
    obtain H1 B2 where H1: "link_queue (A @ B) H = link_queue (A1 @ B2) H1" "length H1 = length H" "bfs_inv W P d1 A1 B2 H1"
      "pending_nodes W d1 A1 H1 \<subset> pending_nodes W d1 (a # A1) H"
      using link_queue_turn [OF inv] unfolding q by blast
    have "card (pending_nodes W d1 A1 H1) < card (pending_nodes W d A H)"
      by (rule psubset_card_mono [OF finite_pending psubset_subset_trans [OF H1(4) sub]])
    from less(1) [OF this H1(3)] show ?thesis unfolding H1(1, 2) .
  qed
  show ?case
  proof (cases A)
    case (Cons a A1)
    then show ?thesis using next_turn [of a A1 B d] less(2) by simp
  next
    case Nil
    show ?thesis
    proof (cases B)
      case (Cons b B1)
      have "bfs_inv W P (Suc d) (b # B1) [] H" using bfs_switch less(2) Nil Cons by simp
      moreover have "pending_nodes W (Suc d) (b # B1) H \<subseteq> pending_nodes W d A H"
        using bfs_invD(5) [OF calculation] by (auto simp: pending_nodes_def)
      ultimately show ?thesis using next_turn [of b B1 "[]" "Suc d"] Nil Cons by simp
    next
      case B: Nil
      have "link_queue (A @ B) H = Some H" by (subst link_queue.simps) (simp add: Nil B)
      then show ?thesis using bfs_bottom bfs_invD(1) less(2) Nil B by blast
    qed
  qed
qed

lemma link_root_nth:
  "link_root H ! i = (if i < length H \<and> (i = 0 \<or> i \<in> snd ` set (children (H ! 0))) then (H ! i)\<lparr>fail_link := 0\<rparr> else H ! i)"
  "length (link_root H) = length H"
proof -
  have nth: "fold (\<lambda>(v, c) H. H[c := (H ! c)\<lparr>fail_link := 0\<rparr>]) cs G ! i =
      (if i < length G \<and> i \<in> snd ` set cs then (G ! i)\<lparr>fail_link := 0\<rparr> else G ! i)" for cs G
    by (induction cs arbitrary: G) (auto simp: nth_update_total split: if_splits)
  have len: "length (fold (\<lambda>(v, c) H. H[c := (H ! c)\<lparr>fail_link := 0\<rparr>]) cs G) = length G" for cs G
    by (induction cs arbitrary: G) auto
  show "link_root H ! i = (if i < length H \<and> (i = 0 \<or> i \<in> snd ` set (children (H ! 0))) then (H ! i)\<lparr>fail_link := 0\<rparr> else H ! i)"
    "length (link_root H) = length H"
    by (auto simp: link_root_def nth len nth_update_total)
qed

lemma buildFailureLinks_ok:
  assumes trie: "trie_of H W P" and ne: "[] \<notin> P"
  shows "\<exists>H'. buildFailureLinks H = Some H' \<and> shape H' W P \<and> (\<forall>m < length H'. linked H' W P m)"
proof -
  let ?H = "link_root H"
  note rep = trie [unfolded trie_of_def, THEN conjunct1]
  have same: "children (?H ! i) = children (H ! i)" "depth (?H ! i) = depth (H ! i)" "ownMatch (?H ! i) = ownMatch (H ! i)"
    "match_len (?H ! i) = match_len (H ! i)" for i
    by (simp_all add: link_root_nth)
  have len: "length ?H = length H" "(?H \<noteq> []) = (H \<noteq> [])" using link_root_nth(2) [of H] by auto
  have own: "ownMatch (H ! i) = (if W ! i \<in> P then length (W ! i) else 0)" "match_len (H ! i) = ownMatch (H ! i)"
    if "i < length H" for i using trie that by (auto simp: trie_of_def own_rep_def)
  have sh: "shape ?H W P"
    unfolding shape_def trie_rep_def same len
    using rep [unfolded trie_rep_def] trie [unfolded trie_of_def] own(1) by blast
  note ch = child_set [OF rep trie_repD(2) [OF rep]]
  have A: "snd ` set (children (H ! 0)) = {c. c < length H \<and> length (W ! c) = 1}"
    unfolding ch(1) trie_repD(3) [OF rep] by (auto simp: length_Suc_conv)
      (metis append_Nil append_butlast_last_id length_Suc_conv list.size(3))+
  have lk: "linked ?H W P m" if m: "m < length H" "length (W ! m) \<le> 1" for m
  proof -
    have "m = 0 \<or> m \<in> snd ` set (children (H ! 0))"
      unfolding A using m trie_rep_root [OF rep m(1)] by (cases "W ! m") auto
    then have "fail_link (?H ! m) = 0" using m(1) by (auto simp: link_root_nth)
    moreover have "longest_suffix (in_trie P) (tl (W ! m)) = []" "match_len (H ! m) = longest_match P (W ! m)"
      using m own [OF m(1)] ne by (cases "W ! m"; auto)+
    ultimately show ?thesis using trie_repD(2, 3) [OF rep] by (simp add: linked_def same len)
  qed
  have level: "\<exists>a \<in> snd ` set (children (H ! 0)). W ! a = butlast (W ! c)" if c: "c < length H" "length (W ! c) = Suc 1" for c
  proof -
    have "butlast (W ! c) \<in> set W" using c by (intro trie_repD(8) [OF rep]) auto
    then obtain a where "a < length H" "W ! a = butlast (W ! c)" using trie_repD(1) [OF rep] by (auto simp: in_set_conv_nth)
    then show ?thesis unfolding A using c by auto
  qed
  have "bfs_inv W P 1 (map snd (children (H ! 0))) [] ?H"
    unfolding bfs_inv_def len same set_map
    by (intro conjI sh) (use lk level own A ch(2) in auto)
  from link_queue_ok [OF this] show ?thesis unfolding buildFailureLinks_def by (auto simp: len)
qed

text \<open>C35:
  Building the automaton ends, and its links are the ones the reference describes: for any set of
  patterns that are not empty, the node of each word \<open>w\<close> has a failure link to the longest proper suffix
  of \<open>w\<close> that is a prefix of a pattern, its \<^verbatim>\<open>match\<close> is the length of the longest pattern that ends \<open>w\<close>, and
  following links on any byte leads to the longest suffix of \<open>w\<close> and that byte in the trie. The order in
  which maps are ranged over plays no part.\<close>

theorem failure_links_exact:
  assumes "[] \<notin> set ps"
  shows "\<exists>H W. buildFailureLinks (build_trie ps) = Some H \<and> length W = length H \<and> set W = {q. in_trie (set ps) q}
    \<and> (\<forall>n < length H. W ! fail_link (H ! n) = longest_suffix (in_trie (set ps)) (tl (W ! n))
        \<and> match_len (H ! n) = longest_match (set ps) (W ! n)
        \<and> (\<forall>v. \<exists>g. goto H v n = Some g \<and> W ! g = longest_suffix (in_trie (set ps)) (W ! n @ [v])))"
proof -
  obtain H W where H: "buildFailureLinks (build_trie ps) = Some H" "shape H W (set ps)" "\<forall>m < length H. linked H W (set ps) m"
    using buildFailureLinks_ok [OF _ assms] build_trie_trie by metis
  have "\<exists>g. goto H v n = Some g \<and> W ! g = longest_suffix (in_trie (set ps)) (W ! n @ [v])" if "n < length H" for n v
    using goto_ok [OF H(2) that] H(3) by blast
  then show ?thesis
    using H shapeD(2) [OF H(2)] trie_repD(1) [OF shapeD(1) [OF H(2)]] by (intro exI [of _ H] exI [of _ W]) (auto simp: linked_def)
qed

theorem failure_links_exact_witness:
  "\<exists>H W. buildFailureLinks (build_trie [[97, 98], [98]]) = Some H \<and> (\<exists>n < length H. W ! n = [97, 98 :: byte] \<and> W ! fail_link (H ! n) = [98])"
proof -
  have "[] \<notin> set [[97, 98], [98 :: byte]]" by simp
  from failure_links_exact [OF this] obtain H W where
    *: "buildFailureLinks (build_trie [[97, 98], [98]]) = Some H" "length W = length H" "set W = {q. in_trie (set [[97, 98], [98]]) q}"
    "\<forall>n < length H. W ! fail_link (H ! n) = longest_suffix (in_trie (set [[97, 98], [98]])) (tl (W ! n))"
    by blast
  have "[97, 98] \<in> set W" using *(3) by (simp add: in_trie_def)
  then obtain n where "n < length H" "W ! n = [97, 98]" using *(2) by (auto simp: in_set_conv_nth)
  moreover from this have "W ! fail_link (H ! n) = [98]" using *(4) by (simp add: in_trie_def)
  ultimately show ?thesis using *(1) by blast
qed

end
