(* ===== verification/Redact_Stream.thy ===== *)
theory Redact_Stream
  imports Redact_Trie
begin

text \<open>
  Package \<^verbatim>\<open>redact\<close>, third part (\<^verbatim>\<open>redact/redact.go\<close>): \<^verbatim>\<open>Stream\<close>, which redacts terminal output as it
  arrives in reads of any size. Every operation under the stream's mutex is one function; receivers
  are not nil. A result \<^const>\<open>None\<close> stands for a loop that does not end or a slice out of range; it is
  proved never to occur. The reference redaction works on words alone, without trie and links.
\<close>

subsection \<open>The stream\<close>

record stream =
  st_nodes :: "trie_node list"
  st_state :: nat
  st_patterns :: "bytes list"
  st_pending :: bytes
  st_closed :: bool

definition NewStream :: "(bytes \<Rightarrow> bytes) \<Rightarrow> bytes list \<Rightarrow> stream result option" where
  "NewStream sha256 secrets =
     (case derivePatterns sha256 secrets of
        Inl e \<Rightarrow> Some (Inl e)
      | Inr patterns \<Rightarrow>
          (case buildFailureLinks (build_trie patterns) of
             None \<Rightarrow> None
           | Some H \<Rightarrow> Some (Inr \<lparr>st_nodes = H, st_state = 0, st_patterns = patterns, st_pending = [], st_closed = False\<rparr>)))"

text \<open>Emit what precedes a match of the given length at the end of the pending bytes, then the replacement.\<close>

definition redact_match :: "nat \<Rightarrow> stream \<Rightarrow> (bytes \<times> stream) option" where
  "redact_match m s =
     (if length (st_pending s) < m then None
      else Some (take (length (st_pending s) - m) (st_pending s) @ Replacement, s\<lparr>st_pending := [], st_state := 0\<rparr>))"

text \<open>The two parts of the loop body of \<^verbatim>\<open>processLocked\<close>: a held match that does not continue, then the byte.\<close>

definition release_held :: "byte \<Rightarrow> stream \<Rightarrow> (bytes \<times> stream) option" where
  "release_held v s =
     (let node = st_nodes s ! st_state s in
      if ownMatch node > 0 \<and> length (children node) > 0 \<and> child (st_nodes s) (st_state s) v = None
      then redact_match (ownMatch node) s else Some ([], s))"

definition advance :: "byte \<Rightarrow> stream \<Rightarrow> (bytes \<times> stream) option" where
  "advance v s =
     (case goto (st_nodes s) v (st_state s) of
        None \<Rightarrow> None
      | Some n \<Rightarrow>
          (let s1 = s\<lparr>st_pending := st_pending s @ [v], st_state := n\<rparr>; node = st_nodes s ! n in
           if match_len node > 0 \<and> \<not> (ownMatch node = match_len node \<and> length (children node) > 0)
           then redact_match (match_len node) s1
           else (let safe = length (st_pending s1) - depth node in
                 Some (take safe (st_pending s1), s1\<lparr>st_pending := drop safe (st_pending s1)\<rparr>))))"

definition process_byte :: "byte \<Rightarrow> stream \<Rightarrow> (bytes \<times> stream) option" where
  "process_byte v s =
     (case release_held v s of
        None \<Rightarrow> None
      | Some (o1, s1) \<Rightarrow> (case advance v s1 of None \<Rightarrow> None | Some (o2, s2) \<Rightarrow> Some (o1 @ o2, s2)))"

fun processLocked :: "bytes \<Rightarrow> stream \<Rightarrow> (bytes \<times> stream) option" where
  "processLocked [] s = Some ([], s)"
| "processLocked (v # vs) s =
     (case process_byte v s of
        None \<Rightarrow> None
      | Some (o1, s1) \<Rightarrow> (case processLocked vs s1 of None \<Rightarrow> None | Some (o2, s2) \<Rightarrow> Some (o1 @ o2, s2)))"

definition Process :: "bytes \<Rightarrow> stream \<Rightarrow> (bytes \<times> stream) option" where
  "Process input s = (if st_closed s then Some (Replacement, s) else processLocked input s)"

definition Flush :: "stream \<Rightarrow> (bytes \<times> stream) option" where
  "Flush s =
     (if st_closed s then Some ([], s)
      else if ownMatch (st_nodes s ! st_state s) > 0 then redact_match (ownMatch (st_nodes s ! st_state s)) s
      else Some (st_pending s, s\<lparr>st_pending := [], st_state := 0\<rparr>))"

definition stream_Close :: "stream \<Rightarrow> stream" where
  "stream_Close s =
     (if st_closed s then s
      else s\<lparr>st_pending := [], st_patterns := [], st_nodes := [], st_state := 0, st_closed := True\<rparr>)"

text \<open>A stream fed in reads, then flushed: the text its reader sees.\<close>

fun feed :: "bytes list \<Rightarrow> stream \<Rightarrow> (bytes \<times> stream) option" where
  "feed [] s = Some ([], s)"
| "feed (c # cs) s =
     (case Process c s of
        None \<Rightarrow> None
      | Some (o1, s1) \<Rightarrow> (case feed cs s1 of None \<Rightarrow> None | Some (o2, s2) \<Rightarrow> Some (o1 @ o2, s2)))"

definition redact_chunks :: "bytes list \<Rightarrow> stream \<Rightarrow> bytes option" where
  "redact_chunks cs s =
     (case feed cs s of
        None \<Rightarrow> None
      | Some (o1, s1) \<Rightarrow> (case Flush s1 of None \<Rightarrow> None | Some (o2, s2) \<Rightarrow> Some (o1 @ o2)))"

subsection \<open>The reference redaction\<close>

text \<open>
  The state is the word \<open>q\<close> read since the last output that may still begin a pattern. A complete
  pattern that a longer one extends is held.
\<close>

definition has_ext :: "bytes set \<Rightarrow> bytes \<Rightarrow> bool" where
  "has_ext P q \<longleftrightarrow> (\<exists>p \<in> P. strict_prefix q p)"

definition ref_advance :: "bytes set \<Rightarrow> bytes \<Rightarrow> byte \<Rightarrow> bytes \<times> bytes" where
  "ref_advance P q v =
     (let w = q @ [v]; q1 = longest_suffix (in_trie P) w; m = longest_match P q1
      in if m > 0 \<and> \<not> (q1 \<in> P \<and> has_ext P q1) then (take (length w - m) w @ Replacement, [])
         else (take (length w - length q1) w, q1))"

definition ref_byte :: "bytes set \<Rightarrow> bytes \<Rightarrow> byte \<Rightarrow> bytes \<times> bytes" where
  "ref_byte P q v =
     (if q \<in> P \<and> has_ext P q \<and> \<not> in_trie P (q @ [v])
      then (case ref_advance P [] v of (o2, q2) \<Rightarrow> (Replacement @ o2, q2))
      else ref_advance P q v)"

fun ref_redact :: "bytes set \<Rightarrow> bytes \<Rightarrow> bytes \<Rightarrow> bytes" where
  "ref_redact P q [] = (if q \<in> P then Replacement else q)"
| "ref_redact P q (v # vs) = (case ref_byte P q v of (o1, q1) \<Rightarrow> o1 @ ref_redact P q1 vs)"

subsection \<open>The stream computes the reference\<close>

definition stream_ok :: "bytes list \<Rightarrow> bytes set \<Rightarrow> stream \<Rightarrow> bool" where
  "stream_ok W P s \<longleftrightarrow> shape (st_nodes s) W P \<and> (\<forall>m < length (st_nodes s). linked (st_nodes s) W P m)
     \<and> st_state s < length (st_nodes s) \<and> st_pending s = W ! st_state s \<and> \<not> st_closed s \<and> [] \<notin> P"

lemma stream_okD:
  assumes "stream_ok W P s"
  shows "shape (st_nodes s) W P" "m < length (st_nodes s) \<Longrightarrow> linked (st_nodes s) W P m"
    "st_state s < length (st_nodes s)" "st_pending s = W ! st_state s" "\<not> st_closed s" "[] \<notin> P"
  using assms by (auto simp: stream_ok_def)

lemma children_ext:
  assumes "shape H W P" "n < length H"
  shows "0 < length (children (H ! n)) \<longleftrightarrow> has_ext P (W ! n)"
proof -
  have "children (H ! n) \<noteq> [] \<longleftrightarrow> (\<exists>v. child H n v \<noteq> None)" by (cases "children (H ! n)") auto
  also have "\<dots> \<longleftrightarrow> (\<exists>v. in_trie P (W ! n @ [v]))" using shapeD(5) [OF assms] by simp
  also have "\<dots> \<longleftrightarrow> has_ext P (W ! n)"
    unfolding has_ext_def in_trie_def
    by (auto simp: strict_prefix_def prefix_def) (metis append_Nil2 append.assoc append_Cons append_Nil neq_Nil_conv)
  finally show ?thesis by simp
qed

lemma own_pattern:
  assumes "shape H W P" "n < length H" "[] \<notin> P"
  shows "0 < ownMatch (H ! n) \<longleftrightarrow> W ! n \<in> P" "W ! n \<in> P \<Longrightarrow> ownMatch (H ! n) = length (W ! n)"
  using shapeD(3) [OF assms(1, 2)] assms(3) by (cases "W ! n"; auto split: if_splits)+

lemma drop_suffix: "suffix q w \<Longrightarrow> drop (length w - length q) w = q"
  by (auto simp: suffix_def)

lemma stream_reset: "stream_ok W P s \<Longrightarrow> stream_ok W P (s\<lparr>st_pending := [], st_state := 0\<rparr>)"
  using trie_repD(2, 3) [OF shapeD(1)] by (auto simp: stream_ok_def)

lemma advance_ok:
  assumes ok: "stream_ok W P s"
  shows "\<exists>out s'. advance v s = Some (out, s') \<and> stream_ok W P s' \<and> ref_advance P (st_pending s) v = (out, st_pending s')"
proof -
  note i = stream_okD [OF ok]
  let ?H = "st_nodes s" and ?w = "st_pending s @ [v]"
  obtain n where n: "goto ?H v (st_state s) = Some n" "n < length ?H" "W ! n = longest_suffix (in_trie P) ?w"
    using goto_ok [OF i(1, 3)] i(2, 4) by metis
  have m: "match_len (?H ! n) = longest_match P (W ! n)" using i(2) [OF n(2)] by (simp add: linked_def)
  have held: "ownMatch (?H ! n) = match_len (?H ! n) \<longleftrightarrow> W ! n \<in> P" if "match_len (?H ! n) > 0"
    using that own_pattern [OF i(1) n(2) i(6)] longest_match_pattern [of "W ! n" P] by (auto simp: m)
  have dep: "depth (?H ! n) = length (W ! n)" by (rule trie_repD(6) [OF shapeD(1) [OF i(1)] n(2)])
  have le: "longest_match P (W ! n) \<le> length ?w" "length (W ! n) \<le> length ?w"
    using longest_match_le [of P "W ! n"] longest_suffix_length [of "in_trie P" ?w] by (auto simp: n(3))
  have keep: "drop (length ?w - length (W ! n)) ?w = W ! n"
    unfolding n(3) by (rule drop_suffix [OF longest_suffix_suffix])
  let ?s1 = "s\<lparr>st_pending := ?w, st_state := n\<rparr>"
  show ?thesis
  proof (cases "longest_match P (W ! n) > 0 \<and> \<not> (W ! n \<in> P \<and> has_ext P (W ! n))")
    case True
    have "advance v s = redact_match (match_len (?H ! n)) ?s1"
      using True held children_ext [OF i(1) n(2)] by (auto simp: advance_def n(1) Let_def m)
    also have "\<dots> = Some (take (length ?w - longest_match P (W ! n)) ?w @ Replacement, s\<lparr>st_pending := [], st_state := 0\<rparr>)"
      using le by (simp add: redact_match_def m)
    finally show ?thesis using True stream_reset [OF ok] by (simp add: ref_advance_def n(3) [symmetric] Let_def)
  next
    case False
    then have "advance v s = Some (take (length ?w - length (W ! n)) ?w, ?s1\<lparr>st_pending := W ! n\<rparr>)"
      using held children_ext [OF i(1) n(2)] keep by (auto simp: advance_def n(1) Let_def m dep)
    moreover have "stream_ok W P (?s1\<lparr>st_pending := W ! n\<rparr>)" using ok n(2) by (simp add: stream_ok_def)
    moreover have "ref_advance P (st_pending s) v = (take (length ?w - length (W ! n)) ?w, W ! n)"
      using False by (auto simp: ref_advance_def n(3) [symmetric] Let_def)
    ultimately show ?thesis by simp
  qed
qed

lemma process_byte_ok:
  assumes ok: "stream_ok W P s"
  shows "\<exists>out s'. process_byte v s = Some (out, s') \<and> stream_ok W P s' \<and> ref_byte P (st_pending s) v = (out, st_pending s')"
proof (cases "st_pending s \<in> P \<and> has_ext P (st_pending s) \<and> \<not> in_trie P (st_pending s @ [v])")
  note i = stream_okD [OF ok]
  have guard: "(ownMatch (st_nodes s ! st_state s) > 0 \<and> length (children (st_nodes s ! st_state s)) > 0
      \<and> child (st_nodes s) (st_state s) v = None) \<longleftrightarrow>
      st_pending s \<in> P \<and> has_ext P (st_pending s) \<and> \<not> in_trie P (st_pending s @ [v])"
    unfolding i(4) using own_pattern(1) [OF i(1, 3, 6)] children_ext [OF i(1, 3)] shapeD(5) [OF i(1, 3)] by simp
  {
    case True
    then have "release_held v s = Some (Replacement, s\<lparr>st_pending := [], st_state := 0\<rparr>)"
      unfolding release_held_def Let_def guard using own_pattern(2) [OF i(1, 3, 6)] i(4) by (simp add: redact_match_def)
    moreover obtain out s' where "advance v (s\<lparr>st_pending := [], st_state := 0\<rparr>) = Some (out, s')" "stream_ok W P s'"
      "ref_advance P [] v = (out, st_pending s')"
      using advance_ok [OF stream_reset [OF ok], of v] by auto
    ultimately show ?thesis using True by (simp add: process_byte_def ref_byte_def)
  next
    case False
    then have "release_held v s = Some ([], s)" unfolding release_held_def Let_def guard by auto
    then show ?thesis using False advance_ok [OF ok, of v] by (auto simp: process_byte_def ref_byte_def)
  }
qed

lemma processLocked_ok:
  "stream_ok W P s \<Longrightarrow> \<exists>out s'. processLocked vs s = Some (out, s') \<and> stream_ok W P s'
     \<and> (\<forall>rest. ref_redact P (st_pending s) (vs @ rest) = out @ ref_redact P (st_pending s') rest)"
proof (induction vs arbitrary: s)
  case (Cons v vs)
  obtain o1 s1 where 1: "process_byte v s = Some (o1, s1)" "stream_ok W P s1" "ref_byte P (st_pending s) v = (o1, st_pending s1)"
    using process_byte_ok [OF Cons.prems] by blast
  with Cons.IH [OF 1(2)] show ?case by auto
qed auto

lemma feed_ok:
  "stream_ok W P s \<Longrightarrow> \<exists>out s'. feed cs s = Some (out, s') \<and> stream_ok W P s'
     \<and> (\<forall>rest. ref_redact P (st_pending s) (concat cs @ rest) = out @ ref_redact P (st_pending s') rest)"
proof (induction cs arbitrary: s)
  case (Cons c cs)
  obtain o1 s1 where 1: "processLocked c s = Some (o1, s1)" "stream_ok W P s1"
    "\<forall>rest. ref_redact P (st_pending s) (c @ rest) = o1 @ ref_redact P (st_pending s1) rest"
    using processLocked_ok [OF Cons.prems] by blast
  with Cons.IH [OF 1(2)] show ?case using stream_okD(5) [OF Cons.prems] by (auto simp: Process_def)
qed auto

lemma redact_chunks_ok:
  assumes ok: "stream_ok W P s"
  shows "redact_chunks cs s = Some (ref_redact P (st_pending s) (concat cs))"
proof -
  obtain out s' where f: "feed cs s = Some (out, s')" "stream_ok W P s'"
    "\<forall>rest. ref_redact P (st_pending s) (concat cs @ rest) = out @ ref_redact P (st_pending s') rest"
    using feed_ok [OF ok] by blast
  note i = stream_okD [OF f(2)]
  have "\<exists>s2. Flush s' = Some (ref_redact P (st_pending s') [], s2)"
    using own_pattern [OF i(1, 3, 6)] i(4, 5) by (auto simp: Flush_def redact_match_def)
  then show ?thesis using f(1) f(3) [rule_format, of "[]"] by (auto simp: redact_chunks_def)
qed

text \<open>A new stream starts in the empty state.\<close>

lemma NewStream_ok:
  assumes "derivePatterns sha256 secrets = Inr ps"
  shows "\<exists>s W. NewStream sha256 secrets = Some (Inr s) \<and> stream_ok W (set ps) s \<and> st_pending s = []"
proof -
  have "\<forall>p \<in> set ps. minimumSecretBytes \<le> length p" using derivePatterns_set [OF assms] by simp
  then have ne: "[] \<notin> set ps" by (auto simp: minimumSecretBytes_def)
  obtain W0 where "trie_of (build_trie ps) W0 (set ps)" using build_trie_trie by blast
  then obtain H where H: "buildFailureLinks (build_trie ps) = Some H" "shape H W0 (set ps)" "\<forall>m < length H. linked H W0 (set ps) m"
    using buildFailureLinks_ok ne by blast
  then show ?thesis
    using ne trie_repD(2, 3) [OF shapeD(1) [OF H(2)]] by (intro exI) (auto simp: NewStream_def assms stream_ok_def)
qed

text \<open>C11:
  A redacting stream returns on every input and its output does not depend on how the terminal cuts
  the text into reads: for any secrets the bounds accept, feeding any reads and flushing yields the
  reference redaction of the concatenated text, which scans words with neither trie nor failure links.\<close>

theorem stream_redacts_reference:
  assumes "derivePatterns sha256 secrets = Inr ps"
  shows "\<exists>s. NewStream sha256 secrets = Some (Inr s)
    \<and> (\<forall>chunks. redact_chunks chunks s = Some (ref_redact (set ps) [] (concat chunks)))"
  using NewStream_ok [OF assms] redact_chunks_ok by metis

subsection \<open>No secret survives\<close>

text \<open>The text cut at the redacted places: pieces \<open>ks\<close> that are kept, between hidden words \<open>hs\<close>.\<close>

fun weave :: "bytes list \<Rightarrow> bytes list \<Rightarrow> bytes" where
  "weave (k # ks) (h # hs) = k @ h @ weave ks hs"
| "weave ks _ = concat ks"

text \<open>Whenever a prefix of a pattern extends another pattern, it is a pattern itself.\<close>

definition extension_closed :: "bytes set \<Rightarrow> bool" where
  "extension_closed P \<longleftrightarrow> (\<forall>p \<in> P. \<forall>q \<in> P. strict_prefix p q \<longrightarrow> take (Suc (length p)) q \<in> P)"

lemma extension_closedD: "extension_closed P \<Longrightarrow> p \<in> P \<Longrightarrow> in_trie P (p @ [v]) \<Longrightarrow> p @ [v] \<in> P"
  unfolding extension_closed_def in_trie_def by (fastforce simp: prefix_def strict_prefix_def)

definition clean :: "bytes set \<Rightarrow> bytes \<Rightarrow> bool" where
  "clean P k \<longleftrightarrow> (\<forall>p \<in> P. \<not> sublist p k)"

lemma clean_prefix: "clean P k \<Longrightarrow> prefix k' k \<Longrightarrow> clean P k'"
  unfolding clean_def using sublist_order.order_trans prefix_imp_sublist by metis

lemma clean_Nil: "[] \<notin> P \<Longrightarrow> clean P []"
  by (auto simp: clean_def)

lemma clean_snoc:
  assumes "[] \<notin> P" "clean P k" "longest_match P (k @ [v]) = 0"
  shows "clean P (k @ [v])"
  using assms longest_match_pos [OF assms(1), of "k @ [v]"] unfolding clean_def sublist_snoc by auto

lemma longest_match_in: "0 < longest_match P w \<Longrightarrow> drop (length w - longest_match P w) w \<in> P"
proof (induction w)
  case (Cons b w)
  then show ?case using longest_match_le [of P w] by (auto simp: Suc_diff_le)
qed simp

definition cut :: "bytes set \<Rightarrow> bytes \<Rightarrow> bytes \<Rightarrow> bool" where
  "cut P text output \<longleftrightarrow> (\<exists>ks hs. length ks = Suc (length hs) \<and> output = join Replacement ks \<and> text = weave ks hs
     \<and> set hs \<subseteq> P \<and> (\<forall>k \<in> set ks. clean P k))"

lemma cut_one: "clean P k \<Longrightarrow> cut P k k"
  unfolding cut_def by (intro exI [of _ "[k]"] exI [of _ "[]"]) simp

lemma cut_hide:
  assumes "cut P text output" "clean P k" "h \<in> P"
  shows "cut P (k @ h @ text) (k @ Replacement @ output)"
proof -
  obtain ks hs where "length ks = Suc (length hs)" "output = join Replacement ks" "text = weave ks hs"
    "set hs \<subseteq> P" "\<forall>k \<in> set ks. clean P k"
    using assms(1) by (auto simp: cut_def)
  then show ?thesis
    unfolding cut_def using assms(2, 3)
    by (intro exI [of _ "k # ks"] exI [of _ "h # hs"]) (cases ks; auto)
qed

text \<open>
  Bytes \<open>k\<close> already emitted since the last replacement, and the word \<open>q\<close> still pending: while \<open>q\<close> is no
  pattern, nothing so far contains one; a held pattern is preceded by clean text.
\<close>

definition pending_clean :: "bytes set \<Rightarrow> bytes \<Rightarrow> bytes \<Rightarrow> bool" where
  "pending_clean P k q \<longleftrightarrow> q = longest_suffix (in_trie P) (k @ q)
     \<and> (if q \<in> P then clean P k \<and> has_ext P q else clean P (k @ q))"

lemma pending_clean_Nil: "[] \<notin> P \<Longrightarrow> pending_clean P [] []"
  by (simp add: pending_clean_def clean_Nil)

lemma ref_advance_clean:
  assumes ext: "extension_closed P" and ne: "[] \<notin> P" and inv: "pending_clean P k q" and go: "q \<in> P \<longrightarrow> in_trie P (q @ [v])"
  shows "(\<exists>e h. ref_advance P q v = (e @ Replacement, []) \<and> q @ [v] = e @ h \<and> h \<in> P \<and> clean P (k @ e))
    \<or> (\<exists>e q'. ref_advance P q v = (e, q') \<and> q @ [v] = e @ q' \<and> pending_clean P (k @ e) q')"
proof -
  let ?w = "q @ [v]"
  define q' where "q' = longest_suffix (in_trie P) ?w"
  have state: "longest_suffix (in_trie P) (k @ ?w) = q'"
    using trie_state_snoc [of P "k @ q" v] inv by (simp add: q'_def pending_clean_def)
  have m: "longest_match P (k @ ?w) = longest_match P q'" "longest_match P ?w = longest_match P q'"
    using longest_match_state [of P "in_trie P"] in_trie_pattern by (metis state, metis q'_def)
  define e where "e = take (length ?w - length q') ?w"
  have cut_w: "?w = e @ q'"
    using drop_suffix [OF longest_suffix_suffix [of "in_trie P" ?w]] unfolding e_def q'_def by (metis append_take_drop_id)
  have pre: "clean P (k @ take i ?w)" if "i \<le> length q" "q \<notin> P" for i
  proof (rule clean_prefix)
    show "clean P (k @ q)" using inv that(2) by (simp add: pending_clean_def)
    show "prefix (k @ take i ?w) (k @ q)" using that(1) by (simp add: take_is_prefix)
  qed
  have whole: "q' = ?w \<and> e = []" if "q \<in> P"
    using mp [OF go that] unfolding q'_def e_def by (simp add: longest_suffix_id)
  show ?thesis
  proof (cases "0 < longest_match P q' \<and> \<not> (q' \<in> P \<and> has_ext P q')")
    case True
    let ?m = "longest_match P q'"
    have "ref_advance P q v = (take (length ?w - ?m) ?w @ Replacement, [])"
      using True by (simp add: ref_advance_def Let_def q'_def [symmetric])
    moreover have "drop (length ?w - ?m) ?w \<in> P" using longest_match_in [of P ?w] True m(2) by simp
    moreover have "clean P (k @ take (length ?w - ?m) ?w)"
    proof (cases "q \<in> P")
      case q: True
      then have "?w \<in> P" using ext go extension_closedD by blast
      then have "?m = length ?w" using longest_match_pattern m(2) by metis
      then show ?thesis using inv q by (simp add: pending_clean_def)
    next
      case False
      then show ?thesis using True by (intro pre) auto
    qed
    ultimately show ?thesis by (metis append_take_drop_id)
  next
    case False
    then have adv: "ref_advance P q v = (e, q')"
      by (auto simp: ref_advance_def Let_def q'_def [symmetric] e_def)
    have "pending_clean P (k @ e) q'"
    proof (cases "q' \<in> P")
      case q': True
      then have "has_ext P q'" using False longest_match_pattern [OF q'] ne by (cases q') auto
      moreover have "clean P (k @ e)"
      proof (cases "q \<in> P")
        case True
        then show ?thesis using whole inv by (simp add: pending_clean_def)
      next
        case q: False
        have "q' \<noteq> []" using q' ne by auto
        then show ?thesis unfolding e_def using q by (intro pre) (cases q'; auto)+
      qed
      ultimately show ?thesis using q' state cut_w by (simp add: pending_clean_def)
    next
      case q': False
      then have none: "longest_match P (k @ ?w) = 0" using False m(1) by auto
      have "q \<notin> P" using q' whole go extension_closedD [OF ext] by metis
      then have "clean P (k @ ?w)" using clean_snoc [OF ne _ , of "k @ q" v] inv none by (simp add: pending_clean_def)
      then show ?thesis using q' state cut_w by (simp add: pending_clean_def)
    qed
    with adv cut_w show ?thesis by blast
  qed
qed

lemma ref_redact_clean:
  assumes "extension_closed P" "[] \<notin> P"
  shows "pending_clean P k q \<Longrightarrow> cut P (k @ q @ vs) (k @ ref_redact P q vs)"
proof (induction vs arbitrary: k q)
  case Nil
  then show ?case
    using cut_hide [of P "[]" "[]" k q] cut_one clean_Nil [OF assms(2)] by (auto simp: pending_clean_def)
next
  case (Cons v vs)
  have step: "cut P (k @ q @ v # vs) (k @ (case ref_advance P q v of (o1, q1) \<Rightarrow> o1 @ ref_redact P q1 vs))"
    if inv: "pending_clean P k q" and go: "q \<in> P \<longrightarrow> in_trie P (q @ [v])" for k q
    using ref_advance_clean [OF assms inv go]
  proof (elim disjE exE conjE)
    fix e h assume a: "ref_advance P q v = (e @ Replacement, [])" "q @ [v] = e @ h" "h \<in> P" "clean P (k @ e)"
    have "cut P vs (ref_redact P [] vs)" using Cons.IH [OF pending_clean_Nil [OF assms(2)]] by simp
    from cut_hide [OF this a(4, 3)] show ?thesis using a(1, 2) by (metis append.assoc append_Cons append_Nil case_prod_conv)
  next
    fix e q' assume a: "ref_advance P q v = (e, q')" "q @ [v] = e @ q'" "pending_clean P (k @ e) q'"
    from Cons.IH [OF a(3)] show ?thesis using a(1, 2) by (metis append.assoc append_Cons append_Nil case_prod_conv)
  qed
  show ?case
  proof (cases "q \<in> P \<and> has_ext P q \<and> \<not> in_trie P (q @ [v])")
    case True
    obtain o1 q1 where adv: "ref_advance P [] v = (o1, q1)" by fastforce
    have "cut P (v # vs) (o1 @ ref_redact P q1 vs)"
      using step [OF pending_clean_Nil [OF assms(2)]] assms(2) adv by simp
    moreover have "clean P k" using True Cons.prems by (simp add: pending_clean_def)
    ultimately show ?thesis using True cut_hide [of P "v # vs" "o1 @ ref_redact P q1 vs" k q] adv by (simp add: ref_byte_def)
  next
    case False
    then have "q \<in> P \<longrightarrow> in_trie P (q @ [v])" using Cons.prems by (auto simp: pending_clean_def)
    from step [OF Cons.prems this] show ?thesis using False by (auto simp: ref_byte_def split: prod.splits)
  qed
qed

text \<open>C4:
  If no derived form extends another by two or more bytes without the form in between, a redacting
  stream hides every occurrence: the text is cut into pieces and hidden words, every hidden word is a
  derived form, what the reader sees is the pieces joined by the replacement text, and no piece
  contains any derived form of any secret, however the terminal cuts its output into reads.\<close>

theorem stream_hides_patterns:
  assumes "derivePatterns sha256 secrets = Inr ps" and "extension_closed (set ps)"
  shows "\<exists>s. NewStream sha256 secrets = Some (Inr s) \<and> (\<forall>chunks. \<exists>ks hs. length ks = Suc (length hs)
    \<and> concat chunks = weave ks hs \<and> redact_chunks chunks s = Some (join Replacement ks)
    \<and> set hs \<subseteq> set ps \<and> (\<forall>k \<in> set ks. \<forall>p \<in> set ps. \<not> sublist p k))"
proof -
  obtain s W where s: "NewStream sha256 secrets = Some (Inr s)" "stream_ok W (set ps) s" "st_pending s = []"
    using NewStream_ok [OF assms(1)] by blast
  have "cut (set ps) input (ref_redact (set ps) [] input)" for input
    using ref_redact_clean [OF assms(2) stream_okD(6) [OF s(2)] pending_clean_Nil [OF stream_okD(6) [OF s(2)]]] by simp
  then show ?thesis
    using s redact_chunks_ok [OF s(2)] by (intro exI [of _ s] conjI allI) (fastforce simp: cut_def clean_def)+
qed

text \<open>Without that condition a secret can survive. The padded and unpadded base64 forms of a secret of
  four bytes differ by two bytes: when the terminal prints the unpadded form, one \<^verbatim>\<open>=\<close> and another
  character, the stream drops the complete match it held and emits the form in clear.\<close>

theorem stream_leaks_unpadded_base64:
  "\<exists>s. NewStream sha256 [example_secret] = Some (Inr s)
    \<and> redact_chunks [map chr ''YWJjZA=!''] s = Some (map chr ''YWJjZA=!'')
    \<and> map chr ''YWJjZA'' \<in> set (encodedForms example_secret)"
proof -
  let ?P = "set [[54, 49, 54, 50, 54, 51, 54, 52], [89, 87, 74, 106, 90, 65, 61, 61], [89, 87, 74, 106, 90, 65], [97, 98, 99, 100 :: byte]]"
  obtain s W where s: "NewStream sha256 [example_secret] = Some (Inr s)" "stream_ok W ?P s" "st_pending s = []"
    using NewStream_ok [OF example_patterns [unfolded redact_New_def]] by blast
  have "ref_redact ?P [] (map chr ''YWJjZA=!'') = map chr ''YWJjZA=!''"
    by code_simp
  moreover have "map chr ''YWJjZA'' \<in> set (encodedForms example_secret)"
    by (simp add: example_forms Let_def chr_def)
  ultimately show ?thesis using s redact_chunks_ok [OF s(2), of "[map chr ''YWJjZA=!'']"] by simp
qed

subsection \<open>Witnesses\<close>

theorem stream_redacts_reference_witness:
  "\<exists>s. NewStream (\<lambda>b. b) [example_secret] = Some (Inr s)
    \<and> redact_chunks [map chr ''abc'', map chr ''de''] s = Some (map chr ''[REDACTED]e'')"
proof -
  have "ref_redact (set [[54, 49, 54, 50, 54, 51, 54, 52], [89, 87, 74, 106, 90, 65, 61, 61], [89, 87, 74, 106, 90, 65],
      [97, 98, 99, 100 :: byte]]) [] (map chr ''abcde'') = map chr ''[REDACTED]e''"
    by code_simp
  with stream_redacts_reference [OF example_patterns [unfolded redact_New_def], of "\<lambda>b. b"] show ?thesis by fastforce
qed

definition longer_secret :: bytes where
  "longer_secret = map chr ''abcde''"

lemma longer_forms:
  "encodedForms longer_secret =
     (let raw = [97, 98, 99, 100, 101]; hex = [54, 49, 54, 50, 54, 51, 54, 52, 54, 53];
          std = [89, 87, 74, 106, 90, 71, 85, 61]; b64 = [89, 87, 74, 106, 90, 71, 85]
      in [raw, hex, hex, std, std, std, std, std, b64, std, b64, raw, raw, raw, raw])"
  by code_simp

lemma longer_patterns:
  "derivePatterns sha256 [longer_secret] = Inr [[54, 49, 54, 50, 54, 51, 54, 52, 54, 53],
     [89, 87, 74, 106, 90, 71, 85, 61], [89, 87, 74, 106, 90, 71, 85], [97, 98, 99, 100, 101]]"
  unfolding derivePatterns_hash [of sha256 _ "\<lambda>_. []"]
  by (simp add: longer_forms derive_eval) (simp add: longer_secret_def chr_def)

lemma longer_closed:
  "extension_closed (set [[54, 49, 54, 50, 54, 51, 54, 52, 54, 53],
     [89, 87, 74, 106, 90, 71, 85, 61], [89, 87, 74, 106, 90, 71, 85], [97, 98, 99, 100, 101 :: byte]])"
  by code_simp

theorem stream_hides_patterns_witness:
  "\<exists>s. NewStream (\<lambda>b. b) [longer_secret] = Some (Inr s) \<and> (\<exists>ks. redact_chunks [map chr ''token=YWJ'', map chr ''jZGU=''] s
    = Some (join Replacement ks) \<and> (\<forall>k \<in> set ks. \<not> sublist (map chr ''YWJjZGU'') k))"
proof -
  have "map chr ''YWJjZGU'' = [89, 87, 74, 106, 90, 71, 85 :: byte]" by (simp add: chr_def)
  with stream_hides_patterns [OF longer_patterns longer_closed, of "\<lambda>b. b"] show ?thesis by fastforce
qed

end
