(* ===== verification/Maintenance.thy ===== *)
theory Maintenance
  imports Workspace_Theorems Go_Base64
begin

text \<open>
  The maintenance coordinator (\<^verbatim>\<open>maintenance/coordinator.go\<close>) over its durable store
  (\<^verbatim>\<open>postgres/maintenance.go\<close>) and the workspace service. A run goes from scheduled through warning
  and draining to ready for update, is then advanced by root-owned tooling, and ends completed,
  failed or cancelled. Its world is the service's world with the table of runs, the maintenance
  activities and what the recorder counted. The environment of the service answers the
  coordinator's calls as well; before each of its interactions while it drains, any operations of
  the service that other requests ask for may run.
\<close>

subsection \<open>Runs and their store\<close>

datatype maintenance_state = StateScheduled | StateWarning | StateDraining | StateReadyForUpdate
  | StateUpdating | StateRebootRequired | StateVerifying | StateCompleted | StateFailed | StateCancelled

record maintenance_run =
  run_ID :: string
  run_OwnerID :: string
  run_State :: maintenance_state
  run_Urgent :: bool
  run_BestEffort :: bool
  run_ScheduledFor :: time
  run_WarningAt :: time
  run_CreatedAt :: time
  run_UpdatedAt :: time
  run_StartedAt :: "time option"
  run_CompletedAt :: "time option"
  run_CheckpointedWorkspaces :: int
  run_DrainedWorkspaces :: int
  run_FailedWorkspaces :: int
  run_RebootRequired :: bool
  run_Message :: string

fun terminal_state :: "maintenance_state \<Rightarrow> bool" where
  "terminal_state StateCompleted = True"
| "terminal_state StateFailed = True"
| "terminal_state StateCancelled = True"
| "terminal_state _ = False"

definition run_Active :: "maintenance_run \<Rightarrow> bool" where
  "run_Active r \<longleftrightarrow> \<not> terminal_state (run_State r)"

definition before_option :: "time option \<Rightarrow> time \<Rightarrow> bool" where
  "before_option x t \<longleftrightarrow> (case x of None \<Rightarrow> False | Some y \<Rightarrow> y < t)"

text \<open>Every value of the state type is one of the named constants, so \<^verbatim>\<open>validMaintenanceState\<close> holds.\<close>

definition validMaintenanceRun :: "maintenance_run \<Rightarrow> goerr option" where
  "validMaintenanceRun v =
     (if length (run_ID v) < 8 \<or> length (run_ID v) > 80 \<or> run_OwnerID v = []
         \<or> run_ScheduledFor v = 0 \<or> run_WarningAt v = 0 \<or> run_CreatedAt v = 0 \<or> run_UpdatedAt v < run_CreatedAt v
         \<or> run_ScheduledFor v < run_WarningAt v \<or> run_CheckpointedWorkspaces v < 0 \<or> run_DrainedWorkspaces v < 0
         \<or> run_FailedWorkspaces v < 0 \<or> length (run_Message v) > 512 \<or> CHR 0x00 \<in> set (run_Message v)
         \<or> run_Urgent v \<and> \<not> run_BestEffort v
      then Some (GoErr ErrInvalid ''maintenance run'')
      else if before_option (run_StartedAt v) (run_CreatedAt v) then Some (GoErr ErrInvalid ''maintenance start'')
      else if before_option (run_CompletedAt v) (run_CreatedAt v) then Some (GoErr ErrInvalid ''maintenance completion'')
      else None)"

text \<open>The newest runs first: \<^verbatim>\<open>ORDER BY created_at DESC, id DESC\<close>.\<close>

definition newest_first :: "maintenance_run list \<Rightarrow> maintenance_run list" where
  "newest_first rs = rev (sort_key (\<lambda>r. (run_CreatedAt r, run_ID r)) rs)"

definition runs_Active :: "maintenance_run list \<Rightarrow> maintenance_run result" where
  "runs_Active rs =
     (let values = take 2 (newest_first (filter run_Active rs)) in
      if \<exists>v \<in> set values. validMaintenanceRun v \<noteq> None then Inl (GoErr ErrInvalid ''stored maintenance run is invalid'')
      else case values of
             [] \<Rightarrow> Inl (GoErr ErrNotFound [])
           | [v] \<Rightarrow> Inr v
           | _ \<Rightarrow> Inl (errorsNew ''multiple owners have active maintenance in a single-owner deployment''))"

definition runs_Latest :: "string \<Rightarrow> maintenance_run list \<Rightarrow> maintenance_run result" where
  "runs_Latest ownerID rs =
     (if ownerID = [] then Inl (GoErr ErrInvalid ''latest maintenance'')
      else case newest_first (filter (\<lambda>r. run_OwnerID r = ownerID) rs) of
             [] \<Rightarrow> Inl (GoErr ErrNotFound [])
           | v # _ \<Rightarrow> if validMaintenanceRun v \<noteq> None then Inl (GoErr ErrInvalid ''stored maintenance run is invalid'') else Inr v)"

text \<open>The table's keys: the identifier, and the owner among the active runs.\<close>

definition run_taken :: "maintenance_run \<Rightarrow> maintenance_run list \<Rightarrow> bool" where
  "run_taken v rs \<longleftrightarrow> run_Active v \<and> (\<exists>r \<in> set rs. run_ID r \<noteq> run_ID v \<and> run_Active r \<and> run_OwnerID r = run_OwnerID v)"

definition runs_Create :: "maintenance_run \<Rightarrow> maintenance_run list \<Rightarrow> goerr option \<times> maintenance_run list" where
  "runs_Create v rs =
     (case validMaintenanceRun v of
        Some e \<Rightarrow> (Some e, rs)
      | None \<Rightarrow> if (\<exists>r \<in> set rs. run_ID r = run_ID v) \<or> run_taken v rs
                then (Some (GoErr ErrConflict ''create maintenance run''), rs)
                else (None, rs @ [v]))"

text \<open>The compare-and-set \<^verbatim>\<open>UPDATE ... WHERE id=$1 AND owner_id=$2 AND state=$16\<close>; it keeps \<^verbatim>\<open>created_at\<close>.\<close>

definition runs_Transition ::
  "maintenance_run \<Rightarrow> maintenance_state \<Rightarrow> maintenance_run list \<Rightarrow> goerr option \<times> maintenance_run list" where
  "runs_Transition v expected rs =
     (case validMaintenanceRun v of
        Some e \<Rightarrow> (Some e, rs)
      | None \<Rightarrow>
          let hit = (\<lambda>r. run_ID r = run_ID v \<and> run_OwnerID r = run_OwnerID v \<and> run_State r = expected) in
          if \<not> (\<exists>r \<in> set rs. hit r) \<or> run_taken v rs
          then (Some (GoErr ErrConflict ''transition maintenance run''), rs)
          else (None, map (\<lambda>r. if hit r then v\<lparr>run_CreatedAt := run_CreatedAt r\<rparr> else r) rs))"

subsection \<open>The coordinator's world\<close>

record maintenance_activity =
  ma_ID :: string
  ma_OwnerID :: string
  ma_Summary :: string
  ma_RunID :: string
  ma_CreatedAt :: time

record mworld =
  mw_service :: world
  mw_runs :: "maintenance_run list"
  mw_activities :: "maintenance_activity list"
  mw_recorded :: "bool list"
  mw_others :: "nat \<Rightarrow> svc_call list"
  mw_turn :: nat

type_synonym 'a mnt = "(mworld, 'a) state"

definition service :: "'a svc \<Rightarrow> 'a mnt" where
  "service m = State (\<lambda>w. case run_state m (mw_service w) of (r, s) \<Rightarrow> (r, w\<lparr>mw_service := s\<rparr>))"

text \<open>Operations of the service asked for by other requests, before an interaction of the drain.\<close>

definition others :: "unit mnt" where
  "others = do {
     w \<leftarrow> State_Monad.get;
     State_Monad.set (w\<lparr>mw_turn := Suc (mw_turn w), mw_service := fold svc_run (mw_others w (mw_turn w)) (mw_service w)\<rparr>) }"

text \<open>
  A failing query is never \<^verbatim>\<open>pgx.ErrNoRows\<close>, the only error \<^verbatim>\<open>mapError\<close> takes for
  \<^verbatim>\<open>core.ErrNotFound\<close>. A failing write may have been committed.
\<close>

definition query_error :: "goerr \<Rightarrow> goerr" where
  "query_error e = (if err_is e = ErrNotFound then errorsNew (err_msg e) else e)"

definition runs_read :: "(maintenance_run list \<Rightarrow> 'a result) \<Rightarrow> 'a result mnt" where
  "runs_read f = do {
     a \<leftarrow> service tick;
     w \<leftarrow> State_Monad.get;
     ret (case an_err a of Some e \<Rightarrow> Inl (query_error e) | None \<Rightarrow> f (mw_runs w)) }"

definition runs_write :: "(maintenance_run list \<Rightarrow> goerr option \<times> maintenance_run list) \<Rightarrow> goerr option mnt" where
  "runs_write f = do {
     a \<leftarrow> service tick;
     w \<leftarrow> State_Monad.get;
     (case an_err a of
        None \<Rightarrow> do { _ \<leftarrow> State_Monad.set (w\<lparr>mw_runs := snd (f (mw_runs w))\<rparr>); ret (fst (f (mw_runs w))) }
      | Some e \<Rightarrow> do {
          _ \<leftarrow> State_Monad.set (if an_commit a then w\<lparr>mw_runs := snd (f (mw_runs w))\<rparr> else w);
          ret (Some e) }) }"

definition mnt_now :: "time mnt" where "mnt_now = service svc_now"

definition mnt_Active :: "maintenance_run result mnt" where "mnt_Active = runs_read runs_Active"

definition mnt_Transition :: "maintenance_run \<Rightarrow> maintenance_state \<Rightarrow> goerr option mnt" where
  "mnt_Transition v expected = runs_write (runs_Transition v expected)"

definition mnt_Create :: "maintenance_run \<Rightarrow> goerr option mnt" where
  "mnt_Create v = runs_write (runs_Create v)"

definition AddMaintenanceActivity :: "maintenance_activity \<Rightarrow> goerr option mnt" where
  "AddMaintenanceActivity v =
     (if ma_ID v = [] \<or> ma_OwnerID v = [] \<or> ma_RunID v = [] \<or> ma_Summary v = [] \<or> length (ma_Summary v) > 512
         \<or> ma_CreatedAt v = 0
      then ret (Some (GoErr ErrInvalid ''maintenance activity''))
      else do {
        a \<leftarrow> service tick;
        w \<leftarrow> State_Monad.get;
        (case an_err a of
           Some e \<Rightarrow> ret (Some e)
         | None \<Rightarrow>
             if \<exists>x \<in> set (mw_activities w). ma_ID x = ma_ID v then ret (Some (GoErr ErrConflict ''add activity''))
             else do { _ \<leftarrow> State_Monad.set (w\<lparr>mw_activities := mw_activities w @ [v]\<rparr>); ret None }) })"

text \<open>\<^verbatim>\<open>err != nil && !errors.Is(err, core.ErrConflict)\<close>: an activity that exists already is fine.\<close>

definition add_activity :: "maintenance_activity \<Rightarrow> goerr option mnt" where
  "add_activity v = do {
     e \<leftarrow> AddMaintenanceActivity v;
     ret (case e of Some x \<Rightarrow> if err_is x = ErrConflict then None else Some x | None \<Rightarrow> None) }"

definition set_drain :: "bool \<Rightarrow> unit mnt" where
  "set_drain enabled = do {
     w \<leftarrow> State_Monad.get;
     let s = mw_service w;
     State_Monad.set (w\<lparr>mw_service := s\<lparr>w_admission := SetMaintenanceDrain (w_admission s) enabled\<rparr>\<rparr>) }"

definition record_maintenance :: "bool \<Rightarrow> unit mnt" where
  "record_maintenance ok = do {
     w \<leftarrow> State_Monad.get; State_Monad.set (w\<lparr>mw_recorded := mw_recorded w @ [ok]\<rparr>) }"

subsection \<open>Configuration and windows\<close>

record maintenance_config =
  mc_Weekday :: int
  mc_HourUTC :: int
  mc_WarningLead :: time
  mc_UrgentWarningLead :: time
  mc_ScanInterval :: time

definition New_maintenance :: "bool \<Rightarrow> maintenance_config \<Rightarrow> maintenance_config result" where
  "New_maintenance dependencies c =
     (if \<not> dependencies then Inl (errorsNew ''maintenance dependencies are required'')
      else if mc_Weekday c < 0 \<or> mc_Weekday c > 6 \<or> mc_HourUTC c < 0 \<or> mc_HourUTC c > 23
      then Inl (errorsNew ''maintenance weekday or UTC hour is invalid'')
      else
      let c1 = (if mc_WarningLead c = 0 then c\<lparr>mc_WarningLead := 24 * hour\<rparr> else c);
          c2 = (if mc_UrgentWarningLead c1 = 0 then c1\<lparr>mc_UrgentWarningLead := 5 * minute\<rparr> else c1);
          c3 = (if mc_ScanInterval c2 = 0 then c2\<lparr>mc_ScanInterval := minute\<rparr> else c2) in
      if mc_WarningLead c3 < hour \<or> mc_WarningLead c3 > 6 * 24 * hour
         \<or> mc_UrgentWarningLead c3 < minute \<or> mc_UrgentWarningLead c3 > hour
         \<or> mc_ScanInterval c3 < second \<or> mc_ScanInterval c3 > hour
      then Inl (errorsNew ''maintenance timing is invalid'')
      else Inr c3)"

text \<open>
  Instants count from the first of January of year 1, a Monday, so the day's number modulo 7 gives
  the weekday (Sunday is 0) and whole days are midnights in UTC.
\<close>

abbreviation day :: time where "day \<equiv> 24 * hour"

definition weekday :: "time \<Rightarrow> int" where
  "weekday t = (t div day + 1) mod 7"

definition nextWindow :: "time \<Rightarrow> int \<Rightarrow> int \<Rightarrow> time" where
  "nextWindow now wd hourUTC =
     (let days = (wd - weekday now + 7) mod 7;
          candidate = (now div day + days) * day + hourUTC * hour
      in if \<not> now < candidate then candidate + 7 * day else candidate)"

definition newRun :: "string \<Rightarrow> bool \<Rightarrow> bool \<Rightarrow> time \<Rightarrow> time \<Rightarrow> time \<Rightarrow> maintenance_run result mnt" where
  "newRun ownerID urgent bestEffort scheduled warning now = do {
     a \<leftarrow> service tick;
     ret (case an_err a of
         Some e \<Rightarrow> Inl (GoErr (err_is e) ''generate maintenance run ID'')
       | None \<Rightarrow>
           if length (an_random a) < 12 then Inl (errorsNew ''generate maintenance run ID'')
           else Inr \<lparr>run_ID = ''maint_'' @ hex_EncodeToString (take 12 (an_random a)), run_OwnerID = ownerID,
                     run_State = StateScheduled, run_Urgent = urgent, run_BestEffort = bestEffort,
                     run_ScheduledFor = scheduled, run_WarningAt = warning, run_CreatedAt = now, run_UpdatedAt = now,
                     run_StartedAt = None, run_CompletedAt = None, run_CheckpointedWorkspaces = 0,
                     run_DrainedWorkspaces = 0, run_FailedWorkspaces = 0, run_RebootRequired = False, run_Message = []\<rparr>) }"

subsection \<open>Scheduling\<close>

definition Status :: "string \<Rightarrow> maintenance_run result mnt" where
  "Status ownerID =
     (if ownerID = [] then ret (Inl (GoErr ErrInvalid ''owner is required''))
      else do {
        r \<leftarrow> mnt_Active;
        (case r of
           Inr run \<Rightarrow> ret (if run_OwnerID run \<noteq> ownerID then Inl (GoErr ErrNotFound []) else Inr run)
         | Inl e \<Rightarrow> if err_is e \<noteq> ErrNotFound then ret (Inl e) else runs_read (runs_Latest ownerID)) })"

text \<open>
  \<^verbatim>\<open>Recover\<close> runs while the process starts, before any request is served; no operation of the service
  runs beside it.
\<close>

fun drain_state :: "maintenance_state \<Rightarrow> bool" where
  "drain_state StateDraining = True"
| "drain_state StateReadyForUpdate = True"
| "drain_state StateUpdating = True"
| "drain_state StateRebootRequired = True"
| "drain_state StateVerifying = True"
| "drain_state _ = False"

definition Recover :: "goerr option mnt" where
  "Recover = do {
     r \<leftarrow> mnt_Active;
     (case r of
        Inl e \<Rightarrow> if err_is e = ErrNotFound then do { _ \<leftarrow> set_drain False; ret None } else ret (Some e)
      | Inr run \<Rightarrow> do { _ \<leftarrow> set_drain (drain_state (run_State run)); ret None }) }"

definition create_run :: "maintenance_run result \<Rightarrow> maintenance_run result mnt" where
  "create_run r =
     (case r of
        Inl e \<Rightarrow> ret (Inl e)
      | Inr run \<Rightarrow> do {
          e \<leftarrow> mnt_Create run;
          ret (case e of Some e \<Rightarrow> Inl e | None \<Rightarrow> Inr run) })"

definition ScheduleWeekly :: "maintenance_config \<Rightarrow> string \<Rightarrow> maintenance_run result mnt" where
  "ScheduleWeekly c ownerID =
     (if ownerID = [] then ret (Inl (GoErr ErrInvalid ''owner is required''))
      else do {
        r \<leftarrow> mnt_Active;
        (case r of
           Inr existing \<Rightarrow>
             ret (if run_OwnerID existing \<noteq> ownerID then Inl (GoErr ErrConflict []) else Inr existing)
         | Inl e \<Rightarrow>
             if err_is e \<noteq> ErrNotFound then ret (Inl e)
             else do {
               now \<leftarrow> mnt_now;
               let scheduled = nextWindow now (mc_Weekday c) (mc_HourUTC c);
               run \<leftarrow> newRun ownerID False False scheduled (scheduled - mc_WarningLead c) now;
               create_run run }) })"

text \<open>Superseding a scheduled or warned run before the urgent one is created.\<close>

definition supersede :: "string \<Rightarrow> maintenance_run result \<Rightarrow> goerr option mnt" where
  "supersede ownerID r =
     (case r of
        Inr existing \<Rightarrow>
          if run_OwnerID existing \<noteq> ownerID \<or> (run_State existing \<noteq> StateScheduled \<and> run_State existing \<noteq> StateWarning)
          then ret (Some (GoErr ErrConflict ''maintenance is already active''))
          else do {
            cancelledAt \<leftarrow> mnt_now;
            mnt_Transition (existing\<lparr>run_State := StateCancelled, run_UpdatedAt := cancelledAt,
                run_CompletedAt := Some cancelledAt, run_Message := ''Superseded by urgent security maintenance.''\<rparr>)
              (run_State existing) }
      | Inl e \<Rightarrow> ret (if err_is e \<noteq> ErrNotFound then Some e else None))"

definition ScheduleUrgent :: "maintenance_config \<Rightarrow> string \<Rightarrow> maintenance_run result mnt" where
  "ScheduleUrgent c ownerID =
     (if ownerID = [] then ret (Inl (GoErr ErrInvalid ''owner is required''))
      else do {
        r \<leftarrow> mnt_Active;
        e \<leftarrow> supersede ownerID r;
        (case e of
           Some e \<Rightarrow> ret (Inl e)
         | None \<Rightarrow> do {
             now \<leftarrow> mnt_now;
             let scheduled = now + mc_UrgentWarningLead c;
             run \<leftarrow> newRun ownerID True True scheduled now now;
             create_run run }) })"

subsection \<open>The drain\<close>

fun providerUnsafe :: "workspace_state \<Rightarrow> bool" where
  "providerUnsafe WorkspaceProvisioning = True"
| "providerUnsafe WorkspaceReady = True"
| "providerUnsafe WorkspaceRunning = True"
| "providerUnsafe WorkspaceNeedsAttention = True"
| "providerUnsafe WorkspaceIdle = True"
| "providerUnsafe WorkspaceSuspending = True"
| "providerUnsafe WorkspaceMaintenance = True"
| "providerUnsafe WorkspaceDeleting = True"
| "providerUnsafe _ = False"

definition unsafeWorkspaces :: "workspace list \<Rightarrow> workspace list" where
  "unsafeWorkspaces values =
     sort_key (\<lambda>ws. (ws_ID ws, ws_OwnerID ws)) (filter (\<lambda>ws. providerUnsafe (ws_State ws)) values)"

definition ListAll :: "workspace list result mnt" where
  "ListAll = service (rows_read (\<lambda>s. Inr (store_ListAll s)))"

definition markReady :: "maintenance_run \<Rightarrow> goerr option mnt" where
  "markReady run = do {
     _ \<leftarrow> others;
     now \<leftarrow> mnt_now;
     let r = run\<lparr>run_State := StateReadyForUpdate, run_UpdatedAt := now, run_Message :=
               (if run_FailedWorkspaces run > 0
                then ''Urgent best-effort drain completed with workspace failures; operator review is required.''
                else ''Workspace drain complete; root-owned update tooling may proceed.'')\<rparr>;
     e \<leftarrow> mnt_Transition r (run_State run);
     (case e of
        Some e \<Rightarrow> ret (Some e)
      | None \<Rightarrow> add_activity \<lparr>ma_ID = ''maintenance-ready-'' @ run_ID r, ma_OwnerID = run_OwnerID r,
          ma_Summary = ''Workspace drain is complete. Host maintenance is ready to proceed.'',
          ma_RunID = run_ID r, ma_CreatedAt = run_UpdatedAt r\<rparr>) }"

text \<open>
  One pass keeps its counts and the joined error of its failures; nothing inspects the joined error
  beyond its presence, so the first one stands for it.
\<close>

record drain_pass =
  dp_checkpointed :: int
  dp_drained :: int
  dp_failed :: int
  dp_err :: "goerr option"

definition pass_failed :: "goerr \<Rightarrow> drain_pass \<Rightarrow> drain_pass" where
  "pass_failed e p = p\<lparr>dp_failed := dp_failed p + 1, dp_err := (case dp_err p of None \<Rightarrow> Some e | Some x \<Rightarrow> Some x)\<rparr>"

definition pass_settled :: "goerr option \<Rightarrow> drain_pass \<Rightarrow> drain_pass" where
  "pass_settled e p = (case e of Some x \<Rightarrow> pass_failed x p | None \<Rightarrow> p\<lparr>dp_drained := dp_drained p + 1\<rparr>)"

definition drain_suspend :: "workspace \<Rightarrow> drain_pass \<Rightarrow> drain_pass mnt" where
  "drain_suspend value p = do {
     _ \<leftarrow> others;
     r \<leftarrow> service (Suspend (ws_OwnerID value) (ws_ID value));
     ret (pass_settled (snd r) p) }"

definition drain_workspace :: "maintenance_run \<Rightarrow> workspace \<Rightarrow> drain_pass \<Rightarrow> drain_pass mnt" where
  "drain_workspace run value p =
     (if ws_State value \<in> {WorkspaceReady, WorkspaceRunning, WorkspaceNeedsAttention, WorkspaceIdle}
      then if ws_ProviderResourceID value = []
           then ret (pass_failed (errorsNew ''workspace is live without a provider resource ID'') p)
           else do {
             _ \<leftarrow> others;
             a \<leftarrow> service (outside (ws_ID value) (CheckpointCreate (ws_ProviderResourceID value) ''maintenance''));
             (case an_err a of
                Some e \<Rightarrow> if \<not> run_BestEffort run then ret (pass_failed e p)
                           else drain_suspend value (pass_failed e p)
              | None \<Rightarrow> drain_suspend value (p\<lparr>dp_checkpointed := dp_checkpointed p + 1\<rparr>)) }
      else if ws_State value = WorkspaceSuspending then drain_suspend value p
      else if ws_State value = WorkspaceDeleting then do {
        _ \<leftarrow> others;
        e \<leftarrow> service (Delete (ws_OwnerID value) (ws_ID value) False True);
        ret (pass_settled e p) }
      else if ws_State value \<in> {WorkspaceProvisioning, WorkspaceMaintenance} then do {
        _ \<leftarrow> others;
        r \<leftarrow> service (ReconcileMaintenanceDrain (ws_OwnerID value) (ws_ID value));
        ret (pass_settled (snd r) p) }
      else ret p)"

fun drain_each :: "maintenance_run \<Rightarrow> workspace list \<Rightarrow> drain_pass \<Rightarrow> drain_pass result mnt" where
  "drain_each run [] p = ret (Inr p)"
| "drain_each run (value # rest) p = do {
     e \<leftarrow> service ctx_Err;
     (case e of
        Some e \<Rightarrow> ret (Inl e)
      | None \<Rightarrow> do { q \<leftarrow> drain_workspace run value p; drain_each run rest q }) }"

definition drain_progress :: "maintenance_run \<Rightarrow> drain_pass \<Rightarrow> maintenance_run" where
  "drain_progress run p = run\<lparr>run_CheckpointedWorkspaces := run_CheckpointedWorkspaces run + dp_checkpointed p,
     run_DrainedWorkspaces := run_DrainedWorkspaces run + dp_drained p,
     run_FailedWorkspaces := run_FailedWorkspaces run + dp_failed p\<rparr>"

definition persist_progress :: "maintenance_run \<Rightarrow> drain_pass \<Rightarrow> (maintenance_run \<times> goerr option) mnt" where
  "persist_progress run p =
     (if dp_checkpointed p \<noteq> 0 \<or> dp_drained p \<noteq> 0 \<or> dp_failed p \<noteq> 0
      then do {
        now \<leftarrow> mnt_now;
        let r = run\<lparr>run_UpdatedAt := now\<rparr>;
        e \<leftarrow> mnt_Transition r StateDraining;
        ret (r, e) }
      else ret (run, None))"

text \<open>At most 64 passes, each from a fresh list; the list of the last pass is the argument.\<close>

fun drain_passes :: "nat \<Rightarrow> maintenance_run \<Rightarrow> workspace list \<Rightarrow> goerr option mnt" where
  "drain_passes 0 run values = ret (Some (errorsNew ''workspace maintenance drain did not converge''))"
| "drain_passes (Suc n) run values =
     (if unsafeWorkspaces values = [] then markReady run
      else do {
        r \<leftarrow> drain_each run (unsafeWorkspaces values) \<lparr>dp_checkpointed = 0, dp_drained = 0, dp_failed = 0, dp_err = None\<rparr>;
        (case r of
           Inl e \<Rightarrow> ret (Some e)
         | Inr p \<Rightarrow> do {
             x \<leftarrow> persist_progress (drain_progress run p) p;
             (case snd x of
                Some e \<Rightarrow> ret (Some (case dp_err p of Some f \<Rightarrow> f | None \<Rightarrow> e))
              | None \<Rightarrow> do {
                  _ \<leftarrow> others;
                  l \<leftarrow> ListAll;
                  (case l of
                     Inl e \<Rightarrow> ret (Some (case dp_err p of Some f \<Rightarrow> f | None \<Rightarrow> e))
                   | Inr vs \<Rightarrow>
                       if dp_err p \<noteq> None \<and> unsafeWorkspaces vs \<noteq> [] then ret (dp_err p)
                       else drain_passes n (fst x) vs) }) }) })"

definition maximumDrainConvergencePasses :: nat where "maximumDrainConvergencePasses = 64"

definition drain :: "maintenance_run \<Rightarrow> goerr option mnt" where
  "drain run = do {
     _ \<leftarrow> set_drain True;
     _ \<leftarrow> others;
     e \<leftarrow> service BeginMaintenanceDrain;
     (case e of
        Some e \<Rightarrow> ret (Some (GoErr (err_is e) ''begin workspace maintenance drain''))
      | None \<Rightarrow> do {
          _ \<leftarrow> others;
          l \<leftarrow> ListAll;
          _ \<leftarrow> service releaseAdmission;
          (case l of
             Inl e \<Rightarrow> ret (Some (GoErr (err_is e) ''list workspaces during maintenance drain''))
           | Inr values \<Rightarrow> drain_passes maximumDrainConvergencePasses run values) }) }"

subsection \<open>A scan\<close>

definition warn_run :: "maintenance_run \<Rightarrow> time \<Rightarrow> (maintenance_run \<times> goerr option) mnt" where
  "warn_run run now =
     (if run_State run = StateScheduled \<and> \<not> now < run_WarningAt run
      then do {
        let r = run\<lparr>run_State := StateWarning, run_UpdatedAt := now\<rparr>;
        e \<leftarrow> mnt_Transition r (run_State run);
        (case e of
           Some e \<Rightarrow> ret (r, Some e)
         | None \<Rightarrow> do {
             e \<leftarrow> add_activity \<lparr>ma_ID = ''maintenance-warning-'' @ run_ID r, ma_OwnerID = run_OwnerID r,
               ma_Summary = ''Server maintenance is scheduled soon. Running workspaces will be checkpointed and suspended.'',
               ma_RunID = run_ID r, ma_CreatedAt = now\<rparr>;
             ret (r, e) }) }
      else ret (run, None))"

definition start_drain :: "maintenance_run \<Rightarrow> time \<Rightarrow> (maintenance_run \<times> goerr option) mnt" where
  "start_drain run now =
     (if (run_State run = StateScheduled \<or> run_State run = StateWarning) \<and> \<not> now < run_ScheduledFor run
      then do {
        let r = run\<lparr>run_State := StateDraining, run_UpdatedAt := now,
                  run_StartedAt := (case run_StartedAt run of None \<Rightarrow> Some now | Some t \<Rightarrow> Some t)\<rparr>;
        e \<leftarrow> mnt_Transition r (run_State run);
        ret (r, e) }
      else ret (run, None))"

definition RunOnce :: "goerr option mnt" where
  "RunOnce = do {
     r \<leftarrow> mnt_Active;
     (case r of
        Inl e \<Rightarrow> ret (if err_is e = ErrNotFound then None else Some e)
      | Inr run \<Rightarrow> do {
          now \<leftarrow> mnt_now;
          x \<leftarrow> warn_run run now;
          (case snd x of
             Some e \<Rightarrow> ret (Some e)
           | None \<Rightarrow> do {
               y \<leftarrow> start_drain (fst x) now;
               (case snd y of
                  Some e \<Rightarrow> ret (Some e)
                | None \<Rightarrow> if run_State (fst y) = StateDraining then drain (fst y) else ret None) }) }) }"

subsection \<open>Advancing and ending a run\<close>

definition transition ::
  "string \<Rightarrow> maintenance_state \<Rightarrow> maintenance_state \<Rightarrow> bool \<Rightarrow> string \<Rightarrow> maintenance_run result mnt" where
  "transition runID expected target reboot message = do {
     r \<leftarrow> mnt_Active;
     (case r of
        Inl e \<Rightarrow> ret (Inl e)
      | Inr run \<Rightarrow>
          if run_ID run \<noteq> runID \<or> run_State run \<noteq> expected
          then ret (Inl (GoErr ErrConflict ''invalid maintenance transition''))
          else do {
            now \<leftarrow> mnt_now;
            let v = run\<lparr>run_State := target, run_UpdatedAt := now, run_RebootRequired := reboot, run_Message := message\<rparr>;
            e \<leftarrow> mnt_Transition v (run_State run);
            ret (case e of Some e \<Rightarrow> Inl e | None \<Rightarrow> Inr v) }) }"

definition BeginUpdate :: "string \<Rightarrow> maintenance_run result mnt" where
  "BeginUpdate runID = transition runID StateReadyForUpdate StateUpdating False ''Host update is in progress.''"

definition UpdateApplied :: "string \<Rightarrow> bool \<Rightarrow> maintenance_run result mnt" where
  "UpdateApplied runID rebootRequired =
     (if rebootRequired
      then transition runID StateUpdating StateRebootRequired True
             ''Updates applied; a host reboot is required before verification.''
      else transition runID StateUpdating StateVerifying False
             ''Updates applied; post-update health verification is required.'')"

definition BeginVerification :: "string \<Rightarrow> maintenance_run result mnt" where
  "BeginVerification runID = transition runID StateRebootRequired StateVerifying True
     ''Host restarted; verifying control-plane health.''"

definition fail_run :: "maintenance_run \<Rightarrow> goerr \<Rightarrow> goerr mnt" where
  "fail_run run cause = do {
     now \<leftarrow> mnt_now;
     _ \<leftarrow> mnt_Transition (run\<lparr>run_State := StateFailed, run_UpdatedAt := now, run_CompletedAt := Some now,
            run_Message := ''Maintenance stopped before host updates; review metadata-only service logs.''\<rparr>) (run_State run);
     _ \<leftarrow> set_drain False;
     _ \<leftarrow> record_maintenance False;
     ret cause }"

definition Ping :: "goerr option mnt" where
  "Ping = do { a \<leftarrow> service tick; ret (an_err a) }"

definition Complete :: "string \<Rightarrow> maintenance_run result mnt" where
  "Complete runID = do {
     r \<leftarrow> mnt_Active;
     (case r of
        Inl e \<Rightarrow> ret (Inl e)
      | Inr run \<Rightarrow>
          if run_ID run \<noteq> runID \<or> run_State run \<noteq> StateVerifying
          then ret (Inl (GoErr ErrConflict ''maintenance is not awaiting verification''))
          else do {
            e \<leftarrow> Ping;
            (case e of
               Some e \<Rightarrow> do { x \<leftarrow> fail_run run (GoErr (err_is e) ''post-maintenance health''); ret (Inl x) }
             | None \<Rightarrow> do {
                 now \<leftarrow> mnt_now;
                 let v = run\<lparr>run_State := StateCompleted, run_UpdatedAt := now, run_CompletedAt := Some now,
                           run_Message := ''Maintenance completed and health checks passed.''\<rparr>;
                 e \<leftarrow> mnt_Transition v (run_State run);
                 (case e of
                    Some e \<Rightarrow> ret (Inl e)
                  | None \<Rightarrow> do {
                      _ \<leftarrow> set_drain False;
                      _ \<leftarrow> record_maintenance True;
                      e \<leftarrow> add_activity \<lparr>ma_ID = ''maintenance-complete-'' @ run_ID v, ma_OwnerID = run_OwnerID v,
                        ma_Summary = ''Server maintenance completed and health checks passed.'',
                        ma_RunID = run_ID v, ma_CreatedAt = now\<rparr>;
                      ret (case e of Some e \<Rightarrow> Inl e | None \<Rightarrow> Inr v) }) }) }) }"

definition Cancel :: "string \<Rightarrow> string \<Rightarrow> maintenance_run result mnt" where
  "Cancel ownerID runID = do {
     r \<leftarrow> mnt_Active;
     (case r of
        Inl e \<Rightarrow> ret (Inl e)
      | Inr run \<Rightarrow>
          if run_OwnerID run \<noteq> ownerID \<or> run_ID run \<noteq> runID
             \<or> (run_State run \<noteq> StateScheduled \<and> run_State run \<noteq> StateWarning)
          then ret (Inl (GoErr ErrConflict ''maintenance cannot be cancelled in this state''))
          else do {
            now \<leftarrow> mnt_now;
            let v = run\<lparr>run_State := StateCancelled, run_UpdatedAt := now, run_CompletedAt := Some now,
                      run_Message := ''Maintenance cancelled by the owner.''\<rparr>;
            e \<leftarrow> mnt_Transition v (run_State run);
            (case e of
               Some e \<Rightarrow> ret (Inl e)
             | None \<Rightarrow> do { _ \<leftarrow> set_drain False; ret (Inr v) }) }) }"

subsection \<open>The application's handlers\<close>

text \<open>
  \<^verbatim>\<open>application/maintenance.go\<close>: what the authenticated owner may ask for. The audit records and the
  response types are not modelled. \<^verbatim>\<open>validMaintenanceID\<close> admits \<open>maint_\<close> and 24 lower-case hex digits.
\<close>

definition hex_lower :: "char \<Rightarrow> bool" where
  "hex_lower c \<longleftrightarrow> c \<in> set ''0123456789abcdef''"

definition validMaintenanceID :: "string \<Rightarrow> bool" where
  "validMaintenanceID v \<longleftrightarrow> length v = 30 \<and> take 6 v = ''maint_'' \<and> list_all hex_lower (drop 6 v)"

definition ScheduleMaintenance :: "maintenance_config \<Rightarrow> string \<Rightarrow> bool \<Rightarrow> maintenance_run result mnt" where
  "ScheduleMaintenance c owner urgent = (if urgent then ScheduleUrgent c owner else ScheduleWeekly c owner)"

definition CancelMaintenance :: "string \<Rightarrow> string \<Rightarrow> maintenance_run result mnt" where
  "CancelMaintenance owner runID =
     (if \<not> validMaintenanceID runID then ret (Inl (GoErr ErrInvalid ''maintenance run ID is invalid''))
      else Cancel owner runID)"

definition AdvanceMaintenance :: "string \<Rightarrow> string \<Rightarrow> string \<Rightarrow> bool option \<Rightarrow> maintenance_run result mnt" where
  "AdvanceMaintenance owner runID action rebootRequired =
     (if \<not> validMaintenanceID runID then ret (Inl (GoErr ErrInvalid ''maintenance run ID is invalid''))
      else do {
        r \<leftarrow> Status owner;
        (case r of
           Inl e \<Rightarrow> ret (Inl e)
         | Inr current \<Rightarrow>
             if run_ID current \<noteq> runID then ret (Inl (GoErr ErrNotFound []))
             else if action = ''begin_update'' then
               (if rebootRequired \<noteq> None then ret (Inl (GoErr ErrInvalid ''reboot_required is not accepted for this action''))
                else BeginUpdate runID)
             else if action = ''updates_applied'' then
               (case rebootRequired of
                  None \<Rightarrow> ret (Inl (GoErr ErrInvalid ''reboot_required is required for updates_applied''))
                | Some b \<Rightarrow> UpdateApplied runID b)
             else if action = ''begin_verification'' then
               (if rebootRequired \<noteq> None then ret (Inl (GoErr ErrInvalid ''reboot_required is not accepted for this action''))
                else BeginVerification runID)
             else if action = ''complete'' then
               (if rebootRequired \<noteq> None then ret (Inl (GoErr ErrInvalid ''reboot_required is not accepted for this action''))
                else Complete runID)
             else ret (Inl (GoErr ErrInvalid ''maintenance action is invalid''))) })"

text \<open>The scheduler of \<^verbatim>\<open>main.go\<close>: schedule the owner's weekly window, then scan.\<close>

definition runMaintenanceScheduler :: "maintenance_config \<Rightarrow> string \<Rightarrow> unit mnt" where
  "runMaintenanceScheduler c owner = do { _ \<leftarrow> ScheduleWeekly c owner; _ \<leftarrow> RunOnce; ret () }"

end
