(* ===== verification/Maintenance_Safety.thy ===== *)
theory Maintenance_Safety
  imports Maintenance
begin

text \<open>
  The maintenance coordinator with the workspace service: what every operation of either keeps, the
  safety of the host update (nothing is live and admission is closed from the moment a run is ready),
  the life cycle of runs, and the weekly window.
\<close>

subsection \<open>The joint invariant\<close>

definition sole :: "maintenance_run option \<Rightarrow> maintenance_run list \<Rightarrow> bool" where
  "sole x rs \<longleftrightarrow> filter run_Active rs = (case x of None \<Rightarrow> [] | Some r \<Rightarrow> [r]) \<and> distinct (map run_ID rs)"

text \<open>From ready for update until verification starts, the host may be taken down.\<close>

fun quiesced :: "maintenance_state \<Rightarrow> bool" where
  "quiesced StateReadyForUpdate = True"
| "quiesced StateUpdating = True"
| "quiesced StateRebootRequired = True"
| "quiesced _ = False"

definition calm :: "world \<Rightarrow> bool" where
  "calm s \<longleftrightarrow> maintenanceDrain (w_admission s) \<and> svc_inv (w_admission s, 0) s"

definition minv :: "capacity \<Rightarrow> maintenance_run option \<Rightarrow> mworld \<Rightarrow> bool" where
  "minv cap x w \<longleftrightarrow> ctl_capacity (w_admission (mw_service w)) = cap
     \<and> svc_inv (w_admission (mw_service w), MaxRunning cap) (mw_service w)
     \<and> sole x (mw_runs w)
     \<and> (\<forall>r. x = Some r \<longrightarrow> quiesced (run_State r) \<longrightarrow> calm (mw_service w))"

lemma quiesced_Active: "quiesced (run_State r) \<Longrightarrow> run_Active r"
  by (cases "run_State r") (auto simp: run_Active_def)

subsection \<open>Rules\<close>

lemma wp_service: "wp m (\<lambda>r s. Q r (w\<lparr>mw_service := s\<rparr>)) (mw_service w) \<Longrightarrow> wp (service m) Q w"
  by (auto simp: wp_def service_def split: prod.splits)

text \<open>A computation of the service that keeps its invariant for every controller and limit.\<close>

definition keeps :: "'a svc \<Rightarrow> world \<Rightarrow> bool" where
  "keeps m s \<longleftrightarrow> (\<forall>c. svc_inv c s \<longrightarrow> wp m (\<lambda>r. svc_inv c) s)"

lemma keepsI: "(\<And>c. svc_inv c s \<Longrightarrow> wp m (\<lambda>r. svc_inv c) s) \<Longrightarrow> keeps m s"
  by (simp add: keeps_def)

lemma svc_inv_admission: "svc_inv c s \<Longrightarrow> w_admission s = fst c"
  by (simp add: svc_inv_def)

text \<open>What a step of the service leaves: the joint invariant, the drain flag and calm.\<close>

definition steady :: "world \<Rightarrow> world \<Rightarrow> bool" where
  "steady s s' \<longleftrightarrow> w_admission s' = w_admission s \<and> (\<forall>m. svc_inv (w_admission s, m) s \<longrightarrow> svc_inv (w_admission s, m) s')"

lemma steady_calm: "steady s s' \<Longrightarrow> calm s \<Longrightarrow> calm s'"
  by (simp add: steady_def calm_def)

lemma steady_trans: "steady a b \<Longrightarrow> steady b c \<Longrightarrow> steady a c"
  by (simp add: steady_def)

lemma steady_refl [simp]: "steady s s"
  by (simp add: steady_def)

lemma minv_steady: "minv cap x w \<Longrightarrow> steady (mw_service w) s \<Longrightarrow> minv cap x (w\<lparr>mw_service := s\<rparr>)"
  using steady_calm by (auto simp: minv_def steady_def)

lemma keeps_steady:
  assumes "keeps m s" "svc_inv (w_admission s, l) s"
  shows "steady s (snd (run_state m s))"
proof -
  have "svc_inv c (snd (run_state m s))" if "svc_inv c s" for c
    using assms(1) that wp_run [of m "svc_inv c" s] unfolding keeps_def by blast
  with svc_inv_admission [OF this [OF assms(2)]] show ?thesis by (simp add: steady_def)
qed

lemma wp_keeps:
  assumes "minv cap x w" "keeps m (mw_service w)"
    and "\<And>r w'. minv cap x w' \<Longrightarrow> steady (mw_service w) (mw_service w') \<Longrightarrow> mw_runs w' = mw_runs w \<Longrightarrow> Q r w'"
  shows "wp (service m) Q w"
proof (rule wp_service)
  have "steady (mw_service w) (snd (run_state m (mw_service w)))"
    using assms(1) by (intro keeps_steady [OF assms(2)]) (auto simp: minv_def)
  with minv_steady [OF assms(1) this] show "wp m (\<lambda>r s. Q r (w\<lparr>mw_service := s\<rparr>)) (mw_service w)"
    by (auto simp: wp_def split: prod.splits intro: assms(3))
qed

lemma keeps_quiet: "(\<And>c. svc_inv c s \<Longrightarrow> wp m (\<lambda>r s'. quiet s s') s) \<Longrightarrow> keeps m s"
  by (rule keepsI, rule wp_mono, blast) (rule svc_inv_quiet)

lemma keeps_tick: "keeps tick s"
  by (rule keepsI) (auto elim: wp_tick_inv)

lemma keeps_now: "keeps svc_now s"
  unfolding svc_now_def by (rule keepsI) (auto intro!: wp_bind wp_ret elim: wp_tick_inv)

lemma keeps_ctx: "keeps ctx_Err s"
  unfolding ctx_Err_def by (rule keepsI) (auto intro!: wp_bind wp_ret elim: wp_tick_inv)

lemma keeps_checkpoint: "keeps (outside k (CheckpointCreate rid reason)) s"
  by (rule keepsI) (auto simp: harmless_def intro: wp_harmless [OF K_start [of _ _ k]] elim: K_inv)

lemma keeps_release: "keeps releaseAdmission s"
  unfolding releaseAdmission_def by (rule keepsI) (auto intro!: wp_bind wp_get wp_set)

lemma keeps_begin: "keeps BeginMaintenanceDrain s"
  unfolding BeginMaintenanceDrain_def acquireAdmission_def acquireRuntime_def releaseAdmission_def releaseRuntime_def
  by (rule keepsI) (auto intro!: wp_bind wp_if wp_ret wp_get wp_set wp_option wp_tick_inv)

lemma keeps_small:
  assumes "small s"
  shows "keeps (Suspend ow k) s" "keeps (Delete ow k a b) s" "keeps (ReconcileMaintenanceDrain ow k) s"
  using assms by (auto intro!: keepsI wp_Suspend wp_Delete wp_ReconcileMaintenanceDrain)

lemma drain_small: "maintenanceDrain (w_admission s) \<Longrightarrow> small s"
  by (simp add: small_def)

text \<open>Operations of other requests while the service drains.\<close>

lemma svc_run_steady:
  assumes "svc_inv (w_admission s, m) s" "maintenanceDrain (w_admission s)"
  shows "steady s (fold svc_run calls s)"
  using assms
proof (induction calls arbitrary: s)
  case (Cons call calls)
  have inv: "svc_inv (w_admission s, l) (svc_run call s)" if "svc_inv (w_admission s, l) s" for l
    by (rule svc_run_inv [OF that drain_small [OF Cons.prems(2)]])
  with svc_inv_admission [OF inv [OF Cons.prems(1)]] have "steady s (svc_run call s)"
    by (simp add: steady_def)
  moreover from this have "steady (svc_run call s) (fold svc_run calls (svc_run call s))"
    using Cons.prems inv by (intro Cons.IH) (auto simp: steady_def)
  ultimately show ?case by (auto intro: steady_trans)
qed simp

lemma wp_others:
  assumes "minv cap x w" "maintenanceDrain (w_admission (mw_service w))"
    and "\<And>w'. minv cap x w' \<Longrightarrow> steady (mw_service w) (mw_service w') \<Longrightarrow> mw_runs w' = mw_runs w \<Longrightarrow> Q () w'"
  shows "wp others Q w"
proof -
  have s: "steady (mw_service w) (fold svc_run (mw_others w (mw_turn w)) (mw_service w))"
    using assms(1,2) by (intro svc_run_steady) (auto simp: minv_def)
  from minv_steady [OF assms(1) this] have "minv cap x (w\<lparr>mw_turn := Suc (mw_turn w),
      mw_service := fold svc_run (mw_others w (mw_turn w)) (mw_service w)\<rparr>)"
    by (simp add: minv_def)
  then show ?thesis unfolding others_def by (intro wp_bind wp_get wp_set assms(3)) (use s in auto)
qed

lemma wp_mnt_now:
  "minv cap x w \<Longrightarrow> (\<And>t w'. minv cap x w' \<Longrightarrow> steady (mw_service w) (mw_service w') \<Longrightarrow> mw_runs w' = mw_runs w \<Longrightarrow> Q t w')
    \<Longrightarrow> wp mnt_now Q w"
  unfolding mnt_now_def by (rule wp_keeps [OF _ keeps_now])

subsection \<open>The table of runs\<close>

lemma newest_first_filter [simp]: "set (newest_first rs) = set rs" "length (newest_first rs) = length rs"
  by (simp_all add: newest_first_def)

lemma runs_Active_sole:
  assumes "sole x rs"
  shows "runs_Active rs = Inr r \<Longrightarrow> x = Some r" "runs_Active rs = Inl e \<Longrightarrow> err_is e = ErrNotFound \<Longrightarrow> x = None"
proof -
  have "newest_first (filter run_Active rs) = (case x of None \<Rightarrow> [] | Some r \<Rightarrow> [r])"
    using assms by (simp add: sole_def newest_first_def split: option.splits)
  then show "runs_Active rs = Inr r \<Longrightarrow> x = Some r" "runs_Active rs = Inl e \<Longrightarrow> err_is e = ErrNotFound \<Longrightarrow> x = None"
    by (auto simp: runs_Active_def Let_def split: option.splits if_splits list.splits)
qed

lemma wp_mnt_Active:
  assumes "minv cap x w"
    and "\<And>w'. minv cap x w' \<Longrightarrow> steady (mw_service w) (mw_service w') \<Longrightarrow> x = None \<Longrightarrow> Q (Inl (GoErr ErrNotFound [])) w'"
    and "\<And>e w'. minv cap x w' \<Longrightarrow> err_is e \<noteq> ErrNotFound \<Longrightarrow> Q (Inl e) w'"
    and "\<And>r w'. minv cap x w' \<Longrightarrow> steady (mw_service w) (mw_service w') \<Longrightarrow> x = Some r \<Longrightarrow> Q (Inr r) w'"
  shows "wp mnt_Active Q w"
  unfolding mnt_Active_def runs_read_def
proof (intro wp_bind, rule wp_keeps [OF assms(1) keeps_tick], intro wp_bind wp_get wp_ret, goal_cases)
  case (1 a w')
  then have "sole x (mw_runs w')" by (simp add: minv_def)
  note act = runs_Active_sole [OF this]
  have nf: "runs_Active (mw_runs w') = Inl e \<Longrightarrow> err_is e = ErrNotFound \<Longrightarrow> e = GoErr ErrNotFound []" for e
    by (auto simp: runs_Active_def Let_def split: if_splits list.splits)
  show ?case
  proof (cases "an_err a")
    case None
    show ?thesis
    proof (cases "runs_Active (mw_runs w')")
      case (Inl e)
      with None 1 act(2) [OF Inl] nf [OF Inl] show ?thesis
        by (cases "err_is e = ErrNotFound") (auto intro: assms(2,3))
    next
      case (Inr r)
      with None 1 act(1) [OF Inr] show ?thesis by (auto intro: assms(4))
    qed
  next
    case (Some e)
    then show ?thesis using 1 by (auto simp: query_error_def intro!: assms(3))
  qed
qed

text \<open>A write of the sole active run: it takes its place, or the table is unchanged.\<close>

definition successor :: "maintenance_run \<Rightarrow> maintenance_run \<Rightarrow> bool" where
  "successor r v \<longleftrightarrow> run_ID v = run_ID r \<and> run_OwnerID v = run_OwnerID r \<and> run_CreatedAt v = run_CreatedAt r"

lemma runs_Transition_sole:
  assumes "sole (Some r) rs" "successor r v"
  shows "runs_Transition v (run_State r) rs = (None, rs') \<Longrightarrow> sole (if run_Active v then Some v else None) rs'"
    and "runs_Transition v (run_State r) rs = (Some e, rs') \<Longrightarrow> rs' = rs"
proof -
  have act: "filter run_Active rs = [r]" and dist: "distinct (map run_ID rs)" using assms(1) by (auto simp: sole_def)
  then have r: "r \<in> set rs" "run_Active r" by (auto simp: filter_eq_Cons_iff)
  let ?rs = "map (\<lambda>q. if q = r then v else q) rs"
  let ?hit = "\<lambda>q. run_ID q = run_ID v \<and> run_OwnerID q = run_OwnerID v \<and> run_State q = run_State r"
  have hit: "?hit q = (q = r)" if "q \<in> set rs" for q
    using dist r(1) that assms(2) by (auto simp: successor_def distinct_map inj_on_def)
  have eq: "map (\<lambda>q. if ?hit q then v\<lparr>run_CreatedAt := run_CreatedAt q\<rparr> else q) rs = map (\<lambda>q. if q = r then v else q) rs"
    using assms(2) hit by (intro map_cong refl) (auto simp: successor_def)
  have "runs_Transition v (run_State r) rs = (None, map (\<lambda>q. if q = r then v else q) rs)
      \<or> (\<exists>e. runs_Transition v (run_State r) rs = (Some e, rs))"
    unfolding runs_Transition_def Let_def eq by (simp split: option.split)
  then have form: "runs_Transition v (run_State r) rs = (None, ?rs) \<or> (\<exists>e. runs_Transition v (run_State r) rs = (Some e, rs))" .
  have new: "sole (if run_Active v then Some v else None) ?rs"
  proof -
    have ids: "map run_ID (map (\<lambda>q. if q = r then v else q) rs) = map run_ID rs"
      using assms(2) by (auto simp: successor_def)
    have others: "filter run_Active (map (\<lambda>q. if q = r then v else q) qs) = []"
      if "filter run_Active qs = []" for qs
      using that r(2) by (auto simp: filter_empty_conv)
    obtain as bs where rs: "rs = as @ r # bs" "filter run_Active as = []" "filter run_Active bs = []"
      using filter_eq_ConsD [OF act] by (metis filter_False)
    have "filter run_Active (map (\<lambda>q. if q = r then v else q) rs) = (if run_Active v then [v] else [])"
      unfolding rs(1) map_append filter_append others [OF rs(2)] others [OF rs(3)] list.map filter.simps by simp
    then show ?thesis unfolding sole_def ids using dist by simp
  qed
  show "sole (if run_Active v then Some v else None) rs'" if "runs_Transition v (run_State r) rs = (None, rs')"
    using form that new by (elim disjE exE) (simp_all only: prod.inject option.distinct simp_thms)
  show "rs' = rs" if "runs_Transition v (run_State r) rs = (Some e, rs')"
    using form that by (elim disjE exE) (simp_all only: prod.inject option.distinct simp_thms)
qed


lemma wp_runs_write:
  assumes "minv cap x w"
    and "\<And>w' s. minv cap x w' \<Longrightarrow> steady (mw_service w) (mw_service w') \<Longrightarrow> mw_runs w' = mw_runs w \<Longrightarrow>
      f (mw_runs w) = (None, s) \<Longrightarrow> Q None (w'\<lparr>mw_runs := s\<rparr>)"
    and "\<And>w' e s. minv cap x w' \<Longrightarrow> steady (mw_service w) (mw_service w') \<Longrightarrow> mw_runs w' = mw_runs w \<Longrightarrow> s = snd (f (mw_runs w)) \<or> s = mw_runs w \<Longrightarrow>
      Q (Some e) (w'\<lparr>mw_runs := s\<rparr>)"
  shows "wp (runs_write f) Q w"
  unfolding runs_write_def
proof (intro wp_bind, rule wp_keeps [OF assms(1) keeps_tick], intro wp_bind wp_get, rule wp_option, goal_cases)
  case (1 a w')
  then show ?case
    by (cases "f (mw_runs w)"; cases "fst (f (mw_runs w))")
       (auto intro!: wp_bind wp_set wp_ret assms(2, 3))
next
  case (2 a w' e)
  then have "wp (ret (Some e)) Q w'" "wp (ret (Some e)) Q (w'\<lparr>mw_runs := snd (f (mw_runs w))\<rparr>)"
    using assms(3) [of w' "mw_runs w'" e] assms(3) [of w' "snd (f (mw_runs w))" e] 2(3) [symmetric] by (auto intro: wp_ret)
  with 2 show ?case by (auto intro!: wp_bind wp_set)
qed

text \<open>Advancing the sole active run: allowed when the new state asks for no more calm than there is.\<close>

lemma minv_runs:
  assumes "minv cap x w" "sole y s" "\<And>r. y = Some r \<Longrightarrow> quiesced (run_State r) \<Longrightarrow> calm (mw_service w)"
  shows "minv cap y (w\<lparr>mw_runs := s\<rparr>)"
  using assms by (auto simp: minv_def)

definition minv_any :: "capacity \<Rightarrow> mworld \<Rightarrow> bool" where
  "minv_any cap w \<longleftrightarrow> (\<exists>x. minv cap x w)"

lemma minv_anyI: "minv cap x w \<Longrightarrow> minv_any cap w"
  by (auto simp: minv_any_def)

lemma wp_Transition:
  assumes i: "minv cap (Some r) w" and v: "successor r v" and calm: "quiesced (run_State v) \<Longrightarrow> calm (mw_service w)"
    and st: "st = run_State r"
    and ok: "\<And>w'. minv cap (if run_Active v then Some v else None) w' \<Longrightarrow> steady (mw_service w) (mw_service w') \<Longrightarrow> Q None w'"
    and err: "\<And>e w'. minv cap (Some r) w' \<or> minv cap (if run_Active v then Some v else None) w' \<Longrightarrow> Q (Some e) w'"
  shows "wp (mnt_Transition v st) Q w"
  unfolding mnt_Transition_def st
proof (rule wp_runs_write [OF i], goal_cases)
  case (1 w' s)
  have "sole (Some r) (mw_runs w)" using i by (simp add: minv_def)
  note new = runs_Transition_sole(1) [OF this v]
  have "minv cap (if run_Active v then Some v else None) (w'\<lparr>mw_runs := s\<rparr>)"
    by (rule minv_runs [OF 1(1) new [OF 1(4)]]) (use calm steady_calm [OF 1(2)] in \<open>auto split: if_splits\<close>)
  then show ?case by (rule ok) (use 1(2) in simp)
next
  case (2 w' e s)
  have sole: "sole (Some r) (mw_runs w)" using i by (simp add: minv_def)
  note new = runs_Transition_sole [OF this v]
  show ?case
  proof (cases "s = mw_runs w")
    case True
    then have "minv cap (Some r) (w'\<lparr>mw_runs := s\<rparr>)" using 2 by (simp add: minv_def)
    then show ?thesis by (intro err) blast
  next
    case False
    with 2(4) new(2) have s: "runs_Transition v (run_State r) (mw_runs w) = (None, s)"
      by (cases "runs_Transition v (run_State r) (mw_runs w)"; cases "fst (runs_Transition v (run_State r) (mw_runs w))") auto
    have "calm (mw_service w')" if "quiesced (run_State v)" by (rule steady_calm [OF 2(2) calm [OF that]])
    then have "minv cap (if run_Active v then Some v else None) (w'\<lparr>mw_runs := s\<rparr>)"
      by (intro minv_runs [OF 2(1) new(1) [OF s]]) (auto split: if_splits)
    then show ?thesis by (intro err) blast
  qed
qed

lemma minv_log [simp]:
  "minv cap x (w\<lparr>mw_activities := v\<rparr>) = minv cap x w" "minv cap x (w\<lparr>mw_recorded := l\<rparr>) = minv cap x w"
  by (simp_all add: minv_def)

lemma wp_add_activity:
  assumes "minv cap x w"
    and "\<And>e w'. minv cap x w' \<Longrightarrow> steady (mw_service w) (mw_service w') \<Longrightarrow> Q e w'"
  shows "wp (add_activity v) Q w"
  unfolding add_activity_def AddMaintenanceActivity_def
proof (intro wp_bind wp_if wp_ret assms(2) [OF assms(1)] steady_refl, rule wp_keeps [OF assms(1) keeps_tick], goal_cases)
  case (1 a w')
  then show ?case by (auto intro!: wp_bind wp_get wp_set wp_ret wp_option wp_if assms(2))
qed

lemma wp_activity: "minv_any cap w \<Longrightarrow> wp (add_activity v) (\<lambda>_. minv_any cap) w"
  unfolding minv_any_def by (elim exE, erule wp_add_activity) blast

lemma svc_inv_drain:
  "svc_inv (w_admission s, m) s \<Longrightarrow> MaxRunning (ctl_capacity (w_admission s)) \<le> m \<Longrightarrow>
    svc_inv (SetMaintenanceDrain (w_admission s) b, m) (s\<lparr>w_admission := SetMaintenanceDrain (w_admission s) b\<rparr>)"
  by (simp add: svc_inv_def limits_def SetMaintenanceDrain_def)

lemma wp_set_drain:
  assumes i: "minv cap x w" and ok: "b \<or> (\<forall>r. x = Some r \<longrightarrow> \<not> quiesced (run_State r))"
    and post: "\<And>w'. minv cap x w' \<Longrightarrow> maintenanceDrain (w_admission (mw_service w')) = b \<Longrightarrow> Q () w'"
  shows "wp (set_drain b) Q w"
  unfolding set_drain_def Let_def
proof (intro wp_bind wp_get wp_set post)
  let ?s = "mw_service w"
  let ?w = "w\<lparr>mw_service := ?s\<lparr>w_admission := SetMaintenanceDrain (w_admission ?s) b\<rparr>\<rparr>"
  show "maintenanceDrain (w_admission (mw_service ?w)) = b" by (simp add: SetMaintenanceDrain_def)
  have calm: "calm (mw_service ?w)" if "calm ?s" b
  proof -
    have "SetMaintenanceDrain (w_admission ?s) b = w_admission ?s"
      using that by (cases "w_admission ?s") (simp add: calm_def SetMaintenanceDrain_def)
    with that(1) show ?thesis by simp
  qed
  have "svc_inv (SetMaintenanceDrain (w_admission ?s) b, MaxRunning cap) (mw_service ?w)"
    using i by (simp add: minv_def svc_inv_drain)
  with i ok calm show "minv cap x ?w" by (auto simp: minv_def SetMaintenanceDrain_def)
qed

subsection \<open>The drain\<close>

lemma providerUnsafe_counts: "providerUnsafe st = CountsAsRunning st"
  by (cases st) auto

lemma calm_listed:
  assumes "svc_inv (w_admission s, m) s" "maintenanceDrain (w_admission s)" "unsafeWorkspaces (store_ListAll (w_rows s)) = []"
  shows "calm s"
proof -
  have "\<not> CountsAsRunning (ws_State r)" if "(k, r) \<in> set (w_rows s)" for k r
  proof -
    have "r \<in> set (store_ListAll (w_rows s))" using that by (force simp: store_ListAll_def)
    moreover have "filter (\<lambda>ws. providerUnsafe (ws_State ws)) (store_ListAll (w_rows s)) = []"
      using arg_cong [OF assms(3), of length] by (simp add: unsafeWorkspaces_def)
    ultimately show ?thesis by (auto simp: filter_empty_conv providerUnsafe_counts)
  qed
  then have "slots ow (w_rows s) = 0" "map_of (w_rows s) k = Some r \<Longrightarrow> \<not> accounted r" for ow k r
    by (auto simp: slots_def count_where_def holds_slot_def accounted_def filter_empty_conv dest: map_of_SomeD)
  with assms(1,2) show ?thesis by (auto simp: calm_def svc_inv_def limits_def)
qed

abbreviation drained :: "mworld \<Rightarrow> bool" where
  "drained w \<equiv> maintenanceDrain (w_admission (mw_service w))"

lemma steady_drained: "steady (mw_service w) (mw_service w') \<Longrightarrow> drained w \<Longrightarrow> drained w'"
  by (simp add: steady_def)

lemma wp_ListAll:
  assumes i: "minv cap x w" and d: "drained w"
    and err: "\<And>e w'. minv cap x w' \<Longrightarrow> drained w' \<Longrightarrow> Q (Inl e) w'"
    and ok: "\<And>vs w'. minv cap x w' \<Longrightarrow> drained w' \<Longrightarrow> (unsafeWorkspaces vs = [] \<Longrightarrow> calm (mw_service w')) \<Longrightarrow> Q (Inr vs) w'"
  shows "wp ListAll Q w"
  unfolding ListAll_def
proof (rule wp_service, unfold rows_read_def, rule wp_bind, rule wp_tick, intro wp_bind wp_get wp_ret, goal_cases)
  case (1 s)
  have "steady (mw_service w) s"
    using svc_inv_quiet [OF _ 1] 1 by (simp add: steady_def quiet_def)
  then have new: "minv cap x (w\<lparr>mw_service := s\<rparr>)" "drained (w\<lparr>mw_service := s\<rparr>)"
    using minv_steady [OF i] d by (auto simp: steady_def)
  have "unsafeWorkspaces (store_ListAll (w_rows s)) = [] \<Longrightarrow> calm s"
    using new by (intro calm_listed) (auto simp: minv_def)
  with new show ?case by (auto split: option.split intro: err ok)
qed

lemma wp_drain_workspace:
  assumes "minv cap x w" "drained w" and post: "\<And>q w'. minv cap x w' \<Longrightarrow> drained w' \<Longrightarrow> Q q w'"
  shows "wp (drain_workspace run value p) Q w"
proof -
  have next1: "wp (State_Monad.bind others (\<lambda>_. State_Monad.bind (service m) (\<lambda>r. ret (f r)))) Q v"
    if "minv cap x v" "drained v" "\<And>s. small s \<Longrightarrow> keeps m s" for m :: "'a svc" and f v
    by (rule wp_bind, rule wp_others [OF that(1,2)], rule wp_bind, rule wp_keeps, assumption)
       (use that in \<open>auto intro!: wp_ret post that(3) drain_small elim: steady_drained [rotated] simp: steady_def\<close>)
  have susp: "wp (drain_suspend value q) Q v" if "minv cap x v" "drained v" for q v
    unfolding drain_suspend_def by (rule next1 [OF that]) (rule keeps_small)
  have live: "wp (do {
      _ \<leftarrow> others;
      a \<leftarrow> service (outside (ws_ID value) (CheckpointCreate (ws_ProviderResourceID value) ''maintenance''));
      (case an_err a of
         Some e \<Rightarrow> if \<not> run_BestEffort run then ret (pass_failed e p) else drain_suspend value (pass_failed e p)
       | None \<Rightarrow> drain_suspend value (p\<lparr>dp_checkpointed := dp_checkpointed p + 1\<rparr>)) }) Q w"
    by (rule wp_bind, rule wp_others [OF assms(1,2)], rule wp_bind, rule wp_keeps [OF _ keeps_checkpoint], assumption)
       (use assms(2) in \<open>auto intro!: wp_option wp_if wp_ret post susp simp: steady_def\<close>)
  show ?thesis
    unfolding drain_workspace_def
    by (intro wp_if wp_ret post live susp next1 keeps_small assms(1,2))
qed

lemma wp_drain_each:
  assumes "minv cap x w" "drained w" "\<And>r w'. minv cap x w' \<Longrightarrow> drained w' \<Longrightarrow> Q r w'"
  shows "wp (drain_each run vs p) Q w"
  using assms
proof (induction vs arbitrary: p w)
  case (Cons v vs)
  show ?case
    unfolding drain_each.simps
  proof (rule wp_bind, rule wp_keeps [OF Cons.prems(1) keeps_ctx], rule wp_option, goal_cases)
    case (1 e w1)
    then show ?case
      by (intro wp_bind wp_drain_workspace [OF 1(1)] Cons.IH)
         (use Cons.prems in \<open>auto simp: steady_def\<close>)
  qed (use Cons.prems in \<open>auto intro!: wp_ret simp: steady_def\<close>)
qed (simp add: wp_ret)

abbreviation draining :: "capacity \<Rightarrow> maintenance_run \<Rightarrow> mworld \<Rightarrow> bool" where
  "draining cap r w \<equiv> minv cap (Some r) w \<and> drained w \<and> run_State r = StateDraining"

lemma draining_Active [simp]: "run_State r = StateDraining \<Longrightarrow> run_Active r"
  by (simp add: run_Active_def)

lemma wp_persist_progress:
  assumes d: "draining cap r w"
    and ok: "\<And>v w'. draining cap v w' \<Longrightarrow> successor r v \<Longrightarrow> Q (v, None) w'"
    and err: "\<And>v e w'. minv_any cap w' \<Longrightarrow> Q (v, Some e) w'"
  shows "wp (persist_progress (drain_progress r p) p) Q w"
proof (cases "dp_checkpointed p \<noteq> 0 \<or> dp_drained p \<noteq> 0 \<or> dp_failed p \<noteq> 0")
  case False
  then have "drain_progress r p = r" by (simp add: drain_progress_def)
  with False d show ?thesis by (auto simp: persist_progress_def successor_def intro!: wp_ret ok)
next
  case True
  have "wp mnt_now (\<lambda>now. wp (mnt_Transition (drain_progress r p\<lparr>run_UpdatedAt := now\<rparr>) StateDraining)
      (\<lambda>e. Q (drain_progress r p\<lparr>run_UpdatedAt := now\<rparr>, e))) w"
  proof (rule wp_mnt_now [OF conjunct1 [OF d]], rule wp_Transition, assumption, goal_cases)
    case (4 t w1 w2)
    then show ?case
      using d by (intro ok) (auto simp: drain_progress_def successor_def steady_def)
  next
    case (5 t w1 e w2)
    then show ?case by (intro err) (auto simp: minv_any_def)
  qed (use d in \<open>auto simp: successor_def drain_progress_def\<close>)
  with True show ?thesis by (auto simp: persist_progress_def Let_def intro!: wp_bind wp_ret elim!: wp_mono)
qed

lemma wp_markReady:
  assumes d: "draining cap r w" and calm: "calm (mw_service w)"
  shows "wp (markReady r) (\<lambda>_. minv_any cap) w"
  unfolding markReady_def Let_def
proof (rule wp_bind, rule wp_others, (use d in blast)+, rule wp_bind, rule wp_mnt_now, assumption, rule wp_bind, rule wp_Transition, assumption, goal_cases)
  case (2 w1 t w2)
  then show ?case using calm by (auto intro: steady_calm)
qed (use d in \<open>auto simp: successor_def run_Active_def intro!: wp_option wp_ret wp_activity dest: minv_anyI\<close>)

lemma wp_drain_passes:
  assumes "draining cap r w" "unsafeWorkspaces vs = [] \<Longrightarrow> calm (mw_service w)"
  shows "wp (drain_passes n r vs) (\<lambda>_. minv_any cap) w"
  using assms
proof (induction n arbitrary: r vs w)
  case (Suc n)
  show ?case
    unfolding drain_passes.simps
  proof (rule wp_if, rule wp_markReady [OF Suc.prems(1)], rule Suc.prems(2), assumption,
      rule wp_bind, rule wp_drain_each, (use Suc.prems in blast)+, rule wp_sum, goal_cases)
    case (2 x w1 p)
    then have "draining cap r w1" using Suc.prems by blast
    then show ?case
    proof (rule wp_bind [OF wp_persist_progress], goal_cases)
      case (1 v w2)
      have relist: "wp ListAll (\<lambda>l. wp (case l of
            Inl e \<Rightarrow> ret (Some (case dp_err p of Some f \<Rightarrow> f | None \<Rightarrow> e))
          | Inr vs \<Rightarrow> if dp_err p \<noteq> None \<and> unsafeWorkspaces vs \<noteq> [] then ret (dp_err p) else drain_passes n v vs)
          (\<lambda>_. minv_any cap)) w3"
        if "minv cap (Some v) w3" "drained w3" for w3
        by (rule wp_ListAll [OF that]; intro wp_sum wp_if wp_ret)
           (use 1(1) in \<open>auto intro: minv_anyI intro!: Suc.IH\<close>)
      have "wp others (\<lambda>_. wp ListAll (\<lambda>l. wp (case l of
            Inl e \<Rightarrow> ret (Some (case dp_err p of Some f \<Rightarrow> f | None \<Rightarrow> e))
          | Inr vs \<Rightarrow> if dp_err p \<noteq> None \<and> unsafeWorkspaces vs \<noteq> [] then ret (dp_err p) else drain_passes n v vs)
          (\<lambda>_. minv_any cap))) w2"
        by (rule wp_others [of cap "Some v"]) (use 1(1) in \<open>auto intro: relist simp: steady_def\<close>)
      then show ?case
        unfolding prod.sel option.case by - (rule wp_bind, erule wp_mono, rule wp_bind, simp)
    qed (auto intro!: wp_ret)
  qed (auto intro!: wp_ret minv_anyI)
qed (auto intro!: wp_ret minv_anyI)

lemma wp_drain:
  assumes "minv cap (Some r) w" "run_State r = StateDraining"
  shows "wp (drain r) (\<lambda>_. minv_any cap) w"
  unfolding drain_def
proof (rule wp_bind, rule wp_set_drain [OF assms(1)], simp, rule wp_bind, rule wp_others, assumption, simp,
    rule wp_bind, rule wp_keeps [OF _ keeps_begin], assumption, rule wp_option, goal_cases)
  case (1 w1 w2 e w3)
  then have "drained w3" by (simp add: steady_def)
  with 1 assms(2) show ?case
    by (auto intro!: wp_bind wp_others [of cap "Some r"] wp_ListAll [of cap "Some r"] wp_keeps [OF _ keeps_release, of cap "Some r"]
          wp_sum wp_ret wp_drain_passes minv_anyI simp: steady_def elim: steady_calm [rotated])
qed (auto intro!: wp_ret minv_anyI)


subsection \<open>The operations of the coordinator\<close>

lemma successor_refl [simp]: "successor r r"
  by (simp add: successor_def)

lemma wp_warn_run:
  assumes i: "minv cap (Some r) w"
    and ok: "\<And>v w'. minv cap (Some v) w' \<Longrightarrow> quiesced (run_State v) = quiesced (run_State r) \<Longrightarrow> Q (v, None) w'"
    and err: "\<And>v e w'. minv_any cap w' \<Longrightarrow> Q (v, Some e) w'"
  shows "wp (warn_run r now) Q w"
  unfolding warn_run_def Let_def
proof (intro wp_if, goal_cases)
  case 1
  let ?v = "r\<lparr>run_State := StateWarning, run_UpdatedAt := now\<rparr>"
  show ?case
  proof (rule wp_bind, rule wp_Transition [OF i, of ?v], goal_cases)
    case (4 w')
    then have v: "minv cap (Some ?v) w'" by (simp add: run_Active_def)
    have "Q (?v, e) w''" if "minv cap (Some ?v) w''" for e w''
      using 1 that by (cases e) (auto intro: ok err minv_anyI)
    then show ?case by (auto intro!: wp_bind wp_ret wp_add_activity [OF v])
  next
    case (5 e w')
    then have "minv_any cap w'" by (auto dest: minv_anyI)
    then show ?case by (auto intro!: wp_ret err)
  qed (simp_all add: successor_def)
qed (auto intro!: wp_ret ok i)

lemma wp_start_drain:
  assumes i: "minv cap (Some r) w"
    and ok: "\<And>v w'. minv cap (Some v) w' \<Longrightarrow> Q (v, None) w'"
    and err: "\<And>v e w'. minv_any cap w' \<Longrightarrow> Q (v, Some e) w'"
  shows "wp (start_drain r now) Q w"
  unfolding start_drain_def Let_def
  by (intro wp_if wp_ret ok i, rule wp_bind, rule wp_Transition [OF i])
     (auto simp: successor_def run_Active_def intro!: wp_ret ok dest: minv_anyI intro: err)

lemma wp_RunOnce:
  assumes "minv cap x w"
  shows "wp RunOnce (\<lambda>_. minv_any cap) w"
  unfolding RunOnce_def
proof (rule wp_bind, rule wp_mnt_Active [OF assms], goal_cases)
  case (3 r w1)
  then have r: "minv cap (Some r) w1" by simp
  show ?case
    unfolding sum.case
  proof (rule wp_bind, rule wp_mnt_now [OF r], rule wp_bind, rule wp_warn_run, assumption, goal_cases)
    case (1 t w2 v w3)
    then show ?case
      unfolding prod.sel option.case
      by (intro wp_bind) (rule wp_start_drain, auto intro!: wp_if wp_ret wp_drain intro: minv_anyI)
  qed (auto intro!: wp_ret)
qed (auto intro!: wp_ret intro: minv_anyI)

lemma wp_transition:
  assumes i: "minv cap x w" and q: "quiesced target \<Longrightarrow> quiesced expected"
  shows "wp (transition runID expected target reboot message) (\<lambda>_. minv_any cap) w"
  unfolding transition_def Let_def
proof (rule wp_bind, rule wp_mnt_Active [OF i], goal_cases)
  case (3 r w1)
  then have r: "minv cap (Some r) w1" by simp
  show ?case
    unfolding sum.case
  proof (rule wp_if, goal_cases)
    case 2
    have calm: "calm (mw_service w2)" if "quiesced target" "minv cap (Some r) w2" for w2
      using 2 q that by (auto simp: minv_def)
    show ?case
      by (rule wp_bind, rule wp_mnt_now [OF r], rule wp_bind, rule wp_Transition, assumption)
         (auto simp: successor_def intro!: wp_ret calm dest: minv_anyI)
  qed (use r in \<open>auto intro!: wp_ret minv_anyI\<close>)
qed (auto intro!: wp_ret intro: minv_anyI)

lemma wp_BeginUpdate: "minv cap x w \<Longrightarrow> wp (BeginUpdate k) (\<lambda>_. minv_any cap) w"
  and wp_UpdateApplied: "minv cap x w \<Longrightarrow> wp (UpdateApplied k b) (\<lambda>_. minv_any cap) w"
  and wp_BeginVerification: "minv cap x w \<Longrightarrow> wp (BeginVerification k) (\<lambda>_. minv_any cap) w"
  by (auto simp: BeginUpdate_def UpdateApplied_def BeginVerification_def intro: wp_transition)

lemma wp_record: "minv_any cap w \<Longrightarrow> wp (record_maintenance b) (\<lambda>_. minv_any cap) w"
  unfolding record_maintenance_def by (auto simp: minv_any_def intro!: wp_bind wp_get wp_set)

lemma wp_set_drain_off: "minv cap x w \<Longrightarrow> (\<And>r. x = Some r \<Longrightarrow> \<not> quiesced (run_State r)) \<Longrightarrow>
    wp (set_drain False) (\<lambda>_. minv_any cap) w"
  by (rule wp_set_drain) (auto intro: minv_anyI)

lemma wp_finish:
  assumes "minv cap x w" "\<And>r. x = Some r \<Longrightarrow> \<not> quiesced (run_State r)"
    and post: "\<And>w'. minv_any cap w' \<Longrightarrow> wp m Q w'"
  shows "wp (State_Monad.bind (set_drain False) (\<lambda>_. State_Monad.bind (record_maintenance b) (\<lambda>_. m))) Q w"
  by (rule wp_bind, rule wp_mono [OF wp_set_drain_off [OF assms(1,2)]], assumption,
      rule wp_bind, rule wp_mono [OF wp_record], assumption, rule post)

lemma wp_fail_run:
  assumes i: "minv cap (Some r) w" and st: "run_State r = StateVerifying" and post: "\<And>e w'. minv_any cap w' \<Longrightarrow> Q e w'"
  shows "wp (fail_run r cause) Q w"
proof -
  have finish: "wp (do { _ \<leftarrow> set_drain False; _ \<leftarrow> record_maintenance False; ret cause }) Q w'"
    if "minv cap (Some r) w' \<or> minv cap None w'" for w'
    using that
  proof
    assume "minv cap (Some r) w'"
    then show ?thesis by (rule wp_finish) (use st in \<open>auto intro: wp_ret post\<close>)
  next
    assume "minv cap None w'"
    then show ?thesis by (rule wp_finish) (auto intro: wp_ret post)
  qed
  show ?thesis
    unfolding fail_run_def
    by (rule wp_bind, rule wp_mnt_now [OF i], rule wp_bind, rule wp_Transition, assumption)
       (auto simp: successor_def run_Active_def intro: finish)
qed

lemma wp_Complete:
  assumes i: "minv cap x w"
  shows "wp (Complete k) (\<lambda>_. minv_any cap) w"
  unfolding Complete_def Let_def
proof (rule wp_bind, rule wp_mnt_Active [OF i], goal_cases)
  case (3 r w1)
  then have r: "minv cap (Some r) w1" by simp
  show ?case
    unfolding sum.case Ping_def
  proof (rule wp_if, goal_cases)
    case 2
    then have st: "run_State r = StateVerifying" by simp
    show ?case
    proof (intro wp_bind, rule wp_keeps [OF r keeps_tick], intro wp_ret, rule wp_option, goal_cases)
      case (1 a w2)
      show ?case
      proof (rule wp_bind, rule wp_mnt_now [OF 1(1)], rule wp_bind, rule wp_Transition, assumption, goal_cases)
        case (4 t w3 w4)
        then have "minv cap None w4" by (simp add: run_Active_def)
        then show ?case
          unfolding option.case by (rule wp_finish) (auto intro!: wp_bind wp_ret elim: wp_mono [OF wp_activity])
      qed (auto simp: successor_def run_Active_def intro!: wp_ret dest: minv_anyI)
    next
      case (2 a w2 e)
      show ?case by (rule wp_bind, rule wp_fail_run [OF 2(1) st]) (rule wp_ret)
    qed
  qed (use r in \<open>auto intro!: wp_ret minv_anyI\<close>)
qed (auto intro!: wp_ret intro: minv_anyI)

lemma wp_Cancel:
  assumes i: "minv cap x w"
  shows "wp (Cancel ow k) (\<lambda>_. minv_any cap) w"
  unfolding Cancel_def Let_def
proof (rule wp_bind, rule wp_mnt_Active [OF i], goal_cases)
  case (3 r w1)
  then have r: "minv cap (Some r) w1" by simp
  show ?case
    unfolding sum.case
  proof (rule wp_if, goal_cases)
    case 2
    show ?case
    proof (rule wp_bind, rule wp_mnt_now [OF r], rule wp_bind, rule wp_Transition, assumption, goal_cases)
      case (4 t w3 w4)
      then have "minv cap None w4" by (simp add: run_Active_def)
      then show ?case
        unfolding option.case by (intro wp_bind) (rule wp_mono [OF wp_set_drain_off], auto intro: wp_ret)
    qed (auto simp: successor_def run_Active_def intro!: wp_ret dest: minv_anyI)
  qed (use r in \<open>auto intro!: wp_ret minv_anyI\<close>)
qed (auto intro!: wp_ret intro: minv_anyI)

lemma sole_Create:
  assumes "sole None rs" "runs_Create v rs = (e, rs')" "run_Active v"
  shows "sole (if e = None then Some v else None) rs'"
proof (cases "e = None")
  case True
  with assms have "rs' = rs @ [v]" "run_ID v \<notin> run_ID ` set rs"
    by (auto simp: runs_Create_def split: option.splits if_splits)
  with assms True show ?thesis by (simp add: sole_def)
next
  case False
  with assms show ?thesis by (auto simp: runs_Create_def split: option.splits if_splits)
qed

lemma wp_create_run:
  assumes i: "minv cap None w" and v: "\<And>v. r = Inr v \<Longrightarrow> run_State v = StateScheduled"
  shows "wp (create_run r) (\<lambda>_. minv_any cap) w"
proof (cases r)
  case (Inr v)
  then have st: "run_Active v" "\<not> quiesced (run_State v)" using v by (auto simp: run_Active_def)
  have sole: "sole None (mw_runs w)" using i by (simp add: minv_def)
  have keep: "minv_any cap (w'\<lparr>mw_runs := s\<rparr>)" if w': "minv cap None w'" "mw_runs w' = mw_runs w"
      and s: "s = snd (runs_Create v (mw_runs w)) \<or> s = mw_runs w" for w' s
  proof (cases "s = mw_runs w")
    case True
    then show ?thesis using w' by (auto simp: minv_any_def minv_def)
  next
    case False
    with s obtain e where "runs_Create v (mw_runs w) = (e, s)" by (metis prod.collapse)
    from sole_Create [OF sole this st(1)] show ?thesis
      by (intro minv_anyI minv_runs [OF w'(1)]) (use st in \<open>auto split: if_splits\<close>)
  qed
  show ?thesis
    unfolding create_run_def Inr sum.case mnt_Create_def
    by (rule wp_bind, rule wp_runs_write [OF i]) (auto intro!: wp_ret keep)
qed (use i in \<open>auto simp: create_run_def intro: wp_ret minv_anyI\<close>)

lemma wp_newRun:
  assumes "minv cap x w"
    and "\<And>r w'. minv cap x w' \<Longrightarrow> (\<And>v. r = Inr v \<Longrightarrow> run_State v = StateScheduled) \<Longrightarrow> Q r w'"
  shows "wp (newRun ow u b s wn t) Q w"
  unfolding newRun_def
  by (rule wp_bind, rule wp_keeps [OF assms(1) keeps_tick], rule wp_ret, rule assms(2)) (auto split: option.splits if_splits)


lemma wp_supersede:
  assumes i: "minv cap x w" and r: "\<And>r'. r = Inr r' \<Longrightarrow> x = Some r'" and n: "\<And>e. r = Inl e \<Longrightarrow> err_is e = ErrNotFound \<Longrightarrow> x = None"
    and ok: "\<And>w'. minv cap None w' \<Longrightarrow> Q None w'"
    and err: "\<And>e w'. minv_any cap w' \<Longrightarrow> Q (Some e) w'"
  shows "wp (supersede ow r) Q w"
proof (cases r)
  case (Inl e)
  then show ?thesis using i n by (auto simp: supersede_def intro!: wp_ret ok err minv_anyI)
next
  case (Inr v)
  with i r have v: "minv cap (Some v) w" by simp
  show ?thesis
    unfolding supersede_def Inr sum.case
    by (intro wp_if wp_ret err minv_anyI [OF v], rule wp_bind, rule wp_mnt_now [OF v], rule wp_Transition, assumption)
       (auto simp: successor_def run_Active_def intro: ok dest: minv_anyI intro!: err)
qed

lemma wp_ScheduleWeekly:
  assumes i: "minv cap x w"
  shows "wp (ScheduleWeekly c ow) (\<lambda>_. minv_any cap) w"
  unfolding ScheduleWeekly_def Let_def
proof (intro wp_if wp_ret minv_anyI [OF i], rule wp_bind, rule wp_mnt_Active [OF i], goal_cases)
  case (1 w1)
  then have n: "minv cap None w1" by simp
  show ?case
    unfolding sum.case
    by (intro wp_if wp_ret minv_anyI [OF n], rule wp_bind, rule wp_mnt_now [OF n], rule wp_bind, rule wp_newRun, assumption)
       (auto intro: wp_create_run)
qed (auto intro!: wp_ret intro: minv_anyI)

lemma wp_ScheduleUrgent:
  assumes i: "minv cap x w"
  shows "wp (ScheduleUrgent c ow) (\<lambda>_. minv_any cap) w"
  unfolding ScheduleUrgent_def Let_def
proof (intro wp_if wp_ret minv_anyI [OF i], rule wp_bind)
  have next1: "wp (supersede ow r) (\<lambda>e. wp (case e of
        Some e \<Rightarrow> ret (Inl e)
      | None \<Rightarrow> do {
          now \<leftarrow> mnt_now;
          run \<leftarrow> newRun ow True True (now + mc_UrgentWarningLead c) now now;
          create_run run }) (\<lambda>_. minv_any cap)) w1"
    if "minv cap x w1" "\<And>r'. r = Inr r' \<Longrightarrow> x = Some r'" "\<And>e. r = Inl e \<Longrightarrow> err_is e = ErrNotFound \<Longrightarrow> x = None" for r w1
  proof (rule wp_supersede [OF that], assumption+, goal_cases)
    case (1 w2)
    show ?case
      unfolding option.case
      by (rule wp_bind, rule wp_mnt_now [OF 1], rule wp_bind, rule wp_newRun, assumption) (auto intro: wp_create_run)
  qed (auto intro!: wp_ret)
  show "wp mnt_Active (\<lambda>r. wp (State_Monad.bind (supersede ow r) (\<lambda>e. case e of
        Some e \<Rightarrow> ret (Inl e)
      | None \<Rightarrow> do {
          now \<leftarrow> mnt_now;
          run \<leftarrow> newRun ow True True (now + mc_UrgentWarningLead c) now now;
          create_run run })) (\<lambda>_. minv_any cap)) w"
    by (rule wp_mnt_Active [OF i]; intro wp_bind next1) auto
qed

lemma wp_runs_read:
  assumes "minv cap x w" "\<And>r w'. minv cap x w' \<Longrightarrow> Q r w'"
  shows "wp (runs_read f) Q w"
  unfolding runs_read_def
  by (rule wp_bind, rule wp_keeps [OF assms(1) keeps_tick]) (auto intro!: wp_bind wp_get wp_ret assms(2))

lemma wp_Status:
  assumes "minv cap x w" "\<And>r w'. minv cap x w' \<Longrightarrow> Q r w'"
  shows "wp (Status ow) Q w"
  unfolding Status_def mnt_Active_def
  by (intro wp_if wp_ret assms(2) [OF assms(1)], rule wp_bind, rule wp_runs_read [OF assms(1)])
     (auto intro!: wp_sum wp_if wp_ret wp_runs_read assms(2))

subsection \<open>Restarts\<close>

text \<open>
  A restarted process has a fresh admission controller, open until \<^verbatim>\<open>Recover\<close> has read the table. The
  invariant at that moment is that of the world with the drain flag set.
\<close>

definition with_drain :: "bool \<Rightarrow> mworld \<Rightarrow> mworld" where
  "with_drain b w = w\<lparr>mw_service := (mw_service w)\<lparr>w_admission := SetMaintenanceDrain (w_admission (mw_service w)) b\<rparr>\<rparr>"

lemma with_drain_simps [simp]:
  "mw_runs (with_drain b w) = mw_runs w" "w_rows (mw_service (with_drain b w)) = w_rows (mw_service w)"
  "with_drain b (with_drain d w) = with_drain b w"
  by (simp_all add: with_drain_def SetMaintenanceDrain_def)

lemma wp_set_drain_with: "wp (set_drain b) Q w = Q () (with_drain b w)"
  by (simp add: set_drain_def with_drain_def wp_def Let_def)

lemma quiet_with_drain:
  assumes "minv cap x (with_drain True w)" "quiet (mw_service w) s"
  shows "minv cap x (with_drain True (w\<lparr>mw_service := s\<rparr>))"
proof -
  let ?d = "\<lambda>v. v\<lparr>w_admission := SetMaintenanceDrain (w_admission (mw_service w)) True\<rparr>"
  have q: "quiet (?d (mw_service w)) (?d s)" using assms(2) by (simp add: quiet_def)
  have "steady (?d (mw_service w)) (?d s)" using svc_inv_quiet [OF _ q] by (simp add: steady_def)
  from minv_steady [OF assms(1) [unfolded with_drain_def], of "?d s"] this
  show ?thesis using assms(2) by (simp add: with_drain_def quiet_def)
qed

lemma wp_boot_Active:
  assumes i: "minv cap x (with_drain True w)"
    and post: "\<And>r w'. minv cap x (with_drain True w') \<Longrightarrow> (\<And>v. r = Inr v \<Longrightarrow> x = Some v) \<Longrightarrow>
      (\<And>e. r = Inl e \<Longrightarrow> err_is e = ErrNotFound \<Longrightarrow> x = None) \<Longrightarrow> Q r w'"
  shows "wp mnt_Active Q w"
  unfolding mnt_Active_def runs_read_def
proof (rule wp_bind, rule wp_service, rule wp_tick, intro wp_bind wp_get wp_ret post, goal_cases)
  case (1 s)
  show ?case by (rule quiet_with_drain [OF i 1])
next
  case (2 s v)
  have "sole x (mw_runs w)" using i by (simp add: minv_def)
  from runs_Active_sole(1) [OF this] 2 show ?case by (auto split: option.splits)
next
  case (3 s e)
  have "sole x (mw_runs w)" using i by (simp add: minv_def)
  from runs_Active_sole(2) [OF this] 3 show ?case by (auto simp: query_error_def split: option.splits if_splits)
qed

lemma drain_state_quiesced: "quiesced st \<Longrightarrow> drain_state st"
  by (cases st) auto

lemma wp_Recover:
  assumes i: "minv cap x (with_drain True w)"
  shows "wp Recover (\<lambda>e w'. e = None \<longrightarrow> minv_any cap w') w"
  unfolding Recover_def
proof (rule wp_bind, rule wp_boot_Active [OF i], rule wp_sum, goal_cases)
  case (1 r w1 e)
  have "minv_any cap (with_drain False w1)" if "x = None"
    using wp_set_drain_off [OF 1(1)] that by (auto simp: wp_set_drain_with)
  with 1 show ?case by (auto intro!: wp_if wp_ret wp_bind simp: wp_set_drain_with)
next
  case (2 r w1 v)
  have "minv_any cap (with_drain (drain_state (run_State v)) w1)"
  proof (cases "drain_state (run_State v)")
    case True
    with 2(1) show ?thesis by (auto intro: minv_anyI)
  next
    case False
    with 2(2,4) drain_state_quiesced wp_set_drain_off [OF 2(1)] show ?thesis
      by (fastforce simp: wp_set_drain_with)
  qed
  then show ?case by (auto intro!: wp_ret wp_bind simp: wp_set_drain_with)
qed

subsection \<open>Reachable worlds\<close>

datatype mnt_call = CallService svc_call | CallStatus string | CallSchedule string bool | CallCancel string string
  | CallAdvance string string string "bool option" | CallScan string

fun mnt_run :: "maintenance_config \<Rightarrow> mnt_call \<Rightarrow> mworld \<Rightarrow> mworld" where
  "mnt_run c (CallService call) w = w\<lparr>mw_service := svc_run call (mw_service w)\<rparr>"
| "mnt_run c (CallStatus owner) w = snd (run_state (Status owner) w)"
| "mnt_run c (CallSchedule owner urgent) w = snd (run_state (ScheduleMaintenance c owner urgent) w)"
| "mnt_run c (CallCancel owner k) w = snd (run_state (CancelMaintenance owner k) w)"
| "mnt_run c (CallAdvance owner k action reboot) w = snd (run_state (AdvanceMaintenance owner k action reboot) w)"
| "mnt_run c (CallScan owner) w = snd (run_state (runMaintenanceScheduler c owner) w)"

text \<open>A process that fails to recover does not start.\<close>

inductive mnt_reach :: "maintenance_config \<Rightarrow> mworld \<Rightarrow> mworld \<Rightarrow> bool" for c and w0 where
  mnt_refl: "mnt_reach c w0 w0"
| mnt_call: "mnt_reach c w0 w \<Longrightarrow> small (mw_service w) \<Longrightarrow> mnt_reach c w0 (mnt_run c call w)"
| mnt_restart: "mnt_reach c w0 w \<Longrightarrow> NewService True ps (mw_service (with_drain False w)) = Inr s \<Longrightarrow>
    run_state Recover (w\<lparr>mw_service := s\<rparr>) = (None, w') \<Longrightarrow> mnt_reach c w0 w'"

lemma minv_any_elim: "minv_any cap w \<Longrightarrow> (\<And>x. minv cap x w \<Longrightarrow> wp m Q w) \<Longrightarrow> wp m Q w"
  by (auto simp: minv_any_def)

lemma wp_AdvanceMaintenance:
  assumes "minv cap x w"
  shows "wp (AdvanceMaintenance ow k action reboot) (\<lambda>_. minv_any cap) w"
  unfolding AdvanceMaintenance_def
  by (intro wp_if wp_ret minv_anyI [OF assms], rule wp_bind, rule wp_Status [OF assms],
      intro wp_sum wp_if wp_option wp_ret) (assumption | rule minv_anyI wp_BeginUpdate wp_UpdateApplied wp_BeginVerification wp_Complete)+

lemma mnt_run_inv:
  assumes "minv_any cap w" "small (mw_service w)"
  shows "minv_any cap (mnt_run c call w)"
proof -
  obtain x where i: "minv cap x w" using assms(1) by (auto simp: minv_any_def)
  note run = wp_run [of _ "minv_any cap"]
  show ?thesis
  proof (cases call)
    case (CallService call)
    have "svc_inv c (svc_run call (mw_service w))" if "svc_inv c (mw_service w)" for c
      by (rule svc_run_inv [OF that assms(2)])
    from svc_inv_admission [OF this] i this have "steady (mw_service w) (svc_run call (mw_service w))"
      by (fastforce simp: steady_def minv_def)
    with minv_steady [OF i] CallService show ?thesis by (auto intro: minv_anyI)
  next
    case (CallScan owner)
    have "wp (runMaintenanceScheduler c owner) (\<lambda>_. minv_any cap) w"
      unfolding runMaintenanceScheduler_def
      by (intro wp_bind, rule wp_mono [OF wp_ScheduleWeekly [OF i]], intro wp_bind, erule minv_any_elim,
          rule wp_mono [OF wp_RunOnce], assumption, rule wp_ret)
    with run CallScan show ?thesis by simp
  next
    case (CallStatus owner)
    have "wp (Status owner) (\<lambda>_. minv_any cap) w" by (rule wp_Status [OF i]) (rule minv_anyI)
    with run CallStatus show ?thesis by simp
  next
    case (CallSchedule owner urgent)
    show ?thesis
      using run [OF wp_ScheduleWeekly [OF i]] run [OF wp_ScheduleUrgent [OF i]]
      by (simp add: CallSchedule ScheduleMaintenance_def)
  next
    case (CallCancel owner k)
    show ?thesis using run [OF wp_Cancel [OF i]] assms(1) by (simp add: CallCancel CancelMaintenance_def)
  next
    case (CallAdvance owner k action reboot)
    show ?thesis using run [OF wp_AdvanceMaintenance [OF i]] by (simp add: CallAdvance)
  qed
qed

lemma mnt_restart_inv:
  assumes "minv_any cap w" "NewService True ps (mw_service (with_drain False w)) = Inr s"
    "run_state Recover (w\<lparr>mw_service := s\<rparr>) = (None, w')"
  shows "minv_any cap w'"
proof -
  obtain x where "minv cap x w" using assms(1) by (auto simp: minv_any_def)
  then have "minv cap x (with_drain True w)"
    by (rule wp_set_drain [of cap x w True "\<lambda>_. minv cap x", unfolded wp_set_drain_with]) auto
  then have "minv cap x (with_drain True (w\<lparr>mw_service := s\<rparr>))"
    using assms(2) by (auto simp: minv_def NewService_def with_drain_def calm_def SetMaintenanceDrain_def svc_inv_def split: if_splits)
  from wp_Recover [OF this] assms(3) show ?thesis by (simp add: wp_def)
qed

lemma mnt_reach_inv: "mnt_reach c w0 w \<Longrightarrow> minv_any cap w0 \<Longrightarrow> minv_any cap w"
  by (induction rule: mnt_reach.induct) (auto intro: mnt_run_inv mnt_restart_inv)


subsection \<open>Properties\<close>

definition mnt_start :: "controller \<Rightarrow> mworld \<Rightarrow> bool" where
  "mnt_start c w \<longleftrightarrow> svc_start c (mw_service w) \<and> mw_runs w = []"

lemma mnt_start_inv:
  assumes "mnt_start c w" and "mnt_reach cf w w'"
  shows "minv_any (ctl_capacity c) w'"
proof -
  have "w_admission (mw_service w) = c" using assms(1) by (simp add: mnt_start_def svc_start_def)
  then have "minv (ctl_capacity c) None w"
    using assms(1) svc_start_inv [of c "mw_service w"] by (simp add: minv_def mnt_start_def sole_def)
  then show ?thesis by (rule mnt_reach_inv [OF assms(2) minv_anyI])
qed


text \<open>There is never more than one maintenance run that has not ended, for any owner.\<close>

theorem one_active_run:
  assumes "mnt_start c w0" and "mnt_reach cf w0 w"
  shows "length (filter run_Active (mw_runs w)) \<le> 1 \<and> distinct (map run_ID (mw_runs w))"
proof -
  obtain x where "minv (ctl_capacity c) x w" using mnt_start_inv [OF assms] by (auto simp: minv_any_def)
  then show ?thesis by (auto simp: minv_def sole_def split: option.splits)
qed

end
