(* ===== verification/Maintenance_Lifecycle.thy ===== *)
theory Maintenance_Lifecycle
  imports Maintenance_Safety
begin

text \<open>
  The life cycle of maintenance runs as a state machine of its own, and the proof that every
  operation of the coordinator refines it: rows are only appended or moved along its edges. Then the
  weekly window and the configuration.
\<close>

subsection \<open>The abstract life cycle\<close>

inductive lifecycle :: "maintenance_state \<Rightarrow> maintenance_state \<Rightarrow> bool" where
  warn: "lifecycle StateScheduled StateWarning"
| start: "lifecycle StateWarning StateDraining"
| ready: "lifecycle StateDraining StateReadyForUpdate"
| update: "lifecycle StateReadyForUpdate StateUpdating"
| reboot: "lifecycle StateUpdating StateRebootRequired"
| applied: "lifecycle StateUpdating StateVerifying"
| verify: "lifecycle StateRebootRequired StateVerifying"
| complete: "lifecycle StateVerifying StateCompleted"
| fail: "lifecycle StateVerifying StateFailed"
| cancel_scheduled: "lifecycle StateScheduled StateCancelled"
| cancel_warned: "lifecycle StateWarning StateCancelled"

inductive_cases lifecycle_from: "lifecycle st st'"

code_pred lifecycle .

lemma lifecycle_terminal: "lifecycle st st' \<Longrightarrow> \<not> terminal_state st"
  by (auto elim: lifecycle.cases)

lemma lifecycle_star_terminal: "lifecycle\<^sup>*\<^sup>* st st' \<Longrightarrow> terminal_state st \<Longrightarrow> st' = st"
  by (induction rule: converse_rtranclp_induct) (auto dest: lifecycle_terminal)

text \<open>What may become of a row, and of the table.\<close>

definition run_evolves :: "maintenance_run \<Rightarrow> maintenance_run \<Rightarrow> bool" where
  "run_evolves r r' \<longleftrightarrow> lifecycle\<^sup>*\<^sup>* (run_State r) (run_State r') \<and> run_ID r' = run_ID r
     \<and> run_OwnerID r' = run_OwnerID r \<and> run_CreatedAt r' = run_CreatedAt r
     \<and> (terminal_state (run_State r) \<longrightarrow> r' = r)"

definition table_evolves :: "maintenance_run list \<Rightarrow> maintenance_run list \<Rightarrow> bool" where
  "table_evolves rs rs' \<longleftrightarrow> (\<exists>ss new. rs' = ss @ new \<and> list_all2 run_evolves rs ss)"

lemma run_evolves_refl [simp]: "run_evolves r r"
  by (simp add: run_evolves_def)

lemma run_evolves_trans: "run_evolves a b \<Longrightarrow> run_evolves b c \<Longrightarrow> run_evolves a c"
  by (auto simp: run_evolves_def)

lemma table_evolves_refl [simp]: "table_evolves rs rs"
  unfolding table_evolves_def
  by (rule exI [of _ rs], rule exI [of _ "[]"]) (simp add: list.rel_refl)

lemma table_evolves_trans:
  assumes "table_evolves a b" "table_evolves b c"
  shows "table_evolves a c"
proof -
  obtain s1 n1 where 1: "b = s1 @ n1" "list_all2 run_evolves a s1" using assms(1) by (auto simp: table_evolves_def)
  obtain s2 n2 where 2: "c = s2 @ n2" "list_all2 run_evolves b s2" using assms(2) by (auto simp: table_evolves_def)
  obtain t1 t2 where 3: "s2 = t1 @ t2" "list_all2 run_evolves s1 t1"
    using 2(2) [unfolded 1(1) list_all2_append1] by (elim exE conjE)
  have "list_all2 run_evolves a t1" by (rule list_all2_trans [OF _ 1(2) 3(2)]) (rule run_evolves_trans)
  then show ?thesis unfolding table_evolves_def 2(1) 3(1) by auto
qed

subsection \<open>Every operation refines it\<close>

lemma evolves_Create: "table_evolves rs (snd (runs_Create v rs))"
proof -
  have "table_evolves rs (rs @ [v])"
    unfolding table_evolves_def by (rule exI [of _ rs], rule exI [of _ "[v]"]) (simp add: list.rel_refl)
  then show ?thesis by (simp add: runs_Create_def split: option.split)
qed

lemma evolves_Transition:
  assumes "lifecycle\<^sup>*\<^sup>* st (run_State v)" "\<not> terminal_state st"
  shows "table_evolves rs (snd (runs_Transition v st rs))"
proof -
  let ?hit = "\<lambda>r. run_ID r = run_ID v \<and> run_OwnerID r = run_OwnerID v \<and> run_State r = st"
  let ?f = "\<lambda>r. if ?hit r then v\<lparr>run_CreatedAt := run_CreatedAt r\<rparr> else r"
  have "run_evolves r (?f r)" for r using assms by (auto simp: run_evolves_def)
  then have "list_all2 run_evolves rs (map ?f rs)" by (simp add: list.rel_map list.rel_refl)
  then have "table_evolves rs (map ?f rs)" unfolding table_evolves_def by (intro exI [of _ "map ?f rs"] exI [of _ "[]"]) simp
  then show ?thesis by (simp add: runs_Transition_def Let_def split: option.split)
qed

text \<open>A computation that only lets the table evolve, and what its result satisfies.\<close>

definition ev :: "('a \<Rightarrow> bool) \<Rightarrow> 'a mnt \<Rightarrow> bool" where
  "ev P m \<longleftrightarrow> (\<forall>w. table_evolves (mw_runs w) (mw_runs (snd (run_state m w))) \<and> P (fst (run_state m w)))"

abbreviation any :: "'a \<Rightarrow> bool" where "any \<equiv> \<lambda>_. True"

lemma ev_ret: "P r \<Longrightarrow> ev P (ret r)"
  by (simp add: ev_def)

lemma ev_bind:
  assumes "ev R m" "\<And>r. R r \<Longrightarrow> ev P (f r)"
  shows "ev P (State_Monad.bind m f)"
proof -
  have "table_evolves (mw_runs w) (mw_runs (snd (run_state (f r) w'))) \<and> P (fst (run_state (f r) w'))"
    if "run_state m w = (r, w')" for w r w'
    using assms(1) assms(2) [of r] that by (auto simp: ev_def dest!: spec [of _ w] intro: table_evolves_trans)
  then show ?thesis by (auto simp: ev_def State_Monad.bind_def split: prod.splits)
qed

lemma ev_if: "(b \<Longrightarrow> ev P m) \<Longrightarrow> (\<not> b \<Longrightarrow> ev P n) \<Longrightarrow> ev P (if b then m else n)"
  by simp

lemma ev_option:
  "(x = None \<Longrightarrow> ev P m) \<Longrightarrow> (\<And>e. x = Some e \<Longrightarrow> ev P (f e)) \<Longrightarrow> ev P (case x of None \<Rightarrow> m | Some e \<Rightarrow> f e)"
  by (cases x) auto

lemma ev_sum:
  "(\<And>e. x = Inl e \<Longrightarrow> ev P (f e)) \<Longrightarrow> (\<And>v. x = Inr v \<Longrightarrow> ev P (g v)) \<Longrightarrow> ev P (case x of Inl e \<Rightarrow> f e | Inr v \<Rightarrow> g v)"
  by (cases x) auto

lemma ev_service: "ev any (service m)"
  by (simp add: ev_def service_def split: prod.splits)

lemma ev_now: "ev any mnt_now" and ev_ListAll: "ev any ListAll"
  by (simp_all add: mnt_now_def ListAll_def ev_service)

lemma ev_steps: "ev any others" "ev any (set_drain b)" "ev any (record_maintenance ok)"
  by (simp_all add: ev_def others_def set_drain_def record_maintenance_def Let_def)

lemma ev_read: "ev (\<lambda>r. \<forall>v. r = Inr v \<longrightarrow> (\<exists>rs. f rs = Inr v)) (runs_read f)"
  by (auto simp: ev_def runs_read_def service_def split: prod.splits option.splits)

lemma ev_write: "(\<And>rs. table_evolves rs (snd (f rs))) \<Longrightarrow> ev any (runs_write f)"
  by (auto simp: ev_def runs_write_def service_def split: prod.splits option.splits)

lemma ev_Create: "ev any (mnt_Create v)"
  unfolding mnt_Create_def by (rule ev_write [OF evolves_Create])

lemma ev_Transition: "lifecycle\<^sup>*\<^sup>* st (run_State v) \<Longrightarrow> \<not> terminal_state st \<Longrightarrow> ev any (mnt_Transition v st)"
  unfolding mnt_Transition_def by (rule ev_write [OF evolves_Transition])

lemma ev_activity: "ev any (add_activity v)"
  by (auto simp: ev_def add_activity_def AddMaintenanceActivity_def service_def split: prod.splits option.splits)

lemma runs_Active_valid: "runs_Active rs = Inr r \<Longrightarrow> validMaintenanceRun r = None \<and> run_Active r"
proof (auto simp: runs_Active_def Let_def split: if_splits list.splits)
  assume "take 2 (newest_first (filter run_Active rs)) = [r]"
  then have "r \<in> set (newest_first (filter run_Active rs))" using set_take_subset [of 2] by (metis list.set_intros(1) subset_iff)
  then show "run_Active r" by (simp add: newest_first_def)
qed

lemma ev_Active: "ev (\<lambda>r. \<forall>v. r = Inr v \<longrightarrow> validMaintenanceRun v = None \<and> run_Active v) mnt_Active"
  using ev_read [of runs_Active] by (fastforce simp: ev_def mnt_Active_def dest: runs_Active_valid)

lemmas ev_calls = ev_service ev_now ev_ListAll ev_steps ev_Create ev_activity

lemma ev_drain_workspace: "ev any (drain_workspace run v p)"
  unfolding drain_workspace_def drain_suspend_def
  by (intro ev_if ev_ret TrueI ev_bind [where R = any] ev_calls ev_option)

lemma ev_drain_each: "ev any (drain_each run vs p)"
  by (induction vs arbitrary: p) (auto intro!: ev_ret ev_bind [where R = any] ev_calls ev_option ev_drain_workspace)

lemma ev_progress:
  "run_State r = StateDraining \<Longrightarrow> ev (\<lambda>x. run_State (fst x) = StateDraining) (persist_progress (drain_progress r p) p)"
  unfolding persist_progress_def Let_def
  by (intro ev_if ev_bind [where R = any] ev_calls ev_ret ev_Transition) (auto simp: drain_progress_def)

lemma ev_markReady: "run_State r = StateDraining \<Longrightarrow> ev any (markReady r)"
  unfolding markReady_def Let_def
  by (intro ev_bind [where R = any] ev_calls ev_Transition ev_option ev_ret TrueI) (auto intro: lifecycle.ready)

lemma ev_drain_passes: "run_State r = StateDraining \<Longrightarrow> ev any (drain_passes n r vs)"
proof (induction n arbitrary: r vs)
  case (Suc n)
  show ?case
    unfolding drain_passes.simps
    by (intro ev_if ev_markReady ev_bind [OF ev_drain_each] ev_sum ev_ret TrueI ev_bind [OF ev_progress] ev_option
          ev_bind [OF ev_steps(1)] ev_bind [OF ev_ListAll] Suc)
qed (simp add: ev_ret)

lemma ev_drain: "run_State r = StateDraining \<Longrightarrow> ev any (drain r)"
  unfolding drain_def
  by (intro ev_bind [OF ev_steps(2)] ev_bind [OF ev_steps(1)] ev_bind [OF ev_service] ev_bind [OF ev_ListAll] ev_option
        ev_sum ev_ret TrueI ev_drain_passes)

text \<open>A valid run is not due before its warning is, so it is warned before it drains.\<close>

lemma valid_warning: "validMaintenanceRun r = None \<Longrightarrow> run_WarningAt r \<le> run_ScheduledFor r"
  by (simp add: validMaintenanceRun_def split: if_splits)

lemma ev_warn_run:
  "ev (\<lambda>x. run_State (fst x) = (if run_State r = StateScheduled \<and> \<not> now < run_WarningAt r then StateWarning else run_State r)
      \<and> run_ScheduledFor (fst x) = run_ScheduledFor r) (warn_run r now)"
  unfolding warn_run_def Let_def
  by (intro ev_if ev_bind [where R = any] ev_Transition ev_activity ev_option ev_ret) (auto intro: lifecycle.warn)

lemma ev_start_drain:
  assumes "run_State r = StateScheduled \<longrightarrow> now < run_ScheduledFor r"
  shows "ev any (start_drain r now)"
  unfolding start_drain_def Let_def
  by (intro ev_if ev_bind [where R = any] ev_Transition ev_ret) (use assms in \<open>auto intro: lifecycle.start\<close>)

lemma ev_RunOnce: "ev any RunOnce"
  unfolding RunOnce_def
proof (rule ev_bind [OF ev_Active], rule ev_sum, rule ev_ret, simp, rule ev_bind [OF ev_now], goal_cases)
  case (1 r v now)
  show ?case
  proof (rule ev_bind [OF ev_warn_run], rule ev_option, goal_cases)
    case (1 x)
    have "ev any (start_drain (fst x) now)"
      using 1 valid_warning [of v] \<open>\<forall>v. r = Inr v \<longrightarrow> _ v\<close> \<open>r = Inr v\<close>
      by (intro ev_start_drain) (auto split: if_splits)
    then show ?case by (rule ev_bind) (intro ev_option ev_if ev_drain ev_ret TrueI)
  qed (simp add: ev_ret)
qed

lemma ev_transition: "lifecycle expected target \<Longrightarrow> ev any (transition k expected target b m)"
  unfolding transition_def Let_def
  by (intro ev_bind [OF ev_Active] ev_sum ev_if ev_bind [OF ev_now] ev_bind [where R = any] ev_Transition ev_ret)
     (auto dest: lifecycle_terminal)

lemma ev_advance:
  "ev any (BeginUpdate k)" "ev any (UpdateApplied k b)" "ev any (BeginVerification k)"
  by (auto simp: BeginUpdate_def UpdateApplied_def BeginVerification_def intro!: ev_transition intro: lifecycle.intros)

lemma ev_fail_run: "run_State r = StateVerifying \<Longrightarrow> ev any (fail_run r cause)"
  unfolding fail_run_def
  by (intro ev_bind [OF ev_now] ev_bind [where R = any] ev_Transition ev_steps ev_ret TrueI) (auto intro: lifecycle.fail)

lemma ev_Complete: "ev any (Complete k)"
  unfolding Complete_def Let_def Ping_def
  by (intro ev_bind [OF ev_Active] ev_sum ev_if ev_bind [OF ev_now] ev_bind [OF ev_service] ev_bind [where R = any]
        ev_Transition ev_ret ev_option ev_fail_run ev_steps ev_activity)
     (auto intro: lifecycle.complete)

lemma ev_Cancel: "ev any (Cancel ow k)"
  unfolding Cancel_def Let_def
  by (intro ev_bind [OF ev_Active] ev_sum ev_if ev_bind [OF ev_now] ev_bind [where R = any]
        ev_Transition ev_ret ev_option ev_steps)
     (auto intro!: r_into_rtranclp lifecycle.intros)

lemma ev_create_run: "ev any (create_run r)"
  unfolding create_run_def by (intro ev_sum ev_ret ev_bind [OF ev_Create] TrueI)

lemma ev_newRun: "ev any (newRun ow u b s wn t)"
  unfolding newRun_def by (intro ev_bind [OF ev_service] ev_ret TrueI)

lemma ev_supersede: "ev any (supersede ow r)"
  unfolding supersede_def
  by (intro ev_sum ev_if ev_bind [OF ev_now] ev_Transition ev_ret) (auto intro!: r_into_rtranclp lifecycle.intros)

lemma ev_schedule: "ev any (ScheduleWeekly c ow)" "ev any (ScheduleUrgent c ow)"
  unfolding ScheduleWeekly_def ScheduleUrgent_def Let_def
  by (intro ev_if ev_bind [OF ev_Active] ev_sum ev_bind [OF ev_now] ev_bind [OF ev_newRun] ev_create_run ev_ret
        ev_bind [OF ev_supersede] ev_option TrueI)+

lemma ev_Status: "ev any (Status ow)"
proof -
  have "ev any (runs_read f)" for f :: "maintenance_run list \<Rightarrow> maintenance_run result"
    using ev_read [of f] by (simp add: ev_def)
  then show ?thesis unfolding Status_def by (intro ev_if ev_bind [OF ev_Active] ev_sum ev_ret TrueI)
qed

lemma ev_Recover: "ev any Recover"
  unfolding Recover_def by (intro ev_bind [OF ev_Active] ev_sum ev_if ev_bind [OF ev_steps(2)] ev_ret TrueI)

lemma ev_AdvanceMaintenance: "ev any (AdvanceMaintenance ow k action reboot)"
  unfolding AdvanceMaintenance_def
  by (intro ev_if ev_bind [OF ev_Status] ev_sum ev_option ev_ret ev_advance ev_Complete TrueI)

lemma ev_run: "ev P m \<Longrightarrow> table_evolves (mw_runs w) (mw_runs (snd (run_state m w)))"
  by (simp add: ev_def)


subsection \<open>The weekly window\<close>

text \<open>The window as a whole number of days and the hour.\<close>

lemma week_later: "(x + 7) * day + y = (x * day + y) + 7 * day"
  by (simp add: distrib_right)

lemma add_seven: "((x :: int) + 7 + 1) mod 7 = (x + 1) mod 7"
  by presburger

lemma days_until: "0 \<le> wd \<Longrightarrow> wd < 7 \<Longrightarrow> (d + (wd - (d + 1) mod 7 + 7) mod 7 + 1) mod 7 = (wd :: int)"
  by presburger

lemma window_least:
  fixes d k n m D H now u :: int
  assumes "0 \<le> D" "H < D" "d * D \<le> now" "k < 7" "n = (if now < (d + k) * D + H then d + k else d + k + 7)"
    and "u = m * D + H" "now < u" "m \<le> n - 7"
  shows False
proof (cases "now < (d + k) * D + H")
  case True
  with assms(4,5,8) have "m * D \<le> (d - 1) * D" by (intro mult_right_mono assms(1)) auto
  also have "\<dots> = d * D - D" by (simp add: left_diff_distrib)
  finally show False using assms(2,3,6,7) by linarith
next
  case False
  with assms(5,8) have "m * D \<le> (d + k) * D" by (intro mult_right_mono assms(1)) auto
  with False assms(6,7) show False by linarith
qed

lemma window_bounds:
  fixes d k n D H now :: int
  assumes "0 \<le> D" "0 \<le> H" "H < D" "d * D \<le> now" "now < d * D + D" "0 \<le> k" "k < 7"
    "n = (if now < (d + k) * D + H then d + k else d + k + 7)"
  shows "now < n * D + H" "n * D + H \<le> now + 7 * D"
proof -
  have k: "0 \<le> k * D" "k * D \<le> 6 * D" using assms(1,6,7) by (auto intro: mult_right_mono)
  show "now < n * D + H" "n * D + H \<le> now + 7 * D"
    using assms(1-5,8) k
    by (cases "now < (d + k) * D + H"; simp only: if_True if_False distrib_right; linarith)+
qed

lemma nextWindow_days:
  assumes k: "k = (wd - weekday now + 7) mod 7"
    and n: "n = (if now < (now div day + k) * day + h * hour then now div day + k else now div day + k + 7)"
  shows "nextWindow now wd h = n * day + h * hour" "0 \<le> wd \<Longrightarrow> wd < 7 \<Longrightarrow> (n + 1) mod 7 = wd"
proof -
  show "nextWindow now wd h = n * day + h * hour"
    unfolding nextWindow_def Let_def k [symmetric] n
    by (cases "now < (now div day + k) * day + h * hour") (simp_all only: simp_thms if_True if_False week_later)
  assume "0 \<le> wd" "wd < 7"
  then have "(now div day + k + 1) mod 7 = wd" unfolding k weekday_def by (rule days_until)
  then show "(n + 1) mod 7 = wd" unfolding n using add_seven [of "now div day + k"]
    by (cases "now < (now div day + k) * day + h * hour") (simp_all only: if_True if_False)
qed

lemma same_weekday_before: "(m + 1) mod 7 = wd \<Longrightarrow> (n + 1) mod 7 = wd \<Longrightarrow> m < n \<Longrightarrow> m \<le> n - (7::int)"
  by presburger

text \<open>The weekly window is the first instant after now on the configured weekday at the configured hour,
  and at most a week away.\<close>

theorem nextWindow_first:
  assumes "0 \<le> wd" "wd < 7" "0 \<le> h" "h < 24" and "t = nextWindow now wd h"
  shows "now < t \<and> t \<le> now + 7 * day \<and> weekday t = wd \<and> t mod day = h * hour
    \<and> (\<forall>u. now < u \<and> weekday u = wd \<and> u mod day = h * hour \<longrightarrow> t \<le> u)"
proof -
  let ?d = "now div day"
  define k where "k = (wd - weekday now + 7) mod 7"
  define n where "n = (if now < (?d + k) * day + h * hour then ?d + k else ?d + k + 7)"
  note window = nextWindow_days [OF k_def n_def] and cases = n_def
  have n: "t = n * day + h * hour" and wd: "(n + 1) mod 7 = wd" using window assms(1,2,5) by blast+
  have k: "0 \<le> k" "k < 7" unfolding k_def by simp_all
  have h: "0 \<le> h * hour" "h * hour < day" using assms(3,4) by auto
  have now: "?d * day \<le> now" "now < ?d * day + day" by auto
  have div: "t div day = n" "t mod day = h * hour" using h by (simp_all add: n)
  have bounds: "now < t" "t \<le> now + 7 * day"
    unfolding n by (rule window_bounds [OF _ h now k cases], simp)+
  have first: "t \<le> u" if u: "now < u" "weekday u = wd" "u mod day = h * hour" for u
  proof (rule ccontr)
    assume "\<not> t \<le> u"
    have "u = u div day * day + u mod day" by (rule div_mult_mod_eq [symmetric])
    then have m: "u = u div day * day + h * hour" unfolding u(3) .
    with \<open>\<not> t \<le> u\<close> have "u div day < n" unfolding n by auto
    with u(2) wd have "u div day \<le> n - 7" unfolding weekday_def by (rule same_weekday_before)
    then show False by (rule window_least [OF _ h(2) now(1) k(2) cases m u(1), rotated]) simp
  qed
  show ?thesis using bounds first div wd by (simp add: weekday_def)
qed

theorem nextWindow_first_witness:
  "weekday (nextWindow (100 * day + 5 * hour) 0 9) = 0 \<and> nextWindow (100 * day + 5 * hour) 0 9 mod day = 9 * hour"
  using nextWindow_first [OF _ _ _ _ refl, of 0 9 "100 * day + 5 * hour"] by simp

end
