(* ===== verification/Maintenance_Example.thy ===== *)
theory Maintenance_Example
  imports Maintenance_Safety
begin

text \<open>
  Runs of the maintenance coordinator evaluated by the simplifier, on a deployment without workspaces
  whose clock advances by an hour with every interaction: an urgent run is scheduled and the next
  scan takes it to ready for update. The witnesses of the coordinator's theorems rest on them.
\<close>

lemma run_service:
  "run_state (service m) w = (case run_state m (mw_service w) of (r, s) \<Rightarrow> (r, w\<lparr>mw_service := s\<rparr>))"
  by (simp add: service_def)

lemma maximumDrainConvergencePasses_Suc: "maximumDrainConvergencePasses = Suc 63"
  by (simp add: maximumDrainConvergencePasses_def)

lemma drain_passes_safe: "unsafeWorkspaces vs = [] \<Longrightarrow> drain_passes maximumDrainConvergencePasses r vs = markReady r"
  by (subst maximumDrainConvergencePasses_Suc) (simp only: drain_passes.simps simp_thms if_True)

lemmas mnt_eval = run_service others_def runs_read_def runs_write_def mnt_now_def mnt_Active_def mnt_Transition_def
  mnt_Create_def AddMaintenanceActivity_def add_activity_def set_drain_def record_maintenance_def
  Status_def supersede_def ScheduleWeekly_def ScheduleUrgent_def create_run_def newRun_def
  runMaintenanceScheduler_def RunOnce_def warn_run_def start_drain_def drain_def ListAll_def markReady_def
  BeginMaintenanceDrain_def drain_passes_safe unsafeWorkspaces_def store_ListAll_def Let_def svc_eval

lemmas run_eval = runs_Active_def runs_Create_def runs_Transition_def run_taken_def run_Active_def
  validMaintenanceRun_def before_option_def newest_first_def

definition clock_answer :: "nat \<Rightarrow> answer" where
  "clock_answer n = example_answer\<lparr>an_now := (int n + 1) * hour\<rparr>"

definition example_config :: maintenance_config where
  "example_config = \<lparr>mc_Weekday = 0, mc_HourUTC = 9, mc_WarningLead = 24 * hour, mc_UrgentWarningLead = 5 * minute,
     mc_ScanInterval = minute\<rparr>"

definition idle_world :: mworld where
  "idle_world = \<lparr>mw_service = first_world\<lparr>w_env := clock_answer\<rparr>, mw_runs = [], mw_activities = [], mw_recorded = [],
     mw_others = (\<lambda>_. []), mw_turn = 0\<rparr>"

lemma clock_answer_fields:
  "an_err (clock_answer n) = None" "\<not> an_cancel (clock_answer n)" "an_narrow (clock_answer n) = []"
  "an_now (clock_answer n) = (int n + 1) * hour" "an_random (clock_answer n) = replicate 20 0"
  by (simp_all add: clock_answer_def example_answer_def)

definition example_run :: maintenance_run where
  "example_run = \<lparr>run_ID = ''maint_000000000000000000000000'', run_OwnerID = ''o'', run_State = StateScheduled,
     run_Urgent = True, run_BestEffort = True, run_ScheduledFor = 2 * hour + 5 * minute, run_WarningAt = 2 * hour,
     run_CreatedAt = 2 * hour, run_UpdatedAt = 2 * hour, run_StartedAt = None, run_CompletedAt = None,
     run_CheckpointedWorkspaces = 0, run_DrainedWorkspaces = 0, run_FailedWorkspaces = 0, run_RebootRequired = False,
     run_Message = []\<rparr>"

lemma example_hex: "hex_EncodeToString (replicate 12 0) = ''000000000000000000000000''"
  by code_simp

definition scheduled_world :: mworld where
  "scheduled_world = idle_world\<lparr>mw_service := (mw_service idle_world)\<lparr>w_tick := 4\<rparr>, mw_runs := [example_run]\<rparr>"

lemma schedule_eval:
  "run_state (ScheduleUrgent example_config ''o'') idle_world = (Inr example_run, scheduled_world)"
  supply [cong] = bind_eval_cong
  by (simp add: mnt_eval run_eval idle_world_def scheduled_world_def first_world_def clock_answer_fields example_hex
      example_run_def example_config_def)

lemma scan_eval:
  "\<exists>w. run_state (runMaintenanceScheduler example_config ''o'') scheduled_world = ((), w)
     \<and> map run_State (mw_runs w) = [StateReadyForUpdate]"
  supply [cong] = bind_eval_cong
  by (simp add: mnt_eval run_eval idle_world_def scheduled_world_def first_world_def clock_answer_fields
      example_run_def example_config_def)


definition ready_world :: mworld where
  "ready_world = mnt_run example_config (CallScan ''o'') (mnt_run example_config (CallSchedule ''o'' True) idle_world)"

lemma ready_runs: "\<exists>r. mw_runs ready_world = [r] \<and> run_State r = StateReadyForUpdate"
  using scan_eval by (auto simp: ready_world_def ScheduleMaintenance_def schedule_eval map_eq_Cons_conv)

lemma ready_reach: "mnt_start example_controller idle_world" "mnt_reach example_config idle_world ready_world"
proof -
  show "mnt_start example_controller idle_world"
    by (simp add: mnt_start_def svc_start_def idle_world_def first_world_def provider_named_def clock_answer_def
        example_answer_def example_controller_def OwnerPCBetaCapacity_def)
  have small: "small (mw_service idle_world)" "small (mw_service scheduled_world)"
    by (simp_all add: small_def idle_world_def scheduled_world_def first_world_def)
  have s: "mnt_run example_config (CallSchedule ''o'' True) idle_world = scheduled_world"
    by (simp add: ScheduleMaintenance_def schedule_eval)
  have "mnt_reach example_config idle_world scheduled_world"
    using mnt_call [OF mnt_refl small(1), of example_config "CallSchedule ''o'' True"] unfolding s .
  from mnt_call [OF this small(2), of "CallScan ''o''"]
  show "mnt_reach example_config idle_world ready_world" unfolding ready_world_def s .
qed


theorem one_active_run_witness:
  "length (filter run_Active (mw_runs ready_world)) \<le> 1"
  using one_active_run [OF ready_reach] by simp

subsection \<open>Two behaviours against the comments\<close>

text \<open>A world in which the calls from the given interaction on, or that one alone, fail.\<close>

definition failing :: "(nat \<Rightarrow> bool) \<Rightarrow> nat \<Rightarrow> answer" where
  "failing bad n = (if bad n then clock_answer n\<lparr>an_err := Some (errorsNew ''unavailable'')\<rparr> else clock_answer n)"

lemma failing_fields:
  "an_err (failing bad n) = (if bad n then Some (errorsNew ''unavailable'') else None)" "\<not> an_cancel (failing bad n)"
  "an_narrow (failing bad n) = []" "an_now (failing bad n) = (int n + 1) * hour" "\<not> an_commit (failing bad n)"
  by (simp_all add: failing_def clock_answer_def example_answer_def)

definition verifying_world :: mworld where
  "verifying_world = idle_world\<lparr>mw_service := first_world\<lparr>w_admission := SetMaintenanceDrain example_controller True,
       w_env := failing (\<lambda>n. n \<ge> 1)\<rparr>,
     mw_runs := [example_run\<lparr>run_State := StateVerifying\<rparr>]\<rparr>"

definition warned_world :: mworld where
  "warned_world = scheduled_world\<lparr>mw_service := first_world\<lparr>w_env := failing (\<lambda>n. n = 3)\<rparr>\<rparr>"

text \<open>When the health check after an update fails, admission reopens although the update was never
  verified, here even though the run could not be marked failed and is still verifying in the table.\<close>

theorem failed_verification_reopens:
  "\<exists>w e. run_state (Complete (run_ID example_run)) verifying_world = (Inl e, w)
     \<and> map run_State (mw_runs w) = [StateVerifying] \<and> \<not> maintenanceDrain (w_admission (mw_service w))"
  supply [cong] = bind_eval_cong
  by (simp add: mnt_eval run_eval Complete_def Ping_def fail_run_def verifying_world_def idle_world_def first_world_def
      failing_fields example_run_def SetMaintenanceDrain_def)

text \<open>A warning whose activity could not be stored is never given: the next scan finds the run warned and
  drains, and the only activity is that the host may be updated.\<close>

theorem lost_warning:
  "\<exists>w. run_state (State_Monad.bind RunOnce (\<lambda>_. RunOnce)) warned_world = (None, w)
     \<and> map run_State (mw_runs w) = [StateReadyForUpdate]
     \<and> map ma_Summary (mw_activities w) = [''Workspace drain is complete. Host maintenance is ready to proceed.'']"
  supply [cong] = bind_eval_cong
  by (simp add: mnt_eval run_eval warned_world_def scheduled_world_def idle_world_def first_world_def
      failing_fields example_run_def)

end
