(* ===== verification/Workspace_Gates.thy ===== *)
theory Workspace_Gates
  imports Workspace_Theorems
begin

text \<open>
  Every gate an operation of the workspace service takes is given back on every path, so no operation
  leaves another one waiting. A gate is an interface, the locale \<open>gate\<close>: acquiring it fails without a
  trace or is undone by releasing it. The admission gate, the runtime gate, both together and the
  per-workspace gate are its interpretations, and \<open>gated\<close> bodies keep the gates by its one lemma.
\<close>

subsection \<open>The state of the gates\<close>

definition gates :: "world \<Rightarrow> bool \<times> bool \<times> (string, workspace_mutation_gate) gomap" where
  "gates w = (w_admissionGate w, w_runtimeGate w, w_mutations w)"

text \<open>An entry of the table of per-workspace gates is held by an operation.\<close>

definition gates_held :: "world \<Rightarrow> bool" where
  "gates_held w \<longleftrightarrow> (\<forall>(k, g) \<in> set (w_mutations w). \<not> mg_token g \<and> mg_refs g \<ge> 1)"

lemma gates_held_cong: "gates w' = gates w \<Longrightarrow> gates_held w' = gates_held w"
  by (simp add: gates_def gates_held_def)

definition gates_kept :: "'a svc \<Rightarrow> bool" where
  "gates_kept m \<longleftrightarrow> (\<forall>w. gates_held w \<longrightarrow> gates (snd (run_state m w)) = gates w)"

named_theorems kept "computations that leave the gates as they found them"

lemma gates_keptI: "(\<And>w. gates (snd (run_state m w)) = gates w) \<Longrightarrow> gates_kept m"
  by (simp add: gates_kept_def)

lemma kept_bind [kept]:
  assumes "gates_kept m" "\<And>r. gates_kept (f r)"
  shows "gates_kept (State_Monad.bind m f)"
  unfolding gates_kept_def
proof (intro allI impI)
  fix w assume held: "gates_held w"
  obtain r w1 where m: "run_state m w = (r, w1)" by force
  have 1: "gates w1 = gates w" using assms(1) held m by (auto simp: gates_kept_def dest!: spec [of _ w])
  then have "gates (snd (run_state (f r) w1)) = gates w1"
    using assms(2) [of r] held gates_held_cong [OF 1] by (simp add: gates_kept_def)
  with 1 m show "gates (snd (run_state (State_Monad.bind m f) w)) = gates w" by (simp add: State_Monad.bind_def)
qed

lemma kept_ret [kept]: "gates_kept (ret r)"
  and kept_get [kept]: "gates_kept State_Monad.get"
  by (simp_all add: gates_kept_def)

lemma kept_if [kept]: "gates_kept m \<Longrightarrow> gates_kept n \<Longrightarrow> gates_kept (if b then m else n)"
  by simp

lemma kept_option [kept]: "gates_kept m \<Longrightarrow> (\<And>e. gates_kept (f e)) \<Longrightarrow> gates_kept (case x of None \<Rightarrow> m | Some e \<Rightarrow> f e)"
  by (cases x) auto

lemma kept_sum [kept]: "(\<And>e. gates_kept (f e)) \<Longrightarrow> (\<And>v. gates_kept (g v)) \<Longrightarrow> gates_kept (case x of Inl e \<Rightarrow> f e | Inr v \<Rightarrow> g v)"
  by (cases x) auto

lemma kept_prod [kept]: "(\<And>a b. gates_kept (f a b)) \<Longrightarrow> gates_kept (case x of (a, b) \<Rightarrow> f a b)"
  by (cases x) auto

lemma kept_interactions [kept]:
  "gates_kept tick" "gates_kept svc_now" "gates_kept ctx_Err" "gates_kept (rows_read f)" "gates_kept (rows_write h)"
  "gates_kept (outside k call)"
  by (auto intro!: gates_keptI simp: gates_def tick_def svc_now_def ctx_Err_def rows_read_def rows_write_def outside_def
      Let_def split: option.split)

lemma kept_store [kept]:
  "gates_kept (svc_Get ow k)" "gates_kept (svc_List ow)" "gates_kept (svc_Snapshot ow)" "gates_kept (svc_Create v)"
  "gates_kept (svc_Save v)" "gates_kept (svc_FinalizeDelete ow k)" "gates_kept (svc_UpdateQuota ow k q t)"
  "gates_kept (svc_store_TouchActivity ow k t)" "gates_kept (svc_store_UpdatePolicy ow k r i t)"
  "gates_kept (svc_store_UpdateSafetyMode ow k m t)" "gates_kept (svc_TransitionIfInactive ow k a b e t)"
  unfolding svc_Get_def svc_List_def svc_Snapshot_def svc_Create_def svc_Save_def svc_FinalizeDelete_def svc_UpdateQuota_def
    svc_store_TouchActivity_def svc_store_UpdatePolicy_def svc_store_UpdateSafetyMode_def
  by (intro kept)+ (auto intro!: gates_keptI simp: gates_def svc_TransitionIfInactive_def tick_def Let_def
      split: option.split prod.split)

subsection \<open>The interface of a gate\<close>

locale gate =
  fixes acquire :: "goerr option svc" and release :: "unit svc"
  assumes failed: "gates_held w \<Longrightarrow> run_state acquire w = (Some e, w') \<Longrightarrow> gates w' = gates w"
    and taken: "gates_held w \<Longrightarrow> run_state acquire w = (None, w') \<Longrightarrow> gates_held w'"
    and released: "gates_held w \<Longrightarrow> run_state acquire w = (None, w') \<Longrightarrow> gates v = gates w' \<Longrightarrow>
      gates (snd (run_state release v)) = gates w"
begin

lemma kept:
  assumes "gates_kept body"
  shows "gates_kept (gated acquire release fail body)"
  unfolding gates_kept_def
proof (intro allI impI)
  fix w assume held: "gates_held w"
  obtain x w1 where acq: "run_state acquire w = (x, w1)" by force
  show "gates (snd (run_state (gated acquire release fail body) w)) = gates w"
  proof (cases x)
    case None
    obtain r w2 where body: "run_state body w1 = (r, w2)" by force
    have "gates w2 = gates w1"
      using assms taken [OF held acq [unfolded None]] body by (auto simp: gates_kept_def dest!: spec [of _ w1])
    from released [OF held acq [unfolded None] this] show ?thesis
      using acq None body by (auto simp: gated_def State_Monad.bind_def split: prod.split)
  next
    case (Some e)
    with failed [OF held] acq show ?thesis by (simp add: gated_def State_Monad.bind_def)
  qed
qed

end

lemma run_tick_gates: "run_state tick w = (a, w') \<Longrightarrow> gates w' = gates w \<and> w_mutations w' = w_mutations w
    \<and> w_admissionGate w' = w_admissionGate w \<and> w_runtimeGate w' = w_runtimeGate w"
  by (auto simp: tick_def gates_def Let_def)

interpretation admission_gate: gate acquireAdmission releaseAdmission
  by unfold_locales
    (auto simp: acquireAdmission_def releaseAdmission_def gates_def gates_held_def State_Monad.bind_def tick_def Let_def
      split: if_splits)

interpretation runtime_gate: gate acquireRuntime releaseRuntime
  by unfold_locales
    (auto simp: acquireRuntime_def releaseRuntime_def gates_def gates_held_def State_Monad.bind_def tick_def Let_def
      split: if_splits)

interpretation start_gate: gate acquireStartBoundary releaseStartBoundary
  by unfold_locales
    (auto simp: acquireStartBoundary_def releaseStartBoundary_def acquireAdmission_def releaseAdmission_def
      acquireRuntime_def releaseRuntime_def gates_def gates_held_def State_Monad.bind_def tick_def Let_def
      split: if_splits)


lemma update_twice: "AList.update k v (AList.update k u m) = AList.update k v m"
  by (induction m) auto

lemma update_same: "map_of m k = Some v \<Longrightarrow> AList.update k v m = m"
  by (induction m) (auto split: if_splits)

lemma absent_deleted: "map_of m k = None \<Longrightarrow> AList.delete k m = m"
  by (induction m) (auto split: if_splits)

lemma delete_updated: "AList.delete k (AList.update k v m) = AList.delete k m"
  by (induction m) auto

lemma update_held:
  "(k', g') \<in> set (AList.update k g m) \<Longrightarrow> (k', g') \<in> set m \<or> g' = g"
  by (induction m) (auto split: if_splits)

text \<open>The per-workspace gate: a held entry is only counted up and down, a new one is removed again.\<close>

lemma acquire_mutation_cases:
  assumes "gates_held w" "run_state (acquireWorkspaceMutation ow k) w = (x, w')"
  shows "x \<noteq> None \<and> gates w' = gates w
    \<or> x = None \<and> map_of (w_mutations w) (mutation_key ow k) = None
      \<and> gates w' = (w_admissionGate w, w_runtimeGate w,
          AList.update (mutation_key ow k) \<lparr>mg_token = False, mg_refs = 1\<rparr> (w_mutations w))"
proof (cases "ow = [] \<or> k = []")
  case True
  with assms(2) show ?thesis by (auto simp: acquireWorkspaceMutation_def)
next
  case False
  let ?k = "mutation_key ow k"
  show ?thesis
  proof (cases "map_of (w_mutations w) ?k")
    case None
    with False assms(2) show ?thesis
      by (auto simp: acquireWorkspaceMutation_def State_Monad.bind_def tick_def Let_def gates_def mutation_unref_def
          update_twice delete_updated absent_deleted update_conv' split: if_splits)
  next
    case (Some g)
    then have "\<not> mg_token g" "mg_refs g \<ge> 1" using assms(1) by (auto simp: gates_held_def dest: map_of_SomeD)
    moreover have "g\<lparr>mg_refs := mg_refs g, mg_token := False\<rparr> = g" using calculation(1) by (cases g) simp
    ultimately show ?thesis
      using Some False assms(2)
      by (auto simp: acquireWorkspaceMutation_def State_Monad.bind_def tick_def Let_def gates_def mutation_unref_def
          update_twice update_same update_conv' split: if_splits)
  qed
qed

interpretation mutation_gate: gate "acquireWorkspaceMutation ow k" "releaseWorkspaceMutation ow k"
proof
  fix w w' :: world and e v
  assume held: "gates_held w"
  note cases = acquire_mutation_cases [OF held]
  show "gates w' = gates w" if "run_state (acquireWorkspaceMutation ow k) w = (Some e, w')"
    using cases [OF that] by simp
  assume acq: "run_state (acquireWorkspaceMutation ow k) w = (None, w')"
  then have w': "map_of (w_mutations w) (mutation_key ow k) = None" "gates w' = (w_admissionGate w, w_runtimeGate w,
      AList.update (mutation_key ow k) \<lparr>mg_token = False, mg_refs = 1\<rparr> (w_mutations w))"
    using cases by fastforce+
  then show "gates_held w'" using held by (fastforce simp: gates_held_def gates_def dest: update_held)
  assume "gates v = gates w'"
  with w' show "gates (snd (run_state (releaseWorkspaceMutation ow k) v)) = gates w"
    by (auto simp: releaseWorkspaceMutation_def State_Monad.bind_def mutation_unref_def gates_def Let_def update_conv'
        delete_updated absent_deleted)
qed

lemmas gate_kept [kept] = admission_gate.kept runtime_gate.kept start_gate.kept mutation_gate.kept

subsection \<open>Every operation\<close>

text \<open>The definitions level by level: each rests on the gates kept by those it calls.\<close>

lemma kept_with_mutation [kept]: "gates_kept m \<Longrightarrow> gates_kept (with_mutation ow k m)"
  unfolding with_mutation_def Let_def by (intro kept)

lemma kept_level0 [kept]:
  "gates_kept (identifiers)" "gates_kept (set_quota ws q)" "gates_kept (quarantinePrivateInputs ws)"
  "gates_kept (prepareEnvironment ws)" "gates_kept (startProvider ws)"
  "gates_kept (markProviderStartPending ws)" "gates_kept (stopAndWait ws)" "gates_kept (fail_workspace ws c e)"
  "gates_kept (lookupProvisioned ws)" "gates_kept (reserveNewStart ws)" "gates_kept (suspension_boundary ws)"
  "gates_kept (svc_TouchActivity ow k t)" "gates_kept (MarkIdleIfInactive ow k t)"
  "gates_kept (svc_UpdatePolicy ow k r i)" "gates_kept (svc_UpdateSafetyMode ow k md)"
  "gates_kept (delete_checkpoint ws a)"
  unfolding identifiers_def set_quota_def quarantinePrivateInputs_def prepareEnvironment_def startProvider_def
    markProviderStartPending_def stopAndWait_def fail_workspace_def lookupProvisioned_def reserveNewStart_def
    suspension_boundary_def svc_TouchActivity_def MarkIdleIfInactive_def svc_UpdatePolicy_def
    svc_UpdateSafetyMode_def delete_checkpoint_def Let_def
  by (intro kept)+

lemma kept_level1 [kept]:
  "gates_kept (apply_quota ws t)" "gates_kept (preparePrivateInputs ws)"
  "gates_kept (reserveExistingStart ow k v)" "gates_kept (DenySetup ow k)" "gates_kept (claim_delete ws a b)"
  "gates_kept (resolve_delete ws)"
  unfolding apply_quota_def preparePrivateInputs_def reserveExistingStart_def DenySetup_def claim_delete_def
    resolve_delete_def Let_def
  by (intro kept)+

lemma kept_apply_quotas [kept]: "gates_kept (apply_quotas k ts)"
  by (induction k ts rule: apply_quotas.induct) (auto intro!: kept)

lemma kept_level3 [kept]:
  "gates_kept (apply_capacity ow k ts)"
  unfolding apply_capacity_def Let_def
  by (intro kept)+

lemma kept_level4 [kept]:
  "gates_kept (reconcileCapacityQuotas ow k)"
  unfolding reconcileCapacityQuotas_def Let_def
  by (intro kept)+

lemma kept_level5 [kept]:
  "gates_kept (reconcileStableQuotas ow k)" "gates_kept (prepareCapacityForStart ws)"
  unfolding reconcileStableQuotas_def prepareCapacityForStart_def Let_def
  by (intro kept)+

lemma kept_level6 [kept]:
  "gates_kept (rebalance ow)"
  unfolding rebalance_def Let_def
  by (intro kept)+

lemma kept_level7 [kept]:
  "gates_kept (ReconcileCapacity ow)" "gates_kept (cleanupFailedRuntime ws c f e)"
  "gates_kept (finishFailedRuntimeCleanup ws c)" "gates_kept (commit_await_setup ws)"
  "gates_kept (persistMaintenanceDrainResult ws)" "gates_kept (completeSuspension ws)"
  "gates_kept (resume_running ws)" "gates_kept (finalize_delete ow k ws)"
  unfolding ReconcileCapacity_def cleanupFailedRuntime_def finishFailedRuntimeCleanup_def commit_await_setup_def
    persistMaintenanceDrainResult_def completeSuspension_def resume_running_def finalize_delete_def Let_def
  by (intro kept)+

lemma kept_start_and_initialize [kept]: "(\<And>v. gates_kept (f v)) \<Longrightarrow> gates_kept (start_and_initialize ws f)"
  unfolding start_and_initialize_def Let_def by (intro kept)

lemma kept_level8 [kept]:
  "gates_kept (after_start ws)" "gates_kept (mark_provision_cleanup ws)" "gates_kept (drain_stop ws)"
  "gates_kept (Suspend ow k)" "gates_kept (SuspendIfInactive ow k t)" "gates_kept (Delete ow k a b)"
  unfolding after_start_def mark_provision_cleanup_def drain_stop_def Suspend_def SuspendIfInactive_def Delete_def
    Let_def
  by (intro kept)+

lemma kept_level9 [kept]:
  "gates_kept (call_provision ws)" "gates_kept (reconcileAmbiguousProvision ws)"
  "gates_kept (ReconcileMaintenanceDrain ow k)" "gates_kept (resume_reserved ws)"
  unfolding call_provision_def reconcileAmbiguousProvision_def ReconcileMaintenanceDrain_def resume_reserved_def Let_def
  by (intro kept)+

lemma kept_level10 [kept]:
  "gates_kept (provision_runtime ws)" "gates_kept (reconcileLegacyProvisioning ws)" "gates_kept (Resume ow k)"
  unfolding provision_runtime_def reconcileLegacyProvisioning_def Resume_def Let_def
  by (intro kept)+

lemma kept_level11 [kept]:
  "gates_kept (provision ws)"
  unfolding provision_def Let_def
  by (intro kept)+

lemma kept_level12 [kept]:
  "gates_kept (reconcileProvisioning ws)" "gates_kept (provision_reserved ow k ws)"
  unfolding reconcileProvisioning_def provision_reserved_def Let_def
  by (intro kept)+

lemma kept_level13 [kept]:
  "gates_kept (create_reserved ow ws)" "gates_kept (start_reserved ow k r)"
  unfolding create_reserved_def start_reserved_def Let_def
  by (intro kept)+

lemma kept_level14 [kept]:
  "gates_kept (Create ow input)" "gates_kept (ApproveSetup ow k)" "gates_kept (Retry ow k)"
  unfolding Create_def ApproveSetup_def Retry_def Let_def
  by (intro kept)+

lemma kept_configure [kept]: "gates_kept (ConfigureDeletionBoundary b)" "gates_kept (ConfigureSuspensionBoundary b)"
  unfolding ConfigureDeletionBoundary_def ConfigureSuspensionBoundary_def
  by (auto intro!: gates_keptI simp: State_Monad.bind_def gates_def)



end
