(* ===== verification/Workspace_Findings.thy ===== *)
theory Workspace_Findings
  imports Workspace_Gates
begin

text \<open>
  A behaviour of the service that its callers cannot want: a handler reads the row, works, and saves the
  whole row, so a policy the owner sets meanwhile, and is told was set, is silently undone.
\<close>

definition suspending_row :: workspace where
  "suspending_row = example_row\<lparr>ws_State := WorkspaceSuspending, ws_ProviderResourceID := ''vm''\<rparr>"

text \<open>The owner asks to keep the workspace forever just after the handler has read its row.\<close>

definition keep_forever :: narrow where
  "keep_forever = NarrowPolicy ''o'' example_workspace RetentionForever 30 1"

definition suspending_world :: world where
  "suspending_world = first_world\<lparr>w_rows := [(example_workspace, suspending_row)], w_suspension := True,
     w_env := (\<lambda>n. if n = 3 then example_answer\<lparr>an_narrow := [keep_forever]\<rparr> else example_answer)\<rparr>"

lemma suspending_row_fields:
  "ws_ID suspending_row = example_workspace" "ws_OwnerID suspending_row = ''o''" "ws_State suspending_row = WorkspaceSuspending"
  "ws_ProviderResourceID suspending_row = ''vm''" "ws_Retention suspending_row = Retention30Days"
  "\<not> ws_Dirty suspending_row" "\<not> ws_Unpushed suspending_row" "ws_EnvironmentVariables suspending_row = []"
  "ws_InitialPrompt suspending_row = []"
  by (simp_all add: suspending_row_def example_row_def zero_ws_def Retention30Days_def)

lemma suspending_answer:
  "an_err (example_answer\<lparr>an_narrow := ns\<rparr>) = None" "\<not> an_cancel (example_answer\<lparr>an_narrow := ns\<rparr>)"
  "an_release (example_answer\<lparr>an_narrow := ns\<rparr>)" "an_release example_answer" "an_now (example_answer\<lparr>an_narrow := ns\<rparr>) = 0"
  by (simp_all add: example_answer_def)

text \<open>A suspension undoes a concurrent policy change: the owner's request to keep the workspace forever is
  accepted while the handler works, and afterwards the workspace is suspended with the old retention and
  may be deleted automatically.\<close>

theorem policy_update_lost:
  "fst (store_UpdatePolicy ''o'' example_workspace RetentionForever 30 1 (w_rows suspending_world)) = None
    \<and> (\<exists>r. map_of (w_rows (snd (run_state (Suspend ''o'' example_workspace) suspending_world))) example_workspace = Some r
        \<and> ws_State r = WorkspaceSuspended \<and> ws_Retention r = Retention30Days \<and> MayAutoDelete r)"
  supply [cong] = bind_eval_cong gated_eval_cong
  by (simp add: svc_eval example_answer_fields suspending_row_fields suspending_answer suspending_world_def first_world_def
      keep_forever_def Suspend_def with_mutation_def completeSuspension_def suspension_boundary_def stopAndWait_def
      store_Get_def store_Save_def workspaceWithoutPrivateInputs_def store_UpdatePolicy_def rebalance_def
      reconcileStableQuotas_def reconcileCapacityQuotas_def store_List_def capacity_targets_def apply_capacity_def
      starting_target_def MayAutoDelete_def Retention30Days_def RetentionForever_def Shares_def)

end
