(* ===== verification/Setup_Review.thy ===== *)
theory Setup_Review
  imports Workspace_Theorems Go_Base64
begin

text \<open>
  The owner's approval of repository setup as durable records: \<^verbatim>\<open>setupreview/reconciler.go\<close>, which keeps
  one pending approval and its activity for a workspace stopped at the setup boundary, and the
  transaction behind it (\<^verbatim>\<open>EnsureSetupReview\<close> and \<^verbatim>\<open>ResolveSafetyEvent\<close> of
  \<^verbatim>\<open>postgres/application_state.go\<close>) on the rows of its two tables.
\<close>

subsection \<open>Rows\<close>

record safety_event =
  se_ID :: string
  se_OwnerID :: string
  se_WorkspaceID :: string
  se_SafetyMode :: string
  se_Action :: string
  se_Decision :: string
  se_Reason :: string
  se_CreatedAt :: time
  se_ExpiresAt :: "time option"
  se_ResolvedAt :: "time option"

record activity_row =
  wa_ID :: string
  wa_OwnerID :: string
  wa_WorkspaceID :: "string option"
  wa_Kind :: string
  wa_Summary :: string
  wa_ApprovalID :: "string option"
  wa_CreatedAt :: time

record review_tables =
  rt_events :: "safety_event list"
  rt_activities :: "activity_row list"

record review_request =
  rq_ApprovalID :: string
  rq_ActivityID :: string
  rq_OwnerID :: string
  rq_WorkspaceID :: string
  rq_SafetyMode :: string
  rq_Reason :: string
  rq_CreatedAt :: time

record review_result =
  rr_ApprovalID :: string
  rr_ActivityID :: string
  rr_ActivityCreated :: bool

subsection \<open>The transaction\<close>

definition pending_review :: "string \<Rightarrow> string \<Rightarrow> safety_event \<Rightarrow> bool" where
  "pending_review ow k e \<longleftrightarrow> se_OwnerID e = ow \<and> se_WorkspaceID e = k \<and> se_Action e = ''approve_repository_setup''
     \<and> se_Decision e = ''requested'' \<and> se_ResolvedAt e = None"

definition review_activity :: "string \<Rightarrow> string \<Rightarrow> string \<Rightarrow> activity_row \<Rightarrow> bool" where
  "review_activity ow k approval a \<longleftrightarrow> wa_OwnerID a = ow \<and> wa_WorkspaceID a = Some k \<and> wa_Kind a = ''approval''
     \<and> wa_ApprovalID a = Some approval"

text \<open>\<^verbatim>\<open>ORDER BY created_at DESC, id DESC LIMIT 1\<close>.\<close>

definition newest :: "('a \<Rightarrow> time \<times> string) \<Rightarrow> ('a \<Rightarrow> bool) \<Rightarrow> 'a list \<Rightarrow> 'a option" where
  "newest key p xs = (case rev (sort_key key (filter p xs)) of [] \<Rightarrow> None | x # _ \<Rightarrow> Some x)"

definition ensure_event :: "review_request \<Rightarrow> safety_event list \<Rightarrow> goerr + string \<times> safety_event list" where
  "ensure_event rq events =
     (case newest (\<lambda>e. (se_CreatedAt e, se_ID e)) (pending_review (rq_OwnerID rq) (rq_WorkspaceID rq)) events of
        None \<Rightarrow>
          if \<exists>e \<in> set events. se_ID e = rq_ApprovalID rq then Inl (GoErr ErrConflict ''ensure setup review event'')
          else Inr (rq_ApprovalID rq, events @ [\<lparr>se_ID = rq_ApprovalID rq, se_OwnerID = rq_OwnerID rq,
            se_WorkspaceID = rq_WorkspaceID rq, se_SafetyMode = rq_SafetyMode rq, se_Action = ''approve_repository_setup'',
            se_Decision = ''requested'', se_Reason = rq_Reason rq, se_CreatedAt = rq_CreatedAt rq,
            se_ExpiresAt = None, se_ResolvedAt = None\<rparr>])
      | Some e \<Rightarrow> Inr (se_ID e, map (\<lambda>x. if se_OwnerID x = rq_OwnerID rq \<and> se_ID x = se_ID e
              \<and> se_Action x = ''approve_repository_setup'' \<and> se_Decision x = ''requested'' \<and> se_ResolvedAt x = None
            then x\<lparr>se_SafetyMode := rq_SafetyMode rq, se_Reason := rq_Reason rq, se_ExpiresAt := None\<rparr> else x) events))"

definition ensure_activity :: "review_request \<Rightarrow> string \<Rightarrow> activity_row list \<Rightarrow> goerr + string \<times> bool \<times> activity_row list" where
  "ensure_activity rq approval acts =
     (case newest (\<lambda>a. (wa_CreatedAt a, wa_ID a)) (review_activity (rq_OwnerID rq) (rq_WorkspaceID rq) approval) acts of
        None \<Rightarrow>
          if \<exists>a \<in> set acts. wa_ID a = rq_ActivityID rq then Inl (GoErr ErrConflict ''ensure setup review activity'')
          else Inr (rq_ActivityID rq, True, acts @ [\<lparr>wa_ID = rq_ActivityID rq, wa_OwnerID = rq_OwnerID rq,
            wa_WorkspaceID = Some (rq_WorkspaceID rq), wa_Kind = ''approval'',
            wa_Summary = ''Workspace setup requires approval.'', wa_ApprovalID = Some approval,
            wa_CreatedAt = rq_CreatedAt rq\<rparr>])
      | Some a \<Rightarrow> Inr (wa_ID a, False, acts))"

text \<open>
  What the database does with a transaction: it runs, or it fails with an error, in which case it
  was rolled back, or was committed and only the answer was lost.
\<close>

type_synonym db_failure = "(goerr \<times> bool) option"

definition transact :: "db_failure \<Rightarrow> 'a result \<times> 't \<Rightarrow> 't \<Rightarrow> 'a result \<times> 't" where
  "transact db run t = (case db of None \<Rightarrow> run | Some (e, committed) \<Rightarrow> (Inl e, if committed then snd run else t))"

text \<open>The workspace row is locked and read first; an error of a statement rolls everything back.\<close>

definition EnsureSetupReview ::
  "db_failure \<Rightarrow> review_request \<Rightarrow> rows \<Rightarrow> review_tables \<Rightarrow> review_result result \<times> review_tables" where
  "EnsureSetupReview db rq rows t =
     (if rq_OwnerID rq = [] \<or> rq_WorkspaceID rq = [] \<or> rq_ApprovalID rq = [] \<or> rq_ActivityID rq = []
         \<or> rq_Reason rq = [] \<or> length (rq_Reason rq) > 4096 \<or> rq_CreatedAt rq = 0
      then (Inl (GoErr ErrInvalid ''ensure setup review''), t)
      else if \<not> SafetyMode_Valid (rq_SafetyMode rq) then (Inl (GoErr ErrInvalid ''ensure setup review mode''), t)
      else transact db (case store_Get (rq_OwnerID rq) (rq_WorkspaceID rq) rows of
          Inl e \<Rightarrow> (Inl e, t)
        | Inr ws \<Rightarrow>
            if ws_State ws \<noteq> WorkspaceAwaitingSetupApproval
            then (Inl (GoErr ErrConflict ''ensure setup review workspace state''), t)
            else case ensure_event rq (rt_events t) of
                Inl e \<Rightarrow> (Inl e, t)
              | Inr (approval, events) \<Rightarrow>
                  case ensure_activity rq approval (rt_activities t) of
                    Inl e \<Rightarrow> (Inl e, t)
                  | Inr (activity, created, acts) \<Rightarrow>
                      (Inr \<lparr>rr_ApprovalID = approval, rr_ActivityID = activity, rr_ActivityCreated = created\<rparr>,
                       \<lparr>rt_events = events, rt_activities = acts\<rparr>)) t)"

text \<open>
  The owner's decision, a compare-and-set on the pending event that the table's check
  \<^verbatim>\<open>resolved_at >= created_at\<close> may refuse; \<^verbatim>\<open>GetSafetyEvent\<close> then reads the event back
  with its workspace's name. The update and the read fail one by one.
\<close>

definition GetSafetyEvent :: "string \<Rightarrow> string \<Rightarrow> rows \<Rightarrow> review_tables \<Rightarrow> (safety_event \<times> string) result" where
  "GetSafetyEvent ow k rows t =
     (case find (\<lambda>e. se_OwnerID e = ow \<and> se_ID e = k) (rt_events t) of
        None \<Rightarrow> Inl (GoErr ErrNotFound ''get safety event'')
      | Some e \<Rightarrow>
          (case store_Get ow (se_WorkspaceID e) rows of
             Inl _ \<Rightarrow> Inl (GoErr ErrNotFound ''get safety event'')
           | Inr ws \<Rightarrow> Inr (e, ws_Name ws)))"

definition decidable_event :: "string \<Rightarrow> string \<Rightarrow> time \<Rightarrow> safety_event \<Rightarrow> bool" where
  "decidable_event ow k now e \<longleftrightarrow> se_OwnerID e = ow \<and> se_ID e = k \<and> se_Decision e = ''requested'' \<and> se_ResolvedAt e = None
     \<and> (se_Action e = ''approve_repository_setup'' \<or> (case se_ExpiresAt e of None \<Rightarrow> True | Some x \<Rightarrow> now < x))"

definition resolve_update :: "string \<Rightarrow> string \<Rightarrow> string \<Rightarrow> time \<Rightarrow> review_tables \<Rightarrow> unit result \<times> review_tables" where
  "resolve_update ow k decision now t =
     (let hits = filter (decidable_event ow k now) (rt_events t) in
      if \<exists>e \<in> set hits. now < se_CreatedAt e then (Inl (GoErr ErrInvalid ''resolve safety event''), t)
      else (if length hits = 1 then Inr () else Inl (GoErr ErrConflict ''resolve safety event''),
            t\<lparr>rt_events := map (\<lambda>e. if decidable_event ow k now e then e\<lparr>se_Decision := decision, se_ResolvedAt := Some now\<rparr> else e)
                (rt_events t)\<rparr>))"

definition ResolveSafetyEvent :: "db_failure \<Rightarrow> goerr option \<Rightarrow> string \<Rightarrow> string \<Rightarrow> string \<Rightarrow> time \<Rightarrow> rows \<Rightarrow> review_tables
    \<Rightarrow> (safety_event \<times> string) result \<times> review_tables" where
  "ResolveSafetyEvent db read ow k decision now rows t =
     (if decision \<noteq> ''approved'' \<and> decision \<noteq> ''denied'' then (Inl (GoErr ErrInvalid ''approval decision''), t)
      else case transact db (resolve_update ow k decision now t) t of
          (Inl e, t1) \<Rightarrow> (Inl e, t1)
        | (Inr _, t1) \<Rightarrow>
            (case read of Some e \<Rightarrow> Inl e | None \<Rightarrow> GetSafetyEvent ow k rows t1, t1))"

subsection \<open>The reconciler\<close>

text \<open>\<^verbatim>\<open>Ensure\<close>: the random identifiers come in, a notification goes out only for a new activity.\<close>

definition randomID :: "bytes \<Rightarrow> string \<Rightarrow> string result" where
  "randomID source prefix =
     (if length source < 16 then Inl (errorsNew ''generate identity'')
      else Inr (prefix @ ''_'' @ RawURLEncode (take 16 source)))"

definition identities :: "bytes \<Rightarrow> (string \<times> string) result" where
  "identities source =
     (case randomID source ''approval'' of
        Inl e \<Rightarrow> Inl e
      | Inr approvalID \<Rightarrow>
          (case randomID (drop 16 source) ''activity'' of
             Inl e \<Rightarrow> Inl e
           | Inr activityID \<Rightarrow> Inr (approvalID, activityID)))"

type_synonym notification = "string \<times> string \<times> string \<times> string"

definition setup_reason :: "workspace \<Rightarrow> string" where
  "setup_reason value =
     (if ws_FailureCode value = ''devcontainer_unsupported_safe_fallback_available''
      then ''Repository setup is not fully supported; review the safe fallback before continuing.''
      else ''Repository setup files require owner approval before they can run.'')"

definition setup_request :: "string \<times> string \<Rightarrow> workspace \<Rightarrow> time \<Rightarrow> review_request" where
  "setup_request ids value now =
     \<lparr>rq_ApprovalID = fst ids, rq_ActivityID = snd ids, rq_OwnerID = ws_OwnerID value, rq_WorkspaceID = ws_ID value,
      rq_SafetyMode = ws_SafetyMode value, rq_Reason = setup_reason value, rq_CreatedAt = now\<rparr>"

definition review_notice :: "bool \<Rightarrow> workspace \<Rightarrow> review_result \<Rightarrow> notification list" where
  "review_notice notifier value r =
     (if rr_ActivityCreated r \<and> notifier
      then [(ws_OwnerID value, rr_ActivityID r, ''approval'', ''/app/approvals/'' @ rr_ApprovalID r)] else [])"

definition Ensure :: "db_failure \<Rightarrow> bytes \<Rightarrow> bool \<Rightarrow> workspace \<Rightarrow> time \<Rightarrow> rows \<Rightarrow> review_tables
    \<Rightarrow> goerr option \<times> review_tables \<times> notification list" where
  "Ensure db source notifier value now rows t =
     (if ws_State value \<noteq> WorkspaceAwaitingSetupApproval \<or> ws_ID value = [] \<or> ws_OwnerID value = [] \<or> now = 0
      then (Some (GoErr ErrInvalid ''ensure setup review''), t, [])
      else case identities source of
          Inl e \<Rightarrow> (Some e, t, [])
        | Inr ids \<Rightarrow>
            (case EnsureSetupReview db (setup_request ids value now) rows t of
               (Inl e, t1) \<Rightarrow> (Some e, t1, [])
             | (Inr r, t1) \<Rightarrow>
                 if rr_ApprovalID r = [] \<or> rr_ActivityID r = []
                 then (Some (errorsNew ''setup review store returned incomplete durable identity''), t1, [])
                 else (None, t1, review_notice notifier value r)))"

subsection \<open>At most one pending review\<close>

definition reviews_ok :: "review_tables \<Rightarrow> bool" where
  "reviews_ok t \<longleftrightarrow> distinct (map se_ID (rt_events t)) \<and> distinct (map wa_ID (rt_activities t))
     \<and> (\<forall>ow k. length (filter (pending_review ow k) (rt_events t)) \<le> 1)
     \<and> (\<forall>ow k a. length (filter (review_activity ow k a) (rt_activities t)) \<le> 1)"

lemma newest_None: "newest key p xs = None \<longleftrightarrow> filter p xs = []"
proof -
  have "newest key p xs = None \<longleftrightarrow> sort_key key (filter p xs) = []" by (auto simp: newest_def split: list.splits)
  also have "\<dots> \<longleftrightarrow> set (sort_key key (filter p xs)) = {}" by (simp only: set_empty)
  finally show ?thesis by (simp only: set_sort set_empty)
qed

lemma newest_Some:
  assumes "newest key p xs = Some x"
  shows "x \<in> set xs" "p x"
proof -
  obtain ys where "rev (sort_key key (filter p xs)) = x # ys" using assms by (auto simp: newest_def split: list.splits)
  then have "x \<in> set (sort_key key (filter p xs))" by (metis list.set_intros(1) set_rev)
  then show "x \<in> set xs" "p x" by simp_all
qed

lemma filter_only:
  assumes "length (filter p xs) \<le> 1" "x \<in> set xs" "p x"
  shows "filter p xs = [x]"
proof -
  have "x \<in> set (filter p xs)" using assms(2,3) by simp
  with assms(1) show ?thesis by (cases "filter p xs" rule: remdups_adj.cases) auto
qed

text \<open>What the two halves of the transaction return and leave.\<close>

lemma ensure_event_spec:
  assumes ok: "distinct (map se_ID events)" "\<forall>ow k. length (filter (pending_review ow k) events) \<le> 1"
    and run: "ensure_event rq events = Inr (a, events')"
  shows "distinct (map se_ID events') \<and> (\<forall>ow k. length (filter (pending_review ow k) events') \<le> 1)
    \<and> (\<exists>e \<in> set events'. se_ID e = a \<and> pending_review (rq_OwnerID rq) (rq_WorkspaceID rq) e)"
proof (cases "newest (\<lambda>e. (se_CreatedAt e, se_ID e)) (pending_review (rq_OwnerID rq) (rq_WorkspaceID rq)) events")
  case None
  then have none: "filter (pending_review (rq_OwnerID rq) (rq_WorkspaceID rq)) events = []" by (simp add: newest_None)
  from None run obtain e where e: "events' = events @ [e]" "se_ID e = a" "a \<notin> se_ID ` set events"
      "pending_review (rq_OwnerID rq) (rq_WorkspaceID rq) e" "se_OwnerID e = rq_OwnerID rq" "se_WorkspaceID e = rq_WorkspaceID rq"
    by (force simp: ensure_event_def pending_review_def split: if_splits)
  have "length (filter (pending_review ow k) events') \<le> 1" for ow k
  proof (cases "pending_review ow k e")
    case True
    with e(5,6) have "ow = rq_OwnerID rq" "k = rq_WorkspaceID rq" by (auto simp: pending_review_def)
    with none show ?thesis by (simp add: e(1))
  next
    case False
    with ok(2) show ?thesis by (simp add: e(1))
  qed
  with e ok(1) show ?thesis by auto
next
  case (Some e)
  let ?f = "\<lambda>x. if se_OwnerID x = rq_OwnerID rq \<and> se_ID x = se_ID e
              \<and> se_Action x = ''approve_repository_setup'' \<and> se_Decision x = ''requested'' \<and> se_ResolvedAt x = None
            then x\<lparr>se_SafetyMode := rq_SafetyMode rq, se_Reason := rq_Reason rq, se_ExpiresAt := None\<rparr> else x"
  have events': "events' = map ?f events" "a = se_ID e" using Some run by (auto simp: ensure_event_def)
  have same: "pending_review ow k (?f x) = pending_review ow k x" "se_ID (?f x) = se_ID x" for ow k x
    by (auto simp: pending_review_def)
  have ids: "map se_ID events' = map se_ID events" unfolding events' by (simp add: same(2))
  have count: "length (filter (pending_review ow k) events') = length (filter (pending_review ow k) events)" for ow k
    unfolding events' by (simp only: filter_map o_def same(1) length_map)
  have "?f e \<in> set events'" using newest_Some [OF Some] events' by simp
  moreover have "pending_review (rq_OwnerID rq) (rq_WorkspaceID rq) (?f e)" using newest_Some(2) [OF Some] unfolding same .
  moreover have "se_ID (?f e) = a" using events'(2) same(2) by simp
  ultimately have "\<exists>e \<in> set events'. se_ID e = a \<and> pending_review (rq_OwnerID rq) (rq_WorkspaceID rq) e" by blast
  with ok show ?thesis unfolding ids count by blast
qed

lemma ensure_activity_spec:
  assumes ok: "distinct (map wa_ID acts)" "\<forall>ow k a. length (filter (review_activity ow k a) acts) \<le> 1"
    and run: "ensure_activity rq a acts = Inr (i, created, acts')"
  shows "distinct (map wa_ID acts') \<and> (\<forall>ow k a. length (filter (review_activity ow k a) acts') \<le> 1)
    \<and> (\<exists>x \<in> set acts'. wa_ID x = i \<and> review_activity (rq_OwnerID rq) (rq_WorkspaceID rq) a x)
    \<and> (\<not> created \<longrightarrow> acts' = acts)"
proof (cases "newest (\<lambda>a. (wa_CreatedAt a, wa_ID a)) (review_activity (rq_OwnerID rq) (rq_WorkspaceID rq) a) acts")
  case None
  then have none: "filter (review_activity (rq_OwnerID rq) (rq_WorkspaceID rq) a) acts = []" by (simp add: newest_None)
  from None run obtain x where x: "acts' = acts @ [x]" "wa_ID x = i" "i \<notin> wa_ID ` set acts" created
      "review_activity (rq_OwnerID rq) (rq_WorkspaceID rq) a x" "wa_OwnerID x = rq_OwnerID rq"
      "wa_WorkspaceID x = Some (rq_WorkspaceID rq)" "wa_ApprovalID x = Some a"
    by (force simp: ensure_activity_def review_activity_def split: if_splits)
  have "length (filter (review_activity ow k b) acts') \<le> 1" for ow k b
  proof (cases "review_activity ow k b x")
    case True
    with x(6-8) have "ow = rq_OwnerID rq" "k = rq_WorkspaceID rq" "b = a" by (auto simp: review_activity_def)
    with none show ?thesis by (simp add: x(1))
  next
    case False
    with ok(2) show ?thesis by (simp add: x(1))
  qed
  with x ok(1) show ?thesis by auto
next
  case (Some x)
  with run have "acts' = acts" "i = wa_ID x" "\<not> created" by (auto simp: ensure_activity_def)
  with ok newest_Some [OF Some] show ?thesis by blast
qed


text \<open>Decisions only take pending reviews away.\<close>

lemma transact_cases:
  assumes "transact db run t = (r, t')"
  obtains "(r, t') = run" | e where "r = Inl e" "t' = snd run" | e where "r = Inl e" "t' = t"
  using assms by (auto simp: transact_def split: option.splits if_splits)

lemma ensure_cases:
  assumes "EnsureSetupReview db rq rows t = (r, t')"
  obtains (failed) e where "r = Inl e" "t' = t"
  | (changed) a i created events acts where "ensure_event rq (rt_events t) = Inr (a, events)"
      "ensure_activity rq a (rt_activities t) = Inr (i, created, acts)"
      "t' = \<lparr>rt_events = events, rt_activities = acts\<rparr>"
      "\<And>res. r = Inr res \<Longrightarrow> res = \<lparr>rr_ApprovalID = a, rr_ActivityID = i, rr_ActivityCreated = created\<rparr>"
      "\<And>ws. store_Get (rq_OwnerID rq) (rq_WorkspaceID rq) rows = Inr ws \<Longrightarrow> ws_State ws = WorkspaceAwaitingSetupApproval"
  using assms unfolding EnsureSetupReview_def transact_def
  by (auto split: if_splits sum.splits prod.splits option.splits)

lemma ensure_keeps:
  assumes "reviews_ok t" "EnsureSetupReview db rq rows t = (r, t')"
  shows "reviews_ok t'"
  using assms(2)
proof (cases rule: ensure_cases)
  case failed
  with assms(1) show ?thesis by simp
next
  case (changed a i created events acts)
  from ensure_event_spec [OF _ _ changed(1)] ensure_activity_spec [OF _ _ changed(2)] assms(1)
  show ?thesis unfolding changed(3) reviews_ok_def by auto
qed

lemma filter_map_le: "(\<And>x. P (f x) \<Longrightarrow> P x) \<Longrightarrow> length (filter P (map f xs)) \<le> length (filter P xs)"
  by (induction xs) (auto intro: le_SucI)

lemma resolve_update_keeps:
  assumes ok: "reviews_ok t"
  shows "reviews_ok (snd (resolve_update ow k d now t))"
proof -
  define f where "f e = (if decidable_event ow k now e then e\<lparr>se_Decision := d, se_ResolvedAt := Some now\<rparr> else e)"
    for e :: safety_event
  have ids: "se_ID \<circ> f = se_ID" by (simp add: fun_eq_iff f_def)
  have le: "length (filter (pending_review o' k') (map f (rt_events t))) \<le> 1" for o' k'
  proof -
    have "pending_review o' k' (f x) \<Longrightarrow> pending_review o' k' x" for x by (auto simp: pending_review_def f_def split: if_splits)
    then have "length (filter (pending_review o' k') (map f (rt_events t))) \<le> length (filter (pending_review o' k') (rt_events t))"
      by (rule filter_map_le)
    also have "\<dots> \<le> 1" using ok by (simp add: reviews_ok_def)
    finally show ?thesis .
  qed
  have "reviews_ok (t\<lparr>rt_events := map f (rt_events t)\<rparr>)" using ok le by (simp add: reviews_ok_def ids)
  with ok show ?thesis by (auto simp: resolve_update_def Let_def f_def [abs_def])
qed

lemma resolve_keeps:
  assumes ok: "reviews_ok t"
  shows "reviews_ok (snd (ResolveSafetyEvent db read ow k d now rows t))"
proof -
  obtain r t' where run: "transact db (resolve_update ow k d now t) t = (r, t')" by fastforce
  then have "t' = snd (resolve_update ow k d now t) \<or> t' = t" by (auto simp: transact_def split: option.splits if_splits)
  with ok resolve_update_keeps [OF ok] have "reviews_ok t'" by metis
  with ok show ?thesis by (auto simp: ResolveSafetyEvent_def run split: sum.split)
qed

lemma Ensure_cases:
  obtains (skipped) e where "Ensure db source notifier value now rows t = (Some e, t, [])"
  | (ran) ids r t1 where "identities source = Inr ids" "EnsureSetupReview db (setup_request ids value now) rows t = (r, t1)"
      "Ensure db source notifier value now rows t =
         (case r of Inl e \<Rightarrow> (Some e, t1, [])
          | Inr r \<Rightarrow> if rr_ApprovalID r = [] \<or> rr_ActivityID r = []
                     then (Some (errorsNew ''setup review store returned incomplete durable identity''), t1, [])
                     else (None, t1, review_notice notifier value r))"
      "ws_ID value \<noteq> []" "ws_OwnerID value \<noteq> []" "now \<noteq> 0" "ws_State value = WorkspaceAwaitingSetupApproval"
proof (cases "identities source")
  case (Inl e)
  then have "\<exists>e. Ensure db source notifier value now rows t = (Some e, t, [])" by (auto simp: Ensure_def)
  then show ?thesis using skipped by blast
next
  case (Inr ids)
  obtain r t1 where run: "EnsureSetupReview db (setup_request ids value now) rows t = (r, t1)" by fastforce
  show ?thesis
  proof (cases "ws_State value \<noteq> WorkspaceAwaitingSetupApproval \<or> ws_ID value = [] \<or> ws_OwnerID value = [] \<or> now = 0")
    case True
    then show ?thesis by (intro skipped) (auto simp: Ensure_def)
  next
    case False
    with Inr run show ?thesis by (intro ran) (auto simp: Ensure_def split: sum.split)
  qed
qed

lemma Ensure_keeps: "reviews_ok t \<Longrightarrow> Ensure db source notifier value now rows t = (e, t', ns) \<Longrightarrow> reviews_ok t'"
  by (rule Ensure_cases [of db source notifier "value" now rows t])
     (auto split: sum.splits if_splits dest: ensure_keeps)

subsection \<open>Every history of the two tables\<close>

text \<open>
  What changes the tables: the reconciler, the owner's decisions, other activities and the deletion
  of a workspace, which takes its rows along (\<^verbatim>\<open>ON DELETE CASCADE\<close>). The rows of the workspaces are
  whatever they are at each step, and every step may fail in the database.
\<close>

inductive review_reach :: "review_tables \<Rightarrow> bool" where
  start: "review_reach \<lparr>rt_events = [], rt_activities = []\<rparr>"
| ensure: "review_reach t \<Longrightarrow> Ensure db source notifier v now rows t = (e, t', ns) \<Longrightarrow> review_reach t'"
| resolve: "review_reach t \<Longrightarrow> ResolveSafetyEvent db read ow k d now rows t = (r, t') \<Longrightarrow> review_reach t'"
| activity: "review_reach t \<Longrightarrow> wa_ID a \<notin> wa_ID ` set (rt_activities t) \<Longrightarrow> wa_ApprovalID a = None
    \<Longrightarrow> review_reach (t\<lparr>rt_activities := rt_activities t @ [a]\<rparr>)"
| cascade: "review_reach t \<Longrightarrow> review_reach \<lparr>
    rt_events = filter (\<lambda>e. \<not> (se_OwnerID e = ow \<and> se_WorkspaceID e = k)) (rt_events t),
    rt_activities = filter (\<lambda>a. \<not> (wa_OwnerID a = ow \<and> wa_WorkspaceID a = Some k)) (rt_activities t)\<rparr>"

lemma filter_filter_le: "length (filter p (filter q xs)) \<le> length (filter p xs)"
  by (induction xs) auto

lemma reachable_reviews_ok: "review_reach t \<Longrightarrow> reviews_ok t"
proof (induction rule: review_reach.induct)
  case (resolve t db read ow k d now rows r t')
  with resolve_keeps [of t db read ow k d now rows] show ?case by simp
next
  case (activity t a)
  then show ?case by (auto simp: reviews_ok_def review_activity_def)
next
  case (cascade t ow k)
  let ?e = "\<lambda>e. \<not> (se_OwnerID e = ow \<and> se_WorkspaceID e = k)" and ?a = "\<lambda>a. \<not> (wa_OwnerID a = ow \<and> wa_WorkspaceID a = Some k)"
  have "length (filter p (filter ?e (rt_events t))) \<le> 1" if "length (filter p (rt_events t)) \<le> 1" for p
    using filter_filter_le that by (rule order_trans)
  moreover have "length (filter p (filter ?a (rt_activities t))) \<le> 1" if "length (filter p (rt_activities t)) \<le> 1" for p
    using filter_filter_le that by (rule order_trans)
  ultimately show ?case using cascade.IH by (simp add: reviews_ok_def distinct_map_filter)
next
  case start
  show ?case by (simp add: reviews_ok_def)
qed (rule Ensure_keeps)

text \<open>What a successful \<^verbatim>\<open>Ensure\<close> leaves, and that another one finds it.\<close>

lemma Ensure_success:
  assumes ok: "reviews_ok t" and run: "Ensure db source notifier v now rows t = (None, t', ns)"
  obtains e a where "filter (pending_review (ws_OwnerID v) (ws_ID v)) (rt_events t') = [e]"
    "filter (review_activity (ws_OwnerID v) (ws_ID v) (se_ID e)) (rt_activities t') = [a]"
    "ns \<noteq> [] \<longrightarrow> ns = [(ws_OwnerID v, wa_ID a, ''approval'', ''/app/approvals/'' @ se_ID e)]"
    "a \<in> set (rt_activities t) \<longrightarrow> ns = []"
  using Ensure_cases [of db source notifier v now rows t]
proof cases
  case (ran ids r t1)
  with run obtain res where r: "r = Inr res" "t1 = t'" "ns = review_notice notifier v res"
      "EnsureSetupReview db (setup_request ids v now) rows t = (Inr res, t')"
    by (auto split: sum.splits if_splits)
  from r(4) show ?thesis
  proof (cases rule: ensure_cases)
    case (changed b i created events acts)
    have owner: "rq_OwnerID (setup_request ids v now) = ws_OwnerID v" "rq_WorkspaceID (setup_request ids v now) = ws_ID v"
      by (simp_all add: setup_request_def)
    have ok': "reviews_ok t'" using ensure_keeps [OF ok r(4)] .
    from ensure_event_spec [OF _ _ changed(1)] ok obtain e where e: "e \<in> set (rt_events t')" "se_ID e = b"
        "pending_review (ws_OwnerID v) (ws_ID v) e"
      unfolding reviews_ok_def owner changed(3) by auto
    from ensure_activity_spec [OF _ _ changed(2)] ok obtain a where a: "a \<in> set (rt_activities t')" "wa_ID a = i"
        "review_activity (ws_OwnerID v) (ws_ID v) b a" "\<not> created \<longrightarrow> rt_activities t' = rt_activities t"
      unfolding reviews_ok_def owner changed(3) by auto
    have created: "a \<notin> set (rt_activities t)" if created
      using changed(2) that a(2) by (auto simp: ensure_activity_def split: option.splits if_splits)
    show ?thesis
    proof (rule that)
      show "filter (pending_review (ws_OwnerID v) (ws_ID v)) (rt_events t') = [e]"
        using ok' e by (intro filter_only) (auto simp: reviews_ok_def)
      show "filter (review_activity (ws_OwnerID v) (ws_ID v) (se_ID e)) (rt_activities t') = [a]"
        unfolding e(2) using ok' a(1,3) by (intro filter_only) (auto simp: reviews_ok_def)
      show "ns \<noteq> [] \<longrightarrow> ns = [(ws_OwnerID v, wa_ID a, ''approval'', ''/app/approvals/'' @ se_ID e)]"
        using changed(4) [of res] by (simp add: r review_notice_def e(2) a(2))
      show "a \<in> set (rt_activities t) \<longrightarrow> ns = []"
        using changed(4) [of res] created by (auto simp: r review_notice_def)
    qed
  qed (use r in auto)
qed (use run in simp)

subsection \<open>Properties\<close>

definition ids_of :: "review_tables \<Rightarrow> string list \<times> string list" where
  "ids_of t = (map se_ID (rt_events t), map wa_ID (rt_activities t))"

text \<open>The second run of the reconciler, on the same workspace with nothing in between.\<close>

lemma ensure_again:
  assumes ok: "reviews_ok t"
    and one: "filter (pending_review (rq_OwnerID rq) (rq_WorkspaceID rq)) (rt_events t) = [e]"
      "filter (review_activity (rq_OwnerID rq) (rq_WorkspaceID rq) (se_ID e)) (rt_activities t) = [a]"
  shows "\<exists>events. ensure_event rq (rt_events t) = Inr (se_ID e, events) \<and> map se_ID events = map se_ID (rt_events t)"
    "ensure_activity rq (se_ID e) (rt_activities t) = Inr (wa_ID a, False, rt_activities t)"
proof -
  show "\<exists>events. ensure_event rq (rt_events t) = Inr (se_ID e, events) \<and> map se_ID events = map se_ID (rt_events t)"
    using one(1) by (auto simp: ensure_event_def newest_def)
  show "ensure_activity rq (se_ID e) (rt_activities t) = Inr (wa_ID a, False, rt_activities t)"
    using one(2) by (simp add: ensure_activity_def newest_def)
qed

text \<open>C38: After any successful Ensure there is exactly one pending review of the workspace and exactly one
  activity that links to it, whatever happened before (failures of the database after the commit,
  decisions, deletions); a notification carries these two identifiers and goes out only when the
  activity is new.\<close>

theorem setup_review_converges:
  assumes "review_reach t" "Ensure db source notifier v now rows t = (None, t', ns)"
  shows "\<exists>e a. filter (pending_review (ws_OwnerID v) (ws_ID v)) (rt_events t') = [e]
    \<and> filter (review_activity (ws_OwnerID v) (ws_ID v) (se_ID e)) (rt_activities t') = [a]
    \<and> (ns = [] \<or> ns = [(ws_OwnerID v, wa_ID a, ''approval'', ''/app/approvals/'' @ se_ID e)] \<and> a \<notin> set (rt_activities t))"
  using reachable_reviews_ok [OF assms(1)] assms(2) by (rule Ensure_success) blast

text \<open>The reconciler is idempotent: a second Ensure after a successful one, with any fresh
  identifiers, keeps every identifier, adds no row and notifies nobody.\<close>

theorem setup_review_idempotent:
  assumes "review_reach t" "Ensure db source notifier v now rows t = (None, t', ns)"
    "Ensure db' source' notifier' v now' rows t' = (e', t'', ns')"
  shows "ids_of t'' = ids_of t' \<and> ns' = []"
proof -
  have ok: "reviews_ok t" "reviews_ok t'" using reachable_reviews_ok [OF assms(1)] Ensure_keeps assms(2) by blast+
  from Ensure_success [OF ok(1) assms(2)] obtain e a where one:
      "filter (pending_review (ws_OwnerID v) (ws_ID v)) (rt_events t') = [e]"
      "filter (review_activity (ws_OwnerID v) (ws_ID v) (se_ID e)) (rt_activities t') = [a]" by blast
  show ?thesis using Ensure_cases [of db' source' notifier' v now' rows t']
  proof cases
    case skipped
    with assms(3) show ?thesis by simp
  next
    case (ran ids r t1)
    have owner: "rq_OwnerID (setup_request ids v now') = ws_OwnerID v" "rq_WorkspaceID (setup_request ids v now') = ws_ID v"
      by (simp_all add: setup_request_def)
    from ran(2) show ?thesis
    proof (cases rule: ensure_cases)
      case failed
      with ran(3) assms(3) show ?thesis by simp
    next
      case (changed b i created events acts)
      from ensure_again [OF ok(2), of "setup_request ids v now'" e a] one changed
      have same: "b = se_ID e" "map se_ID events = map se_ID (rt_events t')" "acts = rt_activities t'" "\<not> created"
        by (auto simp: owner)
      have ids: "ids_of t1 = ids_of t'" by (simp add: ids_of_def changed(3) same)
      have "t'' = t1 \<and> ns' = []" using ran(3) assms(3) changed(4) same(4)
        by (auto simp: review_notice_def split: sum.splits if_splits)
      with ids show ?thesis by simp
    qed
  qed
qed

definition ex_review_rows :: rows where
  "ex_review_rows = [(''w1'', zero_ws\<lparr>ws_ID := ''w1'', ws_OwnerID := ''o1'', ws_Name := ''task'',
     ws_State := WorkspaceAwaitingSetupApproval, ws_SafetyMode := SafetySafe\<rparr>)]"

definition ex_review :: "goerr option \<times> review_tables \<times> notification list" where
  "ex_review = Ensure None (replicate 32 0) True (snd (hd ex_review_rows)) 7 ex_review_rows \<lparr>rt_events = [], rt_activities = []\<rparr>"

lemma ex_review_runs: "fst ex_review = None" "length (snd (snd ex_review)) = 1"
  by code_simp+

theorem setup_review_converges_witness:
  "\<exists>e a. filter (pending_review ''o1'' ''w1'') (rt_events (fst (snd ex_review))) = [e]
     \<and> filter (review_activity ''o1'' ''w1'' (se_ID e)) (rt_activities (fst (snd ex_review))) = [a]"
proof -
  have "Ensure None (replicate 32 0) True (snd (hd ex_review_rows)) 7 ex_review_rows \<lparr>rt_events = [], rt_activities = []\<rparr>
      = (None, fst (snd ex_review), snd (snd ex_review))"
    using ex_review_runs(1) by (simp add: ex_review_def prod_eq_iff)
  from setup_review_converges [OF review_reach.start this] show ?thesis by (auto simp: ex_review_rows_def)
qed

theorem setup_review_idempotent_witness:
  "ids_of (fst (snd (Ensure None (replicate 32 1) True (snd (hd ex_review_rows)) 9 ex_review_rows (fst (snd ex_review)))))
     = ids_of (fst (snd ex_review))"
proof -
  have first: "Ensure None (replicate 32 0) True (snd (hd ex_review_rows)) 7 ex_review_rows \<lparr>rt_events = [], rt_activities = []\<rparr>
      = (None, fst (snd ex_review), snd (snd ex_review))"
    using ex_review_runs(1) by (simp add: ex_review_def prod_eq_iff)
  obtain e t ns where second: "Ensure None (replicate 32 1) True (snd (hd ex_review_rows)) 9 ex_review_rows (fst (snd ex_review))
      = (e, t, ns)" by (rule prod_cases3)
  from setup_review_idempotent [OF review_reach.start first second] show ?thesis by (simp add: second)
qed

end
