(* ===== verification/Lifecycle.thy ===== *)
theory Lifecycle
  imports Setup_Review
begin

text \<open>
  The lifecycle coordinator (\<^verbatim>\<open>lifecycle/coordinator.go\<close>): terminal activity is coalesced in memory and
  flushed, and every scan lists the durable rows, resumes interrupted work, suspends what is idle,
  applies retention, promotes queued workspaces and reconciles quotas. Its world is the service's
  world with the review tables, what was sent to the notifier, the pending activity, and a trace of
  the coordinator's own calls with their answers. The coordinator's turn-taking environment answers
  its clock, its stores and its prober; operations that other requests ask for run before each of its
  interactions.
\<close>

subsection \<open>The coordinator's world\<close>

record lifecycle_config =
  lc_ScanInterval :: time
  lc_WarningLead :: time
  lc_notifier :: bool

record lifecycle_event =
  le_OwnerID :: string
  le_WorkspaceID :: string
  le_At :: time

text \<open>
  An answer: the clock, whether the context is done, the error of a failing call, the settings of the
  owner, what the prober observed, the random bytes and the fate of a transaction of the review store,
  the order in which a map is ranged over, and what other requests did just before.
\<close>

record lanswer =
  la_now :: time
  la_cancel :: bool
  la_err :: "goerr option"
  la_minutes :: int
  la_busy :: bool
  la_random :: bytes
  la_db :: db_failure
  la_rank :: "string \<Rightarrow> nat"
  la_others :: "svc_call list"
  la_decisions :: "review_tables \<Rightarrow> review_tables"

datatype lcall =
    Listed "workspace list result"
  | ReadClock time
  | ReadSettings string "int result"
  | Probed string string "bool result"
  | Touched string string time "goerr option"
  | MarkedIdle string string time
  | SuspendedIf string string time
  | Retried string string "workspace \<times> goerr option"
  | Deleted string string "goerr option"
  | Reconciled string
  | Ensured workspace time
  | Warned string activity_row

record lworld =
  lw_service :: world
  lw_reviews :: review_tables
  lw_notices :: "notification list"
  lw_pending :: "(string, lifecycle_event) gomap"
  lw_wake :: bool
  lw_trace :: "lcall list"
  lw_answers :: "nat \<Rightarrow> lanswer"
  lw_turn :: nat

type_synonym 'a lif = "(lworld, 'a) state"

definition turn :: "lanswer lif" where
  "turn = do {
     w \<leftarrow> State_Monad.get;
     let a = lw_answers w (lw_turn w);
     _ \<leftarrow> State_Monad.set (w\<lparr>lw_turn := Suc (lw_turn w), lw_service := fold svc_run (la_others a) (lw_service w),
           lw_reviews := la_decisions a (lw_reviews w)\<rparr>);
     ret a }"

definition trace_call :: "lcall \<Rightarrow> unit lif" where
  "trace_call c = do { w \<leftarrow> State_Monad.get; State_Monad.set (w\<lparr>lw_trace := lw_trace w @ [c]\<rparr>) }"

text \<open>A read answered by the environment, an operation of the service, a transaction on the review tables.\<close>

definition answered :: "(lanswer \<Rightarrow> 'a) \<Rightarrow> ('a \<Rightarrow> lcall) \<Rightarrow> 'a lif" where
  "answered f c = do { a \<leftarrow> turn; _ \<leftarrow> trace_call (c (f a)); ret (f a) }"

definition operation :: "'a svc \<Rightarrow> ('a \<Rightarrow> lcall) \<Rightarrow> 'a lif" where
  "operation m c = do {
     _ \<leftarrow> turn;
     w \<leftarrow> State_Monad.get;
     let (r, s) = run_state m (lw_service w);
     _ \<leftarrow> State_Monad.set (w\<lparr>lw_service := s\<rparr>);
     _ \<leftarrow> trace_call (c r);
     ret r }"

definition lif_now :: "time lif" where
  "lif_now = answered la_now ReadClock"

definition lif_ctx :: "goerr option lif" where
  "lif_ctx = do { a \<leftarrow> turn; ret (if la_cancel a then Some ctx_error else None) }"

definition lif_ListAll :: "workspace list result lif" where
  "lif_ListAll = operation (rows_read (\<lambda>s. Inr (store_ListAll s))) Listed"

definition answer_result :: "(lanswer \<Rightarrow> 'a) \<Rightarrow> lanswer \<Rightarrow> 'a result" where
  "answer_result f a = (case la_err a of Some e \<Rightarrow> Inl e | None \<Rightarrow> Inr (f a))"

definition lif_GetSettings :: "string \<Rightarrow> int result lif" where
  "lif_GetSettings ownerID = answered (answer_result la_minutes) (ReadSettings ownerID)"

definition lif_Probe :: "workspace \<Rightarrow> bool result lif" where
  "lif_Probe ws = answered (answer_result la_busy) (Probed (ws_OwnerID ws) (ws_ID ws))"

definition lif_TouchActivity :: "string \<Rightarrow> string \<Rightarrow> time \<Rightarrow> workspace result lif" where
  "lif_TouchActivity ow k at = operation (svc_TouchActivity ow k at)
     (\<lambda>r. Touched ow k at (case r of Inl e \<Rightarrow> Some e | Inr _ \<Rightarrow> None))"

definition lif_MarkIdle :: "string \<Rightarrow> string \<Rightarrow> time \<Rightarrow> bool result lif" where
  "lif_MarkIdle ow k expected = operation (MarkIdleIfInactive ow k expected) (\<lambda>_. MarkedIdle ow k expected)"

definition lif_Suspend :: "string \<Rightarrow> string \<Rightarrow> time \<Rightarrow> (workspace \<times> bool \<times> goerr option) lif" where
  "lif_Suspend ow k expected = operation (SuspendIfInactive ow k expected) (\<lambda>_. SuspendedIf ow k expected)"

definition lif_Retry :: "string \<Rightarrow> string \<Rightarrow> outcome lif" where
  "lif_Retry ow k = operation (Retry ow k) (Retried ow k)"

definition lif_Delete :: "string \<Rightarrow> string \<Rightarrow> goerr option lif" where
  "lif_Delete ow k = operation (Delete ow k True False) (Deleted ow k)"

definition lif_Reconcile :: "string \<Rightarrow> goerr option lif" where
  "lif_Reconcile ow = operation (ReconcileCapacity ow) (\<lambda>_. Reconciled ow)"

definition lif_Ensure :: "lifecycle_config \<Rightarrow> workspace \<Rightarrow> time \<Rightarrow> goerr option lif" where
  "lif_Ensure c ws now = do {
     a \<leftarrow> turn;
     _ \<leftarrow> trace_call (Ensured ws now);
     w \<leftarrow> State_Monad.get;
     (case Ensure (la_db a) (la_random a) (lc_notifier c) ws now (w_rows (lw_service w)) (lw_reviews w) of
        (e, t, ns) \<Rightarrow> do {
          _ \<leftarrow> State_Monad.set (w\<lparr>lw_reviews := t, lw_notices := lw_notices w @ ns\<rparr>);
          ret e }) }"

text \<open>
  \<^verbatim>\<open>AddActivity\<close> on the table of activities: the row's checks, then the insert with the identifier's
  length, the primary key and the reference to the workspace. The metadata is kept only as the approval it links to.
\<close>

definition AddActivity :: "db_failure \<Rightarrow> string \<Rightarrow> activity_row \<Rightarrow> rows \<Rightarrow> review_tables \<Rightarrow> unit result \<times> review_tables" where
  "AddActivity db ownerID a rows t =
     (if ownerID = [] \<or> wa_ID a = [] \<or> wa_Summary a = [] \<or> length (wa_Summary a) > 4096 \<or> wa_CreatedAt a = 0
      then (Inl (GoErr ErrInvalid ''activity''), t)
      else if wa_Kind a \<notin> {''approval'', ''question'', ''completed'', ''failed'', ''maintenance''}
      then (Inl (GoErr ErrInvalid ''activity kind''), t)
      else transact db
        (if length (wa_ID a) > 160 then (Inl (GoErr ErrInvalid ''add activity''), t)
         else if \<exists>x \<in> set (rt_activities t). wa_ID x = wa_ID a then (Inl (GoErr ErrConflict ''add activity''), t)
         else if (case wa_WorkspaceID a of None \<Rightarrow> False | Some k \<Rightarrow> (case store_Get ownerID k rows of Inl _ \<Rightarrow> True | Inr _ \<Rightarrow> False))
         then (Inl (GoErr ErrPrecondition ''add activity''), t)
         else (Inr (), t\<lparr>rt_activities := rt_activities t @ [a\<lparr>wa_OwnerID := ownerID\<rparr>]\<rparr>)) t)"

definition lif_AddActivity :: "string \<Rightarrow> activity_row \<Rightarrow> goerr option lif" where
  "lif_AddActivity ownerID row = do {
     a \<leftarrow> turn;
     _ \<leftarrow> trace_call (Warned ownerID row);
     w \<leftarrow> State_Monad.get;
     (case AddActivity (la_db a) ownerID row (w_rows (lw_service w)) (lw_reviews w) of
        (r, t) \<Rightarrow> do {
          _ \<leftarrow> State_Monad.set (w\<lparr>lw_reviews := t\<rparr>);
          ret (case r of Inl e \<Rightarrow> Some e | Inr _ \<Rightarrow> None) }) }"

subsection \<open>Configuration and recorded activity\<close>

definition New_lifecycle :: "bool \<Rightarrow> lifecycle_config \<Rightarrow> lifecycle_config result" where
  "New_lifecycle dependencies c =
     (if \<not> dependencies then Inl (errorsNew ''lifecycle dependencies are required'')
      else
      let c1 = (if lc_ScanInterval c = 0 then c\<lparr>lc_ScanInterval := minute\<rparr> else c);
          c2 = (if lc_WarningLead c1 = 0 then c1\<lparr>lc_WarningLead := 24 * hour\<rparr> else c1) in
      if lc_ScanInterval c2 < second \<or> lc_WarningLead c2 < minute then Inl (errorsNew ''invalid lifecycle timing'')
      else Inr c2)"

text \<open>\<^verbatim>\<open>RecordActivity\<close>: the newest instant of each workspace is kept; the wake channel holds one token.\<close>

definition activity_key :: "lifecycle_event \<Rightarrow> string" where
  "activity_key e = le_OwnerID e @ [CHR 0x00] @ le_WorkspaceID e"

definition coalesce :: "lifecycle_event \<Rightarrow> (string, lifecycle_event) gomap \<Rightarrow> (string, lifecycle_event) gomap" where
  "coalesce e pending =
     (case map_of pending (activity_key e) of
        None \<Rightarrow> AList.update (activity_key e) e pending
      | Some current \<Rightarrow> if le_At current < le_At e then AList.update (activity_key e) e pending else pending)"

definition RecordActivity :: "lifecycle_event \<Rightarrow> unit lif" where
  "RecordActivity e =
     (if le_OwnerID e = [] \<or> le_WorkspaceID e = [] then ret ()
      else do {
        at \<leftarrow> (if le_At e = 0 then lif_now else ret (le_At e));
        w \<leftarrow> State_Monad.get;
        State_Monad.set (w\<lparr>lw_pending := coalesce (e\<lparr>le_At := at\<rparr>) (lw_pending w), lw_wake := True\<rparr>) })"

text \<open>The pending map is swapped for an empty one, then ranged over in whatever order the map gives.\<close>

definition ranged :: "(string \<Rightarrow> nat) \<Rightarrow> (string, 'a) gomap \<Rightarrow> 'a list" where
  "ranged rank m = map snd (sort_key (\<lambda>(k, v). rank k) m)"

fun flush_each :: "lifecycle_event list \<Rightarrow> goerr list lif" where
  "flush_each [] = ret []"
| "flush_each (e # es) = do {
     r \<leftarrow> lif_TouchActivity (le_OwnerID e) (le_WorkspaceID e) (le_At e);
     rest \<leftarrow> flush_each es;
     ret ((case r of Inr _ \<Rightarrow> [] | Inl x \<Rightarrow> if err_is x = ErrConflict \<or> err_is x = ErrNotFound then [] else [x]) @ rest) }"

definition flushActivity :: "goerr list lif" where
  "flushActivity = do {
     a \<leftarrow> turn;
     w \<leftarrow> State_Monad.get;
     _ \<leftarrow> State_Monad.set (w\<lparr>lw_pending := []\<rparr>);
     flush_each (ranged (la_rank a) (lw_pending w)) }"

subsection \<open>Retention\<close>

definition retentionDuration :: "retention_policy \<Rightarrow> time option" where
  "retentionDuration r =
     (if r = Retention7Days then Some (7 * 24 * hour)
      else if r = Retention30Days then Some (30 * 24 * hour)
      else if r = Retention90Days then Some (90 * 24 * hour)
      else None)"

text \<open>Seconds since 1970 of an instant counted from year 1, and their decimal form.\<close>

definition unix :: "time \<Rightarrow> int" where
  "unix t = t div second - 62135596800"

definition decimal_int :: "int \<Rightarrow> string" where
  "decimal_int i = (if i < 0 then ''-'' @ decimal (nat (- i)) else decimal (nat i))"

definition strconvUnix :: "time \<Rightarrow> string" where
  "strconvUnix t = decimal_int (unix t)"

definition retention_warning :: "workspace \<Rightarrow> time \<Rightarrow> time \<Rightarrow> activity_row" where
  "retention_warning value suspendedAt now =
     \<lparr>wa_ID = ''retention-warning-'' @ ws_ID value @ ''-'' @ strconvUnix suspendedAt, wa_OwnerID = ws_OwnerID value,
      wa_WorkspaceID = Some (ws_ID value), wa_Kind = ''maintenance'',
      wa_Summary = ''Workspace retention period is nearing expiry.'', wa_ApprovalID = None, wa_CreatedAt = now\<rparr>"

definition applyRetention :: "lifecycle_config \<Rightarrow> workspace \<Rightarrow> time \<Rightarrow> goerr option lif" where
  "applyRetention c value now =
     (if ws_Retention value = RetentionForever \<or> \<not> MayAutoDelete value then ret None
      else case (retentionDuration (ws_Retention value), ws_SuspendedAt value) of
          (Some duration, Some suspendedAt) \<Rightarrow>
            let expiresAt = suspendedAt + duration in
            if \<not> now < expiresAt then lif_Delete (ws_OwnerID value) (ws_ID value)
            else
            let lead = (if lc_WarningLead c \<ge> duration then duration div 2 else lc_WarningLead c) in
            if now < expiresAt - lead then ret None
            else do {
              e \<leftarrow> lif_AddActivity (ws_OwnerID value) (retention_warning value suspendedAt now);
              ret (case e of None \<Rightarrow> None | Some x \<Rightarrow> if err_is x = ErrConflict then None else Some x) }
        | _ \<Rightarrow> ret (Some (errorsNew (''invalid suspended retention state for '' @ ws_ID value))))"

subsection \<open>Scanning\<close>

text \<open>\<^verbatim>\<open>errors.Join\<close> is a list of errors, nil when empty.\<close>

abbreviation join_error :: "goerr list \<Rightarrow> goerr option \<Rightarrow> goerr list" where
  "join_error es e \<equiv> es @ (case e of None \<Rightarrow> [] | Some x \<Rightarrow> [x])"

record scan =
  sc_errors :: "goerr list"
  sc_settings :: "(string, int) gomap"
  sc_owners :: "string list"
  sc_queued :: "workspace list"

definition scan_join :: "goerr option \<Rightarrow> scan \<Rightarrow> scan" where
  "scan_join e s = s\<lparr>sc_errors := join_error (sc_errors s) e\<rparr>"

text \<open>Interrupted provisioning is retried, and the review of a workspace that stops at the setup boundary ensured.\<close>

definition scan_provisioning :: "lifecycle_config \<Rightarrow> time \<Rightarrow> workspace \<Rightarrow> scan \<Rightarrow> scan lif" where
  "scan_provisioning c now value s = do {
     r \<leftarrow> lif_Retry (ws_OwnerID value) (ws_ID value);
     let s1 = scan_join (snd r) s;
     if ws_State (fst r) = WorkspaceAwaitingSetupApproval
     then do { e \<leftarrow> lif_Ensure c (fst r) now; ret (scan_join e s1) }
     else ret s1 }"

text \<open>The owner's settings are read at most once in a scan; a failed read is retried for the next workspace.\<close>

definition owner_settings :: "string \<Rightarrow> scan \<Rightarrow> (int option \<times> scan) lif" where
  "owner_settings ownerID s =
     (case map_of (sc_settings s) ownerID of
        Some minutes \<Rightarrow> ret (Some minutes, s)
      | None \<Rightarrow> do {
          r \<leftarrow> lif_GetSettings ownerID;
          ret (case r of
              Inl e \<Rightarrow> (None, scan_join (Some (GoErr (err_is e) ''load lifecycle settings'')) s)
            | Inr minutes \<Rightarrow> (Some minutes, s\<lparr>sc_settings := AList.update ownerID minutes (sc_settings s)\<rparr>)) })"

definition idle_expired :: "int \<Rightarrow> time \<Rightarrow> workspace \<Rightarrow> bool" where
  "idle_expired minutes now value \<longleftrightarrow>
     \<not> (minutes < 5 \<or> minutes > 10080 \<or> now < ws_LastActivityAt value + minutes * minute)"

definition suspend_idle :: "workspace \<Rightarrow> scan \<Rightarrow> scan lif" where
  "suspend_idle value s = do {
     r \<leftarrow> lif_Suspend (ws_OwnerID value) (ws_ID value) (ws_LastActivityAt value);
     ret (scan_join (snd (snd r)) s) }"

definition scan_inactive :: "time \<Rightarrow> workspace \<Rightarrow> scan \<Rightarrow> scan lif" where
  "scan_inactive now value s = do {
     observed \<leftarrow> lif_Probe value;
     (case observed of
        Inl e \<Rightarrow> ret (scan_join (Some (GoErr (err_is e) ''probe workspace runtime'')) s)
      | Inr True \<Rightarrow> do {
          r \<leftarrow> lif_TouchActivity (ws_OwnerID value) (ws_ID value) now;
          ret (case r of Inr _ \<Rightarrow> s | Inl e \<Rightarrow> if err_is e = ErrConflict then s else scan_join (Some e) s) }
      | Inr False \<Rightarrow>
          if ws_State value = WorkspaceRunning
          then do {
            r \<leftarrow> lif_MarkIdle (ws_OwnerID value) (ws_ID value) (ws_LastActivityAt value);
            ret (case r of Inl e \<Rightarrow> scan_join (Some e) s | Inr _ \<Rightarrow> s) }
          else suspend_idle value s) }"

definition scan_active :: "time \<Rightarrow> workspace \<Rightarrow> scan \<Rightarrow> scan lif" where
  "scan_active now value s = do {
     r \<leftarrow> owner_settings (ws_OwnerID value) s;
     (case r of
        (None, s1) \<Rightarrow> ret s1
      | (Some settings, s1) \<Rightarrow>
          let minutes = (if ws_IdleTimeoutMinutes value = 0 then settings else ws_IdleTimeoutMinutes value) in
          if \<not> idle_expired minutes now value then ret s1 else scan_inactive now value s1) }"

definition scan_workspace :: "lifecycle_config \<Rightarrow> time \<Rightarrow> workspace \<Rightarrow> scan \<Rightarrow> scan lif" where
  "scan_workspace c now value s0 =
     (let s = s0\<lparr>sc_owners := List.insert (ws_OwnerID value) (sc_owners s0)\<rparr> in
      case ws_State value of
        WorkspaceQueued \<Rightarrow> ret (s\<lparr>sc_queued := sc_queued s @ [value]\<rparr>)
      | WorkspaceProvisioning \<Rightarrow> scan_provisioning c now value s
      | WorkspaceAwaitingSetupApproval \<Rightarrow> do { e \<leftarrow> lif_Ensure c value now; ret (scan_join e s) }
      | WorkspaceRunning \<Rightarrow> scan_active now value s
      | WorkspaceIdle \<Rightarrow> scan_active now value s
      | WorkspaceSuspending \<Rightarrow> suspend_idle value s
      | WorkspaceSuspended \<Rightarrow> do { e \<leftarrow> applyRetention c value now; ret (scan_join e s) }
      | WorkspaceDeleting \<Rightarrow> do { e \<leftarrow> lif_Delete (ws_OwnerID value) (ws_ID value); ret (scan_join e s) }
      | _ \<Rightarrow> ret s)"

fun scan_workspaces :: "lifecycle_config \<Rightarrow> time \<Rightarrow> workspace list \<Rightarrow> scan \<Rightarrow> (goerr option \<times> scan) lif" where
  "scan_workspaces c now [] s = ret (None, s)"
| "scan_workspaces c now (v # vs) s = do {
     e \<leftarrow> lif_ctx;
     (case e of
        Some e \<Rightarrow> ret (Some e, s)
      | None \<Rightarrow> do { s1 \<leftarrow> scan_workspace c now v s; scan_workspaces c now vs s1 }) }"

text \<open>Queued workspaces, oldest first; an owner is blocked by the first one that cannot be started.\<close>

fun promoteQueued :: "lifecycle_config \<Rightarrow> string list \<Rightarrow> workspace list \<Rightarrow> goerr list lif" where
  "promoteQueued c blocked [] = ret []"
| "promoteQueued c blocked (v # vs) =
     (if ws_OwnerID v \<in> set blocked then promoteQueued c blocked vs
      else do {
        r \<leftarrow> lif_Retry (ws_OwnerID v) (ws_ID v);
        e1 \<leftarrow> (if ws_State (fst r) = WorkspaceAwaitingSetupApproval
               then do { now \<leftarrow> lif_now; lif_Ensure c (fst r) now } else ret None);
        rest \<leftarrow> promoteQueued c
          (case snd r of
             Some _ \<Rightarrow> if ws_State (fst r) = WorkspaceFailed then blocked else ws_OwnerID v # blocked
           | None \<Rightarrow> if ws_State (fst r) = WorkspaceQueued then ws_OwnerID v # blocked else blocked) vs;
        ret (join_error (join_error [] e1)
               (case snd r of None \<Rightarrow> None | Some e \<Rightarrow> Some (GoErr (err_is e) ''promote queued workspace'')) @ rest) })"

fun reconcile_owners :: "string list \<Rightarrow> goerr list \<Rightarrow> goerr list lif" where
  "reconcile_owners [] es = ret es"
| "reconcile_owners (ow # ows) es = do {
     e \<leftarrow> lif_ctx;
     (case e of
        Some e \<Rightarrow> ret (es @ [e])
      | None \<Rightarrow> do { e \<leftarrow> lif_Reconcile ow; reconcile_owners ows (join_error es e) }) }"

definition oldest_first :: "workspace list \<Rightarrow> workspace list" where
  "oldest_first values = sort_key (\<lambda>ws. (ws_CreatedAt ws, ws_ID ws)) values"

definition Scan :: "lifecycle_config \<Rightarrow> goerr list lif" where
  "Scan c = do {
     r \<leftarrow> lif_ListAll;
     (case r of
        Inl e \<Rightarrow> ret [e]
      | Inr values \<Rightarrow> do {
          now \<leftarrow> lif_now;
          r \<leftarrow> scan_workspaces c now (oldest_first values)
            \<lparr>sc_errors = [], sc_settings = [], sc_owners = [], sc_queued = []\<rparr>;
          (case r of
             (Some e, s) \<Rightarrow> ret (sc_errors s @ [e])
           | (None, s) \<Rightarrow> do {
               es \<leftarrow> promoteQueued c [] (sc_queued s);
               reconcile_owners (sort (sc_owners s)) (sc_errors s @ es) }) }) }"

text \<open>One turn of the loop of \<^verbatim>\<open>Run\<close>: the case the select takes, and the errors that are reported.\<close>

datatype select_case = SelectWake | SelectTick

definition run_select :: "lifecycle_config \<Rightarrow> select_case \<Rightarrow> goerr list lif" where
  "run_select c sel =
     (case sel of
        SelectWake \<Rightarrow> do {
          w \<leftarrow> State_Monad.get;
          (if lw_wake w then do { _ \<leftarrow> State_Monad.set (w\<lparr>lw_wake := False\<rparr>); flushActivity } else ret []) }
      | SelectTick \<Rightarrow> do {
          es \<leftarrow> flushActivity;
          fs \<leftarrow> Scan c;
          ret (es @ fs) })"

end
