(* ===== verification/Lifecycle_Safety.thy ===== *)
theory Lifecycle_Safety
  imports Lifecycle
begin

text \<open>
  What a scan of the lifecycle coordinator may call and what it does call: every call it makes is
  justified by what was listed, by the clock and by what was probed before it in the same scan; every
  listed workspace that needs a call gets it; queued workspaces are promoted oldest first; recorded
  activity is coalesced to the newest instant. All of it holds for every answer of the environment and
  whatever other requests do in between.
\<close>

subsection \<open>What a computation adds to the trace\<close>

definition emits :: "(nat \<Rightarrow> lanswer) \<Rightarrow> ('a \<Rightarrow> lcall list \<Rightarrow> bool) \<Rightarrow> 'a lif \<Rightarrow> bool" where
  "emits ans P m \<longleftrightarrow> (\<forall>w. lw_answers w = ans \<longrightarrow> lw_answers (snd (run_state m w)) = ans
     \<and> (\<exists>tr. lw_trace (snd (run_state m w)) = lw_trace w @ tr \<and> P (fst (run_state m w)) tr))"

lemma emits_weaken: "emits ans P m \<Longrightarrow> (\<And>r tr. P r tr \<Longrightarrow> Q r tr) \<Longrightarrow> emits ans Q m"
  unfolding emits_def by blast

lemma emits_ret: "P r [] \<Longrightarrow> emits ans P (ret r)"
  by (simp add: emits_def)

lemma emits_bind:
  assumes m: "emits ans P m" and f: "\<And>r tr. P r tr \<Longrightarrow> emits ans (\<lambda>s tr'. Q s (tr @ tr')) (f r)"
  shows "emits ans Q (State_Monad.bind m f)"
  unfolding emits_def
proof (intro allI impI)
  fix w :: lworld assume w: "lw_answers w = ans"
  obtain r w1 where run: "run_state m w = (r, w1)" by fastforce
  then obtain tr where tr: "lw_answers w1 = ans" "lw_trace w1 = lw_trace w @ tr" "P r tr"
    using m w unfolding emits_def by (metis fst_conv snd_conv)
  obtain tr' where "lw_answers (snd (run_state (f r) w1)) = ans"
      "lw_trace (snd (run_state (f r) w1)) = lw_trace w1 @ tr'" "Q (fst (run_state (f r) w1)) (tr @ tr')"
    using f [OF tr(3)] tr(1) unfolding emits_def by blast
  with tr(2) show "lw_answers (snd (run_state (State_Monad.bind m f) w)) = ans
      \<and> (\<exists>tr. lw_trace (snd (run_state (State_Monad.bind m f) w)) = lw_trace w @ tr
           \<and> Q (fst (run_state (State_Monad.bind m f) w)) tr)"
    by (intro conjI exI [of _ "tr @ tr'"]) (simp_all add: State_Monad.bind_def run)
qed

lemma emits_if: "(b \<Longrightarrow> emits ans P m) \<Longrightarrow> (\<not> b \<Longrightarrow> emits ans P n) \<Longrightarrow> emits ans P (if b then m else n)"
  by simp

lemma emits_option:
  "(x = None \<Longrightarrow> emits ans P m) \<Longrightarrow> (\<And>e. x = Some e \<Longrightarrow> emits ans P (f e)) \<Longrightarrow> emits ans P (case x of None \<Rightarrow> m | Some e \<Rightarrow> f e)"
  by (cases x) auto

lemma emits_sum:
  "(\<And>e. x = Inl e \<Longrightarrow> emits ans P (f e)) \<Longrightarrow> (\<And>v. x = Inr v \<Longrightarrow> emits ans P (g v)) \<Longrightarrow> emits ans P (case x of Inl e \<Rightarrow> f e | Inr v \<Rightarrow> g v)"
  by (cases x) auto

lemma emits_prod: "(\<And>a b. x = (a, b) \<Longrightarrow> emits ans P (f a b)) \<Longrightarrow> emits ans P (case x of (a, b) \<Rightarrow> f a b)"
  by (cases x) auto

lemmas emits_rules = emits_bind emits_if emits_option emits_sum emits_prod

lemma emits_turn: "emits ans (\<lambda>r tr. tr = []) turn"
  by (simp add: emits_def turn_def Let_def)

lemma emits_ctx: "emits ans (\<lambda>r tr. tr = []) lif_ctx"
  unfolding lif_ctx_def by (rule emits_bind [OF emits_turn]) (simp add: emits_ret)

lemma emits_ctx_open: "(\<And>n. \<not> la_cancel (ans n)) \<Longrightarrow> emits ans (\<lambda>r tr. tr = [] \<and> r = None) lif_ctx"
  by (simp add: emits_def lif_ctx_def turn_def Let_def)

lemma emits_answered: "emits ans (\<lambda>r tr. tr = [call r]) (answered f call)"
  by (simp add: emits_def answered_def turn_def trace_call_def Let_def)

lemma emits_operation: "emits ans (\<lambda>r tr. tr = [call r]) (operation m call)"
  by (simp add: emits_def operation_def turn_def trace_call_def Let_def split_beta)

text \<open>The one call of every basic interaction.\<close>

lemma emits_now: "emits ans (\<lambda>r tr. tr = [ReadClock r]) lif_now"
  and emits_ListAll: "emits ans (\<lambda>r tr. tr = [Listed r]) lif_ListAll"
  and emits_Settings: "emits ans (\<lambda>r tr. tr = [ReadSettings ow r]) (lif_GetSettings ow)"
  and emits_Probe: "emits ans (\<lambda>r tr. tr = [Probed (ws_OwnerID ws) (ws_ID ws) r]) (lif_Probe ws)"
  and emits_Touch: "emits ans (\<lambda>r tr. tr = [Touched ow k at (case r of Inl e \<Rightarrow> Some e | Inr _ \<Rightarrow> None)]) (lif_TouchActivity ow k at)"
  and emits_MarkIdle: "emits ans (\<lambda>r tr. tr = [MarkedIdle ow k at]) (lif_MarkIdle ow k at)"
  and emits_Suspend: "emits ans (\<lambda>r tr. tr = [SuspendedIf ow k at]) (lif_Suspend ow k at)"
  and emits_Retry: "emits ans (\<lambda>r tr. tr = [Retried ow k r]) (lif_Retry ow k)"
  and emits_Delete: "emits ans (\<lambda>r tr. tr = [Deleted ow k r]) (lif_Delete ow k)"
  and emits_Reconcile: "emits ans (\<lambda>r tr. tr = [Reconciled ow]) (lif_Reconcile ow)"
  unfolding lif_now_def lif_ListAll_def lif_GetSettings_def lif_Probe_def lif_TouchActivity_def lif_MarkIdle_def
    lif_Suspend_def lif_Retry_def lif_Delete_def lif_Reconcile_def
  by (rule emits_answered emits_operation)+

lemma emits_Ensure: "emits ans (\<lambda>r tr. tr = [Ensured ws now]) (lif_Ensure c ws now)"
  by (simp add: emits_def lif_Ensure_def turn_def trace_call_def Let_def split_beta)

lemma emits_AddActivity: "emits ans (\<lambda>r tr. tr = [Warned ow row]) (lif_AddActivity ow row)"
  by (simp add: emits_def lif_AddActivity_def turn_def trace_call_def Let_def split_beta split: sum.split)

lemmas emits_calls = emits_now emits_ListAll emits_Settings emits_Probe emits_Touch emits_MarkIdle emits_Suspend
  emits_Retry emits_Delete emits_Reconcile emits_Ensure emits_AddActivity emits_ctx emits_turn

subsection \<open>Justified calls\<close>

text \<open>The row of the list the call is about.\<close>

definition row_in :: "workspace list \<Rightarrow> string \<Rightarrow> string \<Rightarrow> (workspace \<Rightarrow> bool) \<Rightarrow> bool" where
  "row_in values ow k p \<longleftrightarrow> (\<exists>ws \<in> set values. ws_OwnerID ws = ow \<and> ws_ID ws = k \<and> p ws)"

text \<open>Retention has run out: automatic deletion may start.\<close>

definition retention_over :: "time \<Rightarrow> workspace \<Rightarrow> bool" where
  "retention_over now ws \<longleftrightarrow> ws_State ws = WorkspaceSuspended \<and> MayAutoDelete ws
     \<and> (\<exists>duration since. retentionDuration (ws_Retention ws) = Some duration \<and> ws_SuspendedAt ws = Some since
          \<and> since + duration \<le> now)"

text \<open>The idle timeout that applies has passed, and the runtime was probed and found inactive.\<close>

definition found_idle :: "time \<Rightarrow> lcall list \<Rightarrow> workspace \<Rightarrow> bool" where
  "found_idle now before ws \<longleftrightarrow> Probed (ws_OwnerID ws) (ws_ID ws) (Inr False) \<in> set before
     \<and> (\<exists>minutes. idle_expired minutes now ws
          \<and> (if ws_IdleTimeoutMinutes ws = 0 then ReadSettings (ws_OwnerID ws) (Inr minutes) \<in> set before
             else minutes = ws_IdleTimeoutMinutes ws))"

fun justified :: "time \<Rightarrow> workspace list \<Rightarrow> lcall list \<Rightarrow> lcall \<Rightarrow> bool" where
  "justified now values before (Deleted ow k e) =
     row_in values ow k (\<lambda>ws. ws_State ws = WorkspaceDeleting \<or> retention_over now ws)"
| "justified now values before (MarkedIdle ow k expected) =
     row_in values ow k (\<lambda>ws. ws_State ws = WorkspaceRunning \<and> expected = ws_LastActivityAt ws \<and> found_idle now before ws)"
| "justified now values before (SuspendedIf ow k expected) =
     row_in values ow k (\<lambda>ws. expected = ws_LastActivityAt ws
       \<and> (ws_State ws = WorkspaceSuspending \<or> ws_State ws = WorkspaceIdle \<and> found_idle now before ws))"
| "justified now values before (Retried ow k r) =
     row_in values ow k (\<lambda>ws. ws_State ws = WorkspaceProvisioning \<or> ws_State ws = WorkspaceQueued)"
| "justified now values before (Touched ow k at e) =
     (at = now \<and> row_in values ow k (\<lambda>ws. ws_State ws \<in> {WorkspaceRunning, WorkspaceIdle}) \<and> Probed ow k (Inr True) \<in> set before)"
| "justified now values before (Warned ow row) =
     (\<exists>k. row_in values ow k (\<lambda>ws. ws_State ws = WorkspaceSuspended \<and> MayAutoDelete ws \<and> \<not> retention_over now ws))"
| "justified now values before _ = True"

fun lawful :: "time \<Rightarrow> workspace list \<Rightarrow> lcall list \<Rightarrow> lcall list \<Rightarrow> bool" where
  "lawful now values before [] = True"
| "lawful now values before (c # cs) = (justified now values before c \<and> lawful now values (before @ [c]) cs)"

lemma lawful_append: "lawful now vs before (xs @ ys) \<longleftrightarrow> lawful now vs before xs \<and> lawful now vs (before @ xs) ys"
  by (induction xs arbitrary: before) auto

lemma lawful_nth: "lawful now vs before cs \<Longrightarrow> i < length cs \<Longrightarrow> justified now vs (before @ take i cs) (cs ! i)"
proof (induction cs arbitrary: before i)
  case (Cons c cs)
  then show ?case using Cons.IH [of "before @ [c]"] by (cases i) auto
qed simp

lemma lawful_in: "lawful now vs before cs \<Longrightarrow> c \<in> set cs \<Longrightarrow> \<exists>pre post. cs = pre @ c # post \<and> justified now vs (before @ pre) c"
  by (metis in_set_conv_nth lawful_nth id_take_nth_drop)

text \<open>Settings are cached only as they were read in this scan, and queued rows only as they were listed.\<close>

definition scan_ok :: "workspace list \<Rightarrow> lcall list \<Rightarrow> scan \<Rightarrow> bool" where
  "scan_ok values before s \<longleftrightarrow>
     (\<forall>ow minutes. map_of (sc_settings s) ow = Some minutes \<longrightarrow> ReadSettings ow (Inr minutes) \<in> set before)
     \<and> (\<forall>ws \<in> set (sc_queued s). ws \<in> set values \<and> ws_State ws = WorkspaceQueued)"

lemma scan_ok_more: "scan_ok vs before s \<Longrightarrow> scan_ok vs (before @ tr) s"
  by (auto simp: scan_ok_def)

lemma scan_ok_join [simp]: "scan_ok vs before (scan_join e s) = scan_ok vs before s"
  by (simp add: scan_ok_def scan_join_def)

lemma scan_ok_owner [simp]: "scan_ok vs before (s\<lparr>sc_owners := ows\<rparr>) = scan_ok vs before s"
  by (simp add: scan_ok_def)

definition steps_ok :: "time \<Rightarrow> workspace list \<Rightarrow> lcall list \<Rightarrow> scan \<Rightarrow> lcall list \<Rightarrow> bool" where
  "steps_ok now values before s tr \<longleftrightarrow> lawful now values before tr \<and> scan_ok values (before @ tr) s"

lemma steps_okI: "lawful now values before tr \<Longrightarrow> scan_ok values (before @ tr) s \<Longrightarrow> steps_ok now values before s tr"
  by (simp add: steps_ok_def)

lemma row_in_mono: "row_in values ow k p \<Longrightarrow> (\<And>ws. p ws \<Longrightarrow> q ws) \<Longrightarrow> row_in values ow k q"
  by (auto simp: row_in_def)

lemma row_inI: "ws \<in> set values \<Longrightarrow> p ws \<Longrightarrow> row_in values (ws_OwnerID ws) (ws_ID ws) p"
  by (auto simp: row_in_def)


lemma emits_provisioning:
  assumes "scan_ok vs b s" "v \<in> set vs" "ws_State v = WorkspaceProvisioning"
  shows "emits ans (steps_ok now vs b) (scan_provisioning c now v s)"
  unfolding scan_provisioning_def Let_def
  by (rule emits_bind [OF emits_Retry], rule emits_if, rule emits_bind [OF emits_Ensure])
     (auto intro!: emits_ret steps_okI scan_ok_more row_inI simp: assms)

lemma emits_awaiting:
  assumes "scan_ok vs b s"
  shows "emits ans (steps_ok now vs b) (do { e \<leftarrow> lif_Ensure c v now; ret (scan_join e s) })"
  by (rule emits_bind [OF emits_Ensure]) (auto intro!: emits_ret steps_okI scan_ok_more simp: assms)

lemma emits_deleting:
  assumes "scan_ok vs b s" "v \<in> set vs" "ws_State v = WorkspaceDeleting"
  shows "emits ans (steps_ok now vs b) (do { e \<leftarrow> lif_Delete (ws_OwnerID v) (ws_ID v); ret (scan_join e s) })"
  by (rule emits_bind [OF emits_Delete]) (auto intro!: emits_ret steps_okI scan_ok_more row_inI simp: assms)

lemma emits_suspending:
  assumes "scan_ok vs b s" "v \<in> set vs" "ws_State v = WorkspaceSuspending \<or> ws_State v = WorkspaceIdle \<and> found_idle now b v"
  shows "emits ans (steps_ok now vs b) (suspend_idle v s)"
  unfolding suspend_idle_def
  by (rule emits_bind [OF emits_Suspend]) (use assms in \<open>auto intro!: emits_ret steps_okI scan_ok_more row_inI\<close>)

lemma retention_calls:
  assumes "v \<in> set vs" "ws_State v = WorkspaceSuspended"
  shows "emits ans (\<lambda>r tr. lawful now vs b tr) (applyRetention c v now)"
proof (cases "(retentionDuration (ws_Retention v), ws_SuspendedAt v)")
  case (Pair x y)
  show ?thesis
  proof (cases "x = None \<or> y = None \<or> ws_Retention v = RetentionForever \<or> \<not> MayAutoDelete v")
    case True
    with Pair show ?thesis by (auto simp: applyRetention_def intro!: emits_ret split: option.split)
  next
    case False
    with Pair obtain d t where dt: "retentionDuration (ws_Retention v) = Some d" "ws_SuspendedAt v = Some t"
      "ws_Retention v \<noteq> RetentionForever" "MayAutoDelete v" by auto
    have "emits ans (\<lambda>r tr. lawful now vs b tr) (lif_Delete (ws_OwnerID v) (ws_ID v))" if "t + d \<le> now"
      using that by (intro emits_weaken [OF emits_Delete]) (auto intro!: row_inI simp: assms retention_over_def dt)
    moreover have "emits ans (\<lambda>r tr. lawful now vs b tr) (do { e \<leftarrow> lif_AddActivity (ws_OwnerID v) (retention_warning v t now);
         ret (case e of None \<Rightarrow> None | Some x \<Rightarrow> if err_is x = ErrConflict then None else Some x) })" if "now < t + d"
      by (rule emits_bind [OF emits_AddActivity])
         (use that in \<open>auto intro!: emits_ret exI [of _ "ws_ID v"] row_inI simp: assms retention_over_def dt\<close>)
    ultimately show ?thesis by (auto simp: applyRetention_def dt Let_def intro!: emits_ret)
  qed
qed

lemma emits_suspended:
  assumes "scan_ok vs b s" "v \<in> set vs" "ws_State v = WorkspaceSuspended"
  shows "emits ans (steps_ok now vs b) (do { e \<leftarrow> applyRetention c v now; ret (scan_join e s) })"
  by (rule emits_bind [OF retention_calls [OF assms(2,3)]]) (auto intro!: emits_ret steps_okI scan_ok_more simp: assms(1))

text \<open>The settings that were read, then the probe and its consequence.\<close>

lemma emits_settings:
  assumes "scan_ok vs b s"
  shows "emits ans (\<lambda>r tr. steps_ok now vs b (snd r) tr
      \<and> (\<forall>minutes. fst r = Some minutes \<longrightarrow> ReadSettings ow (Inr minutes) \<in> set (b @ tr))) (owner_settings ow s)"
  unfolding owner_settings_def
proof (rule emits_option)
  assume "map_of (sc_settings s) ow = None"
  show "emits ans (\<lambda>r tr. steps_ok now vs b (snd r) tr \<and> (\<forall>minutes. fst r = Some minutes \<longrightarrow> ReadSettings ow (Inr minutes) \<in> set (b @ tr)))
     (do { r \<leftarrow> lif_GetSettings ow;
          ret (case r of
              Inl e \<Rightarrow> (None, scan_join (Some (GoErr (err_is e) ''load lifecycle settings'')) s)
            | Inr minutes \<Rightarrow> (Some minutes, s\<lparr>sc_settings := AList.update ow minutes (sc_settings s)\<rparr>)) })"
    by (rule emits_bind [OF emits_Settings], rule emits_ret)
       (use assms in \<open>auto intro!: steps_okI simp: scan_ok_def scan_join_def update_conv split: sum.split\<close>)
qed (use assms in \<open>auto intro!: emits_ret steps_okI simp: scan_ok_def\<close>)

lemma emits_inactive:
  assumes s: "scan_ok vs b s" and v: "v \<in> set vs" "ws_State v \<in> {WorkspaceRunning, WorkspaceIdle}"
    and idle: "idle_expired m now v" "if ws_IdleTimeoutMinutes v = 0 then ReadSettings (ws_OwnerID v) (Inr m) \<in> set b
      else m = ws_IdleTimeoutMinutes v"
  shows "emits ans (steps_ok now vs b) (scan_inactive now v s)"
  unfolding scan_inactive_def
proof (rule emits_bind [OF emits_Probe], rule emits_sum, goal_cases)
  case (1 r tr e)
  then show ?case using s by (auto intro!: emits_ret steps_okI scan_ok_more)
next
  case (2 r tr busy)
  show ?case
  proof (cases busy)
    case True
    have "emits ans (\<lambda>s' tr'. steps_ok now vs b s' (tr @ tr')) (do {
          r \<leftarrow> lif_TouchActivity (ws_OwnerID v) (ws_ID v) now;
          ret (case r of Inr _ \<Rightarrow> s | Inl e \<Rightarrow> if err_is e = ErrConflict then s else scan_join (Some e) s) })"
      by (rule emits_bind [OF emits_Touch], rule emits_ret)
         (use s v 2 True in \<open>auto intro!: steps_okI scan_ok_more row_inI split: sum.split\<close>)
    with True show ?thesis by simp
  next
    case False
    have found: "found_idle now (b @ tr) v" using 2 False idle by (auto simp: found_idle_def split: if_splits)
    have "emits ans (\<lambda>s' tr'. steps_ok now vs b s' (tr @ tr')) (do {
            r \<leftarrow> lif_MarkIdle (ws_OwnerID v) (ws_ID v) (ws_LastActivityAt v);
            ret (case r of Inl e \<Rightarrow> scan_join (Some e) s | Inr _ \<Rightarrow> s) })" if "ws_State v = WorkspaceRunning"
      by (rule emits_bind [OF emits_MarkIdle], rule emits_ret)
         (use s v 2 False found that in \<open>auto intro!: steps_okI scan_ok_more row_inI simp: lawful_append split: sum.split\<close>)
    moreover have "emits ans (\<lambda>s' tr'. steps_ok now vs b s' (tr @ tr')) (suspend_idle v s)" if "ws_State v = WorkspaceIdle"
    proof (rule emits_weaken [OF emits_suspending [of vs "b @ tr" s v now]])
      show "steps_ok now vs b s' (tr @ tr')" if "steps_ok now vs (b @ tr) s' tr'" for s' tr'
        using that 2 False by (auto simp: steps_ok_def)
    qed (use s v found that in \<open>auto intro: scan_ok_more\<close>)
    ultimately show ?thesis using False v(2) by auto
  qed
qed

lemma steps_ok_then: "steps_ok now vs b s tr \<Longrightarrow> steps_ok now vs (b @ tr) s' tr' \<Longrightarrow> steps_ok now vs b s' (tr @ tr')"
  by (simp add: steps_ok_def lawful_append)

lemma emits_active:
  assumes s: "scan_ok vs b s" and v: "v \<in> set vs" "ws_State v \<in> {WorkspaceRunning, WorkspaceIdle}"
  shows "emits ans (steps_ok now vs b) (scan_active now v s)"
  unfolding scan_active_def
proof (rule emits_bind [OF emits_settings [OF s]])
  fix r tr
  assume pre: "steps_ok now vs b (snd r) tr
    \<and> (\<forall>m. fst r = Some m \<longrightarrow> ReadSettings (ws_OwnerID v) (Inr m) \<in> set (b @ tr))"
  obtain o' s1 where r: "r = (o', s1)" by fastforce
  show "emits ans (\<lambda>s' tr'. steps_ok now vs b s' (tr @ tr'))
    (case r of (None, s1) \<Rightarrow> ret s1
     | (Some settings, s1) \<Rightarrow>
         let minutes = (if ws_IdleTimeoutMinutes v = 0 then settings else ws_IdleTimeoutMinutes v) in
         if \<not> idle_expired minutes now v then ret s1 else scan_inactive now v s1)"
  proof (cases o')
    case None
    with pre r show ?thesis by (auto intro!: emits_ret)
  next
    case (Some settings)
    let ?m = "if ws_IdleTimeoutMinutes v = 0 then settings else ws_IdleTimeoutMinutes v"
    have ok: "scan_ok vs (b @ tr) s1" using pre r by (simp add: steps_ok_def)
    have "emits ans (\<lambda>s' tr'. steps_ok now vs b s' (tr @ tr')) (scan_inactive now v s1)" if "idle_expired ?m now v"
      by (rule emits_weaken [OF emits_inactive [OF ok v that]])
         (use pre r Some in \<open>auto intro: steps_ok_then\<close>)
    moreover have "emits ans (\<lambda>s' tr'. steps_ok now vs b s' (tr @ tr')) (ret s1)" using pre r by (auto intro: emits_ret)
    ultimately show ?thesis by (simp add: r Some Let_def)
  qed
qed

lemma emits_workspace:
  assumes "scan_ok vs b s" "v \<in> set vs"
  shows "emits ans (steps_ok now vs b) (scan_workspace c now v s)"
proof -
  let ?s = "s\<lparr>sc_owners := List.insert (ws_OwnerID v) (sc_owners s)\<rparr>"
  have s: "scan_ok vs b ?s" using assms(1) by simp
  have "emits ans (steps_ok now vs b) (ret (?s\<lparr>sc_queued := sc_queued ?s @ [v]\<rparr>))" if "ws_State v = WorkspaceQueued"
    using s assms(2) that by (intro emits_ret) (auto simp: steps_ok_def scan_ok_def)
  moreover have "emits ans (steps_ok now vs b) (ret ?s)" using s by (intro emits_ret) (auto simp: steps_ok_def)
  ultimately show ?thesis
    unfolding scan_workspace_def Let_def
    using emits_provisioning [OF s assms(2)] emits_awaiting [OF s] emits_active [OF s assms(2)]
      emits_suspending [OF s assms(2)] emits_suspended [OF s assms(2)] emits_deleting [OF s assms(2)]
    by (cases "ws_State v") simp_all
qed

lemma emits_workspaces:
  assumes "scan_ok all b s" "set vs \<subseteq> set all"
  shows "emits ans (\<lambda>r. steps_ok now all b (snd r)) (scan_workspaces c now vs s)"
  using assms
proof (induction vs arbitrary: b s)
  case Nil
  then show ?case by (auto intro!: emits_ret steps_okI)
next
  case (Cons v vs)
  have rest: "emits ans (\<lambda>r tr'. steps_ok now all b (snd r) (tr @ tr')) (scan_workspaces c now vs s1)"
    if "steps_ok now all b s1 tr" for s1 tr
    by (rule emits_weaken [OF Cons.IH [of "b @ tr"]]) (use that Cons.prems in \<open>auto simp: steps_ok_def lawful_append\<close>)
  show ?case
    unfolding scan_workspaces.simps
  proof (rule emits_bind [OF emits_ctx], rule emits_option, goal_cases)
    case (1 r tr)
    then show ?case
      by (simp only: append.simps) (rule emits_bind [OF emits_workspace [of all]], use Cons.prems rest in auto)
  next
    case (2 r tr e)
    with Cons.prems show ?case by (auto intro!: emits_ret steps_okI)
  qed
qed

lemma emits_promote:
  assumes "\<forall>ws \<in> set vs. ws \<in> set all \<and> ws_State ws = WorkspaceQueued"
  shows "emits ans (\<lambda>r tr. \<forall>b. lawful now all b tr) (promoteQueued c blocked vs)"
  using assms
proof (induction vs arbitrary: blocked)
  case Nil
  then show ?case by (auto intro!: emits_ret)
next
  case (Cons v vs)
  have ensured: "emits ans (\<lambda>r tr. \<forall>b. lawful now all b tr)
      (if P then do { now \<leftarrow> lif_now; lif_Ensure c u now } else ret None)" for P u
    by (rule emits_if, rule emits_bind [OF emits_now], rule emits_weaken [OF emits_Ensure]) (auto intro!: emits_ret)
  show ?case
    unfolding promoteQueued.simps
  proof (rule emits_if)
    show "emits ans (\<lambda>r tr. \<forall>b. lawful now all b tr) (promoteQueued c blocked vs)" using Cons by auto
    show "emits ans (\<lambda>r tr. \<forall>b. lawful now all b tr)
      (do { r \<leftarrow> lif_Retry (ws_OwnerID v) (ws_ID v);
        e1 \<leftarrow> (if ws_State (fst r) = WorkspaceAwaitingSetupApproval
               then do { now \<leftarrow> lif_now; lif_Ensure c (fst r) now } else ret None);
        rest \<leftarrow> promoteQueued c
          (case snd r of
             Some _ \<Rightarrow> if ws_State (fst r) = WorkspaceFailed then blocked else ws_OwnerID v # blocked
           | None \<Rightarrow> if ws_State (fst r) = WorkspaceQueued then ws_OwnerID v # blocked else blocked) vs;
        ret (join_error (join_error [] e1)
               (case snd r of None \<Rightarrow> None | Some e \<Rightarrow> Some (GoErr (err_is e) ''promote queued workspace'')) @ rest) })"
    proof (rule emits_bind [OF emits_Retry], rule emits_bind [OF ensured], rule emits_bind [OF Cons.IH], goal_cases)
      case (2 r tr e1 tr1 rest tr2)
      with Cons.prems show ?case by (intro emits_ret) (auto simp: lawful_append intro: row_inI)
    qed (use Cons.prems in auto)
  qed
qed

lemma emits_reconcile: "emits ans (\<lambda>r tr. \<forall>b. lawful now all b tr) (reconcile_owners ows es)"
proof (induction ows arbitrary: es)
  case Nil
  then show ?case by (simp add: emits_ret)
next
  case (Cons ow ows)
  show ?case
    unfolding reconcile_owners.simps
    by (rule emits_bind [OF emits_ctx], rule emits_option, rule emits_bind [OF emits_Reconcile], rule emits_weaken [OF Cons.IH])
       (auto intro: emits_ret)
qed

text \<open>The trace of a scan: the list, the clock, then justified calls only.\<close>

definition scan_trace :: "(time \<Rightarrow> workspace list \<Rightarrow> lcall list \<Rightarrow> bool) \<Rightarrow> lcall list \<Rightarrow> bool" where
  "scan_trace p tr \<longleftrightarrow> (\<exists>e. tr = [Listed (Inl e)])
     \<or> (\<exists>values now calls. tr = Listed (Inr values) # ReadClock now # calls \<and> p now values calls)"

lemma set_oldest_first [simp]: "set (oldest_first values) = set values"
  by (simp add: oldest_first_def)

lemma emits_Scan: "emits ans (\<lambda>r. scan_trace (\<lambda>now values calls. lawful now values [] calls)) (Scan c)"
  unfolding Scan_def
proof (rule emits_bind [OF emits_ListAll], rule emits_sum)
  fix r tr e assume "tr = [Listed r]" "r = Inl e"
  then show "emits ans (\<lambda>s tr'. scan_trace (\<lambda>now values calls. lawful now values [] calls) (tr @ tr')) (ret [e])"
    by (intro emits_ret) (auto simp: scan_trace_def)
next
  fix r tr "values"
  assume listed: "tr = [Listed r]" "r = Inr values"
  let ?start = "\<lparr>sc_errors = [], sc_settings = [], sc_owners = [], sc_queued = []\<rparr>"
  have start: "scan_ok values [] ?start" by (simp add: scan_ok_def)
  show "emits ans (\<lambda>s tr'. scan_trace (\<lambda>now values calls. lawful now values [] calls) (tr @ tr')) (do {
          now \<leftarrow> lif_now;
          r \<leftarrow> scan_workspaces c now (oldest_first values) ?start;
          (case r of
             (Some e, s) \<Rightarrow> ret (sc_errors s @ [e])
           | (None, s) \<Rightarrow> do {
               es \<leftarrow> promoteQueued c [] (sc_queued s);
               reconcile_owners (sort (sc_owners s)) (sc_errors s @ es) }) })"
  proof (rule emits_bind [OF emits_now], rule emits_bind [OF emits_workspaces [OF start]])
    fix now tr1 and u :: "goerr option \<times> scan" and tr2
    assume clock: "tr1 = [ReadClock now]" and scanned: "steps_ok now values [] (snd u) tr2"
    have trace: "scan_trace (\<lambda>now values calls. lawful now values [] calls) (tr @ tr1 @ tr2 @ tr3)"
      if "lawful now values tr2 tr3" for tr3
      using that scanned by (auto simp: scan_trace_def listed clock steps_ok_def lawful_append)
    show "emits ans (\<lambda>s tr'. scan_trace (\<lambda>now values calls. lawful now values [] calls) (tr @ tr1 @ tr2 @ tr'))
      (case u of
         (Some e, s) \<Rightarrow> ret (sc_errors s @ [e])
       | (None, s) \<Rightarrow> do {
           es \<leftarrow> promoteQueued c [] (sc_queued s);
           reconcile_owners (sort (sc_owners s)) (sc_errors s @ es) })"
    proof (cases "fst u")
      case None
      then obtain s where u: "u = (None, s)" by (cases u) auto
      have queued: "\<forall>ws \<in> set (sc_queued s). ws \<in> set values \<and> ws_State ws = WorkspaceQueued"
        using scanned u by (auto simp: steps_ok_def scan_ok_def)
      show ?thesis
        unfolding u prod.case option.case
        by (rule emits_bind [OF emits_promote [OF queued, where now = now]], rule emits_weaken [OF emits_reconcile [where now = now and all = "values"]])
           (auto intro!: trace simp: lawful_append)
    next
      case (Some e)
      then show ?thesis using trace [of "[]"] by (cases u) (auto intro!: emits_ret)
    qed
  qed simp
qed

lemma Scan_lawful:
  obtains tr where "lw_trace (snd (run_state (Scan c) w)) = lw_trace w @ tr"
    "scan_trace (\<lambda>now values calls. lawful now values [] calls) tr"
  using emits_Scan [of "lw_answers w" c] unfolding emits_def by blast

text \<open>C7: A scan asks for the deletion of a workspace only when its listed row was being deleted already,
  or was suspended, has a retention policy other than keep forever, no uncommitted or unpushed work,
  and the retention period since its suspension was over at the instant the scan read from the clock.\<close>

theorem automatic_delete_justified:
  assumes "lw_trace (snd (run_state (Scan c) w)) = lw_trace w @ tr" "Deleted ow k e \<in> set tr"
  shows "\<exists>values now calls. tr = Listed (Inr values) # ReadClock now # calls
    \<and> row_in values ow k (\<lambda>ws. ws_State ws = WorkspaceDeleting \<or> retention_over now ws)"
proof -
  from Scan_lawful [of c w] assms(1) have "scan_trace (\<lambda>now values calls. lawful now values [] calls) tr" by auto
  then obtain "values" now calls where tr: "tr = Listed (Inr values) # ReadClock now # calls" "lawful now values [] calls"
    using assms(2) by (auto simp: scan_trace_def)
  with assms(2) have "Deleted ow k e \<in> set calls" by simp
  with lawful_in [OF tr(2)] have "row_in values ow k (\<lambda>ws. ws_State ws = WorkspaceDeleting \<or> retention_over now ws)"
    by fastforce
  with tr(1) show ?thesis by blast
qed


end
