(* ===== verification/Lifecycle_Progress.thy ===== *)
theory Lifecycle_Progress
  imports Lifecycle_Safety "HOL-Library.Sublist" "HOL-Library.Multiset"
begin

text \<open>
  What a scan gets done when the context stays open: every listed workspace gets the call it needs,
  queued workspaces are promoted oldest first with at most one blocking attempt per owner, and every
  owner's quotas are reconciled. Then the coalescing of recorded activity.
\<close>

subsection \<open>Every listed workspace is served\<close>

definition served :: "time \<Rightarrow> workspace \<Rightarrow> lcall list \<Rightarrow> bool" where
  "served now v tr \<longleftrightarrow>
     (case ws_State v of
        WorkspaceProvisioning \<Rightarrow> \<exists>r. Retried (ws_OwnerID v) (ws_ID v) r \<in> set tr
      | WorkspaceAwaitingSetupApproval \<Rightarrow> Ensured v now \<in> set tr
      | WorkspaceSuspending \<Rightarrow> SuspendedIf (ws_OwnerID v) (ws_ID v) (ws_LastActivityAt v) \<in> set tr
      | WorkspaceSuspended \<Rightarrow> retention_over now v \<longrightarrow> (\<exists>e. Deleted (ws_OwnerID v) (ws_ID v) e \<in> set tr)
      | WorkspaceDeleting \<Rightarrow> \<exists>e. Deleted (ws_OwnerID v) (ws_ID v) e \<in> set tr
      | _ \<Rightarrow> True)"

lemma served_mono: "served now v tr \<Longrightarrow> set tr \<subseteq> set tr' \<Longrightarrow> served now v tr'"
  unfolding served_def by (cases "ws_State v") auto

definition tallied :: "scan \<Rightarrow> scan \<Rightarrow> bool" where
  "tallied s s' \<longleftrightarrow> sc_owners s' = sc_owners s \<and> sc_queued s' = sc_queued s"

lemma tallied_simps [simp]: "tallied s s" "tallied s (scan_join e s') = tallied s s'" "tallied s (s'\<lparr>sc_settings := m\<rparr>) = tallied s s'"
  by (auto simp: tallied_def scan_join_def)

lemma serve_provisioning: "emits ans (\<lambda>s' tr. tallied s s' \<and> (\<exists>r. Retried (ws_OwnerID v) (ws_ID v) r \<in> set tr)) (scan_provisioning c now v s)"
  unfolding scan_provisioning_def Let_def
  by (rule emits_bind [OF emits_Retry], rule emits_if, rule emits_bind [OF emits_Ensure]) (auto intro: emits_ret)

lemma serve_suspending: "emits ans (\<lambda>s' tr. tallied s s' \<and> SuspendedIf (ws_OwnerID v) (ws_ID v) (ws_LastActivityAt v) \<in> set tr) (suspend_idle v s)"
  unfolding suspend_idle_def by (rule emits_bind [OF emits_Suspend]) (auto intro: emits_ret)

lemma serve_suspended:
  "emits ans (\<lambda>r tr. retention_over now v \<longrightarrow> (\<exists>e. Deleted (ws_OwnerID v) (ws_ID v) e \<in> set tr)) (applyRetention c v now)"
proof (cases "retention_over now v")
  case True
  then obtain d t where "retentionDuration (ws_Retention v) = Some d" "ws_SuspendedAt v = Some t" "t + d \<le> now" "MayAutoDelete v"
    by (auto simp: retention_over_def)
  then have "applyRetention c v now = lif_Delete (ws_OwnerID v) (ws_ID v)"
    by (auto simp: applyRetention_def MayAutoDelete_def Let_def)
  then show ?thesis by (auto intro: emits_weaken [OF emits_Delete])
next
  case False
  with retention_calls show ?thesis
    by (auto simp: applyRetention_def Let_def intro!: emits_ret emits_bind [OF emits_AddActivity] emits_weaken [OF emits_Delete]
        split: option.split prod.split)
qed

lemma serve_active: "emits ans (\<lambda>s' tr. tallied s s') (scan_active now v s)"
proof -
  have inactive: "emits ans (\<lambda>s' tr. tallied s s') (scan_inactive now v s1)" if "tallied s s1" for s1
    unfolding scan_inactive_def suspend_idle_def
    by (rule emits_bind [OF emits_Probe], rule emits_sum)
       (use that in \<open>auto intro!: emits_ret emits_bind [OF emits_Touch] emits_bind [OF emits_MarkIdle] emits_bind [OF emits_Suspend]
          split: bool.split sum.split\<close>)
  have settings: "emits ans (\<lambda>r tr. tallied s (snd r)) (owner_settings (ws_OwnerID v) s)"
    unfolding owner_settings_def
    by (rule emits_option, rule emits_bind [OF emits_Settings]) (auto intro!: emits_ret split: sum.split)
  show ?thesis
    unfolding scan_active_def
    by (rule emits_bind [OF settings]) (auto simp: Let_def intro!: emits_ret inactive split: prod.split option.split)
qed

definition queue_of :: "workspace list \<Rightarrow> workspace list" where
  "queue_of vs = filter (\<lambda>v. ws_State v = WorkspaceQueued) vs"

definition scan_counted :: "workspace list \<Rightarrow> scan \<Rightarrow> scan \<Rightarrow> bool" where
  "scan_counted vs s s' \<longleftrightarrow> set (sc_owners s') = set (sc_owners s) \<union> ws_OwnerID ` set vs
     \<and> (distinct (sc_owners s) \<longrightarrow> distinct (sc_owners s')) \<and> sc_queued s' = sc_queued s @ queue_of vs"

lemma serve_workspace:
  "emits ans (\<lambda>s' tr. scan_counted [v] s s' \<and> served now v tr) (scan_workspace c now v s)"
proof -
  let ?s = "s\<lparr>sc_owners := List.insert (ws_OwnerID v) (sc_owners s)\<rparr>"
  have tallied: "scan_counted [v] s s'" if "tallied ?s s'" "ws_State v \<noteq> WorkspaceQueued" for s'
    using that by (simp add: tallied_def scan_counted_def queue_of_def)
  have queued: "scan_counted [v] s (?s\<lparr>sc_queued := sc_queued s @ [v]\<rparr>)" if "ws_State v = WorkspaceQueued"
    using that by (simp add: scan_counted_def queue_of_def)
  have awaiting: "emits ans (\<lambda>s' tr. tallied ?s s' \<and> Ensured v now \<in> set tr) (do { e \<leftarrow> lif_Ensure c v now; ret (scan_join e ?s) })"
    by (rule emits_bind [OF emits_Ensure]) (auto intro: emits_ret)
  have deleting: "emits ans (\<lambda>s' tr. tallied ?s s' \<and> (\<exists>e. Deleted (ws_OwnerID v) (ws_ID v) e \<in> set tr))
      (do { e \<leftarrow> lif_Delete (ws_OwnerID v) (ws_ID v); ret (scan_join e ?s) })"
    by (rule emits_bind [OF emits_Delete]) (auto intro: emits_ret)
  have suspended: "emits ans (\<lambda>s' tr. tallied ?s s' \<and> (retention_over now v \<longrightarrow> (\<exists>e. Deleted (ws_OwnerID v) (ws_ID v) e \<in> set tr)))
      (do { e \<leftarrow> applyRetention c v now; ret (scan_join e ?s) })"
    by (rule emits_bind [OF serve_suspended]) (auto intro!: emits_ret)
  have via: "emits ans (\<lambda>s' tr. scan_counted [v] s s' \<and> served now v tr) m"
    if "emits ans (\<lambda>s' tr. tallied ?s s' \<and> P tr) m" "ws_State v \<noteq> WorkspaceQueued" "\<And>tr. P tr \<Longrightarrow> served now v tr" for m P
    using that tallied by (blast intro: emits_weaken)
  have active: "emits ans (\<lambda>s' tr. tallied ?s s' \<and> True) (scan_active now v ?s)"
    by (rule emits_weaken [OF serve_active]) simp
  show ?thesis
    unfolding scan_workspace_def Let_def
    using via [OF serve_provisioning] via [OF awaiting] via [OF active] via [OF serve_suspending] via [OF suspended] via [OF deleting]
    by (cases "ws_State v")
       (simp_all add: served_def queued tallied emits_ret del: split_paired_Ex)
qed

lemma scan_counted_then: "scan_counted [v] s s1 \<Longrightarrow> scan_counted vs s1 s2 \<Longrightarrow> scan_counted (v # vs) s s2"
  by (auto simp: scan_counted_def queue_of_def)

lemma serve_workspaces:
  assumes open_: "\<And>n. \<not> la_cancel (ans n)"
  shows "emits ans (\<lambda>r tr. fst r = None \<and> scan_counted vs s (snd r) \<and> (\<forall>v \<in> set vs. served now v tr)) (scan_workspaces c now vs s)"
proof (induction vs arbitrary: s)
  case Nil
  then show ?case by (auto intro!: emits_ret simp: scan_counted_def queue_of_def)
next
  case (Cons v vs)
  have next_: "emits ans (\<lambda>s1 tr'. fst s1 = None \<and> scan_counted (v # vs) s (snd s1) \<and> (\<forall>u \<in> set (v # vs). served now u (tr @ tr')))
      (scan_workspaces c now vs s1)" if "scan_counted [v] s s1" "served now v tr" for s1 tr
    by (rule emits_weaken [OF Cons.IH [of s1]]) (use that scan_counted_then in \<open>auto intro: served_mono\<close>)
  show ?case
    unfolding scan_workspaces.simps
  proof (rule emits_bind [OF emits_ctx_open [OF open_]], goal_cases)
    case (1 r tr)
    then show ?case by (simp only: option.case append.simps) (rule emits_bind [OF serve_workspace], use next_ in auto)
  qed
qed

subsection \<open>Promotion\<close>

text \<open>An attempt that stops the promotion of its owner's further workspaces in this scan.\<close>

definition blocks :: "outcome \<Rightarrow> bool" where
  "blocks r \<longleftrightarrow> (case snd r of Some _ \<Rightarrow> ws_State (fst r) \<noteq> WorkspaceFailed | None \<Rightarrow> ws_State (fst r) = WorkspaceQueued)"

definition retries :: "lcall list \<Rightarrow> (string \<times> string \<times> outcome) list" where
  "retries tr = List.map_filter (\<lambda>c. case c of Retried ow k r \<Rightarrow> Some (ow, k, r) | _ \<Rightarrow> None) tr"

definition promoted :: "string list \<Rightarrow> workspace list \<Rightarrow> (string \<times> string \<times> outcome) list \<Rightarrow> bool" where
  "promoted blocked queue rs \<longleftrightarrow>
     subseq (map (\<lambda>(ow, k, r). (ow, k)) rs) (map (\<lambda>v. (ws_OwnerID v, ws_ID v)) queue)
     \<and> (\<forall>x \<in> set rs. fst x \<notin> set blocked)
     \<and> sorted_wrt (\<lambda>x y. fst x = fst y \<longrightarrow> \<not> blocks (snd (snd x))) rs
     \<and> (\<forall>v \<in> set queue. ws_OwnerID v \<in> set blocked \<or> (\<exists>x \<in> set rs. fst x = ws_OwnerID v \<and> (fst (snd x) = ws_ID v \<or> blocks (snd (snd x)))))"

lemma retries_append [simp]: "retries (xs @ ys) = retries xs @ retries ys"
  by (simp add: retries_def map_filter_def)

lemma retries_simps [simp]:
  "retries [] = []" "retries (Retried ow k r # tr) = (ow, k, r) # retries tr"
  "retries (Ensured ws now # tr) = retries tr" "retries (ReadClock now # tr) = retries tr"
  by (simp_all add: retries_def map_filter_def)

lemma promoted_skip: "promoted blocked vs rs \<Longrightarrow> ws_OwnerID v \<in> set blocked \<Longrightarrow> promoted blocked (v # vs) rs"
  by (auto simp: promoted_def)

lemma promoted_take:
  assumes "promoted (if blocks r then ws_OwnerID v # blocked else blocked) vs rs" "ws_OwnerID v \<notin> set blocked"
  shows "promoted blocked (v # vs) ((ws_OwnerID v, ws_ID v, r) # rs)"
  using assms by (auto simp: promoted_def split: if_splits)

lemma emits_promoted: "emits ans (\<lambda>r tr. promoted blocked vs (retries tr)) (promoteQueued c blocked vs)"
proof (induction vs arbitrary: blocked)
  case Nil
  then show ?case by (simp add: emits_ret promoted_def)
next
  case (Cons v vs)
  have ensured: "emits ans (\<lambda>r tr. retries tr = [])
      (if P then do { now \<leftarrow> lif_now; lif_Ensure c u now } else ret None)" for P u
    by (rule emits_if, rule emits_bind [OF emits_now], rule emits_weaken [OF emits_Ensure]) (auto intro: emits_ret)
  show ?case
    unfolding promoteQueued.simps
  proof (rule emits_if)
    assume "ws_OwnerID v \<in> set blocked"
    then show "emits ans (\<lambda>r tr. promoted blocked (v # vs) (retries tr)) (promoteQueued c blocked vs)"
      by (intro emits_weaken [OF Cons.IH] promoted_skip)
  next
    assume free: "ws_OwnerID v \<notin> set blocked"
    have next_: "(case snd r of
             Some _ \<Rightarrow> if ws_State (fst r) = WorkspaceFailed then blocked else ws_OwnerID v # blocked
           | None \<Rightarrow> if ws_State (fst r) = WorkspaceQueued then ws_OwnerID v # blocked else blocked)
        = (if blocks r then ws_OwnerID v # blocked else blocked)" for r :: outcome
      by (simp add: blocks_def split: option.split)
    show "emits ans (\<lambda>r tr. promoted blocked (v # vs) (retries tr))
      (do { r \<leftarrow> lif_Retry (ws_OwnerID v) (ws_ID v);
        e1 \<leftarrow> (if ws_State (fst r) = WorkspaceAwaitingSetupApproval
               then do { now \<leftarrow> lif_now; lif_Ensure c (fst r) now } else ret None);
        rest \<leftarrow> promoteQueued c
          (case snd r of
             Some _ \<Rightarrow> if ws_State (fst r) = WorkspaceFailed then blocked else ws_OwnerID v # blocked
           | None \<Rightarrow> if ws_State (fst r) = WorkspaceQueued then ws_OwnerID v # blocked else blocked) vs;
        ret (join_error (join_error [] e1)
               (case snd r of None \<Rightarrow> None | Some e \<Rightarrow> Some (GoErr (err_is e) ''promote queued workspace'')) @ rest) })"
      unfolding next_
    proof (rule emits_bind [OF emits_Retry], rule emits_bind [OF ensured], rule emits_bind [OF Cons.IH], rule emits_ret)
      fix r tr1 e1 tr2 rest tr3
      assume "tr1 = [Retried (ws_OwnerID v) (ws_ID v) r]" "retries tr2 = []"
        "promoted (if blocks r then ws_OwnerID v # blocked else blocked) vs (retries tr3)"
      then show "promoted blocked (v # vs) (retries (tr1 @ tr2 @ tr3 @ []))" using promoted_take [OF _ free] by simp
    qed
  qed
qed

lemma emits_reconciled:
  assumes "\<And>n. \<not> la_cancel (ans n)"
  shows "emits ans (\<lambda>r tr. tr = map Reconciled ows) (reconcile_owners ows es)"
proof (induction ows arbitrary: es)
  case Nil
  then show ?case by (simp add: emits_ret)
next
  case (Cons ow ows)
  have step: "emits ans (\<lambda>r tr. tr = map Reconciled (ow # ows))
      (do { e \<leftarrow> lif_Reconcile ow; reconcile_owners ows (join_error es e) })"
    by (rule emits_bind [OF emits_Reconcile], rule emits_weaken [OF Cons.IH]) simp
  show ?case
    unfolding reconcile_owners.simps
    by (rule emits_bind [OF emits_ctx_open [OF assms]]) (use step in simp)
qed

subsection \<open>The whole scan\<close>

definition complete_scan :: "time \<Rightarrow> workspace list \<Rightarrow> lcall list \<Rightarrow> bool" where
  "complete_scan now values calls \<longleftrightarrow> (\<exists>served_calls promotions ows.
     calls = served_calls @ promotions @ map Reconciled ows
     \<and> (\<forall>v \<in> set values. served now v served_calls)
     \<and> promoted [] (queue_of (oldest_first values)) (retries promotions)
     \<and> sorted ows \<and> distinct ows \<and> set ows = ws_OwnerID ` set values)"

lemma emits_complete:
  assumes open_: "\<And>n. \<not> la_cancel (ans n)"
  shows "emits ans (\<lambda>r. scan_trace complete_scan) (Scan c)"
  unfolding Scan_def
proof (rule emits_bind [OF emits_ListAll], rule emits_sum)
  fix r tr e assume "tr = [Listed r]" "r = Inl e"
  then show "emits ans (\<lambda>s tr'. scan_trace complete_scan (tr @ tr')) (ret [e])"
    by (intro emits_ret) (auto simp: scan_trace_def)
next
  fix r tr "values"
  assume listed: "tr = [Listed r]" "r = Inr values"
  let ?start = "\<lparr>sc_errors = [], sc_settings = [], sc_owners = [], sc_queued = []\<rparr>"
  show "emits ans (\<lambda>s tr'. scan_trace complete_scan (tr @ tr')) (do {
          now \<leftarrow> lif_now;
          r \<leftarrow> scan_workspaces c now (oldest_first values) ?start;
          (case r of
             (Some e, s) \<Rightarrow> ret (sc_errors s @ [e])
           | (None, s) \<Rightarrow> do {
               es \<leftarrow> promoteQueued c [] (sc_queued s);
               reconcile_owners (sort (sc_owners s)) (sc_errors s @ es) }) })"
  proof (rule emits_bind [OF emits_now], rule emits_bind [OF serve_workspaces [OF open_]])
    fix now tr1 and u :: "goerr option \<times> scan" and tr2
    assume clock: "tr1 = [ReadClock now]"
      and did: "fst u = None \<and> scan_counted (oldest_first values) ?start (snd u) \<and> (\<forall>v \<in> set (oldest_first values). served now v tr2)"
    then obtain s where u: "u = (None, s)" by (cases u) auto
    have s: "set (sc_owners s) = ws_OwnerID ` set values" "distinct (sc_owners s)" "sc_queued s = queue_of (oldest_first values)"
      using did by (auto simp: u scan_counted_def)
    have trace: "scan_trace complete_scan (tr @ tr1 @ tr2 @ tr3 @ map Reconciled (sort (sc_owners s)))"
      if "promoted [] (sc_queued s) (retries tr3)" for tr3
    proof -
      have "complete_scan now values (tr2 @ tr3 @ map Reconciled (sort (sc_owners s)))"
        unfolding complete_scan_def using did that s
        by (intro exI [of _ tr2] exI [of _ tr3] exI [of _ "sort (sc_owners s)"]) simp
      then show ?thesis by (simp add: scan_trace_def listed clock)
    qed
    show "emits ans (\<lambda>s tr'. scan_trace complete_scan (tr @ tr1 @ tr2 @ tr'))
      (case u of
         (Some e, s) \<Rightarrow> ret (sc_errors s @ [e])
       | (None, s) \<Rightarrow> do {
           es \<leftarrow> promoteQueued c [] (sc_queued s);
           reconcile_owners (sort (sc_owners s)) (sc_errors s @ es) })"
      unfolding u prod.case option.case
      by (rule emits_bind [OF emits_promoted], rule emits_weaken [OF emits_reconciled [OF open_]]) (auto intro: trace)
  qed
qed

lemma Scan_complete:
  assumes "lw_trace (snd (run_state (Scan c) w)) = lw_trace w @ tr" "\<And>n. \<not> la_cancel (lw_answers w n)"
  shows "scan_trace complete_scan tr"
  using emits_complete [of "lw_answers w" c] assms unfolding emits_def by auto


text \<open>C31: Queued workspaces are promoted fairly: in every scan whose context stays open the attempts follow
  the order of creation, each owner's oldest queued workspace is attempted, a workspace is passed over
  only after an earlier attempt of its owner that left a workspace queued or failed without proof that
  its provider stopped, and after such an attempt the owner gets no other one.\<close>

theorem promotion_is_fair:
  assumes "lw_trace (snd (run_state (Scan c) w)) = lw_trace w @ tr" "\<And>n. \<not> la_cancel (lw_answers w n)"
    "tr = Listed (Inr values) # rest"
  shows "\<exists>before promotions after queue. rest = before @ promotions @ after
    \<and> mset queue = filter_mset (\<lambda>v. ws_State v = WorkspaceQueued) (mset values) \<and> sorted (map ws_CreatedAt queue)
    \<and> promoted [] queue (retries promotions)"
proof -
  from Scan_complete [OF assms(1,2)] assms(3) obtain now calls where tr: "rest = ReadClock now # calls" "complete_scan now values calls"
    by (auto simp: scan_trace_def)
  from tr(2) obtain a b ows where calls: "calls = a @ b @ map Reconciled ows" "promoted [] (queue_of (oldest_first values)) (retries b)"
    by (auto simp: complete_scan_def)
  have "sorted (map (\<lambda>ws. (ws_CreatedAt ws, ws_ID ws)) (oldest_first values))"
    unfolding oldest_first_def by (rule sorted_sort_key)
  then have "sorted_wrt (\<lambda>u v. ws_CreatedAt u \<le> ws_CreatedAt v) (oldest_first values)"
    unfolding sorted_map by (rule sorted_wrt_mono_rel [rotated]) auto
  then have sorted: "sorted (map ws_CreatedAt (queue_of (oldest_first values)))"
    unfolding queue_of_def sorted_map by (rule sorted_wrt_filter)
  have "mset (queue_of (oldest_first values)) = filter_mset (\<lambda>v. ws_State v = WorkspaceQueued) (mset values)"
    by (simp only: queue_of_def oldest_first_def mset_filter mset_sort)
  with sorted calls tr(1) show ?thesis
    by (intro exI [of _ "ReadClock now # a"] exI [of _ b] exI [of _ "map Reconciled ows"] exI [of _ "queue_of (oldest_first values)"])
       simp
qed

subsection \<open>Coalesced activity\<close>

text \<open>The pending map after some events: for every workspace, the newest of its events.\<close>

definition newest_of :: "lifecycle_event list \<Rightarrow> lifecycle_event \<Rightarrow> bool" where
  "newest_of es e \<longleftrightarrow> e \<in> set es \<and> (\<forall>x \<in> set es. activity_key x = activity_key e \<longrightarrow> le_At x \<le> le_At e)"

definition holds_newest :: "lifecycle_event list \<Rightarrow> (string, lifecycle_event) gomap \<Rightarrow> bool" where
  "holds_newest es pending \<longleftrightarrow> distinct (map fst pending)
     \<and> (\<forall>key. case map_of pending key of
           None \<Rightarrow> (\<forall>x \<in> set es. activity_key x \<noteq> key)
         | Some e \<Rightarrow> activity_key e = key \<and> newest_of es e)"

lemma holds_newestD:
  assumes "holds_newest es pending"
  shows "map_of pending key = None \<Longrightarrow> x \<in> set es \<Longrightarrow> activity_key x \<noteq> key"
    "map_of pending key = Some e \<Longrightarrow> activity_key e = key \<and> newest_of es e"
proof -
  have all: "case map_of pending key of None \<Rightarrow> (\<forall>x \<in> set es. activity_key x \<noteq> key) | Some e \<Rightarrow> activity_key e = key \<and> newest_of es e"
    using assms unfolding holds_newest_def by blast
  show "map_of pending key = None \<Longrightarrow> x \<in> set es \<Longrightarrow> activity_key x \<noteq> key" using all by simp
  show "map_of pending key = Some e \<Longrightarrow> activity_key e = key \<and> newest_of es e" using all by simp
qed

lemma holds_newestI:
  assumes "distinct (map fst pending)" "\<And>key x. map_of pending key = None \<Longrightarrow> x \<in> set es \<Longrightarrow> activity_key x \<noteq> key"
    "\<And>key e. map_of pending key = Some e \<Longrightarrow> activity_key e = key \<and> newest_of es e"
  shows "holds_newest es pending"
  using assms by (auto simp: holds_newest_def split: option.split)

lemma holds_newest_coalesce:
  assumes h: "holds_newest es pending"
  shows "holds_newest (es @ [e]) (coalesce e pending)"
proof -
  let ?k = "activity_key e"
  have dist: "distinct (map fst pending)" using h by (simp add: holds_newest_def)
  have newer: "newest_of (es @ [e]) x" if "newest_of es x" "activity_key x = ?k \<longrightarrow> le_At e \<le> le_At x" for x
    using that by (auto simp: newest_of_def)
  have updated: "holds_newest (es @ [e]) (AList.update ?k e pending)"
    if "newest_of (es @ [e]) e"
  proof (rule holds_newestI [OF distinct_update [OF dist]])
    show "activity_key z \<noteq> key" if "map_of (AList.update ?k e pending) key = None" "z \<in> set (es @ [e])" for key z
      using that holds_newestD(1) [OF h, of key] by (auto simp: update_conv simp del: map_of_eq_None_iff split: if_splits)
    show "activity_key z = key \<and> newest_of (es @ [e]) z" if "map_of (AList.update ?k e pending) key = Some z" for key z
    proof (cases "key = ?k")
      case True
      with that \<open>newest_of (es @ [e]) e\<close> show ?thesis by (simp add: update_conv)
    next
      case False
      with that have "map_of pending key = Some z" by (simp add: update_conv)
      from holds_newestD(2) [OF h this] False newer [of z] show ?thesis by auto
    qed
  qed
  show ?thesis
  proof (cases "map_of pending ?k")
    case None
    then have "newest_of (es @ [e]) e" using holds_newestD(1) [OF h None] by (auto simp: newest_of_def)
    then show ?thesis using updated None by (simp add: coalesce_def)
  next
    case (Some x)
    have x: "activity_key x = ?k" "newest_of es x" using holds_newestD(2) [OF h Some] by simp_all
    show ?thesis
    proof (cases "le_At x < le_At e")
      case True
      then have "newest_of (es @ [e]) e" using x by (force simp: newest_of_def)
      then show ?thesis using updated Some True by (simp add: coalesce_def)
    next
      case False
      have "holds_newest (es @ [e]) pending"
      proof (rule holds_newestI [OF dist])
        show "activity_key z \<noteq> key" if "map_of pending key = None" "z \<in> set (es @ [e])" for key z
          using that Some holds_newestD(1) [OF h that(1)] by auto
        show "activity_key z = key \<and> newest_of (es @ [e]) z" if "map_of pending key = Some z" for key z
        proof -
          from holds_newestD(2) [OF h that] have z: "activity_key z = key" "newest_of es z" by simp_all
          have "le_At e \<le> le_At z" if "activity_key z = ?k"
            using that z(1) \<open>map_of pending key = Some z\<close> Some False by simp
          with newer [of z] z show ?thesis by simp
        qed
      qed
      then show ?thesis using Some False by (simp add: coalesce_def)
    qed
  qed
qed

lemma recorded_pending:
  assumes "\<forall>e \<in> set es. le_OwnerID e \<noteq> [] \<and> le_WorkspaceID e \<noteq> [] \<and> le_At e \<noteq> 0"
  shows "lw_pending (fold (\<lambda>e. snd \<circ> run_state (RecordActivity e)) es w) = fold coalesce es (lw_pending w)"
  using assms
proof (induction es arbitrary: w)
  case (Cons e es)
  have "e\<lparr>le_At := le_At e\<rparr> = e" by simp
  with Cons show ?case by (simp add: RecordActivity_def)
qed simp

lemma fold_coalesce: "holds_newest es (fold coalesce es [])"
proof (induction es rule: rev_induct)
  case Nil
  show ?case by (rule holds_newestI) simp_all
next
  case (snoc e es)
  then show ?case using holds_newest_coalesce by simp
qed

lemma append_nul: "xs @ CHR 0x00 # ys = xs' @ CHR 0x00 # ys' \<Longrightarrow> CHR 0x00 \<notin> set xs \<Longrightarrow> CHR 0x00 \<notin> set xs' \<Longrightarrow> xs = xs' \<and> ys = ys'"
  by (auto simp: append_eq_append_conv2 Cons_eq_append_conv append_eq_Cons_conv)

lemma emits_flush_each:
  "emits ans (\<lambda>r tr. list_all2 (\<lambda>c e. \<exists>x. c = Touched (le_OwnerID e) (le_WorkspaceID e) (le_At e) x) tr es) (flush_each es)"
proof (induction es)
  case Nil
  then show ?case by (simp add: emits_ret)
next
  case (Cons e es)
  show ?case
    unfolding flush_each.simps
    by (rule emits_bind [OF emits_Touch], rule emits_bind [OF Cons.IH]) (auto intro: emits_ret)
qed

definition record_all :: "lifecycle_event list \<Rightarrow> lworld \<Rightarrow> lworld" where
  "record_all es w = fold (\<lambda>e. snd \<circ> run_state (RecordActivity e)) es w"

lemma record_all_trace:
  assumes "\<forall>e \<in> set es. le_OwnerID e \<noteq> [] \<and> le_WorkspaceID e \<noteq> [] \<and> le_At e \<noteq> 0"
  shows "lw_trace (record_all es w) = lw_trace w"
  using assms unfolding record_all_def
  by (induction es arbitrary: w) (simp_all add: RecordActivity_def)

lemma flush_trace:
  obtains tr where "lw_trace (snd (run_state flushActivity w)) = lw_trace w @ tr"
    "list_all2 (\<lambda>c e. \<exists>x. c = Touched (le_OwnerID e) (le_WorkspaceID e) (le_At e) x) tr
       (ranged (la_rank (lw_answers w (lw_turn w))) (lw_pending w))"
proof -
  define w1 where "w1 = snd (run_state turn w)\<lparr>lw_pending := []\<rparr>"
  let ?l = "ranged (la_rank (lw_answers w (lw_turn w))) (lw_pending w)"
  have w1: "lw_trace w1 = lw_trace w" by (simp add: w1_def turn_def Let_def)
  have run: "run_state flushActivity w = run_state (flush_each ?l) w1"
    by (simp add: flushActivity_def w1_def turn_def Let_def)
  from emits_flush_each [of "lw_answers w1" ?l] obtain tr where
    "lw_trace (snd (run_state (flush_each ?l) w1)) = lw_trace w1 @ tr"
    "list_all2 (\<lambda>c e. \<exists>x. c = Touched (le_OwnerID e) (le_WorkspaceID e) (le_At e) x) tr ?l"
    unfolding emits_def by blast
  then show ?thesis using that unfolding run w1 by blast
qed

lemma touched_iff:
  assumes "list_all2 (\<lambda>c e. \<exists>x. c = Touched (le_OwnerID e) (le_WorkspaceID e) (le_At e) x) tr es"
  shows "(\<exists>x. Touched ow k at x \<in> set tr) \<longleftrightarrow> (\<exists>e \<in> set es. le_OwnerID e = ow \<and> le_WorkspaceID e = k \<and> le_At e = at)"
  using assms by (induction rule: list_all2_induct) auto

definition event_key :: "lifecycle_event \<Rightarrow> string \<times> string" where
  "event_key e = (le_OwnerID e, le_WorkspaceID e)"

lemma key_iff:
  assumes "CHR 0x00 \<notin> set (le_OwnerID x)" "CHR 0x00 \<notin> set (le_OwnerID e)"
  shows "activity_key x = activity_key e \<longleftrightarrow> event_key x = event_key e"
proof
  assume "activity_key x = activity_key e"
  then have "le_OwnerID x @ CHR 0x00 # le_WorkspaceID x = le_OwnerID e @ CHR 0x00 # le_WorkspaceID e"
    by (simp add: activity_key_def)
  from append_nul [OF this assms] show "event_key x = event_key e" by (simp add: event_key_def)
qed (simp add: activity_key_def event_key_def)

lemma card_event_keys:
  assumes "\<forall>e \<in> set es. CHR 0x00 \<notin> set (le_OwnerID e)"
  shows "card (activity_key ` set es) = card (event_key ` set es)"
proof -
  have "inj_on (\<lambda>p. fst p @ [CHR 0x00] @ snd p) (event_key ` set es)"
  proof (rule inj_onI)
    fix p q assume p: "p \<in> event_key ` set es" and q: "q \<in> event_key ` set es"
      and eq: "fst p @ [CHR 0x00] @ snd p = fst q @ [CHR 0x00] @ snd q"
    from p q assms have "CHR 0x00 \<notin> set (fst p)" "CHR 0x00 \<notin> set (fst q)" by (auto simp: event_key_def)
    with append_nul [of "fst p" "snd p" "fst q" "snd q"] eq show "p = q" by (simp add: prod_eq_iff)
  qed
  moreover have "activity_key ` set es = (\<lambda>p. fst p @ [CHR 0x00] @ snd p) ` event_key ` set es"
    by (simp add: image_image activity_key_def event_key_def)
  ultimately show ?thesis by (simp only: card_image)
qed

lemma pending_keys:
  assumes h: "holds_newest es pending"
  shows "fst ` set pending = activity_key ` set es" "length pending = card (activity_key ` set es)"
proof -
  have dist: "distinct (map fst pending)" using h by (simp add: holds_newest_def)
  show eq: "fst ` set pending = activity_key ` set es"
  proof (intro set_eqI iffI)
    fix key assume "key \<in> fst ` set pending"
    then obtain e where e: "map_of pending key = Some e" using weak_map_of_SomeI by fastforce
    from holds_newestD(2) [OF h e] show "key \<in> activity_key ` set es" by (auto simp: newest_of_def)
  next
    fix key assume "key \<in> activity_key ` set es"
    then have "map_of pending key \<noteq> None" using holds_newestD(1) [OF h] by blast
    then show "key \<in> fst ` set pending" by (simp add: map_of_eq_None_iff)
  qed
  show "length pending = card (activity_key ` set es)"
    using distinct_card [OF dist] by (simp add: eq [symmetric])
qed

text \<open>What is pending is exactly the newest event of each workspace.\<close>

lemma pending_newest:
  assumes h: "holds_newest es pending" and nul: "\<forall>e \<in> set es. CHR 0x00 \<notin> set (le_OwnerID e)"
  shows "(\<exists>e \<in> snd ` set pending. event_key e = key \<and> le_At e = at) \<longleftrightarrow>
    (\<exists>e \<in> set es. event_key e = key \<and> le_At e = at \<and> (\<forall>x \<in> set es. event_key x = key \<longrightarrow> le_At x \<le> at))"
proof -
  have dist: "distinct (map fst pending)" using h by (simp add: holds_newest_def)
  have newest: "newest_of es e \<longleftrightarrow> e \<in> set es \<and> (\<forall>x \<in> set es. event_key x = event_key e \<longrightarrow> le_At x \<le> le_At e)" for e
    using key_iff nul by (auto simp: newest_of_def)
  show ?thesis
  proof
    assume "\<exists>e \<in> snd ` set pending. event_key e = key \<and> le_At e = at"
    then obtain i e where e: "(i, e) \<in> set pending" "event_key e = key" "le_At e = at" by auto
    from holds_newestD(2) [OF h map_of_is_SomeI [OF dist e(1)]] have "newest_of es e" by simp
    with e(2,3) show "\<exists>e \<in> set es. event_key e = key \<and> le_At e = at \<and> (\<forall>x \<in> set es. event_key x = key \<longrightarrow> le_At x \<le> at)"
      unfolding newest by blast
  next
    assume "\<exists>e \<in> set es. event_key e = key \<and> le_At e = at \<and> (\<forall>x \<in> set es. event_key x = key \<longrightarrow> le_At x \<le> at)"
    then obtain e where e: "e \<in> set es" "event_key e = key" "le_At e = at" "\<forall>x \<in> set es. event_key x = key \<longrightarrow> le_At x \<le> at" by blast
    from e(1) obtain z where z: "map_of pending (activity_key e) = Some z"
      using holds_newestD(1) [OF h _ e(1)] by (cases "map_of pending (activity_key e)") auto
    from holds_newestD(2) [OF h z] have zn: "activity_key z = activity_key e" "newest_of es z" by simp_all
    then have z_in: "z \<in> set es" by (simp add: newest_of_def)
    have same: "event_key z = key" using key_iff [of z e] nul zn(1) z_in e(1,2) by simp
    have "le_At z = at" using zn(2) same e z_in unfolding newest by (metis antisym)
    with same map_of_SomeD [OF z] show "\<exists>e \<in> snd ` set pending. event_key e = key \<and> le_At e = at"
      by (metis image_eqI snd_conv)
  qed
qed

text \<open>Recorded activity is coalesced without loss: after any sequence of events, in any order of their
  instants, one flush touches each workspace that had an event exactly once, with the newest instant.\<close>

theorem activity_coalesced:
  assumes valid: "\<forall>e \<in> set es. le_OwnerID e \<noteq> [] \<and> le_WorkspaceID e \<noteq> [] \<and> le_At e \<noteq> 0 \<and> CHR 0x00 \<notin> set (le_OwnerID e)"
    and fresh: "lw_pending w = []"
    and flush: "lw_trace (snd (run_state flushActivity (record_all es w))) = lw_trace w @ tr"
  shows "((\<exists>x. Touched ow k at x \<in> set tr) \<longleftrightarrow>
        (\<exists>e \<in> set es. event_key e = (ow, k) \<and> le_At e = at \<and> (\<forall>x \<in> set es. event_key x = (ow, k) \<longrightarrow> le_At x \<le> at)))
    \<and> length tr = card (event_key ` set es)"
proof -
  define pending where "pending = fold coalesce es []"
  have pending: "lw_pending (record_all es w) = pending" "lw_trace (record_all es w) = lw_trace w"
    using recorded_pending [of es w] record_all_trace [of es w] valid fresh by (simp_all add: record_all_def pending_def)
  have holds: "holds_newest es pending" by (simp add: pending_def fold_coalesce)
  have nul: "\<forall>e \<in> set es. CHR 0x00 \<notin> set (le_OwnerID e)" using valid by blast
  obtain rank where touched: "list_all2 (\<lambda>c e. \<exists>x. c = Touched (le_OwnerID e) (le_WorkspaceID e) (le_At e) x) tr (ranged rank pending)"
    by (rule flush_trace [of "record_all es w"]) (use flush pending in auto)
  have ranged: "set (ranged rank pending) = snd ` set pending" "length (ranged rank pending) = length pending"
    by (simp_all add: ranged_def)
  have "(\<exists>x. Touched ow k at x \<in> set tr) \<longleftrightarrow> (\<exists>e \<in> snd ` set pending. event_key e = (ow, k) \<and> le_At e = at)"
    unfolding touched_iff [OF touched] ranged(1) by (simp add: event_key_def)
  moreover have "length tr = card (event_key ` set es)"
    using list_all2_lengthD [OF touched] ranged(2) pending_keys(2) [OF holds] card_event_keys [OF nul] by simp
  ultimately show ?thesis unfolding pending_newest [OF holds nul] by blast
qed

end
