(* ===== verification/Lifecycle_Example.thy ===== *)
theory Lifecycle_Example
  imports Lifecycle_Progress Workspace_Example
begin

text \<open>
  Concrete scans: a suspended workspace past its retention is deleted, an idle one is suspended, the
  oldest queued one is promoted; and what the stale list of a scan can do to a policy changed meanwhile.
\<close>

lemma run_operation: "run_state (operation m call) w =
    (let s = fold svc_run (la_others (lw_answers w (lw_turn w))) (lw_service w); r = run_state m s in
     (fst r, w\<lparr>lw_turn := Suc (lw_turn w), lw_service := snd r,
        lw_reviews := la_decisions (lw_answers w (lw_turn w)) (lw_reviews w), lw_trace := lw_trace w @ [call (fst r)]\<rparr>))"
  by (simp add: operation_def turn_def trace_call_def Let_def split_beta)

lemma run_answered: "run_state (answered f call) w =
    (let a = lw_answers w (lw_turn w) in
     (f a, w\<lparr>lw_turn := Suc (lw_turn w), lw_service := fold svc_run (la_others a) (lw_service w),
        lw_reviews := la_decisions a (lw_reviews w), lw_trace := lw_trace w @ [call (f a)]\<rparr>))"
  by (simp add: answered_def turn_def trace_call_def Let_def)

lemma run_lif_ctx: "run_state lif_ctx w =
    (let a = lw_answers w (lw_turn w) in
     (if la_cancel a then Some ctx_error else None, w\<lparr>lw_turn := Suc (lw_turn w), lw_service := fold svc_run (la_others a) (lw_service w),
        lw_reviews := la_decisions a (lw_reviews w)\<rparr>))"
  by (simp add: lif_ctx_def turn_def Let_def)

definition example_lanswer :: lanswer where
  "example_lanswer = \<lparr>la_now = 1000 * hour, la_cancel = False, la_err = None, la_minutes = 30, la_busy = False,
     la_random = replicate 32 0, la_db = None, la_rank = (\<lambda>_. 0), la_others = [], la_decisions = (\<lambda>t. t)\<rparr>"

definition example_lifecycle :: lifecycle_config where
  "example_lifecycle = \<lparr>lc_ScanInterval = minute, lc_WarningLead = 24 * hour, lc_notifier = True\<rparr>"

definition scan_world :: "workspace \<Rightarrow> lworld" where
  "scan_world ws = \<lparr>lw_service = first_world\<lparr>w_rows := [(ws_ID ws, ws)]\<rparr>,
     lw_reviews = \<lparr>rt_events = [], rt_activities = []\<rparr>, lw_notices = [], lw_pending = [], lw_wake = False,
     lw_trace = [], lw_answers = (\<lambda>_. example_lanswer), lw_turn = 0\<rparr>"

definition expired_row :: workspace where
  "expired_row = example_row\<lparr>ws_State := WorkspaceSuspended, ws_Retention := ''7_days'', ws_SuspendedAt := Some hour\<rparr>"

definition idle_row :: workspace where
  "idle_row = example_row\<lparr>ws_State := WorkspaceIdle, ws_LastActivityAt := hour\<rparr>"

lemma list_one: "run_state (rows_read (\<lambda>s. Inr (store_ListAll s))) (first_world\<lparr>w_rows := [(k, ws)]\<rparr>)
    = (Inr [ws], first_world\<lparr>w_rows := [(k, ws)], w_tick := 1\<rparr>)"
  by (simp add: rows_read_def tick_def first_world_def example_answer_def store_ListAll_def Let_def)

lemmas lif_eval = run_operation run_answered run_lif_ctx lif_now_def lif_ListAll_def lif_GetSettings_def lif_Probe_def
  lif_Suspend_def lif_Retry_def lif_Delete_def lif_Reconcile_def Let_def

lemma scan_expired: "\<exists>w e. run_state (Scan example_lifecycle) (scan_world expired_row) = w
   \<and> lw_trace (snd w) = [Listed (Inr [expired_row]), ReadClock (1000 * hour),
       Deleted ''o'' example_workspace e, Reconciled ''o'']"
  supply [cong] = bind_eval_cong
  by (simp add: Scan_def lif_eval scan_world_def list_one example_lanswer_def oldest_first_def scan_workspace_def
      applyRetention_def expired_row_def example_row_def MayAutoDelete_def RetentionForever_def retentionDuration_def
      Retention7Days_def scan_join_def zero_ws_def)

lemma scan_idle: "\<exists>w. run_state (Scan example_lifecycle) (scan_world idle_row) = w
   \<and> lw_trace (snd w) = [Listed (Inr [idle_row]), ReadClock (1000 * hour), ReadSettings ''o'' (Inr 30),
       Probed ''o'' example_workspace (Inr False)] @ SuspendedIf ''o'' example_workspace hour # [Reconciled ''o'']"
  supply [cong] = bind_eval_cong
  by (simp add: Scan_def lif_eval scan_world_def list_one example_lanswer_def oldest_first_def scan_workspace_def
      scan_active_def owner_settings_def answer_result_def idle_expired_def scan_inactive_def suspend_idle_def
      idle_row_def example_row_def scan_join_def zero_ws_def)

text \<open>A queued workspace whose retry fails at its first read.\<close>

definition refused_world :: lworld where
  "refused_world = (scan_world example_row)\<lparr>lw_service := (lw_service (scan_world example_row))\<lparr>
     w_env := (\<lambda>n. if n = 0 then example_answer else example_answer\<lparr>an_err := Some (errorsNew ''unavailable'')\<rparr>)\<rparr>\<rparr>"

lemma scan_queued: "\<exists>w. run_state (Scan example_lifecycle) refused_world = w
   \<and> lw_trace (snd w) = [Listed (Inr [example_row]), ReadClock (1000 * hour),
       Retried ''o'' example_workspace (zero_ws, Some (errorsNew ''unavailable'')), Reconciled ''o'']"
  supply [cong] = bind_eval_cong gated_eval_cong
  by (simp add: Scan_def lif_eval refused_world_def scan_world_def rows_read_def tick_def first_world_def store_ListAll_def
      example_lanswer_def oldest_first_def scan_workspace_def example_row_def example_answer_def
      Retry_def with_mutation_def svc_eval zero_ws_def)

theorem automatic_delete_justified_witness:
  "\<exists>tr e. lw_trace (snd (run_state (Scan example_lifecycle) (scan_world expired_row))) = tr
     \<and> Deleted ''o'' example_workspace e \<in> set tr
     \<and> (\<exists>values now. Listed (Inr values) \<in> set tr
          \<and> row_in values ''o'' example_workspace (\<lambda>ws. ws_State ws = WorkspaceDeleting \<or> retention_over now ws))"
proof -
  from scan_expired obtain e where tr: "lw_trace (snd (run_state (Scan example_lifecycle) (scan_world expired_row))) =
      [Listed (Inr [expired_row]), ReadClock (1000 * hour), Deleted ''o'' example_workspace e, Reconciled ''o'']" by auto
  then have "lw_trace (snd (run_state (Scan example_lifecycle) (scan_world expired_row))) = lw_trace (scan_world expired_row) @
      [Listed (Inr [expired_row]), ReadClock (1000 * hour), Deleted ''o'' example_workspace e, Reconciled ''o'']"
    by (simp add: scan_world_def)
  from automatic_delete_justified [OF this, of "''o''" example_workspace e] obtain "values" now where
    "[Listed (Inr [expired_row]), ReadClock (1000 * hour), Deleted ''o'' example_workspace e, Reconciled ''o'']
       = Listed (Inr values) # ReadClock now # [Deleted ''o'' example_workspace e, Reconciled ''o'']"
    "row_in values ''o'' example_workspace (\<lambda>ws. ws_State ws = WorkspaceDeleting \<or> retention_over now ws)" by auto
  with tr show ?thesis by (intro exI) auto
qed



theorem promotion_is_fair_witness:
  "\<exists>queue promotions. mset queue = {#example_row#} \<and> promoted [] queue (retries promotions)"
proof -
  from scan_queued have run: "lw_trace (snd (run_state (Scan example_lifecycle) refused_world)) = lw_trace refused_world @
      [Listed (Inr [example_row]), ReadClock (1000 * hour),
       Retried ''o'' example_workspace (zero_ws, Some (errorsNew ''unavailable'')), Reconciled ''o'']"
    by (simp add: refused_world_def scan_world_def)
  have "\<not> la_cancel (lw_answers refused_world n)" for n by (simp add: refused_world_def scan_world_def example_lanswer_def)
  from promotion_is_fair [OF run this refl] show ?thesis by (auto simp: example_row_def)
qed

definition example_events :: "lifecycle_event list" where
  "example_events = [\<lparr>le_OwnerID = ''o'', le_WorkspaceID = ''w'', le_At = 5\<rparr>, \<lparr>le_OwnerID = ''o'', le_WorkspaceID = ''w'', le_At = 9\<rparr>,
     \<lparr>le_OwnerID = ''o'', le_WorkspaceID = ''w'', le_At = 7\<rparr>, \<lparr>le_OwnerID = ''o'', le_WorkspaceID = ''x'', le_At = 6\<rparr>]"

theorem activity_coalesced_witness:
  "\<exists>tr x. lw_trace (snd (run_state flushActivity (record_all example_events (scan_world idle_row)))) = tr
     \<and> Touched ''o'' ''w'' 9 x \<in> set tr \<and> length tr = 2"
proof -
  obtain tr where run: "lw_trace (snd (run_state flushActivity (record_all example_events (scan_world idle_row)))) =
      lw_trace (record_all example_events (scan_world idle_row)) @ tr" by (rule flush_trace)
  have trace: "lw_trace (record_all example_events (scan_world idle_row)) = lw_trace (scan_world idle_row)"
    by (rule record_all_trace) (simp add: example_events_def)
  have valid: "\<forall>e \<in> set example_events. le_OwnerID e \<noteq> [] \<and> le_WorkspaceID e \<noteq> [] \<and> le_At e \<noteq> 0 \<and> CHR 0x00 \<notin> set (le_OwnerID e)"
    by (simp add: example_events_def)
  have "lw_pending (scan_world idle_row) = []" by (simp add: scan_world_def)
  from activity_coalesced [OF valid this run [unfolded trace], of "''o''" "''w''" 9]
  have "(\<exists>x. Touched ''o'' ''w'' 9 x \<in> set tr) \<and> length tr = 2" by (auto simp: example_events_def event_key_def)
  moreover have "lw_trace (scan_world idle_row) = []" by (simp add: scan_world_def)
  ultimately show ?thesis using run unfolding trace by auto
qed

subsection \<open>Retention extended meanwhile\<close>

text \<open>The owner extends the retention to ninety days after the scan has listed the row.\<close>

definition extended_world :: lworld where
  "extended_world = (scan_world (expired_row\<lparr>ws_ProviderResourceID := ''vm''\<rparr>))\<lparr>
     lw_service := (lw_service (scan_world (expired_row\<lparr>ws_ProviderResourceID := ''vm''\<rparr>)))\<lparr>w_deletion := True\<rparr>,
     lw_answers := (\<lambda>n. if n = 3 then example_lanswer\<lparr>la_others := [CallUpdatePolicy ''o'' example_workspace Retention90Days 30]\<rparr>
        else example_lanswer)\<rparr>"

lemma extended_accepted:
  "case map_of (w_rows (svc_run (CallUpdatePolicy ''o'' example_workspace Retention90Days 30) (lw_service extended_world))) example_workspace of
      Some r \<Rightarrow> ws_Retention r = Retention90Days | None \<Rightarrow> False"
  supply [cong] = bind_eval_cong gated_eval_cong
  by (simp add: extended_world_def scan_world_def first_world_def expired_row_def example_row_def example_answer_def
      svc_UpdatePolicy_def svc_store_UpdatePolicy_def store_UpdatePolicy_def store_Get_def Retention_Valid_def
      Retention90Days_def svc_eval)

definition listed_service :: world where
  "listed_service = (lw_service extended_world)\<lparr>w_tick := 1\<rparr>"

lemma extended_scan_service: "lw_service (snd (run_state (Scan example_lifecycle) extended_world)) =
    snd (run_state (ReconcileCapacity ''o'') (snd (run_state (Delete ''o'' example_workspace True False)
      (svc_run (CallUpdatePolicy ''o'' example_workspace Retention90Days 30) listed_service))))"
  supply [cong] = bind_eval_cong
  by (simp add: Scan_def lif_eval extended_world_def listed_service_def scan_world_def rows_read_def tick_def first_world_def
      store_ListAll_def example_lanswer_def oldest_first_def scan_workspace_def applyRetention_def scan_join_def
      expired_row_def example_row_def example_answer_def MayAutoDelete_def RetentionForever_def retentionDuration_def
      Retention7Days_def zero_ws_def del: svc_run.simps)

lemma extended_delete: "\<exists>w. run_state (Delete ''o'' example_workspace True False)
      (svc_run (CallUpdatePolicy ''o'' example_workspace Retention90Days 30) listed_service) = (None, w)
    \<and> w_rows w = [] \<and> w_env w = (\<lambda>_. example_answer)"
  supply [cong] = bind_eval_cong gated_eval_cong
  by (simp add: listed_service_def extended_world_def scan_world_def first_world_def expired_row_def example_row_def
      example_answer_def MayAutoDelete_def RetentionForever_def Retention7Days_def Retention30Days_def
      Retention90Days_def Delete_def claim_delete_def delete_checkpoint_def resolve_delete_def
      finalize_delete_def svc_FinalizeDelete_def store_FinalizeDelete_def svc_UpdatePolicy_def svc_store_UpdatePolicy_def
      store_UpdatePolicy_def store_Get_def store_Save_def Retention_Valid_def rebalance_def reconcileStableQuotas_def
      reconcileCapacityQuotas_def store_List_def capacity_targets_def apply_capacity_def
      svc_eval zero_ws_def starting_target_def Shares_def)

lemma reconcile_empty:
  assumes "w_rows w = []" "w_env w = (\<lambda>_. example_answer)"
  shows "w_rows (snd (run_state (ReconcileCapacity ''o'') w)) = []"
  supply [cong] = bind_eval_cong gated_eval_cong
  using assms
  by (simp add: ReconcileCapacity_def rebalance_def reconcileStableQuotas_def reconcileCapacityQuotas_def store_List_def
      capacity_targets_def apply_capacity_def starting_target_def Shares_def svc_eval example_answer_fields)

lemma extended_scan: "w_rows (lw_service (snd (run_state (Scan example_lifecycle) extended_world))) = []"
  using extended_delete reconcile_empty unfolding extended_scan_service by fastforce

text \<open>A scan decides on deletion from the list it read: when the owner extends the retention to ninety days
  between the list and the deletion, and is told so, the workspace is deleted all the same, weeks before
  the new retention ends, with its provider and its row.\<close>

theorem extended_retention_deleted:
  "(case map_of (w_rows (svc_run (CallUpdatePolicy ''o'' example_workspace Retention90Days 30) (lw_service extended_world))) example_workspace of
      Some r \<Rightarrow> ws_Retention r = Retention90Days | None \<Rightarrow> False)
   \<and> w_rows (lw_service (snd (run_state (Scan example_lifecycle) extended_world))) = []
   \<and> \<not> retention_over (1000 * hour) (expired_row\<lparr>ws_Retention := Retention90Days\<rparr>)"
  using extended_accepted extended_scan
  by (simp add: retention_over_def expired_row_def Retention90Days_def retentionDuration_def Retention7Days_def Retention30Days_def)

end
