(* ===== verification/Preview_Tokens.thy ===== *)
theory Preview_Tokens
  imports Go_Base64
begin

text \<open>
  \<^verbatim>\<open>preview/tokens.go\<close>: bearer tokens for the development servers a workspace exposes. A grant is
  filed under its random identity and binds one owner, device, workspace, route and port; a proxied
  request that presents the token holds an authorization, which revoking the route or the device
  cancels. An operation is its critical section; the cancel functions it collected are handed over in
  \<open>pw_pending\<close> and called by \<open>cancelAll\<close> after the unlock, when other operations may
  already have run. A request context is a position of \<open>pw_requests\<close>: its cancel function is that
  position, and the \<^verbatim>\<open>release\<close> closure of \<^verbatim>\<open>Authorize\<close> is \<open>Release\<close> at it. HMAC-SHA-256 is
  the parameter \<open>pm_hmac\<close>; an entropy source delivers a result per read.
\<close>

subsection \<open>Data\<close>

record preview_route =
  vr_ID :: string
  vr_OwnerID :: string
  vr_WorkspaceID :: string
  vr_Port :: "16 word"
  vr_Process :: string
  vr_Host :: string
  vr_CreatedAt :: time
  vr_RevokedAt :: "time option"

record preview_grant =
  pg_ID :: string
  pg_RouteID :: string
  pg_OwnerID :: string
  pg_DeviceID :: string
  pg_WorkspaceID :: string
  pg_Port :: "16 word"
  pg_Hash :: bytes
  pg_ExpiresAt :: time
  pg_RevokedAt :: "time option"

record activeAuthorization =
  aa_ownerID :: string
  aa_deviceID :: string
  aa_expiresAt :: time
  aa_cancel :: nat

type_synonym active_table = "(string, (64 word, activeAuthorization) gomap) gomap"

record token_manager =
  pm_hmac :: "bytes \<Rightarrow> bytes \<Rightarrow> bytes"
  pm_pepper :: bytes
  pm_grants :: "(string, preview_grant) gomap"
  pm_grantsByOwner :: "(string, int) gomap"
  pm_grantsByRoute :: "(string, int) gomap"
  pm_activeByRoute :: active_table
  pm_activeByOwner :: "(string, int) gomap"
  pm_activeCount :: int
  pm_nextActiveID :: "64 word"
  pm_maxTTL :: time
  pm_maxGrants :: int
  pm_maxOwnerGrants :: int
  pm_maxRouteGrants :: int
  pm_maxActive :: int
  pm_maxOwnerActive :: int
  pm_maxRouteActive :: int
  pm_nextCleanup :: time

record preview_request =
  pq_routeID :: string
  pq_activeID :: "64 word"
  pq_timeout :: time
  pq_once :: bool
  pq_cancelled :: bool

record preview_world =
  pw_mgr :: token_manager
  pw_requests :: "preview_request list"
  pw_pending :: "nat list"

definition defaultMaximumPreviewGrants :: int where "defaultMaximumPreviewGrants = 4096"
definition defaultMaximumPreviewGrantsPerOwner :: int where "defaultMaximumPreviewGrantsPerOwner = 1024"
definition defaultMaximumPreviewGrantsPerRoute :: int where "defaultMaximumPreviewGrantsPerRoute = 128"
definition defaultMaximumActivePreviews :: int where "defaultMaximumActivePreviews = 1024"
definition defaultMaximumActivePreviewsPerOwner :: int where "defaultMaximumActivePreviewsPerOwner = 256"
definition defaultMaximumActivePreviewsPerRoute :: int where "defaultMaximumActivePreviewsPerRoute = 64"
definition previewCleanupInterval :: time where "previewCleanupInterval = 30 * second"

lemmas preview_limits =
  defaultMaximumPreviewGrants_def defaultMaximumPreviewGrantsPerOwner_def
  defaultMaximumPreviewGrantsPerRoute_def defaultMaximumActivePreviews_def
  defaultMaximumActivePreviewsPerOwner_def defaultMaximumActivePreviewsPerRoute_def

definition NewTokenManagerWithDependencies ::
  "(bytes \<Rightarrow> bytes \<Rightarrow> bytes) \<Rightarrow> bytes \<Rightarrow> bool \<Rightarrow> bool \<Rightarrow> token_manager result" where
  "NewTokenManagerWithDependencies hmac pepper hasRandom hasClock =
     (if length pepper < 32 \<or> \<not> hasRandom \<or> \<not> hasClock
      then Inl (errorsNew ''preview token pepper, random source, and clock are required'')
      else Inr \<lparr>pm_hmac = hmac, pm_pepper = pepper, pm_grants = [], pm_grantsByOwner = [],
             pm_grantsByRoute = [], pm_activeByRoute = [], pm_activeByOwner = [], pm_activeCount = 0,
             pm_nextActiveID = 0, pm_maxTTL = 10 * minute, pm_maxGrants = defaultMaximumPreviewGrants,
             pm_maxOwnerGrants = defaultMaximumPreviewGrantsPerOwner,
             pm_maxRouteGrants = defaultMaximumPreviewGrantsPerRoute,
             pm_maxActive = defaultMaximumActivePreviews,
             pm_maxOwnerActive = defaultMaximumActivePreviewsPerOwner,
             pm_maxRouteActive = defaultMaximumActivePreviewsPerRoute, pm_nextCleanup = 0\<rparr>)"

subsection \<open>Tokens\<close>

definition preview_hash :: "token_manager \<Rightarrow> preview_grant \<Rightarrow> string \<Rightarrow> bytes" where
  "preview_hash m g secret =
     take 32 (pm_hmac m (pm_pepper m)
       (concat (map (\<lambda>v. bytes_of v @ [0])
         [''codex-mobile:preview:v2'', pg_ID g, pg_RouteID g, pg_OwnerID g, pg_DeviceID g,
          pg_WorkspaceID g, decimal (unat (pg_Port g)), secret])))"

definition preview_parse :: "string \<Rightarrow> (string \<times> string) result" where
  "preview_parse token =
     (if \<not> has_prefix token ''pv_'' \<or> length token > 256 then Inl (errorsNew ''malformed preview token'')
      else (case split_on (CHR ''.'') (drop 3 token) of
          [a, b] \<Rightarrow>
            if RawURLDecodes a \<and> RawURLDecodes b then Inr (a, b)
            else Inl (errorsNew ''malformed preview token'')
        | _ \<Rightarrow> Inl (errorsNew ''malformed preview token'')))"

definition preview_randomPart :: "bytes result \<Rightarrow> string result" where
  "preview_randomPart read =
     (case read of
        Inl e \<Rightarrow> Inl (GoErr (err_is e) (''random preview token: '' @ err_msg e))
      | Inr b \<Rightarrow> Inr (RawURLEncode b))"

definition WorkspaceTarget :: "16 word \<Rightarrow> string result" where
  "WorkspaceTarget port =
     (if port < 1024 then Inl (errorsNew ''privileged preview ports are not allowed'')
      else Inr (''127.0.0.1:'' @ decimal (unat port)))"

subsection \<open>Tables\<close>

definition removeGrantLocked :: "string \<Rightarrow> preview_grant \<Rightarrow> token_manager \<Rightarrow> token_manager" where
  "removeGrantLocked gid g m =
     m\<lparr>pm_grants := AList.delete gid (pm_grants m),
       pm_grantsByOwner := count_dec (pg_OwnerID g) (pm_grantsByOwner m),
       pm_grantsByRoute := count_dec (pg_RouteID g) (pm_grantsByRoute m)\<rparr>"

definition decrementActiveOwnerLocked :: "string \<Rightarrow> token_manager \<Rightarrow> token_manager" where
  "decrementActiveOwnerLocked ow m = m\<lparr>pm_activeByOwner := count_dec ow (pm_activeByOwner m)\<rparr>"

text \<open>A read of a missing route is the nil map, which has no entries.\<close>

definition active_of :: "active_table \<Rightarrow> string \<Rightarrow> (64 word, activeAuthorization) gomap" where
  "active_of t rid = (case map_of t rid of None \<Rightarrow> [] | Some a \<Rightarrow> a)"

text \<open>The loops over the grants, with the number removed, and over the authorizations.\<close>

primrec remove_grants ::
  "(preview_grant \<Rightarrow> bool) \<Rightarrow> (string \<times> preview_grant) list \<Rightarrow> token_manager \<Rightarrow> nat \<times> token_manager" where
  "remove_grants p [] m = (0, m)"
| "remove_grants p (x # xs) m =
     (if p (snd x) then
        (let (n, m') = remove_grants p xs (removeGrantLocked (fst x) (snd x) m) in (Suc n, m'))
      else remove_grants p xs m)"

definition drop_active :: "string \<Rightarrow> 64 word \<Rightarrow> activeAuthorization \<Rightarrow> token_manager \<Rightarrow> token_manager" where
  "drop_active rid aid a m =
     (decrementActiveOwnerLocked (aa_ownerID a)
        (m\<lparr>pm_activeByRoute := AList.update rid (AList.delete aid (active_of (pm_activeByRoute m) rid))
             (pm_activeByRoute m)\<rparr>))\<lparr>pm_activeCount := pm_activeCount m - 1\<rparr>"

definition drop_empty :: "string \<Rightarrow> token_manager \<Rightarrow> token_manager" where
  "drop_empty rid m =
     (if active_of (pm_activeByRoute m) rid = []
      then m\<lparr>pm_activeByRoute := AList.delete rid (pm_activeByRoute m)\<rparr> else m)"

primrec sweep_active ::
  "(activeAuthorization \<Rightarrow> bool) \<Rightarrow> string \<Rightarrow> (64 word \<times> activeAuthorization) list \<Rightarrow> token_manager
    \<Rightarrow> token_manager \<times> nat list" where
  "sweep_active p rid [] m = (m, [])"
| "sweep_active p rid (x # xs) m =
     (if p (snd x) then
        (let (m', cs) = sweep_active p rid xs (drop_active rid (fst x) (snd x) m)
         in (m', aa_cancel (snd x) # cs))
      else sweep_active p rid xs m)"

primrec sweep_routes ::
  "(activeAuthorization \<Rightarrow> bool) \<Rightarrow> active_table \<Rightarrow> token_manager \<Rightarrow> token_manager \<times> nat list" where
  "sweep_routes p [] m = (m, [])"
| "sweep_routes p (x # xs) m =
     (let (m1, cs) = sweep_active p (fst x) (snd x) m;
          (m2, cs') = sweep_routes p xs (drop_empty (fst x) m1)
      in (m2, cs @ cs'))"

definition preview_cleanupLocked :: "time \<Rightarrow> token_manager \<Rightarrow> token_manager \<times> nat list" where
  "preview_cleanupLocked now m =
     (let m1 = m\<lparr>pm_nextCleanup := now + previewCleanupInterval\<rparr>;
          (_, m2) = remove_grants (\<lambda>g. pg_RevokedAt g \<noteq> None \<or> \<not> now < pg_ExpiresAt g) (pm_grants m1) m1
      in sweep_routes (\<lambda>a. \<not> now < aa_expiresAt a) (pm_activeByRoute m2) m2)"

definition maybeCleanupLocked :: "time \<Rightarrow> token_manager \<Rightarrow> token_manager \<times> nat list" where
  "maybeCleanupLocked now m =
     (if pm_nextCleanup m \<noteq> 0 \<and> now < pm_nextCleanup m then (m, []) else preview_cleanupLocked now m)"

definition grantCapacityReachedLocked :: "string \<Rightarrow> string \<Rightarrow> token_manager \<Rightarrow> bool" where
  "grantCapacityReachedLocked ow rid m \<longleftrightarrow>
     int (length (pm_grants m)) \<ge> pm_maxGrants m
     \<or> get_count (pm_grantsByOwner m) ow \<ge> pm_maxOwnerGrants m
     \<or> get_count (pm_grantsByRoute m) rid \<ge> pm_maxRouteGrants m"

definition activeCapacityReachedLocked ::
  "string \<Rightarrow> (64 word, activeAuthorization) gomap \<Rightarrow> token_manager \<Rightarrow> bool" where
  "activeCapacityReachedLocked ow active m \<longleftrightarrow>
     pm_activeCount m \<ge> pm_maxActive m
     \<or> get_count (pm_activeByOwner m) ow \<ge> pm_maxOwnerActive m
     \<or> int (length active) \<ge> pm_maxRouteActive m"

definition validateLocked ::
  "string \<Rightarrow> string \<Rightarrow> string \<Rightarrow> string \<Rightarrow> string \<Rightarrow> 16 word \<Rightarrow> time \<Rightarrow> token_manager \<Rightarrow> preview_grant result" where
  "validateLocked gid secret rid ow ws port now m =
     (case map_of (pm_grants m) gid of
        None \<Rightarrow> Inl (errorsNew ''invalid preview token'')
      | Some g \<Rightarrow>
          if pg_RevokedAt g \<noteq> None \<or> \<not> now < pg_ExpiresAt g then Inl (errorsNew ''invalid preview token'')
          else if pg_RouteID g \<noteq> rid \<or> pg_OwnerID g \<noteq> ow \<or> pg_WorkspaceID g \<noteq> ws \<or> pg_Port g \<noteq> port
          then Inl (errorsNew ''preview token audience mismatch'')
          else if pg_Hash g \<noteq> preview_hash m g secret then Inl (errorsNew ''invalid preview token'')
          else Inr g)"

subsection \<open>Operations\<close>

definition hand_over :: "token_manager \<times> nat list \<Rightarrow> preview_world \<Rightarrow> preview_world" where
  "hand_over mc w = w\<lparr>pw_mgr := fst mc, pw_pending := pw_pending w @ snd mc\<rparr>"

definition cancel_request :: "nat \<Rightarrow> preview_world \<Rightarrow> preview_world" where
  "cancel_request h w =
     w\<lparr>pw_requests := (pw_requests w)[h := (pw_requests w ! h)\<lparr>pq_cancelled := True\<rparr>],
       pw_pending := remove1 h (pw_pending w)\<rparr>"

primrec cancelAll :: "nat list \<Rightarrow> preview_world \<Rightarrow> preview_world" where
  "cancelAll [] w = w"
| "cancelAll (h # hs) w = cancelAll hs (cancel_request h w)"

definition preview_Issue ::
  "preview_route \<Rightarrow> string \<Rightarrow> time \<Rightarrow> bytes result \<Rightarrow> bytes result \<Rightarrow> time \<Rightarrow> preview_world
    \<Rightarrow> (string \<times> time) result \<times> preview_world" where
  "preview_Issue r dev ttl read16 read32 now w =
     (if vr_ID r = [] \<or> vr_OwnerID r = [] \<or> dev = [] \<or> vr_WorkspaceID r = [] \<or> vr_Port r < 1024
         \<or> vr_RevokedAt r \<noteq> None
      then (Inl (errorsNew ''invalid preview route''), w)
      else if ttl \<le> 0 \<or> ttl > pm_maxTTL (pw_mgr w)
      then (Inl (errorsNew ''preview TTL must be between 1ns and 10 minutes''), w)
      else (case preview_randomPart read16 of
          Inl e \<Rightarrow> (Inl e, w)
        | Inr gid \<Rightarrow>
            (case preview_randomPart read32 of
               Inl e \<Rightarrow> (Inl e, w)
             | Inr secret \<Rightarrow>
                 let w1 = hand_over (maybeCleanupLocked now (pw_mgr w)) w; m = pw_mgr w1
                 in if grantCapacityReachedLocked (vr_OwnerID r) (vr_ID r) m
                    then (Inl (GoErr ErrCapacity ''preview token capacity''), w1)
                    else if map_of (pm_grants m) gid \<noteq> None
                    then (Inl (errorsNew ''preview token identity collision''), w1)
                    else
                      let expires = now + ttl;
                          g0 = \<lparr>pg_ID = gid, pg_RouteID = vr_ID r, pg_OwnerID = vr_OwnerID r, pg_DeviceID = dev,
                                pg_WorkspaceID = vr_WorkspaceID r, pg_Port = vr_Port r, pg_Hash = [],
                                pg_ExpiresAt = expires, pg_RevokedAt = None\<rparr>;
                          g = g0\<lparr>pg_Hash := preview_hash m g0 secret\<rparr>
                      in (Inr (''pv_'' @ gid @ ''.'' @ secret, expires),
                          w1\<lparr>pw_mgr := m\<lparr>pm_grants := AList.update gid g (pm_grants m),
                            pm_grantsByOwner := AList.update (vr_OwnerID r)
                              (get_count (pm_grantsByOwner m) (vr_OwnerID r) + 1) (pm_grantsByOwner m),
                            pm_grantsByRoute := AList.update (vr_ID r)
                              (get_count (pm_grantsByRoute m) (vr_ID r) + 1) (pm_grantsByRoute m)\<rparr>\<rparr>))))"

definition preview_Validate ::
  "string \<Rightarrow> string \<Rightarrow> string \<Rightarrow> string \<Rightarrow> 16 word \<Rightarrow> time \<Rightarrow> preview_world \<Rightarrow> goerr option \<times> preview_world" where
  "preview_Validate token rid ow ws port now w =
     (case preview_parse token of
        Inl e \<Rightarrow> (Some e, w)
      | Inr (gid, secret) \<Rightarrow>
          let w1 = hand_over (maybeCleanupLocked now (pw_mgr w)) w
          in (case validateLocked gid secret rid ow ws port now (pw_mgr w1) of
                Inl e \<Rightarrow> (Some e, w1)
              | Inr _ \<Rightarrow> (None, w1)))"

text \<open>\<open>parent\<close> is the caller's context: \<^verbatim>\<open>nil\<close>, or its \<^verbatim>\<open>Err()\<close>.\<close>

definition preview_Authorize ::
  "goerr option option \<Rightarrow> string \<Rightarrow> string \<Rightarrow> string \<Rightarrow> string \<Rightarrow> 16 word \<Rightarrow> time \<Rightarrow> preview_world
    \<Rightarrow> nat result \<times> preview_world" where
  "preview_Authorize parent token rid ow ws port now w =
     (case parent of
        None \<Rightarrow> (Inl (errorsNew ''preview request context is required''), w)
      | Some (Some e) \<Rightarrow> (Inl e, w)
      | Some None \<Rightarrow>
          (case preview_parse token of
             Inl e \<Rightarrow> (Inl e, w)
           | Inr (gid, secret) \<Rightarrow>
               let w1 = hand_over (maybeCleanupLocked now (pw_mgr w)) w; m = pw_mgr w1
               in (case validateLocked gid secret rid ow ws port now m of
                     Inl e \<Rightarrow> (Inl e, w1)
                   | Inr g \<Rightarrow>
                       let active = active_of (pm_activeByRoute m) rid
                       in if activeCapacityReachedLocked ow active m
                          then (Inl (GoErr ErrCapacity ''preview authorization capacity''), w1)
                          else let remaining = pg_ExpiresAt g - now
                          in if remaining \<le> 0 then (Inl (errorsNew ''invalid preview token''), w1)
                          else let next = pm_nextActiveID m + 1; aid = (if next = 0 then next + 1 else next);
                                   h = length (pw_requests w1)
                          in (Inr h, w1\<lparr>
                               pw_requests := pw_requests w1 @
                                 [\<lparr>pq_routeID = rid, pq_activeID = aid, pq_timeout = remaining, pq_once = False,
                                   pq_cancelled = False\<rparr>],
                               pw_mgr := m\<lparr>pm_nextActiveID := aid,
                                 pm_activeByRoute := AList.update rid
                                   (AList.update aid \<lparr>aa_ownerID = ow, aa_deviceID = pg_DeviceID g,
                                      aa_expiresAt = pg_ExpiresAt g, aa_cancel = h\<rparr> active) (pm_activeByRoute m),
                                 pm_activeCount := pm_activeCount m + 1,
                                 pm_activeByOwner := AList.update ow
                                   (get_count (pm_activeByOwner m) ow + 1) (pm_activeByOwner m)\<rparr>\<rparr>))))"

text \<open>The closure \<^verbatim>\<open>release\<close>: \<^verbatim>\<open>once.Do\<close> of removing the authorization and then its cancel.\<close>

definition preview_Release :: "nat \<Rightarrow> preview_world \<Rightarrow> preview_world" where
  "preview_Release h w =
     (let q = pw_requests w ! h; rid = pq_routeID q; m = pw_mgr w
      in if pq_once q then w
         else w\<lparr>pw_requests := (pw_requests w)[h := q\<lparr>pq_once := True\<rparr>],
           pw_mgr := (case map_of (active_of (pm_activeByRoute m) rid) (pq_activeID q) of
               None \<Rightarrow> m
             | Some a \<Rightarrow> drop_empty rid (drop_active rid (pq_activeID q) a m)),
           pw_pending := pw_pending w @ [h]\<rparr>)"

primrec drop_owners :: "(64 word \<times> activeAuthorization) list \<Rightarrow> token_manager \<Rightarrow> token_manager" where
  "drop_owners [] m = m"
| "drop_owners (x # xs) m =
     drop_owners xs ((decrementActiveOwnerLocked (aa_ownerID (snd x)) m)\<lparr>pm_activeCount := pm_activeCount m - 1\<rparr>)"

definition preview_RevokeRoute :: "string \<Rightarrow> time \<Rightarrow> preview_world \<Rightarrow> nat \<times> preview_world" where
  "preview_RevokeRoute rid now w =
     (let (m1, cs) = preview_cleanupLocked now (pw_mgr w);
          (n, m2) = remove_grants (\<lambda>g. pg_RouteID g = rid) (pm_grants m1) m1;
          active = active_of (pm_activeByRoute m2) rid;
          m3 = drop_owners active (m2\<lparr>pm_activeByRoute := AList.delete rid (pm_activeByRoute m2)\<rparr>)
      in (n, hand_over (m3, cs @ map (\<lambda>x. aa_cancel (snd x)) active) w))"

definition preview_RevokeDevice :: "string \<Rightarrow> string \<Rightarrow> time \<Rightarrow> preview_world \<Rightarrow> nat \<times> preview_world" where
  "preview_RevokeDevice ow dev now w =
     (if ow = [] \<or> dev = [] then (0, w)
      else
        (let (m1, cs) = preview_cleanupLocked now (pw_mgr w);
             (n, m2) = remove_grants (\<lambda>g. pg_OwnerID g = ow \<and> pg_DeviceID g = dev) (pm_grants m1) m1;
             (m3, cs') = sweep_routes (\<lambda>a. \<not> (aa_ownerID a \<noteq> ow \<or> aa_deviceID a \<noteq> dev)) (pm_activeByRoute m2) m2
         in (n, hand_over (m3, cs @ cs') w)))"

end
