(* ===== verification/Preview_Safety.thy ===== *)
theory Preview_Safety
  imports Preview_Tokens
begin

text \<open>
  Properties of the preview tokens over every interleaving of their operations: the counters the
  capacity checks read are exact and within their limits, a token admits only what it was issued for
  and nothing after a revocation, and every live request context is one a revocation can reach.
\<close>

subsection \<open>The table of authorizations\<close>

definition act_count :: "(activeAuthorization \<Rightarrow> bool) \<Rightarrow> active_table \<Rightarrow> nat" where
  "act_count p t = (\<Sum>x\<leftarrow>t. count_where (\<lambda>_. p) (snd x))"

lemma act_count_Nil [simp]: "act_count p [] = 0"
  by (simp add: act_count_def)

lemma act_count_Cons [simp]: "act_count p ((r, a) # t) = count_where (\<lambda>_. p) a + act_count p t"
  by (simp add: act_count_def)

lemma active_of_simps [simp]:
  "active_of [] r = []"
  "active_of (AList.update r a t) r' = (if r' = r then a else active_of t r')"
  "active_of (AList.delete r t) r' = (if r' = r then [] else active_of t r')"
  by (auto simp: active_of_def)

lemma act_count_delete:
  "map_wf t \<Longrightarrow> act_count p (AList.delete r t) + count_where (\<lambda>_. p) (active_of t r) = act_count p t"
proof (induction t)
  case (Cons x t)
  then show ?case
  proof (cases "fst x = r")
    case True
    with Cons.prems have "AList.delete r t = t" by (auto simp: map_wf_def intro: delete_idem)
    with True show ?thesis by (cases x) (simp add: active_of_def)
  next
    case False
    with Cons show ?thesis by (cases x) (simp add: active_of_def map_wf_def)
  qed
qed simp

lemma act_count_update:
  "map_wf t \<Longrightarrow>
    act_count p (AList.update r a t) + count_where (\<lambda>_. p) (active_of t r) = act_count p t + count_where (\<lambda>_. p) a"
proof (induction t)
  case (Cons x t)
  then show ?case by (cases x) (auto simp: active_of_def map_wf_def)
qed simp

subsection \<open>The invariant of the manager\<close>

definition look :: "token_manager \<Rightarrow> string \<Rightarrow> 64 word \<Rightarrow> activeAuthorization option" where
  "look m r i = map_of (active_of (pm_activeByRoute m) r) i"

definition limits_set :: "token_manager \<Rightarrow> bool" where
  "limits_set m \<longleftrightarrow> pm_maxTTL m = 10 * minute \<and> pm_maxGrants m = 4096 \<and> pm_maxOwnerGrants m = 1024
     \<and> pm_maxRouteGrants m = 128 \<and> pm_maxActive m = 1024 \<and> pm_maxOwnerActive m = 256
     \<and> pm_maxRouteActive m = 64"

definition grants_ok :: "token_manager \<Rightarrow> bool" where
  "grants_ok m \<longleftrightarrow> map_wf (pm_grants m)
     \<and> counters_hold (pm_grantsByOwner m) (\<lambda>x. count_where (\<lambda>_ g. pg_OwnerID g = x) (pm_grants m))
     \<and> counters_hold (pm_grantsByRoute m) (\<lambda>x. count_where (\<lambda>_ g. pg_RouteID g = x) (pm_grants m))
     \<and> bounded (pm_grants m) (\<lambda>_. ()) 4096 \<and> bounded (pm_grants m) pg_OwnerID 1024
     \<and> bounded (pm_grants m) pg_RouteID 128"

definition active_ok :: "token_manager \<Rightarrow> bool" where
  "active_ok m \<longleftrightarrow> map_wf (pm_activeByRoute m) \<and> (\<forall>r. map_wf (active_of (pm_activeByRoute m) r))
     \<and> counters_hold (pm_activeByOwner m) (\<lambda>x. act_count (\<lambda>a. aa_ownerID a = x) (pm_activeByRoute m))
     \<and> pm_activeCount m = int (act_count (\<lambda>_. True) (pm_activeByRoute m))
     \<and> act_count (\<lambda>_. True) (pm_activeByRoute m) \<le> 1024
     \<and> (\<forall>x. act_count (\<lambda>a. aa_ownerID a = x) (pm_activeByRoute m) \<le> 256)
     \<and> (\<forall>r. length (active_of (pm_activeByRoute m) r) \<le> 64)"

text \<open>\<open>trims m m' cs\<close>: \<open>m'\<close> is \<open>m\<close> less some grants and authorizations, whose cancel functions
  are \<open>cs\<close>.\<close>

definition same_config :: "token_manager \<Rightarrow> token_manager \<Rightarrow> bool" where
  "same_config m m' \<longleftrightarrow> pm_hmac m' = pm_hmac m \<and> pm_pepper m' = pm_pepper m \<and> pm_nextActiveID m' = pm_nextActiveID m
     \<and> (limits_set m \<longrightarrow> limits_set m')"

definition trims :: "token_manager \<Rightarrow> token_manager \<Rightarrow> nat list \<Rightarrow> bool" where
  "trims m m' cs \<longleftrightarrow> same_config m m' \<and> (grants_ok m \<longrightarrow> grants_ok m') \<and> (active_ok m \<longrightarrow> active_ok m')
     \<and> set (pm_grants m') \<subseteq> set (pm_grants m)
     \<and> (\<forall>r i a. look m' r i = Some a \<longrightarrow> look m r i = Some a)
     \<and> (\<forall>r i a. look m r i = Some a \<longrightarrow> look m' r i = Some a \<or> aa_cancel a \<in> set cs)
     \<and> (\<forall>h \<in> set cs. \<exists>r i a. look m r i = Some a \<and> aa_cancel a = h \<and> look m' r i = None)"

lemma trimsD:
  assumes "trims m m' cs"
  shows "look m' r i = Some a \<Longrightarrow> look m r i = Some a"
    "look m r i = Some a \<Longrightarrow> look m' r i = Some a \<or> aa_cancel a \<in> set cs"
    "h \<in> set cs \<Longrightarrow> \<exists>r i a. look m r i = Some a \<and> aa_cancel a = h \<and> look m' r i = None"
    "set (pm_grants m') \<subseteq> set (pm_grants m)" "same_config m m'" "pm_nextActiveID m' = pm_nextActiveID m"
  using assms unfolding trims_def same_config_def by simp_all

lemma trims_refl [simp]: "trims m m []"
  by (simp add: trims_def same_config_def)

lemma trims_trans:
  assumes "trims m1 m2 cs" "trims m2 m3 cs'"
  shows "trims m1 m3 (cs @ cs')"
proof -
  have "look m3 r i = None" if "look m2 r i = None" for r i
    using assms(2) that unfolding trims_def by (cases "look m3 r i") auto
  then have "\<exists>r i a. look m1 r i = Some a \<and> aa_cancel a = h \<and> look m3 r i = None" if "h \<in> set (cs @ cs')" for h
    using assms that unfolding trims_def by (simp only: set_append Un_iff) meson
  moreover have "look m3 r i = Some a \<or> aa_cancel a \<in> set (cs @ cs')" if "look m1 r i = Some a" for r i a
    using assms that unfolding trims_def by (simp only: set_append Un_iff) meson
  moreover have "same_config m1 m3" using assms by (auto simp: trims_def same_config_def)
  ultimately show ?thesis using assms unfolding trims_def by (intro conjI allI impI ballI) (blast | simp)+
qed

text \<open>Changes of the cleanup time alone.\<close>

lemma trims_nextCleanup [simp]: "trims m (m\<lparr>pm_nextCleanup := t\<rparr>) []"
  by (simp add: trims_def same_config_def limits_set_def grants_ok_def active_ok_def look_def)

lemma trims_removeGrant:
  assumes "map_of (pm_grants m) gid = Some g"
  shows "trims m (removeGrantLocked gid g m) []"
proof -
  have "grants_ok (removeGrantLocked gid g m)" if ok: "grants_ok m"
  proof -
    have wf: "map_wf (pm_grants m)" using ok by (simp add: grants_ok_def)
    have n: "count_where (\<lambda>_ u. f u = x) (pm_grants m) =
        (if x = f g then Suc (count_where (\<lambda>_ u. f u = f g) (AList.delete gid (pm_grants m)))
         else count_where (\<lambda>_ u. f u = x) (AList.delete gid (pm_grants m)))" for f :: "preview_grant \<Rightarrow> string" and x
      using count_delete_Some [OF wf assms, of "\<lambda>_ u. f u = x"] by auto
    show ?thesis
      using ok unfolding grants_ok_def removeGrantLocked_def AList.delete_eq
      by (auto simp flip: AList.delete_eq intro!: counters_hold_dec n simp: bounded_filter [unfolded AList.delete_eq [symmetric]])
        (simp_all add: AList.delete_eq bounded_filter)
  qed
  then show ?thesis
    by (auto simp: trims_def same_config_def limits_set_def active_ok_def look_def removeGrantLocked_def
        AList.delete_eq)
qed

lemma count_where_const: "count_where (\<lambda>_. p) a = count_where (\<lambda>_ v. p v) a"
  by simp

lemma trims_drop_active:
  assumes "look m rid aid = Some a"
  shows "active_ok m \<Longrightarrow> active_ok (drop_active rid aid a m)"
    and "look (drop_active rid aid a m) r i = (if r = rid \<and> i = aid then None else look m r i)"
    and "pm_grants (drop_active rid aid a m) = pm_grants m" "same_config m (drop_active rid aid a m)"
    and "grants_ok m \<Longrightarrow> grants_ok (drop_active rid aid a m)"
proof -
  let ?t = "pm_activeByRoute m" and ?t' = "pm_activeByRoute (drop_active rid aid a m)"
  have t': "?t' = AList.update rid (AList.delete aid (active_of ?t rid)) ?t"
    by (simp add: drop_active_def decrementActiveOwnerLocked_def)
  show "look (drop_active rid aid a m) r i = (if r = rid \<and> i = aid then None else look m r i)"
    by (auto simp: look_def t')
  show "pm_grants (drop_active rid aid a m) = pm_grants m" "same_config m (drop_active rid aid a m)"
    "grants_ok m \<Longrightarrow> grants_ok (drop_active rid aid a m)"
    by (simp_all add: drop_active_def decrementActiveOwnerLocked_def same_config_def limits_set_def grants_ok_def)
  show "active_ok (drop_active rid aid a m)" if ok: "active_ok m"
  proof -
    have wf: "map_wf ?t" "map_wf (active_of ?t r)" for r using ok by (simp_all add: active_ok_def)
    have cnt: "act_count p ?t = act_count p ?t' + (if p a then 1 else 0)" for p
      using act_count_update [OF wf(1), of p rid "AList.delete aid (active_of ?t rid)"]
        count_delete_Some [OF wf(2), of rid aid a "\<lambda>_. p"] assms
      by (simp add: t' look_def split: if_splits)
    have wf': "map_wf ?t'" "map_wf (active_of ?t' r)" for r using wf by (simp_all add: t')
    moreover have "counters_hold (pm_activeByOwner (drop_active rid aid a m)) (\<lambda>x. act_count (\<lambda>b. aa_ownerID b = x) ?t')"
    proof -
      have "counters_hold (count_dec (aa_ownerID a) (pm_activeByOwner m)) (\<lambda>x. act_count (\<lambda>b. aa_ownerID b = x) ?t')"
        by (rule counters_hold_dec [where f = "\<lambda>x. act_count (\<lambda>b. aa_ownerID b = x) ?t"])
          (use ok in \<open>auto simp: active_ok_def cnt\<close>)
      then show ?thesis by (simp add: drop_active_def decrementActiveOwnerLocked_def)
    qed
    moreover have "pm_activeCount (drop_active rid aid a m) = int (act_count (\<lambda>_. True) ?t')"
      using ok cnt [of "\<lambda>_. True"] by (simp add: active_ok_def drop_active_def)
    moreover have "act_count p ?t' \<le> act_count p ?t" for p by (simp add: cnt)
    moreover have "length (active_of ?t' r) \<le> length (active_of ?t r)" for r
      by (simp add: t' length_delete_le)
    ultimately show ?thesis using ok unfolding active_ok_def by (meson order.trans)
  qed
qed

lemma trims_drop_active_one:
  assumes "look m rid aid = Some a"
  shows "trims m (drop_active rid aid a m) [aa_cancel a]"
  using assms by (auto simp: trims_def trims_drop_active split: if_splits)

lemma trims_drop_empty: "trims m (drop_empty rid m) []"
proof (cases "active_of (pm_activeByRoute m) rid = []")
  case True
  have "look (drop_empty rid m) = look m"
    using True by (auto simp: look_def drop_empty_def fun_eq_iff)
  moreover have "active_ok m \<longrightarrow> active_ok (drop_empty rid m)"
    using True act_count_delete [of "pm_activeByRoute m" _ rid]
    by (auto simp: active_ok_def drop_empty_def)
  ultimately show ?thesis
    using True by (auto simp: trims_def same_config_def limits_set_def grants_ok_def drop_empty_def)
qed (simp add: drop_empty_def)

subsection \<open>The loops\<close>

lemma trims_remove_grants:
  assumes "distinct (map fst xs)" "\<forall>k v. (k, v) \<in> set xs \<longrightarrow> map_of (pm_grants m) k = Some v"
    "remove_grants p xs m = (n, m')"
  shows "trims m m' []" "map_of (pm_grants m') k =
    (if \<exists>v. (k, v) \<in> set xs \<and> p v then None else map_of (pm_grants m) k)"
    "pm_activeByRoute m' = pm_activeByRoute m" "n = length (filter (\<lambda>x. p (snd x)) xs)"
proof -
  have "trims m m' [] \<and> (\<forall>k. map_of (pm_grants m') k =
      (if \<exists>v. (k, v) \<in> set xs \<and> p v then None else map_of (pm_grants m) k))
    \<and> pm_activeByRoute m' = pm_activeByRoute m \<and> n = length (filter (\<lambda>x. p (snd x)) xs)"
    using assms
  proof (induction xs arbitrary: m n)
    case (Cons x xs)
    show ?case
    proof (cases "p (snd x)")
      case True
      let ?m = "removeGrantLocked (fst x) (snd x) m"
      from True Cons.prems(3) obtain n' where r: "remove_grants p xs ?m = (n', m')" "n = Suc n'"
        by (auto split: prod.splits)
      have x: "map_of (pm_grants m) (fst x) = Some (snd x)" using Cons.prems(2) by (cases x) simp
      have g: "pm_grants ?m = AList.delete (fst x) (pm_grants m)" "pm_activeByRoute ?m = pm_activeByRoute m"
        by (simp_all add: removeGrantLocked_def)
      have "\<forall>k v. (k, v) \<in> set xs \<longrightarrow> map_of (pm_grants ?m) k = Some v"
        
      proof (intro allI impI)
        fix k v assume kv: "(k, v) \<in> set xs"
        then have "k \<in> fst ` set xs" by (rule image_eqI [rotated]) simp
        with Cons.prems(1) have "k \<noteq> fst x" by (metis distinct.simps(2) list.map(2) set_map)
        with kv Cons.prems(2) show "map_of (pm_grants ?m) k = Some v" by (auto simp: g)
      qed
      with Cons.IH [OF _ this r(1)] Cons.prems(1) g
      have ih: "trims ?m m' []" "\<And>k. map_of (pm_grants m') k =
          (if \<exists>v. (k, v) \<in> set xs \<and> p v then None else map_of (pm_grants ?m) k)"
        "pm_activeByRoute m' = pm_activeByRoute m" "n' = length (filter (\<lambda>x. p (snd x)) xs)" by auto
      show ?thesis
        using trims_trans [OF trims_removeGrant [OF x] ih(1)] ih(2-) True r(2) by (auto simp: g prod_eq_iff)
    next
      case False
      with Cons.prems have p: "remove_grants p xs m = (n, m')" "\<forall>k v. (k, v) \<in> set xs \<longrightarrow> map_of (pm_grants m) k = Some v"
        "distinct (map fst xs)" by auto
      from Cons.IH [OF p(3,2,1)] False show ?thesis by (cases x) auto
    qed
  qed simp
  then show "trims m m' []" "map_of (pm_grants m') k =
    (if \<exists>v. (k, v) \<in> set xs \<and> p v then None else map_of (pm_grants m) k)"
    "pm_activeByRoute m' = pm_activeByRoute m" "n = length (filter (\<lambda>x. p (snd x)) xs)" by blast+
qed

lemma trims_sweep_active:
  assumes "distinct (map fst xs)" "\<forall>i a. (i, a) \<in> set xs \<longrightarrow> look m rid i = Some a"
    "sweep_active p rid xs m = (m', cs)"
  shows "trims m m' cs" "look m' r i =
    (if r = rid \<and> (\<exists>a. (i, a) \<in> set xs \<and> p a) then None else look m r i)" "pm_grants m' = pm_grants m"
proof -
  have "trims m m' cs \<and> (\<forall>r i. look m' r i =
      (if r = rid \<and> (\<exists>a. (i, a) \<in> set xs \<and> p a) then None else look m r i)) \<and> pm_grants m' = pm_grants m"
    using assms
  proof (induction xs arbitrary: m cs)
    case (Cons x xs)
    show ?case
    proof (cases "p (snd x)")
      case True
      let ?m = "drop_active rid (fst x) (snd x) m"
      from True Cons.prems(3) obtain cs' where r: "sweep_active p rid xs ?m = (m', cs')" "cs = aa_cancel (snd x) # cs'"
        by (auto split: prod.splits)
      have x: "look m rid (fst x) = Some (snd x)" using Cons.prems(2) by (cases x) simp
      have l: "look ?m r i = (if r = rid \<and> i = fst x then None else look m r i)" for r i
        by (rule trims_drop_active(2) [OF x])
      have "\<forall>i a. (i, a) \<in> set xs \<longrightarrow> look ?m rid i = Some a" 
      proof (intro allI impI)
        fix i a assume ia: "(i, a) \<in> set xs"
        then have "i \<in> fst ` set xs" by (rule image_eqI [rotated]) simp
        with Cons.prems(1) have "i \<noteq> fst x" by (metis distinct.simps(2) list.map(2) set_map)
        with ia Cons.prems(2) show "look ?m rid i = Some a" by (auto simp: l)
      qed
      with Cons.IH [OF _ this r(1)] Cons.prems(1) l trims_drop_active(3) [OF x]
      have ih: "trims ?m m' cs'" "\<And>r i. look m' r i =
          (if r = rid \<and> (\<exists>a. (i, a) \<in> set xs \<and> p a) then None else look ?m r i)" "pm_grants m' = pm_grants m" by auto
      show ?thesis
        using trims_trans [OF trims_drop_active_one [OF x] ih(1)] ih(2-) True r(2) by (auto simp: l prod_eq_iff)
    next
      case False
      with Cons.prems have p: "sweep_active p rid xs m = (m', cs)" "\<forall>i a. (i, a) \<in> set xs \<longrightarrow> look m rid i = Some a"
        "distinct (map fst xs)" by auto
      from Cons.IH [OF p(3,2,1)] False show ?thesis by (cases x) auto
    qed
  qed simp
  then show "trims m m' cs" "look m' r i =
    (if r = rid \<and> (\<exists>a. (i, a) \<in> set xs \<and> p a) then None else look m r i)" "pm_grants m' = pm_grants m" by blast+
qed

lemma sweep_active_other:
  "sweep_active p rid xs m = (m', cs) \<Longrightarrow> r \<noteq> rid \<Longrightarrow>
    map_of (pm_activeByRoute m') r = map_of (pm_activeByRoute m) r"
  by (induction xs arbitrary: m cs)
     (auto simp: drop_active_def decrementActiveOwnerLocked_def split: if_splits prod.splits)

lemma drop_empty_map:
  "map_of (pm_activeByRoute (drop_empty rid m)) r =
     (if r = rid \<and> active_of (pm_activeByRoute m) rid = [] then None else map_of (pm_activeByRoute m) r)"
  by (simp add: drop_empty_def)

lemma drop_empty_look [simp]: "look (drop_empty rid m) = look m" "pm_grants (drop_empty rid m) = pm_grants m"
  by (auto simp: look_def drop_empty_def fun_eq_iff)

definition no_empty :: "token_manager \<Rightarrow> bool" where
  "no_empty m \<longleftrightarrow> (\<forall>r. map_of (pm_activeByRoute m) r \<noteq> Some [])"

lemma sweep_routes_empty:
  "sweep_routes p xs m = (m', cs) \<Longrightarrow> map_of (pm_activeByRoute m') r = Some [] \<Longrightarrow>
    r \<notin> fst ` set xs \<and> map_of (pm_activeByRoute m) r = Some []"
proof (induction xs arbitrary: m cs)
  case (Cons x xs)
  obtain m1 c1 c2 where s: "sweep_active p (fst x) (snd x) m = (m1, c1)"
    "sweep_routes p xs (drop_empty (fst x) m1) = (m', c2)"
    using Cons.prems(1) by (auto split: prod.splits)
  from Cons.IH [OF s(2)] Cons.prems(2)
  have "r \<notin> fst ` set xs" "map_of (pm_activeByRoute (drop_empty (fst x) m1)) r = Some []" by auto
  with sweep_active_other [OF s(1), of r] show ?case
    by (cases "r = fst x") (auto simp: drop_empty_map active_of_def split: if_splits)
qed simp

lemma trims_sweep_routes:
  assumes "distinct (map fst xs)"
    "\<forall>r a. (r, a) \<in> set xs \<longrightarrow> map_wf a \<and> map_of a = look m r" "sweep_routes p xs m = (m', cs)"
  shows "trims m m' cs" "\<forall>r i a. r \<in> fst ` set xs \<and> look m' r i = Some a \<longrightarrow> \<not> p a" "pm_grants m' = pm_grants m"
proof -
  have "trims m m' cs \<and> (\<forall>r i a. r \<in> fst ` set xs \<and> look m' r i = Some a \<longrightarrow> \<not> p a) \<and> pm_grants m' = pm_grants m"
    using assms
  proof (induction xs arbitrary: m cs)
    case (Cons x xs)
    obtain m1 c1 c2 where s: "sweep_active p (fst x) (snd x) m = (m1, c1)"
      "sweep_routes p xs (drop_empty (fst x) m1) = (m', c2)" "cs = c1 @ c2"
      using Cons.prems(3) by (auto split: prod.splits)
    have x: "map_wf (snd x)" "map_of (snd x) = look m (fst x)"
      using Cons.prems(2) by (metis list.set_intros(1) prod.collapse)+
    then have "distinct (map fst (snd x))" "\<forall>i a. (i, a) \<in> set (snd x) \<longrightarrow> look m (fst x) i = Some a"
      using map_wf_in_set [OF x(1)] by (simp_all add: map_wf_def)
    note one = trims_sweep_active [OF this s(1)]
    have l1: "look m1 r i = (if r = fst x \<and> (\<exists>a. look m r i = Some a \<and> p a) then None else look m r i)" for r i
      using one(2) [of r i] map_wf_in_set [OF x(1)] x(2) by auto
    let ?m = "drop_empty (fst x) m1"
    have pre: "\<forall>r a. (r, a) \<in> set xs \<longrightarrow> map_wf a \<and> map_of a = look ?m r"
    proof (intro allI impI)
      fix r a assume ra: "(r, a) \<in> set xs"
      then have "r \<in> fst ` set xs" by (rule image_eqI [rotated]) simp
      with Cons.prems(1) have "r \<noteq> fst x" by (metis distinct.simps(2) list.map(2) set_map)
      with ra Cons.prems(2) show "map_wf a \<and> map_of a = look ?m r" by (auto simp: l1 fun_eq_iff)
    qed
    have "distinct (map fst xs)" using Cons.prems(1) by simp
    from Cons.IH [OF this pre s(2)]
    have ih: "trims ?m m' c2" "\<forall>r i a. r \<in> fst ` set xs \<and> look m' r i = Some a \<longrightarrow> \<not> p a"
      "pm_grants m' = pm_grants m1" by auto
    have "trims m m' cs"
      using trims_trans [OF trims_trans [OF one(1) trims_drop_empty] ih(1)] s(3) by simp
    moreover have "\<not> p a" if "look m' (fst x) i = Some a" for i a
    proof -
      have "look m1 (fst x) i = Some a" using ih(1) that by (auto simp: trims_def)
      then show ?thesis using l1 [of "fst x" i] by (auto split: if_splits)
    qed
    ultimately show ?case
      using ih(2,3) one(3) by (simp only: list.set image_insert insert_iff drop_empty_look) blast
  qed simp
  then show "trims m m' cs" "\<forall>r i a. r \<in> fst ` set xs \<and> look m' r i = Some a \<longrightarrow> \<not> p a"
    "pm_grants m' = pm_grants m" by blast+
qed

definition mgr_ok :: "token_manager \<Rightarrow> bool" where
  "mgr_ok m \<longleftrightarrow> limits_set m \<and> grants_ok m \<and> active_ok m \<and> no_empty m"

text \<open>The two loops over whole tables.\<close>

lemma remove_grants_all:
  assumes "mgr_ok m" "remove_grants p (pm_grants m) m = (n, m')"
  shows "trims m m' []" "mgr_ok m'" "\<forall>k g. map_of (pm_grants m') k = Some g \<longrightarrow> \<not> p g"
    "pm_activeByRoute m' = pm_activeByRoute m" "n = count_where (\<lambda>_. p) (pm_grants m)"
proof -
  have wf: "map_wf (pm_grants m)" using assms(1) by (simp add: mgr_ok_def grants_ok_def)
  then have "distinct (map fst (pm_grants m))" "\<forall>k v. (k, v) \<in> set (pm_grants m) \<longrightarrow> map_of (pm_grants m) k = Some v"
    using map_wf_in_set [OF wf] by (simp_all add: map_wf_def)
  note r = trims_remove_grants [OF this assms(2)]
  show t: "trims m m' []" and a: "pm_activeByRoute m' = pm_activeByRoute m" by (fact r)+
  show "n = count_where (\<lambda>_. p) (pm_grants m)"
    using r(4) by (simp add: count_where_def case_prod_unfold)
  show "\<forall>k g. map_of (pm_grants m') k = Some g \<longrightarrow> \<not> p g"
    using r(2) map_wf_in_set [OF wf] by (auto split: if_splits)
  show "mgr_ok m'" using assms(1) t a by (auto simp: mgr_ok_def trims_def same_config_def no_empty_def)
qed

lemma sweep_routes_all:
  assumes "mgr_ok m" "sweep_routes p (pm_activeByRoute m) m = (m', cs)"
  shows "trims m m' cs" "mgr_ok m'" "\<forall>r i a. look m' r i = Some a \<longrightarrow> \<not> p a" "pm_grants m' = pm_grants m"
proof -
  have ok: "map_wf (pm_activeByRoute m)" "map_wf (active_of (pm_activeByRoute m) r)" for r
    using assms(1) by (simp_all add: mgr_ok_def active_ok_def)
  have "\<forall>r a. (r, a) \<in> set (pm_activeByRoute m) \<longrightarrow> map_wf a \<and> map_of a = look m r"
    using ok(2) map_wf_in_set [OF ok(1)] by (auto simp: look_def active_of_def fun_eq_iff split: option.splits)
      (metis option.simps(5))
  moreover have "distinct (map fst (pm_activeByRoute m))" using ok(1) by (simp add: map_wf_def)
  ultimately have r: "trims m m' cs" "\<forall>r i a. r \<in> fst ` set (pm_activeByRoute m) \<and> look m' r i = Some a \<longrightarrow> \<not> p a"
    "pm_grants m' = pm_grants m" using trims_sweep_routes [OF _ _ assms(2)] by blast+
  show "trims m m' cs" "pm_grants m' = pm_grants m" by (fact r)+
  show "\<forall>r i a. look m' r i = Some a \<longrightarrow> \<not> p a"
  proof (intro allI impI)
    fix r i a assume l: "look m' r i = Some a"
    with r(1) have "look m r i = Some a" by (auto simp: trims_def)
    then have "r \<in> fst ` set (pm_activeByRoute m)"
      by (auto simp: look_def active_of_def map_of_eq_None_iff split: option.splits) (metis map_of_SomeD image_eqI fst_conv)
    with r(2) l show "\<not> p a" by blast
  qed
  have "no_empty m'" using sweep_routes_empty [OF assms(2)] assms(1) by (auto simp: no_empty_def mgr_ok_def)
  then show "mgr_ok m'" using assms(1) r(1) by (auto simp: mgr_ok_def trims_def same_config_def)
qed

lemma mgr_ok_nextCleanup [simp]: "mgr_ok (m\<lparr>pm_nextCleanup := t\<rparr>) = mgr_ok m"
  by (simp add: mgr_ok_def limits_set_def grants_ok_def active_ok_def no_empty_def)

lemma cleanup_ok:
  assumes "mgr_ok m" "preview_cleanupLocked now m = (m', cs)"
  shows "trims m m' cs" "mgr_ok m'"
proof -
  let ?m = "m\<lparr>pm_nextCleanup := now + previewCleanupInterval\<rparr>"
  obtain n m2 where s: "remove_grants (\<lambda>g. pg_RevokedAt g \<noteq> None \<or> \<not> now < pg_ExpiresAt g) (pm_grants ?m) ?m = (n, m2)"
    "sweep_routes (\<lambda>a. \<not> now < aa_expiresAt a) (pm_activeByRoute m2) m2 = (m', cs)"
    using assms(2) by (auto simp: preview_cleanupLocked_def Let_def split: prod.splits)
  have ok: "mgr_ok ?m" using assms(1) by simp
  note one = remove_grants_all [OF ok s(1)]
  note two = sweep_routes_all [OF one(2) s(2)]
  show "mgr_ok m'" by (fact two(2))
  show "trims m m' cs"
    using trims_trans [OF trims_trans [OF trims_nextCleanup one(1)] two(1)] by simp
qed

lemma maybeCleanup_ok:
  assumes "mgr_ok m" "maybeCleanupLocked now m = (m', cs)"
  shows "trims m m' cs" "mgr_ok m'"
  using assms cleanup_ok [OF assms(1)] by (auto simp: maybeCleanupLocked_def split: if_splits)

subsection \<open>Runs\<close>

datatype preview_event = EvIssued preview_route string time string
  | EvRouteRevoked string
  | EvDeviceRevoked string string

text \<open>
  \<open>preview_reach tr w\<close>: \<open>w\<close> is reached by an interleaving of operations, whose issued tokens and
  revocations are \<open>tr\<close>, latest first. A process authorizes fewer than \<open>2 ^ 64\<close> requests in its life.
\<close>

inductive preview_reach :: "preview_event list \<Rightarrow> preview_world \<Rightarrow> bool" where
  init: "NewTokenManagerWithDependencies hmac pepper rd ck = Inr m \<Longrightarrow>
    preview_reach [] \<lparr>pw_mgr = m, pw_requests = [], pw_pending = []\<rparr>"
| issue: "preview_reach tr w \<Longrightarrow> preview_Issue r dev ttl r16 r32 now w = (res, w') \<Longrightarrow>
    preview_reach (case res of Inl e \<Rightarrow> tr | Inr (tok, exp) \<Rightarrow> EvIssued r dev exp tok # tr) w'"
| validate: "preview_reach tr w \<Longrightarrow> preview_Validate tok rid ow ws port now w = (res, w') \<Longrightarrow> preview_reach tr w'"
| authorize: "preview_reach tr w \<Longrightarrow> preview_Authorize parent tok rid ow ws port now w = (res', w') \<Longrightarrow>
    length (pw_requests w') < 2 ^ 64 \<Longrightarrow> preview_reach tr w'"
| release: "preview_reach tr w \<Longrightarrow> h < length (pw_requests w) \<Longrightarrow> preview_reach tr (preview_Release h w)"
| revoke_route: "preview_reach tr w \<Longrightarrow> preview_RevokeRoute rid now w = (n, w') \<Longrightarrow>
    preview_reach (EvRouteRevoked rid # tr) w'"
| revoke_device: "preview_reach tr w \<Longrightarrow> preview_RevokeDevice ow dev now w = (n, w') \<Longrightarrow>
    preview_reach (EvDeviceRevoked ow dev # tr) w'"
| cancel: "preview_reach tr w \<Longrightarrow> h \<in> set (pw_pending w) \<Longrightarrow> preview_reach tr (cancel_request h w)"

definition grant_of :: "token_manager \<Rightarrow> string \<Rightarrow> preview_route \<Rightarrow> string \<Rightarrow> time \<Rightarrow> string \<Rightarrow> preview_grant" where
  "grant_of m gid r dev exp secret =
     (let g = \<lparr>pg_ID = gid, pg_RouteID = vr_ID r, pg_OwnerID = vr_OwnerID r, pg_DeviceID = dev,
               pg_WorkspaceID = vr_WorkspaceID r, pg_Port = vr_Port r, pg_Hash = [], pg_ExpiresAt = exp,
               pg_RevokedAt = None\<rparr>
      in g\<lparr>pg_Hash := preview_hash m g secret\<rparr>)"

lemma grant_of_simps [simp]:
  "pg_ID (grant_of m gid r dev exp s) = gid" "pg_RouteID (grant_of m gid r dev exp s) = vr_ID r"
  "pg_OwnerID (grant_of m gid r dev exp s) = vr_OwnerID r" "pg_DeviceID (grant_of m gid r dev exp s) = dev"
  "pg_WorkspaceID (grant_of m gid r dev exp s) = vr_WorkspaceID r" "pg_Port (grant_of m gid r dev exp s) = vr_Port r"
  "pg_ExpiresAt (grant_of m gid r dev exp s) = exp" "pg_RevokedAt (grant_of m gid r dev exp s) = None"
  "pg_Hash (grant_of m gid r dev exp s) = preview_hash m (grant_of m gid r dev exp s) s"
  by (simp_all add: grant_of_def Let_def preview_hash_def)

lemma grant_of_cong: "same_config m m' \<Longrightarrow> grant_of m' = grant_of m" "same_config m m' \<Longrightarrow> preview_hash m' = preview_hash m"
  by (simp_all add: same_config_def grant_of_def preview_hash_def fun_eq_iff)

text \<open>The revocations that end a grant.\<close>

definition not_revoked :: "preview_event list \<Rightarrow> preview_route \<Rightarrow> string \<Rightarrow> bool" where
  "not_revoked tr r dev \<longleftrightarrow> EvRouteRevoked (vr_ID r) \<notin> set tr \<and> EvDeviceRevoked (vr_OwnerID r) dev \<notin> set tr"

definition backed :: "preview_event list \<Rightarrow> token_manager \<Rightarrow> bool" where
  "backed tr m \<longleftrightarrow> (\<forall>k g. map_of (pm_grants m) k = Some g \<longrightarrow>
     (\<exists>tr1 r dev exp secret tr2. tr = tr1 @ EvIssued r dev exp (''pv_'' @ k @ ''.'' @ secret) # tr2
        \<and> g = grant_of m k r dev exp secret \<and> not_revoked tr1 r dev
        \<and> vr_ID r \<noteq> [] \<and> vr_OwnerID r \<noteq> [] \<and> dev \<noteq> [] \<and> vr_WorkspaceID r \<noteq> [] \<and> 1024 \<le> vr_Port r))"

definition held_by :: "token_manager \<Rightarrow> preview_request list \<Rightarrow> nat \<Rightarrow> bool" where
  "held_by m qs h \<longleftrightarrow> (\<exists>a. look m (pq_routeID (qs ! h)) (pq_activeID (qs ! h)) = Some a \<and> aa_cancel a = h)"

definition tracked :: "preview_world \<Rightarrow> bool" where
  "tracked w \<longleftrightarrow>
     (\<forall>h < length (pw_requests w). \<not> pq_cancelled (pw_requests w ! h) \<longrightarrow>
        h \<in> set (pw_pending w) \<or> held_by (pw_mgr w) (pw_requests w) h)
     \<and> (\<forall>r i a. look (pw_mgr w) r i = Some a \<longrightarrow> aa_cancel a < length (pw_requests w)
          \<and> pq_routeID (pw_requests w ! aa_cancel a) = r \<and> pq_activeID (pw_requests w ! aa_cancel a) = i)
     \<and> unat (pm_nextActiveID (pw_mgr w)) = length (pw_requests w)
     \<and> (\<forall>h < length (pw_requests w). unat (pq_activeID (pw_requests w ! h)) = Suc h)
     \<and> (\<forall>h \<in> set (pw_pending w). h < length (pw_requests w))"

definition preview_inv :: "preview_event list \<Rightarrow> preview_world \<Rightarrow> bool" where
  "preview_inv tr w \<longleftrightarrow> mgr_ok (pw_mgr w) \<and> tracked w \<and> backed tr (pw_mgr w)"

lemma map_of_subset:
  assumes "map_wf m" "set m' \<subseteq> set m" "map_of m' k = Some v"
  shows "map_of m k = Some v"
  using map_wf_in_set [OF assms(1)] map_of_SomeD [OF assms(3)] assms(2) by blast

lemma backed_trims:
  assumes "trims m m' cs" "mgr_ok m" "backed tr m"
  shows "backed tr m'"
proof -
  have "map_of (pm_grants m) k = Some g" if "map_of (pm_grants m') k = Some g" for k g
    by (rule map_of_subset [OF _ _ that]) (use assms in \<open>auto simp: trims_def mgr_ok_def grants_ok_def\<close>)
  moreover have "grant_of m' = grant_of m" using assms(1) by (simp add: trims_def grant_of_cong)
  ultimately show ?thesis using assms(3) unfolding backed_def by simp
qed

lemma tracked_trims:
  assumes "trims (pw_mgr w) m' cs" "tracked w"
  shows "tracked (hand_over (m', cs) w)"
proof -
  let ?m = "pw_mgr w" and ?qs = "pw_requests w"
  note t = trimsD [OF assms(1)]
  have "h \<in> set (pw_pending w @ cs) \<or> held_by m' ?qs h"
    if "h < length ?qs" "\<not> pq_cancelled (?qs ! h)" for h
  proof -
    from that assms(2) have "h \<in> set (pw_pending w) \<or> held_by ?m ?qs h" unfolding tracked_def by blast
    with t(2) show ?thesis unfolding held_by_def by fastforce
  qed
  moreover have "h < length ?qs" if h: "h \<in> set cs" for h
  proof -
    from t(3) [OF h] obtain r i a where "look ?m r i = Some a" "aa_cancel a = h" by auto
    with assms(2) show ?thesis unfolding tracked_def by blast
  qed
  ultimately show ?thesis
    using assms(2) t(1,6) unfolding tracked_def hand_over_def
    by (simp del: Un_iff) (metis Un_iff)
qed

lemma inv_hand_over:
  assumes "preview_inv tr w" "trims (pw_mgr w) m' cs" "mgr_ok m'"
  shows "preview_inv tr (hand_over (m', cs) w)"
  using assms tracked_trims [OF assms(2)] backed_trims [OF assms(2)]
  by (auto simp: preview_inv_def hand_over_def)

lemma inv_maybeCleanup:
  assumes "preview_inv tr w"
  shows "preview_inv tr (hand_over (maybeCleanupLocked now (pw_mgr w)) w)"
proof -
  obtain m' cs where c: "maybeCleanupLocked now (pw_mgr w) = (m', cs)" by fastforce
  have "mgr_ok (pw_mgr w)" using assms by (simp add: preview_inv_def)
  from inv_hand_over [OF assms maybeCleanup_ok [OF this c]] c show ?thesis by simp
qed

subsection \<open>The operations keep the invariant\<close>

lemma backed_event:
  assumes "backed tr m"
    "\<And>k g r dev. map_of (pm_grants m) k = Some g \<Longrightarrow> pg_RouteID g = vr_ID r \<Longrightarrow> pg_OwnerID g = vr_OwnerID r \<Longrightarrow>
       pg_DeviceID g = dev \<Longrightarrow> vr_OwnerID r \<noteq> [] \<Longrightarrow> dev \<noteq> [] \<Longrightarrow> not_revoked [e] r dev"
  shows "backed (e # tr) m"
  unfolding backed_def
proof (intro allI impI)
  fix k g assume g: "map_of (pm_grants m) k = Some g"
  with assms(1) obtain tr1 r dev exp secret tr2 where b: "tr = tr1 @ EvIssued r dev exp (''pv_'' @ k @ ''.'' @ secret) # tr2"
    "g = grant_of m k r dev exp secret" "not_revoked tr1 r dev" "vr_ID r \<noteq> []" "vr_OwnerID r \<noteq> []" "dev \<noteq> []"
    "vr_WorkspaceID r \<noteq> []" "1024 \<le> vr_Port r"
    unfolding backed_def by blast
  with assms(2) [OF g, of r dev] have "not_revoked (e # tr1) r dev" by (simp add: not_revoked_def)
  with b show "\<exists>tr1 r dev exp secret tr2. e # tr = tr1 @ EvIssued r dev exp (''pv_'' @ k @ ''.'' @ secret) # tr2
      \<and> g = grant_of m k r dev exp secret \<and> not_revoked tr1 r dev
      \<and> vr_ID r \<noteq> [] \<and> vr_OwnerID r \<noteq> [] \<and> dev \<noteq> [] \<and> vr_WorkspaceID r \<noteq> [] \<and> 1024 \<le> vr_Port r"
    by (intro exI [of _ "e # tr1"]) auto
qed

lemma preview_Issue_ok:
  assumes "preview_Issue r dev ttl r16 r32 now w = (Inr (tok, exp), w')"
  obtains b16 b32 where "r16 = Inr b16" "r32 = Inr b32"
    "tok = ''pv_'' @ RawURLEncode b16 @ ''.'' @ RawURLEncode b32" "exp = now + ttl" "0 < ttl" "ttl \<le> pm_maxTTL (pw_mgr w)"
    "vr_ID r \<noteq> []" "vr_OwnerID r \<noteq> []" "dev \<noteq> []" "vr_WorkspaceID r \<noteq> []" "1024 \<le> vr_Port r" "vr_RevokedAt r = None"
    "let w1 = hand_over (maybeCleanupLocked now (pw_mgr w)) w; m = pw_mgr w1; gid = RawURLEncode b16
     in \<not> grantCapacityReachedLocked (vr_OwnerID r) (vr_ID r) m \<and> map_of (pm_grants m) gid = None
       \<and> w' = w1\<lparr>pw_mgr := m\<lparr>
          pm_grants := AList.update gid (grant_of m gid r dev exp (RawURLEncode b32)) (pm_grants m),
          pm_grantsByOwner := AList.update (vr_OwnerID r) (get_count (pm_grantsByOwner m) (vr_OwnerID r) + 1) (pm_grantsByOwner m),
          pm_grantsByRoute := AList.update (vr_ID r) (get_count (pm_grantsByRoute m) (vr_ID r) + 1) (pm_grantsByRoute m)\<rparr>\<rparr>"
  using assms that
  by (auto simp: preview_Issue_def preview_randomPart_def grant_of_def Let_def not_less split: if_splits sum.splits)

lemma preview_Issue_err:
  assumes "preview_Issue r dev ttl r16 r32 now w = (Inl e, w')"
  shows "w' = w \<or> w' = hand_over (maybeCleanupLocked now (pw_mgr w)) w"
  using assms by (auto simp: preview_Issue_def Let_def split: if_splits sum.splits)

lemma grants_ok_insert:
  assumes "grants_ok m" "map_of (pm_grants m) k = None" "limits_set m"
    "\<not> grantCapacityReachedLocked (pg_OwnerID g) (pg_RouteID g) m"
  shows "grants_ok (m\<lparr>pm_grants := AList.update k g (pm_grants m),
    pm_grantsByOwner := AList.update (pg_OwnerID g) (get_count (pm_grantsByOwner m) (pg_OwnerID g) + 1) (pm_grantsByOwner m),
    pm_grantsByRoute := AList.update (pg_RouteID g) (get_count (pm_grantsByRoute m) (pg_RouteID g) + 1) (pm_grantsByRoute m)\<rparr>)"
proof -
  have wf: "map_wf (pm_grants m)" using assms(1) by (simp add: grants_ok_def)
  have c: "count_where (\<lambda>_ u. f u = x) (AList.update k g (pm_grants m)) =
      (if x = f g then Suc (count_where (\<lambda>_ u. f u = x) (pm_grants m)) else count_where (\<lambda>_ u. f u = x) (pm_grants m))"
    for f :: "preview_grant \<Rightarrow> string" and x
    using count_insert [OF wf assms(2), of "\<lambda>_ u. f u = x" g] by auto
  have "counters_hold (pm_grantsByOwner m) (\<lambda>x. count_where (\<lambda>_ g. pg_OwnerID g = x) (pm_grants m))"
    "counters_hold (pm_grantsByRoute m) (\<lambda>x. count_where (\<lambda>_ g. pg_RouteID g = x) (pm_grants m))"
    using assms(1) by (simp_all add: grants_ok_def)
  note t = this counters_hold_get [OF this(1)] counters_hold_get [OF this(2)]
  have "bounded (AList.update k g (pm_grants m)) (\<lambda>_. ()) 4096" "bounded (AList.update k g (pm_grants m)) pg_OwnerID 1024"
    "bounded (AList.update k g (pm_grants m)) pg_RouteID 128"
    using assms(1,3,4) t(3,4) length_as_count [of "pm_grants m"]
    by (auto intro!: bounded_update simp: grants_ok_def grantCapacityReachedLocked_def limits_set_def)
  then show ?thesis
    using wf t(1,2) by (auto simp: grants_ok_def c intro!: counters_hold_inc)
qed

lemma preview_inv_Issue:
  assumes "preview_inv tr w" "preview_Issue r dev ttl r16 r32 now w = (res, w')"
  shows "preview_inv (case res of Inl e \<Rightarrow> tr | Inr (tok, exp) \<Rightarrow> EvIssued r dev exp tok # tr) w'"
proof (cases res)
  case (Inl e)
  with preview_Issue_err [of r dev ttl r16 r32 now w e w'] assms inv_maybeCleanup [OF assms(1), of now] show ?thesis by auto
next
  case (Inr te)
  obtain tok exp where te: "te = (tok, exp)" by fastforce
  let ?w1 = "hand_over (maybeCleanupLocked now (pw_mgr w)) w"
  let ?m = "pw_mgr ?w1"
  from assms(2) Inr te have "preview_Issue r dev ttl r16 r32 now w = (Inr (tok, exp), w')" by simp
  then obtain b16 b32 where i: "tok = ''pv_'' @ RawURLEncode b16 @ ''.'' @ RawURLEncode b32"
    "vr_ID r \<noteq> []" "vr_OwnerID r \<noteq> []" "dev \<noteq> []" "vr_WorkspaceID r \<noteq> []" "1024 \<le> vr_Port r"
    "\<not> grantCapacityReachedLocked (vr_OwnerID r) (vr_ID r) ?m" "map_of (pm_grants ?m) (RawURLEncode b16) = None"
    "w' = ?w1\<lparr>pw_mgr := ?m\<lparr>
          pm_grants := AList.update (RawURLEncode b16) (grant_of ?m (RawURLEncode b16) r dev exp (RawURLEncode b32)) (pm_grants ?m),
          pm_grantsByOwner := AList.update (vr_OwnerID r) (get_count (pm_grantsByOwner ?m) (vr_OwnerID r) + 1) (pm_grantsByOwner ?m),
          pm_grantsByRoute := AList.update (vr_ID r) (get_count (pm_grantsByRoute ?m) (vr_ID r) + 1) (pm_grantsByRoute ?m)\<rparr>\<rparr>"
    by (rule preview_Issue_ok) (simp only: Let_def, blast)
  let ?g = "grant_of ?m (RawURLEncode b16) r dev exp (RawURLEncode b32)"
  have inv: "mgr_ok ?m" "tracked ?w1" "backed tr ?m"
    using inv_maybeCleanup [OF assms(1), of now] by (simp_all add: preview_inv_def)
  have "grants_ok (pw_mgr w')"
    using grants_ok_insert [of ?m "RawURLEncode b16" ?g] inv(1) i(7,8) by (simp add: mgr_ok_def i(9))
  then have ok: "mgr_ok (pw_mgr w')"
    using inv(1) by (simp add: mgr_ok_def i(9) limits_set_def active_ok_def no_empty_def)
  have look: "look (pw_mgr w') = look ?m" by (simp add: i(9) look_def fun_eq_iff)
  then have tr: "tracked w'" using inv(2) by (simp add: tracked_def held_by_def i(9))
  have cfg: "grant_of (pw_mgr w') = grant_of ?m"
    by (rule grant_of_cong) (simp add: same_config_def i(9) limits_set_def)
  have "backed (EvIssued r dev exp tok # tr) ?m"
    by (rule backed_event [OF inv(3)]) (simp add: not_revoked_def)
  then have "backed (EvIssued r dev exp tok # tr) (pw_mgr w')"
    unfolding backed_def cfg
  proof (intro allI impI, goal_cases)
    case (1 k g)
    show ?case
    proof (cases "k = RawURLEncode b16")
      case True
      with 1(2) have "g = ?g" by (simp add: i(9))
      with True i(1-6) have "EvIssued r dev exp tok # tr = [] @ EvIssued r dev exp (''pv_'' @ k @ ''.'' @ RawURLEncode b32) # tr
        \<and> g = grant_of ?m k r dev exp (RawURLEncode b32) \<and> not_revoked [] r dev
        \<and> vr_ID r \<noteq> [] \<and> vr_OwnerID r \<noteq> [] \<and> dev \<noteq> [] \<and> vr_WorkspaceID r \<noteq> [] \<and> 1024 \<le> vr_Port r"
        by (simp add: not_revoked_def)
      then show ?thesis by blast
    next
      case False
      with 1 show ?thesis by (simp add: i(9))
    qed
  qed
  with ok tr Inr te show ?thesis by (simp add: preview_inv_def)
qed

lemma preview_inv_Validate:
  assumes "preview_inv tr w" "preview_Validate tok rid ow ws port now w = (res, w')"
  shows "preview_inv tr w'"
proof -
  have "w' = w \<or> w' = hand_over (maybeCleanupLocked now (pw_mgr w)) w"
    using assms(2) by (auto simp: preview_Validate_def Let_def split: sum.splits)
  then show ?thesis using assms(1) inv_maybeCleanup [OF assms(1)] by auto
qed

lemma preview_Authorize_ok:
  assumes "preview_Authorize parent tok rid ow ws port now w = (Inr h, w')"
  obtains gid secret g where "preview_parse tok = Inr (gid, secret)"
    "let w1 = hand_over (maybeCleanupLocked now (pw_mgr w)) w; m = pw_mgr w1;
         active = active_of (pm_activeByRoute m) rid;
         aid = (if pm_nextActiveID m + 1 = 0 then pm_nextActiveID m + 1 + 1 else pm_nextActiveID m + 1)
     in validateLocked gid secret rid ow ws port now m = Inr g \<and> \<not> activeCapacityReachedLocked ow active m
        \<and> now < pg_ExpiresAt g \<and> h = length (pw_requests w1)
        \<and> w' = w1\<lparr>pw_requests := pw_requests w1 @
             [\<lparr>pq_routeID = rid, pq_activeID = aid, pq_timeout = pg_ExpiresAt g - now, pq_once = False, pq_cancelled = False\<rparr>],
           pw_mgr := m\<lparr>pm_nextActiveID := aid,
             pm_activeByRoute := AList.update rid
               (AList.update aid \<lparr>aa_ownerID = ow, aa_deviceID = pg_DeviceID g,
                  aa_expiresAt = pg_ExpiresAt g, aa_cancel = h\<rparr> active) (pm_activeByRoute m),
             pm_activeCount := pm_activeCount m + 1,
             pm_activeByOwner := AList.update ow (get_count (pm_activeByOwner m) ow + 1) (pm_activeByOwner m)\<rparr>\<rparr>"
proof -
  let ?w1 = "hand_over (maybeCleanupLocked now (pw_mgr w)) w"
  from assms obtain gid secret where p: "parent = Some None" "preview_parse tok = Inr (gid, secret)"
    by (cases parent rule: option.exhaust; cases "the parent"; cases "preview_parse tok")
       (auto simp: preview_Authorize_def)
  note a = assms [unfolded preview_Authorize_def p option.case sum.case prod.case Let_def]
  from a obtain g where g: "validateLocked gid secret rid ow ws port now (pw_mgr ?w1) = Inr g"
    by (cases "validateLocked gid secret rid ow ws port now (pw_mgr ?w1)") simp_all
  show ?thesis
    by (rule that [OF p(2), of g]) (use a in \<open>auto simp: g Let_def not_le split: if_splits\<close>)
qed

lemma preview_Authorize_err:
  assumes "preview_Authorize parent tok rid ow ws port now w = (Inl e, w')"
  shows "w' = w \<or> w' = hand_over (maybeCleanupLocked now (pw_mgr w)) w"
  using assms
  by (auto simp: preview_Authorize_def Let_def split: if_splits sum.splits option.splits prod.splits)

lemma active_ok_insert:
  assumes "active_ok m" "look m rid aid = None" "limits_set m"
    "\<not> activeCapacityReachedLocked (aa_ownerID a) (active_of (pm_activeByRoute m) rid) m"
  shows "active_ok (m\<lparr>pm_nextActiveID := nx,
    pm_activeByRoute := AList.update rid (AList.update aid a (active_of (pm_activeByRoute m) rid)) (pm_activeByRoute m),
    pm_activeCount := pm_activeCount m + 1,
    pm_activeByOwner := AList.update (aa_ownerID a) (get_count (pm_activeByOwner m) (aa_ownerID a) + 1) (pm_activeByOwner m)\<rparr>)"
proof -
  let ?t = "pm_activeByRoute m" and ?a = "active_of (pm_activeByRoute m) rid"
  let ?t' = "AList.update rid (AList.update aid a ?a) ?t"
  have wf: "map_wf ?t" "map_wf (active_of ?t r)" for r using assms(1) by (simp_all add: active_ok_def)
  have new: "count_where p (AList.update aid a ?a) = count_where p ?a + (if p aid a then 1 else 0)" for p
    by (rule count_insert) (use wf assms(2) in \<open>simp_all add: look_def\<close>)
  have c: "act_count p ?t' = act_count p ?t + (if p a then 1 else 0)" for p
    using act_count_update [OF wf(1), of p rid "AList.update aid a ?a"] by (auto simp: new split: if_splits)
  have own: "counters_hold (pm_activeByOwner m) (\<lambda>x. act_count (\<lambda>b. aa_ownerID b = x) ?t)"
    using assms(1) by (simp add: active_ok_def)
  have lim: "act_count (\<lambda>_. True) ?t < 1024" "act_count (\<lambda>b. aa_ownerID b = aa_ownerID a) ?t < 256" "length ?a < 64"
    using assms(1,3,4) counters_hold_get [OF own, of "aa_ownerID a"]
    by (auto simp: activeCapacityReachedLocked_def limits_set_def active_ok_def)
  have len: "length (AList.update aid a ?a) = Suc (length ?a)"
    using new [of "\<lambda>_ _. True"] by (simp add: length_as_count)
  have "counters_hold (AList.update (aa_ownerID a) (get_count (pm_activeByOwner m) (aa_ownerID a) + 1) (pm_activeByOwner m))
      (\<lambda>x. act_count (\<lambda>b. aa_ownerID b = x) ?t')"
    by (rule counters_hold_inc [OF own]) (simp add: c)
  moreover have "act_count (\<lambda>b. aa_ownerID b = x) ?t' \<le> 256" for x
    using lim(2) assms(1) by (auto simp: c active_ok_def)
  moreover have "map_wf ?t'" "map_wf (active_of ?t' r)" for r using wf by simp_all
  moreover have "length (active_of ?t' r) \<le> 64" for r using lim(3) len assms(1) by (simp add: active_ok_def)
  moreover have "act_count (\<lambda>_. True) ?t' \<le> 1024" "pm_activeCount m + 1 = int (act_count (\<lambda>_. True) ?t')"
    using lim(1) assms(1) by (simp_all add: c active_ok_def)
  ultimately show ?thesis unfolding active_ok_def by simp
qed

lemma inv_Authorize:
  assumes "preview_inv tr w" "preview_Authorize parent tok rid ow ws port now w = (res, w')"
    "length (pw_requests w') < 2 ^ 64"
  shows "preview_inv tr w'"
proof (cases res)
  case (Inl e)
  with preview_Authorize_err [of parent tok rid ow ws port now w e w'] assms inv_maybeCleanup [OF assms(1), of now]
  show ?thesis by auto
next
  case (Inr h)
  define w1 where "w1 = hand_over (maybeCleanupLocked now (pw_mgr w)) w"
  define m where "m = pw_mgr w1"
  define aid where "aid = (if pm_nextActiveID m + 1 = 0 then pm_nextActiveID m + 1 + 1 else pm_nextActiveID m + 1)"
  from assms(2) Inr have au: "preview_Authorize parent tok rid ow ws port now w = (Inr h, w')" by simp
  obtain g :: preview_grant where i: "\<not> activeCapacityReachedLocked ow (active_of (pm_activeByRoute m) rid) m"
    "h = length (pw_requests w1)"
    "w' = w1\<lparr>pw_requests := pw_requests w1 @
             [\<lparr>pq_routeID = rid, pq_activeID = aid, pq_timeout = pg_ExpiresAt g - now, pq_once = False, pq_cancelled = False\<rparr>],
           pw_mgr := m\<lparr>pm_nextActiveID := aid,
             pm_activeByRoute := AList.update rid
               (AList.update aid \<lparr>aa_ownerID = ow, aa_deviceID = pg_DeviceID g,
                  aa_expiresAt = pg_ExpiresAt g, aa_cancel = h\<rparr> (active_of (pm_activeByRoute m) rid)) (pm_activeByRoute m),
             pm_activeCount := pm_activeCount m + 1,
             pm_activeByOwner := AList.update ow (get_count (pm_activeByOwner m) ow + 1) (pm_activeByOwner m)\<rparr>\<rparr>"
    by (rule preview_Authorize_ok [OF au, unfolded Let_def, folded w1_def, folded m_def, folded aid_def])
      blast
  let ?a = "\<lparr>aa_ownerID = ow, aa_deviceID = pg_DeviceID g, aa_expiresAt = pg_ExpiresAt g, aa_cancel = h\<rparr>"
  have inv: "mgr_ok m" "tracked w1" "backed tr m"
    using inv_maybeCleanup [OF assms(1), of now] by (simp_all add: preview_inv_def m_def w1_def)
  let ?qs = "pw_requests w1"
  have nx: "unat (pm_nextActiveID m) = length ?qs" using inv(2) by (simp add: tracked_def m_def)
  have "Suc (length ?qs) < 2 ^ 64" using assms(3) i(3) by simp
  then have "unat (pm_nextActiveID m + 1) = Suc (length ?qs)"
    using nx by (simp add: unat_word_ariths)
  then have aid: "unat aid = Suc (length ?qs)" unfolding aid_def by (auto simp: unat_eq_0)
  have old: "look m r j = Some a \<Longrightarrow> aa_cancel a < length ?qs \<and> pq_routeID (?qs ! aa_cancel a) = r
      \<and> pq_activeID (?qs ! aa_cancel a) = j \<and> unat j = Suc (aa_cancel a)" for r j a
  proof -
    assume l: "look m r j = Some a"
    with inv(2) have "aa_cancel a < length ?qs" "pq_routeID (?qs ! aa_cancel a) = r" "pq_activeID (?qs ! aa_cancel a) = j"
      by (auto simp: tracked_def m_def)
    moreover from this(1) inv(2) have "unat (pq_activeID (?qs ! aa_cancel a)) = Suc (aa_cancel a)"
      by (auto simp: tracked_def)
    ultimately show ?thesis by simp
  qed
  have fresh: "look m r aid = None" for r
    using old [of r aid] aid by (cases "look m r aid") auto
  have "active_ok (pw_mgr w')"
    using active_ok_insert [of m rid aid ?a aid] inv(1) fresh i(1) by (simp add: mgr_ok_def i(3))
  moreover have "AList.update aid ?a (active_of (pm_activeByRoute m) rid) \<noteq> []"
    by (cases "active_of (pm_activeByRoute m) rid") (auto split: prod.splits)
  ultimately have ok: "mgr_ok (pw_mgr w')"
    using inv(1) by (auto simp: mgr_ok_def i(3) limits_set_def grants_ok_def no_empty_def)
  have look: "look (pw_mgr w') r j = (if r = rid \<and> j = aid then Some ?a else look m r j)" for r j
    by (simp add: look_def i(3))
  have qs: "pw_requests w' = ?qs @ [\<lparr>pq_routeID = rid, pq_activeID = aid, pq_timeout = pg_ExpiresAt g - now,
      pq_once = False, pq_cancelled = False\<rparr>]" by (simp add: i(3))
  have keep: "held_by (pw_mgr w') (pw_requests w') h'" if "h' < length ?qs" "held_by m ?qs h'" for h'
    using that fresh by (auto simp: held_by_def look qs nth_append)
  have pend: "pw_pending w' = pw_pending w1" by (simp add: i(3))
  have t1: "h' \<in> set (pw_pending w') \<or> held_by (pw_mgr w') (pw_requests w') h'"
    if h': "h' < length (pw_requests w')" "\<not> pq_cancelled (pw_requests w' ! h')" for h'
  proof (cases "h' = h")
    case True
    then show ?thesis by (simp add: held_by_def look qs i(2))
  next
    case False
    with h' i(2) have "h' < length ?qs" "\<not> pq_cancelled (?qs ! h')" by (auto simp: qs nth_append)
    with inv(2) keep show ?thesis unfolding pend tracked_def m_def by blast
  qed
  have t2: "aa_cancel a < length (pw_requests w') \<and> pq_routeID (pw_requests w' ! aa_cancel a) = r
      \<and> pq_activeID (pw_requests w' ! aa_cancel a) = j" if "look (pw_mgr w') r j = Some a" for r j a
  proof (cases "r = rid \<and> j = aid")
    case True
    with that have "a = ?a" by (simp add: look)
    with True i(2) show ?thesis by (simp add: qs)
  next
    case False
    with that have "look m r j = Some a" by (simp add: look)
    from old [OF this] show ?thesis by (simp add: qs nth_append)
  qed
  have "unat (pq_activeID (pw_requests w' ! h')) = Suc h'" if "h' < length (pw_requests w')" for h'
    using that inv(2) aid by (auto simp: qs nth_append tracked_def less_Suc_eq)
  moreover have "unat (pm_nextActiveID (pw_mgr w')) = length (pw_requests w')" using aid by (simp add: i(3))
  moreover have "\<forall>h \<in> set (pw_pending w'). h < length (pw_requests w')"
    using inv(2) by (auto simp: pend qs tracked_def)
  ultimately have tr: "tracked w'" using t1 t2 unfolding tracked_def by blast
  have "grant_of (pw_mgr w') = grant_of m" by (simp add: grant_of_def preview_hash_def i(3) fun_eq_iff)
  then have "backed tr (pw_mgr w')" using inv(3) by (simp add: backed_def i(3))
  with ok tr show ?thesis by (simp add: preview_inv_def)
qed

lemma nth_list_update_field:
  "h < length qs \<Longrightarrow> qs[h := f (qs ! h)] ! j = (if j = h then f (qs ! h) else qs ! j)"
  by (simp add: nth_list_update)

lemma tracked_once:
  assumes "tracked w" "h < length (pw_requests w)"
  shows "tracked (w\<lparr>pw_requests := (pw_requests w)[h := (pw_requests w ! h)\<lparr>pq_once := True\<rparr>]\<rparr>)"
  using assms by (auto simp: tracked_def held_by_def nth_list_update)

lemma tracked_cancel:
  assumes "tracked w" "h < length (pw_requests w)"
  shows "tracked (cancel_request h w)"
  using assms unfolding tracked_def cancel_request_def
  by (auto simp: held_by_def nth_list_update dest: notin_set_remove1)

lemma inv_Release:
  assumes "preview_inv tr w" "h < length (pw_requests w)"
  shows "preview_inv tr (preview_Release h w)"
proof (cases "pq_once (pw_requests w ! h)")
  case False
  let ?q = "pw_requests w ! h" and ?m = "pw_mgr w"
  let ?w = "w\<lparr>pw_requests := (pw_requests w)[h := ?q\<lparr>pq_once := True\<rparr>]\<rparr>"
  have inv: "preview_inv tr ?w" "tracked w" "mgr_ok ?m"
    using assms tracked_once by (auto simp: preview_inv_def)
  show ?thesis
  proof (cases "look ?m (pq_routeID ?q) (pq_activeID ?q)")
    case None
    with False have r: "preview_Release h w = ?w\<lparr>pw_pending := pw_pending w @ [h]\<rparr>"
      by (simp add: preview_Release_def look_def Let_def)
    have "tracked (?w\<lparr>pw_pending := pw_pending w @ [h]\<rparr>)"
      using tracked_once [OF inv(2) assms(2)] assms(2) by (auto simp: tracked_def)
    with inv(1) show ?thesis by (simp add: r preview_inv_def)
  next
    case (Some a)
    let ?d = "drop_active (pq_routeID ?q) (pq_activeID ?q) a ?m"
    note tr = inv(2) [unfolded tracked_def]
    have "aa_cancel a < length (pw_requests w)" "pq_activeID (pw_requests w ! aa_cancel a) = pq_activeID ?q"
      using tr Some by blast+
    moreover have ids: "\<forall>h < length (pw_requests w). unat (pq_activeID (pw_requests w ! h)) = Suc h"
      using tr by (elim conjE)
    ultimately have "Suc (aa_cancel a) = Suc h" using ids assms(2) by (metis (no_types))
    then have a: "aa_cancel a = h" by simp
    have t: "trims ?m (drop_empty (pq_routeID ?q) ?d) [h]"
      using trims_trans [OF trims_drop_active_one [OF Some] trims_drop_empty] a by simp
    have "no_empty (drop_empty (pq_routeID ?q) ?d)"
      using inv(3) by (auto simp: no_empty_def mgr_ok_def drop_empty_map drop_active_def decrementActiveOwnerLocked_def
          split: if_splits)
    then have "mgr_ok (drop_empty (pq_routeID ?q) ?d)"
      using t inv(3) by (auto simp: mgr_ok_def trims_def same_config_def)
    moreover have "preview_Release h w = hand_over (drop_empty (pq_routeID ?q) ?d, [h]) ?w"
      using False Some by (simp add: preview_Release_def look_def Let_def hand_over_def)
    ultimately show ?thesis using inv_hand_over [OF inv(1), of _ "[h]"] t by simp
  qed
qed (use assms in \<open>simp add: preview_Release_def\<close>)

lemma drop_owners_fields:
  "pm_grants (drop_owners xs m) = pm_grants m" "pm_activeByRoute (drop_owners xs m) = pm_activeByRoute m"
  "pm_activeCount (drop_owners xs m) = pm_activeCount m - int (length xs)"
  "same_config m (drop_owners xs m)" "pm_grantsByOwner (drop_owners xs m) = pm_grantsByOwner m"
  "pm_grantsByRoute (drop_owners xs m) = pm_grantsByRoute m"
  by (induction xs arbitrary: m) (simp_all add: decrementActiveOwnerLocked_def same_config_def limits_set_def)

lemma drop_owners_count:
  "counters_hold (pm_activeByOwner m) (\<lambda>x. count_where (\<lambda>_ a. aa_ownerID a = x) xs + g x) \<Longrightarrow>
    counters_hold (pm_activeByOwner (drop_owners xs m)) g"
proof (induction xs arbitrary: m)
  case (Cons x xs)
  have "counters_hold (count_dec (aa_ownerID (snd x)) (pm_activeByOwner m))
      (\<lambda>y. count_where (\<lambda>_ a. aa_ownerID a = y) xs + g y)"
    by (rule counters_hold_dec [OF Cons.prems]) (cases x, simp)
  then show ?case using Cons.IH by (simp add: decrementActiveOwnerLocked_def)
qed simp

lemma drop_route_ok:
  fixes rid :: string
  assumes "mgr_ok m"
  defines "m' \<equiv> drop_owners (active_of (pm_activeByRoute m) rid) (m\<lparr>pm_activeByRoute := AList.delete rid (pm_activeByRoute m)\<rparr>)"
  shows "mgr_ok m'" "trims m m' (map (\<lambda>x. aa_cancel (snd x)) (active_of (pm_activeByRoute m) rid))"
    "pm_grants m' = pm_grants m" "look m' r i = (if r = rid then None else look m r i)"
proof -
  let ?t = "pm_activeByRoute m" and ?a = "active_of (pm_activeByRoute m) rid"
  let ?m = "m\<lparr>pm_activeByRoute := AList.delete rid ?t\<rparr>"
  have wf: "map_wf ?t" "map_wf ?a" using assms(1) by (simp_all add: mgr_ok_def active_ok_def)
  have cnt: "act_count p (AList.delete rid ?t) + count_where (\<lambda>_. p) ?a = act_count p ?t" for p
    by (rule act_count_delete [OF wf(1)])
  have f: "pm_grants m' = pm_grants m" "pm_activeByRoute m' = AList.delete rid ?t"
    "pm_activeCount m' = pm_activeCount m - int (length ?a)"
    by (simp_all add: m'_def drop_owners_fields)
  have cfg: "same_config m m'"
    using drop_owners_fields(4) [of ?m ?a] by (simp add: m'_def same_config_def limits_set_def)
  have g: "grants_ok m'" using assms(1) by (simp add: m'_def drop_owners_fields mgr_ok_def grants_ok_def)
  have "counters_hold (pm_activeByOwner m') (\<lambda>x. act_count (\<lambda>b. aa_ownerID b = x) (AList.delete rid ?t))"
    unfolding m'_def
    by (rule drop_owners_count) (use assms(1) cnt in \<open>simp add: mgr_ok_def active_ok_def add.commute\<close>)
  moreover have "pm_activeCount m' = int (act_count (\<lambda>_. True) (AList.delete rid ?t))"
    using cnt [of "\<lambda>_. True"] assms(1) by (simp add: f mgr_ok_def active_ok_def length_as_count)
  moreover have "act_count p (AList.delete rid ?t) \<le> act_count p ?t" for p using cnt [of p] by simp
  ultimately have a: "active_ok m'"
    using assms(1) unfolding active_ok_def mgr_ok_def f by (auto intro: order.trans)
  have "no_empty m'" using assms(1) by (simp add: no_empty_def mgr_ok_def f)
  with a g cfg show ok: "mgr_ok m'" using assms(1) by (auto simp: mgr_ok_def same_config_def)
  show l: "look m' r i = (if r = rid then None else look m r i)" for r i by (simp add: look_def f)
  have c: "aa_cancel a \<in> aa_cancel ` snd ` set ?a" if "look m rid i = Some a" for i a
    using map_of_SomeD [of ?a i a] that by (force simp: look_def)
  have d: "\<exists>i. look m rid i = Some a" if "(i, a) \<in> set ?a" for i a
    using that map_wf_in_set [OF wf(2)] by (auto simp: look_def)
  show "trims m m' (map (\<lambda>x. aa_cancel (snd x)) ?a)"
    using cfg g a c unfolding trims_def l f by (auto simp: image_image split: if_splits) (metis d)
  show "pm_grants m' = pm_grants m" by (rule f)
qed

text \<open>Nothing of a revoked route is left, and what was removed is in the hands of the caller.\<close>

lemma RevokeRoute_ok:
  assumes "mgr_ok (pw_mgr w)" "preview_RevokeRoute rid now w = (n, w')"
  obtains m' cs where "w' = hand_over (m', cs) w" "trims (pw_mgr w) m' cs" "mgr_ok m'"
    "\<forall>k g. map_of (pm_grants m') k = Some g \<longrightarrow> pg_RouteID g \<noteq> rid" "\<forall>i. look m' rid i = None"
proof -
  obtain m1 cs where c: "preview_cleanupLocked now (pw_mgr w) = (m1, cs)" by fastforce
  obtain k m2 where g: "remove_grants (\<lambda>g. pg_RouteID g = rid) (pm_grants m1) m1 = (k, m2)" by fastforce
  note one = cleanup_ok [OF assms(1) c]
  note two = remove_grants_all [OF one(2) g]
  let ?a = "active_of (pm_activeByRoute m2) rid"
  let ?m = "drop_owners ?a (m2\<lparr>pm_activeByRoute := AList.delete rid (pm_activeByRoute m2)\<rparr>)"
  note three = drop_route_ok [OF two(2), of rid]
  have "trims (pw_mgr w) ?m (cs @ map (\<lambda>x. aa_cancel (snd x)) ?a)"
    using trims_trans [OF trims_trans [OF one(1) two(1)] three(2)] by simp
  moreover have "w' = hand_over (?m, cs @ map (\<lambda>x. aa_cancel (snd x)) ?a) w"
    using assms(2) by (simp add: preview_RevokeRoute_def c g Let_def)
  ultimately show ?thesis using that three(1,3,4) two(3) by simp
qed

lemma RevokeDevice_ok:
  assumes "mgr_ok (pw_mgr w)" "preview_RevokeDevice ow dev now w = (n, w')" "ow \<noteq> []" "dev \<noteq> []"
  obtains m' cs where "w' = hand_over (m', cs) w" "trims (pw_mgr w) m' cs" "mgr_ok m'"
    "\<forall>k g. map_of (pm_grants m') k = Some g \<longrightarrow> \<not> (pg_OwnerID g = ow \<and> pg_DeviceID g = dev)"
    "\<forall>r i a. look m' r i = Some a \<longrightarrow> \<not> (aa_ownerID a = ow \<and> aa_deviceID a = dev)"
proof -
  obtain m1 cs where c: "preview_cleanupLocked now (pw_mgr w) = (m1, cs)" by fastforce
  obtain k m2 where g: "remove_grants (\<lambda>g. pg_OwnerID g = ow \<and> pg_DeviceID g = dev) (pm_grants m1) m1 = (k, m2)"
    by fastforce
  obtain m3 cs' where s: "sweep_routes (\<lambda>a. \<not> (aa_ownerID a \<noteq> ow \<or> aa_deviceID a \<noteq> dev)) (pm_activeByRoute m2) m2 = (m3, cs')"
    by fastforce
  note one = cleanup_ok [OF assms(1) c]
  note two = remove_grants_all [OF one(2) g]
  note three = sweep_routes_all [OF two(2) s]
  have "trims (pw_mgr w) m3 (cs @ cs')" using trims_trans [OF trims_trans [OF one(1) two(1)] three(1)] by simp
  moreover have "w' = hand_over (m3, cs @ cs') w"
    using assms(2-4) by (simp add: preview_RevokeDevice_def c g s [simplified] Let_def)
  ultimately show ?thesis using that three(2-4) two(3) by simp
qed

lemma inv_event:
  assumes "preview_inv tr w"
    "\<And>k g r dev. map_of (pm_grants (pw_mgr w)) k = Some g \<Longrightarrow> pg_RouteID g = vr_ID r \<Longrightarrow> pg_OwnerID g = vr_OwnerID r \<Longrightarrow>
       pg_DeviceID g = dev \<Longrightarrow> vr_OwnerID r \<noteq> [] \<Longrightarrow> dev \<noteq> [] \<Longrightarrow> not_revoked [e] r dev"
  shows "preview_inv (e # tr) w"
  using assms(1) backed_event [of tr "pw_mgr w" e] assms(2) by (simp add: preview_inv_def)

lemma inv_RevokeRoute:
  assumes "preview_inv tr w" "preview_RevokeRoute rid now w = (n, w')"
  shows "preview_inv (EvRouteRevoked rid # tr) w'"
proof -
  have "mgr_ok (pw_mgr w)" using assms(1) by (simp add: preview_inv_def)
  from RevokeRoute_ok [OF this assms(2)] obtain m' cs where r: "w' = hand_over (m', cs) w" "trims (pw_mgr w) m' cs"
    "mgr_ok m'" "\<forall>k g. map_of (pm_grants m') k = Some g \<longrightarrow> pg_RouteID g \<noteq> rid" by blast
  show ?thesis
    by (rule inv_event) (use inv_hand_over [OF assms(1) r(2,3)] r(1,4) in
      \<open>auto simp: not_revoked_def hand_over_def\<close>)
qed

lemma inv_RevokeDevice:
  assumes "preview_inv tr w" "preview_RevokeDevice ow dev now w = (n, w')"
  shows "preview_inv (EvDeviceRevoked ow dev # tr) w'"
proof (cases "ow = [] \<or> dev = []")
  case True
  with assms(2) have "w' = w" by (auto simp: preview_RevokeDevice_def)
  with True show ?thesis by (auto intro!: inv_event assms(1) simp: not_revoked_def)
next
  case False
  have "mgr_ok (pw_mgr w)" using assms(1) by (simp add: preview_inv_def)
  with False assms(2) obtain m' cs where r: "w' = hand_over (m', cs) w" "trims (pw_mgr w) m' cs"
    "mgr_ok m'" "\<forall>k g. map_of (pm_grants m') k = Some g \<longrightarrow> \<not> (pg_OwnerID g = ow \<and> pg_DeviceID g = dev)"
    using RevokeDevice_ok by metis
  show ?thesis
    by (rule inv_event) (use inv_hand_over [OF assms(1) r(2,3)] r(1,4) in
      \<open>auto simp: not_revoked_def hand_over_def\<close>)
qed

lemma reach_inv: "preview_reach tr w \<Longrightarrow> preview_inv tr w"
proof (induction rule: preview_reach.induct)
  case (init hmac pepper rd ck m)
  then have m: "pm_grants m = []" "pm_grantsByOwner m = []" "pm_grantsByRoute m = []" "pm_activeByRoute m = []"
    "pm_activeByOwner m = []" "pm_activeCount m = 0" "pm_nextActiveID m = 0" "limits_set m"
    by (auto simp: NewTokenManagerWithDependencies_def limits_set_def preview_limits split: if_splits)
  then show ?case
    by (simp add: preview_inv_def mgr_ok_def grants_ok_def active_ok_def no_empty_def tracked_def backed_def
        look_def bounded_def counters_hold_Nil)
next
  case (cancel tr w h)
  then have "h < length (pw_requests w)" by (auto simp: preview_inv_def tracked_def)
  with cancel.IH tracked_cancel [of w h] show ?case by (simp add: preview_inv_def cancel_request_def)
qed (auto intro: preview_inv_Issue preview_inv_Validate inv_Authorize inv_Release inv_RevokeRoute inv_RevokeDevice)

subsection \<open>Properties\<close>

text \<open>
  The grants by owner, device, workspace, route and port, all nonempty; the port unprivileged; the
  grant filed under its own identity, unrevoked, and its hash that of its token.
\<close>

definition grant_typed :: "token_manager \<Rightarrow> string \<Rightarrow> preview_grant \<Rightarrow> bool" where
  "grant_typed m k g \<longleftrightarrow> pg_ID g = k \<and> pg_RouteID g \<noteq> [] \<and> pg_OwnerID g \<noteq> [] \<and> pg_DeviceID g \<noteq> []
     \<and> pg_WorkspaceID g \<noteq> [] \<and> 1024 \<le> pg_Port g \<and> pg_RevokedAt g = None \<and> length (pg_Hash g) \<le> 32"

text \<open>C18:
  Whatever the order of issuing, validating, authorizing, releasing, revoking and calling the cancel
  functions, every grant the token manager holds is well formed: filed under its own identity, with a
  nonempty owner, device, workspace and route, an unprivileged port, not marked revoked and a digest of
  at most 32 bytes; and every authorization in the table belongs to a request of that route and
  activation number, so no cancel function is ever filed under another request's entry.
\<close>

theorem preview_tables_typed:
  assumes "preview_reach tr w"
  shows "(\<forall>k g. map_of (pm_grants (pw_mgr w)) k = Some g \<longrightarrow> grant_typed (pw_mgr w) k g)
    \<and> (\<forall>r i a. look (pw_mgr w) r i = Some a \<longrightarrow> aa_cancel a < length (pw_requests w)
         \<and> pq_routeID (pw_requests w ! aa_cancel a) = r \<and> pq_activeID (pw_requests w ! aa_cancel a) = i)"
proof -
  have inv: "backed tr (pw_mgr w)" "tracked w" using reach_inv [OF assms] by (simp_all add: preview_inv_def)
  have "grant_typed (pw_mgr w) k g" if "map_of (pm_grants (pw_mgr w)) k = Some g" for k g
    using inv(1) that unfolding backed_def by (fastforce simp: grant_typed_def preview_hash_def)
  with inv(2) show ?thesis unfolding tracked_def by blast
qed

text \<open>The counters that the capacity checks read are exact in every reachable state and the tables are
  bounded: at most 4096 grants, 1024 of an owner and 128 of a route; at most 1024 authorizations, 256
  of an owner and 64 of a route; and no counter or route entry is kept for nothing, so the tables do
  not grow with the routes and owners that have come and gone.
\<close>

theorem preview_counters_exact:
  assumes "preview_reach tr w"
  shows "let m = pw_mgr w; t = pm_activeByRoute m in
    (\<forall>x. get_count (pm_grantsByOwner m) x = int (count_where (\<lambda>_ g. pg_OwnerID g = x) (pm_grants m)))
    \<and> (\<forall>x. get_count (pm_grantsByRoute m) x = int (count_where (\<lambda>_ g. pg_RouteID g = x) (pm_grants m)))
    \<and> (\<forall>x. get_count (pm_activeByOwner m) x = int (act_count (\<lambda>a. aa_ownerID a = x) t))
    \<and> pm_activeCount m = int (act_count (\<lambda>_. True) t)
    \<and> length (pm_grants m) \<le> 4096 \<and> pm_activeCount m \<le> 1024
    \<and> (\<forall>x. get_count (pm_grantsByOwner m) x \<le> 1024 \<and> get_count (pm_grantsByRoute m) x \<le> 128
         \<and> get_count (pm_activeByOwner m) x \<le> 256 \<and> length (active_of t x) \<le> 64)
    \<and> (\<forall>x. map_of (pm_grantsByOwner m) x \<noteq> Some 0 \<and> map_of (pm_grantsByRoute m) x \<noteq> Some 0
         \<and> map_of (pm_activeByOwner m) x \<noteq> Some 0 \<and> map_of t x \<noteq> Some [])"
proof -
  have ok: "grants_ok (pw_mgr w)" "active_ok (pw_mgr w)" "no_empty (pw_mgr w)"
    using reach_inv [OF assms] by (simp_all add: preview_inv_def mgr_ok_def)
  then have c: "counters_hold (pm_grantsByOwner (pw_mgr w)) (\<lambda>x. count_where (\<lambda>_ g. pg_OwnerID g = x) (pm_grants (pw_mgr w)))"
    "counters_hold (pm_grantsByRoute (pw_mgr w)) (\<lambda>x. count_where (\<lambda>_ g. pg_RouteID g = x) (pm_grants (pw_mgr w)))"
    "counters_hold (pm_activeByOwner (pw_mgr w)) (\<lambda>x. act_count (\<lambda>a. aa_ownerID a = x) (pm_activeByRoute (pw_mgr w)))"
    by (simp_all add: grants_ok_def active_ok_def)
  have z: "counters_hold c f \<Longrightarrow> map_of c x \<noteq> Some 0" for c :: "(string, int) gomap" and f x
    by (auto simp: counters_hold_def)
  show ?thesis
    using ok unfolding grants_ok_def active_ok_def no_empty_def bounded_def Let_def length_as_count
    by (simp add: c [THEN counters_hold_get] c [THEN z])
qed

text \<open>\<open>second_preimage m tr tok\<close>: \<open>tok\<close> is not a token issued in \<open>tr\<close>, but has the identity of
  one and a different secret with the same keyed digest.\<close>

definition second_preimage :: "token_manager \<Rightarrow> preview_event list \<Rightarrow> string \<Rightarrow> bool" where
  "second_preimage m tr tok \<longleftrightarrow> (\<exists>r dev exp k s s'. EvIssued r dev exp (''pv_'' @ k @ ''.'' @ s) \<in> set tr
     \<and> tok = ''pv_'' @ k @ ''.'' @ s' \<and> s' \<noteq> s
     \<and> preview_hash m (grant_of m k r dev exp s) s' = preview_hash m (grant_of m k r dev exp s) s)"

lemma split_on_nonempty: "split_on c s \<noteq> []"
  by (cases s) (auto split: list.splits)

lemma split_on_inv: "split_on c s = [a, b] \<Longrightarrow> s = a @ c # b"
proof (induction s arbitrary: a)
  case (Cons x s)
  have one: "split_on c u = [b] \<Longrightarrow> u = b" for u b
  proof (induction u arbitrary: b)
    case (Cons y u)
    then show ?case by (auto simp: split_on_nonempty split: list.splits if_splits)
  qed auto
  from Cons show ?case by (auto split: list.splits if_splits dest: one)
qed simp

lemma preview_parse_inv:
  assumes "preview_parse tok = Inr (k, s)"
  shows "tok = ''pv_'' @ k @ ''.'' @ s"
proof -
  obtain t where t: "tok = ''pv_'' @ t"
    using assms by (auto simp: preview_parse_def has_prefix_iff split: if_splits)
  with assms have "split_on (CHR ''.'') t = [k, s]"
    by (auto simp: preview_parse_def split: if_splits list.splits)
  from split_on_inv [OF this] t show ?thesis by simp
qed

lemma validated_issued:
  assumes "preview_inv tr w" "preview_parse tok = Inr (k, s)"
    "validateLocked k s rid ow ws port now (pw_mgr w) = Inr g" "\<not> second_preimage (pw_mgr w) tr tok"
  shows "\<exists>tr1 r tr2. tr = tr1 @ EvIssued r (pg_DeviceID g) (pg_ExpiresAt g) tok # tr2 \<and> vr_ID r = rid \<and> vr_OwnerID r = ow
    \<and> vr_WorkspaceID r = ws \<and> vr_Port r = port \<and> now < pg_ExpiresAt g \<and> not_revoked tr1 r (pg_DeviceID g)"
proof -
  let ?m = "pw_mgr w"
  have v: "map_of (pm_grants ?m) k = Some g" "now < pg_ExpiresAt g" "pg_RouteID g = rid" "pg_OwnerID g = ow"
    "pg_WorkspaceID g = ws" "pg_Port g = port" "pg_Hash g = preview_hash ?m g s"
    using assms(3) by (auto simp: validateLocked_def split: option.splits if_splits)
  have "backed tr ?m" using assms(1) by (simp add: preview_inv_def)
  with v(1) obtain tr1 r dev exp s0 tr2 where b: "tr = tr1 @ EvIssued r dev exp (''pv_'' @ k @ ''.'' @ s0) # tr2"
    "g = grant_of ?m k r dev exp s0" "not_revoked tr1 r dev" unfolding backed_def by blast
  have "preview_hash ?m (grant_of ?m k r dev exp s0) s = preview_hash ?m (grant_of ?m k r dev exp s0) s0"
    using v(7) by (simp add: b(2) flip: grant_of_simps(9))
  with assms(4) b(1) preview_parse_inv [OF assms(2)] have "s = s0"
    unfolding second_preimage_def by (metis in_set_conv_decomp)
  then have "tr = tr1 @ EvIssued r (pg_DeviceID g) (pg_ExpiresAt g) tok # tr2"
    using b(1,2) preview_parse_inv [OF assms(2)] by simp
  with b v show ?thesis by (intro exI [of _ tr1] exI [of _ r] exI [of _ tr2]) auto
qed

lemma accepted_token_issued:
  assumes "preview_reach tr w" "\<not> second_preimage (pw_mgr w) tr tok"
    "preview_Validate tok rid ow ws port now w = (None, w')
      \<or> preview_Authorize parent tok rid ow ws port now w = (Inr h, w')"
  shows "\<exists>tr1 r dev exp tr2. tr = tr1 @ EvIssued r dev exp tok # tr2 \<and> vr_ID r = rid \<and> vr_OwnerID r = ow
    \<and> vr_WorkspaceID r = ws \<and> vr_Port r = port \<and> now < exp
    \<and> EvRouteRevoked rid \<notin> set tr1 \<and> EvDeviceRevoked ow dev \<notin> set tr1"
proof -
  obtain m' cs where c: "maybeCleanupLocked now (pw_mgr w) = (m', cs)" by fastforce
  let ?w1 = "hand_over (m', cs) w"
  obtain k s g where v: "preview_parse tok = Inr (k, s)" "validateLocked k s rid ow ws port now (pw_mgr ?w1) = Inr g"
    using assms(3)
    by (auto simp: preview_Validate_def c Let_def split: sum.splits prod.splits elim!: preview_Authorize_ok)
  have inv: "preview_inv tr ?w1" "mgr_ok (pw_mgr w)"
    using inv_maybeCleanup [OF reach_inv [OF assms(1)], of now] reach_inv [OF assms(1)]
    by (simp_all add: c preview_inv_def)
  have "same_config (pw_mgr w) m'" using maybeCleanup_ok [OF inv(2) c] by (simp add: trims_def)
  from grant_of_cong [OF this] assms(2) have "\<not> second_preimage (pw_mgr ?w1) tr tok"
    by (simp add: second_preimage_def hand_over_def)
  from validated_issued [OF inv(1) v this] show ?thesis
    unfolding not_revoked_def by (elim exE conjE) (intro exI conjI, assumption+, auto)
qed

text \<open>C16:
  A preview token opens only what it was issued for. When a validation or a proxied request succeeds
  at \<open>now\<close>, that very token was issued earlier, for exactly this route, owner, workspace and port,
  it had not expired, and since it was issued neither its route nor its device has been revoked. The
  presented token is assumed not to be a forgery by a second preimage of the keyed digest.
\<close>

theorem preview_token_binding:
  assumes "preview_reach tr w" "\<not> second_preimage (pw_mgr w) tr tok"
    "preview_Validate tok rid ow ws port now w = (None, w')
      \<or> preview_Authorize parent tok rid ow ws port now w = (Inr h, w')"
  shows "\<exists>tr1 r dev exp tr2. tr = tr1 @ EvIssued r dev exp tok # tr2 \<and> vr_ID r = rid \<and> vr_OwnerID r = ow
    \<and> vr_WorkspaceID r = ws \<and> vr_Port r = port \<and> now < exp
    \<and> EvRouteRevoked rid \<notin> set tr1 \<and> EvDeviceRevoked ow dev \<notin> set tr1"
  by (rule accepted_token_issued [OF assms])

lemma cancel_request_nth:
  "length (pw_requests (cancel_request h w)) = length (pw_requests w)"
  "j < length (pw_requests w) \<Longrightarrow> pq_cancelled (pw_requests (cancel_request h w) ! j) =
     (j = h \<or> pq_cancelled (pw_requests w ! j))"
  by (simp add: cancel_request_def) (cases "j = h"; simp add: cancel_request_def)

lemma cancelAll_nth:
  "j < length (pw_requests w) \<Longrightarrow>
    pq_cancelled (pw_requests (cancelAll hs w) ! j) = (j \<in> set hs \<or> pq_cancelled (pw_requests w ! j))"
  by (induction hs arbitrary: w) (auto simp: cancel_request_nth)

text \<open>C17:
  Revoking a route leaves none of its grants and none of its authorizations, and reaches every proxied
  request on it, however long its stream: the context of each request ever authorized on the route is
  cancelled, or its cancel function has been handed to a goroutine that calls it after its unlock, so
  once those calls are made all of them are cancelled.
\<close>

theorem preview_revocation_cuts_streams:
  assumes "preview_reach tr w" "preview_RevokeRoute rid now w = (n, w')"
  shows "(\<forall>k g. map_of (pm_grants (pw_mgr w')) k = Some g \<longrightarrow> pg_RouteID g \<noteq> rid)
    \<and> active_of (pm_activeByRoute (pw_mgr w')) rid = []
    \<and> (\<forall>h. h < length (pw_requests w) \<and> pq_routeID (pw_requests w ! h) = rid \<longrightarrow>
         pq_cancelled (pw_requests (cancelAll (pw_pending w') w') ! h))"
proof -
  have ok: "mgr_ok (pw_mgr w)" using reach_inv [OF assms(1)] by (simp add: preview_inv_def)
  obtain m' cs where r: "w' = hand_over (m', cs) w" "\<forall>k g. map_of (pm_grants m') k = Some g \<longrightarrow> pg_RouteID g \<noteq> rid"
    "\<forall>i. look m' rid i = None"
    using RevokeRoute_ok [OF ok assms(2)] by metis
  have tr: "tracked w'"
    using inv_RevokeRoute [OF reach_inv [OF assms(1)] assms(2)] by (simp add: preview_inv_def)
  have q: "pw_requests w' = pw_requests w" by (simp add: r(1) hand_over_def)
  have "pq_cancelled (pw_requests (cancelAll (pw_pending w') w') ! h)"
    if h: "h < length (pw_requests w)" "pq_routeID (pw_requests w ! h) = rid" for h
  proof -
    have "\<not> held_by (pw_mgr w') (pw_requests w') h" using r(3) h(2) by (simp add: held_by_def q r(1) hand_over_def)
    with tr h(1) have "pq_cancelled (pw_requests w' ! h) \<or> h \<in> set (pw_pending w')"
      unfolding tracked_def q by blast
    with cancelAll_nth [of h w' "pw_pending w'"] h(1) q show ?thesis by auto
  qed
  moreover have "active_of (pm_activeByRoute (pw_mgr w')) rid = []"
    using r(3) by (simp add: look_def r(1) hand_over_def) (metis map_of_eq_None_iff list.set_intros(1) imageI list.exhaust)
  ultimately show ?thesis using r(2) by (simp add: r(1) hand_over_def)
qed

subsection \<open>Issued tokens work\<close>

lemma cleanup_keeps:
  assumes "mgr_ok m" "preview_cleanupLocked now m = (m', cs)" "map_of (pm_grants m) k = Some g"
    "pg_RevokedAt g = None" "now < pg_ExpiresAt g"
  shows "map_of (pm_grants m') k = Some g"
proof -
  let ?m = "m\<lparr>pm_nextCleanup := now + previewCleanupInterval\<rparr>"
  let ?p = "\<lambda>g. pg_RevokedAt g \<noteq> None \<or> \<not> now < pg_ExpiresAt g"
  obtain n m2 where s: "remove_grants ?p (pm_grants ?m) ?m = (n, m2)"
    "sweep_routes (\<lambda>a. \<not> now < aa_expiresAt a) (pm_activeByRoute m2) m2 = (m', cs)"
    using assms(2) by (auto simp: preview_cleanupLocked_def Let_def split: prod.splits)
  have ok: "mgr_ok ?m" using assms(1) by simp
  have wf: "map_wf (pm_grants ?m)" using assms(1) by (simp add: mgr_ok_def grants_ok_def)
  then have "distinct (map fst (pm_grants ?m))"
    "\<forall>k v. (k, v) \<in> set (pm_grants ?m) \<longrightarrow> map_of (pm_grants ?m) k = Some v"
    using map_wf_in_set [OF wf] by (simp_all add: map_wf_def)
  note one = trims_remove_grants(2) [OF this s(1), of k]
  have "\<not> (\<exists>v. (k, v) \<in> set (pm_grants ?m) \<and> ?p v)"
    using map_wf_in_set [OF wf, of k] assms(3-5) by auto
  with one assms(3) have "map_of (pm_grants m2) k = Some g" by simp
  with sweep_routes_all(4) [OF remove_grants_all(2) [OF ok s(1)] s(2)] show ?thesis by simp
qed

lemma maybeCleanup_keeps:
  assumes "mgr_ok m" "map_of (pm_grants m) k = Some g" "pg_RevokedAt g = None" "now < pg_ExpiresAt g"
  shows "map_of (pm_grants (fst (maybeCleanupLocked now m))) k = Some g"
  using assms cleanup_keeps [OF assms(1)] by (cases "preview_cleanupLocked now m") (auto simp: maybeCleanupLocked_def)

lemma preview_parse_make:
  assumes "length a = 16" "length b = 32"
  shows "preview_parse (''pv_'' @ RawURLEncode a @ ''.'' @ RawURLEncode b) = Inr (RawURLEncode a, RawURLEncode b)"
proof -
  let ?t = "RawURLEncode a @ CHR ''.'' # RawURLEncode b"
  have "split_on (CHR ''.'') ?t = [RawURLEncode a, RawURLEncode b]" by (rule split_on_two) simp_all
  then show ?thesis using assms by (simp add: preview_parse_def)
qed

text \<open>A token works for what it was issued for: a token issued in a reachable state, from 16 and 32 bytes
  of entropy, is accepted by every validation for its route, owner, workspace and port before its
  expiry, at most ten minutes later, as long as no revocation comes in between.
\<close>

theorem preview_issue_validates:
  assumes "preview_reach tr w" "preview_Issue r dev ttl (Inr b16) (Inr b32) now w = (Inr (tok, exp), w')"
    "length b16 = 16" "length b32 = 32" "now2 < exp"
  shows "fst (preview_Validate tok (vr_ID r) (vr_OwnerID r) (vr_WorkspaceID r) (vr_Port r) now2 w') = None
    \<and> exp = now + ttl \<and> exp \<le> now + 10 * minute"
proof -
  have inv: "preview_inv (EvIssued r dev exp tok # tr) w'" "preview_inv tr w"
    using preview_inv_Issue [OF reach_inv [OF assms(1)] assms(2)] reach_inv [OF assms(1)] by simp_all
  let ?w1 = "hand_over (maybeCleanupLocked now (pw_mgr w)) w"
  let ?g = "grant_of (pw_mgr ?w1) (RawURLEncode b16) r dev exp (RawURLEncode b32)"
  have i: "tok = ''pv_'' @ RawURLEncode b16 @ ''.'' @ RawURLEncode b32" "exp = now + ttl" "ttl \<le> pm_maxTTL (pw_mgr w)"
    "map_of (pm_grants (pw_mgr w')) (RawURLEncode b16) = Some ?g" "grant_of (pw_mgr w') = grant_of (pw_mgr ?w1)"
    by (rule preview_Issue_ok [OF assms(2)]; auto simp: Let_def grant_of_def preview_hash_def fun_eq_iff)+
  obtain m' cs where c: "maybeCleanupLocked now2 (pw_mgr w') = (m', cs)" by fastforce
  have ok: "mgr_ok (pw_mgr w')" using inv(1) by (simp add: preview_inv_def)
  have "map_of (pm_grants m') (RawURLEncode b16) = Some ?g"
    using maybeCleanup_keeps [OF ok i(4), of now2] assms(5) c by simp
  moreover have "same_config (pw_mgr w') m'" using maybeCleanup_ok [OF ok c] by (simp add: trims_def)
  from grant_of_cong [OF this] have "pg_Hash ?g = preview_hash m' ?g (RawURLEncode b32)"
    using i(5) grant_of_cong(2) by (metis grant_of_simps(9))
  ultimately have "validateLocked (RawURLEncode b16) (RawURLEncode b32) (vr_ID r) (vr_OwnerID r) (vr_WorkspaceID r)
      (vr_Port r) now2 m' = Inr ?g"
    using assms(5) unfolding validateLocked_def by (simp del: grant_of_simps(9))
  then have "fst (preview_Validate tok (vr_ID r) (vr_OwnerID r) (vr_WorkspaceID r) (vr_Port r) now2 w') = None"
    using preview_parse_make [OF assms(3,4)] by (simp add: preview_Validate_def i(1) c Let_def hand_over_def)
  moreover have "pm_maxTTL (pw_mgr w) = 10 * minute"
    using inv(2) by (simp add: preview_inv_def mgr_ok_def limits_set_def)
  ultimately show ?thesis using i(2,3) by simp
qed

end
