(* ===== verification/Preview_Example.thy ===== *)
theory Preview_Example
  imports Preview_Safety
begin

text \<open>
  A run of the preview token manager on concrete values: one token is issued, presented, and its route
  revoked while a request streams. The properties of the token manager are applied to it.
\<close>

definition preview_r :: preview_route where
  "preview_r = \<lparr>vr_ID = ''r'', vr_OwnerID = ''o'', vr_WorkspaceID = ''w'', vr_Port = 3000, vr_Process = ''vite'',
     vr_Host = ''h'', vr_CreatedAt = 0, vr_RevokedAt = None\<rparr>"

definition preview_m0 :: token_manager where
  "preview_m0 = \<lparr>pm_hmac = (\<lambda>_ b. b), pm_pepper = replicate 32 1, pm_grants = [], pm_grantsByOwner = [],
     pm_grantsByRoute = [], pm_activeByRoute = [], pm_activeByOwner = [], pm_activeCount = 0,
     pm_nextActiveID = 0, pm_maxTTL = 10 * minute, pm_maxGrants = 4096, pm_maxOwnerGrants = 1024,
     pm_maxRouteGrants = 128, pm_maxActive = 1024, pm_maxOwnerActive = 256, pm_maxRouteActive = 64,
     pm_nextCleanup = 0\<rparr>"

definition preview_gid :: string where "preview_gid = RawURLEncode (replicate 16 0)"
definition preview_secret :: string where "preview_secret = RawURLEncode (replicate 32 0)"
definition preview_tok :: string where "preview_tok = ''pv_'' @ preview_gid @ ''.'' @ preview_secret"

definition preview_g :: preview_grant where
  "preview_g = grant_of preview_m0 preview_gid preview_r ''d'' (minute + 1) preview_secret"

definition preview_w0 :: preview_world where
  "preview_w0 = \<lparr>pw_mgr = preview_m0, pw_requests = [], pw_pending = []\<rparr>"

definition preview_w1 :: preview_world where
  "preview_w1 = \<lparr>pw_mgr = preview_m0\<lparr>pm_grants := [(preview_gid, preview_g)], pm_grantsByOwner := [(''o'', 1)],
     pm_grantsByRoute := [(''r'', 1)], pm_nextCleanup := 1 + previewCleanupInterval\<rparr>, pw_requests = [], pw_pending = []\<rparr>"

definition preview_w2 :: preview_world where
  "preview_w2 = preview_w1\<lparr>
     pw_mgr := (pw_mgr preview_w1)\<lparr>pm_nextActiveID := 1,
       pm_activeByRoute := [(''r'', [(1, \<lparr>aa_ownerID = ''o'', aa_deviceID = ''d'', aa_expiresAt = minute + 1,
         aa_cancel = 0\<rparr>)])], pm_activeCount := 1, pm_activeByOwner := [(''o'', 1)]\<rparr>,
     pw_requests := [\<lparr>pq_routeID = ''r'', pq_activeID = 1, pq_timeout = minute - 1, pq_once = False,
       pq_cancelled = False\<rparr>]\<rparr>"

lemmas preview_example_defs = preview_w0_def preview_w1_def preview_m0_def preview_r_def hand_over_def Let_def

lemma preview_g_simps [simp]:
  "pg_ID preview_g = preview_gid" "pg_RouteID preview_g = ''r''" "pg_OwnerID preview_g = ''o''" "pg_DeviceID preview_g = ''d''"
  "pg_WorkspaceID preview_g = ''w''" "pg_Port preview_g = 3000" "pg_ExpiresAt preview_g = minute + 1"
  "pg_RevokedAt preview_g = None" "pg_Hash preview_g = preview_hash preview_m0 preview_g preview_secret"
  by (simp_all add: preview_g_def preview_r_def del: grant_of_simps(9)) (rule grant_of_simps)

lemma preview_issued:
  "preview_Issue preview_r ''d'' minute (Inr (replicate 16 0)) (Inr (replicate 32 0)) 1 preview_w0
     = (Inr (preview_tok, minute + 1), preview_w1)"
  by (simp add: preview_Issue_def preview_randomPart_def maybeCleanupLocked_def preview_cleanupLocked_def
      grantCapacityReachedLocked_def preview_tok_def preview_gid_def preview_secret_def preview_g_def
      grant_of_def preview_hash_def preview_example_defs)

lemma preview_parsed: "preview_parse preview_tok = Inr (preview_gid, preview_secret)"
  unfolding preview_tok_def preview_gid_def preview_secret_def by (rule preview_parse_make) simp_all

lemma preview_locked: "validateLocked preview_gid preview_secret ''r'' ''o'' ''w'' 3000 2 (pw_mgr preview_w1) = Inr preview_g"
proof -
  have "preview_hash (pw_mgr preview_w1) = preview_hash preview_m0"
    by (simp add: preview_hash_def preview_w1_def preview_m0_def fun_eq_iff)
  then show ?thesis by (simp add: validateLocked_def preview_w1_def)
qed

lemma preview_quiet: "maybeCleanupLocked 2 (pw_mgr preview_w1) = (pw_mgr preview_w1, [])"
  by (simp add: maybeCleanupLocked_def preview_w1_def previewCleanupInterval_def)

lemma preview_validated: "preview_Validate preview_tok ''r'' ''o'' ''w'' 3000 2 preview_w1 = (None, preview_w1)"
  by (simp add: preview_Validate_def preview_parsed preview_quiet preview_locked hand_over_def)

lemma preview_authorized:
  "preview_Authorize (Some None) preview_tok ''r'' ''o'' ''w'' 3000 2 preview_w1 = (Inr 0, preview_w2)"
  by (simp add: preview_Authorize_def preview_parsed preview_quiet preview_locked hand_over_def Let_def
      activeCapacityReachedLocked_def active_of_def preview_w2_def)
     (simp add: preview_w1_def preview_m0_def)

lemma preview_new: "NewTokenManagerWithDependencies (\<lambda>_ b. b) (replicate 32 1) True True = Inr preview_m0"
  by (simp add: NewTokenManagerWithDependencies_def preview_limits preview_m0_def)

abbreviation preview_trace :: "preview_event list" where
  "preview_trace \<equiv> [EvIssued preview_r ''d'' (minute + 1) preview_tok]"

lemma preview_reach0: "preview_reach [] preview_w0"
  using preview_reach.init [OF preview_new] by (simp add: preview_w0_def)

lemma preview_reach1: "preview_reach preview_trace preview_w1"
  using preview_reach.issue [OF preview_reach0 preview_issued] by simp

lemma preview_reach2: "preview_reach preview_trace preview_w2"
  by (rule preview_reach.authorize [OF preview_reach1 preview_authorized]) (simp add: preview_w2_def)

lemma preview_no_forgery: "\<not> second_preimage (pw_mgr w) preview_trace preview_tok"
proof
  assume "second_preimage (pw_mgr w) preview_trace preview_tok"
  then obtain r dev exp k s s' where i: "EvIssued r dev exp (''pv_'' @ k @ ''.'' @ s) \<in> set preview_trace"
    and e: "preview_tok = ''pv_'' @ k @ ''.'' @ s'" "s' \<noteq> s" unfolding second_preimage_def by blast
  from i have "''pv_'' @ k @ ''.'' @ s = preview_tok" by simp
  then have "''pv_'' @ k @ ''.'' @ s = ''pv_'' @ k @ ''.'' @ s'" unfolding e(1) .
  with e(2) show False by simp
qed

theorem preview_tables_typed_witness: "grant_typed (pw_mgr preview_w2) preview_gid preview_g"
proof -
  have "map_of (pm_grants (pw_mgr preview_w2)) preview_gid = Some preview_g"
    by (simp add: preview_w2_def preview_w1_def)
  with preview_tables_typed [OF preview_reach2] show ?thesis by blast
qed

theorem preview_counters_exact_witness: "get_count (pm_grantsByOwner (pw_mgr preview_w2)) ''o'' \<le> 1024"
  using preview_counters_exact [OF preview_reach2] unfolding Let_def by (elim conjE) blast

theorem preview_token_binding_witness:
  "\<exists>tr1 r dev exp tr2. preview_trace = tr1 @ EvIssued r dev exp preview_tok # tr2 \<and> vr_ID r = ''r'' \<and> vr_OwnerID r = ''o''
    \<and> vr_WorkspaceID r = ''w'' \<and> vr_Port r = 3000 \<and> 2 < exp
    \<and> EvRouteRevoked ''r'' \<notin> set tr1 \<and> EvDeviceRevoked ''o'' dev \<notin> set tr1"
  by (rule preview_token_binding [OF preview_reach1 preview_no_forgery disjI1 [OF preview_validated]])

theorem preview_revocation_cuts_streams_witness:
  "pq_cancelled (pw_requests (cancelAll (pw_pending (snd (preview_RevokeRoute ''r'' 3 preview_w2)))
     (snd (preview_RevokeRoute ''r'' 3 preview_w2))) ! 0)"
  using preview_revocation_cuts_streams [OF preview_reach2, of "''r''" 3 "fst (preview_RevokeRoute ''r'' 3 preview_w2)"
      "snd (preview_RevokeRoute ''r'' 3 preview_w2)"]
  by (simp add: preview_w2_def)

theorem preview_issue_validates_witness:
  "fst (preview_Validate preview_tok ''r'' ''o'' ''w'' 3000 minute preview_w1) = None"
  using preview_issue_validates [OF preview_reach0 preview_issued, of minute] by (simp add: preview_r_def)

end
