(* ===== verification/Preview_Gateway.thy ===== *)
theory Preview_Gateway
  imports Preview_Example
begin

text \<open>
  \<^verbatim>\<open>preview/gateway.go\<close>: the HTTP front of the previews. A request names its route by the first label
  of its host; it is answered, or proxied to the workspace's port under an authorization of the token
  manager. The route resolver, the tunnel and the upstream server are parameters; of \<^verbatim>\<open>net/http\<close> the
  model takes the parsed request: host, path, method, headers, the value \<^verbatim>\<open>r.Cookie\<close> finds, and what
  decoding the body gives. \<^verbatim>\<open>net/http\<close> admits only ASCII hosts. The text of the bootstrap page is left out.
\<close>

subsection \<open>Texts\<close>

definition lower_text :: "string \<Rightarrow> string" where
  "lower_text s = map char_of (concat (map encode_rune (to_lower s)))"

text \<open>\<^verbatim>\<open>strings.EqualFold\<close> with an ASCII text: the long s and the Kelvin sign fold to \<open>s\<close> and \<open>k\<close>.\<close>

definition fold_rune :: "nat \<Rightarrow> nat" where
  "fold_rune r = (if 65 \<le> r \<and> r \<le> 90 then r + 32 else if r = 383 then 115 else if r = 8490 then 107 else r)"

definition equal_fold :: "string \<Rightarrow> string \<Rightarrow> bool" where
  "equal_fold s t \<longleftrightarrow> map fold_rune (string_runes s) = map fold_rune (ascii t)"

definition has_suffix :: "string \<Rightarrow> string \<Rightarrow> bool" where
  "has_suffix s suf \<longleftrightarrow> length suf \<le> length s \<and> drop (length s - length suf) s = suf"

definition trim_right :: "char \<Rightarrow> string \<Rightarrow> string" where
  "trim_right c s = rev (dropWhile ((=) c) (rev s))"

text \<open>The host part of \<^verbatim>\<open>net.SplitHostPort\<close>, or \<open>None\<close> for its error.\<close>

definition last_colon :: "string \<Rightarrow> nat option" where
  "last_colon s = (if CHR '':'' \<in> set s then Some (length s - 1 - length (takeWhile ((\<noteq>) (CHR '':'')) (rev s))) else None)"

definition SplitHostPort_host :: "string \<Rightarrow> string option" where
  "SplitHostPort_host s =
     (case last_colon s of
        None \<Rightarrow> None
      | Some i \<Rightarrow>
          if s \<noteq> [] \<and> hd s = CHR ''['' then
            (let inner = takeWhile ((\<noteq>) (CHR '']'')) s; end = length inner
             in if end = length s \<or> end + 1 \<noteq> i then None
                else if CHR ''['' \<in> set (drop 1 s) \<or> CHR '']'' \<in> set (drop (end + 1) s) then None
                else Some (drop 1 inner))
          else (let host = take i s
                in if CHR '':'' \<in> set host \<or> CHR ''['' \<in> set s \<or> CHR '']'' \<in> set s then None else Some host))"

subsection \<open>Requests and answers\<close>

type_synonym http_header = "(string \<times> string list) list"

definition header_get :: "http_header \<Rightarrow> string \<Rightarrow> string" where
  "header_get h name = (case map_of h name of Some (v # _) \<Rightarrow> v | _ \<Rightarrow> [])"

text \<open>
  \<open>hr_Body\<close> is the outcome of decoding the token from at most 512 bytes with unknown fields refused,
  and whether a second value then gives \<^verbatim>\<open>io.EOF\<close>.
\<close>

record http_request =
  hr_Host :: string
  hr_Path :: string
  hr_Method :: string
  hr_Header :: http_header
  hr_Cookie :: "string option"
  hr_Body :: "string option \<times> bool"
  hr_ContextErr :: "goerr option"

datatype preview_reply = NotFound | HttpError nat string | Bootstrap bool | SessionCookie string

datatype preview_outcome = Replied preview_reply | Proxying nat string http_header

record gateway =
  gw_domain :: string
  gw_resolve :: "string \<Rightarrow> preview_route result"
  gw_target :: "string \<Rightarrow> 16 word \<Rightarrow> string result"

definition SessionPath :: string where "SessionPath = ''/__codex_mobile/session''"
definition CookieName :: string where "CookieName = ''__Host-codex_mobile_preview''"

definition preview_NewGateway :: "string \<Rightarrow> bool \<Rightarrow> (string \<Rightarrow> preview_route result) option
    \<Rightarrow> (string \<Rightarrow> 16 word \<Rightarrow> string result) option \<Rightarrow> gateway result" where
  "preview_NewGateway domain hasTokens resolve tunnel =
     (let domain = lower_text (trim_char (CHR ''.'') (trim_space domain))
      in if domain = [] \<or> (\<exists>c \<in> set domain. c \<in> set ''/:'' \<or> c \<in> {CHR 0x5C, CHR 0x0D, CHR 0x0A, CHR 0x00}) \<or> \<not> hasTokens
         then Inl (errorsNew ''preview domain, tokens, resolver, and tunnel are required'')
         else (case (resolve, tunnel) of
             (Some rs, Some tn) \<Rightarrow> Inr \<lparr>gw_domain = domain, gw_resolve = rs, gw_target = tn\<rparr>
           | _ \<Rightarrow> Inl (errorsNew ''preview domain, tokens, resolver, and tunnel are required'')))"

definition alnum :: "char \<Rightarrow> bool" where
  "alnum c \<longleftrightarrow> (let n = byte_nat c in 48 \<le> n \<and> n \<le> 57 \<or> 65 \<le> n \<and> n \<le> 90 \<or> 97 \<le> n \<and> n \<le> 122)"

definition previewIDPattern :: "string \<Rightarrow> bool" where
  "previewIDPattern s \<longleftrightarrow> s \<noteq> [] \<and> length s \<le> 128 \<and> alnum (hd s)
     \<and> list_all (\<lambda>c. alnum c \<or> c = CHR ''_'' \<or> c = CHR ''-'') (tl s)"

definition gateway_routeID :: "gateway \<Rightarrow> string \<Rightarrow> string \<times> bool" where
  "gateway_routeID g rawHost =
     (let host = lower_text rawHost;
          host = (case SplitHostPort_host host of Some h \<Rightarrow> h | None \<Rightarrow> host);
          suffix = ''.'' @ gw_domain g
      in if \<not> has_suffix host suffix then ([], False)
         else (let rid = take (length host - length suffix) host in (rid, previewIDPattern rid)))"

definition samePreviewOrigin :: "http_request \<Rightarrow> bool \<Rightarrow> bool" where
  "samePreviewOrigin r requireOrigin =
     (let expected = ''https://'' @ lower_text (trim_space (hr_Host r));
          origin = trim_right (CHR ''/'') (trim_space (header_get (hr_Header r) ''Origin''))
      in if origin \<noteq> [] then origin = expected
         else if requireOrigin then False
         else to_lower (trim_space (header_get (hr_Header r) ''Sec-Fetch-Site''))
                \<in> {ascii [], ascii ''none'', ascii ''same-origin''})"

definition isWebSocketRequest :: "http_request \<Rightarrow> bool" where
  "isWebSocketRequest r \<longleftrightarrow> equal_fold (trim_space (header_get (hr_Header r) ''Upgrade'')) ''websocket''"

definition safePreviewMethod :: "string \<Rightarrow> bool" where
  "safePreviewMethod m \<longleftrightarrow> m = ''GET'' \<or> m = ''HEAD'' \<or> m = ''OPTIONS''"

definition gateway_bootstrap :: "http_request \<Rightarrow> bool \<Rightarrow> preview_reply" where
  "gateway_bootstrap r randomOk =
     (if \<not> randomOk then HttpError 500 ''preview bootstrap unavailable'' else Bootstrap (hr_Method r = ''HEAD''))"

text \<open>What the proxy sends on, and what it gives back.\<close>

definition stripped_headers :: "string list" where
  "stripped_headers = [''Authorization'', ''Proxy-Authorization'', ''Cookie'', ''Coder-Session-Token'',
     ''Forwarded'', ''X-Forwarded-For'', ''X-Forwarded-Host'', ''X-Forwarded-Proto'', ''X-Real-Ip'',
     ''X-Codex-Mobile-Preview'']"

definition proxy_rewrite :: "http_header \<Rightarrow> http_header" where
  "proxy_rewrite h = filter (\<lambda>(name, _). name \<notin> set stripped_headers) h"

definition preview_cookie :: "string \<Rightarrow> bool" where
  "preview_cookie c \<longleftrightarrow> has_prefix (to_lower (trim_space c)) (to_lower CookieName @ ascii ''='')"

definition proxy_response :: "http_header \<Rightarrow> http_header" where
  "proxy_response h =
     (let cookies = filter (\<lambda>c. \<not> preview_cookie c) (case map_of h ''Set-Cookie'' of Some cs \<Rightarrow> cs | None \<Rightarrow> []);
          rest = AList.delete ''Set-Cookie'' h
      in if cookies = [] then rest else (''Set-Cookie'', cookies) # rest)"

subsection \<open>Serving a request\<close>

definition establishSession ::
  "http_request \<Rightarrow> preview_route \<Rightarrow> time \<Rightarrow> preview_world \<Rightarrow> preview_reply \<times> preview_world" where
  "establishSession r route now w =
     (if hr_Method r \<noteq> ''POST'' \<or> header_get (hr_Header r) ''Content-Type'' \<noteq> ''application/json''
      then (HttpError 400 ''invalid preview session request'', w)
      else if \<not> samePreviewOrigin r True then (HttpError 403 ''preview origin rejected'', w)
      else (case fst (hr_Body r) of
          None \<Rightarrow> (HttpError 400 ''invalid preview session request'', w)
        | Some token \<Rightarrow>
            if token = [] \<or> \<not> snd (hr_Body r) then (HttpError 400 ''invalid preview session request'', w)
            else (case preview_Validate token (vr_ID route) (vr_OwnerID route) (vr_WorkspaceID route) (vr_Port route) now w of
                (Some e, w') \<Rightarrow> (HttpError 401 ''invalid preview authorization'', w')
              | (None, w') \<Rightarrow> (SessionCookie token, w'))))"

text \<open>
  \<^verbatim>\<open>ServeHTTP\<close> up to its reply, or to the proxying of the stream under authorization \<open>h\<close>, which ends
  with the deferred \<open>preview_Release h\<close>. Replies after \<^verbatim>\<open>Authorize\<close> run the deferred release too.
\<close>

definition unauthorized :: "http_request \<Rightarrow> bool \<Rightarrow> preview_reply" where
  "unauthorized r randomOk =
     (if hr_Method r = ''GET'' \<or> hr_Method r = ''HEAD'' then gateway_bootstrap r randomOk
      else HttpError 401 ''preview authorization required'')"

definition preview_ServeHTTP ::
  "gateway \<Rightarrow> http_request \<Rightarrow> bool \<Rightarrow> time \<Rightarrow> preview_world \<Rightarrow> preview_outcome \<times> preview_world" where
  "preview_ServeHTTP g r randomOk now w =
     (let (rid, ok) = gateway_routeID g (hr_Host r)
      in if \<not> ok then (Replied NotFound, w)
         else (case gw_resolve g rid of
             Inl _ \<Rightarrow> (Replied NotFound, w)
           | Inr route \<Rightarrow>
               if vr_ID route \<noteq> rid \<or> vr_RevokedAt route \<noteq> None then (Replied NotFound, w)
               else if hr_Path r = SessionPath
               then (let (reply, w') = establishSession r route now w in (Replied reply, w'))
               else (case hr_Cookie r of
                   None \<Rightarrow> (Replied (unauthorized r randomOk), w)
                 | Some cookie \<Rightarrow>
                     (case preview_Authorize (Some (hr_ContextErr r)) cookie (vr_ID route) (vr_OwnerID route)
                             (vr_WorkspaceID route) (vr_Port route) now w of
                        (Inl e, w') \<Rightarrow>
                          (Replied (if err_is e = ErrCapacity
                                    then HttpError 503 ''preview capacity is temporarily unavailable''
                                    else unauthorized r randomOk), w')
                      | (Inr h, w') \<Rightarrow>
                          if \<not> samePreviewOrigin r (isWebSocketRequest r \<or> \<not> safePreviewMethod (hr_Method r))
                          then (Replied (HttpError 403 ''preview origin rejected''), preview_Release h w')
                          else if vr_Host route = []
                          then (Replied (HttpError 502 ''preview provider is unavailable''), preview_Release h w')
                          else (case gw_target g (vr_Host route) (vr_Port route) of
                              Inl _ \<Rightarrow> (Replied (HttpError 502 ''preview is temporarily unavailable''), preview_Release h w')
                            | Inr target \<Rightarrow> (Proxying h target (proxy_rewrite (hr_Header r)), w'))))))"

subsection \<open>Properties\<close>

lemma proxy_rewrite_clean: "name \<in> set stripped_headers \<Longrightarrow> map_of (proxy_rewrite h) name = None"
  by (induction h) (auto simp: proxy_rewrite_def)

lemma proxying_inv:
  assumes "preview_ServeHTTP g r rok now w = (Proxying h target out, w')"
  obtains route cookie where "gw_resolve g (vr_ID route) = Inr route" "gateway_routeID g (hr_Host r) = (vr_ID route, True)"
    "vr_RevokedAt route = None" "hr_Path r \<noteq> SessionPath" "hr_Cookie r = Some cookie"
    "preview_Authorize (Some (hr_ContextErr r)) cookie (vr_ID route) (vr_OwnerID route) (vr_WorkspaceID route)
       (vr_Port route) now w = (Inr h, w')"
    "samePreviewOrigin r (isWebSocketRequest r \<or> \<not> safePreviewMethod (hr_Method r))"
    "gw_target g (vr_Host route) (vr_Port route) = Inr target" "out = proxy_rewrite (hr_Header r)"
  using assms that unfolding preview_ServeHTTP_def
  by (auto simp: Let_def split: prod.splits if_splits sum.splits option.splits)


lemma Authorize_requests:
  assumes "preview_Authorize parent tok rid ow ws port now w = (res, w')"
  shows "case res of Inl e \<Rightarrow> pw_requests w' = pw_requests w
    | Inr h \<Rightarrow> h = length (pw_requests w) \<and> length (pw_requests w') = Suc h"
proof (cases res)
  case (Inl e)
  with assms preview_Authorize_err [of parent tok rid ow ws port now w e w'] show ?thesis by (auto simp: hand_over_def)
next
  case (Inr h)
  from assms [unfolded Inr] show ?thesis by (rule preview_Authorize_ok) (simp add: Inr Let_def hand_over_def)
qed

lemma establishSession_requests:
  "establishSession r route now w = (reply, w') \<Longrightarrow> pw_requests w' = pw_requests w"
  by (auto simp: establishSession_def preview_Validate_def hand_over_def Let_def
      split: if_splits option.splits sum.splits prod.splits)

lemma Release_once:
  "h < length (pw_requests w) \<Longrightarrow> pq_once (pw_requests (preview_Release h w) ! h)"
  "length (pw_requests (preview_Release h w)) = length (pw_requests w)"
  by (simp_all add: preview_Release_def Let_def)

lemma Release_not_held:
  assumes "h < length (pw_requests w)" "\<not> pq_once (pw_requests w ! h)"
  shows "\<not> held_by (pw_mgr (preview_Release h w)) (pw_requests (preview_Release h w)) h"
    and "h \<in> set (pw_pending (preview_Release h w))"
proof -
  let ?q = "pw_requests w ! h"
  have "look (pw_mgr (preview_Release h w)) (pq_routeID ?q) (pq_activeID ?q) = None"
    using assms trims_drop_active(2) [of "pw_mgr w" "pq_routeID ?q" "pq_activeID ?q"]
    by (cases "look (pw_mgr w) (pq_routeID ?q) (pq_activeID ?q)")
       (auto simp: preview_Release_def Let_def look_def [symmetric])
  then show "\<not> held_by (pw_mgr (preview_Release h w)) (pw_requests (preview_Release h w)) h"
    using assms by (simp add: held_by_def preview_Release_def Let_def)
  show "h \<in> set (pw_pending (preview_Release h w))" using assms by (simp add: preview_Release_def Let_def)
qed

definition granted :: "time \<Rightarrow> preview_world \<Rightarrow> nat \<Rightarrow> preview_world \<Rightarrow> bool" where
  "granted now w h w1 \<longleftrightarrow> (\<exists>parent tok rid ow ws port.
     preview_Authorize parent tok rid ow ws port now w = (Inr h, w1))"

lemma replied_cases:
  assumes "preview_ServeHTTP g r rok now w = (Replied reply, w')"
  shows "pw_requests w' = pw_requests w \<or> (\<exists>w1 h. granted now w h w1 \<and> w' = preview_Release h w1)"
proof -
  have g: "preview_Authorize parent tok rid ow ws port now w = (Inr h, w1) \<Longrightarrow> granted now w h w1"
    for parent tok rid ow ws port h w1 unfolding granted_def by (intro exI)
  show ?thesis
    using assms unfolding preview_ServeHTTP_def
    by (auto simp: Let_def split: prod.splits if_splits sum.splits option.splits
        dest!: establishSession_requests g dest: Authorize_requests)
qed

text \<open>The gateway never leaks an authorization: whenever it replies instead of proxying, whatever the
  reason, an authorization it took for the request has been released again by the time the reply is
  given: it is out of the table, and its context is handed over to be cancelled.
\<close>

theorem gateway_reply_releases:
  assumes "preview_ServeHTTP g r rok now w = (Replied reply, w')"
  shows "pw_requests w' = pw_requests w
    \<or> (let h = length (pw_requests w) in length (pw_requests w') = Suc h \<and> pq_once (pw_requests w' ! h)
        \<and> \<not> held_by (pw_mgr w') (pw_requests w') h \<and> h \<in> set (pw_pending w'))"
  using replied_cases [OF assms]
proof (elim disjE exE conjE)
  fix w1 h
  assume "granted now w h w1" and w': "w' = preview_Release h w1"
  then obtain parent tok rid ow ws port where a: "preview_Authorize parent tok rid ow ws port now w = (Inr h, w1)"
    unfolding granted_def by blast
  have l: "h = length (pw_requests w)" "length (pw_requests w1) = Suc h" using Authorize_requests [OF a] by simp_all
  have "\<not> pq_once (pw_requests w1 ! h)"
    by (rule preview_Authorize_ok [OF a]) (simp add: Let_def hand_over_def)
  then show ?thesis
    using l Release_not_held [of h w1] Release_once [of h w1] by (simp add: w' Let_def)
qed simp

subsection \<open>A request through the gateway\<close>

definition preview_gw :: gateway where
  "preview_gw = \<lparr>gw_domain = ''p'', gw_resolve = (\<lambda>_. Inr preview_r), gw_target = (\<lambda>_ _. Inr ''t'')\<rparr>"

definition preview_get :: http_request where
  "preview_get = \<lparr>hr_Host = ''R.p:443'', hr_Path = ''/'', hr_Method = ''GET'', hr_Header = [(''Cookie'', [''x''])],
     hr_Cookie = Some preview_tok, hr_Body = (None, True), hr_ContextErr = None\<rparr>"

lemma preview_get_origin: "samePreviewOrigin preview_get (isWebSocketRequest preview_get \<or> \<not> safePreviewMethod ''GET'')"
  by (simp add: samePreviewOrigin_def isWebSocketRequest_def safePreviewMethod_def preview_get_def header_get_def
      trim_space_def trim_right_def equal_fold_def string_runes_def to_lower_def ascii_def Let_def)

lemma preview_get_route: "gateway_routeID preview_gw (hr_Host preview_get) = (''r'', True)"
proof -
  have "lower_text ''R.p:443'' = ''r.p:443''"
    by (simp add: lower_text_def to_lower_def string_runes_def byte_nat_def lower_rune_def encode_rune_def char_of_def bit_0)
  moreover have "SplitHostPort_host ''r.p:443'' = Some ''r.p''"
    by (simp add: SplitHostPort_host_def last_colon_def)
  moreover have "has_suffix ''r.p'' ''.p''" "previewIDPattern ''r''"
    by (simp_all add: has_suffix_def previewIDPattern_def alnum_def byte_nat_def)
  ultimately show ?thesis by (simp add: preview_gw_def preview_get_def gateway_routeID_def)
qed

lemma preview_served:
  "preview_ServeHTTP preview_gw preview_get True 2 preview_w1 = (Proxying 0 ''t'' [], preview_w2)"
proof -
  have "gw_resolve preview_gw ''r'' = Inr preview_r" "gw_target preview_gw ''h'' 3000 = Inr ''t''"
    by (simp_all add: preview_gw_def)
  moreover have "hr_Path preview_get \<noteq> SessionPath" "hr_Cookie preview_get = Some preview_tok" "hr_ContextErr preview_get = None"
    "hr_Method preview_get = ''GET''" "proxy_rewrite (hr_Header preview_get) = []"
    by (simp_all add: preview_get_def SessionPath_def proxy_rewrite_def stripped_headers_def)
  ultimately show ?thesis
    using preview_get_origin preview_get_route preview_authorized by (simp add: preview_ServeHTTP_def preview_r_def)
qed


definition preview_post :: http_request where
  "preview_post = preview_get\<lparr>hr_Method := ''POST''\<rparr>"

lemma preview_posted:
  "preview_ServeHTTP preview_gw preview_post True 2 preview_w1
     = (Replied (HttpError 403 ''preview origin rejected''), preview_Release 0 preview_w2)"
proof -
  have "\<not> samePreviewOrigin preview_post True"
    by (simp add: samePreviewOrigin_def preview_post_def preview_get_def header_get_def trim_space_def trim_right_def)
  moreover have "gateway_routeID preview_gw (hr_Host preview_post) = (''r'', True)"
    using preview_get_route by (simp add: preview_post_def)
  moreover have "hr_Path preview_post \<noteq> SessionPath" "hr_Cookie preview_post = Some preview_tok"
    "hr_ContextErr preview_post = None" "\<not> safePreviewMethod (hr_Method preview_post)"
    by (simp_all add: preview_post_def preview_get_def SessionPath_def safePreviewMethod_def)
  moreover have "gw_resolve preview_gw ''r'' = Inr preview_r" by (simp add: preview_gw_def)
  ultimately show ?thesis using preview_authorized by (simp add: preview_ServeHTTP_def preview_r_def)
qed

theorem gateway_reply_releases_witness: "0 \<in> set (pw_pending (preview_Release 0 preview_w2))"
proof -
  have "pw_requests preview_w1 = []" "length (pw_requests (preview_Release 0 preview_w2)) = 1"
    by (simp_all add: Release_once preview_w1_def preview_w2_def)
  with gateway_reply_releases [OF preview_posted] show ?thesis by (auto simp: Let_def)
qed

end
