(* ===== verification/Passkey_Store.thy ===== *)
theory Passkey_Store
  imports Go_Base64
begin

text \<open>
  \<^verbatim>\<open>passkeys/store.go\<close>: owners, their passkeys and the devices they registered, in the in-process
  store. A WebAuthn credential belongs to the WebAuthn library: the code reads its identity, the
  rest is the type variable \<open>'c\<close>. \<^verbatim>\<open>core.ErrNotFound\<close> and its like are errors without message.
\<close>

subsection \<open>Data\<close>

record 'c webauthn_credential =
  wc_ID :: bytes
  wc_Rest :: 'c

record 'c passkey_owner =
  po_ID :: string
  po_Handle :: bytes
  po_Name :: string
  po_DisplayName :: string
  po_Credentials :: "'c webauthn_credential list"

record 'c credential_record =
  cd_RPID :: string
  cd_OwnerID :: string
  cd_DeviceID :: string
  cd_DeviceName :: string
  cd_DeviceInstanceHash :: bytes
  cd_Credential :: "'c webauthn_credential"
  cd_CreatedAt :: time
  cd_LastUsedAt :: "time option"

record passkey_device =
  pd_ID :: string
  pd_OwnerID :: string
  pd_Name :: string
  pd_Platform :: string
  pd_InstanceHash :: bytes
  pd_CreatedAt :: time
  pd_LastSeenAt :: time

record recovery_proof =
  rp_TokenHash :: bytes
  rp_At :: time

record credential_metadata =
  cm_CredentialID :: bytes
  cm_DeviceID :: string
  cm_DeviceName :: string
  cm_CreatedAt :: time
  cm_LastUsedAt :: "time option"

record 'c passkey_store =
  pk_owners :: "(string, 'c passkey_owner) gomap"
  pk_handleIndex :: "(string, string) gomap"
  pk_credentials :: "(string, 'c credential_record) gomap"
  pk_devices :: "(string, passkey_device) gomap"

definition NewMemoryPasskeyStore :: "'c passkey_store" where
  "NewMemoryPasskeyStore = \<lparr>pk_owners = [], pk_handleIndex = [], pk_credentials = [], pk_devices = []\<rparr>"

definition pk_index :: "string \<Rightarrow> bytes \<Rightarrow> string" where
  "pk_index rpid raw = rpid @ '':'' @ RawURLEncode raw"

definition zero_hash :: bytes where "zero_hash = replicate 32 0"

subsection \<open>Owners\<close>

definition HasOwner :: "'c passkey_store \<Rightarrow> bool" where
  "HasOwner s \<longleftrightarrow> length (pk_owners s) > 0"

primrec distinct_hashes :: "nat \<Rightarrow> passkey_device list \<Rightarrow> bytes list \<Rightarrow> bytes list" where
  "distinct_hashes limit [] seen = rev seen"
| "distinct_hashes limit (d # ds) seen =
     (if pd_InstanceHash d \<in> set seen then distinct_hashes limit ds seen
      else if Suc (length seen) = limit then rev (pd_InstanceHash d # seen)
      else distinct_hashes limit ds (pd_InstanceHash d # seen))"

definition KnownDeviceInstanceHashes :: "int \<Rightarrow> 'c passkey_store \<Rightarrow> bytes list result" where
  "KnownDeviceInstanceHashes limit s =
     (if limit < 1 then Inl (GoErr ErrInvalid ''known device instance limit'')
      else Inr (distinct_hashes (nat limit) (map snd (pk_devices s)) []))"

definition credential_ok :: "'c credential_record \<Rightarrow> bool" where
  "credential_ok r \<longleftrightarrow> \<not> (length (wc_ID (cd_Credential r)) < 1 \<or> length (wc_ID (cd_Credential r)) > 1024)"

definition enrolled_device :: "string \<Rightarrow> 'c credential_record \<Rightarrow> passkey_device" where
  "enrolled_device oid r = \<lparr>pd_ID = cd_DeviceID r, pd_OwnerID = oid, pd_Name = cd_DeviceName r, pd_Platform = ''ios'',
     pd_InstanceHash = cd_DeviceInstanceHash r, pd_CreatedAt = cd_CreatedAt r, pd_LastSeenAt = cd_CreatedAt r\<rparr>"

text \<open>The four writes of an enrolment.\<close>

definition enrol :: "string \<Rightarrow> 'c passkey_owner \<Rightarrow> 'c credential_record \<Rightarrow> 'c passkey_store \<Rightarrow> 'c passkey_store" where
  "enrol oid ow r s = s\<lparr>
     pk_owners := AList.update oid (ow\<lparr>po_Credentials := [cd_Credential r]\<rparr>) (pk_owners s),
     pk_handleIndex := AList.update (pk_index (cd_RPID r) (po_Handle ow)) oid (pk_handleIndex s),
     pk_credentials := AList.update (pk_index (cd_RPID r) (wc_ID (cd_Credential r))) r (pk_credentials s),
     pk_devices := AList.update (cd_DeviceID r) (enrolled_device oid r) (pk_devices s)\<rparr>"

definition CreateOwnerWithCredential ::
  "'c passkey_owner \<Rightarrow> 'c credential_record \<Rightarrow> 'c passkey_store \<Rightarrow> goerr option \<times> 'c passkey_store" where
  "CreateOwnerWithCredential ow r s =
     (if length (pk_owners s) > 0 \<or> po_ID ow = [] \<or> length (po_Handle ow) \<noteq> 64 \<or> cd_OwnerID r \<noteq> po_ID ow
         \<or> \<not> credential_ok r
      then (Some (errorsNew ''owner or credential conflict''), s)
      else (None, enrol (po_ID ow) ow r s))"

definition owned_by :: "string \<Rightarrow> string \<Rightarrow> 'c credential_record \<Rightarrow> bool" where
  "owned_by ow rpid r \<longleftrightarrow> cd_OwnerID r = ow \<and> cd_RPID r = rpid"

definition OwnerForRecovery :: "string \<Rightarrow> string \<Rightarrow> 'c passkey_store \<Rightarrow> 'c passkey_owner result" where
  "OwnerForRecovery rpid ow s =
     (case map_of (pk_owners s) ow of
        None \<Rightarrow> Inl (errorsNew ''recovery owner not found'')
      | Some v \<Rightarrow>
          if po_ID v = [] \<or> length (po_Handle v) \<noteq> 64 then Inl (errorsNew ''recovery owner not found'')
          else if \<exists>x \<in> set (pk_credentials s). owned_by ow rpid (snd x) then Inl (errorsNew ''owner still has a passkey'')
          else Inr (v\<lparr>po_Credentials := []\<rparr>))"

definition CreateCredentialForRecoveredOwner ::
  "'c passkey_owner \<Rightarrow> 'c credential_record \<Rightarrow> recovery_proof \<Rightarrow> 'c passkey_store
    \<Rightarrow> goerr option \<times> 'c passkey_store" where
  "CreateCredentialForRecoveredOwner ow r proof s =
     (case map_of (pk_owners s) (po_ID ow) of
        None \<Rightarrow> (Some (errorsNew ''recovery owner or credential conflict''), s)
      | Some stored \<Rightarrow>
          if length (po_Handle stored) \<noteq> 64 \<or> cd_OwnerID r \<noteq> po_ID ow \<or> \<not> credential_ok r
             \<or> rp_TokenHash proof = zero_hash \<or> rp_At proof = 0
          then (Some (errorsNew ''recovery owner or credential conflict''), s)
          else if \<exists>x \<in> set (pk_credentials s). owned_by (po_ID ow) (cd_RPID r) (snd x)
          then (Some (errorsNew ''owner already has a passkey''), s)
          else (None, enrol (po_ID ow) stored r s))"

subsection \<open>Passkeys\<close>

definition owner_count :: "string \<Rightarrow> string \<Rightarrow> 'c passkey_store \<Rightarrow> nat" where
  "owner_count ow rpid s = count_where (\<lambda>_. owned_by ow rpid) (pk_credentials s)"

definition OwnerForAdditionalCredential ::
  "string \<Rightarrow> string \<Rightarrow> string \<Rightarrow> bytes \<Rightarrow> 'c passkey_store \<Rightarrow> 'c passkey_owner result" where
  "OwnerForAdditionalCredential rpid ow dev hash s =
     (case (map_of (pk_owners s) ow, map_of (pk_devices s) dev) of
        (Some v, Some d) \<Rightarrow>
          if pd_OwnerID d \<noteq> ow \<or> pd_InstanceHash d \<noteq> hash then Inl (GoErr ErrNotFound [])
          else let cs = map (\<lambda>x. cd_Credential (snd x)) (filter (\<lambda>x. owned_by ow rpid (snd x)) (pk_credentials s))
               in if cs = [] then Inl (GoErr ErrNotFound []) else Inr (v\<lparr>po_Credentials := cs\<rparr>)
      | _ \<Rightarrow> Inl (GoErr ErrNotFound []))"

definition CreateAdditionalCredential ::
  "'c passkey_owner \<Rightarrow> 'c credential_record \<Rightarrow> 'c passkey_store \<Rightarrow> goerr option \<times> 'c passkey_store" where
  "CreateAdditionalCredential ow r s =
     (case (map_of (pk_owners s) (po_ID ow), map_of (pk_devices s) (cd_DeviceID r)) of
        (Some stored, Some d) \<Rightarrow>
          if pd_OwnerID d \<noteq> po_ID ow \<or> cd_OwnerID r \<noteq> po_ID ow \<or> pd_InstanceHash d \<noteq> cd_DeviceInstanceHash r
             \<or> \<not> credential_ok r
          then (Some (GoErr ErrNotFound []), s)
          else let n = owner_count (po_ID ow) (cd_RPID r) s
          in if n < 1 then (Some (GoErr ErrPrecondition []), s)
          else if n \<ge> 20 then (Some (GoErr ErrCapacity []), s)
          else let key = pk_index (cd_RPID r) (wc_ID (cd_Credential r))
          in if map_of (pk_credentials s) key \<noteq> None then (Some (GoErr ErrConflict []), s)
          else (None, s\<lparr>pk_credentials := AList.update key r (pk_credentials s),
                 pk_owners := AList.update (po_ID ow)
                   (stored\<lparr>po_Credentials := po_Credentials stored @ [cd_Credential r]\<rparr>) (pk_owners s)\<rparr>)
      | _ \<Rightarrow> (Some (GoErr ErrNotFound []), s))"

text \<open>The order of the listing: by creation, then by the bytes of the identity.\<close>

definition metadata_le :: "credential_metadata \<Rightarrow> credential_metadata \<Rightarrow> bool" where
  "metadata_le a b \<longleftrightarrow> cm_CreatedAt a < cm_CreatedAt b
     \<or> cm_CreatedAt a = cm_CreatedAt b \<and> \<not> (cm_CredentialID b, cm_CredentialID a) \<in> lexord {(x, y). x < y}"

primrec insert_metadata :: "credential_metadata \<Rightarrow> credential_metadata list \<Rightarrow> credential_metadata list" where
  "insert_metadata x [] = [x]"
| "insert_metadata x (y # ys) = (if metadata_le x y then x # y # ys else y # insert_metadata x ys)"

definition metadata_of :: "'c credential_record \<Rightarrow> credential_metadata" where
  "metadata_of r = \<lparr>cm_CredentialID = wc_ID (cd_Credential r), cm_DeviceID = cd_DeviceID r, cm_DeviceName = cd_DeviceName r,
     cm_CreatedAt = cd_CreatedAt r, cm_LastUsedAt = cd_LastUsedAt r\<rparr>"

definition ListCredentialMetadata :: "string \<Rightarrow> string \<Rightarrow> 'c passkey_store \<Rightarrow> credential_metadata list result" where
  "ListCredentialMetadata rpid ow s =
     (if map_of (pk_owners s) ow = None then Inl (GoErr ErrNotFound [])
      else Inr (foldr insert_metadata
        (map (\<lambda>x. metadata_of (snd x)) (filter (\<lambda>x. owned_by ow rpid (snd x)) (pk_credentials s))) []))"

definition RevokeCredential :: "string \<Rightarrow> string \<Rightarrow> bytes \<Rightarrow> 'c passkey_store \<Rightarrow> goerr option \<times> 'c passkey_store" where
  "RevokeCredential rpid ow cid s =
     (case map_of (pk_owners s) ow of
        None \<Rightarrow> (Some (GoErr ErrNotFound []), s)
      | Some v \<Rightarrow>
          let key = pk_index rpid cid
          in (case map_of (pk_credentials s) key of
                None \<Rightarrow> (None, s)
              | Some r \<Rightarrow>
                  if cd_OwnerID r \<noteq> ow then (Some (GoErr ErrNotFound []), s)
                  else if owner_count ow rpid s \<le> 1 then (Some (GoErr ErrPrecondition []), s)
                  else (None, s\<lparr>pk_credentials := AList.delete key (pk_credentials s),
                         pk_owners := AList.update ow
                           (v\<lparr>po_Credentials := filter (\<lambda>c. wc_ID c \<noteq> cid) (po_Credentials v)\<rparr>) (pk_owners s)\<rparr>)))"

text \<open>\<^verbatim>\<open>ownerLocked\<close> reads a missing owner as the zero owner.\<close>

definition zero_owner :: "'c passkey_owner" where
  "zero_owner = \<lparr>po_ID = [], po_Handle = [], po_Name = [], po_DisplayName = [], po_Credentials = []\<rparr>"

definition ownerLocked :: "string \<Rightarrow> 'c passkey_store \<Rightarrow> 'c passkey_owner" where
  "ownerLocked ow s = (case map_of (pk_owners s) ow of None \<Rightarrow> zero_owner | Some v \<Rightarrow> v)"

definition OwnerByHandle :: "string \<Rightarrow> bytes \<Rightarrow> 'c passkey_store \<Rightarrow> 'c passkey_owner result" where
  "OwnerByHandle rpid handle s =
     (case map_of (pk_handleIndex s) (pk_index rpid handle) of
        None \<Rightarrow> Inl (errorsNew ''owner not found'')
      | Some ow \<Rightarrow> Inr (ownerLocked ow s))"

definition OwnerByID :: "string \<Rightarrow> string \<Rightarrow> 'c passkey_store \<Rightarrow> 'c passkey_owner result" where
  "OwnerByID rpid ow s =
     (case map_of (pk_owners s) ow of
        None \<Rightarrow> Inl (errorsNew ''owner not found'')
      | Some v \<Rightarrow>
          if (case map_of (pk_handleIndex s) (pk_index rpid (po_Handle v)) of None \<Rightarrow> [] | Some i \<Rightarrow> i) \<noteq> ow
          then Inl (errorsNew ''owner not found'') else Inr (ownerLocked ow s))"

definition SaveCredential :: "'c credential_record \<Rightarrow> 'c passkey_store \<Rightarrow> goerr option \<times> 'c passkey_store" where
  "SaveCredential r s =
     (case map_of (pk_owners s) (cd_OwnerID r) of
        None \<Rightarrow> (Some (errorsNew ''owner not found''), s)
      | Some v \<Rightarrow>
          let key = pk_index (cd_RPID r) (wc_ID (cd_Credential r))
          in (case map_of (pk_credentials s) key of
                None \<Rightarrow> (Some (errorsNew ''credential not found''), s)
              | Some prior \<Rightarrow>
                  if cd_OwnerID prior \<noteq> cd_OwnerID r then (Some (errorsNew ''credential not found''), s)
                  else (None, s\<lparr>pk_credentials := AList.update key r (pk_credentials s),
                         pk_owners := AList.update (po_ID v)
                           (v\<lparr>po_Credentials := map (\<lambda>c. if wc_ID c = wc_ID (cd_Credential r) then cd_Credential r else c)
                              (po_Credentials v)\<rparr>) (pk_owners s)\<rparr>)))"

definition find_record :: "string \<Rightarrow> bytes \<Rightarrow> 'c passkey_store \<Rightarrow> 'c credential_record result" where
  "find_record rpid cid s =
     (case map_of (pk_credentials s) (pk_index rpid cid) of
        None \<Rightarrow> Inl (errorsNew ''credential not found'') | Some r \<Rightarrow> Inr r)"

subsection \<open>Devices\<close>

text \<open>Go ranges over the devices in no fixed order; the model takes the first match of the list.\<close>

definition ResolveDevice :: "passkey_device \<Rightarrow> 'c passkey_store \<Rightarrow> passkey_device result \<times> 'c passkey_store" where
  "ResolveDevice d s =
     (if pd_ID d = [] \<or> pd_OwnerID d = [] \<or> pd_Name d = [] \<or> pd_Platform d \<noteq> ''ios'' \<or> pd_CreatedAt d = 0 \<or> pd_LastSeenAt d = 0
      then (Inl (errorsNew ''invalid device''), s)
      else if map_of (pk_owners s) (pd_OwnerID d) = None then (Inl (errorsNew ''owner not found''), s)
      else (case filter (\<lambda>x. pd_OwnerID (snd x) = pd_OwnerID d \<and> pd_InstanceHash (snd x) = pd_InstanceHash d) (pk_devices s) of
          x # _ \<Rightarrow>
            let e = (snd x)\<lparr>pd_Name := pd_Name d, pd_LastSeenAt := pd_LastSeenAt d\<rparr>
            in (Inr e, s\<lparr>pk_devices := AList.update (fst x) e (pk_devices s)\<rparr>)
        | [] \<Rightarrow> (Inr d, s\<lparr>pk_devices := AList.update (pd_ID d) d (pk_devices s)\<rparr>)))"

end
