(* ===== verification/Passkey_Admission.thy ===== *)
theory Passkey_Admission
  imports Passkey_Store
begin

text \<open>
  \<^verbatim>\<open>passkeys/admission.go\<close> and the ceremony table of \<^verbatim>\<open>passkeys/service.go\<close>: who may start an anonymous
  login, under token buckets per installation and for known and unknown installations together, and
  under limits on the ceremonies held. \<^verbatim>\<open>BeginLogin\<close> reserves, builds its options without the lock and
  then commits or cancels, so any operations may run in between. A \<^verbatim>\<open>*deviceLoginAdmission\<close> is its entry of
  \<^verbatim>\<open>byDevice\<close>. The state of a WebAuthn ceremony is the type variable \<open>'s\<close>.
\<close>

subsection \<open>Token buckets\<close>

record tokenBucket =
  tb_tokens :: int
  tb_lastRefilled :: time

definition newTokenBucket :: "int \<Rightarrow> tokenBucket" where
  "newTokenBucket n = \<lparr>tb_tokens = n, tb_lastRefilled = 0\<rparr>"

text \<open>\<^verbatim>\<open>time.Time.Sub\<close> saturates.\<close>

definition time_Sub :: "time \<Rightarrow> time \<Rightarrow> time" where
  "time_Sub a b = max (- (2 ^ 63)) (min (2 ^ 63 - 1) (a - b))"

definition refill :: "time \<Rightarrow> int \<Rightarrow> time \<Rightarrow> tokenBucket \<Rightarrow> tokenBucket" where
  "refill now capacity interval b =
     (if tb_lastRefilled b = 0 then \<lparr>tb_tokens = capacity, tb_lastRefilled = now\<rparr>
      else if now < tb_lastRefilled b then b\<lparr>tb_lastRefilled := now\<rparr>
      else if tb_tokens b \<ge> capacity then \<lparr>tb_tokens = capacity, tb_lastRefilled = now\<rparr>
      else let refills = time_Sub now (tb_lastRefilled b) sdiv interval
      in if refills < 1 then b
      else let tokens = min capacity (tb_tokens b + refills)
      in if tokens = capacity then \<lparr>tb_tokens = tokens, tb_lastRefilled = now\<rparr>
         else \<lparr>tb_tokens = tokens, tb_lastRefilled = tb_lastRefilled b + refills * interval\<rparr>)"

definition deviceLoginBurst :: int where "deviceLoginBurst = 4"
definition deviceLoginRefillInterval :: time where "deviceLoginRefillInterval = 15 * second"
definition unknownLoginBurst :: int where "unknownLoginBurst = 32"
definition unknownLoginRefill :: time where "unknownLoginRefill = second"
definition knownLoginBurst :: int where "knownLoginBurst = 32"
definition knownLoginRefill :: time where "knownLoginRefill = 250000000"
definition maximumCeremonies :: int where "maximumCeremonies = 4096"
definition privilegedCeremonyReserve :: int where "privilegedCeremonyReserve = 256"
definition maximumLoginCeremonies :: int where "maximumLoginCeremonies = maximumCeremonies - privilegedCeremonyReserve"
definition maximumUnknownLoginCeremonies :: int where "maximumUnknownLoginCeremonies = 512"
definition maximumKnownDeviceInstances :: int where "maximumKnownDeviceInstances = 4096"
definition maximumAdmissionDevices :: int where
  "maximumAdmissionDevices = maximumKnownDeviceInstances + maximumUnknownLoginCeremonies"
definition knownDeviceLoadRetry :: time where "knownDeviceLoadRetry = second"
definition ceremonyTTL :: time where "ceremonyTTL = 5 * minute"

lemmas login_limits = deviceLoginBurst_def deviceLoginRefillInterval_def unknownLoginBurst_def unknownLoginRefill_def
  knownLoginBurst_def knownLoginRefill_def maximumCeremonies_def privilegedCeremonyReserve_def maximumLoginCeremonies_def
  maximumUnknownLoginCeremonies_def maximumKnownDeviceInstances_def maximumAdmissionDevices_def

subsection \<open>State\<close>

datatype ceremony_kind = ceremonyBootstrap | ceremonyAdditional | ceremonyLogin

record device_binding =
  bn_InstanceID :: string
  bn_Name :: string

record ('c, 's) ceremony =
  ce_ID :: string
  ce_Kind :: ceremony_kind
  ce_Owner :: "'c passkey_owner"
  ce_DeviceID :: string
  ce_Device :: device_binding
  ce_DeviceHash :: bytes
  ce_BootstrapToken :: string
  ce_RecoveryOwner :: string
  ce_KnownDevice :: bool
  ce_Session :: 's
  ce_ExpiresAt :: time

record deviceLoginAdmission =
  dl_rate :: tokenBucket
  dl_inFlight :: bool

record loginReservation =
  lr_deviceHash :: bytes
  lr_known :: bool
  lr_reserved :: bool

record ('c, 's) passkey_state =
  ps_ceremonies :: "(string, ('c, 's) ceremony) gomap"
  ps_byDevice :: "(bytes, deviceLoginAdmission) gomap"
  ps_byActive :: "(bytes, string) gomap"
  ps_unknownRate :: tokenBucket
  ps_knownRate :: tokenBucket
  ps_active :: int
  ps_unknownActive :: int
  ps_pendingSlots :: int
  ps_pendingUnknown :: int
  ps_knownReady :: bool
  ps_knownRetry :: time
  ps_knownErr :: "goerr option"
  ps_known :: "bytes list"

text \<open>A new service, with \<^verbatim>\<open>newLoginAdmissionState\<close>.\<close>

definition new_passkey_state :: "('c, 's) passkey_state" where
  "new_passkey_state = \<lparr>ps_ceremonies = [], ps_byDevice = [], ps_byActive = [],
     ps_unknownRate = newTokenBucket unknownLoginBurst, ps_knownRate = newTokenBucket knownLoginBurst,
     ps_active = 0, ps_unknownActive = 0, ps_pendingSlots = 0, ps_pendingUnknown = 0, ps_knownReady = False,
     ps_knownRetry = 0, ps_knownErr = None, ps_known = []\<rparr>"

abbreviation errLoginAdmissionUnavailable :: goerr where
  "errLoginAdmissionUnavailable \<equiv> GoErr ErrCapacity ''passkey login admission''"

subsection \<open>Known installations\<close>

text \<open>\<open>load\<close> is what \<^verbatim>\<open>KnownDeviceInstanceHashes\<close> answers if it is asked.\<close>

definition knownDevice ::
  "bytes list result \<Rightarrow> time \<Rightarrow> bytes \<Rightarrow> ('c, 's) passkey_state \<Rightarrow> bool result \<times> ('c, 's) passkey_state" where
  "knownDevice load now dh s =
     (if ps_knownReady s then (Inr (dh \<in> set (ps_known s)), s)
      else (case ps_knownErr s of
          Some e \<Rightarrow>
            if now < ps_knownRetry s then (Inl e, s)
            else (case load of
                Inl e \<Rightarrow> (Inl e, s\<lparr>ps_knownErr := Some e, ps_knownRetry := now + knownDeviceLoadRetry\<rparr>)
              | Inr vs \<Rightarrow> (Inr (dh \<in> set (vs @ ps_known s)),
                  s\<lparr>ps_known := vs @ ps_known s, ps_knownReady := True, ps_knownErr := None, ps_knownRetry := 0\<rparr>))
        | None \<Rightarrow>
            (case load of
               Inl e \<Rightarrow> (Inl e, s\<lparr>ps_knownErr := Some e, ps_knownRetry := now + knownDeviceLoadRetry\<rparr>)
             | Inr vs \<Rightarrow> (Inr (dh \<in> set (vs @ ps_known s)),
                 s\<lparr>ps_known := vs @ ps_known s, ps_knownReady := True, ps_knownErr := None, ps_knownRetry := 0\<rparr>))))"

text \<open>The set of known installations is a list; its size is the number of distinct elements.\<close>

definition rememberKnownDevice :: "bytes \<Rightarrow> ('c, 's) passkey_state \<Rightarrow> ('c, 's) passkey_state" where
  "rememberKnownDevice dh s =
     (if \<not> ps_knownReady s then s
      else if dh \<in> set (ps_known s) \<or> int (length (remdups (ps_known s))) < maximumKnownDeviceInstances
      then s\<lparr>ps_known := dh # ps_known s\<rparr> else s)"

subsection \<open>Ceremonies\<close>

definition removeCeremonyLocked :: "string \<Rightarrow> ('c, 's) ceremony \<Rightarrow> ('c, 's) passkey_state \<Rightarrow> ('c, 's) passkey_state" where
  "removeCeremonyLocked cid c s =
     (let s1 = s\<lparr>ps_ceremonies := AList.delete cid (ps_ceremonies s)\<rparr>
      in if ce_Kind c \<noteq> ceremonyLogin then s1
         else if map_of (ps_byActive s) (ce_DeviceHash c) \<noteq> Some cid then s1
         else s1\<lparr>ps_byActive := AList.delete (ce_DeviceHash c) (ps_byActive s),
                ps_active := (if ps_active s > 0 then ps_active s - 1 else ps_active s),
                ps_unknownActive := (if \<not> ce_KnownDevice c \<and> ps_unknownActive s > 0 then ps_unknownActive s - 1
                                     else ps_unknownActive s)\<rparr>)"

primrec remove_expired ::
  "time \<Rightarrow> (string \<times> ('c, 's) ceremony) list \<Rightarrow> ('c, 's) passkey_state \<Rightarrow> ('c, 's) passkey_state" where
  "remove_expired now [] s = s"
| "remove_expired now (x # xs) s =
     remove_expired now xs (if \<not> now < ce_ExpiresAt (snd x) then removeCeremonyLocked (fst x) (snd x) s else s)"

definition cleanupCeremoniesLocked :: "time \<Rightarrow> ('c, 's) passkey_state \<Rightarrow> ('c, 's) passkey_state" where
  "cleanupCeremoniesLocked now s = remove_expired now (ps_ceremonies s) s"

definition releasePendingLocked :: "bool \<Rightarrow> ('c, 's) passkey_state \<Rightarrow> ('c, 's) passkey_state" where
  "releasePendingLocked known s =
     s\<lparr>ps_pendingSlots := (if ps_pendingSlots s > 0 then ps_pendingSlots s - 1 else ps_pendingSlots s),
       ps_pendingUnknown := (if \<not> known \<and> ps_pendingUnknown s > 0 then ps_pendingUnknown s - 1 else ps_pendingUnknown s)\<rparr>"

definition refill_device :: "time \<Rightarrow> deviceLoginAdmission \<Rightarrow> deviceLoginAdmission" where
  "refill_device now d = d\<lparr>dl_rate := refill now deviceLoginBurst deviceLoginRefillInterval (dl_rate d)\<rparr>"

definition cleanupAdmissionsLocked :: "time \<Rightarrow> ('c, 's) passkey_state \<Rightarrow> ('c, 's) passkey_state" where
  "cleanupAdmissionsLocked now s =
     s\<lparr>ps_byDevice := filter
         (\<lambda>(dh, d). \<not> (\<not> dl_inFlight d \<and> map_of (ps_byActive s) dh = None \<and> tb_tokens (dl_rate d) = deviceLoginBurst))
         (map (\<lambda>(dh, d). (dh, refill_device now d)) (ps_byDevice s))\<rparr>"

definition ceremony_capacity :: "bool \<Rightarrow> ('c, 's) passkey_state \<Rightarrow> bool" where
  "ceremony_capacity known s \<longleftrightarrow>
     int (length (ps_ceremonies s)) + ps_pendingSlots s \<ge> maximumCeremonies
     \<or> ps_active s + ps_pendingSlots s \<ge> maximumLoginCeremonies
     \<or> (\<not> known \<and> ps_unknownActive s + ps_pendingUnknown s \<ge> maximumUnknownLoginCeremonies)"

subsection \<open>Login admission\<close>

definition spend :: "tokenBucket \<Rightarrow> tokenBucket" where
  "spend b = b\<lparr>tb_tokens := tb_tokens b - 1\<rparr>"

text \<open>The bucket \<^verbatim>\<open>global\<close> points to.\<close>

definition global_refilled :: "bool \<Rightarrow> time \<Rightarrow> ('c, 's) passkey_state \<Rightarrow> tokenBucket" where
  "global_refilled known now s =
     (if known then refill now knownLoginBurst knownLoginRefill (ps_knownRate s)
      else refill now unknownLoginBurst unknownLoginRefill (ps_unknownRate s))"

definition set_global :: "bool \<Rightarrow> tokenBucket \<Rightarrow> ('c, 's) passkey_state \<Rightarrow> ('c, 's) passkey_state" where
  "set_global known g s = (if known then s\<lparr>ps_knownRate := g\<rparr> else s\<lparr>ps_unknownRate := g\<rparr>)"

definition found_device :: "deviceLoginAdmission option \<Rightarrow> deviceLoginAdmission" where
  "found_device found = (case found of Some d \<Rightarrow> d
     | None \<Rightarrow> \<lparr>dl_rate = newTokenBucket deviceLoginBurst, dl_inFlight = False\<rparr>)"

definition reserveLogin ::
  "bytes \<Rightarrow> bool \<Rightarrow> time \<Rightarrow> ('c, 's) passkey_state \<Rightarrow> loginReservation result \<times> ('c, 's) passkey_state" where
  "reserveLogin dh known now s0 =
     (let s = cleanupAdmissionsLocked now (cleanupCeremoniesLocked now s0);
          found = map_of (ps_byDevice s) dh
      in if found = None \<and> int (length (ps_byDevice s)) \<ge> maximumAdmissionDevices
         then (Inl errLoginAdmissionUnavailable, s)
         else
           let d = refill_device now (found_device found);
               s1 = (if found = None then s else s\<lparr>ps_byDevice := AList.update dh d (ps_byDevice s)\<rparr>)
           in if dl_inFlight d \<or> tb_tokens (dl_rate d) < 1 then (Inl errLoginAdmissionUnavailable, s1)
              else
                let g = global_refilled known now s1; s2 = set_global known g s1
                in if tb_tokens g < 1 then (Inl errLoginAdmissionUnavailable, s2)
                   else
                     let replacing = (map_of (ps_byActive s2) dh \<noteq> None)
                     in if \<not> replacing \<and> ceremony_capacity known s2 then (Inl errLoginAdmissionUnavailable, s2)
                        else
                          let d' = d\<lparr>dl_rate := spend (dl_rate d), dl_inFlight := True\<rparr>;
                              s3 = (set_global known (spend g) s2)\<lparr>ps_byDevice := AList.update dh d' (ps_byDevice s2)\<rparr>;
                              s4 = (if replacing then s3 else s3\<lparr>ps_pendingSlots := ps_pendingSlots s3 + 1,
                                      ps_pendingUnknown := (if known then ps_pendingUnknown s3 else ps_pendingUnknown s3 + 1)\<rparr>)
                          in (Inr \<lparr>lr_deviceHash = dh, lr_known = known, lr_reserved = \<not> replacing\<rparr>, s4))"

definition set_inFlight :: "bytes \<Rightarrow> bool \<Rightarrow> ('c, 's) passkey_state \<Rightarrow> ('c, 's) passkey_state" where
  "set_inFlight dh b s =
     (case map_of (ps_byDevice s) dh of
        None \<Rightarrow> s | Some d \<Rightarrow> s\<lparr>ps_byDevice := AList.update dh (d\<lparr>dl_inFlight := b\<rparr>) (ps_byDevice s)\<rparr>)"

definition cancelLogin :: "loginReservation \<Rightarrow> ('c, 's) passkey_state \<Rightarrow> ('c, 's) passkey_state" where
  "cancelLogin r s =
     (let s1 = set_inFlight (lr_deviceHash r) False s
      in if lr_reserved r then releasePendingLocked (lr_known r) s1 else s1)"

definition commitLogin ::
  "loginReservation \<Rightarrow> ('c, 's) ceremony \<Rightarrow> time \<Rightarrow> ('c, 's) passkey_state \<Rightarrow> goerr option \<times> ('c, 's) passkey_state" where
  "commitLogin r c now s0 =
     (let s = cleanupCeremoniesLocked now s0; dh = lr_deviceHash r
      in if (case map_of (ps_byDevice s) dh of None \<Rightarrow> True | Some d \<Rightarrow> \<not> dl_inFlight d)
            \<or> ce_Kind c \<noteq> ceremonyLogin \<or> ce_DeviceHash c \<noteq> dh \<or> ce_KnownDevice c \<noteq> lr_known r
         then (Some (errorsNew ''invalid passkey login reservation''), s)
         else if map_of (ps_ceremonies s) (ce_ID c) \<noteq> None
         then (Some (GoErr ErrConflict ''passkey ceremony identity''), s)
         else
           let existing = (case map_of (ps_byActive s) dh of
                 None \<Rightarrow> None | Some i \<Rightarrow> map_option (\<lambda>v. (i, v)) (map_of (ps_ceremonies s) i));
               s1 = (case existing of None \<Rightarrow> s | Some (i, v) \<Rightarrow> removeCeremonyLocked i v s);
               s2 = (if lr_reserved r then releasePendingLocked (lr_known r) s1 else s1)
           in if \<not> lr_reserved r \<and> existing = None \<and> ceremony_capacity (lr_known r) s2
              then (Some errLoginAdmissionUnavailable, s2)
              else (None, set_inFlight dh False
                (s2\<lparr>ps_ceremonies := AList.update (ce_ID c) (c\<lparr>ce_ExpiresAt := now + ceremonyTTL\<rparr>) (ps_ceremonies s2),
                    ps_byActive := AList.update (ce_DeviceHash c) (ce_ID c) (ps_byActive s2),
                    ps_active := ps_active s2 + 1,
                    ps_unknownActive := (if ce_KnownDevice c then ps_unknownActive s2 else ps_unknownActive s2 + 1)\<rparr>)))"

definition consume ::
  "string \<Rightarrow> ceremony_kind \<Rightarrow> time \<Rightarrow> ('c, 's) passkey_state \<Rightarrow> ('c, 's) ceremony result \<times> ('c, 's) passkey_state" where
  "consume cid kind now s0 =
     (let s = cleanupCeremoniesLocked now s0;
          invalid = Inl (GoErr ErrInvalid ''invalid, expired, or already used passkey ceremony'')
      in case map_of (ps_ceremonies s) cid of
           None \<Rightarrow> (invalid, s)
         | Some c \<Rightarrow> if ce_Kind c \<noteq> kind then (invalid, s) else (Inr c, removeCeremonyLocked cid c s))"

definition saveCeremony :: "('c, 's) ceremony \<Rightarrow> time \<Rightarrow> ('c, 's) passkey_state \<Rightarrow> goerr option \<times> ('c, 's) passkey_state" where
  "saveCeremony c now s0 =
     (let s = cleanupCeremoniesLocked now s0
      in if ce_Kind c = ceremonyLogin then (Some (errorsNew ''login ceremonies require admission''), s)
         else if int (length (ps_ceremonies s)) + ps_pendingSlots s \<ge> maximumCeremonies
         then (Some (GoErr ErrCapacity ''passkey ceremony capacity''), s)
         else if map_of (ps_ceremonies s) (ce_ID c) \<noteq> None
         then (Some (GoErr ErrConflict ''passkey ceremony identity''), s)
         else (None, s\<lparr>ps_ceremonies := AList.update (ce_ID c) (c\<lparr>ce_ExpiresAt := now + ceremonyTTL\<rparr>) (ps_ceremonies s)\<rparr>))"

end
