(* ===== verification/Passkey_Limits.thy ===== *)
theory Passkey_Limits
  imports Passkey_Admission
begin

text \<open>
  Properties of login admission over every interleaving of logins, registrations and their completion:
  the slot counters are exact, anonymous logins can never take the slots kept for registration, and no
  installation logs in faster than its bucket refills. The three token buckets are interpretations of one
  locale, whose potential bounds what a bucket can spend while the clock moves on.
\<close>

subsection \<open>The potential of a token bucket\<close>

definition bucket_ok :: "int \<Rightarrow> tokenBucket \<Rightarrow> bool" where
  "bucket_ok capacity b \<longleftrightarrow> 0 \<le> tb_tokens b \<and> tb_tokens b \<le> capacity \<and> 0 \<le> tb_lastRefilled b"

definition credit :: "int \<Rightarrow> time \<Rightarrow> time \<Rightarrow> tokenBucket \<Rightarrow> int" where
  "credit capacity interval t b =
     (if tb_lastRefilled b = 0 then capacity * interval
      else tb_tokens b * interval + max 0 (t - tb_lastRefilled b))"

locale login_bucket =
  fixes capacity interval :: int
  assumes capacity_pos: "0 < capacity" and interval_pos: "0 < interval"
    and window: "capacity * interval < 2 ^ 63"
begin

lemma refills_le:
  assumes "tb_lastRefilled b \<le> t" "d = time_Sub t (tb_lastRefilled b) sdiv interval"
  shows "d * interval \<le> t - tb_lastRefilled b" "d < capacity \<Longrightarrow> t - tb_lastRefilled b < (d + 1) * interval" "0 \<le> d"
proof -
  let ?e = "t - tb_lastRefilled b"
  have s: "time_Sub t (tb_lastRefilled b) = min (2 ^ 63 - 1) ?e" "0 \<le> min (2 ^ 63 - 1) ?e"
    using assms(1) by (auto simp: time_Sub_def)
  then have d: "d = min (2 ^ 63 - 1) ?e div interval" using assms(2) interval_pos by (simp add: sdiv_pos)
  have "X div interval * interval \<le> X \<and> X < (X div interval + 1) * interval" for X :: int
    using interval_pos pos_mod_sign [of interval X] pos_mod_bound [of interval X]
    by (simp add: minus_mod_eq_div_mult [symmetric] distrib_right)
  then have m: "d * interval \<le> min (2 ^ 63 - 1) ?e" "min (2 ^ 63 - 1) ?e < (d + 1) * interval"
    unfolding d by blast+
  from m(1) show "d * interval \<le> ?e" by linarith
  show "0 \<le> d" unfolding d using s(2) interval_pos by (simp add: pos_imp_zdiv_nonneg_iff)
  show "?e < (d + 1) * interval" if "d < capacity"
  proof -
    have "(d + 1) * interval \<le> capacity * interval" using that interval_pos by (intro mult_right_mono) auto
    with m(2) window show ?thesis by linarith
  qed
qed

lemma refill_credit:
  assumes "bucket_ok capacity b" "0 < t"
  shows "credit capacity interval t (refill t capacity interval b) \<le> credit capacity interval t b"
    and "credit capacity interval t (refill t capacity interval b) \<le> capacity * interval"
    and "tb_lastRefilled (refill t capacity interval b) \<noteq> 0"
proof -
  let ?r = "refill t capacity interval b" and ?l = "tb_lastRefilled b" and ?n = "tb_tokens b"
  have n: "0 \<le> ?n" "?n \<le> capacity" "0 \<le> ?l" using assms(1) by (simp_all add: bucket_ok_def)
  then have nI: "?n * interval \<le> capacity * interval" using interval_pos by (intro mult_right_mono) auto
  have "credit capacity interval t ?r \<le> credit capacity interval t b \<and> credit capacity interval t ?r \<le> capacity * interval
    \<and> tb_lastRefilled ?r \<noteq> 0"
  proof (cases "?l = 0 \<or> t < ?l \<or> ?n \<ge> capacity")
    case True
    with n nI assms(2) show ?thesis by (auto simp: refill_def credit_def)
  next
    case False
    define d where "d = time_Sub t ?l sdiv interval"
    have l: "?l \<le> t" "?l \<noteq> 0" "?n < capacity" using False by auto
    note d = refills_le [OF l(1) d_def]
    show ?thesis
    proof (cases "d < 1")
      case True
      with d(3) have "d = 0" by simp
      with d(2) capacity_pos have "t - ?l < interval" by simp
      moreover have "(?n + 1) * interval \<le> capacity * interval" using l(3) interval_pos by (intro mult_right_mono) auto
      ultimately have "?n * interval + (t - ?l) \<le> capacity * interval" by (simp add: distrib_right)
      with True l show ?thesis by (simp add: refill_def credit_def d_def [symmetric] Let_def)
    next
      case d1: False
      show ?thesis
      proof (cases "?n + d < capacity")
        case True
        then have "t - ?l < (d + 1) * interval" using d(2) n(1) by simp
        moreover have "(?n + d + 1) * interval \<le> capacity * interval"
          using True interval_pos by (intro mult_right_mono) auto
        moreover have "0 < ?l + d * interval" using l(2) n(3) d(3) interval_pos by (simp add: add_pos_nonneg)
        ultimately show ?thesis
          using True d1 d(1) l by (auto simp: refill_def credit_def d_def [symmetric] Let_def min_def algebra_simps)
      next
        case full: False
        have "capacity * interval \<le> (?n + d) * interval" using full interval_pos by (intro mult_right_mono) auto
        with full d1 d(1) l assms(2) show ?thesis
          by (auto simp: refill_def credit_def d_def [symmetric] Let_def min_def algebra_simps)
      qed
    qed
  qed
  then show "credit capacity interval t ?r \<le> credit capacity interval t b"
    "credit capacity interval t ?r \<le> capacity * interval" "tb_lastRefilled ?r \<noteq> 0" by simp_all
qed

lemma refill_ok:
  assumes "bucket_ok capacity b" "0 < t"
  shows "bucket_ok capacity (refill t capacity interval b)"
proof (cases "tb_lastRefilled b = 0 \<or> t < tb_lastRefilled b \<or> tb_tokens b \<ge> capacity")
  case True
  with assms capacity_pos show ?thesis by (auto simp: bucket_ok_def refill_def)
next
  case False
  then have "tb_lastRefilled b \<le> t" by simp
  note d = refills_le [OF this refl]
  have "0 \<le> tb_lastRefilled b + (time_Sub t (tb_lastRefilled b) sdiv interval) * interval"
    using assms d(3) interval_pos by (simp add: bucket_ok_def)
  with assms False d(3) capacity_pos show ?thesis by (auto simp: bucket_ok_def refill_def Let_def)
qed

lemma credit_advance: "credit capacity interval t' b \<le> credit capacity interval t b + max 0 (t' - t)"
  by (auto simp: credit_def)

lemma spend_credit:
  "tb_lastRefilled b \<noteq> 0 \<Longrightarrow> credit capacity interval t (spend b) = credit capacity interval t b - interval"
  by (simp add: credit_def spend_def left_diff_distrib)

end

interpretation device_bucket: login_bucket deviceLoginBurst deviceLoginRefillInterval
  by unfold_locales (simp_all add: login_limits)

interpretation known_bucket: login_bucket knownLoginBurst knownLoginRefill
  by unfold_locales (simp_all add: login_limits)

interpretation unknown_bucket: login_bucket unknownLoginBurst unknownLoginRefill
  by unfold_locales (simp_all add: login_limits)

subsection \<open>The ceremony table\<close>

definition is_login :: "('c, 's) ceremony \<Rightarrow> bool" where
  "is_login c \<longleftrightarrow> ce_Kind c = ceremonyLogin"

definition is_unknown :: "('c, 's) ceremony \<Rightarrow> bool" where
  "is_unknown c \<longleftrightarrow> is_login c \<and> \<not> ce_KnownDevice c"

definition ceremonies_ok :: "('c, 's) passkey_state \<Rightarrow> bool" where
  "ceremonies_ok s \<longleftrightarrow> map_wf (ps_ceremonies s) \<and> map_wf (ps_byDevice s) \<and> map_wf (ps_byActive s)
     \<and> (\<forall>i c. map_of (ps_ceremonies s) i = Some c \<and> is_login c \<longrightarrow> map_of (ps_byActive s) (ce_DeviceHash c) = Some i)
     \<and> (\<forall>dh i. map_of (ps_byActive s) dh = Some i \<longrightarrow>
          (\<exists>c. map_of (ps_ceremonies s) i = Some c \<and> is_login c \<and> ce_DeviceHash c = dh))
     \<and> ps_active s = int (count_where (\<lambda>_. is_login) (ps_ceremonies s))
     \<and> ps_unknownActive s = int (count_where (\<lambda>_. is_unknown) (ps_ceremonies s))"

text \<open>\<open>R\<close> is the list of reservations that are out: made and neither committed nor cancelled.\<close>

definition pending_ok :: "loginReservation list \<Rightarrow> ('c, 's) passkey_state \<Rightarrow> bool" where
  "pending_ok R s \<longleftrightarrow> ps_pendingSlots s = int (length (filter lr_reserved R))
     \<and> ps_pendingUnknown s = int (length (filter (\<lambda>r. lr_reserved r \<and> \<not> lr_known r) R))
     \<and> distinct (map lr_deviceHash R)
     \<and> (\<forall>dh. (\<exists>d. map_of (ps_byDevice s) dh = Some d \<and> dl_inFlight d) \<longleftrightarrow> dh \<in> lr_deviceHash ` set R)"

definition room_ok :: "('c, 's) passkey_state \<Rightarrow> bool" where
  "room_ok s \<longleftrightarrow> int (length (ps_ceremonies s)) + ps_pendingSlots s \<le> maximumCeremonies
     \<and> ps_active s + ps_pendingSlots s \<le> maximumLoginCeremonies"

definition slots_inv :: "loginReservation list \<Rightarrow> ('c, 's) passkey_state \<Rightarrow> bool" where
  "slots_inv R s \<longleftrightarrow> ceremonies_ok s \<and> pending_ok R s \<and> room_ok s"

text \<open>What removing a ceremony leaves alone.\<close>

definition same_gates :: "('c, 's) passkey_state \<Rightarrow> ('c, 's) passkey_state \<Rightarrow> bool" where
  "same_gates s s' \<longleftrightarrow> ps_byDevice s' = ps_byDevice s \<and> ps_unknownRate s' = ps_unknownRate s
     \<and> ps_knownRate s' = ps_knownRate s \<and> ps_pendingSlots s' = ps_pendingSlots s
     \<and> ps_pendingUnknown s' = ps_pendingUnknown s"

lemma same_gates_remove [simp]: "same_gates s (removeCeremonyLocked i c s)"
  by (simp add: same_gates_def removeCeremonyLocked_def Let_def)

lemma same_gates_trans: "same_gates a b \<Longrightarrow> same_gates b c \<Longrightarrow> same_gates a c"
  by (simp add: same_gates_def)

lemma ceremonies_remove [simp]: "ps_ceremonies (removeCeremonyLocked i c s) = AList.delete i (ps_ceremonies s)"
  by (simp add: removeCeremonyLocked_def Let_def)

lemma remove_ok:
  assumes "ceremonies_ok s" "map_of (ps_ceremonies s) i = Some c"
  shows "ceremonies_ok (removeCeremonyLocked i c s)"
    "is_login c \<Longrightarrow> map_of (ps_byActive (removeCeremonyLocked i c s)) (ce_DeviceHash c) = None"
proof -
  let ?s = "removeCeremonyLocked i c s"
  have wf: "map_wf (ps_ceremonies s)" using assms(1) by (simp add: ceremonies_ok_def)
  have n: "count_where (\<lambda>_. p) (ps_ceremonies s) = count_where (\<lambda>_. p) (ps_ceremonies ?s) + (if p c then 1 else 0)" for p
    using count_delete_Some [OF wf assms(2), of "\<lambda>_. p"] by simp
  have act: "is_login c \<Longrightarrow> map_of (ps_byActive s) (ce_DeviceHash c) = Some i"
    using assms by (simp add: ceremonies_ok_def)
  have b: "ps_byActive ?s = (if is_login c then AList.delete (ce_DeviceHash c) (ps_byActive s) else ps_byActive s)"
    using act by (auto simp: removeCeremonyLocked_def is_login_def Let_def)
  show "is_login c \<Longrightarrow> map_of (ps_byActive ?s) (ce_DeviceHash c) = None" by (simp add: b)
  have "ps_active ?s = int (count_where (\<lambda>_. is_login) (ps_ceremonies ?s))"
    "ps_unknownActive ?s = int (count_where (\<lambda>_. is_unknown) (ps_ceremonies ?s))"
    using assms(1) act n [of is_login] n [of is_unknown]
    by (auto simp: ceremonies_ok_def removeCeremonyLocked_def is_login_def is_unknown_def Let_def split: if_splits)
  moreover have "map_of (ps_byActive ?s) (ce_DeviceHash v) = Some j"
    if "map_of (ps_ceremonies ?s) j = Some v" "is_login v" for j v
  proof -
    from that have "j \<noteq> i" "map_of (ps_ceremonies s) j = Some v" by (auto split: if_splits)
    with assms(1) that(2) have "map_of (ps_byActive s) (ce_DeviceHash v) = Some j" by (simp add: ceremonies_ok_def)
    with act \<open>j \<noteq> i\<close> show ?thesis by (auto simp: b)
  qed
  moreover have "\<exists>v. map_of (ps_ceremonies ?s) j = Some v \<and> is_login v \<and> ce_DeviceHash v = dh"
    if a: "map_of (ps_byActive ?s) dh = Some j" for dh j
  proof -
    from a have "map_of (ps_byActive s) dh = Some j" by (auto simp: b split: if_splits)
    with assms(1) obtain v where v: "map_of (ps_ceremonies s) j = Some v" "is_login v" "ce_DeviceHash v = dh"
      unfolding ceremonies_ok_def by blast
    have "j \<noteq> i" using a v assms(2) by (auto simp: b split: if_splits)
    with v show ?thesis by auto
  qed
  ultimately show "ceremonies_ok ?s"
    using assms(1) unfolding ceremonies_ok_def by (auto simp: removeCeremonyLocked_def Let_def)
qed

lemma remove_slots:
  assumes "slots_inv R s" "map_of (ps_ceremonies s) i = Some c"
  shows "slots_inv R (removeCeremonyLocked i c s)"
proof -
  have "length (ps_ceremonies (removeCeremonyLocked i c s)) \<le> length (ps_ceremonies s)"
    by (simp add: length_delete_le)
  moreover have "ps_active (removeCeremonyLocked i c s) \<le> ps_active s"
    by (simp add: removeCeremonyLocked_def Let_def)
  ultimately show ?thesis
    using assms remove_ok [of s i c] same_gates_remove [of s i c]
    by (auto simp: slots_inv_def room_ok_def pending_ok_def same_gates_def)
qed

lemma remove_expired_slots:
  assumes "slots_inv R s" "\<And>i c. (i, c) \<in> set xs \<Longrightarrow> map_of (ps_ceremonies s) i = Some c" "distinct (map fst xs)"
  shows "slots_inv R (remove_expired now xs s) \<and> same_gates s (remove_expired now xs s)"
  using assms
proof (induction xs arbitrary: s)
  case Nil
  then show ?case by (simp add: same_gates_def)
next
  case (Cons x xs)
  let ?s = "if \<not> now < ce_ExpiresAt (snd x) then removeCeremonyLocked (fst x) (snd x) s else s"
  have x: "map_of (ps_ceremonies s) (fst x) = Some (snd x)" using Cons.prems(2) by (cases x) simp
  have "slots_inv R ?s" "same_gates s ?s"
    using remove_slots [OF Cons.prems(1) x] Cons.prems(1) by (auto simp: same_gates_def removeCeremonyLocked_def Let_def)
  moreover have "map_of (ps_ceremonies ?s) i = Some c" if ic: "(i, c) \<in> set xs" for i c
  proof -
    have "i \<in> fst ` set xs" using ic by (rule image_eqI [rotated]) simp
    with Cons.prems(3) have "i \<noteq> fst x" by (metis distinct.simps(2) list.map(2) set_map)
    with Cons.prems(2) [of i c] ic show ?thesis by simp
  qed
  moreover have "distinct (map fst xs)" using Cons.prems(3) by simp
  ultimately have "slots_inv R (remove_expired now xs ?s)" "same_gates ?s (remove_expired now xs ?s)"
    using Cons.IH [of ?s] by blast+
  moreover from this(2) \<open>same_gates s ?s\<close> have "same_gates s (remove_expired now xs ?s)"
    by (rule same_gates_trans [rotated])
  ultimately show ?case by (simp only: remove_expired.simps)
qed

lemma cleanup_slots:
  assumes "slots_inv R s"
  shows "slots_inv R (cleanupCeremoniesLocked now s)" "same_gates s (cleanupCeremoniesLocked now s)"
proof -
  have wf: "map_wf (ps_ceremonies s)" using assms by (simp add: slots_inv_def ceremonies_ok_def)
  have d: "distinct (map fst (ps_ceremonies s))" using wf by (simp add: map_wf_def)
  have m: "\<And>i c. (i, c) \<in> set (ps_ceremonies s) \<Longrightarrow> map_of (ps_ceremonies s) i = Some c"
    using map_wf_in_set [OF wf] by blast
  show "slots_inv R (cleanupCeremoniesLocked now s)" "same_gates s (cleanupCeremoniesLocked now s)"
    unfolding cleanupCeremoniesLocked_def using remove_expired_slots [OF assms m d, of now] by simp_all
qed

subsection \<open>Rates\<close>

definition device_credit :: "time \<Rightarrow> ('c, 's) passkey_state \<Rightarrow> bytes \<Rightarrow> int" where
  "device_credit t s dh =
     (case map_of (ps_byDevice s) dh of
        None \<Rightarrow> deviceLoginBurst * deviceLoginRefillInterval
      | Some d \<Rightarrow> credit deviceLoginBurst deviceLoginRefillInterval t (dl_rate d))"

definition global_credit :: "time \<Rightarrow> ('c, 's) passkey_state \<Rightarrow> bool \<Rightarrow> int" where
  "global_credit t s known =
     (if known then credit knownLoginBurst knownLoginRefill t (ps_knownRate s)
      else credit unknownLoginBurst unknownLoginRefill t (ps_unknownRate s))"

abbreviation device_window :: int where
  "device_window \<equiv> deviceLoginBurst * deviceLoginRefillInterval"

definition global_window :: "bool \<Rightarrow> int" where
  "global_window known = (if known then knownLoginBurst * knownLoginRefill else unknownLoginBurst * unknownLoginRefill)"

definition global_refill :: "bool \<Rightarrow> time" where
  "global_refill known = (if known then knownLoginRefill else unknownLoginRefill)"

definition rates_ok :: "('c, 's) passkey_state \<Rightarrow> bool" where
  "rates_ok s \<longleftrightarrow> map_wf (ps_byDevice s)
     \<and> (\<forall>dh d. map_of (ps_byDevice s) dh = Some d \<longrightarrow> bucket_ok deviceLoginBurst (dl_rate d))
     \<and> bucket_ok unknownLoginBurst (ps_unknownRate s) \<and> bucket_ok knownLoginBurst (ps_knownRate s)"

definition kept_device :: "time \<Rightarrow> ('c, 's) passkey_state \<Rightarrow> bytes \<Rightarrow> deviceLoginAdmission \<Rightarrow> bool" where
  "kept_device now s dh d \<longleftrightarrow> dl_inFlight d \<or> map_of (ps_byActive s) dh \<noteq> None
     \<or> tb_tokens (refill now deviceLoginBurst deviceLoginRefillInterval (dl_rate d)) \<noteq> deviceLoginBurst"

lemma cleanupAdmissions_map:
  assumes "map_wf (ps_byDevice s)"
  shows "map_wf (ps_byDevice (cleanupAdmissionsLocked now s))"
    "map_of (ps_byDevice (cleanupAdmissionsLocked now s)) dh =
      (case map_of (ps_byDevice s) dh of None \<Rightarrow> None
       | Some d \<Rightarrow> if kept_device now s dh d then Some (refill_device now d) else None)"
proof -
  let ?l = "map (\<lambda>(dh, d). (dh, refill_device now d)) (ps_byDevice s)"
  have f: "map fst ?l = map fst (ps_byDevice s)" by (simp add: case_prod_unfold)
  have wf: "map_wf ?l" using assms unfolding map_wf_def f .
  define P where "P = (\<lambda>dh (d :: deviceLoginAdmission). \<not> (\<not> dl_inFlight d \<and> map_of (ps_byActive s) dh = None \<and> tb_tokens (dl_rate d) = deviceLoginBurst))"
  have b: "ps_byDevice (cleanupAdmissionsLocked now s) = filter (\<lambda>(dh, d). P dh d) ?l"
    unfolding cleanupAdmissionsLocked_def P_def by simp
  show "map_wf (ps_byDevice (cleanupAdmissionsLocked now s))"
    using wf by (simp add: b)
  have m: "map_of ?l dh = map_option (refill_device now) (map_of (ps_byDevice s) dh)"
    using map_of_map [of "refill_device now" "ps_byDevice s"] by (simp add: case_prod_unfold)
  show "map_of (ps_byDevice (cleanupAdmissionsLocked now s)) dh =
      (case map_of (ps_byDevice s) dh of None \<Rightarrow> None
       | Some d \<Rightarrow> if kept_device now s dh d then Some (refill_device now d) else None)"
    unfolding b map_of_filter_wf [OF wf] m
    by (cases "map_of (ps_byDevice s) dh") (auto simp: P_def refill_device_def kept_device_def)
qed

lemma cleanupAdmissions_rates:
  assumes "rates_ok s" "0 < now"
  shows "rates_ok (cleanupAdmissionsLocked now s)"
    "device_credit now (cleanupAdmissionsLocked now s) dh \<le> device_credit now s dh"
    "device_credit now (cleanupAdmissionsLocked now s) dh \<le> device_window"
proof -
  have wf: "map_wf (ps_byDevice s)" using assms(1) by (simp add: rates_ok_def)
  note m = cleanupAdmissions_map [OF wf, of now]
  have b: "bucket_ok deviceLoginBurst (dl_rate d)" if "map_of (ps_byDevice s) x = Some d" for x d
    using assms(1) that by (simp add: rates_ok_def)
  have "bucket_ok deviceLoginBurst (dl_rate (refill_device now d))" if "map_of (ps_byDevice s) x = Some d" for x d
    using device_bucket.refill_ok [OF b [OF that] assms(2)] by (simp add: refill_device_def)
  then show "rates_ok (cleanupAdmissionsLocked now s)"
    using assms(1) m by (auto simp: rates_ok_def cleanupAdmissionsLocked_def split: option.splits if_splits)
  have "device_credit now (cleanupAdmissionsLocked now s) dh \<le> device_credit now s dh
    \<and> device_credit now (cleanupAdmissionsLocked now s) dh \<le> device_window"
  proof (cases "map_of (ps_byDevice s) dh")
    case None
    then show ?thesis by (simp add: device_credit_def m)
  next
    case (Some d)
    note r = device_bucket.refill_credit [OF b [OF Some] assms(2)]
    have "device_window \<le> credit deviceLoginBurst deviceLoginRefillInterval now (dl_rate (refill_device now d))"
      if "\<not> kept_device now s dh d"
      using that r(3) by (simp add: kept_device_def refill_device_def credit_def)
    with Some r(1,2) show ?thesis by (auto simp: device_credit_def m refill_device_def)
  qed
  then show "device_credit now (cleanupAdmissionsLocked now s) dh \<le> device_credit now s dh"
    "device_credit now (cleanupAdmissionsLocked now s) dh \<le> device_window" by simp_all
qed

lemma global_refilled_rates:
  fixes s :: "('c, 's) passkey_state" and known :: bool
  assumes "rates_ok s" "0 < now"
  defines "g \<equiv> global_refilled known now s"
  shows "rates_ok (set_global known g s)" "1 \<le> tb_tokens g \<Longrightarrow> rates_ok (set_global known (spend g) s)"
    "global_credit now (set_global known g s) known \<le> min (global_credit now s known) (global_window known)"
    "global_credit now (set_global known (spend g) s) known = global_credit now (set_global known g s) known - global_refill known"
proof -
  have b: "bucket_ok unknownLoginBurst (ps_unknownRate s)" "bucket_ok knownLoginBurst (ps_knownRate s)"
    using assms(1) by (simp_all add: rates_ok_def)
  note u = unknown_bucket.refill_credit [OF b(1) assms(2)] and k = known_bucket.refill_credit [OF b(2) assms(2)]
    and ok = unknown_bucket.refill_ok [OF b(1) assms(2)] known_bucket.refill_ok [OF b(2) assms(2)]
  show "global_credit now (set_global known g s) known \<le> min (global_credit now s known) (global_window known)"
    using u k by (simp add: g_def global_refilled_def global_credit_def global_window_def set_global_def)
  show "global_credit now (set_global known (spend g) s) known = global_credit now (set_global known g s) known - global_refill known"
    using unknown_bucket.spend_credit [OF u(3)] known_bucket.spend_credit [OF k(3)]
    by (simp add: g_def global_refilled_def global_refill_def global_credit_def set_global_def)
  show "rates_ok (set_global known g s)"
    using assms(1) ok by (auto simp: rates_ok_def set_global_def g_def global_refilled_def)
  show "rates_ok (set_global known (spend g) s)" if "1 \<le> tb_tokens g"
    using assms(1) ok that by (auto simp: rates_ok_def set_global_def g_def global_refilled_def bucket_ok_def spend_def)
qed

lemma found_device_rates:
  fixes s :: "('c, 's) passkey_state" and dh :: bytes
  assumes "rates_ok s" "0 < now"
  defines "d \<equiv> refill_device now (found_device (map_of (ps_byDevice s) dh))"
  shows "bucket_ok deviceLoginBurst (dl_rate d)" "tb_lastRefilled (dl_rate d) \<noteq> 0"
    "credit deviceLoginBurst deviceLoginRefillInterval now (dl_rate d) \<le> min (device_credit now s dh) device_window"
proof -
  have b: "bucket_ok deviceLoginBurst (dl_rate (found_device (map_of (ps_byDevice s) dh)))"
    using assms(1) by (auto simp: rates_ok_def found_device_def bucket_ok_def newTokenBucket_def login_limits split: option.splits)
  note r = device_bucket.refill_credit [OF b assms(2)]
  show "bucket_ok deviceLoginBurst (dl_rate d)" "tb_lastRefilled (dl_rate d) \<noteq> 0"
    using device_bucket.refill_ok [OF b assms(2)] r(3) by (simp_all add: d_def refill_device_def)
  show "credit deviceLoginBurst deviceLoginRefillInterval now (dl_rate d) \<le> min (device_credit now s dh) device_window"
    using r(1,2) by (cases "map_of (ps_byDevice s) dh")
      (simp_all add: d_def refill_device_def device_credit_def found_device_def newTokenBucket_def credit_def)
qed

subsection \<open>What a reservation does\<close>

definition reserve_base :: "time \<Rightarrow> ('c, 's) passkey_state \<Rightarrow> ('c, 's) passkey_state" where
  "reserve_base now s0 = cleanupAdmissionsLocked now (cleanupCeremoniesLocked now s0)"

lemma reserveLogin_outcome:
  fixes s0 s' :: "('c, 's) passkey_state"
  assumes "reserveLogin dh known now s0 = (res, s')"
  defines "s \<equiv> reserve_base now s0"
  defines "d \<equiv> refill_device now (found_device (map_of (ps_byDevice s) dh))"
  defines "s1 \<equiv> (if map_of (ps_byDevice s) dh = None then s else s\<lparr>ps_byDevice := AList.update dh d (ps_byDevice s)\<rparr>)"
  shows "(\<exists>e. res = Inl e \<and> (s' = s \<or> s' = s1 \<or> s' = set_global known (global_refilled known now s) s1))
    \<or> (\<exists>r. res = Inr r \<and> lr_deviceHash r = dh \<and> lr_known r = known \<and> lr_reserved r = (map_of (ps_byActive s) dh = None)
        \<and> \<not> dl_inFlight d \<and> 1 \<le> tb_tokens (dl_rate d) \<and> 1 \<le> tb_tokens (global_refilled known now s)
        \<and> (lr_reserved r \<longrightarrow> \<not> ceremony_capacity known s)
        \<and> s' = (set_global known (spend (global_refilled known now s)) s)\<lparr>
            ps_byDevice := AList.update dh (d\<lparr>dl_rate := spend (dl_rate d), dl_inFlight := True\<rparr>) (ps_byDevice s1),
            ps_pendingSlots := ps_pendingSlots s + (if lr_reserved r then 1 else 0),
            ps_pendingUnknown := ps_pendingUnknown s + (if lr_reserved r \<and> \<not> known then 1 else 0)\<rparr>)"
proof -
  have g: "global_refilled known now s1 = global_refilled known now s" by (simp add: s1_def global_refilled_def)
  have a: "ps_byActive (set_global known x s1) = ps_byActive s" "ceremony_capacity known (set_global known x s1) = ceremony_capacity known s" for x
    by (simp_all add: s1_def set_global_def ceremony_capacity_def)
  note r = assms(1) [unfolded reserveLogin_def Let_def, folded reserve_base_def, folded s_def, folded d_def, folded s1_def,
      unfolded g a]
  have last: "(set_global known (spend x) (set_global known x s1))\<lparr>ps_byDevice := AList.update dh v (ps_byDevice (set_global known x s1))\<rparr>
      = (set_global known (spend x) s)\<lparr>ps_byDevice := AList.update dh v (ps_byDevice s1)\<rparr>" for x v
    by (simp add: set_global_def s1_def)
  let ?g = "global_refilled known now s"
  show ?thesis
  proof (cases "(map_of (ps_byDevice s) dh = None \<and> int (length (ps_byDevice s)) \<ge> maximumAdmissionDevices)
      \<or> dl_inFlight d \<or> tb_tokens (dl_rate d) < 1 \<or> tb_tokens ?g < 1
      \<or> (map_of (ps_byActive s) dh = None \<and> ceremony_capacity known s)")
    case True
    then consider (full) "map_of (ps_byDevice s) dh = None \<and> int (length (ps_byDevice s)) \<ge> maximumAdmissionDevices"
      | (busy) "\<not> (map_of (ps_byDevice s) dh = None \<and> int (length (ps_byDevice s)) \<ge> maximumAdmissionDevices)"
          "dl_inFlight d \<or> tb_tokens (dl_rate d) < 1"
      | (rest) "\<not> (map_of (ps_byDevice s) dh = None \<and> int (length (ps_byDevice s)) \<ge> maximumAdmissionDevices)"
          "\<not> (dl_inFlight d \<or> tb_tokens (dl_rate d) < 1)"
          "tb_tokens ?g < 1 \<or> (\<not> map_of (ps_byActive s) dh \<noteq> None \<and> ceremony_capacity known s)"
      by argo
    then show ?thesis
    proof cases
      case full
      from r [unfolded if_P [OF full]] show ?thesis by auto
    next
      case busy
      from r [unfolded if_not_P [OF busy(1)] if_P [OF busy(2)]] show ?thesis by auto
    next
      case rest
      from r [unfolded if_not_P [OF rest(1)] if_not_P [OF rest(2)]] rest(3)
      have "res = Inl errLoginAdmissionUnavailable" "s' = set_global known ?g s1" by (auto split: if_splits)
      then show ?thesis by blast
    qed
  next
    case False
    then have c: "\<not> (map_of (ps_byDevice s) dh = None \<and> int (length (ps_byDevice s)) \<ge> maximumAdmissionDevices)"
      "\<not> (dl_inFlight d \<or> tb_tokens (dl_rate d) < 1)" "\<not> tb_tokens ?g < 1"
      "\<not> (\<not> map_of (ps_byActive s) dh \<noteq> None \<and> ceremony_capacity known s)" by auto
    note r' = r [unfolded if_not_P [OF c(1)] if_not_P [OF c(2)] if_not_P [OF c(3)] if_not_P [OF c(4)] last]
    let ?r = "\<lparr>lr_deviceHash = dh, lr_known = known, lr_reserved = \<not> map_of (ps_byActive s) dh \<noteq> None\<rparr>"
    have 1: "res = Inr ?r" using r' by (simp only: prod.inject)
    have 2: "s' = (set_global known (spend ?g) s)\<lparr>
            ps_byDevice := AList.update dh (d\<lparr>dl_rate := spend (dl_rate d), dl_inFlight := True\<rparr>) (ps_byDevice s1),
            ps_pendingSlots := ps_pendingSlots s + (if lr_reserved ?r then 1 else 0),
            ps_pendingUnknown := ps_pendingUnknown s + (if lr_reserved ?r \<and> \<not> known then 1 else 0)\<rparr>"
      using r' [symmetric, unfolded prod.inject, THEN conjunct2]
      by (cases known; cases "map_of (ps_byActive s) dh") (simp_all add: set_global_def)
    show ?thesis unfolding 1 2 by (rule disjI2, rule exI [of _ ?r]) (use c in auto)
  qed
qed

lemma remove_expired_gates: "same_gates s (remove_expired now xs s)"
proof (induction xs arbitrary: s)
  case Nil
  then show ?case by (simp add: same_gates_def)
next
  case (Cons x xs)
  then show ?case
    using same_gates_trans [OF same_gates_remove [of s "fst x" "snd x"] Cons.IH] by simp
qed

lemma cleanupCeremonies_gates: "same_gates s (cleanupCeremoniesLocked now s)"
  by (simp add: cleanupCeremoniesLocked_def remove_expired_gates)

lemma same_gates_rates:
  assumes "same_gates s s'"
  shows "rates_ok s' = rates_ok s" "device_credit t s' = device_credit t s" "global_credit t s' = global_credit t s"
  using assms by (auto simp: same_gates_def rates_ok_def device_credit_def global_credit_def fun_eq_iff)

lemma reserve_rates:
  assumes "rates_ok s0" "0 < now" "reserveLogin dh known now s0 = (res, s')"
  shows "rates_ok s'"
    "device_credit now s' x \<le> device_credit now s0 x"
    "is_ok res \<Longrightarrow> device_credit now s' dh \<le> min (device_credit now s0 dh) device_window - deviceLoginRefillInterval"
    "global_credit now s' k \<le> global_credit now s0 k"
    "is_ok res \<Longrightarrow> global_credit now s' known \<le> min (global_credit now s0 known) (global_window known) - global_refill known"
proof -
  define s where "s = reserve_base now s0"
  define d where "d = refill_device now (found_device (map_of (ps_byDevice s) dh))"
  define g where "g = global_refilled known now s"
  define s1 where "s1 = (if map_of (ps_byDevice s) dh = None then s else s\<lparr>ps_byDevice := AList.update dh d (ps_byDevice s)\<rparr>)"
  have gates: "rates_ok (cleanupCeremoniesLocked now s0)"
    "device_credit now (cleanupCeremoniesLocked now s0) = device_credit now s0"
    "global_credit now (cleanupCeremoniesLocked now s0) = global_credit now s0"
    using same_gates_rates [OF cleanupCeremonies_gates [of s0 now]] assms(1) by simp_all
  have ok: "rates_ok s" and dc: "device_credit now s y \<le> min (device_credit now s0 y) device_window" for y
    using cleanupAdmissions_rates [OF gates(1) assms(2)] by (simp_all add: s_def reserve_base_def gates(2))
  have gc: "global_credit now s = global_credit now s0"
    by (simp add: s_def reserve_base_def gates(3) [symmetric]) (simp add: global_credit_def cleanupAdmissionsLocked_def fun_eq_iff)
  note f = found_device_rates [OF ok assms(2), of dh, folded d_def]
  have upd: "device_credit now (u\<lparr>ps_byDevice := AList.update dh v bs\<rparr>) y
      = (if y = dh then credit deviceLoginBurst deviceLoginRefillInterval now (dl_rate v) else device_credit now (u\<lparr>ps_byDevice := bs\<rparr>) y)"
    for u :: "('a, 'b) passkey_state" and v bs y by (simp add: device_credit_def)
  have same: "device_credit now (u\<lparr>ps_byDevice := ps_byDevice v\<rparr>) = device_credit now v" for u v :: "('a, 'b) passkey_state"
    by (simp add: device_credit_def fun_eq_iff)
  have s1d: "device_credit now s1 y \<le> device_credit now s y" for y
    using f(3) by (auto simp: s1_def upd same)
  have s1ok: "rates_ok s1"
    using ok f(1) by (auto simp: s1_def rates_ok_def)
  have sg: "device_credit now (set_global known y u) = device_credit now u" for y and u :: "('a, 'b) passkey_state"
    by (simp add: set_global_def device_credit_def fun_eq_iff)
  have g1: "global_refilled known now s1 = g" by (simp add: g_def s1_def global_refilled_def)
  note gr = global_refilled_rates [OF s1ok assms(2), of known, unfolded g1]
  have g0: "global_credit now s1 = global_credit now s0"
  proof -
    have "global_credit now s1 = global_credit now s" by (simp add: s1_def global_credit_def fun_eq_iff)
    then show ?thesis using gc by simp
  qed
  have other: "k \<noteq> known \<Longrightarrow> global_credit now (set_global known y u) k = global_credit now u k" for y u k
    by (cases k; cases known) (simp_all add: global_credit_def set_global_def)
  have dev: "device_credit now s1 y \<le> device_credit now s0 y" for y
    using s1d [of y] dc [of y] by simp
  have "rates_ok s' \<and> device_credit now s' x \<le> device_credit now s0 x
    \<and> (is_ok res \<longrightarrow> device_credit now s' dh \<le> min (device_credit now s0 dh) device_window - deviceLoginRefillInterval)
    \<and> global_credit now s' k \<le> global_credit now s0 k
    \<and> (is_ok res \<longrightarrow> global_credit now s' known \<le> min (global_credit now s0 known) (global_window known) - global_refill known)"
    using reserveLogin_outcome [OF assms(3), folded s_def, folded d_def, folded s1_def, folded g_def]
  proof (elim disjE exE conjE)
    fix e assume "res = Inl e" "s' = s"
    then show ?thesis using ok dc [of x] gc by simp
  next
    fix e assume "res = Inl e" "s' = s1"
    then show ?thesis using s1ok dev [of x] g0 by simp
  next
    fix e assume "res = Inl e" "s' = set_global known g s1"
    then show ?thesis using gr(1,3) dev [of x] g0 other [of k g s1] by (cases "k = known") (simp_all add: sg)
  next
    fix r assume r: "1 \<le> tb_tokens (dl_rate d)" "1 \<le> tb_tokens g"
      and s': "s' = (set_global known (spend g) s)\<lparr>
            ps_byDevice := AList.update dh (d\<lparr>dl_rate := spend (dl_rate d), dl_inFlight := True\<rparr>) (ps_byDevice s1),
            ps_pendingSlots := ps_pendingSlots s + (if lr_reserved r then 1 else 0),
            ps_pendingUnknown := ps_pendingUnknown s + (if lr_reserved r \<and> \<not> known then 1 else 0)\<rparr>"
    have b: "ps_byDevice s' = AList.update dh (d\<lparr>dl_rate := spend (dl_rate d), dl_inFlight := True\<rparr>) (ps_byDevice s1)"
      "global_credit now s' = global_credit now (set_global known (spend g) s1)"
      "ps_unknownRate s' = ps_unknownRate (set_global known (spend g) s1)" "ps_knownRate s' = ps_knownRate (set_global known (spend g) s1)"
      by (auto simp: s' s1_def set_global_def global_credit_def fun_eq_iff)
    have dc': "device_credit now s' y = (if y = dh
        then credit deviceLoginBurst deviceLoginRefillInterval now (dl_rate d) - deviceLoginRefillInterval
        else device_credit now s1 y)" for y
      using device_bucket.spend_credit [OF f(2)] by (simp add: device_credit_def b(1))
    have "bucket_ok deviceLoginBurst (spend (dl_rate d))" using f(1) r(1) by (auto simp: bucket_ok_def spend_def)
    then have "rates_ok s'"
      using gr(2) [OF r(2)] s1ok by (auto simp: rates_ok_def b(1,3,4))
    moreover have "0 < deviceLoginRefillInterval" "0 < global_refill known" by (simp_all add: login_limits global_refill_def)
    moreover have "global_credit now s' k \<le> global_credit now s0 k"
      using gr(3,4) other [of k "spend g" s1] g0 \<open>0 < global_refill known\<close> by (cases "k = known") (simp_all add: b(2))
    moreover have "device_credit now s' x \<le> device_credit now s0 x"
      using f(3) dc [of dh] dev [of x] \<open>0 < deviceLoginRefillInterval\<close> by (auto simp: dc')
    moreover have "device_credit now s' dh \<le> min (device_credit now s0 dh) device_window - deviceLoginRefillInterval"
      using f(3) dc [of dh] by (simp add: dc')
    moreover have "global_credit now s' known \<le> min (global_credit now s0 known) (global_window known) - global_refill known"
      using gr(3,4) g0 by (simp add: b(2))
    ultimately show ?thesis by simp
  qed
  then show "rates_ok s'" "device_credit now s' x \<le> device_credit now s0 x"
    "is_ok res \<Longrightarrow> device_credit now s' dh \<le> min (device_credit now s0 dh) device_window - deviceLoginRefillInterval"
    "global_credit now s' k \<le> global_credit now s0 k"
    "is_ok res \<Longrightarrow> global_credit now s' known \<le> min (global_credit now s0 known) (global_window known) - global_refill known"
    by blast+
qed

subsection \<open>Slots through the operations\<close>

definition inflight :: "(bytes, deviceLoginAdmission) gomap \<Rightarrow> bytes \<Rightarrow> bool" where
  "inflight D dh \<longleftrightarrow> (\<exists>d. map_of D dh = Some d \<and> dl_inFlight d)"

lemma slots_inv_cong:
  assumes "slots_inv R s" "ps_ceremonies s' = ps_ceremonies s" "ps_byActive s' = ps_byActive s"
    "ps_active s' = ps_active s" "ps_unknownActive s' = ps_unknownActive s" "ps_pendingSlots s' = ps_pendingSlots s"
    "ps_pendingUnknown s' = ps_pendingUnknown s" "map_wf (ps_byDevice s')"
    "inflight (ps_byDevice s') = inflight (ps_byDevice s)"
  shows "slots_inv R s'"
  using assms unfolding slots_inv_def ceremonies_ok_def pending_ok_def room_ok_def inflight_def [symmetric]
  by simp

lemma cleanupAdmissions_slots:
  assumes "slots_inv R s"
  shows "slots_inv R (cleanupAdmissionsLocked now s)"
proof (rule slots_inv_cong [OF assms])
  have wf: "map_wf (ps_byDevice s)" using assms by (simp add: slots_inv_def ceremonies_ok_def)
  note m = cleanupAdmissions_map [OF wf, of now]
  show "map_wf (ps_byDevice (cleanupAdmissionsLocked now s))" by (rule m)
  show "inflight (ps_byDevice (cleanupAdmissionsLocked now s)) = inflight (ps_byDevice s)"
    by (auto simp: inflight_def m fun_eq_iff kept_device_def refill_device_def split: option.splits if_splits)
qed (simp_all add: cleanupAdmissionsLocked_def)

lemma reserve_base_slots: "slots_inv R s \<Longrightarrow> slots_inv R (reserve_base now s)"
  by (simp add: reserve_base_def cleanupAdmissions_slots cleanup_slots)

lemma reserve_slots:
  assumes "slots_inv R s0" "reserveLogin dh known now s0 = (res, s')"
  shows "slots_inv (case res of Inl e \<Rightarrow> R | Inr r \<Rightarrow> r # R) s'"
proof -
  define s where "s = reserve_base now s0"
  define d where "d = refill_device now (found_device (map_of (ps_byDevice s) dh))"
  define s1 where "s1 = (if map_of (ps_byDevice s) dh = None then s else s\<lparr>ps_byDevice := AList.update dh d (ps_byDevice s)\<rparr>)"
  have inv: "slots_inv R s" using reserve_base_slots [OF assms(1)] by (simp add: s_def)
  then have wf: "map_wf (ps_byDevice s)" by (simp add: slots_inv_def ceremonies_ok_def)
  have wf1: "map_wf (ps_byDevice s1)" using wf by (simp add: s1_def)
  have in1: "inflight (ps_byDevice s1) = inflight (ps_byDevice s)"
    by (auto simp: s1_def inflight_def d_def refill_device_def found_device_def fun_eq_iff split: option.splits)
  have inv1: "slots_inv R s1"
    by (rule slots_inv_cong [OF inv _ _ _ _ _ _ wf1 in1]) (simp_all add: s1_def)
  show ?thesis
    using reserveLogin_outcome [OF assms(2), folded s_def, folded d_def, folded s1_def]
  proof (elim disjE exE conjE)
    fix e assume "res = Inl e" "s' = s"
    with inv show ?thesis by simp
  next
    fix e assume "res = Inl e" "s' = s1"
    with inv1 show ?thesis by simp
  next
    fix e assume a: "res = Inl e" "s' = set_global known (global_refilled known now s) s1"
    have "slots_inv R s'"
      by (rule slots_inv_cong [OF inv1]) (use wf1 in \<open>simp_all add: a set_global_def\<close>)
    with a show ?thesis by simp
  next
    fix r assume r: "res = Inr r" "lr_deviceHash r = dh" "lr_known r = known" "\<not> dl_inFlight d"
      "lr_reserved r \<longrightarrow> \<not> ceremony_capacity known s"
      and s': "s' = (set_global known (spend (global_refilled known now s)) s)\<lparr>
            ps_byDevice := AList.update dh (d\<lparr>dl_rate := spend (dl_rate d), dl_inFlight := True\<rparr>) (ps_byDevice s1),
            ps_pendingSlots := ps_pendingSlots s + (if lr_reserved r then 1 else 0),
            ps_pendingUnknown := ps_pendingUnknown s + (if lr_reserved r \<and> \<not> known then 1 else 0)\<rparr>"
    have f: "ps_ceremonies s' = ps_ceremonies s" "ps_byActive s' = ps_byActive s" "ps_active s' = ps_active s"
      "ps_unknownActive s' = ps_unknownActive s" "map_wf (ps_byDevice s')"
      "ps_pendingSlots s' = ps_pendingSlots s + (if lr_reserved r then 1 else 0)"
      "ps_pendingUnknown s' = ps_pendingUnknown s + (if lr_reserved r \<and> \<not> known then 1 else 0)"
      using wf1 by (simp_all add: s' set_global_def)
    have "inflight (ps_byDevice s') x = (x = dh \<or> inflight (ps_byDevice s) x)" for x
      using fun_cong [OF in1, of x] by (simp add: s' inflight_def)
    moreover have out: "\<not> inflight (ps_byDevice s) dh"
      using r(4) by (auto simp: d_def inflight_def refill_device_def found_device_def)
    ultimately have "pending_ok (r # R) s'"
      using inv r(2,3) f(6,7) unfolding slots_inv_def pending_ok_def inflight_def [symmetric] by auto
    moreover have "room_ok s'"
      using inv r(5) f by (auto simp: slots_inv_def room_ok_def ceremony_capacity_def)
    moreover have "ceremonies_ok s'" using inv f unfolding slots_inv_def ceremonies_ok_def by simp
    ultimately show ?thesis using r(1) by (simp add: slots_inv_def)
  qed
qed

lemma insert_ceremony:
  assumes "ceremonies_ok s" "map_of (ps_ceremonies s) (ce_ID c) = None"
    "ce_Kind c = ceremonyLogin \<Longrightarrow> map_of (ps_byActive s) (ce_DeviceHash c) = None"
  shows "ce_Kind c \<noteq> ceremonyLogin \<Longrightarrow> ceremonies_ok (s\<lparr>ps_ceremonies := AList.update (ce_ID c) c (ps_ceremonies s)\<rparr>)"
    "ce_Kind c = ceremonyLogin \<Longrightarrow> ceremonies_ok (s\<lparr>ps_ceremonies := AList.update (ce_ID c) c (ps_ceremonies s),
       ps_byActive := AList.update (ce_DeviceHash c) (ce_ID c) (ps_byActive s), ps_active := ps_active s + 1,
       ps_unknownActive := (if ce_KnownDevice c then ps_unknownActive s else ps_unknownActive s + 1)\<rparr>)"
proof -
  have wf: "map_wf (ps_ceremonies s)" using assms(1) by (simp add: ceremonies_ok_def)
  note n = count_insert [OF wf assms(2)]
  have old: "map_of (ps_byActive s) dh \<noteq> Some (ce_ID c)" for dh
    using assms(1,2) unfolding ceremonies_ok_def by force
  show "ce_Kind c \<noteq> ceremonyLogin \<Longrightarrow> ceremonies_ok (s\<lparr>ps_ceremonies := AList.update (ce_ID c) c (ps_ceremonies s)\<rparr>)"
    using assms(1) old unfolding ceremonies_ok_def by (auto simp: n is_login_def is_unknown_def)
  show "ce_Kind c = ceremonyLogin \<Longrightarrow> ceremonies_ok (s\<lparr>ps_ceremonies := AList.update (ce_ID c) c (ps_ceremonies s),
       ps_byActive := AList.update (ce_DeviceHash c) (ce_ID c) (ps_byActive s), ps_active := ps_active s + 1,
       ps_unknownActive := (if ce_KnownDevice c then ps_unknownActive s else ps_unknownActive s + 1)\<rparr>)"
  proof -
    assume k: "ce_Kind c = ceremonyLogin"
    have h: "\<And>i v. map_of (ps_ceremonies s) i = Some v \<Longrightarrow> ce_Kind v = ceremonyLogin \<Longrightarrow> ce_DeviceHash v \<noteq> ce_DeviceHash c"
      using assms(1) assms(3) [OF k] unfolding ceremonies_ok_def is_login_def by force
    show ?thesis
      using assms(1,2) k old unfolding ceremonies_ok_def by (auto simp: n is_login_def is_unknown_def dest: h)
  qed
qed

lemma release_pending:
  assumes "ps_pendingSlots s = int (length (filter lr_reserved R))
      \<and> ps_pendingUnknown s = int (length (filter (\<lambda>r. lr_reserved r \<and> \<not> lr_known r) R))" "r \<in> set R" "lr_reserved r"
  shows "ps_pendingSlots (releasePendingLocked (lr_known r) s) = ps_pendingSlots s - 1"
    "ps_pendingUnknown (releasePendingLocked (lr_known r) s) = ps_pendingUnknown s - (if lr_known r then 0 else 1)"
proof -
  have "r \<in> set (filter lr_reserved R)" "\<not> lr_known r \<Longrightarrow> r \<in> set (filter (\<lambda>r. lr_reserved r \<and> \<not> lr_known r) R)"
    using assms(2,3) by simp_all
  then have "0 < length (filter lr_reserved R)"
    "\<not> lr_known r \<Longrightarrow> 0 < length (filter (\<lambda>r. lr_reserved r \<and> \<not> lr_known r) R)"
    using length_pos_if_in_set by fastforce+
  with assms(1) show "ps_pendingSlots (releasePendingLocked (lr_known r) s) = ps_pendingSlots s - 1"
    "ps_pendingUnknown (releasePendingLocked (lr_known r) s) = ps_pendingUnknown s - (if lr_known r then 0 else 1)"
    by (auto simp: releasePendingLocked_def)
qed

lemma releasePending_fields [simp]:
  "ps_ceremonies (releasePendingLocked k s) = ps_ceremonies s" "ps_byDevice (releasePendingLocked k s) = ps_byDevice s"
  "ps_byActive (releasePendingLocked k s) = ps_byActive s" "ps_active (releasePendingLocked k s) = ps_active s"
  "ps_unknownActive (releasePendingLocked k s) = ps_unknownActive s"
  by (simp_all add: releasePendingLocked_def)

lemma ceremonies_ok_release [simp]: "ceremonies_ok (releasePendingLocked k s) = ceremonies_ok s"
  by (simp add: ceremonies_ok_def)

lemma filter_remove1_length:
  "x \<in> set xs \<Longrightarrow> int (length (filter p (remove1 x xs))) = int (length (filter p xs)) - (if p x then 1 else 0)"
proof (induction xs)
  case (Cons a xs)
  then show ?case by auto
qed simp

text \<open>A reservation leaves the list: its device is no longer in flight and its slot is given back or used.\<close>

lemma pending_drop:
  assumes "pending_ok R s" "r \<in> set R"
    "\<And>dh. inflight (ps_byDevice s') dh = (dh \<noteq> lr_deviceHash r \<and> inflight (ps_byDevice s) dh)"
    "ps_pendingSlots s' = ps_pendingSlots s - (if lr_reserved r then 1 else 0)"
    "ps_pendingUnknown s' = ps_pendingUnknown s - (if lr_reserved r \<and> \<not> lr_known r then 1 else 0)"
  shows "pending_ok (remove1 r R) s'"
proof -
  have d: "distinct (map lr_deviceHash R)" using assms(1) by (simp add: pending_ok_def)
  then have dR: "distinct R" by (simp add: distinct_map)
  have h: "lr_deviceHash ` set (remove1 r R) = lr_deviceHash ` set R - {lr_deviceHash r}"
    using d assms(2) by (auto simp: set_remove1_eq [OF dR] distinct_map inj_on_def)
  have "distinct (map lr_deviceHash (remove1 r R))"
    using d by (auto simp: distinct_map dR inj_on_def dest: notin_set_remove1)
  then show ?thesis
    using assms(1,3-5) unfolding pending_ok_def inflight_def [symmetric] h filter_remove1_length [OF assms(2)]
    by auto
qed

lemma inflight_off:
  "map_wf (ps_byDevice s) \<Longrightarrow> map_wf (ps_byDevice (set_inFlight dh False s))"
  "inflight (ps_byDevice (set_inFlight dh False s)) x = (x \<noteq> dh \<and> inflight (ps_byDevice s) x)"
  by (auto simp: set_inFlight_def inflight_def split: option.splits)

lemma set_inFlight_fields [simp]:
  "ps_ceremonies (set_inFlight dh b s) = ps_ceremonies s" "ps_byActive (set_inFlight dh b s) = ps_byActive s"
  "ps_active (set_inFlight dh b s) = ps_active s" "ps_unknownActive (set_inFlight dh b s) = ps_unknownActive s"
  "ps_pendingSlots (set_inFlight dh b s) = ps_pendingSlots s" "ps_pendingUnknown (set_inFlight dh b s) = ps_pendingUnknown s"
  "ps_unknownRate (set_inFlight dh b s) = ps_unknownRate s" "ps_knownRate (set_inFlight dh b s) = ps_knownRate s"
  by (simp_all add: set_inFlight_def split: option.split)

lemma ceremonies_ok_off: "ceremonies_ok s \<Longrightarrow> ceremonies_ok (set_inFlight dh False s)"
  by (simp add: ceremonies_ok_def inflight_off(1))

lemma cancel_slots:
  assumes "slots_inv R s" "r \<in> set R"
  shows "slots_inv (remove1 r R) (cancelLogin r s)"
proof -
  let ?s1 = "set_inFlight (lr_deviceHash r) False s" and ?s = "cancelLogin r s"
  have inv: "ceremonies_ok s" "pending_ok R s" "room_ok s" using assms(1) by (simp_all add: slots_inv_def)
  then have wf: "map_wf (ps_byDevice s)" by (simp add: ceremonies_ok_def)
  have f: "ps_ceremonies ?s = ps_ceremonies s" "ps_byActive ?s = ps_byActive s" "ps_active ?s = ps_active s"
    "ps_unknownActive ?s = ps_unknownActive s" "ps_byDevice ?s = ps_byDevice ?s1"
    by (simp_all add: cancelLogin_def Let_def)
  have p: "ps_pendingSlots ?s = ps_pendingSlots s - (if lr_reserved r then 1 else 0)"
    "ps_pendingUnknown ?s = ps_pendingUnknown s - (if lr_reserved r \<and> \<not> lr_known r then 1 else 0)"
    using release_pending [OF _ assms(2), of ?s1] inv(2)
    by (cases "lr_known r"; simp add: cancelLogin_def Let_def pending_ok_def)+
  have "pending_ok (remove1 r R) ?s"
    by (rule pending_drop [OF inv(2) assms(2) _ p]) (simp add: f inflight_off)
  moreover have "ceremonies_ok ?s" using inv(1) inflight_off(1) [OF wf] f by (simp add: ceremonies_ok_def)
  moreover have "room_ok ?s" using inv(3) p f by (auto simp: room_ok_def)
  ultimately show ?thesis by (simp add: slots_inv_def)
qed

lemma save_slots:
  assumes "slots_inv R s0" "saveCeremony c now s0 = (e, s')"
  shows "slots_inv R s'"
proof -
  let ?s = "cleanupCeremoniesLocked now s0" and ?c = "c\<lparr>ce_ExpiresAt := now + ceremonyTTL\<rparr>"
  have inv: "slots_inv R ?s" by (rule cleanup_slots [OF assms(1)])
  show ?thesis
  proof (cases e)
    case (Some x)
    with assms(2) have "s' = ?s" by (auto simp: saveCeremony_def Let_def split: if_splits)
    with inv show ?thesis by simp
  next
    case None
    with assms(2) have s: "ce_Kind c \<noteq> ceremonyLogin" "map_of (ps_ceremonies ?s) (ce_ID c) = None"
      "int (length (ps_ceremonies ?s)) + ps_pendingSlots ?s < maximumCeremonies"
      "s' = ?s\<lparr>ps_ceremonies := AList.update (ce_ID c) ?c (ps_ceremonies ?s)\<rparr>"
      by (auto simp: saveCeremony_def Let_def split: if_splits)
    have "ceremonies_ok s'"
      using insert_ceremony(1) [of ?s ?c] inv s by (simp add: slots_inv_def)
    moreover have "length (ps_ceremonies s') = Suc (length (ps_ceremonies ?s))"
      using inv s(2) count_insert [of "ps_ceremonies ?s" "ce_ID c" "\<lambda>_ _. True" ?c]
      by (simp add: s(4) slots_inv_def ceremonies_ok_def length_as_count)
    then have "room_ok s'" using inv s(3) by (simp add: room_ok_def slots_inv_def s(4))
    moreover have "pending_ok R s'" using inv by (simp add: slots_inv_def pending_ok_def s(4))
    ultimately show ?thesis by (simp add: slots_inv_def)
  qed
qed

lemma consume_slots:
  assumes "slots_inv R s0" "consume i kind now s0 = (res, s')"
  shows "slots_inv R s'"
  using cleanup_slots(1) [OF assms(1), of now] remove_slots assms(2)
  by (auto simp: consume_def Let_def split: option.splits if_splits)

text \<open>What \<^verbatim>\<open>commitLogin\<close> removes before it inserts.\<close>

definition commit_base :: "loginReservation \<Rightarrow> time \<Rightarrow> ('c, 's) passkey_state \<Rightarrow> ('c, 's) passkey_state" where
  "commit_base r now s0 =
     (let s = cleanupCeremoniesLocked now s0
      in case map_of (ps_byActive s) (lr_deviceHash r) of
           None \<Rightarrow> s
         | Some i \<Rightarrow> (case map_of (ps_ceremonies s) i of None \<Rightarrow> s | Some v \<Rightarrow> removeCeremonyLocked i v s))"

lemma commit_base_slots:
  assumes "slots_inv R s0"
  shows "slots_inv R (commit_base r now s0)" "map_of (ps_byActive (commit_base r now s0)) (lr_deviceHash r) = None"
    "same_gates s0 (commit_base r now s0)"
    "map_of (ps_byActive (cleanupCeremoniesLocked now s0)) (lr_deviceHash r) \<noteq> None \<Longrightarrow>
      int (length (ps_ceremonies (commit_base r now s0))) < int (length (ps_ceremonies (cleanupCeremoniesLocked now s0)))
      \<and> ps_active (commit_base r now s0) < ps_active (cleanupCeremoniesLocked now s0)"
proof -
  let ?s = "cleanupCeremoniesLocked now s0"
  have inv: "slots_inv R ?s" "same_gates s0 ?s" by (rule cleanup_slots [OF assms])+
  have "slots_inv R (commit_base r now s0) \<and> map_of (ps_byActive (commit_base r now s0)) (lr_deviceHash r) = None
    \<and> same_gates s0 (commit_base r now s0)
    \<and> (map_of (ps_byActive ?s) (lr_deviceHash r) \<noteq> None \<longrightarrow>
      int (length (ps_ceremonies (commit_base r now s0))) < int (length (ps_ceremonies ?s))
      \<and> ps_active (commit_base r now s0) < ps_active ?s)"
  proof (cases "map_of (ps_byActive ?s) (lr_deviceHash r)")
    case None
    with inv show ?thesis by (simp add: commit_base_def)
  next
    case (Some i)
    have ok: "ceremonies_ok ?s" using inv(1) by (simp add: slots_inv_def)
    with Some obtain v where v: "map_of (ps_ceremonies ?s) i = Some v" "is_login v" "ce_DeviceHash v = lr_deviceHash r"
      unfolding ceremonies_ok_def by blast
    have wf: "map_wf (ps_ceremonies ?s)" using ok by (simp add: ceremonies_ok_def)
    have r: "commit_base r now s0 = removeCeremonyLocked i v ?s" using Some v by (simp add: commit_base_def)
    have n: "ceremonies_ok (removeCeremonyLocked i v ?s)" by (rule remove_ok(1) [OF ok v(1)])
    have "ps_active ?s = ps_active (removeCeremonyLocked i v ?s) + 1"
      using ok n count_delete_Some [OF wf v(1), of "\<lambda>_. is_login"] v(2) by (simp add: ceremonies_ok_def)
    moreover have "length (ps_ceremonies ?s) = Suc (length (ps_ceremonies (removeCeremonyLocked i v ?s)))"
      using count_delete_Some [OF wf v(1), of "\<lambda>_ _. True"] by (simp add: length_as_count)
    ultimately show ?thesis
      using remove_slots [OF inv(1) v(1)] remove_ok(2) [OF ok v(1,2)] v(3) r
        same_gates_trans [OF inv(2) same_gates_remove] by simp
  qed
  then show "slots_inv R (commit_base r now s0)" "map_of (ps_byActive (commit_base r now s0)) (lr_deviceHash r) = None"
    "same_gates s0 (commit_base r now s0)"
    "map_of (ps_byActive ?s) (lr_deviceHash r) \<noteq> None \<Longrightarrow>
      int (length (ps_ceremonies (commit_base r now s0))) < int (length (ps_ceremonies ?s))
      \<and> ps_active (commit_base r now s0) < ps_active ?s" by blast+
qed

definition insert_login :: "loginReservation \<Rightarrow> ('c, 's) ceremony \<Rightarrow> ('c, 's) passkey_state \<Rightarrow> ('c, 's) passkey_state" where
  "insert_login r c s =
     set_inFlight (lr_deviceHash r) False
       (s\<lparr>ps_ceremonies := AList.update (ce_ID c) c (ps_ceremonies s),
          ps_byActive := AList.update (ce_DeviceHash c) (ce_ID c) (ps_byActive s),
          ps_active := ps_active s + 1,
          ps_unknownActive := (if ce_KnownDevice c then ps_unknownActive s else ps_unknownActive s + 1)\<rparr>)"

lemma commitLogin_outcome:
  assumes "slots_inv R s0" "commitLogin r c now s0 = (e, s')"
  defines "s \<equiv> cleanupCeremoniesLocked now s0"
  defines "s2 \<equiv> (if lr_reserved r then releasePendingLocked (lr_known r) (commit_base r now s0) else commit_base r now s0)"
  shows "(e \<noteq> None \<and> s' = s) \<or>
    (e = None \<and> ce_Kind c = ceremonyLogin \<and> ce_DeviceHash c = lr_deviceHash r \<and> ce_KnownDevice c = lr_known r
      \<and> map_of (ps_ceremonies s) (ce_ID c) = None
      \<and> (lr_reserved r \<or> map_of (ps_byActive s) (lr_deviceHash r) \<noteq> None \<or> \<not> ceremony_capacity (lr_known r) s2)
      \<and> s' = insert_login r (c\<lparr>ce_ExpiresAt := now + ceremonyTTL\<rparr>) s2)"
proof -
  have ok: "ceremonies_ok s" using cleanup_slots(1) [OF assms(1)] by (simp add: s_def slots_inv_def)
  define existing where "existing = (case map_of (ps_byActive s) (lr_deviceHash r) of
                 None \<Rightarrow> None | Some i \<Rightarrow> map_option (\<lambda>v. (i, v)) (map_of (ps_ceremonies s) i))"
  have ex: "existing = None \<longleftrightarrow> map_of (ps_byActive s) (lr_deviceHash r) = None"
  proof (cases "map_of (ps_byActive s) (lr_deviceHash r)")
    case (Some i)
    with ok obtain v where "map_of (ps_ceremonies s) i = Some v" unfolding ceremonies_ok_def by blast
    with Some show ?thesis by (simp add: existing_def)
  qed (simp add: existing_def)
  have base: "(case existing of None \<Rightarrow> s | Some (i, v) \<Rightarrow> removeCeremonyLocked i v s) = commit_base r now s0"
    by (auto simp: existing_def commit_base_def s_def Let_def split: option.split)
  note u = assms(2) [unfolded commitLogin_def Let_def, folded s_def, folded existing_def, unfolded base, folded s2_def]
  show ?thesis
  proof (cases e)
    case (Some x)
    have "s2 = s" if "\<not> lr_reserved r" "existing = None"
      using that ex by (simp add: s2_def commit_base_def s_def Let_def)
    with u Some show ?thesis by (auto split: if_splits)
  next
    case None
    with u ex show ?thesis by (auto simp: insert_login_def split: if_splits)
  qed
qed

lemma commit_slots:
  assumes "slots_inv R s0" "r \<in> set R" "commitLogin r c now s0 = (e, s')"
  shows "slots_inv (if e = None then remove1 r R else R) s'"
proof -
  let ?s = "cleanupCeremoniesLocked now s0" and ?b = "commit_base r now s0" and ?c = "c\<lparr>ce_ExpiresAt := now + ceremonyTTL\<rparr>"
  define s2 where "s2 = (if lr_reserved r then releasePendingLocked (lr_known r) ?b else ?b)"
  have inv: "slots_inv R ?s" by (rule cleanup_slots [OF assms(1)])
  note b = commit_base_slots [OF assms(1), where r = r and now = now]
  show ?thesis
  proof (cases e)
    case (Some x)
    with commitLogin_outcome [OF assms(1,3)] have "s' = ?s" by simp
    with inv Some show ?thesis by simp
  next
    case e: None
    with commitLogin_outcome [OF assms(1,3), folded s2_def]
    have c: "ce_Kind c = ceremonyLogin" "ce_DeviceHash c = lr_deviceHash r" "map_of (ps_ceremonies ?s) (ce_ID c) = None"
      and room: "lr_reserved r \<or> map_of (ps_byActive ?s) (lr_deviceHash r) \<noteq> None \<or> \<not> ceremony_capacity (lr_known r) s2"
      and s': "s' = insert_login r ?c s2" by simp_all
    have f: "ps_ceremonies s2 = ps_ceremonies ?b" "ps_byActive s2 = ps_byActive ?b" "ps_byDevice s2 = ps_byDevice ?b"
      "ps_active s2 = ps_active ?b" "ps_unknownActive s2 = ps_unknownActive ?b"
      by (simp_all add: s2_def)
    have ok2: "ceremonies_ok s2" using b(1) by (simp add: s2_def slots_inv_def)
    have fresh: "map_of (ps_ceremonies s2) (ce_ID c) = None"
      using c(3) by (simp add: f commit_base_def Let_def split: option.split)
    have p: "pending_ok R ?b" "room_ok ?b" using b(1) by (simp_all add: slots_inv_def)
    have p2: "ps_pendingSlots s2 = ps_pendingSlots ?b - (if lr_reserved r then 1 else 0)"
      "ps_pendingUnknown s2 = ps_pendingUnknown ?b - (if lr_reserved r \<and> \<not> lr_known r then 1 else 0)"
      using release_pending [OF _ assms(2), of ?b] p(1)
      by (cases "lr_known r"; simp add: s2_def pending_ok_def)+
    have wf: "map_wf (ps_byDevice s2)" using ok2 by (simp add: ceremonies_ok_def)
    note ins = insert_ceremony(2) [OF ok2, of ?c]
    have "ceremonies_ok s'"
      unfolding s' insert_login_def
      by (rule ceremonies_ok_off) (use ins fresh b(2) c(1,2) f in simp)
    moreover have "pending_ok (remove1 r R) s'"
      by (rule pending_drop [OF p(1) assms(2)])
         (simp_all add: s' insert_login_def inflight_off p2 f)
    moreover have "room_ok s'"
    proof -
      have len: "length (ps_ceremonies s') = Suc (length (ps_ceremonies ?b))"
        using fresh ok2 count_insert [of "ps_ceremonies s2" "ce_ID c" "\<lambda>_ _. True" ?c]
        by (simp add: s' insert_login_def ceremonies_ok_def length_as_count f)
      have act: "ps_active s' = ps_active ?b + 1" "ps_pendingSlots s' = ps_pendingSlots s2"
        by (simp_all add: s' insert_login_def f)
      consider "lr_reserved r" | "\<not> lr_reserved r" "map_of (ps_byActive ?s) (lr_deviceHash r) \<noteq> None"
        | "\<not> lr_reserved r" "\<not> ceremony_capacity (lr_known r) s2" using room by blast
      then show ?thesis
      proof cases
        case 1
        with p(2) len act p2 show ?thesis by (simp add: room_ok_def)
      next
        case 2
        moreover have "ps_pendingSlots ?b = ps_pendingSlots ?s"
          using b(3) cleanupCeremonies_gates [of s0 now] by (simp add: same_gates_def)
        ultimately show ?thesis
          using b(4) [OF 2(2)] inv len act p2 by (auto simp: room_ok_def slots_inv_def)
      next
        case 3
        with len act p2 f show ?thesis by (auto simp: room_ok_def ceremony_capacity_def)
      qed
    qed
    ultimately show ?thesis using e by (simp add: slots_inv_def)
  qed
qed

subsection \<open>Runs\<close>

text \<open>
  A run with its reservations: each one the instant it read, and the installation and kind it admitted,
  if it did; latest first. Clock readings are after the zero time.
\<close>

type_synonym login_event = "time \<times> (bytes \<times> bool) option"

inductive login_run ::
  "loginReservation list \<times> ('c, 's) passkey_state \<Rightarrow> login_event list
    \<Rightarrow> loginReservation list \<times> ('c, 's) passkey_state \<Rightarrow> bool" for x where
  start: "login_run x [] x"
| reserve: "login_run x tr (R, s) \<Longrightarrow> 0 < now \<Longrightarrow> reserveLogin dh known now s = (res, s') \<Longrightarrow>
    login_run x ((now, case res of Inl _ \<Rightarrow> None | Inr _ \<Rightarrow> Some (dh, known)) # tr)
      (case res of Inl _ \<Rightarrow> R | Inr r \<Rightarrow> r # R, s')"
| cancel: "login_run x tr (R, s) \<Longrightarrow> r \<in> set R \<Longrightarrow> login_run x tr (remove1 r R, cancelLogin r s)"
| commit: "login_run x tr (R, s) \<Longrightarrow> r \<in> set R \<Longrightarrow> commitLogin r c now s = (e, s') \<Longrightarrow>
    login_run x tr (if e = None then remove1 r R else R, s')"
| consume: "login_run x tr (R, s) \<Longrightarrow> consume i kind now s = (res, s') \<Longrightarrow> login_run x tr (R, s')"
| save: "login_run x tr (R, s) \<Longrightarrow> saveCeremony c now s = (e, s') \<Longrightarrow> login_run x tr (R, s')"
| known: "login_run x tr (R, s) \<Longrightarrow> knownDevice load now dh s = (res, s') \<Longrightarrow> login_run x tr (R, s')"
| remember: "login_run x tr (R, s) \<Longrightarrow> login_run x tr (R, rememberKnownDevice dh s)"

definition same_rates :: "('c, 's) passkey_state \<Rightarrow> ('c, 's) passkey_state \<Rightarrow> bool" where
  "same_rates s s' \<longleftrightarrow> (map_wf (ps_byDevice s) \<longrightarrow> map_wf (ps_byDevice s'))
     \<and> (\<forall>dh. map_option dl_rate (map_of (ps_byDevice s') dh) = map_option dl_rate (map_of (ps_byDevice s) dh))
     \<and> ps_unknownRate s' = ps_unknownRate s \<and> ps_knownRate s' = ps_knownRate s"

lemma same_rates_gates: "same_gates s s' \<Longrightarrow> same_rates s s'"
  by (simp add: same_gates_def same_rates_def)

lemma same_rates_trans: "same_rates a b \<Longrightarrow> same_rates b c \<Longrightarrow> same_rates a c"
  by (simp add: same_rates_def)

lemma same_rates_off: "same_rates s (set_inFlight dh False s)"
  by (auto simp: same_rates_def set_inFlight_def split: option.split)

lemma same_rates_facts:
  assumes "same_rates s s'" "rates_ok s"
  shows "rates_ok s'" "device_credit t s' = device_credit t s" "global_credit t s' = global_credit t s"
proof -
  have m: "map_option dl_rate (map_of (ps_byDevice s') dh) = map_option dl_rate (map_of (ps_byDevice s) dh)" for dh
    using assms(1) by (simp add: same_rates_def)
  have "bucket_ok deviceLoginBurst (dl_rate d)" if "map_of (ps_byDevice s') dh = Some d" for dh d
    using m [of dh] that assms(2) by (cases "map_of (ps_byDevice s) dh") (auto simp: rates_ok_def)
  then show "rates_ok s'" using assms by (auto simp: rates_ok_def same_rates_def)
  show "device_credit t s' = device_credit t s"
  proof
    fix dh
    show "device_credit t s' dh = device_credit t s dh"
      using m [of dh] by (cases "map_of (ps_byDevice s) dh"; cases "map_of (ps_byDevice s') dh") (simp_all add: device_credit_def)
  qed
  show "global_credit t s' = global_credit t s"
    using assms(1) by (simp add: same_rates_def global_credit_def fun_eq_iff)
qed

lemma same_rates_cancel: "same_rates s (cancelLogin r s)"
  using same_rates_off [of s "lr_deviceHash r"] by (simp add: cancelLogin_def Let_def same_rates_def releasePendingLocked_def)

lemma same_rates_insert: "same_rates s (insert_login r c s)"
proof -
  have "same_rates s (s\<lparr>ps_ceremonies := x, ps_byActive := y, ps_active := a, ps_unknownActive := b\<rparr>)" for x y a b
    by (simp add: same_rates_def)
  from same_rates_trans [OF this same_rates_off] show ?thesis by (simp add: insert_login_def)
qed

lemma same_rates_commit:
  assumes "slots_inv R s0" "commitLogin r c now s0 = (e, s')"
  shows "same_rates s0 s'"
proof -
  have c: "same_rates s0 (cleanupCeremoniesLocked now s0)" by (rule same_rates_gates [OF cleanupCeremonies_gates])
  have b: "same_rates s0 (commit_base r now s0)" by (rule same_rates_gates [OF commit_base_slots(3) [OF assms(1)]])
  then have "same_rates s0 (releasePendingLocked k (commit_base r now s0))" for k
    by (simp add: same_rates_def releasePendingLocked_def)
  with b have "same_rates s0 (if lr_reserved r then releasePendingLocked (lr_known r) (commit_base r now s0) else commit_base r now s0)"
    by simp
  from same_rates_trans [OF this same_rates_insert] commitLogin_outcome [OF assms] c show ?thesis by auto
qed

lemma same_rates_consume: "consume i kind now s = (res, s') \<Longrightarrow> same_rates s s'"
  by (rule same_rates_gates)
     (auto simp: consume_def Let_def cleanupCeremonies_gates split: option.splits if_splits
       intro: same_gates_trans [OF cleanupCeremonies_gates same_gates_remove])

lemma same_rates_save: "saveCeremony c now s = (e, s') \<Longrightarrow> same_rates s s'"
  using same_rates_gates [OF cleanupCeremonies_gates [of s now]]
  by (auto simp: saveCeremony_def Let_def same_rates_def split: if_splits)

lemma known_fields:
  "knownDevice load now dh s = (res, s') \<Longrightarrow> s' = s\<lparr>ps_known := ps_known s', ps_knownReady := ps_knownReady s',
     ps_knownErr := ps_knownErr s', ps_knownRetry := ps_knownRetry s'\<rparr>"
  by (auto simp: knownDevice_def split: if_splits option.splits sum.splits)

lemma slots_inv_known:
  "slots_inv R (s\<lparr>ps_known := a, ps_knownReady := b, ps_knownErr := e, ps_knownRetry := t\<rparr>) = slots_inv R s"
  by (simp add: slots_inv_def ceremonies_ok_def pending_ok_def room_ok_def)

lemma remember_fields: "rememberKnownDevice dh s = s\<lparr>ps_known := ps_known (rememberKnownDevice dh s),
     ps_knownReady := ps_knownReady s, ps_knownErr := ps_knownErr s, ps_knownRetry := ps_knownRetry s\<rparr>"
  by (simp add: rememberKnownDevice_def)

lemma run_slots: "login_run x tr y \<Longrightarrow> slots_inv (fst x) (snd x) \<Longrightarrow> slots_inv (fst y) (snd y)"
proof (induction rule: login_run.induct)
  case (reserve tr R s now dh known res s')
  from reserve_slots [OF _ reserve(3)] reserve.IH reserve.prems show ?case by (cases res) auto
next
  case (known tr R s load now dh res s')
  from known_fields [OF known(2)] known.IH known.prems slots_inv_known show ?case by (metis fst_conv snd_conv)
next
  case (remember tr R s dh)
  from remember_fields [of dh s] remember.IH remember.prems slots_inv_known show ?case by (metis fst_conv snd_conv)
next
  case (commit tr R s r c now e s')
  from commit_slots [OF _ commit(2,3)] commit.IH commit.prems show ?case by simp
qed (auto intro: cancel_slots consume_slots save_slots)

lemma start_slots: "slots_inv [] new_passkey_state"
  by (simp add: slots_inv_def ceremonies_ok_def pending_ok_def room_ok_def new_passkey_state_def login_limits)

lemma start_rates: "rates_ok new_passkey_state"
  by (simp add: rates_ok_def new_passkey_state_def bucket_ok_def newTokenBucket_def login_limits)

subsection \<open>Counting admissions\<close>

definition admitted_logins :: "(bytes \<Rightarrow> bool \<Rightarrow> bool) \<Rightarrow> login_event list \<Rightarrow> int" where
  "admitted_logins p tr = int (length (filter (\<lambda>e. case snd e of None \<Rightarrow> False | Some (dh, k) \<Rightarrow> p dh k) tr))"

text \<open>How far the clock moved forward between consecutive readings; corrections backwards count as zero.\<close>

fun travel :: "login_event list \<Rightarrow> time" where
  "travel (e2 # e1 # tr) = max 0 (fst e2 - fst e1) + travel (e1 # tr)"
| "travel _ = 0"

text \<open>
  The potential argument once: \<open>c\<close> is a bucket's credit at each instant after \<open>tr\<close>, which grows at most
  with the clock; a further reservation leaves at most that credit, and an admission costs \<open>cost\<close> of what
  is at most a full window.
\<close>

definition paid :: "int \<Rightarrow> int \<Rightarrow> (bytes \<Rightarrow> bool \<Rightarrow> bool) \<Rightarrow> login_event list \<Rightarrow> (time \<Rightarrow> int) \<Rightarrow> bool" where
  "paid window cost p tr c \<longleftrightarrow> admitted_logins p tr = 0
     \<or> admitted_logins p tr * cost + c (fst (hd tr)) \<le> window + travel tr"

lemma paid_step:
  assumes "paid window cost p tr c" "\<And>t t'. c t' \<le> c t + max 0 (t' - t)"
    "c' now \<le> c now" "(case a of None \<Rightarrow> False | Some (dh, k) \<Rightarrow> p dh k) \<Longrightarrow> c' now \<le> min (c now) window - cost"
    "0 \<le> cost"
  shows "paid window cost p ((now, a) # tr) c'"
proof -
  let ?hit = "case a of None \<Rightarrow> False | Some (dh, k) \<Rightarrow> p dh k"
  have n: "admitted_logins p ((now, a) # tr) = admitted_logins p tr + (if ?hit then 1 else 0)" by (simp add: admitted_logins_def)
  have pos: "0 \<le> admitted_logins p tr" by (simp add: admitted_logins_def)
  have t0: "0 \<le> travel tr'" for tr' by (induction tr' rule: travel.induct) auto
  show ?thesis
  proof (cases "admitted_logins p tr = 0")
    case True
    then show ?thesis
      using assms(4) t0 [of "(now, a) # tr"] by (cases ?hit) (auto simp: paid_def n)
  next
    case False
    then obtain e tr' where tr: "tr = e # tr'" by (cases tr) (auto simp: admitted_logins_def)
    from False assms(1) have "admitted_logins p tr * cost + c (fst e) \<le> window + travel tr" by (simp add: paid_def tr)
    moreover have "c now \<le> c (fst e) + max 0 (now - fst e)" by (rule assms(2))
    moreover have "travel ((now, a) # tr) = max 0 (now - fst e) + travel tr" by (simp add: tr)
    ultimately have "admitted_logins p tr * cost + c now \<le> window + travel ((now, a) # tr)" by linarith
    with assms(3,4) show ?thesis by (cases ?hit) (auto simp: paid_def n distrib_right)
  qed
qed

lemma device_credit_advance: "device_credit t' s dh \<le> device_credit t s dh + max 0 (t' - t)"
  using device_bucket.credit_advance by (auto simp: device_credit_def split: option.split)

lemma global_credit_advance: "global_credit t' s k \<le> global_credit t s k + max 0 (t' - t)"
  using known_bucket.credit_advance unknown_bucket.credit_advance by (simp add: global_credit_def)

definition all_paid :: "login_event list \<Rightarrow> ('c, 's) passkey_state \<Rightarrow> bool" where
  "all_paid tr s \<longleftrightarrow> rates_ok s
     \<and> (\<forall>dh. paid device_window deviceLoginRefillInterval (\<lambda>d _. d = dh) tr (\<lambda>t. device_credit t s dh))
     \<and> (\<forall>k. paid (global_window k) (global_refill k) (\<lambda>_ k'. k' = k) tr (\<lambda>t. global_credit t s k))"

lemma all_paid_same: "same_rates s s' \<Longrightarrow> all_paid tr s \<Longrightarrow> all_paid tr s'"
  using same_rates_facts [of s s'] by (simp add: all_paid_def)

lemma all_paid_reserve:
  assumes "all_paid tr s" "0 < now" "reserveLogin dh known now s = (res, s')"
  shows "all_paid ((now, case res of Inl _ \<Rightarrow> None | Inr _ \<Rightarrow> Some (dh, known)) # tr) s'"
proof -
  let ?a = "case res of Inl _ \<Rightarrow> None | Inr _ \<Rightarrow> Some (dh, known)"
  have ok: "rates_ok s" using assms(1) by (simp add: all_paid_def)
  note r = reserve_rates [OF ok assms(2,3)]
  have a: "?a = Some y \<Longrightarrow> is_ok res \<and> y = (dh, known)" for y by (cases res) auto
  have "paid device_window deviceLoginRefillInterval (\<lambda>d _. d = x) ((now, ?a) # tr) (\<lambda>t. device_credit t s' x)" for x
  proof (rule paid_step)
    show "paid device_window deviceLoginRefillInterval (\<lambda>d _. d = x) tr (\<lambda>t. device_credit t s x)"
      using assms(1) by (simp add: all_paid_def)
  qed (use device_credit_advance r(2,3) a in \<open>auto simp: login_limits split: option.splits\<close>)
  moreover have "paid (global_window k) (global_refill k) (\<lambda>_ k'. k' = k) ((now, ?a) # tr) (\<lambda>t. global_credit t s' k)" for k
  proof (rule paid_step)
    show "paid (global_window k) (global_refill k) (\<lambda>_ k'. k' = k) tr (\<lambda>t. global_credit t s k)"
      using assms(1) by (simp add: all_paid_def)
  qed (use global_credit_advance r(4,5) a in \<open>auto simp: global_refill_def login_limits split: option.splits\<close>)
  ultimately show ?thesis using r(1) by (simp add: all_paid_def)
qed

lemma run_paid:
  "login_run x tr y \<Longrightarrow> slots_inv (fst x) (snd x) \<Longrightarrow> rates_ok (snd x) \<Longrightarrow> all_paid tr (snd y)"
proof (induction rule: login_run.induct)
  case start
  then show ?case by (simp add: all_paid_def paid_def admitted_logins_def)
next
  case (reserve tr R s now dh known res s')
  then show ?case by (auto intro: all_paid_reserve)
next
  case (commit tr R s r c now e s')
  have "slots_inv R s" using run_slots [OF commit(1)] commit.prems by simp
  from same_rates_commit [OF this commit(3)] commit.IH commit.prems show ?case by (auto intro: all_paid_same)
next
  case (known tr R s load now dh res s')
  have "same_rates s s'" using known(2)
    by (auto simp: knownDevice_def same_rates_def split: if_splits option.splits sum.splits)
  with known.IH known.prems show ?case by (auto intro: all_paid_same)
next
  case (remember tr R s dh)
  have "same_rates s (rememberKnownDevice dh s)" by (simp add: same_rates_def rememberKnownDevice_def)
  with remember.IH remember.prems show ?case by (auto intro: all_paid_same)
qed (auto intro: all_paid_same same_rates_cancel same_rates_consume same_rates_save)

subsection \<open>Properties\<close>

text \<open>C20:
  Anonymous logins are throttled over every interleaving: in any window of the service's life, an app
  installation is admitted at most four times plus once per 15 seconds by which the clock moved on; all
  installations not seen before together at most 32 times plus once per second, the known ones 32 plus
  four per second. Setting the clock back gives no credit, dropping an idle installation's bucket
  neither, and what fails later is not refunded.
\<close>

theorem login_rate_limited:
  assumes "login_run ([], new_passkey_state) tr0 x" "login_run x tr y"
  shows "admitted_logins (\<lambda>d _. d = dh) tr * (15 * second) \<le> 4 * (15 * second) + travel tr
    \<and> admitted_logins (\<lambda>_ k. \<not> k) tr * second \<le> 32 * second + travel tr
    \<and> admitted_logins (\<lambda>_ k. k) tr * 250000000 \<le> 32 * 250000000 + travel tr"
proof -
  have x: "slots_inv (fst x) (snd x)" "rates_ok (snd x)"
    using run_slots [OF assms(1)] run_paid [OF assms(1)] by (simp_all add: all_paid_def start_slots start_rates)
  have paid: "all_paid tr (snd y)" by (rule run_paid [OF assms(2) x])
  have t0: "0 \<le> travel tr'" for tr' by (induction tr' rule: travel.induct) auto
  have bound: "admitted_logins p tr * cost \<le> window + travel tr"
    if "paid window cost p tr c" "\<And>t. 0 \<le> c t" "0 \<le> window" for p cost window c
    using that(1) that(2) [of "fst (hd tr)"] that(3) t0 [of tr] by (auto simp: paid_def)
  have ok: "rates_ok (snd y)" using paid by (simp add: all_paid_def)
  have cr: "0 \<le> credit cap i t b" if "bucket_ok cap b" "0 \<le> i" "0 \<le> cap" for cap i t b
    using that by (auto simp: credit_def bucket_ok_def)
  have "0 \<le> device_credit t (snd y) dh" for t
    using ok cr by (auto simp: device_credit_def rates_ok_def login_limits split: option.split)
  moreover have "0 \<le> global_credit t (snd y) k" for t k
    using ok cr by (auto simp: global_credit_def rates_ok_def login_limits)
  moreover have "(\<lambda>_ k'. k' = False) = (\<lambda>(_::bytes) k. \<not> k)" "(\<lambda>_ k'. k' = True) = (\<lambda>(_::bytes) k. k)" by auto
  moreover have "paid device_window deviceLoginRefillInterval (\<lambda>d _. d = dh) tr (\<lambda>t. device_credit t (snd y) dh)"
    "paid (global_window False) (global_refill False) (\<lambda>_ k'. k' = False) tr (\<lambda>t. global_credit t (snd y) False)"
    "paid (global_window True) (global_refill True) (\<lambda>_ k'. k' = True) tr (\<lambda>t. global_credit t (snd y) True)"
    using paid unfolding all_paid_def by blast+
  ultimately show ?thesis
    using bound [of device_window deviceLoginRefillInterval] bound [of "global_window False" "global_refill False"]
      bound [of "global_window True" "global_refill True"]
    by (simp add: login_limits global_window_def global_refill_def)
qed

text \<open>C21:
  Hostile logins cannot lock out registration. Over every interleaving the admission counters are exact:
  the active logins are the login ceremonies held, and the pending slots the reservations that are out.
  Logins held and pending never exceed 3840 of the 4096 ceremonies, and starting a registration is refused
  for capacity only if 256 registrations are under way.
\<close>

theorem registration_slots_reserved:
  assumes "login_run ([], new_passkey_state) tr (R, s)"
  shows "ps_active s = int (count_where (\<lambda>_. is_login) (ps_ceremonies s))
    \<and> ps_pendingSlots s = int (length (filter lr_reserved R))
    \<and> ps_active s + ps_pendingSlots s \<le> 3840
    \<and> int (length (ps_ceremonies s)) + ps_pendingSlots s \<le> 4096
    \<and> (case fst (saveCeremony c now s) of
         Some e \<Rightarrow> if err_is e = ErrCapacity
           then 256 \<le> count_where (\<lambda>_ v. \<not> is_login v) (ps_ceremonies (cleanupCeremoniesLocked now s)) else True
       | None \<Rightarrow> True)"
proof -
  have inv: "slots_inv R s" using run_slots [OF assms] by (simp add: start_slots)
  let ?s = "cleanupCeremoniesLocked now s"
  have c: "slots_inv R ?s" by (rule cleanup_slots [OF inv])
  have n: "length m = count_where (\<lambda>_. is_login) m + count_where (\<lambda>_ v. \<not> is_login v) m"
    for m :: "(string, ('a, 'b) ceremony) gomap" by (induction m) auto
  have "256 \<le> count_where (\<lambda>_ v. \<not> is_login v) (ps_ceremonies ?s)"
    if "fst (saveCeremony c now s) = Some e" "err_is e = ErrCapacity" for e
  proof -
    from that have "4096 \<le> int (length (ps_ceremonies ?s)) + ps_pendingSlots ?s"
      by (auto simp: saveCeremony_def Let_def login_limits split: if_splits)
    with c n [of "ps_ceremonies ?s"] show ?thesis
      by (auto simp: slots_inv_def room_ok_def ceremonies_ok_def login_limits)
  qed
  with inv show ?thesis
    by (auto simp: slots_inv_def ceremonies_ok_def pending_ok_def room_ok_def login_limits split: option.split)
qed

text \<open>Two logins of one installation in a row: the second waits for the first.\<close>

definition login_hash :: bytes where "login_hash = replicate 32 7"

definition login_state1 :: "(unit, unit) passkey_state" where
  "login_state1 = snd (reserveLogin login_hash False 5 new_passkey_state)"

lemma login_reserved:
  "reserveLogin login_hash False 5 (new_passkey_state :: (unit, unit) passkey_state)
     = (Inr \<lparr>lr_deviceHash = login_hash, lr_known = False, lr_reserved = True\<rparr>, login_state1)"
  by (simp add: login_state1_def reserveLogin_def cleanupCeremoniesLocked_def cleanupAdmissionsLocked_def
      new_passkey_state_def found_device_def refill_device_def refill_def newTokenBucket_def global_refilled_def
      set_global_def ceremony_capacity_def login_limits)

lemma login_example_run:
  "login_run ([], new_passkey_state :: (unit, unit) passkey_state) [(5, Some (login_hash, False))]
     ([\<lparr>lr_deviceHash = login_hash, lr_known = False, lr_reserved = True\<rparr>], login_state1)"
  using login_run.reserve [OF login_run.start _ login_reserved, of "[]"] by simp

theorem login_rate_limited_witness:
  "admitted_logins (\<lambda>d _. d = login_hash) [(5, Some (login_hash, False))] * (15 * second) \<le> 4 * (15 * second)"
  using login_rate_limited [OF login_run.start login_example_run, of login_hash] by simp

theorem registration_slots_reserved_witness: "ps_active login_state1 + ps_pendingSlots login_state1 \<le> 3840"
  by (rule registration_slots_reserved [OF login_example_run, THEN conjunct2, THEN conjunct2, THEN conjunct1])

end
