(* ===== verification/Passkey_Ceremonies.thy ===== *)
theory Passkey_Ceremonies
  imports Passkey_Limits
begin

text \<open>
  The critical sections of the passkey service as operations, run in any order by any number of requests,
  with the events they log: a ceremony is begun when it enters the table and finished when a request
  takes it out. Each ceremony is finished at most once, as it was begun and within its five minutes.
\<close>

subsection \<open>Operations and events\<close>

datatype ('c, 's) ceremony_op =
  OpReserve bytes bool time
| OpCancel loginReservation
| OpCommit loginReservation "('c, 's) ceremony" time
| OpConsume string ceremony_kind time
| OpSave "('c, 's) ceremony" time
| OpKnown "bytes list result" time bytes
| OpRemember bytes

datatype ('c, 's) ceremony_event =
  Begun "('c, 's) ceremony" time
| Finished string "('c, 's) ceremony" time

fun run_ceremony_op :: "('c, 's) ceremony_op \<Rightarrow> ('c, 's) passkey_state \<Rightarrow> ('c, 's) ceremony_event list \<times> ('c, 's) passkey_state" where
  "run_ceremony_op (OpReserve dh known t) s = ([], snd (reserveLogin dh known t s))"
| "run_ceremony_op (OpCancel r) s = ([], cancelLogin r s)"
| "run_ceremony_op (OpCommit r c t) s =
     (case commitLogin r c t s of (None, s') \<Rightarrow> ([Begun c t], s') | (Some e, s') \<Rightarrow> ([], s'))"
| "run_ceremony_op (OpConsume i k t) s =
     (case consume i k t s of (Inr c, s') \<Rightarrow> ([Finished i c t], s') | (Inl e, s') \<Rightarrow> ([], s'))"
| "run_ceremony_op (OpSave c t) s =
     (case saveCeremony c t s of (None, s') \<Rightarrow> ([Begun c t], s') | (Some e, s') \<Rightarrow> ([], s'))"
| "run_ceremony_op (OpKnown load t dh) s = ([], snd (knownDevice load t dh s))"
| "run_ceremony_op (OpRemember dh) s = ([], rememberKnownDevice dh s)"

text \<open>The log has the latest event first.\<close>

primrec ceremony_ops ::
  "('c, 's) ceremony_op list \<Rightarrow> ('c, 's) ceremony_event list \<times> ('c, 's) passkey_state
    \<Rightarrow> ('c, 's) ceremony_event list \<times> ('c, 's) passkey_state" where
  "ceremony_ops [] x = x"
| "ceremony_ops (p # ps) x =
     ceremony_ops ps (fst (run_ceremony_op p (snd x)) @ fst x, snd (run_ceremony_op p (snd x)))"

lemma ceremony_ops_append: "ceremony_ops (ps @ qs) x = ceremony_ops qs (ceremony_ops ps x)"
  by (induction ps arbitrary: x) simp_all

definition ceremony_reach :: "('c, 's) ceremony_event list \<times> ('c, 's) passkey_state \<Rightarrow> bool" where
  "ceremony_reach x \<longleftrightarrow> (\<exists>ps. ceremony_ops ps ([], new_passkey_state) = x)"

lemma ceremony_reach_start: "ceremony_reach ([], new_passkey_state)"
  by (auto simp: ceremony_reach_def intro: exI [of _ "[]"])

lemma ceremony_reach_ops: "ceremony_reach x \<Longrightarrow> ceremony_reach (ceremony_ops ps x)"
  unfolding ceremony_reach_def by (metis ceremony_ops_append)

lemma ceremony_reach_op:
  assumes "ceremony_reach (tr, s)"
  shows "ceremony_reach (fst (run_ceremony_op p s) @ tr, snd (run_ceremony_op p s))"
  using ceremony_reach_ops [OF assms, of "[p]"] by simp

subsection \<open>What an operation leaves in the table\<close>

definition table_shrinks :: "('c, 's) passkey_state \<Rightarrow> ('c, 's) passkey_state \<Rightarrow> bool" where
  "table_shrinks s s' \<longleftrightarrow>
     (\<forall>i c. map_of (ps_ceremonies s') i = Some c \<longrightarrow> map_of (ps_ceremonies s) i = Some c)"

lemma tshrinks_refl [simp]: "table_shrinks s s" by (simp add: table_shrinks_def)

lemma tshrinks_trans: "table_shrinks s t \<Longrightarrow> table_shrinks t u \<Longrightarrow> table_shrinks s u"
  by (simp add: table_shrinks_def)

lemma tshrinks_same: "ps_ceremonies s' = ps_ceremonies s \<Longrightarrow> table_shrinks s s'"
  by (simp add: table_shrinks_def)

lemma tshrinks_remove: "table_shrinks s (removeCeremonyLocked i c s)"
  by (auto simp: table_shrinks_def removeCeremonyLocked_def Let_def split: if_splits)

lemma removed_absent: "map_of (ps_ceremonies (removeCeremonyLocked i c s)) i = None"
  by (simp add: removeCeremonyLocked_def Let_def)

lemma tshrinks_expired: "table_shrinks s (remove_expired t xs s)"
proof (induction xs arbitrary: s)
  case (Cons x xs)
  then show ?case using tshrinks_trans [OF tshrinks_remove Cons.IH] by simp
qed simp

lemma tshrinks_cleanup: "table_shrinks s (cleanupCeremoniesLocked t s)"
  by (simp add: cleanupCeremoniesLocked_def tshrinks_expired)

lemma expired_gone:
  assumes "map_of (ps_ceremonies (remove_expired t xs s)) i = Some c" "(i, c) \<in> set xs"
  shows "t < ce_ExpiresAt c"
  using assms
proof (induction xs arbitrary: s)
  case (Cons x xs)
  show ?case
  proof (cases "(i, c) \<in> set xs")
    case True
    with Cons show ?thesis by (auto split: if_splits)
  next
    case False
    with Cons.prems(2) have x: "x = (i, c)" by simp
    show ?thesis
    proof (rule ccontr)
      assume "\<not> t < ce_ExpiresAt c"
      with Cons.prems(1) x have "map_of (ps_ceremonies (remove_expired t xs (removeCeremonyLocked i c s))) i = Some c" by simp
      moreover have "table_shrinks (removeCeremonyLocked i c s) (remove_expired t xs (removeCeremonyLocked i c s))"
        by (rule tshrinks_expired)
      ultimately have "map_of (ps_ceremonies (removeCeremonyLocked i c s)) i = Some c"
        unfolding table_shrinks_def by blast
      then show False by (simp add: removed_absent)
    qed
  qed
qed simp

lemma cleanup_live:
  assumes "map_of (ps_ceremonies (cleanupCeremoniesLocked t s)) i = Some c"
  shows "map_of (ps_ceremonies s) i = Some c \<and> t < ce_ExpiresAt c"
proof -
  from assms tshrinks_cleanup [of s t] have m: "map_of (ps_ceremonies s) i = Some c"
    by (auto simp: table_shrinks_def)
  with assms expired_gone [of t "ps_ceremonies s" s i c] show ?thesis
    by (auto simp: cleanupCeremoniesLocked_def dest: map_of_SomeD)
qed

lemma consume_cases:
  assumes "consume i k t s = (res, s')"
  obtains (refused) e where "res = Inl e" "table_shrinks s s'"
  | (taken) c where "res = Inr c" "map_of (ps_ceremonies s) i = Some c" "ce_Kind c = k" "t < ce_ExpiresAt c"
      "table_shrinks s s'" "map_of (ps_ceremonies s') i = None"
proof (cases "map_of (ps_ceremonies (cleanupCeremoniesLocked t s)) i")
  case None
  with assms have "s' = cleanupCeremoniesLocked t s" "\<exists>e. res = Inl e" by (auto simp: consume_def)
  with refused tshrinks_cleanup show thesis by blast
next
  case (Some c)
  show thesis
  proof (cases "ce_Kind c = k")
    case False
    with Some assms have "s' = cleanupCeremoniesLocked t s" "\<exists>e. res = Inl e" by (auto simp: consume_def)
    with refused tshrinks_cleanup show thesis by blast
  next
    case True
    with Some assms have r: "res = Inr c" "s' = removeCeremonyLocked i c (cleanupCeremoniesLocked t s)"
      by (simp_all add: consume_def)
    with True cleanup_live [OF Some] show thesis
      by (intro taken [of c]) (auto simp: removed_absent intro: tshrinks_trans [OF tshrinks_cleanup tshrinks_remove])
  qed
qed

text \<open>What a ceremony that enters the table becomes.\<close>

definition table_gains :: "('c, 's) ceremony \<Rightarrow> time \<Rightarrow> ('c, 's) passkey_state \<Rightarrow> ('c, 's) passkey_state \<Rightarrow> bool" where
  "table_gains c t s s' \<longleftrightarrow>
     (\<forall>i d. map_of (ps_ceremonies s') i = Some d \<longrightarrow>
        (if i = ce_ID c then d = c\<lparr>ce_ExpiresAt := t + ceremonyTTL\<rparr> else map_of (ps_ceremonies s) i = Some d))"

lemma gains_update:
  assumes "table_shrinks s u" "ps_ceremonies s' = AList.update (ce_ID c) (c\<lparr>ce_ExpiresAt := t + ceremonyTTL\<rparr>) (ps_ceremonies u)"
  shows "table_gains c t s s'"
  using assms by (auto simp: table_gains_def table_shrinks_def update_conv')

lemma save_cases:
  assumes "saveCeremony c t s = (e, s')"
  obtains "e = None" "table_gains c t s s'" | "e \<noteq> None" "table_shrinks s s'"
  using assms tshrinks_cleanup [of s t] gains_update [OF tshrinks_cleanup [of s t], of s' c t]
  by (auto simp: saveCeremony_def Let_def split: if_splits)

lemma tshrinks_set_inFlight [simp]: "ps_ceremonies (set_inFlight dh b s) = ps_ceremonies s"
  by (simp add: set_inFlight_def split: option.split)

lemma tshrinks_release [simp]: "ps_ceremonies (releasePendingLocked k s) = ps_ceremonies s"
  by (simp add: releasePendingLocked_def)

lemma guarded_outcome:
  assumes "(if A then (Some x, s) else if B then (Some y, s) else if C then (Some z, u) else (None, v)) = (e, s')"
  shows "e = None \<and> s' = v \<or> e \<noteq> None \<and> (s' = s \<or> s' = u)"
  using assms by (auto split: if_splits)

lemma commit_cases:
  assumes "commitLogin r c t s = (e, s')"
  obtains "e = None" "table_gains c t s s'" | "e \<noteq> None" "table_shrinks s s'"
proof -
  let ?s = "cleanupCeremoniesLocked t s"
  define ex where "ex = (case map_of (ps_byActive ?s) (lr_deviceHash r) of
      None \<Rightarrow> None | Some i \<Rightarrow> map_option (\<lambda>v. (i, v)) (map_of (ps_ceremonies ?s) i))"
  define s1 where "s1 = (case ex of None \<Rightarrow> ?s | Some (i, v) \<Rightarrow> removeCeremonyLocked i v ?s)"
  define s2 where "s2 = (if lr_reserved r then releasePendingLocked (lr_known r) s1 else s1)"
  have "table_shrinks s s1"
    by (auto simp: s1_def tshrinks_cleanup intro: tshrinks_trans [OF tshrinks_cleanup tshrinks_remove] split: option.split)
  then have s2: "table_shrinks s s2" by (simp add: table_shrinks_def s2_def)
  from guarded_outcome [OF assms [unfolded commitLogin_def Let_def, folded ex_def, folded s1_def, folded s2_def]]
  show thesis
  proof (elim disjE conjE)
    assume "e = None" and s': "s' = set_inFlight (lr_deviceHash r) False
        (s2\<lparr>ps_ceremonies := AList.update (ce_ID c) (c\<lparr>ce_ExpiresAt := t + ceremonyTTL\<rparr>) (ps_ceremonies s2),
            ps_byActive := AList.update (ce_DeviceHash c) (ce_ID c) (ps_byActive s2),
            ps_active := ps_active s2 + 1,
            ps_unknownActive := if ce_KnownDevice c then ps_unknownActive s2 else ps_unknownActive s2 + 1\<rparr>)"
    have "table_gains c t s s'" by (rule gains_update [OF s2]) (simp add: s')
    with \<open>e = None\<close> show thesis by (rule that(1))
  qed (use that(2) s2 tshrinks_cleanup in auto)
qed

lemma reserve_shrinks: "table_shrinks s (snd (reserveLogin dh k t s))"
proof -
  obtain res s' where r: "reserveLogin dh k t s = (res, s')" by (cases "reserveLogin dh k t s") auto
  have c: "ps_ceremonies (set_global b g u) = ps_ceremonies u" "ps_ceremonies (reserve_base t s) = ps_ceremonies (cleanupCeremoniesLocked t s)"
    "ps_ceremonies (if b then u else u\<lparr>ps_byDevice := v\<rparr>) = ps_ceremonies u" for g b v and u :: "('a, 'b) passkey_state"
    by (simp_all add: set_global_def reserve_base_def cleanupAdmissionsLocked_def)
  have "ps_ceremonies s' = ps_ceremonies (cleanupCeremoniesLocked t s)"
    using reserveLogin_outcome [OF r] by (elim disjE exE conjE; hypsubst; simp (no_asm) add: c)
  then show ?thesis using tshrinks_trans [OF tshrinks_cleanup tshrinks_same] r by fastforce
qed

lemma known_same: "ps_ceremonies (snd (knownDevice load t dh s)) = ps_ceremonies s"
  by (simp add: knownDevice_def split: option.split sum.split)

lemma remember_same: "ps_ceremonies (rememberKnownDevice dh s) = ps_ceremonies s"
  by (simp add: rememberKnownDevice_def)

lemma ceremony_op_cases:
  assumes "run_ceremony_op p s = (vs, s')"
  obtains "vs = []" "table_shrinks s s'"
  | c t where "vs = [Begun c t]" "table_gains c t s s'"
  | i c t where "vs = [Finished i c t]" "map_of (ps_ceremonies s) i = Some c" "t < ce_ExpiresAt c"
      "p = OpConsume i (ce_Kind c) t" "table_shrinks s s'" "map_of (ps_ceremonies s') i = None"
proof (cases p)
  case (OpReserve dh k t)
  with that(1) assms reserve_shrinks show thesis by (metis prod.inject run_ceremony_op.simps(1))
next
  case (OpCancel r)
  have "ps_ceremonies (cancelLogin r s) = ps_ceremonies s" by (simp add: cancelLogin_def Let_def)
  then have "table_shrinks s (cancelLogin r s)" by (rule tshrinks_same)
  with OpCancel that(1) assms show thesis by simp
next
  case (OpCommit r c t)
  obtain e u where u: "commitLogin r c t s = (e, u)" by (cases "commitLogin r c t s")
  from u show thesis by (rule commit_cases) (use that(1,2) assms OpCommit u in \<open>auto split: option.splits\<close>)
next
  case (OpConsume i k t)
  obtain res u where u: "consume i k t s = (res, u)" by (cases "consume i k t s")
  from u show thesis
  proof (cases rule: consume_cases)
    case (refused e)
    with u assms OpConsume that(1) show thesis by simp
  next
    case (taken c)
    with u assms OpConsume that(3) [of i c t] show thesis by simp
  qed
next
  case (OpSave c t)
  obtain e u where u: "saveCeremony c t s = (e, u)" by (cases "saveCeremony c t s")
  from u show thesis by (rule save_cases) (use that(1,2) assms OpSave u in \<open>auto split: option.splits\<close>)
next
  case (OpKnown load t dh)
  with that(1) assms tshrinks_same [OF known_same, of s load t dh] show thesis by simp
next
  case (OpRemember dh)
  with that(1) assms tshrinks_same [OF remember_same, of s dh] show thesis by simp
qed

subsection \<open>Single use\<close>

fun about :: "string \<Rightarrow> ('c, 's) ceremony_event \<Rightarrow> bool" where
  "about i (Begun c t) \<longleftrightarrow> ce_ID c = i"
| "about i (Finished j c t) \<longleftrightarrow> j = i"

text \<open>The latest event about an entry of the table is the one that put it there.\<close>

definition begun_last :: "('c, 's) ceremony_event list \<Rightarrow> string \<Rightarrow> ('c, 's) ceremony \<Rightarrow> bool" where
  "begun_last tr i d \<longleftrightarrow>
     (\<exists>c t post pre. tr = post @ Begun c t # pre \<and> (\<forall>v \<in> set post. \<not> about i v) \<and> ce_ID c = i
        \<and> d = c\<lparr>ce_ExpiresAt := t + ceremonyTTL\<rparr>)"

definition logged :: "('c, 's) ceremony_event list \<times> ('c, 's) passkey_state \<Rightarrow> bool" where
  "logged x \<longleftrightarrow> (\<forall>i d. map_of (ps_ceremonies (snd x)) i = Some d \<longrightarrow> begun_last (fst x) i d)"

lemma begun_last_skip: "begun_last tr i d \<Longrightarrow> \<not> about i v \<Longrightarrow> begun_last (v # tr) i d"
  unfolding begun_last_def
proof (elim exE conjE)
  fix c t post pre
  assume "tr = post @ Begun c t # pre" "\<forall>v \<in> set post. \<not> about i v" "ce_ID c = i" "d = c\<lparr>ce_ExpiresAt := t + ceremonyTTL\<rparr>"
    "\<not> about i v"
  then show "\<exists>c t post pre. v # tr = post @ Begun c t # pre \<and> (\<forall>v \<in> set post. \<not> about i v) \<and> ce_ID c = i
        \<and> d = c\<lparr>ce_ExpiresAt := t + ceremonyTTL\<rparr>"
    by (intro exI [of _ c] exI [of _ t] exI [of _ "v # post"] exI [of _ pre]) simp
qed

lemma begun_last_new: "begun_last (Begun c t # tr) (ce_ID c) (c\<lparr>ce_ExpiresAt := t + ceremonyTTL\<rparr>)"
  unfolding begun_last_def
  by (intro exI [of _ c] exI [of _ t] exI [of _ "[]"] exI [of _ tr]) simp

lemma logged_op:
  assumes "logged (tr, s)"
  shows "logged (fst (run_ceremony_op p s) @ tr, snd (run_ceremony_op p s))"
proof -
  obtain vs s' where r: "run_ceremony_op p s = (vs, s')" by (cases "run_ceremony_op p s")
  from r show ?thesis
  proof (cases rule: ceremony_op_cases)
    case 1
    with assms r show ?thesis by (simp add: logged_def table_shrinks_def)
  next
    case (2 c t)
    have "begun_last (Begun c t # tr) i d" if "map_of (ps_ceremonies s') i = Some d" for i d
    proof (cases "i = ce_ID c")
      case True
      with that 2(2) have "d = c\<lparr>ce_ExpiresAt := t + ceremonyTTL\<rparr>" unfolding table_gains_def by presburger
      with True show ?thesis by (simp add: begun_last_new)
    next
      case False
      with that 2(2) have "map_of (ps_ceremonies s) i = Some d" unfolding table_gains_def by presburger
      with assms have "begun_last tr i d" by (simp add: logged_def)
      with False show ?thesis by (intro begun_last_skip) auto
    qed
    with r 2(1) show ?thesis by (simp add: logged_def)
  next
    case (3 j c t)
    have "begun_last (Finished j c t # tr) i d" if "map_of (ps_ceremonies s') i = Some d" for i d
    proof -
      from that 3 have "i \<noteq> j" "map_of (ps_ceremonies s) i = Some d" by (auto simp: table_shrinks_def)
      with assms show ?thesis by (intro begun_last_skip) (auto simp: logged_def)
    qed
    with r 3(1) show ?thesis by (simp add: logged_def)
  qed
qed

lemma logged_ops: "logged x \<Longrightarrow> logged (ceremony_ops ps x)"
proof (induction ps arbitrary: x)
  case (Cons p ps)
  with logged_op [of "fst x" "snd x" p] show ?case by simp
qed simp

lemma reach_logged: "ceremony_reach x \<Longrightarrow> logged x"
proof -
  have "logged ([], new_passkey_state)" by (simp add: logged_def new_passkey_state_def)
  then show "ceremony_reach x \<Longrightarrow> logged x" unfolding ceremony_reach_def using logged_ops by blast
qed

text \<open>C25:
  A passkey ceremony can be finished once: in every interleaving of requests, whoever takes a ceremony out of
  the table gets the one that was begun under that identity, of the kind asked for, less than five minutes
  before, and nobody finished it in between; an unknown, expired or already used identity is refused.
\<close>

theorem ceremony_single_use:
  assumes "ceremony_reach (tr, s)" and "consume i k now s = (Inr d, s')"
  shows "\<exists>c t post pre. tr = post @ Begun c t # pre \<and> (\<forall>v \<in> set post. \<not> about i v) \<and> ce_ID c = i \<and> ce_Kind c = k
      \<and> d = c\<lparr>ce_ExpiresAt := t + ceremonyTTL\<rparr> \<and> now < t + ceremonyTTL
      \<and> (\<forall>k' now'. \<exists>e. fst (consume i k' now' s') = Inl e)"
proof -
  from assms(2) obtain d' where d': "Inr d = (Inr d' :: ('a, 'b) ceremony result)" "map_of (ps_ceremonies s) i = Some d'"
      "ce_Kind d' = k" "now < ce_ExpiresAt d'" "map_of (ps_ceremonies s') i = None"
    by (rule consume_cases) auto
  have again: "\<exists>e. fst (consume i k' now' s') = Inl e" for k' now'
  proof -
    obtain res u where "consume i k' now' s' = (res, u)" by (cases "consume i k' now' s'")
    then show ?thesis by (rule consume_cases) (use d'(5) \<open>consume i k' now' s' = (res, u)\<close> in auto)
  qed
  from reach_logged [OF assms(1)] d' have "begun_last tr i d" by (simp add: logged_def)
  then obtain c t post pre where "tr = post @ Begun c t # pre" "\<forall>v \<in> set post. \<not> about i v" "ce_ID c = i"
      "d = c\<lparr>ce_ExpiresAt := t + ceremonyTTL\<rparr>" unfolding begun_last_def by blast
  with d' again show ?thesis
    by (intro exI [of _ c] exI [of _ t] exI [of _ post] exI [of _ pre]) auto
qed

end
