(* ===== verification/Go_Base64_Decode.thy ===== *)
theory Go_Base64_Decode
  imports Go_Base64
begin

text \<open>
  \<^verbatim>\<open>base64.RawURLEncoding.DecodeString\<close>: the bytes of an unpadded URL-safe text, or none where Go returns
  an error. Carriage returns and line feeds are skipped and left-over bits are not checked, so a text
  is canonical when encoding the result gives it back.
\<close>

definition url_value :: "char \<Rightarrow> nat" where
  "url_value c = (let n = (of_char c :: nat) in
     if 65 \<le> n \<and> n \<le> 90 then n - 65 else if 97 \<le> n \<and> n \<le> 122 then n - 71
     else if 48 \<le> n \<and> n \<le> 57 then n + 4 else if n = 45 then 62 else 63)"

fun url_decode :: "nat list \<Rightarrow> nat list option" where
  "url_decode [] = Some []"
| "url_decode [a] = None"
| "url_decode [a, b] = Some [a * 4 + b div 16]"
| "url_decode [a, b, c] = Some [a * 4 + b div 16, b mod 16 * 16 + c div 4]"
| "url_decode (a # b # c # d # ds) =
     map_option (\<lambda>r. (a * 4 + b div 16) # (b mod 16 * 16 + c div 4) # (c mod 4 * 64 + d) # r) (url_decode ds)"

definition RawURLDecode :: "string \<Rightarrow> bytes option" where
  "RawURLDecode s =
     (let cs = filter (\<lambda>c. c \<noteq> CHR 0x0D \<and> c \<noteq> CHR 0x0A) s
      in if list_all url_alphabet cs then map_option (map of_nat) (url_decode (map url_value cs)) else None)"

lemma url_value_digit [simp]: "n < 64 \<Longrightarrow> url_value (url_digit n) = n"
  by (auto simp: url_value_def url_digit_def Let_def)

lemma url_decode_encode: "\<forall>b \<in> set bs. b < 256 \<Longrightarrow> url_decode (map url_value (url_encode bs)) = Some bs"
proof (induction bs rule: url_encode.induct)
  case (2 a)
  then have "a div 4 < 64" "a mod 4 * 16 < 64" by (simp_all add: less_mult_imp_div_less)
  then show ?case by simp
next
  case (3 a b)
  then have "a div 4 < 64" "a mod 4 < 4" "b div 16 < 16" "b mod 16 < 16"
    by (simp_all add: less_mult_imp_div_less)
  then have "a div 4 < 64" "a mod 4 * 16 + b div 16 < 64" "b mod 16 * 4 < 64"
    and "(a mod 4 * 16 + b div 16) div 16 = a mod 4" "(a mod 4 * 16 + b div 16) mod 16 = b div 16" by auto
  then show ?case by simp
next
  case (4 a b c bs)
  then have "a div 4 < 64" "a mod 4 < 4" "b div 16 < 16" "b mod 16 < 16" "c div 64 < 4" "c mod 64 < 64"
    by (simp_all add: less_mult_imp_div_less)
  then have "a div 4 < 64" "a mod 4 * 16 + b div 16 < 64" "b mod 16 * 4 + c div 64 < 64" "c mod 64 < 64"
    and "(a mod 4 * 16 + b div 16) div 16 = a mod 4" "(a mod 4 * 16 + b div 16) mod 16 = b div 16"
    and "(b mod 16 * 4 + c div 64) div 4 = b mod 16" "(b mod 16 * 4 + c div 64) mod 4 = c div 64" by auto
  with 4 show ?case by simp
qed simp

lemma RawURLDecode_encode [simp]: "RawURLDecode (RawURLEncode bs) = Some bs"
proof -
  have "filter (\<lambda>c. c \<noteq> CHR 0x0D \<and> c \<noteq> CHR 0x0A) (RawURLEncode bs) = RawURLEncode bs"
    using RawURLEncode_alphabet [of bs] alphabet_not_special by (auto simp: list_all_iff filter_id_conv)
  moreover have "url_decode (map url_value (RawURLEncode bs)) = Some (map unat bs)"
    unfolding RawURLEncode_def by (rule url_decode_encode) (auto simp: byte_unat_less)
  ultimately show ?thesis by (simp add: RawURLDecode_def Let_def RawURLEncode_alphabet comp_def)
qed

lemma RawURLEncode_inject [simp]: "RawURLEncode a = RawURLEncode b \<longleftrightarrow> a = b"
  by (metis RawURLDecode_encode option.inject)

lemma url_decode_error: "url_decode xs = None \<longleftrightarrow> length xs mod 4 = 1"
  by (induction xs rule: url_decode.induct) auto

lemma RawURLDecode_decodes: "RawURLDecodes s \<longleftrightarrow> RawURLDecode s \<noteq> None"
proof -
  let ?cs = "filter (\<lambda>c. c \<noteq> CHR 0x0D \<and> c \<noteq> CHR 0x0A) s"
  have "RawURLDecodes s \<longleftrightarrow> list_all url_alphabet ?cs \<and> url_decode (map url_value ?cs) \<noteq> None"
    by (simp only: url_decode_error length_map RawURLDecodes_def Let_def)
  then show ?thesis by (simp only: RawURLDecode_def Let_def split: if_splits) simp
qed

text \<open>A canonical text is the encoding of exactly one sequence of bytes.\<close>

definition canonical_url :: "string \<Rightarrow> bytes \<Rightarrow> bool" where
  "canonical_url s b \<longleftrightarrow> RawURLDecode s = Some b \<and> RawURLEncode b = s"

lemma canonical_url_iff: "canonical_url s b \<longleftrightarrow> s = RawURLEncode b"
  by (auto simp: canonical_url_def)

end
