(* ===== verification/Passkey_Bootstrap.thy ===== *)
theory Passkey_Bootstrap
  imports Passkey_Store Go_Base64_Decode
begin

text \<open>
  \<^verbatim>\<open>passkeys/bootstrap.go\<close>: the short-lived credential that enrols the first owner, or recovers one. The
  manager works against the interface \<^verbatim>\<open>BootstrapStore\<close>, here a record of operations whose laws are the
  locale \<open>bootstrap_store\<close>; the in-process store is interpreted at it. HMAC-SHA-256 is a field of the
  manager, the random source the bytes it will still deliver; \<open>ctx\<close> says that a context was given.
\<close>

subsection \<open>Records and the store interface\<close>

record bootstrap_record =
  br_ID :: string
  br_TokenHash :: bytes
  br_RecoveryOwnerID :: string
  br_CreatedAt :: time
  br_ExpiresAt :: time

record 'b bootstrap_ops =
  bo_Replace :: "bootstrap_record \<Rightarrow> 'b \<Rightarrow> goerr option \<times> 'b"
  bo_IsValid :: "bytes \<Rightarrow> time \<Rightarrow> 'b \<Rightarrow> bool result"
  bo_RecoveryOwner :: "bytes \<Rightarrow> time \<Rightarrow> 'b \<Rightarrow> string result"
  bo_Consume :: "bytes \<Rightarrow> time \<Rightarrow> 'b \<Rightarrow> goerr option \<times> 'b"
  bo_Disable :: "time \<Rightarrow> 'b \<Rightarrow> goerr option \<times> 'b"
  bo_Available :: "time \<Rightarrow> 'b \<Rightarrow> bool result"

record 'b bootstrap_manager =
  bm_pepper :: bytes
  bm_hmac :: "bytes \<Rightarrow> bytes \<Rightarrow> bytes"
  bm_ttl :: time
  bm_store :: "'b bootstrap_ops"

abbreviation ErrInvalidBootstrap :: goerr where
  "ErrInvalidBootstrap \<equiv> errorsNew ''invalid or expired bootstrap credential''"

definition NewBootstrapManager ::
  "(bytes \<Rightarrow> bytes \<Rightarrow> bytes) \<Rightarrow> bytes \<Rightarrow> time \<Rightarrow> 'b bootstrap_ops option \<Rightarrow> bool \<Rightarrow> bool \<Rightarrow> 'b bootstrap_manager result" where
  "NewBootstrapManager hmac pepper ttl store hasRandom hasNow =
     (case store of
        None \<Rightarrow> Inl (errorsNew ''invalid bootstrap manager configuration'')
      | Some ops \<Rightarrow>
          if length pepper < 32 \<or> ttl \<le> 0 \<or> ttl > hour \<or> \<not> hasRandom \<or> \<not> hasNow
          then Inl (errorsNew ''invalid bootstrap manager configuration'')
          else Inr \<lparr>bm_pepper = pepper, bm_hmac = hmac, bm_ttl = ttl, bm_store = ops\<rparr>)"

subsection \<open>The manager\<close>

definition read_random :: "nat \<Rightarrow> bytes \<Rightarrow> bytes result \<times> bytes" where
  "read_random n random =
     (if length random < n then (Inl (errorsNew ''unexpected EOF''), []) else (Inr (take n random), drop n random))"

definition tokenHash :: "'b bootstrap_manager \<Rightarrow> string \<Rightarrow> bytes" where
  "tokenHash m token =
     take 32 (bm_hmac m (bm_pepper m) (bytes_of ''codex-mobile:bootstrap:v1:'' @ bytes_of token))"

definition validBootstrapToken :: "string \<Rightarrow> bool" where
  "validBootstrapToken token \<longleftrightarrow>
     has_prefix token ''bt_'' \<and> \<not> length token > 128
     \<and> (case RawURLDecode (drop 3 token) of None \<Rightarrow> False | Some decoded \<Rightarrow> length decoded = 32)"

definition newRecord ::
  "'b bootstrap_manager \<Rightarrow> string \<Rightarrow> time \<Rightarrow> bytes \<Rightarrow> (string \<times> bootstrap_record) result \<times> bytes" where
  "newRecord m recoveryOwnerID now random =
     (case read_random 32 random of
        (Inl e, random1) \<Rightarrow> (Inl e, random1)
      | (Inr b, random1) \<Rightarrow>
          let token = ''bt_'' @ RawURLEncode b; hash = tokenHash m token
          in (Inr (token, \<lparr>br_ID = ''bootstrap_'' @ hex_EncodeToString (take 16 hash), br_TokenHash = hash,
                br_RecoveryOwnerID = recoveryOwnerID, br_CreatedAt = now, br_ExpiresAt = now + bm_ttl m\<rparr>), random1))"

definition NewRecoveryRecord ::
  "'b bootstrap_manager \<Rightarrow> string \<Rightarrow> time \<Rightarrow> bytes \<Rightarrow> (string \<times> bootstrap_record) result \<times> bytes" where
  "NewRecoveryRecord m ownerID now random =
     (if ownerID = [] then (Inl (errorsNew ''recovery owner is required''), random)
      else newRecord m ownerID now random)"

definition GenerateContext ::
  "'b bootstrap_manager \<Rightarrow> bool \<Rightarrow> time \<Rightarrow> bytes \<Rightarrow> 'b \<Rightarrow> (string \<times> time) result \<times> bytes \<times> 'b" where
  "GenerateContext m ctx now random s =
     (if \<not> ctx then (Inl (errorsNew ''bootstrap context is required''), random, s)
      else (case newRecord m [] now random of
          (Inl e, random1) \<Rightarrow> (Inl e, random1, s)
        | (Inr (token, r), random1) \<Rightarrow>
            (case bo_Replace (bm_store m) r s of
               (Some e, s1) \<Rightarrow> (Inl e, random1, s1)
             | (None, s1) \<Rightarrow> (Inr (token, br_ExpiresAt r), random1, s1))))"

definition ValidateContext :: "'b bootstrap_manager \<Rightarrow> bool \<Rightarrow> string \<Rightarrow> time \<Rightarrow> 'b \<Rightarrow> goerr option" where
  "ValidateContext m ctx token now s =
     (if \<not> ctx \<or> \<not> validBootstrapToken token then Some ErrInvalidBootstrap
      else (case bo_IsValid (bm_store m) (tokenHash m token) now s of
          Inl e \<Rightarrow> Some e
        | Inr valid \<Rightarrow> if \<not> valid then Some ErrInvalidBootstrap else None))"

definition recoveryOwnerContext :: "'b bootstrap_manager \<Rightarrow> bool \<Rightarrow> string \<Rightarrow> time \<Rightarrow> 'b \<Rightarrow> string result" where
  "recoveryOwnerContext m ctx token now s =
     (if \<not> ctx \<or> \<not> validBootstrapToken token then Inl ErrInvalidBootstrap
      else bo_RecoveryOwner (bm_store m) (tokenHash m token) now s)"

definition ConsumeContext :: "'b bootstrap_manager \<Rightarrow> bool \<Rightarrow> string \<Rightarrow> time \<Rightarrow> 'b \<Rightarrow> goerr option \<times> 'b" where
  "ConsumeContext m ctx token now s =
     (if \<not> ctx \<or> \<not> validBootstrapToken token then (Some ErrInvalidBootstrap, s)
      else bo_Consume (bm_store m) (tokenHash m token) now s)"

definition DisableContext :: "'b bootstrap_manager \<Rightarrow> bool \<Rightarrow> time \<Rightarrow> 'b \<Rightarrow> goerr option \<times> 'b" where
  "DisableContext m ctx now s =
     (if \<not> ctx then (Some (errorsNew ''bootstrap context is required''), s) else bo_Disable (bm_store m) now s)"

definition bootstrap_Available :: "'b bootstrap_manager \<Rightarrow> bool \<Rightarrow> time \<Rightarrow> 'b \<Rightarrow> bool result" where
  "bootstrap_Available m ctx now s =
     (if \<not> ctx then Inl (errorsNew ''bootstrap context is required'') else bo_Available (bm_store m) now s)"

text \<open>The variants without a context pass \<^verbatim>\<open>context.Background()\<close>.\<close>

definition bootstrap_Generate ::
  "'b bootstrap_manager \<Rightarrow> time \<Rightarrow> bytes \<Rightarrow> 'b \<Rightarrow> (string \<times> time) result \<times> bytes \<times> 'b" where
  "bootstrap_Generate m = GenerateContext m True"

definition bootstrap_Validate :: "'b bootstrap_manager \<Rightarrow> string \<Rightarrow> time \<Rightarrow> 'b \<Rightarrow> goerr option" where
  "bootstrap_Validate m = ValidateContext m True"

definition bootstrap_Consume :: "'b bootstrap_manager \<Rightarrow> string \<Rightarrow> time \<Rightarrow> 'b \<Rightarrow> goerr option \<times> 'b" where
  "bootstrap_Consume m = ConsumeContext m True"

definition bootstrap_Disable :: "'b bootstrap_manager \<Rightarrow> time \<Rightarrow> 'b \<Rightarrow> goerr option \<times> 'b" where
  "bootstrap_Disable m = DisableContext m True"

subsection \<open>The in-process store\<close>

record memory_bootstrap =
  mb_record :: bootstrap_record
  mb_active :: bool
  mb_consumed :: bool

definition NewMemoryBootstrapStore :: memory_bootstrap where
  "NewMemoryBootstrapStore = \<lparr>mb_record = \<lparr>br_ID = [], br_TokenHash = zero_hash, br_RecoveryOwnerID = [],
     br_CreatedAt = 0, br_ExpiresAt = 0\<rparr>, mb_active = False, mb_consumed = False\<rparr>"

definition mb_matches :: "bytes \<Rightarrow> time \<Rightarrow> memory_bootstrap \<Rightarrow> bool" where
  "mb_matches hash now s \<longleftrightarrow> mb_active s \<and> \<not> mb_consumed s \<and> now < br_ExpiresAt (mb_record s)
     \<and> br_TokenHash (mb_record s) = hash"

definition mb_Replace :: "bootstrap_record \<Rightarrow> memory_bootstrap \<Rightarrow> goerr option \<times> memory_bootstrap" where
  "mb_Replace r s =
     (if br_ID r = [] \<or> br_CreatedAt r = 0 \<or> \<not> br_CreatedAt r < br_ExpiresAt r
      then (Some (errorsNew ''invalid bootstrap record''), s)
      else (None, \<lparr>mb_record = r, mb_active = True, mb_consumed = False\<rparr>))"

definition mb_IsValid :: "bytes \<Rightarrow> time \<Rightarrow> memory_bootstrap \<Rightarrow> bool result" where
  "mb_IsValid hash now s = Inr (mb_matches hash now s)"

definition mb_RecoveryOwner :: "bytes \<Rightarrow> time \<Rightarrow> memory_bootstrap \<Rightarrow> string result" where
  "mb_RecoveryOwner hash now s =
     (if \<not> mb_matches hash now s then Inl ErrInvalidBootstrap else Inr (br_RecoveryOwnerID (mb_record s)))"

definition mb_Consume :: "bytes \<Rightarrow> time \<Rightarrow> memory_bootstrap \<Rightarrow> goerr option \<times> memory_bootstrap" where
  "mb_Consume hash now s =
     (if \<not> mb_matches hash now s then (Some ErrInvalidBootstrap, s)
      else (None, s\<lparr>mb_active := False, mb_consumed := True\<rparr>))"

definition mb_Disable :: "time \<Rightarrow> memory_bootstrap \<Rightarrow> goerr option \<times> memory_bootstrap" where
  "mb_Disable now s =
     (None, s\<lparr>mb_record := (mb_record s)\<lparr>br_TokenHash := zero_hash\<rparr>, mb_active := False, mb_consumed := True\<rparr>)"

definition mb_Available :: "time \<Rightarrow> memory_bootstrap \<Rightarrow> bool result" where
  "mb_Available now s = Inr (mb_active s \<and> \<not> mb_consumed s \<and> now < br_ExpiresAt (mb_record s))"

definition memory_bootstrap_ops :: "memory_bootstrap bootstrap_ops" where
  "memory_bootstrap_ops = \<lparr>bo_Replace = mb_Replace, bo_IsValid = mb_IsValid, bo_RecoveryOwner = mb_RecoveryOwner,
     bo_Consume = mb_Consume, bo_Disable = mb_Disable, bo_Available = mb_Available\<rparr>"

subsection \<open>The contract of a bootstrap store\<close>

text \<open>
  \<open>outstanding\<close> is what the store can still be asked for: token hash, owner to recover and expiry. An
  operation that answers an error may have taken effect, as a database call may.
\<close>

definition grant_key :: "bootstrap_record \<Rightarrow> bytes \<times> string \<times> time" where
  "grant_key r = (br_TokenHash r, br_RecoveryOwnerID r, br_ExpiresAt r)"

datatype bootstrap_event =
  Printed string bootstrap_record bool
| Spent bool

text \<open>May the grant still be outstanding after these events, latest first? The flags say whether the
  operation reported success.\<close>

fun took_effect :: "bootstrap_event \<Rightarrow> bool" where
  "took_effect (Printed tok r ok) = ok"
| "took_effect (Spent ok) = ok"

fun may_be_outstanding :: "bootstrap_event list \<Rightarrow> bytes \<times> string \<times> time \<Rightarrow> bool" where
  "may_be_outstanding [] x \<longleftrightarrow> False"
| "may_be_outstanding (Printed tok r ok # tr) x \<longleftrightarrow> x = grant_key r \<or> \<not> ok \<and> may_be_outstanding tr x"
| "may_be_outstanding (Spent ok # tr) x \<longleftrightarrow> \<not> ok \<and> may_be_outstanding tr x"

text \<open>Operations of the console, the registration handlers and other processes on one store, in any order.\<close>

inductive bootstrap_run :: "'b bootstrap_manager \<Rightarrow> 'b \<Rightarrow> bootstrap_event list \<Rightarrow> 'b \<Rightarrow> bool" for m s0 where
  start: "bootstrap_run m s0 [] s0"
| replace: "bootstrap_run m s0 tr s \<Longrightarrow> newRecord m owner now random = (Inr (tok, r), random') \<Longrightarrow>
    bo_Replace (bm_store m) r s = (e, s') \<Longrightarrow> bootstrap_run m s0 (Printed tok r (e = None) # tr) s'"
| consume: "bootstrap_run m s0 tr s \<Longrightarrow> bo_Consume (bm_store m) hash now s = (e, s') \<Longrightarrow>
    bootstrap_run m s0 (Spent (e = None) # tr) s'"
| disable: "bootstrap_run m s0 tr s \<Longrightarrow> bo_Disable (bm_store m) now s = (e, s') \<Longrightarrow>
    bootstrap_run m s0 (Spent (e = None) # tr) s'"

locale bootstrap_store =
  fixes ops :: "'b bootstrap_ops"
    and outstanding :: "'b \<Rightarrow> (bytes \<times> string \<times> time) option"
  assumes replace_ok: "bo_Replace ops r s = (None, s') \<Longrightarrow> outstanding s' = Some (grant_key r)"
    and replace_err: "bo_Replace ops r s = (Some e, s') \<Longrightarrow>
      outstanding s' = outstanding s \<or> outstanding s' = Some (grant_key r)"
    and consume_ok: "bo_Consume ops h now s = (None, s') \<Longrightarrow>
      outstanding s' = None \<and> (\<exists>ow ex. outstanding s = Some (h, ow, ex) \<and> now < ex)"
    and consume_err: "bo_Consume ops h now s = (Some e, s') \<Longrightarrow> outstanding s' = outstanding s \<or> outstanding s' = None"
    and disable_ok: "bo_Disable ops now s = (None, s') \<Longrightarrow> outstanding s' = None"
    and disable_err: "bo_Disable ops now s = (Some e, s') \<Longrightarrow> outstanding s' = outstanding s \<or> outstanding s' = None"
    and valid: "bo_IsValid ops h now s = Inr b \<Longrightarrow> b \<longleftrightarrow> (\<exists>ow ex. outstanding s = Some (h, ow, ex) \<and> now < ex)"
    and recovery: "bo_RecoveryOwner ops h now s = Inr ow \<Longrightarrow> \<exists>ex. outstanding s = Some (h, ow, ex) \<and> now < ex"
begin

lemma run_outstanding:
  assumes "bootstrap_run m s0 tr s" and ops: "bm_store m = ops" and empty: "outstanding s0 = None"
    and "outstanding s = Some x"
  shows "may_be_outstanding tr x"
proof -
  from assms(1) have "outstanding s = None \<or> may_be_outstanding tr (the (outstanding s))"
  proof (induction rule: bootstrap_run.induct)
    case start
    with empty show ?case by simp
  next
    case (replace tr s ow now random tok r random' e s')
    with replace_ok [of r s s'] replace_err [of r s _ s'] ops show ?case by (cases e) auto
  next
    case (consume tr s hash now e s')
    with consume_ok [of hash now s s'] consume_err [of hash now s _ s'] ops show ?case by (cases e) auto
  next
    case (disable tr s now e s')
    with disable_ok [of now s s'] disable_err [of now s _ s'] ops show ?case by (cases e) auto
  qed
  with assms(4) show ?thesis by simp
qed

lemma validated_outstanding:
  assumes "bm_store m = ops" "ValidateContext m ctx tok now s = None"
  shows "\<exists>ow ex. outstanding s = Some (tokenHash m tok, ow, ex) \<and> now < ex"
  using assms valid [of "tokenHash m tok" now s]
  by (auto simp: ValidateContext_def split: if_splits sum.splits)

lemma recovery_outstanding:
  assumes "bm_store m = ops" "recoveryOwnerContext m ctx tok now s = Inr ow"
  shows "\<exists>ex. outstanding s = Some (tokenHash m tok, ow, ex) \<and> now < ex"
  using assms recovery [of "tokenHash m tok" now s ow]
  by (auto simp: recoveryOwnerContext_def split: if_splits)

lemma spent_rejects:
  assumes "bm_store m = ops" "outstanding s = None"
  shows "ValidateContext m ctx tok now s \<noteq> None"
  using validated_outstanding [OF assms(1)] assms(2) by fastforce

end

subsection \<open>The in-process store keeps it\<close>

definition mb_outstanding :: "memory_bootstrap \<Rightarrow> (bytes \<times> string \<times> time) option" where
  "mb_outstanding s = (if mb_active s \<and> \<not> mb_consumed s then Some (grant_key (mb_record s)) else None)"

lemmas mb_defs = memory_bootstrap_ops_def mb_Replace_def mb_IsValid_def mb_RecoveryOwner_def mb_Consume_def
  mb_Disable_def mb_Available_def mb_matches_def mb_outstanding_def grant_key_def

interpretation memory_bootstrap: bootstrap_store memory_bootstrap_ops mb_outstanding
  by unfold_locales (auto simp: mb_defs split: if_splits)

text \<open>Every operation that failed left the in-process store as it was.\<close>

lemma memory_run_outstanding:
  assumes "bootstrap_run m s0 tr s" "bm_store m = memory_bootstrap_ops" "mb_outstanding s0 = None"
    "mb_outstanding s = Some x"
  obtains tok r post pre where "tr = post @ Printed tok r True # pre" "x = grant_key r"
    "\<forall>v \<in> set post. \<not> took_effect v"
proof -
  have "\<exists>tok r post pre. tr = post @ Printed tok r True # pre \<and> x = grant_key r
      \<and> (\<forall>v \<in> set post. \<not> took_effect v)"
    using assms
  proof (induction arbitrary: x rule: bootstrap_run.induct)
    case (replace tr s ow now random tok r random' e s')
    show ?case
    proof (cases "e = None")
      case True
      with replace memory_bootstrap.replace_ok [of r s s'] show ?thesis by fastforce
    next
      case False
      with replace.hyps replace.prems have "mb_outstanding s = Some x" by (auto simp: mb_defs split: if_splits)
      from replace.IH [OF replace.prems(1,2) this] obtain t r0 post pre where
        "tr = post @ Printed t r0 True # pre" "x = grant_key r0"
        "\<forall>v \<in> set post. \<not> took_effect v" by blast
      with False show ?thesis by (intro exI [of _ t] exI [of _ r0] exI [of _ "Printed tok r False # post"] exI [of _ pre]) simp
    qed
  next
    case (consume tr s hash now e s')
    then have "e \<noteq> None" "mb_outstanding s = Some x" by (auto simp: mb_defs split: if_splits)
    with consume.IH [OF consume.prems(1,2)] obtain t r0 post pre where
      "tr = post @ Printed t r0 True # pre" "x = grant_key r0"
      "\<forall>v \<in> set post. \<not> took_effect v" by blast
    with \<open>e \<noteq> None\<close> show ?case
      by (intro exI [of _ t] exI [of _ r0] exI [of _ "Spent False # post"] exI [of _ pre]) simp
  qed (auto simp: mb_defs split: if_splits)
  with that show ?thesis by blast
qed

lemma printed_record:
  assumes "bootstrap_run m s0 tr s" "Printed tok r ok \<in> set tr"
  shows "br_TokenHash r = tokenHash m tok \<and> br_ExpiresAt r = br_CreatedAt r + bm_ttl m \<and> validBootstrapToken tok"
  using assms
proof (induction rule: bootstrap_run.induct)
  case (replace tr s ow now random t r0 random' e s')
  have "br_TokenHash r0 = tokenHash m t \<and> br_ExpiresAt r0 = br_CreatedAt r0 + bm_ttl m \<and> validBootstrapToken t"
    using replace.hyps(2)
    by (auto simp: newRecord_def read_random_def Let_def validBootstrapToken_def split: if_splits)
  with replace show ?case by auto
qed auto

subsection \<open>Properties\<close>

text \<open>C22:
  A bootstrap credential works once and briefly: over any order of printing, consuming and disabling, with
  failures, a token the manager accepts is the one printed last, nothing has consumed or disabled it since,
  and its lifetime, at most an hour from its creation, has not run out. A later token invalidates it.
\<close>

theorem bootstrap_token_single_use:
  assumes "NewBootstrapManager hmac pepper ttl (Some memory_bootstrap_ops) hasRandom hasNow = Inr m"
    and "bootstrap_run m NewMemoryBootstrapStore tr s"
    and "ValidateContext m ctx tok now s = None"
    and no_collision: "\<forall>t r ok. Printed t r ok \<in> set tr \<longrightarrow> tokenHash m t = tokenHash m tok \<longrightarrow> t = tok"
  shows "(\<exists>r post pre. tr = post @ Printed tok r True # pre \<and> (\<forall>v \<in> set post. \<not> took_effect v)
      \<and> now < br_CreatedAt r + ttl) \<and> ttl \<le> hour"
proof -
  from assms(1) have m: "bm_store m = memory_bootstrap_ops" "bm_ttl m = ttl" "ttl \<le> hour"
    by (auto simp: NewBootstrapManager_def split: if_splits)
  from memory_bootstrap.validated_outstanding [OF m(1) assms(3)] obtain ow ex where
    out: "mb_outstanding s = Some (tokenHash m tok, ow, ex)" "now < ex" by blast
  have "mb_outstanding NewMemoryBootstrapStore = None" by (simp add: mb_outstanding_def NewMemoryBootstrapStore_def)
  from memory_run_outstanding [OF assms(2) m(1) this out(1)] obtain t r post pre where
    tr: "tr = post @ Printed t r True # pre" "(tokenHash m tok, ow, ex) = grant_key r"
      "\<forall>v \<in> set post. \<not> took_effect v" .
  have p: "Printed t r True \<in> set tr" using tr(1) by simp
  with printed_record [OF assms(2) p] tr(2) m(2) have "tokenHash m t = tokenHash m tok" "ex = br_CreatedAt r + ttl"
    by (simp_all add: grant_key_def)
  with p no_collision tr out(2) m(3) show ?thesis by blast
qed

text \<open>A printed token is accepted until it expires.\<close>

definition bootstrap_example_manager :: "memory_bootstrap bootstrap_manager" where
  "bootstrap_example_manager = \<lparr>bm_pepper = replicate 32 0, bm_hmac = (\<lambda>k d. rev d), bm_ttl = hour,
     bm_store = memory_bootstrap_ops\<rparr>"

definition bootstrap_example_record :: "string \<times> bootstrap_record" where
  "bootstrap_example_record = (let t = ''bt_'' @ RawURLEncode (replicate 32 7); h = tokenHash bootstrap_example_manager t in
     (t, \<lparr>br_ID = ''bootstrap_'' @ hex_EncodeToString (take 16 h), br_TokenHash = h, br_RecoveryOwnerID = [],
          br_CreatedAt = 5, br_ExpiresAt = 5 + hour\<rparr>))"

definition bootstrap_example_state :: memory_bootstrap where
  "bootstrap_example_state = \<lparr>mb_record = snd bootstrap_example_record, mb_active = True, mb_consumed = False\<rparr>"

lemma bootstrap_example_printed:
  "newRecord bootstrap_example_manager [] 5 (replicate 32 7) = (Inr bootstrap_example_record, [])"
  by (simp add: newRecord_def read_random_def bootstrap_example_record_def bootstrap_example_manager_def Let_def)

lemma bootstrap_example_run:
  "bootstrap_run bootstrap_example_manager NewMemoryBootstrapStore
     [Printed (fst bootstrap_example_record) (snd bootstrap_example_record) True] bootstrap_example_state"
proof -
  have "bo_Replace (bm_store bootstrap_example_manager) (snd bootstrap_example_record) NewMemoryBootstrapStore
      = (None, bootstrap_example_state)"
    by (simp add: bootstrap_example_manager_def bootstrap_example_state_def bootstrap_example_record_def Let_def
        memory_bootstrap_ops_def mb_Replace_def)
  from bootstrap_run.replace [OF bootstrap_run.start _ this, of "[]" 5 "replicate 32 7" "fst bootstrap_example_record" "[]"]
  show ?thesis by (simp add: bootstrap_example_printed)
qed

theorem bootstrap_token_single_use_witness:
  "ValidateContext bootstrap_example_manager True (fst bootstrap_example_record) 9 bootstrap_example_state = None
    \<and> (\<exists>r post pre. [Printed (fst bootstrap_example_record) (snd bootstrap_example_record) True]
          = post @ Printed (fst bootstrap_example_record) r True # pre \<and> (\<forall>v \<in> set post. \<not> took_effect v)
        \<and> 9 < br_CreatedAt r + hour)"
proof -
  have v: "ValidateContext bootstrap_example_manager True (fst bootstrap_example_record) 9 bootstrap_example_state = None"
    by (simp add: ValidateContext_def bootstrap_example_state_def bootstrap_example_record_def Let_def
        bootstrap_example_manager_def mb_defs validBootstrapToken_def)
  have "NewBootstrapManager (\<lambda>k d. rev d) (replicate 32 0) hour (Some memory_bootstrap_ops) True True
      = Inr bootstrap_example_manager"
    by (simp add: NewBootstrapManager_def bootstrap_example_manager_def)
  from bootstrap_token_single_use [OF this bootstrap_example_run v] v show ?thesis by auto
qed

end
