(* ===== verification/Passkey_Service.thy ===== *)
theory Passkey_Service
  imports Passkey_Ceremonies Passkey_Bootstrap "HOL-Library.State_Monad"
begin

text \<open>
  The handlers of \<^verbatim>\<open>passkeys/service.go\<close>. The WebAuthn library is a parameter of the service, as are SHA-256
  and the two stores behind their interfaces. A handler is a program of the state monad: before each of its
  interactions the environment's next answer says which operations other requests ran on the service, how they
  changed the stores, what the clock reads and which random bytes come. The log records, latest first, what
  happened to ceremonies and which writes succeeded. \<open>ctx\<close> says that a context was given.
\<close>

subsection \<open>The interface of the store\<close>

record ('c, 'st) passkey_ops =
  op_HasOwner :: "'st \<Rightarrow> bool result"
  op_KnownDevices :: "int \<Rightarrow> 'st \<Rightarrow> bytes list result"
  op_CreateOwner :: "'c passkey_owner \<Rightarrow> 'c credential_record \<Rightarrow> 'st \<Rightarrow> goerr option \<times> 'st"
  op_OwnerForRecovery :: "string \<Rightarrow> string \<Rightarrow> 'st \<Rightarrow> 'c passkey_owner result"
  op_CreateRecovered :: "'c passkey_owner \<Rightarrow> 'c credential_record \<Rightarrow> recovery_proof \<Rightarrow> 'st \<Rightarrow> goerr option \<times> 'st"
  op_OwnerForAdditional :: "string \<Rightarrow> string \<Rightarrow> string \<Rightarrow> bytes \<Rightarrow> 'st \<Rightarrow> 'c passkey_owner result"
  op_CreateAdditional :: "'c passkey_owner \<Rightarrow> 'c credential_record \<Rightarrow> 'st \<Rightarrow> goerr option \<times> 'st"
  op_List :: "string \<Rightarrow> string \<Rightarrow> 'st \<Rightarrow> credential_metadata list result"
  op_Revoke :: "string \<Rightarrow> string \<Rightarrow> bytes \<Rightarrow> 'st \<Rightarrow> goerr option \<times> 'st"
  op_OwnerByHandle :: "string \<Rightarrow> bytes \<Rightarrow> 'st \<Rightarrow> 'c passkey_owner result"
  op_OwnerByID :: "string \<Rightarrow> string \<Rightarrow> 'st \<Rightarrow> 'c passkey_owner result"
  op_Save :: "'c credential_record \<Rightarrow> 'st \<Rightarrow> goerr option \<times> 'st"
  op_Record :: "string \<Rightarrow> bytes \<Rightarrow> 'st \<Rightarrow> 'c credential_record result"
  op_ResolveDevice :: "passkey_device \<Rightarrow> 'st \<Rightarrow> passkey_device result \<times> 'st"

definition memory_passkey_ops :: "('c, 'c passkey_store) passkey_ops" where
  "memory_passkey_ops = \<lparr>op_HasOwner = \<lambda>s. Inr (HasOwner s), op_KnownDevices = KnownDeviceInstanceHashes,
     op_CreateOwner = CreateOwnerWithCredential, op_OwnerForRecovery = OwnerForRecovery,
     op_CreateRecovered = CreateCredentialForRecoveredOwner, op_OwnerForAdditional = OwnerForAdditionalCredential,
     op_CreateAdditional = CreateAdditionalCredential, op_List = ListCredentialMetadata, op_Revoke = RevokeCredential,
     op_OwnerByHandle = OwnerByHandle, op_OwnerByID = OwnerByID, op_Save = SaveCredential, op_Record = find_record,
     op_ResolveDevice = ResolveDevice\<rparr>"

subsection \<open>The service and its world\<close>

record ('c, 's, 'p, 'st, 'b) passkey_service =
  sv_rpid :: string
  sv_ops :: "('c, 'st) passkey_ops"
  sv_bootstrap :: "'b bootstrap_manager"
  sv_sha256 :: "bytes \<Rightarrow> bytes"
  sv_ParseCreation :: "bytes \<Rightarrow> 'p result"
  sv_ParseRequest :: "bytes \<Rightarrow> 'p result"
  sv_CreateCredential :: "'c passkey_owner \<Rightarrow> 's \<Rightarrow> 'p \<Rightarrow> 'c webauthn_credential result"
  sv_ValidateLogin :: "(bytes \<Rightarrow> bytes \<Rightarrow> 'c passkey_owner result) \<Rightarrow> 's \<Rightarrow> 'p
    \<Rightarrow> ('c passkey_owner \<times> 'c webauthn_credential) result"

text \<open>\<open>web\<close> is what the library makes of the configuration: its parsers and verifiers.\<close>

definition NewPasskeyService ::
  "string \<Rightarrow> ('c, 'st) passkey_ops option \<Rightarrow> 'b bootstrap_manager option \<Rightarrow> (bytes \<Rightarrow> bytes)
    \<Rightarrow> ((bytes \<Rightarrow> 'p result) \<times> (bytes \<Rightarrow> 'p result) \<times> ('c passkey_owner \<Rightarrow> 's \<Rightarrow> 'p \<Rightarrow> 'c webauthn_credential result)
        \<times> ((bytes \<Rightarrow> bytes \<Rightarrow> 'c passkey_owner result) \<Rightarrow> 's \<Rightarrow> 'p \<Rightarrow> ('c passkey_owner \<times> 'c webauthn_credential) result)) result
    \<Rightarrow> (('c, 's, 'p, 'st, 'b) passkey_service \<times> ('c, 's) passkey_state) result" where
  "NewPasskeyService rpid store bootstrap sha256 web =
     (case (store, bootstrap) of
        (Some ops, Some manager) \<Rightarrow>
          (case web of
             Inl e \<Rightarrow> Inl e
           | Inr (parse_creation, parse_request, create, validate) \<Rightarrow>
               Inr (\<lparr>sv_rpid = rpid, sv_ops = ops, sv_bootstrap = manager, sv_sha256 = sha256,
                  sv_ParseCreation = parse_creation, sv_ParseRequest = parse_request, sv_CreateCredential = create,
                  sv_ValidateLogin = validate\<rparr>, new_passkey_state))
      | _ \<Rightarrow> Inl (errorsNew ''passkey store and bootstrap manager are required''))"

datatype 'c passkey_write =
  WEnrol "'c passkey_owner" "'c credential_record"
| WRecover "'c passkey_owner" "'c credential_record" recovery_proof
| WAdd "'c passkey_owner" "'c credential_record"
| WSave "'c credential_record"
| WDevice passkey_device passkey_device
| WRevoke string bytes
| WConsume string
| WDisable

datatype ('c, 's) passkey_event = Ceremony "('c, 's) ceremony_event" | Wrote "'c passkey_write"

text \<open>What the library answers to a \<^verbatim>\<open>Begin\<close> call, with options \<open>'o\<close>: for a registration the owner and the
  credentials to exclude are given.\<close>

record ('c, 's, 'o, 'st, 'b) panswer =
  ka_now :: time
  ka_random :: bytes
  ka_others :: "('c, 's) ceremony_op list"
  ka_store :: "'st \<Rightarrow> 'st"
  ka_boot :: "'b \<Rightarrow> 'b"
  ka_registration :: "'c passkey_owner \<Rightarrow> bytes list \<Rightarrow> ('o \<times> 's) result"
  ka_login :: "('o \<times> 's) result"

record ('c, 's, 'o, 'st, 'b) pworld =
  kw_service :: "('c, 's) passkey_state"
  kw_store :: 'st
  kw_boot :: 'b
  kw_log :: "('c, 's) passkey_event list"
  kw_answers :: "nat \<Rightarrow> ('c, 's, 'o, 'st, 'b) panswer"
  kw_turn :: nat

type_synonym ('c, 's, 'o, 'st, 'b, 'a) pk = "(('c, 's, 'o, 'st, 'b) pworld, 'a) state"

definition apply_ops ::
  "('c, 's) ceremony_op list \<Rightarrow> ('c, 's, 'o, 'st, 'b) pworld \<Rightarrow> ('c, 's, 'o, 'st, 'b) pworld" where
  "apply_ops ps w =
     (let x = ceremony_ops ps ([], kw_service w)
      in w\<lparr>kw_service := snd x, kw_log := map Ceremony (fst x) @ kw_log w\<rparr>)"

definition pk_turn :: "('c, 's, 'o, 'st, 'b, ('c, 's, 'o, 'st, 'b) panswer) pk" where
  "pk_turn = State (\<lambda>w. let a = kw_answers w (kw_turn w)
     in (a, (apply_ops (ka_others a) w)\<lparr>kw_turn := Suc (kw_turn w), kw_store := ka_store a (kw_store w),
          kw_boot := ka_boot a (kw_boot w)\<rparr>))"

text \<open>A critical section of the service; \<open>f\<close> is its result.\<close>

definition serve ::
  "(time \<Rightarrow> 'st \<Rightarrow> ('c, 's) ceremony_op) \<Rightarrow> (time \<Rightarrow> 'st \<Rightarrow> ('c, 's) passkey_state \<Rightarrow> 'a) \<Rightarrow> ('c, 's, 'o, 'st, 'b, 'a) pk" where
  "serve p f = State_Monad.bind pk_turn (\<lambda>a. State (\<lambda>w.
     (f (ka_now a) (kw_store w) (kw_service w), apply_ops [p (ka_now a) (kw_store w)] w)))"

definition store_read :: "('st \<Rightarrow> 'a) \<Rightarrow> ('c, 's, 'o, 'st, 'b, 'a) pk" where
  "store_read f = State_Monad.bind pk_turn (\<lambda>a. State (\<lambda>w. (f (kw_store w), w)))"

definition store_write ::
  "('st \<Rightarrow> goerr option \<times> 'st) \<Rightarrow> 'c passkey_write \<Rightarrow> ('c, 's, 'o, 'st, 'b, goerr option) pk" where
  "store_write f v = State_Monad.bind pk_turn (\<lambda>a. State (\<lambda>w.
     let (e, st) = f (kw_store w)
     in (e, w\<lparr>kw_store := st, kw_log := (if e = None then Wrote v # kw_log w else kw_log w)\<rparr>)))"

definition boot_read :: "(time \<Rightarrow> 'b \<Rightarrow> 'a) \<Rightarrow> ('c, 's, 'o, 'st, 'b, 'a) pk" where
  "boot_read f = State_Monad.bind pk_turn (\<lambda>a. State (\<lambda>w. (f (ka_now a) (kw_boot w), w)))"

definition boot_write ::
  "(time \<Rightarrow> 'b \<Rightarrow> goerr option \<times> 'b) \<Rightarrow> 'c passkey_write \<Rightarrow> ('c, 's, 'o, 'st, 'b, goerr option) pk" where
  "boot_write f v = State_Monad.bind pk_turn (\<lambda>a. State (\<lambda>w.
     let (e, b) = f (ka_now a) (kw_boot w)
     in (e, w\<lparr>kw_boot := b, kw_log := (if e = None then Wrote v # kw_log w else kw_log w)\<rparr>)))"

definition resolve_device ::
  "('c, 'st) passkey_ops \<Rightarrow> passkey_device \<Rightarrow> ('c, 's, 'o, 'st, 'b, passkey_device result) pk" where
  "resolve_device ops d = State_Monad.bind pk_turn (\<lambda>a. State (\<lambda>w.
     let (r, st) = op_ResolveDevice ops d (kw_store w)
     in (r, w\<lparr>kw_store := st,
          kw_log := (case r of Inl e \<Rightarrow> kw_log w | Inr d' \<Rightarrow> Wrote (WDevice d d') # kw_log w)\<rparr>)))"

definition pk_answer :: "(('c, 's, 'o, 'st, 'b) panswer \<Rightarrow> 'a) \<Rightarrow> ('c, 's, 'o, 'st, 'b, 'a) pk" where
  "pk_answer f = State_Monad.bind pk_turn (\<lambda>a. State_Monad.return (f a))"

definition pk_randomID :: "nat \<Rightarrow> ('c, 's, 'o, 'st, 'b, string result) pk" where
  "pk_randomID n = pk_answer (\<lambda>a. case fst (read_random n (ka_random a)) of Inl e \<Rightarrow> Inl e | Inr b \<Rightarrow> Inr (RawURLEncode b))"

text \<open>\<^verbatim>\<open>if err != nil { return ..., err }\<close>, after a call with a result and after a call with only an error.\<close>

definition attempt :: "('w, 'a result) state \<Rightarrow> ('a \<Rightarrow> ('w, 'x result) state) \<Rightarrow> ('w, 'x result) state" where
  "attempt m f = State_Monad.bind m (\<lambda>r. case r of Inl e \<Rightarrow> State_Monad.return (Inl e) | Inr x \<Rightarrow> f x)"

definition insist :: "('w, goerr option) state \<Rightarrow> ('w, 'x result) state \<Rightarrow> ('w, 'x result) state" where
  "insist m f = State_Monad.bind m (\<lambda>r. case r of Some e \<Rightarrow> State_Monad.return (Inl e) | None \<Rightarrow> f)"

definition pure_result :: "'a result \<Rightarrow> ('w, 'a result) state" where
  "pure_result r = State_Monad.return r"

definition guarding :: "bool \<Rightarrow> goerr \<Rightarrow> ('w, 'x result) state \<Rightarrow> ('w, 'x result) state" where
  "guarding b e f = (if b then State_Monad.return (Inl e) else f)"

text \<open>\<^verbatim>\<open>fmt.Errorf("...: %w", err)\<close> and \<^verbatim>\<open>errors.New\<close> in place of an error.\<close>

definition wrap_error :: "(goerr \<Rightarrow> goerr) \<Rightarrow> 'a result \<Rightarrow> 'a result" where
  "wrap_error g r = (case r of Inl e \<Rightarrow> Inl (g e) | Inr x \<Rightarrow> Inr x)"

abbreviation errorf :: "string \<Rightarrow> goerr \<Rightarrow> goerr" where "errorf msg e \<equiv> GoErr (err_is e) msg"

subsection \<open>Devices and ceremonies\<close>

text \<open>\<^verbatim>\<open>unicode.IsControl\<close>.\<close>

definition is_control :: "nat \<Rightarrow> bool" where
  "is_control r \<longleftrightarrow> r < 32 \<or> 127 \<le> r \<and> r < 160"

definition validateDeviceBinding :: "(bytes \<Rightarrow> bytes) \<Rightarrow> device_binding \<Rightarrow> bytes result" where
  "validateDeviceBinding sha256 device =
     (case RawURLDecode (bn_InstanceID device) of
        None \<Rightarrow> Inl (errorsNew ''device instance identity must be canonical 256-bit base64url'')
      | Some decoded \<Rightarrow>
          if length decoded \<noteq> 32 \<or> RawURLEncode decoded \<noteq> bn_InstanceID device
          then Inl (errorsNew ''device instance identity must be canonical 256-bit base64url'')
          else if bn_Name device = [] \<or> bn_Name device \<noteq> trim_space (bn_Name device) \<or> length (bn_Name device) > 120
             \<or> \<not> valid_string (bn_Name device)
          then Inl (errorsNew ''device name is required and must be bounded'')
          else if list_ex is_control (string_runes (bn_Name device))
          then Inl (errorsNew ''device name contains control characters'')
          else Inr (sha256 decoded))"

definition verifyDeviceBinding ::
  "(bytes \<Rightarrow> bytes) \<Rightarrow> ('c, 's) ceremony \<Rightarrow> device_binding \<Rightarrow> goerr option" where
  "verifyDeviceBinding sha256 c device =
     (case validateDeviceBinding sha256 device of
        Inl e \<Rightarrow> Some (errorsNew ''device identity does not match passkey ceremony'')
      | Inr hash \<Rightarrow>
          if hash \<noteq> ce_DeviceHash c \<or> bn_Name device \<noteq> bn_Name (ce_Device c)
          then Some (errorsNew ''device identity does not match passkey ceremony'') else None)"

definition registration_ceremony ::
  "string \<Rightarrow> ceremony_kind \<Rightarrow> 'c passkey_owner \<Rightarrow> string \<Rightarrow> device_binding \<Rightarrow> bytes \<Rightarrow> string \<Rightarrow> string \<Rightarrow> 's
    \<Rightarrow> ('c, 's) ceremony" where
  "registration_ceremony i kind ow dev device hash token rec session =
     \<lparr>ce_ID = i, ce_Kind = kind, ce_Owner = ow, ce_DeviceID = dev, ce_Device = device, ce_DeviceHash = hash,
      ce_BootstrapToken = token, ce_RecoveryOwner = rec, ce_KnownDevice = False, ce_Session = session, ce_ExpiresAt = 0\<rparr>"

definition login_ceremony ::
  "string \<Rightarrow> device_binding \<Rightarrow> bytes \<Rightarrow> bool \<Rightarrow> 's \<Rightarrow> ('c, 's) ceremony" where
  "login_ceremony i device hash known session =
     \<lparr>ce_ID = i, ce_Kind = ceremonyLogin, ce_Owner = zero_owner, ce_DeviceID = [], ce_Device = device, ce_DeviceHash = hash,
      ce_BootstrapToken = [], ce_RecoveryOwner = [], ce_KnownDevice = known, ce_Session = session, ce_ExpiresAt = 0\<rparr>"

definition pk_consume :: "string \<Rightarrow> ceremony_kind \<Rightarrow> ('c, 's, 'o, 'st, 'b, ('c, 's) ceremony result) pk" where
  "pk_consume i k = serve (\<lambda>t _. OpConsume i k t) (\<lambda>t _ s. fst (consume i k t s))"

definition pk_save :: "('c, 's) ceremony \<Rightarrow> ('c, 's, 'o, 'st, 'b, goerr option) pk" where
  "pk_save c = serve (\<lambda>t _. OpSave c t) (\<lambda>t _ s. fst (saveCeremony c t s))"

definition pk_remember :: "bytes \<Rightarrow> ('c, 's, 'o, 'st, 'b, unit) pk" where
  "pk_remember dh = serve (\<lambda>t _. OpRemember dh) (\<lambda>_ _ _. ())"

subsection \<open>Registration of the first owner, or of a recovered one\<close>

definition new_owner :: "('c, 's, 'o, 'st, 'b, 'c passkey_owner result) pk" where
  "new_owner =
     attempt (pk_randomID 16) (\<lambda>ownerID.
     attempt (pk_answer (\<lambda>a. fst (read_random 64 (ka_random a)))) (\<lambda>handle.
     State_Monad.return (Inr \<lparr>po_ID = ownerID, po_Handle = handle, po_Name = ''owner'',
       po_DisplayName = ''Codex Mobile Owner'', po_Credentials = []\<rparr>)))"

definition BeginBootstrapRegistration ::
  "('c, 's, 'p, 'st, 'b) passkey_service \<Rightarrow> bool \<Rightarrow> string \<Rightarrow> device_binding
    \<Rightarrow> ('c, 's, 'o, 'st, 'b, (string \<times> 'o) result) pk" where
  "BeginBootstrapRegistration sv ctx token device =
     insist (boot_read (ValidateContext (sv_bootstrap sv) ctx token)) (
     attempt (boot_read (recoveryOwnerContext (sv_bootstrap sv) ctx token)) (\<lambda>recoveryOwnerID.
     attempt (store_read (op_HasOwner (sv_ops sv))) (\<lambda>hasOwner.
     if hasOwner \<and> recoveryOwnerID = []
     then insist (boot_write (DisableContext (sv_bootstrap sv) ctx) WDisable)
       (State_Monad.return (Inl (errorsNew ''bootstrap is disabled after owner enrollment'')))
     else
     guarding (\<not> hasOwner \<and> recoveryOwnerID \<noteq> []) ErrInvalidBootstrap (
     attempt (pure_result (validateDeviceBinding (sv_sha256 sv) device)) (\<lambda>deviceHash.
     attempt (if recoveryOwnerID \<noteq> []
              then store_read (\<lambda>st. wrap_error (\<lambda>_. errorsNew ''passkey recovery is not available'')
                (op_OwnerForRecovery (sv_ops sv) (sv_rpid sv) recoveryOwnerID st))
              else State_Monad.return (Inr zero_owner)) (\<lambda>recovered.
     attempt (pk_randomID 16) (\<lambda>deviceID.
     attempt (if recoveryOwnerID = [] then new_owner else State_Monad.return (Inr recovered)) (\<lambda>owner.
     attempt (pk_answer (\<lambda>a. ka_registration a owner [])) (\<lambda>(options, session).
     attempt (pk_randomID 16) (\<lambda>i.
     insist (pk_save (registration_ceremony i ceremonyBootstrap owner deviceID device deviceHash token recoveryOwnerID session))
     (State_Monad.return (Inr (i, options)))))))))))))"

definition ceremony_record ::
  "string \<Rightarrow> ('c, 's) ceremony \<Rightarrow> string \<Rightarrow> string \<Rightarrow> 'c webauthn_credential \<Rightarrow> time \<Rightarrow> 'c credential_record" where
  "ceremony_record rpid c ownerID deviceID cred now =
     \<lparr>cd_RPID = rpid, cd_OwnerID = ownerID, cd_DeviceID = deviceID, cd_DeviceName = bn_Name (ce_Device c),
      cd_DeviceInstanceHash = ce_DeviceHash c, cd_Credential = cred, cd_CreatedAt = now, cd_LastUsedAt = None\<rparr>"

definition FinishBootstrapRegistration ::
  "('c, 's, 'p, 'st, 'b) passkey_service \<Rightarrow> bool \<Rightarrow> string \<Rightarrow> string \<Rightarrow> device_binding \<Rightarrow> bytes
    \<Rightarrow> ('c, 's, 'o, 'st, 'b, (string \<times> string) result) pk" where
  "FinishBootstrapRegistration sv ctx ceremonyID token0 device response =
     attempt (pk_consume ceremonyID ceremonyBootstrap) (\<lambda>c.
     let token = (if token0 = [] then ce_BootstrapToken c else token0) in
     insist (State_Monad.return (verifyDeviceBinding (sv_sha256 sv) c device)) (
     insist (boot_read (ValidateContext (sv_bootstrap sv) ctx token)) (
     attempt (boot_read (\<lambda>t b. wrap_error (\<lambda>_. ErrInvalidBootstrap) (recoveryOwnerContext (sv_bootstrap sv) ctx token t b)))
       (\<lambda>recoveryOwnerID.
     guarding (recoveryOwnerID \<noteq> ce_RecoveryOwner c) ErrInvalidBootstrap (
     attempt (pure_result (wrap_error (errorf ''parse passkey registration'') (sv_ParseCreation sv response))) (\<lambda>parsed.
     attempt (pure_result (wrap_error (errorf ''verify passkey registration'')
       (sv_CreateCredential sv (ce_Owner c) (ce_Session c) parsed))) (\<lambda>credential.
     State_Monad.bind (pk_answer ka_now) (\<lambda>now.
     let record = ceremony_record (sv_rpid sv) c (po_ID (ce_Owner c)) (ce_DeviceID c) credential now in
     insist (if ce_RecoveryOwner c \<noteq> []
       then State_Monad.bind (pk_answer ka_now) (\<lambda>at. let proof = \<lparr>rp_TokenHash = tokenHash (sv_bootstrap sv) token, rp_At = at\<rparr> in
         store_write (op_CreateRecovered (sv_ops sv) (ce_Owner c) record proof) (WRecover (ce_Owner c) record proof))
       else store_write (op_CreateOwner (sv_ops sv) (ce_Owner c) record) (WEnrol (ce_Owner c) record)) (
     State_Monad.bind (if ce_RecoveryOwner c \<noteq> [] then State_Monad.return ()
       else State_Monad.bind (boot_write (ConsumeContext (sv_bootstrap sv) ctx token) (WConsume token)) (\<lambda>e.
         if e = None then State_Monad.return ()
         else State_Monad.bind (boot_write (DisableContext (sv_bootstrap sv) ctx) WDisable) (\<lambda>_. State_Monad.return ()))) (\<lambda>_.
     State_Monad.bind (pk_remember (ce_DeviceHash c)) (\<lambda>_.
     State_Monad.return (Inr (po_ID (ce_Owner c), ce_DeviceID c)))))))))))))"

subsection \<open>Login\<close>

definition BeginLogin ::
  "('c, 's, 'p, 'st, 'b) passkey_service \<Rightarrow> device_binding \<Rightarrow> ('c, 's, 'o, 'st, 'b, (string \<times> 'o) result) pk" where
  "BeginLogin sv device =
     attempt (pure_result (validateDeviceBinding (sv_sha256 sv) device)) (\<lambda>deviceHash.
     attempt (serve (\<lambda>t st. OpKnown (op_KnownDevices (sv_ops sv) maximumKnownDeviceInstances st) t deviceHash)
       (\<lambda>t st s. fst (knownDevice (op_KnownDevices (sv_ops sv) maximumKnownDeviceInstances st) t deviceHash s))) (\<lambda>known.
     attempt (serve (\<lambda>t _. OpReserve deviceHash known t) (\<lambda>t _ s. fst (reserveLogin deviceHash known t s))) (\<lambda>reservation.
     State_Monad.bind
       (attempt (pk_answer ka_login) (\<lambda>(options, session).
        attempt (pk_randomID 16) (\<lambda>i.
        let c = login_ceremony i device deviceHash known session in
        insist (serve (\<lambda>t _. OpCommit reservation c t) (\<lambda>t _ s. fst (commitLogin reservation c t s)))
        (State_Monad.return (Inr (i, options))))))
       (\<lambda>r. case r of
          Inr x \<Rightarrow> State_Monad.return (Inr x)
        | Inl e \<Rightarrow> State_Monad.bind (serve (\<lambda>t _. OpCancel reservation) (\<lambda>_ _ _. ())) (\<lambda>_. State_Monad.return (Inl e))))))"

definition FinishLogin ::
  "('c, 's, 'p, 'st, 'b) passkey_service \<Rightarrow> string \<Rightarrow> device_binding \<Rightarrow> bytes
    \<Rightarrow> ('c, 's, 'o, 'st, 'b, (string \<times> string) result) pk" where
  "FinishLogin sv ceremonyID device response =
     attempt (pk_consume ceremonyID ceremonyLogin) (\<lambda>c.
     insist (State_Monad.return (verifyDeviceBinding (sv_sha256 sv) c device)) (
     attempt (pure_result (wrap_error (errorf ''parse passkey assertion'') (sv_ParseRequest sv response))) (\<lambda>parsed.
     attempt (store_read (\<lambda>st. wrap_error (errorf ''verify passkey assertion'') (sv_ValidateLogin sv
       (\<lambda>rawID userHandle. wrap_error (\<lambda>_. errorsNew ''unknown credential'')
          (op_OwnerByHandle (sv_ops sv) (sv_rpid sv) userHandle st)) (ce_Session c) parsed))) (\<lambda>(owner, credential).
     attempt (store_read (\<lambda>st. wrap_error (\<lambda>_. errorsNew ''credential ownership mismatch'')
       (op_Record (sv_ops sv) (sv_rpid sv) (wc_ID credential) st))) (\<lambda>record.
     guarding (cd_OwnerID record \<noteq> po_ID owner) (errorsNew ''credential ownership mismatch'') (
     State_Monad.bind (pk_answer ka_now) (\<lambda>now.
     let record1 = record\<lparr>cd_LastUsedAt := Some now, cd_Credential := credential\<rparr> in
     insist (store_write (op_Save (sv_ops sv) record1) (WSave record1)) (
     attempt (pk_randomID 16) (\<lambda>deviceID.
     attempt (resolve_device (sv_ops sv) \<lparr>pd_ID = deviceID, pd_OwnerID = po_ID owner, pd_Name = bn_Name (ce_Device c),
        pd_Platform = ''ios'', pd_InstanceHash = ce_DeviceHash c, pd_CreatedAt = now, pd_LastSeenAt = now\<rparr>) (\<lambda>resolved.
     State_Monad.bind (pk_remember (ce_DeviceHash c)) (\<lambda>_.
     State_Monad.return (Inr (po_ID owner, pd_ID resolved)))))))))))))"

subsection \<open>Passkeys of a signed-in device\<close>

definition BeginAdditionalRegistration ::
  "('c, 's, 'p, 'st, 'b) passkey_service \<Rightarrow> string \<Rightarrow> string \<Rightarrow> device_binding
    \<Rightarrow> ('c, 's, 'o, 'st, 'b, (string \<times> 'o) result) pk" where
  "BeginAdditionalRegistration sv ownerID deviceID device =
     guarding (ownerID = [] \<or> deviceID = []) (GoErr ErrInvalid ''authenticated passkey principal'') (
     attempt (pure_result (validateDeviceBinding (sv_sha256 sv) device)) (\<lambda>deviceHash.
     attempt (store_read (\<lambda>st. wrap_error (errorf ''authenticated passkey registration'')
       (op_OwnerForAdditional (sv_ops sv) (sv_rpid sv) ownerID deviceID deviceHash st))) (\<lambda>owner.
     attempt (pk_answer (\<lambda>a. ka_registration a owner (map wc_ID (po_Credentials owner)))) (\<lambda>(options, session).
     attempt (pk_randomID 16) (\<lambda>i.
     insist (pk_save (registration_ceremony i ceremonyAdditional owner deviceID device deviceHash [] [] session))
     (State_Monad.return (Inr (i, options))))))))"

definition FinishAdditionalRegistration ::
  "('c, 's, 'p, 'st, 'b) passkey_service \<Rightarrow> string \<Rightarrow> string \<Rightarrow> string \<Rightarrow> device_binding \<Rightarrow> bytes
    \<Rightarrow> ('c, 's, 'o, 'st, 'b, credential_metadata result) pk" where
  "FinishAdditionalRegistration sv ceremonyID ownerID deviceID device response =
     attempt (pk_consume ceremonyID ceremonyAdditional) (\<lambda>c.
     guarding (po_ID (ce_Owner c) \<noteq> ownerID \<or> ce_DeviceID c \<noteq> deviceID)
       (GoErr ErrForbidden ''passkey ceremony principal changed'') (
     guarding (verifyDeviceBinding (sv_sha256 sv) c device \<noteq> None) (GoErr ErrForbidden ''authenticated passkey device'') (
     attempt (pure_result (wrap_error (\<lambda>_. GoErr ErrInvalid ''authenticated passkey response'') (sv_ParseCreation sv response)))
       (\<lambda>parsed.
     attempt (pure_result (wrap_error (\<lambda>_. GoErr ErrInvalid ''authenticated passkey verification'')
       (sv_CreateCredential sv (ce_Owner c) (ce_Session c) parsed))) (\<lambda>credential.
     State_Monad.bind (pk_answer ka_now) (\<lambda>now.
     let record = ceremony_record (sv_rpid sv) c ownerID deviceID credential now in
     insist (store_write (op_CreateAdditional (sv_ops sv) (ce_Owner c) record) (WAdd (ce_Owner c) record))
     (State_Monad.return (Inr \<lparr>cm_CredentialID = wc_ID credential, cm_DeviceID = deviceID,
        cm_DeviceName = bn_Name (ce_Device c), cm_CreatedAt = now, cm_LastUsedAt = None\<rparr>))))))))"

definition ListCredentials ::
  "('c, 's, 'p, 'st, 'b) passkey_service \<Rightarrow> string \<Rightarrow> ('c, 's, 'o, 'st, 'b, credential_metadata list result) pk" where
  "ListCredentials sv ownerID =
     guarding (ownerID = []) (GoErr ErrInvalid ''passkey owner'') (
     store_read (op_List (sv_ops sv) (sv_rpid sv) ownerID))"

definition service_RevokeCredential ::
  "('c, 's, 'p, 'st, 'b) passkey_service \<Rightarrow> string \<Rightarrow> string \<Rightarrow> ('c, 's, 'o, 'st, 'b, unit result) pk" where
  "service_RevokeCredential sv ownerID credentialID =
     guarding (ownerID = []) (GoErr ErrInvalid ''passkey owner'') (
     case RawURLDecode credentialID of
       None \<Rightarrow> State_Monad.return (Inl (GoErr ErrInvalid ''passkey credential identity''))
     | Some raw \<Rightarrow>
         guarding (length raw < 1 \<or> length raw > 1024 \<or> RawURLEncode raw \<noteq> credentialID)
           (GoErr ErrInvalid ''passkey credential identity'') (
         insist (store_write (op_Revoke (sv_ops sv) (sv_rpid sv) ownerID raw) (WRevoke ownerID raw))
         (State_Monad.return (Inr ()))))"

subsection \<open>Running the steps\<close>

text \<open>
  \<open>comes_after v v'\<close>: the log of the second world extends the first's, by operations of the service that
  explain how its state changed, and by writes.
\<close>

definition ceremonies :: "('c, 's) passkey_event list \<Rightarrow> ('c, 's) ceremony_event list" where
  "ceremonies log = List.map_filter (\<lambda>v. case v of Ceremony x \<Rightarrow> Some x | Wrote x \<Rightarrow> None) log"

definition sound_world :: "('c, 's, 'o, 'st, 'b) pworld \<Rightarrow> bool" where
  "sound_world w \<longleftrightarrow> ceremony_reach (ceremonies (kw_log w), kw_service w)"

lemma ceremonies_simps [simp]:
  "ceremonies [] = []" "ceremonies (Ceremony x # log) = x # ceremonies log" "ceremonies (Wrote v # log) = ceremonies log"
  "ceremonies (a @ b) = ceremonies a @ ceremonies b" "ceremonies (map Ceremony xs) = xs"
proof -
  show "ceremonies (a @ b) = ceremonies a @ ceremonies b" by (simp add: ceremonies_def List.map_filter_def)
  show "ceremonies (map Ceremony xs) = xs" by (induction xs) (simp_all add: ceremonies_def List.map_filter_def)
qed (simp_all add: ceremonies_def List.map_filter_def)

lemma ceremony_ops_log: "ceremony_ops ps (tr, s) = (fst (ceremony_ops ps ([], s)) @ tr, snd (ceremony_ops ps ([], s)))"
proof (induction ps arbitrary: tr s)
  case (Cons p ps)
  show ?case using Cons [of "fst (run_ceremony_op p s) @ tr" "snd (run_ceremony_op p s)"]
      Cons [of "fst (run_ceremony_op p s)" "snd (run_ceremony_op p s)"] by simp
qed simp

lemma apply_ops_sound: "sound_world w \<Longrightarrow> sound_world (apply_ops ps w)"
  using ceremony_reach_ops [of "(ceremonies (kw_log w), kw_service w)" ps] ceremony_ops_log [of ps "ceremonies (kw_log w)" "kw_service w"]
  by (simp add: sound_world_def apply_ops_def Let_def)

end
