(* ===== verification/Passkey_Handlers.thy ===== *)
theory Passkey_Handlers
  imports Passkey_Service
begin

text \<open>
  What the handlers of the passkey service guarantee: whatever other requests do in between and whichever call
  fails, a login, a further passkey or an enrolment needs a live ceremony of its kind, begun for the same
  installation and not used before, and the library's verification of the response against that ceremony.
\<close>

subsection \<open>Every step extends the log soundly\<close>

definition extends :: "('c, 's, 'o, 'st, 'b) pworld \<Rightarrow> ('c, 's, 'o, 'st, 'b) pworld \<Rightarrow> bool" where
  "extends w w' \<longleftrightarrow> (\<exists>l. kw_log w' = l @ kw_log w) \<and> (sound_world w \<longrightarrow> sound_world w')"

lemma extends_refl [simp]: "extends w w" by (auto simp: extends_def)

lemma extends_trans: "extends u v \<Longrightarrow> extends v w \<Longrightarrow> extends u w"
  unfolding extends_def by (metis append_assoc)

lemma extends_same: "kw_log w' = kw_log w \<Longrightarrow> kw_service w' = kw_service w \<Longrightarrow> extends w w'"
  by (simp add: extends_def sound_world_def)

lemma extends_wrote: "kw_log w' = Wrote v # kw_log w \<Longrightarrow> kw_service w' = kw_service w \<Longrightarrow> extends w w'"
  by (simp add: extends_def sound_world_def)

lemma extends_ops: "extends w (apply_ops ps w)"
  by (auto simp: extends_def apply_ops_sound) (auto simp: apply_ops_def Let_def)

definition soundly :: "(('c, 's, 'o, 'st, 'b) pworld, 'a) state \<Rightarrow> bool" where
  "soundly m \<longleftrightarrow> (\<forall>w r w'. run_state m w = (r, w') \<longrightarrow> extends w w')"

lemma soundlyD: "run_state m w = (r, w') \<Longrightarrow> soundly m \<Longrightarrow> extends w w'" by (simp add: soundly_def)

named_theorems kept_steps "steps that keep the log sound"

lemma soundly_return [kept_steps]: "soundly (State_Monad.return x)" by (simp add: soundly_def)

lemma soundly_bind [kept_steps]: "soundly m \<Longrightarrow> (\<And>x. soundly (f x)) \<Longrightarrow> soundly (State_Monad.bind m f)"
  unfolding soundly_def by (fastforce split: prod.splits intro: extends_trans)

lemma soundly_sum [kept_steps]: "(\<And>e. soundly (f e)) \<Longrightarrow> (\<And>x. soundly (g x)) \<Longrightarrow> soundly (case r of Inl e \<Rightarrow> f e | Inr x \<Rightarrow> g x)"
  by (simp split: sum.split)

lemma soundly_option [kept_steps]: "soundly f \<Longrightarrow> (\<And>x. soundly (g x)) \<Longrightarrow> soundly (case r of None \<Rightarrow> f | Some x \<Rightarrow> g x)"
  by (simp split: option.split)

lemma soundly_prod [kept_steps]: "(\<And>x y. soundly (f x y)) \<Longrightarrow> soundly (case r of (x, y) \<Rightarrow> f x y)"
  by (simp split: prod.split)

lemma soundly_if [kept_steps]: "soundly f \<Longrightarrow> soundly g \<Longrightarrow> soundly (if b then f else g)"
  by simp

lemma soundly_attempt [kept_steps]: "soundly m \<Longrightarrow> (\<And>x. soundly (f x)) \<Longrightarrow> soundly (attempt m f)"
  unfolding attempt_def by (intro kept_steps)

lemma soundly_insist [kept_steps]: "soundly m \<Longrightarrow> soundly f \<Longrightarrow> soundly (insist m f)"
  unfolding insist_def by (intro kept_steps)

lemma soundly_guarding [kept_steps]: "soundly f \<Longrightarrow> soundly (guarding b e f)"
  unfolding guarding_def by (intro kept_steps)

lemma soundly_pure [kept_steps]: "soundly (pure_result r)" unfolding pure_result_def by (intro kept_steps)

lemma turn_extends: "run_state pk_turn w = (a, w') \<Longrightarrow> extends w w'"
  using extends_trans [OF extends_ops [of w "ka_others (kw_answers w (kw_turn w))"] extends_same, of w']
  by (auto simp: pk_turn_def Let_def)

text \<open>A step is what others did before it, and then its own effect.\<close>

lemma serve_run:
  assumes "run_state (serve p f) w = (r, w')"
  obtains w1 t where "extends w w1" "r = f t (kw_store w1) (kw_service w1)" "w' = apply_ops [p t (kw_store w1)] w1"
proof -
  obtain a w1 where a: "run_state pk_turn w = (a, w1)" by (cases "run_state pk_turn w")
  with assms that [OF turn_extends [OF a], of "ka_now a"] show thesis by (simp add: serve_def)
qed

lemma store_read_run:
  assumes "run_state (store_read f) w = (r, w')"
  obtains "extends w w'" "r = f (kw_store w')"
proof -
  obtain a w1 where a: "run_state pk_turn w = (a, w1)" by (cases "run_state pk_turn w")
  with assms have "w1 = w'" "r = f (kw_store w')" by (auto simp: store_read_def)
  with that turn_extends [OF a] show thesis by blast
qed

lemma boot_read_run:
  assumes "run_state (boot_read f) w = (r, w')"
  obtains t where "extends w w'" "r = f t (kw_boot w')"
proof -
  obtain a w1 where a: "run_state pk_turn w = (a, w1)" by (cases "run_state pk_turn w")
  with assms have "w1 = w'" "r = f (ka_now a) (kw_boot w')" by (auto simp: boot_read_def)
  with that turn_extends [OF a] show thesis by blast
qed

lemma store_write_run:
  assumes "run_state (store_write f v) w = (r, w')"
  obtains w1 where "extends w w1" "f (kw_store w1) = (r, kw_store w')" "kw_service w' = kw_service w1"
    "kw_log w' = (if r = None then Wrote v # kw_log w1 else kw_log w1)"
proof -
  obtain a w1 where a: "run_state pk_turn w = (a, w1)" by (cases "run_state pk_turn w")
  obtain e st where e: "f (kw_store w1) = (e, st)" by (cases "f (kw_store w1)")
  with a assms that [OF turn_extends [OF a]] show thesis by (auto simp: store_write_def)
qed

lemma boot_write_run:
  assumes "run_state (boot_write f v) w = (r, w')"
  obtains w1 t where "extends w w1" "f t (kw_boot w1) = (r, kw_boot w')" "kw_service w' = kw_service w1"
    "kw_log w' = (if r = None then Wrote v # kw_log w1 else kw_log w1)"
proof -
  obtain a w1 where a: "run_state pk_turn w = (a, w1)" by (cases "run_state pk_turn w")
  obtain e b where e: "f (ka_now a) (kw_boot w1) = (e, b)" by (cases "f (ka_now a) (kw_boot w1)")
  with a assms that [OF turn_extends [OF a], of "ka_now a"] show thesis by (auto simp: boot_write_def)
qed

lemma resolve_run:
  assumes "run_state (resolve_device ops d) w = (r, w')"
  obtains w1 where "extends w w1" "op_ResolveDevice ops d (kw_store w1) = (r, kw_store w')" "kw_service w' = kw_service w1"
    "kw_log w' = (case r of Inl e \<Rightarrow> kw_log w1 | Inr d' \<Rightarrow> Wrote (WDevice d d') # kw_log w1)"
proof -
  obtain a w1 where a: "run_state pk_turn w = (a, w1)" by (cases "run_state pk_turn w")
  obtain e b where e: "op_ResolveDevice ops d (kw_store w1) = (e, b)" by (cases "op_ResolveDevice ops d (kw_store w1)")
  with a assms that [OF turn_extends [OF a]] show thesis by (auto simp: resolve_device_def)
qed

lemma answer_run:
  assumes "run_state (pk_answer f) w = (r, w')"
  obtains a where "extends w w'" "r = f a"
proof -
  obtain a w1 where a: "run_state pk_turn w = (a, w1)" by (cases "run_state pk_turn w")
  with assms have "w1 = w'" "r = f a" by (simp_all add: pk_answer_def)
  with that turn_extends [OF a] show thesis by blast
qed

lemma soundly_serve [kept_steps]: "soundly (serve p f)"
  unfolding soundly_def by (auto elim!: serve_run intro: extends_trans extends_ops)

lemma soundly_store_read [kept_steps]: "soundly (store_read f)"
  unfolding soundly_def by (auto elim: store_read_run)

lemma soundly_boot_read [kept_steps]: "soundly (boot_read f)"
  unfolding soundly_def by (auto elim: boot_read_run)

lemma soundly_store_write [kept_steps]: "soundly (store_write f v)"
  unfolding soundly_def
  by (auto elim!: store_write_run split: if_splits intro: extends_trans [OF _ extends_wrote] extends_trans [OF _ extends_same])

lemma soundly_boot_write [kept_steps]: "soundly (boot_write f v)"
  unfolding soundly_def
  by (auto elim!: boot_write_run split: if_splits intro: extends_trans [OF _ extends_wrote] extends_trans [OF _ extends_same])

lemma soundly_resolve [kept_steps]: "soundly (resolve_device ops d)"
  unfolding soundly_def
  by (auto elim!: resolve_run split: sum.splits intro: extends_trans [OF _ extends_wrote] extends_trans [OF _ extends_same])

lemma soundly_answer [kept_steps]: "soundly (pk_answer f)"
  unfolding soundly_def by (auto elim: answer_run)

lemma soundly_small [kept_steps]:
  "soundly (pk_consume i k)" "soundly (pk_save c)" "soundly (pk_remember dh)" "soundly (pk_randomID n)" "soundly new_owner"
  unfolding pk_consume_def pk_save_def pk_remember_def pk_randomID_def new_owner_def by (intro kept_steps)+

lemma handlers_keep:
  "soundly (BeginBootstrapRegistration sv ctx token device)"
  "soundly (FinishBootstrapRegistration sv ctx i token device response)"
  "soundly (BeginLogin sv device)"
  "soundly (FinishLogin sv i device response)"
  "soundly (BeginAdditionalRegistration sv ow dev device)"
  "soundly (FinishAdditionalRegistration sv i ow dev device response)"
  "soundly (ListCredentials sv ow)"
  "soundly (service_RevokeCredential sv ow cid)"
  unfolding BeginBootstrapRegistration_def FinishBootstrapRegistration_def BeginLogin_def FinishLogin_def
    BeginAdditionalRegistration_def FinishAdditionalRegistration_def ListCredentials_def service_RevokeCredential_def Let_def
  by (intro kept_steps)+

subsection \<open>Successful runs\<close>

lemma attempt_ok [simp]:
  "run_state (attempt m f) w = (Inr y, w') \<longleftrightarrow> (\<exists>x w1. run_state m w = (Inr x, w1) \<and> run_state (f x) w1 = (Inr y, w'))"
  by (auto simp: attempt_def split: prod.splits sum.splits)

lemma insist_ok [simp]:
  "run_state (insist m f) w = (Inr y, w') \<longleftrightarrow> (\<exists>w1. run_state m w = (None, w1) \<and> run_state f w1 = (Inr y, w'))"
  by (auto simp: insist_def split: prod.splits option.splits)

lemma guarding_ok [simp]: "run_state (guarding b e f) w = (Inr y, w') \<longleftrightarrow> \<not> b \<and> run_state f w = (Inr y, w')"
  by (simp add: guarding_def)

lemma pure_result_ok [simp]: "run_state (pure_result r) w = (x, w') \<longleftrightarrow> x = r \<and> w' = w"
  by (auto simp: pure_result_def)

lemma bind_ok: "run_state (State_Monad.bind m f) w = (y, w') \<longleftrightarrow> (\<exists>x w1. run_state m w = (x, w1) \<and> run_state (f x) w1 = (y, w'))"
  by (auto split: prod.splits)

lemma wrap_error_ok [simp]: "wrap_error g r = Inr x \<longleftrightarrow> r = Inr x" "Inr x = wrap_error g r \<longleftrightarrow> r = Inr x"
  by (auto simp: wrap_error_def split: sum.splits)

lemma consumed:
  assumes "run_state (pk_consume i k) w = (Inr c, w')" "sound_world w"
  obtains t w1 where "extends w w1" "kw_log w' = Ceremony (Finished i c t) # kw_log w1" "sound_world w'"
    "ce_Kind c = k" "t < ce_ExpiresAt c" "begun_last (ceremonies (kw_log w1)) i c"
proof -
  from assms(1) [unfolded pk_consume_def] obtain w1 t where
    r: "extends w w1" "Inr c = fst (consume i k t (kw_service w1))" "w' = apply_ops [OpConsume i k t] w1"
    by (rule serve_run)
  obtain s' where s: "consume i k t (kw_service w1) = (Inr c, s')" using r(2) by (cases "consume i k t (kw_service w1)") auto
  have l: "kw_log w' = Ceremony (Finished i c t) # kw_log w1" using r(3) s by (simp add: apply_ops_def Let_def)
  have w1: "sound_world w1" using r(1) assms(2) by (simp add: extends_def)
  from s obtain c' where c: "c' = c" "map_of (ps_ceremonies (kw_service w1)) i = Some c'" "ce_Kind c' = k" "t < ce_ExpiresAt c'"
    by (rule consume_cases) auto
  have "begun_last (ceremonies (kw_log w1)) i c"
    using reach_logged [OF w1 [unfolded sound_world_def]] c by (simp add: logged_def)
  with that [OF r(1) l] r(3) apply_ops_sound [OF w1] c show thesis by simp
qed

lemma device_verified:
  "verifyDeviceBinding sha c d = None \<longleftrightarrow>
     validateDeviceBinding sha d = Inr (ce_DeviceHash c) \<and> bn_Name d = bn_Name (ce_Device c)"
  by (auto simp: verifyDeviceBinding_def split: sum.split)

text \<open>An installation is named by exactly 32 bytes, in one spelling, and a clean short name.\<close>

lemma device_valid:
  "validateDeviceBinding sha d = Inr h \<Longrightarrow> \<exists>b. bn_InstanceID d = RawURLEncode b \<and> length b = 32 \<and> h = sha b
     \<and> bn_Name d \<noteq> [] \<and> length (bn_Name d) \<le> 120"
  by (cases "RawURLDecode (bn_InstanceID d)") (auto simp: validateDeviceBinding_def split: if_splits dest: sym)

text \<open>What the log so far must say for a request at instant \<open>t\<close> to finish a ceremony.\<close>

definition live_ceremony ::
  "('c, 's, 'p, 'st, 'b) passkey_service \<Rightarrow> string \<Rightarrow> ceremony_kind \<Rightarrow> device_binding \<Rightarrow> time
    \<Rightarrow> ('c, 's) passkey_event list \<Rightarrow> ('c, 's) ceremony \<Rightarrow> bool" where
  "live_ceremony sv i kind device t log c \<longleftrightarrow>
     begun_last (ceremonies log) i c \<and> ce_Kind c = kind \<and> t < ce_ExpiresAt c
     \<and> validateDeviceBinding (sv_sha256 sv) device = Inr (ce_DeviceHash c) \<and> bn_Name device = bn_Name (ce_Device c)"

lemma consumed_live:
  assumes "run_state (pk_consume i k) w = (Inr c, w')" "sound_world w" "verifyDeviceBinding (sv_sha256 sv) c device = None"
  obtains t l where "kw_log w' = Ceremony (Finished i c t) # l @ kw_log w" "live_ceremony sv i k device t (l @ kw_log w) c"
proof -
  from consumed [OF assms(1,2)] obtain t w1 where w1: "extends w w1" "kw_log w' = Ceremony (Finished i c t) # kw_log w1"
      "ce_Kind c = k" "t < ce_ExpiresAt c" "begun_last (ceremonies (kw_log w1)) i c" .
  then obtain l where "kw_log w1 = l @ kw_log w" by (auto simp: extends_def)
  with w1 that [of t l] assms(3) show thesis by (simp add: live_ceremony_def device_verified)
qed

lemma extends_log:
  assumes "extends w w'"
  obtains l where "kw_log w' = l @ kw_log w"
  using assms by (auto simp: extends_def)

text \<open>C23:
  A login is granted only on evidence: the identity names a login ceremony that was begun here less than five
  minutes before for the same installation and name and that nobody has finished since; the library verified the
  response against that ceremony's session; the credential is filed under the owner it verified; and the
  credential with its new counter was saved, then the device resolved, all after the ceremony was used up.
  This holds whatever other requests and the stores do in between.
\<close>

theorem login_justified:
  assumes "sound_world w" and "run_state (FinishLogin sv i device response) w = (Inr (ownerID, deviceID), w')"
  shows "\<exists>c t parsed st st' owner cred record now rawID dev l1 l2 l3 l4.
    kw_log w' = l4 @ Wrote (WDevice \<lparr>pd_ID = rawID, pd_OwnerID = ownerID, pd_Name = bn_Name device, pd_Platform = ''ios'',
        pd_InstanceHash = ce_DeviceHash c, pd_CreatedAt = now, pd_LastSeenAt = now\<rparr> dev)
      # l3 @ Wrote (WSave (record\<lparr>cd_LastUsedAt := Some now, cd_Credential := cred\<rparr>))
      # l2 @ Ceremony (Finished i c t) # l1 @ kw_log w
    \<and> live_ceremony sv i ceremonyLogin device t (l1 @ kw_log w) c
    \<and> sv_ParseRequest sv response = Inr parsed
    \<and> sv_ValidateLogin sv (\<lambda>rawID userHandle. wrap_error (\<lambda>_. errorsNew ''unknown credential'')
         (op_OwnerByHandle (sv_ops sv) (sv_rpid sv) userHandle st)) (ce_Session c) parsed = Inr (owner, cred)
    \<and> op_Record (sv_ops sv) (sv_rpid sv) (wc_ID cred) st' = Inr record
    \<and> cd_OwnerID record = po_ID owner \<and> ownerID = po_ID owner \<and> deviceID = pd_ID dev
    \<and> sound_world w'"
proof -
  from assms(2) obtain c w1 parsed owner cred w2 rec w3 now w4 w5 rawID w6 dev w7 where
    c: "run_state (pk_consume i ceremonyLogin) w = (Inr c, w1)" "verifyDeviceBinding (sv_sha256 sv) c device = None"
      "sv_ParseRequest sv response = Inr parsed"
    and v: "run_state (store_read (\<lambda>st. wrap_error (errorf ''verify passkey assertion'') (sv_ValidateLogin sv
         (\<lambda>rawID userHandle. wrap_error (\<lambda>_. errorsNew ''unknown credential'')
            (op_OwnerByHandle (sv_ops sv) (sv_rpid sv) userHandle st)) (ce_Session c) parsed))) w1 = (Inr (owner, cred), w2)"
    and r: "run_state (store_read (\<lambda>st. wrap_error (\<lambda>_. errorsNew ''credential ownership mismatch'')
         (op_Record (sv_ops sv) (sv_rpid sv) (wc_ID cred) st))) w2 = (Inr rec, w3)" "cd_OwnerID rec = po_ID owner"
    and n: "run_state (pk_answer ka_now) w3 = (now, w4)"
    and s: "run_state (store_write (op_Save (sv_ops sv) (rec\<lparr>cd_LastUsedAt := Some now, cd_Credential := cred\<rparr>))
         (WSave (rec\<lparr>cd_LastUsedAt := Some now, cd_Credential := cred\<rparr>))) w4 = (None, w5)"
    and i: "run_state (pk_randomID 16) w5 = (Inr rawID, w6)"
    and d: "run_state (resolve_device (sv_ops sv) \<lparr>pd_ID = rawID, pd_OwnerID = po_ID owner, pd_Name = bn_Name (ce_Device c),
        pd_Platform = ''ios'', pd_InstanceHash = ce_DeviceHash c, pd_CreatedAt = now, pd_LastSeenAt = now\<rparr>) w6 = (Inr dev, w7)"
    and m: "run_state (pk_remember (ce_DeviceHash c)) w7 = ((), w')" "ownerID = po_ID owner" "deviceID = pd_ID dev"
    by (clarsimp simp: FinishLogin_def bind_ok Let_def simp del: run_state_bind)
  from consumed_live [OF c(1) assms(1) c(2)] obtain t l1 where
    f: "kw_log w1 = Ceremony (Finished i c t) # l1 @ kw_log w" "live_ceremony sv i ceremonyLogin device t (l1 @ kw_log w) c" .
  from s obtain w4' where s': "extends w4 w4'" "kw_log w5 = Wrote (WSave (rec\<lparr>cd_LastUsedAt := Some now, cd_Credential := cred\<rparr>)) # kw_log w4'"
    by (rule store_write_run) simp
  from d obtain w6' where d': "extends w6 w6'" "kw_log w7 = Wrote (WDevice \<lparr>pd_ID = rawID, pd_OwnerID = po_ID owner,
        pd_Name = bn_Name (ce_Device c), pd_Platform = ''ios'', pd_InstanceHash = ce_DeviceHash c, pd_CreatedAt = now,
        pd_LastSeenAt = now\<rparr> dev) # kw_log w6'"
    by (rule resolve_run) simp
  have "extends w1 w2" "extends w2 w3" "extends w3 w4" "extends w5 w6" and e7: "extends w7 w'"
    by (rule soundlyD [OF v] soundlyD [OF r(1)] soundlyD [OF n] soundlyD [OF i] soundlyD [OF m(1)], intro kept_steps)+
  then have e: "extends w1 w4'" "extends w5 w6'" using s'(1) d'(1) by (blast intro: extends_trans)+
  from e e7 obtain l2 l3 l4 where l: "kw_log w4' = l2 @ kw_log w1" "kw_log w6' = l3 @ kw_log w5" "kw_log w' = l4 @ kw_log w7"
    unfolding extends_def by blast
  have find: "sv_ValidateLogin sv (\<lambda>rawID userHandle. wrap_error (\<lambda>_. errorsNew ''unknown credential'')
         (op_OwnerByHandle (sv_ops sv) (sv_rpid sv) userHandle (kw_store w2))) (ce_Session c) parsed = Inr (owner, cred)"
    using v by (rule store_read_run) simp
  have found: "op_Record (sv_ops sv) (sv_rpid sv) (wc_ID cred) (kw_store w3) = Inr rec"
    using r(1) by (rule store_read_run) simp
  have sound: "sound_world w'" using soundlyD [OF assms(2) handlers_keep(4)] assms(1) by (simp add: extends_def)
  have "kw_log w' = l4 @ Wrote (WDevice \<lparr>pd_ID = rawID, pd_OwnerID = ownerID, pd_Name = bn_Name device, pd_Platform = ''ios'',
        pd_InstanceHash = ce_DeviceHash c, pd_CreatedAt = now, pd_LastSeenAt = now\<rparr> dev)
      # l3 @ Wrote (WSave (rec\<lparr>cd_LastUsedAt := Some now, cd_Credential := cred\<rparr>))
      # l2 @ Ceremony (Finished i c t) # l1 @ kw_log w"
    using l f(1) s'(2) d'(2) m(2) c(2) by (simp add: device_verified)
  with f(2) c(3) find found r(2) m(2,3) sound show ?thesis by blast
qed

text \<open>A signed-in device adds a passkey only to the account and device that began the ceremony: the identity names a
  live further-registration ceremony of this very principal and installation, the library accepted the response
  against its session, and the one write of the request adds exactly that credential, after the ceremony was used up.
\<close>

theorem additional_passkey_justified:
  assumes "sound_world w"
    and "run_state (FinishAdditionalRegistration sv i ownerID deviceID device response) w = (Inr meta, w')"
  shows "\<exists>c t parsed cred now l1 l2.
    kw_log w' = Wrote (WAdd (ce_Owner c) (ceremony_record (sv_rpid sv) c ownerID deviceID cred now))
      # l2 @ Ceremony (Finished i c t) # l1 @ kw_log w
    \<and> live_ceremony sv i ceremonyAdditional device t (l1 @ kw_log w) c
    \<and> po_ID (ce_Owner c) = ownerID \<and> ce_DeviceID c = deviceID
    \<and> sv_ParseCreation sv response = Inr parsed \<and> sv_CreateCredential sv (ce_Owner c) (ce_Session c) parsed = Inr cred
    \<and> cm_CredentialID meta = wc_ID cred \<and> cm_DeviceID meta = deviceID \<and> sound_world w'"
proof -
  let ?rec = "\<lambda>c. ceremony_record (sv_rpid sv) c ownerID deviceID"
  from assms(2) obtain c w1 parsed cred now w2 where
    c: "run_state (pk_consume i ceremonyAdditional) w = (Inr c, w1)" "verifyDeviceBinding (sv_sha256 sv) c device = None"
      "po_ID (ce_Owner c) = ownerID" "ce_DeviceID c = deviceID" "sv_ParseCreation sv response = Inr parsed"
      "sv_CreateCredential sv (ce_Owner c) (ce_Session c) parsed = Inr cred"
    and n: "run_state (pk_answer ka_now) w1 = (now, w2)"
    and a: "run_state (store_write (op_CreateAdditional (sv_ops sv) (ce_Owner c) (?rec c cred now))
        (WAdd (ce_Owner c) (?rec c cred now))) w2 = (None, w')"
    and meta: "cm_CredentialID meta = wc_ID cred" "cm_DeviceID meta = deviceID"
    by (clarsimp simp: FinishAdditionalRegistration_def bind_ok Let_def simp del: run_state_bind)
  from consumed_live [OF c(1) assms(1) c(2)] obtain t l1 where
    f: "kw_log w1 = Ceremony (Finished i c t) # l1 @ kw_log w" "live_ceremony sv i ceremonyAdditional device t (l1 @ kw_log w) c" .
  from a obtain w3 where w3: "extends w2 w3" "kw_log w' = Wrote (WAdd (ce_Owner c) (?rec c cred now)) # kw_log w3"
    by (rule store_write_run) simp
  have "extends w1 w3" by (rule extends_trans [OF soundlyD [OF n soundly_answer] w3(1)])
  then obtain l2 where "kw_log w3 = l2 @ kw_log w1" by (rule extends_log)
  moreover have "sound_world w'" using soundlyD [OF assms(2) handlers_keep(6)] assms(1) by (simp add: extends_def)
  ultimately show ?thesis using f w3(2) c(3-6) meta by (simp only:) blast
qed

text \<open>The end of a first enrolment spends the token, or disables it when that fails.\<close>

lemma token_spent:
  assumes "run_state (State_Monad.bind (boot_write (ConsumeContext m ctx token) (WConsume token)) (\<lambda>e.
      if e = None then State_Monad.return ()
      else State_Monad.bind (boot_write (DisableContext m ctx) WDisable) (\<lambda>_. State_Monad.return ()))) w = (u, w')"
    "ctx" "\<And>t b. fst (bo_Disable (bm_store m) t b) = None"
  obtains l where "kw_log w' = l @ kw_log w" "Wrote (WConsume token) \<in> set l \<or> Wrote WDisable \<in> set l"
proof -
  from assms(1) obtain e w1 where e: "run_state (boot_write (ConsumeContext m ctx token) (WConsume token)) w = (e, w1)"
      "run_state (if e = None then State_Monad.return ()
        else State_Monad.bind (boot_write (DisableContext m ctx) WDisable) (\<lambda>_. State_Monad.return ())) w1 = (u, w')"
    by (auto simp: bind_ok simp del: run_state_bind)
  from e(1) obtain w0 where w0: "extends w w0" "kw_log w1 = (if e = None then Wrote (WConsume token) # kw_log w0 else kw_log w0)"
    by (rule boot_write_run)
  from w0(1) obtain l0 where l0: "kw_log w0 = l0 @ kw_log w" by (rule extends_log)
  show thesis
  proof (cases "e = None")
    case True
    with e(2) w0(2) l0 that [of "Wrote (WConsume token) # l0"] show thesis by simp
  next
    case False
    with e(2) obtain e' where d: "run_state (boot_write (DisableContext m ctx) WDisable) w1 = (e', w')"
      by (auto simp: bind_ok simp del: run_state_bind)
    then obtain w2 t where w2: "extends w1 w2" "DisableContext m ctx t (kw_boot w2) = (e', kw_boot w')"
        "kw_log w' = (if e' = None then Wrote WDisable # kw_log w2 else kw_log w2)" by (rule boot_write_run)
    from w2(1) obtain l2 where l2: "kw_log w2 = l2 @ kw_log w1" by (rule extends_log)
    have "e' = None" using assms(2) assms(3) [of t "kw_boot w2"] w2(2) by (simp add: DisableContext_def)
    with False w0(2) l0 l2 w2(3) that [of "Wrote WDisable # l2 @ l0"] show thesis by simp
  qed
qed

lemma enrolment_spent:
  assumes "run_state (if rec \<noteq> [] then State_Monad.return ()
       else State_Monad.bind (boot_write (ConsumeContext m ctx token) (WConsume token)) (\<lambda>e.
         if e = None then State_Monad.return ()
         else State_Monad.bind (boot_write (DisableContext m ctx) WDisable) (\<lambda>_. State_Monad.return ()))) w = (u, w')"
    "ctx" "\<And>t b. fst (bo_Disable (bm_store m) t b) = None"
  obtains l where "kw_log w' = l @ kw_log w" "rec = [] \<longrightarrow> Wrote (WConsume token) \<in> set l \<or> Wrote WDisable \<in> set l"
proof (cases "rec = []")
  case True
  have "run_state (State_Monad.bind (boot_write (ConsumeContext m ctx token) (WConsume token)) (\<lambda>e.
         if e = None then State_Monad.return ()
         else State_Monad.bind (boot_write (DisableContext m ctx) WDisable) (\<lambda>_. State_Monad.return ()))) w = (u, w')"
    using assms(1) by (simp only: True not_True_eq_False if_False refl)
  from token_spent [OF this assms(2,3)] that show thesis by blast
qed (use assms(1) that [of "[]"] in simp)

lemma validated_context: "ValidateContext m ctx tok t b = None \<Longrightarrow> ctx"
  by (simp add: ValidateContext_def split: if_splits)

text \<open>The one write of an enrolment.\<close>

definition enrolment_write ::
  "('c, 's, 'p, 'st, 'b) passkey_service \<Rightarrow> ('c, 's) ceremony \<Rightarrow> string \<Rightarrow> 'c credential_record \<Rightarrow> time \<Rightarrow> 'c passkey_write" where
  "enrolment_write sv c token r at =
     (if ce_RecoveryOwner c = [] then WEnrol (ce_Owner c) r
      else WRecover (ce_Owner c) r \<lparr>rp_TokenHash = tokenHash (sv_bootstrap sv) token, rp_At = at\<rparr>)"

lemma enrolment_written:
  assumes "run_state (if ce_RecoveryOwner c \<noteq> []
       then State_Monad.bind (pk_answer ka_now) (\<lambda>at.
         store_write (op_CreateRecovered (sv_ops sv) (ce_Owner c) r \<lparr>rp_TokenHash = tokenHash (sv_bootstrap sv) token, rp_At = at\<rparr>)
           (WRecover (ce_Owner c) r \<lparr>rp_TokenHash = tokenHash (sv_bootstrap sv) token, rp_At = at\<rparr>))
       else store_write (op_CreateOwner (sv_ops sv) (ce_Owner c) r) (WEnrol (ce_Owner c) r)) w = (None, w')"
  obtains at l where "kw_log w' = Wrote (enrolment_write sv c token r at) # l @ kw_log w"
proof (cases "ce_RecoveryOwner c = []")
  case True
  with assms obtain w1 where w: "extends w w1" "kw_log w' = Wrote (WEnrol (ce_Owner c) r) # kw_log w1"
    by (auto elim: store_write_run)
  from w(1) obtain l where "kw_log w1 = l @ kw_log w" by (rule extends_log)
  with w(2) True that show thesis by (simp add: enrolment_write_def)
next
  case False
  with assms obtain at wa where a: "run_state (pk_answer ka_now) w = (at, wa)"
      "run_state (store_write
         (op_CreateRecovered (sv_ops sv) (ce_Owner c) r \<lparr>rp_TokenHash = tokenHash (sv_bootstrap sv) token, rp_At = at\<rparr>)
         (WRecover (ce_Owner c) r \<lparr>rp_TokenHash = tokenHash (sv_bootstrap sv) token, rp_At = at\<rparr>)) wa = (None, w')"
    by (auto simp: bind_ok simp del: run_state_bind)
  from a(2) obtain w1 where w: "extends wa w1" "kw_log w' = Wrote (enrolment_write sv c token r at) # kw_log w1"
    by (rule store_write_run) (simp add: enrolment_write_def False)
  from extends_trans [OF soundlyD [OF a(1) soundly_answer] w(1)] obtain l where "kw_log w1 = l @ kw_log w" by (rule extends_log)
  with w(2) that show thesis by simp
qed


subsection \<open>Refusals\<close>

definition writes :: "('c, 's) passkey_event list \<Rightarrow> 'c passkey_write list" where
  "writes log = List.map_filter (\<lambda>v. case v of Ceremony x \<Rightarrow> None | Wrote x \<Rightarrow> Some x) log"

lemma writes_simps [simp]:
  "writes [] = []" "writes (Ceremony x # log) = writes log" "writes (Wrote v # log) = v # writes log"
  "writes (map Ceremony xs @ log) = writes log"
proof -
  show "writes (map Ceremony xs @ log) = writes log"
    by (induction xs) (simp_all add: writes_def List.map_filter_def)
qed (simp_all add: writes_def List.map_filter_def)

text \<open>A quiet step writes nothing; a careful one writes nothing when it ends in an error.\<close>

definition quiet_step :: "(('c, 's, 'o, 'st, 'b) pworld, 'a) state \<Rightarrow> bool" where
  "quiet_step m \<longleftrightarrow> (\<forall>w r w'. run_state m w = (r, w') \<longrightarrow> writes (kw_log w') = writes (kw_log w))"

definition careful :: "(('c, 's, 'o, 'st, 'b) pworld, 'a result) state \<Rightarrow> bool" where
  "careful m \<longleftrightarrow> (\<forall>w e w'. run_state m w = (Inl e, w') \<longrightarrow> writes (kw_log w') = writes (kw_log w))"

lemma quiet_stepD: "quiet_step m \<Longrightarrow> writes (kw_log (snd (run_state m w))) = writes (kw_log w)"
  by (cases "run_state m w") (simp add: quiet_step_def)

lemma carefulD:
  "careful m \<Longrightarrow> (case run_state m w of (Inl e, w') \<Rightarrow> writes (kw_log w') = writes (kw_log w) | (Inr x, w') \<Rightarrow> True)"
  by (auto simp: careful_def split: prod.split sum.split)

named_theorems quiet_rules "steps that write nothing, or nothing when refused"

lemma quiet_turn: "run_state pk_turn w = (a, w') \<Longrightarrow> writes (kw_log w') = writes (kw_log w)"
  by (auto simp: pk_turn_def apply_ops_def Let_def)

lemma quiet_return [quiet_rules]: "quiet_step (State_Monad.return x)" by (simp add: quiet_step_def)

lemma quiet_bind [quiet_rules]: "quiet_step m \<Longrightarrow> (\<And>x. quiet_step (f x)) \<Longrightarrow> quiet_step (State_Monad.bind m f)"
  unfolding quiet_step_def by (fastforce split: prod.splits)

lemma quiet_cases [quiet_rules]:
  "(\<And>e. quiet_step (f e)) \<Longrightarrow> (\<And>x. quiet_step (g x)) \<Longrightarrow> quiet_step (case r of Inl e \<Rightarrow> f e | Inr x \<Rightarrow> g x)"
  "quiet_step h \<Longrightarrow> (\<And>x. quiet_step (k x)) \<Longrightarrow> quiet_step (case q of None \<Rightarrow> h | Some x \<Rightarrow> k x)"
  "quiet_step h \<Longrightarrow> quiet_step h' \<Longrightarrow> quiet_step (if b then h else h')"
  "(\<And>x y. quiet_step (p x y)) \<Longrightarrow> quiet_step (case xy of (x, y) \<Rightarrow> p x y)"
  by (simp_all split: sum.split option.split prod.split)

lemma quiet_attempt [quiet_rules]:
  "quiet_step m \<Longrightarrow> (\<And>x. quiet_step (f x)) \<Longrightarrow> quiet_step (attempt m f)"
  "quiet_step m' \<Longrightarrow> quiet_step g \<Longrightarrow> quiet_step (insist m' g)"
  "quiet_step g \<Longrightarrow> quiet_step (guarding b e g)" "quiet_step (pure_result r)"
  unfolding attempt_def insist_def guarding_def pure_result_def by (intro quiet_rules; assumption?)+

lemma quiet_steps [quiet_rules]:
  "quiet_step (store_read f)" "quiet_step (boot_read g)" "quiet_step (pk_answer h)" "quiet_step (serve p k)"
  unfolding quiet_step_def store_read_def boot_read_def pk_answer_def serve_def
  by (auto simp: quiet_turn apply_ops_def Let_def split: prod.splits dest: quiet_turn)

lemma quiet_small [quiet_rules]:
  "quiet_step (pk_consume i k)" "quiet_step (pk_save c)" "quiet_step (pk_remember dh)" "quiet_step (pk_randomID n)" "quiet_step new_owner"
  unfolding pk_consume_def pk_save_def pk_remember_def pk_randomID_def new_owner_def by (intro quiet_rules)+

lemma careful_quiet: "quiet_step m \<Longrightarrow> careful m" unfolding quiet_step_def careful_def by blast

lemma careful_attempt [quiet_rules]: "quiet_step m \<Longrightarrow> (\<And>x. careful (f x)) \<Longrightarrow> careful (attempt m f)"
  unfolding quiet_step_def careful_def attempt_def by (fastforce split: prod.splits sum.splits)

lemma careful_insist [quiet_rules]: "quiet_step m \<Longrightarrow> careful f \<Longrightarrow> careful (insist m f)"
  unfolding quiet_step_def careful_def insist_def by (fastforce split: prod.splits option.splits)

lemma careful_guarding [quiet_rules]: "careful f \<Longrightarrow> careful (guarding b e f)"
  by (simp add: careful_def guarding_def)

lemma careful_bind [quiet_rules]: "quiet_step m \<Longrightarrow> (\<And>x. careful (f x)) \<Longrightarrow> careful (State_Monad.bind m f)"
  unfolding quiet_step_def careful_def by (fastforce split: prod.splits)

text \<open>A write that fails logs nothing; after one that succeeds nothing may fail.\<close>

definition granting :: "(('c, 's, 'o, 'st, 'b) pworld, 'a result) state \<Rightarrow> bool" where
  "granting m \<longleftrightarrow> (\<forall>w. \<exists>x w'. run_state m w = (Inr x, w'))"

definition atomic_write :: "(('c, 's, 'o, 'st, 'b) pworld, goerr option) state \<Rightarrow> bool" where
  "atomic_write m \<longleftrightarrow> (\<forall>w e w'. run_state m w = (Some e, w') \<longrightarrow> writes (kw_log w') = writes (kw_log w))"

lemma careful_write:
  assumes "atomic_write m" "granting f"
  shows "careful (insist m f)"
  unfolding careful_def
proof (intro allI impI)
  fix w e w'
  assume r: "run_state (insist m f) w = (Inl e, w')"
  obtain x w1 where m: "run_state m w = (x, w1)" by (cases "run_state m w")
  show "writes (kw_log w') = writes (kw_log w)"
  proof (cases x)
    case None
    with r m have "run_state f w1 = (Inl e, w')" by (simp add: insist_def)
    moreover obtain y w2 where "run_state f w1 = (Inr y, w2)" using assms(2) unfolding granting_def by blast
    ultimately show ?thesis by simp
  next
    case (Some e')
    with r m have "w' = w1" by (simp add: insist_def)
    with Some m assms(1) show ?thesis by (simp add: atomic_write_def)
  qed
qed

lemma atomic_store_write: "atomic_write (store_write f v)"
  unfolding atomic_write_def store_write_def by (auto simp: quiet_turn split: prod.splits if_splits dest: quiet_turn)

lemma atomic_after: "quiet_step m \<Longrightarrow> (\<And>x. atomic_write (f x)) \<Longrightarrow> atomic_write (State_Monad.bind m f)"
  unfolding quiet_step_def atomic_write_def by (fastforce split: prod.splits)

lemma granting_return: "granting (State_Monad.return (Inr x))" by (simp add: granting_def)

lemma granting_bind: "(\<And>x. granting (f x)) \<Longrightarrow> granting (State_Monad.bind m f)"
  by (fastforce simp: granting_def split: prod.splits)


end
