(* ===== verification/Passkey_Registry.thy ===== *)
theory Passkey_Registry
  imports Passkey_Service
begin

text \<open>
  The contract of the passkey store the service relies on, as a locale over its interface, and its
  interpretation on the in-process store: one owner at most, at most twenty passkeys for each relying party, and
  an owner who has a passkey keeps one.
\<close>

subsection \<open>The contract\<close>

text \<open>The writes of the service, in any order; each may be refused.\<close>

inductive registry_run :: "('c, 'st) passkey_ops \<Rightarrow> 'st \<Rightarrow> 'st \<Rightarrow> bool" for ops s0 where
  start: "registry_run ops s0 s0"
| create: "registry_run ops s0 s \<Longrightarrow> op_CreateOwner ops ow r s = (e, s') \<Longrightarrow> registry_run ops s0 s'"
| recover: "registry_run ops s0 s \<Longrightarrow> op_CreateRecovered ops ow r p s = (e, s') \<Longrightarrow> registry_run ops s0 s'"
| add: "registry_run ops s0 s \<Longrightarrow> op_CreateAdditional ops ow r s = (e, s') \<Longrightarrow> registry_run ops s0 s'"
| revoke: "registry_run ops s0 s \<Longrightarrow> op_Revoke ops rpid ow cid s = (e, s') \<Longrightarrow> registry_run ops s0 s'"
| save: "registry_run ops s0 s \<Longrightarrow> op_Save ops r s = (e, s') \<Longrightarrow> registry_run ops s0 s'"
| resolve: "registry_run ops s0 s \<Longrightarrow> op_ResolveDevice ops d s = (x, s') \<Longrightarrow> registry_run ops s0 s'"

definition safe_write :: "('st \<Rightarrow> bool) \<Rightarrow> (string \<Rightarrow> string \<Rightarrow> 'st \<Rightarrow> nat) \<Rightarrow> 'st \<Rightarrow> 'st \<Rightarrow> bool" where
  "safe_write good passkeys s s' \<longleftrightarrow> good s' \<and> (\<forall>ow rp. 0 < passkeys ow rp s \<longrightarrow> 0 < passkeys ow rp s')"

text \<open>\<open>owners\<close> and \<open>passkeys\<close> read the store; a step never takes an owner's last passkey.\<close>

locale passkey_registry =
  fixes ops :: "('c, 'st) passkey_ops"
    and wf :: "'st \<Rightarrow> bool"
    and owners :: "'st \<Rightarrow> string set"
    and passkeys :: "string \<Rightarrow> string \<Rightarrow> 'st \<Rightarrow> nat"
  assumes created: "wf s \<Longrightarrow> op_CreateOwner ops own r s = (e, s') \<Longrightarrow> safe_write wf passkeys s s' \<and>
      (if e = None then owners s = {} \<and> owners s' = {po_ID own} \<and> 0 < passkeys (po_ID own) (cd_RPID r) s' else owners s' = owners s)"
    and recovered: "wf s \<Longrightarrow> op_CreateRecovered ops own r p s = (e, s') \<Longrightarrow> safe_write wf passkeys s s' \<and> owners s' = owners s
      \<and> (e = None \<longrightarrow> po_ID own \<in> owners s \<and> passkeys (po_ID own) (cd_RPID r) s = 0)"
    and added: "wf s \<Longrightarrow> op_CreateAdditional ops own r s = (e, s') \<Longrightarrow> safe_write wf passkeys s s' \<and> owners s' = owners s"
    and revoked: "wf s \<Longrightarrow> op_Revoke ops rpid ow cid s = (e, s') \<Longrightarrow> safe_write wf passkeys s s' \<and> owners s' = owners s"
    and saved: "wf s \<Longrightarrow> op_Save ops r s = (e, s') \<Longrightarrow> safe_write wf passkeys s s' \<and> owners s' = owners s"
    and resolved: "wf s \<Longrightarrow> op_ResolveDevice ops d s = (x, s') \<Longrightarrow> safe_write wf passkeys s s' \<and> owners s' = owners s"
    and bounded: "wf s \<Longrightarrow> passkeys ow rp s \<le> 20"
begin

lemma run_kept: "registry_run ops s0 s \<Longrightarrow> wf s0 \<Longrightarrow> safe_write wf passkeys s0 s"
proof (induction rule: registry_run.induct)
  case (create s ow r e s') with created [of s ow r e s'] show ?case by (auto simp: safe_write_def)
next
  case (recover s ow r p e s') with recovered [of s ow r p e s'] show ?case by (auto simp: safe_write_def)
next
  case (add s ow r e s') with added [of s ow r e s'] show ?case by (auto simp: safe_write_def)
next
  case (revoke s rpid ow cid e s') with revoked [of s rpid ow cid e s'] show ?case by (auto simp: safe_write_def)
next
  case (save s r e s') with saved [of s r e s'] show ?case by (auto simp: safe_write_def)
next
  case (resolve s d x s') with resolved [of s d x s'] show ?case by (auto simp: safe_write_def)
qed (simp add: safe_write_def)

text \<open>Whoever is enrolled stays the only owner.\<close>

lemma run_owner: "registry_run ops s0 s \<Longrightarrow> wf s0 \<Longrightarrow> owners s0 = {o0} \<Longrightarrow> owners s = {o0}"
proof (induction rule: registry_run.induct)
  case (create s ow r e s')
  have "wf s" using run_kept [OF create.hyps(1) create.prems(1)] by (simp add: safe_write_def)
  with created [of s ow r e s'] create show ?case by (auto split: if_splits)
next
  case (recover s ow r p e s')
  have "wf s" using run_kept [OF recover.hyps(1) recover.prems(1)] by (simp add: safe_write_def)
  with recovered [of s ow r p e s'] recover show ?case by auto
next
  case (add s ow r e s')
  have "wf s" using run_kept [OF add.hyps(1) add.prems(1)] by (simp add: safe_write_def)
  with added [of s ow r e s'] add show ?case by auto
next
  case (revoke s rpid ow cid e s')
  have "wf s" using run_kept [OF revoke.hyps(1) revoke.prems(1)] by (simp add: safe_write_def)
  with revoked [of s rpid ow cid e s'] revoke show ?case by auto
next
  case (save s r e s')
  have "wf s" using run_kept [OF save.hyps(1) save.prems(1)] by (simp add: safe_write_def)
  with saved [of s r e s'] save show ?case by auto
next
  case (resolve s d x s')
  have "wf s" using run_kept [OF resolve.hyps(1) resolve.prems(1)] by (simp add: safe_write_def)
  with resolved [of s d x s'] resolve show ?case by auto
qed simp

text \<open>After a successful enrolment: no second one ever, and the owner always has between one and twenty passkeys.\<close>

lemma enrolled_for_good:
  assumes "wf s0" "op_CreateOwner ops ow r s0 = (None, s1)" "registry_run ops s1 s"
  shows "owners s = {po_ID ow} \<and> 0 < passkeys (po_ID ow) (cd_RPID r) s \<and> passkeys (po_ID ow) (cd_RPID r) s \<le> 20
    \<and> fst (op_CreateOwner ops ow' r' s) \<noteq> None"
proof -
  from created [OF assms(1,2)] have s1: "wf s1" "owners s1 = {po_ID ow}" "0 < passkeys (po_ID ow) (cd_RPID r) s1"
    by (auto simp: safe_write_def)
  from run_kept [OF assms(3) s1(1)] s1(3) have s: "wf s" "0 < passkeys (po_ID ow) (cd_RPID r) s" by (auto simp: safe_write_def)
  have o: "owners s = {po_ID ow}" by (rule run_owner [OF assms(3) s1(1,2)])
  obtain e s' where c: "op_CreateOwner ops ow' r' s = (e, s')" by (cases "op_CreateOwner ops ow' r' s")
  from created [OF s(1) c] o have "e \<noteq> None" by (auto split: if_splits)
  with c o s bounded show ?thesis by simp
qed

end

subsection \<open>The in-process store\<close>

lemma no_colon_encode: "CHR '':'' \<notin> set (RawURLEncode b)"
  using RawURLEncode_alphabet [of b] by (auto simp: list_all_iff url_alphabet_def Let_def)

lemma append_colon: "CHR '':'' \<notin> set x \<Longrightarrow> CHR '':'' \<notin> set y \<Longrightarrow> a @ CHR '':'' # x = b @ CHR '':'' # y \<Longrightarrow> a = b \<and> x = y"
proof (induction a arbitrary: b)
  case Nil then show ?case by (cases b) auto
next
  case (Cons c a) then show ?case by (cases b) auto
qed

lemma pk_index_inject [simp]: "pk_index rp a = pk_index rp' b \<longleftrightarrow> rp = rp' \<and> a = b"
  using append_colon [OF no_colon_encode no_colon_encode, of rp a rp' b] by (auto simp: pk_index_def)

definition store_ok :: "'c passkey_store \<Rightarrow> bool" where
  "store_ok s \<longleftrightarrow> map_wf (pk_credentials s) \<and> map_wf (pk_owners s) \<and> length (pk_owners s) \<le> 1
     \<and> (\<forall>k v. map_of (pk_owners s) k = Some v \<longrightarrow> po_ID v = k)
     \<and> (\<forall>k r. map_of (pk_credentials s) k = Some r \<longrightarrow>
          k = pk_index (cd_RPID r) (wc_ID (cd_Credential r)) \<and> map_of (pk_owners s) (cd_OwnerID r) \<noteq> None)
     \<and> (\<forall>ow rp. owner_count ow rp s \<le> 20)"

lemma store_okI:
  assumes "map_wf (pk_credentials s)" "map_wf (pk_owners s)" "length (pk_owners s) \<le> 1"
    "\<And>k v. map_of (pk_owners s) k = Some v \<Longrightarrow> po_ID v = k"
    "\<And>k r. map_of (pk_credentials s) k = Some r \<Longrightarrow>
       k = pk_index (cd_RPID r) (wc_ID (cd_Credential r)) \<and> map_of (pk_owners s) (cd_OwnerID r) \<noteq> None"
    "\<And>ow rp. owner_count ow rp s \<le> 20"
  shows "store_ok s"
  unfolding store_ok_def by (intro conjI allI impI assms) (use assms(5) in blast)+

lemma store_okD:
  "store_ok s \<Longrightarrow> map_of (pk_credentials s) k = Some r \<Longrightarrow>
     k = pk_index (cd_RPID r) (wc_ID (cd_Credential r)) \<and> map_of (pk_owners s) (cd_OwnerID r) \<noteq> None"
  "store_ok s \<Longrightarrow> map_of (pk_owners s) o1 = Some v \<Longrightarrow> po_ID v = o1"
  "store_ok s \<Longrightarrow> map_wf (pk_credentials s)" "store_ok s \<Longrightarrow> map_wf (pk_owners s)"
  "store_ok s \<Longrightarrow> length (pk_owners s) \<le> 1" "store_ok s \<Longrightarrow> owner_count ow rp s \<le> 20"
  unfolding store_ok_def by blast+

definition registered :: "'c passkey_store \<Rightarrow> string set" where
  "registered s = dom (map_of (pk_owners s))"

lemma single_owner: "length m \<le> 1 \<Longrightarrow> map_of m a = Some x \<Longrightarrow> map_of m b = Some y \<Longrightarrow> a = b"
  by (cases m) (auto split: if_splits)

lemma length_update_present: "map_of m k = Some v \<Longrightarrow> length (AList.update k w m) = length m"
  by (induction m) (auto split: if_splits)

lemma owner_count_insert:
  "map_wf (pk_credentials s) \<Longrightarrow> map_of (pk_credentials s) k = None \<Longrightarrow>
     pk_credentials s' = AList.update k r (pk_credentials s) \<Longrightarrow>
     owner_count ow rp s' = owner_count ow rp s + (if owned_by ow rp r then 1 else 0)"
  by (simp add: owner_count_def count_insert)

lemma owner_count_replace:
  assumes "map_wf (pk_credentials s)" "map_of (pk_credentials s) k = Some r0" "owned_by ow rp r \<longleftrightarrow> owned_by ow rp r0"
    "pk_credentials s' = AList.update k r (pk_credentials s)"
  shows "owner_count ow rp s' = owner_count ow rp s"
  using count_delete_Some [OF assms(1,2), of "\<lambda>_. owned_by ow rp"] assms(1,3,4)
  by (simp add: owner_count_def count_where_update)

lemma owner_count_zero:
  "\<not> (\<exists>x \<in> set (pk_credentials s). owned_by ow rp (snd x)) \<longleftrightarrow> owner_count ow rp s = 0"
  by (auto simp: owner_count_def count_where_def filter_empty_conv)

lemma memory_safe_same:
  "store_ok s \<Longrightarrow> pk_credentials s' = pk_credentials s \<Longrightarrow> pk_owners s' = pk_owners s \<Longrightarrow>
     safe_write store_ok owner_count s s' \<and> registered s' = registered s"
  by (simp add: safe_write_def store_ok_def registered_def owner_count_def)

text \<open>A new record of the one owner, filed under its index.\<close>

lemma memory_insert:
  assumes ok: "store_ok s" and o: "map_of (pk_owners s) (cd_OwnerID r) = Some v" "po_ID v' = cd_OwnerID r"
    and new: "map_of (pk_credentials s) (pk_index (cd_RPID r) (wc_ID (cd_Credential r))) = None"
    and room: "owner_count (cd_OwnerID r) (cd_RPID r) s < 20"
    and s': "pk_credentials s' = AList.update (pk_index (cd_RPID r) (wc_ID (cd_Credential r))) r (pk_credentials s)"
      "pk_owners s' = AList.update (cd_OwnerID r) v' (pk_owners s)"
  shows "safe_write store_ok owner_count s s' \<and> registered s' = registered s"
proof -
  have n: "owner_count ow rp s' = owner_count ow rp s + (if owned_by ow rp r then 1 else 0)" for ow rp
    by (rule owner_count_insert [OF store_okD(3) [OF ok] new s'(1)])
  have "store_ok s'"
  proof (rule store_okI)
    show "owner_count ow rp s' \<le> 20" for ow rp
      using n [of ow rp] room store_okD(6) [OF ok, of ow rp] by (auto simp: owned_by_def split: if_splits)
    show "length (pk_owners s') \<le> 1" using store_okD(5) [OF ok] s'(2) length_update_present [OF o(1)] by simp
    show "map_wf (pk_credentials s')" "map_wf (pk_owners s')" using store_okD(3,4) [OF ok] s' by simp_all
    show "k = pk_index (cd_RPID x) (wc_ID (cd_Credential x)) \<and> map_of (pk_owners s') (cd_OwnerID x) \<noteq> None"
      if "map_of (pk_credentials s') k = Some x" for k x
    proof (cases "k = pk_index (cd_RPID r) (wc_ID (cd_Credential r))")
      case True
      with that s' have "x = r" by simp
      with True s'(2) show ?thesis by simp
    next
      case False
      with that s' have "map_of (pk_credentials s) k = Some x" by simp
      from store_okD(1) [OF ok this] s'(2) show ?thesis by simp
    qed
    show "po_ID x = k" if "map_of (pk_owners s') k = Some x" for k x
      using that o(2) s'(2) store_okD(2) [OF ok, of k x] by (auto split: if_splits)
  qed
  moreover have "registered s' = registered s" using o(1) s'(2) by (auto simp: registered_def)
  ultimately show ?thesis using n by (simp add: safe_write_def)
qed

lemma memory_no_owner:
  assumes "store_ok s" "pk_owners s = []"
  shows "pk_credentials s = []"
proof (cases "pk_credentials s")
  case (Cons x xs)
  then have "map_of (pk_credentials s) (fst x) = Some (snd x)" by (cases x) simp
  with assms show ?thesis by (auto simp: store_ok_def)
qed

lemma memory_create:
  assumes ok: "store_ok s" and c: "CreateOwnerWithCredential ow r s = (e, s')"
  shows "safe_write store_ok owner_count s s'
    \<and> (if e = None then registered s = {} \<and> registered s' = {po_ID ow} \<and> 0 < owner_count (po_ID ow) (cd_RPID r) s'
       else registered s' = registered s)"
proof (cases e)
  case None
  with c have s': "s' = enrol (po_ID ow) ow r s" "pk_owners s = []" "cd_OwnerID r = po_ID ow"
    by (auto simp: CreateOwnerWithCredential_def split: if_splits)
  have "pk_credentials s = []" by (rule memory_no_owner [OF ok s'(2)])
  with s' None show ?thesis
    by (auto simp: enrol_def safe_write_def store_ok_def registered_def owner_count_def owned_by_def map_wf_def split: if_splits)
next
  case (Some e')
  with c have "s' = s" by (auto simp: CreateOwnerWithCredential_def split: if_splits)
  with ok Some show ?thesis by (simp add: safe_write_def)
qed

lemma memory_recover:
  assumes ok: "store_ok s" and c: "CreateCredentialForRecoveredOwner ow r p s = (e, s')"
  shows "safe_write store_ok owner_count s s' \<and> registered s' = registered s
    \<and> (e = None \<longrightarrow> po_ID ow \<in> registered s \<and> owner_count (po_ID ow) (cd_RPID r) s = 0)"
proof (cases e)
  case (Some e')
  with c have "s' = s" by (auto simp: CreateCredentialForRecoveredOwner_def split: if_splits option.splits)
  with ok Some show ?thesis by (simp add: safe_write_def)
next
  case None
  with c obtain v where v: "map_of (pk_owners s) (po_ID ow) = Some v" "cd_OwnerID r = po_ID ow"
      "s' = enrol (po_ID ow) v r s" and z: "owner_count (po_ID ow) (cd_RPID r) s = 0"
    unfolding owner_count_zero [symmetric]
    by (auto simp: CreateCredentialForRecoveredOwner_def split: if_splits option.splits)
  have new: "map_of (pk_credentials s) (pk_index (cd_RPID r) (wc_ID (cd_Credential r))) = None"
  proof (rule ccontr)
    assume "map_of (pk_credentials s) (pk_index (cd_RPID r) (wc_ID (cd_Credential r))) \<noteq> None"
    then obtain x where x: "map_of (pk_credentials s) (pk_index (cd_RPID r) (wc_ID (cd_Credential r))) = Some x" by blast
    from store_okD(1) [OF ok x] obtain y where y: "cd_RPID x = cd_RPID r" "map_of (pk_owners s) (cd_OwnerID x) = Some y" by auto
    have "cd_OwnerID x = po_ID ow" by (rule single_owner [OF _ y(2) v(1)]) (use ok in \<open>simp add: store_ok_def\<close>)
    with y(1) have "owned_by (po_ID ow) (cd_RPID r) x" by (simp add: owned_by_def)
    with map_of_SomeD [OF x] z [folded owner_count_zero] show False by fastforce
  qed
  have "po_ID v = po_ID ow" using ok v(1) by (simp add: store_ok_def)
  with memory_insert [OF ok, of r v "v\<lparr>po_Credentials := [cd_Credential r]\<rparr>" s'] v z new show ?thesis
    by (simp add: enrol_def registered_def domI)
qed

lemma memory_add:
  assumes ok: "store_ok s" and c: "CreateAdditionalCredential ow r s = (e, s')"
  shows "safe_write store_ok owner_count s s' \<and> registered s' = registered s"
proof (cases e)
  case (Some e')
  with c have "s' = s" by (auto simp: CreateAdditionalCredential_def Let_def split: if_splits option.splits)
  with ok Some show ?thesis by (simp add: safe_write_def)
next
  case None
  with c obtain v where v: "map_of (pk_owners s) (cd_OwnerID r) = Some v" "owner_count (cd_OwnerID r) (cd_RPID r) s < 20"
      "map_of (pk_credentials s) (pk_index (cd_RPID r) (wc_ID (cd_Credential r))) = None"
    and s': "pk_credentials s' = AList.update (pk_index (cd_RPID r) (wc_ID (cd_Credential r))) r (pk_credentials s)"
      "pk_owners s' = AList.update (cd_OwnerID r) (v\<lparr>po_Credentials := po_Credentials v @ [cd_Credential r]\<rparr>) (pk_owners s)"
    by (auto simp: CreateAdditionalCredential_def Let_def split: if_splits option.splits)
  from memory_insert [OF ok v(1) _ v(3,2) s'] store_okD(2) [OF ok v(1)] show ?thesis by simp
qed

text \<open>The owner's row is written again, the passkeys only shrink or change in place.\<close>

lemma memory_rewrite:
  assumes ok: "store_ok s" and o: "map_of (pk_owners s) o1 = Some v" "po_ID v' = o1"
    and s': "pk_owners s' = AList.update o1 v' (pk_owners s)" "map_wf (pk_credentials s')"
    and creds: "\<And>k x. map_of (pk_credentials s') k = Some x \<Longrightarrow> \<exists>y. map_of (pk_credentials s) k = Some y
      \<and> cd_OwnerID x = cd_OwnerID y \<and> cd_RPID x = cd_RPID y \<and> wc_ID (cd_Credential x) = wc_ID (cd_Credential y)"
    and n: "\<And>ow rp. owner_count ow rp s' \<le> owner_count ow rp s \<and> (0 < owner_count ow rp s \<longrightarrow> 0 < owner_count ow rp s')"
  shows "safe_write store_ok owner_count s s' \<and> registered s' = registered s"
proof -
  have "store_ok s'"
  proof (rule store_okI)
    show "owner_count ow rp s' \<le> 20" for ow rp using n [of ow rp] store_okD(6) [OF ok, of ow rp] by linarith
    show "length (pk_owners s') \<le> 1" using store_okD(5) [OF ok] s'(1) length_update_present [OF o(1)] by simp
    show "map_wf (pk_owners s')" using store_okD(4) [OF ok] s' by simp
    show "k = pk_index (cd_RPID x) (wc_ID (cd_Credential x)) \<and> map_of (pk_owners s') (cd_OwnerID x) \<noteq> None"
      if x: "map_of (pk_credentials s') k = Some x" for k x
    proof -
      from creds [OF x] obtain y where y: "map_of (pk_credentials s) k = Some y" "cd_OwnerID x = cd_OwnerID y"
          "cd_RPID x = cd_RPID y" "wc_ID (cd_Credential x) = wc_ID (cd_Credential y)" by blast
      from store_okD(1) [OF ok y(1)] y(2-4) s'(1) show ?thesis by simp
    qed
    show "po_ID x = k" if "map_of (pk_owners s') k = Some x" for k x
      using that o(2) s'(1) store_okD(2) [OF ok, of k x] by (auto split: if_splits)
  qed (rule s'(2))
  moreover have "registered s' = registered s" using o(1) s'(1) by (auto simp: registered_def)
  ultimately show ?thesis using n by (simp add: safe_write_def)
qed

lemma memory_revoke:
  assumes ok: "store_ok s" and c: "RevokeCredential rpid ow cid s = (e, s')"
  shows "safe_write store_ok owner_count s s' \<and> registered s' = registered s"
proof (cases "s' = s")
  case True
  with ok show ?thesis by (simp add: safe_write_def)
next
  case False
  let ?k = "pk_index rpid cid"
  from False c obtain v r where v: "map_of (pk_owners s) ow = Some v" and r: "map_of (pk_credentials s) ?k = Some r" "cd_OwnerID r = ow"
      and more: "1 < owner_count ow rpid s"
      and s': "pk_credentials s' = AList.delete ?k (pk_credentials s)"
        "pk_owners s' = AList.update ow (v\<lparr>po_Credentials := filter (\<lambda>c. wc_ID c \<noteq> cid) (po_Credentials v)\<rparr>) (pk_owners s)"
    by (auto simp: RevokeCredential_def Let_def split: if_splits option.splits)
  have key: "cd_RPID r = rpid" using store_okD(1) [OF ok r(1)] by simp
  have n: "owner_count ow' rp s = owner_count ow' rp s' + (if owned_by ow' rp r then 1 else 0)" for ow' rp
    using count_delete_Some [OF store_okD(3) [OF ok] r(1), of "\<lambda>_. owned_by ow' rp"] s'(1) by (simp add: owner_count_def)
  show ?thesis
  proof (rule memory_rewrite [OF ok v _ s'(2)])
    show "map_wf (pk_credentials s')" using store_okD(3) [OF ok] s'(1) by simp
    show "owner_count ow' rp s' \<le> owner_count ow' rp s \<and> (0 < owner_count ow' rp s \<longrightarrow> 0 < owner_count ow' rp s')" for ow' rp
      using n [of ow' rp] more r(2) key by (auto simp: owned_by_def split: if_splits)
  qed (use s'(1) store_okD(2) [OF ok v] in \<open>auto split: if_splits\<close>)
qed

lemma memory_save:
  assumes ok: "store_ok s" and c: "SaveCredential r s = (e, s')"
  shows "safe_write store_ok owner_count s s' \<and> registered s' = registered s"
proof (cases "s' = s")
  case True
  with ok show ?thesis by (simp add: safe_write_def)
next
  case False
  let ?k = "pk_index (cd_RPID r) (wc_ID (cd_Credential r))"
  from False c obtain v y where v: "map_of (pk_owners s) (cd_OwnerID r) = Some v"
      and y: "map_of (pk_credentials s) ?k = Some y" "cd_OwnerID y = cd_OwnerID r"
      and s': "pk_credentials s' = AList.update ?k r (pk_credentials s)"
        "pk_owners s' = AList.update (po_ID v) (v\<lparr>po_Credentials := map (\<lambda>c. if wc_ID c = wc_ID (cd_Credential r)
           then cd_Credential r else c) (po_Credentials v)\<rparr>) (pk_owners s)"
    by (auto simp: SaveCredential_def Let_def split: if_splits option.splits)
  have id: "po_ID v = cd_OwnerID r" by (rule store_okD(2) [OF ok v])
  have key: "cd_RPID y = cd_RPID r" "wc_ID (cd_Credential y) = wc_ID (cd_Credential r)" using store_okD(1) [OF ok y(1)] by simp_all
  have n: "owner_count ow rp s' = owner_count ow rp s" for ow rp
    by (rule owner_count_replace [OF store_okD(3) [OF ok] y(1) _ s'(1)]) (simp add: owned_by_def key y(2))
  show ?thesis
  proof (rule memory_rewrite [OF ok v _ s'(2) [unfolded id]])
    show "map_wf (pk_credentials s')" using store_okD(3) [OF ok] s'(1) by simp
  qed (use s'(1) y key n id in \<open>auto split: if_splits\<close>)
qed

lemma memory_resolve:
  assumes ok: "store_ok s" and c: "ResolveDevice d s = (x, s')"
  shows "safe_write store_ok owner_count s s' \<and> registered s' = registered s"
  by (rule memory_safe_same [OF ok]) (use c in \<open>auto simp: ResolveDevice_def Let_def split: if_splits list.splits\<close>)

interpretation memory_registry: passkey_registry memory_passkey_ops store_ok registered owner_count
  by unfold_locales
    (simp_all add: memory_passkey_ops_def memory_create memory_recover memory_add memory_revoke memory_save memory_resolve store_okD(6))

end
