(* ===== verification/Passkey_Example.thy ===== *)
theory Passkey_Example
  imports Passkey_Handlers Passkey_Registry
begin

text \<open>
  Concrete runs of the passkey handlers, with a library that accepts every response and an environment that
  does nothing in between: the properties of the handlers apply to them.
\<close>

definition pk_example_device :: device_binding where
  "pk_example_device = \<lparr>bn_InstanceID = RawURLEncode (replicate 32 7), bn_Name = ''phone''\<rparr>"

definition pk_example_owner :: "unit passkey_owner" where
  "pk_example_owner = \<lparr>po_ID = ''o'', po_Handle = replicate 64 1, po_Name = ''owner'', po_DisplayName = [], po_Credentials = []\<rparr>"

definition pk_example_credential :: "unit webauthn_credential" where
  "pk_example_credential = \<lparr>wc_ID = [3], wc_Rest = ()\<rparr>"

definition pk_example_record :: "unit credential_record" where
  "pk_example_record = \<lparr>cd_RPID = ''rp'', cd_OwnerID = ''o'', cd_DeviceID = ''d'', cd_DeviceName = ''phone'',
     cd_DeviceInstanceHash = replicate 32 7, cd_Credential = pk_example_credential, cd_CreatedAt = 5, cd_LastUsedAt = None\<rparr>"

text \<open>A store that finds the owner and accepts every write.\<close>

definition pk_example_ops :: "(unit, unit) passkey_ops" where
  "pk_example_ops = \<lparr>op_HasOwner = \<lambda>s. Inr False, op_KnownDevices = \<lambda>n s. Inr [], op_CreateOwner = \<lambda>ow r s. (None, s),
     op_OwnerForRecovery = \<lambda>rp i s. Inr pk_example_owner, op_CreateRecovered = \<lambda>ow r p s. (None, s),
     op_OwnerForAdditional = \<lambda>rp i d h s. Inr pk_example_owner, op_CreateAdditional = \<lambda>ow r s. (None, s),
     op_List = \<lambda>rp i s. Inr [], op_Revoke = \<lambda>rp i c s. (None, s), op_OwnerByHandle = \<lambda>rp h s. Inr pk_example_owner,
     op_OwnerByID = \<lambda>rp i s. Inr pk_example_owner, op_Save = \<lambda>r s. (None, s), op_Record = \<lambda>rp c s. Inr pk_example_record,
     op_ResolveDevice = \<lambda>d s. (Inr d, s)\<rparr>"

definition pk_example_service :: "(unit, unit, unit, unit, memory_bootstrap) passkey_service" where
  "pk_example_service = \<lparr>sv_rpid = ''rp'', sv_ops = pk_example_ops, sv_bootstrap = bootstrap_example_manager,
     sv_sha256 = \<lambda>b. b, sv_ParseCreation = \<lambda>b. Inr (), sv_ParseRequest = \<lambda>b. Inr (),
     sv_CreateCredential = \<lambda>ow s p. Inr pk_example_credential,
     sv_ValidateLogin = \<lambda>find s p. (case find [3] (replicate 64 1) of Inl e \<Rightarrow> Inl e | Inr ow \<Rightarrow> Inr (ow, pk_example_credential))\<rparr>"

definition pk_example_world ::
  "(unit, unit) ceremony_op list \<Rightarrow> (unit, unit, unit, unit, memory_bootstrap) pworld" where
  "pk_example_world ps = (let x = ceremony_ops ps ([], new_passkey_state) in
     \<lparr>kw_service = snd x, kw_store = (), kw_boot = bootstrap_example_state, kw_log = map Ceremony (fst x),
      kw_answers = \<lambda>n. \<lparr>ka_now = 9, ka_random = replicate 32 7, ka_others = [], ka_store = \<lambda>s. s, ka_boot = \<lambda>b. b,
        ka_registration = \<lambda>ow ex. Inr ((), ()), ka_login = Inr ((), ())\<rparr>, kw_turn = 0\<rparr>)"

lemma pk_example_sound: "sound_world (pk_example_world ps)"
  by (auto simp: sound_world_def pk_example_world_def ceremony_reach_def Let_def)

lemma pk_example_validated [simp]: "validateDeviceBinding (\<lambda>b. b) pk_example_device = Inr (replicate 32 7)"
  by (simp add: validateDeviceBinding_def pk_example_device_def trim_space_def valid_string_def utf8_valid_def
      byte_nat_def is_space_def string_runes_def is_control_def)

definition pk_example_registration :: "ceremony_kind \<Rightarrow> (unit, unit) ceremony" where
  "pk_example_registration kind = registration_ceremony ''c'' kind pk_example_owner ''d'' pk_example_device (replicate 32 7)
     (fst bootstrap_example_record) [] ()"

abbreviation pk_example_expiring :: "ceremony_kind \<Rightarrow> (unit, unit) ceremony" where
  "pk_example_expiring kind \<equiv> (pk_example_registration kind)\<lparr>ce_ExpiresAt := 5 + ceremonyTTL\<rparr>"

definition pk_example_held :: "ceremony_kind \<Rightarrow> (unit, unit) passkey_state" where
  "pk_example_held kind = new_passkey_state\<lparr>ps_ceremonies := [(''c'', pk_example_expiring kind)]\<rparr>"

lemma pk_example_begun:
  "kind \<noteq> ceremonyLogin \<Longrightarrow>
     ceremony_ops [OpSave (pk_example_registration kind) 5] ([], new_passkey_state)
       = ([Begun (pk_example_registration kind) 5], pk_example_held kind)"
  by (simp add: saveCeremony_def cleanupCeremoniesLocked_def new_passkey_state_def pk_example_held_def login_limits Let_def
      pk_example_registration_def registration_ceremony_def)

lemma pk_example_taken:
  "kind \<noteq> ceremonyLogin \<Longrightarrow> consume ''c'' kind 9 (pk_example_held kind) = (Inr (pk_example_expiring kind), new_passkey_state)"
  by (simp add: consume_def cleanupCeremoniesLocked_def pk_example_held_def new_passkey_state_def removeCeremonyLocked_def
      pk_example_registration_def registration_ceremony_def ceremonyTTL_def Let_def)

lemmas pk_run = attempt_def insist_def guarding_def pure_result_def serve_def store_read_def store_write_def boot_read_def
  boot_write_def resolve_device_def pk_answer_def pk_turn_def pk_randomID_def pk_consume_def pk_save_def pk_remember_def
  apply_ops_def read_random_def wrap_error_def Let_def

lemma pk_example_verified:
  "verifyDeviceBinding (\<lambda>b. b) (pk_example_expiring kind) pk_example_device = None"
  by (simp add: device_verified pk_example_registration_def registration_ceremony_def)

definition pk_additional_world :: "(unit, unit, unit, unit, memory_bootstrap) pworld" where
  "pk_additional_world = pk_example_world [OpSave (pk_example_registration ceremonyAdditional) 5]"

lemma pk_additional_run:
  "\<exists>meta w'. run_state (FinishAdditionalRegistration pk_example_service ''c'' ''o'' ''d'' pk_example_device []) pk_additional_world
     = (Inr meta, w')"
  by (simp add: FinishAdditionalRegistration_def pk_run pk_additional_world_def pk_example_world_def pk_example_begun
      pk_example_taken pk_example_verified pk_example_service_def pk_example_ops_def
      del: ceremony_ops.simps(2)) (simp add: pk_example_registration_def registration_ceremony_def pk_example_owner_def)

theorem additional_passkey_justified_witness:
  "\<exists>meta w' c t l1 l2 cred now.
     run_state (FinishAdditionalRegistration pk_example_service ''c'' ''o'' ''d'' pk_example_device []) pk_additional_world
       = (Inr meta, w')
     \<and> kw_log w' = Wrote (WAdd (ce_Owner c) (ceremony_record ''rp'' c ''o'' ''d'' cred now))
        # l2 @ Ceremony (Finished ''c'' c t) # l1 @ kw_log pk_additional_world
     \<and> live_ceremony pk_example_service ''c'' ceremonyAdditional pk_example_device t (l1 @ kw_log pk_additional_world) c"
proof -
  obtain meta w' where r: "run_state (FinishAdditionalRegistration pk_example_service ''c'' ''o'' ''d'' pk_example_device [])
      pk_additional_world = (Inr meta, w')" using pk_additional_run by blast
  have "sound_world pk_additional_world" by (simp add: pk_additional_world_def pk_example_sound)
  from additional_passkey_justified [OF this r] r show ?thesis by (fastforce simp: pk_example_service_def)
qed

subsection \<open>First enrolment\<close>

lemma pk_example_token:
  "validBootstrapToken (fst bootstrap_example_record)"
  "br_TokenHash (snd bootstrap_example_record) = tokenHash bootstrap_example_manager (fst bootstrap_example_record)"
  "br_ExpiresAt (snd bootstrap_example_record) = 5 + hour" "br_RecoveryOwnerID (snd bootstrap_example_record) = []"
  "fst bootstrap_example_record \<noteq> []"
  by (simp_all add: bootstrap_example_record_def Let_def validBootstrapToken_def)

lemma pk_example_accepted:
  "ValidateContext bootstrap_example_manager True (fst bootstrap_example_record) 9 bootstrap_example_state = None"
  "recoveryOwnerContext bootstrap_example_manager True (fst bootstrap_example_record) 9 bootstrap_example_state = Inr []"
  by (simp_all add: ValidateContext_def recoveryOwnerContext_def bootstrap_example_manager_def bootstrap_example_state_def
      mb_defs pk_example_token [unfolded bootstrap_example_manager_def])

definition pk_enrolment_world :: "(unit, unit, unit, unit, memory_bootstrap) pworld" where
  "pk_enrolment_world = pk_example_world [OpSave (pk_example_registration ceremonyBootstrap) 5]"

lemma pk_enrolment_run:
  "\<exists>res w'. run_state (FinishBootstrapRegistration pk_example_service True ''c'' [] pk_example_device []) pk_enrolment_world
     = (Inr res, w')"
proof -
  have c: "ce_BootstrapToken (pk_example_registration ceremonyBootstrap) = fst bootstrap_example_record"
      "ce_RecoveryOwner (pk_example_registration ceremonyBootstrap) = []"
    by (simp_all add: pk_example_registration_def registration_ceremony_def)
  obtain e b where e: "ConsumeContext bootstrap_example_manager True (fst bootstrap_example_record) 9 bootstrap_example_state = (e, b)"
    by (cases "ConsumeContext bootstrap_example_manager True (fst bootstrap_example_record) 9 bootstrap_example_state")
  show ?thesis
    by (simp add: FinishBootstrapRegistration_def pk_run pk_enrolment_world_def pk_example_world_def pk_example_begun
        pk_example_taken pk_example_verified pk_example_service_def pk_example_ops_def c pk_example_accepted e
        split: prod.split del: ceremony_ops.simps(2))
qed


subsection \<open>Login\<close>

definition pk_example_login :: "(unit, unit) ceremony" where
  "pk_example_login = login_ceremony ''c'' pk_example_device login_hash False ()"

definition pk_login_held :: "(unit, unit) passkey_state" where
  "pk_login_held = snd (commitLogin \<lparr>lr_deviceHash = login_hash, lr_known = False, lr_reserved = True\<rparr> pk_example_login 5 login_state1)"

abbreviation pk_login_expiring :: "(unit, unit) ceremony" where
  "pk_login_expiring \<equiv> pk_example_login\<lparr>ce_ExpiresAt := 5 + ceremonyTTL\<rparr>"

lemma pk_login_state1:
  "ps_ceremonies login_state1 = []" "ps_byActive login_state1 = []"
  "\<exists>d. map_of (ps_byDevice login_state1) login_hash = Some d \<and> dl_inFlight d"
  by (simp_all add: login_state1_def reserveLogin_def cleanupCeremoniesLocked_def cleanupAdmissionsLocked_def
      new_passkey_state_def found_device_def refill_device_def refill_def newTokenBucket_def global_refilled_def
      set_global_def ceremony_capacity_def login_limits)

lemma pk_login_committed:
  "commitLogin \<lparr>lr_deviceHash = login_hash, lr_known = False, lr_reserved = True\<rparr> pk_example_login 5 login_state1
     = (None, pk_login_held)"
  "ps_ceremonies pk_login_held = [(''c'', pk_login_expiring)]"
proof -
  obtain d where d: "map_of (ps_byDevice login_state1) login_hash = Some d" "dl_inFlight d" using pk_login_state1(3) by blast
  have u: "cleanupCeremoniesLocked 5 login_state1 = login_state1"
    by (simp add: cleanupCeremoniesLocked_def pk_login_state1)
  note run = commitLogin_def u d pk_login_state1 pk_example_login_def login_ceremony_def set_inFlight_def releasePendingLocked_def Let_def
  show "commitLogin \<lparr>lr_deviceHash = login_hash, lr_known = False, lr_reserved = True\<rparr> pk_example_login 5 login_state1
     = (None, pk_login_held)" unfolding pk_login_held_def by (simp add: run)
  show "ps_ceremonies pk_login_held = [(''c'', pk_login_expiring)]" unfolding pk_login_held_def by (simp add: run)
qed

definition pk_login_ops :: "(unit, unit) ceremony_op list" where
  "pk_login_ops = [OpReserve login_hash False 5,
     OpCommit \<lparr>lr_deviceHash = login_hash, lr_known = False, lr_reserved = True\<rparr> pk_example_login 5]"

lemma pk_login_begun: "ceremony_ops pk_login_ops ([], new_passkey_state) = ([Begun pk_example_login 5], pk_login_held)"
  by (simp add: pk_login_ops_def login_reserved pk_login_committed(1))

lemma pk_login_taken: "\<exists>s. consume ''c'' ceremonyLogin 9 pk_login_held = (Inr pk_login_expiring, s)"
proof -
  have "cleanupCeremoniesLocked 9 pk_login_held = pk_login_held"
    by (simp add: cleanupCeremoniesLocked_def pk_login_committed(2) pk_example_login_def login_ceremony_def ceremonyTTL_def)
  then show ?thesis by (simp add: consume_def pk_login_committed(2) pk_example_login_def login_ceremony_def)
qed

theorem ceremony_single_use_witness:
  "\<exists>s' c t post pre. consume ''c'' ceremonyLogin 9 pk_login_held = (Inr pk_login_expiring, s')
    \<and> [Begun pk_example_login 5] = post @ Begun c t # pre \<and> pk_login_expiring = c\<lparr>ce_ExpiresAt := t + ceremonyTTL\<rparr>
    \<and> 9 < t + ceremonyTTL"
proof -
  obtain s' where s': "consume ''c'' ceremonyLogin 9 pk_login_held = (Inr pk_login_expiring, s')" using pk_login_taken by blast
  have "ceremony_reach ([Begun pk_example_login 5], pk_login_held)" using pk_login_begun unfolding ceremony_reach_def by blast
  from ceremony_single_use [OF this s'] s' show ?thesis by blast
qed

definition pk_login_world :: "(unit, unit, unit, unit, memory_bootstrap) pworld" where
  "pk_login_world = pk_example_world pk_login_ops"

lemma pk_login_run:
  "\<exists>res w'. run_state (FinishLogin pk_example_service ''c'' pk_example_device []) pk_login_world = (Inr res, w')"
proof -
  obtain s' where s': "consume ''c'' ceremonyLogin 9 pk_login_held = (Inr pk_login_expiring, s')" using pk_login_taken by blast
  have v: "verifyDeviceBinding (\<lambda>b. b) pk_login_expiring pk_example_device = None"
    by (simp add: device_verified pk_example_login_def login_ceremony_def login_hash_def)
  show ?thesis
    by (simp add: FinishLogin_def pk_run pk_login_world_def pk_example_world_def pk_login_begun s' v pk_example_service_def
        pk_example_ops_def del: ceremony_ops.simps(2))
      (simp add: pk_example_record_def pk_example_owner_def)
qed

theorem login_justified_witness:
  "\<exists>ow dev w' c t l log. run_state (FinishLogin pk_example_service ''c'' pk_example_device []) pk_login_world = (Inr (ow, dev), w')
     \<and> kw_log w' = l @ Ceremony (Finished ''c'' c t) # log \<and> live_ceremony pk_example_service ''c'' ceremonyLogin pk_example_device t log c"
proof -
  obtain ow dev w' where r: "run_state (FinishLogin pk_example_service ''c'' pk_example_device []) pk_login_world
      = (Inr (ow, dev), w')" using pk_login_run by auto
  have "sound_world pk_login_world" by (simp add: pk_login_world_def pk_example_sound)
  from login_justified [OF this r] obtain c t l log where "kw_log w' = l @ Ceremony (Finished ''c'' c t) # log"
      "live_ceremony pk_example_service ''c'' ceremonyLogin pk_example_device t log c"
    by (metis append_Cons append_assoc)
  with r show ?thesis by blast
qed

subsection \<open>The in-process store\<close>

text \<open>C26:
  Once an owner is enrolled nobody else ever is, and the owner is never locked out: whatever enrolments,
  recoveries, further passkeys, revocations, logins and device changes follow in the in-process store, the one owner
  has between one and twenty passkeys, and every other enrolment is refused.
\<close>

theorem owner_never_locked_out:
  fixes ow :: "'c passkey_owner"
  assumes "registry_run memory_passkey_ops NewMemoryPasskeyStore s0" "CreateOwnerWithCredential ow r s0 = (None, s1)"
    "registry_run memory_passkey_ops s1 s"
  shows "registered s = {po_ID ow} \<and> 0 < owner_count (po_ID ow) (cd_RPID r) s \<and> owner_count (po_ID ow) (cd_RPID r) s \<le> 20
    \<and> fst (CreateOwnerWithCredential ow' r' s) \<noteq> None"
proof -
  have "store_ok (NewMemoryPasskeyStore :: 'c passkey_store)" by (simp add: store_ok_def NewMemoryPasskeyStore_def owner_count_def)
  with memory_registry.run_kept [OF assms(1)] have "store_ok s0" by (simp add: safe_write_def)
  from memory_registry.enrolled_for_good [OF this _ assms(3), of ow r ow' r'] assms(2) show ?thesis
    by (simp add: memory_passkey_ops_def)
qed

theorem owner_never_locked_out_witness:
  "\<exists>s1. CreateOwnerWithCredential pk_example_owner pk_example_record NewMemoryPasskeyStore = (None, s1)
    \<and> registered s1 = {''o''} \<and> fst (CreateOwnerWithCredential pk_example_owner pk_example_record s1) \<noteq> None"
proof -
  obtain s1 where s1: "CreateOwnerWithCredential pk_example_owner pk_example_record NewMemoryPasskeyStore = (None, s1)"
    by (simp add: CreateOwnerWithCredential_def NewMemoryPasskeyStore_def pk_example_owner_def pk_example_record_def
        credential_ok_def pk_example_credential_def)
  from owner_never_locked_out [OF registry_run.start s1 registry_run.start, of pk_example_owner pk_example_record] s1
  show ?thesis by (simp add: pk_example_owner_def)
qed

end
